(* ===== verification/Prelude.thy ===== *)
theory Prelude
  imports "HOL-Library.Word" "HOL-Library.While_Combinator" "HOL-Library.Char_ord" "HOL-Library.List_Lexorder"
begin

text \<open>
  What the component theories share: the machine types of the code, the exception
  type, the \<^theory_text>\<open>named_theorems\<close> collections the component proofs are driven by, and the
  generic lemmas on words, lists and folds.
  \<^item> \<open>u8\<close>, \<open>u16\<close>, \<open>u32\<close>, \<open>u64\<close>: the fixed-width unsigned integers of \<^verbatim>\<open><cstdint>\<close>;
    \<open>size_t\<close> and \<open>uintptr_t\<close> are 64 bits wide.
  \<^item> \<open>quill_error\<close>: what \<^verbatim>\<open>QUILL_THROW(QuillError{...})\<close> raises; functions that can throw
    return \<open>quill_error + 'a\<close>. Long message texts are abbreviated.
\<close>

unbundle bit_operations_syntax

type_synonym u8 = "8 word"
type_synonym u16 = "16 word"
type_synonym u32 = "32 word"
type_synonym u64 = "64 word"
type_synonym size_t = "64 word"
type_synonym bytes = "8 word list"

datatype quill_error =
    QuillError string
  | BadAlloc
  | StdException string

named_theorems inv_defs \<open>definitions of the components' invariants\<close>
named_theorems op_defs \<open>definitions of the components' operations\<close>

subsection \<open>Distances between positions that wrap around\<close>

text \<open>
  Ring positions are free-running words. All reasoning is about distances from a base
  position: if two positions are ordered by their distance from the base, their own
  distance is the difference, wrapped or not.
\<close>

lemma unat_diff_base:
  fixes x y b :: "'w::len word"
  assumes "unat (x - b) \<le> unat (y - b)"
  shows "unat (y - x) = unat (y - b) - unat (x - b)"
proof -
  have "y - x = (y - b) - (x - b)" by simp
  with assms show ?thesis by (metis unat_sub word_le_nat_alt)
qed

lemma unat_add_base:
  fixes x b :: "'w::len word"
  assumes "unat (x - b) + n < 2 ^ LENGTH('w)"
  shows "unat (x + of_nat n - b) = unat (x - b) + n"
proof -
  have 1: "x + of_nat n - b = (x - b) + of_nat n" by simp
  have 2: "unat ((x - b) + of_nat n) = (unat (x - b) + n) mod 2 ^ LENGTH('w)"
    by (simp add: unat_word_ariths unat_of_nat mod_add_right_eq)
  show ?thesis unfolding 1 2 using assms by simp
qed

lemma unat_rebase:
  fixes x b c :: "'w::len word"
  assumes "unat (c - b) \<le> unat (x - b)"
  shows "unat (x - b) = unat (c - b) + unat (x - c)"
  using unat_diff_base [OF assms] assms by simp

lemma unat_of_nat_small:
  "n < 2 ^ LENGTH('w) \<Longrightarrow> unat (of_nat n :: 'w::len word) = n"
  by (simp add: unat_of_nat)

lemma unat_of_nat_le:
  fixes x :: "'w::len word"
  assumes "n \<le> unat x"
  shows "unat (of_nat n :: 'w word) = n"
proof -
  have "unat x < 2 ^ LENGTH('w)" by (rule unsigned_less)
  with assms have "n < 2 ^ LENGTH('w)" by (rule le_less_trans)
  then show ?thesis by (simp add: unat_of_nat)
qed

lemma unat_diff_advance:
  fixes w p :: "'w::len word"
  assumes "n \<le> unat (w - p)"
  shows "unat (w - (p + of_nat n)) = unat (w - p) - n"
proof -
  have 1: "w - (p + of_nat n) = (w - p) - of_nat n" by simp
  have "(of_nat n :: 'w word) \<le> w - p"
    using assms unat_of_nat_le [OF assms] by (simp add: word_le_nat_alt)
  then show ?thesis unfolding 1 by (simp only: unat_sub unat_of_nat_le [OF assms])
qed

subsection \<open>Masks of a power of two\<close>

lemma and_pow2_minus_1:
  fixes x c :: "'w::len word"
  assumes "unat c = 2 ^ k"
  shows "unat (x AND (c - 1)) = unat x mod unat c"
proof -
  have "c = of_nat (unat c)" by simp
  then have "c = 2 ^ k" unfolding assms by simp
  then have "c - 1 = mask k" by (simp add: mask_eq_decr_exp)
  then have "x AND (c - 1) = take_bit k x" by (simp only: take_bit_eq_mask)
  then have "unat (x AND (c - 1)) = take_bit k (unat x)" by (simp only: unsigned_take_bit_eq)
  then show ?thesis using assms by (simp only: take_bit_eq_mod)
qed

lemma unat_mod_add:
  fixes x :: "'w::len word"
  assumes "unat c = 2 ^ k" "k \<le> LENGTH('w)"
  shows "unat (x + of_nat n) mod 2 ^ k = (unat x + n) mod 2 ^ k"
proof -
  have "(2::nat) ^ k dvd 2 ^ LENGTH('w)" using assms(2) by (simp add: le_imp_power_dvd)
  then show ?thesis
    by (simp add: unat_word_ariths unat_of_nat mod_mod_cancel mod_add_right_eq)
qed

lemma mod_offset_inj:
  fixes a i j n :: nat
  assumes "(a + i) mod n = (a + j) mod n" "i < n" "j < n"
  shows "i = j"
proof -
  have *: "i = j" if "(a + i) mod n = (a + j) mod n" "i \<le> j" "j < n" for i j
  proof -
    have "n dvd (a + j) - (a + i)"
      using that(1,2) mod_eq_dvd_iff_nat [of "a + i" "a + j" n] by simp
    then have "n dvd j - i" by simp
    then show ?thesis using that(2,3) by (auto dest: dvd_imp_le)
  qed
  show ?thesis
  proof (cases "i \<le> j")
    case True
    then show ?thesis using * [of i j] assms by blast
  next
    case False
    then show ?thesis using * [of j i] assms by (metis nat_le_linear)
  qed
qed

subsection \<open>Reading and writing a byte range of a list\<close>

definition slice :: "nat \<Rightarrow> nat \<Rightarrow> 'a list \<Rightarrow> 'a list" where
  "slice off n xs = take n (drop off xs)"

definition splice :: "nat \<Rightarrow> 'a list \<Rightarrow> 'a list \<Rightarrow> 'a list" where
  "splice off ys xs = take off xs @ ys @ drop (off + length ys) xs"

lemma length_slice [simp]: "length (slice off n xs) = min n (length xs - off)"
  by (simp add: slice_def)

lemma length_splice [simp]:
  "off + length ys \<le> length xs \<Longrightarrow> length (splice off ys xs) = length xs"
  by (simp add: splice_def)

lemma slice_append: "slice (length xs) (length ys) (xs @ ys @ zs) = ys"
  by (simp add: slice_def)

lemma slice_append_at: "n = length xs \<Longrightarrow> k = length ys \<Longrightarrow> slice n k (xs @ ys @ zs) = ys"
  by (simp add: slice_append)

lemma slice_splice_same:
  "off + length ys \<le> length xs \<Longrightarrow> slice off (length ys) (splice off ys xs) = ys"
  by (simp add: slice_def splice_def)

lemma splice_adjacent:
  assumes "off + length xs + length ys \<le> length zs"
  shows "splice (off + length xs) ys (splice off xs zs) = splice off (xs @ ys) zs"
proof -
  have "take (off + length xs) (splice off xs zs) = take off zs @ xs"
    using assms by (simp add: splice_def)
  moreover have "drop (off + length xs + length ys) (splice off xs zs) = drop (off + length xs + length ys) zs"
    using assms by (simp add: splice_def add.assoc add.commute)
  ultimately show ?thesis by (simp add: splice_def add.assoc)
qed

lemma drop_splice:
  assumes "off \<le> length zs"
  shows "drop off (splice off xs zs) = xs @ drop (off + length xs) zs"
  using assms by (simp add: splice_def)

lemma slice_splice_disjoint:
  assumes "off + length ys \<le> length xs"
    and "o2 + n \<le> off \<or> off + length ys \<le> o2"
  shows "slice o2 n (splice off ys xs) = slice o2 n xs"
  using assms(2)
proof
  assume before: "o2 + n \<le> off"
  have "take n (drop o2 (take off xs @ zs)) = take n (drop o2 xs)" for zs
    using before assms(1) by (auto simp: drop_take min_def)
  then show ?thesis unfolding slice_def splice_def by (simp only:)
next
  assume after: "off + length ys \<le> o2"
  have "drop o2 (take off xs @ ys @ drop (off + length ys) xs) = drop o2 xs"
    using after assms(1) by (simp add: drop_append)
  then show ?thesis unfolding slice_def splice_def by (simp only:)
qed

end
