(* ===== verification/Std_String.thy ===== *)
theory Std_String
  imports Prelude "HOL-Library.Sublist"
begin

text \<open>
  The parts of the C++ standard library's strings the components use: \<^verbatim>\<open>find\<close> from an index,
  \<^verbatim>\<open>rfind\<close> of a character, \<^verbatim>\<open>std::tolower\<close> in the C locale, \<^verbatim>\<open>std::to_string\<close> of an unsigned integer,
  and the ordered map from strings to strings. A position is a \<^typ>\<open>nat\<close>, \<open>None\<close> is \<^verbatim>\<open>npos\<close>.
\<close>

subsection \<open>Searching\<close>

fun str_find :: "string \<Rightarrow> string \<Rightarrow> nat option" where
  "str_find p [] = (if p = [] then Some 0 else None)"
| "str_find p (c # s) = (if prefix p (c # s) then Some 0 else map_option Suc (str_find p s))"

definition find_from :: "string \<Rightarrow> string \<Rightarrow> nat \<Rightarrow> nat option" where
  "find_from p s i = (if i \<le> length s then map_option ((+) i) (str_find p (drop i s)) else None)"

definition rfind_char :: "char \<Rightarrow> string \<Rightarrow> nat option" where
  "rfind_char c s = map_option (\<lambda>i. length s - 1 - i) (str_find [c] (rev s))"

lemma str_find_Some:
  assumes "str_find p s = Some i"
  shows "i + length p \<le> length s" "take (length p) (drop i s) = p"
proof -
  have "i + length p \<le> length s \<and> take (length p) (drop i s) = p"
    using assms
  proof (induction s arbitrary: i)
    case (Cons c s)
    show ?case
    proof (cases "prefix p (c # s)")
      case True
      then have "length p \<le> length (c # s)" by (rule prefix_length_le)
      moreover have "take (length p) (c # s) = p" using True by (auto simp: prefix_def)
      ultimately show ?thesis using Cons.prems True by auto
    qed (use Cons in auto)
  qed (auto split: if_splits)
  then show "i + length p \<le> length s" "take (length p) (drop i s) = p" by auto
qed

lemma str_find_split:
  assumes "str_find p s = Some i"
  shows "s = take i s @ p @ drop (i + length p) s"
  using str_find_Some [OF assms] by (metis append_take_drop_id drop_drop add.commute)

lemma str_find_skip:
  assumes "c \<notin> set s"
  shows "str_find (c # p) (s @ c # p @ t) = Some (length s)"
  using assms by (induction s) auto

lemma str_find_none:
  assumes "c \<notin> set s"
  shows "str_find (c # p) s = None"
  using assms by (induction s) auto

lemma find_from_Some:
  assumes "find_from p s i = Some j"
  shows "i \<le> j" "j + length p \<le> length s" "take (length p) (drop j s) = p"
proof -
  obtain k where k: "str_find p (drop i s) = Some k" "j = i + k" "i \<le> length s"
    using assms by (auto simp: find_from_def split: if_splits)
  with str_find_Some [OF k(1)] show "i \<le> j" "j + length p \<le> length s" "take (length p) (drop j s) = p"
    by (auto simp: add.commute)
qed

subsection \<open>Case\<close>

definition tolower :: "char \<Rightarrow> char" where
  "tolower c = (if CHR ''A'' \<le> c \<and> c \<le> CHR ''Z'' then char_of ((of_char c :: nat) + 32) else c)"

subsection \<open>Decimal numbers\<close>

fun to_string :: "nat \<Rightarrow> string" where
  "to_string n = (if n < 10 then [char_of (48 + n)] else to_string (n div 10) @ [char_of (48 + n mod 10)])"

declare to_string.simps [simp del]

definition digit_value :: "char \<Rightarrow> nat" where
  "digit_value c = of_char c - 48"

definition is_digit :: "char \<Rightarrow> bool" where
  "is_digit c \<longleftrightarrow> 48 \<le> (of_char c :: nat) \<and> (of_char c :: nat) \<le> 57"

fun decimal_value :: "nat \<Rightarrow> string \<Rightarrow> nat" where
  "decimal_value acc [] = acc"
| "decimal_value acc (c # s) = decimal_value (acc * 10 + digit_value c) s"

lemma decimal_value_append [simp]: "decimal_value acc (s @ [c]) = decimal_value acc s * 10 + digit_value c"
  by (induction s arbitrary: acc) auto

lemma digit_char [simp]:
  assumes "d < 10"
  shows "digit_value (char_of (48 + d)) = d" "is_digit (char_of (48 + d))"
  using assms by (auto simp: digit_value_def is_digit_def)

lemma decimal_value_to_string [simp]: "decimal_value 0 (to_string n) = n"
proof (induction n rule: to_string.induct)
  case (1 n)
  then show ?case by (subst to_string.simps) auto
qed

lemma to_string_inj [simp]: "to_string m = to_string n \<longleftrightarrow> m = n"
  by (metis decimal_value_to_string)

lemma to_string_digits: "c \<in> set (to_string n) \<Longrightarrow> is_digit c"
proof (induction n rule: to_string.induct)
  case (1 n)
  then show ?case by (subst (asm) (2) to_string.simps) (auto split: if_splits)
qed

lemma to_string_ne [simp]: "to_string n \<noteq> []"
  by (subst to_string.simps) simp

subsection \<open>\<^verbatim>\<open>std::map<std::string, V>\<close>\<close>

text \<open>
  An association list in ascending key order (\<^verbatim>\<open>std::string::compare\<close> compares as unsigned
  characters, which is the order of \<^theory_text>\<open>Char_ord\<close>). \<open>smap_ok\<close> is its invariant.
\<close>

fun smap_insert :: "string \<Rightarrow> 'v \<Rightarrow> (string \<times> 'v) list \<Rightarrow> (string \<times> 'v) list" where
  "smap_insert k v [] = [(k, v)]"
| "smap_insert k v ((k', v') # m) =
     (if k < k' then (k, v) # (k', v') # m
      else if k = k' then (k, v) # m
      else (k', v') # smap_insert k v m)"

definition smap_erase :: "string \<Rightarrow> (string \<times> 'v) list \<Rightarrow> (string \<times> 'v) list" where
  "smap_erase k m = filter (\<lambda>(k', _). k' \<noteq> k) m"

definition smap_ok :: "(string \<times> 'v) list \<Rightarrow> bool" where
  "smap_ok m \<longleftrightarrow> sorted_wrt (<) (map fst m)"

lemma smap_ok_Nil [simp]: "smap_ok []"
  by (simp add: smap_ok_def)

lemma smap_insert_keys: "set (map fst (smap_insert k v m)) = insert k (set (map fst m))"
  by (induction k v m rule: smap_insert.induct) auto

lemma smap_insert_ok: "smap_ok m \<Longrightarrow> smap_ok (smap_insert k v m)"
proof (induction k v m rule: smap_insert.induct)
  case (2 k v k' v' m)
  then have "smap_ok m" "\<forall>x \<in> set (map fst m). k' < x" by (auto simp: smap_ok_def)
  with 2 smap_insert_keys [of k v m] show ?case by (auto simp: smap_ok_def)
qed (simp add: smap_ok_def)

lemma smap_erase_ok: "smap_ok m \<Longrightarrow> smap_ok (smap_erase k m)"
  by (induction m) (auto simp: smap_ok_def smap_erase_def)

lemma smap_insert_map_of:
  assumes "smap_ok m"
  shows "map_of (smap_insert k v m) = (map_of m)(k \<mapsto> v)"
  using assms by (induction k v m rule: smap_insert.induct) (auto simp: smap_ok_def)

lemma smap_erase_map_of: "map_of (smap_erase k m) = (map_of m)(k := None)"
  by (induction m) (auto simp: smap_erase_def fun_eq_iff)

text \<open>A map with this invariant is determined by its lookups.\<close>

lemma smap_ok_distinct: "smap_ok m \<Longrightarrow> distinct (map fst m)"
  unfolding smap_ok_def by (induction m) auto

lemma smap_eqI:
  assumes "smap_ok m" "smap_ok m'" "map_of m = map_of m'"
  shows "m = m'"
proof -
  have keys: "set (map fst m) = set (map fst m')"
    using assms(3) by (metis dom_map_of_conv_image_fst list.set_map)
  have "map fst m = map fst m'"
    using assms(1,2) keys unfolding smap_ok_def
    by (intro strict_sorted_equal) (auto simp: strict_sorted_iff)
  moreover have "m = map (\<lambda>k. (k, the (map_of m k))) (map fst m)"
    using smap_ok_distinct [OF assms(1)] by (auto intro!: map_idI [symmetric])
  moreover have "m' = map (\<lambda>k. (k, the (map_of m' k))) (map fst m')"
    using smap_ok_distinct [OF assms(2)] by (auto intro!: map_idI [symmetric])
  ultimately show ?thesis using assms(3) by metis
qed

end
