(* ===== verification/Common.thy ===== *)
theory Common
  imports Prelude
begin

text \<open>
  \<^verbatim>\<open>quill/core/Common.h\<close>: the enumerations and cache-line constants every component uses.
\<close>

datatype queue_type = UnboundedBlocking | UnboundedDropping | BoundedBlocking | BoundedDropping

datatype timezone = LocalTime | GmtTime

datatype sink_flush_reason = Periodic | Explicit | Final

datatype clock_source_type = Tsc | System | User

datatype huge_pages_policy = Never | Always | Try

definition QUILL_CACHE_LINE_SIZE :: size_t where
  "QUILL_CACHE_LINE_SIZE = 64"

definition QUILL_CACHE_LINE_ALIGNED :: size_t where
  "QUILL_CACHE_LINE_ALIGNED = 2 * QUILL_CACHE_LINE_SIZE"

definition SIZE_MAX :: size_t where
  "SIZE_MAX = - 1"

subsection \<open>The contract of a queue between one producer and one consumer\<close>

text \<open>
  Several components are queues: the bounded ring, the chain of rings, the buffer of decoded
  events. Their clients rely on one contract. \<open>rel q ms\<close> says that the queue state \<open>q\<close> holds
  the messages \<open>ms\<close>, oldest first; \<open>put\<close> answers whether the message was taken; \<open>tau\<close> is any
  housekeeping step (publishing a position, refreshing a cached one, shrinking); \<open>get\<close>
  answers \<open>None\<close> when it found nothing, which a chain may do before it is empty.
  \<open>fifo_run\<close> is every interleaving of the producer, the consumer and housekeeping.
\<close>

inductive fifo_run ::
  "('m \<Rightarrow> bool) \<Rightarrow> ('m \<Rightarrow> 'q \<Rightarrow> bool \<times> 'q) \<Rightarrow> ('q \<Rightarrow> 'm option \<times> 'q) \<Rightarrow> ('q \<Rightarrow> 'q \<Rightarrow> bool)
    \<Rightarrow> 'q \<Rightarrow> 'm list \<Rightarrow> 'm list \<Rightarrow> 'q \<Rightarrow> bool"
  for ok put get tau q0 where
  start: "fifo_run ok put get tau q0 [] [] q0"
| put_taken: "fifo_run ok put get tau q0 sent recv q \<Longrightarrow> ok m \<Longrightarrow> put m q = (True, q') \<Longrightarrow>
     fifo_run ok put get tau q0 (sent @ [m]) recv q'"
| put_refused: "fifo_run ok put get tau q0 sent recv q \<Longrightarrow> ok m \<Longrightarrow> put m q = (False, q') \<Longrightarrow>
     fifo_run ok put get tau q0 sent recv q'"
| get_one: "fifo_run ok put get tau q0 sent recv q \<Longrightarrow> get q = (Some m, q') \<Longrightarrow>
     fifo_run ok put get tau q0 sent (recv @ [m]) q'"
| get_empty: "fifo_run ok put get tau q0 sent recv q \<Longrightarrow> get q = (None, q') \<Longrightarrow>
     fifo_run ok put get tau q0 sent recv q'"
| housekeeping: "fifo_run ok put get tau q0 sent recv q \<Longrightarrow> tau q q' \<Longrightarrow>
     fifo_run ok put get tau q0 sent recv q'"

locale fifo_queue =
  fixes rel :: "'q \<Rightarrow> 'm list \<Rightarrow> bool"
    and ok :: "'m \<Rightarrow> bool"
    and put :: "'m \<Rightarrow> 'q \<Rightarrow> bool \<times> 'q"
    and get :: "'q \<Rightarrow> 'm option \<times> 'q"
    and tau :: "'q \<Rightarrow> 'q \<Rightarrow> bool"
  assumes put_law: "rel q ms \<Longrightarrow> ok m \<Longrightarrow>
      rel (snd (put m q)) (if fst (put m q) then ms @ [m] else ms)"
    and get_some_law: "rel q ms \<Longrightarrow> get q = (Some m, q') \<Longrightarrow> \<exists>ms'. ms = m # ms' \<and> rel q' ms'"
    and get_none_law: "rel q ms \<Longrightarrow> get q = (None, q') \<Longrightarrow> rel q' ms"
    and tau_law: "rel q ms \<Longrightarrow> tau q q' \<Longrightarrow> rel q' ms"
begin

lemma run_conserves:
  assumes "fifo_run ok put get tau q0 sent recv q" "rel q0 []"
  shows "\<exists>held. sent = recv @ held \<and> rel q held"
  using assms
proof (induction rule: fifo_run.induct)
  case start
  then show ?case by auto
next
  case (put_taken sent recv q m q')
  then obtain held where "sent = recv @ held" "rel q held" by blast
  with put_law [OF this(2) \<open>ok m\<close>] \<open>put m q = (True, q')\<close> show ?case by auto
next
  case (put_refused sent recv q m q')
  then obtain held where "sent = recv @ held" "rel q held" by blast
  with put_law [OF this(2) \<open>ok m\<close>] \<open>put m q = (False, q')\<close> show ?case by auto
next
  case (get_one sent recv q m q')
  then obtain held where h: "sent = recv @ held" "rel q held" by blast
  with get_some_law [OF h(2) \<open>get q = (Some m, q')\<close>] show ?case by auto
next
  case (get_empty sent recv q q')
  then show ?case using get_none_law by blast
next
  case (housekeeping sent recv q q')
  then show ?case using tau_law by blast
qed

lemma run_fifo:
  assumes "fifo_run ok put get tau q0 sent recv q" "rel q0 []"
  shows "recv = take (length recv) sent"
  using run_conserves [OF assms] by auto

end

text \<open>A queue whose consumer is told to be empty only when it is.\<close>

locale exact_fifo_queue = fifo_queue +
  assumes get_exact: "rel q (m # ms) \<Longrightarrow> fst (get q) \<noteq> None"
begin

lemma run_empty_means_all_received:
  assumes "fifo_run ok put get tau q0 sent recv q" "rel q0 []" "fst (get q) = None"
  shows "recv = sent"
proof -
  obtain held where "sent = recv @ held" "rel q held" using run_conserves [OF assms(1,2)] by blast
  with get_exact [of q "hd held" "tl held"] assms(3) show ?thesis by (cases held) auto
qed

lemma get_drains:
  assumes "rel q ms"
  shows "rel (((\<lambda>s. snd (get s)) ^^ length ms) q) []"
  using assms
proof (induction ms arbitrary: q)
  case (Cons m ms)
  obtain r q' where g: "get q = (r, q')" by fastforce
  with get_exact [OF Cons.prems] obtain m' where r: "r = Some m'" by (cases r) auto
  then have "rel q' ms" using get_some_law [OF Cons.prems] g by fastforce
  from Cons.IH [OF this] g show ?case by (simp add: funpow_Suc_right del: funpow.simps)
qed simp

end

text \<open>
  Threads that act on shared state in steps: what holds at the start and is kept by every step holds
  in every state a run reaches.
\<close>

locale step_invariant =
  fixes step :: "'s \<Rightarrow> 's \<Rightarrow> bool"
    and start :: "'s \<Rightarrow> bool"
    and inv :: "'s \<Rightarrow> bool"
  assumes start_law: "start s \<Longrightarrow> inv s"
    and step_law: "step s s' \<Longrightarrow> inv s \<Longrightarrow> inv s'"
begin

lemma reachable:
  assumes "step\<^sup>*\<^sup>* s0 s" "start s0"
  shows "inv s"
  using assms(1) by (induction rule: rtranclp_induct) (use start_law [OF assms(2)] step_law in blast)+

end

end
