(* ===== verification/Math_Utilities.thy ===== *)
theory Math_Utilities
  imports Prelude
begin

text \<open>
  \<^verbatim>\<open>quill/core/MathUtilities.h\<close>: the power-of-two helpers every ring buffer is sized with.
  The doubling loop is kept as a \<open>while\<close> on the 64-bit result.
\<close>

definition is_power_of_two :: "u64 \<Rightarrow> bool" where
  "is_power_of_two number \<longleftrightarrow> number \<noteq> 0 \<and> (number AND (number - 1)) = 0"

definition max_power_of_2 :: size_t where
  "max_power_of_2 = drop_bit 1 (- 1) + 1"

definition next_power_of_two :: "size_t \<Rightarrow> size_t" where
  "next_power_of_two n =
     (if n \<ge> max_power_of_2 then max_power_of_2
      else if is_power_of_two n then n
      else while (\<lambda>result. result < n) (\<lambda>result. push_bit 1 result) 1)"

lemma floor_power_of_two:
  fixes n :: nat
  assumes "0 < n"
  obtains k where "2 ^ k \<le> n" "n < 2 ^ Suc k"
  using assms ex_power_ivl1 [of 2 n] by auto

lemma power_of_two_bounded:
  assumes "unat (x :: u64) = 2 ^ k"
  shows "k < 64"
proof -
  have "unat x < 2 ^ LENGTH(64)" by (rule unsigned_less)
  then have "(2::nat) ^ k < 2 ^ 64" unfolding assms by simp
  then show ?thesis using power_strict_increasing_iff [of "2::nat" k 64] by (simp only: one_less_numeral_iff semiring_norm)
qed

text \<open>
  \<open>is_power_of_two\<close>, the bit trick \<^verbatim>\<open>(n & (n - 1)) == 0\<close>, accepts exactly the powers of two.
\<close>

lemma is_power_of_two_iff: "is_power_of_two x \<longleftrightarrow> (\<exists>k. unat x = 2 ^ k)"
proof
  assume p: "is_power_of_two x"
  then have "0 < unat x" by (simp add: is_power_of_two_def unat_gt_0)
  then obtain k where k: "2 ^ k \<le> unat x" "unat x < 2 ^ Suc k"
    by (rule floor_power_of_two)
  have "unat x = 2 ^ k"
  proof (rule ccontr)
    assume "unat x \<noteq> 2 ^ k"
    with k have "(unat x - 1) div 2 ^ k = 1" "unat x div 2 ^ k = 1"
      by (auto intro!: div_nat_eqI)
    then have "bit (unat x) k" "bit (unat x - 1) k" by (auto simp: bit_iff_odd)
    moreover have "unat (x - 1) = unat x - 1"
      using p by (simp add: is_power_of_two_def unat_minus_one)
    ultimately have "bit x k" "bit (x - 1) k" 
      by (metis bit_unsigned_iff)+
    then have "bit (x AND (x - 1)) k" by (simp add: bit_and_iff)
    then show False using p by (simp add: is_power_of_two_def)
  qed
  then show "\<exists>k. unat x = 2 ^ k" by blast
next
  assume "\<exists>k. unat x = 2 ^ k"
  then obtain k where k: "unat x = 2 ^ k" by blast
  then have "x \<noteq> 0" by auto
  moreover have "unat (x AND (x - 1)) = 0" using and_pow2_minus_1 [OF k] by simp
  ultimately show "is_power_of_two x" by (simp add: is_power_of_two_def unat_eq_zero)
qed


lemma max_power_of_2_value: "max_power_of_2 = 2 ^ 63"
  by (simp add: max_power_of_2_def mask_eq_decr_exp)

lemma unat_max_power_of_2: "unat max_power_of_2 = 2 ^ 63"
  by (simp add: max_power_of_2_value)

text \<open>The doubling loop: every value is a power of two, and the one before is below \<open>n\<close>.\<close>

lemma unat_double:
  assumes "unat (r :: u64) = 2 ^ j" "j < 63"
  shows "unat (push_bit 1 r) = 2 ^ Suc j"
proof -
  have "push_bit 1 r = r + r" by (simp only: push_bit_eq_mult power_one_right mult_2_right)
  moreover have "unat r + unat r < 2 ^ LENGTH(64)"
  proof -
    have "(2::nat) ^ Suc j \<le> 2 ^ 63" using assms(2) by (intro power_increasing) auto
    then show ?thesis using assms(1) by simp
  qed
  ultimately have "unat (push_bit 1 r) = unat r + unat r"
    by (simp only: unat_word_ariths mod_less)
  then show ?thesis using assms(1) by simp
qed

definition npo2_inv :: "u64 \<Rightarrow> u64 \<Rightarrow> bool" where
  "npo2_inv n r \<longleftrightarrow> (\<exists>j. unat r = 2 ^ j \<and> (j = 0 \<or> 2 ^ (j - 1) < unat n))"

lemma npo2_inv_step:
  assumes "npo2_inv n r" "r < n" "n < max_power_of_2"
  shows "npo2_inv n (push_bit 1 r)" "unat r < unat (push_bit 1 r)"
proof -
  obtain j where j: "unat r = 2 ^ j" using assms(1) by (auto simp: npo2_inv_def)
  have "(2::nat) ^ j < unat n" using assms(2) j by (simp add: word_less_nat_alt)
  moreover have "unat n < 2 ^ 63" using assms(3) by (simp add: word_less_nat_alt unat_max_power_of_2)
  ultimately have "(2::nat) ^ j < 2 ^ 63" by (rule less_trans)
  then have "j < 63" by (simp only: power_strict_increasing_iff)
  from unat_double [OF j this] \<open>2 ^ j < unat n\<close> j
  show "npo2_inv n (push_bit 1 r)" "unat r < unat (push_bit 1 r)"
    unfolding npo2_inv_def by (auto intro!: exI [of _ "Suc j"])
qed

lemma npo2_loop:
  assumes "n < max_power_of_2"
  shows "npo2_inv n (while (\<lambda>r. r < n) (push_bit 1) 1) \<and> n \<le> while (\<lambda>r. r < n) (push_bit 1) 1"
proof (rule while_rule [where P = "npo2_inv n" and r = "measure (\<lambda>r. unat n - unat r)"])
  show "npo2_inv n 1" unfolding npo2_inv_def by (rule exI [of _ 0]) simp
next
  fix r assume "npo2_inv n r" "r < n"
  then show "npo2_inv n (push_bit 1 r)" using assms by (rule npo2_inv_step)
  show "(push_bit 1 r, r) \<in> measure (\<lambda>r. unat n - unat r)"
    using npo2_inv_step [OF \<open>npo2_inv n r\<close> \<open>r < n\<close> assms] \<open>r < n\<close>
    by (simp add: word_less_nat_alt)
qed auto

lemma next_power_of_two_loop:
  assumes "n < max_power_of_2" "\<not> is_power_of_two n"
  shows "next_power_of_two n = while (\<lambda>r. r < n) (push_bit 1) 1"
  using assms unfolding next_power_of_two_def by (simp only: not_le [symmetric] if_False)

text \<open>
  \<open>next_power_of_two n\<close> is the least power of two that is not below \<open>n\<close>, for every \<open>n\<close> that
  has one in 64 bits; the doubling loop stops.
\<close>

theorem next_power_of_two_least:
  assumes "n \<le> max_power_of_2"
  shows "is_power_of_two (next_power_of_two n) \<and> n \<le> next_power_of_two n
    \<and> (\<forall>p. is_power_of_two p \<and> n \<le> p \<longrightarrow> next_power_of_two n \<le> p)"
proof (cases "n = max_power_of_2 \<or> is_power_of_two n")
  case True
  moreover have "is_power_of_two max_power_of_2"
    unfolding is_power_of_two_iff unat_max_power_of_2 by blast
  ultimately show ?thesis using assms by (auto simp: next_power_of_two_def)
next
  case False
  with assms have lt: "n < max_power_of_2" by (simp only: less_le) blast
  define r where "r = while (\<lambda>r. r < n) (push_bit 1) 1"
  have r: "next_power_of_two n = r" using False next_power_of_two_loop [OF lt] by (simp only: r_def) blast
  have inv: "npo2_inv n r" and le: "n \<le> r" using npo2_loop [OF lt] unfolding r_def by auto
  obtain j where j: "unat r = 2 ^ j" "j = 0 \<or> 2 ^ (j - 1) < unat n"
    using inv by (auto simp: npo2_inv_def)
  have "r \<le> p" if p: "is_power_of_two p" and np: "n \<le> p" for p
  proof -
    obtain i where i: "unat p = 2 ^ i" using p by (auto simp: is_power_of_two_iff)
    have "j \<le> i"
    proof (cases "j = 0")
      case False
      with j have "(2::nat) ^ (j - 1) < unat n" by simp
      also have "unat n \<le> 2 ^ i" using np i by (simp add: word_le_nat_alt)
      finally have "j - 1 < i" by (rule power_less_imp_less_exp [rotated]) simp
      then show ?thesis by simp
    qed simp
    then have "(2::nat) ^ j \<le> 2 ^ i" by (intro power_increasing) auto
    then show ?thesis using i j by (simp add: word_le_nat_alt)
  qed
  then show ?thesis using j le unfolding r is_power_of_two_iff by blast
qed

lemma next_power_of_two_big: "max_power_of_2 < n \<Longrightarrow> next_power_of_two n = max_power_of_2"
  unfolding next_power_of_two_def by (simp only: less_imp_le if_True)

lemma next_power_of_two_is_power: "is_power_of_two (next_power_of_two n)"
proof (cases "n < max_power_of_2")
  case True
  then show ?thesis
    using npo2_loop [OF True] next_power_of_two_loop [OF True]
    by (cases "is_power_of_two n") (auto simp: next_power_of_two_def is_power_of_two_iff npo2_inv_def)
next
  case False
  then have "next_power_of_two n = max_power_of_2" by (simp add: next_power_of_two_def not_less)
  then show ?thesis unfolding is_power_of_two_iff by (simp only: unat_max_power_of_2) blast
qed

lemma next_power_of_two_ge:
  assumes "n \<le> max_power_of_2"
  shows "n \<le> next_power_of_two n"
proof (cases "n < max_power_of_2")
  case True
  then show ?thesis using npo2_loop [OF True] next_power_of_two_loop [OF True]
    by (cases "is_power_of_two n") (auto simp: next_power_of_two_def)
qed (use assms in \<open>simp add: next_power_of_two_def not_less\<close>)

theorem next_power_of_two_least_witness:
  "(100 :: size_t) \<le> max_power_of_2 \<and> is_power_of_two (next_power_of_two 100)"
  using next_power_of_two_least [of 100] by (simp add: max_power_of_2_value)

end
