(* ===== verification/Bounded_Queue.thy ===== *)
theory Bounded_Queue
  imports Common Math_Utilities
begin

text \<open>
  \<^verbatim>\<open>quill/core/BoundedSPSCQueue.h\<close>: the single-producer single-consumer byte ring. The class
  template's \<^verbatim>\<open>integer_type\<close> is a word of any length \<open>'w\<close>: positions are free-running \<open>'w\<close>-bit
  words that wrap. The storage is twice the capacity, so that a message that starts before
  the end of the ring is written in one piece.
  Each operation touches at most one atomic of the other thread, so the interleavings of
  whole operations are the interleavings of the program.
\<close>

record 'p bounded_queue =
  bq_capacity :: 'p
  bq_mask :: 'p
  bq_bytes_per_batch :: 'p
  bq_storage :: bytes
  bq_huge_pages_policy :: huge_pages_policy
  bq_atomic_writer_pos :: 'p
  bq_writer_pos :: 'p
  bq_reader_pos_cache_plus_capacity :: 'p
  bq_atomic_reader_pos :: 'p
  bq_reader_pos :: 'p
  bq_writer_pos_cache :: 'p

subsection \<open>Construction\<close>

definition max_integer_capacity :: "'w::len itself \<Rightarrow> size_t" where
  "max_integer_capacity _ =
     (if LENGTH('w) div 8 \<ge> 8 then SIZE_MAX
      else if LENGTH('w) div 8 \<le> 1 then 255
      else if LENGTH('w) div 8 \<le> 2 then 65535
      else if LENGTH('w) div 8 \<le> 4 then 4294967295
      else - 1)"

definition validate_capacity :: "'w::len word \<Rightarrow> quill_error + 'w word" where
  "validate_capacity capacity =
     (let rounded_capacity = next_power_of_two (ucast capacity);
          metadata_size = 2 * 8;
          max_rounded_capacity = (SIZE_MAX - metadata_size - QUILL_CACHE_LINE_ALIGNED) div 2
      in if rounded_capacity > max_integer_capacity TYPE('w)
         then Inl (QuillError ''BoundedSPSCQueue capacity exceeds the queue position type'')
         else if rounded_capacity > max_rounded_capacity
         then Inl (QuillError ''BoundedSPSCQueue capacity is too large'')
         else Inr (ucast rounded_capacity))"

definition bytes_per_batch :: "'w::len word \<Rightarrow> 'w word \<Rightarrow> 'w word" where
  "bytes_per_batch capacity reader_store_percent =
     of_nat ((unat capacity * unat reader_store_percent) div 100)"

definition bq_new :: "'w::len word \<Rightarrow> huge_pages_policy \<Rightarrow> 'w word \<Rightarrow> quill_error + 'w word bounded_queue" where
  "bq_new capacity policy reader_store_percent =
     (case validate_capacity capacity of
        Inl e \<Rightarrow> Inl e
      | Inr cap \<Rightarrow> Inr \<lparr>bq_capacity = cap, bq_mask = cap - 1,
          bq_bytes_per_batch = bytes_per_batch cap reader_store_percent,
          bq_storage = replicate (2 * unat cap) 0,
          bq_huge_pages_policy = policy,
          bq_atomic_writer_pos = 0, bq_writer_pos = 0,
          bq_reader_pos_cache_plus_capacity = cap,
          bq_atomic_reader_pos = 0, bq_reader_pos = 0, bq_writer_pos_cache = 0\<rparr>)"

subsection \<open>The producer's operations\<close>

definition bq_prepare_write :: "'w::len word \<Rightarrow> 'w word bounded_queue \<Rightarrow> 'w word option \<times> 'w word bounded_queue" where
  "bq_prepare_write n q =
     (if bq_reader_pos_cache_plus_capacity q - bq_writer_pos q < n
      then let q' = q\<lparr>bq_reader_pos_cache_plus_capacity := bq_atomic_reader_pos q + bq_capacity q\<rparr>
           in if bq_reader_pos_cache_plus_capacity q' - bq_writer_pos q' < n
              then (None, q')
              else (Some (bq_writer_pos q' AND bq_mask q'), q')
      else (Some (bq_writer_pos q AND bq_mask q), q))"

record 'p write_reservation =
  wr_write_buffer :: "'p option"
  wr_writer_pos :: 'p

definition bq_prepare_write_reserve_cached :: "'w::len word \<Rightarrow> 'w word bounded_queue \<Rightarrow> 'w word write_reservation" where
  "bq_prepare_write_reserve_cached n q =
     (if bq_reader_pos_cache_plus_capacity q - bq_writer_pos q < n
      then \<lparr>wr_write_buffer = None, wr_writer_pos = bq_writer_pos q\<rparr>
      else \<lparr>wr_write_buffer = Some (bq_writer_pos q AND bq_mask q), wr_writer_pos = bq_writer_pos q\<rparr>)"

definition bq_finish_write :: "'w::len word \<Rightarrow> 'w word bounded_queue \<Rightarrow> 'w word bounded_queue" where
  "bq_finish_write n q = q\<lparr>bq_writer_pos := bq_writer_pos q + n\<rparr>"

definition bq_commit_write :: "'w::len word bounded_queue \<Rightarrow> 'w word bounded_queue" where
  "bq_commit_write q = q\<lparr>bq_atomic_writer_pos := bq_writer_pos q\<rparr>"

definition bq_finish_and_commit_write_reservation :: "'w::len word \<Rightarrow> 'w word bounded_queue \<Rightarrow> 'w word bounded_queue" where
  "bq_finish_and_commit_write_reservation new_writer_pos q =
     q\<lparr>bq_writer_pos := new_writer_pos, bq_atomic_writer_pos := new_writer_pos\<rparr>"

definition bq_finish_and_commit_write :: "'w::len word \<Rightarrow> 'w word bounded_queue \<Rightarrow> 'w word bounded_queue" where
  "bq_finish_and_commit_write n q =
     bq_finish_and_commit_write_reservation (bq_writer_pos q + n) q"

text \<open>The bytes the producer stores through the pointer it was given.\<close>

definition bq_store :: "'w::len word \<Rightarrow> bytes \<Rightarrow> 'w word bounded_queue \<Rightarrow> 'w word bounded_queue" where
  "bq_store off bs q = q\<lparr>bq_storage := splice (unat off) bs (bq_storage q)\<rparr>"

subsection \<open>The consumer's operations\<close>

definition bq_empty :: "'w::len word bounded_queue \<Rightarrow> bool \<times> 'w word bounded_queue" where
  "bq_empty q =
     (if bq_writer_pos_cache q = bq_reader_pos q
      then let q' = q\<lparr>bq_writer_pos_cache := bq_atomic_writer_pos q\<rparr>
           in (bq_writer_pos_cache q' = bq_reader_pos q', q')
      else (False, q))"

definition bq_prepare_read :: "'w::len word bounded_queue \<Rightarrow> 'w word option \<times> 'w word bounded_queue" where
  "bq_prepare_read q =
     (case bq_empty q of
        (True, q') \<Rightarrow> (None, q')
      | (False, q') \<Rightarrow> (Some (bq_reader_pos q' AND bq_mask q'), q'))"

definition bq_finish_read :: "'w::len word \<Rightarrow> 'w word bounded_queue \<Rightarrow> 'w word bounded_queue" where
  "bq_finish_read n q = q\<lparr>bq_reader_pos := bq_reader_pos q + n\<rparr>"

definition bq_commit_read :: "'w::len word bounded_queue \<Rightarrow> 'w word bounded_queue" where
  "bq_commit_read q =
     (if bq_reader_pos q - bq_atomic_reader_pos q \<ge> bq_bytes_per_batch q
         \<or> bq_writer_pos_cache q = bq_reader_pos q
      then q\<lparr>bq_atomic_reader_pos := bq_reader_pos q\<rparr>
      else q)"

subsection \<open>Invariant\<close>

text \<open>
  Measured from the base \<open>b\<close> (the reader position the producer last saw), the positions are
  in the order: published reader, reader, the writer position the reader last saw,
  published writer, writer; and the whole span is at most the capacity. Distances are
  words, so the order survives wrap-around.
\<close>

definition bq_base :: "'w::len word bounded_queue \<Rightarrow> 'w word" where
  "bq_base q = bq_reader_pos_cache_plus_capacity q - bq_capacity q"

definition bq_dist :: "'w::len word bounded_queue \<Rightarrow> 'w word \<Rightarrow> nat" where
  "bq_dist q x = unat (x - bq_base q)"

definition bq_sized :: "'w::len word bounded_queue \<Rightarrow> bool" where
  "bq_sized q \<longleftrightarrow> (\<exists>k. unat (bq_capacity q) = 2 ^ k)
     \<and> bq_mask q = bq_capacity q - 1
     \<and> length (bq_storage q) = 2 * unat (bq_capacity q)"

definition bq_inv :: "'w::len word bounded_queue \<Rightarrow> bool" where
  "bq_inv q \<longleftrightarrow> bq_sized q
     \<and> bq_dist q (bq_atomic_reader_pos q) \<le> bq_dist q (bq_reader_pos q)
     \<and> bq_dist q (bq_reader_pos q) \<le> bq_dist q (bq_writer_pos_cache q)
     \<and> bq_dist q (bq_writer_pos_cache q) \<le> bq_dist q (bq_atomic_writer_pos q)
     \<and> bq_dist q (bq_atomic_writer_pos q) \<le> bq_dist q (bq_writer_pos q)
     \<and> bq_dist q (bq_writer_pos q) \<le> unat (bq_capacity q)"

lemma capacity_less: "unat (bq_capacity (q :: 'w::len word bounded_queue)) < 2 ^ LENGTH('w)"
  by (rule unsigned_less)

lemma cached_space:
  assumes "bq_dist q (bq_writer_pos q) \<le> unat (bq_capacity q)"
  shows "unat (bq_reader_pos_cache_plus_capacity q - bq_writer_pos q)
    = unat (bq_capacity q) - bq_dist q (bq_writer_pos q)"
proof -
  have "bq_reader_pos_cache_plus_capacity q - bq_base q = bq_capacity q"
    by (simp add: bq_base_def)
  with assms unat_diff_base [of "bq_writer_pos q" "bq_base q" "bq_reader_pos_cache_plus_capacity q"]
  show ?thesis by (simp add: bq_dist_def)
qed

text \<open>Refreshing the producer's cached reader position moves the base forward.\<close>

definition bq_refresh :: "'w::len word bounded_queue \<Rightarrow> 'w word bounded_queue" where
  "bq_refresh q = q\<lparr>bq_reader_pos_cache_plus_capacity := bq_atomic_reader_pos q + bq_capacity q\<rparr>"

lemma dist_refresh:
  assumes "bq_dist q (bq_atomic_reader_pos q) \<le> bq_dist q x"
  shows "bq_dist (bq_refresh q) x = bq_dist q x - bq_dist q (bq_atomic_reader_pos q)"
  using unat_diff_base [of "bq_atomic_reader_pos q" "bq_base q" x] assms
  by (simp add: bq_dist_def bq_refresh_def bq_base_def)

lemma refresh_fields [simp]:
  "bq_capacity (bq_refresh q) = bq_capacity q"
  "bq_mask (bq_refresh q) = bq_mask q"
  "bq_storage (bq_refresh q) = bq_storage q"
  "bq_atomic_reader_pos (bq_refresh q) = bq_atomic_reader_pos q"
  "bq_reader_pos (bq_refresh q) = bq_reader_pos q"
  "bq_writer_pos_cache (bq_refresh q) = bq_writer_pos_cache q"
  "bq_atomic_writer_pos (bq_refresh q) = bq_atomic_writer_pos q"
  "bq_writer_pos (bq_refresh q) = bq_writer_pos q"
  by (simp_all add: bq_refresh_def)

lemma refresh_inv: "bq_inv q \<Longrightarrow> bq_inv (bq_refresh q)"
  unfolding bq_inv_def by (simp add: dist_refresh bq_sized_def diff_le_mono) linarith

lemma prepare_write_cases:
  assumes "bq_inv q" "bq_prepare_write n q = (r, q')"
  obtains (granted) "r = Some (bq_writer_pos q AND bq_mask q)" "q' = q \<or> q' = bq_refresh q"
      "bq_dist q' (bq_writer_pos q') + unat n \<le> unat (bq_capacity q)" "bq_inv q'"
  | (full) "r = None" "q' = bq_refresh q" "bq_inv q'"
      "unat (bq_capacity q) < unat (bq_writer_pos q - bq_atomic_reader_pos q) + unat n"
proof -
  have inv: "bq_inv q" "bq_inv (bq_refresh q)" using assms(1) refresh_inv by blast+
  then have space: "unat (bq_reader_pos_cache_plus_capacity p - bq_writer_pos p)
      = unat (bq_capacity p) - bq_dist p (bq_writer_pos p)"
      "bq_dist p (bq_writer_pos p) \<le> unat (bq_capacity p)"
    if "p = q \<or> p = bq_refresh q" for p
    using that cached_space [of p] by (auto simp: bq_inv_def)
  have base: "bq_dist (bq_refresh q) (bq_writer_pos q)
      = unat (bq_writer_pos q - bq_atomic_reader_pos q)"
    by (simp add: bq_dist_def bq_base_def bq_refresh_def)
  show thesis
  proof (cases "bq_reader_pos_cache_plus_capacity q - bq_writer_pos q < n")
    case False
    with assms(2) space [of q] inv show thesis
      by (intro granted) (auto simp: bq_prepare_write_def word_less_nat_alt)
  next
    case c1: True
    show thesis
    proof (cases "bq_reader_pos_cache_plus_capacity (bq_refresh q) - bq_writer_pos (bq_refresh q) < n")
      case True
      with c1 assms(2) space [of "bq_refresh q"] inv base show thesis
        by (intro full) (auto simp: bq_prepare_write_def word_less_nat_alt bq_refresh_def [symmetric])
    next
      case False
      with c1 assms(2) space [of "bq_refresh q"] inv show thesis
        by (intro granted) (auto simp: bq_prepare_write_def word_less_nat_alt bq_refresh_def [symmetric])
    qed
  qed
qed

lemma prepare_write_cases_fields:
  assumes "bq_prepare_write n q = (r, q')"
  shows "q' = q \<or> q' = bq_refresh q"
  using assms by (auto simp: bq_prepare_write_def bq_refresh_def Let_def split: if_splits)

subsection \<open>Every operation keeps the invariant\<close>

lemma finish_write_inv:
  assumes "bq_inv q" "bq_dist q (bq_writer_pos q) + unat n \<le> unat (bq_capacity q)"
  shows "bq_inv (bq_finish_write n q)"
    and "bq_dist q (bq_writer_pos (bq_finish_write n q)) = bq_dist q (bq_writer_pos q) + unat n"
proof -
  have d: "bq_dist q (bq_writer_pos q + n) = bq_dist q (bq_writer_pos q) + unat n"
    using unat_add_base [OF le_less_trans [OF assms(2) [unfolded bq_dist_def] capacity_less]]
    by (simp add: bq_dist_def)
  then show "bq_dist q (bq_writer_pos (bq_finish_write n q)) = bq_dist q (bq_writer_pos q) + unat n"
    by (simp add: bq_finish_write_def)
  from d assms show "bq_inv (bq_finish_write n q)"
    by (auto simp: bq_inv_def bq_finish_write_def bq_sized_def bq_dist_def bq_base_def)
qed

lemma commit_write_inv: "bq_inv q \<Longrightarrow> bq_inv (bq_commit_write q)"
  by (auto simp: bq_inv_def bq_commit_write_def bq_sized_def bq_dist_def bq_base_def)

lemma store_inv:
  "bq_inv q \<Longrightarrow> unat off + length bs \<le> 2 * unat (bq_capacity q) \<Longrightarrow> bq_inv (bq_store off bs q)"
  by (auto simp: bq_inv_def bq_store_def bq_sized_def bq_dist_def bq_base_def)

lemma empty_inv: "bq_inv q \<Longrightarrow> bq_inv (snd (bq_empty q))"
  by (auto simp: bq_inv_def bq_empty_def bq_sized_def bq_dist_def bq_base_def Let_def)

lemma finish_read_inv:
  assumes "bq_inv q" "unat n \<le> unat (bq_writer_pos_cache q - bq_reader_pos q)"
  shows "bq_inv (bq_finish_read n q)"
proof -
  have le: "bq_dist q (bq_reader_pos q) + unat n \<le> bq_dist q (bq_writer_pos_cache q)"
    using unat_rebase [of "bq_reader_pos q" "bq_base q" "bq_writer_pos_cache q"] assms
    by (simp add: bq_inv_def bq_dist_def)
  also have "bq_dist q (bq_writer_pos_cache q) \<le> unat (bq_capacity q)"
    using assms(1) by (auto simp: bq_inv_def)
  finally have "bq_dist q (bq_reader_pos q) + unat n \<le> unat (bq_capacity q)" .
  then have "bq_dist q (bq_reader_pos q + n) = bq_dist q (bq_reader_pos q) + unat n"
    using unat_add_base [OF le_less_trans [OF _ capacity_less], of "bq_reader_pos q" "bq_base q" "unat n" q]
    by (simp add: bq_dist_def)
  with le assms(1) show ?thesis
    by (auto simp: bq_inv_def bq_finish_read_def bq_sized_def bq_dist_def bq_base_def)
qed

lemma commit_read_inv: "bq_inv q \<Longrightarrow> bq_inv (bq_commit_read q)"
  by (auto simp: bq_inv_def bq_commit_read_def bq_sized_def bq_dist_def bq_base_def)

subsection \<open>The messages in the ring\<close>

text \<open>
  \<open>bq_holds st mk pos ms\<close>: the messages \<open>ms\<close> lie one after the other from position \<open>pos\<close>,
  each in one piece from the masked offset of its position.
\<close>

fun bq_holds :: "bytes \<Rightarrow> 'w::len word \<Rightarrow> 'w word \<Rightarrow> bytes list \<Rightarrow> bool" where
  "bq_holds st mk pos [] = True"
| "bq_holds st mk pos (m # ms) =
     (slice (unat (pos AND mk)) (length m) st = m \<and> bq_holds st mk (pos + of_nat (length m)) ms)"

abbreviation total_length :: "'a list list \<Rightarrow> nat" where
  "total_length ms \<equiv> sum_list (map length ms)"

lemma bq_holds_append:
  "bq_holds st mk pos (ms @ ns) \<longleftrightarrow>
     bq_holds st mk pos ms \<and> bq_holds st mk (pos + of_nat (total_length ms)) ns"
  by (induction ms arbitrary: pos) (auto simp: algebra_simps)

lemma ring_regions_disjoint:
  fixes x c :: nat
  assumes "0 < c" "l \<le> d" "d + n \<le> c"
  shows "x mod c + l \<le> (x + d) mod c \<or> (x + d) mod c + n \<le> x mod c"
proof -
  have "(x + d) mod c = (x mod c + d) mod c" by (simp add: mod_add_left_eq)
  also have "\<dots> = (if x mod c + d < c then x mod c + d else x mod c + d - c)"
  proof (cases "x mod c + d < c")
    case False
    moreover have "x mod c + d - c < c" using assms mod_less_divisor [OF assms(1), of x] by linarith
    ultimately show ?thesis by (simp add: le_mod_geq)
  qed simp
  finally have "(x + d) mod c = (if x mod c + d < c then x mod c + d else x mod c + d - c)" .
  with assms show ?thesis by (auto split: if_splits)
qed

text \<open>A write of \<open>n\<close> bytes at the writer position leaves every message in front of it alone.\<close>

lemma bq_holds_splice:
  fixes c p w :: "'w::len word"
  assumes c: "unat c = 2 ^ k" and len: "length st = 2 * unat c"
    and "total_length ms \<le> unat (w - p)" "unat (w - p) + length ys \<le> unat c"
  shows "bq_holds (splice (unat (w AND (c - 1))) ys st) (c - 1) p ms = bq_holds st (c - 1) p ms"
  using assms(3,4)
proof (induction ms arbitrary: p)
  case Nil
  then show ?case by simp
next
  case (Cons m ms)
  let ?o = "unat (w AND (c - 1))" and ?a = "unat (p AND (c - 1))"
  have k: "k \<le> LENGTH('w)"
  proof -
    have "unat c < 2 ^ LENGTH('w)" by (rule unsigned_less)
    then have "(2::nat) ^ k < 2 ^ LENGTH('w)" unfolding c .
    then show ?thesis by (simp add: power_less_imp_less_exp less_imp_le)
  qed
  have pos: "0 < unat c" using c by simp
  have "w = p + of_nat (unat (w - p))" by simp
  then have o: "?o = (unat p + unat (w - p)) mod unat c"
    using and_pow2_minus_1 [OF c, of w] unat_mod_add [OF c k, of p "unat (w - p)"] c by simp
  have a: "?a = unat p mod unat c" by (rule and_pow2_minus_1 [OF c])
  have len_m: "length m \<le> unat (w - p)" using Cons.prems by simp
  have "?o + length ys \<le> length st"
    using o len Cons.prems(2) mod_less_divisor [OF pos] by (simp add: add_le_mono less_imp_le mult_2)
  moreover have "?a + length m \<le> ?o \<or> ?o + length ys \<le> ?a"
    unfolding o a using ring_regions_disjoint [OF pos len_m Cons.prems(2)] .
  ultimately have head: "slice ?a (length m) (splice ?o ys st) = slice ?a (length m) st"
    by (rule slice_splice_disjoint)
  note step = unat_diff_advance [OF len_m]
  have "bq_holds (splice ?o ys st) (c - 1) (p + of_nat (length m)) ms
      = bq_holds st (c - 1) (p + of_nat (length m)) ms"
    using Cons.prems by (intro Cons.IH) (simp_all add: step)
  with head show ?case by simp
qed

text \<open>
  \<open>bq_rel q unread pending\<close>: \<open>unread\<close> are the published messages the consumer has not
  finished, \<open>pending\<close> those written but not yet published. The writer position the
  consumer last saw is a message boundary.
\<close>

definition bq_rel :: "'w::len word bounded_queue \<Rightarrow> bytes list \<Rightarrow> bytes list \<Rightarrow> bool" where
  "bq_rel q unread pending \<longleftrightarrow> bq_inv q
     \<and> bq_holds (bq_storage q) (bq_mask q) (bq_reader_pos q) (unread @ pending)
     \<and> total_length unread = unat (bq_atomic_writer_pos q - bq_reader_pos q)
     \<and> total_length pending = unat (bq_writer_pos q - bq_atomic_writer_pos q)
     \<and> (\<exists>j \<le> length unread. total_length (take j unread) = unat (bq_writer_pos_cache q - bq_reader_pos q))
     \<and> (\<forall>m \<in> set (unread @ pending). m \<noteq> [])"

lemma inv_distances:
  assumes "bq_inv q"
  shows "bq_dist q (bq_atomic_writer_pos q) = bq_dist q (bq_reader_pos q)
      + unat (bq_atomic_writer_pos q - bq_reader_pos q)"
    and "bq_dist q (bq_writer_pos q) = bq_dist q (bq_atomic_writer_pos q)
      + unat (bq_writer_pos q - bq_atomic_writer_pos q)"
    and "bq_dist q (bq_writer_pos q) = bq_dist q (bq_reader_pos q)
      + unat (bq_writer_pos q - bq_reader_pos q)"
    and "bq_dist q (bq_writer_pos_cache q) = bq_dist q (bq_reader_pos q)
      + unat (bq_writer_pos_cache q - bq_reader_pos q)"
  using assms unfolding bq_inv_def bq_dist_def by (auto intro!: unat_rebase)

lemma rel_span:
  assumes "bq_rel q unread pending"
  shows "unat (bq_writer_pos q - bq_reader_pos q) = total_length (unread @ pending)"
  using assms inv_distances [of q] by (simp add: bq_rel_def)

lemma mask_offset_less:
  assumes "bq_sized q"
  shows "unat (x AND bq_mask q) < unat (bq_capacity q)"
  using assms and_pow2_minus_1 [of "bq_capacity q" _ x] by (auto simp: bq_sized_def)

lemma rel_refresh: "bq_rel q u p \<Longrightarrow> bq_rel (bq_refresh q) u p"
  by (simp add: bq_rel_def refresh_inv)

lemma store_fields [simp]:
  "bq_capacity (bq_store off bs q) = bq_capacity q"
  "bq_mask (bq_store off bs q) = bq_mask q"
  "bq_atomic_reader_pos (bq_store off bs q) = bq_atomic_reader_pos q"
  "bq_reader_pos (bq_store off bs q) = bq_reader_pos q"
  "bq_writer_pos_cache (bq_store off bs q) = bq_writer_pos_cache q"
  "bq_atomic_writer_pos (bq_store off bs q) = bq_atomic_writer_pos q"
  "bq_writer_pos (bq_store off bs q) = bq_writer_pos q"
  "bq_dist (bq_store off bs q) x = bq_dist q x"
  by (simp_all add: bq_store_def bq_dist_def bq_base_def)

lemma rel_write_granted:
  assumes rel: "bq_rel q u p" and m: "m \<noteq> []"
    and fits: "bq_dist q (bq_writer_pos q) + length m \<le> unat (bq_capacity q)"
  shows "bq_rel (bq_finish_write (of_nat (length m)) (bq_store (bq_writer_pos q AND bq_mask q) m q)) u (p @ [m])"
proof -
  let ?o = "bq_writer_pos q AND bq_mask q" and ?n = "of_nat (length m) :: 'a word"
  let ?q1 = "bq_store ?o m q" and ?w = "bq_writer_pos q" and ?r = "bq_reader_pos q"
  have inv: "bq_inv q" and sized: "bq_sized q" using rel by (auto simp: bq_rel_def bq_inv_def)
  then obtain k where k: "unat (bq_capacity q) = 2 ^ k" and mask: "bq_mask q = bq_capacity q - 1"
    and len: "length (bq_storage q) = 2 * unat (bq_capacity q)" by (auto simp: bq_sized_def)
  have n: "unat ?n = length m" using fits by (intro unat_of_nat_le [of _ "bq_capacity q"]) simp
  have room: "unat ?o + length m \<le> 2 * unat (bq_capacity q)"
    using mask_offset_less [OF sized, of ?w] fits by simp
  have inv1: "bq_inv ?q1" using store_inv [OF inv room] .
  have fits': "bq_dist ?q1 (bq_writer_pos ?q1) + unat ?n \<le> unat (bq_capacity ?q1)"
    using fits n by simp
  note inv2 = finish_write_inv [OF inv1 fits']
  have span: "unat (?w - ?r) = total_length (u @ p)" using rel_span [OF rel] .
  have within: "unat (?w - ?r) + length m \<le> unat (bq_capacity q)"
    using fits inv_distances(3) [OF inv] by simp
  have old: "bq_holds (splice (unat ?o) m (bq_storage q)) (bq_mask q) ?r (u @ p)"
    using rel bq_holds_splice [OF k len, of "u @ p" ?w ?r m] span within
    by (simp add: bq_rel_def mask)
  have "?r + of_nat (total_length (u @ p)) = ?w" unfolding span [symmetric] by simp
  then have new: "bq_holds (splice (unat ?o) m (bq_storage q)) (bq_mask q) ?r (u @ p @ [m])"
    using old slice_splice_same [of "unat ?o" m "bq_storage q"] room len
    by (simp add: bq_holds_append add.assoc)
  have grow: "unat (?w + ?n - bq_atomic_writer_pos q) = unat (?w - bq_atomic_writer_pos q) + length m"
  proof (rule unat_add_base)
    have "unat (?w - bq_atomic_writer_pos q) + length m \<le> unat (bq_capacity q)"
      using fits inv_distances(2) [OF inv] by simp
    then show "unat (?w - bq_atomic_writer_pos q) + length m < 2 ^ LENGTH('a)"
      using capacity_less by (rule le_less_trans)
  qed
  show ?thesis using rel inv2(1) new grow m
    by (auto simp: bq_rel_def bq_finish_write_def bq_store_def)
qed

lemma rel_commit_write:
  assumes rel: "bq_rel q u p"
  shows "bq_rel (bq_commit_write q) (u @ p) []"
proof -
  obtain j where "j \<le> length u" "total_length (take j u) = unat (bq_writer_pos_cache q - bq_reader_pos q)"
    using rel by (auto simp: bq_rel_def)
  then have "\<exists>j \<le> length (u @ p). total_length (take j (u @ p)) = unat (bq_writer_pos_cache q - bq_reader_pos q)"
    by (intro exI [of _ j]) simp
  moreover have "bq_inv (bq_commit_write q)" using rel commit_write_inv by (auto simp: bq_rel_def)
  ultimately show ?thesis using rel rel_span [OF rel] by (simp add: bq_rel_def bq_commit_write_def)
qed

text \<open>What the consumer sees: nothing exactly when nothing is published, else the oldest message.\<close>

lemma rel_prepare_read_nil:
  assumes "bq_rel q [] p"
  shows "\<exists>q'. bq_prepare_read q = (None, q') \<and> bq_rel q' [] p"
proof -
  have "bq_atomic_writer_pos q = bq_reader_pos q" "bq_writer_pos_cache q = bq_reader_pos q"
    using assms by (auto simp: bq_rel_def unat_eq_zero)
  moreover from this have "bq_prepare_read q = (None, snd (bq_empty q))"
    by (simp add: bq_prepare_read_def bq_empty_def Let_def)
  moreover have "bq_inv (snd (bq_empty q))" using assms empty_inv by (auto simp: bq_rel_def)
  ultimately show ?thesis using assms
    by (auto simp: bq_rel_def bq_empty_def Let_def)
qed

lemma rel_prepare_read_cons:
  assumes rel: "bq_rel q (m # u) p"
  obtains off q' where "bq_prepare_read q = (Some off, q')" "bq_rel q' (m # u) p"
    "slice (unat off) (length m) (bq_storage q') = m"
    "length m \<le> unat (bq_writer_pos_cache q' - bq_reader_pos q')"
proof -
  define q' where "q' = snd (bq_empty q)"
  have inv: "bq_inv q'" using rel empty_inv by (auto simp: bq_rel_def q'_def)
  have nonempty: "bq_atomic_writer_pos q \<noteq> bq_reader_pos q"
    using rel by (auto simp: bq_rel_def)
  have e: "bq_empty q = (False, q')" "bq_writer_pos_cache q' \<noteq> bq_reader_pos q'"
    using nonempty by (auto simp: q'_def bq_empty_def Let_def)
  have rel': "bq_rel q' (m # u) p" "bq_storage q' = bq_storage q" "bq_reader_pos q' = bq_reader_pos q"
    "bq_mask q' = bq_mask q"
    using rel inv by (auto simp: bq_rel_def q'_def bq_empty_def Let_def
        intro: exI [of _ "length (m # u)"])
  then obtain j where j: "total_length (take j (m # u)) = unat (bq_writer_pos_cache q' - bq_reader_pos q')"
    by (auto simp: bq_rel_def)
  with e(2) have "0 < j" by (cases j) (auto simp: unat_eq_zero)
  with j have "length m \<le> unat (bq_writer_pos_cache q' - bq_reader_pos q')" by (cases j) auto
  moreover have "slice (unat (bq_reader_pos q' AND bq_mask q')) (length m) (bq_storage q') = m"
    using rel rel'(2-) by (simp add: bq_rel_def)
  ultimately show thesis
    using that [of "bq_reader_pos q' AND bq_mask q'" q'] e(1) rel'(1) by (simp add: bq_prepare_read_def)
qed

lemma rel_finish_read:
  assumes rel: "bq_rel q (m # u) p"
    and seen: "length m \<le> unat (bq_writer_pos_cache q - bq_reader_pos q)"
  shows "bq_rel (bq_finish_read (of_nat (length m)) q) u p"
proof -
  let ?n = "of_nat (length m) :: 'a word"
  have n: "unat ?n = length m" using seen by (rule unat_of_nat_le)
  have inv: "bq_inv (bq_finish_read ?n q)"
    using rel seen n by (intro finish_read_inv) (auto simp: bq_rel_def)
  have aw: "length m \<le> unat (bq_atomic_writer_pos q - bq_reader_pos q)"
    using rel by (simp add: bq_rel_def)
  obtain j where j: "j \<le> length (m # u)"
      "total_length (take j (m # u)) = unat (bq_writer_pos_cache q - bq_reader_pos q)"
    using rel by (auto simp: bq_rel_def)
  have "0 < j"
  proof (rule ccontr)
    assume "\<not> 0 < j"
    with j(2) seen have "m = []" by simp
    with rel show False by (simp add: bq_rel_def)
  qed
  then obtain i where i: "j = Suc i" by (cases j) auto
  have "\<exists>i \<le> length u. total_length (take i u)
      = unat (bq_writer_pos_cache q - (bq_reader_pos q + ?n))"
    using j i by (intro exI [of _ i]) (simp add: unat_diff_advance [OF seen])
  moreover have "total_length u = unat (bq_atomic_writer_pos q - bq_reader_pos q) - length m"
    using rel by (auto simp: bq_rel_def)
  ultimately show ?thesis
    using rel inv by (simp add: bq_rel_def bq_finish_read_def unat_diff_advance [OF aw])
qed

lemma rel_commit_read: "bq_rel q u p \<Longrightarrow> bq_rel (bq_commit_read q) u p"
  using commit_read_inv [of q] by (auto simp: bq_rel_def bq_commit_read_def)

lemma rel_empty: "bq_rel q u p \<Longrightarrow> bq_rel (snd (bq_empty q)) u p"
  using empty_inv [of q] by (auto simp: bq_rel_def bq_empty_def Let_def intro: exI [of _ "length u"])

subsection \<open>One message through the queue\<close>

text \<open>
  How the frontend and the backend use the queue for one message: reserve, store, finish
  and publish; find the message, decode it (\<open>frame\<close> is the number of bytes the decoder
  consumes from where the message starts) and finish it.
\<close>

definition bq_put :: "bytes \<Rightarrow> 'w::len word bounded_queue \<Rightarrow> bool \<times> 'w word bounded_queue" where
  "bq_put m q =
     (case bq_prepare_write (of_nat (length m)) q of
        (None, q') \<Rightarrow> (False, q')
      | (Some off, q') \<Rightarrow> (True, bq_finish_and_commit_write (of_nat (length m)) (bq_store off m q')))"

definition bq_get :: "(bytes \<Rightarrow> nat) \<Rightarrow> 'w::len word bounded_queue \<Rightarrow> bytes option \<times> 'w word bounded_queue" where
  "bq_get frame q =
     (case bq_prepare_read q of
        (None, q') \<Rightarrow> (None, q')
      | (Some off, q') \<Rightarrow>
          let n = frame (drop (unat off) (bq_storage q'))
          in (Some (slice (unat off) n (bq_storage q')), bq_finish_read (of_nat n) q'))"

definition bq_tau :: "'w::len word bounded_queue \<Rightarrow> 'w word bounded_queue \<Rightarrow> bool" where
  "bq_tau q q' \<longleftrightarrow> q' = bq_commit_read q \<or> q' = snd (bq_empty q) \<or> q' = bq_commit_write q"

text \<open>A message the decoder delimits by itself.\<close>

definition framed :: "(bytes \<Rightarrow> nat) \<Rightarrow> bytes \<Rightarrow> bool" where
  "framed frame m \<longleftrightarrow> m \<noteq> [] \<and> (\<forall>rest. frame (m @ rest) = length m)"

definition bq_msg_ok :: "(bytes \<Rightarrow> nat) \<Rightarrow> 'w::len itself \<Rightarrow> bytes \<Rightarrow> bool" where
  "bq_msg_ok frame _ m \<longleftrightarrow> framed frame m \<and> length m < 2 ^ LENGTH('w)"

definition bq_queue_rel :: "(bytes \<Rightarrow> nat) \<Rightarrow> 'w::len word bounded_queue \<Rightarrow> bytes list \<Rightarrow> bool" where
  "bq_queue_rel frame q ms \<longleftrightarrow> bq_rel q ms [] \<and> (\<forall>m \<in> set ms. bq_msg_ok frame TYPE('w) m)"

lemma finish_and_commit_write_eq:
  "bq_finish_and_commit_write n q = bq_commit_write (bq_finish_write n q)"
  by (simp add: bq_finish_and_commit_write_def bq_finish_and_commit_write_reservation_def
      bq_commit_write_def bq_finish_write_def)

lemma rel_put:
  fixes q :: "'w::len word bounded_queue"
  assumes rel: "bq_rel q u []" and m: "m \<noteq> []" "length m < 2 ^ LENGTH('w)"
  shows "bq_rel (snd (bq_put m q)) (if fst (bq_put m q) then u @ [m] else u) []"
proof -
  let ?n = "of_nat (length m) :: 'w word"
  have n: "unat ?n = length m" using m(2) by (simp add: unat_of_nat)
  have inv: "bq_inv q" using rel by (simp add: bq_rel_def)
  obtain r q' where pw: "bq_prepare_write ?n q = (r, q')" by fastforce
  from inv pw show ?thesis
  proof (cases rule: prepare_write_cases)
    case granted
    then have rel': "bq_rel q' u []" and w: "r = Some (bq_writer_pos q' AND bq_mask q')"
        and cap: "bq_capacity q' = bq_capacity q"
      using rel rel_refresh by auto
    have "bq_dist q' (bq_writer_pos q') + length m \<le> unat (bq_capacity q')"
      using granted(3) n cap by simp
    from rel_commit_write [OF rel_write_granted [OF rel' m(1) this]] pw w
    show ?thesis by (simp add: bq_put_def finish_and_commit_write_eq)
  next
    case full
    with rel rel_refresh pw show ?thesis by (auto simp: bq_put_def)
  qed
qed

lemma rel_get:
  assumes "bq_rel q u []" "\<forall>m \<in> set u. framed frame m"
  shows "case u of [] \<Rightarrow> fst (bq_get frame q) = None \<and> bq_rel (snd (bq_get frame q)) [] []
    | m # u' \<Rightarrow> fst (bq_get frame q) = Some m \<and> bq_rel (snd (bq_get frame q)) u' []"
proof (cases u)
  case Nil
  with assms(1) rel_prepare_read_nil [of q "[]"] show ?thesis by (auto simp: bq_get_def)
next
  case (Cons m u')
  with assms(1) obtain off q' where r: "bq_prepare_read q = (Some off, q')" "bq_rel q' (m # u') []"
      "slice (unat off) (length m) (bq_storage q') = m"
      "length m \<le> unat (bq_writer_pos_cache q' - bq_reader_pos q')"
    using rel_prepare_read_cons by blast
  have "drop (unat off) (bq_storage q') = m @ drop (length m) (drop (unat off) (bq_storage q'))"
    using r(3) by (metis append_take_drop_id slice_def)
  with assms(2) Cons have "frame (drop (unat off) (bq_storage q')) = length m"
    by (metis framed_def list.set_intros(1))
  with r Cons rel_finish_read [OF r(2,4)] show ?thesis by (simp add: bq_get_def Let_def)
qed

interpretation bqf: exact_fifo_queue
  "bq_queue_rel frame" "bq_msg_ok frame TYPE('w)" "bq_put" "bq_get frame"
  "bq_tau :: 'w::len word bounded_queue \<Rightarrow> 'w word bounded_queue \<Rightarrow> bool" for frame
proof
  fix q :: "'w word bounded_queue" and ms m
  assume "bq_queue_rel frame q ms" "bq_msg_ok frame TYPE('w) m"
  then show "bq_queue_rel frame (snd (bq_put m q)) (if fst (bq_put m q) then ms @ [m] else ms)"
    using rel_put [of q ms m] by (auto simp: bq_queue_rel_def bq_msg_ok_def framed_def)
next
  fix q q' :: "'w word bounded_queue" and ms m
  assume "bq_queue_rel frame q ms" "bq_get frame q = (Some m, q')"
  then show "\<exists>ms'. ms = m # ms' \<and> bq_queue_rel frame q' ms'"
    using rel_get [of q ms frame] by (auto simp: bq_queue_rel_def bq_msg_ok_def split: list.splits)
next
  fix q q' :: "'w word bounded_queue" and ms
  assume "bq_queue_rel frame q ms" "bq_get frame q = (None, q')"
  then show "bq_queue_rel frame q' ms"
    using rel_get [of q ms frame] by (auto simp: bq_queue_rel_def bq_msg_ok_def split: list.splits)
next
  fix q q' :: "'w word bounded_queue" and ms
  assume "bq_queue_rel frame q ms" "bq_tau q q'"
  then show "bq_queue_rel frame q' ms"
    using rel_commit_read [of q ms "[]"] rel_empty [of q ms "[]"] rel_commit_write [of q ms "[]"]
    by (auto simp: bq_queue_rel_def bq_tau_def)
next
  fix q :: "'w word bounded_queue" and ms m
  assume "bq_queue_rel frame q (m # ms)"
  then show "fst (bq_get frame q) \<noteq> None"
    using rel_get [of q "m # ms" frame] by (auto simp: bq_queue_rel_def bq_msg_ok_def)
qed

subsection \<open>Construction establishes the invariant\<close>

text \<open>The widths \<^verbatim>\<open>integer_type\<close> has in C++.\<close>

definition cpp_width :: "'w::len itself \<Rightarrow> bool" where
  "cpp_width _ \<longleftrightarrow> LENGTH('w) = 8 \<or> LENGTH('w) = 16 \<or> LENGTH('w) = 32 \<or> LENGTH('w) = 64"

lemma unat_max_integer_capacity:
  "cpp_width TYPE('w::len) \<Longrightarrow> unat (max_integer_capacity TYPE('w)) = 2 ^ LENGTH('w) - 1"
  by (auto simp: cpp_width_def max_integer_capacity_def SIZE_MAX_def unsigned_minus_1_eq_mask mask_eq_exp_minus_1)

lemma unat_ucast_le:
  fixes x :: "'a::len word"
  assumes "unat x < 2 ^ LENGTH('b::len)"
  shows "unat (ucast x :: 'b word) = unat x"
  using assms by (simp add: unsigned_ucast_eq take_bit_nat_eq_self)

lemma validate_capacity_Inr:
  fixes c :: "'w::len word"
  assumes "validate_capacity c = Inr cap" "cpp_width TYPE('w)"
  shows "is_power_of_two (ucast cap)" "c \<le> cap" "2 * unat cap < 2 ^ 64"
proof -
  let ?r = "next_power_of_two (ucast c)"
  have r: "cap = ucast ?r" "\<not> ?r > max_integer_capacity TYPE('w)"
    "\<not> ?r > (SIZE_MAX - 16 - QUILL_CACHE_LINE_ALIGNED) div 2"
    using assms(1) by (auto simp: validate_capacity_def Let_def split: if_splits)
  have lim: "(SIZE_MAX - 16 - QUILL_CACHE_LINE_ALIGNED) div 2 = (9223372036854775735 :: size_t)"
    by (simp add: SIZE_MAX_def QUILL_CACHE_LINE_ALIGNED_def QUILL_CACHE_LINE_SIZE_def)
  have small: "unat ?r \<le> 9223372036854775735" using r(3) unfolding lim by (simp add: word_less_nat_alt not_less)
  have "unat ?r \<le> 2 ^ LENGTH('w) - 1"
    using r(2) unat_max_integer_capacity [OF assms(2)] by (simp add: word_less_nat_alt not_less)
  then have "unat ?r < 2 ^ LENGTH('w)" by (rule le_less_trans) simp
  from unat_ucast_le [OF this] have cap: "unat cap = unat ?r" by (simp add: r(1))
  have "unat (ucast cap :: u64) = unat ?r"
    unfolding cap [symmetric] using small cap by (intro unat_ucast_le) simp
  then have same: "ucast cap = ?r" by (rule word_unat_eq_iff [THEN iffD2])
  show "is_power_of_two (ucast cap)" unfolding same by (rule next_power_of_two_is_power)
  show "2 * unat cap < 2 ^ 64" using small cap by simp
  have "LENGTH('w) \<le> 64" using assms(2) by (auto simp: cpp_width_def)
  then have "(2::nat) ^ LENGTH('w) \<le> 2 ^ LENGTH(64)" by (intro power_increasing) simp_all
  moreover have "unat c < 2 ^ LENGTH('w)" by (rule unsigned_less)
  ultimately have "unat c < 2 ^ LENGTH(64)" by (rule order_less_le_trans [rotated])
  from unat_ucast_le [OF this] have c: "unat (ucast c :: u64) = unat c" .
  show "c \<le> cap"
  proof (cases "ucast c \<le> max_power_of_2")
    case True
    from next_power_of_two_ge [OF this] show ?thesis using c cap by (simp add: word_le_nat_alt)
  next
    case False
    then have "?r = max_power_of_2" by (simp add: next_power_of_two_big)
    with small have False by (simp add: unat_max_power_of_2)
    then show ?thesis ..
  qed
qed

lemma bq_new_rel:
  fixes q :: "'w::len word bounded_queue"
  assumes "bq_new c policy pct = Inr q" "cpp_width TYPE('w)"
  shows "bq_rel q [] []" "c \<le> bq_capacity q"
proof -
  obtain cap where v: "validate_capacity c = Inr cap"
    and q: "bq_capacity q = cap" "bq_mask q = cap - 1" "bq_storage q = replicate (2 * unat cap) 0"
      "bq_atomic_writer_pos q = 0" "bq_writer_pos q = 0" "bq_reader_pos_cache_plus_capacity q = cap"
      "bq_atomic_reader_pos q = 0" "bq_reader_pos q = 0" "bq_writer_pos_cache q = 0"
    using assms(1) by (auto simp: bq_new_def split: sum.splits)
  note val = validate_capacity_Inr [OF v assms(2)]
  have "unat (ucast cap :: u64) = unat cap" using val(3) by (intro unat_ucast_le) simp
  with val(1) have "\<exists>k. unat cap = 2 ^ k" by (simp add: is_power_of_two_iff)
  with q show "bq_rel q [] []"
    by (simp add: bq_rel_def bq_inv_def bq_sized_def bq_dist_def bq_base_def)
  show "c \<le> bq_capacity q" using val(2) q by simp
qed

subsection \<open>The allocation behind the storage\<close>

text \<open>
  \<^verbatim>\<open>_alloc_aligned\<close> and \<^verbatim>\<open>_free_aligned\<close> on POSIX. The system call \<^verbatim>\<open>mmap(total_size)\<close>, with or
  without huge pages, is the parameter \<open>mmap\<close> (\<open>None\<close> is \<^verbatim>\<open>MAP_FAILED\<close>); the memory that
  holds the two metadata words is a map from addresses to words.
\<close>

definition align_pointer :: "u64 \<Rightarrow> u64 \<Rightarrow> u64" where
  "align_pointer pointer alignment = (pointer + (alignment - 1)) AND NOT (alignment - 1)"

definition alloc_aligned ::
  "(size_t \<Rightarrow> bool \<Rightarrow> u64 option) \<Rightarrow> (u64 \<Rightarrow> u64) \<Rightarrow> size_t \<Rightarrow> size_t \<Rightarrow> huge_pages_policy
    \<Rightarrow> quill_error + (u64 \<times> (u64 \<Rightarrow> u64))" where
  "alloc_aligned mmap memory sz alignment policy =
     (let metadata_size = 2 * 8;
          small_size = sz + metadata_size + alignment;
          huge_page_size = 2 * 1024 * 1024;
          huge = (policy \<noteq> Never);
          total_size = (if huge then ((small_size + huge_page_size - 1) div huge_page_size) * huge_page_size
                        else small_size);
          first = mmap total_size huge;
          (mem, total) = (if first = None \<and> policy = Try
                          then (mmap small_size False, small_size)
                          else (first, total_size))
      in case mem of
           None \<Rightarrow> Inl (QuillError ''mmap failed.'')
         | Some m \<Rightarrow>
             let aligned_address = align_pointer (m + metadata_size) alignment;
                 offset = aligned_address - m
             in Inr (aligned_address,
                     memory(aligned_address - 8 := total, aligned_address - 2 * 8 := offset)))"

text \<open>The address and length \<^verbatim>\<open>_free_aligned\<close> hands to \<^verbatim>\<open>munmap\<close>.\<close>

definition free_aligned :: "(u64 \<Rightarrow> u64) \<Rightarrow> u64 \<Rightarrow> u64 \<times> size_t" where
  "free_aligned memory ptr =
     (let offset = memory (ptr - 2 * 8); total_size = memory (ptr - 8)
      in (ptr - offset, total_size))"

lemma align_pointer_nat:
  assumes a: "unat a = 2 ^ k" and nowrap: "unat p + unat a < 2 ^ 64"
  shows "unat (align_pointer p a) mod unat a = 0"
    and "p \<le> align_pointer p a" "unat (align_pointer p a) < unat p + unat a"
proof -
  have a0: "0 < unat a" using a by simp
  then have a1: "unat (a - 1) = unat a - 1" by (simp add: unat_gt_0 unat_minus_one)
  let ?s = "p + (a - 1)"
  have s: "unat ?s = unat p + unat a - 1"
    using nowrap a0 a1 by (simp add: unat_word_ariths)
  have split: "align_pointer p a = ?s - (?s AND (a - 1))"
  proof -
    have "(?s AND NOT (a - 1)) + (?s AND (a - 1)) = (?s AND NOT (a - 1)) OR (?s AND (a - 1))"
      by (rule disjunctive_add_eq_or) (auto intro!: bit_word_eqI simp: bit_simps)
    also have "\<dots> = ?s" by (auto intro!: bit_word_eqI simp: bit_simps)
    finally show ?thesis unfolding align_pointer_def by (simp only: eq_diff_eq)
  qed
  have low: "unat (?s AND (a - 1)) = unat ?s mod unat a" using a by (rule and_pow2_minus_1)
  have "unat (align_pointer p a) = unat ?s - unat ?s mod unat a"
    unfolding split low [symmetric] by (rule unat_sub) (simp add: word_and_le1 word_and_le2)
  then have u: "unat (align_pointer p a) = unat ?s - unat ?s mod unat a" .
  then show "unat (align_pointer p a) mod unat a = 0" by (simp add: minus_mod_eq_mult_div)
  have "unat ?s mod unat a < unat a" using a0 by simp
  with u s a0 show "p \<le> align_pointer p a" "unat (align_pointer p a) < unat p + unat a"
    by (auto simp: word_le_nat_alt)
qed

text \<open>Rounding a length up to whole huge pages covers it.\<close>

lemma round_up_covers:
  fixes n h :: u64
  assumes "0 < unat h" "unat n + unat h < 2 ^ 64"
  shows "unat n \<le> unat (((n + h - 1) div h) * h)"
proof -
  have "n + h \<noteq> 0" using assms by (auto simp: unat_word_ariths dest!: arg_cong [where f = unat])
  then have s: "unat (n + h - 1) = unat n + unat h - 1"
    using assms by (simp add: unat_minus_one unat_word_ariths)
  let ?q = "(unat n + unat h - 1) div unat h"
  have "?q * unat h \<le> unat n + unat h - 1" by (rule div_times_less_eq_dividend)
  with assms have lt: "?q * unat h < 2 ^ 64" by linarith
  have "unat (((n + h - 1) div h) * h) = ?q * unat h mod 2 ^ 64"
    by (simp add: unat_word_ariths unat_div_distrib s mod_mult_left_eq)
  also have "\<dots> = ?q * unat h" using lt by simp
  finally have u: "unat (((n + h - 1) div h) * h) = ?q * unat h" .
  have "unat n + unat h - 1 = ?q * unat h + (unat n + unat h - 1) mod unat h"
    by (simp add: div_mult_mod_eq)
  moreover have "(unat n + unat h - 1) mod unat h < unat h" using assms(1) by simp
  ultimately show ?thesis unfolding u using assms(1) by linarith
qed

lemma alloc_cases:
  assumes "alloc_aligned mmap memory sz alignment policy = Inr (ptr, memory')"
  obtains m total huge where "mmap total huge = Some m"
    "total = sz + 16 + alignment \<or> total = ((sz + 16 + alignment + 2097152 - 1) div 2097152) * 2097152"
    "ptr = align_pointer (m + 16) alignment"
    "memory' = memory(ptr - 8 := total, ptr - 16 := ptr - m)"
  using assms
  by (auto simp: alloc_aligned_def Let_def split: if_splits option.splits prod.splits)

subsection \<open>Properties\<close>

text \<open>
  C2. First in, first out, nothing lost, duplicated or torn: from a new queue, after any
  interleaving of puts (taken or refused), gets and housekeeping, the messages sent are
  the messages received followed by those still in the ring, byte for byte, for every
  width of the position type and through every wrap-around of the positions.
\<close>

theorem bounded_queue_fifo:
  fixes q0 :: "'w::len word bounded_queue"
  assumes "bq_new capacity policy pct = Inr q0" "cpp_width TYPE('w)"
    and "fifo_run (bq_msg_ok frame TYPE('w)) bq_put (bq_get frame) bq_tau q0 sent recv q"
  shows "\<exists>held. sent = recv @ held \<and> bq_queue_rel frame q held"
proof (rule bqf.run_conserves [OF assms(3)])
  show "bq_queue_rel frame q0 []" using bq_new_rel(1) [OF assms(1,2)] by (simp add: bq_queue_rel_def)
qed

text \<open>
  C3. No live byte is overwritten: when \<open>prepare_write\<close> grants a region, the region lies
  inside the storage and storing \<open>n\<close> bytes there leaves every unread and every unpublished
  message as it was.
\<close>

theorem granted_region_is_free:
  fixes q :: "'w::len word bounded_queue"
  assumes "bq_rel q unread pending" "bq_prepare_write n q = (Some off, q')" "length bs = unat n"
  shows "unat off + length bs \<le> length (bq_storage q')
    \<and> bq_rel (bq_store off bs q') unread pending"
proof -
  have inv: "bq_inv q" using assms(1) by (simp add: bq_rel_def)
  from inv assms(2) show ?thesis
  proof (cases rule: prepare_write_cases)
    case granted
    then have rel: "bq_rel q' unread pending" and off: "off = bq_writer_pos q' AND bq_mask q'"
        and cap: "bq_capacity q' = bq_capacity q"
      using assms(1) rel_refresh by auto
    obtain k where k: "unat (bq_capacity q') = 2 ^ k" and mask: "bq_mask q' = bq_capacity q' - 1"
      and len: "length (bq_storage q') = 2 * unat (bq_capacity q')"
      using granted(4) by (auto simp: bq_inv_def bq_sized_def)
    have fits: "bq_dist q' (bq_writer_pos q') + length bs \<le> unat (bq_capacity q')"
      using granted(3) assms(3) cap by simp
    have "bq_sized q'" using granted(4) by (simp add: bq_inv_def)
    then have room: "unat off + length bs \<le> 2 * unat (bq_capacity q')"
      using mask_offset_less [of q' "bq_writer_pos q'"] fits off by simp
    have span: "unat (bq_writer_pos q' - bq_reader_pos q') = total_length (unread @ pending)"
      using rel_span [OF rel] .
    have "bq_holds (splice (unat off) bs (bq_storage q')) (bq_mask q') (bq_reader_pos q') (unread @ pending)
        = bq_holds (bq_storage q') (bq_mask q') (bq_reader_pos q') (unread @ pending)"
      unfolding mask off using span fits inv_distances(3) [OF granted(4)] len
      by (intro bq_holds_splice [OF k]) simp_all
    with rel store_inv [OF granted(4) room] have "bq_rel (bq_store off bs q') unread pending"
      by (simp add: bq_rel_def) (simp add: bq_store_def)
    with room len show ?thesis by simp
  next
    case full
    then show ?thesis by simp
  qed
qed

text \<open>
  A refusal is genuine: \<open>prepare_write\<close> answers null only when the bytes written and not
  yet released by the reader, together with the request, exceed the capacity.
\<close>

theorem refused_only_when_full:
  assumes "bq_inv q" "bq_prepare_write n q = (None, q')"
  shows "unat (bq_capacity q) < unat (bq_writer_pos q - bq_atomic_reader_pos q) + unat n"
  using assms by (cases rule: prepare_write_cases) auto

text \<open>
  A drained queue gives all its space back: once the reader has found the queue empty
  and committed its reads, a write of any size up to the capacity is granted, whatever
  batch size delayed the earlier commits.
\<close>

theorem drained_queue_accepts_capacity:
  assumes "bq_inv q" "bq_empty q = (True, q')" "bq_writer_pos q = bq_atomic_writer_pos q"
    and "n \<le> bq_capacity q"
  shows "fst (bq_prepare_write n (bq_commit_read q')) \<noteq> None"
proof -
  let ?q = "bq_commit_read q'"
  have "bq_inv q'" using empty_inv [OF assms(1)] assms(2) by simp
  then have inv: "bq_inv ?q" by (rule commit_read_inv)
  have eq: "bq_writer_pos ?q = bq_atomic_reader_pos ?q" "bq_capacity ?q = bq_capacity q"
    using assms(2,3) by (auto simp: bq_empty_def bq_commit_read_def Let_def split: if_splits)
  obtain r p where pw: "bq_prepare_write n ?q = (r, p)" by fastforce
  from inv pw show ?thesis
  proof (cases rule: prepare_write_cases)
    case full
    with eq assms(4) show ?thesis by (simp add: word_le_nat_alt)
  qed (use pw in simp)
qed

text \<open>
  The reservation fast path is the slow path: when \<open>prepare_write_reserve_cached\<close> grants
  a buffer, \<open>prepare_write\<close> grants the same one without touching the queue, and publishing
  the reservation's end position is finishing and committing the write.
\<close>

theorem reservation_is_prepare_write:
  assumes "wr_write_buffer (bq_prepare_write_reserve_cached n q) = Some off"
  shows "bq_prepare_write n q = (Some off, q)
    \<and> bq_finish_and_commit_write_reservation (wr_writer_pos (bq_prepare_write_reserve_cached n q) + n) q
      = bq_finish_and_commit_write n q"
  using assms
  by (auto simp: bq_prepare_write_reserve_cached_def bq_prepare_write_def
      bq_finish_and_commit_write_def split: if_splits)

text \<open>
  Allocation and release match: the pointer \<^verbatim>\<open>_alloc_aligned\<close> returns is aligned, lies with
  its whole block and both metadata words inside the mapping, and \<^verbatim>\<open>_free_aligned\<close> later
  unmaps exactly the address and length that were mapped, for every huge-page policy and
  for the fallback. The hypothesis on \<open>mmap\<close> is that a mapping does not wrap around.
\<close>

theorem free_undoes_alloc:
  assumes alloc: "alloc_aligned mmap memory sz alignment policy = Inr (ptr, memory')"
    and align: "unat alignment = 2 ^ k"
    and sz: "unat sz + 16 + unat alignment + 2097152 < 2 ^ 64"
    and mmap: "\<And>t h a. mmap t h = Some a \<Longrightarrow> unat a + unat t < 2 ^ 64"
  shows "\<exists>m total huge. mmap total huge = Some m \<and> free_aligned memory' ptr = (m, total)
    \<and> unat ptr mod unat alignment = 0 \<and> unat m + 16 \<le> unat ptr
    \<and> unat ptr + unat sz \<le> unat m + unat total"
proof -
  obtain m total huge where a: "mmap total huge = Some m"
    "total = sz + 16 + alignment \<or> total = ((sz + 16 + alignment + 2097152 - 1) div 2097152) * 2097152"
    "ptr = align_pointer (m + 16) alignment"
    "memory' = memory(ptr - 8 := total, ptr - 16 := ptr - m)"
    using alloc by (rule alloc_cases)
  have small: "unat (sz + 16 + alignment) = unat sz + 16 + unat alignment"
    using sz by (simp add: unat_word_ariths)
  have total: "unat sz + 16 + unat alignment \<le> unat total"
    using a(2) small round_up_covers [of 2097152 "sz + 16 + alignment"] sz by auto
  have wrap: "unat m + unat total < 2 ^ 64" using mmap [OF a(1)] .
  with total have m16: "unat (m + 16) = unat m + 16" by (simp add: unat_word_ariths)
  have "unat (m + 16) + unat alignment < 2 ^ 64" using m16 total wrap by simp
  note al = align_pointer_nat [OF align this]
  have inside: "unat m + 16 \<le> unat ptr" "unat ptr < unat m + 16 + unat alignment"
    using al(2,3) m16 a(3) by (auto simp: word_le_nat_alt)
  have "ptr - 8 \<noteq> ptr - 16" by simp
  then have free: "free_aligned memory' ptr = (m, total)"
    by (simp add: free_aligned_def a(4) Let_def)
  show ?thesis
    using a(1) free al(1) inside total a(3) by (intro exI [of _ m] exI [of _ total] exI [of _ huge]) auto
qed

subsection \<open>Witnesses\<close>

text \<open>A framing for closed examples: the first byte of a message is its length.\<close>

definition len_prefixed :: "bytes \<Rightarrow> nat" where
  "len_prefixed bs = (case bs of [] \<Rightarrow> 0 | b # _ \<Rightarrow> unat b)"

definition example_msg :: bytes where
  "example_msg = [3, 7, 9]"

lemma example_msg_ok: "bq_msg_ok len_prefixed TYPE(8) example_msg"
  by (simp add: bq_msg_ok_def framed_def len_prefixed_def example_msg_def)

lemma example_cpp_width: "cpp_width TYPE(8)"
  by (simp add: cpp_width_def)

lemma example_run:
  obtains q0 q1 q2 where "bq_new (16 :: 8 word) Never 5 = Inr q0"
    "bq_put example_msg q0 = (True, q1)" "bq_get len_prefixed q1 = (Some example_msg, q2)"
proof -
  have "case bq_new (16 :: 8 word) Never 5 of Inl _ \<Rightarrow> False
    | Inr q0 \<Rightarrow> fst (bq_put example_msg q0)
        \<and> fst (bq_get len_prefixed (snd (bq_put example_msg q0))) = Some example_msg"
    by code_simp
  then show thesis using that by (cases "bq_new (16 :: 8 word) Never 5") (auto simp: prod_eq_iff)
qed

definition example_queue :: "8 word bounded_queue" where
  "example_queue = (case bq_new 16 Never 5 of Inr q \<Rightarrow> q)"

lemma example_queue_new: "bq_new 16 Never 5 = Inr example_queue"
proof -
  obtain q0 where "bq_new (16 :: 8 word) Never 5 = Inr q0" using example_run by blast
  then show ?thesis by (simp add: example_queue_def)
qed

lemma example_queue_rel: "bq_rel example_queue [] []" "bq_inv example_queue"
  using bq_new_rel(1) [OF example_queue_new example_cpp_width] by (auto simp: bq_rel_def)

theorem bounded_queue_fifo_witness:
  "\<exists>q held. fifo_run (bq_msg_ok len_prefixed TYPE(8)) bq_put (bq_get len_prefixed) bq_tau
      example_queue [example_msg] [example_msg] q
    \<and> [example_msg] = [example_msg] @ held \<and> bq_queue_rel len_prefixed q held"
proof -
  obtain q1 q2 where put: "bq_put example_msg example_queue = (True, q1)"
      and get: "bq_get len_prefixed q1 = (Some example_msg, q2)"
    using example_run example_queue_new by (metis sum.inject(2))
  let ?run = "fifo_run (bq_msg_ok len_prefixed TYPE(8)) bq_put (bq_get len_prefixed) bq_tau example_queue"
  have "?run [] [] example_queue" by (rule fifo_run.start)
  then have "?run ([] @ [example_msg]) [] q1" using example_msg_ok put by (rule fifo_run.put_taken)
  then have "?run ([] @ [example_msg]) ([] @ [example_msg]) q2" using get by (rule fifo_run.get_one)
  then have run: "?run [example_msg] [example_msg] q2" by simp
  from bounded_queue_fifo [OF example_queue_new example_cpp_width run] run
  show ?thesis by blast
qed

theorem granted_region_is_free_witness:
  "\<exists>off q'. bq_prepare_write 3 example_queue = (Some off, q')
    \<and> unat off + 3 \<le> length (bq_storage q') \<and> bq_rel (bq_store off example_msg q') [] []"
proof -
  have "fst (bq_prepare_write 3 example_queue) \<noteq> None" by code_simp
  then obtain off q' where pw: "bq_prepare_write 3 example_queue = (Some off, q')"
    by (cases "bq_prepare_write 3 example_queue") auto
  from granted_region_is_free [OF example_queue_rel(1) pw, of example_msg] pw
  show ?thesis by (simp add: example_msg_def)
qed

theorem refused_only_when_full_witness:
  "fst (bq_prepare_write 17 example_queue) = None
    \<and> unat (bq_capacity example_queue)
        < unat (bq_writer_pos example_queue - bq_atomic_reader_pos example_queue) + 17"
proof -
  have n: "fst (bq_prepare_write 17 example_queue) = None" by code_simp
  then have "bq_prepare_write 17 example_queue = (None, snd (bq_prepare_write 17 example_queue))"
    by (metis prod.collapse)
  from refused_only_when_full [OF example_queue_rel(2) this] n show ?thesis by simp
qed

theorem drained_queue_accepts_capacity_witness:
  "fst (bq_empty example_queue)
    \<and> fst (bq_prepare_write 16 (bq_commit_read (snd (bq_empty example_queue)))) \<noteq> None"
proof -
  have e: "fst (bq_empty example_queue)" "bq_writer_pos example_queue = bq_atomic_writer_pos example_queue"
    "16 \<le> bq_capacity example_queue" by code_simp+
  then have "bq_empty example_queue = (True, snd (bq_empty example_queue))" by (simp add: prod_eq_iff)
  from drained_queue_accepts_capacity [OF example_queue_rel(2) this e(2,3)] e(1) show ?thesis by simp
qed

theorem reservation_is_prepare_write_witness:
  "wr_write_buffer (bq_prepare_write_reserve_cached 3 example_queue) = Some 0
    \<and> bq_prepare_write 3 example_queue = (Some 0, example_queue)"
proof -
  have "wr_write_buffer (bq_prepare_write_reserve_cached 3 example_queue) = Some 0" by code_simp
  with reservation_is_prepare_write [OF this] show ?thesis by simp
qed

definition example_mmap :: "size_t \<Rightarrow> bool \<Rightarrow> u64 option" where
  "example_mmap t huge = (if huge \<or> t > 65536 then None else Some 4104)"

theorem free_undoes_alloc_witness:
  "\<exists>ptr memory'. alloc_aligned example_mmap (\<lambda>_. 0) 256 128 Try = Inr (ptr, memory')
    \<and> fst (free_aligned memory' ptr) = 4104 \<and> unat ptr mod 128 = 0"
proof -
  have "case alloc_aligned example_mmap (\<lambda>_. 0) 256 128 Try of Inl _ \<Rightarrow> False | Inr _ \<Rightarrow> True"
    by code_simp
  then obtain ptr memory' where a: "alloc_aligned example_mmap (\<lambda>_. 0) 256 128 Try = Inr (ptr, memory')"
    by (auto split: sum.splits)
  have "unat (128 :: size_t) = 2 ^ 7" by simp
  moreover have "unat a + unat t < 2 ^ 64" if "example_mmap t h = Some a" for t h a
    using that by (auto simp: example_mmap_def word_less_nat_alt split: if_splits)
  ultimately obtain m total huge where "example_mmap total huge = Some m"
      "free_aligned memory' ptr = (m, total)" "unat ptr mod 128 = 0"
    using free_undoes_alloc [OF a, of 7] by auto
  with a show ?thesis by (auto simp: example_mmap_def split: if_splits)
qed

end
