(* ===== verification/Unbounded_Queue.thy ===== *)
theory Unbounded_Queue
  imports Bounded_Queue
begin

text \<open>
  \<^verbatim>\<open>quill/core/UnboundedSPSCQueue.h\<close>: a chain of bounded queues. The list \<open>uq_nodes\<close> is the
  chain of \<^verbatim>\<open>next\<close> pointers from the consumer's node (its head) to the producer's node (its
  last element); a node's \<^verbatim>\<open>next\<close> is null exactly when it is the last one. Freed nodes are
  no longer in the list.
  Functions that can throw return \<open>quill_error + 'a\<close> together with the queue the exception
  leaves behind; the growth loop is a \<^theory_text>\<open>partial_function\<close>, since it does not stop from a
  capacity of 0.
\<close>

record unbounded_queue =
  uq_max_capacity :: size_t
  uq_nodes :: "u64 bounded_queue list"

record read_result =
  rr_read_pos :: "size_t option"
  rr_previous_capacity :: size_t
  rr_new_capacity :: size_t
  rr_allocation :: bool

definition uq_new :: "size_t \<Rightarrow> size_t \<Rightarrow> huge_pages_policy \<Rightarrow> quill_error + unbounded_queue" where
  "uq_new initial_bounded_queue_capacity max_capacity policy =
     (case bq_new initial_bounded_queue_capacity policy 5 of
        Inl e \<Rightarrow> Inl e
      | Inr node \<Rightarrow> Inr \<lparr>uq_max_capacity = next_power_of_two max_capacity, uq_nodes = [node]\<rparr>)"

definition uq_producer :: "unbounded_queue \<Rightarrow> u64 bounded_queue" where
  "uq_producer q = last (uq_nodes q)"

definition uq_map_producer :: "(u64 bounded_queue \<Rightarrow> u64 bounded_queue) \<Rightarrow> unbounded_queue \<Rightarrow> unbounded_queue" where
  "uq_map_producer f q = q\<lparr>uq_nodes := butlast (uq_nodes q) @ [f (last (uq_nodes q))]\<rparr>"

definition uq_consumer :: "unbounded_queue \<Rightarrow> u64 bounded_queue" where
  "uq_consumer q = hd (uq_nodes q)"

definition uq_map_consumer :: "(u64 bounded_queue \<Rightarrow> u64 bounded_queue) \<Rightarrow> unbounded_queue \<Rightarrow> unbounded_queue" where
  "uq_map_consumer f q = q\<lparr>uq_nodes := f (hd (uq_nodes q)) # tl (uq_nodes q)\<rparr>"

text \<open>\<^verbatim>\<open>_producer->next.store(next_node); _producer = next_node;\<close>\<close>

definition uq_append_node :: "u64 bounded_queue \<Rightarrow> unbounded_queue \<Rightarrow> unbounded_queue" where
  "uq_append_node node q = q\<lparr>uq_nodes := uq_nodes q @ [node]\<rparr>"

subsection \<open>The producer's operations\<close>

partial_function (option) grow_capacity :: "size_t \<Rightarrow> size_t \<Rightarrow> size_t \<Rightarrow> size_t option" where
  "grow_capacity max_capacity nbytes capacity =
     (if capacity < nbytes
      then if capacity > SIZE_MAX div 2 then Some max_capacity
           else grow_capacity max_capacity nbytes (capacity * 2)
      else Some capacity)"

declare grow_capacity.simps [code]

definition uq_handle_full_queue ::
  "size_t \<Rightarrow> unbounded_queue \<Rightarrow> ((quill_error + size_t option) \<times> unbounded_queue) option" where
  "uq_handle_full_queue nbytes q =
     (let max_capacity = uq_max_capacity q;
          capacity0 = bq_capacity (uq_producer q);
          capacity1 = (if capacity0 > SIZE_MAX div 2 then max_capacity else capacity0 * 2)
      in case grow_capacity max_capacity nbytes capacity1 of
           None \<Rightarrow> None
         | Some capacity \<Rightarrow> Some
             (if capacity > max_capacity
              then if nbytes > max_capacity
                   then (Inl (QuillError ''Logging single messages larger than the configured maximum queue capacity is not possible.''), q)
                   else (Inr None, q)
              else let q1 = uq_map_producer bq_commit_write q
                   in case bq_new capacity (bq_huge_pages_policy (uq_producer q1)) 5 of
                        Inl e \<Rightarrow> (Inl e, q1)
                      | Inr next_node \<Rightarrow>
                          (case bq_prepare_write nbytes next_node of
                             (write_pos, node') \<Rightarrow> (Inr write_pos, uq_append_node node' q1))))"

definition uq_prepare_write ::
  "size_t \<Rightarrow> unbounded_queue \<Rightarrow> ((quill_error + size_t option) \<times> unbounded_queue) option" where
  "uq_prepare_write nbytes q =
     (case bq_prepare_write nbytes (uq_producer q) of
        (Some write_pos, p) \<Rightarrow> Some (Inr (Some write_pos), uq_map_producer (\<lambda>_. p) q)
      | (None, p) \<Rightarrow> uq_handle_full_queue nbytes (uq_map_producer (\<lambda>_. p) q))"

definition uq_prepare_write_reserve_cached :: "size_t \<Rightarrow> unbounded_queue \<Rightarrow> size_t write_reservation" where
  "uq_prepare_write_reserve_cached nbytes q = bq_prepare_write_reserve_cached nbytes (uq_producer q)"

definition uq_finish_write :: "size_t \<Rightarrow> unbounded_queue \<Rightarrow> unbounded_queue" where
  "uq_finish_write nbytes = uq_map_producer (bq_finish_write nbytes)"

definition uq_commit_write :: "unbounded_queue \<Rightarrow> unbounded_queue" where
  "uq_commit_write = uq_map_producer bq_commit_write"

definition uq_finish_and_commit_write :: "size_t \<Rightarrow> unbounded_queue \<Rightarrow> unbounded_queue" where
  "uq_finish_and_commit_write nbytes q = uq_commit_write (uq_finish_write nbytes q)"

definition uq_finish_and_commit_write_reservation :: "size_t \<Rightarrow> unbounded_queue \<Rightarrow> unbounded_queue" where
  "uq_finish_and_commit_write_reservation new_writer_pos =
     uq_map_producer (bq_finish_and_commit_write_reservation new_writer_pos)"

definition uq_producer_capacity :: "unbounded_queue \<Rightarrow> size_t" where
  "uq_producer_capacity q = bq_capacity (uq_producer q)"

definition uq_shrink :: "size_t \<Rightarrow> unbounded_queue \<Rightarrow> (quill_error + unit) \<times> unbounded_queue" where
  "uq_shrink capacity q =
     (if capacity > drop_bit 1 (bq_capacity (uq_producer q)) then (Inr (), q)
      else case bq_new capacity (bq_huge_pages_policy (uq_producer q)) 5 of
             Inl e \<Rightarrow> (Inl e, q)
           | Inr next_node \<Rightarrow> (Inr (), uq_append_node next_node q))"

subsection \<open>The consumer's operations\<close>

definition uq_consumer_prepare_read :: "unbounded_queue \<Rightarrow> size_t option \<times> unbounded_queue" where
  "uq_consumer_prepare_read q =
     (case bq_prepare_read (uq_consumer q) of (r, c) \<Rightarrow> (r, uq_map_consumer (\<lambda>_. c) q))"

text \<open>\<^verbatim>\<open>_consumer->next.load() != nullptr\<close>\<close>

definition uq_has_next :: "unbounded_queue \<Rightarrow> bool" where
  "uq_has_next q \<longleftrightarrow> tl (uq_nodes q) \<noteq> []"

text \<open>Commit the reads, delete the drained node and move to the next one.\<close>

definition uq_switch_node :: "unbounded_queue \<Rightarrow> unbounded_queue" where
  "uq_switch_node q = (let q' = uq_map_consumer bq_commit_read q in q'\<lparr>uq_nodes := tl (uq_nodes q')\<rparr>)"

definition uq_read_next_queue :: "unbounded_queue \<Rightarrow> read_result \<times> unbounded_queue" where
  "uq_read_next_queue q =
     (case uq_consumer_prepare_read q of
        (Some off, q') \<Rightarrow>
          (\<lparr>rr_read_pos = Some off, rr_previous_capacity = 0, rr_new_capacity = 0, rr_allocation = False\<rparr>, q')
      | (None, q') \<Rightarrow>
          let previous_capacity = bq_capacity (uq_consumer q');
              (r, q'') = uq_consumer_prepare_read (uq_switch_node q')
          in (\<lparr>rr_read_pos = r, rr_previous_capacity = previous_capacity,
               rr_new_capacity = bq_capacity (uq_consumer q''), rr_allocation = True\<rparr>, q''))"

definition uq_prepare_read :: "unbounded_queue \<Rightarrow> read_result \<times> unbounded_queue" where
  "uq_prepare_read q =
     (case uq_consumer_prepare_read q of
        (r, q') \<Rightarrow>
          if r = None \<and> uq_has_next q' then uq_read_next_queue q'
          else (\<lparr>rr_read_pos = r, rr_previous_capacity = 0, rr_new_capacity = 0, rr_allocation = False\<rparr>, q'))"

definition uq_finish_read :: "size_t \<Rightarrow> unbounded_queue \<Rightarrow> unbounded_queue" where
  "uq_finish_read nbytes = uq_map_consumer (bq_finish_read nbytes)"

definition uq_commit_read :: "unbounded_queue \<Rightarrow> unbounded_queue" where
  "uq_commit_read = uq_map_consumer bq_commit_read"

definition uq_capacity :: "unbounded_queue \<Rightarrow> size_t" where
  "uq_capacity q = bq_capacity (uq_consumer q)"

definition uq_empty :: "unbounded_queue \<Rightarrow> bool \<times> unbounded_queue" where
  "uq_empty q =
     (case bq_empty (uq_consumer q) of
        (e, c) \<Rightarrow> (e \<and> \<not> uq_has_next q, uq_map_consumer (\<lambda>_. c) q))"

subsection \<open>The growth loop\<close>

lemma size_max_half: "SIZE_MAX div 2 = (9223372036854775807 :: size_t)"
  by (simp add: SIZE_MAX_def)

text \<open>
  From a positive capacity the loop stops. Without overflow the result is the capacity
  doubled until it reaches \<open>nbytes\<close>; the overflow exit can be taken only for more than
  \<open>2 ^ 63\<close> bytes.
\<close>

lemma unat_double_word:
  fixes c :: u64
  assumes "\<not> c > SIZE_MAX div 2"
  shows "unat (c * 2) = 2 * unat c"
proof -
  have "unat c \<le> 9223372036854775807" using assms by (simp add: size_max_half word_less_nat_alt not_less)
  then show ?thesis by (simp add: unat_word_ariths)
qed

lemma grow_capacity_result:
  assumes "0 < unat c" "unat n \<le> 2 ^ 63"
  shows "\<exists>j. grow_capacity mx n c = Some (c * 2 ^ j) \<and> unat (c * 2 ^ j) = unat c * 2 ^ j
    \<and> n \<le> c * 2 ^ j \<and> (j = 0 \<or> unat c * 2 ^ (j - 1) < unat n)"
  using assms(1)
proof (induction "unat n - unat c" arbitrary: c rule: less_induct)
  case less
  show ?case
  proof (cases "c < n")
    case False
    then show ?thesis by (intro exI [of _ 0]) (auto simp: grow_capacity.simps [of mx n c])
  next
    case True
    then have lt: "unat c < unat n" by (simp add: word_less_nat_alt)
    have nb: "\<not> c > SIZE_MAX div 2"
      using lt assms(2) by (simp add: size_max_half word_less_nat_alt not_less)
    have d: "unat (c * 2) = 2 * unat c" using nb by (rule unat_double_word)
    have "unat n - unat (c * 2) < unat n - unat c" "0 < unat (c * 2)" using lt d less.prems by auto
    from less.hyps [OF this] obtain j where j: "grow_capacity mx n (c * 2) = Some (c * 2 * 2 ^ j)"
        "unat (c * 2 * 2 ^ j) = 2 * unat c * 2 ^ j" "n \<le> c * 2 * 2 ^ j"
        "j = 0 \<or> 2 * unat c * 2 ^ (j - 1) < unat n"
      using d by auto
    have "unat c * 2 ^ (Suc j - 1) < unat n" using j(4) lt by (cases j) (auto simp: mult.assoc)
    with j True nb show ?thesis
      by (intro exI [of _ "Suc j"]) (simp add: grow_capacity.simps [of mx n c] mult.assoc)
  qed
qed

subsection \<open>Messages in the chain\<close>

definition uq_rel :: "unbounded_queue \<Rightarrow> bytes list \<Rightarrow> bool" where
  "uq_rel q ms \<longleftrightarrow> uq_nodes q \<noteq> []
     \<and> (\<exists>mss. list_all2 (\<lambda>node us. bq_rel node us []) (uq_nodes q) mss \<and> ms = concat mss)"

lemma uq_rel_consumerE:
  assumes "uq_rel q ms"
  obtains c ns us mss where "uq_nodes q = c # ns" "bq_rel c us []"
    "list_all2 (\<lambda>node us. bq_rel node us []) ns mss" "ms = us @ concat mss"
  using assms by (cases "uq_nodes q") (auto simp: uq_rel_def list_all2_Cons1)

lemma uq_rel_consumerI:
  assumes "uq_nodes q = c # ns" "bq_rel c us []"
    "list_all2 (\<lambda>node us. bq_rel node us []) ns mss" "ms = us @ concat mss"
  shows "uq_rel q ms"
  using assms by (auto simp: uq_rel_def intro: exI [of _ "us # mss"])

lemma uq_rel_producerE:
  assumes "uq_rel q ms"
  obtains ns p us mss where "uq_nodes q = ns @ [p]" "bq_rel p us []"
    "list_all2 (\<lambda>node us. bq_rel node us []) ns mss" "ms = concat mss @ us"
proof -
  obtain mss where mss: "list_all2 (\<lambda>node us. bq_rel node us []) (uq_nodes q) mss" "ms = concat mss"
    and ne: "uq_nodes q \<noteq> []" using assms by (auto simp: uq_rel_def)
  have "list_all2 (\<lambda>node us. bq_rel node us []) (butlast (uq_nodes q) @ [last (uq_nodes q)]) mss"
    using mss(1) ne by simp
  then obtain xs us where "mss = xs @ [us]" "bq_rel (last (uq_nodes q)) us []"
      "list_all2 (\<lambda>node us. bq_rel node us []) (butlast (uq_nodes q)) xs"
    unfolding list_all2_append1 list_all2_Cons1 by auto
  with mss(2) ne show thesis by (intro that [of "butlast (uq_nodes q)"]) simp_all
qed

lemma uq_rel_producerI:
  assumes "uq_nodes q = ns @ [p]" "bq_rel p us []"
    "list_all2 (\<lambda>node us. bq_rel node us []) ns mss" "ms = concat mss @ us"
  shows "uq_rel q ms"
  using assms by (auto simp: uq_rel_def intro!: exI [of _ "mss @ [us]"] list_all2_appendI)

lemma uq_rel_map_producer:
  assumes "uq_rel q ms" "\<And>us. bq_rel (uq_producer q) us [] \<Longrightarrow> bq_rel (f (uq_producer q)) (us @ new) []"
  shows "uq_rel (uq_map_producer f q) (ms @ new)"
  using assms(1)
proof (rule uq_rel_producerE)
  fix ns p us mss
  assume a: "uq_nodes q = ns @ [p]" "bq_rel p us []"
    "list_all2 (\<lambda>node us. bq_rel node us []) ns mss" "ms = concat mss @ us"
  then have "bq_rel (f p) (us @ new) []" using assms(2) [of us] by (simp add: uq_producer_def)
  with a show ?thesis by (intro uq_rel_producerI [of _ ns "f p" "us @ new"]) (auto simp: uq_map_producer_def)
qed

lemma uq_rel_map_consumer:
  assumes "uq_rel q ms" "\<And>us. bq_rel (uq_consumer q) us [] \<Longrightarrow> bq_rel (f (uq_consumer q)) us []"
  shows "uq_rel (uq_map_consumer f q) ms"
  using assms(1)
proof (rule uq_rel_consumerE)
  fix c ns us mss
  assume a: "uq_nodes q = c # ns" "bq_rel c us []"
    "list_all2 (\<lambda>node us. bq_rel node us []) ns mss" "ms = us @ concat mss"
  then have "bq_rel (f c) us []" using assms(2) [of us] by (simp add: uq_consumer_def)
  with a show ?thesis by (intro uq_rel_consumerI [of _ "f c" ns us mss]) (auto simp: uq_map_consumer_def)
qed

lemma cpp_width_64 [simp]: "cpp_width TYPE(64)"
  by (simp add: cpp_width_def)

lemma uq_rel_append_node:
  assumes "uq_rel q ms" "bq_rel node [] []"
  shows "uq_rel (uq_append_node node q) ms"
proof -
  obtain mss where "list_all2 (\<lambda>node us. bq_rel node us []) (uq_nodes q) mss" "ms = concat mss" "uq_nodes q \<noteq> []"
    using assms(1) by (auto simp: uq_rel_def)
  with assms(2) show ?thesis
    by (intro uq_rel_producerI [of _ "uq_nodes q" node "[]" mss]) (auto simp: uq_append_node_def)
qed

lemma uq_new_rel: "uq_new initial mx policy = Inr q \<Longrightarrow> uq_rel q []"
  by (auto simp: uq_new_def uq_rel_def list_all2_Cons1 split: sum.splits dest!: bq_new_rel(1)
      intro!: exI [of _ "[[]]"])

lemma prepare_write_rel:
  assumes "bq_rel node u p" "bq_prepare_write n node = (r, node')"
  shows "bq_rel node' u p"
  using prepare_write_cases_fields [OF assms(2)] assms(1) rel_refresh by auto

lemma uq_shrink_rel: "uq_rel q ms \<Longrightarrow> uq_rel (snd (uq_shrink capacity q)) ms"
  by (auto simp: uq_shrink_def split: sum.splits intro!: uq_rel_append_node dest: bq_new_rel(1))

text \<open>
  What the producer's reservation leaves: the offset is where the producer's node will
  write next, and the message fits.
\<close>

definition node_ready :: "u64 bounded_queue \<Rightarrow> nat \<Rightarrow> size_t \<Rightarrow> bool" where
  "node_ready p n off \<longleftrightarrow> off = bq_writer_pos p AND bq_mask p
     \<and> bq_dist p (bq_writer_pos p) + n \<le> unat (bq_capacity p)"

lemma prepare_write_ready:
  assumes "bq_inv node" "bq_prepare_write n node = (Some off, node')"
  shows "node_ready node' (unat n) off"
  using assms
proof (cases rule: prepare_write_cases)
  case granted
  then show ?thesis by (auto simp: node_ready_def)
qed simp

lemma new_node_grants:
  fixes c n :: size_t
  assumes "bq_new c policy pct = Inr node" "n \<le> c"
  shows "\<exists>off node'. bq_prepare_write n node = (Some off, node')"
proof -
  have cap: "c \<le> bq_capacity node" using bq_new_rel(2) [OF assms(1)] by simp
  have "bq_reader_pos_cache_plus_capacity node = bq_capacity node" "bq_writer_pos node = 0"
    using assms(1) by (auto simp: bq_new_def split: sum.splits)
  with cap assms(2) show ?thesis by (auto simp: bq_prepare_write_def not_less)
qed

subsection \<open>One message through the chain\<close>

text \<open>
  The frontend's write after a successful reservation (store, finish, publish), and the
  backend's decoding of the message the read position points to. \<open>uq_put\<close> and \<open>uq_get\<close> are
  one whole write and one whole read; a write that throws or does not return stores nothing.
\<close>

definition uq_publish :: "size_t \<Rightarrow> bytes \<Rightarrow> unbounded_queue \<Rightarrow> unbounded_queue" where
  "uq_publish off m q = uq_finish_and_commit_write (of_nat (length m)) (uq_map_producer (bq_store off m) q)"

definition uq_decode :: "(bytes \<Rightarrow> nat) \<Rightarrow> size_t \<Rightarrow> unbounded_queue \<Rightarrow> bytes \<times> unbounded_queue" where
  "uq_decode frame off q =
     (let storage = bq_storage (uq_consumer q);
          n = frame (drop (unat off) storage)
      in (slice (unat off) n storage, uq_finish_read (of_nat n) q))"

definition uq_put :: "bytes \<Rightarrow> unbounded_queue \<Rightarrow> bool \<times> unbounded_queue" where
  "uq_put m q =
     (case uq_prepare_write (of_nat (length m)) q of
        Some (Inr (Some off), q') \<Rightarrow> (True, uq_publish off m q')
      | Some (_, q') \<Rightarrow> (False, q')
      | None \<Rightarrow> (False, q))"

definition uq_get :: "(bytes \<Rightarrow> nat) \<Rightarrow> unbounded_queue \<Rightarrow> bytes option \<times> unbounded_queue" where
  "uq_get frame q =
     (case uq_prepare_read q of
        (r, q') \<Rightarrow> case rr_read_pos r of
          None \<Rightarrow> (None, q')
        | Some off \<Rightarrow> (case uq_decode frame off q' of (m, q'') \<Rightarrow> (Some m, q'')))"

definition uq_tau :: "unbounded_queue \<Rightarrow> unbounded_queue \<Rightarrow> bool" where
  "uq_tau q q' \<longleftrightarrow> q' = uq_commit_read q \<or> q' = uq_commit_write q \<or> q' = snd (uq_empty q)
     \<or> (\<exists>capacity. q' = snd (uq_shrink capacity q))"

lemma map_producer_comp: "uq_map_producer f (uq_map_producer g q) = uq_map_producer (f \<circ> g) q"
  by (simp add: uq_map_producer_def)

lemma publish_eq:
  "uq_publish off m = uq_map_producer
     (\<lambda>p. bq_commit_write (bq_finish_write (of_nat (length m)) (bq_store off m p)))"
  by (rule ext) (simp add: uq_publish_def uq_finish_and_commit_write_def uq_commit_write_def
      uq_finish_write_def map_producer_comp comp_def)

lemma publish_rel:
  assumes "uq_rel q ms" "m \<noteq> []" "node_ready (uq_producer q) (length m) off"
  shows "uq_rel (uq_publish off m q) (ms @ [m])"
  unfolding publish_eq
proof (rule uq_rel_map_producer [OF assms(1)])
  fix us
  assume "bq_rel (uq_producer q) us []"
  from rel_write_granted [OF this assms(2)] assms(3)
  have "bq_rel (bq_finish_write (of_nat (length m)) (bq_store off m (uq_producer q))) us [m]"
    by (simp add: node_ready_def)
  from rel_commit_write [OF this]
  show "bq_rel (bq_commit_write (bq_finish_write (of_nat (length m)) (bq_store off m (uq_producer q))))
    (us @ [m]) []" by simp
qed

lemma uq_nodes_producer_inv: "uq_rel q ms \<Longrightarrow> bq_inv (uq_producer q)"
  by (erule uq_rel_producerE) (simp add: uq_producer_def bq_rel_def)

lemma uq_nodes_ne: "uq_rel q ms \<Longrightarrow> uq_nodes q \<noteq> []"
  by (simp add: uq_rel_def)

lemma producer_map_producer [simp]: "uq_producer (uq_map_producer f q) = f (uq_producer q)"
  by (simp add: uq_producer_def uq_map_producer_def)

lemma producer_append_node [simp]: "uq_producer (uq_append_node node q) = node"
  by (simp add: uq_producer_def uq_append_node_def)

lemma commit_write_rel: "uq_rel q ms \<Longrightarrow> uq_rel (uq_map_producer bq_commit_write q) ms"
  by (drule uq_rel_map_producer [where f = bq_commit_write and new = "[]"])
    (use rel_commit_write [of _ _ "[]"] in auto)

lemma handle_full_cases:
  assumes "uq_handle_full_queue n q = Some (r, q')"
  obtains (same) "q' = q" "\<forall>off. r \<noteq> Inr (Some off)"
    | (failed) "q' = uq_map_producer bq_commit_write q" "\<forall>off. r \<noteq> Inr (Some off)"
    | (new) c node wp node' where
        "bq_new c (bq_huge_pages_policy (uq_producer (uq_map_producer bq_commit_write q))) 5 = Inr node"
        "bq_prepare_write n node = (wp, node')" "r = Inr wp"
        "q' = uq_append_node node' (uq_map_producer bq_commit_write q)"
proof -
  let ?c1 = "if bq_capacity (uq_producer q) > SIZE_MAX div 2 then uq_max_capacity q
    else bq_capacity (uq_producer q) * 2"
  let ?q1 = "uq_map_producer bq_commit_write q"
  obtain c where c: "grow_capacity (uq_max_capacity q) n ?c1 = Some c"
    using assms by (cases "grow_capacity (uq_max_capacity q) n ?c1") (simp_all add: uq_handle_full_queue_def Let_def)
  show thesis
  proof (cases "c > uq_max_capacity q")
    case True
    with assms c have "q' = q" "\<forall>off. r \<noteq> Inr (Some off)"
      by (auto simp: uq_handle_full_queue_def Let_def split: if_splits)
    then show thesis by (rule same)
  next
    case False
    show thesis
    proof (cases "bq_new c (bq_huge_pages_policy (uq_producer ?q1)) 5")
      case (Inl e)
      with assms c False have "q' = ?q1" "\<forall>off. r \<noteq> Inr (Some off)"
        by (auto simp: uq_handle_full_queue_def Let_def)
      then show thesis by (rule failed)
    next
      case (Inr node)
      obtain wp node' where w: "bq_prepare_write n node = (wp, node')" by fastforce
      with assms c False Inr have "r = Inr wp" "q' = uq_append_node node' ?q1"
        by (simp_all add: uq_handle_full_queue_def Let_def)
      with Inr w show thesis by (rule new)
    qed
  qed
qed

lemma handle_full_rel:
  assumes "uq_handle_full_queue n q = Some (r, q')" "uq_rel q ms"
  shows "uq_rel q' ms" "r = Inr (Some off) \<Longrightarrow> node_ready (uq_producer q') (unat n) off"
proof -
  let ?q1 = "uq_map_producer bq_commit_write q"
  consider (same) "q' = q" "\<forall>off. r \<noteq> Inr (Some off)"
    | (failed) "q' = ?q1" "\<forall>off. r \<noteq> Inr (Some off)"
    | (new) c node wp node' where "bq_new c (bq_huge_pages_policy (uq_producer ?q1)) 5 = Inr node"
      "bq_prepare_write n node = (wp, node')" "r = Inr wp" "q' = uq_append_node node' ?q1"
    using assms(1) by (rule handle_full_cases)
  then have "uq_rel q' ms \<and> (\<forall>off. r = Inr (Some off) \<longrightarrow> node_ready (uq_producer q') (unat n) off)"
  proof cases
    case new
    from bq_new_rel(1) [OF new(1)] have node: "bq_rel node [] []" by simp
    from prepare_write_rel [OF this new(2)] have "uq_rel q' ms"
      unfolding new(4) by (intro uq_rel_append_node commit_write_rel assms(2))
    moreover have "bq_inv node" using node by (simp add: bq_rel_def)
    ultimately show ?thesis using prepare_write_ready [OF \<open>bq_inv node\<close>] new by auto
  qed (use assms(2) commit_write_rel in auto)
  then show "uq_rel q' ms" "r = Inr (Some off) \<Longrightarrow> node_ready (uq_producer q') (unat n) off" by auto
qed

lemma uq_prepare_write_rel:
  assumes "uq_prepare_write n q = Some (r, q')" "uq_rel q ms"
  shows "uq_rel q' ms" "r = Inr (Some off) \<Longrightarrow> node_ready (uq_producer q') (unat n) off"
proof -
  obtain wp p where pw: "bq_prepare_write n (uq_producer q) = (wp, p)" by fastforce
  have rel: "uq_rel (uq_map_producer (\<lambda>_. p) q) ms"
    using uq_rel_map_producer [OF assms(2), of "\<lambda>_. p" "[]"] prepare_write_rel [OF _ pw] by simp
  have "uq_rel q' ms \<and> (r = Inr (Some off) \<longrightarrow> node_ready (uq_producer q') (unat n) off)"
  proof (cases wp)
    case None
    with assms(1) pw handle_full_rel [OF _ rel] show ?thesis by (auto simp: uq_prepare_write_def)
  next
    case (Some w)
    with assms(1) pw rel prepare_write_ready [OF uq_nodes_producer_inv [OF assms(2)]]
    show ?thesis by (auto simp: uq_prepare_write_def)
  qed
  then show "uq_rel q' ms" "r = Inr (Some off) \<Longrightarrow> node_ready (uq_producer q') (unat n) off" by auto
qed

subsection \<open>What the consumer finds\<close>

definition uq_found :: "(bytes \<Rightarrow> nat) \<Rightarrow> size_t option \<Rightarrow> unbounded_queue \<Rightarrow> bytes list \<Rightarrow> bool" where
  "uq_found frame r q ms \<longleftrightarrow> uq_rel q ms
     \<and> (\<forall>off. r = Some off \<longrightarrow> (\<exists>m ms' q'. ms = m # ms' \<and> uq_decode frame off q = (m, q') \<and> uq_rel q' ms'))"

lemma consumer_map_consumer [simp]: "uq_consumer (uq_map_consumer f q) = f (uq_consumer q)"
  by (simp add: uq_consumer_def uq_map_consumer_def)

lemma nodes_map_consumer: "uq_nodes (uq_map_consumer f q) = f (uq_consumer q) # tl (uq_nodes q)"
  by (simp add: uq_consumer_def uq_map_consumer_def)

lemma has_next_map_consumer [simp]: "uq_has_next (uq_map_consumer f q) = uq_has_next q"
  by (simp add: uq_has_next_def nodes_map_consumer)

lemma consumer_prepare_read_found:
  assumes rel: "uq_rel q ms" and framed: "\<forall>m \<in> set ms. framed frame m"
    and r: "uq_consumer_prepare_read q = (r, q')"
  shows "uq_found frame r q' ms" "r = None \<Longrightarrow> bq_rel (uq_consumer q') [] []"
    "uq_has_next q' = uq_has_next q"
proof -
  from rel obtain c ns us mss where q: "uq_nodes q = c # ns" "bq_rel c us []"
    "list_all2 (\<lambda>node us. bq_rel node us []) ns mss" "ms = us @ concat mss"
    by (rule uq_rel_consumerE)
  then have c: "uq_consumer q = c" by (simp add: uq_consumer_def)
  obtain c' where pr: "bq_prepare_read c = (r, c')" and q': "q' = uq_map_consumer (\<lambda>_. c') q"
    using r c by (auto simp: uq_consumer_prepare_read_def split: prod.splits)
  then show "uq_has_next q' = uq_has_next q" by simp
  have nodes': "uq_nodes q' = c' # ns" and cq': "uq_consumer q' = c'"
    using q(1) q' by (simp_all add: nodes_map_consumer uq_consumer_def)
  have "uq_found frame r q' ms \<and> (r = None \<longrightarrow> bq_rel c' [] [])"
  proof (cases us)
    case Nil
    with rel_prepare_read_nil [of c "[]"] q(2) pr have "r = None" "bq_rel c' [] []" by auto
    moreover from this(2) have "uq_rel q' ms"
      using q Nil nodes' by (intro uq_rel_consumerI [of _ c' ns "[]" mss]) auto
    ultimately show ?thesis by (simp add: uq_found_def)
  next
    case (Cons m us')
    with q(2) have "bq_rel c (m # us') []" by simp
    then obtain off where o: "r = Some off" "bq_rel c' (m # us') []"
        "slice (unat off) (length m) (bq_storage c') = m"
        "length m \<le> unat (bq_writer_pos_cache c' - bq_reader_pos c')"
      by (rule rel_prepare_read_cons) (use pr in auto)
    have "uq_rel q' ms" using q o Cons nodes' by (intro uq_rel_consumerI [of _ c' ns us mss]) auto
    moreover have "drop (unat off) (bq_storage c') = m @ drop (length m) (drop (unat off) (bq_storage c'))"
      using o(3) by (metis append_take_drop_id slice_def)
    then have "frame (drop (unat off) (bq_storage c')) = length m"
      using framed q(4) Cons by (metis framed_def list.set_intros(1) append_Cons)
    then have "uq_decode frame off q' = (m, uq_finish_read (of_nat (length m)) q')"
      using o(3) cq' by (simp add: uq_decode_def)
    moreover have "uq_rel (uq_finish_read (of_nat (length m)) q') (us' @ concat mss)"
      using q(3) nodes' cq' rel_finish_read [OF o(2,4)]
      by (intro uq_rel_consumerI [of _ _ ns us' mss]) (auto simp: uq_finish_read_def nodes_map_consumer)
    ultimately show ?thesis using o(1) q(4) Cons by (simp add: uq_found_def)
  qed
  then show "uq_found frame r q' ms" "r = None \<Longrightarrow> bq_rel (uq_consumer q') [] []" using cq' by auto
qed

lemma switch_node_rel:
  assumes "uq_rel q ms" "bq_rel (uq_consumer q) [] []" "uq_has_next q"
  shows "uq_rel (uq_switch_node q) ms"
  using assms(1)
proof (rule uq_rel_consumerE)
  fix c ns us mss
  assume a: "uq_nodes q = c # ns" "bq_rel c us []"
    "list_all2 (\<lambda>node us. bq_rel node us []) ns mss" "ms = us @ concat mss"
  then have c: "uq_consumer q = c" by (simp add: uq_consumer_def)
  have "us = []"
    using a(2) assms(2) unfolding c by (cases us) (auto simp: bq_rel_def)
  with a assms(3) show ?thesis
    by (auto simp: uq_rel_def uq_switch_node_def Let_def uq_map_consumer_def uq_has_next_def)
qed

lemma read_next_queue_found:
  assumes rel: "uq_rel q ms" and framed: "\<forall>m \<in> set ms. framed frame m" and chained: "uq_has_next q"
    and r: "uq_read_next_queue q = (r, q')"
  shows "uq_found frame (rr_read_pos r) q' ms"
proof -
  obtain wp q1 where pr: "uq_consumer_prepare_read q = (wp, q1)" by fastforce
  note f1 = consumer_prepare_read_found [OF rel framed pr]
  show ?thesis
  proof (cases wp)
    case (Some off)
    with f1 r pr show ?thesis by (auto simp: uq_read_next_queue_def)
  next
    case None
    have "uq_rel q1 ms" using f1(1) by (simp add: uq_found_def)
    then have sw: "uq_rel (uq_switch_node q1) ms" using f1(2,3) chained None by (intro switch_node_rel) auto
    obtain wp2 q2 where pr2: "uq_consumer_prepare_read (uq_switch_node q1) = (wp2, q2)" by fastforce
    with None r pr have "rr_read_pos r = wp2" "q' = q2" by (auto simp: uq_read_next_queue_def Let_def)
    with consumer_prepare_read_found(1) [OF sw framed pr2] show ?thesis by simp
  qed
qed

lemma uq_prepare_read_found:
  assumes rel: "uq_rel q ms" and framed: "\<forall>m \<in> set ms. framed frame m"
    and r: "uq_prepare_read q = (r, q')"
  shows "uq_found frame (rr_read_pos r) q' ms"
proof -
  obtain wp q1 where pr: "uq_consumer_prepare_read q = (wp, q1)" by fastforce
  note f1 = consumer_prepare_read_found [OF rel framed pr]
  then have "uq_rel q1 ms" by (simp add: uq_found_def)
  with f1 r pr read_next_queue_found [OF this framed] show ?thesis
    by (auto simp: uq_prepare_read_def split: if_splits)
qed

subsection \<open>The chain is a queue\<close>

definition uq_msg_ok :: "(bytes \<Rightarrow> nat) \<Rightarrow> bytes \<Rightarrow> bool" where
  "uq_msg_ok frame = bq_msg_ok frame TYPE(64)"

definition uq_queue_rel :: "(bytes \<Rightarrow> nat) \<Rightarrow> unbounded_queue \<Rightarrow> bytes list \<Rightarrow> bool" where
  "uq_queue_rel frame q ms \<longleftrightarrow> uq_rel q ms \<and> (\<forall>m \<in> set ms. uq_msg_ok frame m)"

lemma msg_ok_framed: "uq_msg_ok frame m \<Longrightarrow> framed frame m"
  by (simp add: uq_msg_ok_def bq_msg_ok_def)

lemma msg_ok_length:
  assumes "uq_msg_ok frame m"
  shows "m \<noteq> []" "unat (of_nat (length m) :: size_t) = length m"
  using assms by (auto simp: uq_msg_ok_def bq_msg_ok_def framed_def unat_of_nat)

lemma uq_put_rel:
  assumes rel: "uq_rel q ms" and m: "uq_msg_ok frame m"
  shows "uq_rel (snd (uq_put m q)) (if fst (uq_put m q) then ms @ [m] else ms)"
proof (cases "uq_prepare_write (of_nat (length m)) q")
  case None
  with rel show ?thesis by (simp add: uq_put_def)
next
  case (Some p)
  obtain r q' where p: "p = (r, q')" by fastforce
  note pw = uq_prepare_write_rel [OF Some [unfolded p] rel]
  show ?thesis
  proof (cases "\<exists>off. r = Inr (Some off)")
    case True
    then obtain off where r: "r = Inr (Some off)" by blast
    from pw(2) [OF r] msg_ok_length [OF m] publish_rel [OF pw(1)] r Some p
    show ?thesis by (simp add: uq_put_def)
  next
    case False
    with pw(1) Some p show ?thesis by (auto simp: uq_put_def split: sum.splits option.splits)
  qed
qed

lemma uq_get_found:
  assumes "uq_rel q ms" "\<forall>m \<in> set ms. framed frame m" "uq_get frame q = (r, q')"
  shows "case r of None \<Rightarrow> uq_rel q' ms | Some m \<Rightarrow> \<exists>ms'. ms = m # ms' \<and> uq_rel q' ms'"
proof -
  obtain rr q1 where pr: "uq_prepare_read q = (rr, q1)" by fastforce
  from uq_prepare_read_found [OF assms(1,2) pr] pr assms(3) show ?thesis
    by (cases "rr_read_pos rr") (auto simp: uq_found_def uq_get_def)
qed

lemma uq_tau_rel:
  assumes "uq_tau q q'" "uq_rel q ms"
  shows "uq_rel q' ms"
proof -
  have "uq_rel (uq_commit_read q) ms" unfolding uq_commit_read_def
    by (rule uq_rel_map_consumer [OF assms(2)]) (rule rel_commit_read)
  moreover have "uq_rel (uq_commit_write q) ms" unfolding uq_commit_write_def
    by (rule commit_write_rel [OF assms(2)])
  moreover have "uq_rel (snd (uq_empty q)) ms"
    using uq_rel_map_consumer [OF assms(2), of "\<lambda>_. snd (bq_empty (uq_consumer q))"]
      rel_empty [of "uq_consumer q" _ "[]"]
    by (cases "bq_empty (uq_consumer q)") (auto simp: uq_empty_def)
  ultimately show ?thesis using assms uq_shrink_rel unfolding uq_tau_def by blast
qed

interpretation uqf: fifo_queue
  "uq_queue_rel frame" "uq_msg_ok frame" uq_put "uq_get frame" uq_tau for frame
proof
  fix q ms m
  assume "uq_queue_rel frame q ms" "uq_msg_ok frame m"
  then show "uq_queue_rel frame (snd (uq_put m q)) (if fst (uq_put m q) then ms @ [m] else ms)"
    using uq_put_rel [of q ms frame m] by (auto simp: uq_queue_rel_def)
next
  fix q q' ms m
  assume "uq_queue_rel frame q ms" "uq_get frame q = (Some m, q')"
  then show "\<exists>ms'. ms = m # ms' \<and> uq_queue_rel frame q' ms'"
    using uq_get_found [of q ms frame "Some m" q'] msg_ok_framed by (auto simp: uq_queue_rel_def)
next
  fix q q' ms
  assume "uq_queue_rel frame q ms" "uq_get frame q = (None, q')"
  then show "uq_queue_rel frame q' ms"
    using uq_get_found [of q ms frame None q'] msg_ok_framed by (auto simp: uq_queue_rel_def)
next
  fix q q' ms
  assume "uq_queue_rel frame q ms" "uq_tau q q'"
  then show "uq_queue_rel frame q' ms" using uq_tau_rel by (auto simp: uq_queue_rel_def)
qed

subsection \<open>The producer and the consumer interleaved\<close>

text \<open>
  The system of the two threads. A thread's program counter is where the other thread may
  run in between: the producer between reserving and publishing; the consumer between
  finding its node empty, loading \<^verbatim>\<open>next\<close>, and \<^verbatim>\<open>_read_next_queue\<close>. Shrinking is a step of the
  producer's thread. The ghost fields record what was published and what was decoded.
\<close>

datatype producer_pc = ProducerIdle | Reserved bytes size_t

datatype consumer_pc = ConsumerIdle | SawEmpty | SawNext

record chain_system =
  cs_queue :: unbounded_queue
  cs_producer :: producer_pc
  cs_consumer :: consumer_pc
  cs_sent :: "bytes list"
  cs_received :: "bytes list"

definition chain_receive ::
  "(bytes \<Rightarrow> nat) \<Rightarrow> size_t option \<Rightarrow> unbounded_queue \<Rightarrow> chain_system \<Rightarrow> chain_system" where
  "chain_receive frame r q s =
     (case r of
        None \<Rightarrow> s\<lparr>cs_queue := q, cs_consumer := ConsumerIdle\<rparr>
      | Some off \<Rightarrow> (case uq_decode frame off q of
          (m, q') \<Rightarrow> s\<lparr>cs_queue := q', cs_consumer := ConsumerIdle, cs_received := cs_received s @ [m]\<rparr>))"

inductive chain_step :: "(bytes \<Rightarrow> nat) \<Rightarrow> chain_system \<Rightarrow> chain_system \<Rightarrow> bool" for frame where
  reserve: "cs_producer s = ProducerIdle \<Longrightarrow> uq_msg_ok frame m \<Longrightarrow>
     uq_prepare_write (of_nat (length m)) (cs_queue s) = Some (Inr (Some off), q') \<Longrightarrow>
     chain_step frame s (s\<lparr>cs_queue := q', cs_producer := Reserved m off\<rparr>)"
| refused: "cs_producer s = ProducerIdle \<Longrightarrow>
     uq_prepare_write n (cs_queue s) = Some (r, q') \<Longrightarrow> (\<forall>off. r \<noteq> Inr (Some off)) \<Longrightarrow>
     chain_step frame s (s\<lparr>cs_queue := q'\<rparr>)"
| publish: "cs_producer s = Reserved m off \<Longrightarrow>
     chain_step frame s (s\<lparr>cs_queue := uq_publish off m (cs_queue s), cs_producer := ProducerIdle,
                           cs_sent := cs_sent s @ [m]\<rparr>)"
| shrink: "cs_producer s = ProducerIdle \<Longrightarrow> uq_shrink capacity (cs_queue s) = (r, q') \<Longrightarrow>
     chain_step frame s (s\<lparr>cs_queue := q'\<rparr>)"
| read: "cs_consumer s = ConsumerIdle \<Longrightarrow> uq_consumer_prepare_read (cs_queue s) = (Some off, q') \<Longrightarrow>
     chain_step frame s (chain_receive frame (Some off) q' s)"
| saw_empty: "cs_consumer s = ConsumerIdle \<Longrightarrow> uq_consumer_prepare_read (cs_queue s) = (None, q') \<Longrightarrow>
     chain_step frame s (s\<lparr>cs_queue := q', cs_consumer := SawEmpty\<rparr>)"
| load_next: "cs_consumer s = SawEmpty \<Longrightarrow>
     chain_step frame s (s\<lparr>cs_consumer := (if uq_has_next (cs_queue s) then SawNext else ConsumerIdle)\<rparr>)"
| read_next: "cs_consumer s = SawNext \<Longrightarrow> uq_read_next_queue (cs_queue s) = (r, q') \<Longrightarrow>
     chain_step frame s (chain_receive frame (rr_read_pos r) q' s)"
| commit: "cs_consumer s = ConsumerIdle \<Longrightarrow>
     chain_step frame s (s\<lparr>cs_queue := uq_commit_read (cs_queue s)\<rparr>)"

inductive_simps chain_step_simps: "chain_step frame s s'"

definition chain_start :: "unbounded_queue \<Rightarrow> chain_system" where
  "chain_start q = \<lparr>cs_queue = q, cs_producer = ProducerIdle, cs_consumer = ConsumerIdle,
     cs_sent = [], cs_received = []\<rparr>"

definition chain_inv :: "(bytes \<Rightarrow> nat) \<Rightarrow> chain_system \<Rightarrow> bool" where
  "chain_inv frame s \<longleftrightarrow>
     (\<exists>held. cs_sent s = cs_received s @ held \<and> uq_queue_rel frame (cs_queue s) held)
     \<and> (\<forall>m off. cs_producer s = Reserved m off \<longrightarrow>
          uq_msg_ok frame m \<and> node_ready (uq_producer (cs_queue s)) (length m) off)
     \<and> (cs_consumer s = SawNext \<longrightarrow> uq_has_next (cs_queue s))"

lemma has_next_length: "uq_has_next q \<longleftrightarrow> 2 \<le> length (uq_nodes q)"
  by (cases "uq_nodes q") (auto simp: uq_has_next_def Suc_le_eq)

lemma length_map_producer: "length (uq_nodes (uq_map_producer f q)) = max 1 (length (uq_nodes q))"
  by (cases "uq_nodes q") (auto simp: uq_map_producer_def)

lemma length_append_node: "length (uq_nodes (uq_append_node node q)) = Suc (length (uq_nodes q))"
  by (simp add: uq_append_node_def)

lemma prepare_write_length:
  assumes "uq_prepare_write n q = Some (r, q')"
  shows "length (uq_nodes q) \<le> length (uq_nodes q')"
proof -
  obtain wp p where pw: "bq_prepare_write n (uq_producer q) = (wp, p)" by fastforce
  let ?q1 = "uq_map_producer (\<lambda>_. p) q"
  show ?thesis
  proof (cases wp)
    case None
    with assms pw have "uq_handle_full_queue n ?q1 = Some (r, q')" by (simp add: uq_prepare_write_def)
    then have "length (uq_nodes ?q1) \<le> length (uq_nodes q')"
      by (cases rule: handle_full_cases) (auto simp: length_map_producer length_append_node)
    then show ?thesis by (simp add: length_map_producer)
  next
    case (Some w)
    with assms pw show ?thesis by (auto simp: uq_prepare_write_def length_map_producer)
  qed
qed

lemma shrink_length: "length (uq_nodes q) \<le> length (uq_nodes (snd (uq_shrink capacity q)))"
  by (auto simp: uq_shrink_def length_append_node split: sum.splits)

lemma publish_has_next: "uq_has_next q \<Longrightarrow> uq_has_next (uq_publish off m q)"
  by (simp add: has_next_length publish_eq length_map_producer)

text \<open>What the producer's reservation depends on, which no step of the consumer writes.\<close>

definition write_side :: "u64 bounded_queue \<Rightarrow> size_t \<times> size_t \<times> size_t \<times> size_t" where
  "write_side c = (bq_writer_pos c, bq_mask c, bq_capacity c, bq_reader_pos_cache_plus_capacity c)"

lemma node_ready_write_side: "write_side c = write_side d \<Longrightarrow> node_ready c n off = node_ready d n off"
  by (auto simp: write_side_def node_ready_def bq_dist_def bq_base_def)

lemma write_side_reads [simp]:
  "write_side (bq_finish_read n c) = write_side c"
  "write_side (bq_commit_read c) = write_side c"
  "write_side (snd (bq_prepare_read c)) = write_side c"
  by (auto simp: write_side_def bq_finish_read_def bq_commit_read_def bq_prepare_read_def bq_empty_def Let_def
      split: bool.splits)

lemma write_side_map_consumer:
  assumes "uq_nodes q \<noteq> []" "write_side (f (uq_consumer q)) = write_side (uq_consumer q)"
  shows "write_side (uq_producer (uq_map_consumer f q)) = write_side (uq_producer q)"
  using assms by (cases "uq_nodes q") (auto simp: uq_producer_def uq_consumer_def uq_map_consumer_def)

lemma write_side_consumer_prepare_read:
  assumes "uq_consumer_prepare_read q = (r, q')" "uq_nodes q \<noteq> []"
  shows "write_side (uq_producer q') = write_side (uq_producer q)" "length (uq_nodes q') = length (uq_nodes q)"
proof -
  have q': "q' = uq_map_consumer (\<lambda>_. snd (bq_prepare_read (uq_consumer q))) q"
    using assms(1) by (auto simp: uq_consumer_prepare_read_def split: prod.splits)
  show "write_side (uq_producer q') = write_side (uq_producer q)"
    unfolding q' using assms(2) by (intro write_side_map_consumer) simp_all
  show "length (uq_nodes q') = length (uq_nodes q)" using assms(2) by (simp add: q' nodes_map_consumer)
qed

lemma write_side_switch:
  assumes "uq_has_next q"
  shows "write_side (uq_producer (uq_switch_node q)) = write_side (uq_producer q)"
    "uq_nodes (uq_switch_node q) \<noteq> []"
  using assms by (auto simp: uq_switch_node_def Let_def uq_producer_def uq_map_consumer_def
      uq_has_next_def last_tl)

lemma write_side_read_next:
  assumes "uq_read_next_queue q = (r, q')" "uq_has_next q"
  shows "write_side (uq_producer q') = write_side (uq_producer q)" "uq_nodes q' \<noteq> []"
proof -
  obtain wp q1 where pr: "uq_consumer_prepare_read q = (wp, q1)" by fastforce
  obtain wp2 q2 where pr2: "uq_consumer_prepare_read (uq_switch_node q1) = (wp2, q2)" by fastforce
  have ne: "uq_nodes q \<noteq> []" using assms(2) by (auto simp: has_next_length)
  note w1 = write_side_consumer_prepare_read [OF pr ne]
  then have n1: "uq_has_next q1" using assms(2) by (simp add: has_next_length)
  note w2 = write_side_consumer_prepare_read [OF pr2 write_side_switch(2) [OF n1]]
  have "write_side (uq_producer q') = write_side (uq_producer q) \<and> uq_nodes q' \<noteq> []"
    using assms(1) pr pr2 w1 w2 write_side_switch [OF n1] ne
    by (cases wp) (auto simp: uq_read_next_queue_def Let_def)
  then show "write_side (uq_producer q') = write_side (uq_producer q)" "uq_nodes q' \<noteq> []" by auto
qed

lemma write_side_decode:
  assumes "uq_nodes q \<noteq> []"
  shows "write_side (uq_producer (snd (uq_decode frame off q))) = write_side (uq_producer q)"
  using assms by (simp add: uq_decode_def Let_def uq_finish_read_def write_side_map_consumer)

lemma chain_receive_inv:
  assumes inv: "chain_inv frame s" and found: "\<And>held. cs_sent s = cs_received s @ held \<Longrightarrow>
      uq_queue_rel frame (cs_queue s) held \<Longrightarrow> uq_found frame r q held"
    and w: "write_side (uq_producer q) = write_side (uq_producer (cs_queue s))" "uq_nodes q \<noteq> []"
  shows "chain_inv frame (chain_receive frame r q s)"
proof -
  obtain held where h: "cs_sent s = cs_received s @ held" "uq_queue_rel frame (cs_queue s) held"
    using inv by (auto simp: chain_inv_def)
  note f = found [OF h]
  have ready: "uq_msg_ok frame m \<and> node_ready (uq_producer q') (length m) off"
    if "cs_producer s = Reserved m off" "write_side (uq_producer q') = write_side (uq_producer q)" for q' m off
    using inv that w(1) node_ready_write_side [of "uq_producer q'" "uq_producer (cs_queue s)"]
    by (auto simp: chain_inv_def)
  show ?thesis
  proof (cases r)
    case None
    with f h ready show ?thesis by (auto simp: chain_inv_def chain_receive_def uq_found_def uq_queue_rel_def)
  next
    case (Some off)
    with f obtain m ms' q' where d: "held = m # ms'" "uq_decode frame off q = (m, q')" "uq_rel q' ms'"
      by (auto simp: uq_found_def)
    have "write_side (uq_producer q') = write_side (uq_producer q)"
      using write_side_decode [OF w(2), of frame off] d(2) by simp
    with Some d h ready [of _ _ q'] show ?thesis
      by (auto simp: chain_inv_def chain_receive_def uq_queue_rel_def)
  qed
qed

lemma chain_step_inv:
  assumes "chain_step frame s s'" "chain_inv frame s"
  shows "chain_inv frame s'"
  using assms
proof (cases rule: chain_step.cases)
  case (reserve m off q')
  then show ?thesis
    using assms(2) uq_prepare_write_rel [OF reserve(4)] prepare_write_length [OF reserve(4)] msg_ok_length(2)
    by (auto simp: chain_inv_def uq_queue_rel_def has_next_length)
next
  case (refused n r q')
  then show ?thesis
    using assms(2) uq_prepare_write_rel(1) [OF refused(3)] prepare_write_length [OF refused(3)]
    by (auto simp: chain_inv_def uq_queue_rel_def has_next_length)
next
  case (publish m off)
  then show ?thesis
    using assms(2) publish_rel [of "cs_queue s"] msg_ok_length(1) publish_has_next
    by (auto simp: chain_inv_def uq_queue_rel_def)
next
  case (shrink capacity r q')
  then show ?thesis
    using assms(2) uq_shrink_rel [of "cs_queue s" _ capacity] shrink_length [of "cs_queue s" capacity]
    by (auto simp: chain_inv_def uq_queue_rel_def has_next_length)
next
  case (read off q')
  have ne: "uq_nodes (cs_queue s) \<noteq> []" using assms(2) by (auto simp: chain_inv_def uq_queue_rel_def uq_rel_def)
  show ?thesis unfolding read(1)
  proof (rule chain_receive_inv [OF assms(2)])
    fix held
    assume "uq_queue_rel frame (cs_queue s) held"
    then show "uq_found frame (Some off) q' held"
      using consumer_prepare_read_found(1) [OF _ _ read(3)] msg_ok_framed by (auto simp: uq_queue_rel_def)
  qed (use write_side_consumer_prepare_read [OF read(3) ne] ne in auto)
next
  case (saw_empty q')
  have ne: "uq_nodes (cs_queue s) \<noteq> []" using assms(2) by (auto simp: chain_inv_def uq_queue_rel_def uq_rel_def)
  from assms(2) obtain held where h: "cs_sent s = cs_received s @ held" "uq_queue_rel frame (cs_queue s) held"
    by (auto simp: chain_inv_def)
  then have "uq_rel q' held"
    using consumer_prepare_read_found(1) [OF _ _ saw_empty(3), of held] msg_ok_framed
    by (auto simp: uq_queue_rel_def uq_found_def)
  then show ?thesis
    using assms(2) h saw_empty(1) node_ready_write_side [OF write_side_consumer_prepare_read(1) [OF saw_empty(3) ne]]
    by (auto simp: chain_inv_def uq_queue_rel_def)
next
  case load_next
  then show ?thesis using assms(2) by (auto simp: chain_inv_def)
next
  case (read_next r q')
  have nx: "uq_has_next (cs_queue s)" using assms(2) read_next by (auto simp: chain_inv_def)
  show ?thesis unfolding read_next(1)
  proof (rule chain_receive_inv [OF assms(2)])
    fix held
    assume "uq_queue_rel frame (cs_queue s) held"
    then show "uq_found frame (rr_read_pos r) q' held"
      using read_next_queue_found [OF _ _ nx read_next(3)] msg_ok_framed by (auto simp: uq_queue_rel_def)
  qed (use write_side_read_next [OF read_next(3) nx] in auto)
next
  case commit
  have ne: "uq_nodes (cs_queue s) \<noteq> []" using assms(2) by (auto simp: chain_inv_def uq_queue_rel_def uq_rel_def)
  have "write_side (uq_producer (uq_commit_read (cs_queue s))) = write_side (uq_producer (cs_queue s))"
    using ne by (simp add: uq_commit_read_def write_side_map_consumer)
  from node_ready_write_side [OF this] show ?thesis
    using assms(2) commit uq_tau_rel [of "cs_queue s" "uq_commit_read (cs_queue s)"]
    by (auto simp: chain_inv_def uq_queue_rel_def uq_tau_def)
qed

lemma chain_start_inv: "uq_new initial mx policy = Inr q \<Longrightarrow> chain_inv frame (chain_start q)"
  using uq_new_rel by (auto simp: chain_inv_def chain_start_def uq_queue_rel_def)

subsection \<open>The outcome of a full producer node\<close>

lemma next_power_of_two_id:
  assumes "unat n = 2 ^ k"
  shows "next_power_of_two n = n"
proof (cases "n \<ge> max_power_of_2")
  case True
  have "unat n < 2 ^ 64" by (rule order_less_le_trans [OF unsigned_less]) simp
  then have "k < 64" unfolding assms by (rule power_less_imp_less_exp [rotated]) simp
  then have "(2::nat) ^ k \<le> 2 ^ 63" by (intro power_increasing) simp_all
  with True assms have "n = max_power_of_2"
    by (auto intro!: word_unat_eq_iff [THEN iffD2] simp: word_le_nat_alt unat_max_power_of_2)
  then show ?thesis by (simp add: next_power_of_two_def)
next
  case False
  with assms show ?thesis by (auto simp: next_power_of_two_def is_power_of_two_iff)
qed

lemma new_capacity:
  fixes c :: size_t
  assumes "bq_new c policy pct = Inr node" "unat c = 2 ^ k"
  shows "bq_capacity node = c"
  using assms next_power_of_two_id [OF assms(2)]
  by (auto simp: bq_new_def validate_capacity_def Let_def split: sum.splits if_splits)

text \<open>
  The capacity a message calls for: that of the node in use doubled at least once, and until the
  message fits.
\<close>

definition doubled_until_fits :: "nat \<Rightarrow> nat \<Rightarrow> nat \<Rightarrow> bool" where
  "doubled_until_fits cap n c \<longleftrightarrow> (\<exists>j. c = cap * 2 ^ Suc j \<and> n \<le> c \<and> (\<forall>i<j. cap * 2 ^ Suc i < n))"

lemma handle_full_exact:
  assumes inv: "bq_inv (uq_producer q)" and addressable: "2 * unat (bq_capacity (uq_producer q)) < 2 ^ 64"
    and n: "unat n \<le> 2 ^ 63"
  obtains c where "doubled_until_fits (unat (bq_capacity (uq_producer q))) (unat n) (unat c)"
    "uq_max_capacity q < c \<Longrightarrow> uq_max_capacity q < n \<Longrightarrow> \<exists>e. uq_handle_full_queue n q = Some (Inl (QuillError e), q)"
    "uq_max_capacity q < c \<Longrightarrow> n \<le> uq_max_capacity q \<Longrightarrow> uq_handle_full_queue n q = Some (Inr None, q)"
    "\<And>e. c \<le> uq_max_capacity q \<Longrightarrow> bq_new c (bq_huge_pages_policy (uq_producer q)) 5 = Inl e \<Longrightarrow>
       uq_handle_full_queue n q = Some (Inl e, uq_commit_write q)"
    "\<And>fresh. c \<le> uq_max_capacity q \<Longrightarrow> bq_new c (bq_huge_pages_policy (uq_producer q)) 5 = Inr fresh \<Longrightarrow>
       \<exists>off node. bq_prepare_write n fresh = (Some off, node) \<and> bq_capacity node = c
         \<and> uq_handle_full_queue n q = Some (Inr (Some off), uq_append_node node (uq_commit_write q))"
proof -
  let ?p = "uq_producer q" and ?mx = "uq_max_capacity q"
  obtain k where k: "unat (bq_capacity ?p) = 2 ^ k" using inv by (auto simp: bq_inv_def bq_sized_def)
  have nb: "\<not> bq_capacity ?p > SIZE_MAX div 2"
    using addressable unfolding size_max_half by (simp add: word_less_nat_alt not_less)
  note d = unat_double_word [OF nb]
  obtain j where j: "grow_capacity ?mx n (bq_capacity ?p * 2) = Some (bq_capacity ?p * 2 * 2 ^ j)"
      "unat (bq_capacity ?p * 2 * 2 ^ j) = 2 * unat (bq_capacity ?p) * 2 ^ j"
      "n \<le> bq_capacity ?p * 2 * 2 ^ j"
      "j = 0 \<or> 2 * unat (bq_capacity ?p) * 2 ^ (j - 1) < unat n"
    using grow_capacity_result [of "bq_capacity ?p * 2" n ?mx] d k n by auto
  define c where "c = bq_capacity ?p * 2 * 2 ^ j"
  have c: "grow_capacity ?mx n (bq_capacity ?p * 2) = Some c" "unat c = 2 ^ Suc (k + j)" "n \<le> c"
    using j k by (simp_all add: c_def power_add)
  have least: "unat (bq_capacity ?p) * 2 ^ Suc i < unat n" if "i < j" for i
  proof -
    have "(2 :: nat) ^ i \<le> 2 ^ (j - 1)" using that by (intro power_increasing) auto
    then have "2 * unat (bq_capacity ?p) * 2 ^ i \<le> 2 * unat (bq_capacity ?p) * 2 ^ (j - 1)" by (rule mult_le_mono2)
    also have "\<dots> < unat n" using j(4) that by auto
    finally show ?thesis by simp
  qed
  have needed: "doubled_until_fits (unat (bq_capacity ?p)) (unat n) (unat c)"
    using least c(3) j(2) unfolding doubled_until_fits_def c_def by (intro exI [of _ j]) (simp add: word_le_nat_alt)
  have policy: "bq_huge_pages_policy (bq_commit_write ?p) = bq_huge_pages_policy ?p"
    by (simp add: bq_commit_write_def)
  show thesis
  proof (rule that [OF needed])
    assume "?mx < c" "?mx < n"
    with c(1) nb show "\<exists>e. uq_handle_full_queue n q = Some (Inl (QuillError e), q)"
      by (auto simp: uq_handle_full_queue_def Let_def)
  next
    assume "?mx < c" "n \<le> ?mx"
    with c(1) nb show "uq_handle_full_queue n q = Some (Inr None, q)"
      by (auto simp: uq_handle_full_queue_def Let_def not_less)
  next
    fix e assume "c \<le> ?mx" "bq_new c (bq_huge_pages_policy ?p) 5 = Inl e"
    with c(1) nb policy show "uq_handle_full_queue n q = Some (Inl e, uq_commit_write q)"
      by (auto simp: uq_handle_full_queue_def uq_commit_write_def Let_def)
  next
    fix fresh assume f: "c \<le> ?mx" "bq_new c (bq_huge_pages_policy ?p) 5 = Inr fresh"
    obtain off node where w: "bq_prepare_write n fresh = (Some off, node)"
      using new_node_grants [OF f(2) c(3)] by blast
    have cap: "bq_capacity node = c"
      using prepare_write_cases_fields [OF w] new_capacity [OF f(2) c(2)] by auto
    have "uq_handle_full_queue n q = Some (Inr (Some off), uq_append_node node (uq_commit_write q))"
      using f c(1) nb policy w by (simp add: uq_handle_full_queue_def uq_commit_write_def Let_def)
    with w cap show "\<exists>off node. bq_prepare_write n fresh = (Some off, node) \<and> bq_capacity node = c
         \<and> uq_handle_full_queue n q = Some (Inr (Some off), uq_append_node node (uq_commit_write q))" by blast
  qed
qed

text \<open>The constructor rounds the maximum to a power of two: a message that fits it calls for more only after one doubling.\<close>

lemma refused_needs_twice:
  assumes "unat (mx :: size_t) = 2 ^ m" "unat (cap :: size_t) = 2 ^ k" "doubled_until_fits (unat cap) (unat n) (unat c)" "mx < c" "n \<le> mx"
  shows "unat mx < 2 * unat cap"
proof (rule ccontr)
  assume fits: "\<not> unat mx < 2 * unat cap"
  obtain j where j: "unat c = unat cap * 2 ^ Suc j" "\<forall>i<j. unat cap * 2 ^ Suc i < unat n"
    using assms(3) by (auto simp: doubled_until_fits_def)
  have less: "unat mx < unat c" "unat n \<le> unat mx" using assms(4,5) by (simp_all add: word_less_nat_alt word_le_nat_alt)
  with fits j(1) have "j \<noteq> 0" by (cases j) auto
  then obtain i where i: "j = Suc i" by (cases j) auto
  have "unat cap * 2 ^ Suc i < unat n" using j(2) i by blast
  with less(2) assms(1,2) have "(2 :: nat) ^ (k + Suc i) < 2 ^ m" by (simp add: power_add)
  then have "k + Suc j \<le> m" using i by (metis Suc_leI add_Suc_right one_less_numeral_iff power_less_imp_less_exp semiring_norm(76))
  then have "(2 :: nat) ^ (k + Suc j) \<le> 2 ^ m" by (intro power_increasing) auto
  with less(1) j(1) assms(1,2) show False by (simp add: power_add)
qed

interpretation chain_run: step_invariant "chain_step frame"
    "\<lambda>s. \<exists>initial mx policy q. uq_new initial mx policy = Inr q \<and> s = chain_start q" "chain_inv frame" for frame
  by unfold_locales (auto intro: chain_start_inv chain_step_inv)

lemma uq_rel_head_nil:
  assumes "uq_rel q []"
  shows "bq_rel (uq_consumer q) [] []"
  using assms by (rule uq_rel_consumerE) (auto simp: uq_consumer_def)

subsection \<open>Properties\<close>

text \<open>
  C1. The chain of rings is a queue between its two threads: in every interleaving of
  reservations, publications, growth, shrinking, reads, the two loads of
  \<^verbatim>\<open>prepare_read\<close> and the switch to the next node, the decoded messages are exactly a prefix of
  the published ones, in order, and the rest is held by the nodes; no message is lost when
  the producer writes to the old node between the consumer's two looks at it.
\<close>

theorem chain_interleaving_fifo:
  assumes "uq_new initial mx policy = Inr q" "(chain_step frame)\<^sup>*\<^sup>* (chain_start q) s"
  shows "\<exists>held. cs_sent s = cs_received s @ held \<and> uq_queue_rel frame (cs_queue s) held"
proof -
  have "chain_inv frame s" using chain_run.reachable [OF assms(2)] assms(1) by blast
  then show ?thesis by (simp add: chain_inv_def)
qed

text \<open>
  C4. When the producer's node is full, \<^verbatim>\<open>_handle_full_queue\<close> always returns, for every message of at
  most \<open>2 ^ 63\<close> bytes, and the configured maximum decides exactly what it does. Let \<open>c\<close> be the
  capacity the message calls for: the least capacity, of those got by doubling the node's at least
  once, that the message fits. If \<open>c\<close> is over the maximum, it throws the oversize error when the
  message itself is over the maximum and answers null otherwise, leaving the queue alone; with a
  maximum that is a power of two, as the constructor makes it, null means that not even twice
  the capacity in use is allowed. If \<open>c\<close> is within the maximum, it reports the failed construction of a
  node of that capacity, or appends a node of exactly that capacity, with the position
  reserved in it.
\<close>

theorem full_queue_outcome:
  assumes "bq_inv (uq_producer q)" "2 * unat (bq_capacity (uq_producer q)) < 2 ^ 64" "unat n \<le> 2 ^ 63"
  shows "\<exists>c r q'. uq_handle_full_queue n q = Some (r, q') \<and> doubled_until_fits (unat (bq_capacity (uq_producer q))) (unat n) (unat c) \<and>
    (if uq_max_capacity q < c
     then q' = q \<and> (if uq_max_capacity q < n then \<exists>e. r = Inl (QuillError e)
            else r = Inr None \<and> (\<forall>m. unat (uq_max_capacity q) = 2 ^ m \<longrightarrow> unat (uq_max_capacity q) < 2 * unat (bq_capacity (uq_producer q))))
     else case bq_new c (bq_huge_pages_policy (uq_producer q)) 5 of
            Inl e \<Rightarrow> r = Inl e \<and> q' = uq_commit_write q
          | Inr fresh \<Rightarrow> \<exists>off node. r = Inr (Some off) \<and> bq_prepare_write n fresh = (Some off, node) \<and> bq_capacity node = c
              \<and> q' = uq_append_node node (uq_commit_write q))"
proof -
  obtain k where k: "unat (bq_capacity (uq_producer q)) = 2 ^ k" using assms(1) by (auto simp: bq_inv_def bq_sized_def)
  show ?thesis
  proof (rule handle_full_exact [OF assms])
    fix c assume c: "doubled_until_fits (unat (bq_capacity (uq_producer q))) (unat n) (unat c)"
      and over: "uq_max_capacity q < c \<Longrightarrow> uq_max_capacity q < n \<Longrightarrow> \<exists>e. uq_handle_full_queue n q = Some (Inl (QuillError e), q)"
        "uq_max_capacity q < c \<Longrightarrow> n \<le> uq_max_capacity q \<Longrightarrow> uq_handle_full_queue n q = Some (Inr None, q)"
      and within: "\<And>e. c \<le> uq_max_capacity q \<Longrightarrow> bq_new c (bq_huge_pages_policy (uq_producer q)) 5 = Inl e \<Longrightarrow>
          uq_handle_full_queue n q = Some (Inl e, uq_commit_write q)"
        "\<And>fresh. c \<le> uq_max_capacity q \<Longrightarrow> bq_new c (bq_huge_pages_policy (uq_producer q)) 5 = Inr fresh \<Longrightarrow>
          \<exists>off node. bq_prepare_write n fresh = (Some off, node) \<and> bq_capacity node = c
            \<and> uq_handle_full_queue n q = Some (Inr (Some off), uq_append_node node (uq_commit_write q))"
    consider "uq_max_capacity q < c" "uq_max_capacity q < n" | "uq_max_capacity q < c" "n \<le> uq_max_capacity q" | "c \<le> uq_max_capacity q"
      by (meson not_less)
    then show ?thesis
    proof cases
      case 1
      with c over(1) show ?thesis by (intro exI [of _ c]) auto
    next
      case 2
      with c over(2) refused_needs_twice [OF _ k c 2] show ?thesis by (intro exI [of _ c]) auto
    next
      case 3
      then have "\<not> uq_max_capacity q < c" by simp
      with c within [OF 3] show ?thesis
        by (intro exI [of _ c]) (cases "bq_new c (bq_huge_pages_policy (uq_producer q)) 5"; fastforce)
    qed
  qed
qed

lemma empty_get_progress:
  assumes rel: "uq_rel q ms" and fr: "\<forall>m \<in> set ms. framed frame m" and get: "uq_get frame q = (None, q')"
  shows "ms = [] \<and> length (uq_nodes q') = 1 \<or> Suc (length (uq_nodes q')) = length (uq_nodes q)"
proof -
  have ne: "uq_nodes q \<noteq> []" using rel by (rule uq_nodes_ne)
  obtain wp q1 where pr: "uq_consumer_prepare_read q = (wp, q1)" by fastforce
  note f1 = consumer_prepare_read_found [OF rel fr pr] and l1 = write_side_consumer_prepare_read(2) [OF pr ne]
  have wp: "wp = None" using get pr
    by (cases wp) (auto simp: uq_get_def uq_prepare_read_def split: prod.splits)
  show ?thesis
  proof (cases "uq_has_next q1")
    case False
    then have "uq_rel q1 ms" "length (uq_nodes q1) = 1" "q' = q1"
      using f1 l1 ne wp get pr
      by (auto simp: uq_found_def uq_get_def uq_prepare_read_def has_next_length le_Suc_eq not_le
          less_Suc_eq numeral_2_eq_2 split: prod.splits)
    moreover have "ms = []"
      using f1(2) [OF wp] calculation
      by (auto elim!: uq_rel_consumerE simp: uq_consumer_def bq_rel_def)
    ultimately show ?thesis by simp
  next
    case True
    obtain r2 q2 where rn: "uq_read_next_queue q1 = (r2, q2)" by fastforce
    then have q': "q' = q2" "rr_read_pos r2 = None" using get pr wp True
      by (auto simp: uq_get_def uq_prepare_read_def split: option.splits prod.splits)
    obtain wp2 q3 where pr2: "uq_consumer_prepare_read q1 = (wp2, q3)" by fastforce
    have ne1: "uq_nodes q1 \<noteq> []" using l1 ne by auto
    note l2 = write_side_consumer_prepare_read(2) [OF pr2 ne1]
    have w2: "wp2 = None" using rn q' pr2 by (cases wp2) (auto simp: uq_read_next_queue_def)
    obtain wp3 q4 where pr3: "uq_consumer_prepare_read (uq_switch_node q3) = (wp3, q4)" by fastforce
    have n3: "uq_has_next q3" using True l2 by (simp add: has_next_length)
    have "q2 = q4" using rn pr2 w2 pr3 by (auto simp: uq_read_next_queue_def Let_def)
    moreover have "length (uq_nodes q4) = length (uq_nodes (uq_switch_node q3))"
      using write_side_consumer_prepare_read(2) [OF pr3 write_side_switch(2) [OF n3]] .
    moreover have "Suc (length (uq_nodes (uq_switch_node q3))) = length (uq_nodes q3)"
      using n3 by (cases "uq_nodes q3") (auto simp: uq_switch_node_def uq_map_consumer_def Let_def has_next_length)
    ultimately show ?thesis using q'(1) l1 l2 by simp
  qed
qed

text \<open>
  A read that finds nothing has made progress: either the chain holds no message and has
  one node, or the consumer has dropped a drained node. An empty answer may therefore
  precede messages only as many times as the chain has nodes to drop.
\<close>

theorem empty_read_progress:
  assumes "uq_queue_rel frame q ms" "uq_get frame q = (None, q')"
  shows "ms = [] \<and> length (uq_nodes q') = 1 \<or> Suc (length (uq_nodes q')) = length (uq_nodes q)"
  using assms msg_ok_framed by (intro empty_get_progress) (auto simp: uq_queue_rel_def)

subsection \<open>Witnesses\<close>

definition example_chain :: unbounded_queue where
  "example_chain = (case uq_new 4 64 Never of Inr q \<Rightarrow> q | Inl _ \<Rightarrow> \<lparr>uq_max_capacity = 0, uq_nodes = []\<rparr>)"

lemma example_chain_new: "uq_new 4 64 Never = Inr example_chain"
proof -
  have "case uq_new 4 64 Never of Inl _ \<Rightarrow> False | Inr _ \<Rightarrow> True" by code_simp
  then show ?thesis by (auto simp: example_chain_def split: sum.splits)
qed

lemma example_msg_ok_64: "uq_msg_ok len_prefixed example_msg"
  using example_msg_ok by (simp add: uq_msg_ok_def bq_msg_ok_def)

text \<open>One message in the first node, a second one that makes the chain grow.\<close>

definition example_chain1 :: unbounded_queue where
  "example_chain1 = uq_publish 0 example_msg (snd (the (uq_prepare_write 3 example_chain)))"

definition example_chain2 :: unbounded_queue where
  "example_chain2 = uq_publish 0 example_msg (snd (the (uq_prepare_write 3 example_chain1)))"

definition example_chain3 :: unbounded_queue where
  "example_chain3 = snd (uq_decode len_prefixed 0 (snd (uq_consumer_prepare_read example_chain2)))"

lemma example_chain_steps:
  "uq_prepare_write 3 example_chain = Some (Inr (Some 0), snd (the (uq_prepare_write 3 example_chain)))"
  "uq_prepare_write 3 example_chain1 = Some (Inr (Some 0), snd (the (uq_prepare_write 3 example_chain1)))"
  "fst (uq_consumer_prepare_read example_chain2) = Some 0"
  "fst (uq_decode len_prefixed 0 (snd (uq_consumer_prepare_read example_chain2))) = example_msg"
  "fst (uq_consumer_prepare_read example_chain3) = None"
  "uq_has_next (snd (uq_consumer_prepare_read example_chain3))"
  "rr_read_pos (fst (uq_read_next_queue (snd (uq_consumer_prepare_read example_chain3)))) = Some 0"
  "fst (uq_decode len_prefixed 0 (snd (uq_read_next_queue (snd (uq_consumer_prepare_read example_chain3))))) = example_msg"
  by code_simp+


theorem chain_interleaving_fifo_witness:
  "\<exists>s. (chain_step len_prefixed)\<^sup>*\<^sup>* (chain_start example_chain) s
     \<and> cs_received s = [example_msg, example_msg]
     \<and> (\<exists>held. cs_sent s = cs_received s @ held \<and> uq_queue_rel len_prefixed (cs_queue s) held)"
proof -
  let ?step = "chain_step len_prefixed"
  note ok = example_msg_ok_64 and st = example_chain_steps
  have n: "of_nat (length example_msg) = (3 :: size_t)" by (simp add: example_msg_def)
  define s0 where "s0 = chain_start example_chain"
  define s1 where "s1 = s0\<lparr>cs_queue := snd (the (uq_prepare_write 3 example_chain)), cs_producer := Reserved example_msg 0\<rparr>"
  define s2 where "s2 = s1\<lparr>cs_queue := example_chain1, cs_producer := ProducerIdle, cs_sent := [example_msg]\<rparr>"
  define s3 where "s3 = s2\<lparr>cs_queue := snd (the (uq_prepare_write 3 example_chain1)), cs_producer := Reserved example_msg 0\<rparr>"
  define s4 where "s4 = s3\<lparr>cs_queue := example_chain2, cs_producer := ProducerIdle, cs_sent := [example_msg, example_msg]\<rparr>"
  define s5 where "s5 = s4\<lparr>cs_queue := example_chain3, cs_consumer := ConsumerIdle, cs_received := [example_msg]\<rparr>"
  define q6 where "q6 = snd (uq_consumer_prepare_read example_chain3)"
  define s6 where "s6 = s5\<lparr>cs_queue := q6, cs_consumer := SawEmpty\<rparr>"
  define s7 where "s7 = s6\<lparr>cs_consumer := SawNext\<rparr>"
  define s8 where "s8 = chain_receive len_prefixed (rr_read_pos (fst (uq_read_next_queue q6))) (snd (uq_read_next_queue q6)) s7"
  note defs = s0_def s1_def s2_def s3_def s4_def s5_def s6_def s7_def chain_start_def
  have a0: "?step s0 s1"
    using chain_step.reserve [of s0 len_prefixed example_msg 0] ok st(1) n by (simp add: s1_def) (simp add: defs)
  have a1: "?step s1 s2"
    using chain_step.publish [of s1 example_msg 0] by (simp add: s2_def) (simp add: defs example_chain1_def)
  have a2: "?step s2 s3"
    using chain_step.reserve [of s2 len_prefixed example_msg 0] ok st(2) n by (simp add: s3_def) (simp add: defs)
  have a3: "?step s3 s4"
    using chain_step.publish [of s3 example_msg 0] by (simp add: s4_def) (simp add: defs example_chain2_def)
  have a4: "?step s4 s5"
    using chain_step.read [of s4 0 "snd (uq_consumer_prepare_read example_chain2)" len_prefixed] st(3,4)
    by (simp add: s5_def chain_receive_def example_chain3_def prod_eq_iff split_beta) (simp add: defs)
  have a5: "?step s5 s6"
    using chain_step.saw_empty [of s5 q6] st(5) by (simp add: s6_def prod_eq_iff q6_def) (simp add: defs)
  have a6: "?step s6 s7"
    using chain_step.load_next [of s6] st(6) by (simp add: s7_def q6_def) (simp add: defs q6_def)
  have a7: "?step s7 s8"
    unfolding s8_def by (rule chain_step.read_next) (simp_all add: defs)
  note run7 = rtranclp.rtrancl_into_rtrancl [OF rtranclp.rtrancl_into_rtrancl [OF rtranclp.rtrancl_into_rtrancl
      [OF rtranclp.rtrancl_into_rtrancl [OF r_into_rtranclp [of ?step, OF a0] a1] a2] a3] a4]
  have run: "?step\<^sup>*\<^sup>* (chain_start example_chain) s8"
    using rtranclp.rtrancl_into_rtrancl [OF rtranclp.rtrancl_into_rtrancl [OF rtranclp.rtrancl_into_rtrancl
      [OF run7 a5] a6] a7] by (simp only: s0_def)
  have "cs_received s8 = [example_msg, example_msg]"
    using st(7,8) by (simp add: s8_def chain_receive_def q6_def split_beta) (simp add: defs)
  with run chain_interleaving_fifo [OF example_chain_new run] show ?thesis by blast
qed

lemma doubled_to_32: "doubled_until_fits 4 20 c \<longleftrightarrow> c = 32"
proof
  assume "doubled_until_fits 4 20 c"
  then obtain j where j: "c = 4 * 2 ^ Suc j" "20 \<le> c" "\<forall>i<j. (4 :: nat) * 2 ^ Suc i < 20" by (auto simp: doubled_until_fits_def)
  have "\<not> 2 < j" using j(3) by (auto dest: spec [of _ 2])
  then have "j = 0 \<or> j = 1 \<or> j = 2" by auto
  with j(1,2) show "c = 32" by auto
next
  assume "c = 32"
  moreover have "i = 0 \<or> i = 1" if "i < 2" for i :: nat using that by auto
  ultimately show "doubled_until_fits 4 20 c" unfolding doubled_until_fits_def by (intro exI [of _ 2]) force
qed

theorem full_queue_outcome_witness:
  "\<exists>off node. uq_handle_full_queue 20 example_chain = Some (Inr (Some off), uq_append_node node (uq_commit_write example_chain))
     \<and> bq_capacity node = 32"
proof -
  have inv: "bq_inv (uq_producer example_chain)"
    using uq_nodes_producer_inv [OF uq_new_rel [OF example_chain_new]] .
  have cap: "bq_capacity (uq_producer example_chain) = 4" "uq_max_capacity example_chain = 64" by code_simp+
  then have small: "2 * unat (bq_capacity (uq_producer example_chain)) < 2 ^ 64" by simp
  have n: "unat (20 :: size_t) \<le> 2 ^ 63" by simp
  have fresh: "case bq_new (32 :: size_t) (bq_huge_pages_policy (uq_producer example_chain)) 5 of Inl _ \<Rightarrow> False | Inr _ \<Rightarrow> True"
    by code_simp
  obtain c r q' where run: "uq_handle_full_queue 20 example_chain = Some (r, q')" "doubled_until_fits 4 20 (unat c)"
    and rest: "if uq_max_capacity example_chain < c then q' = example_chain \<and> (if uq_max_capacity example_chain < 20 then \<exists>e. r = Inl (QuillError e)
            else r = Inr None \<and> (\<forall>m. unat (uq_max_capacity example_chain) = 2 ^ m \<longrightarrow> unat (uq_max_capacity example_chain) < 2 * unat (bq_capacity (uq_producer example_chain))))
     else case bq_new c (bq_huge_pages_policy (uq_producer example_chain)) 5 of
            Inl e \<Rightarrow> r = Inl e \<and> q' = uq_commit_write example_chain
          | Inr fresh \<Rightarrow> \<exists>off node. r = Inr (Some off) \<and> bq_prepare_write 20 fresh = (Some off, node) \<and> bq_capacity node = c
              \<and> q' = uq_append_node node (uq_commit_write example_chain)"
    using full_queue_outcome [OF inv small n] cap(1) by auto
  have "unat c = 32" using run(2) by (simp add: doubled_to_32)
  then have c: "c = 32" by (simp add: word_unat_eq_iff)
  have "\<not> uq_max_capacity example_chain < 32" by (simp add: cap)
  with rest [unfolded c] have "case bq_new 32 (bq_huge_pages_policy (uq_producer example_chain)) 5 of
            Inl e \<Rightarrow> r = Inl e \<and> q' = uq_commit_write example_chain
          | Inr fresh \<Rightarrow> \<exists>off node. r = Inr (Some off) \<and> bq_prepare_write 20 fresh = (Some off, node) \<and> bq_capacity node = 32
              \<and> q' = uq_append_node node (uq_commit_write example_chain)" by (simp only: if_False)
  with fresh run(1) show ?thesis by (auto split: sum.splits)
qed

theorem empty_read_progress_witness:
  "uq_get len_prefixed example_chain = (None, snd (uq_get len_prefixed example_chain))
    \<and> length (uq_nodes (snd (uq_get len_prefixed example_chain))) = 1"
proof -
  have get: "uq_get len_prefixed example_chain = (None, snd (uq_get len_prefixed example_chain))"
    by code_simp
  have rel: "uq_queue_rel len_prefixed example_chain []"
    using uq_new_rel [OF example_chain_new] by (simp add: uq_queue_rel_def)
  have "length (uq_nodes example_chain) = 1" by code_simp
  with empty_read_progress [OF rel get] uq_nodes_ne [OF uq_new_rel [OF example_chain_new]] get
  have "length (uq_nodes (snd (uq_get len_prefixed example_chain))) = 1
    \<or> Suc (length (uq_nodes (snd (uq_get len_prefixed example_chain)))) = 1" by simp
  moreover have "length (uq_nodes (snd (uq_get len_prefixed example_chain))) \<noteq> 0" by code_simp
  ultimately show ?thesis using get by simp
qed

end
