(* ===== verification/Log_Level.thy ===== *)
theory Log_Level
  imports Std_String
begin

text \<open>
  \<^verbatim>\<open>quill/core/LogLevel.h\<close>: the log levels, their order (the comparison of the underlying
  integers, which every level filter uses), their names and the parser. The level \<^verbatim>\<open>None\<close> is
  \<open>NoneLevel\<close> here.
\<close>

datatype log_level =
    TraceL3 | TraceL2 | TraceL1 | Debug | Info | Notice | Warning | Error | Critical | Backtrace | NoneLevel

definition LogLevelCount :: nat where
  "LogLevelCount = 11"

text \<open>\<^verbatim>\<open>static_cast<uint32_t>(log_level)\<close>\<close>

fun log_level_index :: "log_level \<Rightarrow> nat" where
  "log_level_index TraceL3 = 0"
| "log_level_index TraceL2 = 1"
| "log_level_index TraceL1 = 2"
| "log_level_index Debug = 3"
| "log_level_index Info = 4"
| "log_level_index Notice = 5"
| "log_level_index Warning = 6"
| "log_level_index Error = 7"
| "log_level_index Critical = 8"
| "log_level_index Backtrace = 9"
| "log_level_index NoneLevel = 10"

lemma log_level_index_inject [simp]: "log_level_index a = log_level_index b \<longleftrightarrow> a = b"
  by (cases a; cases b) auto

instantiation log_level :: linorder
begin

definition less_eq_log_level :: "log_level \<Rightarrow> log_level \<Rightarrow> bool" where
  "less_eq_log_level a b \<longleftrightarrow> log_level_index a \<le> log_level_index b"

definition less_log_level :: "log_level \<Rightarrow> log_level \<Rightarrow> bool" where
  "less_log_level a b \<longleftrightarrow> log_level_index a < log_level_index b"

instance by standard (auto simp: less_eq_log_level_def less_log_level_def)

end

lemma log_level_index_less: "log_level_index l < LogLevelCount"
  by (cases l) (simp_all add: LogLevelCount_def)

definition log_level_to_string :: "log_level \<Rightarrow> string list \<Rightarrow> quill_error + string" where
  "log_level_to_string log_level log_levels_strings =
     (let log_lvl = log_level_index log_level
      in if log_lvl \<ge> length log_levels_strings
         then Inl (QuillError (''Invalid get_log_level value '' @ [CHR 0x22] @ to_string log_lvl @ [CHR 0x22]))
         else Inr (log_levels_strings ! log_lvl))"

definition loglevel_from_string :: "string \<Rightarrow> quill_error + log_level" where
  "loglevel_from_string s =
     (let log_level = map tolower s
      in if log_level = ''tracel3'' \<or> log_level = ''trace_l3'' then Inr TraceL3
         else if log_level = ''tracel2'' \<or> log_level = ''trace_l2'' then Inr TraceL2
         else if log_level = ''tracel1'' \<or> log_level = ''trace_l1'' then Inr TraceL1
         else if log_level = ''debug'' then Inr Debug
         else if log_level = ''info'' then Inr Info
         else if log_level = ''notice'' then Inr Notice
         else if log_level = ''warning'' \<or> log_level = ''warn'' then Inr Warning
         else if log_level = ''error'' \<or> log_level = ''err'' then Inr Error
         else if log_level = ''critical'' then Inr Critical
         else if log_level = ''backtrace'' then Inr Backtrace
         else if log_level = ''none'' then Inr NoneLevel
         else Inl (QuillError (''LogLevel enum value does not exist for '' @ [CHR 0x22] @ log_level @ [CHR 0x22])))"

end
