(* ===== verification/Mdc_State.thy ===== *)
theory Mdc_State
  imports Std_String
begin

text \<open>
  \<^verbatim>\<open>quill/backend/BackendMdcState.h\<close>: a thread's mapped diagnostic context on the backend, the
  kvs in key order and the text that is appended to its messages.
\<close>

record mdc_format_parts =
  fp_prefix :: string
  fp_kv_sep :: string
  fp_field_sep :: string
  fp_suffix :: string

record mdc_state =
  mdc_format_parts :: mdc_format_parts
  mdc_fields :: "(string \<times> string) list"
  mdc_formatted :: string

definition set_from_pattern :: "string \<Rightarrow> mdc_format_parts option" where
  "set_from_pattern pattern =
     (let placeholder = ''{}'' in
      case find_from placeholder pattern 0 of
        None \<Rightarrow> None
      | Some first \<Rightarrow>
          (case find_from placeholder pattern (first + length placeholder) of
             None \<Rightarrow> None
           | Some second \<Rightarrow>
               if find_from placeholder pattern (second + length placeholder) \<noteq> None then None
               else let after_second = second + length placeholder
                    in if after_second \<ge> length pattern then None
                       else Some \<lparr>fp_prefix = take first pattern,
                          fp_kv_sep = slice (first + length placeholder) (second - first - length placeholder) pattern,
                          fp_field_sep = slice after_second (length pattern - after_second - 1) pattern,
                          fp_suffix = slice (length pattern - 1) 1 pattern\<rparr>))"

definition mdc_new :: "string \<Rightarrow> quill_error + mdc_state" where
  "mdc_new pattern =
     (case set_from_pattern pattern of
        None \<Rightarrow> Inl (QuillError ''Invalid BackendOptions::mdc_format_pattern.'')
      | Some parts \<Rightarrow> Inr \<lparr>mdc_format_parts = parts, mdc_fields = [], mdc_formatted = ''''\<rparr>)"

definition mdc_set :: "string \<Rightarrow> string \<Rightarrow> mdc_state \<Rightarrow> mdc_state" where
  "mdc_set key val m = m\<lparr>mdc_fields := smap_insert key val (mdc_fields m)\<rparr>"

definition mdc_erase :: "string \<Rightarrow> mdc_state \<Rightarrow> mdc_state" where
  "mdc_erase key m = m\<lparr>mdc_fields := smap_erase key (mdc_fields m)\<rparr>"

definition mdc_clear :: "mdc_state \<Rightarrow> mdc_state" where
  "mdc_clear m = m\<lparr>mdc_fields := [], mdc_formatted := ''''\<rparr>"

definition mdc_empty :: "mdc_state \<Rightarrow> bool" where
  "mdc_empty m \<longleftrightarrow> mdc_fields m = []"

text \<open>The loop over the fields: a separator after every field but the last.\<close>

fun append_fields :: "mdc_format_parts \<Rightarrow> (string \<times> string) list \<Rightarrow> string \<Rightarrow> string" where
  "append_fields p [] out = out"
| "append_fields p ((key, val) # kvs) out =
     (let out' = out @ key @ fp_kv_sep p @ val
      in append_fields p kvs (if kvs \<noteq> [] then out' @ fp_field_sep p else out'))"

definition mdc_rebuild_formatted :: "mdc_state \<Rightarrow> mdc_state" where
  "mdc_rebuild_formatted m =
     (if mdc_fields m = [] then m\<lparr>mdc_formatted := ''''\<rparr>
      else m\<lparr>mdc_formatted :=
        append_fields (mdc_format_parts m) (mdc_fields m) (fp_prefix (mdc_format_parts m))
          @ fp_suffix (mdc_format_parts m)\<rparr>)"

subsection \<open>The pattern\<close>

lemma set_from_pattern_parts:
  assumes "set_from_pattern pattern = Some p"
  shows "pattern = fp_prefix p @ ''{}'' @ fp_kv_sep p @ ''{}'' @ fp_field_sep p @ fp_suffix p"
    "length (fp_suffix p) = 1"
proof -
  obtain i j where i: "find_from ''{}'' pattern 0 = Some i" and j: "find_from ''{}'' pattern (i + 2) = Some j"
    and after: "j + 2 < length pattern"
    and p: "p = \<lparr>fp_prefix = take i pattern, fp_kv_sep = slice (i + 2) (j - i - 2) pattern,
      fp_field_sep = slice (j + 2) (length pattern - (j + 2) - 1) pattern,
      fp_suffix = slice (length pattern - 1) 1 pattern\<rparr>"
    using assms by (auto simp: set_from_pattern_def Let_def not_le numeral_2_eq_2 split: option.splits if_splits)
  note fi = find_from_Some [OF i] and fj = find_from_Some [OF j]
  have pieces: "drop k xs = take n (drop k xs) @ drop (k + n) xs" for k n and xs :: string
    by (metis append_take_drop_id drop_drop add.commute)
  have "pattern = take i pattern @ drop i pattern" by simp
  also have "drop i pattern = ''{}'' @ drop (i + 2) pattern"
    using pieces [of i pattern 2] fi(3) by (simp add: numeral_2_eq_2)
  also have "drop (i + 2) pattern = slice (i + 2) (j - i - 2) pattern @ drop j pattern"
  proof -
    have "i + 2 + (j - i - 2) = j" using fj(1) by simp
    then show ?thesis using pieces [of "i + 2" pattern "j - i - 2"] by (simp only: slice_def)
  qed
  also have "drop j pattern = ''{}'' @ drop (j + 2) pattern"
    using pieces [of j pattern 2] fj(3) by (simp add: numeral_2_eq_2)
  also have "drop (j + 2) pattern = slice (j + 2) (length pattern - (j + 2) - 1) pattern @ drop (length pattern - 1) pattern"
  proof -
    have "j + 2 + (length pattern - (j + 2) - 1) = length pattern - 1" using after by simp
    then show ?thesis using pieces [of "j + 2" pattern "length pattern - (j + 2) - 1"] by (simp only: slice_def)
  qed
  also have "drop (length pattern - 1) pattern = slice (length pattern - 1) 1 pattern"
    using after by (simp add: slice_def)
  finally show "pattern = fp_prefix p @ ''{}'' @ fp_kv_sep p @ ''{}'' @ fp_field_sep p @ fp_suffix p"
    unfolding p by simp
  show "length (fp_suffix p) = 1" using after by (simp add: p)
qed

lemma find_placeholder_skip:
  assumes "CHR ''{'' \<notin> set t"
  shows "find_from ''{}'' (s @ t @ ''{}'' @ u) (length s) = Some (length s + length t)"
  using str_find_skip [OF assms, of "''}''" u] by (simp add: find_from_def)

lemma find_placeholder_none:
  assumes "CHR ''{'' \<notin> set t"
  shows "find_from ''{}'' (s @ t) (length s) = None"
  using str_find_none [OF assms, of "''}''"] by (simp add: find_from_def)

lemma set_from_pattern_accepts:
  assumes "CHR ''{'' \<notin> set (pre @ kv @ fs @ [c])"
  shows "set_from_pattern (pre @ ''{}'' @ kv @ ''{}'' @ fs @ [c])
    = Some \<lparr>fp_prefix = pre, fp_kv_sep = kv, fp_field_sep = fs, fp_suffix = [c]\<rparr>"
proof -
  let ?pattern = "pre @ ''{}'' @ kv @ ''{}'' @ fs @ [c]"
  have 1: "find_from ''{}'' ?pattern 0 = Some (length pre)"
    using find_placeholder_skip [of pre "[]" "kv @ ''{}'' @ fs @ [c]"] assms by simp
  have 2: "find_from ''{}'' ?pattern (length pre + 2) = Some (length pre + 2 + length kv)"
    using find_placeholder_skip [of kv "pre @ ''{}''" "fs @ [c]"] assms by simp
  have 3: "find_from ''{}'' ?pattern (length pre + 2 + length kv + 2) = None"
    using find_placeholder_none [of "fs @ [c]" "pre @ ''{}'' @ kv @ ''{}''"] assms
    by (simp add: numeral_eq_Suc ac_simps)
  have 4: "slice (length pre + 2) (length kv) ?pattern = kv"
    using slice_append_at [of _ "pre @ ''{}''" _ kv "''{}'' @ fs @ [c]"] by simp
  have 5: "slice (length pre + 2 + length kv + 2) (length fs) ?pattern = fs"
    using slice_append_at [of _ "pre @ ''{}'' @ kv @ ''{}''" _ fs "[c]"] by simp
  have 6: "slice (length pre + 2 + length kv + 2 + length fs) 1 ?pattern = [c]"
    using slice_append_at [of _ "pre @ ''{}'' @ kv @ ''{}'' @ fs" _ "[c]" "[]"] by (simp add: add.assoc)
  have len: "length ?pattern = length pre + 2 + length kv + 2 + length fs + 1" by simp
  have sub: "length ''{}'' = 2" "length pre + 2 + length kv - length pre - 2 = length kv"
    "length pre + 2 + length kv + 2 + length fs + 1 - (length pre + 2 + length kv + 2) - 1 = length fs"
    "length pre + 2 + length kv + 2 + length fs + 1 - 1 = length pre + 2 + length kv + 2 + length fs" by simp_all
  have pre: "take (length pre) ?pattern = pre" by simp
  have room: "\<not> length pre + 2 + length kv + 2 \<ge> length pre + 2 + length kv + 2 + length fs + 1" by simp
  show ?thesis
    unfolding set_from_pattern_def Let_def len sub 1 2 3 option.case if_not_P [OF room] 4 5 6 pre by simp
qed

subsection \<open>The text\<close>

text \<open>What the formatted text is meant to be: the fields joined by the separator.\<close>

fun intercalate :: "string \<Rightarrow> string list \<Rightarrow> string" where
  "intercalate sep [] = ''''"
| "intercalate sep [x] = x"
| "intercalate sep (x # y # zs) = x @ sep @ intercalate sep (y # zs)"

definition mdc_text :: "mdc_format_parts \<Rightarrow> (string \<times> string) list \<Rightarrow> string" where
  "mdc_text p kvs =
     (if kvs = [] then ''''
      else fp_prefix p @ intercalate (fp_field_sep p) (map (\<lambda>(k, v). k @ fp_kv_sep p @ v) kvs) @ fp_suffix p)"

lemma append_fields_intercalate:
  "append_fields p kvs out = out @ intercalate (fp_field_sep p) (map (\<lambda>(k, v). k @ fp_kv_sep p @ v) kvs)"
proof (induction p kvs out rule: append_fields.induct)
  case (2 p key val kvs out)
  then show ?case by (cases kvs) auto
qed simp

lemma rebuild_text: "mdc_formatted (mdc_rebuild_formatted m) = mdc_text (mdc_format_parts m) (mdc_fields m)"
  by (simp add: mdc_rebuild_formatted_def mdc_text_def append_fields_intercalate)

text \<open>The changes a thread makes to its context, as commands.\<close>

datatype mdc_command = MdcSetField string string | MdcEraseField string | MdcClearAll

fun mdc_apply :: "mdc_command \<Rightarrow> mdc_state \<Rightarrow> mdc_state" where
  "mdc_apply (MdcSetField k v) m = mdc_set k v m"
| "mdc_apply (MdcEraseField k) m = mdc_erase k m"
| "mdc_apply MdcClearAll m = mdc_clear m"

fun mdc_spec :: "mdc_command \<Rightarrow> (string \<rightharpoonup> string) \<Rightarrow> (string \<rightharpoonup> string)" where
  "mdc_spec (MdcSetField k v) f = f(k \<mapsto> v)"
| "mdc_spec (MdcEraseField k) f = f(k := None)"
| "mdc_spec MdcClearAll f = Map.empty"

lemma mdc_apply_simulates:
  assumes "smap_ok (mdc_fields m)" "map_of (mdc_fields m) = f"
  shows "smap_ok (mdc_fields (mdc_apply c m)) \<and> map_of (mdc_fields (mdc_apply c m)) = mdc_spec c f
    \<and> mdc_format_parts (mdc_apply c m) = mdc_format_parts m"
  using assms
  by (cases c) (auto simp: mdc_set_def mdc_erase_def mdc_clear_def smap_insert_ok smap_erase_ok
      smap_insert_map_of smap_erase_map_of)

lemma mdc_run_simulates:
  assumes "smap_ok (mdc_fields m)" "map_of (mdc_fields m) = f"
  shows "smap_ok (mdc_fields (fold mdc_apply cs m)) \<and> map_of (mdc_fields (fold mdc_apply cs m)) = fold mdc_spec cs f
    \<and> mdc_format_parts (fold mdc_apply cs m) = mdc_format_parts m"
  using assms
proof (induction cs arbitrary: m f)
  case (Cons c cs)
  from mdc_apply_simulates [OF Cons.prems, of c] Cons.IH [of "mdc_apply c m" "mdc_spec c f"] show ?case by simp
qed simp

subsection \<open>Properties\<close>

text \<open>
  The pattern is split without loss: an accepted pattern is put together again by its
  four parts around two placeholders, with a suffix of one character; and any four parts
  without an opening brace, the suffix one character, are accepted and come back as they are.
\<close>

theorem mdc_pattern_roundtrip:
  "(mdc_new pattern = Inr m \<longrightarrow>
      pattern = fp_prefix (mdc_format_parts m) @ ''{}'' @ fp_kv_sep (mdc_format_parts m) @ ''{}''
        @ fp_field_sep (mdc_format_parts m) @ fp_suffix (mdc_format_parts m)
      \<and> length (fp_suffix (mdc_format_parts m)) = 1)
   \<and> (CHR ''{'' \<notin> set (pre @ kv @ fs @ [c]) \<longrightarrow>
      mdc_new (pre @ ''{}'' @ kv @ ''{}'' @ fs @ [c])
        = Inr \<lparr>mdc_format_parts = \<lparr>fp_prefix = pre, fp_kv_sep = kv, fp_field_sep = fs, fp_suffix = [c]\<rparr>,
            mdc_fields = [], mdc_formatted = ''''\<rparr>)"
  using set_from_pattern_parts [of pattern] set_from_pattern_accepts [of pre kv fs c]
  by (auto simp: mdc_new_def split: option.splits)

text \<open>
  C5. After any sequence of sets, erases and clears, the text the backend rebuilds depends only
  on the mapping the commands denote: it lists the keys in ascending order, each once with its
  last value, joined by the separators of the pattern, and is empty when no field is left.
\<close>

theorem mdc_text_of_commands:
  assumes "mdc_new pattern = Inr m0"
    and "sorted_wrt (<) (map fst kvs)" "map_of kvs = fold mdc_spec cs Map.empty"
  shows "mdc_formatted (mdc_rebuild_formatted (fold mdc_apply cs m0)) = mdc_text (mdc_format_parts m0) kvs"
proof -
  have m0: "smap_ok (mdc_fields m0)" "map_of (mdc_fields m0) = Map.empty"
    using assms(1) by (auto simp: mdc_new_def split: option.splits)
  note run = mdc_run_simulates [OF m0, of cs]
  have "mdc_fields (fold mdc_apply cs m0) = kvs"
    using run assms(2,3) by (intro smap_eqI) (auto simp: smap_ok_def)
  with run show ?thesis by (simp add: rebuild_text)
qed

theorem mdc_pattern_roundtrip_witness:
  "\<exists>m. mdc_new '' [{}: {}, ]'' = Inr m \<and> fp_field_sep (mdc_format_parts m) = '', '' \<and> length (fp_suffix (mdc_format_parts m)) = 1"
proof -
  have "CHR ''{'' \<notin> set ('' ['' @ '': '' @ '', '' @ [CHR '']''])" by simp
  with mdc_pattern_roundtrip [of "'' [{}: {}, ]''" _ "'' [''" "'': ''" "'', ''" "CHR '']''"] show ?thesis by simp
qed

theorem mdc_text_of_commands_witness:
  "\<exists>m. mdc_new '' [{}: {}, ]'' = Inr m
    \<and> mdc_formatted (mdc_rebuild_formatted (fold mdc_apply
        [MdcSetField ''b'' ''2'', MdcSetField ''a'' ''1'', MdcSetField ''c'' ''3'', MdcEraseField ''c''] m)) = '' [a: 1, b: 2]''"
proof -
  have "case mdc_new '' [{}: {}, ]'' of Inl _ \<Rightarrow> False | Inr m \<Rightarrow>
      mdc_format_parts m = \<lparr>fp_prefix = '' ['', fp_kv_sep = '': '', fp_field_sep = '', '', fp_suffix = '']''\<rparr>"
    by code_simp
  then obtain m where m: "mdc_new '' [{}: {}, ]'' = Inr m"
    "mdc_format_parts m = \<lparr>fp_prefix = '' ['', fp_kv_sep = '': '', fp_field_sep = '', '', fp_suffix = '']''\<rparr>"
    by (auto split: sum.splits)
  have sorted: "sorted_wrt (<) (map fst [(''a'', ''1''), (''b'', ''2'')])" by code_simp
  have "map_of [(''a'', ''1''), (''b'', ''2'')] = fold mdc_spec
    [MdcSetField ''b'' ''2'', MdcSetField ''a'' ''1'', MdcSetField ''c'' ''3'', MdcEraseField ''c''] Map.empty"
    by (auto simp: fun_eq_iff)
  from mdc_text_of_commands [OF m(1) sorted this] m(2)
  have "mdc_formatted (mdc_rebuild_formatted (fold mdc_apply
      [MdcSetField ''b'' ''2'', MdcSetField ''a'' ''1'', MdcSetField ''c'' ''3'', MdcEraseField ''c''] m)) = '' [a: 1, b: 2]''"
    by (simp only:) (simp add: mdc_text_def)
  with m(1) show ?thesis by blast
qed

end
