(* ===== verification/Backend_Options.thy ===== *)
theory Backend_Options
  imports Math_Utilities Log_Level Mdc_State
begin

text \<open>
  \<^verbatim>\<open>quill/backend/BackendOptions.h\<close> and \<^verbatim>\<open>BackendWorker::validate_options\<close>. Durations are the
  signed counts of their \<^verbatim>\<open>std::chrono\<close> type. The error notifier and the poll hooks are user
  callbacks: the components that call them take what they do as part of their own state.
\<close>

record backend_options =
  bo_thread_name :: string
  bo_enable_yield_when_idle :: bool
  bo_sleep_duration_ns :: int
  bo_transit_event_buffer_initial_capacity :: u32
  bo_transit_events_soft_limit :: size_t
  bo_transit_events_hard_limit :: size_t
  bo_log_timestamp_ordering_grace_period_us :: int
  bo_ensure_monotonic_output_timestamps :: bool
  bo_wait_for_queues_to_empty_before_exit :: bool
  bo_cpu_affinity :: "u16 list"
  bo_rdtsc_resync_interval_ms :: int
  bo_sink_min_flush_interval_ms :: int
  bo_check_printable_char :: "char \<Rightarrow> bool"
  bo_log_level_descriptions :: "string list"
  bo_log_level_short_codes :: "string list"
  bo_mdc_format_pattern :: string
  bo_check_backend_singleton_instance :: bool

definition default_check_printable_char :: "char \<Rightarrow> bool" where
  "default_check_printable_char c \<longleftrightarrow>
     (CHR '' '' \<le> c \<and> c \<le> CHR ''~'') \<or> c = CHR 0x0A \<or> c = CHR 0x09 \<or> c = CHR 0x0D"

definition default_log_level_descriptions :: "string list" where
  "default_log_level_descriptions =
     [''TRACE_L3'', ''TRACE_L2'', ''TRACE_L1'', ''DEBUG'', ''INFO'', ''NOTICE'',
      ''WARNING'', ''ERROR'', ''CRITICAL'', ''BACKTRACE'', ''NONE'']"

definition default_log_level_short_codes :: "string list" where
  "default_log_level_short_codes =
     [''T3'', ''T2'', ''T1'', ''D'', ''I'', ''N'', ''W'', ''E'', ''C'', ''BT'', ''_'']"

definition default_backend_options :: backend_options where
  "default_backend_options = \<lparr>
     bo_thread_name = ''QuillBackend'',
     bo_enable_yield_when_idle = False,
     bo_sleep_duration_ns = 100 * 1000,
     bo_transit_event_buffer_initial_capacity = 256,
     bo_transit_events_soft_limit = 8192,
     bo_transit_events_hard_limit = 65536,
     bo_log_timestamp_ordering_grace_period_us = 5,
     bo_ensure_monotonic_output_timestamps = False,
     bo_wait_for_queues_to_empty_before_exit = True,
     bo_cpu_affinity = [],
     bo_rdtsc_resync_interval_ms = 500,
     bo_sink_min_flush_interval_ms = 200,
     bo_check_printable_char = default_check_printable_char,
     bo_log_level_descriptions = default_log_level_descriptions,
     bo_log_level_short_codes = default_log_level_short_codes,
     bo_mdc_format_pattern = '' [{}: {}, ]'',
     bo_check_backend_singleton_instance = True\<rparr>"

definition INT64_MAX :: int where
  "INT64_MAX = 9223372036854775807"

text \<open>A limit of 0 counts as 1, here and where the worker reads the limits.\<close>

definition effective_limit :: "size_t \<Rightarrow> size_t" where
  "effective_limit limit = (if limit = 0 then 1 else limit)"

definition validate_options :: "backend_options \<Rightarrow> quill_error + unit" where
  "validate_options options =
     (let max_microseconds_as_nanoseconds = INT64_MAX div 1000;
          max_milliseconds_as_nanoseconds = INT64_MAX div 1000000
      in if bo_sleep_duration_ns options < 0
         then Inl (QuillError ''BackendOptions::sleep_duration must not be negative'')
         else if bo_log_timestamp_ordering_grace_period_us options < 0
         then Inl (QuillError ''BackendOptions::log_timestamp_ordering_grace_period must not be negative'')
         else if bo_log_timestamp_ordering_grace_period_us options > max_microseconds_as_nanoseconds
         then Inl (QuillError ''BackendOptions::log_timestamp_ordering_grace_period is too large to represent in nanoseconds'')
         else if bo_rdtsc_resync_interval_ms options < 0
         then Inl (QuillError ''BackendOptions::rdtsc_resync_interval must not be negative'')
         else if bo_sink_min_flush_interval_ms options < 0
         then Inl (QuillError ''BackendOptions::sink_min_flush_interval must not be negative'')
         else if bo_rdtsc_resync_interval_ms options > max_milliseconds_as_nanoseconds
         then Inl (QuillError ''BackendOptions::rdtsc_resync_interval is too large to represent in nanoseconds'')
         else if bo_sink_min_flush_interval_ms options > max_milliseconds_as_nanoseconds
         then Inl (QuillError ''BackendOptions::sink_min_flush_interval is too large to represent in nanoseconds'')
         else case mdc_new (bo_mdc_format_pattern options) of
           Inl e \<Rightarrow> Inl e
         | Inr _ \<Rightarrow>
             let soft_limit = effective_limit (bo_transit_events_soft_limit options);
                 hard_limit = effective_limit (bo_transit_events_hard_limit options);
                 requested_initial_capacity = ucast (bo_transit_event_buffer_initial_capacity options) :: size_t;
                 rounded_initial_capacity = next_power_of_two requested_initial_capacity
             in if soft_limit > hard_limit
                then Inl (QuillError ''transit_events_soft_limit cannot be greater than transit_events_hard_limit'')
                else if \<not> is_power_of_two hard_limit
                then Inl (QuillError ''transit_events_hard_limit must be a power of two'')
                else if requested_initial_capacity > hard_limit \<or> rounded_initial_capacity > hard_limit
                then Inl (QuillError ''transit_event_buffer_initial_capacity cannot be greater than transit_events_hard_limit'')
                else Inr ())"

lemma from_string_case_insensitive:
  "map tolower s = map tolower t \<Longrightarrow> loglevel_from_string s = loglevel_from_string t"
  by (simp add: loglevel_from_string_def)

definition level_round_trips :: "log_level \<Rightarrow> bool" where
  "level_round_trips l =
     (case log_level_to_string l default_log_level_descriptions of
        Inl _ \<Rightarrow> False
      | Inr s \<Rightarrow> loglevel_from_string s = Inr l)"

lemma default_levels_round_trip: "level_round_trips l"
  by (cases l; hypsubst; code_simp)

subsection \<open>Properties\<close>

text \<open>
  Level names round-trip: with the default descriptions every level prints, and every
  string that is its description up to the case of letters is parsed back to that level.
\<close>

theorem log_level_roundtrip:
  "\<exists>s. log_level_to_string l (bo_log_level_descriptions default_backend_options) = Inr s
     \<and> (\<forall>t. map tolower t = map tolower s \<longrightarrow> loglevel_from_string t = Inr l)"
proof -
  obtain s where s: "log_level_to_string l default_log_level_descriptions = Inr s" "loglevel_from_string s = Inr l"
    using default_levels_round_trip [of l] by (auto simp: level_round_trips_def split: sum.splits)
  have "loglevel_from_string t = Inr l" if "map tolower t = map tolower s" for t
    using from_string_case_insensitive [OF that] s(2) by (rule trans)
  moreover have "bo_log_level_descriptions default_backend_options = default_log_level_descriptions"
    by (simp add: default_backend_options_def)
  ultimately show ?thesis using s(1) by (intro exI [of _ s] conjI allI impI) (simp_all only:)
qed

theorem log_level_roundtrip_witness: "loglevel_from_string ''Warning'' = Inr Warning"
proof -
  have s: "log_level_to_string Warning (bo_log_level_descriptions default_backend_options) = Inr ''WARNING''"
    by code_simp
  have "map tolower ''Warning'' = map tolower ''WARNING''" by code_simp
  moreover obtain s where "log_level_to_string Warning (bo_log_level_descriptions default_backend_options) = Inr s"
      "\<forall>t. map tolower t = map tolower s \<longrightarrow> loglevel_from_string t = Inr Warning"
    using log_level_roundtrip [of Warning] by (elim exE conjE)
  moreover from this(1) s have "s = ''WARNING''" by (simp only: sum.inject)
  ultimately show ?thesis by (simp only:)
qed

text \<open>
  C6. Options that pass the validation are safe to run with: the three intervals are
  representable in 64-bit nanoseconds after conversion, the sleep is not negative, the MDC
  pattern constructs a state, the hard limit is a power of two, and neither the soft limit nor
  the event buffer's rounded initial capacity exceeds it.
\<close>

theorem validated_options_sound:
  assumes "validate_options options = Inr ()"
  shows "0 \<le> bo_sleep_duration_ns options
    \<and> 0 \<le> bo_log_timestamp_ordering_grace_period_us options * 1000
    \<and> bo_log_timestamp_ordering_grace_period_us options * 1000 \<le> INT64_MAX
    \<and> 0 \<le> bo_rdtsc_resync_interval_ms options * 1000000
    \<and> bo_rdtsc_resync_interval_ms options * 1000000 \<le> INT64_MAX
    \<and> 0 \<le> bo_sink_min_flush_interval_ms options * 1000000
    \<and> bo_sink_min_flush_interval_ms options * 1000000 \<le> INT64_MAX
    \<and> (\<exists>m. mdc_new (bo_mdc_format_pattern options) = Inr m)
    \<and> (\<exists>k. unat (effective_limit (bo_transit_events_hard_limit options)) = 2 ^ k)
    \<and> effective_limit (bo_transit_events_soft_limit options) \<le> effective_limit (bo_transit_events_hard_limit options)
    \<and> next_power_of_two (ucast (bo_transit_event_buffer_initial_capacity options))
        \<le> effective_limit (bo_transit_events_hard_limit options)"
  using assms
  by (auto simp: validate_options_def Let_def INT64_MAX_def is_power_of_two_iff not_less split: if_splits sum.splits)

theorem validated_options_sound_witness:
  "validate_options default_backend_options = Inr ()
    \<and> next_power_of_two 256 \<le> effective_limit (bo_transit_events_hard_limit default_backend_options)"
proof -
  have "validate_options default_backend_options = Inr ()" by code_simp
  from validated_options_sound [OF this] this show ?thesis by (simp add: default_backend_options_def)
qed

end
