(* ===== verification/Macro_Metadata.thy ===== *)
theory Macro_Metadata
  imports Log_Level
begin

text \<open>
  \<^verbatim>\<open>quill/core/MacroMetadata.h\<close>: what a log statement knows at compile time. A C string is the
  list of its characters before the terminator; \<open>None\<close> is the null pointer where the code
  passes one. The two positions are 16 bits wide, as in the class.
\<close>

datatype macro_event =
    NoEvent | Log | InitBacktrace | FlushBacktrace | Flush
  | LogWithRuntimeMetadataDeepCopy | LogWithRuntimeMetadataHybridCopy | LogWithRuntimeMetadataShallowCopy
  | LoggerRemovalRequest | Metric | MdcSet | MdcErase | MdcClear

record macro_metadata =
  mm_source_location :: string
  mm_caller_function :: string
  mm_message_format :: string
  mm_tags :: "string option"
  mm_colon_separator_pos :: u16
  mm_file_name_pos :: u16
  mm_log_level :: log_level
  mm_event :: macro_event
  mm_is_rate_limited :: bool
  mm_has_named_args :: bool

text \<open>The inner loop: from the first character after \<open>{\<close> to the \<open>}\<close> that closes it.\<close>

fun scan_placeholder :: "string \<Rightarrow> nat \<Rightarrow> nat \<times> string" where
  "scan_placeholder [] char_cnt = (char_cnt, [])"
| "scan_placeholder [c] char_cnt = (if c = CHR ''}'' then (char_cnt, []) else (Suc char_cnt, []))"
| "scan_placeholder (c # d # s) char_cnt =
     (if c = CHR ''}''
      then if d = CHR ''}'' then scan_placeholder s (Suc char_cnt) else (char_cnt, d # s)
      else scan_placeholder (d # s) (Suc char_cnt))"

lemma scan_placeholder_length: "length (snd (scan_placeholder s n)) \<le> length s"
  by (induction s n rule: scan_placeholder.induct) auto

definition named_arg_start :: "char \<Rightarrow> bool" where
  "named_arg_start fc \<longleftrightarrow> (CHR ''a'' \<le> fc \<and> fc \<le> CHR ''z'') \<or> (CHR ''A'' \<le> fc \<and> fc \<le> CHR ''Z'') \<or> fc = CHR ''_''"

function contains_named_args_loop :: "string \<Rightarrow> bool \<Rightarrow> bool" where
  "contains_named_args_loop [] found = found"
| "contains_named_args_loop [c] found = found"
| "contains_named_args_loop (c # fc # s) found =
     (if c = CHR ''{''
      then if fc = CHR ''{'' then contains_named_args_loop s found
           else let (char_cnt, rest) = scan_placeholder (fc # s) 0
                in contains_named_args_loop rest (found \<or> (char_cnt \<noteq> 0 \<and> named_arg_start fc))
      else contains_named_args_loop (fc # s) found)"
  by pat_completeness auto
termination
proof (relation "measure (\<lambda>(s, _). length s)", goal_cases)
  case (3 c fc s found x char_cnt rest)
  then show ?case using scan_placeholder_length [of "fc # s" 0] by (metis in_measure case_prod_conv snd_conv le_imp_less_Suc length_Cons)
qed auto

definition contains_named_args :: "string \<Rightarrow> bool" where
  "contains_named_args fmt = contains_named_args_loop fmt False"

fun file_name_scan :: "string \<Rightarrow> nat \<Rightarrow> nat \<Rightarrow> nat" where
  "file_name_scan [] pos at = at"
| "file_name_scan (cur # s) pos at = file_name_scan s (Suc pos) (if cur = CHR ''/'' then Suc pos else at)"

definition calc_file_name_pos :: "string \<Rightarrow> u16" where
  "calc_file_name_pos source_location = of_nat (file_name_scan source_location 0 0)"

definition calc_colon_separator_pos :: "string \<Rightarrow> u16" where
  "calc_colon_separator_pos source_location =
     (case rfind_char CHR '':'' source_location of
        Some i \<Rightarrow> of_nat i
      | None \<Rightarrow> of_nat (length source_location))"

definition mm_new :: "string \<Rightarrow> string \<Rightarrow> string \<Rightarrow> string option \<Rightarrow> log_level \<Rightarrow> macro_event \<Rightarrow> bool \<Rightarrow> macro_metadata" where
  "mm_new source_location caller_function message_format tags log_level event is_rate_limited =
     \<lparr>mm_source_location = source_location,
      mm_caller_function = caller_function,
      mm_message_format = message_format,
      mm_tags = tags,
      mm_colon_separator_pos = calc_colon_separator_pos source_location,
      mm_file_name_pos = calc_file_name_pos source_location,
      mm_log_level = log_level,
      mm_event = event,
      mm_is_rate_limited = is_rate_limited,
      mm_has_named_args = contains_named_args message_format\<rparr>"

definition mm_default :: macro_metadata where
  "mm_default = \<lparr>mm_source_location = '''', mm_caller_function = '''', mm_message_format = '''', mm_tags = None,
     mm_colon_separator_pos = 0, mm_file_name_pos = 0, mm_log_level = NoneLevel, mm_event = NoEvent,
     mm_is_rate_limited = False, mm_has_named_args = False\<rparr>"

definition mm_line :: "macro_metadata \<Rightarrow> string" where
  "mm_line m =
     (let p = unat (mm_colon_separator_pos m)
      in if p = length (mm_source_location m) then drop p (mm_source_location m)
         else drop (p + 1) (mm_source_location m))"

definition mm_full_path :: "macro_metadata \<Rightarrow> string" where
  "mm_full_path m = take (unat (mm_colon_separator_pos m)) (mm_source_location m)"

text \<open>The difference is computed as \<^verbatim>\<open>int\<close> and converted to \<^verbatim>\<open>size_t\<close>.\<close>

definition mm_file_name :: "macro_metadata \<Rightarrow> string" where
  "mm_file_name m =
     slice (unat (mm_file_name_pos m))
       (unat (word_of_int (uint (mm_colon_separator_pos m) - uint (mm_file_name_pos m)) :: size_t))
       (mm_source_location m)"

definition mm_short_source_location :: "macro_metadata \<Rightarrow> string" where
  "mm_short_source_location m = drop (unat (mm_file_name_pos m)) (mm_source_location m)"

subsection \<open>Positions in a source location\<close>

lemma rfind_char_last:
  assumes "c \<notin> set t"
  shows "rfind_char c (s @ c # t) = Some (length s)"
proof -
  have "str_find [c] (rev t @ c # rev s) = Some (length t)"
    using assms str_find_skip [of c "rev t" "[]" "rev s"] by simp
  then show ?thesis by (simp add: rfind_char_def)
qed

lemma file_name_scan_none:
  "CHR ''/'' \<notin> set s \<Longrightarrow> file_name_scan s pos at = at"
  by (induction s pos at rule: file_name_scan.induct) auto

lemma file_name_scan_append:
  "file_name_scan (s @ t) pos at = file_name_scan t (pos + length s) (file_name_scan s pos at)"
  by (induction s arbitrary: pos at) auto

lemma file_name_scan_last:
  assumes "CHR ''/'' \<notin> set t"
  shows "file_name_scan (s @ CHR ''/'' # t) 0 0 = length s + 1"
  using assms by (simp add: file_name_scan_append file_name_scan_none)

subsection \<open>Named arguments\<close>

lemma named_found_stays: "contains_named_args_loop s True"
  by (induction s True rule: contains_named_args_loop.induct) (auto split: prod.splits)

lemma scan_count: "n \<le> fst (scan_placeholder s n)"
  by (induction s n rule: scan_placeholder.induct) auto

lemma scan_first_counts:
  assumes "c \<noteq> CHR ''}''"
  shows "0 < fst (scan_placeholder (c # s) 0)"
  using assms scan_count [of 1 s] by (cases s) auto

lemma named_after_literal:
  assumes "CHR ''{'' \<notin> set lit"
  shows "contains_named_args_loop (lit @ CHR ''{'' # s) found = contains_named_args_loop (CHR ''{'' # s) found"
  using assms
proof (induction lit)
  case (Cons c lit)
  then show ?case by (cases lit) auto
qed simp

lemma named_placeholder:
  assumes "named_arg_start c"
  shows "contains_named_args_loop (CHR ''{'' # c # s) found"
proof -
  have "c \<noteq> CHR ''{''" "c \<noteq> CHR ''}''" using assms by (auto simp: named_arg_start_def less_eq_char_def)
  with assms scan_first_counts [of c s] show ?thesis by (auto simp: named_found_stays split: prod.splits)
qed

lemma scan_suffix: "suffix (snd (scan_placeholder s n)) s"
  by (induction s n rule: scan_placeholder.induct) (auto intro: suffix_ConsI)

definition has_open_name :: "string \<Rightarrow> bool" where
  "has_open_name s \<longleftrightarrow> (\<exists>pre c post. s = pre @ ''{'' @ c # post \<and> named_arg_start c)"

lemma has_open_name_suffix: "has_open_name t \<Longrightarrow> has_open_name (z @ t)"
  unfolding has_open_name_def by (metis append.assoc)

lemma has_open_name_Cons: "has_open_name t \<Longrightarrow> has_open_name (c # t)"
  using has_open_name_suffix [of t "[c]"] by simp

lemma has_open_name_here: "named_arg_start c \<Longrightarrow> has_open_name (CHR ''{'' # c # s)"
  unfolding has_open_name_def by (intro exI [of _ "[]"] exI [of _ c] exI [of _ s]) simp

lemma named_loop_sound: "contains_named_args_loop s found \<Longrightarrow> \<not> found \<Longrightarrow> has_open_name s"
proof (induction s found rule: contains_named_args_loop.induct)
  case (3 c fc s found)
  obtain cnt rest where sc: "scan_placeholder (fc # s) 0 = (cnt, rest)" by fastforce
  obtain z where z: "fc # s = z @ rest" using scan_suffix [of "fc # s" 0] sc by (auto simp: suffix_def)
  consider "c \<noteq> CHR ''{''" | "c = CHR ''{''" "fc = CHR ''{''"
    | "c = CHR ''{''" "fc \<noteq> CHR ''{''" "named_arg_start fc"
    | "c = CHR ''{''" "fc \<noteq> CHR ''{''" "\<not> named_arg_start fc" by blast
  then show ?case
  proof cases
    case 1
    with 3 show ?thesis by (intro has_open_name_Cons [of "fc # s"]) simp
  next
    case 2
    with 3 show ?thesis by (intro has_open_name_Cons) simp
  next
    case 3
    then show ?thesis using has_open_name_here by simp
  next
    case 4
    then have "contains_named_args_loop rest found" using \<open>contains_named_args_loop (c # fc # s) found\<close> sc by simp
    then have "has_open_name rest" using "3.IH"(2) [OF 4(1,2) sc [symmetric] refl] 4 "3.prems" by simp
    then have "has_open_name (fc # s)" unfolding z by (rule has_open_name_suffix)
    then show ?thesis by (rule has_open_name_Cons)
  qed
qed simp_all

subsection \<open>Properties\<close>

text \<open>
  A source location \<open>dir/file:line\<close> whose path fits 16 bits is taken apart exactly: the full
  path, the file name after the last separator, the line, and the short location.
\<close>

theorem source_location_parts:
  assumes "length dir + length file + 1 < 2 ^ 16" "CHR ''/'' \<notin> set (file @ line)" "CHR '':'' \<notin> set line"
  shows "let m = mm_new (dir @ ''/'' @ file @ '':'' @ line) f fmt tags level ev rate
    in mm_full_path m = dir @ ''/'' @ file \<and> mm_file_name m = file \<and> mm_line m = line
       \<and> mm_short_source_location m = file @ '':'' @ line"
proof -
  let ?s = "dir @ ''/'' @ file @ '':'' @ line"
  have fp: "file_name_scan ?s 0 0 = length dir + 1"
    using file_name_scan_last [of "file @ '':'' @ line" dir] assms(2) by simp
  have cp: "rfind_char CHR '':'' ?s = Some (length dir + 1 + length file)"
    using rfind_char_last [OF assms(3), of "dir @ ''/'' @ file"] by simp
  have u: "unat (of_nat (length dir + 1 + length file) :: u16) = length dir + 1 + length file"
    "unat (of_nat (length dir + 1) :: u16) = length dir + 1"
    by (rule unat_of_nat_small, use assms(1) in simp)+
  have "uint (of_nat (length dir + 1 + length file) :: u16) - uint (of_nat (length dir + 1) :: u16) = int (length file)"
    unfolding uint_nat u by simp
  moreover have "unat (word_of_int (int (length file)) :: size_t) = length file"
  proof -
    have "length file < 2 ^ LENGTH(64)" using assms(1) by simp
    then show ?thesis by (simp only: of_int_of_nat_eq unat_of_nat_small)
  qed
  ultimately have n: "unat (word_of_int (uint (of_nat (length dir + 1 + length file) :: u16)
      - uint (of_nat (length dir + 1) :: u16)) :: size_t) = length file" by simp
  have sl: "slice (length dir + 1) (length file) ?s = file"
    using slice_append_at [of _ "dir @ ''/''" _ "file" "'':'' @ line"] by simp
  show ?thesis
    unfolding Let_def mm_new_def mm_full_path_def mm_file_name_def mm_line_def mm_short_source_location_def
      calc_file_name_pos_def calc_colon_separator_pos_def macro_metadata.select_convs fp cp option.case u n sl
    by simp
qed

theorem source_location_parts_witness:
  "mm_file_name (mm_new ''/src/main.cpp:42'' ''f'' ''x'' None Info Log False) = ''main.cpp''"
  using source_location_parts [of "''/src''" "''main.cpp''" "''42''" "''f''" "''x''" None Info Log False]
  by (simp add: Let_def)

text \<open>
  A message format is classified as having named arguments exactly in these senses: it has
  a brace followed by a letter or underscore whenever it is so classified, and it is so
  classified whenever such a brace comes first.
\<close>

theorem named_args_detection:
  "(contains_named_args fmt \<longrightarrow> (\<exists>pre c post. fmt = pre @ ''{'' @ c # post \<and> named_arg_start c))
   \<and> (CHR ''{'' \<notin> set lit \<and> named_arg_start c \<longrightarrow> contains_named_args (lit @ ''{'' @ c # post))"
proof -
  have "contains_named_args (lit @ ''{'' @ c # post)" if "CHR ''{'' \<notin> set lit \<and> named_arg_start c"
  proof -
    have "contains_named_args_loop (CHR ''{'' # c # post) False" using that named_placeholder by blast
    moreover have "contains_named_args_loop (lit @ CHR ''{'' # c # post) False
        = contains_named_args_loop (CHR ''{'' # c # post) False" using that named_after_literal by blast
    ultimately show ?thesis by (simp only: contains_named_args_def append_Cons append_Nil)
  qed
  moreover have "has_open_name fmt" if "contains_named_args fmt"
    using that unfolding contains_named_args_def by (rule named_loop_sound) simp
  ultimately show ?thesis unfolding has_open_name_def by blast
qed

theorem named_args_detection_witness: "contains_named_args ''total {sum}''"
proof -
  have "CHR ''{'' \<notin> set ''total '' \<and> named_arg_start CHR ''s''" by code_simp
  with named_args_detection [of "''''" "''total ''" "CHR ''s''" "''um}''"] show ?thesis by simp
qed

end
