(* ===== verification/Transit_Event.thy ===== *)
theory Transit_Event
  imports Macro_Metadata
begin

text \<open>
  \<^verbatim>\<open>quill/backend/TransitEvent.h\<close>: a log statement on the backend. Its \<^verbatim>\<open>macro_metadata\<close> pointer
  may point into its own heap-allocated \<^verbatim>\<open>ExtraData\<close>; \<open>meta_ref\<close> keeps that pointer as the
  address of the \<^verbatim>\<open>ExtraData\<close> it points into, and \<open>te_extra\<close> is the owning pointer with its
  address, so that a pointer left behind by a move or a copy is a dangling one. A metric's
  \<^verbatim>\<open>double\<close> is its 64-bit pattern; a logger is its identity; null C strings are \<open>None\<close>.
\<close>

record runtime_metadata =
  rm_fmt :: string
  rm_source_location :: string
  rm_function_name :: string
  rm_tags :: string
  rm_macro_metadata :: macro_metadata
  rm_line_number :: u32
  rm_has_runtime_metadata :: bool

record extra_data =
  ed_named_args :: "(string \<times> string) list"
  ed_mdc :: string
  ed_runtime_metadata :: runtime_metadata

datatype meta_ref = NullMetadata | StaticMetadata macro_metadata | RuntimeMetadataOf nat

datatype event_payload = Monostate | FlushFlag "nat option" | MetricValue u64

record transit_event =
  te_timestamp :: u64
  te_macro_metadata :: meta_ref
  te_logger_base :: "nat option"
  te_formatted_msg :: "string option"
  te_extra_data :: "(nat \<times> extra_data) option"
  te_event_payload :: event_payload

subsection \<open>Runtime metadata\<close>

definition rm_default :: runtime_metadata where
  "rm_default = \<lparr>rm_fmt = '''', rm_source_location = '''', rm_function_name = '''', rm_tags = '''',
     rm_macro_metadata = mm_default, rm_line_number = 0, rm_has_runtime_metadata = False\<rparr>"

definition safe_string :: "string option \<Rightarrow> string" where
  "safe_string s = (case s of None \<Rightarrow> '''' | Some t \<Rightarrow> t)"

definition max_file_path_length :: nat where
  "max_file_path_length = 65535"

definition path_suffix :: "string \<Rightarrow> string" where
  "path_suffix file_path =
     (if length file_path > max_file_path_length then drop (length file_path - max_file_path_length) file_path
      else file_path)"

definition no_location :: "string option \<Rightarrow> u32 \<Rightarrow> bool" where
  "no_location file_path line \<longleftrightarrow> file_path = None \<or> (file_path = Some '''' \<and> line = 0)"

definition source_location_matches :: "string option \<Rightarrow> u32 \<Rightarrow> runtime_metadata \<Rightarrow> bool" where
  "source_location_matches file_path line rm =
     (if no_location file_path line then rm_source_location rm = ''''
      else if rm_line_number rm \<noteq> line then False
      else mm_full_path (rm_macro_metadata rm) = path_suffix (safe_string file_path))"

definition set_source_location :: "string option \<Rightarrow> u32 \<Rightarrow> runtime_metadata \<Rightarrow> runtime_metadata" where
  "set_source_location file_path line rm =
     (if no_location file_path line then rm\<lparr>rm_source_location := ''''\<rparr>
      else rm\<lparr>rm_source_location := path_suffix (safe_string file_path) @ '':'' @ to_string (unat line)\<rparr>)"

text \<open>\<^verbatim>\<open>tags.empty() ? nullptr : tags.data()\<close>\<close>

definition tags_pointer :: "string \<Rightarrow> string option" where
  "tags_pointer tags = (if tags = '''' then None else Some tags)"

text \<open>The part of \<^verbatim>\<open>set\<close> after the early return.\<close>

definition rm_rebuild ::
  "string option \<Rightarrow> u32 \<Rightarrow> string option \<Rightarrow> string option \<Rightarrow> string option \<Rightarrow> log_level \<Rightarrow> runtime_metadata \<Rightarrow> runtime_metadata" where
  "rm_rebuild file_path line func in_tags in_fmt level rm =
     (let rm1 = set_source_location file_path line (rm\<lparr>rm_fmt := safe_string in_fmt, rm_line_number := line\<rparr>);
          rm2 = rm1\<lparr>rm_function_name := safe_string func, rm_tags := safe_string in_tags\<rparr>
      in rm2\<lparr>rm_macro_metadata := mm_new (rm_source_location rm2) (rm_function_name rm2) (rm_fmt rm2)
               (tags_pointer (rm_tags rm2)) level Log False,
             rm_has_runtime_metadata := True\<rparr>)"

definition rm_set ::
  "string option \<Rightarrow> u32 \<Rightarrow> string option \<Rightarrow> string option \<Rightarrow> string option \<Rightarrow> log_level \<Rightarrow> runtime_metadata \<Rightarrow> runtime_metadata" where
  "rm_set file_path line func in_tags in_fmt level rm =
     (if mm_event (rm_macro_metadata rm) = Log \<and> mm_log_level (rm_macro_metadata rm) = level
         \<and> rm_fmt rm = safe_string in_fmt \<and> rm_function_name rm = safe_string func
         \<and> rm_tags rm = safe_string in_tags \<and> source_location_matches file_path line rm
      then rm\<lparr>rm_has_runtime_metadata := True\<rparr>
      else rm_rebuild file_path line func in_tags in_fmt level rm)"

text \<open>The copy constructor and copy assignment: the metadata is recreated over the copied strings.\<close>

definition rm_copy :: "runtime_metadata \<Rightarrow> runtime_metadata" where
  "rm_copy rm = rm\<lparr>rm_macro_metadata := mm_new (rm_source_location rm) (rm_function_name rm) (rm_fmt rm)
     (tags_pointer (rm_tags rm)) (mm_log_level (rm_macro_metadata rm)) Log False\<rparr>"

definition rm_consistent :: "runtime_metadata \<Rightarrow> bool" where
  "rm_consistent rm \<longleftrightarrow> rm_macro_metadata rm = mm_new (rm_source_location rm) (rm_function_name rm) (rm_fmt rm)
       (tags_pointer (rm_tags rm)) (mm_log_level (rm_macro_metadata rm)) Log False
     \<and> (rm_source_location rm = '''' \<or>
        (\<exists>path. length path \<le> max_file_path_length
           \<and> rm_source_location rm = path @ '':'' @ to_string (unat (rm_line_number rm))))"

definition rm_wf :: "runtime_metadata \<Rightarrow> bool" where
  "rm_wf rm \<longleftrightarrow> (mm_event (rm_macro_metadata rm) = Log \<longrightarrow> rm_consistent rm)
     \<and> (mm_event (rm_macro_metadata rm) \<noteq> Log \<longrightarrow> rm_source_location rm = '''')
     \<and> (rm_has_runtime_metadata rm \<longrightarrow> mm_event (rm_macro_metadata rm) = Log)"

lemma rm_default_wf: "rm_wf rm_default"
  by (simp add: rm_wf_def rm_default_def mm_default_def)

lemma path_suffix_length: "length (path_suffix p) \<le> max_file_path_length"
  by (simp add: path_suffix_def max_file_path_length_def)

lemma rm_rebuild_wf: "rm_wf (rm_rebuild file_path line func in_tags in_fmt level rm)"
  using path_suffix_length
  by (auto simp: rm_wf_def rm_consistent_def rm_rebuild_def Let_def set_source_location_def mm_new_def)

lemma rm_set_wf: "rm_wf rm \<Longrightarrow> rm_wf (rm_set file_path line func in_tags in_fmt level rm)"
  using rm_rebuild_wf by (auto simp: rm_set_def) (auto simp: rm_wf_def rm_consistent_def)

lemma rm_copy_same: "rm_wf rm \<Longrightarrow> rm_has_runtime_metadata rm \<Longrightarrow> rm_copy rm = rm"
  by (simp add: rm_wf_def rm_consistent_def rm_copy_def)

lemma rm_copy_wf: "rm_wf rm \<Longrightarrow> rm_wf (rm_copy rm)"
  by (cases "mm_event (rm_macro_metadata rm) = Log")
    (auto simp: rm_wf_def rm_consistent_def rm_copy_def mm_new_def)

text \<open>What \<open>rm_rebuild\<close> writes does not depend on what was there.\<close>

definition location_text :: "string option \<Rightarrow> u32 \<Rightarrow> string" where
  "location_text file_path line =
     (if no_location file_path line then ''''
      else path_suffix (safe_string file_path) @ '':'' @ to_string (unat line))"

lemma set_source_location_eq: "set_source_location file_path line rm = rm\<lparr>rm_source_location := location_text file_path line\<rparr>"
  by (simp add: set_source_location_def location_text_def)

lemma rm_rebuild_eq:
  "rm_rebuild file_path line func in_tags in_fmt level rm =
     \<lparr>rm_fmt = safe_string in_fmt, rm_source_location = location_text file_path line,
      rm_function_name = safe_string func, rm_tags = safe_string in_tags,
      rm_macro_metadata = mm_new (location_text file_path line) (safe_string func) (safe_string in_fmt)
        (tags_pointer (safe_string in_tags)) level Log False,
      rm_line_number = line, rm_has_runtime_metadata = True\<rparr>"
  by (simp add: rm_rebuild_def Let_def set_source_location_eq)

lemma full_path_of_location:
  assumes "length path \<le> max_file_path_length"
  shows "mm_full_path (mm_new (path @ '':'' @ to_string n) f fmt tags level ev rate) = path"
proof -
  have "CHR '':'' \<notin> set (to_string n)" using to_string_digits by (fastforce simp: is_digit_def)
  from rfind_char_last [OF this, of path]
  have "rfind_char CHR '':'' (path @ '':'' @ to_string n) = Some (length path)" by simp
  moreover have "unat (of_nat (length path) :: u16) = length path"
    by (rule unat_of_nat_small) (use assms in \<open>simp add: max_file_path_length_def\<close>)
  ultimately show ?thesis by (simp add: mm_full_path_def mm_new_def calc_colon_separator_pos_def)
qed

lemma full_path_of_empty: "mm_full_path (mm_new '''' f fmt tags level ev rate) = ''''"
  by (simp add: mm_full_path_def mm_new_def)

lemma path_suffix_empty: "path_suffix p = '''' \<longleftrightarrow> p = ''''"
  by (auto simp: path_suffix_def max_file_path_length_def)

lemma rm_set_reuses_same:
  assumes wf: "rm_wf rm" and loc: "\<not> (file_path = Some '''' \<and> line \<noteq> 0)"
  shows "(rm_set file_path line func in_tags in_fmt level rm)\<lparr>rm_line_number := line\<rparr>
    = rm_rebuild file_path line func in_tags in_fmt level rm"
proof (cases "mm_event (rm_macro_metadata rm) = Log \<and> mm_log_level (rm_macro_metadata rm) = level
         \<and> rm_fmt rm = safe_string in_fmt \<and> rm_function_name rm = safe_string func
         \<and> rm_tags rm = safe_string in_tags \<and> source_location_matches file_path line rm")
  case False
  then have "rm_set file_path line func in_tags in_fmt level rm = rm_rebuild file_path line func in_tags in_fmt level rm"
    by (simp only: rm_set_def if_False)
  then show ?thesis by (simp add: rm_rebuild_eq)
next
  case True
  then have c: "rm_consistent rm" using wf by (simp add: rm_wf_def)
  have src: "location_text file_path line = rm_source_location rm"
  proof (cases "no_location file_path line")
    case True
    with \<open>mm_event _ = Log \<and> _\<close> show ?thesis by (simp add: source_location_matches_def location_text_def)
  next
    case located: False
    with True have line: "rm_line_number rm = line"
      and p: "mm_full_path (rm_macro_metadata rm) = path_suffix (safe_string file_path)"
      by (auto simp: source_location_matches_def split: if_splits)
    obtain q where q: "file_path = Some q" "q \<noteq> ''''" using located loc by (auto simp: no_location_def)
    from c consider "rm_source_location rm = ''''"
      | path where "length path \<le> max_file_path_length" "rm_source_location rm = path @ '':'' @ to_string (unat line)"
      using line by (auto simp: rm_consistent_def)
    then show ?thesis
    proof cases
      case 1
      with c have "mm_full_path (rm_macro_metadata rm) = ''''"
        using full_path_of_empty by (metis rm_consistent_def)
      with p q path_suffix_empty [of q] have False by (auto simp: safe_string_def)
      then show ?thesis ..
    next
      case 2
      with c have "mm_full_path (rm_macro_metadata rm) = path"
        using full_path_of_location by (metis rm_consistent_def)
      with p 2 located show ?thesis by (simp add: location_text_def)
    qed
  qed
  have "rm_macro_metadata rm = mm_new (rm_source_location rm) (rm_function_name rm) (rm_fmt rm)
       (tags_pointer (rm_tags rm)) level Log False"
    using c True by (simp add: rm_consistent_def)
  moreover have "rm_set file_path line func in_tags in_fmt level rm = rm\<lparr>rm_has_runtime_metadata := True\<rparr>"
    unfolding rm_set_def by (rule if_P [OF True])
  ultimately show ?thesis
    using True src by (intro runtime_metadata.equality) (simp_all add: rm_rebuild_eq)
qed

text \<open>
  The check above is too weak for an empty path with a line: the location left by a null path
  with the same line is taken for it, and the line is lost.
\<close>

lemma stale_location_kept:
  "rm_source_location (rm_set (Some '''') 5 None None (Some ''m'') Info
      (rm_set None 5 None None (Some ''m'') Info rm_default)) = ''''"
  "rm_source_location (rm_set (Some '''') 5 None None (Some ''m'') Info rm_default) = '':5''"
proof -
  have digit: "char_of (53 :: nat) = CHR ''5''" by code_simp
  show "rm_source_location (rm_set (Some '''') 5 None None (Some ''m'') Info
      (rm_set None 5 None None (Some ''m'') Info rm_default)) = ''''"
    "rm_source_location (rm_set (Some '''') 5 None None (Some ''m'') Info rm_default) = '':5''"
    by (simp_all add: digit rm_set_def rm_rebuild_eq rm_default_def mm_default_def safe_string_def location_text_def
        source_location_matches_def no_location_def mm_full_path_def mm_new_def calc_colon_separator_pos_def
        rfind_char_def path_suffix_def max_file_path_length_def to_string.simps)
qed

subsection \<open>Moving and copying events\<close>

definition te_default :: transit_event where
  "te_default = \<lparr>te_timestamp = 0, te_macro_metadata = NullMetadata, te_logger_base = None,
     te_formatted_msg = Some '''', te_extra_data = None, te_event_payload = Monostate\<rparr>"

definition ed_default :: extra_data where
  "ed_default = \<lparr>ed_named_args = [], ed_mdc = '''', ed_runtime_metadata = rm_default\<rparr>"

text \<open>What dereferencing \<^verbatim>\<open>macro_metadata\<close> reads; \<open>None\<close> if it is null or dangles.\<close>

definition te_metadata :: "transit_event \<Rightarrow> macro_metadata option" where
  "te_metadata e =
     (case te_macro_metadata e of
        NullMetadata \<Rightarrow> None
      | StaticMetadata m \<Rightarrow> Some m
      | RuntimeMetadataOf a \<Rightarrow>
          (case te_extra_data e of
             Some (b, x) \<Rightarrow> if a = b then Some (rm_macro_metadata (ed_runtime_metadata x)) else None
           | None \<Rightarrow> None))"

text \<open>\<^verbatim>\<open>if (extra_data && extra_data->runtime_metadata.has_runtime_metadata) macro_metadata = ...\<close>\<close>

definition te_repoint :: "transit_event \<Rightarrow> transit_event" where
  "te_repoint e =
     (case te_extra_data e of
        Some (a, x) \<Rightarrow>
          if rm_has_runtime_metadata (ed_runtime_metadata x) then e\<lparr>te_macro_metadata := RuntimeMetadataOf a\<rparr> else e
      | None \<Rightarrow> e)"

definition te_moved_from :: "transit_event \<Rightarrow> transit_event" where
  "te_moved_from e = e\<lparr>te_formatted_msg := None, te_extra_data := None, te_event_payload := Monostate\<rparr>"

text \<open>Both return the new value of the target and of the moved-from event.\<close>

definition te_move_construct :: "transit_event \<Rightarrow> transit_event \<times> transit_event" where
  "te_move_construct other =
     (te_repoint \<lparr>te_timestamp = te_timestamp other, te_macro_metadata = te_macro_metadata other,
        te_logger_base = te_logger_base other, te_formatted_msg = te_formatted_msg other,
        te_extra_data = te_extra_data other, te_event_payload = te_event_payload other\<rparr>,
      te_moved_from other)"

definition te_move_assign :: "bool \<Rightarrow> transit_event \<Rightarrow> transit_event \<Rightarrow> transit_event \<times> transit_event" where
  "te_move_assign same this other =
     (if same then (this, this)
      else (te_repoint (this\<lparr>te_timestamp := te_timestamp other, te_macro_metadata := te_macro_metadata other,
              te_logger_base := te_logger_base other, te_formatted_msg := te_formatted_msg other,
              te_extra_data := te_extra_data other, te_event_payload := te_event_payload other\<rparr>),
            te_moved_from other))"

text \<open>\<open>address\<close> is where \<^verbatim>\<open>std::make_unique<ExtraData>\<close> places the copy.\<close>

definition te_copy_to :: "nat \<Rightarrow> transit_event \<Rightarrow> transit_event \<Rightarrow> transit_event" where
  "te_copy_to address this other =
     (let o1 = other\<lparr>te_timestamp := te_timestamp this, te_macro_metadata := te_macro_metadata this,
            te_logger_base := te_logger_base this, te_event_payload := te_event_payload this,
            te_formatted_msg := te_formatted_msg this\<rparr>
      in case te_extra_data this of
           None \<Rightarrow> o1
         | Some (_, x) \<Rightarrow>
             let x' = x\<lparr>ed_runtime_metadata := rm_copy (ed_runtime_metadata x)\<rparr>;
                 o2 = o1\<lparr>te_extra_data := Some (address, x')\<rparr>
             in if rm_has_runtime_metadata (ed_runtime_metadata x')
                then o2\<lparr>te_macro_metadata := RuntimeMetadataOf address\<rparr> else o2)"

definition te_log_level :: "transit_event \<Rightarrow> log_level option" where
  "te_log_level e = map_option mm_log_level (te_metadata e)"

definition te_get_named_args :: "transit_event \<Rightarrow> (string \<times> string) list option" where
  "te_get_named_args e =
     (case te_extra_data e of
        None \<Rightarrow> None
      | Some (_, x) \<Rightarrow>
          (case te_metadata e of
             None \<Rightarrow> None
           | Some m \<Rightarrow> if mm_has_named_args m then Some (ed_named_args x) else None))"

definition te_mdc :: "transit_event \<Rightarrow> string" where
  "te_mdc e = (case te_extra_data e of Some (_, x) \<Rightarrow> ed_mdc x | None \<Rightarrow> '''')"

definition te_ensure_extra_data :: "nat \<Rightarrow> transit_event \<Rightarrow> transit_event" where
  "te_ensure_extra_data address e =
     (case te_extra_data e of Some _ \<Rightarrow> e | None \<Rightarrow> e\<lparr>te_extra_data := Some (address, ed_default)\<rparr>)"

definition te_set_flush_flag :: "nat option \<Rightarrow> transit_event \<Rightarrow> transit_event" where
  "te_set_flush_flag flag e = e\<lparr>te_event_payload := FlushFlag flag\<rparr>"

definition te_flush_flag :: "transit_event \<Rightarrow> nat option" where
  "te_flush_flag e = (case te_event_payload e of FlushFlag f \<Rightarrow> f | _ \<Rightarrow> None)"

definition te_set_metric_value :: "u64 \<Rightarrow> transit_event \<Rightarrow> transit_event" where
  "te_set_metric_value v e = e\<lparr>te_event_payload := MetricValue v\<rparr>"

definition te_reset_payload :: "transit_event \<Rightarrow> transit_event" where
  "te_reset_payload e = e\<lparr>te_event_payload := Monostate\<rparr>"

definition te_has_metric_value :: "transit_event \<Rightarrow> bool" where
  "te_has_metric_value e \<longleftrightarrow> (\<exists>v. te_event_payload e = MetricValue v)"

text \<open>
  A live event: a metadata pointer into extra data points into the event's own, exactly when
  that one holds runtime metadata.
\<close>

definition te_wf :: "transit_event \<Rightarrow> bool" where
  "te_wf e \<longleftrightarrow>
     (\<forall>a. te_macro_metadata e = RuntimeMetadataOf a \<longrightarrow> (\<exists>x. te_extra_data e = Some (a, x)
        \<and> rm_has_runtime_metadata (ed_runtime_metadata x)))
     \<and> (\<forall>a x. te_extra_data e = Some (a, x) \<longrightarrow> rm_wf (ed_runtime_metadata x)
        \<and> (rm_has_runtime_metadata (ed_runtime_metadata x) \<longrightarrow> te_macro_metadata e = RuntimeMetadataOf a))"

text \<open>What a reader of the event sees.\<close>

definition te_view where
  "te_view e = (te_timestamp e, te_metadata e, te_logger_base e, te_formatted_msg e, te_get_named_args e,
     te_mdc e, te_event_payload e)"

lemma te_repoint_wf: "te_wf e \<Longrightarrow> te_repoint e = e"
  by (cases e) (auto simp: te_repoint_def te_wf_def split: option.splits)

lemma move_construct_wf: "te_wf e \<Longrightarrow> fst (te_move_construct e) = e"
  by (cases e) (auto simp: te_move_construct_def te_repoint_wf)

lemma move_assign_wf:
  assumes "te_wf e"
  shows "fst (te_move_assign False this e) = e"
proof -
  have "fst (te_move_assign False this e) = te_repoint e"
    by (cases e; cases this) (simp add: te_move_assign_def)
  with te_repoint_wf [OF assms] show ?thesis by simp
qed

lemma copy_to_fields:
  assumes "te_extra_data e = Some (a, x)"
  defines "x' \<equiv> x\<lparr>ed_runtime_metadata := rm_copy (ed_runtime_metadata x)\<rparr>"
  shows "te_extra_data (te_copy_to address e d) = Some (address, x')"
    "te_macro_metadata (te_copy_to address e d) =
       (if rm_has_runtime_metadata (ed_runtime_metadata x) then RuntimeMetadataOf address else te_macro_metadata e)"
    "te_timestamp (te_copy_to address e d) = te_timestamp e"
    "te_logger_base (te_copy_to address e d) = te_logger_base e"
    "te_formatted_msg (te_copy_to address e d) = te_formatted_msg e"
    "te_event_payload (te_copy_to address e d) = te_event_payload e"
  using assms by (simp_all add: te_copy_to_def Let_def rm_copy_def)

lemma te_metadata_static:
  assumes "\<forall>a. te_macro_metadata e \<noteq> RuntimeMetadataOf a" "te_macro_metadata e' = te_macro_metadata e"
  shows "te_metadata e' = te_metadata e"
  using assms by (cases "te_macro_metadata e") (simp_all add: te_metadata_def)

lemma copy_to_view:
  assumes "te_wf e" "te_extra_data d = None"
  shows "te_wf (te_copy_to address e d)" "te_view (te_copy_to address e d) = te_view e"
proof -
  have "te_wf (te_copy_to address e d) \<and> te_view (te_copy_to address e d) = te_view e"
  proof (cases "te_extra_data e")
    case None
    then have static: "\<forall>a. te_macro_metadata e \<noteq> RuntimeMetadataOf a" using assms(1) by (auto simp: te_wf_def)
    let ?e = "te_copy_to address e d"
    have f: "te_extra_data ?e = None" "te_macro_metadata ?e = te_macro_metadata e"
      "te_timestamp ?e = te_timestamp e" "te_logger_base ?e = te_logger_base e"
      "te_formatted_msg ?e = te_formatted_msg e" "te_event_payload ?e = te_event_payload e"
      using None assms(2) by (simp_all add: te_copy_to_def)
    from te_metadata_static [OF static f(2)] f None static show ?thesis
      by (simp add: te_wf_def te_view_def te_get_named_args_def te_mdc_def)
  next
    case (Some p)
    obtain a x where p: "te_extra_data e = Some (a, x)" using Some by (cases p) auto
    let ?r = "ed_runtime_metadata x" and ?e = "te_copy_to address e d"
    note f = copy_to_fields [OF p, of address d]
    have wf: "rm_wf ?r" "rm_has_runtime_metadata ?r \<longleftrightarrow> te_macro_metadata e = RuntimeMetadataOf a"
      "\<forall>b. te_macro_metadata e = RuntimeMetadataOf b \<longrightarrow> b = a"
      using assms(1) p by (auto simp: te_wf_def)
    have has: "rm_has_runtime_metadata (rm_copy ?r) = rm_has_runtime_metadata ?r" by (simp add: rm_copy_def)
    have "te_wf ?e \<and> te_metadata ?e = te_metadata e"
    proof (cases "rm_has_runtime_metadata ?r")
      case True
      then have "rm_copy ?r = ?r" using rm_copy_same wf(1) by blast
      with p True wf(1,2) f show ?thesis by (simp add: te_wf_def te_metadata_def)
    next
      case False
      then have static: "\<forall>b. te_macro_metadata e \<noteq> RuntimeMetadataOf b" using wf by auto
      have mm: "te_macro_metadata ?e = te_macro_metadata e" using f(2) False by simp
      have "te_metadata ?e = te_metadata e" by (rule te_metadata_static [OF static mm])
      moreover have "te_wf ?e" using static mm f(1) has False rm_copy_wf [OF wf(1)] by (simp add: te_wf_def)
      ultimately show ?thesis by blast
    qed
    then have w: "te_wf ?e" and m: "te_metadata ?e = te_metadata e" by blast+
    have "te_view ?e = te_view e"
      unfolding te_view_def te_get_named_args_def te_mdc_def f(1,3-6) p m by (simp split: option.split)
    with w show ?thesis by blast
  qed
  then show "te_wf (te_copy_to address e d)" "te_view (te_copy_to address e d) = te_view e" by auto
qed

subsection \<open>Properties\<close>

text \<open>
  C7. Reusing the runtime metadata of a pooled event is invisible: \<^verbatim>\<open>set\<close>, which skips the work
  when it recognises the same statement, leaves exactly what building it from scratch leaves
  (up to the line number it only uses for that comparison), for every statement but one with
  an empty path and a nonzero line; and it keeps the metadata consistent with its strings.
\<close>

theorem runtime_metadata_reuse:
  assumes "rm_wf rm" "\<not> (file_path = Some '''' \<and> line \<noteq> 0)"
  shows "(rm_set file_path line func in_tags in_fmt level rm)\<lparr>rm_line_number := line\<rparr>
      = rm_rebuild file_path line func in_tags in_fmt level rm_default
    \<and> rm_wf (rm_set file_path line func in_tags in_fmt level rm)"
  using rm_set_reuses_same [OF assms] rm_set_wf [OF assms(1)] by (simp add: rm_rebuild_eq)

text \<open>
  C8. Moving and copying an event keeps what is read from it, and its metadata pointer never
  dangles: the move constructor and the move assignment hand over the event itself, and
  \<^verbatim>\<open>copy_to\<close> into a fresh event gives an event with the same timestamp, metadata, logger,
  message, named arguments, MDC and payload, whose pointer is into its own copy.
\<close>

theorem events_survive_moves:
  assumes "te_wf e" "te_extra_data d = None"
  shows "fst (te_move_construct e) = e \<and> fst (te_move_assign False this e) = e
    \<and> te_wf (te_copy_to address e d) \<and> te_view (te_copy_to address e d) = te_view e"
  using move_construct_wf move_assign_wf copy_to_view assms by blast

theorem runtime_metadata_reuse_witness:
  "rm_source_location (rm_set (Some ''a.cpp'') 7 None None (Some ''m'') Info rm_default) = location_text (Some ''a.cpp'') 7"
proof -
  have "\<not> (Some ''a.cpp'' = Some '''' \<and> (7 :: u32) \<noteq> 0)" by simp
  from runtime_metadata_reuse [OF rm_default_wf this, of None None "Some ''m''" Info]
  have "rm_source_location ((rm_set (Some ''a.cpp'') 7 None None (Some ''m'') Info rm_default)\<lparr>rm_line_number := 7\<rparr>)
    = location_text (Some ''a.cpp'') 7" by (simp add: rm_rebuild_eq)
  then show ?thesis by simp
qed

definition example_runtime_event :: transit_event where
  "example_runtime_event = te_default\<lparr>te_macro_metadata := RuntimeMetadataOf 16,
     te_extra_data := Some (16, ed_default\<lparr>ed_runtime_metadata :=
       rm_rebuild (Some ''a.cpp'') 7 None None (Some ''m'') Info rm_default\<rparr>)\<rparr>"

theorem events_survive_moves_witness:
  "te_macro_metadata (te_copy_to 32 example_runtime_event te_default) = RuntimeMetadataOf 32
    \<and> te_log_level (te_copy_to 32 example_runtime_event te_default) = Some Info"
proof -
  have wf: "te_wf example_runtime_event"
    using rm_rebuild_wf by (auto simp: te_wf_def example_runtime_event_def ed_default_def rm_rebuild_eq)
  have "te_extra_data te_default = None" by (simp add: te_default_def)
  from events_survive_moves [OF wf this, of _ 32]
  have "te_metadata (te_copy_to 32 example_runtime_event te_default) = te_metadata example_runtime_event"
    by (simp add: te_view_def)
  moreover have "te_metadata example_runtime_event =
      Some (rm_macro_metadata (rm_rebuild (Some ''a.cpp'') 7 None None (Some ''m'') Info rm_default))"
    by (simp add: te_metadata_def example_runtime_event_def)
  moreover have "te_macro_metadata (te_copy_to 32 example_runtime_event te_default) = RuntimeMetadataOf 32"
    by (simp add: te_copy_to_def Let_def example_runtime_event_def rm_copy_def rm_rebuild_eq)
  ultimately show ?thesis by (simp add: te_log_level_def rm_rebuild_eq mm_new_def)
qed

end
