(* ===== verification/Transit_Buffer.thy ===== *)
theory Transit_Buffer
  imports Common Math_Utilities Transit_Event
begin

text \<open>
  \<^verbatim>\<open>quill/backend/TransitEventBuffer.h\<close>: the growing ring of decoded events the backend keeps per
  thread. It is polymorphic in the element; \<open>fresh\<close> is a default-constructed element and
  \<open>moved\<close> what a move leaves behind in its source. Whether an allocation succeeds is an
  argument: \<^verbatim>\<open>_expand\<close> allocates twice, for the new storage and for the new tail slots. A vector of
  more than \<open>max_elements\<close> elements (\<^verbatim>\<open>PTRDIFF_MAX\<close> bytes over the 56 of a \<^verbatim>\<open>TransitEvent\<close>, rounded
  down to a power of two) is refused by \<^verbatim>\<open>std::vector\<close> itself.
\<close>

datatype allocation_outcome = AllocationOk | ReserveFails | ResizeFails

record 'e transit_buffer =
  tb_initial_capacity :: size_t
  tb_mask :: size_t
  tb_reader_pos :: size_t
  tb_writer_pos :: size_t
  tb_shrink_requested :: bool
  tb_storage :: "'e list"

definition max_elements :: size_t where
  "max_elements = 2 ^ 57"

definition tb_new :: "'e \<Rightarrow> size_t \<Rightarrow> quill_error + 'e transit_buffer" where
  "tb_new fresh initial_capacity =
     (let capacity = next_power_of_two initial_capacity
      in if capacity > max_elements then Inl (StdException ''length_error'')
         else Inr \<lparr>tb_initial_capacity = capacity, tb_mask = capacity - 1, tb_reader_pos = 0, tb_writer_pos = 0,
                   tb_shrink_requested = False, tb_storage = replicate (unat capacity) fresh\<rparr>)"

definition tb_slot :: "'e transit_buffer \<Rightarrow> size_t \<Rightarrow> nat" where
  "tb_slot q pos = unat (pos AND tb_mask q)"

definition tb_front :: "'e transit_buffer \<Rightarrow> 'e option" where
  "tb_front q = (if tb_reader_pos q = tb_writer_pos q then None else Some (tb_storage q ! tb_slot q (tb_reader_pos q)))"

definition tb_pop_front :: "'e transit_buffer \<Rightarrow> 'e transit_buffer" where
  "tb_pop_front q = q\<lparr>tb_reader_pos := tb_reader_pos q + 1\<rparr>"

definition tb_size :: "'e transit_buffer \<Rightarrow> size_t" where
  "tb_size q = tb_writer_pos q - tb_reader_pos q"

definition tb_capacity :: "'e transit_buffer \<Rightarrow> size_t" where
  "tb_capacity q = of_nat (length (tb_storage q))"

definition tb_empty :: "'e transit_buffer \<Rightarrow> bool" where
  "tb_empty q \<longleftrightarrow> tb_reader_pos q = tb_writer_pos q"

text \<open>The slots from the reader position on, as the loops of \<^verbatim>\<open>_expand\<close> visit them.\<close>

definition tb_slots :: "'e transit_buffer \<Rightarrow> nat list" where
  "tb_slots q = map (\<lambda>i. tb_slot q (tb_reader_pos q + of_nat i)) [0..<unat (tb_size q)]"

definition tb_events :: "'e transit_buffer \<Rightarrow> 'e list" where
  "tb_events q = map ((!) (tb_storage q)) (tb_slots q)"

text \<open>\<^verbatim>\<open>new_storage.emplace_back(std::move(_storage[...]))\<close>, in order.\<close>

fun move_out :: "('e \<Rightarrow> 'e) \<Rightarrow> nat list \<Rightarrow> 'e list \<Rightarrow> 'e list \<Rightarrow> 'e list \<times> 'e list" where
  "move_out moved [] storage new_storage = (storage, new_storage)"
| "move_out moved (i # slots) storage new_storage =
     move_out moved slots (storage[i := moved (storage ! i)]) (new_storage @ [storage ! i])"

text \<open>\<^verbatim>\<open>_storage[...] = std::move(new_storage[i])\<close>, in order.\<close>

fun move_back :: "nat list \<Rightarrow> 'e list \<Rightarrow> 'e list \<Rightarrow> 'e list" where
  "move_back (i # slots) (e # new_storage) storage = move_back slots new_storage (storage[i := e])"
| "move_back _ _ storage = storage"

definition tb_expand :: "allocation_outcome \<Rightarrow> 'e \<Rightarrow> ('e \<Rightarrow> 'e) \<Rightarrow> 'e transit_buffer
    \<Rightarrow> (quill_error + unit) \<times> 'e transit_buffer" where
  "tb_expand outcome fresh moved q =
     (let new_capacity = tb_capacity q * 2; current_size = tb_size q in
      if new_capacity > max_elements then (Inl (StdException ''length_error''), q)
      else if outcome = ReserveFails then (Inl BadAlloc, q)
      else case move_out moved (tb_slots q) (tb_storage q) [] of
        (storage, new_storage) \<Rightarrow>
          if outcome = ResizeFails
          then (Inl BadAlloc, q\<lparr>tb_storage := move_back (tb_slots q) new_storage storage\<rparr>)
          else (Inr (), q\<lparr>tb_storage := new_storage @ replicate (unat new_capacity - length new_storage) fresh,
                          tb_mask := new_capacity - 1, tb_writer_pos := current_size, tb_reader_pos := 0\<rparr>))"

definition tb_back :: "allocation_outcome \<Rightarrow> 'e \<Rightarrow> ('e \<Rightarrow> 'e) \<Rightarrow> 'e transit_buffer
    \<Rightarrow> (quill_error + nat) \<times> 'e transit_buffer" where
  "tb_back outcome fresh moved q =
     (if tb_capacity q = tb_size q
      then case tb_expand outcome fresh moved q of
             (Inl e, q') \<Rightarrow> (Inl e, q')
           | (Inr _, q') \<Rightarrow> (Inr (tb_slot q' (tb_writer_pos q')), q')
      else (Inr (tb_slot q (tb_writer_pos q)), q))"

definition tb_push_back :: "'e transit_buffer \<Rightarrow> 'e transit_buffer" where
  "tb_push_back q = q\<lparr>tb_writer_pos := tb_writer_pos q + 1\<rparr>"

definition tb_request_shrink :: "'e transit_buffer \<Rightarrow> 'e transit_buffer" where
  "tb_request_shrink q = q\<lparr>tb_shrink_requested := True\<rparr>"

definition tb_try_shrink :: "bool \<Rightarrow> 'e \<Rightarrow> 'e transit_buffer \<Rightarrow> (quill_error + unit) \<times> 'e transit_buffer" where
  "tb_try_shrink allocates fresh q =
     (if tb_shrink_requested q \<and> tb_empty q
      then if tb_capacity q > tb_initial_capacity q
           then if allocates
                then (Inr (), q\<lparr>tb_storage := replicate (unat (tb_initial_capacity q)) fresh,
                        tb_mask := tb_initial_capacity q - 1, tb_writer_pos := 0, tb_reader_pos := 0,
                        tb_shrink_requested := False\<rparr>)
                else (Inl BadAlloc, q)
           else (Inr (), q\<lparr>tb_shrink_requested := False\<rparr>)
      else (Inr (), q))"

text \<open>The move constructor: the new buffer and what it leaves.\<close>

definition tb_move_construct :: "'e transit_buffer \<Rightarrow> 'e transit_buffer \<times> 'e transit_buffer" where
  "tb_move_construct other =
     (\<lparr>tb_initial_capacity = tb_initial_capacity other, tb_mask = tb_mask other,
       tb_reader_pos = tb_reader_pos other, tb_writer_pos = tb_writer_pos other,
       tb_shrink_requested = tb_shrink_requested other, tb_storage = tb_storage other\<rparr>,
      other\<lparr>tb_mask := 0, tb_reader_pos := 0, tb_writer_pos := 0, tb_shrink_requested := False, tb_storage := []\<rparr>)"

definition tb_move_assign :: "bool \<Rightarrow> 'e transit_buffer \<Rightarrow> 'e transit_buffer \<Rightarrow> 'e transit_buffer \<times> 'e transit_buffer" where
  "tb_move_assign same this other =
     (if same then (this, this)
      else (this\<lparr>tb_initial_capacity := tb_initial_capacity other, tb_storage := tb_storage other,
              tb_mask := tb_mask other, tb_reader_pos := tb_reader_pos other, tb_writer_pos := tb_writer_pos other,
              tb_shrink_requested := tb_shrink_requested other\<rparr>,
            other\<lparr>tb_mask := 0, tb_reader_pos := 0, tb_writer_pos := 0, tb_shrink_requested := False, tb_storage := []\<rparr>))"

subsection \<open>The invariant\<close>

definition tb_inv :: "'e transit_buffer \<Rightarrow> bool" where
  "tb_inv q \<longleftrightarrow> (\<exists>k \<le> 57. length (tb_storage q) = 2 ^ k) \<and> tb_mask q = of_nat (length (tb_storage q)) - 1
     \<and> unat (tb_size q) \<le> length (tb_storage q)
     \<and> (\<exists>k \<le> 57. unat (tb_initial_capacity q) = 2 ^ k)"

lemma capacity_unat:
  assumes "tb_inv q"
  shows "unat (tb_capacity q) = length (tb_storage q)"
proof -
  obtain k where k: "k \<le> 57" "length (tb_storage q) = 2 ^ k" using assms by (auto simp: tb_inv_def)
  then have "(2::nat) ^ k < 2 ^ LENGTH(64)" by (intro power_strict_increasing) simp_all
  with k show ?thesis by (simp only: tb_capacity_def unat_of_nat_small)
qed

lemma slot_mod:
  assumes "tb_inv q"
  shows "tb_slot q (pos + of_nat i) = (unat pos + i) mod length (tb_storage q)"
proof -
  obtain k where k: "k \<le> 57" "length (tb_storage q) = 2 ^ k" using assms by (auto simp: tb_inv_def)
  have c: "unat (of_nat (length (tb_storage q)) :: size_t) = 2 ^ k"
    using capacity_unat [OF assms] k by (simp add: tb_capacity_def)
  have "tb_slot q (pos + of_nat i) = unat (pos + of_nat i) mod 2 ^ k"
    using assms and_pow2_minus_1 [OF c] c by (simp add: tb_slot_def tb_inv_def)
  also have "\<dots> = (unat pos + i) mod 2 ^ k"
    using unat_mod_add [OF c, of pos i] k by simp
  finally show ?thesis using k by simp
qed

lemma slot_less: "tb_inv q \<Longrightarrow> tb_slot q (pos + of_nat i) < length (tb_storage q)"
  by (simp only: slot_mod) (auto simp: tb_inv_def)

lemma slot_inj:
  assumes "tb_inv q" "i < length (tb_storage q)" "j < length (tb_storage q)"
    "tb_slot q (pos + of_nat i) = tb_slot q (pos + of_nat j)"
  shows "i = j"
proof -
  let ?n = "length (tb_storage q)"
  have "(unat pos + i) mod ?n = (unat pos + j) mod ?n" using assms(1,4) by (simp only: slot_mod)
  then show ?thesis using assms(2,3) by (rule mod_offset_inj)
qed

lemma slots_distinct:
  assumes "tb_inv q"
  shows "distinct (tb_slots q)" "\<forall>i \<in> set (tb_slots q). i < length (tb_storage q)"
proof -
  have "unat (tb_size q) \<le> length (tb_storage q)" using assms by (simp add: tb_inv_def)
  then show "distinct (tb_slots q)"
    using slot_inj [OF assms] by (auto simp: tb_slots_def distinct_map inj_on_def)
  show "\<forall>i \<in> set (tb_slots q). i < length (tb_storage q)"
    using slot_less [OF assms] by (auto simp: tb_slots_def)
qed

lemma move_out_eq:
  assumes "distinct slots" "\<forall>i \<in> set slots. i < length storage"
  shows "snd (move_out moved slots storage acc) = acc @ map ((!) storage) slots"
    "length (fst (move_out moved slots storage acc)) = length storage"
    "\<And>j. j \<notin> set slots \<Longrightarrow> fst (move_out moved slots storage acc) ! j = storage ! j"
  using assms
proof (induction slots arbitrary: storage acc)
  case (Cons i slots)
  {
    case 1
    with Cons(1) [of "storage[i := moved (storage ! i)]" "acc @ [storage ! i]"] show ?case
      by (fastforce intro!: map_cong nth_list_update_neq)
  next
    case 2
    with Cons(2) show ?case by simp
  next
    case 3
    with Cons(3) show ?case by simp
  }
qed simp_all

lemma move_back_eq:
  assumes "distinct slots" "\<forall>i \<in> set slots. i < length storage" "length storage' = length storage"
    "\<And>j. j \<notin> set slots \<Longrightarrow> storage' ! j = storage ! j"
  shows "move_back slots (map ((!) storage) slots) storage' = storage"
  using assms
proof (induction slots arbitrary: storage')
  case Nil
  then show ?case by (auto intro: nth_equalityI)
next
  case (Cons i slots)
  have "(storage'[i := storage ! i]) ! j = storage ! j" if "j \<notin> set slots" for j
    using that Cons.prems by (cases "j = i") auto
  with Cons show ?case by simp
qed

text \<open>A failed expansion restores every event; a successful one keeps their order.\<close>

lemma expand_failed:
  assumes "tb_inv q" "fst (tb_expand outcome fresh moved q) = Inl e"
  shows "snd (tb_expand outcome fresh moved q) = q"
proof (cases "outcome = ReserveFails \<or> tb_capacity q * 2 > max_elements \<or> outcome = AllocationOk")
  case True
  with assms(2) show ?thesis by (auto simp: tb_expand_def Let_def split: prod.splits if_splits)
next
  case False
  then have o: "outcome = ResizeFails" by (cases outcome) auto
  obtain storage new where m: "move_out moved (tb_slots q) (tb_storage q) [] = (storage, new)" by fastforce
  note d = slots_distinct [OF assms(1)]
  have "new = map ((!) (tb_storage q)) (tb_slots q)" "length storage = length (tb_storage q)"
    "\<And>j. j \<notin> set (tb_slots q) \<Longrightarrow> storage ! j = tb_storage q ! j"
    using move_out_eq [OF d, where moved = moved and acc = "[]"] m by simp_all
  with move_back_eq [OF d] have "move_back (tb_slots q) new storage = tb_storage q" by simp
  with o m show ?thesis by (simp add: tb_expand_def Let_def)
qed

lemma expand_done:
  assumes inv: "tb_inv q" and full: "tb_capacity q = tb_size q" and ok: "tb_expand outcome fresh moved q = (Inr u, q')"
  shows "tb_inv q'" "tb_events q' = tb_events q" "unat (tb_size q') < length (tb_storage q')"
    "length (tb_storage q') = 2 * length (tb_storage q)"
proof -
  let ?n = "length (tb_storage q)"
  obtain k where k: "k \<le> 57" "?n = 2 ^ k" using inv by (auto simp: tb_inv_def)
  note d = slots_distinct [OF inv]
  have size: "unat (tb_size q) = ?n" using full capacity_unat [OF inv] by simp
  have limit: "\<not> tb_capacity q * 2 > max_elements" using ok by (auto simp: tb_expand_def)
  have "(2::nat) ^ k \<le> 2 ^ 57" using k(1) by (rule power_increasing) simp
  with k have small: "?n \<le> 2 ^ 57" by simp
  have dbl: "unat (tb_capacity q * 2) = 2 * ?n"
    using capacity_unat [OF inv] small by (simp add: unat_word_ariths)
  have "2 * ?n \<le> 2 ^ 57" using limit dbl by (simp add: max_elements_def word_less_nat_alt not_less)
  then have "(2::nat) ^ Suc k \<le> 2 ^ 57" using k by simp
  then have k': "Suc k \<le> 57" by (rule power_le_imp_le_exp [rotated]) simp
  obtain storage new where m: "move_out moved (tb_slots q) (tb_storage q) [] = (storage, new)" by fastforce
  then have new: "new = tb_events q"
    using move_out_eq(1) [OF d, where moved = moved and acc = "[]"] by (simp add: tb_events_def)
  have len: "length (tb_events q) = ?n" using size by (simp add: tb_events_def tb_slots_def)
  have q': "q' = q\<lparr>tb_storage := tb_events q @ replicate ?n fresh,
      tb_mask := tb_capacity q * 2 - 1, tb_writer_pos := tb_size q, tb_reader_pos := 0\<rparr>"
    using ok limit m new dbl len by (auto simp: tb_expand_def Let_def split: if_splits)
  show len': "length (tb_storage q') = 2 * ?n" using q' len by simp
  have "of_nat (length (tb_storage q')) = (tb_capacity q * 2 :: size_t)"
    unfolding len' by (simp add: tb_capacity_def)
  with q' k k' inv size len' show inv': "tb_inv q'"
    by (auto simp: tb_inv_def tb_size_def intro: exI [of _ "Suc k"])
  show "unat (tb_size q') < length (tb_storage q')" using q' size len' k by (simp add: tb_size_def)
  have "tb_slot q' (0 + of_nat i) = i" if "i < ?n" for i
    using slot_mod [OF inv', of 0 i] that len' by simp
  then show "tb_events q' = tb_events q"
    using q' size len by (intro nth_equalityI) (auto simp: tb_events_def tb_slots_def tb_size_def nth_append)
qed

subsection \<open>The buffer is a queue\<close>

text \<open>
  Storing an event is \<^verbatim>\<open>back\<close>, writing the slot, \<^verbatim>\<open>push_back\<close>; consuming one is \<^verbatim>\<open>front\<close> and
  \<^verbatim>\<open>pop_front\<close>. Requesting a shrink, shrinking and a call of \<^verbatim>\<open>back\<close> that is not followed by a
  push are the housekeeping steps.
\<close>

definition tb_put :: "allocation_outcome \<Rightarrow> 'e \<Rightarrow> ('e \<Rightarrow> 'e) \<Rightarrow> 'e \<Rightarrow> 'e transit_buffer \<Rightarrow> bool \<times> 'e transit_buffer" where
  "tb_put outcome fresh moved e q =
     (case tb_back outcome fresh moved q of
        (Inl _, q') \<Rightarrow> (False, q')
      | (Inr i, q') \<Rightarrow> (True, tb_push_back (q'\<lparr>tb_storage := (tb_storage q')[i := e]\<rparr>)))"

definition tb_get :: "'e transit_buffer \<Rightarrow> 'e option \<times> 'e transit_buffer" where
  "tb_get q = (case tb_front q of None \<Rightarrow> (None, q) | Some e \<Rightarrow> (Some e, tb_pop_front q))"

definition tb_tau :: "'e transit_buffer \<Rightarrow> 'e transit_buffer \<Rightarrow> bool" where
  "tb_tau q q' \<longleftrightarrow> q' = tb_request_shrink q
     \<or> (\<exists>allocates fresh. q' = snd (tb_try_shrink allocates fresh q))
     \<or> (\<exists>outcome fresh moved. q' = snd (tb_back outcome fresh moved q))"

definition tb_rel :: "'e transit_buffer \<Rightarrow> 'e list \<Rightarrow> bool" where
  "tb_rel q es \<longleftrightarrow> tb_inv q \<and> tb_events q = es"

lemma length_events: "length (tb_events q) = unat (tb_size q)"
  by (simp add: tb_events_def tb_slots_def)

lemma push_events:
  assumes inv: "tb_inv q" and room: "unat (tb_size q) < length (tb_storage q)"
  shows "tb_rel (tb_push_back (q\<lparr>tb_storage := (tb_storage q)[tb_slot q (tb_writer_pos q) := e]\<rparr>)) (tb_events q @ [e])"
    (is "tb_rel ?q' _")
proof -
  let ?w = "tb_slot q (tb_writer_pos q)" and ?n = "unat (tb_size q)"
  have w: "tb_writer_pos q = tb_reader_pos q + of_nat ?n" by (simp add: tb_size_def)
  have len: "length (tb_storage ?q') = length (tb_storage q)" by (simp add: tb_push_back_def)
  obtain k where k: "k \<le> 57" "length (tb_storage q) = 2 ^ k" using inv by (auto simp: tb_inv_def)
  have "(2::nat) ^ k \<le> 2 ^ 57" using k(1) by (rule power_increasing) simp
  then have "length (tb_storage q) \<le> 2 ^ 57" using k by simp
  then have b: "?n + 1 < 2 ^ LENGTH(64)" using room by simp
  have size: "unat (tb_size ?q') = ?n + 1"
    using unat_add_base [OF b [unfolded tb_size_def]] by (simp add: tb_size_def tb_push_back_def)
  have slot: "tb_slot ?q' pos = tb_slot q pos" for pos by (simp add: tb_slot_def tb_push_back_def)
  have inv': "tb_inv ?q'"
    using inv size room len by (auto simp: tb_inv_def tb_push_back_def)
  have slots: "tb_slots ?q' = tb_slots q @ [?w]"
  proof -
    have "tb_slots ?q' = map (\<lambda>i. tb_slot q (tb_reader_pos q + of_nat i)) [0..<Suc ?n]"
      unfolding tb_slots_def size slot by (simp add: tb_push_back_def)
    then show ?thesis using w by (simp add: tb_slots_def)
  qed
  have fresh: "?w \<notin> set (tb_slots q)"
  proof
    assume "?w \<in> set (tb_slots q)"
    then obtain i where "i < ?n" "tb_slot q (tb_reader_pos q + of_nat ?n) = tb_slot q (tb_reader_pos q + of_nat i)"
      using w by (auto simp: tb_slots_def)
    with slot_inj [OF inv room, of i] room show False by auto
  qed
  have w_less: "?w < length (tb_storage q)" using slot_less [OF inv] unfolding w .
  have "tb_events ?q' = map ((!) ((tb_storage q)[?w := e])) (tb_slots q @ [?w])"
    unfolding tb_events_def slots by (simp add: tb_push_back_def)
  also have "\<dots> = tb_events q @ [e]"
    using fresh w_less by (auto simp: tb_events_def intro!: map_cong nth_list_update_neq)
  finally show ?thesis using inv' by (simp add: tb_rel_def)
qed

lemma back_rel:
  assumes inv: "tb_inv q" and b: "tb_back outcome fresh moved q = (r, q')"
  shows "tb_rel q' (tb_events q)"
    "r = Inr i \<Longrightarrow> i = tb_slot q' (tb_writer_pos q') \<and> unat (tb_size q') < length (tb_storage q')"
proof -
  have "tb_rel q' (tb_events q) \<and> (r = Inr i \<longrightarrow>
      i = tb_slot q' (tb_writer_pos q') \<and> unat (tb_size q') < length (tb_storage q'))"
  proof (cases "tb_capacity q = tb_size q")
    case False
    then have "unat (tb_size q) \<noteq> length (tb_storage q)"
      using capacity_unat [OF inv] by (metis word_unat_eq_iff)
    with inv b False show ?thesis by (auto simp: tb_back_def tb_rel_def tb_inv_def)
  next
    case True
    obtain r2 q2 where x: "tb_expand outcome fresh moved q = (r2, q2)" by fastforce
    show ?thesis
    proof (cases r2)
      case (Inl e)
      with expand_failed [OF inv, of outcome fresh moved e] x b True inv show ?thesis
        by (auto simp: tb_back_def tb_rel_def)
    next
      case (Inr u)
      with expand_done [OF inv True, of outcome fresh moved u q2] x b True show ?thesis
        by (auto simp: tb_back_def tb_rel_def)
    qed
  qed
  then show "tb_rel q' (tb_events q)"
    "r = Inr i \<Longrightarrow> i = tb_slot q' (tb_writer_pos q') \<and> unat (tb_size q') < length (tb_storage q')" by auto
qed

lemma pop_rel:
  assumes inv: "tb_inv q" and ne: "\<not> tb_empty q"
  shows "\<exists>e es. tb_events q = e # es \<and> tb_front q = Some e \<and> tb_rel (tb_pop_front q) es"
proof -
  let ?q' = "tb_pop_front q" and ?n = "unat (tb_size q)"
  have pos: "0 < ?n" using ne by (auto simp: tb_size_def tb_empty_def unat_gt_0)
  have size: "unat (tb_size ?q') = ?n - 1"
    using unat_diff_advance [of 1 "tb_writer_pos q" "tb_reader_pos q"] pos by (simp add: tb_size_def tb_pop_front_def)
  have inv': "tb_inv ?q'" using inv size by (auto simp: tb_inv_def tb_pop_front_def)
  have "tb_slots ?q' = map (\<lambda>i. tb_slot q (tb_reader_pos q + of_nat (Suc i))) [0..<?n - 1]"
    unfolding tb_slots_def size by (simp add: tb_slot_def tb_pop_front_def ac_simps)
  moreover have "tb_slots q = tb_slot q (tb_reader_pos q) # map (\<lambda>i. tb_slot q (tb_reader_pos q + of_nat i)) [1..<?n]"
    using pos by (simp add: tb_slots_def upt_conv_Cons)
  moreover have "[1..<?n] = map Suc [0..<?n - 1]" using pos by (simp add: map_Suc_upt)
  ultimately have "tb_slots q = tb_slot q (tb_reader_pos q) # tb_slots ?q'" by (simp add: comp_def)
  then have "tb_events q = tb_storage q ! tb_slot q (tb_reader_pos q) # tb_events ?q'"
    by (simp add: tb_events_def tb_pop_front_def)
  with inv' ne show ?thesis by (simp add: tb_front_def tb_empty_def tb_rel_def)
qed

lemma empty_events: "tb_empty q \<longleftrightarrow> tb_events q = []"
proof -
  have "tb_events q = [] \<longleftrightarrow> unat (tb_size q) = 0" using length_events [of q] by (cases "tb_events q") auto
  also have "\<dots> \<longleftrightarrow> tb_writer_pos q - tb_reader_pos q = 0" by (simp only: tb_size_def unat_eq_zero)
  finally show ?thesis by (auto simp: tb_empty_def)
qed

lemma tb_get_rel:
  assumes "tb_rel q es" "tb_get q = (r, q')"
  shows "case r of None \<Rightarrow> es = [] \<and> q' = q | Some e \<Rightarrow> \<exists>es'. es = e # es' \<and> tb_rel q' es'"
proof (cases "tb_empty q")
  case True
  with assms empty_events [of q] show ?thesis by (auto simp: tb_rel_def tb_get_def tb_front_def tb_empty_def)
next
  case False
  with assms(1) pop_rel [of q] obtain e es' where "tb_events q = e # es'" "tb_front q = Some e"
      "tb_rel (tb_pop_front q) es'" by (auto simp: tb_rel_def)
  moreover from this assms(2) have "r = Some e" "q' = tb_pop_front q" by (simp_all add: tb_get_def)
  ultimately show ?thesis using assms(1) by (simp add: tb_rel_def)
qed

lemma try_shrink_rel: "tb_rel q es \<Longrightarrow> tb_rel (snd (tb_try_shrink allocates fresh q)) es"
proof -
  assume rel: "tb_rel q es"
  show ?thesis
  proof (cases "tb_empty q \<and> tb_shrink_requested q \<and> tb_capacity q > tb_initial_capacity q \<and> allocates")
    case True
    with rel show ?thesis
      using empty_events [of q] empty_events [of "snd (tb_try_shrink allocates fresh q)"]
      by (auto simp: tb_rel_def tb_try_shrink_def tb_inv_def tb_size_def tb_empty_def)
  next
    case False
    with rel show ?thesis
      by (auto simp: tb_rel_def tb_try_shrink_def tb_inv_def tb_size_def tb_events_def tb_slots_def tb_slot_def)
  qed
qed

interpretation tbf: exact_fifo_queue
  tb_rel "\<lambda>_. True" "tb_put outcome fresh moved" tb_get tb_tau for outcome fresh moved
proof
  fix q :: "'a transit_buffer" and es e
  assume rel: "tb_rel q es"
  obtain r q' where b: "tb_back outcome fresh moved q = (r, q')" by fastforce
  show "tb_rel (snd (tb_put outcome fresh moved e q)) (if fst (tb_put outcome fresh moved e q) then es @ [e] else es)"
  proof (cases r)
    case (Inr i)
    with back_rel(1) [OF _ b] back_rel(2) [OF _ b, of i] push_events [of q' e] rel b show ?thesis
      by (auto simp: tb_put_def tb_rel_def)
  next
    case (Inl x)
    with back_rel(1) [OF _ b] rel b show ?thesis by (auto simp: tb_put_def tb_rel_def)
  qed
next
  fix q q' :: "'a transit_buffer" and es e
  assume "tb_rel q es" "tb_get q = (Some e, q')"
  from tb_get_rel [OF this] show "\<exists>es'. es = e # es' \<and> tb_rel q' es'" by simp
next
  fix q q' :: "'a transit_buffer" and es
  assume "tb_rel q es" "tb_get q = (None, q')"
  with tb_get_rel [OF this] show "tb_rel q' es" by simp
next
  fix q q' :: "'a transit_buffer" and es
  assume rel: "tb_rel q es" and "tb_tau q q'"
  moreover have "tb_rel (tb_request_shrink q) es"
    using rel by (auto simp: tb_rel_def tb_request_shrink_def tb_inv_def tb_size_def tb_events_def tb_slots_def tb_slot_def)
  moreover have "tb_rel (snd (tb_back out2 fr2 mv2 q)) es" for out2 and fr2 :: 'a and mv2
    using back_rel(1) [of q] rel by (cases "tb_back out2 fr2 mv2 q") (auto simp: tb_rel_def)
  ultimately show "tb_rel q' es" using try_shrink_rel by (auto simp: tb_tau_def)
next
  fix q :: "'a transit_buffer" and e es
  assume "tb_rel q (e # es)"
  moreover obtain r q' where "tb_get q = (r, q')" by fastforce
  ultimately show "fst (tb_get q) \<noteq> None" using tb_get_rel [of q "e # es" r q'] by (cases r) auto
qed

lemma tb_new_rel:
  assumes "tb_new fresh c = Inr q"
  shows "tb_rel q []"
proof -
  let ?c = "next_power_of_two c"
  have c: "\<not> ?c > max_elements" and q: "q = \<lparr>tb_initial_capacity = ?c, tb_mask = ?c - 1, tb_reader_pos = 0,
      tb_writer_pos = 0, tb_shrink_requested = False, tb_storage = replicate (unat ?c) fresh\<rparr>"
    using assms by (auto simp: tb_new_def Let_def split: if_splits)
  obtain k where k: "unat ?c = 2 ^ k" using next_power_of_two_is_power [of c] by (auto simp: is_power_of_two_iff)
  have "(2::nat) ^ k \<le> 2 ^ 57" using c k by (simp add: max_elements_def word_less_nat_alt not_less)
  then have "k \<le> 57" by (rule power_le_imp_le_exp [rotated]) simp
  moreover have f: "length (tb_storage q) = unat ?c" "tb_initial_capacity q = ?c"
    "tb_mask q = ?c - 1" "tb_size q = 0" using q by (simp_all add: tb_size_def)
  moreover have "of_nat (length (tb_storage q)) = ?c" unfolding f(1) by simp
  ultimately have "tb_inv q" using k by (auto simp only: tb_inv_def f(2-4)) simp_all
  moreover have "tb_events q = []" using f(4) length_events [of q] by simp
  ultimately show ?thesis by (simp add: tb_rel_def)
qed

subsection \<open>Properties\<close>

text \<open>
  C9. The event buffer is an exact queue: in every interleaving of pushes, pops, shrink requests,
  shrinks and expansions, with every allocation allowed to fail, the events come out in the
  order they were pushed, none lost or duplicated, across wrap-around of the ring and its
  growth; and when \<^verbatim>\<open>front\<close> answers null every pushed event has been consumed.
\<close>

theorem transit_buffer_fifo:
  assumes "tb_new fresh capacity = Inr q0"
    and "fifo_run (\<lambda>_. True) (tb_put outcome fresh' moved) tb_get tb_tau q0 sent recv q"
  shows "sent = recv @ tb_events q \<and> (tb_front q = None \<longrightarrow> recv = sent)"
proof -
  obtain held where h: "sent = recv @ held" "tb_rel q held"
    using tbf.run_conserves [OF assms(2) tb_new_rel [OF assms(1)]] by blast
  have "recv = sent" if "tb_front q = None"
  proof -
    have "fst (tb_get q) = None" using that by (simp add: tb_get_def)
    from tbf.run_empty_means_all_received [OF assms(2) tb_new_rel [OF assms(1)] this] show ?thesis .
  qed
  with h show ?thesis by (simp add: tb_rel_def)
qed

text \<open>
  Making room is atomic with respect to allocation failure: if \<^verbatim>\<open>back\<close> throws, the buffer is
  exactly what it was, every event moved back to its slot; if it succeeds, the returned slot
  is free (it holds none of the buffered events) and the buffered events are unchanged.
\<close>

theorem back_is_atomic:
  assumes "tb_inv q" "tb_back outcome fresh moved q = (r, q')"
  shows "case r of
      Inl _ \<Rightarrow> q' = q
    | Inr i \<Rightarrow> tb_events q' = tb_events q \<and> i < length (tb_storage q') \<and> i \<notin> set (tb_slots q')"
proof (cases r)
  case (Inl e)
  then show ?thesis
    using assms expand_failed [OF assms(1), of outcome fresh moved e]
    by (cases "tb_expand outcome fresh moved q") (auto simp: tb_back_def split: if_splits sum.splits)
next
  case (Inr i)
  note b = back_rel(1) [OF assms] back_rel(2) [OF assms Inr]
  then have inv: "tb_inv q'" and room: "unat (tb_size q') < length (tb_storage q')" by (auto simp: tb_rel_def)
  have w: "i = tb_slot q' (tb_reader_pos q' + of_nat (unat (tb_size q')))" using b(2) by (simp add: tb_size_def)
  have "i < length (tb_storage q')" using slot_less [OF inv] unfolding w .
  moreover have "i \<notin> set (tb_slots q')"
  proof
    assume "i \<in> set (tb_slots q')"
    then obtain j where j: "j < unat (tb_size q')" "i = tb_slot q' (tb_reader_pos q' + of_nat j)"
      by (auto simp: tb_slots_def)
    with room have "j < length (tb_storage q')" by simp
    from slot_inj [OF inv room this] j w show False by simp
  qed
  ultimately show ?thesis using Inr b(1) by (simp add: tb_rel_def)
qed

definition example_buffer :: "nat transit_buffer" where
  "example_buffer = \<lparr>tb_initial_capacity = 1, tb_mask = 0, tb_reader_pos = 0, tb_writer_pos = 0,
     tb_shrink_requested = False, tb_storage = [0]\<rparr>"

definition example_buffer1 :: "nat transit_buffer" where
  "example_buffer1 = snd (tb_put AllocationOk 0 (\<lambda>_. 0) 7 example_buffer)"

lemma example_buffer_facts:
  "tb_new 0 1 = Inr example_buffer" "fst (tb_put AllocationOk 0 (\<lambda>_. 0) 7 example_buffer)"
  "fst (tb_put AllocationOk 0 (\<lambda>_. 0) 8 example_buffer1)"
  "fst (tb_back ResizeFails 0 (\<lambda>_. 0) example_buffer1) = Inl BadAlloc"
  by code_simp+

theorem transit_buffer_fifo_witness:
  "tb_events (snd (tb_put AllocationOk 0 (\<lambda>_. 0) 8 example_buffer1)) = [7, 8]"
proof -
  let ?put = "tb_put AllocationOk (0::nat) (\<lambda>_. 0)"
  let ?run = "fifo_run (\<lambda>_. True) ?put tb_get tb_tau example_buffer"
  have "?run [] [] example_buffer" by (rule fifo_run.start)
  then have "?run ([] @ [7]) [] example_buffer1"
    by (rule fifo_run.put_taken) (use example_buffer_facts in \<open>simp_all add: example_buffer1_def prod_eq_iff\<close>)
  then have "?run (([] @ [7]) @ [8]) [] (snd (?put 8 example_buffer1))"
    by (rule fifo_run.put_taken) (use example_buffer_facts in \<open>simp_all add: prod_eq_iff\<close>)
  from transit_buffer_fifo [OF example_buffer_facts(1) this] show ?thesis by simp
qed

theorem back_is_atomic_witness:
  "tb_inv example_buffer1 \<and> snd (tb_back ResizeFails 0 (\<lambda>_. 0) example_buffer1) = example_buffer1"
proof -
  have "tb_rel (snd (tb_put AllocationOk 0 (\<lambda>_. 0) 7 example_buffer)) ([] @ [7])"
    using tbf.put_law [OF tb_new_rel [OF example_buffer_facts(1)] TrueI, where outcome = AllocationOk
        and fresh = 0 and moved = "\<lambda>_. 0" and m = 7] example_buffer_facts(2) by simp
  then have inv: "tb_inv example_buffer1" by (simp add: tb_rel_def example_buffer1_def)
  have "tb_back ResizeFails 0 (\<lambda>_. 0) example_buffer1
      = (Inl BadAlloc, snd (tb_back ResizeFails 0 (\<lambda>_. 0) example_buffer1))"
    using example_buffer_facts(4) by (simp add: prod_eq_iff)
  from back_is_atomic [OF inv this] inv show ?thesis by simp
qed

end
