(* ===== verification/Backtrace_Storage.thy ===== *)
theory Backtrace_Storage
  imports Prelude
begin

text \<open>
  \<^verbatim>\<open>quill/backend/BacktraceStorage.h\<close>: the ring of the last \<^verbatim>\<open>capacity\<close> backtrace messages of a
  logger. It is polymorphic in the stored event. The callback of \<^verbatim>\<open>process\<close> acts on a state
  \<open>'s\<close> and may throw.
\<close>

record 'e stored_event =
  se_thread_id :: string
  se_thread_name :: string
  se_transit_event :: 'e

record 'e backtrace_storage =
  bt_capacity :: u32
  bt_index :: u32
  bt_stored_events :: "'e stored_event list"

definition bt_empty :: "'e backtrace_storage" where
  "bt_empty = \<lparr>bt_capacity = 0, bt_index = 0, bt_stored_events = []\<rparr>"

definition bt_store :: "'e \<Rightarrow> string \<Rightarrow> string \<Rightarrow> 'e backtrace_storage \<Rightarrow> 'e backtrace_storage" where
  "bt_store transit_event thread_id thread_name bt =
     (if bt_capacity bt = 0 then bt
      else let ste = \<lparr>se_thread_id = thread_id, se_thread_name = thread_name, se_transit_event = transit_event\<rparr>
           in if length (bt_stored_events bt) < unat (bt_capacity bt)
              then bt\<lparr>bt_stored_events := bt_stored_events bt @ [ste]\<rparr>
              else let bt' = bt\<lparr>bt_stored_events := (bt_stored_events bt)[unat (bt_index bt) := ste]\<rparr>
                   in if bt_index bt' < bt_capacity bt' - 1
                      then bt'\<lparr>bt_index := bt_index bt' + 1\<rparr>
                      else bt'\<lparr>bt_index := 0\<rparr>)"

fun bt_loop :: "('r \<Rightarrow> 's \<Rightarrow> quill_error option \<times> 's) \<Rightarrow> 'r list \<Rightarrow> nat \<Rightarrow> nat \<Rightarrow> 's \<Rightarrow> quill_error option \<times> 's" where
  "bt_loop callback events 0 index s = (None, s)"
| "bt_loop callback events (Suc n) index s =
     (case callback (events ! index) s of
        (Some e, s') \<Rightarrow> (Some e, s')
      | (None, s') \<Rightarrow> bt_loop callback events n (if index < length events - 1 then index + 1 else 0) s')"

text \<open>Both on success and in the catch block the storage is cleared.\<close>

definition bt_process ::
  "('e stored_event \<Rightarrow> 's \<Rightarrow> quill_error option \<times> 's) \<Rightarrow> 'e backtrace_storage \<Rightarrow> 's
    \<Rightarrow> quill_error option \<times> 's \<times> 'e backtrace_storage" where
  "bt_process callback bt s =
     (case bt_loop callback (bt_stored_events bt) (length (bt_stored_events bt)) (unat (bt_index bt)) s of
        (r, s') \<Rightarrow> (r, s', bt\<lparr>bt_stored_events := [], bt_index := 0\<rparr>))"

definition bt_set_capacity :: "u32 \<Rightarrow> 'e backtrace_storage \<Rightarrow> 'e backtrace_storage" where
  "bt_set_capacity capacity bt =
     (if bt_capacity bt \<noteq> capacity
      then bt\<lparr>bt_capacity := capacity, bt_index := 0, bt_stored_events := []\<rparr> else bt)"

subsection \<open>The last messages\<close>

text \<open>The specification: the last \<open>n\<close> of everything stored since the storage was last cleared.\<close>

definition last_n :: "nat \<Rightarrow> 'a list \<Rightarrow> 'a list" where
  "last_n n xs = drop (length xs - n) xs"

text \<open>The stored events from the oldest on.\<close>

definition bt_order :: "'e backtrace_storage \<Rightarrow> 'e stored_event list" where
  "bt_order bt = drop (unat (bt_index bt)) (bt_stored_events bt) @ take (unat (bt_index bt)) (bt_stored_events bt)"

definition bt_rel :: "'e backtrace_storage \<Rightarrow> 'e stored_event list \<Rightarrow> bool" where
  "bt_rel bt es \<longleftrightarrow> bt_order bt = last_n (unat (bt_capacity bt)) es
     \<and> length (bt_stored_events bt) \<le> unat (bt_capacity bt)
     \<and> (unat (bt_index bt) < unat (bt_capacity bt) \<or> bt_index bt = 0)
     \<and> (length (bt_stored_events bt) < unat (bt_capacity bt) \<longrightarrow> bt_index bt = 0 \<and> bt_stored_events bt = es)"

lemma last_n_append:
  "0 < n \<Longrightarrow> last_n n (xs @ [x]) = (if length xs < n then xs @ [x] else tl (last_n n xs) @ [x])"
  by (auto simp: last_n_def drop_Suc Suc_diff_le simp flip: tl_drop)

lemma bt_store_rel:
  assumes rel: "bt_rel bt es" and cap: "bt_capacity bt \<noteq> 0"
  shows "bt_rel (bt_store e tid tname bt)
    (es @ [\<lparr>se_thread_id = tid, se_thread_name = tname, se_transit_event = e\<rparr>])"
proof -
  let ?s = "\<lparr>se_thread_id = tid, se_thread_name = tname, se_transit_event = e\<rparr>"
  let ?c = "unat (bt_capacity bt)" and ?i = "unat (bt_index bt)" and ?ev = "bt_stored_events bt"
  have c: "0 < ?c" using cap by (simp add: unat_gt_0)
  show ?thesis
  proof (cases "length ?ev < ?c")
    case True
    with rel have "bt_index bt = 0" "?ev = es" by (auto simp: bt_rel_def)
    with True c cap show ?thesis
      by (auto simp: bt_rel_def bt_store_def bt_order_def last_n_def)
  next
    case False
    with rel c have len: "length ?ev = ?c" and i: "?i < ?c"
      and ord: "drop ?i ?ev @ take ?i ?ev = last_n ?c es"
      by (auto simp: bt_rel_def bt_order_def)
    have long: "?c \<le> length es"
      using arg_cong [OF ord, of length] len i by (simp add: last_n_def)
    have last: "last_n ?c (es @ [?s]) = tl (last_n ?c es) @ [?s]" using last_n_append [OF c, of es ?s] long by simp
    have drop: "drop ?i ?ev = ?ev ! ?i # drop (Suc ?i) ?ev" using i len by (simp add: Cons_nth_drop_Suc)
    have tail: "tl (last_n ?c es) = drop (Suc ?i) ?ev @ take ?i ?ev" unfolding ord [symmetric] drop by simp
    have c1: "unat (bt_capacity bt - 1) = ?c - 1" using c by (simp add: unat_minus_one unat_gt_0)
    show ?thesis
    proof (cases "bt_index bt < bt_capacity bt - 1")
      case True
      then have step: "?i < ?c - 1" "Suc ?i < ?c" using c1 by (auto simp: word_less_nat_alt)
      moreover have "?c < 2 ^ 32" by (rule order_less_le_trans [OF unsigned_less]) simp
      ultimately have i1: "unat (bt_index bt + 1) = Suc ?i" by (simp add: unat_word_ariths)
      have "bt_order (bt_store e tid tname bt) = drop (Suc ?i) ?ev @ take ?i ?ev @ [?s]"
        using True False cap i1 i len
        by (simp add: bt_store_def bt_order_def Let_def take_Suc_conv_app_nth drop_update_cancel)
      with True False cap i1 last tail len step show ?thesis
        by (auto simp: bt_rel_def bt_store_def Let_def)
    next
      case wrap: False
      then have eq: "?i = ?c - 1" using c1 i by (simp add: word_less_nat_alt)
      then have "drop (Suc ?i) ?ev = []" using len c by simp
      with last tail have last': "last_n ?c (es @ [?s]) = take ?i ?ev @ [?s]" by simp
      have "?ev[?i := ?s] = take ?i ?ev @ ?s # drop (Suc ?i) ?ev"
        using i len by (intro upd_conv_take_nth_drop) simp
      with \<open>drop (Suc ?i) ?ev = []\<close> have upd: "?ev[?i := ?s] = take ?i ?ev @ [?s]" by simp
      have st: "bt_store e tid tname bt = bt\<lparr>bt_stored_events := ?ev[?i := ?s], bt_index := 0\<rparr>"
        using wrap False cap by (simp add: bt_store_def Let_def)
      then have "bt_order (bt_store e tid tname bt) = take ?i ?ev @ [?s]" using upd by (simp add: bt_order_def)
      with last' st len show ?thesis by (simp add: bt_rel_def)
    qed
  qed
qed

text \<open>What processing is meant to do: the callback on every event, oldest first, until one throws.\<close>

fun run_callbacks :: "('r \<Rightarrow> 's \<Rightarrow> quill_error option \<times> 's) \<Rightarrow> 'r list \<Rightarrow> 's \<Rightarrow> quill_error option \<times> 's" where
  "run_callbacks callback [] s = (None, s)"
| "run_callbacks callback (x # xs) s =
     (case callback x s of (Some e, s') \<Rightarrow> (Some e, s') | (None, s') \<Rightarrow> run_callbacks callback xs s')"

lemma bt_loop_run:
  assumes "index < length events" "n \<le> length events"
  shows "bt_loop callback events n index s = run_callbacks callback (take n (drop index events @ take index events)) s"
  using assms
proof (induction n arbitrary: index s)
  case (Suc n)
  let ?next = "if index < length events - 1 then index + 1 else 0"
  have nxt: "?next < length events" using Suc.prems by auto
  have rot: "take n (drop ?next events @ take ?next events) = take n (drop (Suc index) events @ take index events)"
  proof (cases "index < length events - 1")
    case True
    then have "take (Suc index) events = take index events @ [events ! index]"
      using Suc.prems by (simp add: take_Suc_conv_app_nth)
    with True Suc.prems show ?thesis by (auto simp: take_append)
  next
    case False
    then have "index = length events - 1" using Suc.prems by simp
    with Suc.prems show ?thesis by (cases "events = []") (auto simp: min_def take_append)
  qed
  have "take (Suc n) (drop index events @ take index events)
      = events ! index # take n (drop (Suc index) events @ take index events)"
    using Suc.prems by (simp add: Cons_nth_drop_Suc [symmetric])
  with Suc.IH [OF nxt] Suc.prems rot show ?case by (auto split: prod.splits option.splits)
qed simp

definition bt_store_all :: "'e stored_event list \<Rightarrow> 'e backtrace_storage \<Rightarrow> 'e backtrace_storage" where
  "bt_store_all es bt = fold (\<lambda>se. bt_store (se_transit_event se) (se_thread_id se) (se_thread_name se)) es bt"

lemma bt_store_all_rel:
  assumes "bt_rel bt es" "bt_capacity bt \<noteq> 0"
  shows "bt_rel (bt_store_all new bt) (es @ new) \<and> bt_capacity (bt_store_all new bt) = bt_capacity bt"
  using assms
proof (induction new arbitrary: bt es)
  case (Cons se new)
  let ?bt = "bt_store (se_transit_event se) (se_thread_id se) (se_thread_name se) bt"
  have "bt_capacity ?bt = bt_capacity bt" by (simp add: bt_store_def Let_def)
  moreover have "\<lparr>se_thread_id = se_thread_id se, se_thread_name = se_thread_name se,
      se_transit_event = se_transit_event se\<rparr> = se" by simp
  with bt_store_rel [OF Cons.prems, of "se_transit_event se" "se_thread_id se" "se_thread_name se"]
  have "bt_rel ?bt (es @ [se])" by simp
  ultimately show ?case using Cons.IH [of ?bt "es @ [se]"] Cons.prems(2) by (simp add: bt_store_all_def)
qed (simp add: bt_store_all_def)

lemma bt_process_rel:
  assumes "bt_rel bt es"
  shows "bt_process callback bt s =
    (case run_callbacks callback (last_n (unat (bt_capacity bt)) es) s of
       (r, s') \<Rightarrow> (r, s', bt\<lparr>bt_stored_events := [], bt_index := 0\<rparr>))"
proof -
  let ?ev = "bt_stored_events bt" and ?i = "unat (bt_index bt)"
  have ord: "bt_order bt = last_n (unat (bt_capacity bt)) es" using assms by (simp add: bt_rel_def)
  have "bt_loop callback ?ev (length ?ev) ?i s = run_callbacks callback (bt_order bt) s"
  proof (cases "?ev = []")
    case True
    then show ?thesis by (simp add: bt_order_def)
  next
    case False
    then have "?i < length ?ev" using assms by (cases "bt_index bt = 0") (auto simp: bt_rel_def)
    moreover from this have "take (length ?ev) (bt_order bt) = bt_order bt" by (simp add: bt_order_def)
    ultimately show ?thesis
      using bt_loop_run [of ?i ?ev "length ?ev" callback s] by (simp only: bt_order_def [symmetric] order_refl simp_thms)
  qed
  then show ?thesis by (simp add: bt_process_def ord)
qed

lemma bt_set_capacity_rel:
  assumes "bt_stored_events bt = []" "bt_index bt = 0"
  shows "bt_rel (bt_set_capacity n bt) []"
  using assms by (auto simp: bt_rel_def bt_set_capacity_def bt_order_def last_n_def)

subsection \<open>Properties\<close>

text \<open>
  C10. A logger's backtrace is the last messages, once: after setting a capacity of \<open>n > 0\<close> and
  storing any sequence of messages, processing calls the callback on exactly the last \<open>n\<close> of
  them, oldest first; if the callback throws the error is passed on, the rest is dropped, and
  in either case the storage is left empty with its capacity, so that nothing is ever
  dispatched twice.
\<close>

theorem backtrace_last_messages:
  fixes es :: "'e stored_event list"
  assumes "n \<noteq> 0"
  shows "bt_process callback (bt_store_all es (bt_set_capacity n bt_empty)) s =
    (case run_callbacks callback (last_n (unat n) es) s of
       (r, s') \<Rightarrow> (r, s', \<lparr>bt_capacity = n, bt_index = 0, bt_stored_events = []\<rparr>))"
proof -
  have cap: "bt_capacity (bt_set_capacity n (bt_empty :: 'e backtrace_storage)) = n" by (simp add: bt_set_capacity_def bt_empty_def)
  have "bt_rel (bt_set_capacity n (bt_empty :: 'e backtrace_storage)) []" by (rule bt_set_capacity_rel) (simp_all add: bt_empty_def)
  moreover have "bt_capacity (bt_set_capacity n (bt_empty :: 'e backtrace_storage)) \<noteq> 0" using cap assms by simp
  ultimately have "bt_rel (bt_store_all es (bt_set_capacity n (bt_empty :: 'e backtrace_storage))) ([] @ es)
      \<and> bt_capacity (bt_store_all es (bt_set_capacity n (bt_empty :: 'e backtrace_storage))) = bt_capacity (bt_set_capacity n (bt_empty :: 'e backtrace_storage))"
    by (rule bt_store_all_rel)
  with cap
  have r: "bt_rel (bt_store_all es (bt_set_capacity n (bt_empty :: 'e backtrace_storage))) es"
    and c: "bt_capacity (bt_store_all es (bt_set_capacity n (bt_empty :: 'e backtrace_storage))) = n" by auto
  show ?thesis unfolding bt_process_rel [OF r] using c
    by (cases "bt_store_all es (bt_set_capacity n (bt_empty :: 'e backtrace_storage))") (simp split: prod.split)
qed

theorem backtrace_last_messages_witness:
  "fst (snd (bt_process (\<lambda>se out. (None, out @ [se_transit_event se]))
      (bt_store_all [\<lparr>se_thread_id = ''1'', se_thread_name = ''a'', se_transit_event = (1::nat)\<rparr>,
        \<lparr>se_thread_id = ''1'', se_thread_name = ''a'', se_transit_event = 2\<rparr>,
        \<lparr>se_thread_id = ''1'', se_thread_name = ''a'', se_transit_event = 3\<rparr>] (bt_set_capacity 2 bt_empty)) [])) = [2, 3]"
  by (subst backtrace_last_messages) (simp_all add: last_n_def)

end
