(* ===== verification/Inlined_Vector.thy ===== *)
theory Inlined_Vector
  imports Common
begin

text \<open>
  \<^verbatim>\<open>quill/core/InlinedVector.h\<close>: the vector that caches argument sizes during encoding, with room
  for \<open>n\<close> elements inline. \<open>vector_storage\<close> is the union of the inline and the heap buffer;
  reading the member that is not the active one gives an empty buffer. \<open>allocates\<close> says whether
  \<^verbatim>\<open>new[]\<close> succeeds; \<open>zero\<close> is the value of a fresh element.
\<close>

datatype 'a vector_storage = InlineBuffer (inline_elements: "'a list") | HeapBuffer (heap_elements: "'a list")

record 'a inlined_vector =
  iv_storage :: "'a vector_storage"
  iv_size :: size_t
  iv_capacity :: size_t

definition inline_buffer :: "'a vector_storage \<Rightarrow> 'a list" where
  "inline_buffer s = (case s of InlineBuffer xs \<Rightarrow> xs | HeapBuffer _ \<Rightarrow> [])"

definition heap_buffer :: "'a vector_storage \<Rightarrow> 'a list" where
  "heap_buffer s = (case s of HeapBuffer xs \<Rightarrow> xs | InlineBuffer _ \<Rightarrow> [])"

definition iv_new :: "size_t \<Rightarrow> 'a \<Rightarrow> 'a inlined_vector" where
  "iv_new n zero = \<lparr>iv_storage = InlineBuffer (replicate (unat n) zero), iv_size = 0, iv_capacity = n\<rparr>"

text \<open>The first \<^verbatim>\<open>_size\<close> elements of the active buffer at the front of a new heap buffer.\<close>

definition iv_grown :: "size_t \<Rightarrow> 'a \<Rightarrow> size_t \<Rightarrow> 'a inlined_vector \<Rightarrow> 'a inlined_vector" where
  "iv_grown n zero new_capacity v =
     (let new_data = replicate (unat new_capacity) zero;
          old = (if iv_capacity v = n then inline_buffer (iv_storage v) else heap_buffer (iv_storage v));
          copied = splice 0 (take (unat (iv_size v)) old) new_data
      in v\<lparr>iv_storage := HeapBuffer copied, iv_capacity := new_capacity\<rparr>)"

definition iv_reserve :: "size_t \<Rightarrow> 'a \<Rightarrow> bool \<Rightarrow> size_t \<Rightarrow> 'a inlined_vector \<Rightarrow> (quill_error + unit) \<times> 'a inlined_vector" where
  "iv_reserve n zero allocates new_capacity v =
     (if new_capacity \<le> iv_capacity v then (Inr (), v)
      else if \<not> allocates then (Inl BadAlloc, v)
      else (Inr (), iv_grown n zero new_capacity v))"

definition iv_write :: "size_t \<Rightarrow> nat \<Rightarrow> 'a \<Rightarrow> 'a inlined_vector \<Rightarrow> 'a inlined_vector" where
  "iv_write n i x v =
     (if iv_capacity v = n
      then v\<lparr>iv_storage := InlineBuffer ((inline_buffer (iv_storage v))[i := x])\<rparr>
      else v\<lparr>iv_storage := HeapBuffer ((heap_buffer (iv_storage v))[i := x])\<rparr>)"

definition iv_push_back :: "size_t \<Rightarrow> 'a \<Rightarrow> bool \<Rightarrow> 'a \<Rightarrow> 'a inlined_vector \<Rightarrow> (quill_error + 'a) \<times> 'a inlined_vector" where
  "iv_push_back n zero allocates x v =
     (let append = (\<lambda>v. (Inr x, (iv_write n (unat (iv_size v)) x v)\<lparr>iv_size := iv_size v + 1\<rparr>)) in
      if iv_size v = iv_capacity v
      then if iv_capacity v > SIZE_MAX div 2 then (Inl (QuillError ''InlinedVector capacity overflow''), v)
           else if \<not> allocates then (Inl BadAlloc, v)
           else append (iv_grown n zero (iv_capacity v * 2) v)
      else append v)"

definition iv_at :: "size_t \<Rightarrow> size_t \<Rightarrow> 'a inlined_vector \<Rightarrow> quill_error + 'a" where
  "iv_at n index v =
     (if index \<ge> iv_size v then Inl (QuillError ''index out of bounds'')
      else if iv_capacity v = n then Inr (inline_buffer (iv_storage v) ! unat index)
      else Inr (heap_buffer (iv_storage v) ! unat index))"

definition iv_assign :: "size_t \<Rightarrow> size_t \<Rightarrow> 'a \<Rightarrow> 'a inlined_vector \<Rightarrow> (quill_error + unit) \<times> 'a inlined_vector" where
  "iv_assign n index x v =
     (if index \<ge> iv_size v then (Inl (QuillError ''index out of bounds''), v)
      else (Inr (), iv_write n (unat index) x v))"

definition iv_clear :: "'a inlined_vector \<Rightarrow> 'a inlined_vector" where
  "iv_clear v = v\<lparr>iv_size := 0\<rparr>"

subsection \<open>The vector as a list\<close>

definition iv_data :: "'a inlined_vector \<Rightarrow> 'a list" where
  "iv_data v = (case iv_storage v of InlineBuffer xs \<Rightarrow> xs | HeapBuffer xs \<Rightarrow> xs)"

definition iv_inv :: "size_t \<Rightarrow> 'a inlined_vector \<Rightarrow> bool" where
  "iv_inv n v \<longleftrightarrow> 0 < unat n \<and> iv_size v \<le> iv_capacity v \<and> n \<le> iv_capacity v
     \<and> length (iv_data v) = unat (iv_capacity v)
     \<and> (iv_capacity v = n \<longleftrightarrow> (\<exists>xs. iv_storage v = InlineBuffer xs))"

definition iv_rel :: "size_t \<Rightarrow> 'a inlined_vector \<Rightarrow> 'a list \<Rightarrow> bool" where
  "iv_rel n v xs \<longleftrightarrow> iv_inv n v \<and> take (unat (iv_size v)) (iv_data v) = xs"

lemma active_buffer:
  assumes "iv_inv n v"
  shows "(if iv_capacity v = n then inline_buffer (iv_storage v) else heap_buffer (iv_storage v)) = iv_data v"
  using assms by (cases "iv_storage v") (auto simp: iv_inv_def inline_buffer_def heap_buffer_def iv_data_def)

lemma rel_length: "iv_rel n v xs \<Longrightarrow> length xs = unat (iv_size v)"
  by (auto simp: iv_rel_def iv_inv_def word_le_nat_alt)

lemma iv_new_rel: "0 < n \<Longrightarrow> iv_rel n (iv_new n zero) []"
  by (auto simp: iv_rel_def iv_inv_def iv_new_def iv_data_def unat_gt_0)

lemma iv_grown_rel:
  assumes rel: "iv_rel n v xs" and cap: "iv_capacity v < new_capacity"
  shows "iv_rel n (iv_grown n zero new_capacity v) xs"
proof -
  have inv: "iv_inv n v" using rel by (simp add: iv_rel_def)
  have le: "length xs \<le> unat new_capacity"
    using rel_length [OF rel] inv cap by (auto simp: iv_inv_def word_le_nat_alt word_less_nat_alt)
  have g: "iv_grown n zero new_capacity v =
      v\<lparr>iv_storage := HeapBuffer (splice 0 xs (replicate (unat new_capacity) zero)), iv_capacity := new_capacity\<rparr>"
    unfolding iv_grown_def active_buffer [OF inv] using rel by (simp add: iv_rel_def Let_def)
  have "take (length xs) (splice 0 xs (replicate (unat new_capacity) zero)) = xs"
    by (simp add: splice_def)
  then show ?thesis
    using inv cap le rel_length [OF rel] unfolding g
    by (auto simp: iv_rel_def iv_inv_def iv_data_def word_le_nat_alt word_less_nat_alt)
qed

lemma iv_write_data:
  assumes "iv_inv n v" "i < unat (iv_capacity v)"
  shows "iv_inv n (iv_write n i x v)" "iv_data (iv_write n i x v) = (iv_data v)[i := x]"
    "iv_size (iv_write n i x v) = iv_size v" "iv_capacity (iv_write n i x v) = iv_capacity v"
  using assms
  by (cases "iv_storage v"; auto simp: iv_inv_def iv_write_def iv_data_def inline_buffer_def heap_buffer_def)+

lemma iv_append_rel:
  assumes rel: "iv_rel n v xs" and room: "iv_size v < iv_capacity v"
  shows "iv_rel n ((iv_write n (unat (iv_size v)) x v)\<lparr>iv_size := iv_size v + 1\<rparr>) (xs @ [x])"
proof -
  let ?i = "unat (iv_size v)" and ?w = "iv_write n (unat (iv_size v)) x v"
  have inv: "iv_inv n v" using rel by (simp add: iv_rel_def)
  have i: "?i < unat (iv_capacity v)" using room by (simp add: word_less_nat_alt)
  note w = iv_write_data [OF inv i, of x]
  have "unat (iv_capacity v) < 2 ^ 64" by (rule order_less_le_trans [OF unsigned_less]) simp
  then have s: "unat (iv_size v + 1) = Suc ?i" using i by (simp add: unat_word_ariths)
  have len: "length (iv_data v) = unat (iv_capacity v)" using inv by (simp add: iv_inv_def)
  have "take (Suc ?i) ((iv_data v)[?i := x]) = take ?i (iv_data v) @ [x]"
    using i len by (simp add: take_Suc_conv_app_nth)
  with w s i rel show ?thesis
    by (auto simp: iv_rel_def iv_inv_def iv_data_def word_le_nat_alt)
qed

lemma iv_push_back_rel:
  assumes rel: "iv_rel n v xs" and p: "iv_push_back n zero allocates x v = (r, v')"
  shows "case r of
      Inl e \<Rightarrow> v' = v \<and> length xs = unat (iv_capacity v) \<and> (e = BadAlloc \<and> \<not> allocates \<or> 2 ^ 63 \<le> length xs)
    | Inr y \<Rightarrow> y = x \<and> iv_rel n v' (xs @ [x])"
proof (cases "iv_size v = iv_capacity v")
  case False
  have "iv_size v < iv_capacity v"
    using rel False by (auto simp: iv_rel_def iv_inv_def word_less_nat_alt word_le_nat_alt word_unat_eq_iff)
  with iv_append_rel [OF rel this, of x] p False show ?thesis by (auto simp: iv_push_back_def Let_def)
next
  case True
  note len = rel_length [OF rel]
  have half: "SIZE_MAX div 2 = (9223372036854775807 :: size_t)" by (simp add: SIZE_MAX_def)
  show ?thesis
  proof (cases "iv_capacity v > SIZE_MAX div 2 \<or> \<not> allocates")
    case fails: True
    with p True len show ?thesis
      unfolding half by (auto simp: iv_push_back_def Let_def SIZE_MAX_def word_less_nat_alt split: if_splits)
  next
    case grows: False
    let ?g = "iv_grown n zero (iv_capacity v * 2) v"
    have n: "0 < unat (iv_capacity v)" using rel by (auto simp: iv_rel_def iv_inv_def word_le_nat_alt)
    have d: "unat (iv_capacity v * 2) = 2 * unat (iv_capacity v)"
      using grows unfolding half by (simp add: unat_word_ariths word_less_nat_alt not_less)
    then have "iv_capacity v < iv_capacity v * 2" using n by (simp add: word_less_nat_alt)
    from iv_grown_rel [OF rel this] have g: "iv_rel n ?g xs" .
    have "iv_size ?g < iv_capacity ?g"
      using True d n by (simp add: iv_grown_def Let_def word_less_nat_alt)
    from iv_append_rel [OF g this, of x] p True grows show ?thesis by (auto simp: iv_push_back_def Let_def)
  qed
qed

lemma iv_at_rel:
  assumes "iv_rel n v xs"
  shows "iv_at n index v =
    (if unat index < length xs then Inr (xs ! unat index) else Inl (QuillError ''index out of bounds''))"
proof -
  have inv: "iv_inv n v" using assms by (simp add: iv_rel_def)
  have "iv_at n index v = (if index \<ge> iv_size v then Inl (QuillError ''index out of bounds'')
      else Inr (iv_data v ! unat index))"
    using active_buffer [OF inv] by (simp add: iv_at_def split: if_splits)
  with rel_length [OF assms] assms show ?thesis by (auto simp: iv_rel_def word_le_nat_alt)
qed

lemma iv_assign_rel:
  assumes rel: "iv_rel n v xs"
  shows "if unat index < length xs
    then fst (iv_assign n index x v) = Inr () \<and> iv_rel n (snd (iv_assign n index x v)) (xs[unat index := x])
    else iv_assign n index x v = (Inl (QuillError ''index out of bounds''), v)"
proof (cases "unat index < length xs")
  case True
  have inv: "iv_inv n v" using rel by (simp add: iv_rel_def)
  have i: "unat index < unat (iv_capacity v)"
    using True rel_length [OF rel] inv by (auto simp: iv_inv_def word_le_nat_alt)
  note w = iv_write_data [OF inv i, of x]
  have "take (unat (iv_size v)) ((iv_data v)[unat index := x]) = xs[unat index := x]"
    using rel by (simp add: iv_rel_def take_update_swap)
  with w True rel_length [OF rel] show ?thesis
    by (auto simp: iv_assign_def iv_rel_def word_le_nat_alt)
next
  case False
  with rel_length [OF rel] show ?thesis by (auto simp: iv_assign_def word_le_nat_alt)
qed

subsection \<open>Properties\<close>

text \<open>
  C11. The inlined vector refines a list, wherever its elements live: pushing appends, growing
  from the inline buffer to the heap and between heap buffers included, and fails only when
  full (leaving the vector as it was); reading and assigning check the index against the size
  and act on that element; reserving keeps the elements.
\<close>

theorem inlined_vector_refines_list:
  assumes rel: "iv_rel n v xs"
  shows "(case iv_push_back n zero allocates x v of
        (Inl e, v') \<Rightarrow> v' = v \<and> (e = BadAlloc \<and> \<not> allocates \<or> 2 ^ 63 \<le> length xs)
      | (Inr y, v') \<Rightarrow> y = x \<and> iv_rel n v' (xs @ [x]))
    \<and> iv_at n index v = (if unat index < length xs then Inr (xs ! unat index)
         else Inl (QuillError ''index out of bounds''))
    \<and> (case iv_assign n index x v of
        (Inl e, v') \<Rightarrow> v' = v \<and> length xs \<le> unat index
      | (Inr _, v') \<Rightarrow> unat index < length xs \<and> iv_rel n v' (xs[unat index := x]))
    \<and> iv_rel n (snd (iv_reserve n zero allocates new_capacity v)) xs
    \<and> iv_rel n (iv_clear v) []"
proof (intro conjI)
  show "case iv_push_back n zero allocates x v of
        (Inl e, v') \<Rightarrow> v' = v \<and> (e = BadAlloc \<and> \<not> allocates \<or> 2 ^ 63 \<le> length xs)
      | (Inr y, v') \<Rightarrow> y = x \<and> iv_rel n v' (xs @ [x])"
  proof (cases "iv_push_back n zero allocates x v")
    case (Pair r v')
    from iv_push_back_rel [OF rel this] Pair show ?thesis by (cases r) auto
  qed
  show "case iv_assign n index x v of
        (Inl e, v') \<Rightarrow> v' = v \<and> length xs \<le> unat index
      | (Inr _, v') \<Rightarrow> unat index < length xs \<and> iv_rel n v' (xs[unat index := x])"
  proof (cases "iv_assign n index x v")
    case (Pair r v')
    from iv_assign_rel [OF rel, of index x] Pair show ?thesis by (cases r) (auto split: if_splits)
  qed
  show "iv_rel n (snd (iv_reserve n zero allocates new_capacity v)) xs"
    using rel iv_grown_rel [OF rel] by (auto simp: iv_reserve_def not_le)
  show "iv_rel n (iv_clear v) []"
    using rel by (auto simp: iv_rel_def iv_inv_def iv_clear_def iv_data_def)
qed (rule iv_at_rel [OF rel])

theorem inlined_vector_refines_list_witness:
  "iv_rel 1 (snd (iv_push_back 1 0 True (8::u32) (snd (iv_push_back 1 0 True 7 (iv_new 1 0))))) [7, 8]"
proof -
  have "iv_rel 1 (iv_new 1 (0 :: u32)) []" by (rule iv_new_rel) simp
  from conjunct1 [OF inlined_vector_refines_list [OF this, where zero = 0 and allocates = True and x = 7]]
  have 1: "iv_rel 1 (snd (iv_push_back 1 0 True 7 (iv_new 1 (0 :: u32)))) [7]"
    by (cases "iv_push_back 1 0 True 7 (iv_new 1 (0 :: u32))") (auto split: sum.splits)
  let ?v = "snd (iv_push_back 1 0 True 7 (iv_new 1 (0 :: u32)))"
  show ?thesis
  proof (cases "iv_push_back 1 0 True (8 :: u32) ?v")
    case (Pair r v')
    from iv_push_back_rel [OF 1 Pair] Pair show ?thesis by (cases r) simp_all
  qed
qed

end
