(* ===== verification/Codec.thy ===== *)
theory Codec
  imports Inlined_Vector
begin

text \<open>
  \<^verbatim>\<open>quill/core/Codec.h\<close>: how arguments travel through the queue. An argument is one of the four
  kinds the primary template distinguishes; fixed-size values are their object representation.
  Encoding writes into a memory at an offset (the \<^verbatim>\<open>std::byte*&\<close> cursor), decoding reads from one.
  Integers are stored little-endian, as on every supported target.
\<close>

subsection \<open>Integers in memory\<close>

primrec le_bytes :: "nat \<Rightarrow> nat \<Rightarrow> bytes" where
  "le_bytes 0 x = []"
| "le_bytes (Suc k) x = of_nat (x mod 256) # le_bytes k (x div 256)"

primrec le_value :: "bytes \<Rightarrow> nat" where
  "le_value [] = 0"
| "le_value (b # bs) = unat b + 256 * le_value bs"

lemma length_le_bytes [simp]: "length (le_bytes k x) = k"
  by (induction k arbitrary: x) auto

lemma le_value_le_bytes: "le_value (le_bytes k x) = x mod 256 ^ k"
proof (induction k arbitrary: x)
  case (Suc k)
  have "unat (of_nat (x mod 256) :: u8) = x mod 256" by (rule unat_of_nat_small) simp
  with Suc show ?case by (simp add: mod_mult2_eq)
qed simp

lemma le_value_word32: "le_value (le_bytes 4 (unat (x :: u32))) = unat x"
proof -
  have "unat x < 2 ^ 32" by (rule order_less_le_trans [OF unsigned_less]) simp
  then show ?thesis by (simp add: le_value_le_bytes)
qed

lemma le_value_word64: "le_value (le_bytes 8 (unat (x :: u64))) = unat x"
proof -
  have "unat x < 2 ^ 64" by (rule order_less_le_trans [OF unsigned_less]) simp
  then show ?thesis by (simp add: le_value_le_bytes)
qed

subsection \<open>The codecs\<close>

datatype log_arg =
    ArgFixed bytes            \<comment> \<open>another arithmetic type or \<^verbatim>\<open>void*\<close>\<close>
  | ArgEnum bytes            \<comment> \<open>an enumeration with a formatter of its own\<close>
  | ArgChar u8               \<comment> \<open>\<^verbatim>\<open>char\<close>\<close>
  | ArgCharArray bytes        \<comment> \<open>\<^verbatim>\<open>char[N]\<close>, its \<^verbatim>\<open>N\<close> characters\<close>
  | ArgCString "bytes option" \<comment> \<open>\<^verbatim>\<open>char const*\<close>, the characters before the terminator\<close>
  | ArgString bytes           \<comment> \<open>\<^verbatim>\<open>std::string\<close> or \<^verbatim>\<open>std::string_view\<close>\<close>

datatype arg_type = TypeFixed nat | TypeEnum nat | TypeChar | TypeCharArray nat | TypeCString | TypeString

fun type_of_arg :: "log_arg \<Rightarrow> arg_type" where
  "type_of_arg (ArgFixed b) = TypeFixed (length b)"
| "type_of_arg (ArgEnum b) = TypeEnum (length b)"
| "type_of_arg (ArgChar c) = TypeChar"
| "type_of_arg (ArgCharArray a) = TypeCharArray (length a)"
| "type_of_arg (ArgCString s) = TypeCString"
| "type_of_arg (ArgString s) = TypeString"

text \<open>\<^verbatim>\<open>safe_strnlen(arr, N)\<close> over an array, and \<^verbatim>\<open>safe_strnlen(str)\<close> of a C string.\<close>

definition safe_strnlen_bounded :: "bytes \<Rightarrow> size_t" where
  "safe_strnlen_bounded arr = of_nat (length (takeWhile (\<lambda>b. b \<noteq> 0) arr))"

definition safe_strnlen :: "bytes option \<Rightarrow> size_t" where
  "safe_strnlen str = (case str of None \<Rightarrow> 0 | Some s \<Rightarrow> of_nat (length s))"

definition clamp_encoded_string_length :: "size_t \<Rightarrow> u32" where
  "clamp_encoded_string_length len =
     (let max_val = - 1 - 1 :: u32 in if len > ucast max_val then max_val else ucast len)"

type_synonym size_cache = "u32 inlined_vector"

definition size_cache_new :: size_cache where
  "size_cache_new = iv_new 12 0"

text \<open>\<open>push_back\<close> returns the pushed length, which is converted to \<^verbatim>\<open>size_t\<close>.\<close>

definition cache_length :: "bool \<Rightarrow> u32 \<Rightarrow> size_cache \<Rightarrow> (quill_error + size_t) \<times> size_cache" where
  "cache_length allocates len cache =
     (case iv_push_back 12 0 allocates len cache of
        (Inl e, cache') \<Rightarrow> (Inl e, cache')
      | (Inr l, cache') \<Rightarrow> (Inr (ucast l), cache'))"

fun compute_encoded_size :: "bool \<Rightarrow> log_arg \<Rightarrow> size_cache \<Rightarrow> (quill_error + size_t) \<times> size_cache" where
  "compute_encoded_size allocates (ArgFixed b) cache = (Inr (of_nat (length b)), cache)"
| "compute_encoded_size allocates (ArgEnum b) cache = (Inr (of_nat (length b)), cache)"
| "compute_encoded_size allocates (ArgChar c) cache = (Inr 1, cache)"
| "compute_encoded_size allocates (ArgCharArray arr) cache =
     cache_length allocates (clamp_encoded_string_length (safe_strnlen_bounded arr + 1)) cache"
| "compute_encoded_size allocates (ArgCString str) cache =
     cache_length allocates (clamp_encoded_string_length (safe_strnlen str + 1)) cache"
| "compute_encoded_size allocates (ArgString s) cache =
     (Inr (4 + ucast (clamp_encoded_string_length (of_nat (length s)))), cache)"

text \<open>The cache is left alone only if no argument needs it.\<close>

fun needs_no_cache :: "log_arg \<Rightarrow> bool" where
  "needs_no_cache (ArgFixed b) = True"
| "needs_no_cache (ArgChar c) = True"
| "needs_no_cache (ArgString s) = True"
| "needs_no_cache _ = False"

fun sum_encoded_sizes :: "bool \<Rightarrow> log_arg list \<Rightarrow> size_t \<Rightarrow> size_cache \<Rightarrow> (quill_error + size_t) \<times> size_cache" where
  "sum_encoded_sizes allocates [] total_sum cache = (Inr total_sum, cache)"
| "sum_encoded_sizes allocates (arg # args) total_sum cache =
     (case compute_encoded_size allocates arg cache of
        (Inl e, cache') \<Rightarrow> (Inl e, cache')
      | (Inr n, cache') \<Rightarrow> sum_encoded_sizes allocates args (total_sum + n) cache')"

definition compute_encoded_size_and_cache_string_lengths ::
  "bool \<Rightarrow> log_arg list \<Rightarrow> size_cache \<Rightarrow> (quill_error + size_t) \<times> size_cache" where
  "compute_encoded_size_and_cache_string_lengths allocates args cache =
     sum_encoded_sizes allocates args 0 (if list_all needs_no_cache args then cache else iv_clear cache)"

text \<open>
  The codec of one argument: memory, cursor and cache index before and after. The cache is
  read with \<^verbatim>\<open>operator[]\<close>, whose exception is kept.
\<close>

fun encode_arg :: "size_cache \<Rightarrow> log_arg \<Rightarrow> bytes \<times> nat \<times> u32 \<Rightarrow> quill_error + (bytes \<times> nat \<times> u32)" where
  "encode_arg cache (ArgFixed b) (mem, off, index) = Inr (splice off b mem, off + length b, index)"
| "encode_arg cache (ArgEnum b) (mem, off, index) = Inr (splice off b mem, off + length b, index)"
| "encode_arg cache (ArgChar c) (mem, off, index) = Inr (splice off [c] mem, off + 1, index)"
| "encode_arg cache (ArgCharArray arr) (mem, off, index) =
     (case iv_at 12 (ucast index) cache of
        Inl e \<Rightarrow> Inl e
      | Inr len \<Rightarrow>
          let n = length arr in
          if unat len > n
          then Inr (splice (off + n) [0] (splice off arr mem), off + unat len, index + 1)
          else Inr (splice off (take (unat len) arr) mem, off + unat len, index + 1))"
| "encode_arg cache (ArgCString str) (mem, off, index) =
     (case iv_at 12 (ucast index) cache of
        Inl e \<Rightarrow> Inl e
      | Inr len \<Rightarrow>
          let mem' = (case str of Some s \<Rightarrow> splice off (take (unat (len - 1)) s) mem | None \<Rightarrow> mem)
          in Inr (splice (off + unat (len - 1)) [0] mem', off + unat len, index + 1))"
| "encode_arg cache (ArgString s) (mem, off, index) =
     (let len = clamp_encoded_string_length (of_nat (length s));
          mem' = splice off (le_bytes 4 (unat len)) mem
      in Inr (if len \<noteq> 0 then splice (off + 4) (take (unat len) s) mem' else mem', off + 4 + unat len, index))"

fun encode_args :: "size_cache \<Rightarrow> log_arg list \<Rightarrow> bytes \<times> nat \<times> u32 \<Rightarrow> quill_error + (bytes \<times> nat \<times> u32)" where
  "encode_args cache [] st = Inr st"
| "encode_args cache (arg # args) st =
     (case encode_arg cache arg st of Inl e \<Rightarrow> Inl e | Inr st' \<Rightarrow> encode_args cache args st')"

definition encode :: "size_cache \<Rightarrow> log_arg list \<Rightarrow> bytes \<Rightarrow> nat \<Rightarrow> quill_error + (bytes \<times> nat)" where
  "encode cache args mem off =
     (case encode_args cache args (mem, off, 0) of
        Inl e \<Rightarrow> Inl e
      | Inr (mem', off', _) \<Rightarrow> Inr (mem', off'))"

text \<open>What the decoder pushes to the argument store.\<close>

datatype decoded_arg = DecodedFixed bytes | DecodedEnum bytes | DecodedChar u8 | DecodedString bytes

definition c_string_at :: "bytes \<Rightarrow> nat \<Rightarrow> bytes" where
  "c_string_at mem off = takeWhile (\<lambda>b. b \<noteq> 0) (drop off mem)"

fun decode_arg :: "bytes \<Rightarrow> arg_type \<Rightarrow> nat \<Rightarrow> decoded_arg \<times> nat" where
  "decode_arg mem (TypeFixed n) off = (DecodedFixed (slice off n mem), off + n)"
| "decode_arg mem (TypeEnum n) off = (DecodedEnum (slice off n mem), off + n)"
| "decode_arg mem TypeChar off = (DecodedChar (hd (slice off 1 mem)), off + 1)"
| "decode_arg mem (TypeCharArray n) off =
     (let arg = c_string_at mem off in (DecodedString arg, off + length arg + 1))"
| "decode_arg mem TypeCString off =
     (let arg = c_string_at mem off in (DecodedString arg, off + length arg + 1))"
| "decode_arg mem TypeString off =
     (let len = le_value (slice off 4 mem) in (DecodedString (slice (off + 4) len mem), off + 4 + len))"

fun decode_and_store_args :: "bytes \<Rightarrow> arg_type list \<Rightarrow> nat \<Rightarrow> decoded_arg list \<Rightarrow> decoded_arg list \<times> nat" where
  "decode_and_store_args mem [] off store = (store, off)"
| "decode_and_store_args mem (t # ts) off store =
     (case decode_arg mem t off of (a, off') \<Rightarrow> decode_and_store_args mem ts off' (store @ [a]))"

subsection \<open>What one argument occupies\<close>

text \<open>
  The bytes of an encoded argument. Strings are clamped to what the 32-bit length can hold.
\<close>

definition max_encoded_length :: nat where
  "max_encoded_length = 4294967294"

fun arg_bytes :: "log_arg \<Rightarrow> bytes" where
  "arg_bytes (ArgFixed b) = b"
| "arg_bytes (ArgEnum b) = b"
| "arg_bytes (ArgChar c) = [c]"
| "arg_bytes (ArgCharArray arr) = takeWhile (\<lambda>b. b \<noteq> 0) arr @ [0]"
| "arg_bytes (ArgCString str) = take (max_encoded_length - 1) (case str of None \<Rightarrow> [] | Some s \<Rightarrow> s) @ [0]"
| "arg_bytes (ArgString s) =
     le_bytes 4 (min (length s) max_encoded_length) @ take max_encoded_length s"

fun arg_decoded :: "log_arg \<Rightarrow> decoded_arg" where
  "arg_decoded (ArgFixed b) = DecodedFixed b"
| "arg_decoded (ArgEnum b) = DecodedEnum b"
| "arg_decoded (ArgChar c) = DecodedChar c"
| "arg_decoded (ArgCharArray arr) = DecodedString (takeWhile (\<lambda>b. b \<noteq> 0) arr)"
| "arg_decoded (ArgCString str) = DecodedString (take (max_encoded_length - 1) (case str of None \<Rightarrow> [] | Some s \<Rightarrow> s))"
| "arg_decoded (ArgString s) = DecodedString (take max_encoded_length s)"

text \<open>
  What a C++ argument satisfies: an object fits the address space, a C string has no
  terminator before its end, and an array is far smaller than \<open>4 GiB\<close>.
\<close>

fun arg_ok :: "log_arg \<Rightarrow> bool" where
  "arg_ok (ArgFixed b) \<longleftrightarrow> length b < 2 ^ 63"
| "arg_ok (ArgEnum b) \<longleftrightarrow> length b < 2 ^ 63"
| "arg_ok (ArgChar c) \<longleftrightarrow> True"
| "arg_ok (ArgCharArray arr) \<longleftrightarrow> length arr < max_encoded_length"
| "arg_ok (ArgCString str) \<longleftrightarrow> (case str of None \<Rightarrow> True | Some s \<Rightarrow> length s < 2 ^ 63 \<and> 0 \<notin> set s)"
| "arg_ok (ArgString s) \<longleftrightarrow> length s < 2 ^ 63"

lemma clamp_unat:
  assumes "n < 2 ^ 64"
  shows "unat (clamp_encoded_string_length (of_nat n)) = min n max_encoded_length"
proof -
  have n: "unat (of_nat n :: size_t) = n" by (rule unat_of_nat_small) (use assms in simp)
  have m: "unat (ucast (- 1 - 1 :: u32) :: size_t) = max_encoded_length" "unat (- 1 - 1 :: u32) = max_encoded_length"
    by (simp_all add: max_encoded_length_def)
  show ?thesis
  proof (cases "n > max_encoded_length")
    case True
    then have "(of_nat n :: size_t) > ucast (- 1 - 1 :: u32)" using n m by (simp only: word_less_nat_alt)
    with True m show ?thesis by (simp only: clamp_encoded_string_length_def Let_def if_True)
  next
    case False
    then have f: "\<not> (of_nat n :: size_t) > ucast (- 1 - 1 :: u32)" unfolding word_less_nat_alt n m .
    have "unat (ucast (of_nat n :: size_t) :: u32) = n"
    proof -
      have "n < 2 ^ LENGTH(32)" using False by (simp add: max_encoded_length_def)
      then show ?thesis using n by (simp add: unsigned_ucast_eq take_bit_nat_eq_self)
    qed
    with False f show ?thesis by (simp only: clamp_encoded_string_length_def Let_def if_False)
  qed
qed

subsection \<open>Sizes\<close>

text \<open>What one argument pushes to the cache.\<close>

fun arg_lens :: "log_arg \<Rightarrow> u32 list" where
  "arg_lens (ArgCharArray arr) = [clamp_encoded_string_length (safe_strnlen_bounded arr + 1)]"
| "arg_lens (ArgCString str) = [clamp_encoded_string_length (safe_strnlen str + 1)]"
| "arg_lens _ = []"

lemma array_length:
  assumes "length arr < max_encoded_length"
  shows "unat (clamp_encoded_string_length (safe_strnlen_bounded arr + 1))
    = length (takeWhile (\<lambda>b. b \<noteq> 0) arr) + 1"
proof -
  let ?n = "length (takeWhile (\<lambda>b. b \<noteq> (0 :: u8)) arr)"
  have "?n \<le> length arr" by (rule length_takeWhile_le)
  with assms have n: "?n + 1 < 2 ^ 64" "?n + 1 \<le> max_encoded_length" by (simp_all add: max_encoded_length_def)
  have "safe_strnlen_bounded arr + 1 = of_nat (?n + 1)" by (simp add: safe_strnlen_bounded_def)
  with clamp_unat [OF n(1)] n(2) show ?thesis by (simp only: min_absorb1)
qed

lemma c_string_length:
  assumes "arg_ok (ArgCString str)"
  shows "unat (clamp_encoded_string_length (safe_strnlen str + 1))
    = length (take (max_encoded_length - 1) (case str of None \<Rightarrow> [] | Some s \<Rightarrow> s)) + 1"
proof -
  let ?s = "case str of None \<Rightarrow> [] | Some s \<Rightarrow> s"
  have n: "length ?s + 1 < 2 ^ 64" using assms by (auto split: option.splits)
  have "safe_strnlen str + 1 = of_nat (length ?s + 1)" by (simp add: safe_strnlen_def split: option.split)
  then have "unat (clamp_encoded_string_length (safe_strnlen str + 1)) = min (length ?s + 1) max_encoded_length"
    using clamp_unat [OF n] by (simp only:)
  then show ?thesis by (auto simp: max_encoded_length_def min_def)
qed

lemma string_length:
  assumes "length s < 2 ^ 63"
  shows "unat (clamp_encoded_string_length (of_nat (length s))) = min (length s) max_encoded_length"
  by (rule clamp_unat) (use assms in simp)

lemma ucast_32_64: "unat (ucast (x :: u32) :: u64) = unat x"
proof -
  have "unat x < 2 ^ LENGTH(64)" by (rule order_less_le_trans [OF unsigned_less]) simp
  then show ?thesis by (simp only: unsigned_ucast_eq take_bit_nat_eq_self)
qed

lemma cache_length_rel:
  assumes "iv_rel 12 cache xs" "cache_length allocates len cache = (Inr n, cache')"
  shows "iv_rel 12 cache' (xs @ [len]) \<and> unat n = unat len"
proof (cases "iv_push_back 12 0 allocates len cache")
  case (Pair r c)
  from iv_push_back_rel [OF assms(1) Pair] Pair assms(2) show ?thesis
    by (cases r) (auto simp: cache_length_def ucast_32_64)
qed

lemma compute_encoded_size_rel:
  assumes "iv_rel 12 cache xs" "arg_ok arg" "compute_encoded_size allocates arg cache = (Inr n, cache')"
  shows "iv_rel 12 cache' (xs @ arg_lens arg) \<and> unat n = length (arg_bytes arg)"
proof (cases arg)
  case (ArgFixed b)
  then have "length b < 2 ^ LENGTH(64)" using assms(2) by simp
  with ArgFixed assms show ?thesis by (auto simp: unat_of_nat_small)
next
  case (ArgEnum b)
  then have "length b < 2 ^ LENGTH(64)" using assms(2) by simp
  with ArgEnum assms show ?thesis by (auto simp: unat_of_nat_small)
next
  case (ArgChar c)
  with assms show ?thesis by auto
next
  case (ArgCharArray arr)
  with assms array_length [of arr] cache_length_rel [OF assms(1)] show ?thesis by auto
next
  case (ArgCString str)
  with assms c_string_length [of str] cache_length_rel [OF assms(1)] show ?thesis by auto
next
  case (ArgString s)
  have "unat (4 + ucast (clamp_encoded_string_length (of_nat (length s))) :: size_t)
      = 4 + min (length s) max_encoded_length"
    using string_length [of s] ArgString assms(2)
    by (simp add: unat_word_ariths ucast_32_64 max_encoded_length_def)
  with ArgString assms show ?thesis by auto
qed

lemma sum_encoded_sizes_rel:
  assumes "iv_rel 12 cache xs" "\<forall>arg \<in> set args. arg_ok arg"
    "sum_encoded_sizes allocates args acc cache = (Inr n, cache')"
    "unat acc + length (concat (map arg_bytes args)) < 2 ^ 64"
  shows "iv_rel 12 cache' (xs @ concat (map arg_lens args))
    \<and> unat n = unat acc + length (concat (map arg_bytes args))"
  using assms
proof (induction args arbitrary: cache xs acc)
  case (Cons arg args)
  obtain r c where c: "compute_encoded_size allocates arg cache = (r, c)" by fastforce
  with Cons.prems(3) obtain k where r: "r = Inr k" by (cases r) auto
  note k = compute_encoded_size_rel [OF Cons.prems(1) _ c [unfolded r]]
  have "unat (acc + k) = unat acc + length (arg_bytes arg)"
    using k Cons.prems(2,4) by (simp add: unat_word_ariths)
  with Cons.IH [of c "xs @ arg_lens arg" "acc + k"] Cons.prems c r k show ?case by (auto simp: add.assoc)
qed simp

subsection \<open>Encoding\<close>

lemma take_until_zero:
  assumes "length (takeWhile (\<lambda>b. b \<noteq> 0) arr) < length arr"
  shows "take (Suc (length (takeWhile (\<lambda>b. b \<noteq> 0) arr))) arr = takeWhile (\<lambda>b. b \<noteq> 0) arr @ [0]"
  using assms nth_length_takeWhile [OF assms]
  by (simp add: take_Suc_conv_app_nth takeWhile_eq_take [symmetric])

lemma encode_arg_bytes:
  assumes rel: "iv_rel 12 cache xs" and ok: "arg_ok arg"
    and at: "slice (unat index) (length (arg_lens arg)) xs = arg_lens arg"
    and small: "unat index + length (arg_lens arg) < 2 ^ 32"
    and room: "off + length (arg_bytes arg) \<le> length mem"
  shows "\<exists>index'. encode_arg cache arg (mem, off, index)
      = Inr (splice off (arg_bytes arg) mem, off + length (arg_bytes arg), index')
    \<and> unat index' = unat index + length (arg_lens arg)"
proof -
  have read: "iv_at 12 (ucast index) cache = Inr len" if "arg_lens arg = [len]" for len
  proof -
    have "slice (unat index) 1 xs = [len]" using at that by simp
    then have d: "take 1 (drop (unat index) xs) = [len]" by (simp add: slice_def)
    then have "unat index < length xs" by (cases "unat index < length xs") auto
    moreover from this d have "xs ! unat index = len" by (simp add: take_Suc hd_drop_conv_nth)
    ultimately have "unat index < length xs \<and> xs ! unat index = len" by blast
    then show ?thesis using iv_at_rel [OF rel, of "ucast index"] by (simp add: ucast_32_64)
  qed
  have next_index: "unat (index + 1) = Suc (unat index)" if "length (arg_lens arg) = 1"
    using small that by (simp add: unat_word_ariths)
  show ?thesis
  proof (cases arg)
    case (ArgFixed b)
    then show ?thesis by simp
  next
    case (ArgEnum b)
    then show ?thesis by simp
  next
    case (ArgChar c)
    then show ?thesis by simp
  next
    case (ArgCharArray arr)
    let ?t = "takeWhile (\<lambda>b. b \<noteq> 0) arr" and ?len = "clamp_encoded_string_length (safe_strnlen_bounded arr + 1)"
    have len: "unat ?len = length ?t + 1" using ok ArgCharArray by (simp add: array_length)
    have r: "iv_at 12 (ucast index) cache = Inr ?len" using read ArgCharArray by simp
    show ?thesis
    proof (cases "length ?t = length arr")
      case True
      then have t: "?t = arr" by (metis takeWhile_eq_take take_all order_refl)
      then have b: "arg_bytes (ArgCharArray arr) = arr @ [0]" by (simp only: arg_bytes.simps)
      have len': "unat ?len = Suc (length arr)" using len t by (simp only: Suc_eq_plus1)
      have "splice (off + length arr) [0] (splice off arr mem) = splice off (arr @ [0]) mem"
        using room ArgCharArray b by (intro splice_adjacent) (simp del: arg_bytes.simps)
      with ArgCharArray r len' next_index b show ?thesis by (simp del: arg_bytes.simps)
    next
      case False
      then have less: "length ?t < length arr" by (metis length_takeWhile_le le_neq_implies_less)
      with ArgCharArray r len next_index take_until_zero [OF less] show ?thesis by simp
    qed
  next
    case (ArgCString str)
    let ?s = "take (max_encoded_length - 1) (case str of None \<Rightarrow> [] | Some s \<Rightarrow> s)"
    let ?len = "clamp_encoded_string_length (safe_strnlen str + 1)"
    have len: "unat ?len = length ?s + 1" using ok ArgCString c_string_length by simp
    then have len1: "unat (?len - 1) = length ?s" by (simp add: unat_minus_one unat_gt_0 [symmetric])
    have r: "iv_at 12 (ucast index) cache = Inr ?len" using read ArgCString by simp
    have "(case str of Some s \<Rightarrow> splice off (take (unat (?len - 1)) s) mem | None \<Rightarrow> mem) = splice off ?s mem"
      unfolding len1 by (cases str) (simp_all add: splice_def min_def)
    then show ?thesis
      using ArgCString r len len1 next_index room splice_adjacent [of off ?s "[0]" mem] by simp
  next
    case (ArgString s)
    let ?len = "clamp_encoded_string_length (of_nat (length s))"
    have len: "unat ?len = min (length s) max_encoded_length" using ok ArgString string_length by simp
    have t: "take (unat ?len) s = take max_encoded_length s" unfolding len by (simp add: min_def)
    have "(if ?len \<noteq> 0 then splice (off + 4) (take (unat ?len) s) (splice off (le_bytes 4 (unat ?len)) mem)
        else splice off (le_bytes 4 (unat ?len)) mem)
      = splice off (le_bytes 4 (unat ?len) @ take max_encoded_length s) mem"
    proof (cases "?len = 0")
      case True
      then have e: "take max_encoded_length s = []" unfolding t [symmetric] by simp
      show ?thesis unfolding e using True by simp
    next
      case False
      with t room ArgString splice_adjacent [of off "le_bytes 4 (unat ?len)" "take max_encoded_length s" mem]
      show ?thesis by simp
    qed
    with ArgString len show ?thesis by (simp add: Let_def add.assoc)
  qed
qed

lemma encode_args_bytes:
  assumes "iv_rel 12 cache xs" "\<forall>arg \<in> set args. arg_ok arg"
    "slice (unat index) (length (concat (map arg_lens args))) xs = concat (map arg_lens args)"
    "unat index + length (concat (map arg_lens args)) < 2 ^ 32"
    "off + length (concat (map arg_bytes args)) \<le> length mem"
  shows "\<exists>index'. encode_args cache args (mem, off, index)
      = Inr (splice off (concat (map arg_bytes args)) mem, off + length (concat (map arg_bytes args)), index')"
  using assms
proof (induction args arbitrary: mem off index)
  case Nil
  then show ?case by (simp add: splice_def)
next
  case (Cons arg args)
  let ?l = "length (arg_lens arg)" and ?rest = "concat (map arg_lens args)"
  have all: "take (?l + length ?rest) (drop (unat index) xs) = arg_lens arg @ ?rest"
    using Cons.prems(3) by (simp add: slice_def)
  have "slice (unat index) ?l xs = arg_lens arg"
    using arg_cong [OF all, of "take ?l"] by (simp add: slice_def min_def)
  from encode_arg_bytes [OF Cons.prems(1) _ this, of off mem] Cons.prems obtain index'
    where e: "encode_arg cache arg (mem, off, index)
        = Inr (splice off (arg_bytes arg) mem, off + length (arg_bytes arg), index')"
      and i: "unat index' = unat index + ?l" by auto
  have "take (length ?rest) (drop ?l (drop (unat index) xs)) = ?rest"
    using arg_cong [OF all, of "drop ?l"] unfolding drop_take by simp
  then have "slice (unat index') (length ?rest) xs = ?rest"
    unfolding slice_def i drop_drop by (simp only: add.commute)
  moreover have "\<forall>arg \<in> set args. arg_ok arg" using Cons.prems(2) by simp
  moreover have "unat index' + length ?rest < 2 ^ 32" using Cons.prems(4) i by simp
  moreover have "off + length (arg_bytes arg) + length (concat (map arg_bytes args))
      \<le> length (splice off (arg_bytes arg) mem)" using Cons.prems(5) by simp
  ultimately obtain index'' where
    "encode_args cache args (splice off (arg_bytes arg) mem, off + length (arg_bytes arg), index')
      = Inr (splice (off + length (arg_bytes arg)) (concat (map arg_bytes args)) (splice off (arg_bytes arg) mem),
          off + length (arg_bytes arg) + length (concat (map arg_bytes args)), index'')"
    using Cons.IH [of index' "off + length (arg_bytes arg)" "splice off (arg_bytes arg) mem"] Cons.prems(1) by blast
  moreover have "splice (off + length (arg_bytes arg)) (concat (map arg_bytes args)) (splice off (arg_bytes arg) mem)
      = splice off (arg_bytes arg @ concat (map arg_bytes args)) mem"
    using Cons.prems(5) by (intro splice_adjacent) simp
  ultimately show ?case using e by (simp add: add.assoc)
qed

subsection \<open>Decoding\<close>

lemma c_string_at_terminated:
  assumes "drop off mem = s @ 0 # rest" "0 \<notin> set s"
  shows "c_string_at mem off = s"
proof -
  have "takeWhile (\<lambda>b. b \<noteq> 0) s = s" using assms(2) by (auto simp: takeWhile_eq_all_conv)
  then show ?thesis using assms by (auto simp: c_string_at_def takeWhile_append2)
qed

lemma drop_more: "drop off mem = xs @ ys \<Longrightarrow> drop (off + length xs) mem = ys"
  by (metis append_eq_conv_conj drop_drop add.commute)

lemma slice_front: "drop off mem = xs @ ys \<Longrightarrow> slice off (length xs) mem = xs"
  by (simp add: slice_def)

lemma decode_arg_bytes:
  assumes "arg_ok arg" "drop off mem = arg_bytes arg @ rest"
  shows "decode_arg mem (type_of_arg arg) off = (arg_decoded arg, off + length (arg_bytes arg))"
proof (cases arg)
  case (ArgFixed b)
  with assms(2) slice_front [of off mem b rest] show ?thesis by simp
next
  case (ArgEnum b)
  with assms(2) slice_front [of off mem b rest] show ?thesis by simp
next
  case (ArgChar c)
  with assms(2) slice_front [of off mem "[c]" rest] show ?thesis by simp
next
  case (ArgCharArray arr)
  have "0 \<notin> set (takeWhile (\<lambda>b. b \<noteq> 0) arr)" by (auto dest: set_takeWhileD)
  with ArgCharArray assms(2) c_string_at_terminated [of off mem "takeWhile (\<lambda>b. b \<noteq> 0) arr" rest]
  show ?thesis by (simp add: Let_def)
next
  case (ArgCString str)
  let ?s = "take (max_encoded_length - 1) (case str of None \<Rightarrow> [] | Some s \<Rightarrow> s)"
  have "0 \<notin> set ?s" using assms(1) ArgCString by (auto split: option.splits dest: in_set_takeD)
  with ArgCString assms(2) c_string_at_terminated [of off mem ?s rest] show ?thesis by (simp add: Let_def)
next
  case (ArgString s)
  let ?n = "min (length s) max_encoded_length"
  have d: "drop off mem = le_bytes 4 ?n @ take max_encoded_length s @ rest"
    using assms(2) ArgString by simp
  have "?n < 256 ^ 4" by (simp add: max_encoded_length_def)
  then have "le_value (slice off 4 mem) = ?n"
    using slice_front [OF d] by (simp add: le_value_le_bytes)
  moreover have "slice (off + 4) ?n mem = take max_encoded_length s"
    using slice_front [OF drop_more [OF d]] by (simp add: min.commute)
  ultimately show ?thesis using ArgString by (simp add: Let_def min.commute)
qed

lemma decode_args_bytes:
  assumes "\<forall>arg \<in> set args. arg_ok arg" "drop off mem = concat (map arg_bytes args) @ rest"
  shows "decode_and_store_args mem (map type_of_arg args) off store
    = (store @ map arg_decoded args, off + length (concat (map arg_bytes args)))"
  using assms
proof (induction args arbitrary: off store)
  case (Cons arg args)
  then have d: "drop off mem = arg_bytes arg @ concat (map arg_bytes args) @ rest" by simp
  from decode_arg_bytes [OF _ d] Cons.IH [OF _ drop_more [OF d]] Cons.prems(1) show ?case
    by (simp add: add.assoc)
qed simp

subsection \<open>Sizes and encoding agree\<close>

lemma encode_computed:
  assumes cache: "iv_rel 12 cache xs"
    and args: "\<forall>arg \<in> set args. arg_ok arg" "length args < 2 ^ 32" "length (concat (map arg_bytes args)) < 2 ^ 64"
    and size: "compute_encoded_size_and_cache_string_lengths allocates args cache = (Inr total_size, cache')"
  shows "(\<exists>ys. iv_rel 12 cache' ys) \<and> unat total_size = length (concat (map arg_bytes args))
    \<and> (\<forall>mem off. off + unat total_size \<le> length mem \<longrightarrow>
        encode cache' args mem off = Inr (splice off (concat (map arg_bytes args)) mem, off + unat total_size))"
proof -
  let ?bytes = "concat (map arg_bytes args)" and ?lens = "concat (map arg_lens args)"
  define c0 where "c0 = (if list_all needs_no_cache args then cache else iv_clear cache)"
  define x0 where "x0 = (if list_all needs_no_cache args then xs else [])"
  have "iv_rel 12 (iv_clear cache) []"
    using cache by (auto simp: iv_rel_def iv_inv_def iv_clear_def iv_data_def)
  then have c0: "iv_rel 12 c0 x0" using cache by (simp add: c0_def x0_def)
  have s: "sum_encoded_sizes allocates args 0 c0 = (Inr total_size, cache')"
    using size by (simp add: compute_encoded_size_and_cache_string_lengths_def c0_def)
  have rel: "iv_rel 12 cache' (x0 @ ?lens)" and n: "unat total_size = length ?bytes"
    using sum_encoded_sizes_rel [OF c0 args(1) s] args(3) by simp_all
  have no_lens: "?lens = []" if "list_all needs_no_cache args"
    using that by (induction args) (auto elim: needs_no_cache.elims)
  have at: "slice (unat 0) (length ?lens) (x0 @ ?lens) = ?lens"
  proof (cases "list_all needs_no_cache args")
    case True
    show ?thesis unfolding no_lens [OF True] by (simp add: slice_def)
  next
    case False
    then show ?thesis by (simp add: x0_def slice_def)
  qed
  have "length (arg_lens arg) \<le> 1" for arg by (cases arg) auto
  then have "length ?lens \<le> length args" by (induction args) (auto intro: add_le_mono [of _ 1, simplified])
  then have small: "unat 0 + length ?lens < 2 ^ 32" using args(2) by simp
  have "encode cache' args mem off = Inr (splice off ?bytes mem, off + unat total_size)"
    if "off + unat total_size \<le> length mem" for mem off
  proof -
    have "off + length ?bytes \<le> length mem" using that n by simp
    from encode_args_bytes [OF rel args(1) at small this] show ?thesis by (auto simp: encode_def n)
  qed
  with rel n show ?thesis by blast
qed

subsection \<open>Properties\<close>

text \<open>
  C12. Arguments survive the queue: when the size of a statement's arguments has been computed,
  encoding them into a reserved region of exactly that size writes that region and nothing
  else, whatever the cache held before, and the decoder for the same argument types gives
  back every argument in order (strings clamped to what the 32-bit length holds) and stops
  exactly at the end of the region.
\<close>

theorem codec_roundtrip:
  assumes cache: "iv_rel 12 cache xs"
    and args: "\<forall>arg \<in> set args. arg_ok arg" "length args < 2 ^ 32" "length (concat (map arg_bytes args)) < 2 ^ 64"
    and size: "compute_encoded_size_and_cache_string_lengths allocates args cache = (Inr total_size, cache')"
    and room: "off + unat total_size \<le> length mem"
  shows "\<exists>mem'. encode cache' args mem off = Inr (mem', off + unat total_size)
    \<and> take off mem' = take off mem \<and> drop (off + unat total_size) mem' = drop (off + unat total_size) mem
    \<and> decode_and_store_args mem' (map type_of_arg args) off [] = (map arg_decoded args, off + unat total_size)"
proof -
  let ?bytes = "concat (map arg_bytes args)"
  let ?mem' = "splice off ?bytes mem"
  from encode_computed [OF cache args size]
  have n: "unat total_size = length ?bytes" and e: "encode cache' args mem off = Inr (?mem', off + unat total_size)"
    using room by simp_all
  have d: "drop off ?mem' = ?bytes @ drop (off + length ?bytes) mem"
    using room n by (intro drop_splice) simp
  from decode_args_bytes [OF args(1) d, of "[]"] e n drop_more [OF d] room show ?thesis
    by (intro exI [of _ ?mem']) (simp add: splice_def)
qed

definition example_args :: "log_arg list" where
  "example_args = [ArgFixed [1, 2], ArgCString (Some [72, 105]), ArgCharArray [65, 66], ArgString [0, 7]]"

theorem codec_roundtrip_witness:
  "\<exists>mem'. encode (snd (compute_encoded_size_and_cache_string_lengths True example_args size_cache_new)) example_args
      (replicate 20 9) 3 = Inr (mem', 17)
    \<and> decode_and_store_args mem' (map type_of_arg example_args) 3 []
      = ([DecodedFixed [1, 2], DecodedString [72, 105], DecodedString [65, 66], DecodedString [0, 7]], 17)"
proof -
  let ?c = "snd (compute_encoded_size_and_cache_string_lengths True example_args size_cache_new)"
  have cache: "iv_rel 12 size_cache_new []" unfolding size_cache_new_def by (rule iv_new_rel) simp
  have args: "\<forall>arg \<in> set example_args. arg_ok arg" "length example_args < 2 ^ 32"
    "length (concat (map arg_bytes example_args)) < 2 ^ 64"
    by (simp_all add: example_args_def max_encoded_length_def)
  have "fst (compute_encoded_size_and_cache_string_lengths True example_args size_cache_new) = Inr 14"
    by code_simp
  then have size: "compute_encoded_size_and_cache_string_lengths True example_args size_cache_new = (Inr 14, ?c)"
    by (simp add: prod_eq_iff)
  have room: "3 + unat (14 :: size_t) \<le> length (replicate 20 (9 :: u8))" by simp
  from codec_roundtrip [OF cache args size room] show ?thesis
    by (auto simp: example_args_def max_encoded_length_def)
qed

end
