(* ===== verification/Thread_Context.thy ===== *)
theory Thread_Context
  imports Unbounded_Queue Transit_Buffer Codec Mdc_State
begin

text \<open>
  \<^verbatim>\<open>quill/core/ThreadContextManager.h\<close>: the context of one frontend thread (its queue, the
  backend's buffer of decoded events, the failure counter) and the registry of all contexts.
  The union of the two queue kinds is a datatype; operations that \<^verbatim>\<open>Logger\<close> and
  \<^verbatim>\<open>BackendWorker\<close> select with \<^verbatim>\<open>if constexpr\<close> on the queue type are defined by cases on it.
  A context has an address; the registry owns it through a \<^verbatim>\<open>shared_ptr\<close>, everybody else holds
  the address.
\<close>

subsection \<open>The queue of a context\<close>

datatype spsc_queue = UnboundedSPSC unbounded_queue | BoundedSPSC "u64 bounded_queue"

fun sq_prepare_write :: "size_t \<Rightarrow> spsc_queue \<Rightarrow> ((quill_error + size_t option) \<times> spsc_queue) option" where
  "sq_prepare_write n (UnboundedSPSC q) =
     (case uq_prepare_write n q of None \<Rightarrow> None | Some (r, q') \<Rightarrow> Some (r, UnboundedSPSC q'))"
| "sq_prepare_write n (BoundedSPSC q) =
     (case bq_prepare_write n q of (r, q') \<Rightarrow> Some (Inr r, BoundedSPSC q'))"

fun sq_prepare_write_reserve_cached :: "size_t \<Rightarrow> spsc_queue \<Rightarrow> size_t write_reservation" where
  "sq_prepare_write_reserve_cached n (UnboundedSPSC q) = uq_prepare_write_reserve_cached n q"
| "sq_prepare_write_reserve_cached n (BoundedSPSC q) = bq_prepare_write_reserve_cached n q"

text \<open>The ring a reserved pointer points into, and the ring the reader is at.\<close>

fun sq_producer :: "spsc_queue \<Rightarrow> u64 bounded_queue" where
  "sq_producer (UnboundedSPSC q) = uq_producer q"
| "sq_producer (BoundedSPSC q) = q"

fun sq_map_producer :: "(u64 bounded_queue \<Rightarrow> u64 bounded_queue) \<Rightarrow> spsc_queue \<Rightarrow> spsc_queue" where
  "sq_map_producer f (UnboundedSPSC q) = UnboundedSPSC (uq_map_producer f q)"
| "sq_map_producer f (BoundedSPSC q) = BoundedSPSC (f q)"

definition sq_write_memory :: "bytes \<Rightarrow> spsc_queue \<Rightarrow> spsc_queue" where
  "sq_write_memory mem = sq_map_producer (\<lambda>p. p\<lparr>bq_storage := mem\<rparr>)"

fun sq_finish_and_commit_write :: "size_t \<Rightarrow> spsc_queue \<Rightarrow> spsc_queue" where
  "sq_finish_and_commit_write n (UnboundedSPSC q) = UnboundedSPSC (uq_finish_and_commit_write n q)"
| "sq_finish_and_commit_write n (BoundedSPSC q) = BoundedSPSC (bq_finish_and_commit_write n q)"

definition sq_finish_and_commit_write_reservation :: "size_t \<Rightarrow> spsc_queue \<Rightarrow> spsc_queue" where
  "sq_finish_and_commit_write_reservation new_writer_pos =
     sq_map_producer (bq_finish_and_commit_write_reservation new_writer_pos)"

fun sq_prepare_read :: "spsc_queue \<Rightarrow> read_result \<times> spsc_queue" where
  "sq_prepare_read (UnboundedSPSC q) = (case uq_prepare_read q of (r, q') \<Rightarrow> (r, UnboundedSPSC q'))"
| "sq_prepare_read (BoundedSPSC q) =
     (case bq_prepare_read q of (r, q') \<Rightarrow>
        (\<lparr>rr_read_pos = r, rr_previous_capacity = 0, rr_new_capacity = 0, rr_allocation = False\<rparr>, BoundedSPSC q'))"

fun sq_consumer :: "spsc_queue \<Rightarrow> u64 bounded_queue" where
  "sq_consumer (UnboundedSPSC q) = uq_consumer q"
| "sq_consumer (BoundedSPSC q) = q"

fun sq_finish_read :: "size_t \<Rightarrow> spsc_queue \<Rightarrow> spsc_queue" where
  "sq_finish_read n (UnboundedSPSC q) = UnboundedSPSC (uq_finish_read n q)"
| "sq_finish_read n (BoundedSPSC q) = BoundedSPSC (bq_finish_read n q)"

fun sq_commit_read :: "spsc_queue \<Rightarrow> spsc_queue" where
  "sq_commit_read (UnboundedSPSC q) = UnboundedSPSC (uq_commit_read q)"
| "sq_commit_read (BoundedSPSC q) = BoundedSPSC (bq_commit_read q)"

fun sq_empty :: "spsc_queue \<Rightarrow> bool \<times> spsc_queue" where
  "sq_empty (UnboundedSPSC q) = (case uq_empty q of (e, q') \<Rightarrow> (e, UnboundedSPSC q'))"
| "sq_empty (BoundedSPSC q) = (case bq_empty q of (e, q') \<Rightarrow> (e, BoundedSPSC q'))"

fun sq_capacity :: "spsc_queue \<Rightarrow> size_t" where
  "sq_capacity (UnboundedSPSC q) = uq_capacity q"
| "sq_capacity (BoundedSPSC q) = bq_capacity q"

subsection \<open>A thread context\<close>

record thread_context =
  tc_spsc_queue :: spsc_queue
  tc_conditional_arg_size_cache :: size_cache
  tc_thread_id :: string
  tc_thread_name :: string
  tc_transit_event_buffer :: "transit_event transit_buffer option"
  tc_backend_mdc_state :: "mdc_state option"
  tc_queue_type :: queue_type
  tc_valid :: bool
  tc_failure_counter :: size_t

definition unbounded_queue_type :: "queue_type \<Rightarrow> bool" where
  "unbounded_queue_type t \<longleftrightarrow> t = UnboundedBlocking \<or> t = UnboundedDropping"

definition has_bounded_queue_type :: "thread_context \<Rightarrow> bool" where
  "has_bounded_queue_type tc \<longleftrightarrow> tc_queue_type tc = BoundedBlocking \<or> tc_queue_type tc = BoundedDropping"

definition has_unbounded_queue_type :: "thread_context \<Rightarrow> bool" where
  "has_unbounded_queue_type tc \<longleftrightarrow> unbounded_queue_type (tc_queue_type tc)"

definition has_dropping_queue :: "thread_context \<Rightarrow> bool" where
  "has_dropping_queue tc \<longleftrightarrow> tc_queue_type tc = UnboundedDropping \<or> tc_queue_type tc = BoundedDropping"

definition has_blocking_queue :: "thread_context \<Rightarrow> bool" where
  "has_blocking_queue tc \<longleftrightarrow> tc_queue_type tc = UnboundedBlocking \<or> tc_queue_type tc = BoundedBlocking"

text \<open>The thread's id and name come from the operating system.\<close>

definition tc_new ::
  "queue_type \<Rightarrow> size_t \<Rightarrow> size_t \<Rightarrow> huge_pages_policy \<Rightarrow> nat \<Rightarrow> string \<Rightarrow> quill_error + thread_context" where
  "tc_new qt initial_queue_capacity unbounded_queue_max_capacity policy thread_id thread_name =
     (case (if unbounded_queue_type qt
            then map_sum id UnboundedSPSC (uq_new initial_queue_capacity unbounded_queue_max_capacity policy)
            else map_sum id BoundedSPSC (bq_new initial_queue_capacity policy 5)) of
        Inl e \<Rightarrow> Inl e
      | Inr q \<Rightarrow> Inr \<lparr>tc_spsc_queue = q, tc_conditional_arg_size_cache = size_cache_new,
          tc_thread_id = to_string thread_id, tc_thread_name = thread_name,
          tc_transit_event_buffer = None, tc_backend_mdc_state = None,
          tc_queue_type = qt, tc_valid = True, tc_failure_counter = 0\<rparr>)"

definition mark_invalid :: "thread_context \<Rightarrow> thread_context" where
  "mark_invalid tc = tc\<lparr>tc_valid := False\<rparr>"

definition increment_failure_counter :: "thread_context \<Rightarrow> thread_context" where
  "increment_failure_counter tc = tc\<lparr>tc_failure_counter := tc_failure_counter tc + 1\<rparr>"

definition get_and_reset_failure_counter :: "thread_context \<Rightarrow> size_t \<times> thread_context" where
  "get_and_reset_failure_counter tc =
     (if tc_failure_counter tc = 0 then (0, tc)
      else (tc_failure_counter tc, tc\<lparr>tc_failure_counter := 0\<rparr>))"

subsection \<open>The registry\<close>

record thread_context_manager =
  tcm_thread_contexts :: "(nat \<times> thread_context) list"
  tcm_new_thread_context_flag :: bool
  tcm_invalid_thread_context_count :: u32

definition tcm_new :: thread_context_manager where
  "tcm_new = \<lparr>tcm_thread_contexts = [], tcm_new_thread_context_flag = False, tcm_invalid_thread_context_count = 0\<rparr>"

definition register_thread_context :: "nat \<Rightarrow> thread_context \<Rightarrow> thread_context_manager \<Rightarrow> thread_context_manager" where
  "register_thread_context addr tc m =
     m\<lparr>tcm_thread_contexts := tcm_thread_contexts m @ [(addr, tc)], tcm_new_thread_context_flag := True\<rparr>"

definition add_invalid_thread_context :: "thread_context_manager \<Rightarrow> thread_context_manager" where
  "add_invalid_thread_context m =
     m\<lparr>tcm_invalid_thread_context_count := tcm_invalid_thread_context_count m + 1\<rparr>"

definition has_invalid_thread_context :: "thread_context_manager \<Rightarrow> bool" where
  "has_invalid_thread_context m \<longleftrightarrow> tcm_invalid_thread_context_count m \<noteq> 0"

definition new_thread_context_flag :: "thread_context_manager \<Rightarrow> bool \<times> thread_context_manager" where
  "new_thread_context_flag m =
     (if tcm_new_thread_context_flag m then (True, m\<lparr>tcm_new_thread_context_flag := False\<rparr>) else (False, m))"

text \<open>\<^verbatim>\<open>for_each_thread_context\<close>: the callback runs on every context in order and may change it.\<close>

definition for_each_thread_context ::
  "(nat \<Rightarrow> thread_context \<Rightarrow> 's \<Rightarrow> thread_context \<times> 's) \<Rightarrow> thread_context_manager \<Rightarrow> 's \<Rightarrow> thread_context_manager \<times> 's" where
  "for_each_thread_context cb m s =
     (case fold (\<lambda>(addr, tc) (done_contexts, s). case cb addr tc s of (tc', s') \<Rightarrow> (done_contexts @ [(addr, tc')], s'))
             (tcm_thread_contexts m) ([], s) of
        (contexts, s') \<Rightarrow> (m\<lparr>tcm_thread_contexts := contexts\<rparr>, s'))"

fun remove_context :: "nat \<Rightarrow> (nat \<times> 'c) list \<Rightarrow> (nat \<times> 'c) list" where
  "remove_context addr [] = []"
| "remove_context addr ((a, tc) # contexts) = (if a = addr then contexts else (a, tc) # remove_context addr contexts)"

definition remove_shared_invalidated_thread_context :: "nat \<Rightarrow> thread_context_manager \<Rightarrow> thread_context_manager" where
  "remove_shared_invalidated_thread_context addr m =
     m\<lparr>tcm_thread_contexts := remove_context addr (tcm_thread_contexts m),
       tcm_invalid_thread_context_count := tcm_invalid_thread_context_count m - 1\<rparr>"

text \<open>The thread-local \<^verbatim>\<open>ScopedThreadContext\<close>: created on the thread's first use, destroyed at its end.\<close>

definition scoped_thread_context_create ::
  "nat \<Rightarrow> queue_type \<Rightarrow> size_t \<Rightarrow> size_t \<Rightarrow> huge_pages_policy \<Rightarrow> nat \<Rightarrow> string
    \<Rightarrow> thread_context_manager \<Rightarrow> (quill_error + nat) \<times> thread_context_manager" where
  "scoped_thread_context_create addr qt initial_capacity max_capacity policy thread_id thread_name m =
     (case tc_new qt initial_capacity max_capacity policy thread_id thread_name of
        Inl e \<Rightarrow> (Inl e, m)
      | Inr tc \<Rightarrow> (Inr addr, register_thread_context addr tc m))"

text \<open>An update of the object at an address.\<close>

fun update_context :: "nat \<Rightarrow> ('c \<Rightarrow> 'c) \<Rightarrow> (nat \<times> 'c) list \<Rightarrow> (nat \<times> 'c) list" where
  "update_context addr f [] = []"
| "update_context addr f ((a, tc) # contexts) = (if a = addr then (a, f tc) # contexts else (a, tc) # update_context addr f contexts)"

definition tcm_update :: "nat \<Rightarrow> (thread_context \<Rightarrow> thread_context) \<Rightarrow> thread_context_manager \<Rightarrow> thread_context_manager" where
  "tcm_update addr f m = m\<lparr>tcm_thread_contexts := update_context addr f (tcm_thread_contexts m)\<rparr>"

definition tcm_context :: "thread_context_manager \<Rightarrow> nat \<Rightarrow> thread_context option" where
  "tcm_context m addr = map_of (tcm_thread_contexts m) addr"

definition scoped_thread_context_destroy :: "nat \<Rightarrow> thread_context_manager \<Rightarrow> thread_context_manager" where
  "scoped_thread_context_destroy addr m = add_invalid_thread_context (tcm_update addr mark_invalid m)"

subsection \<open>The queue holds messages\<close>

fun sq_rel :: "spsc_queue \<Rightarrow> bytes list \<Rightarrow> bool" where
  "sq_rel (UnboundedSPSC q) ms \<longleftrightarrow> uq_rel q ms"
| "sq_rel (BoundedSPSC q) ms \<longleftrightarrow> bq_rel q ms []"

text \<open>\<open>off\<close> is where a message of \<open>n\<close> bytes may be written next.\<close>

definition sq_ready :: "spsc_queue \<Rightarrow> nat \<Rightarrow> size_t \<Rightarrow> bool" where
  "sq_ready q n off \<longleftrightarrow> node_ready (sq_producer q) n off"

lemma sq_producer_inv: "sq_rel q ms \<Longrightarrow> bq_inv (sq_producer q)"
  by (cases q) (auto simp: bq_rel_def intro: uq_nodes_producer_inv)

lemma sq_prepare_write_rel:
  assumes "sq_prepare_write n q = Some (r, q')" "sq_rel q ms"
  shows "sq_rel q' ms \<and> (\<forall>off. r = Inr (Some off) \<longrightarrow> sq_ready q' (unat n) off)"
proof (cases q)
  case (UnboundedSPSC u)
  with assms obtain u' where u: "uq_prepare_write n u = Some (r, u')" "q' = UnboundedSPSC u'"
    by (auto split: option.splits)
  from uq_prepare_write_rel [OF u(1)] UnboundedSPSC assms(2) u(2) show ?thesis by (simp add: sq_ready_def)
next
  case (BoundedSPSC b)
  with assms obtain w b' where b: "bq_prepare_write n b = (w, b')" "r = Inr w" "q' = BoundedSPSC b'"
    by (auto split: prod.splits)
  have rel: "bq_rel b ms []" using assms(2) BoundedSPSC by simp
  then have "bq_inv b" by (simp add: bq_rel_def)
  with prepare_write_rel [OF rel b(1)] prepare_write_ready b show ?thesis by (simp add: sq_ready_def)
qed

lemma sq_ready_room:
  assumes "sq_rel q ms" "sq_ready q n off"
  shows "unat off + n \<le> length (bq_storage (sq_producer q))"
proof -
  let ?p = "sq_producer q"
  have sized: "bq_sized ?p" using sq_producer_inv [OF assms(1)] by (simp add: bq_inv_def)
  then have "length (bq_storage ?p) = 2 * unat (bq_capacity ?p)" by (simp add: bq_sized_def)
  with assms(2) mask_offset_less [OF sized, of "bq_writer_pos ?p"] show ?thesis
    by (simp add: sq_ready_def node_ready_def)
qed

lemma sq_publish_rel:
  assumes rel: "sq_rel q ms" and m: "m \<noteq> []" and ready: "sq_ready q (length m) off"
  shows "sq_rel (sq_finish_and_commit_write (of_nat (length m))
      (sq_write_memory (splice (unat off) m (bq_storage (sq_producer q))) q)) (ms @ [m])"
proof (cases q)
  case (UnboundedSPSC u)
  have "uq_map_producer (\<lambda>p. p\<lparr>bq_storage := splice (unat off) m (bq_storage (uq_producer u))\<rparr>) u
      = uq_map_producer (bq_store off m) u"
    by (simp add: uq_map_producer_def bq_store_def uq_producer_def)
  with publish_rel [of u ms m off] assms UnboundedSPSC show ?thesis
    by (simp add: sq_write_memory_def uq_publish_def sq_ready_def)
next
  case (BoundedSPSC b)
  have "bq_rel (bq_commit_write (bq_finish_write (of_nat (length m)) (bq_store off m b))) (ms @ [m]) []"
    using rel_commit_write [OF rel_write_granted [of b ms "[]" m]] assms BoundedSPSC
    by (simp add: sq_ready_def node_ready_def)
  with BoundedSPSC show ?thesis
    by (simp add: sq_write_memory_def bq_store_def finish_and_commit_write_eq)
qed

text \<open>The fast path's reservation is what \<open>sq_prepare_write\<close> grants, and its commit is the same.\<close>

lemma sq_reserved:
  assumes "sq_rel q ms" "wr_write_buffer (sq_prepare_write_reserve_cached n q) = Some off"
  shows "sq_ready q (unat n) off
    \<and> sq_finish_and_commit_write_reservation (wr_writer_pos (sq_prepare_write_reserve_cached n q) + n) (sq_write_memory mem q)
      = sq_finish_and_commit_write n (sq_write_memory mem q)"
proof -
  have r: "sq_prepare_write_reserve_cached n q = bq_prepare_write_reserve_cached n (sq_producer q)"
    by (cases q) (simp_all add: uq_prepare_write_reserve_cached_def)
  then have b: "wr_write_buffer (bq_prepare_write_reserve_cached n (sq_producer q)) = Some off"
    using assms(2) by simp
  then have "bq_prepare_write n (sq_producer q) = (Some off, sq_producer q)"
    by (auto simp: bq_prepare_write_reserve_cached_def bq_prepare_write_def split: if_splits)
  with prepare_write_ready [OF sq_producer_inv [OF assms(1)]] have "sq_ready q (unat n) off"
    by (simp add: sq_ready_def)
  moreover have "wr_writer_pos (bq_prepare_write_reserve_cached n (sq_producer q)) = bq_writer_pos (sq_producer q)"
    by (simp add: bq_prepare_write_reserve_cached_def)
  ultimately show ?thesis unfolding r
    by (cases q) (simp_all add: sq_finish_and_commit_write_reservation_def sq_write_memory_def
        bq_finish_and_commit_write_def uq_finish_and_commit_write_def uq_commit_write_def uq_finish_write_def
        map_producer_comp comp_def finish_and_commit_write_eq [symmetric], simp_all add: uq_map_producer_def uq_producer_def)
qed

text \<open>The reader finds the oldest message, at the read position and in one piece.\<close>

lemma decode_found:
  assumes "take (frame storage) storage = m" "framed frame m"
  shows "frame storage = length m \<and> storage = m @ drop (frame storage) storage"
proof -
  have d: "storage = m @ drop (frame storage) storage" using assms(1) by (metis append_take_drop_id)
  with assms(2) show ?thesis unfolding framed_def by metis
qed

lemma sq_prepare_read_rel:
  assumes rel: "sq_rel q ms" and framed: "\<forall>m \<in> set ms. framed frame m"
    and r: "sq_prepare_read q = (r, q')"
  shows "sq_rel q' ms
    \<and> (\<forall>off. rr_read_pos r = Some off \<longrightarrow> (\<exists>m ms' rest. ms = m # ms'
        \<and> drop (unat off) (bq_storage (sq_consumer q')) = m @ rest
        \<and> sq_rel (sq_finish_read (of_nat (length m)) q') ms'))
    \<and> (\<forall>b. q = BoundedSPSC b \<longrightarrow> rr_read_pos r = None \<longrightarrow> ms = [])"
proof (cases q)
  case (UnboundedSPSC u)
  with r obtain u' where u: "uq_prepare_read u = (r, u')" and q': "q' = UnboundedSPSC u'"
    by (auto split: prod.splits)
  have f: "uq_found frame (rr_read_pos r) u' ms"
    using uq_prepare_read_found [OF _ framed u] rel UnboundedSPSC by simp
  have "\<exists>m ms' rest. ms = m # ms' \<and> drop (unat off) (bq_storage (uq_consumer u')) = m @ rest
        \<and> uq_rel (uq_finish_read (of_nat (length m)) u') ms'" if off: "rr_read_pos r = Some off" for off
  proof -
    obtain m ms' u'' where m: "ms = m # ms'" "uq_decode frame off u' = (m, u'')" "uq_rel u'' ms'"
      using f off unfolding uq_found_def by blast
    let ?s = "bq_storage (uq_consumer u')"
    have d: "take (frame (drop (unat off) ?s)) (drop (unat off) ?s) = m"
      "u'' = uq_finish_read (of_nat (frame (drop (unat off) ?s))) u'"
      using m(2) by (simp_all add: uq_decode_def Let_def slice_def)
    have "framed frame m" using framed m(1) by simp
    with decode_found [of frame "drop (unat off) ?s" m] d m show ?thesis by metis
  qed
  with f UnboundedSPSC q' show ?thesis by (simp add: uq_found_def)
next
  case (BoundedSPSC b)
  then obtain w b' where w: "bq_prepare_read b = (w, b')" "rr_read_pos r = w" "q' = BoundedSPSC b'"
    using r by (auto split: prod.splits)
  have rb: "bq_rel b ms []" using rel BoundedSPSC by simp
  show ?thesis
  proof (cases ms)
    case Nil
    with rel_prepare_read_nil [of b "[]"] rb w BoundedSPSC show ?thesis by auto
  next
    case (Cons m ms')
    with rb have "bq_rel b (m # ms') []" by simp
    then obtain off where o: "w = Some off" "bq_rel b' (m # ms') []"
      "slice (unat off) (length m) (bq_storage b') = m"
      "length m \<le> unat (bq_writer_pos_cache b' - bq_reader_pos b')"
      by (rule rel_prepare_read_cons) (use w in auto)
    have "drop (unat off) (bq_storage b') = m @ drop (length m) (drop (unat off) (bq_storage b'))"
      using o(3) by (metis append_take_drop_id slice_def)
    with o w Cons rel_finish_read [OF o(2,4)] show ?thesis by auto
  qed
qed

lemma sq_commit_read_rel: "sq_rel q ms \<Longrightarrow> sq_rel (sq_commit_read q) ms"
  by (cases q) (auto intro: rel_commit_read uq_tau_rel simp: uq_tau_def)

lemma sq_empty_rel:
  assumes "sq_rel q ms"
  shows "sq_rel (snd (sq_empty q)) ms"
proof (cases q)
  case (UnboundedSPSC u)
  with assms uq_tau_rel [of u "snd (uq_empty u)" ms] show ?thesis
    by (cases "uq_empty u") (simp add: uq_tau_def)
next
  case (BoundedSPSC b)
  with assms rel_empty [of b ms "[]"] show ?thesis by (cases "bq_empty b") simp
qed

lemma bq_empty_exact:
  assumes "bq_rel b ms []"
  shows "fst (bq_empty b) \<longleftrightarrow> ms = []"
proof -
  have *: "bq_prepare_read b = (None, b') \<longleftrightarrow> bq_empty b = (True, b')" for b'
    by (auto simp: bq_prepare_read_def split: prod.splits bool.splits)
  show ?thesis
  proof (cases ms)
    case Nil
    with rel_prepare_read_nil [of b "[]"] assms * show ?thesis by auto
  next
    case (Cons m ms')
    with assms have "bq_rel b (m # ms') []" by simp
    then obtain off b' where "bq_prepare_read b = (Some off, b')" by (rule rel_prepare_read_cons)
    with * [of "snd (bq_empty b)"] Cons show ?thesis by (cases "bq_empty b") auto
  qed
qed

lemma sq_empty_exact:
  assumes "sq_rel q ms" "\<forall>m \<in> set ms. m \<noteq> []" "fst (sq_empty q)"
  shows "ms = []"
proof (cases q)
  case (UnboundedSPSC u)
  then have "uq_rel u ms" using assms(1) by simp
  then obtain c ns us mss where c: "uq_nodes u = c # ns" "bq_rel c us []"
    "list_all2 (\<lambda>node us. bq_rel node us []) ns mss" "ms = us @ concat mss"
    by (rule uq_rel_consumerE)
  from UnboundedSPSC assms(3) c(1) have "fst (bq_empty c)" "ns = []"
    by (auto simp: uq_empty_def uq_has_next_def uq_consumer_def split: prod.splits)
  with c bq_empty_exact [OF c(2)] show ?thesis by simp
next
  case (BoundedSPSC b)
  with assms bq_empty_exact [of b ms] show ?thesis by (cases "bq_empty b") auto
qed

lemma tc_new_rel: "tc_new qt initial mx policy tid name = Inr tc \<Longrightarrow> sq_rel (tc_spsc_queue tc) []"
  by (cases "uq_new initial mx policy"; cases "bq_new initial policy 5")
    (auto simp: tc_new_def dest: uq_new_rel bq_new_rel(1) split: sum.splits if_splits)

end
