(* ===== verification/Frontend_Logger.thy ===== *)
theory Frontend_Logger
  imports Thread_Context Backtrace_Storage
begin

text \<open>
  \<^verbatim>\<open>quill/Logger.h\<close> with the fields of \<^verbatim>\<open>quill/core/LoggerBase.h\<close>: how a frontend thread
  writes a log statement, a metric or a control event to its queue.
  Pointers to static objects (metadata, logger, decoder) are their 64-bit values. Where the
  code sleeps and tries again, \<open>fe_meanwhile i\<close> is what the rest of the program did to the
  thread context before the \<open>i\<close>-th attempt; such loops are \<^theory_text>\<open>partial_function\<close>s, so a thread
  that waits for ever is \<open>None\<close>. The two clocks and the user's clock are readings in the
  environment, and \<open>fe_allocates\<close> is whether the size cache can grow.
\<close>

subsection \<open>Loggers\<close>

record logger_base =
  lb_logger_name :: string
  lb_sinks :: "nat list"
  lb_clock_source :: clock_source_type
  lb_message_flush_threshold :: u32
  lb_messages_since_last_flush :: u32
  lb_log_level :: log_level
  lb_backtrace_flush_level :: log_level
  lb_valid :: bool
  lb_backtrace_storage :: "transit_event backtrace_storage option"

text \<open>A null sink is \<open>None\<close>.\<close>

definition lb_new :: "string \<Rightarrow> nat option list \<Rightarrow> clock_source_type \<Rightarrow> quill_error + logger_base" where
  "lb_new name sinks clock_source =
     (if None \<in> set sinks then Inl (QuillError ''sink pointer is nullptr in LoggerBase constructor'')
      else Inr \<lparr>lb_logger_name = name, lb_sinks = map the sinks, lb_clock_source = clock_source,
        lb_message_flush_threshold = 0, lb_messages_since_last_flush = 0, lb_log_level = Info,
        lb_backtrace_flush_level = NoneLevel, lb_valid = True, lb_backtrace_storage = None\<rparr>)"

definition lb_mark_invalid :: "logger_base \<Rightarrow> logger_base" where
  "lb_mark_invalid lb = lb\<lparr>lb_valid := False\<rparr>"

definition lb_set_log_level :: "log_level \<Rightarrow> logger_base \<Rightarrow> quill_error + logger_base" where
  "lb_set_log_level new_log_level lb =
     (if new_log_level = Backtrace then Inl (QuillError ''LogLevel::Backtrace is only used internally. Please don't use it.'')
      else Inr (lb\<lparr>lb_log_level := new_log_level\<rparr>))"

definition lb_set_immediate_flush :: "u32 \<Rightarrow> logger_base \<Rightarrow> logger_base" where
  "lb_set_immediate_flush flush_every_n_messages lb = lb\<lparr>lb_message_flush_threshold := flush_every_n_messages\<rparr>"

definition should_log_statement :: "log_level \<Rightarrow> logger_base \<Rightarrow> bool" where
  "should_log_statement statement_level lb \<longleftrightarrow> lb_log_level lb \<le> statement_level"

subsection \<open>The environment of a frontend thread\<close>

record frontend_options =
  fo_queue_type :: queue_type
  fo_initial_queue_capacity :: size_t
  fo_unbounded_queue_max_capacity :: size_t
  fo_huge_pages_policy :: huge_pages_policy

record frontend_env =
  fe_is_backend_thread :: bool
  fe_allocates :: bool
  fe_rdtsc :: u64
  fe_system_time_ns :: u64
  fe_user_clock :: "u64 option"
  fe_meanwhile :: "nat \<Rightarrow> thread_context \<Rightarrow> thread_context"

definition default_frontend_options :: frontend_options where
  "default_frontend_options = \<lparr>fo_queue_type = UnboundedBlocking, fo_initial_queue_capacity = 128 * 1024,
     fo_unbounded_queue_max_capacity = 2 * 1024 * 1024 * 1024, fo_huge_pages_policy = Never\<rparr>"

definition get_non_tsc_timestamp :: "frontend_env \<Rightarrow> logger_base \<Rightarrow> u64" where
  "get_non_tsc_timestamp env lb =
     (if lb_clock_source lb = System then fe_system_time_ns env
      else case fe_user_clock env of Some now \<Rightarrow> now | None \<Rightarrow> 0)"

subsection \<open>Reserving space\<close>

text \<open>What a statement is, apart from its time.\<close>

record statement =
  ls_metadata :: u64
  ls_event :: macro_event
  ls_logger :: u64
  ls_decoder :: u64
  ls_args :: "log_arg list"

definition tc_prepare_write :: "size_t \<Rightarrow> thread_context \<Rightarrow> ((quill_error + size_t option) \<times> thread_context) option" where
  "tc_prepare_write n tc =
     (case sq_prepare_write n (tc_spsc_queue tc) of
        None \<Rightarrow> None
      | Some (r, q) \<Rightarrow> Some (r, tc\<lparr>tc_spsc_queue := q\<rparr>))"

partial_function (option) retry_prepare_write ::
  "frontend_env \<Rightarrow> nat \<Rightarrow> size_t \<Rightarrow> thread_context \<Rightarrow> ((quill_error + size_t option) \<times> thread_context) option" where
  "retry_prepare_write env i total_size tc =
     (case tc_prepare_write total_size (fe_meanwhile env i tc) of
        None \<Rightarrow> None
      | Some (Inr None, tc') \<Rightarrow> retry_prepare_write env (Suc i) total_size tc'
      | Some (r, tc') \<Rightarrow> Some (r, tc'))"

declare retry_prepare_write.simps [code]

definition counts_as_dropped :: "macro_event \<Rightarrow> bool" where
  "counts_as_dropped event \<longleftrightarrow> event = Log \<or> event = LogWithRuntimeMetadataDeepCopy
     \<or> event = LogWithRuntimeMetadataHybridCopy \<or> event = LogWithRuntimeMetadataShallowCopy \<or> event = Metric"

definition reserve_queue_space ::
  "frontend_env \<Rightarrow> size_t \<Rightarrow> macro_event \<Rightarrow> thread_context \<Rightarrow> ((quill_error + size_t option) \<times> thread_context) option" where
  "reserve_queue_space env total_size event tc =
     (case tc_prepare_write total_size tc of
        None \<Rightarrow> None
      | Some (Inl e, tc1) \<Rightarrow> Some (Inl e, tc1)
      | Some (Inr (Some off), tc1) \<Rightarrow> Some (Inr (Some off), tc1)
      | Some (Inr None, tc1) \<Rightarrow>
          if tc_queue_type tc = BoundedDropping \<or> tc_queue_type tc = UnboundedDropping
          then Some (Inr None, if counts_as_dropped event then increment_failure_counter tc1 else tc1)
          else if tc_queue_type tc = BoundedBlocking \<and> total_size > sq_capacity (tc_spsc_queue tc1)
          then Some (Inl (QuillError ''Logging a single message larger than the configured bounded queue capacity is not possible.''), tc1)
          else if fe_is_backend_thread env then Some (Inr None, tc1)
          else retry_prepare_write env 0 total_size (increment_failure_counter tc1))"

subsection \<open>Writing a statement\<close>

definition s_header_size :: size_t where
  "s_header_size = 4 * 8"

definition encode_header :: "u64 \<Rightarrow> u64 \<Rightarrow> u64 \<Rightarrow> u64 \<Rightarrow> bytes \<Rightarrow> nat \<Rightarrow> bytes \<times> nat" where
  "encode_header timestamp metadata logger decoder mem off =
     (let mem1 = splice off (le_bytes 8 (unat timestamp)) mem;
          mem2 = splice (off + 8) (le_bytes 8 (unat metadata)) mem1;
          mem3 = splice (off + 16) (le_bytes 8 (unat logger)) mem2;
          mem4 = splice (off + 24) (le_bytes 8 (unat decoder)) mem3
      in (mem4, off + 32))"

text \<open>
  Header and arguments are written through the reserved pointer; a codec that throws leaves
  the bytes written so far in the unpublished region.
\<close>

definition write_statement :: "u64 \<Rightarrow> statement \<Rightarrow> size_t \<Rightarrow> thread_context \<Rightarrow> (quill_error + unit) \<times> thread_context" where
  "write_statement timestamp st off tc =
     (let q = tc_spsc_queue tc;
          (mem1, off1) = encode_header timestamp (ls_metadata st) (ls_logger st) (ls_decoder st)
            (bq_storage (sq_producer q)) (unat off)
      in case encode (tc_conditional_arg_size_cache tc) (ls_args st) mem1 off1 of
           Inl e \<Rightarrow> (Inl e, tc\<lparr>tc_spsc_queue := sq_write_memory mem1 q\<rparr>)
         | Inr (mem2, _) \<Rightarrow> (Inr (), tc\<lparr>tc_spsc_queue := sq_write_memory mem2 q\<rparr>))"

definition tc_encoded_size :: "frontend_env \<Rightarrow> log_arg list \<Rightarrow> thread_context \<Rightarrow> (quill_error + size_t) \<times> thread_context" where
  "tc_encoded_size env args tc =
     (case compute_encoded_size_and_cache_string_lengths (fe_allocates env) args (tc_conditional_arg_size_cache tc) of
        (Inl e, cache) \<Rightarrow> (Inl e, tc\<lparr>tc_conditional_arg_size_cache := cache\<rparr>)
      | (Inr n, cache) \<Rightarrow> (Inr (s_header_size + n), tc\<lparr>tc_conditional_arg_size_cache := cache\<rparr>))"

definition log_statement_noinline ::
  "frontend_env \<Rightarrow> logger_base \<Rightarrow> statement \<Rightarrow> u64 \<Rightarrow> thread_context
    \<Rightarrow> ((quill_error + bool) \<times> thread_context) option" where
  "log_statement_noinline env lb st current_timestamp tc =
     (let timestamp = (if current_timestamp = 0 then get_non_tsc_timestamp env lb else current_timestamp)
      in case tc_encoded_size env (ls_args st) tc of
           (Inl e, tc1) \<Rightarrow> Some (Inl e, tc1)
         | (Inr total_size, tc1) \<Rightarrow>
             case reserve_queue_space env total_size (ls_event st) tc1 of
               None \<Rightarrow> None
             | Some (Inl e, tc2) \<Rightarrow> Some (Inl e, tc2)
             | Some (Inr None, tc2) \<Rightarrow> Some (Inr False, tc2)
             | Some (Inr (Some off), tc2) \<Rightarrow>
                 case write_statement timestamp st off tc2 of
                   (Inl e, tc3) \<Rightarrow> Some (Inl e, tc3)
                 | (Inr _, tc3) \<Rightarrow> Some (Inr True,
                     tc3\<lparr>tc_spsc_queue := sq_finish_and_commit_write total_size (tc_spsc_queue tc3)\<rparr>))"

text \<open>The hot path of a thread that has its context.\<close>

definition log_statement_cached ::
  "frontend_env \<Rightarrow> logger_base \<Rightarrow> statement \<Rightarrow> thread_context
    \<Rightarrow> ((quill_error + bool) \<times> thread_context) option" where
  "log_statement_cached env lb st tc =
     (if lb_clock_source lb \<noteq> Tsc then log_statement_noinline env lb st 0 tc
      else case tc_encoded_size env (ls_args st) tc of
             (Inl e, tc1) \<Rightarrow> Some (Inl e, tc1)
           | (Inr total_size, tc1) \<Rightarrow>
               let reservation = sq_prepare_write_reserve_cached total_size (tc_spsc_queue tc1)
               in case wr_write_buffer reservation of
                    None \<Rightarrow> log_statement_noinline env lb st (fe_rdtsc env) tc1
                  | Some off \<Rightarrow>
                      case write_statement (fe_rdtsc env) st off tc1 of
                        (Inl e, tc2) \<Rightarrow> Some (Inl e, tc2)
                      | (Inr _, tc2) \<Rightarrow> Some (Inr True,
                          tc2\<lparr>tc_spsc_queue := sq_finish_and_commit_write_reservation
                            (wr_writer_pos reservation + total_size) (tc_spsc_queue tc2)\<rparr>))"

text \<open>
  \<^verbatim>\<open>log_statement\<close>: the thread-local context is created and registered on the first statement,
  which then takes the slow path. \<open>new\<close> is the address, thread id and thread name of a context
  created now.
\<close>

definition get_local_thread_context ::
  "frontend_options \<Rightarrow> nat \<times> nat \<times> string \<Rightarrow> nat option \<Rightarrow> thread_context_manager
    \<Rightarrow> (quill_error + nat) \<times> thread_context_manager" where
  "get_local_thread_context fo new_context tls m =
     (case tls of
        Some addr \<Rightarrow> (Inr addr, m)
      | None \<Rightarrow> case new_context of (addr, thread_id, thread_name) \<Rightarrow>
          scoped_thread_context_create addr (fo_queue_type fo) (fo_initial_queue_capacity fo)
            (fo_unbounded_queue_max_capacity fo) (fo_huge_pages_policy fo) thread_id thread_name m)"

definition log_statement ::
  "frontend_options \<Rightarrow> frontend_env \<Rightarrow> nat \<times> nat \<times> string \<Rightarrow> logger_base \<Rightarrow> statement
    \<Rightarrow> nat option \<times> thread_context_manager
    \<Rightarrow> ((quill_error + bool) \<times> nat option \<times> thread_context_manager) option" where
  "log_statement fo env new_context lb st s =
     (case s of (tls, m) \<Rightarrow>
        case get_local_thread_context fo new_context tls m of
          (Inl e, m1) \<Rightarrow> Some (Inl e, tls, m1)
        | (Inr addr, m1) \<Rightarrow>
            case tcm_context m1 addr of
              None \<Rightarrow> None
            | Some tc \<Rightarrow>
                let timestamp = (if lb_clock_source lb = Tsc then fe_rdtsc env else 0)
                in case (if tls = None then log_statement_noinline env lb st timestamp tc
                         else log_statement_cached env lb st tc) of
                     None \<Rightarrow> None
                   | Some (r, tc') \<Rightarrow> Some (r, Some addr, tcm_update addr (\<lambda>_. tc') m1))"

subsection \<open>Metrics\<close>

text \<open>A metric has no arguments: the value's 64 bits take the place of the decoder pointer.\<close>

definition metric_statement :: "u64 \<Rightarrow> u64 \<Rightarrow> u64 \<Rightarrow> statement" where
  "metric_statement metric_metadata logger value_bits =
     \<lparr>ls_metadata = metric_metadata, ls_event = Metric, ls_logger = logger, ls_decoder = value_bits, ls_args = []\<rparr>"

definition write_metric :: "u64 \<Rightarrow> statement \<Rightarrow> size_t \<Rightarrow> thread_context \<Rightarrow> thread_context" where
  "write_metric timestamp st off tc =
     (let q = tc_spsc_queue tc;
          (mem, _) = encode_header timestamp (ls_metadata st) (ls_logger st) (ls_decoder st)
            (bq_storage (sq_producer q)) (unat off)
      in tc\<lparr>tc_spsc_queue := sq_write_memory mem q\<rparr>)"

definition publish_metric_noinline ::
  "frontend_env \<Rightarrow> logger_base \<Rightarrow> statement \<Rightarrow> u64 \<Rightarrow> thread_context
    \<Rightarrow> ((quill_error + bool) \<times> thread_context) option" where
  "publish_metric_noinline env lb st current_timestamp tc =
     (let timestamp = (if current_timestamp = 0 then get_non_tsc_timestamp env lb else current_timestamp)
      in case reserve_queue_space env s_header_size (ls_event st) tc of
           None \<Rightarrow> None
         | Some (Inl e, tc1) \<Rightarrow> Some (Inl e, tc1)
         | Some (Inr None, tc1) \<Rightarrow> Some (Inr False, tc1)
         | Some (Inr (Some off), tc1) \<Rightarrow>
             let tc2 = write_metric timestamp st off tc1
             in Some (Inr True, tc2\<lparr>tc_spsc_queue := sq_finish_and_commit_write s_header_size (tc_spsc_queue tc2)\<rparr>))"

definition publish_metric ::
  "frontend_env \<Rightarrow> logger_base \<Rightarrow> statement \<Rightarrow> thread_context
    \<Rightarrow> ((quill_error + bool) \<times> thread_context) option" where
  "publish_metric env lb st tc =
     (if lb_clock_source lb \<noteq> Tsc then publish_metric_noinline env lb st 0 tc
      else let reservation = sq_prepare_write_reserve_cached s_header_size (tc_spsc_queue tc)
           in case wr_write_buffer reservation of
                None \<Rightarrow> publish_metric_noinline env lb st (fe_rdtsc env) tc
              | Some off \<Rightarrow>
                  let tc1 = write_metric (fe_rdtsc env) st off tc
                  in Some (Inr True, tc1\<lparr>tc_spsc_queue := sq_finish_and_commit_write_reservation
                       (wr_writer_pos reservation + s_header_size) (tc_spsc_queue tc1)\<rparr>))"

subsection \<open>Control events\<close>

text \<open>
  \<^verbatim>\<open>set_mdc\<close>, \<^verbatim>\<open>erase_mdc\<close>, \<^verbatim>\<open>clear_mdc\<close>, \<^verbatim>\<open>init_backtrace\<close> and \<^verbatim>\<open>flush_backtrace\<close> try until the
  event is queued, except on the backend thread. \<open>env i\<close> is the environment of the \<open>i\<close>-th
  attempt. The answer tells whether the event was queued.
\<close>

partial_function (option) log_until_queued ::
  "(nat \<Rightarrow> frontend_env) \<Rightarrow> nat \<Rightarrow> logger_base \<Rightarrow> statement \<Rightarrow> thread_context
    \<Rightarrow> ((quill_error + bool) \<times> thread_context) option" where
  "log_until_queued env i lb st tc =
     (case log_statement_cached (env i) lb st tc of
        None \<Rightarrow> None
      | Some (Inl e, tc') \<Rightarrow> Some (Inl e, tc')
      | Some (Inr queued, tc') \<Rightarrow>
          if queued \<or> fe_is_backend_thread (env i) then Some (Inr queued, tc')
          else log_until_queued env (Suc i) lb st tc')"

declare log_until_queued.simps [code]

definition set_mdc where
  "set_mdc env lb metadata logger decoder mdc_pairs tc =
     log_until_queued env 0 lb \<lparr>ls_metadata = metadata, ls_event = MdcSet, ls_logger = logger, ls_decoder = decoder,
       ls_args = concat (map (\<lambda>(k, v). [k, v]) mdc_pairs)\<rparr> tc"

definition erase_mdc where
  "erase_mdc env lb metadata logger decoder ks tc =
     log_until_queued env 0 lb \<lparr>ls_metadata = metadata, ls_event = MdcErase, ls_logger = logger, ls_decoder = decoder,
       ls_args = ks\<rparr> tc"

definition clear_mdc where
  "clear_mdc env lb metadata logger decoder tc =
     log_until_queued env 0 lb \<lparr>ls_metadata = metadata, ls_event = MdcClear, ls_logger = logger, ls_decoder = decoder,
       ls_args = []\<rparr> tc"

definition init_backtrace where
  "init_backtrace env lb metadata logger decoder max_capacity flush_level tc =
     (if max_capacity = (0 :: u32)
      then Some (Inl (QuillError ''logger->init_backtrace(...) requires max_capacity > 0''), lb, tc)
      else case log_until_queued env 0 lb \<lparr>ls_metadata = metadata, ls_event = InitBacktrace, ls_logger = logger,
             ls_decoder = decoder, ls_args = [ArgFixed (le_bytes 4 (unat max_capacity))]\<rparr> tc of
          None \<Rightarrow> None
        | Some (Inl e, tc') \<Rightarrow> Some (Inl e, lb, tc')
        | Some (Inr queued, tc') \<Rightarrow>
            Some (Inr (), if queued then lb\<lparr>lb_backtrace_flush_level := flush_level\<rparr> else lb, tc'))"

definition flush_backtrace where
  "flush_backtrace env lb metadata logger decoder tc =
     log_until_queued env 0 lb \<lparr>ls_metadata = metadata, ls_event = FlushBacktrace, ls_logger = logger,
       ls_decoder = decoder, ls_args = []\<rparr> tc"

text \<open>
  \<^verbatim>\<open>flush_log\<close> queues a flush event that carries the address of a flag and waits until the
  backend has set it; \<open>flag_at i\<close> is what the \<open>i\<close>-th look at the flag finds.
\<close>

partial_function (option) wait_for_flag :: "(nat \<Rightarrow> bool) \<Rightarrow> nat \<Rightarrow> nat option" where
  "wait_for_flag flag_at i = (if flag_at i then Some i else wait_for_flag flag_at (Suc i))"

declare wait_for_flag.simps [code]

definition flush_log where
  "flush_log env lb metadata logger decoder flag flag_at tc =
     (if fe_is_backend_thread (env (0 :: nat))
      then Some (Inl (QuillError ''logger->flush_log() cannot be called from the backend worker thread''), tc)
      else case log_until_queued env 0 lb \<lparr>ls_metadata = metadata, ls_event = Flush, ls_logger = logger,
             ls_decoder = decoder, ls_args = [ArgFixed (le_bytes 8 (unat (flag :: u64)))]\<rparr> tc of
          None \<Rightarrow> None
        | Some (Inl e, tc') \<Rightarrow> Some (Inl e, tc')
        | Some (Inr _, tc') \<Rightarrow>
            case wait_for_flag flag_at 0 of None \<Rightarrow> None | Some _ \<Rightarrow> Some (Inr (), tc'))"

subsection \<open>Statements with metadata known only at run time\<close>

text \<open>
  A C string with its address; a null pointer is \<open>None\<close>. A deep copy puts the characters of
  all four strings into the queue, a shallow copy their addresses, a hybrid copy the characters
  of the format and the tags, which it lays out itself with lengths kept in locals.
\<close>

type_synonym c_string = "(u64 \<times> bytes) option"

definition c_chars :: "c_string \<Rightarrow> bytes option" where
  "c_chars s = map_option snd s"

definition pointer_arg :: "c_string \<Rightarrow> log_arg" where
  "pointer_arg s = ArgFixed (le_bytes 8 (case s of None \<Rightarrow> 0 | Some (p, _) \<Rightarrow> unat p))"

definition line_arg :: "u32 \<Rightarrow> log_arg" where
  "line_arg line = ArgFixed (le_bytes 4 (unat line))"

definition level_arg :: "log_level \<Rightarrow> log_arg" where
  "level_arg level = ArgEnum [of_nat (log_level_index level)]"

record runtime_location =
  rl_fmt :: c_string
  rl_file :: c_string
  rl_function :: c_string
  rl_tags :: c_string
  rl_line :: u32
  rl_level :: log_level

definition deep_copy_args :: "runtime_location \<Rightarrow> log_arg list" where
  "deep_copy_args rl = [ArgCString (c_chars (rl_fmt rl)), ArgCString (c_chars (rl_file rl)),
     ArgCString (c_chars (rl_function rl)), ArgCString (c_chars (rl_tags rl)), line_arg (rl_line rl), level_arg (rl_level rl)]"

definition shallow_copy_args :: "runtime_location \<Rightarrow> log_arg list" where
  "shallow_copy_args rl = [pointer_arg (rl_fmt rl), pointer_arg (rl_file rl), pointer_arg (rl_function rl),
     pointer_arg (rl_tags rl), line_arg (rl_line rl), level_arg (rl_level rl)]"

definition hybrid_len :: "c_string \<Rightarrow> u32" where
  "hybrid_len s = clamp_encoded_string_length (safe_strnlen (c_chars s) + 1)"

definition encode_c_string :: "c_string \<Rightarrow> u32 \<Rightarrow> bytes \<times> nat \<Rightarrow> bytes \<times> nat" where
  "encode_c_string s len buf =
     (case buf of (mem, off) \<Rightarrow>
        let mem' = (case s of Some (_, chars) \<Rightarrow> splice off (take (unat (len - 1)) chars) mem | None \<Rightarrow> mem)
        in (splice (off + unat (len - 1)) [0] mem', off + unat len))"

definition hybrid_encode :: "size_cache \<Rightarrow> runtime_location \<Rightarrow> log_arg list \<Rightarrow> bytes \<times> nat \<Rightarrow> quill_error + (bytes \<times> nat)" where
  "hybrid_encode cache rl args buf0 =
     (let (mem1, off1) = encode_c_string (rl_fmt rl) (hybrid_len (rl_fmt rl)) buf0
      in case encode cache [pointer_arg (rl_file rl), pointer_arg (rl_function rl)] mem1 off1 of
           Inl e \<Rightarrow> Inl e
         | Inr buf2 \<Rightarrow>
             let (mem3, off3) = encode_c_string (rl_tags rl) (hybrid_len (rl_tags rl)) buf2
             in case encode cache [line_arg (rl_line rl), level_arg (rl_level rl)] mem3 off3 of
                  Inl e \<Rightarrow> Inl e
                | Inr (mem4, off4) \<Rightarrow> encode cache args mem4 off4)"

definition runtime_encoded_size ::
  "frontend_env \<Rightarrow> macro_event \<Rightarrow> runtime_location \<Rightarrow> log_arg list \<Rightarrow> thread_context
    \<Rightarrow> (quill_error + size_t) \<times> thread_context" where
  "runtime_encoded_size env event rl args tc =
     (if event = LogWithRuntimeMetadataDeepCopy then tc_encoded_size env (deep_copy_args rl @ args) tc
      else if event = LogWithRuntimeMetadataShallowCopy then tc_encoded_size env (shallow_copy_args rl @ args) tc
      else case tc_encoded_size env args tc of
             (Inl e, tc1) \<Rightarrow> (Inl e, tc1)
           | (Inr n, tc1) \<Rightarrow>
               (Inr (n + (ucast (hybrid_len (rl_fmt rl)) + 8 * 2 + ucast (hybrid_len (rl_tags rl)) + 4 + 1)), tc1))"

definition runtime_encode ::
  "macro_event \<Rightarrow> runtime_location \<Rightarrow> log_arg list \<Rightarrow> size_cache \<Rightarrow> bytes \<times> nat \<Rightarrow> quill_error + (bytes \<times> nat)" where
  "runtime_encode event rl args cache buf =
     (if event = LogWithRuntimeMetadataDeepCopy then (case buf of (mem, off) \<Rightarrow> encode cache (deep_copy_args rl @ args) mem off)
      else if event = LogWithRuntimeMetadataShallowCopy
      then (case buf of (mem, off) \<Rightarrow> encode cache (shallow_copy_args rl @ args) mem off)
      else hybrid_encode cache rl args buf)"

definition log_statement_runtime_metadata ::
  "frontend_env \<Rightarrow> logger_base \<Rightarrow> statement \<Rightarrow> runtime_location \<Rightarrow> thread_context
    \<Rightarrow> ((quill_error + bool) \<times> thread_context) option" where
  "log_statement_runtime_metadata env lb st rl tc =
     (if ls_event st \<notin> {LogWithRuntimeMetadataDeepCopy, LogWithRuntimeMetadataShallowCopy, LogWithRuntimeMetadataHybridCopy}
      then Some (Inr False, tc)
      else
        let timestamp = (if lb_clock_source lb = Tsc then fe_rdtsc env else get_non_tsc_timestamp env lb)
        in case runtime_encoded_size env (ls_event st) rl (ls_args st) tc of
             (Inl e, tc1) \<Rightarrow> Some (Inl e, tc1)
           | (Inr total_size, tc1) \<Rightarrow>
               case reserve_queue_space env total_size (ls_event st) tc1 of
                 None \<Rightarrow> None
               | Some (Inl e, tc2) \<Rightarrow> Some (Inl e, tc2)
               | Some (Inr None, tc2) \<Rightarrow> Some (Inr False, tc2)
               | Some (Inr (Some off), tc2) \<Rightarrow>
                   let q = tc_spsc_queue tc2;
                       (mem1, off1) = encode_header timestamp (ls_metadata st) (ls_logger st) (ls_decoder st)
                         (bq_storage (sq_producer q)) (unat off)
                   in case runtime_encode (ls_event st) rl (ls_args st) (tc_conditional_arg_size_cache tc2) (mem1, off1) of
                        Inl e \<Rightarrow> Some (Inl e, tc2\<lparr>tc_spsc_queue := sq_write_memory mem1 q\<rparr>)
                      | Inr (mem2, _) \<Rightarrow> Some (Inr True, tc2\<lparr>tc_spsc_queue :=
                          sq_finish_and_commit_write total_size (sq_write_memory mem2 q)\<rparr>))"

subsection \<open>What a statement occupies\<close>

definition header_bytes :: "u64 \<Rightarrow> u64 \<Rightarrow> u64 \<Rightarrow> u64 \<Rightarrow> bytes" where
  "header_bytes timestamp metadata logger decoder =
     le_bytes 8 (unat timestamp) @ le_bytes 8 (unat metadata) @ le_bytes 8 (unat logger) @ le_bytes 8 (unat decoder)"

definition args_bytes :: "log_arg list \<Rightarrow> bytes" where
  "args_bytes args = concat (map arg_bytes args)"

definition statement_bytes :: "u64 \<Rightarrow> statement \<Rightarrow> bytes" where
  "statement_bytes timestamp st =
     header_bytes timestamp (ls_metadata st) (ls_logger st) (ls_decoder st) @ args_bytes (ls_args st)"

lemma length_header [simp]: "length (header_bytes t m l d) = 32"
  by (simp add: header_bytes_def)

lemma encode_header_eq:
  assumes "off + 32 \<le> length mem"
  shows "encode_header t m l d mem off = (splice off (header_bytes t m l d) mem, off + 32)"
proof -
  let ?a = "le_bytes 8 (unat t)" and ?b = "le_bytes 8 (unat m)" and ?c = "le_bytes 8 (unat l)"
    and ?d = "le_bytes 8 (unat d)"
  have "splice (off + 8) ?b (splice off ?a mem) = splice off (?a @ ?b) mem"
    using splice_adjacent [of off ?a ?b mem] assms by simp
  moreover have "splice (off + 16) ?c (splice off (?a @ ?b) mem) = splice off ((?a @ ?b) @ ?c) mem"
    using splice_adjacent [of off "?a @ ?b" ?c mem] assms by simp
  moreover have "splice (off + 24) ?d (splice off ((?a @ ?b) @ ?c) mem) = splice off (((?a @ ?b) @ ?c) @ ?d) mem"
    using splice_adjacent [of off "(?a @ ?b) @ ?c" ?d mem] assms by simp
  ultimately show ?thesis by (simp add: encode_header_def header_bytes_def Let_def)
qed

subsection \<open>Reserving keeps the queue\<close>

definition tc_rel :: "thread_context \<Rightarrow> bytes list \<Rightarrow> bool" where
  "tc_rel tc ms \<longleftrightarrow> sq_rel (tc_spsc_queue tc) ms \<and> (\<exists>xs. iv_rel 12 (tc_conditional_arg_size_cache tc) xs)"

text \<open>
  What the rest of the program may do to a context while its thread sleeps: read messages from
  the front of the queue.
\<close>

definition meanwhile_reads :: "frontend_env \<Rightarrow> bool" where
  "meanwhile_reads env \<longleftrightarrow> (\<forall>i tc ms. sq_rel (tc_spsc_queue tc) ms \<longrightarrow>
     (\<exists>k. sq_rel (tc_spsc_queue (fe_meanwhile env i tc)) (drop k ms))
     \<and> tc_conditional_arg_size_cache (fe_meanwhile env i tc) = tc_conditional_arg_size_cache tc
     \<and> tc_queue_type (fe_meanwhile env i tc) = tc_queue_type tc)"

definition reserved :: "size_t \<Rightarrow> thread_context \<Rightarrow> bytes list \<Rightarrow> quill_error + size_t option \<Rightarrow> thread_context \<Rightarrow> bool" where
  "reserved n tc ms r tc' \<longleftrightarrow> (\<exists>k. sq_rel (tc_spsc_queue tc') (drop k ms))
     \<and> tc_conditional_arg_size_cache tc' = tc_conditional_arg_size_cache tc
     \<and> tc_queue_type tc' = tc_queue_type tc
     \<and> (\<forall>off. r = Inr (Some off) \<longrightarrow> sq_ready (tc_spsc_queue tc') (unat n) off)"

lemma tc_prepare_write_reserved:
  assumes "tc_prepare_write n tc = Some (r, tc')" "sq_rel (tc_spsc_queue tc) ms"
  shows "sq_rel (tc_spsc_queue tc') ms \<and> tc_conditional_arg_size_cache tc' = tc_conditional_arg_size_cache tc
    \<and> tc_queue_type tc' = tc_queue_type tc \<and> tc_failure_counter tc' = tc_failure_counter tc
    \<and> (\<forall>off. r = Inr (Some off) \<longrightarrow> sq_ready (tc_spsc_queue tc') (unat n) off)"
  using assms sq_prepare_write_rel [of n "tc_spsc_queue tc"]
  by (auto simp: tc_prepare_write_def split: option.splits prod.splits)

lemma retry_prepare_write_reserved:
  assumes "retry_prepare_write env i n tc = Some y" "meanwhile_reads env" "sq_rel (tc_spsc_queue tc) ms"
  shows "reserved n tc ms (fst y) (snd y) \<and> fst y \<noteq> Inr None"
proof -
  let ?P = "\<lambda>env i n tc y. \<forall>ms. meanwhile_reads env \<longrightarrow> sq_rel (tc_spsc_queue tc) ms \<longrightarrow>
      reserved n tc ms (fst y) (snd y) \<and> fst y \<noteq> Inr None"
  have "?P env i n tc y"
  proof (rule retry_prepare_write.raw_induct [where P = ?P, OF _ assms(1)], intro allI impI)
    fix f env i n tc y ms
    assume IH: "\<And>env i n tc y. f env i n tc = Some y \<Longrightarrow> ?P env i n tc y"
      and step: "(case tc_prepare_write n (fe_meanwhile env i tc) of
          None \<Rightarrow> None
        | Some (Inl e, tc') \<Rightarrow> Some (Inl e, tc')
        | Some (Inr None, tc') \<Rightarrow> f env (Suc i) n tc'
        | Some (Inr (Some off), tc') \<Rightarrow> Some (Inr (Some off), tc')) = Some y"
      and prems: "meanwhile_reads env" "sq_rel (tc_spsc_queue tc) ms"
    let ?m = "fe_meanwhile env i tc"
    obtain k where k: "sq_rel (tc_spsc_queue ?m) (drop k ms)"
      and same: "tc_conditional_arg_size_cache ?m = tc_conditional_arg_size_cache tc" "tc_queue_type ?m = tc_queue_type tc"
      using prems unfolding meanwhile_reads_def by blast
    obtain r tc1 where p: "tc_prepare_write n ?m = Some (r, tc1)"
      using step by (cases "tc_prepare_write n ?m") auto
    note q = tc_prepare_write_reserved [OF p k]
    show "reserved n tc ms (fst y) (snd y) \<and> fst y \<noteq> Inr None"
    proof (cases "r = Inr None")
      case True
      with step p have "f env (Suc i) n tc1 = Some y" by simp
      from IH [OF this] prems(1) q have "reserved n tc1 (drop k ms) (fst y) (snd y) \<and> fst y \<noteq> Inr None" by blast
      with q same show ?thesis unfolding reserved_def drop_drop by metis
    next
      case False
      with step p have "y = (r, tc1)" by (auto split: sum.splits option.splits)
      with q same False show ?thesis unfolding reserved_def by auto
    qed
  qed
  with assms(2,3) show ?thesis by blast
qed

lemma reserve_queue_space_reserved:
  assumes "reserve_queue_space env n event tc = Some (r, tc')" "meanwhile_reads env" "sq_rel (tc_spsc_queue tc) ms"
  shows "reserved n tc ms r tc'"
proof -
  obtain r1 tc1 where p: "tc_prepare_write n tc = Some (r1, tc1)"
    using assms(1) by (cases "tc_prepare_write n tc") (auto simp: reserve_queue_space_def)
  note q = tc_prepare_write_reserved [OF p assms(3)]
  then have r0: "reserved n tc ms r' tc''" if "tc_spsc_queue tc'' = tc_spsc_queue tc1"
      "tc_conditional_arg_size_cache tc'' = tc_conditional_arg_size_cache tc1" "tc_queue_type tc'' = tc_queue_type tc1"
      "\<forall>off. r' = Inr (Some off) \<longrightarrow> r' = r1" for r' tc''
    using that unfolding reserved_def by (metis drop0)
  show ?thesis
  proof (cases "r1 = Inr None \<and> retry_prepare_write env 0 n (increment_failure_counter tc1) = Some (r, tc')")
    case True
    with retry_prepare_write_reserved [OF _ assms(2), of 0 n _ "(r, tc')" ms] q
    have "reserved n (increment_failure_counter tc1) ms r tc'" by (simp add: increment_failure_counter_def)
    with q show ?thesis by (simp add: reserved_def increment_failure_counter_def)
  next
    case False
    with assms(1) p show ?thesis
      by (auto simp: reserve_queue_space_def increment_failure_counter_def split: sum.splits option.splits if_splits intro: r0)
  qed
qed

subsection \<open>A statement reaches the queue whole\<close>

definition args_ok :: "log_arg list \<Rightarrow> bool" where
  "args_ok args \<longleftrightarrow> (\<forall>arg \<in> set args. arg_ok arg) \<and> length args < 2 ^ 32 \<and> 32 + length (args_bytes args) < 2 ^ 64"

definition encodes :: "size_cache \<Rightarrow> log_arg list \<Rightarrow> bool" where
  "encodes cache args \<longleftrightarrow> (\<forall>mem off. off + length (args_bytes args) \<le> length mem \<longrightarrow>
     encode cache args mem off = Inr (splice off (args_bytes args) mem, off + length (args_bytes args)))"

lemma cache_length_keeps:
  assumes "iv_rel 12 cache xs"
  shows "\<exists>ys. iv_rel 12 (snd (cache_length allocates len cache)) ys"
proof (cases "iv_push_back 12 0 allocates len cache")
  case (Pair r c)
  from iv_push_back_rel [OF assms Pair] Pair show ?thesis
    using assms by (cases r) (auto simp: cache_length_def)
qed

lemma sum_encoded_sizes_keeps:
  assumes "iv_rel 12 cache xs"
  shows "\<exists>ys. iv_rel 12 (snd (sum_encoded_sizes allocates args acc cache)) ys"
  using assms
proof (induction args arbitrary: acc cache xs)
  case (Cons arg args)
  obtain r c where c: "compute_encoded_size allocates arg cache = (r, c)" by fastforce
  have "\<exists>ys. iv_rel 12 (snd (compute_encoded_size allocates arg cache)) ys"
    using Cons.prems cache_length_keeps [OF Cons.prems] by (cases arg) auto
  with c Cons.IH show ?case by (cases r) auto
qed auto

lemma tc_encoded_size_rel:
  assumes rel: "tc_rel tc ms" and args: "args_ok args" and size: "tc_encoded_size env args tc = (r, tc1)"
  shows "tc_rel tc1 ms \<and> tc_spsc_queue tc1 = tc_spsc_queue tc \<and> tc_queue_type tc1 = tc_queue_type tc
    \<and> tc_failure_counter tc1 = tc_failure_counter tc
    \<and> (\<forall>n. r = Inr n \<longrightarrow> unat n = 32 + length (args_bytes args) \<and> encodes (tc_conditional_arg_size_cache tc1) args)"
proof -
  obtain xs where xs: "iv_rel 12 (tc_conditional_arg_size_cache tc) xs" using rel by (auto simp: tc_rel_def)
  obtain r1 cache where c: "compute_encoded_size_and_cache_string_lengths (fe_allocates env) args
      (tc_conditional_arg_size_cache tc) = (r1, cache)" by fastforce
  have "iv_rel 12 (iv_clear (tc_conditional_arg_size_cache tc)) []"
    using xs by (auto simp: iv_rel_def iv_inv_def iv_clear_def iv_data_def)
  then obtain xs' where "iv_rel 12 (if list_all needs_no_cache args then tc_conditional_arg_size_cache tc
      else iv_clear (tc_conditional_arg_size_cache tc)) xs'" using xs by (cases "list_all needs_no_cache args") auto
  from sum_encoded_sizes_keeps [OF this, of "fe_allocates env" args 0]
  have keeps: "\<exists>ys. iv_rel 12 cache ys"
    using c by (simp only: compute_encoded_size_and_cache_string_lengths_def snd_conv)
  have tc1: "tc1 = tc\<lparr>tc_conditional_arg_size_cache := cache\<rparr>" "\<forall>n. r = Inr n \<longrightarrow> (\<exists>k. r1 = Inr k \<and> n = s_header_size + k)"
    using size c by (auto simp: tc_encoded_size_def split: sum.splits)
  have "unat (s_header_size + k) = 32 + length (args_bytes args) \<and> encodes cache args" if "r1 = Inr k" for k
  proof -
    have "unat k = length (args_bytes args)" "encodes cache args"
      using encode_computed [OF xs _ _ _ c [unfolded that]] args by (auto simp: args_ok_def encodes_def args_bytes_def)
    moreover have "unat s_header_size = 32" by (simp add: s_header_size_def)
    ultimately show ?thesis using args by (simp add: unat_word_ariths args_ok_def)
  qed
  then show ?thesis using rel keeps tc1 by (simp add: tc_rel_def) blast
qed

lemma length_statement [simp]: "length (statement_bytes t st) = 32 + length (args_bytes (ls_args st))"
  by (simp add: statement_bytes_def)

lemma write_statement_done:
  assumes rel: "sq_rel (tc_spsc_queue tc) ms" and enc: "encodes (tc_conditional_arg_size_cache tc) (ls_args st)"
    and ready: "sq_ready (tc_spsc_queue tc) (32 + length (args_bytes (ls_args st))) off"
  shows "write_statement t st off tc = (Inr (), tc\<lparr>tc_spsc_queue :=
    sq_write_memory (splice (unat off) (statement_bytes t st) (bq_storage (sq_producer (tc_spsc_queue tc)))) (tc_spsc_queue tc)\<rparr>)"
proof -
  let ?mem = "bq_storage (sq_producer (tc_spsc_queue tc))" and ?a = "args_bytes (ls_args st)"
  let ?h = "header_bytes t (ls_metadata st) (ls_logger st) (ls_decoder st)"
  have room: "unat off + (32 + length ?a) \<le> length ?mem" using sq_ready_room [OF rel ready] .
  then have "encode_header t (ls_metadata st) (ls_logger st) (ls_decoder st) ?mem (unat off)
      = (splice (unat off) ?h ?mem, unat off + 32)" by (intro encode_header_eq) simp
  moreover have "encode (tc_conditional_arg_size_cache tc) (ls_args st) (splice (unat off) ?h ?mem) (unat off + 32)
      = Inr (splice (unat off + 32) ?a (splice (unat off) ?h ?mem), unat off + 32 + length ?a)"
    using enc room by (simp add: encodes_def)
  moreover have "splice (unat off + 32) ?a (splice (unat off) ?h ?mem) = splice (unat off) (?h @ ?a) ?mem"
    using splice_adjacent [of "unat off" ?h ?a ?mem] room by simp
  ultimately show ?thesis by (simp add: write_statement_def statement_bytes_def Let_def)
qed

lemma statement_committed:
  assumes rel: "sq_rel (tc_spsc_queue tc) ms" and n: "unat n = 32 + length (args_bytes (ls_args st))"
    and ready: "sq_ready (tc_spsc_queue tc) (unat n) off"
  shows "sq_rel (sq_finish_and_commit_write n (sq_write_memory
      (splice (unat off) (statement_bytes t st) (bq_storage (sq_producer (tc_spsc_queue tc)))) (tc_spsc_queue tc)))
    (ms @ [statement_bytes t st])"
proof -
  have "statement_bytes t st \<noteq> []" using length_statement [of t st] by (metis add_is_0 list.size(3) zero_neq_numeral)
  moreover have "of_nat (length (statement_bytes t st)) = n"
    using n by (metis length_statement word_unat_eq_iff unat_of_nat_le order_refl)
  ultimately show ?thesis using sq_publish_rel [OF rel, of "statement_bytes t st" off] ready n by simp
qed

text \<open>The time a statement carries.\<close>

definition statement_time :: "frontend_env \<Rightarrow> logger_base \<Rightarrow> u64" where
  "statement_time env lb = (if lb_clock_source lb = Tsc then fe_rdtsc env else get_non_tsc_timestamp env lb)"

text \<open>The time-stamp counter does not read 0 (0 is how the slow path is told to ask a clock).\<close>

definition tsc_started :: "frontend_env \<Rightarrow> logger_base \<Rightarrow> bool" where
  "tsc_started env lb \<longleftrightarrow> lb_clock_source lb \<noteq> Tsc \<or> fe_rdtsc env \<noteq> 0"

definition logged :: "thread_context \<Rightarrow> bytes list \<Rightarrow> bool \<Rightarrow> bytes \<Rightarrow> bool" where
  "logged tc' ms taken m \<longleftrightarrow> (\<exists>k. tc_rel tc' (drop k ms @ (if taken then [m] else [])))"

lemma loggedI: "tc_rel tc' (drop k ms @ (if taken then [m] else [])) \<Longrightarrow> logged tc' ms taken m"
  by (auto simp: logged_def)

lemma not_loggedI: "tc_rel tc' (drop k ms) \<Longrightarrow> \<not> taken \<Longrightarrow> logged tc' ms taken m"
  by (auto simp: logged_def)

lemma not_loggedI0: "tc_rel tc' ms \<Longrightarrow> \<not> taken \<Longrightarrow> logged tc' ms taken m"
  by (rule not_loggedI [of _ 0]) simp_all

lemma log_statement_noinline_published:
  assumes rel: "tc_rel tc ms" and args: "args_ok (ls_args st)" and env: "meanwhile_reads env"
    and log: "log_statement_noinline env lb st ts tc = Some (r, tc')"
  shows "logged tc' ms (r = Inr True) (statement_bytes (if ts = 0 then get_non_tsc_timestamp env lb else ts) st)"
proof -
  let ?t = "if ts = 0 then get_non_tsc_timestamp env lb else ts"
  obtain s tc1 where s: "tc_encoded_size env (ls_args st) tc = (s, tc1)" by fastforce
  note sz = tc_encoded_size_rel [OF rel args s]
  show ?thesis
  proof (cases s)
    case (Inl e)
    with log s sz show ?thesis by (intro not_loggedI0) (auto simp: log_statement_noinline_def Let_def)
  next
    case (Inr n)
    then have n: "unat n = 32 + length (args_bytes (ls_args st))"
      and enc: "encodes (tc_conditional_arg_size_cache tc1) (ls_args st)" using sz by auto
    obtain w tc2 where w: "reserve_queue_space env n (ls_event st) tc1 = Some (w, tc2)"
      using log s Inr by (cases "reserve_queue_space env n (ls_event st) tc1") (auto simp: log_statement_noinline_def Let_def)
    have "reserved n tc1 ms w tc2"
      by (rule reserve_queue_space_reserved [OF w env]) (use sz in \<open>auto simp: tc_rel_def\<close>)
    then obtain k where k: "sq_rel (tc_spsc_queue tc2) (drop k ms)"
      and cache: "tc_conditional_arg_size_cache tc2 = tc_conditional_arg_size_cache tc1"
      and ready: "\<forall>off. w = Inr (Some off) \<longrightarrow> sq_ready (tc_spsc_queue tc2) (unat n) off"
      by (auto simp: reserved_def)
    have rel2: "tc_rel tc2 (drop k ms)" using k cache sz by (simp add: tc_rel_def)
    show ?thesis
    proof (cases "\<exists>off. w = Inr (Some off)")
      case False
      with log s Inr w have "tc' = tc2" "r \<noteq> Inr True"
        by (auto simp: log_statement_noinline_def Let_def split: sum.splits option.splits)
      with rel2 show ?thesis by (intro not_loggedI) simp_all
    next
      case True
      then obtain off where off: "w = Inr (Some off)" by blast
      have ready: "sq_ready (tc_spsc_queue tc2) (unat n) off" using ready off by blast
      note wr = write_statement_done [OF k enc [folded cache] ready [unfolded n], of ?t]
      have "r = Inr True" "sq_rel (tc_spsc_queue tc') (drop k ms @ [statement_bytes ?t st])"
        "tc_conditional_arg_size_cache tc' = tc_conditional_arg_size_cache tc2"
        using log s Inr w off wr statement_committed [OF k n ready, of ?t]
        by (auto simp: log_statement_noinline_def Let_def)
      with rel2 show ?thesis by (intro loggedI [of _ k]) (simp add: tc_rel_def)
    qed
  qed
qed

lemma log_statement_cached_published:
  assumes rel: "tc_rel tc ms" and args: "args_ok (ls_args st)" and env: "meanwhile_reads env" "tsc_started env lb"
    and log: "log_statement_cached env lb st tc = Some (r, tc')"
  shows "logged tc' ms (r = Inr True) (statement_bytes (statement_time env lb) st)"
proof (cases "lb_clock_source lb = Tsc")
  case False
  with log log_statement_noinline_published [OF rel args env(1), of lb 0 r tc'] show ?thesis
    by (simp add: log_statement_cached_def statement_time_def)
next
  case True
  then have ts: "fe_rdtsc env \<noteq> 0" "statement_time env lb = fe_rdtsc env"
    using env(2) by (auto simp: tsc_started_def statement_time_def)
  obtain s tc1 where s: "tc_encoded_size env (ls_args st) tc = (s, tc1)" by fastforce
  note sz = tc_encoded_size_rel [OF rel args s]
  show ?thesis
  proof (cases s)
    case (Inl e)
    with log True s sz show ?thesis by (intro not_loggedI0) (auto simp: log_statement_cached_def)
  next
    case (Inr n)
    then have n: "unat n = 32 + length (args_bytes (ls_args st))"
      and enc: "encodes (tc_conditional_arg_size_cache tc1) (ls_args st)" using sz by auto
    show ?thesis
    proof (cases "wr_write_buffer (sq_prepare_write_reserve_cached n (tc_spsc_queue tc1))")
      case None
      with log True s Inr have "log_statement_noinline env lb st (fe_rdtsc env) tc1 = Some (r, tc')"
        by (simp add: log_statement_cached_def Let_def)
      from log_statement_noinline_published [OF _ args env(1) this] sz ts show ?thesis by simp
    next
      case (Some off)
      have rel1: "sq_rel (tc_spsc_queue tc1) ms" using sz by (auto simp: tc_rel_def)
      note rv = sq_reserved [OF rel1 Some]
      then have ready: "sq_ready (tc_spsc_queue tc1) (unat n) off" by blast
      note wr = write_statement_done [OF rel1 enc ready [unfolded n], of "fe_rdtsc env"]
      have "r = Inr True" "sq_rel (tc_spsc_queue tc') (ms @ [statement_bytes (fe_rdtsc env) st])"
        "tc_conditional_arg_size_cache tc' = tc_conditional_arg_size_cache tc1"
        using log True s Inr Some wr rv statement_committed [OF rel1 n ready, of "fe_rdtsc env"]
        by (auto simp: log_statement_cached_def Let_def)
      with sz ts show ?thesis by (intro loggedI [of _ 0]) (simp add: tc_rel_def)
    qed
  qed
qed

subsection \<open>Dropping and blocking\<close>

lemma tc_prepare_write_fields:
  assumes "tc_prepare_write n tc = Some (r, tc')"
  shows "tc_failure_counter tc' = tc_failure_counter tc \<and> tc_queue_type tc' = tc_queue_type tc"
  using assms by (auto simp: tc_prepare_write_def split: option.splits prod.splits)

lemma retry_prepare_write_granted:
  assumes "retry_prepare_write env i n tc = Some y"
  shows "fst y \<noteq> Inr None"
proof (rule retry_prepare_write.raw_induct [where P = "\<lambda>env i n tc y. fst y \<noteq> Inr None", OF _ assms])
  fix f env i n tc y
  assume IH: "\<And>env i n tc y. f env i n tc = Some y \<Longrightarrow> fst y \<noteq> Inr None"
    and step: "(case tc_prepare_write n (fe_meanwhile env i tc) of
        None \<Rightarrow> None
      | Some (Inl e, tc') \<Rightarrow> Some (Inl e, tc')
      | Some (Inr None, tc') \<Rightarrow> f env (Suc i) n tc'
      | Some (Inr (Some off), tc') \<Rightarrow> Some (Inr (Some off), tc')) = Some y"
  from step show "fst y \<noteq> Inr None" by (auto split: option.splits sum.splits dest: IH)
qed

definition dropping :: "thread_context \<Rightarrow> bool" where
  "dropping tc \<longleftrightarrow> tc_queue_type tc = BoundedDropping \<or> tc_queue_type tc = UnboundedDropping"

definition drop_count :: "macro_event \<Rightarrow> size_t" where
  "drop_count event = (if counts_as_dropped event then 1 else 0)"

text \<open>What a refused, a granted and a failed reservation do to the failure counter.\<close>

definition accounted :: "bool \<Rightarrow> macro_event \<Rightarrow> thread_context \<Rightarrow> bool \<Rightarrow> thread_context \<Rightarrow> bool" where
  "accounted backend event tc refused tc' \<longleftrightarrow>
     (dropping tc \<longrightarrow> tc_failure_counter tc' = tc_failure_counter tc + (if refused then drop_count event else 0))
     \<and> (\<not> dropping tc \<longrightarrow> \<not> backend \<longrightarrow> \<not> refused)
     \<and> (\<not> dropping tc \<longrightarrow> backend \<longrightarrow> tc_failure_counter tc' = tc_failure_counter tc)"

lemma reserve_queue_space_accounted:
  assumes "reserve_queue_space env n event tc = Some (r, tc')"
  shows "accounted (fe_is_backend_thread env) event tc (r = Inr None) tc'"
proof -
  obtain r1 tc1 where p: "tc_prepare_write n tc = Some (r1, tc1)"
    using assms by (cases "tc_prepare_write n tc") (auto simp: reserve_queue_space_def)
  note f = tc_prepare_write_fields [OF p]
  show ?thesis
  proof (cases "r1 = Inr None")
    case False
    with assms p f show ?thesis
      by (auto simp: reserve_queue_space_def accounted_def split: sum.splits option.splits)
  next
    case full: True
    show ?thesis
    proof (cases "dropping tc")
      case True
      with assms p full f show ?thesis
        by (auto simp: reserve_queue_space_def accounted_def drop_count_def dropping_def increment_failure_counter_def)
    next
      case False
      with assms p full f retry_prepare_write_granted show ?thesis
        by (auto simp: reserve_queue_space_def accounted_def dropping_def split: if_splits)
          fastforce+
    qed
  qed
qed

lemma accounted_size:
  assumes "tc_encoded_size env args tc = (s, tc1)"
  shows "accounted backend event tc1 refused tc2 = accounted backend event tc refused tc2"
    "tc_failure_counter tc1 = tc_failure_counter tc"
  using assms by (auto simp: tc_encoded_size_def accounted_def dropping_def split: prod.splits sum.splits)

lemma accounted_frame:
  "tc_failure_counter tc2 = tc_failure_counter tc1 \<Longrightarrow> accounted backend event tc refused tc1 \<Longrightarrow> accounted backend event tc refused tc2"
  by (simp add: accounted_def)

lemma accounted_same: "tc_failure_counter tc' = tc_failure_counter tc \<Longrightarrow> accounted backend event tc False tc'"
  by (simp add: accounted_def)

lemma write_statement_counter:
  "write_statement t st off tc = (r, tc') \<Longrightarrow> tc_failure_counter tc' = tc_failure_counter tc"
  by (auto simp: write_statement_def Let_def split: sum.splits prod.splits)

lemma log_statement_noinline_accounted:
  assumes log: "log_statement_noinline env lb st ts tc = Some (r, tc')"
  shows "accounted (fe_is_backend_thread env) (ls_event st) tc (r = Inr False) tc'"
proof -
  obtain s tc1 where s: "tc_encoded_size env (ls_args st) tc = (s, tc1)" by fastforce
  show ?thesis
  proof (cases s)
    case (Inl e)
    with log s accounted_size(2) [OF s] show ?thesis
      by (auto simp: log_statement_noinline_def Let_def intro: accounted_same)
  next
    case (Inr n)
    obtain w tc2 where w: "reserve_queue_space env n (ls_event st) tc1 = Some (w, tc2)"
      using log s Inr by (cases "reserve_queue_space env n (ls_event st) tc1") (auto simp: log_statement_noinline_def Let_def)
    note a = reserve_queue_space_accounted [OF w, unfolded accounted_size(1) [OF s]]
    have "(r = Inr False) = (w = Inr None) \<and> tc_failure_counter tc' = tc_failure_counter tc2"
      using log s Inr w
      by (auto simp: log_statement_noinline_def Let_def split: sum.splits option.splits prod.splits
          dest: write_statement_counter)
    then have eq: "(r = Inr False) = (w = Inr None)" "tc_failure_counter tc' = tc_failure_counter tc2" by blast+
    show ?thesis unfolding eq(1) by (rule accounted_frame [OF eq(2) a])
  qed
qed

lemma log_statement_cached_accounted:
  assumes log: "log_statement_cached env lb st tc = Some (r, tc')"
  shows "accounted (fe_is_backend_thread env) (ls_event st) tc (r = Inr False) tc'"
proof (cases "lb_clock_source lb = Tsc")
  case False
  with log log_statement_noinline_accounted show ?thesis by (simp add: log_statement_cached_def)
next
  case True
  obtain s tc1 where s: "tc_encoded_size env (ls_args st) tc = (s, tc1)" by fastforce
  note size = accounted_size [OF s]
  show ?thesis
  proof (cases "\<exists>n. s = Inr n \<and> wr_write_buffer (sq_prepare_write_reserve_cached n (tc_spsc_queue tc1)) = None")
    case slow: True
    then have "log_statement_noinline env lb st (fe_rdtsc env) tc1 = Some (r, tc')"
      using log True s by (auto simp: log_statement_cached_def Let_def)
    from log_statement_noinline_accounted [OF this] show ?thesis unfolding size(1) .
  next
    case False
    then have "r \<noteq> Inr False" "tc_failure_counter tc' = tc_failure_counter tc"
      using log True s size(2) by (auto simp: log_statement_cached_def Let_def split: sum.splits option.splits prod.splits
          dest: write_statement_counter)
    then show ?thesis by (simp add: accounted_def)
  qed
qed

definition runtime_events :: "macro_event set" where
  "runtime_events = {LogWithRuntimeMetadataDeepCopy, LogWithRuntimeMetadataShallowCopy, LogWithRuntimeMetadataHybridCopy}"

lemma publish_metric_noinline_accounted:
  assumes log: "publish_metric_noinline env lb st ts tc = Some (r, tc')"
  shows "accounted (fe_is_backend_thread env) (ls_event st) tc (r = Inr False) tc'"
proof -
  obtain w tc1 where w: "reserve_queue_space env s_header_size (ls_event st) tc = Some (w, tc1)"
    using log by (cases "reserve_queue_space env s_header_size (ls_event st) tc") (auto simp: publish_metric_noinline_def)
  have "(r = Inr False) = (w = Inr None) \<and> tc_failure_counter tc' = tc_failure_counter tc1"
    using log w by (auto simp: publish_metric_noinline_def Let_def write_metric_def split: sum.splits option.splits prod.splits)
  then have eq: "(r = Inr False) = (w = Inr None)" "tc_failure_counter tc' = tc_failure_counter tc1" by blast+
  show ?thesis unfolding eq(1) by (rule accounted_frame [OF eq(2) reserve_queue_space_accounted [OF w]])
qed

lemma publish_metric_accounted:
  assumes log: "publish_metric env lb st tc = Some (r, tc')"
  shows "accounted (fe_is_backend_thread env) (ls_event st) tc (r = Inr False) tc'"
proof (cases "\<exists>ts. publish_metric_noinline env lb st ts tc = Some (r, tc')")
  case True
  with publish_metric_noinline_accounted show ?thesis by blast
next
  case False
  with log have "r = Inr True" "tc_failure_counter tc' = tc_failure_counter tc"
    by (auto simp: publish_metric_def Let_def write_metric_def split: option.splits prod.splits if_splits)
  then show ?thesis by (simp add: accounted_def)
qed

lemma runtime_size_accounted:
  assumes "runtime_encoded_size env event rl args tc = (s, tc1)"
  shows "accounted backend e tc1 refused tc2 = accounted backend e tc refused tc2"
    "tc_failure_counter tc1 = tc_failure_counter tc"
  using assms accounted_size
  by (auto simp: runtime_encoded_size_def split: if_splits prod.splits sum.splits)

lemma log_statement_runtime_metadata_accounted:
  assumes log: "log_statement_runtime_metadata env lb st rl tc = Some (r, tc')" and event: "ls_event st \<in> runtime_events"
  shows "accounted (fe_is_backend_thread env) (ls_event st) tc (r = Inr False) tc'"
proof -
  obtain s tc1 where s: "runtime_encoded_size env (ls_event st) rl (ls_args st) tc = (s, tc1)" by fastforce
  have known: "ls_event st \<in> {LogWithRuntimeMetadataDeepCopy, LogWithRuntimeMetadataShallowCopy, LogWithRuntimeMetadataHybridCopy}"
    using event by (auto simp: runtime_events_def)
  show ?thesis
  proof (cases s)
    case (Inl e)
    with log s known have "tc' = tc1" "r = Inl e" by (auto simp: log_statement_runtime_metadata_def Let_def)
    with runtime_size_accounted(2) [OF s] show ?thesis by (simp add: accounted_same)
  next
    case (Inr n)
    obtain w tc2 where w: "reserve_queue_space env n (ls_event st) tc1 = Some (w, tc2)"
      using log s Inr known
      by (cases "reserve_queue_space env n (ls_event st) tc1") (auto simp: log_statement_runtime_metadata_def Let_def)
    note a = reserve_queue_space_accounted [OF w, unfolded runtime_size_accounted(1) [OF s]]
    have "(r = Inr False) = (w = Inr None) \<and> tc_failure_counter tc' = tc_failure_counter tc2"
      using log s Inr w known
      by (auto simp: log_statement_runtime_metadata_def Let_def split: sum.splits option.splits prod.splits)
    then have eq: "(r = Inr False) = (w = Inr None)" "tc_failure_counter tc' = tc_failure_counter tc2" by blast+
    show ?thesis unfolding eq(1) by (rule accounted_frame [OF eq(2) a])
  qed
qed

text \<open>The calls that queue something for a thread: statements, statements with runtime metadata, metrics.\<close>

definition logging_call ::
  "frontend_env \<Rightarrow> logger_base \<Rightarrow> statement \<Rightarrow> thread_context \<Rightarrow> (quill_error + bool) \<times> thread_context \<Rightarrow> bool" where
  "logging_call env lb st tc outcome \<longleftrightarrow>
     log_statement_cached env lb st tc = Some outcome
     \<or> (\<exists>timestamp. log_statement_noinline env lb st timestamp tc = Some outcome)
     \<or> ls_event st \<in> runtime_events \<and> (\<exists>rl. log_statement_runtime_metadata env lb st rl tc = Some outcome)
     \<or> publish_metric env lb st tc = Some outcome
     \<or> (\<exists>timestamp. publish_metric_noinline env lb st timestamp tc = Some outcome)"

lemma logging_call_accounted:
  assumes "logging_call env lb st tc (r, tc')"
  shows "accounted (fe_is_backend_thread env) (ls_event st) tc (r = Inr False) tc'"
  using assms unfolding logging_call_def
  by (elim disjE conjE exE)
    (simp_all add: log_statement_cached_accounted log_statement_noinline_accounted log_statement_runtime_metadata_accounted
      publish_metric_accounted publish_metric_noinline_accounted)

subsection \<open>A blocked writer and the reader\<close>

text \<open>
  What the backend does to the queue of a thread that sleeps: whole reads (find a message, decode it
  where it lies, finish it), as many as it gets to, and one commit of what it has read.
\<close>

definition sq_read :: "(bytes \<Rightarrow> nat) \<Rightarrow> spsc_queue \<Rightarrow> spsc_queue" where
  "sq_read frame q =
     (case sq_prepare_read q of
        (r, q') \<Rightarrow> case rr_read_pos r of
          None \<Rightarrow> q'
        | Some off \<Rightarrow> sq_finish_read (of_nat (frame (drop (unat off) (bq_storage (sq_consumer q'))))) q')"

primrec sq_reads :: "(bytes \<Rightarrow> nat) \<Rightarrow> nat \<Rightarrow> spsc_queue \<Rightarrow> spsc_queue" where
  "sq_reads frame 0 q = sq_commit_read q"
| "sq_reads frame (Suc k) q = sq_reads frame k (sq_read frame q)"

lemma sq_read_bounded: "sq_read frame (BoundedSPSC b) = BoundedSPSC (snd (bq_get frame b))"
  by (auto simp: sq_read_def bq_get_def Let_def split: prod.splits option.splits)

lemma sq_read_unbounded: "sq_read frame (UnboundedSPSC u) = UnboundedSPSC (snd (uq_get frame u))"
  by (auto simp: sq_read_def uq_get_def uq_decode_def Let_def split: prod.splits option.splits)

text \<open>What is left to read: messages, and drained nodes to drop.\<close>

definition sq_left :: "spsc_queue \<Rightarrow> bytes list \<Rightarrow> nat" where
  "sq_left q ms = length ms + (case q of UnboundedSPSC u \<Rightarrow> length (uq_nodes u) - 1 | BoundedSPSC b \<Rightarrow> 0)"

text \<open>What bounds a write, and no read changes.\<close>

definition sq_limits :: "spsc_queue \<Rightarrow> bool \<times> size_t \<times> size_t" where
  "sq_limits q = (case q of UnboundedSPSC u \<Rightarrow> (True, uq_max_capacity u, bq_capacity (uq_producer u))
     | BoundedSPSC b \<Rightarrow> (False, 0, bq_capacity b))"

lemma capacity_write_side: "write_side c = write_side d \<Longrightarrow> bq_capacity c = bq_capacity d"
  by (simp add: write_side_def)

lemma max_capacity_simps [simp]:
  "uq_max_capacity (uq_map_consumer f u) = uq_max_capacity u"
  "uq_max_capacity (uq_map_producer f u) = uq_max_capacity u"
  "uq_max_capacity (uq_switch_node u) = uq_max_capacity u"
  by (simp_all add: uq_map_consumer_def uq_map_producer_def uq_switch_node_def Let_def)

lemma consumer_prepare_read_max: "uq_max_capacity (snd (uq_consumer_prepare_read u)) = uq_max_capacity u"
  by (simp add: uq_consumer_prepare_read_def split: prod.splits)

lemma read_next_max: "uq_max_capacity (snd (uq_read_next_queue u)) = uq_max_capacity u"
  using consumer_prepare_read_max [of u] consumer_prepare_read_max [of "uq_switch_node (snd (uq_consumer_prepare_read u))"]
  by (auto simp: uq_read_next_queue_def Let_def split: prod.splits option.splits)

lemma read_next_length:
  assumes "uq_read_next_queue u = (r, u')" "uq_has_next u"
  shows "length (uq_nodes u') \<le> length (uq_nodes u)"
proof -
  obtain w1 u1 where p1: "uq_consumer_prepare_read u = (w1, u1)" by fastforce
  obtain w2 u2 where p2: "uq_consumer_prepare_read (uq_switch_node u1) = (w2, u2)" by fastforce
  have "uq_nodes u \<noteq> []" using assms(2) by (auto simp: has_next_length)
  note l1 = write_side_consumer_prepare_read(2) [OF p1 this]
  then have n1: "uq_has_next u1" using assms(2) by (simp add: has_next_length)
  note l2 = write_side_consumer_prepare_read(2) [OF p2 write_side_switch(2) [OF n1]]
  have "length (uq_nodes (uq_switch_node u1)) \<le> length (uq_nodes u1)"
    using n1 by (cases "uq_nodes u1") (auto simp: uq_switch_node_def uq_map_consumer_def Let_def)
  with assms(1) p1 p2 l1 l2 show ?thesis by (cases w1) (auto simp: uq_read_next_queue_def Let_def)
qed

lemma uq_get_limits:
  assumes "uq_nodes u \<noteq> []"
  shows "sq_limits (UnboundedSPSC (snd (uq_get frame u))) = sq_limits (UnboundedSPSC u)
    \<and> length (uq_nodes (snd (uq_get frame u))) \<le> length (uq_nodes u)"
proof -
  obtain w u1 where p: "uq_consumer_prepare_read u = (w, u1)" by fastforce
  note s1 = write_side_consumer_prepare_read [OF p assms]
  have m1: "uq_max_capacity u1 = uq_max_capacity u" using consumer_prepare_read_max [of u] p by simp
  obtain r u2 where r: "uq_prepare_read u = (r, u2)" by fastforce
  have s2: "write_side (uq_producer u2) = write_side (uq_producer u)" "uq_nodes u2 \<noteq> []"
    "length (uq_nodes u2) \<le> length (uq_nodes u)" "uq_max_capacity u2 = uq_max_capacity u"
  proof -
    have ne1: "uq_nodes u1 \<noteq> []" using s1 assms by auto
    show "write_side (uq_producer u2) = write_side (uq_producer u)" "uq_nodes u2 \<noteq> []"
      "length (uq_nodes u2) \<le> length (uq_nodes u)" "uq_max_capacity u2 = uq_max_capacity u"
      using p r s1 m1 ne1 write_side_read_next [of u1 r u2] read_next_length [of u1 r u2] read_next_max [of u1]
      by (auto simp: uq_prepare_read_def split: if_splits)
  qed
  have d: "uq_max_capacity (snd (uq_decode frame off u2)) = uq_max_capacity u2"
    "length (uq_nodes (snd (uq_decode frame off u2))) = length (uq_nodes u2)" for off
    using s2(2) by (simp_all add: uq_decode_def Let_def uq_finish_read_def nodes_map_consumer)
  have cap: "bq_capacity (uq_producer (snd (uq_decode frame off u2))) = bq_capacity (uq_producer u)"
    "bq_capacity (uq_producer u2) = bq_capacity (uq_producer u)" for off
    using write_side_decode [OF s2(2), of frame off] s2(1) by (simp_all add: write_side_def)
  have "snd (uq_get frame u) = u2 \<or> (\<exists>off. snd (uq_get frame u) = snd (uq_decode frame off u2))"
  proof (cases "rr_read_pos r")
    case (Some off)
    with r have "snd (uq_get frame u) = snd (uq_decode frame off u2)" by (simp add: uq_get_def split: prod.split)
    then show ?thesis by blast
  qed (use r in \<open>simp add: uq_get_def\<close>)
  then show ?thesis using s2 d cap by (auto simp: sq_limits_def)
qed

lemma bq_get_capacity: "bq_capacity (snd (bq_get frame b)) = bq_capacity b"
  by (auto simp: bq_get_def bq_prepare_read_def bq_empty_def bq_finish_read_def Let_def split: prod.splits option.splits bool.splits)

lemma sq_read_step:
  assumes rel: "sq_rel q ms" and framed: "\<forall>m \<in> set ms. framed frame m"
  obtains ms' where "sq_rel (sq_read frame q) ms'" "set ms' \<subseteq> set ms"
    "sq_left (sq_read frame q) ms' \<le> sq_left q ms - 1" "sq_limits (sq_read frame q) = sq_limits q"
proof (cases q)
  case (BoundedSPSC b)
  have lim: "sq_limits (sq_read frame q) = sq_limits q"
    by (simp add: BoundedSPSC sq_read_bounded sq_limits_def bq_get_capacity)
  show thesis
  proof (cases ms)
    case Nil
    with rel_get [of b ms frame] rel framed BoundedSPSC lim show thesis
      by (intro that [of "[]"]) (simp_all add: sq_read_bounded sq_left_def)
  next
    case (Cons m ms')
    with rel_get [of b ms frame] rel framed BoundedSPSC lim show thesis
      by (intro that [of ms']) (auto simp: sq_read_bounded sq_left_def)
  qed
next
  case (UnboundedSPSC u)
  have rel': "uq_rel u ms" using rel UnboundedSPSC by simp
  note ne = uq_nodes_ne [OF rel']
  obtain r u' where g: "uq_get frame u = (r, u')" by fastforce
  have lim: "sq_limits (sq_read frame q) = sq_limits q" and len: "length (uq_nodes u') \<le> length (uq_nodes u)"
    using uq_get_limits [OF ne, of frame] g by (simp_all add: UnboundedSPSC sq_read_unbounded)
  show thesis
  proof (cases r)
    case (Some m)
    with uq_get_found [OF rel' framed g] obtain ms' where "ms = m # ms'" "uq_rel u' ms'" by auto
    with lim len g show thesis by (intro that [of ms']) (auto simp: UnboundedSPSC sq_read_unbounded sq_left_def)
  next
    case None
    then have "uq_rel u' ms" using uq_get_found [OF rel' framed g] by simp
    moreover have "ms = [] \<and> length (uq_nodes u') = 1 \<or> Suc (length (uq_nodes u')) = length (uq_nodes u)"
      using empty_get_progress [OF rel' framed] g None by simp
    ultimately show thesis using lim g uq_nodes_ne [of u' ms]
      by (intro that [of ms]) (auto simp: UnboundedSPSC sq_read_unbounded sq_left_def Suc_le_eq)
  qed
qed

text \<open>Once everything is read and the reads are committed, the producer has its whole ring back.\<close>

definition sq_released :: "spsc_queue \<Rightarrow> bool" where
  "sq_released q \<longleftrightarrow> bq_writer_pos (sq_producer q) = bq_atomic_reader_pos (sq_producer q)"

lemma bq_released:
  assumes "bq_rel b [] []"
  shows "bq_writer_pos (bq_commit_read b) = bq_atomic_reader_pos (bq_commit_read b)"
proof -
  have "bq_writer_pos b = bq_reader_pos b" "bq_writer_pos_cache b = bq_reader_pos b"
    using assms by (auto simp: bq_rel_def unat_eq_zero)
  then show ?thesis by (simp add: bq_commit_read_def)
qed

lemma commit_read_limits: "sq_rel q ms \<Longrightarrow> sq_limits (sq_commit_read q) = sq_limits q"
proof (cases q)
  case (UnboundedSPSC u)
  assume "sq_rel q ms"
  then have "uq_nodes u \<noteq> []" using UnboundedSPSC uq_nodes_ne by auto
  then have "write_side (uq_producer (uq_map_consumer bq_commit_read u)) = write_side (uq_producer u)"
    by (rule write_side_map_consumer) simp
  with UnboundedSPSC show ?thesis by (simp add: sq_limits_def uq_commit_read_def write_side_def)
qed (simp add: sq_limits_def bq_commit_read_def)

lemma commit_read_left: "sq_left (sq_commit_read q) ms = sq_left q ms" if "sq_rel q ms"
  using that uq_nodes_ne
  by (cases q) (auto simp: sq_left_def uq_commit_read_def nodes_map_consumer length_Suc_conv)

lemma commit_read_released:
  assumes "sq_rel q ms" "sq_left q ms = 0"
  shows "sq_released (sq_commit_read q)"
proof (cases q)
  case (BoundedSPSC b)
  with assms bq_released [of b] show ?thesis by (simp add: sq_left_def sq_released_def)
next
  case (UnboundedSPSC u)
  then have rel: "uq_rel u []" using assms by (simp add: sq_left_def)
  then obtain c where c: "uq_nodes u = [c]"
    using assms(2) UnboundedSPSC uq_nodes_ne [OF rel] by (cases "uq_nodes u") (auto simp: sq_left_def)
  with rel have "bq_rel c [] []" by (auto simp: uq_rel_def list_all2_Cons1)
  with c bq_released [of c] UnboundedSPSC show ?thesis
    by (simp add: sq_released_def uq_commit_read_def uq_map_consumer_def uq_producer_def)
qed

lemma sq_reads_progress:
  assumes "sq_rel q ms" "\<forall>m \<in> set ms. framed frame m"
  obtains ms' where "sq_rel (sq_reads frame k q) ms'" "set ms' \<subseteq> set ms"
    "sq_left (sq_reads frame k q) ms' \<le> sq_left q ms - k" "sq_limits (sq_reads frame k q) = sq_limits q"
    "sq_left (sq_reads frame k q) ms' = 0 \<longrightarrow> sq_released (sq_reads frame k q)"
  using assms
proof (induction k arbitrary: q ms thesis)
  case 0
  show ?case
    using 0(2) sq_commit_read_rel commit_read_left commit_read_limits commit_read_released
    by (intro 0(1) [of ms]) auto
next
  case (Suc k)
  obtain ms1 where s: "sq_rel (sq_read frame q) ms1" "set ms1 \<subseteq> set ms"
    "sq_left (sq_read frame q) ms1 \<le> sq_left q ms - 1" "sq_limits (sq_read frame q) = sq_limits q"
    using Suc.prems(2,3) by (rule sq_read_step)
  from s(2) Suc.prems(3) have "\<forall>m \<in> set ms1. framed frame m" by auto
  with s(1) show ?case
  proof (rule Suc.IH [rotated])
    fix ms' assume r: "sq_rel (sq_reads frame k (sq_read frame q)) ms'" "set ms' \<subseteq> set ms1"
      "sq_left (sq_reads frame k (sq_read frame q)) ms' \<le> sq_left (sq_read frame q) ms1 - k"
      "sq_limits (sq_reads frame k (sq_read frame q)) = sq_limits (sq_read frame q)"
      "sq_left (sq_reads frame k (sq_read frame q)) ms' = 0 \<longrightarrow> sq_released (sq_reads frame k (sq_read frame q))"
    show ?case
      by (rule Suc.prems(1) [of ms']) (use r s in auto)
  qed
qed

text \<open>
  What a writer may wait for: on a bounded queue a message that fits the ring; on an unbounded one
  any addressable message, with the power of two the constructor makes of the maximum.
\<close>

definition may_wait :: "size_t \<Rightarrow> spsc_queue \<Rightarrow> bool" where
  "may_wait n q \<longleftrightarrow> (case q of
     BoundedSPSC b \<Rightarrow> n \<le> bq_capacity b
   | UnboundedSPSC u \<Rightarrow> unat n \<le> 2 ^ 63 \<and> (\<exists>m. unat (uq_max_capacity u) = 2 ^ m)
       \<and> 2 * unat (bq_capacity (uq_producer u)) < 2 ^ 64)"

text \<open>How the wait may end: with space, or because the growth of an unbounded queue throws.\<close>

definition wait_ends :: "size_t \<Rightarrow> spsc_queue \<Rightarrow> quill_error + size_t option \<Rightarrow> bool" where
  "wait_ends n q r \<longleftrightarrow> (case r of
     Inr (Some off) \<Rightarrow> True
   | Inr None \<Rightarrow> False
   | Inl e \<Rightarrow> (\<exists>u. q = UnboundedSPSC u \<and> (uq_max_capacity u < n
       \<or> (\<exists>(c :: size_t) policy. c \<le> uq_max_capacity u \<and> bq_new c policy 5 = Inl e))))"

lemma wait_ends_limits: "sq_limits q' = sq_limits q \<Longrightarrow> wait_ends n q' r = wait_ends n q r"
  by (cases q; cases q') (auto simp: wait_ends_def sq_limits_def split: sum.splits option.splits)

lemma may_wait_limits: "sq_limits q' = sq_limits q \<Longrightarrow> may_wait n q' = may_wait n q"
  by (cases q; cases q') (auto simp: may_wait_def sq_limits_def)

lemma released_grants:
  assumes "bq_inv b" "bq_writer_pos b = bq_atomic_reader_pos b" "bq_prepare_write n b = (None, b')"
  shows "bq_capacity b < n"
  using assms(1,3) by (cases rule: prepare_write_cases) (use assms(2) in \<open>auto simp: word_less_nat_alt\<close>)

lemma prepare_write_capacity: "bq_prepare_write n b = (r, b') \<Longrightarrow> bq_capacity b' = bq_capacity b \<and> bq_huge_pages_policy b' = bq_huge_pages_policy b"
  using prepare_write_cases_fields [of n b r b'] by (auto simp: bq_refresh_def)

lemma sq_attempt:
  assumes rel: "sq_rel q ms" and fits: "may_wait n q"
  obtains r q' where "sq_prepare_write n q = Some (r, q')" "r \<noteq> Inr None \<longrightarrow> wait_ends n q r"
    "r = Inr None \<longrightarrow> sq_rel q' ms \<and> sq_left q' ms = sq_left q ms \<and> sq_limits q' = sq_limits q"
    "sq_released q \<longrightarrow> r \<noteq> Inr None"
proof (cases q)
  case (BoundedSPSC b)
  obtain w b' where w: "bq_prepare_write n b = (w, b')" by fastforce
  have inv: "bq_inv b" using rel BoundedSPSC by (simp add: bq_rel_def)
  have "bq_rel b' ms []" using rel BoundedSPSC prepare_write_rel [OF _ w] by simp
  then show thesis
    using w BoundedSPSC fits prepare_write_capacity [OF w] released_grants [OF inv, of n b']
    by (intro that [of "Inr w" "BoundedSPSC b'"]; cases w)
      (auto simp: sq_left_def sq_limits_def sq_released_def may_wait_def wait_ends_def not_less)
next
  case (UnboundedSPSC u)
  obtain w p where w: "bq_prepare_write n (uq_producer u) = (w, p)" by fastforce
  have rel': "uq_rel u ms" using rel UnboundedSPSC by simp
  have inv: "bq_inv (uq_producer u)" using rel' by (rule uq_nodes_producer_inv)
  let ?u = "uq_map_producer (\<lambda>_. p) u"
  have relu: "uq_rel ?u ms"
    using uq_rel_map_producer [OF rel', of "\<lambda>_. p" "[]"] prepare_write_rel [OF _ w] by simp
  note cap = prepare_write_capacity [OF w]
  have len: "length (uq_nodes ?u) = length (uq_nodes u)"
    using uq_nodes_ne [OF rel'] by (simp add: length_map_producer Suc_le_eq max_def)
  show thesis
  proof (cases w)
    case (Some off)
    with w UnboundedSPSC show thesis
      by (intro that [of "Inr (Some off)" "UnboundedSPSC ?u"]) (simp_all add: uq_prepare_write_def wait_ends_def)
  next
    case None
    then have full: "uq_prepare_write n u = uq_handle_full_queue n ?u" using w by (simp add: uq_prepare_write_def)
    have invu: "bq_inv (uq_producer ?u)" using relu by (rule uq_nodes_producer_inv)
    have addr: "2 * unat (bq_capacity (uq_producer ?u)) < 2 ^ 64" "unat n \<le> 2 ^ 63"
      using fits cap UnboundedSPSC by (simp_all add: may_wait_def)
    obtain k m where km: "unat (bq_capacity (uq_producer u)) = 2 ^ k" "unat (uq_max_capacity u) = 2 ^ m"
      using inv fits UnboundedSPSC by (auto simp: bq_inv_def bq_sized_def may_wait_def)
    show thesis
    proof (rule handle_full_exact [OF invu addr])
      fix c assume c: "doubled_until_fits (unat (bq_capacity (uq_producer ?u))) (unat n) (unat c)"
        and over: "uq_max_capacity ?u < c \<Longrightarrow> uq_max_capacity ?u < n \<Longrightarrow> \<exists>e. uq_handle_full_queue n ?u = Some (Inl (QuillError e), ?u)"
          "uq_max_capacity ?u < c \<Longrightarrow> n \<le> uq_max_capacity ?u \<Longrightarrow> uq_handle_full_queue n ?u = Some (Inr None, ?u)"
        and within: "\<And>e. c \<le> uq_max_capacity ?u \<Longrightarrow> bq_new c (bq_huge_pages_policy (uq_producer ?u)) 5 = Inl e \<Longrightarrow>
            uq_handle_full_queue n ?u = Some (Inl e, uq_commit_write ?u)"
          "\<And>fresh. c \<le> uq_max_capacity ?u \<Longrightarrow> bq_new c (bq_huge_pages_policy (uq_producer ?u)) 5 = Inr fresh \<Longrightarrow>
            \<exists>off node. bq_prepare_write n fresh = (Some off, node) \<and> bq_capacity node = c
              \<and> uq_handle_full_queue n ?u = Some (Inr (Some off), uq_append_node node (uq_commit_write ?u))"
      consider (oversize) "uq_max_capacity u < c" "uq_max_capacity u < n" | (at_max) "uq_max_capacity u < c" "n \<le> uq_max_capacity u"
        | (grows) "c \<le> uq_max_capacity u" by (meson not_less)
      then show thesis
      proof cases
        case oversize
        then obtain e where "uq_handle_full_queue n ?u = Some (Inl (QuillError e), ?u)" using over(1) by auto
        with full UnboundedSPSC oversize show thesis
          by (intro that [of "Inl (QuillError e)" "UnboundedSPSC ?u"]) (auto simp: wait_ends_def)
      next
        case at_max
        have "unat (uq_max_capacity u) < 2 * unat (bq_capacity (uq_producer u))"
          by (rule refused_needs_twice [OF km(2,1) _ at_max]) (use c cap in simp)
        with km have "(2 :: nat) ^ m < 2 ^ Suc k" by simp
        then have "m \<le> k" by (simp only: power_strict_increasing_iff less_Suc_eq_le)
        with km have mx: "uq_max_capacity u \<le> bq_capacity (uq_producer u)" by (simp add: word_le_nat_alt)
        have "\<not> sq_released q"
          using released_grants [OF inv, of n p] w None mx at_max(2) UnboundedSPSC by (auto simp: sq_released_def)
        moreover have "uq_handle_full_queue n ?u = Some (Inr None, ?u)" using over(2) at_max by simp
        ultimately show thesis using full UnboundedSPSC relu cap len
          by (intro that [of "Inr None" "UnboundedSPSC ?u"]) (simp_all add: sq_left_def sq_limits_def)
      next
        case grows
        show thesis
        proof (cases "bq_new c (bq_huge_pages_policy (uq_producer ?u)) 5")
          case (Inl e)
          with within(1) grows full UnboundedSPSC show thesis
            by (intro that [of "Inl e" "UnboundedSPSC (uq_commit_write ?u)"]) (auto simp: wait_ends_def)
        next
          case (Inr fresh)
          with within(2) grows obtain off node where "uq_handle_full_queue n ?u
            = Some (Inr (Some off), uq_append_node node (uq_commit_write ?u))" by auto
          with full UnboundedSPSC show thesis
            by (intro that [of "Inr (Some off)" "UnboundedSPSC (uq_append_node node (uq_commit_write ?u))"])
              (simp_all add: wait_ends_def)
        qed
      qed
    qed
  qed
qed

text \<open>However many attempts fail: once the reads cover what was left, the next attempt is the last.\<close>

lemma retry_released:
  assumes reader: "\<forall>i tc. tc_spsc_queue (fe_meanwhile env i tc) = sq_reads frame (k i) (tc_spsc_queue tc)"
    and "sq_rel (tc_spsc_queue tc) ms" "\<forall>m \<in> set ms. framed frame m" "may_wait n (tc_spsc_queue tc)"
    and "sq_left (tc_spsc_queue tc) ms \<le> sum k {j..<j + Suc d}"
  shows "\<exists>r tc'. retry_prepare_write env j n tc = Some (r, tc') \<and> wait_ends n (tc_spsc_queue tc) r"
  using assms(2-5)
proof (induction d arbitrary: j tc ms rule: less_induct)
  case (less d)
  note rel = less.prems(1) and framed = less.prems(2) and fits = less.prems(3) and left = less.prems(4)
  let ?q = "tc_spsc_queue tc" and ?q1 = "sq_reads frame (k j) (tc_spsc_queue tc)"
  obtain ms1 where r1: "sq_rel ?q1 ms1" "set ms1 \<subseteq> set ms" "sq_left ?q1 ms1 \<le> sq_left ?q ms - k j"
    "sq_limits ?q1 = sq_limits ?q" "sq_left ?q1 ms1 = 0 \<longrightarrow> sq_released ?q1"
    using rel framed by (rule sq_reads_progress [where k = "k j"])
  have "may_wait n ?q1" using fits may_wait_limits [OF r1(4)] by simp
  with r1(1) obtain r q' where a: "sq_prepare_write n ?q1 = Some (r, q')" "r \<noteq> Inr None \<longrightarrow> wait_ends n ?q1 r"
    "r = Inr None \<longrightarrow> sq_rel q' ms1 \<and> sq_left q' ms1 = sq_left ?q1 ms1 \<and> sq_limits q' = sq_limits ?q1"
    "sq_released ?q1 \<longrightarrow> r \<noteq> Inr None"
    by (rule sq_attempt)
  let ?tc = "fe_meanwhile env j tc\<lparr>tc_spsc_queue := q'\<rparr>"
  have p: "tc_prepare_write n (fe_meanwhile env j tc) = Some (r, ?tc)"
    using a(1) reader by (simp add: tc_prepare_write_def)
  show ?case
  proof (cases "r = Inr None")
    case False
    with p a(2) wait_ends_limits [OF r1(4)] show ?thesis
      by (auto simp: retry_prepare_write.simps [of env j] split: sum.splits option.splits)
  next
    case True
    note q' = a(3) [THEN mp, OF True]
    have l: "sq_left q' ms1 \<le> sum k {Suc j..<Suc j + d}"
    proof -
      have "sum k {j..<j + Suc d} = k j + sum k {Suc j..<Suc j + d}" using sum.atLeast_Suc_lessThan [of j "j + Suc d" k] by simp
      with left r1(3) q' show ?thesis by linarith
    qed
    then obtain d' where d: "d = Suc d'" using a(4) r1(5) q' True by (cases d) auto
    have "may_wait n q'" using fits may_wait_limits [of q' ?q] q' r1(4) by simp
    then obtain r' tc' where "retry_prepare_write env (Suc j) n ?tc = Some (r', tc')" "wait_ends n q' r'"
      using less.IH [of d' ?tc ms1 "Suc j"] q' r1(2) framed l d by auto
    moreover have "wait_ends n q' r' = wait_ends n ?q r'" using q' r1(4) by (intro wait_ends_limits) simp
    ultimately show ?thesis using p True by (simp add: retry_prepare_write.simps [of env j])
  qed
qed

subsection \<open>Statements with runtime metadata\<close>

text \<open>The hybrid layout is the one the codec has for these arguments.\<close>

definition hybrid_copy_args :: "runtime_location \<Rightarrow> log_arg list" where
  "hybrid_copy_args rl = [ArgCString (c_chars (rl_fmt rl)), pointer_arg (rl_file rl), pointer_arg (rl_function rl),
     ArgCString (c_chars (rl_tags rl)), line_arg (rl_line rl), level_arg (rl_level rl)]"

definition runtime_args :: "macro_event \<Rightarrow> runtime_location \<Rightarrow> log_arg list" where
  "runtime_args event rl =
     (if event = LogWithRuntimeMetadataDeepCopy then deep_copy_args rl
      else if event = LogWithRuntimeMetadataShallowCopy then shallow_copy_args rl
      else hybrid_copy_args rl)"

lemma args_bytes_simps [simp]:
  "args_bytes [] = []"
  "args_bytes (a # as) = arg_bytes a @ args_bytes as"
  "args_bytes (as @ bs) = args_bytes as @ args_bytes bs"
  by (simp_all add: args_bytes_def)

lemma encodes_without_cache:
  assumes "iv_rel 12 cache xs" "\<forall>arg \<in> set args. arg_ok arg \<and> arg_lens arg = []"
  shows "encodes cache args"
proof -
  have "concat (map arg_lens args) = []" using assms(2) by simp
  with encode_args_bytes [OF assms(1), of args 0] assms(2) show ?thesis
    by (fastforce simp: encodes_def encode_def args_bytes_def slice_def)
qed

lemma encode_c_string_bytes:
  assumes ok: "arg_ok (ArgCString (c_chars s))" and room: "off + length (arg_bytes (ArgCString (c_chars s))) \<le> length mem"
  shows "encode_c_string s (hybrid_len s) (mem, off)
      = (splice off (arg_bytes (ArgCString (c_chars s))) mem, off + length (arg_bytes (ArgCString (c_chars s))))
    \<and> unat (hybrid_len s) = length (arg_bytes (ArgCString (c_chars s)))"
proof -
  let ?s = "take (max_encoded_length - 1) (case c_chars s of None \<Rightarrow> [] | Some s \<Rightarrow> s)"
  have len: "unat (hybrid_len s) = length ?s + 1" using c_string_length [OF ok] by (simp add: hybrid_len_def)
  then have len1: "unat (hybrid_len s - 1) = length ?s" by (simp add: unat_minus_one unat_gt_0 [symmetric])
  have "(case s of Some (_, chars) \<Rightarrow> splice off (take (unat (hybrid_len s - 1)) chars) mem | None \<Rightarrow> mem) = splice off ?s mem"
    unfolding len1 by (cases s) (auto simp: c_chars_def splice_def min_def)
  then show ?thesis
    using len len1 room splice_adjacent [of off ?s "[0]" mem] by (simp add: encode_c_string_def Let_def)
qed

lemma fixed_args_ok:
  "arg_ok (pointer_arg s)" "arg_lens (pointer_arg s) = []" "length (arg_bytes (pointer_arg s)) = 8"
  "arg_ok (line_arg l)" "arg_lens (line_arg l) = []" "length (arg_bytes (line_arg l)) = 4"
  "arg_ok (level_arg v)" "arg_lens (level_arg v) = []" "length (arg_bytes (level_arg v)) = 1"
  by (simp_all add: pointer_arg_def line_arg_def level_arg_def)

lemma encode_next:
  assumes "encodes cache args" "off + length xs + length (args_bytes args) \<le> length mem" "n = off + length xs"
  shows "encode cache args (splice off xs mem) n
    = Inr (splice off (xs @ args_bytes args) mem, n + length (args_bytes args))"
  using assms splice_adjacent [of off xs "args_bytes args" mem] by (simp add: encodes_def)

lemma hybrid_encode_bytes:
  assumes cache: "iv_rel 12 cache xs" and enc: "encodes cache args"
    and ok: "\<forall>arg \<in> set (hybrid_copy_args rl). arg_ok arg"
    and room: "off + length (args_bytes (hybrid_copy_args rl @ args)) \<le> length mem"
  shows "hybrid_encode cache rl args (mem, off) = Inr (splice off (args_bytes (hybrid_copy_args rl @ args)) mem,
    off + length (args_bytes (hybrid_copy_args rl @ args)))"
proof -
  let ?f = "arg_bytes (ArgCString (c_chars (rl_fmt rl)))" and ?t = "arg_bytes (ArgCString (c_chars (rl_tags rl)))"
  let ?p = "args_bytes [pointer_arg (rl_file rl), pointer_arg (rl_function rl)]"
  let ?v = "args_bytes [line_arg (rl_line rl), level_arg (rl_level rl)]"
  let ?a = "args_bytes args"
  have all: "args_bytes (hybrid_copy_args rl @ args) = ?f @ ?p @ ?t @ ?v @ ?a"
    by (simp add: hybrid_copy_args_def del: arg_bytes.simps)
  have f: "arg_ok (ArgCString (c_chars (rl_fmt rl)))" and t: "arg_ok (ArgCString (c_chars (rl_tags rl)))"
    using ok by (simp_all add: hybrid_copy_args_def)
  have e: "encodes cache [pointer_arg (rl_file rl), pointer_arg (rl_function rl)]"
    "encodes cache [line_arg (rl_line rl), level_arg (rl_level rl)]"
    by (rule encodes_without_cache [OF cache]; simp add: fixed_args_ok)+
  have room: "off + length (?f @ ?p @ ?t @ ?v @ ?a) \<le> length mem" using room unfolding all .
  have 1: "encode_c_string (rl_fmt rl) (hybrid_len (rl_fmt rl)) (mem, off) = (splice off ?f mem, off + length ?f)"
    using encode_c_string_bytes [OF f, of off mem] room by simp
  have 2: "encode cache [pointer_arg (rl_file rl), pointer_arg (rl_function rl)] (splice off ?f mem) (off + length ?f)
      = Inr (splice off (?f @ ?p) mem, off + length ?f + length ?p)"
    by (rule encode_next [OF e(1)]) (use room in simp_all)
  have 3: "encode_c_string (rl_tags rl) (hybrid_len (rl_tags rl)) (splice off (?f @ ?p) mem, off + length ?f + length ?p)
      = (splice off ((?f @ ?p) @ ?t) mem, off + length ?f + length ?p + length ?t)"
    using encode_c_string_bytes [OF t, of "off + length ?f + length ?p" "splice off (?f @ ?p) mem"] room
      splice_adjacent [of off "?f @ ?p" ?t mem] by (simp add: add.assoc del: arg_bytes.simps)
  have 4: "encode cache [line_arg (rl_line rl), level_arg (rl_level rl)] (splice off ((?f @ ?p) @ ?t) mem)
        (off + length ?f + length ?p + length ?t)
      = Inr (splice off (((?f @ ?p) @ ?t) @ ?v) mem, off + length ?f + length ?p + length ?t + length ?v)"
    by (rule encode_next [OF e(2)]) (use room in simp_all)
  have 5: "encode cache args (splice off (((?f @ ?p) @ ?t) @ ?v) mem) (off + length ?f + length ?p + length ?t + length ?v)
      = Inr (splice off ((((?f @ ?p) @ ?t) @ ?v) @ ?a) mem, off + length ?f + length ?p + length ?t + length ?v + length ?a)"
    by (rule encode_next [OF enc]) (use room in simp_all)
  show ?thesis unfolding all hybrid_encode_def Let_def 1 prod.case 2 sum.case 3 4 5
    by (simp only: append_assoc length_append add.assoc)
qed

definition runtime_encodes :: "macro_event \<Rightarrow> runtime_location \<Rightarrow> log_arg list \<Rightarrow> size_cache \<Rightarrow> bool" where
  "runtime_encodes event rl args cache \<longleftrightarrow> (\<forall>mem off. off + length (args_bytes (runtime_args event rl @ args)) \<le> length mem \<longrightarrow>
     runtime_encode event rl args cache (mem, off) = Inr (splice off (args_bytes (runtime_args event rl @ args)) mem,
       off + length (args_bytes (runtime_args event rl @ args))))"

lemma args_ok_append: "args_ok (as @ bs) \<Longrightarrow> args_ok bs"
  by (auto simp: args_ok_def)

lemma runtime_encoded_size_rel:
  assumes rel: "tc_rel tc ms" and event: "event \<in> runtime_events" and args: "args_ok (runtime_args event rl @ args)"
    and size: "runtime_encoded_size env event rl args tc = (r, tc1)"
  shows "tc_rel tc1 ms \<and> tc_spsc_queue tc1 = tc_spsc_queue tc
    \<and> (\<forall>n. r = Inr n \<longrightarrow> unat n = 32 + length (args_bytes (runtime_args event rl @ args))
      \<and> runtime_encodes event rl args (tc_conditional_arg_size_cache tc1))"
proof (cases "event = LogWithRuntimeMetadataHybridCopy")
  case False
  then have "tc_encoded_size env (runtime_args event rl @ args) tc = (r, tc1)"
    using size event by (auto simp: runtime_encoded_size_def runtime_args_def runtime_events_def)
  from tc_encoded_size_rel [OF rel args this] False event show ?thesis
    by (auto simp: runtime_encodes_def encodes_def runtime_encode_def runtime_args_def runtime_events_def)
next
  case True
  then have ra: "runtime_args event rl = hybrid_copy_args rl" by (simp add: runtime_args_def)
  obtain s tc2 where s: "tc_encoded_size env args tc = (s, tc2)" by fastforce
  note sz = tc_encoded_size_rel [OF rel args_ok_append [OF args] s]
  have tc1: "tc1 = tc2" using size s True by (auto simp: runtime_encoded_size_def split: sum.splits)
  show ?thesis
  proof (cases s)
    case (Inl e)
    with size s True sz tc1 show ?thesis by (auto simp: runtime_encoded_size_def)
  next
    case (Inr n0)
    let ?f = "ucast (hybrid_len (rl_fmt rl)) :: size_t" and ?t = "ucast (hybrid_len (rl_tags rl)) :: size_t"
    let ?F = "length (arg_bytes (ArgCString (c_chars (rl_fmt rl))))" and ?T = "length (arg_bytes (ArgCString (c_chars (rl_tags rl))))"
    have ok: "\<forall>arg \<in> set (hybrid_copy_args rl). arg_ok arg" using args by (simp add: args_ok_def ra)
    then have f: "arg_ok (ArgCString (c_chars (rl_fmt rl)))" and t: "arg_ok (ArgCString (c_chars (rl_tags rl)))"
      by (simp_all add: hybrid_copy_args_def)
    have lf: "unat ?f = ?F"
      using encode_c_string_bytes [OF f, of 0 "replicate ?F 0"] by (simp add: ucast_32_64 del: arg_bytes.simps)
    have lt: "unat ?t = ?T"
      using encode_c_string_bytes [OF t, of 0 "replicate ?T 0"] by (simp add: ucast_32_64 del: arg_bytes.simps)
    have len: "length (args_bytes (hybrid_copy_args rl @ args)) = ?F + ?T + 21 + length (args_bytes args)"
      by (simp add: hybrid_copy_args_def fixed_args_ok del: arg_bytes.simps)
    have n0: "unat n0 = 32 + length (args_bytes args)" and enc: "encodes (tc_conditional_arg_size_cache tc2) args"
      using sz Inr by auto
    have small: "32 + (?F + ?T + 21 + length (args_bytes args)) < 2 ^ 64"
      using args unfolding args_ok_def ra len by blast
    have "unat (n0 + (?f + 8 * 2 + ?t + 4 + 1)) = 32 + (?F + ?T + 21 + length (args_bytes args))"
      using small lf lt n0 by (simp add: unat_word_ariths del: arg_bytes.simps)
    moreover have "r = Inr (n0 + (?f + 8 * 2 + ?t + 4 + 1))"
      using size s True Inr by (auto simp: runtime_encoded_size_def)
    moreover obtain xs where "iv_rel 12 (tc_conditional_arg_size_cache tc2) xs" using sz by (auto simp: tc_rel_def)
    then have "runtime_encodes event rl args (tc_conditional_arg_size_cache tc2)"
      using hybrid_encode_bytes [OF _ enc ok] True
      by (simp add: runtime_encodes_def runtime_encode_def runtime_args_def del: args_bytes_simps)
    ultimately show ?thesis using sz len ra tc1 by simp
  qed
qed

text \<open>The statement whose arguments start with the metadata.\<close>

definition with_runtime_args :: "runtime_location \<Rightarrow> statement \<Rightarrow> statement" where
  "with_runtime_args rl st = st\<lparr>ls_args := runtime_args (ls_event st) rl @ ls_args st\<rparr>"

lemma runtime_statement_accepted:
  assumes rel: "tc_rel tc ms" and event: "ls_event st \<in> runtime_events"
    and args: "args_ok (ls_args (with_runtime_args rl st))" and env: "meanwhile_reads env"
    and s: "runtime_encoded_size env (ls_event st) rl (ls_args st) tc = (Inr n, tc1)"
    and w: "reserve_queue_space env n (ls_event st) tc1 = Some (Inr (Some off), tc2)"
  shows "\<exists>tc'. log_statement_runtime_metadata env lb st rl tc = Some (Inr True, tc')
    \<and> logged tc' ms True (statement_bytes (statement_time env lb) (with_runtime_args rl st))"
proof -
  let ?t = "statement_time env lb" and ?st = "with_runtime_args rl st" and ?ev = "ls_event st"
  let ?h = "header_bytes ?t (ls_metadata st) (ls_logger st) (ls_decoder st)" and ?a = "args_bytes (ls_args ?st)"
  let ?mem = "bq_storage (sq_producer (tc_spsc_queue tc2))"
  have bytes: "statement_bytes ?t ?st = ?h @ ?a" by (simp add: statement_bytes_def with_runtime_args_def)
  have args': "args_ok (runtime_args ?ev rl @ ls_args st)" using args by (simp add: with_runtime_args_def)
  note sz = runtime_encoded_size_rel [OF rel event args' s]
  then have n: "unat n = 32 + length ?a" and enc: "runtime_encodes ?ev rl (ls_args st) (tc_conditional_arg_size_cache tc1)"
    by (auto simp: with_runtime_args_def)
  have "reserved n tc1 ms (Inr (Some off)) tc2"
    by (rule reserve_queue_space_reserved [OF w env]) (use sz in \<open>auto simp: tc_rel_def\<close>)
  then obtain k where k: "sq_rel (tc_spsc_queue tc2) (drop k ms)"
    and cache: "tc_conditional_arg_size_cache tc2 = tc_conditional_arg_size_cache tc1"
    and ready: "sq_ready (tc_spsc_queue tc2) (unat n) off"
    by (auto simp: reserved_def)
  have rel2: "tc_rel tc2 (drop k ms)" using k cache sz by (simp add: tc_rel_def)
  have room: "unat off + (32 + length ?a) \<le> length ?mem" using sq_ready_room [OF k ready] n by simp
  then have head: "encode_header ?t (ls_metadata st) (ls_logger st) (ls_decoder st) ?mem (unat off)
      = (splice (unat off) ?h ?mem, unat off + 32)" by (intro encode_header_eq) simp
  have body: "runtime_encode ?ev rl (ls_args st) (tc_conditional_arg_size_cache tc2) (splice (unat off) ?h ?mem, unat off + 32)
      = Inr (splice (unat off) (statement_bytes ?t ?st) ?mem, unat off + 32 + length ?a)"
    using enc room splice_adjacent [of "unat off" ?h ?a ?mem]
    unfolding cache bytes by (simp add: runtime_encodes_def with_runtime_args_def del: args_bytes_simps)
  let ?tc' = "tc2\<lparr>tc_spsc_queue := sq_finish_and_commit_write n
      (sq_write_memory (splice (unat off) (statement_bytes ?t ?st) ?mem) (tc_spsc_queue tc2))\<rparr>"
  have "log_statement_runtime_metadata env lb st rl tc = Some (Inr True, ?tc')"
    using s w event head body
    by (auto simp: log_statement_runtime_metadata_def runtime_events_def [symmetric] statement_time_def [symmetric] Let_def)
  moreover have "logged ?tc' ms True (statement_bytes ?t ?st)"
    using rel2 statement_committed [OF k n ready, of ?t] by (intro loggedI [of _ k]) (simp add: tc_rel_def)
  ultimately show ?thesis by blast
qed

lemma runtime_statement_logged:
  assumes rel: "tc_rel tc ms" and event: "ls_event st \<in> runtime_events"
    and args: "args_ok (ls_args (with_runtime_args rl st))" and env: "meanwhile_reads env"
    and log: "log_statement_runtime_metadata env lb st rl tc = Some (r, tc')"
  shows "logged tc' ms (r = Inr True) (statement_bytes (statement_time env lb) (with_runtime_args rl st))"
proof -
  note unfold = log_statement_runtime_metadata_def runtime_events_def [symmetric] Let_def
  obtain s tc1 where s: "runtime_encoded_size env (ls_event st) rl (ls_args st) tc = (s, tc1)" by fastforce
  have args': "args_ok (runtime_args (ls_event st) rl @ ls_args st)" using args by (simp add: with_runtime_args_def)
  note sz = runtime_encoded_size_rel [OF rel event args' s]
  show ?thesis
  proof (cases s)
    case (Inl e)
    with log s sz event show ?thesis by (intro not_loggedI0) (auto simp: unfold)
  next
    case (Inr n)
    obtain w tc2 where w: "reserve_queue_space env n (ls_event st) tc1 = Some (w, tc2)"
      using log s Inr event by (cases "reserve_queue_space env n (ls_event st) tc1") (auto simp: unfold)
    show ?thesis
    proof (cases "\<exists>off. w = Inr (Some off)")
      case False
      with log s Inr w event have "tc' = tc2" "r \<noteq> Inr True"
        by (auto simp: unfold split: sum.splits option.splits)
      moreover have "reserved n tc1 ms w tc2"
        by (rule reserve_queue_space_reserved [OF w env]) (use sz in \<open>auto simp: tc_rel_def\<close>)
      then obtain k where "tc_rel tc2 (drop k ms)" using sz by (auto simp: reserved_def tc_rel_def)
      ultimately show ?thesis by (intro not_loggedI) simp_all
    next
      case True
      then obtain off where "w = Inr (Some off)" by blast
      with runtime_statement_accepted [OF rel event args env, of n tc1 off tc2 lb] s Inr w
      obtain tc'' where "log_statement_runtime_metadata env lb st rl tc = Some (Inr True, tc'')"
        "logged tc'' ms True (statement_bytes (statement_time env lb) (with_runtime_args rl st))" by auto
      with log show ?thesis by auto
    qed
  qed
qed

subsection \<open>Properties\<close>

text \<open>
  C13. A log statement reaches the queue whole or not at all: whatever the clock source, the
  queue kind and the path taken (fast reservation, slow path, blocking retries), when
  \<^verbatim>\<open>log_statement\<close> answers true the queue holds the messages it held before, less those the
  backend has read meanwhile, followed by exactly the statement's header and encoded
  arguments; when it answers false or throws, nothing is added.
\<close>

theorem statement_published:
  assumes "tc_rel tc ms" "args_ok (ls_args st)" "meanwhile_reads env" "tsc_started env lb"
    and "log_statement_cached env lb st tc = Some (r, tc')"
  shows "\<exists>k. tc_rel tc' (drop k ms @ (if r = Inr True then [statement_bytes (statement_time env lb) st] else []))"
  using log_statement_cached_published [OF assms] by (simp add: logged_def)

text \<open>
  The three ways to copy runtime metadata write what the argument codec would write for the
  corresponding argument list: in particular the hand-written hybrid layout, with its lengths
  kept outside the size cache, is that of a deep-copied format and tags and shallow-copied file
  and function, followed by the user's arguments.
\<close>

theorem runtime_statement_published:
  assumes "tc_rel tc ms" "ls_event st \<in> runtime_events" "args_ok (ls_args (with_runtime_args rl st))" "meanwhile_reads env"
    and "log_statement_runtime_metadata env lb st rl tc = Some (r, tc')"
  shows "\<exists>k. tc_rel tc' (drop k ms
    @ (if r = Inr True then [statement_bytes (statement_time env lb) (with_runtime_args rl st)] else []))"
  using runtime_statement_logged [OF assms] by (simp add: logged_def)

text \<open>
  C14. Nothing disappears silently. Whichever call writes a statement, a statement with runtime
  metadata or a metric: on a dropping queue a refused one increments the failure counter by one if
  it is a log statement (of any of the four kinds) or a metric (control events are retried, so
  they are not counted) and every other outcome leaves it alone; on a blocking queue a frontend
  thread's statement is never refused; the backend thread's own statements never touch the
  counter there.
\<close>

theorem drops_are_counted:
  assumes "logging_call env lb st tc (r, tc')"
  shows "(dropping tc \<longrightarrow> tc_failure_counter tc' = tc_failure_counter tc
        + (if r = Inr False \<and> ls_event st \<in> insert Log (insert Metric runtime_events) then 1 else 0))
    \<and> (\<not> dropping tc \<longrightarrow> \<not> fe_is_backend_thread env \<longrightarrow> r \<noteq> Inr False)
    \<and> (\<not> dropping tc \<longrightarrow> fe_is_backend_thread env \<longrightarrow> tc_failure_counter tc' = tc_failure_counter tc)"
  using logging_call_accounted [OF assms]
  by (auto simp: accounted_def drop_count_def counts_as_dropped_def runtime_events_def)

text \<open>
  C15. A blocked writer is released. The queue of a blocking kind holds the messages \<open>ms\<close>, each one
  that the backend's decoder delimits (\<open>framed\<close>; every statement is, by \<open>statement_framed\<close>), and before
  its \<open>i\<close>-th retry the backend makes \<open>k i\<close> whole reads and commits them. As soon as the reads
  add up to the messages waiting (and, on an unbounded queue, the drained nodes to drop), so at
  the latest after that many retries when each finds one more read, \<^verbatim>\<open>_reserve_queue_space\<close>
  has returned: on a bounded queue, for a message that fits the capacity, with space; on an
  unbounded one, for a message of at most \<open>2 ^ 63\<close> bytes, with space or with the exception for a message
  over the maximum or for a node that cannot be constructed.
\<close>

theorem blocked_writer_released:
  assumes "sq_rel (tc_spsc_queue tc) ms" "\<forall>m \<in> set ms. framed frame m" "may_wait n (tc_spsc_queue tc)"
    and "tc_queue_type tc = (case tc_spsc_queue tc of BoundedSPSC _ \<Rightarrow> BoundedBlocking | UnboundedSPSC _ \<Rightarrow> UnboundedBlocking)"
    and "\<not> fe_is_backend_thread env"
    and "\<forall>i tc. tc_spsc_queue (fe_meanwhile env i tc) = sq_reads frame (k i) (tc_spsc_queue tc)"
    and "sq_left (tc_spsc_queue tc) ms \<le> sum k {..i}"
  shows "\<exists>r tc'. reserve_queue_space env n event tc = Some (r, tc') \<and> wait_ends n (tc_spsc_queue tc) r"
proof -
  obtain r q' where a: "sq_prepare_write n (tc_spsc_queue tc) = Some (r, q')" "r \<noteq> Inr None \<longrightarrow> wait_ends n (tc_spsc_queue tc) r"
    "r = Inr None \<longrightarrow> sq_rel q' ms \<and> sq_left q' ms = sq_left (tc_spsc_queue tc) ms \<and> sq_limits q' = sq_limits (tc_spsc_queue tc)"
    using assms(1,3) by (rule sq_attempt)
  let ?tc = "increment_failure_counter (tc\<lparr>tc_spsc_queue := q'\<rparr>)"
  have p: "tc_prepare_write n tc = Some (r, tc\<lparr>tc_spsc_queue := q'\<rparr>)" using a(1) by (simp add: tc_prepare_write_def)
  show ?thesis
  proof (cases "r = Inr None")
    case False
    with p a(2) show ?thesis by (auto simp: reserve_queue_space_def split: sum.splits option.splits)
  next
    case True
    note q' = a(3) [THEN mp, OF True]
    have fits: "may_wait n q'" using assms(3) q' may_wait_limits [of q'] by simp
    have "\<exists>r tc'. retry_prepare_write env 0 n ?tc = Some (r, tc') \<and> wait_ends n (tc_spsc_queue ?tc) r"
      by (rule retry_released [OF assms(6) _ assms(2), where d = i])
        (use q' fits assms(7) in \<open>simp_all add: increment_failure_counter_def atLeast0LessThan lessThan_Suc_atMost\<close>)
    moreover have "\<not> (tc_queue_type tc = BoundedBlocking \<and> n > sq_capacity q')"
      using fits q' assms(4) by (cases q'; cases "tc_spsc_queue tc") (auto simp: may_wait_def sq_limits_def)
    moreover have "\<not> dropping tc" using assms(4) by (simp add: dropping_def split: spsc_queue.splits)
    moreover have "wait_ends n q' r' = wait_ends n (tc_spsc_queue tc) r'" for r' using q' by (intro wait_ends_limits) simp
    ultimately show ?thesis using p True assms(5)
      by (auto simp: reserve_queue_space_def dropping_def increment_failure_counter_def)
  qed
qed

subsection \<open>Witnesses\<close>

definition example_env :: frontend_env where
  "example_env = \<lparr>fe_is_backend_thread = False, fe_allocates = True, fe_rdtsc = 5, fe_system_time_ns = 9,
     fe_user_clock = None, fe_meanwhile = (\<lambda>_ tc. tc)\<rparr>"

definition example_logger :: logger_base where
  "example_logger = \<lparr>lb_logger_name = ''root'', lb_sinks = [1], lb_clock_source = Tsc,
     lb_message_flush_threshold = 0, lb_messages_since_last_flush = 0, lb_log_level = Info,
     lb_backtrace_flush_level = NoneLevel, lb_valid = True, lb_backtrace_storage = None\<rparr>"

definition example_context :: "queue_type \<Rightarrow> thread_context" where
  "example_context qt = (case tc_new qt 64 64 Never 1 ''main'' of Inr tc \<Rightarrow> tc)"

definition example_statement :: statement where
  "example_statement = \<lparr>ls_metadata = 7, ls_event = Log, ls_logger = 8, ls_decoder = 3,
     ls_args = [ArgCString (Some [104, 105]), ArgFixed [4]]\<rparr>"

lemma example_context_new:
  "tc_new BoundedDropping 64 64 Never 1 ''main'' = Inr (example_context BoundedDropping)"
  "tc_new BoundedBlocking 64 64 Never 1 ''main'' = Inr (example_context BoundedBlocking)"
  by (simp_all add: example_context_def) code_simp+

lemma tc_new_tc_rel:
  assumes "tc_new qt initial mx policy tid name = Inr tc"
  shows "tc_rel tc []"
proof -
  have "iv_rel 12 size_cache_new []" unfolding size_cache_new_def by (rule iv_new_rel) simp
  moreover have "tc_conditional_arg_size_cache tc = size_cache_new"
    using assms by (auto simp: tc_new_def split: sum.splits)
  ultimately show ?thesis using tc_new_rel [OF assms] by (auto simp: tc_rel_def)
qed

lemmas example_context_rel = example_context_new [THEN tc_new_tc_rel]

lemma example_args_ok: "args_ok (ls_args example_statement)"
  by (simp add: args_ok_def example_statement_def args_bytes_def max_encoded_length_def)

lemma example_env_reads: "meanwhile_reads example_env"
  by (auto simp: meanwhile_reads_def example_env_def intro: exI [of _ 0])

lemma example_statement_logged:
  "map_option fst (log_statement_cached example_env example_logger example_statement (example_context BoundedDropping))
    = Some (Inr True)"
  by code_simp

theorem statement_published_witness:
  "\<exists>tc' k. tc_rel tc' (drop k [] @ [statement_bytes 5 example_statement])"
proof -
  obtain tc' where "log_statement_cached example_env example_logger example_statement (example_context BoundedDropping)
      = Some (Inr True, tc')"
    using example_statement_logged by auto
  moreover have "tsc_started example_env example_logger" "statement_time example_env example_logger = 5"
    by (simp_all add: tsc_started_def statement_time_def example_env_def example_logger_def)
  ultimately show ?thesis
    using statement_published [OF example_context_rel(1) example_args_ok example_env_reads, of example_logger] by fastforce
qed

definition example_location :: runtime_location where
  "example_location = \<lparr>rl_fmt = Some (100, [123, 125]), rl_file = Some (200, [97]), rl_function = None,
     rl_tags = None, rl_line = 12, rl_level = Info\<rparr>"

definition example_runtime_statement :: statement where
  "example_runtime_statement = example_statement\<lparr>ls_event := LogWithRuntimeMetadataHybridCopy, ls_args := [ArgFixed [4]]\<rparr>"

lemma example_runtime_reserved:
  "case runtime_encoded_size example_env (ls_event example_runtime_statement) example_location
      (ls_args example_runtime_statement) (example_context BoundedDropping) of
     (Inr n, tc1) \<Rightarrow> map_option fst (reserve_queue_space example_env n (ls_event example_runtime_statement) tc1)
       = Some (Inr (Some 0))
   | _ \<Rightarrow> False"
  by code_simp

theorem runtime_statement_published_witness:
  "\<exists>tc' k. tc_rel tc' (drop k [] @ [statement_bytes 5 (with_runtime_args example_location example_runtime_statement)])"
proof -
  have args: "args_ok (ls_args (with_runtime_args example_location example_runtime_statement))"
    by (simp add: args_ok_def with_runtime_args_def runtime_args_def hybrid_copy_args_def example_runtime_statement_def
        fixed_args_ok example_statement_def example_location_def c_chars_def max_encoded_length_def)
  have event: "ls_event example_runtime_statement \<in> runtime_events"
    by (simp add: runtime_events_def example_runtime_statement_def example_statement_def)
  obtain n tc1 tc2 where "runtime_encoded_size example_env (ls_event example_runtime_statement) example_location
      (ls_args example_runtime_statement) (example_context BoundedDropping) = (Inr n, tc1)"
    "reserve_queue_space example_env n (ls_event example_runtime_statement) tc1 = Some (Inr (Some 0), tc2)"
    using example_runtime_reserved by (auto split: prod.splits sum.splits)
  from runtime_statement_accepted [OF example_context_rel(1) event args example_env_reads this]
  obtain tc' where l: "log_statement_runtime_metadata example_env example_logger example_runtime_statement example_location
      (example_context BoundedDropping) = Some (Inr True, tc')" by blast
  have "statement_time example_env example_logger = 5"
    by (simp add: statement_time_def example_env_def example_logger_def)
  then show ?thesis
    using runtime_statement_published [OF example_context_rel(1) event args example_env_reads l] by fastforce
qed

definition example_full_context :: thread_context where
  "example_full_context =
     (case log_statement_cached example_env example_logger example_statement (example_context BoundedDropping) of
        Some (_, tc) \<Rightarrow> tc)"

lemma example_metric_dropped:
  "map_option fst (publish_metric example_env example_logger (metric_statement 7 8 3) example_full_context) = Some (Inr False)"
  "dropping example_full_context" "tc_failure_counter example_full_context = 0"
  by code_simp+

theorem drops_are_counted_witness:
  "\<exists>tc'. publish_metric example_env example_logger (metric_statement 7 8 3) example_full_context = Some (Inr False, tc')
    \<and> tc_failure_counter tc' = 1"
proof -
  obtain tc' where l: "publish_metric example_env example_logger (metric_statement 7 8 3) example_full_context
      = Some (Inr False, tc')"
    using example_metric_dropped(1) by auto
  then have "logging_call example_env example_logger (metric_statement 7 8 3) example_full_context (Inr False, tc')"
    by (simp add: logging_call_def)
  from drops_are_counted [OF this] example_metric_dropped(2,3) l show ?thesis by (simp add: metric_statement_def)
qed

definition drained_ring :: "u64 bounded_queue" where
  "drained_ring = (case bq_new 64 Never 5 of Inr q \<Rightarrow> q)"

lemma drained_ring_new: "bq_new 64 Never 5 = Inr drained_ring"
  by (simp add: drained_ring_def) code_simp

text \<open>A writer blocked by a message of 40 bytes, and a backend that reads one message between two retries.\<close>

definition busy_ring :: "u64 bounded_queue" where
  "busy_ring = snd (bq_put (replicate 40 7) drained_ring)"

lemma busy_ring_rel: "sq_rel (BoundedSPSC busy_ring) [replicate 40 7]"
proof -
  have "bq_rel drained_ring [] []" using bq_new_rel(1) [OF drained_ring_new] by simp
  moreover have "fst (bq_put (replicate 40 7) drained_ring)" by code_simp
  ultimately show ?thesis using rel_put [of drained_ring "[]" "replicate 40 7"] by (simp add: busy_ring_def)
qed

definition reading_env :: frontend_env where
  "reading_env = example_env\<lparr>fe_meanwhile := (\<lambda>_ tc. tc\<lparr>tc_spsc_queue := sq_reads (\<lambda>_. 40) 1 (tc_spsc_queue tc)\<rparr>)\<rparr>"

definition busy_context :: thread_context where
  "busy_context = (example_context BoundedBlocking)\<lparr>tc_spsc_queue := BoundedSPSC busy_ring\<rparr>"

theorem blocked_writer_released_witness:
  "fst (bq_prepare_write 40 busy_ring) = None
    \<and> (\<exists>off tc'. reserve_queue_space reading_env 40 Log busy_context = Some (Inr (Some off), tc'))"
proof -
  have q: "tc_spsc_queue busy_context = BoundedSPSC busy_ring" by (simp add: busy_context_def)
  have "\<exists>r tc'. reserve_queue_space reading_env 40 Log busy_context = Some (r, tc') \<and> wait_ends 40 (tc_spsc_queue busy_context) r"
  proof (rule blocked_writer_released [where k = "\<lambda>_. 1" and i = 0])
    show "sq_rel (tc_spsc_queue busy_context) [replicate 40 7]" using busy_ring_rel q by simp
    show "\<forall>m \<in> set [replicate 40 7]. framed (\<lambda>_. 40) m" by (simp add: framed_def)
    show "may_wait 40 (tc_spsc_queue busy_context)" unfolding q may_wait_def by (simp, code_simp)
    have "tc_queue_type busy_context = BoundedBlocking" by code_simp
    then show "tc_queue_type busy_context
        = (case tc_spsc_queue busy_context of BoundedSPSC _ \<Rightarrow> BoundedBlocking | UnboundedSPSC _ \<Rightarrow> UnboundedBlocking)"
      by (simp add: q)
    show "\<not> fe_is_backend_thread reading_env" by (simp add: reading_env_def example_env_def)
    show "\<forall>i tc. tc_spsc_queue (fe_meanwhile reading_env i tc) = sq_reads (\<lambda>_. 40) 1 (tc_spsc_queue tc)"
      by (simp add: reading_env_def)
    show "sq_left (tc_spsc_queue busy_context) [replicate 40 7] \<le> sum (\<lambda>_. 1) {..0 :: nat}" by (simp add: q sq_left_def)
  qed
  then obtain r tc' where r: "reserve_queue_space reading_env 40 Log busy_context = Some (r, tc')" "wait_ends 40 (BoundedSPSC busy_ring) r"
    unfolding q by blast
  then obtain off where "r = Inr (Some off)" by (cases r; cases "projr r") (auto simp: wait_ends_def)
  moreover have "fst (bq_prepare_write 40 busy_ring) = None" by code_simp
  ultimately show ?thesis using r(1) by blast
qed

end
