(* ===== verification/Immediate_Flush.thy ===== *)
theory Immediate_Flush
  imports Frontend_Logger
begin

text \<open>
  The immediate-flush policy of \<^verbatim>\<open>quill/Logger.h\<close> (\<^verbatim>\<open>_flush_after_log_statement_if_needed\<close>): as a
  function of one logger for one thread, and as the interleaving of any number of threads that
  count their messages in the logger's shared atomic counter and reset it with a
  compare-and-swap that may fail spuriously.
\<close>

text \<open>Whether \<^verbatim>\<open>flush_log\<close> is called, and the logger after the call.\<close>

definition flush_after_log_statement_if_needed :: "bool \<Rightarrow> bool \<Rightarrow> logger_base \<Rightarrow> bool \<times> logger_base" where
  "flush_after_log_statement_if_needed enable_immediate_flush is_backend_thread lb =
     (let threshold = lb_message_flush_threshold lb
      in if \<not> enable_immediate_flush \<or> threshold = 0 then (False, lb)
         else if threshold = 1 then (\<not> is_backend_thread, lb)
         else let message_count = lb_messages_since_last_flush lb + 1
              in if message_count \<ge> threshold
                 then (\<not> is_backend_thread, lb\<lparr>lb_messages_since_last_flush := 0\<rparr>)
                 else (False, lb\<lparr>lb_messages_since_last_flush := message_count\<rparr>))"

text \<open>
  A committed statement is followed by the policy; \<open>call_flush_log\<close> is the logger's
  \<open>flush_log\<close> with the addresses it needs. \<^verbatim>\<open>log_statement\<close> and
  \<^verbatim>\<open>log_statement_runtime_metadata\<close> end this way, metrics do not.
\<close>

definition flush_after_commit ::
  "bool \<Rightarrow> frontend_env \<Rightarrow> (thread_context \<Rightarrow> ((quill_error + unit) \<times> thread_context) option) \<Rightarrow> logger_base
    \<Rightarrow> ((quill_error + bool) \<times> thread_context) option \<Rightarrow> ((quill_error + bool) \<times> logger_base \<times> thread_context) option" where
  "flush_after_commit enable_immediate_flush env call_flush_log lb res =
     (case res of
        None \<Rightarrow> None
      | Some (r, tc) \<Rightarrow>
          if r \<noteq> Inr True then Some (r, lb, tc)
          else case flush_after_log_statement_if_needed enable_immediate_flush (fe_is_backend_thread env) lb of
                 (False, lb') \<Rightarrow> Some (r, lb', tc)
               | (True, lb') \<Rightarrow>
                   case call_flush_log tc of
                     None \<Rightarrow> None
                   | Some (Inl e, tc') \<Rightarrow> Some (Inl e, lb', tc')
                   | Some (Inr _, tc') \<Rightarrow> Some (r, lb', tc'))"

definition log_statement_and_flush where
  "log_statement_and_flush enable_immediate_flush env call_flush_log lb st tc =
     flush_after_commit enable_immediate_flush env call_flush_log lb (log_statement_cached env lb st tc)"

definition log_runtime_statement_and_flush where
  "log_runtime_statement_and_flush enable_immediate_flush env call_flush_log lb st rl tc =
     flush_after_commit enable_immediate_flush env call_flush_log lb (log_statement_runtime_metadata env lb st rl tc)"

text \<open>
  The shared counter under any interleaving of the threads that log, one of which may be the backend
  thread itself (its callbacks may log). \<open>fc_threads t\<close> is the local \<^verbatim>\<open>message_count\<close> of a thread
  inside the loop. The ghost fields are the messages committed, the calls of \<^verbatim>\<open>flush_log\<close> with the
  thread and the number of messages each answers for, and the resets of the backend thread,
  which are not followed by a flush: their messages stay in the queue until the backend gets
  to them. A thread that has reset the counter touches nothing shared before it calls
  \<^verbatim>\<open>flush_log\<close>, so the two are one step. The threshold is fixed.
\<close>

record flush_counter =
  fc_messages_since_last_flush :: u32
  fc_threads :: "nat \<Rightarrow> u32 option"
  fc_messages :: nat
  fc_flushes :: "(nat \<times> nat) list"
  fc_unflushed :: "(nat \<times> nat) list"

definition fc_start :: flush_counter where
  "fc_start = \<lparr>fc_messages_since_last_flush = 0, fc_threads = (\<lambda>_. None), fc_messages = 0, fc_flushes = [], fc_unflushed = []\<rparr>"

text \<open>The last thing a thread does for \<open>n\<close> messages: \<^verbatim>\<open>flush_log\<close>, unless it is the backend thread.\<close>

definition fc_flush_log :: "nat \<Rightarrow> nat \<Rightarrow> nat \<Rightarrow> flush_counter \<Rightarrow> flush_counter" where
  "fc_flush_log backend t n s =
     (if t \<noteq> backend then s\<lparr>fc_flushes := fc_flushes s @ [(t, n)]\<rparr>
      else s\<lparr>fc_unflushed := fc_unflushed s @ [(t, n)]\<rparr>)"

inductive flush_step :: "u32 \<Rightarrow> nat \<Rightarrow> flush_counter \<Rightarrow> flush_counter \<Rightarrow> bool" for threshold backend where
  every_message: "threshold = 1 \<Longrightarrow> fc_threads s t = None \<Longrightarrow>
     flush_step threshold backend s (fc_flush_log backend t 1 (s\<lparr>fc_messages := fc_messages s + 1\<rparr>))"
| count_message: "threshold \<noteq> 0 \<Longrightarrow> threshold \<noteq> 1 \<Longrightarrow> fc_threads s t = None \<Longrightarrow>
     flush_step threshold backend s (s\<lparr>fc_messages_since_last_flush := fc_messages_since_last_flush s + 1,
       fc_threads := (fc_threads s)(t := Some (fc_messages_since_last_flush s + 1)),
       fc_messages := fc_messages s + 1\<rparr>)"
| below_threshold: "fc_threads s t = Some message_count \<Longrightarrow> message_count < threshold \<Longrightarrow>
     flush_step threshold backend s (s\<lparr>fc_threads := (fc_threads s)(t := None)\<rparr>)"
| reset_succeeds: "fc_threads s t = Some message_count \<Longrightarrow> message_count \<ge> threshold \<Longrightarrow>
     fc_messages_since_last_flush s = message_count \<Longrightarrow>
     flush_step threshold backend s (fc_flush_log backend t (unat message_count)
       (s\<lparr>fc_messages_since_last_flush := 0, fc_threads := (fc_threads s)(t := None)\<rparr>))"
| reset_fails: "fc_threads s t = Some message_count \<Longrightarrow> message_count \<ge> threshold \<Longrightarrow>
     flush_step threshold backend s (s\<lparr>fc_threads := (fc_threads s)(t := Some (fc_messages_since_last_flush s))\<rparr>)"

inductive_simps flush_step_simps: "flush_step threshold backend s s'"

lemma flush_log_fields [simp]:
  "fc_messages_since_last_flush (fc_flush_log backend t n s) = fc_messages_since_last_flush s"
  "fc_threads (fc_flush_log backend t n s) = fc_threads s"
  "fc_messages (fc_flush_log backend t n s) = fc_messages s"
  by (simp_all add: fc_flush_log_def)

text \<open>The messages of the resets, flushed or not.\<close>

definition fc_answered :: "flush_counter \<Rightarrow> nat" where
  "fc_answered s = sum_list (map snd (fc_flushes s)) + sum_list (map snd (fc_unflushed s))"

lemma answered_flush_log: "fc_answered (fc_flush_log backend t n s) = fc_answered s + n"
  by (simp add: fc_answered_def fc_flush_log_def)

lemma answered_simps [simp]:
  "fc_answered (s\<lparr>fc_messages_since_last_flush := c\<rparr>) = fc_answered s"
  "fc_answered (s\<lparr>fc_threads := f\<rparr>) = fc_answered s"
  "fc_answered (s\<lparr>fc_messages := n\<rparr>) = fc_answered s"
  by (simp_all add: fc_answered_def)

text \<open>
  Every message is still in the counter, in one flush, or in one reset of the backend thread; each of
  those answers for at least the threshold; a counter at the threshold has a thread that
  will reset it. The counter has 32 bits, so the sum is exact below \<open>2 ^ 32\<close> messages and modulo
  \<open>2 ^ 32\<close> beyond.
\<close>

definition fc_wf :: "u32 \<Rightarrow> nat \<Rightarrow> flush_counter \<Rightarrow> bool" where
  "fc_wf threshold backend s \<longleftrightarrow>
     (\<forall>(t, n) \<in> set (fc_flushes s). t \<noteq> backend \<and> unat threshold \<le> n)
     \<and> (\<forall>(t, n) \<in> set (fc_unflushed s). t = backend \<and> unat threshold \<le> n)"

definition fc_inv :: "u32 \<Rightarrow> nat \<Rightarrow> flush_counter \<Rightarrow> bool" where
  "fc_inv threshold backend s \<longleftrightarrow> fc_wf threshold backend s
     \<and> of_nat (fc_messages s) = fc_messages_since_last_flush s + of_nat (fc_answered s)
     \<and> (fc_messages s < 2 ^ 32 \<longrightarrow> fc_messages s = unat (fc_messages_since_last_flush s) + fc_answered s)
     \<and> (threshold \<le> fc_messages_since_last_flush s \<longrightarrow> (\<exists>t m. fc_threads s t = Some m \<and> threshold \<le> m))"

lemma wf_flush_log:
  "fc_wf threshold backend s \<Longrightarrow> unat threshold \<le> n \<Longrightarrow> fc_wf threshold backend (fc_flush_log backend t n s)"
  by (auto simp: fc_wf_def fc_flush_log_def)

lemma wf_simps [simp]:
  "fc_wf threshold backend (s\<lparr>fc_messages_since_last_flush := c\<rparr>) = fc_wf threshold backend s"
  "fc_wf threshold backend (s\<lparr>fc_threads := f\<rparr>) = fc_wf threshold backend s"
  "fc_wf threshold backend (s\<lparr>fc_messages := n\<rparr>) = fc_wf threshold backend s"
  by (simp_all add: fc_wf_def)

lemma fc_start_inv: "0 < threshold \<Longrightarrow> fc_inv threshold backend fc_start"
  by (auto simp: fc_inv_def fc_wf_def fc_start_def fc_answered_def word_le_nat_alt word_less_nat_alt)

lemma unat_suc_bounded: "unat (c :: u32) + k = n \<Longrightarrow> Suc n < 2 ^ 32 \<Longrightarrow> unat (c + 1) = Suc (unat c)"
  by (simp add: unat_word_ariths)

lemma flush_step_inv:
  assumes "flush_step threshold backend s s'" "fc_inv threshold backend s" "0 < threshold"
  shows "fc_inv threshold backend s'"
  using assms(1)
proof (cases rule: flush_step.cases)
  case (every_message t)
  with assms(2) show ?thesis
    unfolding fc_inv_def by (auto simp: answered_flush_log intro: wf_flush_log)
next
  case (count_message t)
  let ?c = "fc_messages_since_last_flush s"
  have "unat (?c + 1) = Suc (unat ?c)" if "Suc (fc_messages s) < 2 ^ 32"
    using assms(2) that by (intro unat_suc_bounded [where k = "fc_answered s"]) (auto simp: fc_inv_def)
  moreover have "\<exists>t m. fc_threads s' t = Some m \<and> threshold \<le> m" if "threshold \<le> fc_messages_since_last_flush s'"
    using that count_message by (intro exI [of _ t] exI [of _ "?c + 1"]) simp
  ultimately show ?thesis using assms(2) count_message(1) by (simp add: fc_inv_def)
next
  case (below_threshold t m)
  have "\<exists>u k. fc_threads s' u = Some k \<and> threshold \<le> k" if "threshold \<le> fc_messages_since_last_flush s'"
  proof -
    have "threshold \<le> fc_messages_since_last_flush s" using that below_threshold(1) by simp
    then obtain u k where u: "fc_threads s u = Some k" "threshold \<le> k"
      using assms(2) unfolding fc_inv_def by blast
    with below_threshold have "u \<noteq> t" by auto
    with u below_threshold(1) show ?thesis by auto
  qed
  with assms(2) below_threshold(1) show ?thesis by (simp add: fc_inv_def)
next
  case (reset_succeeds t m)
  then have "unat threshold \<le> unat m" "\<not> threshold \<le> 0" using assms(3) by (auto simp: word_le_nat_alt word_less_nat_alt)
  with reset_succeeds assms(2) show ?thesis
    unfolding fc_inv_def by (auto simp: answered_flush_log intro: wf_flush_log)
next
  case (reset_fails t m)
  let ?c = "fc_messages_since_last_flush s"
  have "\<exists>u k. fc_threads s' u = Some k \<and> threshold \<le> k" if "threshold \<le> fc_messages_since_last_flush s'"
    using that reset_fails by (intro exI [of _ t] exI [of _ ?c]) simp
  with assms(2) reset_fails(1) show ?thesis by (simp add: fc_inv_def)
qed

interpretation flush_run: step_invariant "flush_step threshold backend" "\<lambda>s. s = fc_start \<and> 0 < threshold"
    "\<lambda>s. fc_inv threshold backend s \<and> 0 < threshold" for threshold backend
  by unfold_locales (auto intro: fc_start_inv flush_step_inv)

text \<open>One thread on its own takes the steps that the function takes, flush or no flush.\<close>

definition flush_counter_of :: "logger_base \<Rightarrow> nat \<Rightarrow> (nat \<times> nat) list \<times> (nat \<times> nat) list \<Rightarrow> flush_counter" where
  "flush_counter_of lb messages resets =
     \<lparr>fc_messages_since_last_flush = lb_messages_since_last_flush lb, fc_threads = (\<lambda>_. None),
      fc_messages = messages, fc_flushes = fst resets, fc_unflushed = snd resets\<rparr>"

lemma flush_function_steps:
  assumes "lb_message_flush_threshold lb \<noteq> 0"
    and "flush_after_log_statement_if_needed True (t = backend) lb = (flush, lb')"
  shows "\<exists>resets'. (flush_step (lb_message_flush_threshold lb) backend)\<^sup>*\<^sup>*
      (flush_counter_of lb n resets) (flush_counter_of lb' (n + 1) resets')
    \<and> (if flush then \<exists>m. fst resets' = fst resets @ [(t, m)] else fst resets' = fst resets)"
proof -
  let ?th = "lb_message_flush_threshold lb" and ?c = "lb_messages_since_last_flush lb + 1"
  let ?s = "flush_counter_of lb n resets"
  let ?ends = "\<lambda>m. if t \<noteq> backend then (fst resets @ [(t, m)], snd resets) else (fst resets, snd resets @ [(t, m)])"
  show ?thesis
  proof (cases "?th = 1")
    case True
    then have "flush_step ?th backend ?s (flush_counter_of lb' (n + 1) (?ends 1))" "flush = (t \<noteq> backend)"
      using assms every_message [of ?th ?s t backend]
      by (auto simp: flush_counter_of_def flush_after_log_statement_if_needed_def fc_flush_log_def)
    then show ?thesis by (intro exI [of _ "?ends 1"]) auto
  next
    case th: False
    let ?s1 = "?s\<lparr>fc_messages_since_last_flush := ?c, fc_threads := (fc_threads ?s)(t := Some ?c), fc_messages := n + 1\<rparr>"
    have 1: "flush_step ?th backend ?s ?s1"
      using count_message [of ?th ?s t] th assms(1) by (simp add: flush_counter_of_def)
    show ?thesis
    proof (cases "?c \<ge> ?th")
      case True
      have "flush_step ?th backend ?s1 (flush_counter_of lb' (n + 1) (?ends (unat ?c)))"
        using reset_succeeds [of ?s1 t ?c ?th backend] True assms th
        by (auto simp: flush_counter_of_def flush_after_log_statement_if_needed_def Let_def fun_upd_idem fc_flush_log_def)
      moreover have "flush = (t \<noteq> backend)"
        using True assms th by (auto simp: flush_after_log_statement_if_needed_def Let_def)
      ultimately show ?thesis using 1
        by (intro exI [of _ "?ends (unat ?c)"]) (auto intro: converse_rtranclp_into_rtranclp)
    next
      case False
      have "lb' = lb\<lparr>lb_messages_since_last_flush := ?c\<rparr>" "\<not> flush"
        using assms th False by (simp_all add: flush_after_log_statement_if_needed_def Let_def)
      moreover from this have "flush_step ?th backend ?s1 (flush_counter_of lb' (n + 1) resets)"
        using below_threshold [of ?s1 t ?c ?th] False
        by (simp add: flush_counter_of_def fun_upd_idem not_le)
      ultimately show ?thesis using 1
        by (intro exI [of _ resets]) (auto intro: converse_rtranclp_into_rtranclp)
    qed
  qed
qed

subsection \<open>Properties\<close>

text \<open>
  C16. Immediate flushing neither loses nor double-counts a message, for any number of threads and
  any interleaving, with compare-and-swaps that fail spuriously. Every committed message is
  in the counter, or in exactly one reset that \<^verbatim>\<open>flush_log\<close> follows, always made by a frontend
  thread, or in exactly one reset of the backend thread, which does not flush (it cannot wait
  for itself): exactly below \<open>2 ^ 32\<close> messages, modulo \<open>2 ^ 32\<close> beyond, the width of the counter.
  Every reset covers at least the threshold. Once every thread has left the loop the counter
  is below the threshold: apart from what the backend thread reset, fewer than the threshold
  of the messages are unflushed.
\<close>

theorem immediate_flush_accounting:
  assumes "(flush_step threshold backend)\<^sup>*\<^sup>* fc_start s" "0 < threshold"
  shows "of_nat (fc_messages s) = fc_messages_since_last_flush s
        + of_nat (sum_list (map snd (fc_flushes s)) + sum_list (map snd (fc_unflushed s)))
    \<and> (fc_messages s < 2 ^ 32 \<longrightarrow> fc_messages s = unat (fc_messages_since_last_flush s)
        + sum_list (map snd (fc_flushes s)) + sum_list (map snd (fc_unflushed s)))
    \<and> (\<forall>(t, n) \<in> set (fc_flushes s). t \<noteq> backend \<and> unat threshold \<le> n)
    \<and> (\<forall>(t, n) \<in> set (fc_unflushed s). t = backend \<and> unat threshold \<le> n)
    \<and> ((\<forall>t. fc_threads s t = None) \<longrightarrow> fc_messages_since_last_flush s < threshold)"
  using flush_run.reachable [OF assms(1)] assms(2) unfolding fc_inv_def fc_answered_def fc_wf_def
  by (auto simp: not_le [symmetric])

definition example_flush_run :: "flush_counter list" where
  "example_flush_run =
    (let s1 = fc_start\<lparr>fc_messages_since_last_flush := 1, fc_threads := (\<lambda>_. None)(0 := Some 1), fc_messages := 1\<rparr>;
         s2 = s1\<lparr>fc_messages_since_last_flush := 2, fc_threads := (fc_threads s1)(1 := Some 2), fc_messages := 2\<rparr>;
         s3 = s2\<lparr>fc_messages_since_last_flush := 0, fc_threads := (fc_threads s2)(1 := None), fc_flushes := [(1, 2)]\<rparr>
     in [s1, s2, s3])"

theorem immediate_flush_accounting_witness:
  "fc_messages (example_flush_run ! 2) = unat (fc_messages_since_last_flush (example_flush_run ! 2))
      + sum_list (map snd (fc_flushes (example_flush_run ! 2))) + sum_list (map snd (fc_unflushed (example_flush_run ! 2)))"
proof -
  let ?s = "\<lambda>i. example_flush_run ! i"
  have "flush_step 2 9 fc_start (?s 0)"
    using count_message [of 2 fc_start 0 9] by (simp add: fc_start_def example_flush_run_def Let_def)
  moreover have "flush_step 2 9 (?s 0) (?s 1)"
    using count_message [of 2 "?s 0" 1 9] by (simp add: fc_start_def example_flush_run_def Let_def numeral_2_eq_2)
  moreover have "flush_step 2 9 (?s 1) (?s 2)"
    using reset_succeeds [of "?s 1" 1 2 2 9] by (simp add: fc_start_def example_flush_run_def Let_def fun_upd_idem fc_flush_log_def)
  ultimately have run: "(flush_step 2 9)\<^sup>*\<^sup>* fc_start (?s 2)"
    by (meson rtranclp.rtrancl_into_rtrancl r_into_rtranclp)
  have "fc_messages (?s 2) < 2 ^ 32" by (simp add: fc_start_def example_flush_run_def Let_def)
  with immediate_flush_accounting [OF run] show ?thesis by simp
qed

end
