(* ===== verification/Named_Args.thy ===== *)
theory Named_Args
  imports Backend_Options Codec
begin

text \<open>
  Formatting on the backend, from \<^verbatim>\<open>quill/backend/BackendWorker.h\<close>: the parser that takes the
  names out of a format with named arguments (\<^verbatim>\<open>_process_named_args_format_message\<close> and its
  helpers), the sanitiser of non-printable characters, and the formatting of a decoded message
  and of its named arguments. The formatting library's \<^verbatim>\<open>vformat\<close> is a parameter: from a format
  and arguments it gives the text it appends and the exception it throws, if any.
\<close>

subsection \<open>Replacement fields\<close>

text \<open>\<^verbatim>\<open>_find_placeholder_closing_brace\<close> on the text from \<^verbatim>\<open>pos\<close> on; the result is relative to \<^verbatim>\<open>pos\<close>.\<close>

fun closing_brace :: "string \<Rightarrow> nat \<Rightarrow> nat option" where
  "closing_brace [] nested = None"
| "closing_brace [c] nested =
     (if c = CHR ''}'' \<and> nested = 0 then Some 0 else None)"
| "closing_brace (c # d # s) nested =
     (if c = CHR ''{''
      then if d = CHR ''{'' then map_option (\<lambda>i. i + 2) (closing_brace s nested)
           else map_option Suc (closing_brace (d # s) (nested + 1))
      else if c = CHR ''}''
      then if nested = 0 then Some 0 else map_option Suc (closing_brace (d # s) (nested - 1))
      else map_option Suc (closing_brace (d # s) nested))"

lemma closing_brace_less: "closing_brace s nested = Some i \<Longrightarrow> i < length s \<and> s ! i = CHR ''}''"
  by (induction s nested arbitrary: i rule: closing_brace.induct) (auto split: if_splits)

text \<open>\<^verbatim>\<open>_normalize_named_arg_syntax\<close>: nested replacement fields lose their names.\<close>

function normalize_named_arg_syntax :: "string \<Rightarrow> string" where
  "normalize_named_arg_syntax [] = []"
| "normalize_named_arg_syntax (c # s) =
     (if c \<noteq> CHR ''{'' then c # normalize_named_arg_syntax s
      else if s \<noteq> [] \<and> hd s = CHR ''{'' then ''{{'' @ normalize_named_arg_syntax (tl s)
      else case closing_brace s 0 of
             None \<Rightarrow> c # s
           | Some i \<Rightarrow> ''{}'' @ normalize_named_arg_syntax (drop (Suc i) s))"
  by pat_completeness auto
termination by (relation "measure length") auto

text \<open>
  \<^verbatim>\<open>_make_unique_named_arg_key\<close>: the name, or the name with the first free suffix. The loop has
  no bound in the code; of \<open>length existing_keys + 1\<close> candidates one is free.
\<close>

fun unique_key_from :: "nat \<Rightarrow> (string \<times> string) list \<Rightarrow> string \<Rightarrow> string \<Rightarrow> nat \<Rightarrow> string" where
  "unique_key_from 0 existing_keys arg_name key k = key"
| "unique_key_from (Suc fuel) existing_keys arg_name key k =
     (if key \<notin> set (map fst existing_keys) then key
      else unique_key_from fuel existing_keys arg_name (arg_name @ ''_'' @ to_string k) (k + 1))"

definition make_unique_named_arg_key :: "(string \<times> string) list \<Rightarrow> string \<Rightarrow> string" where
  "make_unique_named_arg_key existing_keys arg_name =
     unique_key_from (Suc (length existing_keys)) existing_keys arg_name arg_name 1"

text \<open>The text of a placeholder: the name before the first colon, the syntax from it on.\<close>

definition split_placeholder :: "string \<Rightarrow> string \<times> string" where
  "split_placeholder text_inside =
     (case find_from '':'' text_inside 0 of
        Some i \<Rightarrow> (take i text_inside, drop i text_inside)
      | None \<Rightarrow> (text_inside, []))"

function process_named_args_loop ::
  "string \<Rightarrow> string \<Rightarrow> (string \<times> string) list \<Rightarrow> string \<times> (string \<times> string) list" where
  "process_named_args_loop [] fmt_str ks = (fmt_str, ks)"
| "process_named_args_loop (c # s) fmt_str ks =
     (if c \<noteq> CHR ''{'' then process_named_args_loop s (fmt_str @ [c]) ks
      else if s \<noteq> [] \<and> hd s = CHR ''{'' then process_named_args_loop (tl s) (fmt_str @ ''{{'') ks
      else case closing_brace s 0 of
             None \<Rightarrow> (fmt_str @ c # s, ks)
           | Some i \<Rightarrow>
               let (arg_name, arg_syntax) = split_placeholder (take i s);
                   normalized = normalize_named_arg_syntax arg_syntax
               in process_named_args_loop (drop (Suc i) s) (fmt_str @ ''{'' @ normalized @ ''}'')
                    (ks @ [(make_unique_named_arg_key ks arg_name, normalized)]))"
  by pat_completeness auto
termination by (relation "measure (\<lambda>(s, _). length s)") auto

definition process_named_args_format_message :: "string \<Rightarrow> string \<times> (string \<times> string) list" where
  "process_named_args_format_message fmt_template = process_named_args_loop fmt_template [] []"

subsection \<open>Sanitising\<close>

definition hex_digit :: "nat \<Rightarrow> char" where
  "hex_digit n = ''0123456789ABCDEF'' ! n"

definition hex_escape :: "char \<Rightarrow> string" where
  "hex_escape c = (let byte = of_char c :: nat in [CHR 0x5C, CHR ''x'', hex_digit (byte div 16), hex_digit (byte mod 16)])"

definition sanitize_non_printable_chars :: "(char \<Rightarrow> bool) \<Rightarrow> string \<Rightarrow> string" where
  "sanitize_non_printable_chars printable msg =
     (if list_all printable msg then msg
      else concat (map (\<lambda>c. if printable c then [c] else hex_escape c) msg))"

subsection \<open>Formatting\<close>

type_synonym vformat = "string \<Rightarrow> decoded_arg list \<Rightarrow> string \<times> quill_error option"

definition has_string_related_type :: "decoded_arg list \<Rightarrow> bool" where
  "has_string_related_type store \<longleftrightarrow> (\<exists>a \<in> set store. case a of DecodedFixed _ \<Rightarrow> False | _ \<Rightarrow> True)"

definition sanitized :: "backend_options \<Rightarrow> decoded_arg list \<Rightarrow> string \<Rightarrow> string" where
  "sanitized options store msg =
     (if has_string_related_type store then sanitize_non_printable_chars (bo_check_printable_char options) msg else msg)"

text \<open>\<^verbatim>\<open>e.what()\<close>; anything that is not a \<^verbatim>\<open>std::exception\<close> is reported by a fixed text.\<close>

fun error_text :: "quill_error \<Rightarrow> string" where
  "error_text (QuillError msg) = msg"
| "error_text BadAlloc = ''std::bad_alloc''"
| "error_text (StdException msg) = msg"

definition format_failure :: "string \<Rightarrow> string \<Rightarrow> string \<Rightarrow> string" where
  "format_failure message location err =
     ''[Could not format log statement. message: '' @ [CHR 0x22] @ message @ [CHR 0x22]
       @ '', location: '' @ [CHR 0x22] @ location @ [CHR 0x22] @ '', error: '' @ [CHR 0x22] @ err @ [CHR 0x22] @ '']''"

text \<open>
  \<^verbatim>\<open>_populate_formatted_log_message\<close>: the message, and the error to report if formatting threw.
  A rate-limited statement carries its occurrence count as its last argument.
\<close>

definition populate_formatted_log_message ::
  "vformat \<Rightarrow> backend_options \<Rightarrow> bool \<Rightarrow> string \<Rightarrow> string \<Rightarrow> string \<Rightarrow> decoded_arg list \<Rightarrow> string \<times> string option" where
  "populate_formatted_log_message vformat options is_rate_limited metadata_format location message_format store =
     (let user_arg_count = length store - (if is_rate_limited then 1 else 0);
          formatted =
            (case vformat message_format (take user_arg_count store) of
               (_, Some e) \<Rightarrow> Inl e
             | (msg, None) \<Rightarrow>
                 let msg' = sanitized options store msg
                 in if is_rate_limited
                    then case vformat '' ({}x)'' (take 1 (drop user_arg_count store)) of
                           (_, Some e) \<Rightarrow> Inl e
                         | (occurrences, None) \<Rightarrow> Inr (msg' @ occurrences)
                    else Inr msg')
      in case formatted of
           Inr msg \<Rightarrow> (msg, None)
         | Inl e \<Rightarrow> let err = format_failure metadata_format location (error_text e) in (err, Some err))"

text \<open>\<^verbatim>\<open>_format_and_split_arguments\<close>: each value with its own syntax; an exception ends the loop.\<close>

fun format_and_split_arguments ::
  "vformat \<Rightarrow> backend_options \<Rightarrow> decoded_arg list \<Rightarrow> (string \<times> string) list \<Rightarrow> nat
    \<Rightarrow> (string \<times> string) list \<Rightarrow> (string \<times> string) list" where
  "format_and_split_arguments vformat options store orig_arg_names i [] = []"
| "format_and_split_arguments vformat options store orig_arg_names i ((name, val) # named_args) =
     (if i \<ge> length store then (name, val) # named_args
      else let syntax = (if i < length orig_arg_names then snd (orig_arg_names ! i) else []);
               format_string = (if syntax \<noteq> [] then ''{'' @ syntax @ ''}'' else ''{}'')
           in case vformat format_string (drop i store) of
                (text, Some e) \<Rightarrow> (name, val @ text) # named_args
              | (text, None) \<Rightarrow> (name, sanitized options store (val @ text))
                  # format_and_split_arguments vformat options store orig_arg_names (Suc i) named_args)"

definition named_arg_slots :: "(string \<times> string) list \<Rightarrow> bool \<Rightarrow> nat \<Rightarrow> (string \<times> string) list" where
  "named_arg_slots arg_names is_rate_limited store_size =
     map (\<lambda>(name, _). (name, [])) arg_names
     @ map (\<lambda>i. (''_'' @ to_string i, [])) [length arg_names..<store_size - (if is_rate_limited then 1 else 0)]
     @ (if is_rate_limited then [(make_unique_named_arg_key arg_names ''occurred'', [])] else [])"

definition populate_formatted_named_args ::
  "vformat \<Rightarrow> backend_options \<Rightarrow> bool \<Rightarrow> (string \<times> string) list \<Rightarrow> decoded_arg list \<Rightarrow> (string \<times> string) list" where
  "populate_formatted_named_args vformat options is_rate_limited arg_names store =
     (if arg_names = [] then []
      else format_and_split_arguments vformat options store arg_names 0
             (named_arg_slots arg_names is_rate_limited (length store)))"

subsection \<open>Unique keys\<close>

definition key_candidate :: "string \<Rightarrow> nat \<Rightarrow> string" where
  "key_candidate arg_name k = (if k = 0 then arg_name else arg_name @ ''_'' @ to_string k)"

lemma key_candidate_inj: "key_candidate n i = key_candidate n j \<Longrightarrow> i = j"
  by (auto simp: key_candidate_def split: if_splits)

lemma unique_key_from_taken:
  assumes "unique_key_from fuel ks n (key_candidate n k) (Suc k) \<in> set (map fst ks)"
  shows "\<forall>i < fuel. key_candidate n (k + i) \<in> set (map fst ks)"
  using assms
proof (induction fuel arbitrary: k)
  case (Suc fuel)
  show ?case
  proof (cases "key_candidate n k \<in> set (map fst ks)")
    case True
    have c: "key_candidate n (Suc k) = n @ ''_'' @ to_string (Suc k)" by (simp add: key_candidate_def)
    with Suc.prems True have "unique_key_from fuel ks n (key_candidate n (Suc k)) (Suc (Suc k)) \<in> set (map fst ks)"
      by simp
    from Suc.IH [OF this] True show ?thesis by (auto simp: less_Suc_eq_0_disj)
  qed (use Suc.prems in simp)
qed simp

lemma make_unique_named_arg_key_fresh: "make_unique_named_arg_key ks n \<notin> set (map fst ks)"
proof
  let ?c = "key_candidate n"
  assume "make_unique_named_arg_key ks n \<in> set (map fst ks)"
  then have "unique_key_from (Suc (length ks)) ks n (?c 0) (Suc 0) \<in> set (map fst ks)"
    by (simp add: make_unique_named_arg_key_def key_candidate_def del: unique_key_from.simps)
  from unique_key_from_taken [OF this] have "?c ` {..<Suc (length ks)} \<subseteq> set (map fst ks)" by auto
  then have "card (?c ` {..<Suc (length ks)}) \<le> length ks"
    by (metis card_length card_mono le_trans length_map List.finite_set)
  moreover have "card (?c ` {..<Suc (length ks)}) = Suc (length ks)"
    by (subst card_image) (auto simp: inj_on_def dest: key_candidate_inj)
  ultimately show False by simp
qed

lemma make_unique_named_arg_key_same: "n \<notin> set (map fst ks) \<Longrightarrow> make_unique_named_arg_key ks n = n"
  by (simp add: make_unique_named_arg_key_def)

subsection \<open>Templates\<close>

text \<open>
  A format is a list of segments: literal text, an escaped opening brace, and fields whose
  syntax may contain nested fields (dynamic width and precision).
\<close>

datatype syntax_piece = SyntaxText string | NestedField string

datatype segment = Literal string | OpenBraces | Field string "syntax_piece list"

definition brace_free :: "string \<Rightarrow> bool" where
  "brace_free s \<longleftrightarrow> CHR ''{'' \<notin> set s \<and> CHR ''}'' \<notin> set s"

fun piece_text :: "syntax_piece \<Rightarrow> string" where
  "piece_text (SyntaxText s) = s"
| "piece_text (NestedField n) = ''{'' @ n @ ''}''"

fun piece_anonymous :: "syntax_piece \<Rightarrow> string" where
  "piece_anonymous (SyntaxText s) = s"
| "piece_anonymous (NestedField n) = ''{}''"

fun piece_ok :: "syntax_piece \<Rightarrow> bool" where
  "piece_ok (SyntaxText s) = brace_free s"
| "piece_ok (NestedField n) = brace_free n"

definition syntax_text :: "syntax_piece list \<Rightarrow> string" where
  "syntax_text ps = (if ps = [] then [] else '':'' @ concat (map piece_text ps))"

definition syntax_anonymous :: "syntax_piece list \<Rightarrow> string" where
  "syntax_anonymous ps = (if ps = [] then [] else '':'' @ concat (map piece_anonymous ps))"

fun segment_text :: "segment \<Rightarrow> string" where
  "segment_text (Literal s) = s"
| "segment_text OpenBraces = ''{{''"
| "segment_text (Field n ps) = ''{'' @ n @ syntax_text ps @ ''}''"

fun segment_anonymous :: "segment \<Rightarrow> string" where
  "segment_anonymous (Literal s) = s"
| "segment_anonymous OpenBraces = ''{{''"
| "segment_anonymous (Field n ps) = ''{'' @ syntax_anonymous ps @ ''}''"

fun segment_ok :: "segment \<Rightarrow> bool" where
  "segment_ok (Literal s) \<longleftrightarrow> CHR ''{'' \<notin> set s"
| "segment_ok OpenBraces \<longleftrightarrow> True"
| "segment_ok (Field n ps) \<longleftrightarrow> brace_free n \<and> CHR '':'' \<notin> set n \<and> (\<forall>p \<in> set ps. piece_ok p)"

fun template_keys :: "segment list \<Rightarrow> (string \<times> string) list \<Rightarrow> (string \<times> string) list" where
  "template_keys [] ks = ks"
| "template_keys (Field n ps # segs) ks =
     template_keys segs (ks @ [(make_unique_named_arg_key ks n, syntax_anonymous ps)])"
| "template_keys (_ # segs) ks = template_keys segs ks"

lemma closing_brace_skip:
  assumes "brace_free u" "r \<noteq> []"
  shows "closing_brace (u @ r) k = map_option ((+) (length u)) (closing_brace r k)"
  using assms
proof (induction u)
  case Nil
  then show ?case by (simp add: option.map_ident)
next
  case (Cons c u)
  then obtain d s where d: "u @ r = d # s" by (cases "u @ r") auto
  from Cons have "c \<noteq> CHR ''{''" "c \<noteq> CHR ''}''" "brace_free u" by (auto simp: brace_free_def)
  with Cons d show ?case by (auto simp: option.map_comp comp_def)
qed

lemma closing_brace_here: "closing_brace (CHR ''}'' # r) 0 = Some 0"
  by (cases r) auto

lemma closing_brace_nested:
  assumes "brace_free n" "r \<noteq> []"
  shows "closing_brace (CHR ''{'' # n @ CHR ''}'' # r) k = map_option ((+) (length n + 2)) (closing_brace r k)"
proof -
  obtain c s where c: "n @ CHR ''}'' # r = c # s" "c \<noteq> CHR ''{''"
    using assms(1) by (cases n) (auto simp: brace_free_def)
  have "closing_brace (CHR ''}'' # r) (k + 1) = map_option Suc (closing_brace r k)"
    using assms(2) by (cases r) auto
  with c closing_brace_skip [OF assms(1), of "CHR ''}'' # r" "k + 1"] show ?thesis
    by (cases "closing_brace r k") simp_all
qed

lemma closing_brace_pieces:
  assumes "\<forall>p \<in> set ps. piece_ok p" "r \<noteq> []"
  shows "closing_brace (concat (map piece_text ps) @ r) k
    = map_option ((+) (length (concat (map piece_text ps)))) (closing_brace r k)"
  using assms(1)
proof (induction ps)
  case Nil
  then show ?case by (simp add: option.map_ident)
next
  case (Cons p ps)
  let ?r = "concat (map piece_text ps) @ r"
  have ne: "?r \<noteq> []" using assms(2) by simp
  have "closing_brace (piece_text p @ ?r) k = map_option ((+) (length (piece_text p))) (closing_brace ?r k)"
    using Cons.prems ne closing_brace_skip [OF _ ne] closing_brace_nested [OF _ ne] by (cases p) simp_all
  with Cons show ?case by (simp add: option.map_comp comp_def add.assoc)
qed

lemma closing_brace_field:
  assumes "segment_ok (Field n ps)"
  shows "closing_brace (n @ syntax_text ps @ CHR ''}'' # r) 0 = Some (length (n @ syntax_text ps))"
proof -
  have "closing_brace (syntax_text ps @ CHR ''}'' # r) 0 = Some (length (syntax_text ps))"
  proof (cases "ps = []")
    case True
    then show ?thesis by (simp add: syntax_text_def closing_brace_here)
  next
    case False
    have "closing_brace ('':'' @ concat (map piece_text ps) @ CHR ''}'' # r) 0
        = Some (1 + length (concat (map piece_text ps)))"
      using closing_brace_skip [of "'':''" "concat (map piece_text ps) @ CHR ''}'' # r" 0]
        closing_brace_pieces [of ps "CHR ''}'' # r" 0] assms
      by (simp add: brace_free_def closing_brace_here)
    with False show ?thesis by (simp add: syntax_text_def)
  qed
  with closing_brace_skip [of n "syntax_text ps @ CHR ''}'' # r" 0] assms show ?thesis by simp
qed

lemma normalize_skip:
  "CHR ''{'' \<notin> set u \<Longrightarrow> normalize_named_arg_syntax (u @ r) = u @ normalize_named_arg_syntax r"
  by (induction u) auto

lemma normalize_pieces:
  assumes "\<forall>p \<in> set ps. piece_ok p"
  shows "normalize_named_arg_syntax (concat (map piece_text ps)) = concat (map piece_anonymous ps)"
  using assms
proof (induction ps)
  case (Cons p ps)
  show ?case
  proof (cases p)
    case (SyntaxText s)
    with Cons show ?thesis by (simp add: normalize_skip brace_free_def)
  next
    case (NestedField n)
    let ?r = "concat (map piece_text ps)"
    have n: "brace_free n" using Cons.prems NestedField by simp
    then obtain c s where c: "n @ CHR ''}'' # ?r = c # s" "c \<noteq> CHR ''{''"
      by (cases n) (auto simp: brace_free_def)
    have "closing_brace (n @ CHR ''}'' # ?r) 0 = Some (length n)"
      using closing_brace_skip [OF n, of "CHR ''}'' # ?r" 0] by (simp add: closing_brace_here)
    moreover have "drop (length n) s = ?r"
      using arg_cong [OF c(1), of "drop (Suc (length n))"] by simp
    ultimately have "normalize_named_arg_syntax (CHR ''{'' # n @ CHR ''}'' # ?r) = ''{}'' @ normalize_named_arg_syntax ?r"
      using c by simp
    with Cons NestedField show ?thesis by simp
  qed
qed simp

lemma normalize_syntax:
  "\<forall>p \<in> set ps. piece_ok p \<Longrightarrow> normalize_named_arg_syntax (syntax_text ps) = syntax_anonymous ps"
  by (simp add: syntax_text_def syntax_anonymous_def normalize_pieces)

lemma split_field:
  assumes "CHR '':'' \<notin> set n"
  shows "split_placeholder (n @ syntax_text ps) = (n, syntax_text ps)"
proof (cases "ps = []")
  case True
  with assms show ?thesis by (simp add: split_placeholder_def syntax_text_def find_from_def str_find_none)
next
  case False
  with str_find_skip [OF assms, of "[]" "concat (map piece_text ps)"] show ?thesis
    by (simp add: split_placeholder_def syntax_text_def find_from_def)
qed

lemma loop_literal:
  "CHR ''{'' \<notin> set u \<Longrightarrow> process_named_args_loop (u @ r) out ks = process_named_args_loop r (out @ u) ks"
  by (induction u arbitrary: out) auto

lemma loop_field:
  assumes "segment_ok (Field n ps)"
  shows "process_named_args_loop (segment_text (Field n ps) @ r) out ks
    = process_named_args_loop r (out @ segment_anonymous (Field n ps))
        (ks @ [(make_unique_named_arg_key ks n, syntax_anonymous ps)])"
proof -
  let ?t = "n @ syntax_text ps"
  obtain c s where c: "?t @ CHR ''}'' # r = c # s" "c \<noteq> CHR ''{''"
    using assms by (cases n; cases ps) (auto simp: brace_free_def syntax_text_def)
  have "closing_brace (?t @ CHR ''}'' # r) 0 = Some (length ?t)" using closing_brace_field [OF assms, of r] by simp
  moreover have "split_placeholder ?t = (n, syntax_text ps)" using assms by (simp add: split_field)
  moreover have "take (length ?t) (?t @ CHR ''}'' # r) = ?t" "drop (Suc (length ?t)) (?t @ CHR ''}'' # r) = r"
    by simp_all
  then have "take (length ?t) (c # s) = ?t" "drop (length ?t) s = r"
    unfolding c(1) by (simp_all only: drop_Suc_Cons)
  moreover have "process_named_args_loop (segment_text (Field n ps) @ r) out ks
      = process_named_args_loop (CHR ''{'' # ?t @ CHR ''}'' # r) out ks" by simp
  ultimately show ?thesis using c normalize_syntax [of ps] assms by (simp add: Let_def)
qed

lemma loop_template:
  assumes "\<forall>seg \<in> set segs. segment_ok seg"
  shows "process_named_args_loop (concat (map segment_text segs)) out ks
    = (out @ concat (map segment_anonymous segs), template_keys segs ks)"
  using assms
proof (induction segs arbitrary: out ks)
  case (Cons seg segs)
  show ?case
  proof (cases seg)
    case (Literal s)
    with Cons show ?thesis by (simp add: loop_literal)
  next
    case OpenBraces
    with Cons show ?thesis by simp
  next
    case (Field n ps)
    with Cons loop_field [of n ps "concat (map segment_text segs)" out ks] show ?thesis
      by (simp del: segment_text.simps segment_ok.simps)
  qed
qed simp

lemma template_keys_distinct:
  "distinct (map fst ks) \<Longrightarrow> distinct (map fst (template_keys segs ks))"
proof (induction segs ks rule: template_keys.induct)
  case (2 n ps segs ks)
  with make_unique_named_arg_key_fresh [of ks n] show ?case by simp
qed auto

text \<open>
  Two surprises in the named values. A position that has no name gets the key \<open>_i\<close>, which is not
  made unique against the names of the format. And the values are taken at the position of the
  name among the names, although a field with a dynamic width or precision takes more than one
  argument: in \<^verbatim>\<open>{x:{w}} {y}\<close> the second name gets the width as its value.
\<close>

lemma unnamed_key_collides: "map fst (named_arg_slots [(''_1'', '''')] False 2) = [''_1'', ''_1'']"
proof -
  have "to_string 1 = ''1''" "[1..<2] = [1]" by code_simp+
  then show ?thesis by (simp add: named_arg_slots_def)
qed

lemma value_after_dynamic_width:
  assumes "\<And>f a as. vformat f (a # as) = (if f = ''{}'' \<and> a = w then ''W'' else '''', None)"
    "has_string_related_type [x, w, y] = False"
  shows "snd (process_named_args_format_message ''{x:{w}} {y}'') = [(''x'', '':{}''), (''y'', '''')]
    \<and> populate_formatted_named_args vformat options False [(''x'', '':{}''), (''y'', '''')] [x, w, y] ! 1 = (''y'', ''W'')"
proof -
  have "snd (process_named_args_format_message ''{x:{w}} {y}'') = [(''x'', '':{}''), (''y'', '''')]" by code_simp
  moreover have "[2..<3] = [2]" by code_simp
  ultimately show ?thesis
    using assms by (simp add: populate_formatted_named_args_def named_arg_slots_def sanitized_def Let_def)
qed

subsection \<open>Sanitised texts\<close>

lemma hex_digit_in: "n < 16 \<Longrightarrow> hex_digit n \<in> set ''0123456789ABCDEF''"
  unfolding hex_digit_def by (rule nth_mem) simp

lemma sanitized_printable:
  assumes "printable (CHR 0x5C)" "printable CHR ''x''" "list_all printable ''0123456789ABCDEF''"
  shows "list_all printable (sanitize_non_printable_chars printable msg)"
proof -
  have "list_all printable (hex_escape c)" for c
  proof -
    have "of_char c div 16 < (16 :: nat)" "of_char c mod 16 < (16 :: nat)"
      using nat_of_char_less_256 [of c] by (simp_all add: less_mult_imp_div_less)
    moreover have "printable (hex_digit n)" if "n < 16" for n
      using hex_digit_in [OF that] assms(3) unfolding list_all_iff by blast
    ultimately show ?thesis using assms by (simp add: hex_escape_def Let_def)
  qed
  then show ?thesis by (auto simp: sanitize_non_printable_chars_def list_all_iff)
qed

lemma populate_never_empty_on_error:
  "populate_formatted_log_message vf options rate f loc fmt store = (msg, Some err) \<Longrightarrow> msg = err"
  by (auto simp: populate_formatted_log_message_def Let_def split: sum.splits prod.splits option.splits)

subsection \<open>Properties\<close>

text \<open>
  C17. Named arguments are taken out of a format without changing anything else: for a template
  of literals, escaped braces and fields with any syntax, including dynamic width and precision
  fields, the parser returns the same template with the names (and nested names) removed and
  one key per field, in order, with that field's syntax. The keys are pairwise distinct, and a
  name that did not occur before is kept as it is.
\<close>

theorem named_args_template:
  assumes "\<forall>seg \<in> set segs. segment_ok seg"
  shows "process_named_args_format_message (concat (map segment_text segs))
      = (concat (map segment_anonymous segs), template_keys segs [])
    \<and> distinct (map fst (template_keys segs []))
    \<and> (\<forall>ks n. n \<notin> set (map fst ks) \<longrightarrow> make_unique_named_arg_key ks n = n)"
  using loop_template [OF assms, of "[]" "[]"] template_keys_distinct [of "[]" segs] make_unique_named_arg_key_same
  by (simp add: process_named_args_format_message_def)

theorem named_args_template_witness:
  "process_named_args_format_message ''a{{ {x:{w}.2f} {x}!'' = (''a{{ {:{}.2f} {}!'', [(''x'', '':{}.2f''), (''x_1'', [])])"
proof -
  let ?segs = "[Literal ''a'', OpenBraces, Literal '' '', Field ''x'' [NestedField ''w'', SyntaxText ''.2f''],
    Literal '' '', Field ''x'' [], Literal ''!'']"
  have "\<forall>seg \<in> set ?segs. segment_ok seg" by (simp add: brace_free_def)
  note t = named_args_template [OF this]
  have "concat (map segment_text ?segs) = ''a{{ {x:{w}.2f} {x}!''" "concat (map segment_anonymous ?segs) = ''a{{ {:{}.2f} {}!''"
    by (simp_all add: syntax_text_def syntax_anonymous_def)
  moreover have "template_keys ?segs [] = [(''x'', '':{}.2f''), (''x_1'', [])]" by code_simp
  moreover have "process_named_args_format_message (concat (map segment_text ?segs))
      = (concat (map segment_anonymous ?segs), template_keys ?segs [])" using t by blast
  ultimately show ?thesis by (simp only:)
qed

end
