(* ===== verification/Error_Notifier.thy ===== *)
theory Error_Notifier
  imports Prelude
begin

text \<open>
  How the backend reports an error to the user, \<^verbatim>\<open>_notify_error\<close> of
  \<^verbatim>\<open>quill/backend/BackendWorker.h\<close>: the same text again within five seconds is suppressed. The
  steady clock is a parameter: \<open>clock n\<close> is its \<open>n\<close>-th reading here, in nanoseconds. What the
  user's callback received is kept with the time of the report; an exception it throws is
  swallowed and changes nothing.
\<close>

record error_notifications =
  en_error_notifier :: bool
  en_last_error_notification :: string
  en_next_error_notification_time :: int
  en_readings :: nat
  en_notified :: "(int \<times> string) list"

definition suppression_interval :: int where
  "suppression_interval = 5 * 1000000000"

definition notify_error :: "(nat \<Rightarrow> int) \<Rightarrow> string \<Rightarrow> error_notifications \<Rightarrow> error_notifications" where
  "notify_error clock error_message en =
     (if \<not> en_error_notifier en then en
      else let now = clock (en_readings en); en1 = en\<lparr>en_readings := en_readings en + 1\<rparr>
           in if error_message = en_last_error_notification en \<and> now < en_next_error_notification_time en then en1
              else en1\<lparr>en_last_error_notification := error_message,
                     en_next_error_notification_time := now + suppression_interval,
                     en_notified := en_notified en @ [(now, error_message)]\<rparr>)"

text \<open>\<^verbatim>\<open>_init\<close>: the last text is forgotten and the next report is due at once.\<close>

definition reset_notifications :: "(nat \<Rightarrow> int) \<Rightarrow> error_notifications \<Rightarrow> error_notifications" where
  "reset_notifications clock en =
     en\<lparr>en_last_error_notification := '''', en_next_error_notification_time := clock (en_readings en),
        en_readings := en_readings en + 1\<rparr>"

definition en_new :: "bool \<Rightarrow> (nat \<Rightarrow> int) \<Rightarrow> error_notifications" where
  "en_new notifier clock =
     \<lparr>en_error_notifier = notifier, en_last_error_notification = '''', en_next_error_notification_time = clock 0,
      en_readings = 1, en_notified = []\<rparr>"

lemma notify_error_set [simp]: "en_error_notifier (notify_error clock msg en) = en_error_notifier en"
  by (simp add: notify_error_def Let_def)

lemma notify_error_extends: "\<exists>rs. en_notified (notify_error clock msg en) = en_notified en @ rs"
  by (simp add: notify_error_def Let_def)

subsection \<open>What is reported\<close>

text \<open>
  The last text and the time of its next report are those of the last report; before the first
  one the text is empty and may be reported at any later time.
\<close>

definition en_inv :: "(nat \<Rightarrow> int) \<Rightarrow> error_notifications \<Rightarrow> bool" where
  "en_inv clock en \<longleftrightarrow>
     (if en_notified en = []
      then \<forall>n \<ge> en_readings en. en_next_error_notification_time en \<le> clock n
      else en_last_error_notification en = snd (last (en_notified en))
        \<and> en_next_error_notification_time en = fst (last (en_notified en)) + suppression_interval)"

definition spaced :: "(int \<times> string) list \<Rightarrow> bool" where
  "spaced rs \<longleftrightarrow> (\<forall>i. Suc i < length rs \<longrightarrow> snd (rs ! i) = snd (rs ! Suc i)
     \<longrightarrow> fst (rs ! Suc i) \<ge> fst (rs ! i) + suppression_interval)"

lemma spaced_snoc:
  assumes "spaced rs" "rs \<noteq> [] \<Longrightarrow> snd (last rs) = snd r \<Longrightarrow> fst r \<ge> fst (last rs) + suppression_interval"
  shows "spaced (rs @ [r])"
  unfolding spaced_def
proof (intro allI impI)
  fix i
  assume i: "Suc i < length (rs @ [r])" "snd ((rs @ [r]) ! i) = snd ((rs @ [r]) ! Suc i)"
  show "fst ((rs @ [r]) ! Suc i) \<ge> fst ((rs @ [r]) ! i) + suppression_interval"
  proof (cases "Suc i < length rs")
    case True
    with assms(1) i show ?thesis by (simp add: spaced_def nth_append)
  next
    case False
    with i have "rs \<noteq> []" "i = length rs - 1" by auto
    with assms(2) i show ?thesis by (simp add: nth_append last_conv_nth)
  qed
qed

lemma notify_error_step:
  assumes inv: "en_inv clock en" and on: "en_error_notifier en" and spaced: "spaced (en_notified en)"
  shows "en_inv clock (notify_error clock msg en) \<and> spaced (en_notified (notify_error clock msg en))
    \<and> set (map snd (en_notified (notify_error clock msg en))) = insert msg (set (map snd (en_notified en)))"
proof (cases "msg = en_last_error_notification en \<and> clock (en_readings en) < en_next_error_notification_time en")
  case True
  then have "en_notified en \<noteq> []" using inv unfolding en_inv_def by (metis linorder_not_le order_refl)
  with True inv have "en_last_error_notification en \<in> set (map snd (en_notified en))"
    by (simp add: en_inv_def)
  with True on inv spaced \<open>en_notified en \<noteq> []\<close> show ?thesis
    by (auto simp: notify_error_def Let_def en_inv_def)
next
  case False
  then have "notify_error clock msg en = en\<lparr>en_readings := en_readings en + 1, en_last_error_notification := msg,
      en_next_error_notification_time := clock (en_readings en) + suppression_interval,
      en_notified := en_notified en @ [(clock (en_readings en), msg)]\<rparr>"
    using on by (auto simp: notify_error_def Let_def)
  moreover have "spaced (en_notified en @ [(clock (en_readings en), msg)])"
    by (rule spaced_snoc [OF spaced]) (use False inv in \<open>auto simp: en_inv_def\<close>)
  ultimately show ?thesis by (simp add: en_inv_def)
qed

lemma notify_all_step:
  assumes "en_inv clock en" "en_error_notifier en" "spaced (en_notified en)"
  shows "spaced (en_notified (fold (notify_error clock) msgs en))
    \<and> set (map snd (en_notified (fold (notify_error clock) msgs en))) = set msgs \<union> set (map snd (en_notified en))"
  using assms
proof (induction msgs arbitrary: en)
  case (Cons msg msgs)
  from notify_error_step [OF Cons.prems, of msg] Cons.IH [of "notify_error clock msg en"] Cons.prems
  show ?case by auto
qed simp

subsection \<open>Properties\<close>

text \<open>
  C18. Suppression loses no error: of any sequence of errors each distinct text is reported to the
  user at least once, no text is reported that did not occur, and two successive reports of the
  same text are at least five seconds apart.
\<close>

theorem error_reports_complete:
  assumes "\<forall>n. clock 0 \<le> clock n"
  shows "set (map snd (en_notified (fold (notify_error clock) msgs (en_new True clock)))) = set msgs
    \<and> spaced (en_notified (fold (notify_error clock) msgs (en_new True clock)))"
  using notify_all_step [of clock "en_new True clock" msgs] assms
  by (simp add: en_inv_def en_new_def spaced_def)

theorem error_reports_complete_witness:
  "en_notified (fold (notify_error (\<lambda>n. int n * 2000000000)) [''a'', ''b'', ''b'', ''b'', ''a''] (en_new True (\<lambda>n. int n * 2000000000)))
    = [(2000000000, ''a''), (4000000000, ''b''), (10000000000, ''a'')]
   \<and> spaced [(2000000000, ''a''), (4000000000, ''b''), (10000000000, ''a'')]"
proof -
  let ?c = "\<lambda>n. int n * 2000000000"
  have e: "en_notified (fold (notify_error ?c) [''a'', ''b'', ''b'', ''b'', ''a''] (en_new True ?c))
    = [(2000000000, ''a''), (4000000000, ''b''), (10000000000, ''a'')]"
    by (simp add: notify_error_def en_new_def suppression_interval_def Let_def)
  with error_reports_complete [of ?c "[''a'', ''b'', ''b'', ''b'', ''a'']"] show ?thesis by simp
qed

end
