(* ===== verification/Backend_Decode.thy ===== *)
theory Backend_Decode
  imports Frontend_Logger Named_Args Error_Notifier
begin

text \<open>
  How the backend takes messages out of the frontend queues, from
  \<^verbatim>\<open>quill/backend/BackendWorker.h\<close>: the header, MDC events, runtime metadata, formatting into a
  slot of the transit event buffer, and the loop that reads one queue. The members of
  \<^verbatim>\<open>BackendWorker\<close> are a record; members that are only scratch space are local here.
  Objects at fixed addresses (metadata, decoders, C strings, the clock of a logger) are a
  read-only memory in the environment; the rdtsc conversion, the formatting library, the clocks
  and the allocator are parameters.
\<close>

subsection \<open>The worker and its environment\<close>

record static_memory =
  sm_metadata :: "u64 \<Rightarrow> macro_metadata"
  sm_decoder :: "u64 \<Rightarrow> arg_type list"
  sm_c_string :: "u64 \<Rightarrow> string"
  sm_clock_source :: "u64 \<Rightarrow> clock_source_type"

text \<open>
  \<open>be_allocation n\<close> is how an allocation goes in the \<open>n\<close>-th attempt to decode a message,
  \<open>be_extra_address n\<close> where it places the \<^verbatim>\<open>ExtraData\<close>.
\<close>

record backend_env =
  be_memory :: static_memory
  be_vformat :: vformat
  be_steady_clock :: "nat \<Rightarrow> int"
  be_steady_now :: int
  be_system_time_ns :: u64
  be_time_since_epoch :: "u64 \<Rightarrow> u64"
  be_allocation :: "nat \<Rightarrow> allocation_outcome"
  be_extra_address :: "nat \<Rightarrow> nat"
  be_local_time :: string

type_synonym named_template = "string \<times> (string \<times> string) list"

text \<open>The rdtsc clock is created once and published while it may be used.\<close>

record backend_worker =
  bw_options :: backend_options
  bw_notifications :: error_notifications
  bw_format_args_store :: "decoded_arg list"
  bw_named_args_templates :: "string \<rightharpoonup> named_template"
  bw_logger_removal_flags :: "string \<rightharpoonup> u64"
  bw_rdtsc_clock_owner :: bool
  bw_rdtsc_clock :: bool
  bw_last_rdtsc_resync_time :: int
  bw_last_output_timestamp :: u64
  bw_removed_loggers :: "string list"
  bw_active_thread_contexts_cache :: "nat list"
  bw_last_sink_flush_time :: int
  bw_is_worker_running :: bool
  bw_is_rdtsc_clock_config_valid :: bool
  bw_wake_up_flag :: bool
  bw_process_id :: string
  bw_decode_attempts :: nat

definition bw_notify_error :: "backend_env \<Rightarrow> string \<Rightarrow> backend_worker \<Rightarrow> backend_worker" where
  "bw_notify_error env msg w = w\<lparr>bw_notifications := notify_error (be_steady_clock env) msg (bw_notifications w)\<rparr>"

subsection \<open>Bytes\<close>

definition chars :: "bytes \<Rightarrow> string" where
  "chars bs = map (\<lambda>b. char_of (unat b)) bs"

definition word_at :: "bytes \<Rightarrow> nat \<Rightarrow> u64" where
  "word_at mem off = of_nat (le_value (slice off 8 mem))"

definition u32_at :: "bytes \<Rightarrow> nat \<Rightarrow> u32" where
  "u32_at mem off = of_nat (le_value (slice off 4 mem))"

text \<open>\<^verbatim>\<open>Codec<char const*>::decode_arg\<close> and \<^verbatim>\<open>Codec<void const*>::decode_arg\<close> as a C string.\<close>

definition decode_c_string :: "bytes \<Rightarrow> nat \<Rightarrow> string option \<times> nat" where
  "decode_c_string mem off = (let arg = c_string_at mem off in (Some (chars arg), off + length arg + 1))"

definition c_string_of :: "static_memory \<Rightarrow> u64 \<Rightarrow> string option" where
  "c_string_of sm p = (if p = 0 then None else Some (sm_c_string sm p))"

definition decode_pointer :: "static_memory \<Rightarrow> bytes \<Rightarrow> nat \<Rightarrow> string option \<times> nat" where
  "decode_pointer sm mem off = (c_string_of sm (word_at mem off), off + 8)"

text \<open>\<^verbatim>\<open>Codec<LogLevel>::decode_arg\<close>: one byte, the index of the level.\<close>

definition level_of_byte :: "u8 \<Rightarrow> log_level" where
  "level_of_byte b = (case filter (\<lambda>l. log_level_index l = unat b)
     [TraceL3, TraceL2, TraceL1, Debug, Info, Notice, Warning, Error, Critical, Backtrace, NoneLevel] of
       [] \<Rightarrow> NoneLevel | l # _ \<Rightarrow> l)"

subsection \<open>Runtime metadata\<close>

definition runtime_metadata_event :: "macro_event \<Rightarrow> bool" where
  "runtime_metadata_event ev \<longleftrightarrow> ev = LogWithRuntimeMetadataDeepCopy \<or> ev = LogWithRuntimeMetadataShallowCopy
     \<or> ev = LogWithRuntimeMetadataHybridCopy"

text \<open>The four strings: format, file, function and tags, in the order they were written.\<close>

definition decode_runtime_strings ::
  "static_memory \<Rightarrow> macro_event \<Rightarrow> bytes \<Rightarrow> nat
    \<Rightarrow> quill_error + (string option \<times> string option \<times> string option \<times> string option \<times> nat)" where
  "decode_runtime_strings sm ev mem off =
     (if ev = LogWithRuntimeMetadataDeepCopy then
        let (fmt, o1) = decode_c_string mem off; (path, o2) = decode_c_string mem o1;
            (func, o3) = decode_c_string mem o2; (tags, o4) = decode_c_string mem o3
        in Inr (fmt, path, func, tags, o4)
      else if ev = LogWithRuntimeMetadataShallowCopy then
        let (fmt, o1) = decode_pointer sm mem off; (path, o2) = decode_pointer sm mem o1;
            (func, o3) = decode_pointer sm mem o2; (tags, o4) = decode_pointer sm mem o3
        in Inr (fmt, path, func, tags, o4)
      else if ev = LogWithRuntimeMetadataHybridCopy then
        let (fmt, o1) = decode_c_string mem off; (path, o2) = decode_pointer sm mem o1;
            (func, o3) = decode_pointer sm mem o2; (tags, o4) = decode_c_string mem o3
        in Inr (fmt, path, func, tags, o4)
      else Inl (QuillError ''Unexpected event type in _apply_runtime_metadata. This should never happen.''))"

definition te_map_extra :: "(extra_data \<Rightarrow> extra_data) \<Rightarrow> transit_event \<Rightarrow> transit_event" where
  "te_map_extra f e = e\<lparr>te_extra_data := map_option (\<lambda>(a, x). (a, f x)) (te_extra_data e)\<rparr>"

text \<open>\<^verbatim>\<open>transit_event->macro_metadata = &transit_event->extra_data->runtime_metadata.macro_metadata\<close>\<close>

definition te_use_runtime_metadata :: "transit_event \<Rightarrow> transit_event" where
  "te_use_runtime_metadata e =
     (case te_extra_data e of Some (a, _) \<Rightarrow> e\<lparr>te_macro_metadata := RuntimeMetadataOf a\<rparr> | None \<Rightarrow> e)"

definition apply_runtime_metadata ::
  "static_memory \<Rightarrow> nat \<Rightarrow> macro_event \<Rightarrow> bytes \<Rightarrow> nat \<Rightarrow> transit_event \<Rightarrow> (quill_error + nat) \<times> transit_event" where
  "apply_runtime_metadata sm address ev mem off e =
     (case decode_runtime_strings sm ev mem off of
        Inl err \<Rightarrow> (Inl err, e)
      | Inr (fmt, path, func, tags, o4) \<Rightarrow>
          let line = u32_at mem o4; level = level_of_byte (hd (slice (o4 + 4) 1 mem));
              e1 = te_ensure_extra_data address e;
              e2 = te_map_extra (\<lambda>x. x\<lparr>ed_runtime_metadata := rm_set path line func tags fmt level (ed_runtime_metadata x)\<rparr>) e1
          in (Inr (o4 + 5), te_use_runtime_metadata e2))"

subsection \<open>Mapped diagnostic context\<close>

text \<open>The keys and values are formatted with \<open>{}\<close>; the first exception ends it.\<close>

fun format_mdc_pairs :: "vformat \<Rightarrow> decoded_arg list \<Rightarrow> quill_error + (string \<times> string) list" where
  "format_mdc_pairs vformat (k # v # as) =
     (case vformat ''{}'' [k] of
        (_, Some e) \<Rightarrow> Inl e
      | (key, None) \<Rightarrow>
          case vformat ''{}'' [v] of
            (_, Some e) \<Rightarrow> Inl e
          | (val, None) \<Rightarrow> map_sum id (\<lambda>kvs. (key, val) # kvs) (format_mdc_pairs vformat as))"
| "format_mdc_pairs vformat _ = Inr []"

fun format_mdc_keys :: "vformat \<Rightarrow> decoded_arg list \<Rightarrow> quill_error + string list" where
  "format_mdc_keys vformat [] = Inr []"
| "format_mdc_keys vformat (k # as) =
     (case vformat ''{}'' [k] of
        (_, Some e) \<Rightarrow> Inl e
      | (key, None) \<Rightarrow> map_sum id (Cons key) (format_mdc_keys vformat as))"

text \<open>
  The new MDC state of the thread and the error to report, if any. Only the constructor's
  exception, for a pattern that \<^verbatim>\<open>validate_options\<close> refuses, leaves the function.
\<close>

definition mdc_set_event ::
  "vformat \<Rightarrow> string \<Rightarrow> decoded_arg list \<Rightarrow> mdc_state option \<Rightarrow> quill_error + (mdc_state option \<times> string option)" where
  "mdc_set_event vformat pattern store state =
     (case (case state of None \<Rightarrow> mdc_new pattern | Some m \<Rightarrow> Inr m) of
        Inl e \<Rightarrow> Inl e
      | Inr m \<Rightarrow>
          (case format_mdc_pairs vformat store of
             Inl e \<Rightarrow> Inr (Some m, Some (error_text e))
           | Inr kvs \<Rightarrow> Inr (Some (mdc_rebuild_formatted (fold (\<lambda>(k, v). mdc_set k v) kvs m)), None)))"

definition mdc_erase_event ::
  "vformat \<Rightarrow> decoded_arg list \<Rightarrow> mdc_state option \<Rightarrow> mdc_state option \<times> string option" where
  "mdc_erase_event vformat store state =
     (case state of
        None \<Rightarrow> (None, None)
      | Some m \<Rightarrow>
          (case format_mdc_keys vformat store of
             Inl e \<Rightarrow> (Some m, Some (error_text e))
           | Inr ks \<Rightarrow>
               let m' = fold mdc_erase ks m
               in (if mdc_empty m' then None else Some (mdc_rebuild_formatted m'), None)))"

definition report :: "backend_env \<Rightarrow> string option \<Rightarrow> backend_worker \<Rightarrow> backend_worker" where
  "report env err w = (case err of None \<Rightarrow> w | Some msg \<Rightarrow> bw_notify_error env msg w)"

definition apply_mdc_event ::
  "backend_env \<Rightarrow> macro_event \<Rightarrow> arg_type list \<Rightarrow> bytes \<Rightarrow> nat \<Rightarrow> thread_context \<Rightarrow> backend_worker
    \<Rightarrow> (quill_error + nat) \<times> thread_context \<times> backend_worker" where
  "apply_mdc_event env ev decoder mem off tc w =
     (if ev = MdcSet then
        case decode_and_store_args mem decoder off (bw_format_args_store w) of (store, off') \<Rightarrow>
          let w1 = w\<lparr>bw_format_args_store := store\<rparr> in
          case mdc_set_event (be_vformat env) (bo_mdc_format_pattern (bw_options w)) store (tc_backend_mdc_state tc) of
            Inl e \<Rightarrow> (Inl e, tc, w1)
          | Inr (state, err) \<Rightarrow> (Inr off', tc\<lparr>tc_backend_mdc_state := state\<rparr>, report env err w1)
      else if ev = MdcErase then
        case decode_and_store_args mem decoder off (bw_format_args_store w) of (store, off') \<Rightarrow>
          let w1 = w\<lparr>bw_format_args_store := store\<rparr>;
              (state, err) = mdc_erase_event (be_vformat env) store (tc_backend_mdc_state tc)
          in (Inr off', tc\<lparr>tc_backend_mdc_state := state\<rparr>, report env err w1)
      else if ev = MdcClear then (Inr off, tc\<lparr>tc_backend_mdc_state := None\<rparr>, w)
      else (Inr off, tc, w))"

definition set_transit_event_mdc :: "nat \<Rightarrow> thread_context \<Rightarrow> transit_event \<Rightarrow> transit_event" where
  "set_transit_event_mdc address tc e =
     (case tc_backend_mdc_state tc of
        None \<Rightarrow> e
      | Some m \<Rightarrow> te_map_extra (\<lambda>x. x\<lparr>ed_mdc := mdc_formatted m\<rparr>) (te_ensure_extra_data address e))"

subsection \<open>Formatting into the event\<close>

text \<open>The event's message; \<open>m\<close> is its metadata.\<close>

definition format_event_message ::
  "backend_env \<Rightarrow> macro_metadata \<Rightarrow> string \<Rightarrow> transit_event \<Rightarrow> backend_worker \<Rightarrow> transit_event \<times> backend_worker" where
  "format_event_message env m message_format e w =
     (case populate_formatted_log_message (be_vformat env) (bw_options w) (mm_is_rate_limited m) (mm_message_format m)
             (mm_short_source_location m) message_format (bw_format_args_store w) of
        (msg, err) \<Rightarrow> (e\<lparr>te_formatted_msg := Some msg\<rparr>, report env err w))"

definition format_event_named_args ::
  "backend_env \<Rightarrow> nat \<Rightarrow> macro_metadata \<Rightarrow> (string \<times> string) list \<Rightarrow> backend_worker \<Rightarrow> transit_event \<Rightarrow> transit_event" where
  "format_event_named_args env address m arg_names w e =
     te_map_extra (\<lambda>x. x\<lparr>ed_named_args := populate_formatted_named_args (be_vformat env) (bw_options w)
       (mm_is_rate_limited m) arg_names (bw_format_args_store w)\<rparr>) (te_ensure_extra_data address e)"

text \<open>The template of a static format is looked up, or parsed and kept.\<close>

definition named_args_template_of :: "bool \<Rightarrow> string \<Rightarrow> backend_worker \<Rightarrow> named_template \<times> backend_worker" where
  "named_args_template_of is_runtime fmt w =
     (if is_runtime then (process_named_args_format_message fmt, w)
      else case bw_named_args_templates w fmt of
             Some t \<Rightarrow> (t, w)
           | None \<Rightarrow>
               let t = process_named_args_format_message fmt
               in (t, w\<lparr>bw_named_args_templates := (bw_named_args_templates w)(fmt \<mapsto> t)\<rparr>))"

definition format_event ::
  "backend_env \<Rightarrow> nat \<Rightarrow> bool \<Rightarrow> macro_metadata \<Rightarrow> transit_event \<Rightarrow> backend_worker \<Rightarrow> transit_event \<times> backend_worker" where
  "format_event env address is_runtime m e w =
     (if \<not> mm_has_named_args m then format_event_message env m (mm_message_format m) e w
      else case named_args_template_of is_runtime (mm_message_format m) w of ((message_format, arg_names), w1) \<Rightarrow>
             case format_event_message env m message_format e w1 of (e2, w2) \<Rightarrow>
               (format_event_named_args env address m arg_names w2 e2, w2))"

subsection \<open>One message\<close>

text \<open>
  The part after the header and the timestamp check, by event; \<open>decoder\<close> is the last word of
  the header. The event it fills is returned with the read position.
\<close>

definition populate_event ::
  "backend_env \<Rightarrow> nat \<Rightarrow> macro_event \<Rightarrow> u64 \<Rightarrow> bytes \<Rightarrow> nat \<Rightarrow> transit_event \<Rightarrow> thread_context \<Rightarrow> backend_worker
    \<Rightarrow> (quill_error + nat) \<times> transit_event \<times> thread_context \<times> backend_worker" where
  "populate_event env address ev decoder mem off e tc w =
     (if ev = Metric then (Inr off, te_set_metric_value decoder e, tc, w)
      else if ev = MdcSet \<or> ev = MdcErase \<or> ev = MdcClear then
        case apply_mdc_event env ev (sm_decoder (be_memory env) decoder) mem off tc w of (r, tc', w') \<Rightarrow> (r, e, tc', w')
      else
        case (if runtime_metadata_event ev then apply_runtime_metadata (be_memory env) address ev mem off e
              else (Inr off, e)) of
          (Inl err, e1) \<Rightarrow> (Inl err, e1, tc, w)
        | (Inr off1, e1) \<Rightarrow>
            let m = the (te_metadata e1) in
            if mm_event m \<noteq> Flush \<and> mm_event m \<noteq> LoggerRemovalRequest then
              case decode_and_store_args mem (sm_decoder (be_memory env) decoder) off1 (bw_format_args_store w) of
                (store, off2) \<Rightarrow>
                  case format_event env address (runtime_metadata_event ev) m e1 (w\<lparr>bw_format_args_store := store\<rparr>) of
                    (e2, w2) \<Rightarrow> (Inr off2, set_transit_event_mdc address tc e2, tc, w2)
            else if mm_event m = Flush then
              (Inr (off1 + 8), te_set_flush_flag (Some (unat (word_at mem off1))) e1, tc, w)
            else
              case decode_arg mem TypeString (off1 + 8) of
                (DecodedString logger_name, off2) \<Rightarrow>
                  let flags = bw_logger_removal_flags w
                  in (Inr off2, e1, tc, if flags (chars logger_name) = None
                        then w\<lparr>bw_logger_removal_flags := flags(chars logger_name \<mapsto> word_at mem off1)\<rparr> else w)
              | (_, off2) \<Rightarrow> (Inr off2, e1, tc, w))"

text \<open>The timestamp in nanoseconds; the rdtsc clock starts with the first statement that needs it.\<close>

definition start_rdtsc_clock :: "backend_env \<Rightarrow> backend_worker \<Rightarrow> backend_worker" where
  "start_rdtsc_clock env w =
     (if bw_rdtsc_clock w then w
      else w\<lparr>bw_rdtsc_clock_owner := True, bw_rdtsc_clock := True, bw_last_rdtsc_resync_time := be_steady_now env\<rparr>)"

definition event_timestamp :: "backend_env \<Rightarrow> clock_source_type \<Rightarrow> u64 \<Rightarrow> u64" where
  "event_timestamp env clock raw = (if clock = Tsc then be_time_since_epoch env raw else raw)"

text \<open>Held back: a real timestamp past the grace period's cut-off.\<close>

definition too_recent :: "clock_source_type \<Rightarrow> u64 \<Rightarrow> u64 \<Rightarrow> bool" where
  "too_recent clock ts_now timestamp \<longleftrightarrow> clock \<noteq> User \<and> ts_now \<noteq> - 1 \<and> timestamp > ts_now"

definition tc_set_slot :: "transit_event transit_buffer \<Rightarrow> nat \<Rightarrow> transit_event \<Rightarrow> thread_context \<Rightarrow> thread_context" where
  "tc_set_slot b i e tc = tc\<lparr>tc_transit_event_buffer := Some (b\<lparr>tb_storage := (tb_storage b)[i := e]\<rparr>)\<rparr>"

text \<open>
  \<^verbatim>\<open>_populate_transit_event_from_frontend_queue\<close>: an exception, or the new read position, or
  \<^verbatim>\<open>false\<close> (\<open>Inr None\<close>). The message is read from \<open>mem\<close> at \<open>off\<close>.
\<close>

definition populate_transit_event ::
  "backend_env \<Rightarrow> u64 \<Rightarrow> bytes \<Rightarrow> nat \<Rightarrow> thread_context \<Rightarrow> backend_worker
    \<Rightarrow> (quill_error + nat option) \<times> thread_context \<times> backend_worker" where
  "populate_transit_event env ts_now mem off tc w0 =
     (let n = bw_decode_attempts w0; w = w0\<lparr>bw_decode_attempts := n + 1\<rparr>; address = be_extra_address env n in
      case tc_transit_event_buffer tc of
        None \<Rightarrow> (Inr None, tc, w)
      | Some b0 \<Rightarrow>
          case tb_back (be_allocation env n) te_default te_moved_from b0 of
            (Inl _, b) \<Rightarrow> (Inr None, tc\<lparr>tc_transit_event_buffer := Some b\<rparr>,
              bw_notify_error env ''Quill ERROR: Failed to expand the transit event buffer (allocation failure).'' w)
          | (Inr i, b) \<Rightarrow>
              let raw = word_at mem off; metadata = sm_metadata (be_memory env) (word_at mem (off + 8));
                  logger = word_at mem (off + 16); decoder = word_at mem (off + 24);
                  clock = sm_clock_source (be_memory env) logger;
                  w1 = (if clock = Tsc then start_rdtsc_clock env w else w);
                  timestamp = event_timestamp env clock raw;
                  e = (tb_storage b ! i)\<lparr>te_timestamp := timestamp, te_macro_metadata := StaticMetadata metadata,
                        te_logger_base := Some (unat logger)\<rparr>
              in if too_recent clock ts_now timestamp then (Inr None, tc_set_slot b i e tc, w1)
                 else case populate_event env address (mm_event metadata) decoder mem (off + 32) e tc w1 of
                        (Inl err, e', tc', w') \<Rightarrow> (Inl err, tc_set_slot b i e' tc', w')
                      | (Inr off', e', tc', w') \<Rightarrow>
                          let b' = b\<lparr>tb_storage := (tb_storage b)[i := e']\<rparr>;
                              pushed = (if mm_event metadata = MdcSet \<or> mm_event metadata = MdcErase \<or> mm_event metadata = MdcClear
                                        then b' else tb_push_back b')
                          in (Inr (Some off'), tc'\<lparr>tc_transit_event_buffer := Some pushed\<rparr>, w'\<lparr>bw_format_args_store := []\<rparr>))"

subsection \<open>One queue\<close>

definition tc_map_buffer :: "(transit_event transit_buffer \<Rightarrow> transit_event transit_buffer) \<Rightarrow> thread_context \<Rightarrow> thread_context" where
  "tc_map_buffer f tc = tc\<lparr>tc_transit_event_buffer := map_option f (tc_transit_event_buffer tc)\<rparr>"

definition buffered :: "thread_context \<Rightarrow> size_t" where
  "buffered tc = (case tc_transit_event_buffer tc of None \<Rightarrow> 0 | Some b \<Rightarrow> tb_size b)"

definition allocation_message :: "string \<Rightarrow> size_t \<Rightarrow> size_t \<Rightarrow> string \<Rightarrow> string" where
  "allocation_message local_time new_capacity previous_capacity thread_id =
     local_time @ '' Quill INFO: Allocated a new SPSC queue with a capacity of '' @ to_string (unat (new_capacity div 1024))
       @ '' KiB (previously '' @ to_string (unat (previous_capacity div 1024)) @ '' KiB) from thread '' @ thread_id"

text \<open>
  \<^verbatim>\<open>prepare_read\<close> of either queue; for an unbounded one \<^verbatim>\<open>_read_unbounded_frontend_queue\<close> also
  passes a requested shrink on to the buffer and reports the allocation.
\<close>

definition read_frontend_queue ::
  "backend_env \<Rightarrow> thread_context \<Rightarrow> backend_worker \<Rightarrow> size_t option \<times> thread_context \<times> backend_worker" where
  "read_frontend_queue env tc w =
     (case sq_prepare_read (tc_spsc_queue tc) of (r, q) \<Rightarrow>
        let tc1 = tc\<lparr>tc_spsc_queue := q\<rparr> in
        if rr_allocation r
        then (rr_read_pos r,
              if rr_new_capacity r < rr_previous_capacity r then tc_map_buffer tb_request_shrink tc1 else tc1,
              bw_notify_error env (allocation_message (be_local_time env) (rr_new_capacity r) (rr_previous_capacity r) (tc_thread_id tc)) w)
        else (rr_read_pos r, tc1, w))"

partial_function (option) read_queue_loop ::
  "backend_env \<Rightarrow> u64 \<Rightarrow> size_t \<Rightarrow> size_t \<Rightarrow> thread_context \<Rightarrow> backend_worker
    \<Rightarrow> ((quill_error + size_t) \<times> thread_context \<times> backend_worker) option" where
  "read_queue_loop env ts_now queue_capacity total_bytes_read tc w =
     (if \<not> (total_bytes_read < queue_capacity \<and> buffered tc < bo_transit_events_hard_limit (bw_options w))
      then Some (Inr total_bytes_read, tc, w)
      else case read_frontend_queue env tc w of
        (None, tc1, w1) \<Rightarrow> Some (Inr total_bytes_read, tc1, w1)
      | (Some off, tc1, w1) \<Rightarrow>
          case populate_transit_event env ts_now (bq_storage (sq_consumer (tc_spsc_queue tc1))) (unat off) tc1 w1 of
            (Inl e, tc2, w2) \<Rightarrow> Some (Inl e, tc2, w2)
          | (Inr None, tc2, w2) \<Rightarrow> Some (Inr total_bytes_read, tc2, w2)
          | (Inr (Some off'), tc2, w2) \<Rightarrow>
              let bytes_read = of_nat (off' - unat off)
              in read_queue_loop env ts_now queue_capacity (total_bytes_read + bytes_read)
                   (tc2\<lparr>tc_spsc_queue := sq_finish_read bytes_read (tc_spsc_queue tc2)\<rparr>) w2)"

declare read_queue_loop.simps [code]

text \<open>All reads are committed together; an exception skips the commit.\<close>

definition read_and_decode_frontend_queue ::
  "backend_env \<Rightarrow> u64 \<Rightarrow> thread_context \<Rightarrow> backend_worker
    \<Rightarrow> ((quill_error + size_t) \<times> thread_context \<times> backend_worker) option" where
  "read_and_decode_frontend_queue env ts_now tc w =
     (case read_queue_loop env ts_now (sq_capacity (tc_spsc_queue tc)) 0 tc w of
        None \<Rightarrow> None
      | Some (Inl e, tc1, w1) \<Rightarrow> Some (Inl e, tc1, w1)
      | Some (Inr total_bytes_read, tc1, w1) \<Rightarrow>
          let tc2 = (if total_bytes_read \<noteq> 0 then tc1\<lparr>tc_spsc_queue := sq_commit_read (tc_spsc_queue tc1)\<rparr> else tc1)
          in Some (Inr (buffered tc2), tc2, w1))"

subsection \<open>An example\<close>

definition example_backend :: backend_env where
  "example_backend = \<lparr>be_memory = \<lparr>sm_metadata = \<lambda>_. mm_new ''a.cpp:1'' ''f'' ''hi'' None Info Log False, sm_decoder = \<lambda>_. [],
       sm_c_string = \<lambda>_. '''', sm_clock_source = \<lambda>_. System\<rparr>,
     be_vformat = \<lambda>f as. (f, None), be_steady_clock = int, be_steady_now = 0, be_system_time_ns = 0,
     be_time_since_epoch = id, be_allocation = \<lambda>_. AllocationOk, be_extra_address = id, be_local_time = ''''\<rparr>"

definition example_worker :: backend_worker where
  "example_worker = \<lparr>bw_options = default_backend_options, bw_notifications = en_new True int, bw_format_args_store = [],
     bw_named_args_templates = (\<lambda>_. None), bw_logger_removal_flags = (\<lambda>_. None), bw_rdtsc_clock_owner = False,
     bw_rdtsc_clock = False, bw_last_rdtsc_resync_time = 0, bw_last_output_timestamp = 0, bw_removed_loggers = [],
     bw_active_thread_contexts_cache = [], bw_last_sink_flush_time = 0, bw_is_worker_running = True,
     bw_is_rdtsc_clock_config_valid = True, bw_wake_up_flag = False, bw_process_id = ''1'', bw_decode_attempts = 0\<rparr>"

end
