(* ===== verification/Slot_Reuse.thy ===== *)
theory Slot_Reuse
  imports Transit_Buffer
begin

text \<open>
  The slots of the transit event buffer are used again and again: an event is written over what
  its slot held before. This theory follows the slots that hold no live event through the
  operations of the buffer (\<open>tb_free P\<close>: all of them satisfy \<open>P\<close>), and states what the code
  relies on when it reuses one (\<open>slot_free\<close>).
\<close>

definition tb_free :: "('e \<Rightarrow> bool) \<Rightarrow> 'e transit_buffer \<Rightarrow> bool" where
  "tb_free P q \<longleftrightarrow> (\<forall>i < length (tb_storage q). i \<notin> set (tb_slots q) \<longrightarrow> P (tb_storage q ! i))"

lemma writer_slot_free:
  assumes inv: "tb_inv q" and room: "unat (tb_size q) < length (tb_storage q)"
  shows "tb_slot q (tb_writer_pos q) \<notin> set (tb_slots q)" "tb_slot q (tb_writer_pos q) < length (tb_storage q)"
proof -
  let ?n = "unat (tb_size q)"
  have w: "tb_writer_pos q = tb_reader_pos q + of_nat ?n" by (simp add: tb_size_def)
  show "tb_slot q (tb_writer_pos q) < length (tb_storage q)" using slot_less [OF inv] unfolding w .
  show "tb_slot q (tb_writer_pos q) \<notin> set (tb_slots q)"
  proof
    assume "tb_slot q (tb_writer_pos q) \<in> set (tb_slots q)"
    then obtain i where "i < ?n" "tb_slot q (tb_reader_pos q + of_nat ?n) = tb_slot q (tb_reader_pos q + of_nat i)"
      using w by (auto simp: tb_slots_def)
    with slot_inj [OF inv room, of i] room show False by auto
  qed
qed

lemma expand_storage:
  assumes inv: "tb_inv q" and full: "tb_capacity q = tb_size q" and ok: "tb_expand outcome fresh moved q = (Inr u, q')"
  shows "\<exists>n. tb_storage q' = tb_events q @ replicate n fresh"
proof -
  note d = slots_distinct [OF inv]
  obtain storage new where m: "move_out moved (tb_slots q) (tb_storage q) [] = (storage, new)" by fastforce
  then have "new = tb_events q"
    using move_out_eq(1) [OF d, where moved = moved and acc = "[]"] by (simp add: tb_events_def)
  with ok m show ?thesis by (auto simp: tb_expand_def Let_def split: if_splits)
qed

lemma full_no_free:
  assumes inv: "tb_inv q" and full: "unat (tb_size q) = length (tb_storage q)"
  shows "set (tb_slots q) = {..<length (tb_storage q)}"
proof (rule card_subset_eq)
  show "set (tb_slots q) \<subseteq> {..<length (tb_storage q)}" using slot_less [OF inv] by (auto simp: tb_slots_def)
  show "card (set (tb_slots q)) = card {..<length (tb_storage q)}"
    using distinct_card [of "tb_slots q"] slots_distinct [OF inv] full by (simp add: tb_slots_def)
qed simp

lemma back_free:
  assumes inv: "tb_inv q" and free: "tb_free P q" and fresh: "P fresh"
    and b: "tb_back outcome fresh moved q = (r, q')"
  shows "tb_free P q' \<and> (\<forall>i. r = Inr i \<longrightarrow> P (tb_storage q' ! i))"
proof (cases "tb_capacity q = tb_size q")
  case False
  then have "unat (tb_size q) \<noteq> length (tb_storage q)"
    using capacity_unat [OF inv] by (metis word_unat_eq_iff)
  then have "unat (tb_size q) < length (tb_storage q)" using inv by (simp add: tb_inv_def)
  from writer_slot_free [OF inv this] b False free show ?thesis by (auto simp: tb_back_def tb_free_def)
next
  case True
  then have full: "unat (tb_size q) = length (tb_storage q)" using capacity_unat [OF inv] by simp
  obtain r2 q2 where x: "tb_expand outcome fresh moved q = (r2, q2)" by fastforce
  show ?thesis
  proof (cases r2)
    case (Inl e)
    with expand_failed [OF inv, of outcome fresh moved e] x b True free show ?thesis
      by (auto simp: tb_back_def)
  next
    case (Inr u)
    note fin = expand_done [OF inv True x [unfolded Inr]]
    obtain n where n: "tb_storage q2 = tb_events q @ replicate n fresh"
      using expand_storage [OF inv True x [unfolded Inr]] by blast
    have pos: "tb_reader_pos q2 = 0" using x Inr by (auto simp: tb_expand_def Let_def split: if_splits prod.splits)
    have len: "length (tb_events q) = unat (tb_size q2)"
      using fin(2) length_events [of q] length_events [of q2] by simp
    have "i \<in> set (tb_slots q2)" if "i < length (tb_events q)" for i
    proof -
      have "tb_slot q2 (0 + of_nat i) = i" using slot_mod [OF fin(1), of 0 i] that n by simp
      then have "i = tb_slot q2 (tb_reader_pos q2 + of_nat i)" using pos by simp
      with that len show ?thesis by (auto simp: tb_slots_def)
    qed
    then have free2: "tb_free P q2" using n fresh by (auto simp: tb_free_def nth_append)
    with writer_slot_free [OF fin(1,3)] x b True Inr show ?thesis by (auto simp: tb_back_def tb_free_def)
  qed
qed

lemma push_slots:
  assumes inv: "tb_inv q" and room: "unat (tb_size q) < length (tb_storage q)"
  shows "tb_slots (tb_push_back q) = tb_slots q @ [tb_slot q (tb_writer_pos q)]"
proof -
  let ?n = "unat (tb_size q)"
  have w: "tb_writer_pos q = tb_reader_pos q + of_nat ?n" by (simp add: tb_size_def)
  obtain k where k: "k \<le> 57" "length (tb_storage q) = 2 ^ k" using inv by (auto simp: tb_inv_def)
  have "(2::nat) ^ k \<le> 2 ^ 57" using k(1) by (rule power_increasing) simp
  then have b: "?n + 1 < 2 ^ LENGTH(64)" using room k by simp
  have "unat (tb_size (tb_push_back q)) = ?n + 1"
    using unat_add_base [OF b [unfolded tb_size_def]] by (simp add: tb_size_def tb_push_back_def)
  then show ?thesis using w by (simp add: tb_slots_def tb_slot_def tb_push_back_def)
qed

lemma set_slots [simp]: "tb_slots (q\<lparr>tb_storage := s\<rparr>) = tb_slots q"
  by (simp add: tb_slots_def tb_slot_def tb_size_def)

lemma push_free:
  assumes inv: "tb_inv q" and room: "unat (tb_size q) < length (tb_storage q)" and free: "tb_free P q"
  shows "tb_free P (tb_push_back (q\<lparr>tb_storage := (tb_storage q)[tb_slot q (tb_writer_pos q) := e]\<rparr>))"
proof -
  let ?q = "q\<lparr>tb_storage := (tb_storage q)[tb_slot q (tb_writer_pos q) := e]\<rparr>"
  have i: "tb_inv ?q" "unat (tb_size ?q) < length (tb_storage ?q)"
    using inv room by (auto simp: tb_inv_def tb_size_def)
  from push_slots [OF i] free show ?thesis
    by (auto simp: tb_free_def tb_slot_def tb_push_back_def nth_list_update)
qed

lemma write_free_slot:
  assumes inv: "tb_inv q" and free: "tb_free P q" and i: "i \<notin> set (tb_slots q)" and e: "P e"
  shows "tb_inv (q\<lparr>tb_storage := (tb_storage q)[i := e]\<rparr>)
    \<and> tb_events (q\<lparr>tb_storage := (tb_storage q)[i := e]\<rparr>) = tb_events q
    \<and> tb_free P (q\<lparr>tb_storage := (tb_storage q)[i := e]\<rparr>)"
proof -
  let ?s = "(tb_storage q)[i := e]"
  have "map ((!) ?s) (tb_slots q) = map ((!) (tb_storage q)) (tb_slots q)"
    using i by (intro map_cong refl nth_list_update_neq) auto
  moreover have "P (?s ! j)" if "j < length ?s" "j \<notin> set (tb_slots q)" for j
    using that free e by (cases "j = i") (auto simp: tb_free_def)
  ultimately show ?thesis using inv by (simp add: tb_inv_def tb_size_def tb_events_def tb_free_def)
qed

lemma pop_slots:
  assumes "tb_inv q" "\<not> tb_empty q"
  shows "tb_slots q = tb_slot q (tb_reader_pos q) # tb_slots (tb_pop_front q)"
proof -
  let ?q' = "tb_pop_front q" and ?n = "unat (tb_size q)"
  have pos: "0 < ?n" using assms by (auto simp: tb_size_def tb_empty_def unat_gt_0)
  have size: "unat (tb_size ?q') = ?n - 1"
    using unat_diff_advance [of 1 "tb_writer_pos q" "tb_reader_pos q"] pos by (simp add: tb_size_def tb_pop_front_def)
  have "tb_slots ?q' = map (\<lambda>i. tb_slot q (tb_reader_pos q + of_nat (Suc i))) [0..<?n - 1]"
    unfolding tb_slots_def size by (simp add: tb_slot_def tb_pop_front_def ac_simps)
  moreover have "tb_slots q = tb_slot q (tb_reader_pos q) # map (\<lambda>i. tb_slot q (tb_reader_pos q + of_nat i)) [1..<?n]"
    using pos by (simp add: tb_slots_def upt_conv_Cons)
  moreover have "[1..<?n] = map Suc [0..<?n - 1]" using pos by (simp add: map_Suc_upt)
  ultimately show ?thesis by (simp add: comp_def)
qed

text \<open>The front slot is cleaned and popped: it joins the free ones.\<close>

lemma pop_free:
  assumes inv: "tb_inv q" and ne: "\<not> tb_empty q" and free: "tb_free P q" and e: "P e"
  defines "q' \<equiv> tb_pop_front (q\<lparr>tb_storage := (tb_storage q)[tb_slot q (tb_reader_pos q) := e]\<rparr>)"
  shows "tb_inv q' \<and> tb_events q' = tl (tb_events q) \<and> tb_free P q'"
proof -
  let ?s = "tb_slot q (tb_reader_pos q)"
  have s: "tb_slots q = ?s # tb_slots (tb_pop_front q)" by (rule pop_slots [OF inv ne])
  have q': "tb_slots q' = tb_slots (tb_pop_front q)" "tb_storage q' = (tb_storage q)[?s := e]"
    by (simp_all add: q'_def tb_slots_def tb_slot_def tb_size_def tb_pop_front_def)
  from s slots_distinct [OF inv] have d: "?s \<notin> set (tb_slots q')" using q' by simp
  have inv': "tb_inv (tb_pop_front q)" using pop_rel [OF inv ne] by (auto simp: tb_rel_def)
  have "tb_inv q'" using inv' by (simp add: q'_def tb_inv_def tb_pop_front_def tb_size_def)
  moreover have "tb_events q' = tl (tb_events q)"
    unfolding tb_events_def s q' using d q'(1) by (auto intro: nth_list_update_neq)
  moreover have "tb_free P q'"
  proof -
    have "P (tb_storage q' ! i)" if "i < length (tb_storage q')" "i \<notin> set (tb_slots q')" for i
      using that free e s q' by (cases "i = ?s") (auto simp: tb_free_def)
    then show ?thesis by (simp add: tb_free_def)
  qed
  ultimately show ?thesis by blast
qed

lemma shrink_free:
  assumes "tb_free P q" "P fresh"
  shows "tb_free P (snd (tb_try_shrink allocates fresh q)) \<and> tb_free P (tb_request_shrink q)"
proof -
  have "tb_slots (q\<lparr>tb_shrink_requested := b\<rparr>) = tb_slots q" for b by (simp add: tb_slots_def tb_slot_def tb_size_def)
  with assms show ?thesis by (auto simp: tb_free_def tb_try_shrink_def tb_request_shrink_def)
qed

lemma request_shrink_rel: "tb_inv q \<Longrightarrow> tb_inv (tb_request_shrink q) \<and> tb_events (tb_request_shrink q) = tb_events q"
  by (simp add: tb_inv_def tb_request_shrink_def tb_size_def tb_events_def tb_slots_def tb_slot_def)

lemma new_free:
  assumes "tb_new fresh n = Inr q" "P fresh"
  shows "tb_free P q"
  using assms by (auto simp: tb_new_def tb_free_def Let_def split: if_splits)

subsection \<open>What a slot must be to hold an event again\<close>

text \<open>
  No payload of an earlier flush or metric event, a message string to write to, and extra data
  (if it was ever needed) without MDC text and with its runtime metadata switched off.
\<close>

definition slot_free :: "transit_event \<Rightarrow> bool" where
  "slot_free e \<longleftrightarrow> te_event_payload e = Monostate \<and> te_formatted_msg e \<noteq> None
     \<and> (\<forall>a x. te_extra_data e = Some (a, x) \<longrightarrow> rm_wf (ed_runtime_metadata x)
          \<and> \<not> rm_has_runtime_metadata (ed_runtime_metadata x) \<and> ed_mdc x = '''')"

lemma default_slot_free [simp]: "slot_free te_default"
  by (simp add: slot_free_def te_default_def)

definition buffer_ok :: "transit_event transit_buffer \<Rightarrow> bool" where
  "buffer_ok b \<longleftrightarrow> tb_inv b \<and> tb_free slot_free b \<and> (\<forall>e \<in> set (tb_events b). te_wf e)"

end
