(* ===== verification/Message_Flow.thy ===== *)
theory Message_Flow
  imports Backend_Decode Slot_Reuse
begin

text \<open>
  What the backend's decoding promises, over the definitions of \<^theory_text>\<open>Backend_Decode\<close>: a statement that a
  frontend thread wrote to its queue arrives in the transit event buffer as the event
  \<open>delivered_of\<close> says, messages arrive in order, and the slots and pointers they are built in
  stay well formed.
\<close>

subsection \<open>What a statement is delivered as\<close>

text \<open>The argument types the backend decodes for an event; \<open>decoder\<close> gives those of the user's arguments.\<close>

definition runtime_types :: "macro_event \<Rightarrow> arg_type list" where
  "runtime_types ev =
     (if ev = LogWithRuntimeMetadataDeepCopy then [TypeCString, TypeCString, TypeCString, TypeCString, TypeFixed 4, TypeEnum 1]
      else if ev = LogWithRuntimeMetadataShallowCopy then [TypeFixed 8, TypeFixed 8, TypeFixed 8, TypeFixed 8, TypeFixed 4, TypeEnum 1]
      else if ev = LogWithRuntimeMetadataHybridCopy then [TypeCString, TypeFixed 8, TypeFixed 8, TypeCString, TypeFixed 4, TypeEnum 1]
      else [])"

definition event_types :: "static_memory \<Rightarrow> macro_event \<Rightarrow> u64 \<Rightarrow> arg_type list" where
  "event_types sm ev decoder =
     (if ev = Metric \<or> ev = MdcClear then []
      else if ev = Flush then [TypeFixed 8]
      else if ev = LoggerRemovalRequest then [TypeFixed 8, TypeString]
      else runtime_types ev @ sm_decoder sm decoder)"

fun arg_c_string :: "static_memory \<Rightarrow> log_arg \<Rightarrow> string option" where
  "arg_c_string sm (ArgCString s) = Some (chars (take (max_encoded_length - 1) (case s of None \<Rightarrow> [] | Some s \<Rightarrow> s)))"
| "arg_c_string sm (ArgFixed b) = c_string_of sm (of_nat (le_value b))"
| "arg_c_string sm _ = None"

fun arg_object :: "log_arg \<Rightarrow> bytes" where
  "arg_object (ArgFixed b) = b"
| "arg_object (ArgEnum b) = b"
| "arg_object _ = []"

definition arg_line :: "log_arg list \<Rightarrow> u32" where
  "arg_line args = of_nat (le_value (arg_object (args ! 4)))"

definition runtime_metadata_of :: "static_memory \<Rightarrow> log_arg list \<Rightarrow> macro_metadata" where
  "runtime_metadata_of sm args =
     mm_new (location_text (arg_c_string sm (args ! 1)) (arg_line args)) (safe_string (arg_c_string sm (args ! 2)))
       (safe_string (arg_c_string sm (args ! 0))) (tags_pointer (safe_string (arg_c_string sm (args ! 3))))
       (level_of_byte (hd (arg_object (args ! 5)))) Log False"

definition statement_metadata :: "static_memory \<Rightarrow> statement \<Rightarrow> macro_metadata" where
  "statement_metadata sm st =
     (if runtime_metadata_event (ls_event st) then runtime_metadata_of sm (ls_args st) else sm_metadata sm (ls_metadata st))"

definition user_args :: "statement \<Rightarrow> log_arg list" where
  "user_args st = (if runtime_metadata_event (ls_event st) then drop 6 (ls_args st) else ls_args st)"

definition mdc_event :: "macro_event \<Rightarrow> bool" where
  "mdc_event ev \<longleftrightarrow> ev = MdcSet \<or> ev = MdcErase \<or> ev = MdcClear"

text \<open>
  A statement the frontend's macros and functions can produce: its static metadata has its
  event, its decoder the types of its arguments; runtime metadata gives a line only with a path.
\<close>

definition statement_ok :: "static_memory \<Rightarrow> statement \<Rightarrow> bool" where
  "statement_ok sm st \<longleftrightarrow> (\<forall>arg \<in> set (ls_args st). arg_ok arg) \<and> ls_event st \<noteq> NoEvent
     \<and> mm_event (sm_metadata sm (ls_metadata st)) = ls_event st
     \<and> map type_of_arg (ls_args st) = event_types sm (ls_event st) (ls_decoder st)
     \<and> (runtime_metadata_event (ls_event st) \<longrightarrow>
          \<not> (arg_c_string sm (ls_args st ! 1) = Some '''' \<and> arg_line (ls_args st) \<noteq> 0))"

record delivered =
  dv_timestamp :: u64
  dv_metadata :: macro_metadata
  dv_logger :: nat
  dv_payload :: event_payload
  dv_text :: "(string \<times> (string \<times> string) list option \<times> string) option"

definition statement_payload :: "statement \<Rightarrow> event_payload" where
  "statement_payload st =
     (if ls_event st = Metric then MetricValue (ls_decoder st)
      else if ls_event st = Flush then FlushFlag (Some (unat (of_nat (le_value (arg_object (ls_args st ! 0))) :: u64)))
      else Monostate)"

definition mdc_text_of :: "mdc_state option \<Rightarrow> string" where
  "mdc_text_of state = (case state of None \<Rightarrow> '''' | Some m \<Rightarrow> mdc_formatted m)"

text \<open>Message, named arguments and MDC text of a statement that is formatted.\<close>

definition statement_text ::
  "backend_env \<Rightarrow> backend_options \<Rightarrow> mdc_state option \<Rightarrow> statement \<Rightarrow> string \<times> (string \<times> string) list option \<times> string" where
  "statement_text env options state st =
     (let m = statement_metadata (be_memory env) st; args = map arg_decoded (user_args st);
          (fmt, names) = (if mm_has_named_args m then process_named_args_format_message (mm_message_format m)
                          else (mm_message_format m, []))
      in (fst (populate_formatted_log_message (be_vformat env) options (mm_is_rate_limited m) (mm_message_format m)
               (mm_short_source_location m) fmt args),
          if mm_has_named_args m
          then Some (populate_formatted_named_args (be_vformat env) options (mm_is_rate_limited m) names args) else None,
          mdc_text_of state))"

definition delivered_of :: "backend_env \<Rightarrow> backend_options \<Rightarrow> mdc_state option \<Rightarrow> u64 \<Rightarrow> statement \<Rightarrow> delivered" where
  "delivered_of env options state t st =
     \<lparr>dv_timestamp = event_timestamp env (sm_clock_source (be_memory env) (ls_logger st)) t,
      dv_metadata = statement_metadata (be_memory env) st, dv_logger = unat (ls_logger st),
      dv_payload = statement_payload st,
      dv_text = (if ls_event st = Metric \<or> ls_event st = Flush \<or> ls_event st = LoggerRemovalRequest then None
                 else Some (statement_text env options state st))\<rparr>"

definition is_delivered :: "delivered \<Rightarrow> transit_event \<Rightarrow> bool" where
  "is_delivered d e \<longleftrightarrow> te_timestamp e = dv_timestamp d \<and> te_metadata e = Some (dv_metadata d)
     \<and> te_logger_base e = Some (dv_logger d) \<and> te_event_payload e = dv_payload d
     \<and> (\<forall>msg named mdc. dv_text d = Some (msg, named, mdc) \<longrightarrow>
          te_formatted_msg e = Some msg \<and> te_get_named_args e = named \<and> te_mdc e = mdc)"

text \<open>The MDC state after a statement.\<close>

definition mdc_after :: "vformat \<Rightarrow> string \<Rightarrow> statement \<Rightarrow> mdc_state option \<Rightarrow> mdc_state option" where
  "mdc_after vformat pattern st state =
     (if ls_event st = MdcSet
      then case mdc_set_event vformat pattern (map arg_decoded (ls_args st)) state of
             Inl _ \<Rightarrow> state | Inr (state', _) \<Rightarrow> state'
      else if ls_event st = MdcErase then fst (mdc_erase_event vformat (map arg_decoded (ls_args st)) state)
      else if ls_event st = MdcClear then None
      else state)"

fun deliveries :: "backend_env \<Rightarrow> backend_options \<Rightarrow> mdc_state option \<Rightarrow> (u64 \<times> statement) list \<Rightarrow> delivered list" where
  "deliveries env options state [] = []"
| "deliveries env options state ((t, st) # sts) =
     (if mdc_event (ls_event st) then [] else [delivered_of env options state t st])
     @ deliveries env options (mdc_after (be_vformat env) (bo_mdc_format_pattern options) st state) sts"

definition mdc_after_all :: "backend_env \<Rightarrow> backend_options \<Rightarrow> (u64 \<times> statement) list \<Rightarrow> mdc_state option \<Rightarrow> mdc_state option" where
  "mdc_after_all env options sts = fold (\<lambda>(t, st). mdc_after (be_vformat env) (bo_mdc_format_pattern options) st) sts"

subsection \<open>Reading words and strings\<close>

lemma word_at_front:
  assumes "drop off mem = le_bytes 8 (unat x) @ rest"
  shows "word_at mem off = x"
proof -
  have "slice off 8 mem = le_bytes 8 (unat x)" using slice_front [OF assms] by simp
  then show ?thesis by (simp add: word_at_def le_value_word64)
qed

lemma header_words:
  assumes "drop off mem = header_bytes t m l d @ rest"
  shows "word_at mem off = t" "word_at mem (off + 8) = m" "word_at mem (off + 16) = l" "word_at mem (off + 24) = d"
    "drop (off + 32) mem = rest"
proof -
  have h: "drop off mem = le_bytes 8 (unat t) @ le_bytes 8 (unat m) @ le_bytes 8 (unat l) @ le_bytes 8 (unat d) @ rest"
    using assms by (simp add: header_bytes_def)
  note h1 = drop_more [OF h, unfolded length_le_bytes]
  note h2 = drop_more [OF h1, unfolded length_le_bytes]
  note h3 = drop_more [OF h2, unfolded length_le_bytes]
  note h4 = drop_more [OF h3, unfolded length_le_bytes]
  show "word_at mem off = t" by (rule word_at_front [OF h])
  show "word_at mem (off + 8) = m" by (rule word_at_front [OF h1])
  show "word_at mem (off + 16) = l" using word_at_front [OF h2] by (simp add: add.assoc)
  show "word_at mem (off + 24) = d" using word_at_front [OF h3] by (simp add: add.assoc)
  show "drop (off + 32) mem = rest" using h4 by (simp add: add.assoc)
qed

lemma type_of_argD:
  "type_of_arg a = TypeCString \<Longrightarrow> \<exists>s. a = ArgCString s"
  "type_of_arg a = TypeFixed n \<Longrightarrow> \<exists>b. a = ArgFixed b \<and> length b = n"
  "type_of_arg a = TypeEnum n \<Longrightarrow> \<exists>b. a = ArgEnum b \<and> length b = n"
  "type_of_arg a = TypeString \<Longrightarrow> \<exists>s. a = ArgString s"
  by (cases a; auto)+

lemma decode_c_string_step:
  assumes "type_of_arg a = TypeCString" "arg_ok a" "drop off mem = arg_bytes a @ rest"
  shows "decode_c_string mem off = (arg_c_string sm a, off + length (arg_bytes a))"
    "drop (off + length (arg_bytes a)) mem = rest"
proof -
  obtain s where s: "a = ArgCString s" using type_of_argD(1) [OF assms(1)] by blast
  let ?s = "take (max_encoded_length - 1) (case s of None \<Rightarrow> [] | Some s \<Rightarrow> s)"
  have "0 \<notin> set ?s" using assms(2) s by (auto split: option.splits dest: in_set_takeD)
  with s assms(3) c_string_at_terminated [of off mem ?s rest]
  show "decode_c_string mem off = (arg_c_string sm a, off + length (arg_bytes a))"
    by (simp add: decode_c_string_def Let_def)
  show "drop (off + length (arg_bytes a)) mem = rest" by (rule drop_more [OF assms(3)])
qed

lemma decode_pointer_step:
  assumes "type_of_arg a = TypeFixed 8" "drop off mem = arg_bytes a @ rest"
  shows "decode_pointer sm mem off = (arg_c_string sm a, off + length (arg_bytes a))"
    "drop (off + length (arg_bytes a)) mem = rest"
proof -
  obtain b where b: "a = ArgFixed b" "length b = 8" using type_of_argD(2) [OF assms(1)] by blast
  with slice_front [OF assms(2)] show "decode_pointer sm mem off = (arg_c_string sm a, off + length (arg_bytes a))"
    by (simp add: decode_pointer_def word_at_def)
  show "drop (off + length (arg_bytes a)) mem = rest" by (rule drop_more [OF assms(2)])
qed

lemma decode_runtime:
  assumes ev: "runtime_metadata_event ev" and types: "map type_of_arg args = runtime_types ev @ ts"
    and ok: "\<forall>arg \<in> set args. arg_ok arg" and mem: "drop off mem = args_bytes args @ rest"
  shows "\<exists>o4. decode_runtime_strings sm ev mem off = Inr (arg_c_string sm (args ! 0), arg_c_string sm (args ! 1),
        arg_c_string sm (args ! 2), arg_c_string sm (args ! 3), o4)
      \<and> u32_at mem o4 = arg_line args \<and> slice (o4 + 4) 1 mem = arg_object (args ! 5)
      \<and> drop (o4 + 5) mem = args_bytes (drop 6 args) @ rest
      \<and> o4 + 5 + length (args_bytes (drop 6 args)) = off + length (args_bytes args)"
proof -
  obtain t0 t1 t2 t3 where ts: "runtime_types ev = [t0, t1, t2, t3, TypeFixed 4, TypeEnum 1]"
    using ev by (auto simp: runtime_types_def runtime_metadata_event_def)
  then obtain a0 a1 a2 a3 a4 a5 us where args: "args = a0 # a1 # a2 # a3 # a4 # a5 # us"
    and t: "type_of_arg a0 = t0" "type_of_arg a1 = t1" "type_of_arg a2 = t2" "type_of_arg a3 = t3"
      "type_of_arg a4 = TypeFixed 4" "type_of_arg a5 = TypeEnum 1"
    using types by (auto simp: map_eq_Cons_conv)
  obtain b4 where b4: "a4 = ArgFixed b4" "length b4 = 4" using type_of_argD(2) [OF t(5)] by blast
  obtain b5 where b5: "a5 = ArgEnum b5" "length b5 = 1" using type_of_argD(3) [OF t(6)] by blast
  define rest0 where "rest0 = args_bytes us @ rest"
  define rest3 where "rest3 = b4 @ b5 @ rest0"
  let ?o1 = "off + length (arg_bytes a0)"
  let ?o2 = "?o1 + length (arg_bytes a1)"
  let ?o3 = "?o2 + length (arg_bytes a2)"
  let ?o4 = "?o3 + length (arg_bytes a3)"
  have okk: "arg_ok a0" "arg_ok a1" "arg_ok a2" "arg_ok a3" using ok args by auto
  have d0: "drop off mem = arg_bytes a0 @ arg_bytes a1 @ arg_bytes a2 @ arg_bytes a3 @ rest3"
    using mem args b4 b5 by (simp add: rest3_def rest0_def)
  note d1 = drop_more [OF d0] and d2 = drop_more [OF drop_more [OF d0]]
  note d3 = drop_more [OF d2]
  have d4: "drop ?o4 mem = b4 @ b5 @ rest0" using drop_more [OF d3] by (simp add: rest3_def)
  have d5: "drop (?o4 + 4) mem = b5 @ rest0" using drop_more [OF d4] b4(2) by simp
  have "?o4 + 5 = ?o4 + 4 + length b5" using b5(2) by simp
  then have d6: "drop (?o4 + 5) mem = rest0" using drop_more [OF d5] by (simp only:)
  note p0 = decode_pointer_step(1) [OF _ d0, of sm] and s0 = decode_c_string_step(1) [OF _ okk(1) d0, of sm]
  note p1 = decode_pointer_step(1) [OF _ d1, of sm] and s1 = decode_c_string_step(1) [OF _ okk(2) d1, of sm]
  note p2 = decode_pointer_step(1) [OF _ d2, of sm] and s2 = decode_c_string_step(1) [OF _ okk(3) d2, of sm]
  note p3 = decode_pointer_step(1) [OF _ d3, of sm] and s3 = decode_c_string_step(1) [OF _ okk(4) d3, of sm]
  from ev consider "ev = LogWithRuntimeMetadataDeepCopy" | "ev = LogWithRuntimeMetadataShallowCopy" | "ev = LogWithRuntimeMetadataHybridCopy"
    by (auto simp: runtime_metadata_event_def)
  then have str: "decode_runtime_strings sm ev mem off = Inr (arg_c_string sm a0, arg_c_string sm a1, arg_c_string sm a2, arg_c_string sm a3, ?o4)"
  proof cases
    case 1
    with t ts s0 s1 s2 s3 show ?thesis by (simp add: decode_runtime_strings_def runtime_types_def)
  next
    case 2
    then have "t0 = TypeFixed 8 \<and> t1 = TypeFixed 8 \<and> t2 = TypeFixed 8 \<and> t3 = TypeFixed 8"
      using ts by (auto simp: runtime_types_def)
    with 2 t p0 p1 p2 p3 show ?thesis by (simp add: decode_runtime_strings_def)
  next
    case 3
    then have "t0 = TypeCString \<and> t1 = TypeFixed 8 \<and> t2 = TypeFixed 8 \<and> t3 = TypeCString"
      using ts by (auto simp: runtime_types_def)
    with 3 t s0 p1 p2 s3 show ?thesis by (simp add: decode_runtime_strings_def)
  qed
  have "u32_at mem ?o4 = arg_line args" "slice (?o4 + 4) 1 mem = arg_object (args ! 5)"
    using slice_front [OF d4] slice_front [OF d5] b4 b5 args by (simp_all add: u32_at_def arg_line_def)
  moreover have "?o4 + 5 + length (args_bytes us) = off + length (args_bytes args)"
    using args b4 b5 by simp
  ultimately show ?thesis using str d6 args by (intro exI [of _ ?o4]) (simp add: rest0_def)
qed

lemma rm_set_event: "mm_event (rm_macro_metadata (rm_set path line func tags fmt level rm)) = Log
    \<and> rm_has_runtime_metadata (rm_set path line func tags fmt level rm)"
  by (auto simp: rm_set_def rm_rebuild_eq mm_new_def)

lemma rm_set_metadata:
  assumes "rm_wf rm" "\<not> (path = Some '''' \<and> line \<noteq> 0)"
  shows "rm_macro_metadata (rm_set path line func tags fmt level rm)
    = mm_new (location_text path line) (safe_string func) (safe_string fmt) (tags_pointer (safe_string tags)) level Log False"
  using arg_cong [OF rm_set_reuses_same [OF assms], of rm_macro_metadata func tags fmt level]
  by (simp add: rm_rebuild_eq)

text \<open>Runtime metadata is written into the slot and pointed to.\<close>

lemma apply_runtime_metadata_delivers:
  assumes free: "slot_free e" and ev: "runtime_metadata_event ev" and types: "map type_of_arg args = runtime_types ev @ ts"
    and ok: "\<forall>arg \<in> set args. arg_ok arg" and mem: "drop off mem = args_bytes args @ rest"
    and located: "\<not> (arg_c_string sm (args ! 1) = Some '''' \<and> arg_line args \<noteq> 0)"
  shows "\<exists>off1 e1 a x. apply_runtime_metadata sm address ev mem off e = (Inr off1, e1)
    \<and> drop off1 mem = args_bytes (drop 6 args) @ rest
    \<and> off1 + length (args_bytes (drop 6 args)) = off + length (args_bytes args)
    \<and> e1 = e\<lparr>te_macro_metadata := RuntimeMetadataOf a, te_extra_data := Some (a, x)\<rparr>
    \<and> rm_macro_metadata (ed_runtime_metadata x) = runtime_metadata_of sm args
    \<and> rm_wf (ed_runtime_metadata x) \<and> rm_has_runtime_metadata (ed_runtime_metadata x) \<and> ed_mdc x = ''''"
proof -
  obtain o4 where o4: "decode_runtime_strings sm ev mem off = Inr (arg_c_string sm (args ! 0), arg_c_string sm (args ! 1),
        arg_c_string sm (args ! 2), arg_c_string sm (args ! 3), o4)"
      "u32_at mem o4 = arg_line args" "slice (o4 + 4) 1 mem = arg_object (args ! 5)"
      "drop (o4 + 5) mem = args_bytes (drop 6 args) @ rest"
      "o4 + 5 + length (args_bytes (drop 6 args)) = off + length (args_bytes args)"
    using decode_runtime [OF ev types ok mem] by blast
  obtain a x where ax: "te_extra_data (te_ensure_extra_data address e) = Some (a, x)"
      "te_ensure_extra_data address e = e\<lparr>te_extra_data := Some (a, x)\<rparr>"
      "rm_wf (ed_runtime_metadata x)" "ed_mdc x = ''''"
  proof (cases "te_extra_data e")
    case None
    show thesis
      by (rule that [of address ed_default]) (use None in \<open>simp_all add: te_ensure_extra_data_def ed_default_def rm_default_wf\<close>)
  next
    case (Some p)
    obtain a x where p: "p = (a, x)" by fastforce
    show thesis
      by (rule that [of a x]) (use Some p free in \<open>auto simp: te_ensure_extra_data_def slot_free_def\<close>)
  qed
  define rm where "rm = rm_set (arg_c_string sm (args ! 1)) (arg_line args) (arg_c_string sm (args ! 2)) (arg_c_string sm (args ! 3))
    (arg_c_string sm (args ! 0)) (level_of_byte (hd (arg_object (args ! 5)))) (ed_runtime_metadata x)"
  define x' where "x' = x\<lparr>ed_runtime_metadata := rm\<rparr>"
  have "rm_wf rm" unfolding rm_def by (rule rm_set_wf [OF ax(3)])
  moreover have "rm_has_runtime_metadata rm" unfolding rm_def using rm_set_event by blast
  moreover have "rm_macro_metadata rm = runtime_metadata_of sm args"
    unfolding rm_def runtime_metadata_of_def by (rule rm_set_metadata [OF ax(3) located])
  moreover have "apply_runtime_metadata sm address ev mem off e
      = (Inr (o4 + 5), e\<lparr>te_macro_metadata := RuntimeMetadataOf a, te_extra_data := Some (a, x')\<rparr>)"
    using o4 ax(1,2) by (simp add: apply_runtime_metadata_def te_map_extra_def te_use_runtime_metadata_def Let_def x'_def rm_def)
  moreover have "ed_runtime_metadata x' = rm" "ed_mdc x' = ''''" using ax(4) by (simp_all add: x'_def)
  ultimately show ?thesis using o4(4,5)
    by (intro exI [of _ "o4 + 5"] exI [of _ "e\<lparr>te_macro_metadata := RuntimeMetadataOf a, te_extra_data := Some (a, x')\<rparr>"]
        exI [of _ a] exI [of _ x']) simp
qed

subsection \<open>Formatting\<close>

definition te_core :: "transit_event \<Rightarrow> u64 \<times> nat option \<times> event_payload" where
  "te_core e = (te_timestamp e, te_logger_base e, te_event_payload e)"

lemma default_extra: "ed_runtime_metadata ed_default = rm_default" "\<not> rm_has_runtime_metadata rm_default" "ed_mdc ed_default = ''''"
  by (simp_all add: ed_default_def rm_default_def)

lemma te_metadata_message [simp]: "te_metadata (e\<lparr>te_formatted_msg := s\<rparr>) = te_metadata e"
  by (simp add: te_metadata_def split: meta_ref.split)

lemma te_map_ensure:
  fixes address :: nat
  assumes wf: "te_wf e" and f: "\<And>x. ed_runtime_metadata (f x) = ed_runtime_metadata x"
  defines "e' \<equiv> te_map_extra f (te_ensure_extra_data address e)"
  shows "te_wf e' \<and> te_metadata e' = te_metadata e \<and> te_core e' = te_core e \<and> te_formatted_msg e' = te_formatted_msg e
    \<and> (\<exists>a x. te_extra_data e' = Some (a, f x) \<and> (case te_extra_data e of None \<Rightarrow> x = ed_default | Some p \<Rightarrow> x = snd p))"
proof (cases "te_extra_data e")
  case None
  then have "e' = e\<lparr>te_extra_data := Some (address, f ed_default)\<rparr>"
    by (simp add: e'_def te_map_extra_def te_ensure_extra_data_def)
  moreover have "\<forall>a. te_macro_metadata e \<noteq> RuntimeMetadataOf a" using wf None by (auto simp: te_wf_def)
  ultimately show ?thesis using None f
    by (auto simp: te_wf_def te_core_def te_metadata_def default_extra rm_default_wf split: meta_ref.splits)
next
  case (Some p)
  obtain a x where p: "p = (a, x)" by fastforce
  with Some have "e' = e\<lparr>te_extra_data := Some (a, f x)\<rparr>"
    by (simp add: e'_def te_map_extra_def te_ensure_extra_data_def)
  with Some p f wf show ?thesis
    by (auto simp: te_wf_def te_core_def te_metadata_def split: meta_ref.splits)
qed

definition templates_ok :: "backend_worker \<Rightarrow> bool" where
  "templates_ok w \<longleftrightarrow> (\<forall>fmt t. bw_named_args_templates w fmt = Some t \<longrightarrow> t = process_named_args_format_message fmt)"

lemma report_fields [simp]:
  "bw_options (report env err w) = bw_options w" "bw_format_args_store (report env err w) = bw_format_args_store w"
  "bw_named_args_templates (report env err w) = bw_named_args_templates w" "templates_ok (report env err w) = templates_ok w"
  "bw_options (bw_notify_error env msg w) = bw_options w"
  "bw_format_args_store (bw_notify_error env msg w) = bw_format_args_store w"
  "bw_named_args_templates (bw_notify_error env msg w) = bw_named_args_templates w"
  "templates_ok (bw_notify_error env msg w) = templates_ok w"
  by (cases err; simp add: report_def bw_notify_error_def templates_ok_def)+

lemma named_args_template_of_ok:
  assumes "templates_ok w" "named_args_template_of is_runtime fmt w = (t, w')"
  shows "t = process_named_args_format_message fmt \<and> templates_ok w' \<and> bw_options w' = bw_options w
    \<and> bw_format_args_store w' = bw_format_args_store w"
  using assms by (cases t) (auto simp: named_args_template_of_def templates_ok_def Let_def split: if_splits option.splits)

lemma format_event_delivers:
  assumes wf: "te_wf e" and m: "te_metadata e = Some m" and mdc: "te_mdc e = ''''" and t: "templates_ok w"
    and f: "format_event env address is_runtime m e w = (e', w')"
  defines "fmt \<equiv> (if mm_has_named_args m then process_named_args_format_message (mm_message_format m) else (mm_message_format m, []))"
  shows "te_wf e' \<and> te_metadata e' = Some m \<and> te_core e' = te_core e \<and> te_mdc e' = ''''
    \<and> te_formatted_msg e' = Some (fst (populate_formatted_log_message (be_vformat env) (bw_options w) (mm_is_rate_limited m)
        (mm_message_format m) (mm_short_source_location m) (fst fmt) (bw_format_args_store w)))
    \<and> te_get_named_args e' = (if mm_has_named_args m then Some (populate_formatted_named_args (be_vformat env) (bw_options w)
        (mm_is_rate_limited m) (snd fmt) (bw_format_args_store w)) else None)
    \<and> templates_ok w' \<and> bw_options w' = bw_options w"
proof -
  have msg: "te_wf (e\<lparr>te_formatted_msg := s\<rparr>) \<and> te_metadata (e\<lparr>te_formatted_msg := s\<rparr>) = Some m
      \<and> te_core (e\<lparr>te_formatted_msg := s\<rparr>) = te_core e \<and> te_mdc (e\<lparr>te_formatted_msg := s\<rparr>) = ''''" for s
    using wf m mdc by (simp add: te_wf_def te_core_def te_mdc_def)
  show ?thesis
  proof (cases "mm_has_named_args m")
    case False
    with f msg t m show ?thesis
      by (auto simp: format_event_def format_event_message_def fmt_def te_get_named_args_def split: prod.splits option.splits)
  next
    case True
    obtain ks tpl w1 where n: "named_args_template_of is_runtime (mm_message_format m) w = ((tpl, ks), w1)"
      by (metis surj_pair)
    note ok = named_args_template_of_ok [OF t n]
    have p: "process_named_args_format_message (mm_message_format m) = (tpl, ks)" by (rule conjunct1 [OF ok, THEN sym])
    then have fmt: "fst fmt = tpl" "snd fmt = ks" using True by (simp_all add: fmt_def)
    obtain s err where s: "populate_formatted_log_message (be_vformat env) (bw_options w1) (mm_is_rate_limited m)
        (mm_message_format m) (mm_short_source_location m) tpl (bw_format_args_store w1) = (s, err)" by fastforce
    define e2 where "e2 = e\<lparr>te_formatted_msg := Some s\<rparr>"
    define w2 where "w2 = report env err w1"
    define named where "named = populate_formatted_named_args (be_vformat env) (bw_options w2) (mm_is_rate_limited m) ks
      (bw_format_args_store w2)"
    have e': "e' = te_map_extra (\<lambda>x. x\<lparr>ed_named_args := named\<rparr>) (te_ensure_extra_data address e2)" "w' = w2"
      using f True n s by (auto simp: format_event_def format_event_message_def format_event_named_args_def e2_def w2_def named_def)
    have e2: "te_wf e2" "te_metadata e2 = Some m" "te_core e2 = te_core e" "te_mdc e2 = ''''" "te_formatted_msg e2 = Some s"
      using msg by (simp_all add: e2_def)
    note k = te_map_ensure [OF e2(1), of "\<lambda>x. x\<lparr>ed_named_args := named\<rparr>" address, folded e'(1), simplified]
    then obtain a x where x: "te_extra_data e' = Some (a, x\<lparr>ed_named_args := named\<rparr>)"
        "case te_extra_data e2 of None \<Rightarrow> x = ed_default | Some p \<Rightarrow> x = snd p" by blast
    then have "ed_mdc x = ''''" using e2(4) by (auto simp: te_mdc_def ed_default_def split: option.splits)
    with k x e2 True have "te_mdc e' = ''''" "te_get_named_args e' = Some named"
      by (simp_all add: te_mdc_def te_get_named_args_def)
    with k e2 ok e' fmt s True show ?thesis by (simp add: w2_def named_def)
  qed
qed

lemma set_mdc_delivers:
  fixes address :: nat and tc :: thread_context
  assumes "te_wf e" "te_mdc e = ''''"
  defines "e' \<equiv> set_transit_event_mdc address tc e"
  shows "te_wf e' \<and> te_metadata e' = te_metadata e \<and> te_core e' = te_core e \<and> te_formatted_msg e' = te_formatted_msg e
    \<and> te_get_named_args e' = te_get_named_args e \<and> te_mdc e' = mdc_text_of (tc_backend_mdc_state tc)
    \<or> (\<exists>m. te_metadata e = Some m \<and> mm_has_named_args m \<and> te_extra_data e = None)"
proof (cases "tc_backend_mdc_state tc")
  case None
  with assms show ?thesis by (simp add: set_transit_event_mdc_def mdc_text_of_def)
next
  case (Some s)
  let ?f = "\<lambda>x. x\<lparr>ed_mdc := mdc_formatted s\<rparr>"
  have e': "e' = te_map_extra ?f (te_ensure_extra_data address e)" using Some by (simp add: e'_def set_transit_event_mdc_def)
  note k = te_map_ensure [OF assms(1), of ?f address, folded e', simplified]
  then obtain a x where x: "te_extra_data e' = Some (a, ?f x)" "case te_extra_data e of None \<Rightarrow> x = ed_default | Some p \<Rightarrow> x = snd p"
    by blast
  then have "te_mdc e' = mdc_formatted s" by (simp add: te_mdc_def)
  moreover have "te_get_named_args e' = te_get_named_args e \<or> (\<exists>m. te_metadata e = Some m \<and> mm_has_named_args m \<and> te_extra_data e = None)"
    using k x by (cases "te_extra_data e") (auto simp: te_get_named_args_def split: option.splits)
  ultimately show ?thesis using k Some by (auto simp: mdc_text_of_def)
qed

subsection \<open>One statement\<close>

lemma slot_free_wf:
  assumes "slot_free e" "te_macro_metadata e = StaticMetadata m"
  shows "te_wf e \<and> te_metadata e = Some m \<and> te_mdc e = '''' \<and> te_event_payload e = Monostate"
  using assms by (auto simp: slot_free_def te_wf_def te_metadata_def te_mdc_def split: option.splits)

lemma mdc_set_event_ok:
  assumes "mdc_new pattern = Inr m0"
  obtains state' err where "mdc_set_event vformat pattern store state = Inr (state', err)"
proof (cases "mdc_set_event vformat pattern store state")
  case (Inl e)
  with assms show thesis by (auto simp: mdc_set_event_def split: option.splits sum.splits)
next
  case (Inr p)
  with that show thesis by (cases p) auto
qed

lemma apply_mdc_event_delivers:
  assumes ev: "mdc_event (ls_event st)" and ok: "statement_ok (be_memory env) st"
    and mem: "drop off mem = args_bytes (ls_args st) @ rest"
    and store: "bw_format_args_store w = []" and pattern: "mdc_new (bo_mdc_format_pattern (bw_options w)) = Inr m0"
    and p: "apply_mdc_event env (ls_event st) (sm_decoder (be_memory env) (ls_decoder st)) mem off tc w = (r, tc', w')"
  shows "r = Inr (off + length (args_bytes (ls_args st)))
    \<and> tc' = tc\<lparr>tc_backend_mdc_state := mdc_after (be_vformat env) (bo_mdc_format_pattern (bw_options w)) st (tc_backend_mdc_state tc)\<rparr>
    \<and> bw_options w' = bw_options w \<and> bw_named_args_templates w' = bw_named_args_templates w"
proof -
  have args: "decode_and_store_args mem (map type_of_arg (ls_args st)) off []
      = (map arg_decoded (ls_args st), off + length (args_bytes (ls_args st)))"
    using decode_args_bytes [of "ls_args st" off mem rest "[]"] ok mem by (simp add: statement_ok_def args_bytes_def)
  have types: "map type_of_arg (ls_args st) = event_types (be_memory env) (ls_event st) (ls_decoder st)"
    using ok by (simp add: statement_ok_def)
  obtain state' err where set: "mdc_set_event (be_vformat env) (bo_mdc_format_pattern (bw_options w))
      (map arg_decoded (ls_args st)) (tc_backend_mdc_state tc) = Inr (state', err)"
    using mdc_set_event_ok [OF pattern] .
  obtain state2 err2 where er: "mdc_erase_event (be_vformat env) (map arg_decoded (ls_args st)) (tc_backend_mdc_state tc) = (state2, err2)"
    by fastforce
  from ev consider "ls_event st = MdcSet" | "ls_event st = MdcErase" | "ls_event st = MdcClear"
    by (auto simp: mdc_event_def)
  then show ?thesis
  proof cases
    case 1
    then have "sm_decoder (be_memory env) (ls_decoder st) = map type_of_arg (ls_args st)"
      using types by (simp add: event_types_def runtime_types_def)
    with 1 args store p set show ?thesis by (auto simp: apply_mdc_event_def mdc_after_def)
  next
    case 2
    then have "sm_decoder (be_memory env) (ls_decoder st) = map type_of_arg (ls_args st)"
      using types by (simp add: event_types_def runtime_types_def)
    with 2 args store p er show ?thesis by (auto simp: apply_mdc_event_def mdc_after_def)
  next
    case 3
    with types p show ?thesis by (auto simp: apply_mdc_event_def mdc_after_def event_types_def)
  qed
qed

text \<open>The formatted statements.\<close>

lemma populate_formatted_delivers:
  assumes free: "slot_free e" and ok: "statement_ok (be_memory env) st"
    and ev: "\<not> mdc_event (ls_event st)" "ls_event st \<noteq> Metric" "ls_event st \<noteq> Flush" "ls_event st \<noteq> LoggerRemovalRequest"
    and meta: "te_macro_metadata e = StaticMetadata (sm_metadata (be_memory env) (ls_metadata st))"
    and core: "te_timestamp e = event_timestamp env (sm_clock_source (be_memory env) (ls_logger st)) t"
      "te_logger_base e = Some (unat (ls_logger st))"
    and mem: "drop off mem = args_bytes (ls_args st) @ rest"
    and store: "bw_format_args_store w = []" and t: "templates_ok w"
    and p: "populate_event env address (ls_event st) (ls_decoder st) mem off e tc w = (r, e', tc', w')"
  shows "r = Inr (off + length (args_bytes (ls_args st))) \<and> tc' = tc \<and> bw_options w' = bw_options w \<and> templates_ok w'
    \<and> te_wf e' \<and> is_delivered (delivered_of env (bw_options w) (tc_backend_mdc_state tc) t st) e'"
proof -
  let ?sm = "be_memory env" and ?rt = "runtime_metadata_event (ls_event st)"
  let ?m = "statement_metadata ?sm st"
  have args_ok: "\<forall>arg \<in> set (ls_args st). arg_ok arg"
    and types: "map type_of_arg (ls_args st) = runtime_types (ls_event st) @ sm_decoder ?sm (ls_decoder st)"
    using ok ev by (auto simp: statement_ok_def event_types_def mdc_event_def)
  have "\<exists>off1 e1. (if ?rt then apply_runtime_metadata ?sm address (ls_event st) mem off e else (Inr off, e)) = (Inr off1, e1)
      \<and> drop off1 mem = args_bytes (user_args st) @ rest
      \<and> off1 + length (args_bytes (user_args st)) = off + length (args_bytes (ls_args st))
      \<and> te_wf e1 \<and> te_metadata e1 = Some ?m \<and> te_mdc e1 = '''' \<and> te_core e1 = te_core e
      \<and> mm_event ?m \<noteq> Flush \<and> mm_event ?m \<noteq> LoggerRemovalRequest"
  proof (cases ?rt)
    case False
    with slot_free_wf [OF free meta] mem ok ev show ?thesis
      by (auto simp: user_args_def statement_metadata_def statement_ok_def)
  next
    case True
    have located: "\<not> (arg_c_string ?sm (ls_args st ! 1) = Some '''' \<and> arg_line (ls_args st) \<noteq> 0)"
      using ok True by (simp add: statement_ok_def)
    obtain off1 e1 a x where r: "apply_runtime_metadata ?sm address (ls_event st) mem off e = (Inr off1, e1)"
        "drop off1 mem = args_bytes (drop 6 (ls_args st)) @ rest"
        "off1 + length (args_bytes (drop 6 (ls_args st))) = off + length (args_bytes (ls_args st))"
        "e1 = e\<lparr>te_macro_metadata := RuntimeMetadataOf a, te_extra_data := Some (a, x)\<rparr>"
        "rm_macro_metadata (ed_runtime_metadata x) = runtime_metadata_of ?sm (ls_args st)"
        "rm_wf (ed_runtime_metadata x)" "rm_has_runtime_metadata (ed_runtime_metadata x)" "ed_mdc x = ''''"
      using apply_runtime_metadata_delivers [OF free True types args_ok mem located, of address] by blast
    have "mm_event (runtime_metadata_of ?sm (ls_args st)) = Log" by (simp add: runtime_metadata_of_def mm_new_def)
    with r True show ?thesis
      by (simp add: user_args_def statement_metadata_def te_wf_def te_metadata_def te_mdc_def te_core_def)
  qed
  then obtain off1 e1 where s1: "(if ?rt then apply_runtime_metadata ?sm address (ls_event st) mem off e else (Inr off, e)) = (Inr off1, e1)"
      "drop off1 mem = args_bytes (user_args st) @ rest"
      "off1 + length (args_bytes (user_args st)) = off + length (args_bytes (ls_args st))"
      "te_wf e1" "te_metadata e1 = Some ?m" "te_mdc e1 = ''''" "te_core e1 = te_core e"
      "mm_event ?m \<noteq> Flush" "mm_event ?m \<noteq> LoggerRemovalRequest" by blast
  have "map type_of_arg (user_args st) = sm_decoder ?sm (ls_decoder st)"
  proof (cases ?rt)
    case True
    then have "length (runtime_types (ls_event st)) = 6" by (auto simp: runtime_metadata_event_def runtime_types_def)
    with types True show ?thesis by (simp add: user_args_def flip: drop_map)
  next
    case False
    with types show ?thesis by (auto simp: user_args_def runtime_metadata_event_def runtime_types_def)
  qed
  moreover have "\<forall>arg \<in> set (user_args st). arg_ok arg"
    using args_ok by (auto simp: user_args_def dest: in_set_dropD)
  ultimately have dec: "decode_and_store_args mem (sm_decoder ?sm (ls_decoder st)) off1 []
      = (map arg_decoded (user_args st), off1 + length (args_bytes (user_args st)))"
    using decode_args_bytes [of "user_args st" off1 mem rest "[]"] s1(2) by (simp add: args_bytes_def)
  let ?w1 = "w\<lparr>bw_format_args_store := map arg_decoded (user_args st)\<rparr>"
  obtain e2 w2 where f: "format_event env address ?rt ?m e1 ?w1 = (e2, w2)" by fastforce
  have "templates_ok ?w1" using t by (simp add: templates_ok_def)
  note fd = format_event_delivers [OF s1(4,5,6) this f]
  have "\<not> (ls_event st = MdcSet \<or> ls_event st = MdcErase \<or> ls_event st = MdcClear)" using ev(1) by (simp add: mdc_event_def)
  then have res: "r = Inr (off + length (args_bytes (ls_args st)))" "e' = set_transit_event_mdc address tc e2" "tc' = tc" "w' = w2"
    using p ev(2) s1 dec f store by (simp_all add: populate_event_def) auto
  have extra: "\<not> (\<exists>m. te_metadata e2 = Some m \<and> mm_has_named_args m \<and> te_extra_data e2 = None)"
    using fd by (auto simp: te_get_named_args_def split: option.splits if_splits)
  have "te_wf e2" "te_mdc e2 = ''''" using fd by auto
  from set_mdc_delivers [OF this, of address tc] extra
  have sd: "te_wf e' \<and> te_metadata e' = te_metadata e2 \<and> te_core e' = te_core e2 \<and> te_formatted_msg e' = te_formatted_msg e2
    \<and> te_get_named_args e' = te_get_named_args e2 \<and> te_mdc e' = mdc_text_of (tc_backend_mdc_state tc)"
    unfolding res(2) by blast
  have "te_event_payload e = Monostate" using free by (simp add: slot_free_def)
  then have "te_core e' = (te_timestamp e, te_logger_base e, Monostate)" using sd fd s1(7) by (simp add: te_core_def)
  then have "is_delivered (delivered_of env (bw_options w) (tc_backend_mdc_state tc) t st) e'"
    using sd fd core ev by (cases "mm_has_named_args ?m")
      (simp_all add: is_delivered_def delivered_of_def statement_text_def statement_payload_def te_core_def Let_def split_beta)
  with sd fd res show ?thesis by simp
qed

text \<open>The other events that take a slot.\<close>

lemma te_payload_update:
  "te_wf (e\<lparr>te_event_payload := p\<rparr>) = te_wf e" "te_metadata (e\<lparr>te_event_payload := p\<rparr>) = te_metadata e"
  by (auto simp: te_wf_def te_metadata_def split: meta_ref.split)

lemma removal_flag_templates [simp]: "templates_ok (w\<lparr>bw_logger_removal_flags := f\<rparr>) = templates_ok w"
  by (simp add: templates_ok_def)

lemma populate_control_delivers:
  assumes free: "slot_free e" and ok: "statement_ok (be_memory env) st"
    and ev: "ls_event st = Metric \<or> ls_event st = Flush \<or> ls_event st = LoggerRemovalRequest"
    and meta: "te_macro_metadata e = StaticMetadata (sm_metadata (be_memory env) (ls_metadata st))"
    and core: "te_timestamp e = event_timestamp env (sm_clock_source (be_memory env) (ls_logger st)) t"
      "te_logger_base e = Some (unat (ls_logger st))"
    and mem: "drop off mem = args_bytes (ls_args st) @ rest"
    and t: "templates_ok w"
    and p: "populate_event env address (ls_event st) (ls_decoder st) mem off e tc w = (r, e', tc', w')"
  shows "r = Inr (off + length (args_bytes (ls_args st))) \<and> tc' = tc \<and> bw_options w' = bw_options w \<and> templates_ok w'
    \<and> te_wf e' \<and> is_delivered (delivered_of env (bw_options w) (tc_backend_mdc_state tc) t st) e'"
proof -
  note wf = slot_free_wf [OF free meta]
  have types: "map type_of_arg (ls_args st) = event_types (be_memory env) (ls_event st) (ls_decoder st)"
    and mev: "mm_event (sm_metadata (be_memory env) (ls_metadata st)) = ls_event st"
    and args_ok: "\<forall>arg \<in> set (ls_args st). arg_ok arg" using ok by (simp_all add: statement_ok_def)
  have m: "statement_metadata (be_memory env) st = sm_metadata (be_memory env) (ls_metadata st)"
    "\<not> runtime_metadata_event (ls_event st)"
    using ev by (auto simp: statement_metadata_def runtime_metadata_event_def)
  from ev consider "ls_event st = Metric" | "ls_event st = Flush" | "ls_event st = LoggerRemovalRequest" by blast
  then show ?thesis
  proof cases
    case 1
    then have "ls_args st = []" using types by (simp add: event_types_def)
    with 1 p wf core m t show ?thesis
      by (auto simp: populate_event_def te_set_metric_value_def te_payload_update is_delivered_def delivered_of_def statement_payload_def)
  next
    case 2
    then obtain b where b: "ls_args st = [ArgFixed b]" "length b = 8"
      using types type_of_argD(2) by (fastforce simp: event_types_def map_eq_Cons_conv)
    with mem have "word_at mem off = of_nat (le_value b)"
      using slice_front [of off mem b rest] by (simp add: word_at_def)
    with 2 b p wf core m t mev show ?thesis
      by (auto simp: populate_event_def te_set_flush_flag_def te_payload_update is_delivered_def delivered_of_def statement_payload_def)
  next
    case 3
    then obtain b s where b: "ls_args st = [ArgFixed b, ArgString s]" "length b = 8"
      using types type_of_argD(2,4) by (fastforce simp: event_types_def map_eq_Cons_conv)
    have d: "drop off mem = b @ arg_bytes (ArgString s) @ rest" using mem b by simp
    have "decode_arg mem (type_of_arg (ArgString s)) (off + length b)
        = (arg_decoded (ArgString s), off + length b + length (arg_bytes (ArgString s)))"
      by (rule decode_arg_bytes [OF _ drop_more [OF d]]) (use args_ok b in simp)
    with 3 b p wf core m t mev show ?thesis
      by (auto simp: populate_event_def is_delivered_def delivered_of_def statement_payload_def Let_def add.assoc split: if_splits)
  qed
qed

lemma populate_event_delivers:
  assumes free: "slot_free e" and ok: "statement_ok (be_memory env) st" and ev: "\<not> mdc_event (ls_event st)"
    and meta: "te_macro_metadata e = StaticMetadata (sm_metadata (be_memory env) (ls_metadata st))"
    and core: "te_timestamp e = event_timestamp env (sm_clock_source (be_memory env) (ls_logger st)) t"
      "te_logger_base e = Some (unat (ls_logger st))"
    and mem: "drop off mem = args_bytes (ls_args st) @ rest"
    and store: "bw_format_args_store w = []" and t: "templates_ok w"
    and p: "populate_event env address (ls_event st) (ls_decoder st) mem off e tc w = (r, e', tc', w')"
  shows "r = Inr (off + length (args_bytes (ls_args st))) \<and> tc' = tc \<and> bw_options w' = bw_options w \<and> templates_ok w'
    \<and> te_wf e' \<and> is_delivered (delivered_of env (bw_options w) (tc_backend_mdc_state tc) t st) e'"
proof (cases "ls_event st = Metric \<or> ls_event st = Flush \<or> ls_event st = LoggerRemovalRequest")
  case True
  show ?thesis by (rule populate_control_delivers [OF free ok True meta core mem t p])
next
  case False
  then have "ls_event st \<noteq> Metric" "ls_event st \<noteq> Flush" "ls_event st \<noteq> LoggerRemovalRequest" by auto
  from populate_formatted_delivers [OF free ok ev this meta core mem store t p] show ?thesis .
qed

text \<open>
  \<open>tc_events\<close> are the live events of a context. What a call of the decoder may do to a context
  that stays \<open>ready\<close>: deliver the statement, or leave it and everything that counts alone.
\<close>

definition tc_events :: "thread_context \<Rightarrow> transit_event list" where
  "tc_events tc = (case tc_transit_event_buffer tc of None \<Rightarrow> [] | Some b \<Rightarrow> tb_events b)"

definition decoder_ready :: "thread_context \<Rightarrow> backend_worker \<Rightarrow> bool" where
  "decoder_ready tc w \<longleftrightarrow> (\<exists>b. tc_transit_event_buffer tc = Some b \<and> buffer_ok b)
     \<and> bw_format_args_store w = [] \<and> templates_ok w \<and> (\<exists>m0. mdc_new (bo_mdc_format_pattern (bw_options w)) = Inr m0)"

definition same_rest :: "thread_context \<Rightarrow> thread_context \<Rightarrow> bool" where
  "same_rest tc tc' \<longleftrightarrow> tc_spsc_queue tc' = tc_spsc_queue tc \<and> tc_queue_type tc' = tc_queue_type tc
     \<and> tc_valid tc' = tc_valid tc \<and> tc_thread_id tc' = tc_thread_id tc \<and> tc_thread_name tc' = tc_thread_name tc"

definition left_alone :: "thread_context \<Rightarrow> backend_worker \<Rightarrow> thread_context \<Rightarrow> backend_worker \<Rightarrow> bool" where
  "left_alone tc w tc' w' \<longleftrightarrow> decoder_ready tc' w' \<and> same_rest tc tc' \<and> bw_options w' = bw_options w
     \<and> tc_events tc' = tc_events tc \<and> tc_backend_mdc_state tc' = tc_backend_mdc_state tc"

definition took :: "backend_env \<Rightarrow> u64 \<Rightarrow> statement \<Rightarrow> thread_context \<Rightarrow> backend_worker \<Rightarrow> thread_context \<Rightarrow> backend_worker \<Rightarrow> bool" where
  "took env t st tc w tc' w' \<longleftrightarrow> decoder_ready tc' w' \<and> same_rest tc tc' \<and> bw_options w' = bw_options w
     \<and> (\<exists>es. tc_events tc' = tc_events tc @ es
          \<and> list_all2 is_delivered (deliveries env (bw_options w) (tc_backend_mdc_state tc) [(t, st)]) es)
     \<and> tc_backend_mdc_state tc' = mdc_after (be_vformat env) (bo_mdc_format_pattern (bw_options w)) st (tc_backend_mdc_state tc)"

lemma notify_ready:
  assumes "tb_inv b" "tb_free slot_free b" "\<forall>e \<in> set (tb_events b). te_wf e" "decoder_ready tc w"
  shows "decoder_ready (tc\<lparr>tc_transit_event_buffer := Some b\<rparr>) w"
  using assms by (auto simp: decoder_ready_def buffer_ok_def)

lemma start_clock_fields [simp]:
  "bw_options (start_rdtsc_clock env w) = bw_options w" "bw_format_args_store (start_rdtsc_clock env w) = bw_format_args_store w"
  "bw_named_args_templates (start_rdtsc_clock env w) = bw_named_args_templates w"
  by (simp_all add: start_rdtsc_clock_def)

lemma templates_ok_cong: "bw_named_args_templates w' = bw_named_args_templates w \<Longrightarrow> templates_ok w' = templates_ok w"
  by (simp add: templates_ok_def)

lemma slot_free_header: "slot_free (e\<lparr>te_timestamp := t, te_macro_metadata := m, te_logger_base := l\<rparr>) = slot_free e"
  by (simp add: slot_free_def)

lemma tc_other_fields [simp]:
  "same_rest tc (tc\<lparr>tc_transit_event_buffer := b\<rparr>)" "same_rest tc (tc\<lparr>tc_backend_mdc_state := s, tc_transit_event_buffer := b\<rparr>)"
  by (simp_all add: same_rest_def)

text \<open>A message whose slot was asked for: it is refused as too recent, or decoded into the slot.\<close>

lemma populate_transit_event_flow:
  assumes ready: "decoder_ready tc w" and ok: "statement_ok (be_memory env) st"
    and mem: "drop off mem = statement_bytes t st @ rest"
    and p: "populate_transit_event env ts_now mem off tc w = (r, tc', w')"
  shows "r = Inr None \<and> left_alone tc w tc' w'
    \<or> r = Inr (Some (off + length (statement_bytes t st))) \<and> took env t st tc w tc' w'"
proof -
  let ?n = "bw_decode_attempts w" and ?w = "w\<lparr>bw_decode_attempts := bw_decode_attempts w + 1\<rparr>" and ?sm = "be_memory env"
  let ?clock = "sm_clock_source ?sm (ls_logger st)" and ?m = "sm_metadata ?sm (ls_metadata st)"
  obtain b0 m0 where b0: "tc_transit_event_buffer tc = Some b0" "tb_inv b0" "tb_free slot_free b0" "\<forall>e \<in> set (tb_events b0). te_wf e"
    and w0: "bw_format_args_store w = []" "templates_ok w" "mdc_new (bo_mdc_format_pattern (bw_options w)) = Inr m0"
    using ready by (auto simp: decoder_ready_def buffer_ok_def)
  note hd = header_words [of off mem t "ls_metadata st" "ls_logger st" "ls_decoder st" "args_bytes (ls_args st) @ rest"]
  have h: "word_at mem off = t" "word_at mem (off + 8) = ls_metadata st" "word_at mem (off + 16) = ls_logger st"
    "word_at mem (off + 24) = ls_decoder st" "drop (off + 32) mem = args_bytes (ls_args st) @ rest"
    using hd mem by (simp_all add: statement_bytes_def)
  have ev: "mm_event ?m = ls_event st" using ok by (simp add: statement_ok_def)
  obtain rb b where bk: "tb_back (be_allocation env ?n) te_default te_moved_from b0 = (rb, b)" by fastforce
  note bfree = back_free [OF b0(2,3) default_slot_free bk]
  have brel: "tb_inv b" "tb_events b = tb_events b0" using back_rel(1) [OF b0(2) bk] by (simp_all add: tb_rel_def)
  show ?thesis
  proof (cases rb)
    case (Inl err)
    with p b0(1) bk bfree brel b0(4) w0 show ?thesis
      by (auto simp: populate_transit_event_def Let_def left_alone_def decoder_ready_def buffer_ok_def tc_events_def
          cong: templates_ok_cong)
  next
    case (Inr i)
    have i: "i = tb_slot b (tb_writer_pos b)" "unat (tb_size b) < length (tb_storage b)"
      using back_rel(2) [OF b0(2) bk Inr] by simp_all
    note slot = writer_slot_free [OF brel(1) i(2), folded i(1)]
    define e where "e = (tb_storage b ! i)\<lparr>te_timestamp := event_timestamp env ?clock t, te_macro_metadata := StaticMetadata ?m,
      te_logger_base := Some (unat (ls_logger st))\<rparr>"
    define w1 where "w1 = (if ?clock = Tsc then start_rdtsc_clock env ?w else ?w)"
    have w1: "bw_options w1 = bw_options w" "bw_format_args_store w1 = []" "templates_ok w1"
      using w0 by (simp_all add: w1_def templates_ok_def)
    have free: "slot_free e" using bfree Inr by (simp add: e_def slot_free_header)
    have wr: "tb_inv (b\<lparr>tb_storage := (tb_storage b)[i := e]\<rparr>)" "tb_events (b\<lparr>tb_storage := (tb_storage b)[i := e]\<rparr>) = tb_events b"
      "tb_free slot_free (b\<lparr>tb_storage := (tb_storage b)[i := e]\<rparr>)"
      using write_free_slot [of b slot_free i e] brel(1) bfree slot free by auto
    have pe: "(if too_recent ?clock ts_now (event_timestamp env ?clock t) then (Inr None, tc_set_slot b i e tc, w1)
                 else case populate_event env (be_extra_address env ?n) (ls_event st) (ls_decoder st) mem (off + 32) e tc w1 of
                        (Inl err, e', tc', w') \<Rightarrow> (Inl err, tc_set_slot b i e' tc', w')
                      | (Inr off', e', tc', w') \<Rightarrow>
                          let b' = b\<lparr>tb_storage := (tb_storage b)[i := e']\<rparr>;
                              pushed = (if mdc_event (ls_event st) then b' else tb_push_back b')
                          in (Inr (Some off'), tc'\<lparr>tc_transit_event_buffer := Some pushed\<rparr>, w'\<lparr>bw_format_args_store := []\<rparr>)) = (r, tc', w')"
      using p b0(1) bk Inr unfolding populate_transit_event_def Let_def h ev mdc_event_def e_def w1_def by simp
    show ?thesis
    proof (cases "too_recent ?clock ts_now (event_timestamp env ?clock t)")
      case True
      with pe have "r = Inr None" "tc' = tc_set_slot b i e tc" "w' = w1" by simp_all
      with wr brel(2) b0 w1 w0 show ?thesis
        by (auto simp: left_alone_def decoder_ready_def buffer_ok_def tc_events_def tc_set_slot_def)
    next
      case False
      obtain r2 e' tc2 w2 where q: "populate_event env (be_extra_address env ?n) (ls_event st) (ls_decoder st) mem (off + 32) e tc w1
          = (r2, e', tc2, w2)" by (metis surj_pair)
      show ?thesis
      proof (cases "mdc_event (ls_event st)")
        case True
        have ne: "ls_event st \<noteq> Metric" using True by (auto simp: mdc_event_def)
        obtain r3 tc3 w3 where a: "apply_mdc_event env (ls_event st) (sm_decoder ?sm (ls_decoder st)) mem (off + 32) tc w1 = (r3, tc3, w3)"
          by (metis surj_pair)
        then have q': "r2 = r3" "e' = e" "tc2 = tc3" "w2 = w3"
          using q True ne by (auto simp: populate_event_def mdc_event_def)
        have pat: "mdc_new (bo_mdc_format_pattern (bw_options w1)) = Inr m0" using w0 w1 by simp
        note d = apply_mdc_event_delivers [OF True ok h(5) w1(2) pat a]
        have res: "r = Inr (Some (off + length (statement_bytes t st)))" "w' = w3\<lparr>bw_format_args_store := []\<rparr>"
          "tc' = tc3\<lparr>tc_transit_event_buffer := Some (b\<lparr>tb_storage := (tb_storage b)[i := e]\<rparr>)\<rparr>"
          using pe False q q' d True by (auto simp: Let_def add.assoc)
        have "templates_ok w3" using d w1(3) by (simp add: templates_ok_def)
        then have "templates_ok w'" using res(2) by (simp add: templates_ok_def)
        with res d wr brel(2) b0 w0 w1(1) True have "took env t st tc w tc' w'"
          by (auto simp: took_def decoder_ready_def buffer_ok_def tc_events_def same_rest_def)
        with res show ?thesis by blast
      next
        case other: False
        have core: "te_macro_metadata e = StaticMetadata ?m" "te_timestamp e = event_timestamp env ?clock t"
          "te_logger_base e = Some (unat (ls_logger st))" by (simp_all add: e_def)
        note d = populate_event_delivers [OF free ok other core h(5) w1(2,3) q]
        have res: "r = Inr (Some (off + length (statement_bytes t st)))" "w' = w2\<lparr>bw_format_args_store := []\<rparr>"
          "tc' = tc\<lparr>tc_transit_event_buffer := Some (tb_push_back (b\<lparr>tb_storage := (tb_storage b)[i := e']\<rparr>))\<rparr>"
          using pe False q d other by (auto simp: Let_def add.assoc)
        have "tb_rel (tb_push_back (b\<lparr>tb_storage := (tb_storage b)[i := e']\<rparr>)) (tb_events b @ [e'])"
          using push_events [OF brel(1) i(2), of e'] i(1) by simp
        then have pushed: "tb_inv (tb_push_back (b\<lparr>tb_storage := (tb_storage b)[i := e']\<rparr>))"
          "tb_events (tb_push_back (b\<lparr>tb_storage := (tb_storage b)[i := e']\<rparr>)) = tb_events b0 @ [e']"
          using brel(2) by (simp_all add: tb_rel_def)
        have pfree: "tb_free slot_free (tb_push_back (b\<lparr>tb_storage := (tb_storage b)[i := e']\<rparr>))"
          using push_free [OF brel(1) i(2)] bfree i(1) by simp
        have "templates_ok w'" using res(2) d by (simp add: templates_ok_def)
        moreover have "mdc_after (be_vformat env) (bo_mdc_format_pattern (bw_options w)) st (tc_backend_mdc_state tc) = tc_backend_mdc_state tc"
          using other by (simp add: mdc_after_def mdc_event_def)
        ultimately have "took env t st tc w tc' w'"
          using res(2,3) d pushed pfree b0 w0 w1(1) other
          by (simp add: took_def decoder_ready_def buffer_ok_def tc_events_def same_rest_def)
        with res show ?thesis by blast
      qed
    qed
  qed
qed

subsection \<open>Reading a queue\<close>

text \<open>The length of the message at the front of some memory, as the decoder finds it.\<close>

definition message_length :: "static_memory \<Rightarrow> bytes \<Rightarrow> nat" where
  "message_length sm mem =
     snd (decode_and_store_args mem (event_types sm (mm_event (sm_metadata sm (word_at mem 8))) (word_at mem 24)) 32 [])"

abbreviation timed_bytes :: "u64 \<times> statement \<Rightarrow> bytes" where
  "timed_bytes ts \<equiv> statement_bytes (fst ts) (snd ts)"

lemma statement_framed:
  assumes "statement_ok sm st"
  shows "framed (message_length sm) (statement_bytes t st)"
proof -
  have "message_length sm (statement_bytes t st @ rest) = length (statement_bytes t st)" for rest
  proof -
    let ?mem = "statement_bytes t st @ rest"
    have d: "drop 0 ?mem = header_bytes t (ls_metadata st) (ls_logger st) (ls_decoder st) @ args_bytes (ls_args st) @ rest"
      by (simp add: statement_bytes_def)
    note h = header_words [OF d, simplified]
    have ev: "map type_of_arg (ls_args st) = event_types sm (mm_event (sm_metadata sm (ls_metadata st))) (ls_decoder st)"
      using assms by (simp add: statement_ok_def)
    have "decode_and_store_args ?mem (map type_of_arg (ls_args st)) 32 []
        = ([] @ map arg_decoded (ls_args st), 32 + length (concat (map arg_bytes (ls_args st))))"
      by (rule decode_args_bytes [where rest = rest]) (use assms h(5) in \<open>auto simp: statement_ok_def args_bytes_def\<close>)
    then show ?thesis using h ev by (simp add: message_length_def args_bytes_def)
  qed
  moreover have "statement_bytes t st \<noteq> []" by (simp add: statement_bytes_def header_bytes_def flip: length_greater_0_conv)
  ultimately show ?thesis unfolding framed_def by blast
qed

definition same_thread :: "thread_context \<Rightarrow> thread_context \<Rightarrow> bool" where
  "same_thread tc tc' \<longleftrightarrow> tc_queue_type tc' = tc_queue_type tc \<and> tc_valid tc' = tc_valid tc
     \<and> tc_thread_id tc' = tc_thread_id tc \<and> tc_thread_name tc' = tc_thread_name tc"

lemma same_thread_refl [simp]: "same_thread tc tc"
  by (simp add: same_thread_def)

lemma same_thread_trans: "same_thread tc tc1 \<Longrightarrow> same_thread tc1 tc2 \<Longrightarrow> same_thread tc tc2"
  by (simp add: same_thread_def)

lemma same_rest_thread: "same_rest tc tc' \<Longrightarrow> same_thread tc tc'"
  by (simp add: same_rest_def same_thread_def)

lemma decoder_ready_queue [simp]:
  "decoder_ready (tc\<lparr>tc_spsc_queue := q\<rparr>) w = decoder_ready tc w" "tc_events (tc\<lparr>tc_spsc_queue := q\<rparr>) = tc_events tc"
  "same_thread tc1 (tc\<lparr>tc_spsc_queue := q\<rparr>) = same_thread tc1 tc"
  "same_thread (tc1\<lparr>tc_spsc_queue := q\<rparr>) tc = same_thread tc1 tc"
  by (simp_all add: decoder_ready_def tc_events_def same_thread_def)

lemma decoder_ready_notify: "decoder_ready tc w \<Longrightarrow> decoder_ready tc (bw_notify_error env msg w)"
  by (simp add: decoder_ready_def)

lemma decoder_ready_shrink:
  assumes "decoder_ready tc w"
  shows "decoder_ready (tc_map_buffer tb_request_shrink tc) w \<and> tc_events (tc_map_buffer tb_request_shrink tc) = tc_events tc"
proof -
  obtain b where b: "tc_transit_event_buffer tc = Some b" "buffer_ok b" using assms by (auto simp: decoder_ready_def)
  then have "buffer_ok (tb_request_shrink b)" "tb_events (tb_request_shrink b) = tb_events b"
    using request_shrink_rel [of b] shrink_free [of slot_free b te_default] by (auto simp: buffer_ok_def)
  with b assms show ?thesis by (simp add: decoder_ready_def tc_map_buffer_def tc_events_def)
qed

lemma read_frontend_queue_flow:
  assumes ready: "decoder_ready tc w" and rel: "sq_rel (tc_spsc_queue tc) (map timed_bytes xs)"
    and ok: "\<forall>x \<in> set xs. statement_ok (be_memory env) (snd x)"
    and r: "read_frontend_queue env tc w = (r, tc1, w1)"
  shows "decoder_ready tc1 w1 \<and> same_thread tc tc1 \<and> bw_options w1 = bw_options w \<and> tc_events tc1 = tc_events tc
    \<and> tc_backend_mdc_state tc1 = tc_backend_mdc_state tc \<and> sq_rel (tc_spsc_queue tc1) (map timed_bytes xs)
    \<and> (\<forall>off. r = Some off \<longrightarrow> (\<exists>x xs' rest. xs = x # xs'
          \<and> drop (unat off) (bq_storage (sq_consumer (tc_spsc_queue tc1))) = timed_bytes x @ rest
          \<and> sq_rel (sq_finish_read (of_nat (length (timed_bytes x))) (tc_spsc_queue tc1)) (map timed_bytes xs')))
    \<and> (\<forall>b. tc_spsc_queue tc = BoundedSPSC b \<longrightarrow> r = None \<longrightarrow> xs = [])"
proof -
  obtain rr q where q: "sq_prepare_read (tc_spsc_queue tc) = (rr, q)" by fastforce
  have framed: "\<forall>m \<in> set (map timed_bytes xs). framed (message_length (be_memory env)) m"
    using ok statement_framed by auto
  note s = sq_prepare_read_rel [OF rel framed q]
  have fields: "r = rr_read_pos rr" "tc_spsc_queue tc1 = q" "decoder_ready tc1 w1" "same_thread tc tc1"
    "bw_options w1 = bw_options w" "tc_events tc1 = tc_events tc" "tc_backend_mdc_state tc1 = tc_backend_mdc_state tc"
    using r q ready decoder_ready_shrink [of "tc\<lparr>tc_spsc_queue := q\<rparr>" w] decoder_ready_notify
    by (auto simp: read_frontend_queue_def Let_def tc_map_buffer_def same_thread_def split: if_splits)
  have "\<exists>x xs' rest. xs = x # xs' \<and> drop (unat off) (bq_storage (sq_consumer q)) = timed_bytes x @ rest
          \<and> sq_rel (sq_finish_read (of_nat (length (timed_bytes x))) q) (map timed_bytes xs')" if off: "rr_read_pos rr = Some off" for off
  proof -
    from conjunct1 [OF conjunct2 [OF s], THEN spec, THEN mp, OF off] show ?thesis by (cases xs) auto
  qed
  with s fields show ?thesis by auto
qed

definition delivered_prefix ::
  "backend_env \<Rightarrow> thread_context \<Rightarrow> backend_worker \<Rightarrow> (u64 \<times> statement) list \<Rightarrow> nat \<Rightarrow> thread_context \<Rightarrow> backend_worker \<Rightarrow> bool" where
  "delivered_prefix env tc w xs k tc' w' \<longleftrightarrow> k \<le> length xs
     \<and> sq_rel (tc_spsc_queue tc') (map timed_bytes (drop k xs))
     \<and> (\<exists>es. tc_events tc' = tc_events tc @ es
          \<and> list_all2 is_delivered (deliveries env (bw_options w) (tc_backend_mdc_state tc) (take k xs)) es)
     \<and> tc_backend_mdc_state tc' = mdc_after_all env (bw_options w) (take k xs) (tc_backend_mdc_state tc)
     \<and> decoder_ready tc' w' \<and> same_thread tc tc' \<and> bw_options w' = bw_options w
     \<and> length (tc_events tc') \<le> max (length (tc_events tc)) (unat (bo_transit_events_hard_limit (bw_options w)))"

lemma delivered_prefix_none:
  assumes "sq_rel (tc_spsc_queue tc') (map timed_bytes xs)" "tc_events tc' = tc_events tc"
    "tc_backend_mdc_state tc' = tc_backend_mdc_state tc" "decoder_ready tc' w'" "same_thread tc tc'" "bw_options w' = bw_options w"
  shows "delivered_prefix env tc w xs 0 tc' w'"
  using assms by (simp add: delivered_prefix_def mdc_after_all_def)

lemma deliveries_Cons: "deliveries env options state (x # xs) = deliveries env options state [x]
    @ deliveries env options (mdc_after (be_vformat env) (bo_mdc_format_pattern options) (snd x) state) xs"
  by (cases x) simp

lemma delivered_prefix_Suc:
  assumes t: "took env t st tc1 w1 tc2 w2" and room: "length (tc_events tc) < unat (bo_transit_events_hard_limit (bw_options w))"
    and same: "tc_events tc1 = tc_events tc" "tc_backend_mdc_state tc1 = tc_backend_mdc_state tc" "same_thread tc tc1"
      "bw_options w1 = bw_options w"
    and rest: "delivered_prefix env (tc2\<lparr>tc_spsc_queue := q\<rparr>) w2 xs k tc' w'"
  shows "delivered_prefix env tc w ((t, st) # xs) (Suc k) tc' w'"
proof -
  obtain es where es: "tc_events tc2 = tc_events tc @ es"
      "list_all2 is_delivered (deliveries env (bw_options w) (tc_backend_mdc_state tc) [(t, st)]) es"
    and t2: "tc_backend_mdc_state tc2 = mdc_after (be_vformat env) (bo_mdc_format_pattern (bw_options w)) st (tc_backend_mdc_state tc)"
      "bw_options w2 = bw_options w" and rest2: "same_rest tc1 tc2"
    using t same by (auto simp: took_def)
  have th: "same_thread tc tc2" by (rule same_thread_trans [OF same(3) same_rest_thread [OF rest2]])
  obtain es' where es': "tc_events tc' = tc_events tc2 @ es'"
      "list_all2 is_delivered (deliveries env (bw_options w) (tc_backend_mdc_state tc2) (take k xs)) es'"
    using rest t2 by (auto simp: delivered_prefix_def)
  have "length es \<le> 1" using list_all2_lengthD [OF es(2)] by (simp split: if_splits)
  then have len: "length (tc_events tc2) \<le> unat (bo_transit_events_hard_limit (bw_options w))" using es(1) room by simp
  have "list_all2 is_delivered (deliveries env (bw_options w) (tc_backend_mdc_state tc) ((t, st) # take k xs)) (es @ es')"
    by (subst deliveries_Cons, rule list_all2_appendI [OF es(2)]) (use es'(2) t2(1) in simp)
  with rest es es' t2 th len same_thread_trans [of tc tc2 tc'] show ?thesis
    by (auto simp: delivered_prefix_def mdc_after_all_def)
qed

lemma buffered_length:
  assumes "decoder_ready tc w"
  shows "length (tc_events tc) = unat (buffered tc)"
  using assms length_events by (auto simp: decoder_ready_def tc_events_def buffered_def)

text \<open>Nothing stops the reader: enough room everywhere and no message too recent.\<close>

definition may_drain ::
  "backend_env \<Rightarrow> u64 \<Rightarrow> size_t \<Rightarrow> size_t \<Rightarrow> thread_context \<Rightarrow> backend_worker \<Rightarrow> (u64 \<times> statement) list \<Rightarrow> bool" where
  "may_drain env ts_now queue_capacity total_bytes_read tc w xs \<longleftrightarrow> (\<exists>b. tc_spsc_queue tc = BoundedSPSC b)
     \<and> unat total_bytes_read + total_length (map timed_bytes xs) \<le> unat queue_capacity
     \<and> length (tc_events tc) + length xs \<le> unat (bo_transit_events_hard_limit (bw_options w))
     \<and> unat (bo_transit_events_hard_limit (bw_options w)) \<le> 2 ^ 56 \<and> (\<forall>n. be_allocation env n = AllocationOk)
     \<and> (\<forall>(t, st) \<in> set xs. let clock = sm_clock_source (be_memory env) (ls_logger st)
          in \<not> too_recent clock ts_now (event_timestamp env clock t))"

lemma back_accepts:
  assumes "tb_inv b" "unat (tb_size b) < 2 ^ 56"
  shows "\<exists>i b'. tb_back AllocationOk fresh moved b = (Inr i, b')"
proof (cases "tb_capacity b = tb_size b")
  case True
  then have "unat (tb_capacity b * 2) \<le> 2 ^ 57" using assms(2) by (simp add: unat_word_ariths)
  then have "\<not> tb_capacity b * 2 > max_elements" by (simp add: max_elements_def word_less_nat_alt)
  with True show ?thesis by (auto simp: tb_back_def tb_expand_def Let_def split: prod.splits)
qed (simp add: tb_back_def)

lemma populate_accepts:
  assumes ready: "decoder_ready tc w" and ok: "statement_ok (be_memory env) st"
    and mem: "drop off mem = statement_bytes t st @ rest"
    and room: "length (tc_events tc) < 2 ^ 56" "\<forall>n. be_allocation env n = AllocationOk"
    and old: "\<not> too_recent (sm_clock_source (be_memory env) (ls_logger st)) ts_now
      (event_timestamp env (sm_clock_source (be_memory env) (ls_logger st)) t)"
  shows "fst (populate_transit_event env ts_now mem off tc w) \<noteq> Inr None"
proof -
  obtain b where b: "tc_transit_event_buffer tc = Some b" "tb_inv b" using ready by (auto simp: decoder_ready_def buffer_ok_def)
  then have "unat (tb_size b) < 2 ^ 56" using room(1) length_events [of b] by (simp add: tc_events_def)
  from back_accepts [OF b(2) this] obtain i b' where back': "tb_back AllocationOk te_default te_moved_from b = (Inr i, b')" by blast
  note hd = header_words [of off mem t "ls_metadata st" "ls_logger st" "ls_decoder st" "args_bytes (ls_args st) @ rest"]
  have h: "word_at mem off = t" "word_at mem (off + 16) = ls_logger st"
    using hd mem by (simp_all add: statement_bytes_def)
  show ?thesis
    using b(1) back' room(2) old unfolding populate_transit_event_def Let_def h
    by (auto split: prod.splits sum.splits)
qed

lemma may_drain_step:
  assumes d: "may_drain env ts_now cap n tc w ((t, st) # xs)" and t: "took env t st tc1 w1 tc2 w2"
    and same: "tc_events tc1 = tc_events tc" "tc_spsc_queue tc1 = BoundedSPSC b" "bw_options w1 = bw_options w"
    and len: "k = of_nat (length (statement_bytes t st))"
  shows "may_drain env ts_now cap (n + k) (tc2\<lparr>tc_spsc_queue := sq_finish_read k (tc_spsc_queue tc2)\<rparr>) w2 xs"
proof -
  let ?l = "length (statement_bytes t st)"
  have le: "unat n + ?l + total_length (map timed_bytes xs) \<le> unat cap" using d by (simp add: may_drain_def)
  moreover have "unat cap < 2 ^ LENGTH(64)" by (rule unsigned_less)
  ultimately have "unat n + ?l < 2 ^ LENGTH(64)" by linarith
  then have n: "unat (n + k) = unat n + ?l" using unat_add_base [of n 0 ?l] len by simp
  obtain es where "tc_events tc2 = tc_events tc @ es" "length es \<le> 1"
    using t same by (auto simp: took_def dest!: list_all2_lengthD split: if_splits)
  moreover have "tc_spsc_queue tc2 = BoundedSPSC b" "bw_options w2 = bw_options w" using t same by (auto simp: took_def same_rest_def)
  ultimately show ?thesis using d n le by (auto simp: may_drain_def)
qed

lemma read_queue_loop_flow:
  assumes "decoder_ready tc w" "sq_rel (tc_spsc_queue tc) (map timed_bytes xs)"
    and "\<forall>x \<in> set xs. statement_ok (be_memory env) (snd x)"
  shows "\<exists>total' tc' w' k. read_queue_loop env ts_now queue_capacity total_bytes_read tc w = Some (Inr total', tc', w')
    \<and> delivered_prefix env tc w xs k tc' w'
    \<and> (may_drain env ts_now queue_capacity total_bytes_read tc w xs \<longrightarrow> k = length xs)"
  using assms
proof (induction xs arbitrary: tc w total_bytes_read rule: measure_induct_rule [of length])
  case (less xs)
  let ?hard = "bo_transit_events_hard_limit (bw_options w)"
  show ?case
  proof (cases "total_bytes_read < queue_capacity \<and> buffered tc < ?hard")
    case False
    then have "read_queue_loop env ts_now queue_capacity total_bytes_read tc w = Some (Inr total_bytes_read, tc, w)"
      by (subst read_queue_loop.simps) simp
    moreover have "xs = []" if d: "may_drain env ts_now queue_capacity total_bytes_read tc w xs"
    proof (rule ccontr)
      assume "xs \<noteq> []"
      then obtain x xs' where xs: "xs = x # xs'" by (cases xs) auto
      then have "total_bytes_read < queue_capacity" using d by (auto simp: may_drain_def word_less_nat_alt)
      moreover have "buffered tc < ?hard"
        using d xs buffered_length [OF less.prems(1)] by (auto simp: may_drain_def word_less_nat_alt)
      ultimately show False using False by blast
    qed
    moreover have "delivered_prefix env tc w xs 0 tc w" using delivered_prefix_none [of tc xs tc w w env] less.prems by simp
    ultimately show ?thesis by (metis list.size(3))
  next
    case True
    obtain r tc1 w1 where r: "read_frontend_queue env tc w = (r, tc1, w1)" by (metis surj_pair)
    note f = read_frontend_queue_flow [OF less.prems r]
    show ?thesis
    proof (cases r)
      case None
      with True r have "read_queue_loop env ts_now queue_capacity total_bytes_read tc w = Some (Inr total_bytes_read, tc1, w1)"
        by (subst read_queue_loop.simps) simp
      moreover have "delivered_prefix env tc w xs 0 tc1 w1" using delivered_prefix_none [of tc1 xs tc w1 w env] f by blast
      moreover have "may_drain env ts_now queue_capacity total_bytes_read tc w xs \<longrightarrow> xs = []"
        using f None by (auto simp: may_drain_def)
      ultimately show ?thesis by (metis list.size(3))
    next
      case (Some off)
      let ?mem = "bq_storage (sq_consumer (tc_spsc_queue tc1))"
      obtain t st xs' rest where x: "xs = (t, st) # xs'" "drop (unat off) ?mem = statement_bytes t st @ rest"
          "sq_rel (sq_finish_read (of_nat (length (statement_bytes t st))) (tc_spsc_queue tc1)) (map timed_bytes xs')"
        using f Some by fastforce
      have ready: "decoder_ready tc1 w1" using f by blast
      have ok: "statement_ok (be_memory env) st" using less.prems(3) x(1) by simp
      obtain rp tc2 w2 where p: "populate_transit_event env ts_now ?mem (unat off) tc1 w1 = (rp, tc2, w2)" by (metis surj_pair)
      from populate_transit_event_flow [OF ready ok x(2) p]
      consider "rp = Inr None" "left_alone tc1 w1 tc2 w2"
        | "rp = Inr (Some (unat off + length (statement_bytes t st)))" "took env t st tc1 w1 tc2 w2" by blast
      then show ?thesis
      proof cases
        case 1
        with True r Some p have "read_queue_loop env ts_now queue_capacity total_bytes_read tc w = Some (Inr total_bytes_read, tc2, w2)"
          by (subst read_queue_loop.simps) simp
        moreover have "delivered_prefix env tc w xs 0 tc2 w2"
          by (rule delivered_prefix_none) (use 1(2) f same_thread_trans [of tc tc1 tc2] in
            \<open>auto simp: left_alone_def same_rest_def dest: same_rest_thread\<close>, auto simp: same_thread_def)
        moreover have "\<not> may_drain env ts_now queue_capacity total_bytes_read tc w xs"
        proof
          assume d: "may_drain env ts_now queue_capacity total_bytes_read tc w xs"
          then have "length (tc_events tc1) < 2 ^ 56" "\<forall>n. be_allocation env n = AllocationOk"
            using f x(1) by (auto simp: may_drain_def)
          moreover have "\<not> too_recent (sm_clock_source (be_memory env) (ls_logger st)) ts_now
              (event_timestamp env (sm_clock_source (be_memory env) (ls_logger st)) t)"
            using d x(1) by (auto simp: may_drain_def Let_def)
          ultimately show False using populate_accepts [OF ready ok x(2)] p 1(1) by (metis fst_conv)
        qed
        ultimately show ?thesis by blast
      next
        case 2
        let ?n = "of_nat (length (statement_bytes t st)) :: size_t"
        let ?tc3 = "tc2\<lparr>tc_spsc_queue := sq_finish_read ?n (tc_spsc_queue tc2)\<rparr>"
        have step: "read_queue_loop env ts_now queue_capacity total_bytes_read tc w
            = read_queue_loop env ts_now queue_capacity (total_bytes_read + ?n) ?tc3 w2"
          using True r Some p 2(1) by (subst read_queue_loop.simps) (simp add: Let_def)
        have "decoder_ready ?tc3 w2" "sq_rel (tc_spsc_queue ?tc3) (map timed_bytes xs')"
          using 2(2) x(3) by (auto simp: took_def same_rest_def)
        with less.IH [of xs' ?tc3 w2 "total_bytes_read + ?n"] less.prems(3) x(1)
        obtain total' tc' w' k where rec: "read_queue_loop env ts_now queue_capacity (total_bytes_read + ?n) ?tc3 w2 = Some (Inr total', tc', w')"
            "delivered_prefix env ?tc3 w2 xs' k tc' w'"
            "may_drain env ts_now queue_capacity (total_bytes_read + ?n) ?tc3 w2 xs' \<longrightarrow> k = length xs'" by auto
        have drain: "Suc k = length xs" if d: "may_drain env ts_now queue_capacity total_bytes_read tc w xs"
        proof -
          obtain b where "tc_spsc_queue tc = BoundedSPSC b" using d by (auto simp: may_drain_def)
          then obtain b1 where "tc_spsc_queue tc1 = BoundedSPSC b1"
            using r by (auto simp: read_frontend_queue_def tc_map_buffer_def Let_def split: prod.splits if_splits)
          from may_drain_step [OF d [unfolded x(1)] 2(2) _ this _ refl] f rec(3) x(1) show ?thesis by auto
        qed
        have "length (tc_events tc) < unat ?hard"
          using True buffered_length [OF less.prems(1)] by (simp add: word_less_nat_alt)
        from delivered_prefix_Suc [OF 2(2) this _ _ _ _ rec(2)] f have "delivered_prefix env tc w xs (Suc k) tc' w'"
          unfolding x(1) by blast
        with step rec(1) drain show ?thesis by auto
      qed
    qed
  qed
qed

lemma read_and_decode_flow:
  assumes ready: "decoder_ready tc w" and rel: "sq_rel (tc_spsc_queue tc) (map timed_bytes xs)"
    and ok: "\<forall>x \<in> set xs. statement_ok (be_memory env) (snd x)"
  shows "\<exists>n tc' w' k. read_and_decode_frontend_queue env ts_now tc w = Some (Inr n, tc', w')
    \<and> delivered_prefix env tc w xs k tc' w' \<and> unat n = length (tc_events tc')
    \<and> (may_drain env ts_now (sq_capacity (tc_spsc_queue tc)) 0 tc w xs \<longrightarrow> k = length xs)"
proof -
  let ?cap = "sq_capacity (tc_spsc_queue tc)"
  obtain total' tc1 w1 k where l: "read_queue_loop env ts_now ?cap 0 tc w = Some (Inr total', tc1, w1)"
    "delivered_prefix env tc w xs k tc1 w1" "may_drain env ts_now ?cap 0 tc w xs \<longrightarrow> k = length xs"
    using read_queue_loop_flow [OF assms] by metis
  define tc2 where "tc2 = (if total' \<noteq> 0 then tc1\<lparr>tc_spsc_queue := sq_commit_read (tc_spsc_queue tc1)\<rparr> else tc1)"
  have "delivered_prefix env tc w xs k tc2 w1"
    using l(2) sq_commit_read_rel by (auto simp: tc2_def delivered_prefix_def)
  moreover from this have "decoder_ready tc2 w1" by (simp add: delivered_prefix_def)
  then have "unat (buffered tc2) = length (tc_events tc2)" by (rule buffered_length [symmetric])
  moreover have "read_and_decode_frontend_queue env ts_now tc w = Some (Inr (buffered tc2), tc2, w1)"
    using l(1) by (simp add: read_and_decode_frontend_queue_def tc2_def Let_def)
  ultimately show ?thesis using l(3) by blast
qed

lemma bounded_queue_fits:
  assumes "sq_rel (BoundedSPSC b) ms"
  shows "total_length ms \<le> unat (sq_capacity (BoundedSPSC b))"
proof -
  have "bq_inv b" "total_length ms = unat (bq_atomic_writer_pos b - bq_reader_pos b)"
    using assms by (simp_all add: bq_rel_def)
  with inv_distances(1) [of b] show ?thesis by (simp add: bq_inv_def)
qed

subsection \<open>Properties\<close>

text \<open>
  C19. What the frontend wrote is what the backend buffers, in order and exactly once: reading a
  queue that holds the statements \<open>xs\<close> takes a prefix of them, appends one event for each (none
  for an MDC statement, whose effect goes to the MDC state of the thread) with the timestamp,
  metadata, logger, payload and texts of \<open>delivered_of\<close>, leaves exactly the others in
  the queue, and does not push the buffer past the hard limit. No exception leaves the function,
  every live event and every free slot stays well formed.
\<close>

theorem queue_delivered_in_order:
  assumes "decoder_ready tc w" "sq_rel (tc_spsc_queue tc) (map timed_bytes xs)"
    and "\<forall>x \<in> set xs. statement_ok (be_memory env) (snd x)"
  shows "\<exists>n tc' w' k. read_and_decode_frontend_queue env ts_now tc w = Some (Inr n, tc', w')
    \<and> delivered_prefix env tc w xs k tc' w' \<and> unat n = length (tc_events tc')"
  using read_and_decode_flow [OF assms, of ts_now] by blast

text \<open>
  C20. Progress: when the buffer may grow to hold all messages of a bounded queue (the hard limit
  allows it, allocations succeed) and none is too recent for the grace period, one call empties
  the queue and everything in it is delivered.
\<close>

theorem bounded_queue_is_drained:
  assumes "decoder_ready tc w" "sq_rel (BoundedSPSC b) (map timed_bytes xs)" "tc_spsc_queue tc = BoundedSPSC b"
    and "\<forall>x \<in> set xs. statement_ok (be_memory env) (snd x)"
    and "length (tc_events tc) + length xs \<le> unat (bo_transit_events_hard_limit (bw_options w))"
    and "unat (bo_transit_events_hard_limit (bw_options w)) \<le> 2 ^ 56" "\<forall>n. be_allocation env n = AllocationOk"
    and "\<forall>(t, st) \<in> set xs. let clock = sm_clock_source (be_memory env) (ls_logger st)
          in \<not> too_recent clock ts_now (event_timestamp env clock t)"
  shows "\<exists>n tc' w'. read_and_decode_frontend_queue env ts_now tc w = Some (Inr n, tc', w')
    \<and> delivered_prefix env tc w xs (length xs) tc' w' \<and> sq_rel (tc_spsc_queue tc') []"
proof -
  have "may_drain env ts_now (sq_capacity (tc_spsc_queue tc)) 0 tc w xs"
    using assms bounded_queue_fits [OF assms(2)] by (simp add: may_drain_def)
  with read_and_decode_flow [of tc w xs env ts_now] assms show ?thesis
    by (auto simp: delivered_prefix_def)
qed

subsection \<open>Witnesses\<close>

definition example_log :: statement where
  "example_log = \<lparr>ls_metadata = 1, ls_event = Log, ls_logger = 2, ls_decoder = 3, ls_args = []\<rparr>"

lemma example_log_ok: "statement_ok (be_memory example_backend) example_log"
  by (simp add: statement_ok_def example_backend_def example_log_def mm_new_def event_types_def runtime_types_def
      runtime_metadata_event_def)

lemma example_worker_ready:
  assumes "buffer_ok b"
  shows "decoder_ready (tc\<lparr>tc_transit_event_buffer := Some b\<rparr>) example_worker"
proof -
  have "\<not> isl (mdc_new (bo_mdc_format_pattern default_backend_options))" by code_simp
  then have "\<exists>m0. mdc_new (bo_mdc_format_pattern default_backend_options) = Inr m0"
    by (cases "mdc_new (bo_mdc_format_pattern default_backend_options)") auto
  with assms show ?thesis by (simp add: decoder_ready_def templates_ok_def example_worker_def)
qed

lemma example_buffer_ok: "\<exists>b. buffer_ok b \<and> tb_events b = []"
proof -
  have "\<not> isl (tb_new te_default 4)" by code_simp
  then obtain b where b: "tb_new te_default 4 = Inr b" by (cases "tb_new te_default 4") auto
  from tb_new_rel [OF b] new_free [of te_default 4 b slot_free, OF b default_slot_free] show ?thesis
    by (auto simp: buffer_ok_def tb_rel_def)
qed

lemma example_queue_filled: "\<exists>b. sq_rel (BoundedSPSC b) [timed_bytes (5, example_log)]"
proof -
  have rel: "sq_rel (BoundedSPSC drained_ring) []" using bq_new_rel(1) [OF drained_ring_new] by simp
  have len: "length (timed_bytes (5, example_log)) = 32" by (simp add: example_log_def)
  obtain r b where p: "bq_prepare_write 32 drained_ring = (r, b)" by fastforce
  moreover have "fst (bq_prepare_write 32 drained_ring) = Some 0" by code_simp
  ultimately have w: "sq_prepare_write 32 (BoundedSPSC drained_ring) = Some (Inr (Some 0), BoundedSPSC b)" by simp
  from sq_prepare_write_rel [OF w rel] have r: "sq_rel (BoundedSPSC b) []" "sq_ready (BoundedSPSC b) 32 0" by simp_all
  have "timed_bytes (5, example_log) \<noteq> []" by (simp add: statement_bytes_def header_bytes_def flip: length_greater_0_conv)
  from sq_publish_rel [OF r(1) this] r(2) len show ?thesis by (auto simp: sq_write_memory_def)
qed

lemma example_context_filled:
  "\<exists>tc b. tc_spsc_queue tc = BoundedSPSC b \<and> sq_rel (BoundedSPSC b) (map timed_bytes [(5, example_log)])
    \<and> decoder_ready tc example_worker \<and> tc_events tc = [] \<and> tc_backend_mdc_state tc = None"
proof -
  obtain b where b: "buffer_ok b" "tb_events b = []" using example_buffer_ok by blast
  obtain q where q: "sq_rel (BoundedSPSC q) [timed_bytes (5, example_log)]" using example_queue_filled by blast
  let ?tc = "(example_context BoundedDropping)\<lparr>tc_spsc_queue := BoundedSPSC q, tc_backend_mdc_state := None\<rparr>"
  from example_worker_ready [OF b(1), of ?tc] b(2) q show ?thesis
    by (intro exI [of _ "?tc\<lparr>tc_transit_event_buffer := Some b\<rparr>"] exI [of _ q]) (simp add: tc_events_def)
qed

theorem queue_delivered_in_order_witness:
  "\<exists>tc n tc' w' k. sq_rel (tc_spsc_queue tc) [statement_bytes 5 example_log]
    \<and> read_and_decode_frontend_queue example_backend (- 1) tc example_worker = Some (Inr n, tc', w')
    \<and> delivered_prefix example_backend tc example_worker [(5, example_log)] k tc' w' \<and> unat n = length (tc_events tc')"
proof -
  obtain tc b where tc: "tc_spsc_queue tc = BoundedSPSC b" "sq_rel (BoundedSPSC b) (map timed_bytes [(5, example_log)])"
    "decoder_ready tc example_worker" using example_context_filled by blast
  from queue_delivered_in_order [OF tc(3), of "[(5, example_log)]" example_backend "- 1"] tc example_log_ok show ?thesis
    by (intro exI [of _ tc]) simp
qed

lemma example_deliveries:
  "deliveries example_backend default_backend_options None [(5, example_log)]
    = [\<lparr>dv_timestamp = 5, dv_metadata = mm_new ''a.cpp:1'' ''f'' ''hi'' None Info Log False, dv_logger = 2,
        dv_payload = Monostate, dv_text = Some (''hi'', None, '''')\<rparr>]"
  by (simp add: example_log_def example_backend_def mdc_event_def delivered_of_def event_timestamp_def statement_metadata_def
      runtime_metadata_event_def statement_payload_def statement_text_def user_args_def mm_new_def mdc_text_of_def
      populate_formatted_log_message_def sanitized_def has_string_related_type_def contains_named_args_def Let_def)

theorem bounded_queue_is_drained_witness:
  "\<exists>tc n tc' w' e. sq_rel (tc_spsc_queue tc) [statement_bytes 5 example_log]
    \<and> read_and_decode_frontend_queue example_backend (- 1) tc example_worker = Some (Inr n, tc', w')
    \<and> sq_rel (tc_spsc_queue tc') [] \<and> tc_events tc' = [e] \<and> te_formatted_msg e = Some ''hi'' \<and> te_timestamp e = 5"
proof -
  obtain tc b where tc: "tc_spsc_queue tc = BoundedSPSC b" "sq_rel (BoundedSPSC b) (map timed_bytes [(5, example_log)])"
    "decoder_ready tc example_worker" "tc_events tc = []" "tc_backend_mdc_state tc = None" using example_context_filled by blast
  have limit: "bo_transit_events_hard_limit (bw_options example_worker) = 65536"
    by (simp add: example_worker_def default_backend_options_def)
  have "\<exists>n tc' w'. read_and_decode_frontend_queue example_backend (- 1) tc example_worker = Some (Inr n, tc', w')
    \<and> delivered_prefix example_backend tc example_worker [(5, example_log)] (length [(5 :: u64, example_log)]) tc' w'
    \<and> sq_rel (tc_spsc_queue tc') []"
    by (rule bounded_queue_is_drained [OF tc(3,2,1)])
      (use example_log_ok tc(4) limit in \<open>simp_all add: example_backend_def too_recent_def\<close>)
  then obtain n tc' w' where r: "read_and_decode_frontend_queue example_backend (- 1) tc example_worker = Some (Inr n, tc', w')"
    "delivered_prefix example_backend tc example_worker [(5, example_log)] 1 tc' w'" "sq_rel (tc_spsc_queue tc') []" by auto
  have "bw_options example_worker = default_backend_options" by (simp add: example_worker_def)
  with r(2) tc(4,5) obtain es where es: "tc_events tc' = es"
      "list_all2 is_delivered (deliveries example_backend default_backend_options None [(5, example_log)]) es"
    by (auto simp: delivered_prefix_def simp del: deliveries.simps)
  then obtain e where "es = [e]" "te_formatted_msg e = Some ''hi''" "te_timestamp e = 5"
    unfolding example_deliveries by (auto simp: list_all2_Cons1 is_delivered_def)
  with es r tc show ?thesis by (intro exI [of _ tc]) auto
qed

end
