(* ===== verification/String_From_Time.thy ===== *)
theory String_From_Time
  imports Std_String Common
begin

text \<open>
  \<^verbatim>\<open>quill/backend/StringFromTime.h\<close>: \<^verbatim>\<open>strftime\<close> with a cached result in which only hours, minutes,
  seconds and the epoch value are overwritten until the next recalculation. The C library is a
  parameter: \<open>cal_tm\<close> gives hour, minute and second of \<^verbatim>\<open>gmtime\<close> or \<^verbatim>\<open>localtime\<close>, \<open>cal_strftime\<close> the
  whole expansion of a format. Timestamps are seconds; \<^verbatim>\<open>gmtime\<close> and \<^verbatim>\<open>timegm\<close> are inverse.
\<close>

subsection \<open>The class\<close>

record calendar =
  cal_tm :: "timezone \<Rightarrow> int \<Rightarrow> int \<times> int \<times> int"
  cal_strftime :: "timezone \<Rightarrow> string \<Rightarrow> int \<Rightarrow> string"

datatype format_type = Type_H | Type_M | Type_S | Type_I | Type_k | Type_l | Type_s

record string_from_time =
  sft_initial_parts :: "string list"
  sft_cached_indexes :: "(nat \<times> format_type) list"
  sft_timestamp_format :: string
  sft_pre_formatted_ts :: string
  sft_next_recalculation_timestamp :: int
  sft_cached_timestamp :: int
  sft_cached_seconds :: u32
  sft_prev_hours :: u32
  sft_prev_minutes :: u32
  sft_prev_seconds :: u32
  sft_time_zone :: timezone
  sft_cached_epoch_seconds_width :: nat

definition sft_default :: string_from_time where
  "sft_default = \<lparr>sft_initial_parts = [], sft_cached_indexes = [], sft_timestamp_format = '''', sft_pre_formatted_ts = '''',
     sft_next_recalculation_timestamp = 0, sft_cached_timestamp = 0, sft_cached_seconds = 0, sft_prev_hours = 0,
     sft_prev_minutes = 0, sft_prev_seconds = 0, sft_time_zone = GmtTime, sft_cached_epoch_seconds_width = 0\<rparr>"

subsection \<open>Modifiers in a format\<close>

definition is_escaped_percent :: "string \<Rightarrow> nat \<Rightarrow> bool" where
  "is_escaped_percent timestamp_format percent_pos \<longleftrightarrow>
     odd (length (takeWhile (\<lambda>c. c = CHR ''%'') (rev (take percent_pos timestamp_format))))"

lemma find_from_progress: "find_from p s i = Some j \<Longrightarrow> length s - j < Suc (length s) - i"
  using find_from_Some(1,2) [of p s i j] by linarith

function find_unescaped_from :: "string \<Rightarrow> string \<Rightarrow> nat \<Rightarrow> nat option" where
  "find_unescaped_from timestamp_format modifier search_pos =
     (case find_from modifier timestamp_format search_pos of
        None \<Rightarrow> None
      | Some i \<Rightarrow> if \<not> is_escaped_percent timestamp_format i then Some i
                  else find_unescaped_from timestamp_format modifier (i + 1))"
  by pat_completeness auto
termination
  by (relation "measure (\<lambda>(f, _, i). Suc (length f) - i)") (auto dest: find_from_progress)

declare find_unescaped_from.simps [simp del]

definition find_unescaped_modifier :: "string \<Rightarrow> string \<Rightarrow> nat option" where
  "find_unescaped_modifier timestamp_format modifier = find_unescaped_from timestamp_format modifier 0"

text \<open>\<^verbatim>\<open>_replace_unescaped_modifier\<close>; the old value is not empty.\<close>

function replace_unescaped_from :: "string \<Rightarrow> string \<Rightarrow> string \<Rightarrow> nat \<Rightarrow> string" where
  "replace_unescaped_from str old_value new_value pos =
     (if old_value = [] then str
      else case find_from old_value str pos of
        None \<Rightarrow> str
      | Some i \<Rightarrow>
          if is_escaped_percent str i then replace_unescaped_from str old_value new_value (i + 1)
          else replace_unescaped_from (take i str @ new_value @ drop (i + length old_value) str) old_value new_value
                 (i + length new_value))"
  by pat_completeness auto
termination
proof (relation "measure (\<lambda>(s, _, _, i). Suc (length s) - i)", goal_cases)
  case (3 str old_value new_value pos i)
  then have "pos \<le> i" "i + length old_value \<le> length str" using find_from_Some [of old_value str pos i] by auto
  with 3 show ?case by (cases old_value) auto
qed (auto dest: find_from_progress)

declare replace_unescaped_from.simps [simp del]

definition replace_unescaped_modifier :: "string \<Rightarrow> string \<Rightarrow> string \<Rightarrow> string" where
  "replace_unescaped_modifier str old_value new_value = replace_unescaped_from str old_value new_value 0"

definition time_modifiers :: "string list" where
  "time_modifiers = [''%H'', ''%M'', ''%S'', ''%I'', ''%k'', ''%l'', ''%s'']"

definition unsupported_modifiers :: "string list" where
  "unsupported_modifiers = [''%X'', ''%EX'', ''%c'', ''%Ec'', ''%OH'', ''%OI'', ''%OM'', ''%OS'']"

text \<open>The entry of a \<^verbatim>\<open>std::map<size_t, std::string>\<close> with the least index.\<close>

definition found_modifiers :: "string \<Rightarrow> (nat \<times> string) list" where
  "found_modifiers timestamp_format =
     concat (map (\<lambda>m. case find_unescaped_modifier timestamp_format m of None \<Rightarrow> [] | Some i \<Rightarrow> [(i, m)]) time_modifiers)"

fun least_entry :: "(nat \<times> string) list \<Rightarrow> (nat \<times> string) option" where
  "least_entry [] = None"
| "least_entry ((i, m) # found) =
     (case least_entry found of None \<Rightarrow> Some (i, m) | Some (j, n) \<Rightarrow> if j < i then Some (j, n) else Some (i, m))"

text \<open>Both parts and the rest of the format; \<open>None\<close> when no modifier is left.\<close>

definition split_timestamp_format_once :: "string \<Rightarrow> (string \<times> string \<times> string) option" where
  "split_timestamp_format_once timestamp_format =
     (case least_entry (found_modifiers timestamp_format) of
        None \<Rightarrow> None
      | Some (i, m) \<Rightarrow> Some (take i timestamp_format, m, drop (i + 2) timestamp_format))"

lemma least_entry_in: "least_entry found = Some p \<Longrightarrow> p \<in> set found"
  by (induction found arbitrary: p rule: least_entry.induct) (auto split: option.splits if_splits)

lemma find_unescaped_Some:
  "find_unescaped_from f m i = Some j \<Longrightarrow> j + length m \<le> length f \<and> \<not> is_escaped_percent f j"
proof (induction f m i rule: find_unescaped_from.induct)
  case (1 f m i)
  from 1(2) show ?case
    by (subst (asm) find_unescaped_from.simps) (auto split: option.splits if_splits dest: find_from_Some 1(1))
qed

lemma split_once_Some:
  assumes "split_timestamp_format_once f = Some (p1, m, rest)"
  shows "m \<in> set time_modifiers \<and> length rest < length f \<and> length m = 2"
proof -
  obtain i where i: "(i, m) \<in> set (found_modifiers f)" "rest = drop (i + 2) f"
    using assms least_entry_in by (fastforce simp: split_timestamp_format_once_def split: option.splits)
  then have m: "m \<in> set time_modifiers" "find_unescaped_modifier f m = Some i"
    by (auto simp: found_modifiers_def split: option.splits)
  then have "length m = 2" by (auto simp: time_modifiers_def)
  with m i find_unescaped_Some [of f m 0 i] show ?thesis by (auto simp: find_unescaped_modifier_def)
qed

function populate_initial_parts :: "string \<Rightarrow> string list" where
  "populate_initial_parts timestamp_format =
     (case split_timestamp_format_once timestamp_format of
        None \<Rightarrow> if timestamp_format = [] then [] else [timestamp_format]
      | Some (part1, part2, rest) \<Rightarrow> (if part1 = [] then [] else [part1]) @ [part2] @ populate_initial_parts rest)"
  by pat_completeness auto
termination by (relation "measure length") (auto dest: split_once_Some)

declare populate_initial_parts.simps [simp del]

definition sft_init :: "string \<Rightarrow> timezone \<Rightarrow> string_from_time \<Rightarrow> quill_error + string_from_time" where
  "sft_init timestamp_format timezone s =
     (if \<exists>m \<in> set unsupported_modifiers. find_unescaped_modifier timestamp_format m \<noteq> None
      then Inl (QuillError ''format modifier is not currently supported'')
      else let f1 = replace_unescaped_modifier timestamp_format ''%r'' ''%I:%M:%S %p'';
               f2 = replace_unescaped_modifier f1 ''%R'' ''%H:%M'';
               f3 = replace_unescaped_modifier f2 ''%T'' ''%H:%M:%S''
           in Inr (s\<lparr>sft_timestamp_format := f3, sft_time_zone := timezone,
                     sft_initial_parts := sft_initial_parts s @ populate_initial_parts f3\<rparr>))"

subsection \<open>Formatting one part\<close>

text \<open>
  \<^verbatim>\<open>strftime\<close> returns 0 when the text and its terminator do not fit; the buffer is doubled up to
  64 KiB. \<open>needed\<close> counts the text, the sentinel in front and the terminator.
\<close>

definition max_buffer_size :: nat where
  "max_buffer_size = 64 * 1024"

function grow_buffer :: "nat \<Rightarrow> nat \<Rightarrow> bool" where
  "grow_buffer needed buffer_size =
     (if needed \<le> buffer_size then True
      else if buffer_size \<ge> max_buffer_size \<or> buffer_size = 0 then False
      else grow_buffer needed (buffer_size * 2))"
  by pat_completeness auto
termination by (relation "measure (\<lambda>(_, n). max_buffer_size - n)") auto

declare grow_buffer.simps [simp del]

definition safe_strftime :: "calendar \<Rightarrow> timezone \<Rightarrow> string \<Rightarrow> int \<Rightarrow> quill_error + string" where
  "safe_strftime cal timezone format_string timestamp =
     (if format_string = [] then Inr []
      else let expansion = cal_strftime cal timezone format_string timestamp
           in if grow_buffer (length expansion + 2) 32 then Inr expansion
              else Inl (QuillError ''strftime failed to format timestamp.''))"

definition int_to_string :: "int \<Rightarrow> string" where
  "int_to_string t = (if t < 0 then ''-'' @ to_string (nat (- t)) else to_string (nat t))"

definition decimal_width :: "int \<Rightarrow> nat" where
  "decimal_width t = length (int_to_string t)"

fun fallback_parts :: "calendar \<Rightarrow> timezone \<Rightarrow> int \<Rightarrow> string list \<Rightarrow> quill_error + string" where
  "fallback_parts cal tz t [] = Inr []"
| "fallback_parts cal tz t (p # ps) =
     (case (if p = ''%s'' then Inr (int_to_string t) else safe_strftime cal tz p t) of
        Inl e \<Rightarrow> Inl e
      | Inr s \<Rightarrow> map_sum id ((@) s) (fallback_parts cal tz t ps))"

subsection \<open>Recalculation\<close>

text \<open>The kind of a part that is a time modifier.\<close>

definition modifier_type :: "string \<Rightarrow> format_type option" where
  "modifier_type p = map_of [(''%H'', Type_H), (''%M'', Type_M), (''%S'', Type_S), (''%I'', Type_I), (''%k'', Type_k), (''%l'', Type_l)] p"

fun populate_parts :: "calendar \<Rightarrow> string list \<Rightarrow> string_from_time \<Rightarrow> (quill_error + unit) \<times> string_from_time" where
  "populate_parts cal [] s = (Inr (), s)"
| "populate_parts cal (p # ps) s =
     (if p = ''%s'' then
        let formatted_epoch = int_to_string (sft_cached_timestamp s)
        in populate_parts cal ps (s\<lparr>sft_pre_formatted_ts := sft_pre_formatted_ts s @ formatted_epoch,
             sft_cached_indexes := sft_cached_indexes s @ [(length (sft_pre_formatted_ts s), Type_s)],
             sft_cached_epoch_seconds_width := length formatted_epoch\<rparr>)
      else case safe_strftime cal (sft_time_zone s) p (sft_cached_timestamp s) of
             Inl e \<Rightarrow> (Inl e, s)
           | Inr formatted_part \<Rightarrow>
               let pre = sft_pre_formatted_ts s @ formatted_part;
                   s1 = s\<lparr>sft_pre_formatted_ts := pre\<rparr>
               in populate_parts cal ps
                    (case modifier_type p of
                       None \<Rightarrow> s1
                     | Some ty \<Rightarrow> s1\<lparr>sft_cached_indexes := sft_cached_indexes s @ [(length pre - 2, ty)]\<rparr>))"

definition populate_pre_formatted_string_and_cached_indexes ::
  "calendar \<Rightarrow> int \<Rightarrow> string_from_time \<Rightarrow> (quill_error + unit) \<times> string_from_time" where
  "populate_pre_formatted_string_and_cached_indexes cal timestamp s =
     (case cal_tm cal (sft_time_zone s) timestamp of (tm_hour, tm_min, tm_sec) \<Rightarrow>
        let cached_seconds = of_int (tm_hour * 3600 + tm_min * 60 + tm_sec) :: u32;
            prev_hours = cached_seconds div 3600;
            total_seconds = cached_seconds - prev_hours * 3600;
            prev_minutes = total_seconds div 60
        in populate_parts cal (sft_initial_parts s)
             (s\<lparr>sft_cached_timestamp := timestamp, sft_cached_seconds := cached_seconds, sft_prev_hours := prev_hours,
                sft_prev_minutes := prev_minutes, sft_prev_seconds := total_seconds - prev_minutes * 60\<rparr>))"

text \<open>Division of \<^verbatim>\<open>time_t\<close> truncates towards zero.\<close>

definition nearest_quarter_hour_timestamp :: "int \<Rightarrow> int" where
  "nearest_quarter_hour_timestamp t = (if t \<ge> 0 then t div 900 else - (- t div 900)) * 900"

definition next_quarter_hour_timestamp :: "int \<Rightarrow> int" where
  "next_quarter_hour_timestamp t = nearest_quarter_hour_timestamp t + 900"

definition next_noon_or_midnight_timestamp :: "calendar \<Rightarrow> int \<Rightarrow> int" where
  "next_noon_or_midnight_timestamp cal t =
     (case cal_tm cal GmtTime t of (tm_hour, tm_min, tm_sec) \<Rightarrow>
        let midnight = t - (tm_hour * 3600 + tm_min * 60 + tm_sec);
            new_hour = (if tm_hour < 12 then 11 else 23)
        in midnight + (new_hour * 3600 + 59 * 60 + 59) + 1)"

definition next_recalculation :: "calendar \<Rightarrow> timezone \<Rightarrow> int \<Rightarrow> int" where
  "next_recalculation cal tz t =
     (case tz of LocalTime \<Rightarrow> next_quarter_hour_timestamp t | GmtTime \<Rightarrow> next_noon_or_midnight_timestamp cal t)"

definition recalculate :: "calendar \<Rightarrow> int \<Rightarrow> string_from_time \<Rightarrow> (quill_error + unit) \<times> string_from_time" where
  "recalculate cal t s =
     (case populate_pre_formatted_string_and_cached_indexes cal t (s\<lparr>sft_pre_formatted_ts := '''', sft_cached_indexes := []\<rparr>) of
        (Inl e, s1) \<Rightarrow> (Inl e, s1)
      | (Inr _, s1) \<Rightarrow> (Inr (), s1\<lparr>sft_next_recalculation_timestamp := next_recalculation cal (sft_time_zone s1) t\<rparr>))"

subsection \<open>Overwriting what has changed\<close>

definition pad2 :: "char \<Rightarrow> nat \<Rightarrow> string" where
  "pad2 c n = (if n < 10 then c # to_string n else to_string n)"

definition hour12 :: "nat \<Rightarrow> nat" where
  "hour12 h = (if h = 0 then 12 else if h > 12 then h - 12 else h)"

definition refresh_index :: "bool \<Rightarrow> bool \<Rightarrow> bool \<Rightarrow> u32 \<Rightarrow> u32 \<Rightarrow> u32 \<Rightarrow> int \<Rightarrow> nat \<times> format_type \<Rightarrow> string \<Rightarrow> string" where
  "refresh_index hours_changed minutes_changed seconds_changed hours minutes seconds timestamp index s =
     (case index of (i, ty) \<Rightarrow>
        (case ty of
           Type_H \<Rightarrow> if hours_changed then splice i (pad2 CHR ''0'' (unat hours)) s else s
         | Type_M \<Rightarrow> if minutes_changed then splice i (pad2 CHR ''0'' (unat minutes)) s else s
         | Type_S \<Rightarrow> if seconds_changed then splice i (pad2 CHR ''0'' (unat seconds)) s else s
         | Type_I \<Rightarrow> if hours_changed then splice i (pad2 CHR ''0'' (hour12 (unat hours))) s else s
         | Type_l \<Rightarrow> if hours_changed then splice i (pad2 CHR '' '' (hour12 (unat hours))) s else s
         | Type_k \<Rightarrow> if hours_changed then splice i (pad2 CHR '' '' (unat hours)) s else s
         | Type_s \<Rightarrow> splice i (int_to_string timestamp) s))"

definition refresh :: "int \<Rightarrow> string_from_time \<Rightarrow> string_from_time" where
  "refresh timestamp s =
     (let hours = sft_cached_seconds s div 3600;
          total_seconds = sft_cached_seconds s - hours * 3600;
          minutes = total_seconds div 60;
          seconds = total_seconds - minutes * 60
      in s\<lparr>sft_prev_hours := hours, sft_prev_minutes := minutes, sft_prev_seconds := seconds,
           sft_pre_formatted_ts := fold (refresh_index (hours \<noteq> sft_prev_hours s) (minutes \<noteq> sft_prev_minutes s)
             (seconds \<noteq> sft_prev_seconds s) hours minutes seconds timestamp) (sft_cached_indexes s) (sft_pre_formatted_ts s)\<rparr>)"

partial_function (option) format_timestamp ::
  "calendar \<Rightarrow> int \<Rightarrow> string_from_time \<Rightarrow> ((quill_error + string) \<times> string_from_time) option" where
  "format_timestamp cal timestamp s =
     (if timestamp < sft_cached_timestamp s
      then Some (fallback_parts cal (sft_time_zone s) timestamp (sft_initial_parts s), s)
      else case (if timestamp \<ge> sft_next_recalculation_timestamp s then recalculate cal timestamp s else (Inr (), s)) of
        (Inl e, s1) \<Rightarrow> Some (Inl e, s1)
      | (Inr _, s1) \<Rightarrow>
          if sft_cached_indexes s1 = [] \<or> sft_cached_timestamp s1 = timestamp then Some (Inr (sft_pre_formatted_ts s1), s1)
          else let s2 = s1\<lparr>sft_cached_timestamp := timestamp\<rparr>
               in if sft_cached_epoch_seconds_width s2 \<noteq> 0 \<and> decimal_width timestamp \<noteq> sft_cached_epoch_seconds_width s2
                  then format_timestamp cal timestamp (s2\<lparr>sft_next_recalculation_timestamp := 0\<rparr>)
                  else let s3 = s2\<lparr>sft_cached_seconds := sft_cached_seconds s2 + of_int (timestamp - sft_cached_timestamp s1)\<rparr>
                       in if sft_cached_seconds s3 \<ge> 86400
                          then format_timestamp cal timestamp (s3\<lparr>sft_next_recalculation_timestamp := 0\<rparr>)
                          else let s4 = refresh timestamp s3 in Some (Inr (sft_pre_formatted_ts s4), s4))"

declare format_timestamp.simps [code]

subsection \<open>The C library's side\<close>

text \<open>Seconds since midnight, and what the modifiers expand to.\<close>

definition time_of_day :: "calendar \<Rightarrow> timezone \<Rightarrow> int \<Rightarrow> int" where
  "time_of_day cal tz t = (case cal_tm cal tz t of (h, m, s) \<Rightarrow> h * 3600 + m * 60 + s)"

definition modifier_text :: "format_type \<Rightarrow> nat \<Rightarrow> string" where
  "modifier_text ty n =
     (case ty of
        Type_H \<Rightarrow> pad2 CHR ''0'' (n div 3600)
      | Type_M \<Rightarrow> pad2 CHR ''0'' (n mod 3600 div 60)
      | Type_S \<Rightarrow> pad2 CHR ''0'' (n mod 60)
      | Type_I \<Rightarrow> pad2 CHR ''0'' (hour12 (n div 3600))
      | Type_k \<Rightarrow> pad2 CHR '' '' (n div 3600)
      | Type_l \<Rightarrow> pad2 CHR '' '' (hour12 (n div 3600))
      | Type_s \<Rightarrow> [])"

text \<open>
  A clock ticks evenly between two recalculations: true of GMT, and of every time zone whose
  offset is a multiple of fifteen minutes and changes only on such a boundary.
\<close>

definition calendar_ok :: "calendar \<Rightarrow> timezone \<Rightarrow> bool" where
  "calendar_ok cal tz \<longleftrightarrow> (\<forall>t. 0 \<le> time_of_day cal tz t \<and> time_of_day cal tz t < 86400)
     \<and> (\<forall>t. 0 \<le> t \<longrightarrow> t < next_recalculation cal tz t)
     \<and> (\<forall>t t'. 0 \<le> t \<longrightarrow> t \<le> t' \<longrightarrow> t' < next_recalculation cal tz t \<longrightarrow> time_of_day cal tz t' = time_of_day cal tz t + (t' - t))
     \<and> (\<forall>p ty t. modifier_type p = Some ty \<longrightarrow> cal_strftime cal tz p t = modifier_text ty (nat (time_of_day cal tz t)))"

text \<open>A part without a time modifier: literal text, the date, AM or PM, the zone.\<close>

definition steady_part :: "calendar \<Rightarrow> timezone \<Rightarrow> string \<Rightarrow> bool" where
  "steady_part cal tz p \<longleftrightarrow> p \<noteq> [] \<and> (\<forall>t. length (cal_strftime cal tz p t) + 2 \<le> max_buffer_size)
     \<and> (\<forall>t t'. 0 \<le> t \<longrightarrow> t \<le> t' \<longrightarrow> t' < next_recalculation cal tz t \<longrightarrow> cal_strftime cal tz p t' = cal_strftime cal tz p t)"

definition part_text :: "calendar \<Rightarrow> timezone \<Rightarrow> int \<Rightarrow> string \<Rightarrow> string" where
  "part_text cal tz t p = (if p = ''%s'' then int_to_string t else cal_strftime cal tz p t)"

definition strftime_text :: "calendar \<Rightarrow> timezone \<Rightarrow> string list \<Rightarrow> int \<Rightarrow> string" where
  "strftime_text cal tz ps t = concat (map (part_text cal tz t) ps)"

lemma length_pad2 [simp]: "n < 100 \<Longrightarrow> length (pad2 c n) = 2"
proof (cases "n < 10")
  case True
  then have "to_string n = [char_of (48 + n)]" by (subst to_string.simps) simp
  with True show ?thesis by (simp add: pad2_def)
next
  case False
  assume "n < 100"
  then have "n div 10 < 10" by simp
  then have "to_string (n div 10) = [char_of (48 + n div 10)]" by (subst to_string.simps) simp
  with False show ?thesis by (subst pad2_def, subst to_string.simps) simp
qed

lemma hour12_small: "h < 24 \<Longrightarrow> hour12 h < 100"
  by (auto simp: hour12_def)

lemma length_modifier_text:
  assumes "n < 86400" "ty \<noteq> Type_s"
  shows "length (modifier_text ty n) = 2"
proof -
  have "n div 3600 < 24" "n mod 3600 div 60 < 60" "n mod 60 < 60" using assms(1) by auto
  with assms(2) hour12_small [of "n div 3600"] show ?thesis by (cases ty) (simp_all add: modifier_text_def)
qed

lemma modifier_type_not_s: "modifier_type p = Some ty \<Longrightarrow> ty \<noteq> Type_s \<and> p \<noteq> ''%s'' \<and> p \<noteq> []"
  by (auto simp: modifier_type_def split: if_splits)

lemma grow_buffer_ok:
  assumes "needed \<le> max_buffer_size"
  shows "grow_buffer needed 32"
  using assms by (simp add: grow_buffer.simps max_buffer_size_def)

subsection \<open>The cached text is the text of the current second\<close>

text \<open>Where the dynamic parts of a text start, and of which kind they are.\<close>

fun part_layout :: "calendar \<Rightarrow> timezone \<Rightarrow> int \<Rightarrow> nat \<Rightarrow> string list \<Rightarrow> (nat \<times> format_type) list" where
  "part_layout cal tz t off [] = []"
| "part_layout cal tz t off (p # ps) =
     (if p = ''%s'' then [(off, Type_s)] else case modifier_type p of None \<Rightarrow> [] | Some ty \<Rightarrow> [(off, ty)])
       @ part_layout cal tz t (off + length (part_text cal tz t p)) ps"

definition part_ok :: "calendar \<Rightarrow> timezone \<Rightarrow> string \<Rightarrow> bool" where
  "part_ok cal tz p \<longleftrightarrow> p = ''%s'' \<or> modifier_type p \<noteq> None \<or> steady_part cal tz p"

definition epoch_width :: "string list \<Rightarrow> int \<Rightarrow> nat \<Rightarrow> nat" where
  "epoch_width ps t w = (if ''%s'' \<in> set ps then decimal_width t else w)"

lemma splice_at [simp]: "length new = length old \<Longrightarrow> splice (length pre) new (pre @ old @ post) = pre @ new @ post"
  by (simp add: splice_def)

lemma time_of_day_bounds:
  assumes "calendar_ok cal tz"
  shows "0 \<le> time_of_day cal tz t" "time_of_day cal tz t < 86400" "nat (time_of_day cal tz t) < 86400"
proof -
  have "0 \<le> time_of_day cal tz t \<and> time_of_day cal tz t < 86400" using assms by (auto simp: calendar_ok_def)
  then show "0 \<le> time_of_day cal tz t" "time_of_day cal tz t < 86400" "nat (time_of_day cal tz t) < 86400" by auto
qed

lemma modifier_expansion:
  assumes "calendar_ok cal tz" "modifier_type p = Some ty"
  shows "cal_strftime cal tz p t = modifier_text ty (nat (time_of_day cal tz t))"
  using assms by (auto simp: calendar_ok_def)

lemma part_text_modifier:
  assumes "calendar_ok cal tz" "modifier_type p = Some ty"
  shows "part_text cal tz t p = modifier_text ty (nat (time_of_day cal tz t))" "length (part_text cal tz t p) = 2"
  using assms modifier_expansion [OF assms] modifier_type_not_s [of p ty] time_of_day_bounds(3) [OF assms(1)]
  by (auto simp: part_text_def length_modifier_text)

lemma safe_strftime_part:
  assumes "calendar_ok cal tz" "part_ok cal tz p" "p \<noteq> ''%s''"
  shows "safe_strftime cal tz p t = Inr (part_text cal tz t p)"
proof -
  have "p \<noteq> [] \<and> length (cal_strftime cal tz p t) + 2 \<le> max_buffer_size"
  proof (cases "modifier_type p")
    case None
    with assms show ?thesis by (auto simp: part_ok_def steady_part_def)
  next
    case (Some ty)
    with assms part_text_modifier(2) [of cal tz p ty t] modifier_type_not_s [of p ty] show ?thesis
      by (auto simp: part_text_def max_buffer_size_def)
  qed
  with assms(3) show ?thesis by (auto simp: safe_strftime_def Let_def part_text_def grow_buffer_ok)
qed

lemma fallback_parts_text:
  assumes "calendar_ok cal tz" "\<forall>p \<in> set ps. part_ok cal tz p"
  shows "fallback_parts cal tz t ps = Inr (strftime_text cal tz ps t)"
  using assms(2)
proof (induction ps)
  case (Cons p ps)
  then show ?case
    using safe_strftime_part [OF assms(1), of p t] by (cases "p = ''%s''") (auto simp: strftime_text_def part_text_def)
qed (simp add: strftime_text_def)

lemma populate_parts_text:
  assumes "calendar_ok cal tz" "\<forall>p \<in> set ps. part_ok cal tz p" "sft_time_zone s = tz" "sft_cached_timestamp s = t"
  shows "populate_parts cal ps s = (Inr (), s\<lparr>sft_pre_formatted_ts := sft_pre_formatted_ts s @ strftime_text cal tz ps t,
     sft_cached_indexes := sft_cached_indexes s @ part_layout cal tz t (length (sft_pre_formatted_ts s)) ps,
     sft_cached_epoch_seconds_width := epoch_width ps t (sft_cached_epoch_seconds_width s)\<rparr>)"
  using assms(2-)
proof (induction ps arbitrary: s)
  case (Cons p ps)
  show ?case
  proof (cases "p = ''%s''")
    case True
    with Cons show ?thesis
      by (simp add: Let_def Cons.IH strftime_text_def part_text_def epoch_width_def decimal_width_def)
  next
    case False
    with Cons.prems safe_strftime_part [OF assms(1), of p t] have st: "safe_strftime cal tz p t = Inr (part_text cal tz t p)"
      by simp
    show ?thesis
    proof (cases "modifier_type p")
      case None
      with False st Cons show ?thesis by (simp add: Let_def strftime_text_def epoch_width_def)
    next
      case (Some ty)
      with False st Cons part_text_modifier(2) [OF assms(1) Some, of t] show ?thesis
        by (simp add: Let_def strftime_text_def epoch_width_def)
    qed
  qed
qed (simp add: strftime_text_def epoch_width_def)

text \<open>Hours, minutes and seconds of the cached seconds.\<close>

lemma clock_fields:
  assumes "n < 86400"
  defines "w \<equiv> of_nat n :: u32"
  shows "unat (w div 3600) = n div 3600"
    and "unat ((w - w div 3600 * 3600) div 60) = n mod 3600 div 60"
    and "unat (w - w div 3600 * 3600 - (w - w div 3600 * 3600) div 60 * 60) = n mod 60"
proof -
  have w: "unat w = n" using assms by (simp add: unat_of_nat_small)
  have h: "unat (w div 3600) = n div 3600" by (simp add: unat_div w)
  have "w - w div 3600 * 3600 = w mod 3600" by (simp add: minus_div_mult_eq_mod)
  moreover have m: "unat (w mod 3600) = n mod 3600" by (simp add: unat_mod w)
  moreover have "w mod 3600 - (w mod 3600) div 60 * 60 = w mod 3600 mod 60" by (simp add: minus_div_mult_eq_mod)
  moreover have "n mod 3600 mod 60 = n mod 60" by (simp add: mod_mod_cancel)
  ultimately show "unat (w div 3600) = n div 3600"
    "unat ((w - w div 3600 * 3600) div 60) = n mod 3600 div 60"
    "unat (w - w div 3600 * 3600 - (w - w div 3600 * 3600) div 60 * 60) = n mod 60"
    using h by (simp_all add: unat_div unat_mod)
qed

definition clock_hours :: "u32 \<Rightarrow> u32" where
  "clock_hours w = w div 3600"

definition clock_minutes :: "u32 \<Rightarrow> u32" where
  "clock_minutes w = (w - w div 3600 * 3600) div 60"

definition clock_seconds :: "u32 \<Rightarrow> u32" where
  "clock_seconds w = w - w div 3600 * 3600 - (w - w div 3600 * 3600) div 60 * 60"

lemmas clock_defs = clock_hours_def clock_minutes_def clock_seconds_def

lemma clock_of_nat:
  assumes "n < 86400"
  shows "unat (clock_hours (of_nat n)) = n div 3600" "unat (clock_minutes (of_nat n)) = n mod 3600 div 60"
    "unat (clock_seconds (of_nat n)) = n mod 60"
  using clock_fields [OF assms] by (simp_all add: clock_defs)

definition clock_refresh :: "u32 \<Rightarrow> u32 \<Rightarrow> int \<Rightarrow> nat \<times> format_type \<Rightarrow> string \<Rightarrow> string" where
  "clock_refresh old new t = refresh_index (clock_hours new \<noteq> clock_hours old) (clock_minutes new \<noteq> clock_minutes old)
     (clock_seconds new \<noteq> clock_seconds old) (clock_hours new) (clock_minutes new) (clock_seconds new) t"

lemma refresh_clock:
  assumes "sft_prev_hours s = clock_hours old" "sft_prev_minutes s = clock_minutes old" "sft_prev_seconds s = clock_seconds old"
  shows "refresh t s = s\<lparr>sft_prev_hours := clock_hours (sft_cached_seconds s), sft_prev_minutes := clock_minutes (sft_cached_seconds s),
     sft_prev_seconds := clock_seconds (sft_cached_seconds s),
     sft_pre_formatted_ts := fold (clock_refresh old (sft_cached_seconds s) t) (sft_cached_indexes s) (sft_pre_formatted_ts s)\<rparr>"
  using assms by (simp add: refresh_def clock_refresh_def clock_defs Let_def)

lemma refresh_modifier:
  assumes "n < 86400" "n' < 86400" "ty \<noteq> Type_s"
  shows "clock_refresh (of_nat n) (of_nat n') t (length pre, ty) (pre @ modifier_text ty n @ post) = pre @ modifier_text ty n' @ post"
proof -
  let ?w = "of_nat n :: u32" and ?w' = "of_nat n' :: u32"
  have eqs: "clock_hours ?w' = clock_hours ?w \<Longrightarrow> n' div 3600 = n div 3600"
    "clock_minutes ?w' = clock_minutes ?w \<Longrightarrow> n' mod 3600 div 60 = n mod 3600 div 60"
    "clock_seconds ?w' = clock_seconds ?w \<Longrightarrow> n' mod 60 = n mod 60"
    using clock_of_nat [OF assms(1)] clock_of_nat [OF assms(2)] by metis+
  have sp: "splice (length pre) (modifier_text ty n') (pre @ modifier_text ty n @ post) = pre @ modifier_text ty n' @ post"
    by (rule splice_at) (simp add: length_modifier_text assms)
  have "clock_refresh ?w ?w' t (length pre, ty) s = splice (length pre) (modifier_text ty n') s
      \<or> clock_refresh ?w ?w' t (length pre, ty) s = s \<and> modifier_text ty n' = modifier_text ty n" for s
    using assms(3) eqs by (cases ty) (simp_all add: clock_refresh_def refresh_index_def modifier_text_def clock_of_nat [OF assms(2)])
  with sp show ?thesis by metis
qed

text \<open>
  One run over the indexes turns the text of \<open>t\<close> into the text of \<open>t'\<close>, provided the literal parts
  have not changed and the epoch value has kept its width.
\<close>

lemma refresh_layout:
  assumes ok: "calendar_ok cal tz" "\<forall>p \<in> set ps. part_ok cal tz p"
    and same: "\<forall>p \<in> set ps. steady_part cal tz p \<longrightarrow> cal_strftime cal tz p t' = cal_strftime cal tz p t"
    and width: "''%s'' \<in> set ps \<Longrightarrow> decimal_width t' = decimal_width t"
  defines "n \<equiv> nat (time_of_day cal tz t)" and "n' \<equiv> nat (time_of_day cal tz t')"
  shows "fold (clock_refresh (of_nat n) (of_nat n') t') (part_layout cal tz t (length pre) ps) (pre @ strftime_text cal tz ps t @ post)
      = pre @ strftime_text cal tz ps t' @ post
    \<and> part_layout cal tz t' (length pre) ps = part_layout cal tz t (length pre) ps"
  using assms(2-4)
proof (induction ps arbitrary: pre)
  case (Cons p ps)
  have n: "n < 86400" "n' < 86400" using time_of_day_bounds [OF ok(1)] by (simp_all add: n_def n'_def)
  have step: "fold (clock_refresh (of_nat n) (of_nat n') t')
        (if p = ''%s'' then [(length pre, Type_s)] else case modifier_type p of None \<Rightarrow> [] | Some ty \<Rightarrow> [(length pre, ty)])
        (pre @ part_text cal tz t p @ rest) = pre @ part_text cal tz t' p @ rest
      \<and> length (part_text cal tz t' p) = length (part_text cal tz t p)" for rest
  proof (cases "p = ''%s''")
    case True
    then have "length (int_to_string t') = length (int_to_string t)" using Cons.prems(3) by (simp add: decimal_width_def)
    then show ?thesis using True splice_at [of "int_to_string t'" "int_to_string t" pre rest]
      by (simp add: part_text_def clock_refresh_def refresh_index_def)
  next
    case False
    show ?thesis
    proof (cases "modifier_type p")
      case None
      with False Cons.prems show ?thesis by (simp add: part_ok_def part_text_def)
    next
      case (Some ty)
      then show ?thesis
        using False n modifier_type_not_s [OF Some] refresh_modifier [of n n' ty t' pre rest] part_text_modifier [OF ok(1) Some]
        by (simp add: n_def n'_def)
    qed
  qed
  have "fold (clock_refresh (of_nat n) (of_nat n') t') (part_layout cal tz t (length (pre @ part_text cal tz t' p)) ps)
        ((pre @ part_text cal tz t' p) @ strftime_text cal tz ps t @ post)
      = (pre @ part_text cal tz t' p) @ strftime_text cal tz ps t' @ post
    \<and> part_layout cal tz t' (length (pre @ part_text cal tz t' p)) ps = part_layout cal tz t (length (pre @ part_text cal tz t' p)) ps"
    using Cons.prems by (intro Cons.IH) auto
  with step [of "strftime_text cal tz ps t @ post"] show ?case by (simp add: strftime_text_def)
qed (simp add: strftime_text_def)

subsection \<open>The invariant of the cache\<close>

definition sft_live :: "calendar \<Rightarrow> timezone \<Rightarrow> string list \<Rightarrow> int \<Rightarrow> string_from_time \<Rightarrow> bool" where
  "sft_live cal tz ps t s \<longleftrightarrow> sft_cached_timestamp s = t
     \<and> sft_pre_formatted_ts s = strftime_text cal tz ps t
     \<and> sft_cached_indexes s = part_layout cal tz t 0 ps
     \<and> sft_cached_seconds s = of_nat (nat (time_of_day cal tz t))
     \<and> sft_prev_hours s = clock_hours (sft_cached_seconds s)
     \<and> sft_prev_minutes s = clock_minutes (sft_cached_seconds s)
     \<and> sft_prev_seconds s = clock_seconds (sft_cached_seconds s)
     \<and> sft_cached_epoch_seconds_width s = epoch_width ps t 0
     \<and> (\<exists>t0. 0 \<le> t0 \<and> t0 \<le> t \<and> t < next_recalculation cal tz t0
           \<and> sft_next_recalculation_timestamp s = next_recalculation cal tz t0)"

definition sft_parts :: "timezone \<Rightarrow> string list \<Rightarrow> string_from_time \<Rightarrow> bool" where
  "sft_parts tz ps s \<longleftrightarrow> sft_time_zone s = tz \<and> sft_initial_parts s = ps
     \<and> (''%s'' \<in> set ps \<or> sft_cached_epoch_seconds_width s = 0)"

definition sft_inv :: "calendar \<Rightarrow> timezone \<Rightarrow> string list \<Rightarrow> string_from_time \<Rightarrow> bool" where
  "sft_inv cal tz ps s \<longleftrightarrow> sft_parts tz ps s \<and>
     (sft_cached_timestamp s = 0 \<and> sft_next_recalculation_timestamp s = 0 \<or> (\<exists>t. sft_live cal tz ps t s))"

lemma recalculate_live:
  assumes ok: "calendar_ok cal tz" "\<forall>p \<in> set ps. part_ok cal tz p" and s: "sft_parts tz ps s" and t: "0 \<le> t"
  shows "\<exists>s1. recalculate cal t s = (Inr (), s1) \<and> sft_live cal tz ps t s1 \<and> sft_parts tz ps s1"
proof -
  obtain h m x where tm: "cal_tm cal tz t = (h, m, x)" by (cases "cal_tm cal tz t") auto
  then have "time_of_day cal tz t = h * 3600 + m * 60 + x" by (simp add: time_of_day_def)
  then have w: "(of_int (h * 3600 + m * 60 + x) :: u32) = of_nat (nat (time_of_day cal tz t))"
    using time_of_day_bounds(1) [OF ok(1), of t] by (metis int_nat_eq of_int_of_nat_eq)
  have lt: "t < next_recalculation cal tz t" using ok(1) t by (simp add: calendar_ok_def)
  have "populate_parts cal ps s' = (Inr (), s'\<lparr>sft_pre_formatted_ts := strftime_text cal tz ps t,
      sft_cached_indexes := part_layout cal tz t 0 ps, sft_cached_epoch_seconds_width := epoch_width ps t (sft_cached_epoch_seconds_width s)\<rparr>)"
    if "sft_time_zone s' = tz" "sft_cached_timestamp s' = t" "sft_pre_formatted_ts s' = []" "sft_cached_indexes s' = []"
      "sft_cached_epoch_seconds_width s' = sft_cached_epoch_seconds_width s" for s'
    using populate_parts_text [OF ok that(1,2)] that by simp
  with s tm w lt t show ?thesis
    by (auto simp: recalculate_def populate_pre_formatted_string_and_cached_indexes_def Let_def sft_live_def sft_parts_def
        clock_defs epoch_width_def intro!: exI [of _ t])
qed

lemma format_recalculated:
  assumes ok: "calendar_ok cal tz" "\<forall>p \<in> set ps. part_ok cal tz p" and s: "sft_parts tz ps s" and t: "0 \<le> t"
    and "sft_cached_timestamp s \<le> t" "sft_next_recalculation_timestamp s \<le> t"
  shows "\<exists>s1. format_timestamp cal t s = Some (Inr (strftime_text cal tz ps t), s1) \<and> sft_inv cal tz ps s1"
proof -
  obtain s1 where s1: "recalculate cal t s = (Inr (), s1)" "sft_live cal tz ps t s1" "sft_parts tz ps s1"
    using recalculate_live [OF ok s t] by blast
  then have "sft_cached_timestamp s1 = t" "sft_pre_formatted_ts s1 = strftime_text cal tz ps t" by (auto simp: sft_live_def)
  with assms(5,6) s1(1) have "format_timestamp cal t s = Some (Inr (strftime_text cal tz ps t), s1)"
    by (subst format_timestamp.simps) simp
  with s1 show ?thesis by (auto simp: sft_inv_def)
qed

lemma same_window:
  assumes ok: "calendar_ok cal tz" "\<forall>p \<in> set ps. part_ok cal tz p"
    and w: "0 \<le> t0" "t0 \<le> t" "t \<le> t'" "t' < next_recalculation cal tz t0"
  shows "time_of_day cal tz t' = time_of_day cal tz t + (t' - t)"
    "\<forall>p \<in> set ps. steady_part cal tz p \<longrightarrow> cal_strftime cal tz p t' = cal_strftime cal tz p t"
proof -
  have "time_of_day cal tz u = time_of_day cal tz t0 + (u - t0)" if "t0 \<le> u" "u < next_recalculation cal tz t0" for u
    using ok(1) w(1) that unfolding calendar_ok_def by blast
  from this [of t] this [of t'] w show "time_of_day cal tz t' = time_of_day cal tz t + (t' - t)" by simp
  have steady: "cal_strftime cal tz p u = cal_strftime cal tz p t0"
    if sp: "steady_part cal tz p" and u: "t0 \<le> u" "u < next_recalculation cal tz t0" for p u
  proof -
    have "\<forall>t t'. 0 \<le> t \<longrightarrow> t \<le> t' \<longrightarrow> t' < next_recalculation cal tz t \<longrightarrow> cal_strftime cal tz p t' = cal_strftime cal tz p t"
      using sp unfolding steady_part_def by (elim conjE)
    then show ?thesis using w(1) u by (elim allE [of _ t0] allE [of _ u] impE)
  qed
  show "\<forall>p \<in> set ps. steady_part cal tz p \<longrightarrow> cal_strftime cal tz p t' = cal_strftime cal tz p t"
  proof (intro ballI impI)
    fix p assume "steady_part cal tz p"
    then have "cal_strftime cal tz p t = cal_strftime cal tz p t0" "cal_strftime cal tz p t' = cal_strftime cal tz p t0"
      using w by (intro steady; simp)+
    then show "cal_strftime cal tz p t' = cal_strftime cal tz p t" by simp
  qed
qed

lemma epoch_in_layout: "''%s'' \<in> set ps \<Longrightarrow> part_layout cal tz t off ps \<noteq> []"
  by (induction ps arbitrary: off) auto

lemma format_refreshed:
  assumes ok: "calendar_ok cal tz" "\<forall>p \<in> set ps. part_ok cal tz p" and s: "sft_parts tz ps s" "sft_live cal tz ps u s"
    and t: "0 \<le> t" "u \<le> t" "t < sft_next_recalculation_timestamp s"
  shows "\<exists>s1. format_timestamp cal t s = Some (Inr (strftime_text cal tz ps t), s1) \<and> sft_inv cal tz ps s1"
proof -
  from s(2) obtain t0 where t0: "0 \<le> t0" "t0 \<le> u" "u < next_recalculation cal tz t0"
    "sft_next_recalculation_timestamp s = next_recalculation cal tz t0" by (auto simp: sft_live_def)
  note win = same_window [OF ok t0(1,2) t(2) t(3) [unfolded t0(4)]]
  have tod: "nat (time_of_day cal tz t) = nat (time_of_day cal tz u) + nat (t - u)"
    using win(1) t(2) time_of_day_bounds(1) [OF ok(1), of u] by simp
  have cached: "sft_cached_timestamp s = u" "sft_pre_formatted_ts s = strftime_text cal tz ps u"
    "sft_cached_indexes s = part_layout cal tz u 0 ps" using s(2) by (auto simp: sft_live_def)
  note refreshed = refresh_layout [OF ok win(2), of "[]" "[]", simplified]
  consider (no_dynamic) "sft_cached_indexes s = []" | (same) "t = u" "sft_cached_indexes s \<noteq> []"
    | (wider) "t \<noteq> u" "sft_cached_indexes s \<noteq> []" "sft_cached_epoch_seconds_width s \<noteq> 0" "decimal_width t \<noteq> sft_cached_epoch_seconds_width s"
    | (refresh) "t \<noteq> u" "sft_cached_indexes s \<noteq> []" "sft_cached_epoch_seconds_width s = 0 \<or> decimal_width t = sft_cached_epoch_seconds_width s"
    by metis
  then show ?thesis
  proof cases
    case no_dynamic
    with cached epoch_in_layout [of ps cal tz u 0] refreshed have "strftime_text cal tz ps t = strftime_text cal tz ps u"
      by (metis fold_Nil id_apply)
    with no_dynamic cached t s show ?thesis by (subst format_timestamp.simps) (auto simp: sft_inv_def)
  next
    case same
    with cached t s show ?thesis by (subst format_timestamp.simps) (auto simp: sft_inv_def)
  next
    case wider
    let ?s = "s\<lparr>sft_cached_timestamp := t, sft_next_recalculation_timestamp := 0\<rparr>"
    have "format_timestamp cal t s = format_timestamp cal t ?s"
      using wider cached t by (subst format_timestamp.simps) (simp add: Let_def)
    moreover have "sft_parts tz ps ?s" using s(1) by (simp add: sft_parts_def)
    ultimately show ?thesis using format_recalculated [OF ok, of ?s t] t(1) by auto
  next
    case refresh
    have w: "''%s'' \<in> set ps \<Longrightarrow> decimal_width t = decimal_width u"
      using refresh(3) s(2) by (auto simp: sft_live_def epoch_width_def decimal_width_def int_to_string_def)
    let ?w = "of_nat (nat (time_of_day cal tz t)) :: u32"
    have secs: "sft_cached_seconds s + of_int (t - u) = ?w"
    proof -
      have "(of_int (t - u) :: u32) = of_nat (nat (t - u))" using t(2) by (simp add: of_nat_nat)
      with s(2) show ?thesis by (simp only: sft_live_def tod of_nat_add)
    qed
    have small: "?w < 86400"
      using time_of_day_bounds(3) [OF ok(1), of t] by (simp add: word_less_nat_alt unat_of_nat_small)
    let ?s = "s\<lparr>sft_cached_timestamp := t, sft_cached_seconds := ?w\<rparr>"
    have "format_timestamp cal t s = Some (Inr (sft_pre_formatted_ts (refresh t ?s)), refresh t ?s)"
      using refresh cached t secs small by (subst format_timestamp.simps) (auto simp: Let_def)
    moreover have "refresh t ?s = ?s\<lparr>sft_prev_hours := clock_hours ?w, sft_prev_minutes := clock_minutes ?w, sft_prev_seconds := clock_seconds ?w,
        sft_pre_formatted_ts := strftime_text cal tz ps t\<rparr>"
      using refresh_clock [of ?s "sft_cached_seconds s" t] s(2) refreshed w cached by (simp add: sft_live_def)
    moreover have "epoch_width ps u 0 = epoch_width ps t 0" using w by (auto simp: epoch_width_def)
    ultimately show ?thesis
      using s t t0 refreshed w cached by (auto simp: sft_inv_def sft_live_def sft_parts_def)
  qed
qed

subsection \<open>Every text is put together from what \<^verbatim>\<open>strftime\<close> gives for the parts\<close>

fun format_timestamps :: "calendar \<Rightarrow> int list \<Rightarrow> string_from_time \<Rightarrow> string list option" where
  "format_timestamps cal [] s = Some []"
| "format_timestamps cal (t # ts) s =
     (case format_timestamp cal t s of
        Some (Inr x, s1) \<Rightarrow> map_option ((#) x) (format_timestamps cal ts s1)
      | _ \<Rightarrow> None)"

lemma format_step:
  assumes ok: "calendar_ok cal tz" "\<forall>p \<in> set ps. part_ok cal tz p" and s: "sft_inv cal tz ps s" and t: "0 \<le> t"
  shows "\<exists>s1. format_timestamp cal t s = Some (Inr (strftime_text cal tz ps t), s1) \<and> sft_inv cal tz ps s1"
proof (cases "t < sft_cached_timestamp s")
  case True
  have "sft_time_zone s = tz" "sft_initial_parts s = ps" using s by (auto simp: sft_inv_def sft_parts_def)
  then have "format_timestamp cal t s = Some (Inr (strftime_text cal tz ps t), s)"
    using True by (subst format_timestamp.simps) (simp add: fallback_parts_text [OF ok])
  with s show ?thesis by blast
next
  case False
  show ?thesis
  proof (cases "sft_next_recalculation_timestamp s \<le> t")
    case True
    with False s t show ?thesis by (intro format_recalculated [OF ok]) (auto simp: sft_inv_def)
  next
    case later: False
    with s t obtain u where u: "sft_live cal tz ps u s" by (auto simp: sft_inv_def)
    moreover from this have "u = sft_cached_timestamp s" by (simp add: sft_live_def)
    moreover have "sft_parts tz ps s" using s by (simp add: sft_inv_def)
    ultimately show ?thesis using False later t by (intro format_refreshed [OF ok, of s u]) simp_all
  qed
qed

lemma format_timestamps_text:
  assumes ok: "calendar_ok cal tz" "\<forall>p \<in> set ps. part_ok cal tz p" and "sft_inv cal tz ps s" "\<forall>t \<in> set ts. 0 \<le> t"
  shows "format_timestamps cal ts s = Some (map (strftime_text cal tz ps) ts)"
  using assms(3-)
proof (induction ts arbitrary: s)
  case (Cons t ts)
  then show ?case using format_step [OF ok Cons.prems(1), of t] by auto
qed simp

lemma sft_init_inv:
  assumes "sft_init fmt tz sft_default = Inr s"
  shows "sft_inv cal tz (sft_initial_parts s) s"
  using assms by (auto simp: sft_init_def sft_inv_def sft_parts_def sft_default_def Let_def split: if_splits)

text \<open>GMT, with every other directive left as it is.\<close>

definition gmt_calendar :: calendar where
  "gmt_calendar = \<lparr>cal_tm = (\<lambda>tz t. (t mod 86400 div 3600, t mod 3600 div 60, t mod 60)),
     cal_strftime = (\<lambda>tz p t. case modifier_type p of None \<Rightarrow> p | Some ty \<Rightarrow> modifier_text ty (nat (t mod 86400)))\<rparr>"

lemma gmt_time_of_day: "time_of_day gmt_calendar tz t = t mod 86400"
proof -
  have a: "t mod 86400 div 3600 * 3600 + t mod 3600 = t mod 86400"
    using div_mult_mod_eq [of "t mod 86400" 3600] by (subst (asm) mod_mod_cancel) simp_all
  have b: "t mod 3600 div 60 * 60 + t mod 60 = t mod 3600"
    using div_mult_mod_eq [of "t mod 3600" 60] by (simp add: mod_mod_cancel)
  show ?thesis by (simp only: time_of_day_def gmt_calendar_def calendar.simps prod.case add.assoc a b)
qed

lemma before_noon: "(x div 3600 < 12) = (x < 43200)" for x :: int
proof -
  obtain q r where "x div 3600 = q" "x mod 3600 = r" by simp
  then have "x = q * 3600 + r" "0 \<le> r" "r < 3600" using div_mult_mod_eq [of x 3600] by auto
  with \<open>x div 3600 = q\<close> show ?thesis by auto
qed

lemma gmt_next_recalculation:
  "next_recalculation gmt_calendar GmtTime t = t - t mod 86400 + (if t mod 86400 < 43200 then 43200 else 86400)"
proof -
  obtain h m x where tm: "cal_tm gmt_calendar GmtTime t = (h, m, x)" by (cases "cal_tm gmt_calendar GmtTime t") auto
  then have h: "h = t mod 86400 div 3600" by (simp only: gmt_calendar_def calendar.simps prod.inject)
  have "h * 3600 + m * 60 + x = t mod 86400"
    using gmt_time_of_day [of GmtTime t] by (simp only: time_of_day_def tm prod.case)
  then show ?thesis
    using before_noon [of "t mod 86400"]
    by (simp only: next_recalculation_def next_noon_or_midnight_timestamp_def Let_def tm prod.case timezone.case h [symmetric]) auto
qed

lemma gmt_even: "t \<le> t' \<Longrightarrow> t' < next_recalculation gmt_calendar GmtTime t \<Longrightarrow> t' mod 86400 = t mod 86400 + (t' - t)"
proof -
  assume t: "t \<le> t'" "t' < next_recalculation gmt_calendar GmtTime t"
  define d where "d = t mod 86400"
  have "0 \<le> d" by (simp add: d_def)
  with t have "0 \<le> d + (t' - t)" "d + (t' - t) < 86400"
    unfolding gmt_next_recalculation d_def [symmetric] by (auto split: if_splits)
  then have "(d + (t' - t)) mod 86400 = d + (t' - t)" by simp
  moreover have "(d + (t' - t)) mod 86400 = t' mod 86400" unfolding d_def by (simp only: mod_add_left_eq) simp
  ultimately show ?thesis by (simp only: d_def)
qed

lemma gmt_calendar_ok: "calendar_ok gmt_calendar GmtTime"
proof -
  have "t < next_recalculation gmt_calendar GmtTime t" for t
  proof -
    define d where "d = t mod 86400"
    have "d < 86400" by (simp add: d_def)
    then show ?thesis unfolding gmt_next_recalculation d_def [symmetric] by auto
  qed
  moreover have "cal_strftime gmt_calendar GmtTime p t = modifier_text ty (nat (t mod 86400))" if "modifier_type p = Some ty" for p ty t
    using that by (simp only: gmt_calendar_def calendar.simps option.case)
  ultimately show ?thesis
    unfolding calendar_ok_def gmt_time_of_day by (intro conjI allI impI gmt_even pos_mod_bound pos_mod_sign) simp_all
qed

lemma gmt_part_ok: "p \<noteq> [] \<Longrightarrow> length p < 1000 \<Longrightarrow> part_ok gmt_calendar GmtTime p"
  by (auto simp: part_ok_def steady_part_def gmt_calendar_def max_buffer_size_def)

subsection \<open>Splitting the format\<close>

lemma str_find_complete:
  assumes "take (length p) (drop j s) = p" "j + length p \<le> length s"
  shows "\<exists>k \<le> j. str_find p s = Some k"
  using assms
proof (induction s arbitrary: j)
  case (Cons c s)
  show ?case
  proof (cases "prefix p (c # s)")
    case False
    with Cons.prems obtain i where j: "j = Suc i" by (cases j) (auto simp: take_is_prefix, metis take_is_prefix)
    with Cons.prems Cons.IH [of i] obtain k where "k \<le> i" "str_find p s = Some k" by auto
    with False j show ?thesis by auto
  qed simp
qed simp

lemma find_from_complete:
  assumes "take (length p) (drop j s) = p" "j + length p \<le> length s" "i \<le> j"
  shows "\<exists>k \<le> j. find_from p s i = Some k"
proof -
  have "take (length p) (drop (j - i) (drop i s)) = p" "j - i + length p \<le> length (drop i s)" using assms by auto
  then obtain k where "k \<le> j - i" "str_find p (drop i s) = Some k" using str_find_complete by blast
  with assms show ?thesis by (auto simp: find_from_def)
qed

lemma find_unescaped_complete:
  assumes "take (length m) (drop j f) = m" "j + length m \<le> length f" "\<not> is_escaped_percent f j" "i \<le> j"
  shows "\<exists>k \<le> j. find_unescaped_from f m i = Some k"
  using assms
proof (induction f m i rule: find_unescaped_from.induct)
  case (1 f m i)
  obtain k where k: "k \<le> j" "find_from m f i = Some k" using find_from_complete [OF 1(2,3,5)] by blast
  show ?case
  proof (cases "is_escaped_percent f k")
    case True
    with k 1(4) have "k + 1 \<le> j" by (cases "k = j") auto
    with 1(1) [OF k(2)] True 1(2-4) show ?thesis by (subst find_unescaped_from.simps) (auto simp: k(2))
  next
    case False
    with k show ?thesis by (subst find_unescaped_from.simps) auto
  qed
qed

lemma find_unescaped_occurs:
  "find_unescaped_from f m i = Some j \<Longrightarrow> take (length m) (drop j f) = m"
proof (induction f m i rule: find_unescaped_from.induct)
  case (1 f m i)
  from 1(2) show ?case
    by (subst (asm) find_unescaped_from.simps) (auto split: option.splits if_splits dest: find_from_Some 1(1))
qed

lemma least_entry_le: "least_entry found = Some (i, m) \<Longrightarrow> (j, n) \<in> set found \<Longrightarrow> i \<le> j"
proof (induction found arbitrary: i m rule: least_entry.induct)
  case (2 k l found)
  show ?case
  proof (cases "least_entry found")
    case None
    then have "found = []" by (cases found rule: least_entry.cases) (auto split: option.splits if_splits)
    with 2 show ?thesis by auto
  next
    case (Some x)
    with 2 show ?thesis by (cases x) (fastforce split: if_splits)
  qed
qed simp

lemma time_modifier_length: "m \<in> set time_modifiers \<Longrightarrow> length m = 2"
  by (auto simp: time_modifiers_def)

lemma least_entry_None: "least_entry found = None \<longleftrightarrow> found = []"
  by (cases found rule: least_entry.cases) (auto split: option.splits if_splits)

lemma found_modifiers_iff: "(i, m) \<in> set (found_modifiers f) \<longleftrightarrow> m \<in> set time_modifiers \<and> find_unescaped_modifier f m = Some i"
  by (auto simp: found_modifiers_def split: option.splits)

definition plain_part :: "string \<Rightarrow> bool" where
  "plain_part p \<longleftrightarrow> (\<forall>m \<in> set time_modifiers. find_unescaped_modifier p m = None)"

lemma split_once_parts:
  assumes "split_timestamp_format_once f = Some (p1, m, rest)"
  shows "f = p1 @ m @ rest" "m \<in> set time_modifiers" "plain_part p1"
proof -
  obtain i where i: "least_entry (found_modifiers f) = Some (i, m)" "p1 = take i f" "rest = drop (i + 2) f"
    using assms by (auto simp: split_timestamp_format_once_def split: option.splits)
  then have m: "m \<in> set time_modifiers" "find_unescaped_from f m 0 = Some i"
    using least_entry_in found_modifiers_iff by (fastforce simp: find_unescaped_modifier_def)+
  then have occ: "take 2 (drop i f) = m" "length m = 2" "i + 2 \<le> length f"
    using find_unescaped_occurs [OF m(2)] find_unescaped_Some [OF m(2)] time_modifier_length [OF m(1)] by simp_all
  then show "f = p1 @ m @ rest" using i by (metis append_take_drop_id drop_drop add.commute)
  show "m \<in> set time_modifiers" using m by simp
  show "plain_part p1"
    unfolding plain_part_def
  proof (intro ballI, rule ccontr)
    fix n assume n: "n \<in> set time_modifiers" "find_unescaped_modifier p1 n \<noteq> None"
    then obtain j where "find_unescaped_from p1 n 0 = Some j" by (auto simp: find_unescaped_modifier_def)
    then have j: "take (length n) (drop j p1) = n" "j + length n \<le> length p1" "\<not> is_escaped_percent p1 j" "length n = 2"
      using find_unescaped_occurs [of p1 n 0 j] find_unescaped_Some [of p1 n 0 j] time_modifier_length [OF n(1)] by simp_all
    have ji: "j + 2 \<le> i" "i \<le> length f" using j(2,4) i(2) occ(3) by auto
    then have "take j p1 = take j f" "take 2 (drop j p1) = take 2 (drop j f)" using i(2) by (simp_all add: drop_take min_def)
    with j ji have "take (length n) (drop j f) = n" "j + length n \<le> length f" "\<not> is_escaped_percent f j" "j < i"
      by (simp_all add: is_escaped_percent_def)
    then obtain k where "k \<le> j" "find_unescaped_from f n 0 = Some k" using find_unescaped_complete [of n j f 0] by auto
    with n(1) least_entry_le [OF i(1), of k n] \<open>j < i\<close> show False
      by (auto simp: found_modifiers_iff find_unescaped_modifier_def)
  qed
qed

text \<open>
  The parts a format is cut into make up the format again, nothing lost or repeated, and every
  part is either one time modifier or text that hides none: no hour, minute or second of a format
  is left to the slow path. An escaped percent sign does not start a modifier.
\<close>

theorem format_parts_complete:
  "concat (populate_initial_parts f) = f \<and>
   list_all (\<lambda>p. p \<in> set time_modifiers \<or> plain_part p) (populate_initial_parts f) \<and>
   [] \<notin> set (populate_initial_parts f)"
proof (induction f rule: populate_initial_parts.induct)
  case (1 f)
  show ?case
  proof (cases "split_timestamp_format_once f")
    case None
    then have "found_modifiers f = []"
      by (auto simp: split_timestamp_format_once_def least_entry_None [symmetric] split: option.splits)
    then have "find_unescaped_modifier f m = None" if "m \<in> set time_modifiers" for m
      using that found_modifiers_iff [of _ m f] by (cases "find_unescaped_modifier f m") auto
    then have "plain_part f" by (simp add: plain_part_def)
    with None show ?thesis by (subst (1 2 3) populate_initial_parts.simps) simp
  next
    case (Some x)
    obtain p1 m rest where x: "split_timestamp_format_once f = Some (p1, m, rest)" using Some by (cases x) auto
    have "m \<noteq> []" using split_once_parts(2) [OF x] by (auto simp: time_modifiers_def)
    with x 1 split_once_parts [OF x] show ?thesis
      by (subst (1 2 3) populate_initial_parts.simps) auto
  qed
qed

text \<open>A glibc flag hides the modifier behind it: such a part is taken for literal text.\<close>

lemma flag_form_is_plain: "plain_part ''%-H:%_M''" "populate_initial_parts ''%-H'' = [''%-H'']"
  by (code_simp, code_simp)

end
