(* ===== verification/Strftime_Text.thy ===== *)
theory Strftime_Text
  imports String_From_Time
begin

text \<open>
  That \<^verbatim>\<open>StringFromTime\<close> (\<^verbatim>\<open>quill/backend/StringFromTime.h\<close>) gives the text of the format it was
  given: the format is read the way the C standard reads it, into conversion specifications, and
  the aliases the class expands, the parts it splits off and the texts it caches are compared
  with \<^verbatim>\<open>strftime\<close> of those.
\<close>

subsection \<open>A format as \<^verbatim>\<open>strftime\<close> reads it\<close>

text \<open>
  A format is a sequence of ordinary characters and conversion specifications: a percent sign,
  flags, a width, one of the modifiers \<^verbatim>\<open>E\<close> and \<^verbatim>\<open>O\<close>, and the character that selects the conversion.
  \<open>conversion_spec\<close> is a complete one (or an ordinary character).
\<close>

definition spec_prefixes :: string where
  "spec_prefixes = ''_-0^#+123456789EO''"

function format_specs :: "string \<Rightarrow> string list" where
  "format_specs [] = []"
| "format_specs (c # s) =
     (if c \<noteq> CHR ''%'' then [c] # format_specs s
      else case dropWhile (\<lambda>x. x \<in> set spec_prefixes) s of
             [] \<Rightarrow> [c # s]
           | d # r \<Rightarrow> (c # takeWhile (\<lambda>x. x \<in> set spec_prefixes) s @ [d]) # format_specs r)"
  by pat_completeness auto
termination
proof (relation "measure length", goal_cases)
  case (3 c s d r)
  then have "length (d # r) \<le> length s" using length_dropWhile_le [of _ s] by metis
  then show ?case by simp
qed auto

declare format_specs.simps(2) [simp del]

definition conversion_spec :: "string \<Rightarrow> bool" where
  "conversion_spec d \<longleftrightarrow> (case d of [] \<Rightarrow> False
     | c # s \<Rightarrow> if c \<noteq> CHR ''%'' then s = []
         else s = ''%'' \<or> s \<noteq> [] \<and> last s \<noteq> CHR ''%'' \<and> last s \<notin> set spec_prefixes \<and> set (butlast s) \<subseteq> set spec_prefixes)"

abbreviation valid_specs :: "string list \<Rightarrow> bool" where
  "valid_specs ds \<equiv> \<forall>d \<in> set ds. conversion_spec d"

lemma percent_not_prefix: "CHR ''%'' \<notin> set spec_prefixes"
  by (simp add: spec_prefixes_def)

lemma conversion_specE:
  assumes "conversion_spec d"
  obtains (ordinary) c where "c \<noteq> CHR ''%''" "d = [c]"
  | (percent) "d = ''%%''"
  | (conversion) ps c where "d = CHR ''%'' # ps @ [c]" "c \<noteq> CHR ''%''" "c \<notin> set spec_prefixes" "set ps \<subseteq> set spec_prefixes"
proof (cases d)
  case (Cons c s)
  show thesis
  proof (cases "c = CHR ''%'' \<and> s \<noteq> ''%''")
    case True
    with assms Cons have s: "s \<noteq> []" "last s \<noteq> CHR ''%''" "last s \<notin> set spec_prefixes" "set (butlast s) \<subseteq> set spec_prefixes"
      by (simp_all add: conversion_spec_def)
    with True Cons conversion [of "butlast s" "last s"] show thesis by simp
  qed (use assms Cons ordinary percent in \<open>auto simp: conversion_spec_def split: if_splits\<close>)
qed (use assms in \<open>simp add: conversion_spec_def\<close>)

lemma specs_concat: "concat (format_specs f) = f"
proof (induction f rule: format_specs.induct)
  case (2 c s)
  show ?case
  proof (cases "dropWhile (\<lambda>x. x \<in> set spec_prefixes) s")
    case Nil
    with 2(1) show ?thesis by (cases "c = CHR ''%''") (simp_all only: format_specs.simps(2) if_True if_False concat.simps list.case append.simps append_Nil2 simp_thms)
  next
    case (Cons d r)
    then have "s = takeWhile (\<lambda>x. x \<in> set spec_prefixes) s @ d # r" by (metis takeWhile_dropWhile_id)
    with 2 Cons show ?thesis by (cases "c = CHR ''%''") (simp_all add: format_specs.simps(2))
  qed
qed simp

lemma specs_of_concat: "valid_specs ds \<Longrightarrow> format_specs (concat ds) = ds"
proof (induction ds)
  case (Cons d ds)
  then have IH: "format_specs (concat ds) = ds" and d: "conversion_spec d" by simp_all
  from d show ?case
  proof (cases rule: conversion_specE)
    case (conversion ps c)
    then have "takeWhile (\<lambda>x. x \<in> set spec_prefixes) (ps @ c # concat ds) = ps"
      "dropWhile (\<lambda>x. x \<in> set spec_prefixes) (ps @ c # concat ds) = c # concat ds"
      by (auto simp: takeWhile_append2 dropWhile_append2 subset_iff)
    with conversion IH show ?thesis by (simp add: format_specs.simps(2))
  qed (use IH percent_not_prefix in \<open>simp_all add: format_specs.simps(2)\<close>)
qed simp

text \<open>Between two specifications a percent sign is not escaped, and every other one is inside \<^verbatim>\<open>%%\<close>.\<close>

lemma percents_even:
  "valid_specs ds \<Longrightarrow> even (length (takeWhile (\<lambda>c. c = CHR ''%'') (rev (concat ds))))"
proof (induction ds rule: rev_induct)
  case (snoc d ds)
  then have IH: "even (length (takeWhile (\<lambda>c. c = CHR ''%'') (rev (concat ds))))" and d: "conversion_spec d" by simp_all
  from d show ?case by (cases rule: conversion_specE) (use IH in simp_all)
qed simp

lemma boundary_unescaped: "valid_specs ds1 \<Longrightarrow> \<not> is_escaped_percent (concat (ds1 @ ds2)) (length (concat ds1))"
  using percents_even [of ds1] by (simp add: is_escaped_percent_def)

lemma concat_position:
  assumes "i < length (concat ds)"
  obtains ds1 d ds2 j where "ds = ds1 @ d # ds2" "j < length d" "i = length (concat ds1) + j"
  using assms
proof (induction ds arbitrary: i thesis)
  case (Cons d ds)
  show ?case
  proof (cases "i < length d")
    case True
    then show ?thesis using Cons.prems(1) [of "[]" d ds i] by simp
  next
    case False
    then have "i - length d < length (concat ds)" using Cons.prems(2) by simp
    then obtain ds1 e ds2 j where "ds = ds1 @ e # ds2" "j < length e" "i - length d = length (concat ds1) + j"
      using Cons.IH [of "i - length d"] by blast
    with False show ?thesis using Cons.prems(1) [of "d # ds1" e ds2 j] by simp
  qed
qed simp

lemma unescaped_boundary:
  assumes valid: "valid_specs ds" and i: "i < length (concat ds)" "concat ds ! i = CHR ''%''" "\<not> is_escaped_percent (concat ds) i"
  obtains ds1 d ds2 where "ds = ds1 @ d # ds2" "i = length (concat ds1)"
proof -
  obtain ds1 d ds2 j where p: "ds = ds1 @ d # ds2" "j < length d" "i = length (concat ds1) + j"
    using i(1) by (rule concat_position)
  have dj: "d ! j = CHR ''%''" using i(2) p by (simp add: nth_append)
  have "conversion_spec d" using valid p(1) by simp
  then have "j = 0"
  proof (cases rule: conversion_specE)
    case percent
    show ?thesis
    proof (rule ccontr)
      assume "j \<noteq> 0"
      with percent p(2) have "j = 1" by simp
      with p percent have "take i (concat ds) = concat ds1 @ ''%''" by simp
      moreover have "even (length (takeWhile (\<lambda>c. c = CHR ''%'') (rev (concat ds1))))" using valid p(1) by (intro percents_even) auto
      ultimately show False using i(3) by (simp add: is_escaped_percent_def)
    qed
  next
    case (conversion ps c)
    show ?thesis
    proof (rule ccontr)
      assume "j \<noteq> 0"
      then obtain k where "j = Suc k" by (cases j) auto
      with conversion dj p(2) have "(ps @ [c]) ! k = CHR ''%''" "k < length (ps @ [c])" by simp_all
      then have "CHR ''%'' \<in> set (ps @ [c])" by (metis nth_mem)
      with conversion percent_not_prefix show False by auto
    qed
  qed (use p(2) in simp)
  with p that show thesis by simp
qed

text \<open>A modifier the class looks for: a percent sign and a conversion character.\<close>

definition simple_spec :: "string \<Rightarrow> bool" where
  "simple_spec m \<longleftrightarrow> (\<exists>c. m = [CHR ''%'', c] \<and> c \<noteq> CHR ''%'' \<and> c \<notin> set spec_prefixes)"

lemma simple_specs:
  "m \<in> set time_modifiers \<Longrightarrow> simple_spec m" "simple_spec ''%r''" "simple_spec ''%R''" "simple_spec ''%T''"
  by (auto simp: simple_spec_def time_modifiers_def spec_prefixes_def)

lemma simple_spec_at:
  assumes "simple_spec m" "conversion_spec d" "take 2 (d @ rest) = m"
  shows "d = m"
proof -
  obtain c where m: "m = [CHR ''%'', c]" "c \<noteq> CHR ''%''" "c \<notin> set spec_prefixes" using assms(1) by (auto simp: simple_spec_def)
  from assms(2) show ?thesis
  proof (cases rule: conversion_specE)
    case (conversion ps x)
    with assms(3) m show ?thesis by (cases ps) auto
  qed (use assms(3) m in auto)
qed

lemma find_unescaped_ge: "find_unescaped_from f m i = Some j \<Longrightarrow> i \<le> j"
proof (induction f m i rule: find_unescaped_from.induct)
  case (1 f m i)
  from 1(2) show ?case
  proof (subst (asm) find_unescaped_from.simps, cases "find_from m f i")
    case (Some k)
    assume r: "(case find_from m f i of None \<Rightarrow> None
      | Some i \<Rightarrow> if \<not> is_escaped_percent f i then Some i else find_unescaped_from f m (i + 1)) = Some j"
    have "i \<le> k" using find_from_Some(1) [OF Some] .
    with r Some 1(1) [OF Some] show ?thesis by (cases "is_escaped_percent f k") auto
  qed simp
qed

text \<open>So the search finds the first specification equal to the modifier.\<close>

lemma find_spec_at:
  assumes valid: "valid_specs ds" and m: "simple_spec m"
    and j: "\<not> is_escaped_percent (concat ds) j" "take 2 (drop j (concat ds)) = m" "j + 2 \<le> length (concat ds)"
  obtains ds1 ds2 where "ds = ds1 @ m # ds2" "j = length (concat ds1)"
proof -
  obtain c where c: "m = [CHR ''%'', c]" using m by (auto simp: simple_spec_def)
  have "j < length (concat ds)" using j(3) by linarith
  moreover have "take 2 (drop j (concat ds)) ! 0 = concat ds ! j" using j(3) by (subst nth_take) simp_all
  then have "concat ds ! j = CHR ''%''" unfolding j(2) c by simp
  ultimately obtain ds1 d ds2 where ds: "ds = ds1 @ d # ds2" "j = length (concat ds1)"
    using unescaped_boundary [OF valid _ _ j(1)] by blast
  with j(2) have "take 2 (d @ concat ds2) = m" by simp
  with valid ds(1) have "d = m" using simple_spec_at [OF m, of d "concat ds2"] by simp
  with ds that show thesis by blast
qed

lemma find_spec:
  assumes valid: "valid_specs (pre @ ds)" and m: "simple_spec m"
  shows "find_unescaped_from (concat (pre @ ds)) m (length (concat pre)) =
    (if m \<in> set ds then Some (length (concat (pre @ takeWhile (\<lambda>d. d \<noteq> m) ds))) else None)"
proof -
  let ?f = "concat (pre @ ds)"
  have len: "length m = 2" using m by (auto simp: simple_spec_def)
  have sound: "\<exists>ds1 ds2. ds = ds1 @ m # ds2 \<and> j = length (concat (pre @ ds1))"
    if "find_unescaped_from ?f m (length (concat pre)) = Some j" for j
  proof -
    have "\<not> is_escaped_percent ?f j" "take 2 (drop j ?f) = m" "j + 2 \<le> length ?f" "length (concat pre) \<le> j"
      using find_unescaped_Some [OF that] find_unescaped_occurs [OF that] find_unescaped_ge [OF that] len by simp_all
    then obtain es1 es2 where e: "pre @ ds = es1 @ m # es2" "j = length (concat es1)"
      using find_spec_at [OF valid m] by blast
    have "length (concat pre) \<le> length (concat es1)" using e \<open>length (concat pre) \<le> j\<close> by simp
    from e(1) consider us where "pre = es1 @ us" "us @ ds = m # es2" | us where "pre @ us = es1" "ds = us @ m # es2"
      by (auto simp: append_eq_append_conv2)
    then show ?thesis
    proof cases
      case 1
      show ?thesis
      proof (cases us)
        case Nil
        with 1 e show ?thesis by (intro exI [of _ "[]"] exI [of _ es2]) auto
      next
        case (Cons u us')
        with 1 have "u = m" by simp
        with 1 Cons len \<open>length (concat pre) \<le> length (concat es1)\<close> show ?thesis by simp
      qed
    next
      case 2
      with e show ?thesis by auto
    qed
  qed
  show ?thesis
  proof (cases "m \<in> set ds")
    case False
    with sound show ?thesis by (cases "find_unescaped_from ?f m (length (concat pre))") auto
  next
    case True
    let ?ds1 = "takeWhile (\<lambda>d. d \<noteq> m) ds"
    obtain ds2 where ds: "ds = ?ds1 @ m # ds2"
    proof -
      obtain ys zs where y: "ds = ys @ m # zs" "m \<notin> set ys" using split_list_first [OF True] by blast
      moreover from this have "\<forall>x \<in> set ys. x \<noteq> m" by metis
      ultimately have "?ds1 = ys" by (simp add: takeWhile_append2)
      with y(1) show thesis using that by simp
    qed
    let ?j = "length (concat (pre @ ?ds1))"
    have f: "?f = concat ((pre @ ?ds1) @ m # ds2)" by (subst ds) simp
    have "\<not> is_escaped_percent ?f ?j" unfolding f by (rule boundary_unescaped) (use valid in \<open>auto dest: set_takeWhileD\<close>)
    moreover have "take (length m) (drop ?j ?f) = m" "?j + length m \<le> length ?f" unfolding f by simp_all
    ultimately obtain k where k: "k \<le> ?j" "find_unescaped_from ?f m (length (concat pre)) = Some k"
      using find_unescaped_complete [of m ?j ?f "length (concat pre)"] by auto
    obtain es1 es2 where e: "ds = es1 @ m # es2" "k = length (concat (pre @ es1))" using sound [OF k(2)] by blast
    have "\<exists>us. es1 = ?ds1 @ us"
    proof -
      have "prefix ?ds1 es1"
      proof (cases "m \<in> set es1")
        case False
        then have "\<forall>x \<in> set es1. x \<noteq> m" by metis
        then show ?thesis unfolding e(1) by (simp add: takeWhile_append2)
      next
        case True
        then show ?thesis unfolding e(1) by (simp add: takeWhile_append1 takeWhile_is_prefix)
      qed
      then show ?thesis by (auto simp: prefix_def)
    qed
    then obtain us where "es1 = ?ds1 @ us" by blast
    with k(1) e(2) have "k = ?j" by simp
    with k(2) True show ?thesis by simp
  qed
qed

subsection \<open>The aliases are expanded, the format is split between specifications\<close>

lemma replace_found:
  assumes "old \<noteq> []"
  shows "replace_unescaped_from str old new pos = (case find_unescaped_from str old pos of
      None \<Rightarrow> str
    | Some i \<Rightarrow> replace_unescaped_from (take i str @ new @ drop (i + length old) str) old new (i + length new))"
  using assms
proof (induction str old pos rule: find_unescaped_from.induct)
  case (1 str old pos)
  show ?case
  proof (cases "find_from old str pos")
    case None
    with 1(2) show ?thesis by (simp add: replace_unescaped_from.simps [of str] find_unescaped_from.simps [of str])
  next
    case (Some i)
    show ?thesis
    proof (cases "is_escaped_percent str i")
      case True
      with Some 1 show ?thesis
        by (simp add: replace_unescaped_from.simps [of str old new pos] find_unescaped_from.simps [of str old pos])
    next
      case False
      with Some 1(2) show ?thesis
        by (subst replace_unescaped_from.simps) (simp add: find_unescaped_from.simps [of str old pos])
    qed
  qed
qed

definition expand_spec :: "string \<Rightarrow> string list \<Rightarrow> string list \<Rightarrow> string list" where
  "expand_spec old new ds = concat (map (\<lambda>d. if d = old then new else [d]) ds)"

lemma expand_spec_append: "expand_spec old new (ds1 @ ds2) = expand_spec old new ds1 @ expand_spec old new ds2"
  by (simp add: expand_spec_def)

lemma expand_spec_other: "old \<notin> set ds \<Longrightarrow> expand_spec old new ds = ds"
  by (induction ds) (auto simp: expand_spec_def)

lemma expand_spec_valid: "valid_specs ds \<Longrightarrow> valid_specs new \<Longrightarrow> valid_specs (expand_spec old new ds)"
  by (auto simp: expand_spec_def split: if_splits)

lemma replace_specs:
  assumes "valid_specs (pre @ ds)" "valid_specs new" "simple_spec old"
  shows "replace_unescaped_from (concat (pre @ ds)) old (concat new) (length (concat pre)) = concat (pre @ expand_spec old new ds)"
  using assms(1)
proof (induction "length ds" arbitrary: pre ds rule: less_induct)
  case less
  have old: "old \<noteq> []" "length old = 2" using assms(3) by (auto simp: simple_spec_def)
  note found = find_spec [OF less.prems assms(3)]
  show ?case
  proof (cases "old \<in> set ds")
    case False
    with found show ?thesis by (simp add: replace_found [OF old(1)] expand_spec_other)
  next
    case True
    then obtain ds1 ds2 where ds: "ds = ds1 @ old # ds2" "old \<notin> set ds1" using split_list_first [OF True] by blast
    then have neq: "\<forall>x \<in> set ds1. x \<noteq> old" by metis
    then have tw: "takeWhile (\<lambda>d. d \<noteq> old) ds = ds1" unfolding ds(1) by (simp add: takeWhile_append2)
    have str: "concat (pre @ ds) = concat (pre @ ds1) @ old @ concat ds2" using ds(1) by simp
    let ?pre = "pre @ ds1 @ new"
    have at: "find_unescaped_from (concat (pre @ ds)) old (length (concat pre)) = Some (length (concat (pre @ ds1)))"
      using found True tw by (simp only: if_True)
    have "replace_unescaped_from (concat (pre @ ds)) old (concat new) (length (concat pre))
        = replace_unescaped_from (concat (?pre @ ds2)) old (concat new) (length (concat ?pre))"
    proof -
      have "replace_unescaped_from (concat (pre @ ds)) old (concat new) (length (concat pre))
          = (case Some (length (concat (pre @ ds1))) of None \<Rightarrow> concat (pre @ ds)
            | Some i \<Rightarrow> replace_unescaped_from (take i (concat (pre @ ds)) @ concat new @ drop (i + length old) (concat (pre @ ds)))
                old (concat new) (i + length (concat new)))"
        unfolding at [symmetric] by (rule replace_found [OF old(1)])
      then show ?thesis by (simp only: option.case str) (simp add: old(2) add.assoc)
    qed
    also have "\<dots> = concat (?pre @ expand_spec old new ds2)"
      by (rule less.hyps) (use ds(1) less.prems assms(2) in auto)
    finally show ?thesis using ds by (simp add: expand_spec_append expand_spec_other, simp add: expand_spec_def)
  qed
qed

lemma replace_modifier_specs:
  assumes "valid_specs ds" "valid_specs new" "simple_spec old"
  shows "replace_unescaped_modifier (concat ds) old (concat new) = concat (expand_spec old new ds)"
  using replace_specs [of "[]" ds new old] assms by (simp add: replace_unescaped_modifier_def)

text \<open>What the class makes of the specifications of a format.\<close>

definition expand_aliases :: "string list \<Rightarrow> string list" where
  "expand_aliases ds = expand_spec ''%T'' [''%H'', '':'', ''%M'', '':'', ''%S''] (expand_spec ''%R'' [''%H'', '':'', ''%M'']
     (expand_spec ''%r'' [''%I'', '':'', ''%M'', '':'', ''%S'', '' '', ''%p''] ds))"

lemma alias_specs:
  "valid_specs [''%I'', '':'', ''%M'', '':'', ''%S'', '' '', ''%p'']" "valid_specs [''%H'', '':'', ''%M'']"
  "valid_specs [''%H'', '':'', ''%M'', '':'', ''%S'']"
  by (simp_all add: conversion_spec_def spec_prefixes_def)

lemma expand_aliases_valid: "valid_specs ds \<Longrightarrow> valid_specs (expand_aliases ds)"
  unfolding expand_aliases_def by (intro expand_spec_valid alias_specs)

lemma sft_init_parts:
  assumes "sft_init fmt tz sft_default = Inr s" "valid_specs (format_specs fmt)"
  shows "sft_initial_parts s = populate_initial_parts (concat (expand_aliases (format_specs fmt)))"
proof -
  let ?ds = "format_specs fmt" and ?r = "[''%I'', '':'', ''%M'', '':'', ''%S'', '' '', ''%p'']"
    and ?R = "[''%H'', '':'', ''%M'']" and ?T = "[''%H'', '':'', ''%M'', '':'', ''%S'']"
  have r: "replace_unescaped_modifier fmt ''%r'' ''%I:%M:%S %p'' = concat (expand_spec ''%r'' ?r ?ds)"
    using replace_modifier_specs [OF assms(2) alias_specs(1) simple_specs(2)] by (simp add: specs_concat)
  have vr: "valid_specs (expand_spec ''%r'' ?r ?ds)" by (intro expand_spec_valid assms alias_specs)
  have R: "replace_unescaped_modifier (concat (expand_spec ''%r'' ?r ?ds)) ''%R'' ''%H:%M''
      = concat (expand_spec ''%R'' ?R (expand_spec ''%r'' ?r ?ds))"
    using replace_modifier_specs [OF vr alias_specs(2) simple_specs(3)] by simp
  have vR: "valid_specs (expand_spec ''%R'' ?R (expand_spec ''%r'' ?r ?ds))" by (intro expand_spec_valid vr alias_specs)
  have T: "replace_unescaped_modifier (concat (expand_spec ''%R'' ?R (expand_spec ''%r'' ?r ?ds))) ''%T'' ''%H:%M:%S''
      = concat (expand_aliases ?ds)"
    using replace_modifier_specs [OF vR alias_specs(3) simple_specs(4)] by (simp add: expand_aliases_def)
  show ?thesis using assms(1) r R T by (auto simp: sft_init_def sft_default_def Let_def split: if_splits)
qed

text \<open>Every part is a time modifier or a run of whole specifications without one.\<close>

definition whole_part :: "string \<Rightarrow> string list \<Rightarrow> bool" where
  "whole_part p ds \<longleftrightarrow> p = concat ds \<and> ds \<noteq> [] \<and> (ds = [p] \<and> p \<in> set time_modifiers \<or> set ds \<inter> set time_modifiers = {})"

lemma split_once_boundary:
  assumes split: "split_timestamp_format_once (concat ds) = Some (p1, m, rest)" and valid: "valid_specs ds"
  obtains ds1 ds2 where "ds = ds1 @ m # ds2" "p1 = concat ds1" "rest = concat ds2" "set ds1 \<inter> set time_modifiers = {}"
proof -
  obtain i where i: "least_entry (found_modifiers (concat ds)) = Some (i, m)" "p1 = take i (concat ds)" "rest = drop (i + 2) (concat ds)"
    using split by (auto simp: split_timestamp_format_once_def split: option.splits)
  then have m: "m \<in> set time_modifiers" "find_unescaped_from (concat ds) m 0 = Some i"
    using least_entry_in found_modifiers_iff by (fastforce simp: find_unescaped_modifier_def)+
  from find_spec [of "[]" ds m] valid simple_specs(1) [OF m(1)] m(2)
  have mem: "m \<in> set ds" and pos: "i = length (concat (takeWhile (\<lambda>d. d \<noteq> m) ds))" by (auto split: if_splits)
  obtain ds1 ds2 where ds: "ds = ds1 @ m # ds2" "m \<notin> set ds1" using split_list_first [OF mem] by blast
  then have "\<forall>x \<in> set ds1. x \<noteq> m" by metis
  then have "takeWhile (\<lambda>d. d \<noteq> m) ds = ds1" unfolding ds(1) by (simp add: takeWhile_append2)
  with pos have il: "i = length (concat ds1)" by simp
  have len: "length m = 2" using time_modifier_length [OF m(1)] .
  have p: "p1 = concat ds1" "rest = concat ds2" using i(2,3) len unfolding il ds(1) by simp_all
  moreover have "n \<notin> set ds1" if n: "n \<in> set time_modifiers" for n
  proof
    assume "n \<in> set ds1"
    moreover have "valid_specs ([] @ ds1)" using valid ds(1) by auto
    ultimately have "find_unescaped_from (concat ds1) n 0 \<noteq> None"
      using find_spec [of "[]" ds1 n] simple_specs(1) [OF n] by simp
    with split_once_parts(3) [OF split] n p(1) show False by (auto simp: plain_part_def find_unescaped_modifier_def)
  qed
  ultimately show thesis using that ds(1) by blast
qed

lemma parts_are_whole:
  assumes "valid_specs ds"
  obtains dss where "list_all2 whole_part (populate_initial_parts (concat ds)) dss" "concat dss = ds"
  using assms
proof (induction "length ds" arbitrary: ds thesis rule: less_induct)
  case less
  show ?case
  proof (cases "split_timestamp_format_once (concat ds)")
    case None
    then have "found_modifiers (concat ds) = []"
      by (auto simp: split_timestamp_format_once_def least_entry_None [symmetric] split: option.splits)
    then have none: "find_unescaped_from (concat ds) m 0 = None" if "m \<in> set time_modifiers" for m
      using that found_modifiers_iff [of _ m "concat ds"]
      by (cases "find_unescaped_modifier (concat ds) m") (auto simp: find_unescaped_modifier_def)
    then have "set ds \<inter> set time_modifiers = {}"
      using find_spec [of "[]" ds] less.prems(2) simple_specs(1) by fastforce
    moreover have "concat ds = [] \<longleftrightarrow> ds = []"
      using less.prems(2) by (cases ds) (auto elim: conversion_specE)
    ultimately show ?thesis using None less.prems(1) [of "if ds = [] then [] else [ds]"]
      by (simp add: populate_initial_parts.simps [of "concat ds"] whole_part_def)
  next
    case (Some x)
    obtain p1 m rest where x: "split_timestamp_format_once (concat ds) = Some (p1, m, rest)" using Some by (cases x) auto
    obtain ds1 ds2 where ds: "ds = ds1 @ m # ds2" "p1 = concat ds1" "rest = concat ds2" "set ds1 \<inter> set time_modifiers = {}"
      using x less.prems(2) by (rule split_once_boundary)
    have m: "m \<in> set time_modifiers" using split_once_parts(2) [OF x] .
    obtain dss where IH: "list_all2 whole_part (populate_initial_parts rest) dss" "concat dss = ds2"
      using less.hyps [of ds2] less.prems(2) ds by auto
    have e: "p1 = [] \<longleftrightarrow> ds1 = []" using less.prems(2) ds(1,2) by (cases ds1) (auto elim: conversion_specE)
    have "list_all2 whole_part (populate_initial_parts (concat ds)) ((if ds1 = [] then [] else [ds1]) @ [[m]] @ dss)"
      using x IH(1) m e ds(2,4) by (auto simp: populate_initial_parts.simps [of "concat ds"] whole_part_def)
    moreover have "concat ((if ds1 = [] then [] else [ds1]) @ [[m]] @ dss) = ds" using ds(1) IH(2) by simp
    ultimately show ?thesis using less.prems(1) by blast
  qed
qed

subsection \<open>What \<^verbatim>\<open>strftime\<close> promises\<close>

text \<open>
  The documented behaviour of \<^verbatim>\<open>strftime\<close>: ordinary characters are copied, a format is expanded
  specification by specification, and \<^verbatim>\<open>%R\<close>, \<^verbatim>\<open>%T\<close> and \<^verbatim>\<open>%r\<close> are equivalent to \<^verbatim>\<open>%H:%M\<close>,
  \<^verbatim>\<open>%H:%M:%S\<close> and, in the C locale, \<^verbatim>\<open>%I:%M:%S %p\<close>.
\<close>

definition strftime_documented :: "calendar \<Rightarrow> timezone \<Rightarrow> bool" where
  "strftime_documented cal tz \<longleftrightarrow>
     (\<forall>c t. c \<noteq> CHR ''%'' \<longrightarrow> cal_strftime cal tz [c] t = [c])
     \<and> (\<forall>ds t. valid_specs ds \<longrightarrow> cal_strftime cal tz (concat ds) t = concat (map (\<lambda>d. cal_strftime cal tz d t) ds))
     \<and> (\<forall>t. cal_strftime cal tz ''%R'' t = cal_strftime cal tz ''%H:%M'' t)
     \<and> (\<forall>t. cal_strftime cal tz ''%T'' t = cal_strftime cal tz ''%H:%M:%S'' t)
     \<and> (\<forall>t. cal_strftime cal tz ''%r'' t = cal_strftime cal tz ''%I:%M:%S %p'' t)"

text \<open>
  What the class may cache until the next recalculation: a specification whose expansion does not
  change before it (the date, AM or PM, the zone, literal text). The time of day in any other
  form than the seven modifiers, the aliases and \<^verbatim>\<open>%s\<close>, such as \<^verbatim>\<open>%-H\<close>, is not such a
  specification.
\<close>

definition spec_steady :: "calendar \<Rightarrow> timezone \<Rightarrow> string \<Rightarrow> bool" where
  "spec_steady cal tz d \<longleftrightarrow>
     (\<forall>t t'. 0 \<le> t \<longrightarrow> t \<le> t' \<longrightarrow> t' < next_recalculation cal tz t \<longrightarrow> cal_strftime cal tz d t' = cal_strftime cal tz d t)"

definition spec_handled :: "calendar \<Rightarrow> timezone \<Rightarrow> string \<Rightarrow> bool" where
  "spec_handled cal tz d \<longleftrightarrow> d \<in> set time_modifiers \<or> d = ''%R'' \<or> d = ''%T''
     \<or> spec_steady cal tz (if d = ''%r'' then ''%p'' else d)"

text \<open>The text of a format, \<^verbatim>\<open>%s\<close> being the timestamp itself, and its part that \<^verbatim>\<open>strftime\<close> makes.\<close>

definition strftime_format :: "calendar \<Rightarrow> timezone \<Rightarrow> string \<Rightarrow> int \<Rightarrow> string" where
  "strftime_format cal tz fmt t = strftime_text cal tz (format_specs fmt) t"

definition expansion_length :: "calendar \<Rightarrow> timezone \<Rightarrow> string list \<Rightarrow> int \<Rightarrow> nat" where
  "expansion_length cal tz ds t = length (concat (map (\<lambda>d. if d = ''%s'' then [] else cal_strftime cal tz d t) ds))"

lemma documentedD:
  assumes "strftime_documented cal tz"
  shows "c \<noteq> CHR ''%'' \<Longrightarrow> cal_strftime cal tz [c] t = [c]"
    "valid_specs ds \<Longrightarrow> cal_strftime cal tz (concat ds) t = concat (map (\<lambda>d. cal_strftime cal tz d t) ds)"
  using assms by (simp_all add: strftime_documented_def)

lemma alias_expansions:
  assumes doc: "strftime_documented cal tz"
  shows "cal_strftime cal tz ''%r'' t = concat (map (\<lambda>d. cal_strftime cal tz d t) [''%I'', '':'', ''%M'', '':'', ''%S'', '' '', ''%p''])"
    "cal_strftime cal tz ''%R'' t = concat (map (\<lambda>d. cal_strftime cal tz d t) [''%H'', '':'', ''%M''])"
    "cal_strftime cal tz ''%T'' t = concat (map (\<lambda>d. cal_strftime cal tz d t) [''%H'', '':'', ''%M'', '':'', ''%S''])"
proof -
  have "cal_strftime cal tz ''%r'' t = cal_strftime cal tz ''%I:%M:%S %p'' t" "cal_strftime cal tz ''%R'' t = cal_strftime cal tz ''%H:%M'' t"
    "cal_strftime cal tz ''%T'' t = cal_strftime cal tz ''%H:%M:%S'' t" using doc by (simp_all add: strftime_documented_def)
  with documentedD(2) [OF doc alias_specs(1), of t] documentedD(2) [OF doc alias_specs(2), of t] documentedD(2) [OF doc alias_specs(3), of t]
  show "cal_strftime cal tz ''%r'' t = concat (map (\<lambda>d. cal_strftime cal tz d t) [''%I'', '':'', ''%M'', '':'', ''%S'', '' '', ''%p''])"
    "cal_strftime cal tz ''%R'' t = concat (map (\<lambda>d. cal_strftime cal tz d t) [''%H'', '':'', ''%M''])"
    "cal_strftime cal tz ''%T'' t = concat (map (\<lambda>d. cal_strftime cal tz d t) [''%H'', '':'', ''%M'', '':'', ''%S''])"
    by simp_all
qed

text \<open>Any text made specification by specification is unchanged by the expansion of an alias that has the same text.\<close>

lemma expand_spec_text:
  "f old = concat (map f new) \<Longrightarrow> concat (map f (expand_spec old new ds)) = concat (map f ds)"
  by (induction ds) (auto simp: expand_spec_def)

lemma expand_aliases_text:
  assumes "f ''%r'' = concat (map f [''%I'', '':'', ''%M'', '':'', ''%S'', '' '', ''%p''])" "f ''%R'' = concat (map f [''%H'', '':'', ''%M''])"
    "f ''%T'' = concat (map f [''%H'', '':'', ''%M'', '':'', ''%S''])"
  shows "concat (map f (expand_aliases ds)) = concat (map f ds)"
  unfolding expand_aliases_def expand_spec_text [of f, OF assms(3)] expand_spec_text [of f, OF assms(2)]
  by (rule expand_spec_text [of f, OF assms(1)])

lemma expanded_text:
  assumes doc: "strftime_documented cal tz"
  shows "strftime_text cal tz (expand_aliases ds) t = strftime_text cal tz ds t"
    "expansion_length cal tz (expand_aliases ds) t = expansion_length cal tz ds t"
  unfolding strftime_text_def expansion_length_def using alias_expansions [OF doc, of t]
  by (subst expand_aliases_text; simp add: part_text_def)+

lemma expand_spec_all:
  "\<forall>d \<in> set ds. d = old \<or> P d \<Longrightarrow> (old \<in> set ds \<Longrightarrow> \<forall>d \<in> set new. P d) \<Longrightarrow> \<forall>d \<in> set (expand_spec old new ds). P d"
  by (induction ds) (auto simp: expand_spec_def)

lemma expanded_handled:
  assumes doc: "strftime_documented cal tz" and handled: "\<forall>d \<in> set ds. spec_handled cal tz d"
  shows "\<forall>d \<in> set (expand_aliases ds). d \<in> set time_modifiers \<or> spec_steady cal tz d"
proof -
  have lit: "spec_steady cal tz [c]" if "c \<noteq> CHR ''%''" for c using documentedD(1) [OF doc that] by (simp add: spec_steady_def)
  then have lits: "spec_steady cal tz '':''" "spec_steady cal tz '' ''" by simp_all
  have t: "''%H'' \<in> set time_modifiers" "''%M'' \<in> set time_modifiers" "''%S'' \<in> set time_modifiers" "''%I'' \<in> set time_modifiers"
    by (simp_all add: time_modifiers_def)
  let ?P = "\<lambda>d. d \<in> set time_modifiers \<or> spec_steady cal tz d"
  have "''%r'' \<notin> set time_modifiers" by (simp add: time_modifiers_def)
  then have p: "spec_steady cal tz ''%p''" if "''%r'' \<in> set ds" using handled that by (auto simp: spec_handled_def)
  show ?thesis
    unfolding expand_aliases_def
  proof (intro expand_spec_all [where old = "''%T''"] expand_spec_all [where old = "''%R''"] expand_spec_all [where old = "''%r''"])
    show "\<forall>d \<in> set ds. d = ''%r'' \<or> d = ''%R'' \<or> d = ''%T'' \<or> ?P d" using handled by (auto simp: spec_handled_def)
  qed (use lits t p in simp_all)
qed

lemma whole_part_text:
  assumes doc: "strftime_documented cal tz" and p: "whole_part p ds" "valid_specs ds"
  shows "part_text cal tz t p = strftime_text cal tz ds t"
proof (cases "ds = [p]")
  case True
  then show ?thesis by (simp add: strftime_text_def)
next
  case False
  with p have "''%s'' \<notin> set ds" by (auto simp: whole_part_def time_modifiers_def)
  then have same: "map (part_text cal tz t) ds = map (\<lambda>d. cal_strftime cal tz d t) ds" by (auto simp: part_text_def)
  have "p \<noteq> ''%s''"
  proof
    assume "p = ''%s''"
    then have "concat ds = concat [''%s'']" using p by (simp add: whole_part_def)
    moreover have "valid_specs [''%s'']" by (simp add: conversion_spec_def spec_prefixes_def)
    ultimately have "ds = [''%s'']" using specs_of_concat [OF p(2)] specs_of_concat [of "[''%s'']"] by simp
    with \<open>''%s'' \<notin> set ds\<close> show False by simp
  qed
  then have "part_text cal tz t p = cal_strftime cal tz (concat ds) t" using p(1) by (simp add: part_text_def whole_part_def)
  then show ?thesis unfolding strftime_text_def same documentedD(2) [OF doc p(2)] .
qed

lemma expansion_length_member:
  assumes "ds \<in> set dss"
  shows "expansion_length cal tz ds t \<le> expansion_length cal tz (concat dss) t"
  using split_list [OF assms] by (auto simp: expansion_length_def)

lemma whole_part_ok:
  assumes doc: "strftime_documented cal tz" and p: "whole_part p ds" "valid_specs ds"
    and handled: "\<forall>d \<in> set ds. d \<in> set time_modifiers \<or> spec_steady cal tz d"
    and len: "\<forall>t. expansion_length cal tz ds t + 2 \<le> max_buffer_size"
  shows "part_ok cal tz p"
proof (cases "p \<in> set time_modifiers")
  case True
  then show ?thesis by (auto simp: part_ok_def time_modifiers_def modifier_type_def)
next
  case False
  with p have none: "set ds \<inter> set time_modifiers = {}" and ne: "ds \<noteq> []" "p = concat ds" by (auto simp: whole_part_def)
  then have ex: "cal_strftime cal tz p t = concat (map (\<lambda>d. cal_strftime cal tz d t) ds)" for t
    using documentedD(2) [OF doc p(2)] by simp
  have "\<forall>d \<in> set ds. spec_steady cal tz d" using handled none by auto
  then have "cal_strftime cal tz p t' = cal_strftime cal tz p t" if "0 \<le> t" "t \<le> t'" "t' < next_recalculation cal tz t" for t t'
  proof -
    have "map (\<lambda>d. cal_strftime cal tz d t') ds = map (\<lambda>d. cal_strftime cal tz d t) ds"
    proof (rule map_cong [OF refl])
      fix d assume "d \<in> set ds"
      then have "spec_steady cal tz d" using \<open>\<forall>d \<in> set ds. spec_steady cal tz d\<close> by blast
      then show "cal_strftime cal tz d t' = cal_strftime cal tz d t" using that unfolding spec_steady_def by (elim allE impE)
    qed
    then show ?thesis by (simp only: ex)
  qed
  moreover have "length (cal_strftime cal tz p t) + 2 \<le> max_buffer_size" for t
  proof -
    have "''%s'' \<in> set time_modifiers" by (simp add: time_modifiers_def)
    then have "d \<noteq> ''%s''" if "d \<in> set ds" for d using that none by blast
    then have "map (\<lambda>d. if d = ''%s'' then [] else cal_strftime cal tz d t) ds = map (\<lambda>d. cal_strftime cal tz d t) ds"
      by (intro map_cong refl) simp
    then have "expansion_length cal tz ds t = length (cal_strftime cal tz p t)" by (simp only: ex expansion_length_def)
    with len show ?thesis by metis
  qed
  moreover have "p \<noteq> []" using p(2) ne by (cases ds) (auto elim: conversion_specE)
  ultimately have "steady_part cal tz p" unfolding steady_part_def by blast
  then show ?thesis by (simp only: part_ok_def simp_thms)
qed

lemma format_parts_text:
  assumes doc: "strftime_documented cal tz" and ds: "valid_specs ds" "\<forall>d \<in> set ds. spec_handled cal tz d"
    and len: "\<forall>t. expansion_length cal tz ds t + 2 \<le> max_buffer_size"
  defines "ps \<equiv> populate_initial_parts (concat (expand_aliases ds))"
  shows "(\<forall>p \<in> set ps. part_ok cal tz p) \<and> strftime_text cal tz ps t = strftime_text cal tz ds t"
proof -
  have valid: "valid_specs (expand_aliases ds)" using ds(1) by (rule expand_aliases_valid)
  then obtain dss where dss: "list_all2 whole_part ps dss" "concat dss = expand_aliases ds"
    unfolding ps_def by (rule parts_are_whole)
  have each: "part_ok cal tz p \<and> part_text cal tz t p = strftime_text cal tz es t" if "whole_part p es" "es \<in> set dss" for p es
  proof -
    have sub: "set es \<subseteq> set (expand_aliases ds)" using that(2) dss(2) [symmetric] by auto
    with valid have v: "valid_specs es" by auto
    have h: "\<forall>d \<in> set es. d \<in> set time_modifiers \<or> spec_steady cal tz d" using expanded_handled [OF doc ds(2)] sub by blast
    have "expansion_length cal tz es u + 2 \<le> max_buffer_size" for u
      using expansion_length_member [OF that(2), of cal tz u] expanded_text(2) [OF doc, of ds u] len [rule_format, of u]
      unfolding dss(2) by linarith
    with whole_part_ok [OF doc that(1) v h] whole_part_text [OF doc that(1) v] show ?thesis by simp
  qed
  have "(\<forall>p \<in> set qs. part_ok cal tz p) \<and> strftime_text cal tz qs t = strftime_text cal tz (concat ess) t"
    if "list_all2 whole_part qs ess" "set ess \<subseteq> set dss" for qs ess
    using that
  proof (induction rule: list_all2_induct)
    case (Cons q qs es ess)
    with each [of q es] show ?case by (auto simp: strftime_text_def)
  qed (simp add: strftime_text_def)
  from this [OF dss(1)] show ?thesis by (simp add: dss(2) expanded_text(1) [OF doc])
qed

lemma strftime_format_plain:
  assumes "strftime_documented cal tz" "valid_specs (format_specs fmt)" "''%s'' \<notin> set (format_specs fmt)"
  shows "strftime_format cal tz fmt t = cal_strftime cal tz fmt t"
proof -
  have "map (part_text cal tz t) (format_specs fmt) = map (\<lambda>d. cal_strftime cal tz d t) (format_specs fmt)"
    using assms(3) by (auto simp: part_text_def)
  then show ?thesis unfolding strftime_format_def strftime_text_def using documentedD(2) [OF assms(1,2), of t]
    by (simp only: specs_concat)
qed

text \<open>
  C21. A formatter gives, for every sequence of timestamps, exactly the text \<^verbatim>\<open>strftime\<close> gives for the
  format it was made with (\<^verbatim>\<open>%s\<close> being the timestamp): the expanded aliases, the parts the format is
  split into, the cached text, the overwritten digits of hour, minute, second and epoch value,
  the forced recalculations and the fall back for timestamps that go back in time are not
  observable. The format consists of complete conversion specifications, each of which is one
  of \<^verbatim>\<open>%H\<close>, \<^verbatim>\<open>%M\<close>, \<^verbatim>\<open>%S\<close>, \<^verbatim>\<open>%I\<close>, \<^verbatim>\<open>%k\<close>, \<^verbatim>\<open>%l\<close>, \<^verbatim>\<open>%s\<close>, \<^verbatim>\<open>%R\<close>, \<^verbatim>\<open>%T\<close>, \<^verbatim>\<open>%r\<close>, or one whose expansion changes only where the
  class recalculates (noon and midnight for GMT, every quarter of an hour for local time). That
  excludes the time of day written with a flag or a width, such as \<^verbatim>\<open>%-H\<close>, which the class
  freezes. \<^verbatim>\<open>strftime\<close> is as documented (\<open>strftime_documented\<close>, \<^verbatim>\<open>%r\<close> in the C locale), the time zone's clock ticks evenly up to each recalculation, and the texts fit the
  64 KiB the class allows them.
\<close>

theorem timestamp_text_is_strftime:
  assumes "calendar_ok cal tz" "strftime_documented cal tz"
    and "sft_init fmt tz sft_default = Inr s"
    and "\<forall>d \<in> set (format_specs fmt). conversion_spec d \<and> spec_handled cal tz d"
    and "\<forall>t. expansion_length cal tz (format_specs fmt) t + 2 \<le> max_buffer_size"
    and "\<forall>t \<in> set ts. 0 \<le> t"
  shows "format_timestamps cal ts s = Some (map (strftime_format cal tz fmt) ts)
    \<and> (''%s'' \<notin> set (format_specs fmt) \<longrightarrow> format_timestamps cal ts s = Some (map (cal_strftime cal tz fmt) ts))"
proof -
  have valid: "valid_specs (format_specs fmt)" and handled: "\<forall>d \<in> set (format_specs fmt). spec_handled cal tz d" using assms(4) by auto
  note parts = sft_init_parts [OF assms(3) valid] and ok = format_parts_text [OF assms(2) valid handled assms(5)]
  have "format_timestamps cal ts s = Some (map (strftime_text cal tz (sft_initial_parts s)) ts)"
    by (rule format_timestamps_text [OF assms(1) _ sft_init_inv [OF assms(3)] assms(6)]) (use ok parts in simp)
  also have "strftime_text cal tz (sft_initial_parts s) = strftime_format cal tz fmt"
    unfolding parts strftime_format_def using ok by blast
  finally have whole: "format_timestamps cal ts s = Some (map (strftime_format cal tz fmt) ts)" .
  moreover have "map (strftime_format cal tz fmt) ts = map (cal_strftime cal tz fmt) ts" if "''%s'' \<notin> set (format_specs fmt)"
    using strftime_format_plain [OF assms(2) valid that] by simp
  ultimately show ?thesis by metis
qed

subsection \<open>Witness\<close>

text \<open>A C library for GMT with the conversions of the time of day; the others are left as they are.\<close>

definition gmt_spec :: "nat \<Rightarrow> string \<Rightarrow> string" where
  "gmt_spec n d = (case modifier_type d of
     Some ty \<Rightarrow> modifier_text ty n
   | None \<Rightarrow> if d = ''%p'' then (if n < 43200 then ''AM'' else ''PM'') else if d = ''%%'' then ''%'' else d)"

definition gmt_expansion :: "nat \<Rightarrow> string \<Rightarrow> string" where
  "gmt_expansion n f = concat (map (gmt_spec n) (expand_aliases (format_specs f)))"

definition strftime_calendar :: calendar where
  "strftime_calendar = gmt_calendar\<lparr>cal_strftime := (\<lambda>tz f t. gmt_expansion (nat (t mod 86400)) f)\<rparr>"

lemma strftime_calendar_clock:
  "next_recalculation strftime_calendar tz t = next_recalculation gmt_calendar tz t"
  "time_of_day strftime_calendar tz t = time_of_day gmt_calendar tz t"
  by (simp_all add: next_recalculation_def next_noon_or_midnight_timestamp_def time_of_day_def strftime_calendar_def split: timezone.split)

lemma strftime_calendar_text: "cal_strftime strftime_calendar tz f t = gmt_expansion (nat (t mod 86400)) f"
  by (simp add: strftime_calendar_def)

lemma gmt_expansion_simple:
  assumes "conversion_spec d" "d \<noteq> ''%r''" "d \<noteq> ''%R''" "d \<noteq> ''%T''"
  shows "gmt_expansion n d = gmt_spec n d"
  using specs_of_concat [of "[d]"] assms by (simp add: gmt_expansion_def expand_aliases_def expand_spec_def)

lemma expand_aliases_concat: "expand_aliases (concat dss) = concat (map expand_aliases dss)"
  by (induction dss) (simp_all add: expand_aliases_def expand_spec_append, simp add: expand_spec_def)

lemma concat_map_concat: "concat (map g (concat (map h ds))) = concat (map (\<lambda>d. concat (map g (h d))) ds)"
  by (induction ds) simp_all

lemma gmt_expansion_specs:
  assumes "valid_specs ds"
  shows "gmt_expansion n (concat ds) = concat (map (gmt_expansion n) ds)"
proof -
  have each: "gmt_expansion n d = concat (map (gmt_spec n) (expand_aliases [d]))" if "d \<in> set ds" for d
    using specs_of_concat [of "[d]"] assms that by (simp add: gmt_expansion_def)
  have "expand_aliases ds = concat (map (\<lambda>d. expand_aliases [d]) ds)"
    using expand_aliases_concat [of "map (\<lambda>d. [d]) ds"] by (simp add: comp_def)
  then have "gmt_expansion n (concat ds) = concat (map (\<lambda>d. concat (map (gmt_spec n) (expand_aliases [d]))) ds)"
    using specs_of_concat [OF assms] by (simp only: gmt_expansion_def concat_map_concat)
  also have "map (\<lambda>d. concat (map (gmt_spec n) (expand_aliases [d]))) ds = map (gmt_expansion n) ds"
    using each by simp
  finally show ?thesis .
qed

lemma strftime_calendar_documented: "strftime_documented strftime_calendar GmtTime"
proof -
  have "gmt_expansion n [c] = [c]" if "c \<noteq> CHR ''%''" for n c
  proof -
    have "modifier_type [c] = None" by (simp add: modifier_type_def)
    with that gmt_expansion_simple [of "[c]" n] show ?thesis by (simp add: conversion_spec_def gmt_spec_def)
  qed
  moreover have "gmt_expansion n ''%R'' = gmt_expansion n ''%H:%M''" "gmt_expansion n ''%T'' = gmt_expansion n ''%H:%M:%S''"
    "gmt_expansion n ''%r'' = gmt_expansion n ''%I:%M:%S %p''" for n
  proof -
    have "expand_aliases (format_specs ''%R'') = expand_aliases (format_specs ''%H:%M'')"
      "expand_aliases (format_specs ''%T'') = expand_aliases (format_specs ''%H:%M:%S'')"
      "expand_aliases (format_specs ''%r'') = expand_aliases (format_specs ''%I:%M:%S %p'')" by code_simp+
    then show "gmt_expansion n ''%R'' = gmt_expansion n ''%H:%M''" "gmt_expansion n ''%T'' = gmt_expansion n ''%H:%M:%S''"
      "gmt_expansion n ''%r'' = gmt_expansion n ''%I:%M:%S %p''" by (simp_all only: gmt_expansion_def)
  qed
  ultimately show ?thesis by (simp add: strftime_documented_def strftime_calendar_text gmt_expansion_specs)
qed

lemma strftime_calendar_ok: "calendar_ok strftime_calendar GmtTime"
proof -
  have "gmt_expansion n p = modifier_text ty n" if "modifier_type p = Some ty" for p ty n
  proof -
    have "conversion_spec p" "p \<noteq> ''%r''" "p \<noteq> ''%R''" "p \<noteq> ''%T''"
      using that by (auto simp: modifier_type_def conversion_spec_def spec_prefixes_def split: if_splits)
    with that gmt_expansion_simple show ?thesis by (simp add: gmt_spec_def)
  qed
  then show ?thesis
    using gmt_calendar_ok unfolding calendar_ok_def strftime_calendar_clock strftime_calendar_text gmt_time_of_day by blast
qed

lemma strftime_calendar_steady: "spec_steady strftime_calendar GmtTime ''%p''"
proof -
  have "(t' mod 86400 < 43200) = (t mod 86400 < 43200)"
    if t: "t \<le> t'" "t' < next_recalculation gmt_calendar GmtTime t" for t t' :: int
    using gmt_even [OF t] t unfolding gmt_next_recalculation by (auto split: if_splits)
  moreover have "gmt_expansion n ''%p'' = (if n < 43200 then ''AM'' else ''PM'')" for n
    using gmt_expansion_simple [of "''%p''" n] by (simp add: conversion_spec_def spec_prefixes_def gmt_spec_def modifier_type_def)
  moreover have "(nat (t mod 86400) < 43200) = (t mod 86400 < 43200)" for t :: int by auto
  ultimately show ?thesis unfolding spec_steady_def strftime_calendar_clock strftime_calendar_text by auto
qed

definition example_formatter :: string_from_time where
  "example_formatter = projr (sft_init ''%r, %s %%H'' GmtTime sft_default)"

lemma example_formatter: "sft_init ''%r, %s %%H'' GmtTime sft_default = Inr example_formatter"
proof -
  have "\<not> isl (sft_init ''%r, %s %%H'' GmtTime sft_default)" by code_simp
  then show ?thesis unfolding example_formatter_def by simp
qed

lemma example_specs: "format_specs ''%r, %s %%H'' = [''%r'', '','', '' '', ''%s'', '' '', ''%%'', ''H'']"
  by code_simp

lemma example_length: "expansion_length strftime_calendar GmtTime [''%r'', '','', '' '', ''%s'', '' '', ''%%'', ''H''] t + 2 \<le> max_buffer_size"
proof -
  let ?n = "nat (t mod 86400)"
  have n: "?n < 86400" by (simp add: nat_less_iff)
  have lit: "length (cal_strftime strftime_calendar GmtTime [c] t) = 1" if "c \<noteq> CHR ''%''" for c
    using documentedD(1) [OF strftime_calendar_documented that] by simp
  have "length (gmt_spec ?n ''%p'') = 2" "gmt_spec ?n ''%%'' = ''%''" by (simp_all add: gmt_spec_def modifier_type_def)
  moreover have "length (gmt_spec ?n ''%I'') = 2" "length (gmt_spec ?n ''%M'') = 2" "length (gmt_spec ?n ''%S'') = 2"
    using length_modifier_text [OF n] by (simp_all add: gmt_spec_def modifier_type_def)
  moreover have "gmt_spec ?n '':'' = '':''" "gmt_spec ?n '' '' = '' ''" by (simp_all add: gmt_spec_def modifier_type_def)
  moreover have "expand_aliases (format_specs ''%r'') = [''%I'', '':'', ''%M'', '':'', ''%S'', '' '', ''%p'']" by code_simp
  moreover have "gmt_expansion ?n ''%%'' = gmt_spec ?n ''%%''" by (rule gmt_expansion_simple) (simp_all add: conversion_spec_def)
  ultimately show ?thesis using lit
    by (simp add: expansion_length_def strftime_calendar_text gmt_expansion_def [of _ "''%r''"] max_buffer_size_def)
qed

theorem timestamp_text_is_strftime_witness:
  "format_timestamps strftime_calendar [86398, 86399, 100000, 9, 100001] example_formatter
   = Some [''11:59:58 PM, 86398 %H'', ''11:59:59 PM, 86399 %H'', ''03:46:40 AM, 100000 %H'', ''12:00:09 AM, 9 %H'', ''03:46:41 AM, 100001 %H'']"
proof -
  have handled: "spec_handled strftime_calendar GmtTime ''%r''" using strftime_calendar_steady by (simp add: spec_handled_def)
  have lit: "spec_handled strftime_calendar GmtTime [c]" if "c \<noteq> CHR ''%''" for c
    using documentedD(1) [OF strftime_calendar_documented that] by (simp add: spec_handled_def spec_steady_def)
  have pc: "spec_handled strftime_calendar GmtTime ''%%''"
  proof -
    have "gmt_expansion n ''%%'' = ''%''" for n
      using gmt_expansion_simple [of "''%%''" n] by (simp add: conversion_spec_def gmt_spec_def modifier_type_def)
    then show ?thesis by (simp add: spec_handled_def spec_steady_def strftime_calendar_text)
  qed
  have "format_timestamps strftime_calendar [86398, 86399, 100000, 9, 100001] example_formatter
      = Some (map (strftime_format strftime_calendar GmtTime ''%r, %s %%H'') [86398, 86399, 100000, 9, 100001])"
  proof (rule timestamp_text_is_strftime [OF strftime_calendar_ok strftime_calendar_documented example_formatter, THEN conjunct1])
    show "\<forall>d \<in> set (format_specs ''%r, %s %%H''). conversion_spec d \<and> spec_handled strftime_calendar GmtTime d"
      unfolding example_specs using handled lit pc
      by (simp add: conversion_spec_def spec_prefixes_def spec_handled_def [of _ _ "''%s''"] time_modifiers_def)
    show "\<forall>t. expansion_length strftime_calendar GmtTime (format_specs ''%r, %s %%H'') t + 2 \<le> max_buffer_size"
      unfolding example_specs using example_length by blast
  qed simp
  moreover have "strftime_format strftime_calendar GmtTime ''%r, %s %%H'' t
      = modifier_text Type_I (nat (t mod 86400)) @ '':'' @ modifier_text Type_M (nat (t mod 86400)) @ '':'' @ modifier_text Type_S (nat (t mod 86400))
        @ '' '' @ (if nat (t mod 86400) < 43200 then ''AM'' else ''PM'') @ '', '' @ int_to_string t @ '' %H''" for t
  proof -
    have "expand_aliases (format_specs ''%r'') = [''%I'', '':'', ''%M'', '':'', ''%S'', '' '', ''%p'']" by code_simp
    then have r: "gmt_expansion n ''%r'' = modifier_text Type_I n @ '':'' @ modifier_text Type_M n @ '':'' @ modifier_text Type_S n
        @ '' '' @ (if n < 43200 then ''AM'' else ''PM'')" for n
      by (simp add: gmt_expansion_def gmt_spec_def modifier_type_def)
    have "gmt_expansion n ''%%'' = ''%''" for n
      using gmt_expansion_simple [of "''%%''" n] by (simp add: conversion_spec_def gmt_spec_def modifier_type_def)
    with r documentedD(1) [OF strftime_calendar_documented] show ?thesis
      unfolding strftime_format_def example_specs
      by (simp add: strftime_text_def part_text_def strftime_calendar_text [of _ "''%r''"] strftime_calendar_text [of _ "''%%''"])
  qed
  moreover have "map (\<lambda>t. modifier_text Type_I (nat (t mod 86400)) @ '':'' @ modifier_text Type_M (nat (t mod 86400)) @ '':'' @ modifier_text Type_S (nat (t mod 86400))
        @ '' '' @ (if nat (t mod 86400) < 43200 then ''AM'' else ''PM'') @ '', '' @ int_to_string t @ '' %H'') [86398, 86399, 100000, 9, 100001]
      = [''11:59:58 PM, 86398 %H'', ''11:59:59 PM, 86399 %H'', ''03:46:40 AM, 100000 %H'', ''12:00:09 AM, 9 %H'', ''03:46:41 AM, 100001 %H'']"
    by (simp add: modifier_text_def pad2_def hour12_def int_to_string_def to_string.simps) code_simp
  ultimately show ?thesis by simp
qed

end
