(* ===== verification/Timestamp_Formatter.thy ===== *)
theory Timestamp_Formatter
  imports String_From_Time
begin

text \<open>
  \<^verbatim>\<open>quill/backend/TimestampFormatter.h\<close>: a \<^verbatim>\<open>strftime\<close> format with at most one of the additional
  specifiers \<^verbatim>\<open>%Qms\<close>, \<^verbatim>\<open>%Qus\<close> and \<^verbatim>\<open>%Qns\<close>, which stand for the fraction of the second.
\<close>

subsection \<open>The class\<close>

datatype additional_specifier = Specifier_None | Qms | Qus | Qns

record timestamp_formatter =
  tf_time_format :: string
  tf_strftime_part_1 :: string_from_time
  tf_strftime_part_2 :: string_from_time
  tf_timestamp_timezone :: timezone
  tf_additional_format_specifier :: additional_specifier
  tf_has_format_part_2 :: bool

fun specifier_name :: "additional_specifier \<Rightarrow> string" where
  "specifier_name Specifier_None = ''''"
| "specifier_name Qms = ''%Qms''"
| "specifier_name Qus = ''%Qus''"
| "specifier_name Qns = ''%Qns''"

definition specifier_length :: nat where
  "specifier_length = 4"

text \<open>The search for the three specifiers: the specifier found and where it begins.\<close>

definition find_specifier :: "string \<Rightarrow> quill_error + additional_specifier \<times> nat option" where
  "find_specifier time_format =
     (let search_qms = find_unescaped_modifier time_format (specifier_name Qms);
          search_qus = find_unescaped_modifier time_format (specifier_name Qus);
          search_qns = find_unescaped_modifier time_format (specifier_name Qns);
          exclusive = QuillError ''format specifiers %Qms, %Qus and %Qns are mutually exclusive'';
          found_1 = (case search_qms of Some i \<Rightarrow> (Qms, Some i) | None \<Rightarrow> (Specifier_None, None))
      in case (case search_qus of
            None \<Rightarrow> Inr found_1
          | Some i \<Rightarrow> if snd found_1 \<noteq> None then Inl exclusive else Inr (Qus, Some i)) of
           Inl e \<Rightarrow> Inl e
         | Inr found_2 \<Rightarrow>
             (case search_qns of
                None \<Rightarrow> Inr found_2
              | Some i \<Rightarrow> if snd found_2 \<noteq> None then Inl exclusive else Inr (Qns, Some i)))"

definition tf_init :: "string \<Rightarrow> timezone \<Rightarrow> quill_error + timestamp_formatter" where
  "tf_init time_format timestamp_timezone =
     (case find_specifier time_format of
        Inl e \<Rightarrow> Inl e
      | Inr (specifier, specifier_begin) \<Rightarrow>
          let tf = \<lparr>tf_time_format = time_format, tf_strftime_part_1 = sft_default, tf_strftime_part_2 = sft_default,
                    tf_timestamp_timezone = timestamp_timezone, tf_additional_format_specifier = specifier,
                    tf_has_format_part_2 = False\<rparr>
          in (case specifier_begin of
                None \<Rightarrow> map_sum id (\<lambda>s. tf\<lparr>tf_strftime_part_1 := s\<rparr>) (sft_init time_format timestamp_timezone sft_default)
              | Some i \<Rightarrow>
                  (case sft_init (take i time_format) timestamp_timezone sft_default of
                     Inl e \<Rightarrow> Inl e
                   | Inr s1 \<Rightarrow>
                       let tf1 = tf\<lparr>tf_strftime_part_1 := s1\<rparr>;
                           format_part_2 = drop (i + specifier_length) time_format
                       in if format_part_2 = [] then Inr tf1
                          else map_sum id (\<lambda>s. tf1\<lparr>tf_strftime_part_2 := s, tf_has_format_part_2 := True\<rparr>)
                                 (sft_init format_part_2 timestamp_timezone sft_default))))"

fun specifier_digits :: "additional_specifier \<Rightarrow> nat" where
  "specifier_digits Specifier_None = 0"
| "specifier_digits Qms = 3"
| "specifier_digits Qus = 6"
| "specifier_digits Qns = 9"

text \<open>The loop of \<^verbatim>\<open>_write_fractional_seconds\<close>, which writes backwards from \<open>write_pos\<close>.\<close>

fun write_digits :: "nat \<Rightarrow> nat \<Rightarrow> u32 \<Rightarrow> string \<Rightarrow> string" where
  "write_digits 0 write_pos v formatted_date = formatted_date"
| "write_digits (Suc digits) write_pos v formatted_date =
     write_digits digits (write_pos - 1) (v div 10) (formatted_date[write_pos - 1 := char_of (48 + unat (v mod 10))])"

definition write_fractional_seconds :: "additional_specifier \<Rightarrow> u32 \<Rightarrow> string \<Rightarrow> string" where
  "write_fractional_seconds specifier extracted_fractional_seconds formatted_date =
     write_digits (specifier_digits specifier) (length formatted_date) extracted_fractional_seconds formatted_date"

definition append_fractional_seconds :: "additional_specifier \<Rightarrow> u32 \<Rightarrow> string \<Rightarrow> string" where
  "append_fractional_seconds specifier extracted_ns formatted_date =
     (case specifier of
        Specifier_None \<Rightarrow> formatted_date
      | Qms \<Rightarrow> write_fractional_seconds Qms (extracted_ns div 1000000) (formatted_date @ ''000'')
      | Qus \<Rightarrow> write_fractional_seconds Qus (extracted_ns div 1000) (formatted_date @ ''000000'')
      | Qns \<Rightarrow> write_fractional_seconds Qns extracted_ns (formatted_date @ ''000000000''))"

definition quotient :: "int \<Rightarrow> int \<Rightarrow> int" where
  "quotient a b = (if a \<ge> 0 then a div b else - (- a div b))"

definition tf_format_timestamp ::
  "calendar \<Rightarrow> int \<Rightarrow> timestamp_formatter \<Rightarrow> ((quill_error + string) \<times> timestamp_formatter) option" where
  "tf_format_timestamp cal timestamp_ns tf =
     (let timestamp_secs = quotient timestamp_ns 1000000000
      in case format_timestamp cal timestamp_secs (tf_strftime_part_1 tf) of
           None \<Rightarrow> None
         | Some (Inl e, s1) \<Rightarrow> Some (Inl e, tf\<lparr>tf_strftime_part_1 := s1\<rparr>)
         | Some (Inr text_1, s1) \<Rightarrow>
             let tf1 = tf\<lparr>tf_strftime_part_1 := s1\<rparr>;
                 extracted_ns = of_int (timestamp_ns - timestamp_secs * 1000000000) :: u32;
                 formatted_date = append_fractional_seconds (tf_additional_format_specifier tf) extracted_ns text_1
             in if tf_has_format_part_2 tf then
                  (case format_timestamp cal timestamp_secs (tf_strftime_part_2 tf1) of
                     None \<Rightarrow> None
                   | Some (Inl e, s2) \<Rightarrow> Some (Inl e, tf1\<lparr>tf_strftime_part_2 := s2\<rparr>)
                   | Some (Inr text_2, s2) \<Rightarrow> Some (Inr (formatted_date @ text_2), tf1\<lparr>tf_strftime_part_2 := s2\<rparr>))
                else Some (Inr formatted_date, tf1))"

subsection \<open>The fraction of a second\<close>

definition pad_left :: "nat \<Rightarrow> string \<Rightarrow> string" where
  "pad_left n s = replicate (n - length s) CHR ''0'' @ s"

definition fraction_text :: "additional_specifier \<Rightarrow> int \<Rightarrow> string" where
  "fraction_text specifier ns =
     (case specifier of
        Specifier_None \<Rightarrow> []
      | Qms \<Rightarrow> pad_left 3 (to_string (nat (ns div 1000000)))
      | Qus \<Rightarrow> pad_left 6 (to_string (nat (ns div 1000)))
      | Qns \<Rightarrow> pad_left 9 (to_string (nat ns)))"

fun digit_list :: "nat \<Rightarrow> nat \<Rightarrow> string" where
  "digit_list 0 n = []"
| "digit_list (Suc d) n = digit_list d (n div 10) @ [char_of (48 + n mod 10)]"

lemma length_digit_list [simp]: "length (digit_list d n) = d"
  by (induction d arbitrary: n) auto

lemma char_zero [simp]: "char_of (48::nat) = CHR ''0''"
  by code_simp

lemma digit_list_0: "digit_list d 0 = replicate d CHR ''0''"
  by (induction d) (simp_all add: replicate_append_same)

lemma digit_list_padded: "n < 10 ^ d \<Longrightarrow> 0 < d \<Longrightarrow> digit_list d n = pad_left d (to_string n)"
proof (induction d arbitrary: n)
  case (Suc d)
  show ?case
  proof (cases "n < 10")
    case True
    then have "to_string n = [char_of (48 + n)]" by (subst to_string.simps) simp
    with True show ?thesis by (simp add: digit_list_0 pad_left_def)
  next
    case False
    with Suc.prems(1) have "n div 10 < 10 ^ d" "d \<noteq> 0" by (auto intro: ccontr)
    then have "digit_list d (n div 10) = pad_left d (to_string (n div 10))" using Suc.IH by simp
    moreover have "to_string n = to_string (n div 10) @ [char_of (48 + n mod 10)]"
      using False by (subst to_string.simps) simp
    ultimately show ?thesis by (simp add: pad_left_def)
  qed
qed simp

lemma write_digits_list:
  "length old = d \<Longrightarrow> unat v = n \<Longrightarrow>
   write_digits d (length pre + d) v (pre @ old @ post) = pre @ digit_list d n @ post"
proof (induction d arbitrary: v n old post)
  case (Suc d)
  obtain xs x where old: "old = xs @ [x]" "length xs = d" using Suc.prems(1) by (metis length_Suc_conv_rev)
  have "unat (v div 10) = n div 10" "unat (v mod 10) = n mod 10" using Suc.prems(2) by (simp_all add: unat_div unat_mod)
  with Suc.IH [OF old(2), of "v div 10" "n div 10" "char_of (48 + n mod 10) # post"] old show ?case
    by (simp add: list_update_append)
qed simp

lemma append_fractional_text:
  assumes "0 \<le> ns" "ns < 1000000000"
  shows "append_fractional_seconds sp (of_int ns) s = s @ fraction_text sp ns"
proof -
  have u: "unat (of_int ns :: u32) = nat ns"
    using assms by (simp add: unat_of_nat_small flip: of_nat_nat)
  have w: "write_fractional_seconds sp v (s @ replicate (specifier_digits sp) CHR ''0'') = s @ pad_left (specifier_digits sp) (to_string (unat v))"
    if "unat v < 10 ^ specifier_digits sp" "sp \<noteq> Specifier_None" for v
    using write_digits_list [of "replicate (specifier_digits sp) CHR ''0''" "specifier_digits sp" v "unat v" s "[]"] that
      digit_list_padded [of "unat v" "specifier_digits sp"]
    by (cases sp) (simp_all add: write_fractional_seconds_def)
  have z: "replicate 3 CHR ''0'' = ''000''" "replicate 6 CHR ''0'' = ''000000''" "replicate 9 CHR ''0'' = ''000000000''"
    by (simp_all add: numeral_eq_Suc)
  have "unat ((of_int ns :: u32) div 1000000) = nat (ns div 1000000)" "unat ((of_int ns :: u32) div 1000) = nat (ns div 1000)"
    using assms by (simp_all add: unat_div u nat_div_distrib)
  moreover have "nat (ns div 1000000) < 1000" "nat (ns div 1000) < 1000000" "nat ns < 1000000000" using assms by auto
  ultimately show ?thesis
    using w [of "of_int ns div 1000000"] w [of "of_int ns div 1000"] w [of "of_int ns"]
    by (cases sp) (simp_all add: append_fractional_seconds_def fraction_text_def z u)
qed

subsection \<open>Formatting a sequence of timestamps\<close>

fun tf_format_timestamps :: "calendar \<Rightarrow> int list \<Rightarrow> timestamp_formatter \<Rightarrow> string list option" where
  "tf_format_timestamps cal [] tf = Some []"
| "tf_format_timestamps cal (t # ts) tf =
     (case tf_format_timestamp cal t tf of
        Some (Inr x, tf1) \<Rightarrow> map_option ((#) x) (tf_format_timestamps cal ts tf1)
      | _ \<Rightarrow> None)"

definition tf_text :: "calendar \<Rightarrow> timestamp_formatter \<Rightarrow> int \<Rightarrow> string" where
  "tf_text cal tf t = strftime_text cal (tf_timestamp_timezone tf) (sft_initial_parts (tf_strftime_part_1 tf)) (t div 1000000000)
     @ fraction_text (tf_additional_format_specifier tf) (t mod 1000000000)
     @ (if tf_has_format_part_2 tf
        then strftime_text cal (tf_timestamp_timezone tf) (sft_initial_parts (tf_strftime_part_2 tf)) (t div 1000000000) else [])"

definition tf_parts_ok :: "calendar \<Rightarrow> timestamp_formatter \<Rightarrow> bool" where
  "tf_parts_ok cal tf \<longleftrightarrow> (\<forall>p \<in> set (sft_initial_parts (tf_strftime_part_1 tf)) \<union> set (sft_initial_parts (tf_strftime_part_2 tf)).
     part_ok cal (tf_timestamp_timezone tf) p)"

definition tf_inv :: "calendar \<Rightarrow> timestamp_formatter \<Rightarrow> bool" where
  "tf_inv cal tf \<longleftrightarrow> sft_inv cal (tf_timestamp_timezone tf) (sft_initial_parts (tf_strftime_part_1 tf)) (tf_strftime_part_1 tf)
     \<and> (tf_has_format_part_2 tf \<longrightarrow>
          sft_inv cal (tf_timestamp_timezone tf) (sft_initial_parts (tf_strftime_part_2 tf)) (tf_strftime_part_2 tf))"

definition tf_same :: "timestamp_formatter \<Rightarrow> timestamp_formatter \<Rightarrow> bool" where
  "tf_same tf1 tf \<longleftrightarrow> sft_initial_parts (tf_strftime_part_1 tf1) = sft_initial_parts (tf_strftime_part_1 tf)
     \<and> sft_initial_parts (tf_strftime_part_2 tf1) = sft_initial_parts (tf_strftime_part_2 tf)
     \<and> tf_timestamp_timezone tf1 = tf_timestamp_timezone tf
     \<and> tf_additional_format_specifier tf1 = tf_additional_format_specifier tf
     \<and> tf_has_format_part_2 tf1 = tf_has_format_part_2 tf"

lemma tf_same_text: "tf_same tf1 tf \<Longrightarrow> tf_text cal tf1 t = tf_text cal tf t \<and> tf_parts_ok cal tf1 = tf_parts_ok cal tf"
  by (simp add: tf_same_def tf_text_def tf_parts_ok_def)

lemma tf_same_trans: "tf_same a b \<Longrightarrow> tf_same b c \<Longrightarrow> tf_same a c"
  by (simp add: tf_same_def)

lemma sft_inv_parts: "sft_inv cal tz ps s \<Longrightarrow> sft_initial_parts s = ps"
  by (simp add: sft_inv_def sft_parts_def)

lemma tf_format_step:
  assumes ok: "calendar_ok cal (tf_timestamp_timezone tf)" "tf_parts_ok cal tf" and inv: "tf_inv cal tf" and t: "0 \<le> t"
  shows "\<exists>tf1. tf_format_timestamp cal t tf = Some (Inr (tf_text cal tf t), tf1) \<and> tf_inv cal tf1 \<and> tf_same tf1 tf"
proof -
  let ?tz = "tf_timestamp_timezone tf" and ?s = "t div 1000000000"
  have secs: "quotient t 1000000000 = ?s" "t - ?s * 1000000000 = t mod 1000000000" "0 \<le> ?s"
    using t by (simp_all add: quotient_def minus_div_mult_eq_mod)
  have frac: "append_fractional_seconds sp (of_int (t mod 1000000000)) s = s @ fraction_text sp (t mod 1000000000)" for sp s
    by (rule append_fractional_text) simp_all
  obtain s1 where s1: "format_timestamp cal ?s (tf_strftime_part_1 tf)
      = Some (Inr (strftime_text cal ?tz (sft_initial_parts (tf_strftime_part_1 tf)) ?s), s1)"
    "sft_inv cal ?tz (sft_initial_parts (tf_strftime_part_1 tf)) s1"
    using format_step [OF ok(1), of "sft_initial_parts (tf_strftime_part_1 tf)" "tf_strftime_part_1 tf" ?s] ok(2) inv secs
    by (auto simp: tf_parts_ok_def tf_inv_def)
  show ?thesis
  proof (cases "tf_has_format_part_2 tf")
    case False
    with s1 show ?thesis
      by (auto simp: tf_format_timestamp_def Let_def secs frac tf_text_def tf_inv_def tf_same_def sft_inv_parts)
  next
    case True
    obtain s2 where s2: "format_timestamp cal ?s (tf_strftime_part_2 tf)
        = Some (Inr (strftime_text cal ?tz (sft_initial_parts (tf_strftime_part_2 tf)) ?s), s2)"
      "sft_inv cal ?tz (sft_initial_parts (tf_strftime_part_2 tf)) s2"
      using format_step [OF ok(1), of "sft_initial_parts (tf_strftime_part_2 tf)" "tf_strftime_part_2 tf" ?s] ok(2) inv secs True
      by (auto simp: tf_parts_ok_def tf_inv_def)
    with s1 True show ?thesis
      by (auto simp: tf_format_timestamp_def Let_def secs frac tf_text_def tf_inv_def tf_same_def sft_inv_parts)
  qed
qed

lemma tf_format_all:
  assumes "calendar_ok cal (tf_timestamp_timezone tf)" "tf_parts_ok cal tf" "tf_inv cal tf" "\<forall>t \<in> set ts. 0 \<le> t"
  shows "tf_format_timestamps cal ts tf = Some (map (tf_text cal tf) ts)"
  using assms
proof (induction ts arbitrary: tf)
  case (Cons t ts)
  obtain tf1 where tf1: "tf_format_timestamp cal t tf = Some (Inr (tf_text cal tf t), tf1)" "tf_inv cal tf1" "tf_same tf1 tf"
    using tf_format_step [of cal tf t] Cons.prems by auto
  moreover have "tf_format_timestamps cal ts tf1 = Some (map (tf_text cal tf1) ts)"
    using tf1 Cons.prems tf_same_text [OF tf1(3)] by (intro Cons.IH) (auto simp: tf_same_def)
  ultimately show ?case using tf_same_text [OF tf1(3)] by simp
qed simp

lemma map_sum_Inr: "map_sum id f x = Inr y \<longleftrightarrow> (\<exists>z. x = Inr z \<and> y = f z)"
  by (cases x) auto

lemma tf_init_inv:
  assumes "tf_init fmt tz = Inr tf"
  shows "tf_inv cal tf \<and> tf_timestamp_timezone tf = tz"
  using assms
  by (auto simp: tf_init_def tf_inv_def Let_def sft_init_inv map_sum_Inr split: sum.splits option.splits if_splits prod.splits)

text \<open>
  Every timestamp is formatted as the \<^verbatim>\<open>strftime\<close> text of its second, with the milliseconds,
  microseconds or nanoseconds of the second in place of the additional specifier, as exactly three,
  six or nine digits. The two caches in front of and behind the specifier do not disturb each other.
\<close>

theorem timestamp_formatter_text:
  assumes "calendar_ok cal tz" "tf_init fmt tz = Inr tf" "tf_parts_ok cal tf" "\<forall>t \<in> set ts. 0 \<le> t"
  shows "tf_format_timestamps cal ts tf = Some (map (tf_text cal tf) ts)"
  using tf_format_all [of cal tf ts] tf_init_inv [OF assms(2), of cal] assms by simp

definition example_timestamp_formatter :: timestamp_formatter where
  "example_timestamp_formatter = projr (tf_init ''%T.%Qus %k'' GmtTime)"

lemma example_timestamp_formatter:
  "tf_init ''%T.%Qus %k'' GmtTime = Inr example_timestamp_formatter"
  "sft_initial_parts (tf_strftime_part_1 example_timestamp_formatter) = [''%H'', '':'', ''%M'', '':'', ''%S'', ''.'']"
  "sft_initial_parts (tf_strftime_part_2 example_timestamp_formatter) = ['' '', ''%k'']"
  "tf_timestamp_timezone example_timestamp_formatter = GmtTime" "tf_has_format_part_2 example_timestamp_formatter"
  "tf_additional_format_specifier example_timestamp_formatter = Qus"
proof -
  let ?tf = "\<lparr>tf_time_format = ''%T.%Qus %k'',
     tf_strftime_part_1 = sft_default\<lparr>sft_timestamp_format := ''%H:%M:%S.'', sft_initial_parts := [''%H'', '':'', ''%M'', '':'', ''%S'', ''.'']\<rparr>,
     tf_strftime_part_2 = sft_default\<lparr>sft_timestamp_format := '' %k'', sft_initial_parts := ['' '', ''%k'']\<rparr>,
     tf_timestamp_timezone = GmtTime, tf_additional_format_specifier = Qus, tf_has_format_part_2 = True\<rparr>"
  have "tf_init ''%T.%Qus %k'' GmtTime = Inr ?tf" by code_simp
  then show "tf_init ''%T.%Qus %k'' GmtTime = Inr example_timestamp_formatter"
    "sft_initial_parts (tf_strftime_part_1 example_timestamp_formatter) = [''%H'', '':'', ''%M'', '':'', ''%S'', ''.'']"
    "sft_initial_parts (tf_strftime_part_2 example_timestamp_formatter) = ['' '', ''%k'']"
    "tf_timestamp_timezone example_timestamp_formatter = GmtTime" "tf_has_format_part_2 example_timestamp_formatter"
    "tf_additional_format_specifier example_timestamp_formatter = Qus"
    by (simp_all add: example_timestamp_formatter_def)
qed

theorem timestamp_formatter_text_witness:
  "tf_format_timestamps gmt_calendar [5000007000, 5999999999, 90061000042000] example_timestamp_formatter
   = Some [''00:00:05.000007  0'', ''00:00:05.999999  0'', ''01:01:01.000042  1'']"
proof -
  let ?ts = "[5000007000, 5999999999, 90061000042000]"
  have "tf_format_timestamps gmt_calendar ?ts example_timestamp_formatter
      = Some (map (tf_text gmt_calendar example_timestamp_formatter) ?ts)"
    by (rule timestamp_formatter_text [OF gmt_calendar_ok example_timestamp_formatter(1)])
      (auto simp: tf_parts_ok_def example_timestamp_formatter gmt_part_ok)
  moreover have "map (tf_text gmt_calendar example_timestamp_formatter) ?ts
      = [''00:00:05.000007  0'', ''00:00:05.999999  0'', ''01:01:01.000042  1'']"
    by (simp add: tf_text_def example_timestamp_formatter strftime_text_def part_text_def gmt_calendar_def modifier_type_def
        modifier_text_def pad2_def to_string.simps fraction_text_def pad_left_def) code_simp
  ultimately show ?thesis by simp
qed

end
