(* ===== verification/Pattern_Formatter.thy ===== *)
theory Pattern_Formatter
  imports Timestamp_Formatter Macro_Metadata
begin

text \<open>
  \<^verbatim>\<open>quill/backend/PatternFormatter.h\<close> and \<^verbatim>\<open>quill/core/PatternFormatterOptions.h\<close>: a pattern with
  \<^verbatim>\<open>%(attribute:specs)\<close> fields is turned into a fmt format string, parsed once with the parser of
  the bundled fmt library (\<^verbatim>\<open>bundled/fmt/base.h\<close>) and then written for every log statement. Parsing
  and writing fmt's own format specs are parameters (\<open>fmt_specs\<close>).
\<close>

subsection \<open>Options and attributes\<close>

datatype pattern_attribute =
    Attr_Time | Attr_FileName | Attr_CallerFunction | Attr_LogLevel | Attr_LogLevelShortCode | Attr_LineNumber | Attr_Logger
  | Attr_FullPath | Attr_ThreadId | Attr_ThreadName | Attr_ProcessId | Attr_SourceLocation | Attr_ShortSourceLocation
  | Attr_Message | Attr_Mdc | Attr_Tags | Attr_NamedArgs

definition pattern_attributes :: "pattern_attribute list" where
  "pattern_attributes =
     [Attr_Time, Attr_FileName, Attr_CallerFunction, Attr_LogLevel, Attr_LogLevelShortCode, Attr_LineNumber, Attr_Logger,
      Attr_FullPath, Attr_ThreadId, Attr_ThreadName, Attr_ProcessId, Attr_SourceLocation, Attr_ShortSourceLocation,
      Attr_Message, Attr_Mdc, Attr_Tags, Attr_NamedArgs]"

fun attribute_name :: "pattern_attribute \<Rightarrow> string" where
  "attribute_name Attr_Time = ''time''"
| "attribute_name Attr_FileName = ''file_name''"
| "attribute_name Attr_CallerFunction = ''caller_function''"
| "attribute_name Attr_LogLevel = ''log_level''"
| "attribute_name Attr_LogLevelShortCode = ''log_level_short_code''"
| "attribute_name Attr_LineNumber = ''line_number''"
| "attribute_name Attr_Logger = ''logger''"
| "attribute_name Attr_FullPath = ''full_path''"
| "attribute_name Attr_ThreadId = ''thread_id''"
| "attribute_name Attr_ThreadName = ''thread_name''"
| "attribute_name Attr_ProcessId = ''process_id''"
| "attribute_name Attr_SourceLocation = ''source_location''"
| "attribute_name Attr_ShortSourceLocation = ''short_source_location''"
| "attribute_name Attr_Message = ''message''"
| "attribute_name Attr_Mdc = ''mdc''"
| "attribute_name Attr_Tags = ''tags''"
| "attribute_name Attr_NamedArgs = ''named_args''"

definition attribute_from_string :: "string \<Rightarrow> pattern_attribute option" where
  "attribute_from_string name = find (\<lambda>a. attribute_name a = name) pattern_attributes"

record pattern_formatter_options =
  po_format_pattern :: string
  po_timestamp_pattern :: string
  po_source_location_path_strip_prefix :: string
  po_process_function_name :: "(string \<Rightarrow> string) option"
  po_timestamp_timezone :: timezone
  po_add_metadata_to_multi_line_logs :: bool
  po_source_location_remove_relative_paths :: bool
  po_pattern_suffix :: char

definition NO_SUFFIX :: char where
  "NO_SUFFIX = char_of (255 :: nat)"

definition po_default :: pattern_formatter_options where
  "po_default = \<lparr>po_format_pattern = ''%(time) [%(thread_id)] %(short_source_location:<28) LOG_%(log_level:<9) %(logger:<12) %(message)%(mdc)'',
     po_timestamp_pattern = ''%H:%M:%S.%Qns'', po_source_location_path_strip_prefix = '''', po_process_function_name = None,
     po_timestamp_timezone = LocalTime, po_add_metadata_to_multi_line_logs = True,
     po_source_location_remove_relative_paths = False, po_pattern_suffix = CHR 0x0A\<rparr>"

subsection \<open>From the pattern to a fmt format string\<close>

definition is_brace :: "char \<Rightarrow> bool" where
  "is_brace c \<longleftrightarrow> c = CHR ''{'' \<or> c = CHR ''}''"

fun escape_braces :: "string \<Rightarrow> string" where
  "escape_braces [] = []"
| "escape_braces [c] = (if is_brace c then [c, c] else [c])"
| "escape_braces (c # d # s) =
     (if is_brace c then (if d = c then c # c # escape_braces s else c # c # escape_braces (d # s))
      else c # escape_braces (d # s))"

text \<open>The replacement for one \<^verbatim>\<open>%(...)\<close>, given with both brackets, and the attribute's name.\<close>

definition field_replacement :: "string \<Rightarrow> string \<times> string" where
  "field_replacement attr =
     (case str_find '':'' attr of
        Some pos \<Rightarrow> (''{'' @ butlast (drop pos attr) @ ''}'', take (pos - 2) (drop 2 attr))
      | None \<Rightarrow> (''{}'', drop 2 (butlast attr)))"

record pattern_order =
  or_is_set_in_pattern :: "pattern_attribute \<Rightarrow> bool"
  or_order_index :: "pattern_attribute \<Rightarrow> nat"
  or_arg_idx :: nat

lemma str_find_char: "str_find [c] s = Some i \<Longrightarrow> i < length s \<and> s ! i = c"
  using str_find_Some [of "[c]" s i] by (cases "drop i s") (auto simp: nth_via_drop)

lemma field_replacement_shorter:
  assumes "attr = CHR ''%'' # CHR ''('' # s" "s \<noteq> []"
  shows "length (fst (field_replacement attr)) < length attr"
proof (cases "str_find '':'' attr")
  case (Some pos)
  with str_find_char [OF Some] assms(1) have "pos < length attr" "pos \<noteq> 0" "pos \<noteq> 1" by (auto simp: nth_Cons split: nat.splits)
  then show ?thesis by (auto simp: field_replacement_def Some)
qed (use assms in \<open>simp add: field_replacement_def\<close>)

text \<open>The search for the next \<^verbatim>\<open>%(\<close>: its position and that of the bracket that closes it.\<close>

definition closing_paren :: "string \<Rightarrow> nat \<Rightarrow> nat option option" where
  "closing_paren pattern arg_identifier_pos =
     (case find_from ''('' pattern arg_identifier_pos of
        Some open_paren_pos \<Rightarrow>
          if open_paren_pos - arg_identifier_pos = 1 then Some (find_from '')'' pattern open_paren_pos) else None
      | None \<Rightarrow> None)"

definition replace_range :: "nat \<Rightarrow> nat \<Rightarrow> string \<Rightarrow> string \<Rightarrow> string" where
  "replace_range pos len new s = take pos s @ new @ drop (pos + len) s"

lemma find_from_char: "find_from [c] s i = Some j \<Longrightarrow> i \<le> j \<and> j < length s \<and> s ! j = c"
  using find_from_Some [of "[c]" s i j] by (cases "drop j s") (auto simp: nth_via_drop)

lemma replacement_shortens:
  assumes "find_from ''%'' pattern i = Some pos" "closing_paren pattern pos = Some (Some closed)"
  defines "attr \<equiv> take (closed + 1 - pos) (drop pos pattern)"
  shows "length (replace_range pos (length attr) (fst (field_replacement attr)) pattern) < length pattern"
proof -
  obtain op where op: "find_from ''('' pattern pos = Some op" "op - pos = 1" "find_from '')'' pattern op = Some closed"
    using assms(2) by (auto simp: closing_paren_def split: option.splits if_splits)
  note f = find_from_char [OF assms(1)] find_from_char [OF op(1)] find_from_char [OF op(3)]
  then have o: "op = Suc pos" "op < closed" using op(2) by (auto intro: le_neq_implies_less)
  then have "drop pos pattern = CHR ''%'' # CHR ''('' # drop (Suc op) pattern" using f by (metis Cons_nth_drop_Suc)
  moreover obtain n where n: "closed + 1 - pos = Suc (Suc (Suc n))" using o by (intro that [of "closed - pos - 2"]) simp
  ultimately have "attr = CHR ''%'' # CHR ''('' # take (Suc n) (drop (Suc op) pattern)" by (simp add: attr_def)
  moreover have "take (Suc n) (drop (Suc op) pattern) \<noteq> []" using f o by auto
  ultimately have "length (fst (field_replacement attr)) < length attr" by (rule field_replacement_shorter)
  moreover have "length attr = closed + 1 - pos" using f by (auto simp: attr_def min_def)
  ultimately show ?thesis using f o by (auto simp: replace_range_def)
qed

function replace_attributes :: "string \<Rightarrow> nat \<Rightarrow> pattern_order \<Rightarrow> quill_error + string \<times> pattern_order" where
  "replace_attributes pattern from od =
     (case find_from ''%'' pattern from of
        None \<Rightarrow> Inr (pattern, od)
      | Some arg_identifier_pos \<Rightarrow>
          (case closing_paren pattern arg_identifier_pos of
             None \<Rightarrow> replace_attributes pattern (arg_identifier_pos + 1) od
           | Some None \<Rightarrow> Inl (QuillError ''Invalid format pattern'')
           | Some (Some closed_paren_pos) \<Rightarrow>
               let attr = take (closed_paren_pos + 1 - arg_identifier_pos) (drop arg_identifier_pos pattern);
                   (replacement, attr_name) = field_replacement attr;
                   pattern1 = replace_range arg_identifier_pos (length attr) replacement pattern
               in case attribute_from_string attr_name of
                    None \<Rightarrow> Inl (QuillError (''Invalid format pattern, invalid attribute '' @ attr_name))
                  | Some a \<Rightarrow>
                      if or_is_set_in_pattern od a
                      then Inl (QuillError (''Invalid format pattern, used more than once: '' @ attr_name))
                      else replace_attributes pattern1 0
                             \<lparr>or_is_set_in_pattern = (or_is_set_in_pattern od)(a := True),
                              or_order_index = (or_order_index od)(a := or_arg_idx od),
                              or_arg_idx = Suc (or_arg_idx od)\<rparr>))"
  by pat_completeness auto
termination
proof (relation "inv_image (less_than <*lex*> less_than) (\<lambda>(p, i, _). (length p, Suc (length p) - i))", goal_cases)
  case (2 pattern i od pos)
  then show ?case using find_from_char [OF 2(1)] by auto
next
  case (3 pattern i od pos b closed attr x replacement name pattern1 a)
  then show ?case using replacement_shortens [OF 3(1), of closed] by (auto simp: Let_def dest!: arg_cong [of "(replacement, name)" _ fst])
qed (auto intro!: wf_inv_image wf_lex_prod)

declare replace_attributes.simps [simp del]

definition order_new :: pattern_order where
  "order_new = \<lparr>or_is_set_in_pattern = (\<lambda>_. False), or_order_index = (\<lambda>_. 16), or_arg_idx = 0\<rparr>"

definition generate_fmt_format_string :: "pattern_formatter_options \<Rightarrow> string \<Rightarrow> quill_error + string \<times> pattern_order" where
  "generate_fmt_format_string options pattern =
     replace_attributes
       (escape_braces (if po_pattern_suffix options \<noteq> NO_SUFFIX then pattern @ [po_pattern_suffix options] else pattern)) 0 order_new"

subsection \<open>Parsing the fmt format string\<close>

text \<open>
  The library's side: \<^verbatim>\<open>parse_format_specs\<close> reads the specs after the colon and says how many
  characters they take; \<^verbatim>\<open>detail::write\<close> pads and truncates a text as they say.
\<close>

record 'spec fmt_specs =
  fs_parse :: "string \<Rightarrow> quill_error + 'spec \<times> nat"
  fs_dynamic :: "'spec \<Rightarrow> bool"
  fs_write :: "'spec \<Rightarrow> string \<Rightarrow> string"

record 'spec format_part =
  fp_literal_pos :: nat
  fp_literal_size :: nat
  fp_attribute :: pattern_attribute
  fp_specs :: "'spec option"

record 'spec format_part_parser =
  fpp_next_arg_id :: int
  fpp_attribute_by_arg_id :: "nat \<Rightarrow> pattern_attribute option"
  fpp_literal_buffer :: string
  fpp_format_parts :: "'spec format_part list"
  fpp_literal_begin :: nat

definition on_text :: "string \<Rightarrow> 'spec format_part_parser \<Rightarrow> 'spec format_part_parser" where
  "on_text s p = p\<lparr>fpp_literal_buffer := fpp_literal_buffer p @ s\<rparr>"

definition next_arg_id :: "'spec format_part_parser \<Rightarrow> quill_error + int \<times> 'spec format_part_parser" where
  "next_arg_id p =
     (if fpp_next_arg_id p < 0 then Inl (QuillError ''cannot switch from manual to automatic argument indexing'')
      else Inr (fpp_next_arg_id p, p\<lparr>fpp_next_arg_id := fpp_next_arg_id p + 1\<rparr>))"

definition check_arg_id :: "int \<Rightarrow> 'spec format_part_parser \<Rightarrow> quill_error + int \<times> 'spec format_part_parser" where
  "check_arg_id arg_id p =
     (if fpp_next_arg_id p > 0 then Inl (QuillError ''cannot switch from automatic to manual argument indexing'')
      else Inr (arg_id, p\<lparr>fpp_next_arg_id := -1\<rparr>))"

definition add_format_part :: "int \<Rightarrow> 'spec option \<Rightarrow> 'spec format_part_parser \<Rightarrow> quill_error + 'spec format_part_parser" where
  "add_format_part arg_id specs p =
     (case (if arg_id < 0 \<or> arg_id \<ge> 17 then None else fpp_attribute_by_arg_id p (nat arg_id)) of
        None \<Rightarrow> Inl (QuillError ''argument not found'')
      | Some a \<Rightarrow> Inr (p\<lparr>fpp_format_parts := fpp_format_parts p
             @ [\<lparr>fp_literal_pos = fpp_literal_begin p, fp_literal_size = length (fpp_literal_buffer p) - fpp_literal_begin p,
                 fp_attribute = a, fp_specs = specs\<rparr>],
           fpp_literal_begin := length (fpp_literal_buffer p)\<rparr>))"

text \<open>
  \<^verbatim>\<open>parse_arg_id\<close>: a decimal index or a name; the handler knows no names. The result is the index
  and what follows.
\<close>

definition parse_nonnegative_int :: "string \<Rightarrow> int \<Rightarrow> int" where
  "parse_nonnegative_int digits error_value =
     (if int (decimal_value 0 digits) \<le> 2147483647 \<and> length digits \<le> 10 then int (decimal_value 0 digits) else error_value)"

definition parse_arg_id ::
  "string \<Rightarrow> 'spec format_part_parser \<Rightarrow> quill_error + (int \<times> string) \<times> 'spec format_part_parser" where
  "parse_arg_id s p =
     (if s \<noteq> [] \<and> is_digit (hd s) then
        let digits = (if hd s \<noteq> CHR ''0'' then takeWhile is_digit s else [hd s]);
            index = (if hd s \<noteq> CHR ''0'' then parse_nonnegative_int digits 2147483647 else 0);
            rest = drop (length digits) s
        in if rest = [] \<or> hd rest \<noteq> CHR ''}'' \<and> hd rest \<noteq> CHR '':'' then Inl (QuillError ''invalid format string'')
           else map_sum id (\<lambda>(i, p1). ((i, rest), p1)) (check_arg_id index p)
      else if s = [] \<or> \<not> named_arg_start (hd s) then Inl (QuillError ''invalid format string'')
      else Inl (QuillError ''argument not found''))"

text \<open>The field that starts after the opening brace; the result is what follows its closing brace.\<close>

definition parse_field_specs ::
  "'spec fmt_specs \<Rightarrow> int \<Rightarrow> string \<Rightarrow> 'spec format_part_parser \<Rightarrow> quill_error + string \<times> 'spec format_part_parser" where
  "parse_field_specs lib arg_id s p =
     (case fs_parse lib s of
        Inl e \<Rightarrow> Inl e
      | Inr (specs, n) \<Rightarrow>
          if fs_dynamic lib specs then Inl (QuillError ''width/precision is not integer'')
          else case add_format_part arg_id (Some specs) p of
                 Inl e \<Rightarrow> Inl e
               | Inr p1 \<Rightarrow>
                   (case drop n s of
                      c # rest \<Rightarrow> if c = CHR ''}'' then Inr (rest, p1) else Inl (QuillError ''unknown format specifier'')
                    | [] \<Rightarrow> Inl (QuillError ''unknown format specifier'')))"

definition parse_replacement_field ::
  "'spec fmt_specs \<Rightarrow> string \<Rightarrow> 'spec format_part_parser \<Rightarrow> quill_error + string \<times> 'spec format_part_parser" where
  "parse_replacement_field lib s p =
     (case s of
        [] \<Rightarrow> Inl (QuillError ''invalid format string'')
      | c # rest \<Rightarrow>
          if c = CHR ''}'' then
            (case next_arg_id p of
               Inl e \<Rightarrow> Inl e
             | Inr (arg_id, p1) \<Rightarrow> map_sum (\<lambda>e. e) (Pair rest) (add_format_part arg_id None p1))
          else if c = CHR ''{'' then Inr (rest, on_text [c] p)
          else if c = CHR '':'' then
            (case next_arg_id p of Inl e \<Rightarrow> Inl e | Inr (arg_id, p1) \<Rightarrow> parse_field_specs lib arg_id rest p1)
          else
            (case parse_arg_id s p of
               Inl e \<Rightarrow> Inl e
             | Inr ((arg_id, d # rest), p1) \<Rightarrow>
                 if d = CHR ''}'' then map_sum (\<lambda>e. e) (Pair rest) (add_format_part arg_id None p1)
                 else if d = CHR '':'' then parse_field_specs lib arg_id rest p1
                 else Inl (QuillError ''missing '' )
             | Inr ((arg_id, []), p1) \<Rightarrow> Inl (QuillError ''missing '')))"

lemma parse_field_specs_shorter:
  "parse_field_specs lib arg_id s p = Inr (rest, p1) \<Longrightarrow> length rest < length s"
proof -
  assume "parse_field_specs lib arg_id s p = Inr (rest, p1)"
  then obtain n c where "drop n s = c # rest"
    by (auto simp: parse_field_specs_def split: sum.splits prod.splits if_splits list.splits)
  then have "length (drop n s) = Suc (length rest)" by simp
  then show ?thesis by simp
qed

lemma map_sum_Inr': "map_sum f g x = Inr y \<longleftrightarrow> (\<exists>z. x = Inr z \<and> y = g z)"
  by (cases x) auto

lemma parse_arg_id_shorter: "parse_arg_id s p = Inr ((arg_id, rest), p1) \<Longrightarrow> length rest \<le> length s"
  by (auto simp: parse_arg_id_def Let_def check_arg_id_def split: if_splits)

lemma parse_replacement_field_shorter:
  "parse_replacement_field lib s p = Inr (rest, p1) \<Longrightarrow> length rest < length s"
  by (auto simp: parse_replacement_field_def map_sum_Inr' split: list.splits if_splits sum.splits prod.splits
      dest!: parse_field_specs_shorter parse_arg_id_shorter)

function parse_format_string ::
  "'spec fmt_specs \<Rightarrow> string \<Rightarrow> string \<Rightarrow> 'spec format_part_parser \<Rightarrow> quill_error + 'spec format_part_parser" where
  "parse_format_string lib begun [] p = Inr (on_text begun p)"
| "parse_format_string lib begun (c # s) p =
     (if c = CHR ''{'' then
        (case parse_replacement_field lib s (on_text begun p) of
           Inl e \<Rightarrow> Inl e
         | Inr (rest, p1) \<Rightarrow> parse_format_string lib [] rest p1)
      else if c = CHR ''}'' then
        (case s of
           [] \<Rightarrow> Inl (QuillError ''unmatched brace in format string'')
         | d # s1 \<Rightarrow> if d \<noteq> CHR ''}'' then Inl (QuillError ''unmatched brace in format string'')
                     else parse_format_string lib [] s1 (on_text (begun @ [c]) p))
      else parse_format_string lib (begun @ [c]) s p)"
  by pat_completeness auto
termination
  by (relation "measure (\<lambda>(_, _, s, _). length s)") (auto dest: parse_replacement_field_shorter)

subsection \<open>The formatter\<close>

record 'spec pattern_formatter =
  pf_options :: pattern_formatter_options
  pf_literal_buffer :: string
  pf_format_parts :: "'spec format_part list"
  pf_trailing_literal_pos :: nat
  pf_attribute_values :: "pattern_attribute \<Rightarrow> string"
  pf_is_set_in_pattern :: "pattern_attribute \<Rightarrow> bool"
  pf_timestamp_formatter :: timestamp_formatter
  pf_formatted_log_message_buffer :: string

definition attributes_by_arg_id :: "pattern_order \<Rightarrow> nat \<Rightarrow> pattern_attribute option" where
  "attributes_by_arg_id od =
     fold (\<lambda>a m. if or_is_set_in_pattern od a then m(or_order_index od a \<mapsto> a) else m) pattern_attributes (\<lambda>_. None)"

definition format_part_parser_new :: "(nat \<Rightarrow> pattern_attribute option) \<Rightarrow> 'spec format_part_parser" where
  "format_part_parser_new attribute_by_arg_id =
     \<lparr>fpp_next_arg_id = 0, fpp_attribute_by_arg_id = attribute_by_arg_id, fpp_literal_buffer = [], fpp_format_parts = [],
      fpp_literal_begin = 0\<rparr>"

definition set_pattern :: "'spec fmt_specs \<Rightarrow> 'spec pattern_formatter \<Rightarrow> quill_error + 'spec pattern_formatter" where
  "set_pattern lib pf =
     (case generate_fmt_format_string (pf_options pf) (po_format_pattern (pf_options pf)) of
        Inl e \<Rightarrow> Inl e
      | Inr (fmt_format, od) \<Rightarrow>
          (case parse_format_string lib [] fmt_format (format_part_parser_new (attributes_by_arg_id od)) of
             Inl (QuillError e) \<Rightarrow> Inl (QuillError (''Invalid format pattern: '' @ e))
           | Inr p \<Rightarrow> Inr (pf\<lparr>pf_literal_buffer := fpp_literal_buffer p, pf_format_parts := fpp_format_parts p,
                              pf_trailing_literal_pos := fpp_literal_begin p,
                              pf_is_set_in_pattern := or_is_set_in_pattern od\<rparr>)))"

definition pf_new :: "'spec fmt_specs \<Rightarrow> pattern_formatter_options \<Rightarrow> quill_error + 'spec pattern_formatter" where
  "pf_new lib options =
     (case tf_init (po_timestamp_pattern options) (po_timestamp_timezone options) of
        Inl e \<Rightarrow> Inl e
      | Inr tf \<Rightarrow> set_pattern lib
          \<lparr>pf_options = options, pf_literal_buffer = [], pf_format_parts = [], pf_trailing_literal_pos = 0,
           pf_attribute_values = (\<lambda>_. []), pf_is_set_in_pattern = (\<lambda>_. False), pf_timestamp_formatter = tf,
           pf_formatted_log_message_buffer = []\<rparr>)"

text \<open>The arguments of \<^verbatim>\<open>format\<close> that stay the same for every line of a message.\<close>

record pattern_arguments =
  pa_timestamp :: u64
  pa_thread_id :: string
  pa_thread_name :: string
  pa_process_id :: string
  pa_logger :: string
  pa_log_level_description :: string
  pa_log_level_short_code :: string
  pa_log_statement_metadata :: macro_metadata
  pa_named_args :: "(string \<times> string) list option"
  pa_mdc :: string

definition rfind_string :: "string \<Rightarrow> string \<Rightarrow> nat option" where
  "rfind_string s p =
     (case filter (\<lambda>i. take (length p) (drop i s) = p) [0..<Suc (length s - length p)] of
        [] \<Rightarrow> None
      | is \<Rightarrow> Some (last is))"

definition process_source_location_path :: "string \<Rightarrow> string \<Rightarrow> bool \<Rightarrow> string" where
  "process_source_location_path source_location strip_prefix remove_relative_paths =
     (let forward_slash_pos = rfind_string source_location ''../'';
          backslash_pos = rfind_string source_location [CHR ''.'', CHR ''.'', CHR 0x5C];
          relative_path_pos = (case backslash_pos of
             None \<Rightarrow> forward_slash_pos
           | Some b \<Rightarrow> (case forward_slash_pos of None \<Rightarrow> Some b | Some f \<Rightarrow> if b > f then Some b else Some f));
          result = (if remove_relative_paths
                    then (case relative_path_pos of None \<Rightarrow> source_location | Some i \<Rightarrow> drop (i + 3) source_location)
                    else source_location)
      in if strip_prefix = [] then result
         else case rfind_string result strip_prefix of
                None \<Rightarrow> result
              | Some prefix_pos \<Rightarrow>
                  let after_prefix_pos = prefix_pos + length strip_prefix
                  in if after_prefix_pos < length result \<and> (result ! after_prefix_pos = CHR ''/'' \<or> result ! after_prefix_pos = CHR 0x5C)
                     then drop (after_prefix_pos + 1) result
                     else drop after_prefix_pos result)"

fun format_named_args :: "(string \<times> string) list \<Rightarrow> string" where
  "format_named_args [] = []"
| "format_named_args [(k, v)] = k @ '': '' @ v"
| "format_named_args ((k, v) # kv # kvs) = k @ '': '' @ v @ '', '' @ format_named_args (kv # kvs)"

fun attribute_value :: "pattern_formatter_options \<Rightarrow> pattern_arguments \<Rightarrow> string \<Rightarrow> string \<Rightarrow> pattern_attribute \<Rightarrow> string" where
  "attribute_value options args time log_msg Attr_Time = time"
| "attribute_value options args time log_msg Attr_FileName = mm_file_name (pa_log_statement_metadata args)"
| "attribute_value options args time log_msg Attr_CallerFunction =
     (case po_process_function_name options of
        Some f \<Rightarrow> f (mm_caller_function (pa_log_statement_metadata args))
      | None \<Rightarrow> mm_caller_function (pa_log_statement_metadata args))"
| "attribute_value options args time log_msg Attr_LogLevel = pa_log_level_description args"
| "attribute_value options args time log_msg Attr_LogLevelShortCode = pa_log_level_short_code args"
| "attribute_value options args time log_msg Attr_LineNumber = mm_line (pa_log_statement_metadata args)"
| "attribute_value options args time log_msg Attr_Logger = pa_logger args"
| "attribute_value options args time log_msg Attr_FullPath = mm_full_path (pa_log_statement_metadata args)"
| "attribute_value options args time log_msg Attr_ThreadId = pa_thread_id args"
| "attribute_value options args time log_msg Attr_ThreadName = pa_thread_name args"
| "attribute_value options args time log_msg Attr_ProcessId = pa_process_id args"
| "attribute_value options args time log_msg Attr_SourceLocation =
     process_source_location_path (mm_source_location (pa_log_statement_metadata args))
       (po_source_location_path_strip_prefix options) (po_source_location_remove_relative_paths options)"
| "attribute_value options args time log_msg Attr_ShortSourceLocation = mm_short_source_location (pa_log_statement_metadata args)"
| "attribute_value options args time log_msg Attr_NamedArgs =
     (case pa_named_args args of None \<Rightarrow> [] | Some kvs \<Rightarrow> format_named_args kvs)"
| "attribute_value options args time log_msg Attr_Mdc = pa_mdc args"
| "attribute_value options args time log_msg Attr_Tags =
     (case mm_tags (pa_log_statement_metadata args) of None \<Rightarrow> [] | Some tags \<Rightarrow> tags)"
| "attribute_value options args time log_msg Attr_Message = log_msg"

definition write_format_part :: "'spec fmt_specs \<Rightarrow> string \<Rightarrow> (pattern_attribute \<Rightarrow> string) \<Rightarrow> 'spec format_part \<Rightarrow> string" where
  "write_format_part lib literals values part =
     take (fp_literal_size part) (drop (fp_literal_pos part) literals)
     @ (case fp_specs part of
          None \<Rightarrow> values (fp_attribute part)
        | Some specs \<Rightarrow> fs_write lib specs (values (fp_attribute part)))"

text \<open>\<^verbatim>\<open>_format\<close>: one line is appended to the buffer.\<close>

definition pf_format_line ::
  "calendar \<Rightarrow> 'spec fmt_specs \<Rightarrow> pattern_arguments \<Rightarrow> string \<Rightarrow> 'spec pattern_formatter
   \<Rightarrow> ((quill_error + string) \<times> 'spec pattern_formatter) option" where
  "pf_format_line cal lib args log_msg pf =
     (case (if pf_is_set_in_pattern pf Attr_Time
            then tf_format_timestamp cal (sint (pa_timestamp args)) (pf_timestamp_formatter pf)
            else Some (Inr (pf_attribute_values pf Attr_Time), pf_timestamp_formatter pf)) of
        None \<Rightarrow> None
      | Some (Inl e, tf) \<Rightarrow> Some (Inl e, pf\<lparr>pf_timestamp_formatter := tf\<rparr>)
      | Some (Inr time, tf) \<Rightarrow>
          let values = (\<lambda>a. if pf_is_set_in_pattern pf a \<or> a = Attr_Message
                            then attribute_value (pf_options pf) args time log_msg a else pf_attribute_values pf a);
              buffer = pf_formatted_log_message_buffer pf
                @ concat (map (write_format_part lib (pf_literal_buffer pf) values) (pf_format_parts pf))
                @ drop (pf_trailing_literal_pos pf) (pf_literal_buffer pf)
          in Some (Inr buffer, pf\<lparr>pf_timestamp_formatter := tf, pf_attribute_values := values,
                                   pf_formatted_log_message_buffer := buffer\<rparr>))"

function pf_format_lines ::
  "calendar \<Rightarrow> 'spec fmt_specs \<Rightarrow> pattern_arguments \<Rightarrow> string \<Rightarrow> nat \<Rightarrow> string \<Rightarrow> 'spec pattern_formatter
   \<Rightarrow> ((quill_error + string) \<times> 'spec pattern_formatter) option" where
  "pf_format_lines cal lib args log_msg start formatted_log_msg pf =
     (if start < length log_msg then
        (case find_from [CHR 0x0A] log_msg start of
           None \<Rightarrow> pf_format_line cal lib args (drop start log_msg) pf
         | Some newline \<Rightarrow>
             let line_length = newline - start + (if po_pattern_suffix (pf_options pf) \<noteq> CHR 0x0A then 1 else 0)
             in (case pf_format_line cal lib args (take line_length (drop start log_msg)) pf of
                   Some (Inr formatted, pf1) \<Rightarrow> pf_format_lines cal lib args log_msg (newline + 1) formatted pf1
                 | result \<Rightarrow> result))
      else Some (Inr formatted_log_msg, pf))"
  by pat_completeness auto
termination
  by (relation "measure (\<lambda>(_, _, _, s, i, _, _). length s - i)") (auto dest: find_from_char)

declare pf_format_lines.simps [simp del]

definition pf_format ::
  "calendar \<Rightarrow> 'spec fmt_specs \<Rightarrow> pattern_arguments \<Rightarrow> string \<Rightarrow> 'spec pattern_formatter
   \<Rightarrow> ((quill_error + string) \<times> 'spec pattern_formatter) option" where
  "pf_format cal lib args log_msg pf =
     (if po_format_pattern (pf_options pf) = [] then Some (Inr [], pf)
      else let pf0 = pf\<lparr>pf_formatted_log_message_buffer := []\<rparr>
           in if log_msg = [] then pf_format_line cal lib args log_msg pf0
              else if po_add_metadata_to_multi_line_logs (pf_options pf)
                   \<and> (case pa_named_args args of None \<Rightarrow> True | Some kvs \<Rightarrow> kvs = [])
              then pf_format_lines cal lib args log_msg 0 [] pf0
              else let log_message_size = (if po_pattern_suffix (pf_options pf) = CHR 0x0A \<and> last log_msg = CHR 0x0A
                                           then length log_msg - 1 else length log_msg)
                   in pf_format_line cal lib args (take log_message_size log_msg) pf0)"

end
