(* ===== verification/Pattern_Text.thy ===== *)
theory Pattern_Text
  imports Pattern_Formatter
begin

text \<open>
  What a pattern formatter writes. A pattern is seen as fields with the literal text in front of
  each and the text behind the last one; the theorem of this theory says that a formatted statement
  is that text with every field replaced by the attribute's value, line by line.
\<close>

subsection \<open>Patterns as fields and literals\<close>

type_synonym pattern_field = "string \<times> pattern_attribute \<times> string option"

definition spec_part :: "string option \<Rightarrow> string" where
  "spec_part sp = (case sp of None \<Rightarrow> [] | Some s \<Rightarrow> CHR '':'' # s)"

definition field_source :: "pattern_attribute \<Rightarrow> string option \<Rightarrow> string" where
  "field_source a sp = ''%('' @ attribute_name a @ spec_part sp @ '')''"

definition fmt_field :: "string option \<Rightarrow> string" where
  "fmt_field sp = ''{'' @ spec_part sp @ ''}''"

definition pattern_source :: "pattern_field list \<Rightarrow> string \<Rightarrow> string" where
  "pattern_source segs trailing = concat (map (\<lambda>(l, a, sp). l @ field_source a sp) segs) @ trailing"

text \<open>One brace of a doubled pair stands for both; a single brace stands for itself.\<close>

fun literal_text :: "string \<Rightarrow> string" where
  "literal_text [] = []"
| "literal_text [c] = [c]"
| "literal_text (c # d # s) = (if is_brace c \<and> d = c then c # literal_text s else c # literal_text (d # s))"

fun has_field :: "string \<Rightarrow> bool" where
  "has_field (c # d # s) = (c = CHR ''%'' \<and> d = CHR ''('' \<or> has_field (d # s))"
| "has_field s = False"

definition spec_chars_ok :: "string option \<Rightarrow> bool" where
  "spec_chars_ok sp = (case sp of None \<Rightarrow> True
     | Some s \<Rightarrow> \<not> has_field s \<and> CHR '')'' \<notin> set s \<and> list_all (\<lambda>c. \<not> is_brace c) s)"

definition spec_readable :: "'spec fmt_specs \<Rightarrow> string option \<Rightarrow> bool" where
  "spec_readable lib sp = (case sp of None \<Rightarrow> True
     | Some s \<Rightarrow> (\<exists>specs. (\<forall>rest. fs_parse lib (s @ CHR ''}'' # rest) = Inr (specs, length s)) \<and> \<not> fs_dynamic lib specs))"

definition field_text :: "'spec fmt_specs \<Rightarrow> string option \<Rightarrow> string \<Rightarrow> string" where
  "field_text lib sp v = (case sp of None \<Rightarrow> v
     | Some s \<Rightarrow> (case fs_parse lib (s @ ''}'') of Inl e \<Rightarrow> v | Inr (specs, n) \<Rightarrow> fs_write lib specs v))"

definition pattern_wf :: "'spec fmt_specs \<Rightarrow> pattern_field list \<Rightarrow> string \<Rightarrow> bool" where
  "pattern_wf lib segs trailing \<longleftrightarrow> distinct (map (fst \<circ> snd) segs) \<and> \<not> has_field trailing
     \<and> (\<forall>(l, a, sp) \<in> set segs. \<not> has_field l \<and> spec_chars_ok sp \<and> spec_readable lib sp)"

subsection \<open>Searching\<close>

lemma has_field_append:
  "has_field (a @ b) \<longleftrightarrow> has_field a \<or> has_field b \<or> (hd b = CHR ''('' \<and> last a = CHR ''%'' \<and> a \<noteq> [] \<and> b \<noteq> [])"
proof (induction a)
  case (Cons c a)
  then show ?case by (cases a; cases b) auto
qed simp

lemma has_field_str_find: "str_find ''%('' s = None \<longleftrightarrow> \<not> has_field s"
  by (induction s rule: has_field.induct) (auto split: if_splits)

lemma has_field_nth: "\<not> has_field s \<Longrightarrow> Suc i < length s \<Longrightarrow> \<not> (s ! i = CHR ''%'' \<and> s ! Suc i = CHR ''('')"
proof (induction s arbitrary: i rule: has_field.induct)
  case (1 c d s)
  then show ?case by (cases i) auto
qed auto

lemma str_find_one: "str_find [c] s = (if c \<in> set s then Some (length (takeWhile (\<lambda>x. x \<noteq> c) s)) else None)"
  by (induction s) auto

lemma find_from_skip: "c \<notin> set b \<Longrightarrow> find_from [c] (a @ b @ c # r) (length a) = Some (length a + length b)"
  using str_find_skip [of c b "[]" r] by (simp add: find_from_def)

text \<open>The loop over the percent signs stops at the first field, or runs to the end.\<close>

lemma replace_attributes_jump:
  assumes "\<not> has_field pre" "i \<le> length pre"
  shows "replace_attributes (pre @ ''%('' @ r) i od = replace_attributes (pre @ ''%('' @ r) (length pre) od"
  using assms(2)
proof (induction "length pre - i" arbitrary: i rule: less_induct)
  case less
  let ?s = "pre @ ''%('' @ r"
  show ?case
  proof (cases "i = length pre")
    case False
    with less.prems have i: "i < length pre" by simp
    have "take 1 (drop (length pre) ?s) = ''%''" by simp
    then obtain pos where pos: "find_from ''%'' ?s i = Some pos" "pos \<le> length pre"
      using find_from_complete [of "''%''" "length pre" ?s i] less.prems by auto
    note p = find_from_char [OF pos(1)]
    show ?thesis
    proof (cases "pos = length pre")
      case True
      then have "find_from ''%'' ?s (length pre) = Some pos" by (simp add: find_from_def)
      with pos(1) show ?thesis by (subst (1 2) replace_attributes.simps) simp
    next
      case before: False
      have "closing_paren ?s pos = None"
      proof (cases "find_from ''('' ?s pos")
        case (Some op)
        have "op \<noteq> Suc pos"
        proof
          assume "op = Suc pos"
          with find_from_char [OF Some] have "?s ! Suc pos = CHR ''(''" by simp
          moreover have "?s ! Suc pos \<noteq> CHR ''(''"
          proof (cases "Suc pos = length pre")
            case False
            with before pos(2) p have "pre ! pos = CHR ''%''" "Suc pos < length pre" by (auto simp: nth_append)
            with has_field_nth [OF assms(1), of pos] show ?thesis by (simp add: nth_append)
          qed (simp add: nth_append)
          ultimately show False by simp
        qed
        with Some show ?thesis by (simp add: closing_paren_def)
      qed (simp add: closing_paren_def)
      then have "replace_attributes ?s i od = replace_attributes ?s (pos + 1) od"
        using pos(1) by (subst replace_attributes.simps) simp
      moreover have "length pre - (pos + 1) < length pre - i" "pos + 1 \<le> length pre" using p before pos(2) i by auto
      ultimately show ?thesis using less.hyps [of "pos + 1"] by simp
    qed
  qed simp
qed

lemma replace_attributes_end: "\<not> has_field s \<Longrightarrow> replace_attributes s i od = Inr (s, od)"
proof (induction "Suc (length s) - i" arbitrary: i rule: less_induct)
  case less
  show ?case
  proof (cases "find_from ''%'' s i")
    case (Some pos)
    note p = find_from_char [OF Some]
    have "closing_paren s pos = None"
    proof (cases "find_from ''('' s pos")
      case (Some op)
      with find_from_char [OF Some] p has_field_nth [OF less.prems, of pos] have "op \<noteq> Suc pos" by auto
      with Some show ?thesis by (simp add: closing_paren_def)
    qed (simp add: closing_paren_def)
    with Some p less show ?thesis by (subst replace_attributes.simps) auto
  qed (subst replace_attributes.simps, simp)
qed

subsection \<open>One replacement\<close>

lemma attribute_name_chars: "CHR '':'' \<notin> set (attribute_name a)" "CHR '')'' \<notin> set (attribute_name a)"
    "list_all (\<lambda>c. \<not> is_brace c) (attribute_name a)" "attribute_from_string (attribute_name a) = Some a"
  by (cases a; simp add: is_brace_def attribute_from_string_def pattern_attributes_def)+

lemma escape_skip: "\<not> is_brace c \<Longrightarrow> escape_braces (l @ c # s) = escape_braces l @ c # escape_braces s"
proof (induction l rule: escape_braces.induct)
  case 1
  then show ?case by (cases s) auto
next
  case (2 x)
  then show ?case by (cases s) auto
next
  case (3 x y s)
  then show ?case by auto
qed

lemma escape_plain: "list_all (\<lambda>c. \<not> is_brace c) f \<Longrightarrow> escape_braces (f @ s) = f @ escape_braces s"
  by (induction f) (use escape_skip [of _ "[]"] in auto)

lemma field_source_plain: "spec_chars_ok sp \<Longrightarrow> list_all (\<lambda>c. \<not> is_brace c) (field_source a sp)"
  using attribute_name_chars(3) [of a]
  by (auto simp: field_source_def spec_part_def spec_chars_ok_def is_brace_def split: option.splits)

lemma escape_segment:
  assumes "spec_chars_ok sp"
  shows "escape_braces (l @ field_source a sp @ s) = escape_braces l @ field_source a sp @ escape_braces s"
proof -
  have "escape_braces (field_source a sp @ s) = field_source a sp @ escape_braces s"
    by (rule escape_plain [OF field_source_plain [OF assms]])
  then show ?thesis
    using escape_skip [of "CHR ''%''" l "tl (field_source a sp) @ s"] escape_skip [of "CHR ''%''" "[]" "tl (field_source a sp) @ s"]
    by (simp add: field_source_def is_brace_def)
qed

lemma escape_hd: "s \<noteq> [] \<Longrightarrow> escape_braces s \<noteq> [] \<and> hd (escape_braces s) = hd s"
  by (cases s rule: escape_braces.cases) auto

lemma has_field_escape: "has_field (escape_braces s) = has_field s"
proof (induction s rule: escape_braces.induct)
  case (3 c d s)
  show ?case
  proof (cases "is_brace c \<and> d = c")
    case True
    then have "c \<noteq> CHR ''%''" "d \<noteq> CHR ''%''" by (auto simp: is_brace_def)
    with True 3 show ?thesis using escape_hd [of s] by (cases s; cases "escape_braces s") auto
  next
    case False
    with 3 escape_hd [of "d # s"] show ?thesis by (cases "escape_braces (d # s)") (auto simp: is_brace_def)
  qed
qed auto

lemma field_replacement_source:
  assumes "spec_chars_ok sp"
  shows "field_replacement (field_source a sp) = (fmt_field sp, attribute_name a)"
proof (cases sp)
  case None
  have "str_find '':'' (field_source a None) = None"
    using attribute_name_chars(1) [of a] by (intro str_find_none) (simp add: field_source_def spec_part_def)
  with None show ?thesis by (simp add: field_replacement_def field_source_def fmt_field_def spec_part_def butlast_append)
next
  case (Some s)
  have "str_find '':'' ((''%('' @ attribute_name a) @ CHR '':'' # s @ '')'') = Some (length (''%('' @ attribute_name a))"
    using attribute_name_chars(1) [of a] str_find_skip [of "CHR '':''" "''%('' @ attribute_name a" "[]" "s @ '')''"] by simp
  then have "str_find '':'' (field_source a sp) = Some (2 + length (attribute_name a))"
    by (simp add: Some field_source_def spec_part_def)
  then show ?thesis
    by (simp add: field_replacement_def field_source_def fmt_field_def spec_part_def Some butlast_append)
qed

definition order_add :: "pattern_attribute \<Rightarrow> pattern_order \<Rightarrow> pattern_order" where
  "order_add a od = \<lparr>or_is_set_in_pattern = (or_is_set_in_pattern od)(a := True),
     or_order_index = (or_order_index od)(a := or_arg_idx od), or_arg_idx = Suc (or_arg_idx od)\<rparr>"

lemma replace_attributes_step:
  assumes "\<not> has_field pre" "spec_chars_ok sp"
  shows "replace_attributes (pre @ field_source a sp @ post) 0 od
    = (if or_is_set_in_pattern od a
       then Inl (QuillError (''Invalid format pattern, used more than once: '' @ attribute_name a))
       else replace_attributes (pre @ fmt_field sp @ post) 0 (order_add a od))"
proof -
  let ?inner = "attribute_name a @ spec_part sp"
  let ?s = "pre @ field_source a sp @ post"
  have s: "?s = pre @ ''%('' @ ?inner @ '')'' @ post" by (simp add: field_source_def)
  have c: "CHR '')'' \<notin> set ?inner"
    using attribute_name_chars(2) [of a] assms(2) by (auto simp: spec_part_def spec_chars_ok_def split: option.splits)
  have "find_from '')'' ((pre @ ''%'') @ (CHR ''('' # ?inner) @ CHR '')'' # post) (length (pre @ ''%''))
      = Some (length (pre @ ''%'') + length (CHR ''('' # ?inner))"
    by (rule find_from_skip) (use c in simp)
  then have close: "find_from '')'' ?s (Suc (length pre)) = Some (length pre + 2 + length ?inner)"
    unfolding s by simp
  have pc: "find_from ''%'' ?s (length pre) = Some (length pre)"
    using find_from_skip [of "CHR ''%''" "[]" pre "CHR ''('' # ?inner @ '')'' @ post"] unfolding s by simp
  have "find_from ''('' ?s (length pre) = Some (Suc (length pre))"
    using find_from_skip [of "CHR ''(''" "''%''" pre "?inner @ '')'' @ post"] unfolding s by simp
  then have "closing_paren ?s (length pre) = Some (Some (length pre + 2 + length ?inner))"
    using close by (simp add: closing_paren_def)
  moreover have len: "length (field_source a sp) = 3 + length ?inner" by (simp add: field_source_def)
  then have "take (length pre + 2 + length ?inner + 1 - length pre) (drop (length pre) ?s) = field_source a sp" by simp
  moreover have "replace_range (length pre) (length (field_source a sp)) (fmt_field sp) ?s = pre @ fmt_field sp @ post"
    by (simp add: replace_range_def)
  ultimately have "replace_attributes ?s (length pre) od
    = (if or_is_set_in_pattern od a
       then Inl (QuillError (''Invalid format pattern, used more than once: '' @ attribute_name a))
       else replace_attributes (pre @ fmt_field sp @ post) 0 (order_add a od))"
    by (subst replace_attributes.simps)
      (simp only: pc option.case Let_def field_replacement_source [OF assms(2)] prod.case attribute_name_chars(4) order_add_def)
  then show ?thesis using replace_attributes_jump [OF assms(1), of 0] unfolding s by simp
qed

lemma fmt_field_no_field: "spec_chars_ok sp \<Longrightarrow> \<not> has_field (fmt_field sp)"
proof (cases sp)
  case (Some s)
  assume "spec_chars_ok sp"
  with Some have "\<not> has_field s" by (simp add: spec_chars_ok_def)
  then show ?thesis
    using has_field_append [of "''{:''" "s @ ''}''"] has_field_append [of s "''}''"] Some by (simp add: fmt_field_def spec_part_def)
qed (simp add: fmt_field_def spec_part_def)

subsection \<open>All replacements\<close>

fun order_fold :: "pattern_field list \<Rightarrow> pattern_order \<Rightarrow> pattern_order" where
  "order_fold [] od = od"
| "order_fold ((l, a, sp) # segs) od = order_fold segs (order_add a od)"

definition fmt_source :: "pattern_field list \<Rightarrow> string \<Rightarrow> string" where
  "fmt_source segs trailing = concat (map (\<lambda>(l, a, sp). escape_braces l @ fmt_field sp) segs) @ escape_braces trailing"

definition escaped_source :: "pattern_field list \<Rightarrow> string \<Rightarrow> string" where
  "escaped_source segs trailing = concat (map (\<lambda>(l, a, sp). escape_braces l @ field_source a sp) segs) @ escape_braces trailing"

lemma escape_pattern:
  "\<forall>(l, a, sp) \<in> set segs. spec_chars_ok sp \<Longrightarrow> escape_braces (pattern_source segs trailing) = escaped_source segs trailing"
  by (induction segs) (auto simp: pattern_source_def escaped_source_def escape_segment)

lemma replace_all:
  assumes "distinct (map (fst \<circ> snd) segs)" "\<not> has_field trailing"
    and "\<forall>(l, a, sp) \<in> set segs. \<not> has_field l \<and> spec_chars_ok sp \<and> \<not> or_is_set_in_pattern od a"
    and "\<not> has_field pre" "pre = [] \<or> last pre \<noteq> CHR ''%''"
  shows "replace_attributes (pre @ escaped_source segs trailing) 0 od = Inr (pre @ fmt_source segs trailing, order_fold segs od)"
  using assms(1,3-)
proof (induction segs arbitrary: pre od)
  case Nil
  with assms(2) show ?case
    by (auto simp: escaped_source_def fmt_source_def has_field_append has_field_escape intro!: replace_attributes_end)
next
  case (Cons seg segs)
  obtain l a sp where seg: "seg = (l, a, sp)" by (cases seg) auto
  with Cons.prems have ok: "\<not> has_field l" "spec_chars_ok sp" "\<not> or_is_set_in_pattern od a" by auto
  let ?pre = "pre @ escape_braces l"
  have np: "\<not> has_field ?pre" using Cons.prems ok by (auto simp: has_field_append has_field_escape)
  have last: "last (fmt_field sp) = CHR ''}''" "fmt_field sp \<noteq> []" "hd (fmt_field sp) = CHR ''{''" by (simp_all add: fmt_field_def)
  have nf: "\<not> has_field (?pre @ fmt_field sp)"
    using np fmt_field_no_field [OF ok(2)] last by (subst has_field_append) simp
  have "replace_attributes (pre @ escaped_source (seg # segs) trailing) 0 od
      = replace_attributes (?pre @ field_source a sp @ escaped_source segs trailing) 0 od"
    by (simp add: escaped_source_def seg)
  also have "\<dots> = replace_attributes ((?pre @ fmt_field sp) @ escaped_source segs trailing) 0 (order_add a od)"
    using replace_attributes_step [OF np ok(2)] ok(3) by simp
  also have "\<dots> = Inr ((?pre @ fmt_field sp) @ fmt_source segs trailing, order_fold segs (order_add a od))"
  proof (rule Cons.IH)
    have "\<forall>(l, b, sp) \<in> set segs. b \<noteq> a" using Cons.prems(1) by (force simp: seg)
    with Cons.prems(2) show "\<forall>(l, b, sp) \<in> set segs. \<not> has_field l \<and> spec_chars_ok sp \<and> \<not> or_is_set_in_pattern (order_add a od) b"
      by (fastforce simp: order_add_def split: if_splits)
  qed (use Cons.prems(1) nf last in \<open>simp_all add: seg\<close>)
  finally show ?case by (simp add: fmt_source_def seg)
qed

subsection \<open>Parsing the replaced pattern\<close>

lemma parse_literal:
  "\<exists>begun' buf. parse_format_string lib begun (escape_braces l @ rest) p
       = parse_format_string lib begun' rest (p\<lparr>fpp_literal_buffer := buf\<rparr>)
     \<and> buf @ begun' = fpp_literal_buffer p @ begun @ literal_text l"
proof (induction l arbitrary: begun p rule: escape_braces.induct)
  case 1
  show ?case by (rule exI [of _ begun], rule exI [of _ "fpp_literal_buffer p"]) simp
next
  case (2 c)
  show ?case
  proof (cases "is_brace c")
    case True
    then show ?thesis
      by (intro exI [of _ "[]"] exI [of _ "fpp_literal_buffer p @ begun @ [c]"])
        (auto simp: is_brace_def on_text_def parse_replacement_field_def)
  next
    case False
    then show ?thesis
      by (intro exI [of _ "begun @ [c]"] exI [of _ "fpp_literal_buffer p"]) (auto simp: is_brace_def)
  qed
next
  case (3 c d s)
  let ?p = "p\<lparr>fpp_literal_buffer := fpp_literal_buffer p @ begun @ [c]\<rparr>"
  have pair: "parse_format_string lib begun (c # c # r) p = parse_format_string lib [] r ?p" if "is_brace c" for r
    using that by (auto simp: is_brace_def on_text_def parse_replacement_field_def)
  show ?case
  proof (cases "is_brace c")
    case True
    show ?thesis
    proof (cases "d = c")
      case same: True
      from "3.IH"(1) [OF True same, of "[]" ?p] show ?thesis using True same pair by simp
    next
      case False
      from "3.IH"(2) [OF True False, of "[]" ?p] show ?thesis using True False pair by simp
    qed
  next
    case False
    from "3.IH"(3) [OF False, of "begun @ [c]" p] False show ?thesis by (auto simp: is_brace_def)
  qed
qed

definition spec_of :: "'spec fmt_specs \<Rightarrow> string option \<Rightarrow> 'spec option" where
  "spec_of lib sp = (case sp of None \<Rightarrow> None
     | Some s \<Rightarrow> (case fs_parse lib (s @ ''}'') of Inl e \<Rightarrow> None | Inr (specs, n) \<Rightarrow> Some specs))"

lemma parse_field:
  assumes "spec_readable lib sp" "fpp_next_arg_id p = int k" "k < 17" "fpp_attribute_by_arg_id p k = Some a"
  shows "parse_format_string lib begun (fmt_field sp @ rest) p
    = parse_format_string lib [] rest (p\<lparr>fpp_literal_buffer := fpp_literal_buffer p @ begun, fpp_next_arg_id := int k + 1,
        fpp_format_parts := fpp_format_parts p @ [\<lparr>fp_literal_pos = fpp_literal_begin p,
          fp_literal_size = length (fpp_literal_buffer p @ begun) - fpp_literal_begin p, fp_attribute = a, fp_specs = spec_of lib sp\<rparr>],
        fpp_literal_begin := length (fpp_literal_buffer p @ begun)\<rparr>)"
proof (cases sp)
  case None
  with assms show ?thesis
    by (simp add: fmt_field_def spec_part_def parse_replacement_field_def next_arg_id_def on_text_def add_format_part_def spec_of_def)
next
  case (Some s)
  with assms(1) obtain specs where specs: "\<And>r. fs_parse lib (s @ CHR ''}'' # r) = Inr (specs, length s)" "\<not> fs_dynamic lib specs"
    by (auto simp: spec_readable_def)
  then have "spec_of lib sp = Some specs" using specs(1) [of "[]"] by (simp add: spec_of_def Some)
  with Some specs assms(2-) show ?thesis
    by (simp add: fmt_field_def spec_part_def parse_replacement_field_def next_arg_id_def on_text_def add_format_part_def
        parse_field_specs_def)
qed

definition segments_text :: "'spec fmt_specs \<Rightarrow> (pattern_attribute \<Rightarrow> string) \<Rightarrow> pattern_field list \<Rightarrow> string \<Rightarrow> string" where
  "segments_text lib values segs trailing =
     concat (map (\<lambda>(l, a, sp). literal_text l @ field_text lib sp (values a)) segs) @ literal_text trailing"

lemma write_part_text:
  assumes "spec_readable lib sp"
  shows "write_format_part lib ((buf @ lit) @ ext) values
    \<lparr>fp_literal_pos = length buf, fp_literal_size = length (buf @ lit) - length buf, fp_attribute = a, fp_specs = spec_of lib sp\<rparr>
    = lit @ field_text lib sp (values a)"
proof (cases sp)
  case (Some s)
  with assms obtain specs where "fs_parse lib (s @ ''}'') = Inr (specs, length s)" by (auto simp: spec_readable_def)
  with Some show ?thesis by (simp add: write_format_part_def field_text_def spec_of_def)
qed (simp add: write_format_part_def field_text_def spec_of_def)

lemma parse_segments:
  assumes "\<forall>(l, a, sp) \<in> set segs. spec_readable lib sp"
    and "fpp_next_arg_id p = int k" "fpp_literal_begin p = length (fpp_literal_buffer p)" "k + length segs \<le> 17"
    and "\<forall>i < length segs. fpp_attribute_by_arg_id p (k + i) = Some (fst (snd (segs ! i)))"
  shows "\<exists>q ext parts. parse_format_string lib [] (fmt_source segs trailing) p = Inr q
     \<and> fpp_literal_buffer q = fpp_literal_buffer p @ ext \<and> fpp_format_parts q = fpp_format_parts p @ parts
     \<and> map fp_attribute parts = map (fst \<circ> snd) segs
     \<and> (\<forall>values. concat (map (write_format_part lib (fpp_literal_buffer q) values) parts)
            @ drop (fpp_literal_begin q) (fpp_literal_buffer q) = segments_text lib values segs trailing)"
  using assms
proof (induction segs arbitrary: p k)
  case Nil
  obtain begun buf where "parse_format_string lib [] (escape_braces trailing @ []) p
      = parse_format_string lib begun [] (p\<lparr>fpp_literal_buffer := buf\<rparr>)" "buf @ begun = fpp_literal_buffer p @ literal_text trailing"
    using parse_literal [of lib "[]" trailing "[]" p] by auto
  then have "parse_format_string lib [] (fmt_source [] trailing) p
      = Inr (p\<lparr>fpp_literal_buffer := fpp_literal_buffer p @ literal_text trailing\<rparr>)"
    by (simp add: fmt_source_def on_text_def)
  with Nil show ?case by (auto simp: segments_text_def)
next
  case (Cons seg segs)
  obtain l a sp where seg: "seg = (l, a, sp)" by (cases seg) auto
  obtain begun buf where lit: "parse_format_string lib [] (escape_braces l @ fmt_field sp @ fmt_source segs trailing) p
      = parse_format_string lib begun (fmt_field sp @ fmt_source segs trailing) (p\<lparr>fpp_literal_buffer := buf\<rparr>)"
    "buf @ begun = fpp_literal_buffer p @ literal_text l"
    using parse_literal [of lib "[]" l "fmt_field sp @ fmt_source segs trailing" p] by auto
  have sp: "spec_readable lib sp" and a: "fpp_attribute_by_arg_id p k = Some a" and k: "k < 17"
    using Cons.prems(1,4) Cons.prems(5) [rule_format, of 0] by (auto simp: seg)
  let ?part = "\<lparr>fp_literal_pos = length (fpp_literal_buffer p),
     fp_literal_size = length (fpp_literal_buffer p @ literal_text l) - length (fpp_literal_buffer p),
     fp_attribute = a, fp_specs = spec_of lib sp\<rparr>"
  let ?q = "p\<lparr>fpp_literal_buffer := fpp_literal_buffer p @ literal_text l, fpp_next_arg_id := int k + 1,
     fpp_format_parts := fpp_format_parts p @ [?part], fpp_literal_begin := length (fpp_literal_buffer p @ literal_text l)\<rparr>"
  have "parse_format_string lib [] (fmt_source (seg # segs) trailing) p = parse_format_string lib [] (fmt_source segs trailing) ?q"
    using parse_field [OF sp, of "p\<lparr>fpp_literal_buffer := buf\<rparr>" k a begun "fmt_source segs trailing"] Cons.prems(2,3) a k lit
    by (simp add: fmt_source_def seg)
  moreover obtain q ext parts where q: "parse_format_string lib [] (fmt_source segs trailing) ?q = Inr q"
    "fpp_literal_buffer q = fpp_literal_buffer ?q @ ext" "fpp_format_parts q = fpp_format_parts ?q @ parts"
    "map fp_attribute parts = map (fst \<circ> snd) segs"
    "\<And>values. concat (map (write_format_part lib (fpp_literal_buffer q) values) parts)
       @ drop (fpp_literal_begin q) (fpp_literal_buffer q) = segments_text lib values segs trailing"
  proof -
    have "\<forall>i < length segs. fpp_attribute_by_arg_id ?q (Suc k + i) = Some (fst (snd (segs ! i)))"
      using Cons.prems(5) by auto
    then show ?thesis using that Cons.IH [of ?q "Suc k"] Cons.prems(1,4) by (auto simp: add.commute)
  qed
  moreover have "write_format_part lib (fpp_literal_buffer q) vals ?part = literal_text l @ field_text lib sp (vals a)" for vals
    using write_part_text [OF sp, of "fpp_literal_buffer p" "literal_text l" ext vals a] q(2) by simp
  ultimately show ?case
    using q(5) by (intro exI [of _ q] exI [of _ "literal_text l @ ext"] exI [of _ "?part # parts"])
      (auto simp: seg segments_text_def)
qed

subsection \<open>The argument order\<close>

lemma order_fold_set: "or_is_set_in_pattern (order_fold segs od) a \<longleftrightarrow> or_is_set_in_pattern od a \<or> a \<in> set (map (fst \<circ> snd) segs)"
  by (induction segs od rule: order_fold.induct) (auto simp: order_add_def)

lemma order_fold_other: "a \<notin> set (map (fst \<circ> snd) segs) \<Longrightarrow> or_order_index (order_fold segs od) a = or_order_index od a"
  by (induction segs od rule: order_fold.induct) (auto simp: order_add_def)

lemma order_fold_index:
  "distinct (map (fst \<circ> snd) segs) \<Longrightarrow> i < length segs
   \<Longrightarrow> or_order_index (order_fold segs od) (fst (snd (segs ! i))) = or_arg_idx od + i"
proof (induction segs od arbitrary: i rule: order_fold.induct)
  case (2 l a sp segs od)
  then show ?case by (cases i) (auto simp: order_fold_other order_add_def)
qed simp

lemma fold_attribute_unique:
  assumes "\<And>b. b \<in> set xs \<Longrightarrow> P b \<Longrightarrow> idx b = k \<Longrightarrow> b = a" "P a" "idx a = k"
  shows "a \<in> set xs \<or> m k = Some a \<Longrightarrow> fold (\<lambda>b m. if P b then m(idx b \<mapsto> b) else m) xs m k = Some a"
  using assms(1)
proof (induction xs arbitrary: m)
  case (Cons b xs)
  show ?case
  proof (cases "a \<in> set xs \<or> (if P b then m(idx b \<mapsto> b) else m) k = Some a")
    case True
    then show ?thesis using Cons.IH [of "if P b then m(idx b \<mapsto> b) else m"] Cons.prems(2) by simp
  next
    case False
    with Cons.prems assms(2,3) show ?thesis by (auto split: if_splits)
  qed
qed simp

lemma attribute_in_list: "a \<in> set pattern_attributes"
  by (cases a) (simp_all add: pattern_attributes_def)

lemma attributes_by_arg_id_fold:
  assumes "distinct (map (fst \<circ> snd) segs)" "i < length segs"
  shows "attributes_by_arg_id (order_fold segs order_new) i = Some (fst (snd (segs ! i)))"
  unfolding attributes_by_arg_id_def
proof (rule fold_attribute_unique)
  let ?od = "order_fold segs order_new"
  show "or_is_set_in_pattern ?od (fst (snd (segs ! i)))" using assms(2) by (auto simp: order_fold_set)
  show "or_order_index ?od (fst (snd (segs ! i))) = i" using order_fold_index [OF assms] by (simp add: order_new_def)
  fix b assume "or_is_set_in_pattern ?od b" "or_order_index ?od b = i"
  then obtain j where "j < length segs" "b = fst (snd (segs ! j))"
    by (auto simp: order_fold_set order_new_def in_set_conv_nth)
  moreover from this have "or_order_index ?od b = j" using order_fold_index [OF assms(1)] by (simp add: order_new_def)
  ultimately show "b = fst (snd (segs ! i))" using \<open>or_order_index ?od b = i\<close> by simp
qed (simp add: attribute_in_list)

lemma distinct_attributes:
  fixes as :: "pattern_attribute list"
  assumes "distinct as"
  shows "length as \<le> 17"
proof -
  from assms have "length as = card (set as)" by (simp add: distinct_card)
  also have "\<dots> \<le> card (set pattern_attributes)" by (rule card_mono) (auto simp: attribute_in_list)
  also have "\<dots> \<le> 17" using card_length [of pattern_attributes] by (simp add: pattern_attributes_def)
  finally show ?thesis .
qed

subsection \<open>The constructed formatter\<close>

text \<open>The pattern with its suffix, as the constructor sees it.\<close>

definition suffixed_pattern :: "pattern_formatter_options \<Rightarrow> string" where
  "suffixed_pattern options = (if po_pattern_suffix options \<noteq> NO_SUFFIX
     then po_format_pattern options @ [po_pattern_suffix options] else po_format_pattern options)"

definition pf_writes :: "'spec fmt_specs \<Rightarrow> pattern_field list \<Rightarrow> string \<Rightarrow> 'spec pattern_formatter \<Rightarrow> bool" where
  "pf_writes lib segs trailing pf \<longleftrightarrow> (\<forall>a. pf_is_set_in_pattern pf a \<longleftrightarrow> a \<in> set (map (fst \<circ> snd) segs))
     \<and> (\<forall>vals. concat (map (write_format_part lib (pf_literal_buffer pf) vals) (pf_format_parts pf))
           @ drop (pf_trailing_literal_pos pf) (pf_literal_buffer pf) = segments_text lib vals segs trailing)"

lemma pf_new_writes:
  assumes wf: "pattern_wf lib segs trailing" and src: "suffixed_pattern options = pattern_source segs trailing"
    and tf: "tf_init (po_timestamp_pattern options) (po_timestamp_timezone options) = Inr tf"
  shows "\<exists>pf. pf_new lib options = Inr pf \<and> pf_writes lib segs trailing pf \<and> pf_options pf = options \<and> pf_timestamp_formatter pf = tf"
proof -
  let ?od = "order_fold segs order_new"
  have "escape_braces (pattern_source segs trailing) = escaped_source segs trailing"
    by (rule escape_pattern) (use wf in \<open>auto simp: pattern_wf_def\<close>)
  moreover have "replace_attributes ([] @ escaped_source segs trailing) 0 order_new = Inr ([] @ fmt_source segs trailing, ?od)"
    by (rule replace_all) (use wf in \<open>auto simp: pattern_wf_def order_new_def\<close>)
  ultimately have gen: "generate_fmt_format_string options (po_format_pattern options) = Inr (fmt_source segs trailing, ?od)"
    using src by (simp add: generate_fmt_format_string_def suffixed_pattern_def split: if_splits)
  have distinct: "distinct (map (fst \<circ> snd) segs)" using wf by (simp add: pattern_wf_def)
  have readable: "\<forall>(l, a, sp) \<in> set segs. spec_readable lib sp" using wf by (auto simp: pattern_wf_def)
  obtain q where q: "parse_format_string lib [] (fmt_source segs trailing) (format_part_parser_new (attributes_by_arg_id ?od)) = Inr q"
    "\<And>vals. concat (map (write_format_part lib (fpp_literal_buffer q) vals) (fpp_format_parts q))
       @ drop (fpp_literal_begin q) (fpp_literal_buffer q) = segments_text lib vals segs trailing"
    using parse_segments [OF readable, of "format_part_parser_new (attributes_by_arg_id ?od)" 0 trailing]
      attributes_by_arg_id_fold [OF distinct] distinct_attributes [OF distinct]
    by (auto simp: format_part_parser_new_def)
  have "or_is_set_in_pattern ?od a \<longleftrightarrow> a \<in> set (map (fst \<circ> snd) segs)" for a
    by (simp add: order_fold_set order_new_def)
  with tf gen q show ?thesis by (simp add: pf_new_def set_pattern_def pf_writes_def)
qed

subsection \<open>Lines\<close>

text \<open>The lines of a message; each keeps its newline when the pattern does not end in one.\<close>

function message_lines :: "bool \<Rightarrow> string \<Rightarrow> string list" where
  "message_lines keep_newline s =
     (if s = [] then []
      else let line = takeWhile (\<lambda>c. c \<noteq> CHR 0x0A) s; rest = dropWhile (\<lambda>c. c \<noteq> CHR 0x0A) s
           in if rest = [] then [line]
              else (line @ (if keep_newline then [CHR 0x0A] else [])) # message_lines keep_newline (tl rest))"
  by pat_completeness auto
termination
proof (relation "measure (\<lambda>(_, s). length s)", goal_cases)
  case (2 keep_newline s line rest)
  then have "length rest \<le> length s" "rest \<noteq> []" using length_dropWhile_le by auto
  then show ?case by (cases rest) auto
qed simp

declare message_lines.simps [simp del]

definition statement_lines :: "pattern_formatter_options \<Rightarrow> pattern_arguments \<Rightarrow> string \<Rightarrow> string list" where
  "statement_lines options args log_msg =
     (let newline_suffix = (po_pattern_suffix options = CHR 0x0A) in
      if log_msg = [] then [log_msg]
      else if po_add_metadata_to_multi_line_logs options \<and> pa_named_args args \<in> {None, Some []}
      then message_lines (\<not> newline_suffix) log_msg
      else if newline_suffix \<and> last log_msg = CHR 0x0A then [butlast log_msg] else [log_msg])"

definition statement_text ::
  "calendar \<Rightarrow> 'spec fmt_specs \<Rightarrow> pattern_formatter_options \<Rightarrow> timestamp_formatter \<Rightarrow> pattern_field list \<Rightarrow> string
   \<Rightarrow> pattern_arguments \<times> string \<Rightarrow> string" where
  "statement_text cal lib options tf segs trailing = (\<lambda>(args, log_msg).
     concat (map (\<lambda>line. segments_text lib (attribute_value options args (tf_text cal tf (sint (pa_timestamp args))) line) segs trailing)
       (statement_lines options args log_msg)))"

definition pf_ok ::
  "calendar \<Rightarrow> 'spec fmt_specs \<Rightarrow> pattern_formatter_options \<Rightarrow> timestamp_formatter \<Rightarrow> pattern_field list \<Rightarrow> string
   \<Rightarrow> 'spec pattern_formatter \<Rightarrow> bool" where
  "pf_ok cal lib options tf segs trailing pf \<longleftrightarrow> pf_options pf = options \<and> pf_writes lib segs trailing pf
     \<and> tf_inv cal (pf_timestamp_formatter pf) \<and> tf_same (pf_timestamp_formatter pf) tf"

lemma segments_text_cong:
  "(\<And>a. a \<in> set (map (fst \<circ> snd) segs) \<Longrightarrow> f a = g a) \<Longrightarrow> segments_text lib f segs trailing = segments_text lib g segs trailing"
  unfolding segments_text_def by (intro arg_cong2 [of _ _ _ _ append] arg_cong [of _ _ concat] map_cong) force+

lemma attribute_value_time: "a \<noteq> Attr_Time \<Longrightarrow> attribute_value options args t line a = attribute_value options args t' line a"
  by (cases a) simp_all

lemma pf_format_line_text:
  assumes cal: "calendar_ok cal (tf_timestamp_timezone tf)" "tf_parts_ok cal tf" and ok: "pf_ok cal lib options tf segs trailing pf"
    and t: "0 \<le> sint (pa_timestamp args)"
  shows "\<exists>pf1. pf_format_line cal lib args line pf = Some (Inr (pf_formatted_log_message_buffer pf1), pf1)
     \<and> pf_formatted_log_message_buffer pf1 = pf_formatted_log_message_buffer pf
        @ segments_text lib (attribute_value options args (tf_text cal tf (sint (pa_timestamp args))) line) segs trailing
     \<and> pf_ok cal lib options tf segs trailing pf1"
proof -
  let ?T = "tf_text cal tf (sint (pa_timestamp args))" and ?f = "pf_timestamp_formatter pf"
  have pf: "pf_options pf = options" "tf_inv cal ?f" "tf_same ?f tf"
    "\<And>a. pf_is_set_in_pattern pf a \<longleftrightarrow> a \<in> set (map (fst \<circ> snd) segs)"
    "\<And>vals. concat (map (write_format_part lib (pf_literal_buffer pf) vals) (pf_format_parts pf))
           @ drop (pf_trailing_literal_pos pf) (pf_literal_buffer pf) = segments_text lib vals segs trailing"
    using ok unfolding pf_ok_def pf_writes_def by auto
  obtain f1 where f1: "tf_format_timestamp cal (sint (pa_timestamp args)) ?f = Some (Inr ?T, f1)" "tf_inv cal f1" "tf_same f1 tf"
  proof -
    have "calendar_ok cal (tf_timestamp_timezone ?f)" "tf_parts_ok cal ?f" "tf_text cal ?f t = tf_text cal tf t" for t
      using cal pf(3) tf_same_text [OF pf(3)] by (auto simp: tf_same_def)
    then show ?thesis using that tf_format_step [of cal ?f "sint (pa_timestamp args)"] pf(2,3) t tf_same_trans by metis
  qed
  let ?vals = "\<lambda>time a. if pf_is_set_in_pattern pf a \<or> a = Attr_Message then attribute_value options args time line a
     else pf_attribute_values pf a"
  show ?thesis
  proof (cases "pf_is_set_in_pattern pf Attr_Time")
    case True
    have "segments_text lib (?vals ?T) segs trailing = segments_text lib (attribute_value options args ?T line) segs trailing"
      by (rule segments_text_cong) (simp add: pf(4))
    with True f1 pf show ?thesis by (auto simp: pf_format_line_def Let_def pf_ok_def pf_writes_def)
  next
    case False
    have "segments_text lib (?vals (pf_attribute_values pf Attr_Time)) segs trailing
        = segments_text lib (attribute_value options args ?T line) segs trailing"
    proof (rule segments_text_cong)
      fix a assume a: "a \<in> set (map (fst \<circ> snd) segs)"
      with False pf(4) have "a \<noteq> Attr_Time" by blast
      with a pf(4) [of a] show "?vals (pf_attribute_values pf Attr_Time) a = attribute_value options args ?T line a"
        using attribute_value_time by simp
    qed
    with False pf show ?thesis by (auto simp: pf_format_line_def Let_def pf_ok_def pf_writes_def)
  qed
qed

lemma find_newline:
  assumes "start < length s"
  shows "find_from [CHR 0x0A] s start = (if dropWhile (\<lambda>c. c \<noteq> CHR 0x0A) (drop start s) = [] then None
    else Some (start + length (takeWhile (\<lambda>c. c \<noteq> CHR 0x0A) (drop start s))))"
  using assms by (auto simp: find_from_def str_find_one dropWhile_eq_Nil_conv)

lemma newline_split:
  assumes "dropWhile (\<lambda>c. c \<noteq> CHR 0x0A) s \<noteq> []"
  defines "n \<equiv> length (takeWhile (\<lambda>c. c \<noteq> CHR 0x0A) s)"
  shows "take n s = takeWhile (\<lambda>c. c \<noteq> CHR 0x0A) s" "take (n + 1) s = takeWhile (\<lambda>c. c \<noteq> CHR 0x0A) s @ [CHR 0x0A]"
    "tl (dropWhile (\<lambda>c. c \<noteq> CHR 0x0A) s) = drop (n + 1) s"
proof -
  let ?t = "takeWhile (\<lambda>c. c \<noteq> CHR 0x0A) s" and ?d = "dropWhile (\<lambda>c. c \<noteq> CHR 0x0A) s"
  obtain r where d: "?d = CHR 0x0A # r" using assms(1) hd_dropWhile [of "\<lambda>c. c \<noteq> CHR 0x0A" s] by (cases ?d) auto
  then have s: "s = ?t @ CHR 0x0A # r" by (metis takeWhile_dropWhile_id)
  show "take n s = ?t" by (subst s) (simp add: n_def)
  show "take (n + 1) s = ?t @ [CHR 0x0A]" by (subst s) (simp add: n_def)
  show "tl ?d = drop (n + 1) s" by (subst (2) s) (simp add: n_def d)
qed

lemma pf_format_lines_text:
  fixes lib :: "'spec fmt_specs"
    and segs :: "pattern_field list" and trailing :: string and options :: pattern_formatter_options and args :: pattern_arguments
  assumes cal: "calendar_ok cal (tf_timestamp_timezone tf)" "tf_parts_ok cal tf"
    and t: "0 \<le> sint (pa_timestamp args)"
  defines "text_of \<equiv> \<lambda>line. segments_text lib (attribute_value options args (tf_text cal tf (sint (pa_timestamp args))) line) segs trailing"
  assumes "pf_ok cal lib options tf segs trailing pf" "formatted = pf_formatted_log_message_buffer pf"
  shows "\<exists>pf1. pf_format_lines cal lib args log_msg start formatted pf = Some (Inr (pf_formatted_log_message_buffer pf1), pf1)
     \<and> pf_formatted_log_message_buffer pf1 = pf_formatted_log_message_buffer pf
        @ concat (map text_of (message_lines (po_pattern_suffix options \<noteq> CHR 0x0A) (drop start log_msg)))
     \<and> pf_ok cal lib options tf segs trailing pf1"
  using assms(5,6)
proof (induction "length log_msg - start" arbitrary: start pf formatted rule: less_induct)
  case less
  show ?case
  proof (cases "start < length log_msg")
    case False
    with less.prems show ?thesis by (subst pf_format_lines.simps, subst message_lines.simps) simp
  next
    case True
    let ?s = "drop start log_msg" and ?keep = "po_pattern_suffix options \<noteq> CHR 0x0A"
    let ?t = "takeWhile (\<lambda>c. c \<noteq> CHR 0x0A) ?s" and ?d = "dropWhile (\<lambda>c. c \<noteq> CHR 0x0A) ?s"
    note line = pf_format_line_text [OF cal less.prems(1) t]
    show ?thesis
    proof (cases "?d = []")
      case last: True
      then have "?t = ?s" by (metis append_Nil2 takeWhile_dropWhile_id)
      then have one: "message_lines ?keep ?s = [?s]"
        using True last by (subst message_lines.simps) (simp add: Let_def)
      have "find_from [CHR 0x0A] log_msg start = None" by (simp only: find_newline [OF True] last if_True simp_thms)
      then have "pf_format_lines cal lib args log_msg start formatted pf = pf_format_line cal lib args ?s pf"
        using True by (subst pf_format_lines.simps) simp
      with line [of ?s] show ?thesis unfolding text_of_def one by simp
    next
      case more: False
      let ?line = "?t @ (if ?keep then [CHR 0x0A] else [])"
      obtain pf1 where pf1: "pf_format_line cal lib args ?line pf = Some (Inr (pf_formatted_log_message_buffer pf1), pf1)"
        "pf_formatted_log_message_buffer pf1 = pf_formatted_log_message_buffer pf @ text_of ?line" "pf_ok cal lib options tf segs trailing pf1"
        using line [of ?line] unfolding text_of_def by blast
      have opts: "pf_options pf = options" using less.prems(1) by (simp add: pf_ok_def)
      have "pf_format_lines cal lib args log_msg start formatted pf
          = pf_format_lines cal lib args log_msg (start + length ?t + 1) (pf_formatted_log_message_buffer pf1) pf1"
        using True more pf1(1) newline_split(1,2) [OF more]
        by (subst pf_format_lines.simps) (auto simp: find_newline opts Let_def)
      moreover have "length log_msg - (start + length ?t + 1) < length log_msg - start" using True by auto
      note less.hyps [OF this pf1(3) refl]
      moreover have "message_lines ?keep ?s = ?line # message_lines ?keep (drop (start + length ?t + 1) log_msg)"
        using True more newline_split(3) [OF more] by (subst message_lines.simps) (auto simp: Let_def add.commute)
      ultimately show ?thesis using pf1(2) by auto
    qed
  qed
qed

lemma pf_format_text:
  assumes cal: "calendar_ok cal (tf_timestamp_timezone tf)" "tf_parts_ok cal tf" and ok: "pf_ok cal lib options tf segs trailing pf"
    and t: "0 \<le> sint (pa_timestamp args)" and pat: "po_format_pattern options \<noteq> []"
  shows "\<exists>pf1. pf_format cal lib args log_msg pf = Some (Inr (statement_text cal lib options tf segs trailing (args, log_msg)), pf1)
     \<and> pf_ok cal lib options tf segs trailing pf1"
proof -
  let ?pf = "pf\<lparr>pf_formatted_log_message_buffer := []\<rparr>"
  have ok0: "pf_ok cal lib options tf segs trailing ?pf" and opts: "pf_options pf = options"
    using ok by (auto simp: pf_ok_def pf_writes_def)
  note line = pf_format_line_text [OF cal ok0 t]
  consider (none) "log_msg = []"
    | (multi) "log_msg \<noteq> []" "po_add_metadata_to_multi_line_logs options" "pa_named_args args \<in> {None, Some []}"
    | (single) "log_msg \<noteq> []" "\<not> (po_add_metadata_to_multi_line_logs options \<and> pa_named_args args \<in> {None, Some []})" by blast
  then show ?thesis
  proof cases
    case none
    with line [of "[]"] pat show ?thesis by (auto simp: pf_format_def opts statement_text_def statement_lines_def)
  next
    case multi
    with pf_format_lines_text [OF cal t ok0, of "[]" log_msg 0] pat show ?thesis
      by (auto simp: pf_format_def opts statement_text_def statement_lines_def)
  next
    case single
    let ?line = "if po_pattern_suffix options = CHR 0x0A \<and> last log_msg = CHR 0x0A then butlast log_msg else log_msg"
    have "pf_format cal lib args log_msg pf = pf_format_line cal lib args ?line ?pf"
      using single pat by (auto simp: pf_format_def opts butlast_conv_take Let_def split: option.splits)
    moreover have "statement_lines options args log_msg = [?line]" using single by (auto simp: statement_lines_def Let_def)
    ultimately show ?thesis using line [of ?line] by (auto simp: statement_text_def)
  qed
qed

fun pf_format_all ::
  "calendar \<Rightarrow> 'spec fmt_specs \<Rightarrow> (pattern_arguments \<times> string) list \<Rightarrow> 'spec pattern_formatter \<Rightarrow> string list option" where
  "pf_format_all cal lib [] pf = Some []"
| "pf_format_all cal lib ((args, log_msg) # statements) pf =
     (case pf_format cal lib args log_msg pf of
        Some (Inr formatted, pf1) \<Rightarrow> map_option ((#) formatted) (pf_format_all cal lib statements pf1)
      | _ \<Rightarrow> None)"

lemma pf_format_all_text:
  assumes cal: "calendar_ok cal (tf_timestamp_timezone tf)" "tf_parts_ok cal tf" and pat: "po_format_pattern options \<noteq> []"
  shows "pf_ok cal lib options tf segs trailing pf \<Longrightarrow> \<forall>(args, log_msg) \<in> set statements. 0 \<le> sint (pa_timestamp args)
    \<Longrightarrow> pf_format_all cal lib statements pf = Some (map (statement_text cal lib options tf segs trailing) statements)"
proof (induction statements arbitrary: pf)
  case (Cons st statements)
  obtain args log_msg where st: "st = (args, log_msg)" by (cases st) auto
  obtain pf1 where "pf_format cal lib args log_msg pf = Some (Inr (statement_text cal lib options tf segs trailing (args, log_msg)), pf1)"
    "pf_ok cal lib options tf segs trailing pf1"
    using pf_format_text [OF cal Cons.prems(1) _ pat, of args log_msg] Cons.prems(2) by (auto simp: st)
  then show ?case using Cons by (simp add: st)
qed simp

text \<open>
  C22. A formatter constructed from a pattern writes, for every statement, exactly the pattern's text:
  the literals with doubled braces halved, and in place of each field its attribute's value, put
  through the field's specs where it has some. A message of several lines is written line by line,
  each with all the metadata. This holds for every sequence of statements: nothing is left over from
  one to the next, in the buffer, the attribute values or the timestamp cache.
\<close>

theorem pattern_formatter_text:
  assumes "po_format_pattern options \<noteq> []"
    and "suffixed_pattern options = pattern_source segs trailing" "pattern_wf lib segs trailing"
    and "tf_init (po_timestamp_pattern options) (po_timestamp_timezone options) = Inr tf"
    and "calendar_ok cal (po_timestamp_timezone options)" "tf_parts_ok cal tf"
    and "\<forall>(args, log_msg) \<in> set statements. 0 \<le> sint (pa_timestamp args)"
  shows "\<exists>pf. pf_new lib options = Inr pf
    \<and> pf_format_all cal lib statements pf = Some (map (statement_text cal lib options tf segs trailing) statements)"
proof -
  obtain pf where pf: "pf_new lib options = Inr pf" "pf_writes lib segs trailing pf" "pf_options pf = options"
    "pf_timestamp_formatter pf = tf"
    using pf_new_writes [OF assms(3,2,4)] by blast
  have tf: "tf_inv cal tf" "tf_timestamp_timezone tf = po_timestamp_timezone options" using tf_init_inv [OF assms(4)] by auto
  have "pf_ok cal lib options tf segs trailing pf" using pf tf by (simp add: pf_ok_def tf_same_def)
  from pf_format_all_text [OF _ assms(6,1) this assms(7)] assms(5) tf pf(1) show ?thesis by auto
qed

definition example_specs :: "string fmt_specs" where
  "example_specs = \<lparr>fs_parse = (\<lambda>s. let t = takeWhile (\<lambda>c. c \<noteq> CHR ''}'') s in Inr (t, length t)), fs_dynamic = (\<lambda>_. False),
     fs_write = (\<lambda>specs v. v @ replicate (decimal_value 0 (drop 1 specs) - length v) CHR '' '')\<rparr>"

definition example_options :: pattern_formatter_options where
  "example_options = po_default\<lparr>po_format_pattern := ''[%(time)] %(log_level:<7) {%(message)}'', po_timestamp_pattern := ''%H:%M'',
     po_timestamp_timezone := GmtTime\<rparr>"

definition example_segments :: "pattern_field list" where
  "example_segments = [(''['', Attr_Time, None), (''] '', Attr_LogLevel, Some ''<7''), ('' {'', Attr_Message, None)]"

definition example_arguments :: "u64 \<Rightarrow> string \<Rightarrow> pattern_arguments" where
  "example_arguments ts level = \<lparr>pa_timestamp = ts, pa_thread_id = ''1'', pa_thread_name = ''t'', pa_process_id = ''2'',
     pa_logger = ''root'', pa_log_level_description = level, pa_log_level_short_code = ''I'',
     pa_log_statement_metadata = mm_new ''main.cpp:5'' ''main'' ''{}'' None Info Log False, pa_named_args = None, pa_mdc = []\<rparr>"

lemma example_specs_wf: "pattern_wf example_specs example_segments (CHR ''}'' # [CHR 0x0A])"
  by (auto simp: pattern_wf_def example_segments_def spec_chars_ok_def spec_readable_def example_specs_def is_brace_def)

theorem pattern_formatter_text_witness:
  "\<exists>pf. pf_new example_specs example_options = Inr pf
    \<and> pf_format_all gmt_calendar example_specs
        [(example_arguments 3661000000000 ''INFO'', ''a'' @ [CHR 0x0A] @ ''b{}''), (example_arguments 7 ''ERROR'', ''c'')] pf
      = Some [''[01:01] INFO    {a}'' @ [CHR 0x0A] @ ''[01:01] INFO    {b{}}'' @ [CHR 0x0A], ''[00:00] ERROR   {c}'' @ [CHR 0x0A]]"
proof -
  let ?tf = "projr (tf_init ''%H:%M'' GmtTime)" and ?trailing = "CHR ''}'' # [CHR 0x0A]"
  let ?st = "[(example_arguments 3661000000000 ''INFO'', ''a'' @ [CHR 0x0A] @ ''b{}''), (example_arguments 7 ''ERROR'', ''c'')]"
  have tf: "tf_init ''%H:%M'' GmtTime = Inr \<lparr>tf_time_format = ''%H:%M'',
     tf_strftime_part_1 = sft_default\<lparr>sft_timestamp_format := ''%H:%M'', sft_initial_parts := [''%H'', '':'', ''%M'']\<rparr>,
     tf_strftime_part_2 = sft_default, tf_timestamp_timezone = GmtTime, tf_additional_format_specifier = Specifier_None,
     tf_has_format_part_2 = False\<rparr>" by code_simp
  have "\<exists>pf. pf_new example_specs example_options = Inr pf
    \<and> pf_format_all gmt_calendar example_specs ?st pf
      = Some (map (statement_text gmt_calendar example_specs example_options ?tf example_segments ?trailing) ?st)"
  proof (rule pattern_formatter_text)
    show "suffixed_pattern example_options = pattern_source example_segments ?trailing" by code_simp
    show "tf_parts_ok gmt_calendar ?tf" by (auto simp: tf tf_parts_ok_def gmt_part_ok sft_default_def)
  qed (simp_all add: example_specs_wf example_options_def example_arguments_def gmt_calendar_ok tf)
  moreover have "tf_text gmt_calendar ?tf 3661000000000 = ''01:01''" "tf_text gmt_calendar ?tf 7 = ''00:00''"
    by (simp_all add: tf tf_text_def strftime_text_def part_text_def gmt_calendar_def modifier_type_def modifier_text_def
        pad2_def to_string.simps fraction_text_def) code_simp+
  then have "statement_text gmt_calendar example_specs example_options ?tf example_segments ?trailing (?st ! 0)
      = ''[01:01] INFO    {a}'' @ [CHR 0x0A] @ ''[01:01] INFO    {b{}}'' @ [CHR 0x0A]"
    "statement_text gmt_calendar example_specs example_options ?tf example_segments ?trailing (?st ! 1)
      = ''[00:00] ERROR   {c}'' @ [CHR 0x0A]"
    by (simp_all add: statement_text_def statement_lines_def message_lines.simps segments_text_def example_segments_def
        example_arguments_def example_options_def po_default_def example_specs_def field_text_def is_brace_def digit_value_def
        numeral_eq_Suc)
  ultimately show ?thesis by simp
qed

end
