(* ===== verification/Sink_Base.thy ===== *)
theory Sink_Base
  imports Pattern_Text
begin

text \<open>
  \<^verbatim>\<open>quill/sinks/Sink.h\<close>: what every sink has, and its filters. What a user's sink or filter does
  with a record is a parameter (\<open>sink_env\<close>); it acts on a state \<open>'x\<close> of the outside world and may
  throw. Sinks and filters are known by their addresses.
\<close>

subsection \<open>The outside world\<close>

datatype user_exception = UserException string | UnknownException

text \<open>What the backend's two catch clauses pass on.\<close>

fun what :: "user_exception \<Rightarrow> string" where
  "what (UserException s) = s"
| "what UnknownException = ''Caught unhandled exception.''"

record filter_arguments =
  la_log_metadata :: macro_metadata
  la_log_timestamp :: u64
  la_thread_id :: string
  la_thread_name :: string
  la_logger_name :: string
  la_log_level :: log_level
  la_log_message :: string
  la_log_statement :: string

record log_record = filter_arguments +
  la_process_id :: string
  la_log_level_description :: string
  la_log_level_short_code :: string
  la_named_args :: "(string \<times> string) list option"

record metric_record =
  ma_metric_metadata :: macro_metadata
  ma_log_timestamp :: u64
  ma_thread_id :: string
  ma_thread_name :: string
  ma_process_id :: string
  ma_logger_name :: string
  ma_value :: u64

type_synonym 'x user_call = "'x \<Rightarrow> user_exception option \<times> 'x"

record 'x sink_env =
  sx_write_log :: "nat \<Rightarrow> log_record \<Rightarrow> 'x user_call"
  sx_write_metric :: "nat \<Rightarrow> metric_record \<Rightarrow> 'x user_call"
  sx_flush_sink :: "nat \<Rightarrow> sink_flush_reason \<Rightarrow> 'x user_call"
  sx_run_periodic_tasks :: "nat \<Rightarrow> 'x user_call"
  sx_filter :: "nat \<Rightarrow> filter_arguments \<Rightarrow> 'x \<Rightarrow> (user_exception + bool) \<times> 'x"

subsection \<open>The base class\<close>

record 'spec sink =
  sk_override_pattern_formatter_options :: "pattern_formatter_options option"
  sk_override_pattern_formatter :: "'spec pattern_formatter option"
  sk_local_filters :: "nat list"
  sk_global_filters :: "(string \<times> nat) list"
  sk_new_filter :: bool
  sk_log_level :: log_level

definition sk_construct :: "pattern_formatter_options option \<Rightarrow> 'spec sink" where
  "sk_construct override_pattern_formatter_options =
     \<lparr>sk_override_pattern_formatter_options = override_pattern_formatter_options, sk_override_pattern_formatter = None,
      sk_local_filters = [], sk_global_filters = [], sk_new_filter = False, sk_log_level = TraceL3\<rparr>"

definition set_log_level_filter :: "log_level \<Rightarrow> 'spec sink \<Rightarrow> 'spec sink" where
  "set_log_level_filter log_level sk = sk\<lparr>sk_log_level := log_level\<rparr>"

definition get_log_level_filter :: "'spec sink \<Rightarrow> log_level" where
  "get_log_level_filter sk = sk_log_level sk"

text \<open>A null filter is \<open>None\<close>; the name is what the filter's own accessor gives.\<close>

definition add_filter :: "(string \<times> nat) option \<Rightarrow> 'spec sink \<Rightarrow> quill_error + 'spec sink" where
  "add_filter new sk =
     (case new of
        None \<Rightarrow> Inl (QuillError ''Filter pointer is nullptr'')
      | Some (filter_name, f) \<Rightarrow>
          if filter_name \<in> set (map fst (sk_global_filters sk))
          then Inl (QuillError ''Filter with the same name already exists'')
          else Inr (sk\<lparr>sk_global_filters := sk_global_filters sk @ [(filter_name, f)], sk_new_filter := True\<rparr>))"

definition refresh_local_filters :: "'spec sink \<Rightarrow> 'spec sink" where
  "refresh_local_filters sk =
     (if sk_new_filter sk then sk\<lparr>sk_new_filter := False, sk_local_filters := map snd (sk_global_filters sk)\<rparr> else sk)"

text \<open>\<^verbatim>\<open>std::all_of\<close> over the filters, which may keep state and throw.\<close>

fun all_filters :: "'x sink_env \<Rightarrow> filter_arguments \<Rightarrow> nat list \<Rightarrow> 'x \<Rightarrow> (user_exception + bool) \<times> 'x" where
  "all_filters env args [] x = (Inr True, x)"
| "all_filters env args (f # fs) x =
     (case sx_filter env f args x of
        (Inl e, x1) \<Rightarrow> (Inl e, x1)
      | (Inr False, x1) \<Rightarrow> (Inr False, x1)
      | (Inr True, x1) \<Rightarrow> all_filters env args fs x1)"

definition apply_all_user_filters ::
  "'x sink_env \<Rightarrow> filter_arguments \<Rightarrow> 'spec sink \<Rightarrow> 'x \<Rightarrow> (user_exception + bool) \<times> 'spec sink \<times> 'x" where
  "apply_all_user_filters env args sk x =
     (let sk1 = refresh_local_filters sk in
      if sk_local_filters sk1 = [] then (Inr True, sk1, x)
      else case all_filters env args (sk_local_filters sk1) x of (r, x1) \<Rightarrow> (r, sk1, x1))"

definition apply_all_filters ::
  "'x sink_env \<Rightarrow> filter_arguments \<Rightarrow> 'spec sink \<Rightarrow> 'x \<Rightarrow> (user_exception + bool) \<times> 'spec sink \<times> 'x" where
  "apply_all_filters env args sk x =
     (if la_log_level args < sk_log_level sk then (Inr False, sk, x) else apply_all_user_filters env args sk x)"

subsection \<open>Filters\<close>

text \<open>Between two records the filters in use lag behind at most while a new one is announced.\<close>

definition sk_inv :: "'spec sink \<Rightarrow> bool" where
  "sk_inv sk \<longleftrightarrow> distinct (map fst (sk_global_filters sk))
     \<and> (\<not> sk_new_filter sk \<longrightarrow> sk_local_filters sk = map snd (sk_global_filters sk))"

lemma sk_construct_inv: "sk_inv (sk_construct options)"
  by (simp add: sk_inv_def sk_construct_def)

lemma add_filter_inv: "sk_inv sk \<Longrightarrow> add_filter new sk = Inr sk1 \<Longrightarrow> sk_inv sk1"
  by (auto simp: sk_inv_def add_filter_def split: option.splits if_splits)

lemma refresh_local_filters_inv:
  "sk_inv sk \<Longrightarrow> sk_inv (refresh_local_filters sk) \<and> sk_local_filters (refresh_local_filters sk) = map snd (sk_global_filters sk)"
  by (auto simp: sk_inv_def refresh_local_filters_def)

text \<open>A filter without state of its own, and what all of them say together.\<close>

definition pure_filters :: "'x sink_env \<Rightarrow> (nat \<Rightarrow> filter_arguments \<Rightarrow> bool) \<Rightarrow> bool" where
  "pure_filters env accepts \<longleftrightarrow> (\<forall>f args x. sx_filter env f args x = (Inr (accepts f args), x))"

definition accepted :: "(nat \<Rightarrow> filter_arguments \<Rightarrow> bool) \<Rightarrow> 'spec sink \<Rightarrow> filter_arguments \<Rightarrow> bool" where
  "accepted accepts sk args \<longleftrightarrow> (\<forall>(name, f) \<in> set (sk_global_filters sk). accepts f args)"

lemma all_filters_pure:
  "pure_filters env accepts \<Longrightarrow> all_filters env args fs x = (Inr (\<forall>f \<in> set fs. accepts f args), x)"
  by (induction fs) (auto simp: pure_filters_def split: prod.splits bool.splits)

lemma apply_all_user_filters_pure:
  assumes "pure_filters env accepts" "sk_inv sk"
  shows "apply_all_user_filters env args sk x = (Inr (accepted accepts sk args), refresh_local_filters sk, x)"
proof -
  have l: "sk_local_filters (refresh_local_filters sk) = map snd (sk_global_filters sk)"
    using refresh_local_filters_inv [OF assms(2)] by simp
  show ?thesis
    by (auto simp: apply_all_user_filters_def Let_def l all_filters_pure [OF assms(1)] accepted_def)
qed

end
