(* ===== verification/Sorted_Vector.thy ===== *)
theory Sorted_Vector
  imports Prelude
begin

text \<open>
  Vectors kept in strictly ascending order of a key and searched with \<^verbatim>\<open>std::lower_bound\<close>, as the
  registries of loggers and of sinks are.
\<close>

text \<open>The position of the first element whose key is not smaller.\<close>

definition lower_bound :: "('a \<Rightarrow> 'k::linorder) \<Rightarrow> 'k \<Rightarrow> 'a list \<Rightarrow> nat" where
  "lower_bound key target xs = length (takeWhile (\<lambda>x. key x < target) xs)"

definition insert_at :: "nat \<Rightarrow> 'a \<Rightarrow> 'a list \<Rightarrow> 'a list" where
  "insert_at i x xs = take i xs @ x # drop i xs"

definition remove_at :: "nat \<Rightarrow> 'a list \<Rightarrow> 'a list" where
  "remove_at i xs = take i xs @ drop (Suc i) xs"

text \<open>The element found, if its key is the one looked for.\<close>

definition search :: "('a \<Rightarrow> 'k::linorder) \<Rightarrow> 'k \<Rightarrow> 'a list \<Rightarrow> 'a option" where
  "search key target xs =
     (let i = lower_bound key target xs in if i < length xs \<and> key (xs ! i) = target then Some (xs ! i) else None)"

definition ascending :: "('a \<Rightarrow> 'k::linorder) \<Rightarrow> 'a list \<Rightarrow> bool" where
  "ascending key xs \<longleftrightarrow> sorted_wrt (<) (map key xs)"

lemma ascending_Nil [simp]: "ascending key []"
  by (simp add: ascending_def)

lemma ascending_Cons: "ascending key (x # xs) \<longleftrightarrow> (\<forall>y \<in> set xs. key x < key y) \<and> ascending key xs"
  by (auto simp: ascending_def)

lemma ascending_append: "ascending key (xs @ ys) \<longleftrightarrow> ascending key xs \<and> ascending key ys \<and> (\<forall>x \<in> set xs. \<forall>y \<in> set ys. key x < key y)"
  by (auto simp: ascending_def sorted_wrt_append)

lemma lower_bound_split:
  "take (lower_bound key t xs) xs = takeWhile (\<lambda>x. key x < t) xs"
  "drop (lower_bound key t xs) xs = dropWhile (\<lambda>x. key x < t) xs"
  by (simp_all add: lower_bound_def takeWhile_eq_take [symmetric] dropWhile_eq_drop [symmetric])

lemma insert_at_set: "set (insert_at i x xs) = insert x (set xs)"
proof -
  have "set xs = set (take i xs) \<union> set (drop i xs)" by (metis append_take_drop_id set_append)
  then show ?thesis by (simp add: insert_at_def)
qed

lemma insert_at_distinct:
  assumes "distinct (map f xs)" "f x \<notin> f ` set xs"
  shows "distinct (map f (insert_at i x xs))"
proof -
  have "distinct (map f (take i xs) @ map f (drop i xs))" using assms(1) by (simp flip: map_append)
  with assms(2) show ?thesis by (auto simp: insert_at_def dest: in_set_takeD in_set_dropD)
qed

lemma dropWhile_not_less: "ascending key xs \<Longrightarrow> x \<in> set (dropWhile (\<lambda>x. key x < t) xs) \<Longrightarrow> t \<le> key x"
  by (induction xs) (auto simp: ascending_Cons not_less split: if_splits intro: less_imp_le order.trans)

lemma insert_at_ascending:
  assumes "ascending key xs" "key x \<notin> key ` set xs"
  shows "ascending key (insert_at (lower_bound key (key x) xs) x xs)"
proof -
  let ?P = "\<lambda>y. key y < key x"
  have "ascending key (takeWhile ?P xs)" "ascending key (dropWhile ?P xs)"
    using assms(1) ascending_append [of key "takeWhile ?P xs" "dropWhile ?P xs"] by simp_all
  moreover have above: "\<forall>y \<in> set (dropWhile ?P xs). key x < key y"
  proof
    fix y assume y: "y \<in> set (dropWhile ?P xs)"
    from dropWhile_not_less [OF assms(1) y] set_dropWhileD [OF y] assms(2) show "key x < key y"
      by (metis image_eqI order_le_less)
  qed
  moreover have below: "\<forall>y \<in> set (takeWhile ?P xs). key y < key x"
    by (auto dest: set_takeWhileD)
  moreover have "\<forall>y \<in> set (takeWhile ?P xs). \<forall>z \<in> set (dropWhile ?P xs). key y < key z"
  proof (intro ballI)
    fix y z assume y: "y \<in> set (takeWhile ?P xs)" and z: "z \<in> set (dropWhile ?P xs)"
    from below y have "key y < key x" by simp
    also from above z have "key x < key z" by simp
    finally show "key y < key z" .
  qed
  ultimately show ?thesis
    unfolding insert_at_def lower_bound_split ascending_append ascending_Cons list.set by blast
qed

lemma search_cases:
  "search key t xs = (case dropWhile (\<lambda>x. key x < t) xs of [] \<Rightarrow> None | y # _ \<Rightarrow> if key y = t then Some y else None)"
proof -
  let ?i = "lower_bound key t xs"
  have "drop ?i xs = (if ?i < length xs then xs ! ?i # drop (Suc ?i) xs else [])" by (simp add: Cons_nth_drop_Suc)
  then show ?thesis unfolding search_def Let_def lower_bound_split(2) [symmetric] by simp
qed

text \<open>In an ascending vector the search finds what is there.\<close>

lemma search_iff:
  assumes "ascending key xs"
  shows "search key t xs = Some x \<longleftrightarrow> x \<in> set xs \<and> key x = t"
  using assms
proof (induction xs)
  case (Cons y xs)
  have "t < key x" if "\<not> key y < t" "x \<in> set xs" for x
    using Cons.prems that by (force simp: ascending_Cons not_less)
  with Cons show ?case by (auto simp: search_cases ascending_Cons)
qed (simp add: search_cases)

lemma search_None:
  assumes "ascending key xs"
  shows "search key t xs = None \<longleftrightarrow> t \<notin> key ` set xs"
proof (cases "search key t xs")
  case (Some x)
  with search_iff [OF assms, of t x] show ?thesis by auto
next
  case None
  with search_iff [OF assms, of t] show ?thesis by auto
qed

lemma remove_found:
  assumes "ascending key xs" "search key t xs \<noteq> None"
  shows "set (remove_at (lower_bound key t xs) xs) = {x \<in> set xs. key x \<noteq> t} \<and> ascending key (remove_at (lower_bound key t xs) xs)"
proof -
  let ?P = "\<lambda>x. key x < t"
  obtain y ys where y: "dropWhile ?P xs = y # ys" "key y = t"
    using assms(2) by (auto simp: search_cases split: list.splits if_splits)
  have parts: "ascending key (takeWhile ?P xs @ y # ys)" using assms(1) y(1) by (metis takeWhile_dropWhile_id)
  have "drop (Suc (lower_bound key t xs)) xs = ys"
    using y(1) by (metis lower_bound_split(2) drop_Suc list.sel(3) tl_drop)
  then have r: "remove_at (lower_bound key t xs) xs = takeWhile ?P xs @ ys"
    by (simp add: remove_at_def lower_bound_split)
  have "set xs = set (takeWhile ?P xs) \<union> insert y (set ys)"
    using y(1) by (metis list.simps(15) set_append takeWhile_dropWhile_id)
  with parts y(2) show ?thesis unfolding r by (auto simp: ascending_append ascending_Cons dest: set_takeWhileD)
qed

lemma ascending_unique: "ascending key xs \<Longrightarrow> x \<in> set xs \<Longrightarrow> y \<in> set xs \<Longrightarrow> key x = key y \<Longrightarrow> x = y"
  by (metis option.inject search_iff)

lemma ascending_filter: "ascending key xs \<Longrightarrow> ascending key (filter P xs)"
  by (simp add: ascending_def sorted_wrt_map sorted_wrt_filter)

end
