(* ===== verification/Logger_Manager.thy ===== *)
theory Logger_Manager
  imports Sorted_Vector Frontend_Logger Backend_Options Pattern_Formatter
begin

text \<open>
  \<^verbatim>\<open>quill/core/LoggerManager.h\<close>: the registry of loggers, a vector kept in ascending order of the
  names. The operations that search or change the vector hold the spinlock, so each is one step;
  \<^verbatim>\<open>remove_logger\<close> holds none and is two. A logger object is known by its
  address; the members the backend uses beside those of \<open>logger_base\<close> are added here.
\<close>

subsection \<open>Loggers with their formatter\<close>

text \<open>The shared pattern formatter is a reference into the backend's formatters.\<close>

record logger = logger_base +
  lg_user_clock :: u64
  lg_pattern_formatter_options :: pattern_formatter_options
  lg_pattern_formatter :: "nat option"

definition lg_new ::
  "string \<Rightarrow> nat option list \<Rightarrow> pattern_formatter_options \<Rightarrow> clock_source_type \<Rightarrow> u64 \<Rightarrow> quill_error + logger" where
  "lg_new name sinks options clock_source user_clock =
     map_sum id (\<lambda>lb. logger_base.extend lb
       \<lparr>lg_user_clock = user_clock, lg_pattern_formatter_options = options, lg_pattern_formatter = None\<rparr>)
       (lb_new name sinks clock_source)"

definition lg_set_log_level :: "log_level \<Rightarrow> logger \<Rightarrow> quill_error + logger" where
  "lg_set_log_level new_log_level lg =
     (if new_log_level = Backtrace then Inl (QuillError ''LogLevel::Backtrace is only used internally. Please don't use it.'')
      else Inr (lg\<lparr>lb_log_level := new_log_level\<rparr>))"

definition lg_mark_invalid :: "logger \<Rightarrow> logger" where
  "lg_mark_invalid lg = lg\<lparr>lb_valid := False\<rparr>"

subsection \<open>The registry\<close>

record logger_manager =
  lm_loggers :: "(nat \<times> logger) list"
  lm_env_log_level :: "log_level option"
  lm_has_invalidated_loggers :: bool
  lm_env_log_level_parsed :: bool

definition lm_new :: logger_manager where
  "lm_new = \<lparr>lm_loggers = [], lm_env_log_level = None, lm_has_invalidated_loggers = False, lm_env_log_level_parsed = False\<rparr>"

abbreviation logger_key :: "nat \<times> logger \<Rightarrow> string" where
  "logger_key x \<equiv> lb_logger_name (snd x)"

definition insert_logger :: "nat \<Rightarrow> logger \<Rightarrow> (nat \<times> logger) list \<Rightarrow> (nat \<times> logger) list" where
  "insert_logger addr lg loggers = insert_at (lower_bound logger_key (lb_logger_name lg) loggers) (addr, lg) loggers"

definition find_logger :: "string \<Rightarrow> (nat \<times> logger) list \<Rightarrow> (nat \<times> logger) option" where
  "find_logger target loggers = search logger_key target loggers"

definition get_logger :: "string \<Rightarrow> logger_manager \<Rightarrow> nat option" where
  "get_logger name m =
     (case find_logger name (lm_loggers m) of
        Some (addr, lg) \<Rightarrow> if lb_valid lg then Some addr else None
      | None \<Rightarrow> None)"

definition get_all_loggers :: "logger_manager \<Rightarrow> nat list" where
  "get_all_loggers m = map fst (filter (\<lambda>(_, lg). lb_valid lg) (lm_loggers m))"

definition contains_substr :: "string \<Rightarrow> string \<Rightarrow> bool" where
  "contains_substr s p \<longleftrightarrow> str_find p s \<noteq> None"

fun first_logger :: "(logger \<Rightarrow> bool) \<Rightarrow> (nat \<times> logger) list \<Rightarrow> nat option" where
  "first_logger P [] = None"
| "first_logger P ((addr, lg) # loggers) = (if P lg then Some addr else first_logger P loggers)"

definition get_valid_logger :: "string \<Rightarrow> logger_manager \<Rightarrow> nat option" where
  "get_valid_logger exclude_logger_substr m =
     first_logger (\<lambda>lg. lb_valid lg \<and> (exclude_logger_substr = [] \<or> \<not> contains_substr (lb_logger_name lg) exclude_logger_substr))
       (lm_loggers m)"

definition get_valid_logger_excluding :: "string list \<Rightarrow> logger_manager \<Rightarrow> nat option" where
  "get_valid_logger_excluding exclude_logger_substrs m =
     first_logger (\<lambda>lg. lb_valid lg \<and> \<not> list_ex (\<lambda>p. p \<noteq> [] \<and> contains_substr (lb_logger_name lg) p) exclude_logger_substrs)
       (lm_loggers m)"

definition get_number_of_loggers :: "logger_manager \<Rightarrow> nat" where
  "get_number_of_loggers m = length (lm_loggers m)"

text \<open>\<^verbatim>\<open>for_each_logger\<close>: the loop ends when the callback returns true.\<close>

fun for_each_logger :: "(nat \<Rightarrow> logger \<Rightarrow> 's \<Rightarrow> bool \<times> 's) \<Rightarrow> (nat \<times> logger) list \<Rightarrow> 's \<Rightarrow> 's" where
  "for_each_logger cb [] s = s"
| "for_each_logger cb ((addr, lg) # loggers) s =
     (case cb addr lg s of (stop, s1) \<Rightarrow> if stop then s1 else for_each_logger cb loggers s1)"

text \<open>The value of \<^verbatim>\<open>QUILL_LOG_LEVEL\<close> is a parameter; \<open>None\<close> when it is not set.\<close>

definition parse_log_level_from_env :: "string option \<Rightarrow> logger_manager \<Rightarrow> quill_error + logger_manager" where
  "parse_log_level_from_env env m =
     (let log_level = (case env of None \<Rightarrow> [] | Some s \<Rightarrow> s) in
      if log_level = [] then Inr (m\<lparr>lm_env_log_level := None, lm_env_log_level_parsed := True\<rparr>)
      else case loglevel_from_string log_level of
             Inl _ \<Rightarrow> Inl (QuillError ''invalid QUILL_LOG_LEVEL environment variable value'')
           | Inr l \<Rightarrow> if l = Backtrace then Inl (QuillError ''invalid QUILL_LOG_LEVEL environment variable value'')
                      else Inr (m\<lparr>lm_env_log_level := Some l, lm_env_log_level_parsed := True\<rparr>))"

definition ensure_env_log_level_parsed :: "string option \<Rightarrow> logger_manager \<Rightarrow> quill_error + logger_manager" where
  "ensure_env_log_level_parsed env m = (if lm_env_log_level_parsed m then Inr m else parse_log_level_from_env env m)"

text \<open>An update of the logger object at an address.\<close>

definition update_logger :: "nat \<Rightarrow> (logger \<Rightarrow> logger) \<Rightarrow> (nat \<times> logger) list \<Rightarrow> (nat \<times> logger) list" where
  "update_logger addr f loggers = map (\<lambda>(a, lg). (a, if a = addr then f lg else lg)) loggers"

text \<open>
  The part both ways to create a logger share: construct it at \<open>addr\<close>, insert it, look it up again
  and give it the level of the environment. The level was checked when it was parsed; were it
  rejected here, the logger would stay registered.
\<close>

definition construct_logger ::
  "nat \<Rightarrow> string \<Rightarrow> nat option list \<Rightarrow> pattern_formatter_options \<Rightarrow> clock_source_type \<Rightarrow> u64 \<Rightarrow> logger_manager
    \<Rightarrow> (quill_error + nat option) \<times> logger_manager" where
  "construct_logger addr logger_name sinks options clock_source user_clock m =
     (case lg_new logger_name sinks options clock_source user_clock of
        Inl e \<Rightarrow> (Inl e, m)
      | Inr lg \<Rightarrow>
          let m1 = m\<lparr>lm_loggers := insert_logger addr lg (lm_loggers m)\<rparr>
          in case (find_logger logger_name (lm_loggers m1), lm_env_log_level m1) of
               (Some (a, lg1), Some l) \<Rightarrow>
                 (case lg_set_log_level l lg1 of
                    Inl e \<Rightarrow> (Inl e, m1)
                  | Inr lg2 \<Rightarrow> (Inr (Some a), m1\<lparr>lm_loggers := update_logger a (\<lambda>_. lg2) (lm_loggers m1)\<rparr>))
             | (r, _) \<Rightarrow> (Inr (map_option fst r), m1))"

definition create_logger ::
  "string option \<Rightarrow> nat \<Rightarrow> string \<Rightarrow> nat option list \<Rightarrow> pattern_formatter_options \<Rightarrow> clock_source_type \<Rightarrow> u64 \<Rightarrow> logger_manager
    \<Rightarrow> (quill_error + nat option) \<times> logger_manager" where
  "create_logger env addr logger_name sinks options clock_source user_clock m =
     (case ensure_env_log_level_parsed env m of
        Inl e \<Rightarrow> (Inl e, m)
      | Inr m1 \<Rightarrow>
          (case find_logger logger_name (lm_loggers m1) of
             Some (_, lg) \<Rightarrow>
               (Inl (QuillError (if \<not> lb_valid lg then ''Logger is pending removal'' else ''Logger already exists'')), m1)
           | None \<Rightarrow> construct_logger addr logger_name sinks options clock_source user_clock m1))"

definition create_or_get_logger ::
  "string option \<Rightarrow> nat \<Rightarrow> string \<Rightarrow> nat option list \<Rightarrow> pattern_formatter_options \<Rightarrow> clock_source_type \<Rightarrow> u64 \<Rightarrow> logger_manager
    \<Rightarrow> (quill_error + nat option) \<times> logger_manager" where
  "create_or_get_logger env addr logger_name sinks options clock_source user_clock m =
     (case ensure_env_log_level_parsed env m of
        Inl e \<Rightarrow> (Inl e, m)
      | Inr m1 \<Rightarrow>
          (case find_logger logger_name (lm_loggers m1) of
             Some (a, lg) \<Rightarrow>
               if \<not> lb_valid lg then (Inl (QuillError ''Logger is pending removal''), m1) else (Inr (Some a), m1)
           | None \<Rightarrow> construct_logger addr logger_name sinks options clock_source user_clock m1))"

text \<open>The overload that takes its arguments from another logger, which may be null.\<close>

definition create_or_get_logger_like ::
  "string option \<Rightarrow> nat \<Rightarrow> string \<Rightarrow> logger option \<Rightarrow> logger_manager \<Rightarrow> (quill_error + nat option) \<times> logger_manager" where
  "create_or_get_logger_like env addr logger_name source_logger m =
     (case source_logger of
        None \<Rightarrow> (Inr (get_logger logger_name m), m)
      | Some lg \<Rightarrow> create_or_get_logger env addr logger_name (map Some (lb_sinks lg)) (lg_pattern_formatter_options lg)
                     (lb_clock_source lg) (lg_user_clock lg) m)"

text \<open>\<^verbatim>\<open>remove_logger\<close> takes no lock: it marks the logger, then announces the removal.\<close>

definition mark_logger :: "nat \<Rightarrow> logger_manager \<Rightarrow> logger_manager" where
  "mark_logger addr m = m\<lparr>lm_loggers := update_logger addr lg_mark_invalid (lm_loggers m)\<rparr>"

definition announce_removal :: "logger_manager \<Rightarrow> logger_manager" where
  "announce_removal m = m\<lparr>lm_has_invalidated_loggers := True\<rparr>"

definition remove_logger :: "nat \<Rightarrow> logger_manager \<Rightarrow> logger_manager" where
  "remove_logger addr m = announce_removal (mark_logger addr m)"

definition has_invalidated_loggers :: "logger_manager \<Rightarrow> bool" where
  "has_invalidated_loggers m = lm_has_invalidated_loggers m"

text \<open>
  The loop of \<^verbatim>\<open>cleanup_invalidated_loggers\<close>: the loggers that stay, the names removed, and whether
  one had to be kept for later. The check of the queues is the backend's and acts on its state.
\<close>

fun cleanup_loop ::
  "('s \<Rightarrow> bool \<times> 's) \<Rightarrow> (nat \<times> logger) list \<Rightarrow> 's \<Rightarrow> (nat \<times> logger) list \<times> string list \<times> bool \<times> 's" where
  "cleanup_loop check_queues_empty [] s = ([], [], False, s)"
| "cleanup_loop check_queues_empty ((addr, lg) # loggers) s =
     (if lb_valid lg then
        (case cleanup_loop check_queues_empty loggers s of (kept, removed, again, s1) \<Rightarrow> ((addr, lg) # kept, removed, again, s1))
      else case check_queues_empty s of
        (False, s1) \<Rightarrow>
          (case cleanup_loop check_queues_empty loggers s1 of (kept, removed, _, s2) \<Rightarrow> ((addr, lg) # kept, removed, True, s2))
      | (True, s1) \<Rightarrow>
          (case cleanup_loop check_queues_empty loggers s1 of
             (kept, removed, again, s2) \<Rightarrow> (kept, lb_logger_name lg # removed, again, s2)))"

text \<open>Under the lock, after the announcement was taken back.\<close>

definition cleanup_marked_loggers ::
  "('s \<Rightarrow> bool \<times> 's) \<Rightarrow> logger_manager \<Rightarrow> string list \<Rightarrow> 's \<Rightarrow> logger_manager \<times> string list \<times> 's" where
  "cleanup_marked_loggers check_queues_empty m removed_loggers s =
     (case cleanup_loop check_queues_empty (lm_loggers m) s of
        (kept, removed, again, s1) \<Rightarrow>
          (m\<lparr>lm_loggers := kept, lm_has_invalidated_loggers := lm_has_invalidated_loggers m \<or> again\<rparr>,
           removed_loggers @ removed, s1))"

definition cleanup_invalidated_loggers ::
  "('s \<Rightarrow> bool \<times> 's) \<Rightarrow> logger_manager \<Rightarrow> string list \<Rightarrow> 's \<Rightarrow> logger_manager \<times> string list \<times> 's" where
  "cleanup_invalidated_loggers check_queues_empty m removed_loggers s =
     (if lm_has_invalidated_loggers m
      then cleanup_marked_loggers check_queues_empty (m\<lparr>lm_has_invalidated_loggers := False\<rparr>) removed_loggers s
      else (m, removed_loggers, s))"

subsection \<open>Well-formed registries\<close>

abbreviation logger_names :: "(nat \<times> logger) list \<Rightarrow> string list" where
  "logger_names \<equiv> map logger_key"

text \<open>
  The names ascend strictly, no two loggers share an address, and the level taken from the
  environment is one a logger accepts.
\<close>

definition lm_wf :: "logger_manager \<Rightarrow> bool" where
  "lm_wf m \<longleftrightarrow> ascending logger_key (lm_loggers m) \<and> distinct (map fst (lm_loggers m))
     \<and> lm_env_log_level m \<noteq> Some Backtrace"

lemma insert_logger_set: "set (insert_logger a lg ls) = insert (a, lg) (set ls)"
  by (simp add: insert_logger_def insert_at_set)

lemma insert_logger_addresses: "distinct (map fst ls) \<Longrightarrow> a \<notin> fst ` set ls \<Longrightarrow> distinct (map fst (insert_logger a lg ls))"
  by (simp add: insert_logger_def insert_at_distinct)

lemma insert_logger_sorted:
  "ascending logger_key ls \<Longrightarrow> lb_logger_name lg \<notin> set (logger_names ls) \<Longrightarrow> ascending logger_key (insert_logger a lg ls)"
  using insert_at_ascending [of logger_key ls "(a, lg)"] by (simp add: insert_logger_def)

lemma find_logger_iff:
  "ascending logger_key ls \<Longrightarrow> find_logger name ls = Some (a, lg) \<longleftrightarrow> (a, lg) \<in> set ls \<and> lb_logger_name lg = name"
  by (simp add: find_logger_def search_iff)

lemma find_logger_None: "ascending logger_key ls \<Longrightarrow> find_logger name ls = None \<longleftrightarrow> name \<notin> set (logger_names ls)"
  by (simp add: find_logger_def search_None)

lemma update_logger_names:
  assumes "\<And>lg. lb_logger_name (f lg) = lb_logger_name lg"
  shows "ascending logger_key (update_logger a f ls) \<longleftrightarrow> ascending logger_key ls" "map fst (update_logger a f ls) = map fst ls"
proof -
  have "logger_names (update_logger a f ls) = logger_names ls" using assms by (auto simp: update_logger_def)
  then show "ascending logger_key (update_logger a f ls) \<longleftrightarrow> ascending logger_key ls" by (simp add: ascending_def)
qed (auto simp: update_logger_def)

lemma update_logger_set:
  "distinct (map fst ls) \<Longrightarrow> (b, lg) \<in> set (update_logger a f ls)
   \<longleftrightarrow> (\<exists>l. (b, l) \<in> set ls \<and> lg = (if b = a then f l else l))"
  by (force simp: update_logger_def)

lemma update_replace:
  assumes "distinct (map fst ls)" "(a, lg) \<in> set ls"
  shows "update_logger a (\<lambda>_. f lg) ls = update_logger a f ls"
  using assms by (auto simp: update_logger_def) (metis eq_key_imp_eq_value)

lemma lg_new_fields:
  assumes "lg_new name sinks options clock user = Inr lg"
  shows "lb_logger_name lg = name" "lb_valid lg" "lg_pattern_formatter lg = None" "None \<notin> set sinks" "lb_sinks lg = map the sinks" "lb_log_level lg = Info"
  using assms by (auto simp: lg_new_def lb_new_def map_sum_Inr logger_base.defs split: if_splits)

lemma construct_logger_result:
  assumes wf: "lm_wf m" and fresh: "addr \<notin> fst ` set (lm_loggers m)" "name \<notin> set (logger_names (lm_loggers m))"
  shows "case construct_logger addr name sinks options clock user m of
      (Inl e, m') \<Rightarrow> None \<in> set sinks \<and> m' = m
    | (Inr r, m') \<Rightarrow> None \<notin> set sinks \<and> r = Some addr \<and> lm_wf m'
        \<and> lm_has_invalidated_loggers m' = lm_has_invalidated_loggers m \<and> lm_env_log_level m' = lm_env_log_level m \<and> (\<exists>lg. lb_logger_name lg = name \<and> lb_valid lg
          \<and> lb_sinks lg = map the sinks \<and> lb_log_level lg = (case lm_env_log_level m of None \<Rightarrow> Info | Some l \<Rightarrow> l)
          \<and> set (lm_loggers m') = insert (addr, lg) (set (lm_loggers m)))"
proof (cases "lg_new name sinks options clock user")
  case (Inl e)
  then show ?thesis
    by (auto simp: construct_logger_def lg_new_def lb_new_def split: if_splits)
next
  case (Inr lg)
  note new = lg_new_fields [OF Inr]
  let ?ls = "insert_logger addr lg (lm_loggers m)"
  have sorted: "ascending logger_key ?ls" and dist: "distinct (map fst ?ls)"
    using wf fresh new(1) by (auto simp: lm_wf_def intro: insert_logger_sorted insert_logger_addresses)
  have find: "find_logger name ?ls = Some (addr, lg)"
    using find_logger_iff [OF sorted] new(1) by (simp add: insert_logger_set)
  show ?thesis
  proof (cases "lm_env_log_level m")
    case None
    have "lm_wf (m\<lparr>lm_loggers := ?ls\<rparr>)" using wf sorted dist new by (auto simp: lm_wf_def insert_logger_set)
    with Inr None find new show ?thesis
      by (auto simp: construct_logger_def Let_def insert_logger_set)
  next
    case (Some l)
    let ?f = "\<lambda>lg :: logger. lg\<lparr>lb_log_level := l\<rparr>"
    have l: "l \<noteq> Backtrace" using wf Some by (auto simp: lm_wf_def)
    have same: "update_logger addr (\<lambda>_. ?f lg) ?ls = update_logger addr ?f ?ls"
      by (rule update_replace [OF dist]) (simp add: insert_logger_set)
    have names: "ascending logger_key (update_logger addr ?f ?ls) \<longleftrightarrow> ascending logger_key ?ls" "map fst (update_logger addr ?f ?ls) = map fst ?ls"
      by (rule update_logger_names; simp)+
    have others: "set (update_logger addr ?f ?ls) = insert (addr, ?f lg) (set (lm_loggers m))"
      using fresh(1) by (force simp: update_logger_def insert_logger_set)
    have "lm_wf (m\<lparr>lm_loggers := update_logger addr ?f ?ls\<rparr>)"
      using wf sorted dist names others new by (auto simp: lm_wf_def)
    moreover have "construct_logger addr name sinks options clock user m
        = (Inr (Some addr), m\<lparr>lm_loggers := update_logger addr ?f ?ls\<rparr>)"
      using Inr find Some l same by (simp add: construct_logger_def Let_def lg_set_log_level_def)
    ultimately show ?thesis using new others Some by (auto intro!: exI [of _ "?f lg"])
  qed
qed

subsection \<open>Runs of the registry\<close>

text \<open>
  The frontend threads and the backend take turns: \<open>rr_announcing\<close> counts the threads between the
  two stores of \<^verbatim>\<open>remove_logger\<close>, \<open>rr_cleaning\<close> says that the backend has taken the announcement
  back and waits for the lock. A logger's mark that falls into the loop acts as if it came before
  or after it. A new logger gets an address no registered one has; any other use of a logger
  keeps its name and its mark.
\<close>

record registry_run =
  rr_manager :: logger_manager
  rr_announcing :: nat
  rr_cleaning :: bool

text \<open>What the backend's checks of the queues answer, in turn.\<close>

fun next_answer :: "bool list \<Rightarrow> bool \<times> bool list" where
  "next_answer [] = (False, [])"
| "next_answer (b # bs) = (b, bs)"

inductive registry_step :: "registry_run \<Rightarrow> registry_run \<Rightarrow> bool" where
  create: "addr \<notin> fst ` set (lm_loggers (rr_manager r)) \<Longrightarrow>
    create_logger env addr name sinks options clock user (rr_manager r) = (res, m) \<Longrightarrow>
    registry_step r (r\<lparr>rr_manager := m\<rparr>)"
| create_or_get: "addr \<notin> fst ` set (lm_loggers (rr_manager r)) \<Longrightarrow>
    create_or_get_logger env addr name sinks options clock user (rr_manager r) = (res, m) \<Longrightarrow>
    registry_step r (r\<lparr>rr_manager := m\<rparr>)"
| create_like: "addr \<notin> fst ` set (lm_loggers (rr_manager r)) \<Longrightarrow>
    create_or_get_logger_like env addr name source (rr_manager r) = (res, m) \<Longrightarrow>
    registry_step r (r\<lparr>rr_manager := m\<rparr>)"
| parse: "parse_log_level_from_env env (rr_manager r) = Inr m \<Longrightarrow> registry_step r (r\<lparr>rr_manager := m\<rparr>)"
| mark: "registry_step r (r\<lparr>rr_manager := mark_logger addr (rr_manager r), rr_announcing := Suc (rr_announcing r)\<rparr>)"
| announce: "rr_announcing r = Suc n \<Longrightarrow>
    registry_step r (r\<lparr>rr_manager := announce_removal (rr_manager r), rr_announcing := n\<rparr>)"
| take_back: "lm_has_invalidated_loggers (rr_manager r) \<Longrightarrow> \<not> rr_cleaning r \<Longrightarrow>
    registry_step r (r\<lparr>rr_manager := (rr_manager r)\<lparr>lm_has_invalidated_loggers := False\<rparr>, rr_cleaning := True\<rparr>)"
| clean: "rr_cleaning r \<Longrightarrow> cleanup_marked_loggers next_answer (rr_manager r) removed checks = (m, removed1, checks1) \<Longrightarrow>
    registry_step r (r\<lparr>rr_manager := m, rr_cleaning := False\<rparr>)"
| use: "(\<And>lg. lb_logger_name (f lg) = lb_logger_name lg \<and> lb_valid (f lg) = lb_valid lg) \<Longrightarrow>
    registry_step r (r\<lparr>rr_manager := (rr_manager r)\<lparr>lm_loggers := update_logger addr f (lm_loggers (rr_manager r))\<rparr>\<rparr>)"

definition registry_start :: registry_run where
  "registry_start = \<lparr>rr_manager = lm_new, rr_announcing = 0, rr_cleaning = False\<rparr>"

text \<open>A marked logger is announced, about to be, or about to be looked for.\<close>

definition rr_ok :: "registry_run \<Rightarrow> bool" where
  "rr_ok r \<longleftrightarrow> lm_wf (rr_manager r)
     \<and> ((\<exists>x \<in> set (lm_loggers (rr_manager r)). \<not> lb_valid (snd x)) \<longrightarrow>
          lm_has_invalidated_loggers (rr_manager r) \<or> 0 < rr_announcing r \<or> rr_cleaning r)"

lemma parse_log_level_from_env_result:
  "parse_log_level_from_env env m = Inr m1 \<Longrightarrow> lm_loggers m1 = lm_loggers m \<and> lm_has_invalidated_loggers m1 = lm_has_invalidated_loggers m
    \<and> lm_env_log_level m1 \<noteq> Some Backtrace"
  by (auto simp: parse_log_level_from_env_def Let_def split: if_splits option.splits sum.splits)

lemma ensure_env_log_level_parsed_result:
  "ensure_env_log_level_parsed env m = Inr m1 \<Longrightarrow> lm_wf m \<Longrightarrow> lm_loggers m1 = lm_loggers m
    \<and> lm_has_invalidated_loggers m1 = lm_has_invalidated_loggers m \<and> lm_wf m1"
  by (auto simp: ensure_env_log_level_parsed_def lm_wf_def dest: parse_log_level_from_env_result split: if_splits)

lemma construct_logger_ok:
  assumes "construct_logger addr name sinks options clock user m = (res, m1)"
    and "lm_wf m" "addr \<notin> fst ` set (lm_loggers m)" "name \<notin> set (logger_names (lm_loggers m))"
  shows "lm_wf m1 \<and> lm_has_invalidated_loggers m1 = lm_has_invalidated_loggers m
    \<and> (\<forall>x \<in> set (lm_loggers m1). x \<notin> set (lm_loggers m) \<longrightarrow> lb_valid (snd x))"
  using construct_logger_result [OF assms(2-4), of sinks options clock user] assms(1,2) by (auto split: sum.splits)

lemma create_logger_ok:
  assumes "create_logger env addr name sinks options clock user m = (res, m1)
      \<or> create_or_get_logger env addr name sinks options clock user m = (res, m1)"
    and "lm_wf m" "addr \<notin> fst ` set (lm_loggers m)"
  shows "lm_wf m1 \<and> lm_has_invalidated_loggers m1 = lm_has_invalidated_loggers m
    \<and> (\<forall>x \<in> set (lm_loggers m1). x \<notin> set (lm_loggers m) \<longrightarrow> lb_valid (snd x))"
proof (cases "ensure_env_log_level_parsed env m")
  case (Inr m0)
  note parsed = ensure_env_log_level_parsed_result [OF Inr assms(2)]
  show ?thesis
  proof (cases "find_logger name (lm_loggers m0)")
    case None
    then have "name \<notin> set (logger_names (lm_loggers m0))"
      using parsed find_logger_None [of "lm_loggers m0" name] unfolding lm_wf_def by blast
    then show ?thesis
      using assms parsed Inr None construct_logger_ok [of addr name sinks options clock user m0 res m1]
      by (auto simp: create_logger_def create_or_get_logger_def)
  next
    case (Some x)
    obtain a lg where x: "x = (a, lg)" by (cases x) auto
    have "m1 = m0"
      using assms(1) Inr Some x by (auto simp: create_logger_def create_or_get_logger_def split: if_splits)
    then show ?thesis using parsed by simp
  qed
qed (use assms in \<open>auto simp: create_logger_def create_or_get_logger_def\<close>)

lemma cleanup_loop_result:
  "cleanup_loop check ls s = (kept, removed, again, s1) \<Longrightarrow>
    ascending logger_key ls \<Longrightarrow> distinct (map fst ls) \<Longrightarrow>
    ascending logger_key kept \<and> distinct (map fst kept) \<and> set kept \<subseteq> set ls
    \<and> (\<forall>x \<in> set ls. lb_valid (snd x) \<longrightarrow> x \<in> set kept) \<and> (again \<longleftrightarrow> (\<exists>x \<in> set kept. \<not> lb_valid (snd x)))
    \<and> set removed = lb_logger_name ` snd ` (set ls - set kept)"
proof (induction ls arbitrary: s kept removed again s1)
  case (Cons x ls)
  obtain a lg where x: "x = (a, lg)" by (cases x) auto
  have tail: "ascending logger_key ls" "distinct (map fst ls)" "x \<notin> set ls"
    using Cons.prems(2,3) x by (auto simp: ascending_Cons intro: rev_image_eqI)
  obtain s2 k r ag where rest: "cleanup_loop check ls s2 = (k, r, ag, s1)"
    and pick: "lb_valid lg \<and> kept = x # k \<and> removed = r \<and> again = ag
      \<or> \<not> lb_valid lg \<and> kept = x # k \<and> removed = r \<and> again
      \<or> \<not> lb_valid lg \<and> kept = k \<and> removed = lb_logger_name lg # r \<and> again = ag"
    using Cons.prems(1) x by (auto split: if_splits prod.splits bool.splits)
  note IH = Cons.IH [OF rest tail(1,2)]
  have "x \<notin> set k" using IH tail(3) by blast
  then have diff: "set (x # ls) - set (x # k) = set ls - set k" "set (x # ls) - set k = insert x (set ls - set k)"
    using tail(3) by auto
  have above: "\<forall>y \<in> set k. lb_logger_name lg < lb_logger_name (snd y) \<and> a \<noteq> fst y"
  proof
    fix y assume "y \<in> set k"
    with IH have "y \<in> set ls" by blast
    then show "lb_logger_name lg < lb_logger_name (snd y) \<and> a \<noteq> fst y"
      using Cons.prems(2,3) x by (auto simp: ascending_Cons)
  qed
  have keep: "ascending logger_key (x # k) \<and> distinct (map fst (x # k)) \<and> set (x # k) \<subseteq> set (x # ls)"
    using IH above x by (auto simp: ascending_Cons)
  from pick show ?case
  proof (elim disjE conjE)
    assume "lb_valid lg" "kept = x # k" "removed = r" "again = ag"
    with IH keep diff(1) x show ?case by simp
  next
    assume "\<not> lb_valid lg" "kept = x # k" "removed = r" again
    with IH keep diff(1) x show ?case by simp
  next
    assume "\<not> lb_valid lg" "kept = k" "removed = lb_logger_name lg # r" "again = ag"
    moreover have "set k \<subseteq> set (x # ls)" using IH by auto
    ultimately show ?case using IH diff(2) x by simp
  qed
qed simp

text \<open>A registered logger is found under its name, and no removal is forgotten.\<close>

lemma mark_logger_ok: "lm_wf m \<Longrightarrow> lm_wf (mark_logger addr m)"
  by (simp add: lm_wf_def mark_logger_def lg_mark_invalid_def update_logger_names)

lemma registry_step_ok:
  assumes "registry_step r r1" "rr_ok r"
  shows "rr_ok r1"
  using assms
proof (induction rule: registry_step.induct)
  case (create addr r env name sinks options clock user res m)
  then show ?case
    using create_logger_ok [of env addr name sinks options clock user "rr_manager r" res m] by (auto simp: rr_ok_def)
next
  case (create_or_get addr r env name sinks options clock user res m)
  then show ?case
    using create_logger_ok [of env addr name sinks options clock user "rr_manager r" res m] by (auto simp: rr_ok_def)
next
  case (create_like addr r env name source res m)
  then show ?case
  proof (cases source)
    case (Some lg)
    then show ?thesis
      using create_like create_logger_ok [of env addr name "map Some (lb_sinks lg)" "lg_pattern_formatter_options lg"
          "lb_clock_source lg" "lg_user_clock lg" "rr_manager r" res m]
      by (auto simp: rr_ok_def create_or_get_logger_like_def)
  qed (auto simp: create_or_get_logger_like_def)
next
  case (parse env r m)
  then show ?case using parse_log_level_from_env_result [OF parse(1)] by (auto simp: rr_ok_def lm_wf_def)
next
  case (mark r addr)
  then show ?case by (simp add: rr_ok_def mark_logger_ok)
next
  case (announce r n)
  then show ?case by (simp add: rr_ok_def announce_removal_def lm_wf_def)
next
  case (take_back r)
  then show ?case by (simp add: rr_ok_def lm_wf_def)
next
  case (clean r removed checks m removed1 checks1)
  obtain kept gone again s1 where run: "cleanup_loop next_answer (lm_loggers (rr_manager r)) checks = (kept, gone, again, s1)"
    by (cases "cleanup_loop next_answer (lm_loggers (rr_manager r)) checks") auto
  have "lm_loggers m = kept" "lm_has_invalidated_loggers m = (lm_has_invalidated_loggers (rr_manager r) \<or> again)"
    "lm_env_log_level m = lm_env_log_level (rr_manager r)"
    using clean(2) run by (auto simp: cleanup_marked_loggers_def)
  with clean(3) cleanup_loop_result [OF run] show ?case
    by (simp add: rr_ok_def lm_wf_def)
next
  case (use f r addr)
  have "\<exists>y \<in> set ls. \<not> lb_valid (snd y)" if "x \<in> set (update_logger addr f ls)" "\<not> lb_valid (snd x)" for x ls
    using that use(1) by (auto simp: update_logger_def split: if_splits) (metis snd_conv)+
  moreover have "lm_wf ((rr_manager r)\<lparr>lm_loggers := update_logger addr f (lm_loggers (rr_manager r))\<rparr>)"
    using use by (simp add: rr_ok_def lm_wf_def update_logger_names)
  ultimately show ?case using use(2) by (simp add: rr_ok_def) blast
qed

lemma registry_start_ok: "rr_ok registry_start"
  by (simp add: rr_ok_def registry_start_def lm_new_def lm_wf_def)

interpretation loggers_run: step_invariant registry_step "\<lambda>r. r = registry_start" rr_ok
  by unfold_locales (auto intro: registry_start_ok registry_step_ok)

text \<open>
  C23. In every run of the registry, whatever the threads do: the names ascend strictly and no two
  loggers share an address; the level taken from the environment is one a logger accepts; looking
  a name up finds exactly the logger registered under it, and \<^verbatim>\<open>get_logger\<close> its address exactly
  when it is valid; and once no thread is inside \<^verbatim>\<open>remove_logger\<close> and the backend not inside its
  cleanup, every logger marked for removal is announced to the backend.
\<close>

theorem registry_well_formed:
  assumes "registry_step\<^sup>*\<^sup>* registry_start r"
  shows "ascending logger_key (lm_loggers (rr_manager r)) \<and> distinct (get_all_loggers (rr_manager r))
    \<and> lm_env_log_level (rr_manager r) \<noteq> Some Backtrace
    \<and> (\<forall>name a lg. find_logger name (lm_loggers (rr_manager r)) = Some (a, lg)
        \<longleftrightarrow> (a, lg) \<in> set (lm_loggers (rr_manager r)) \<and> lb_logger_name lg = name)
    \<and> (\<forall>name a. get_logger name (rr_manager r) = Some a
        \<longleftrightarrow> (\<exists>lg. (a, lg) \<in> set (lm_loggers (rr_manager r)) \<and> lb_logger_name lg = name \<and> lb_valid lg))
    \<and> (rr_announcing r = 0 \<and> \<not> rr_cleaning r \<and> \<not> list_all (lb_valid \<circ> snd) (lm_loggers (rr_manager r))
        \<longrightarrow> has_invalidated_loggers (rr_manager r))"
proof -
  have ok: "rr_ok r" by (rule loggers_run.reachable [OF assms refl])
  then have wf: "ascending logger_key (lm_loggers (rr_manager r))" by (simp add: rr_ok_def lm_wf_def)
  have get: "get_logger name (rr_manager r) = Some a
      \<longleftrightarrow> (\<exists>lg. (a, lg) \<in> set (lm_loggers (rr_manager r)) \<and> lb_logger_name lg = name \<and> lb_valid lg)" for name a
    unfolding get_logger_def using find_logger_iff [OF wf, of name] find_logger_None [OF wf, of name]
    by (auto split: option.splits) (metis option.inject prod.inject)+
  have "distinct (get_all_loggers (rr_manager r))"
    using ok by (simp add: rr_ok_def lm_wf_def get_all_loggers_def distinct_map_filter)
  with ok wf get find_logger_iff [OF wf] show ?thesis
    by (auto simp: rr_ok_def lm_wf_def has_invalidated_loggers_def list_all_iff)
qed

text \<open>
  C24. On a well-formed registry \<^verbatim>\<open>create_logger\<close> throws exactly when the environment holds no log
  level a logger accepts, the name is registered (also when its logger only waits for its removal)
  or a sink is null, and then no logger is added or changed; otherwise it returns the new logger,
  which is valid, has the sinks and the level of the environment, and is found under its name.
  \<^verbatim>\<open>create_or_get_logger\<close> gives the registered logger where there is a valid one, and does what
  \<^verbatim>\<open>create_logger\<close> does where the name is free.
\<close>

theorem create_logger_outcome:
  assumes "lm_wf m" "addr \<notin> fst ` set (lm_loggers m)"
  shows "(case create_logger env addr name sinks options clock user m of
      (Inl e, m1) \<Rightarrow> lm_loggers m1 = lm_loggers m
        \<and> (\<not> isl (ensure_env_log_level_parsed env m) \<and> name \<notin> set (logger_names (lm_loggers m)) \<longrightarrow> None \<in> set sinks)
    | (Inr r, m1) \<Rightarrow> \<not> isl (ensure_env_log_level_parsed env m) \<and> name \<notin> set (logger_names (lm_loggers m)) \<and> None \<notin> set sinks
        \<and> r = Some addr \<and> get_logger name m1 = Some addr
        \<and> (\<exists>lg. set (lm_loggers m1) = insert (addr, lg) (set (lm_loggers m)) \<and> lb_valid lg \<and> lb_sinks lg = map the sinks
             \<and> lb_log_level lg = (case lm_env_log_level m1 of None \<Rightarrow> Info | Some l \<Rightarrow> l)))
    \<and> (\<not> isl (ensure_env_log_level_parsed env m) \<longrightarrow>
        (case find_logger name (lm_loggers m) of
           None \<Rightarrow> create_or_get_logger env addr name sinks options clock user m = create_logger env addr name sinks options clock user m
         | Some (a, lg) \<Rightarrow> isl (fst (create_or_get_logger env addr name sinks options clock user m)) = (\<not> lb_valid lg)
             \<and> (lb_valid lg \<longrightarrow> fst (create_or_get_logger env addr name sinks options clock user m) = Inr (Some a))))"
proof (cases "ensure_env_log_level_parsed env m")
  case (Inl e)
  then show ?thesis by (simp add: create_logger_def create_or_get_logger_def)
next
  case (Inr m0)
  note parsed = ensure_env_log_level_parsed_result [OF Inr assms(1)]
  have sorted: "ascending logger_key (lm_loggers m)" using assms(1) by (simp add: lm_wf_def)
  show ?thesis
  proof (cases "find_logger name (lm_loggers m)")
    case None
    have free: "name \<notin> set (logger_names (lm_loggers m))" using None find_logger_None [OF sorted] by blast
    obtain res m1 where run: "construct_logger addr name sinks options clock user m0 = (res, m1)" by fastforce
    have "get_logger name m1 = Some addr" if "lm_wf m1" "(addr, lg) \<in> set (lm_loggers m1)" "lb_logger_name lg = name" "lb_valid lg" for lg
      using that find_logger_iff [of "lm_loggers m1" name addr lg] by (simp add: get_logger_def lm_wf_def)
    with construct_logger_result [of m0 addr name sinks options clock user] run parsed assms(2) free Inr None
    show ?thesis by (simp add: create_logger_def create_or_get_logger_def split: sum.splits) blast
  next
    case (Some x)
    obtain a lg where x: "x = (a, lg)" by (cases x) auto
    have "name \<in> set (logger_names (lm_loggers m))" using Some find_logger_None [OF sorted] by (metis option.distinct(1))
    with Some x Inr parsed show ?thesis by (simp add: create_logger_def create_or_get_logger_def)
  qed
qed

subsection \<open>Examples\<close>

lemma create_logger_outcome_witness:
  "get_logger ''root'' (snd (create_logger (Some ''debug'') 7 ''root'' [Some 3] po_default Tsc 0 lm_new)) = Some 7"
proof -
  have wf: "lm_wf lm_new" "7 \<notin> fst ` set (lm_loggers lm_new)" by (simp_all add: lm_wf_def lm_new_def)
  have env: "\<not> isl (ensure_env_log_level_parsed (Some ''debug'') lm_new)" by code_simp
  have names: "''root'' \<notin> set (logger_names (lm_loggers lm_new))" by (simp add: lm_new_def)
  show ?thesis
    using create_logger_outcome [OF wf, of "Some ''debug''" "''root''" "[Some 3]" po_default Tsc 0] env names
    by (auto split: prod.splits sum.splits)
qed

lemma registry_well_formed_witness:
  "get_logger ''a'' (mark_logger 1 (snd (create_logger None 1 ''a'' [] po_default Tsc 0 lm_new))) = None"
proof -
  let ?m = "snd (create_logger None 1 ''a'' [] po_default Tsc 0 lm_new)"
  let ?r = "registry_start\<lparr>rr_manager := ?m\<rparr>"
  let ?r1 = "?r\<lparr>rr_manager := mark_logger 1 (rr_manager ?r), rr_announcing := Suc (rr_announcing ?r)\<rparr>"
  have "registry_step registry_start ?r"
    by (rule registry_step.create [where addr = 1 and res = "fst (create_logger None 1 ''a'' [] po_default Tsc 0 lm_new)"])
       (simp_all add: registry_start_def lm_new_def)
  then have "registry_step\<^sup>*\<^sup>* registry_start ?r1"
    using registry_step.mark [of ?r 1] by (rule converse_rtranclp_into_rtranclp [OF _ r_into_rtranclp])
  note run = registry_well_formed [OF this]
  have "list_all (\<lambda>x. \<not> lb_valid (snd x)) (lm_loggers (mark_logger 1 ?m))"
    by (simp add: create_logger_def ensure_env_log_level_parsed_def parse_log_level_from_env_def lm_new_def construct_logger_def
        lg_new_def lb_new_def insert_logger_def find_logger_def insert_at_def lower_bound_def search_def mark_logger_def update_logger_def lg_mark_invalid_def
        logger_base.defs)
  then have "\<not> (\<exists>lg. (a, lg) \<in> set (lm_loggers (mark_logger 1 ?m)) \<and> lb_valid lg)" for a
    by (auto simp: list_all_iff)
  with run show ?thesis by (cases "get_logger ''a'' (mark_logger 1 ?m)") auto
qed

end
