(* ===== verification/Sink_Manager.thy ===== *)
theory Sink_Manager
  imports Common Sorted_Vector
begin

text \<open>
  \<^verbatim>\<open>quill/core/SinkManager.h\<close>: the registry of sinks. It keeps weak pointers in ascending order of
  the ids, and the ids of the sinks under construction, because a sink is constructed outside the
  lock. A sink is known by a number no other sink ever had; \<open>live\<close> says which still have an owner.
  The normalisation of a file name asks the file system and is a parameter.
\<close>

subsection \<open>The operations\<close>

record sink_manager =
  sn_sinks :: "(string \<times> nat) list"
  sn_pending_sink_ids :: "string list"

definition sn_new :: sink_manager where
  "sn_new = \<lparr>sn_sinks = [], sn_pending_sink_ids = []\<rparr>"

text \<open>\<^verbatim>\<open>lock()\<close> on a weak pointer gives null once the sink has no owner.\<close>

definition find_sink :: "(nat \<Rightarrow> bool) \<Rightarrow> string \<Rightarrow> (string \<times> nat) list \<Rightarrow> nat option" where
  "find_sink live target sinks =
     (case search fst target sinks of None \<Rightarrow> None | Some (_, s) \<Rightarrow> if live s then Some s else None)"

definition insert_sink :: "(nat \<Rightarrow> bool) \<Rightarrow> string \<Rightarrow> nat \<Rightarrow> (string \<times> nat) list \<Rightarrow> (string \<times> nat) list" where
  "insert_sink live sink_name sink sinks =
     (let i = lower_bound fst sink_name sinks in
      if i < length sinks \<and> fst (sinks ! i) = sink_name \<and> \<not> live (snd (sinks ! i)) then sinks[i := (sink_name, sink)]
      else insert_at i (sink_name, sink) sinks)"

text \<open>\<^verbatim>\<open>None\<close> when the id is pending already.\<close>

definition try_mark_sink_pending :: "string \<Rightarrow> string list \<Rightarrow> string list option" where
  "try_mark_sink_pending sink_name pending =
     (let i = lower_bound (\<lambda>s. s) sink_name pending in
      if i < length pending \<and> pending ! i = sink_name then None else Some (insert_at i sink_name pending))"

definition erase_pending_sink :: "string \<Rightarrow> string list \<Rightarrow> string list" where
  "erase_pending_sink sink_name pending =
     (let i = lower_bound (\<lambda>s. s) sink_name pending in
      if i < length pending \<and> pending ! i = sink_name then remove_at i pending else pending)"

definition remove_pending_sink :: "string \<Rightarrow> sink_manager \<Rightarrow> sink_manager" where
  "remove_pending_sink sink_id m = m\<lparr>sn_pending_sink_ids := erase_pending_sink sink_id (sn_pending_sink_ids m)\<rparr>"

definition get_sink :: "(string \<Rightarrow> quill_error + string) \<Rightarrow> (nat \<Rightarrow> bool) \<Rightarrow> string \<Rightarrow> sink_manager \<Rightarrow> quill_error + nat" where
  "get_sink norm_path live sink_name m =
     (let normalized_sink_name = (case norm_path sink_name of Inl _ \<Rightarrow> [] | Inr s \<Rightarrow> s);
          sink = find_sink live sink_name (sn_sinks m)
      in case (if sink = None \<and> normalized_sink_name \<noteq> [] \<and> normalized_sink_name \<noteq> sink_name
               then find_sink live normalized_sink_name (sn_sinks m) else sink) of
           None \<Rightarrow> Inl (QuillError (''Sink with name \"'' @ sink_name @ ''\" does not exist''))
         | Some s \<Rightarrow> Inr s)"

text \<open>
  One turn of the loop in \<^verbatim>\<open>_reserve_sink_id_for_creation\<close>, under the lock. When the id is pending
  the thread sleeps and tries again.
\<close>

datatype reservation = Existing nat | AlreadyExists | Reserved | TryAgain

definition reserve_sink_id :: "(nat \<Rightarrow> bool) \<Rightarrow> string \<Rightarrow> bool \<Rightarrow> sink_manager \<Rightarrow> reservation \<times> sink_manager" where
  "reserve_sink_id live sink_id return_existing m =
     (case find_sink live sink_id (sn_sinks m) of
        Some s \<Rightarrow> (if return_existing then Existing s else AlreadyExists, m)
      | None \<Rightarrow>
          (case try_mark_sink_pending sink_id (sn_pending_sink_ids m) of
             Some pending \<Rightarrow> (Reserved, m\<lparr>sn_pending_sink_ids := pending\<rparr>)
           | None \<Rightarrow> (TryAgain, m)))"

text \<open>\<open>inserts\<close> is false when the insertion finds no memory.\<close>

definition publish_created_sink :: "(nat \<Rightarrow> bool) \<Rightarrow> bool \<Rightarrow> string \<Rightarrow> nat \<Rightarrow> sink_manager \<Rightarrow> (quill_error + unit) \<times> sink_manager" where
  "publish_created_sink live inserts sink_id sink m =
     (if inserts
      then (Inr (), remove_pending_sink sink_id (m\<lparr>sn_sinks := insert_sink live sink_id sink (sn_sinks m)\<rparr>))
      else (Inl BadAlloc, remove_pending_sink sink_id m))"

text \<open>
  The calls of a thread while no other one interferes. \<open>constructed\<close> is what the constructor of the
  sink does; a file sink is known by the normalised path of its file; \<open>compatible\<close> says whether a
  sink that exists has the type asked for. The result \<open>None\<close> means that the thread has to try again.
\<close>

definition normalized_sink_name :: "(string \<Rightarrow> quill_error + string) \<Rightarrow> bool \<Rightarrow> string \<Rightarrow> quill_error + string" where
  "normalized_sink_name norm_path is_file sink_name = (if is_file then norm_path sink_name else Inr sink_name)"

definition create_reserved_sink ::
  "(nat \<Rightarrow> bool) \<Rightarrow> bool \<Rightarrow> quill_error + nat \<Rightarrow> string \<Rightarrow> sink_manager \<Rightarrow> (quill_error + nat) \<times> sink_manager" where
  "create_reserved_sink live inserts constructed sink_id m =
     (case constructed of
        Inl e \<Rightarrow> (Inl e, remove_pending_sink sink_id m)
      | Inr s \<Rightarrow> (case publish_created_sink live inserts sink_id s m of (r, m1) \<Rightarrow> (map_sum id (\<lambda>_. s) r, m1)))"

definition create_sink ::
  "(nat \<Rightarrow> bool) \<Rightarrow> bool \<Rightarrow> quill_error + nat \<Rightarrow> string \<Rightarrow> quill_error + string \<Rightarrow> sink_manager
    \<Rightarrow> ((quill_error + nat) \<times> sink_manager) option" where
  "create_sink live inserts constructed sink_name normalized m =
     (case normalized of
        Inl e \<Rightarrow> Some (Inl e, m)
      | Inr sink_id \<Rightarrow>
          (case reserve_sink_id live sink_id False m of
             (TryAgain, _) \<Rightarrow> None
           | (Reserved, m1) \<Rightarrow> Some (create_reserved_sink live inserts constructed sink_id m1)
           | (_, m1) \<Rightarrow> Some (Inl (QuillError (''Sink with name \"'' @ sink_name @ ''\" already exists. Use create_or_get_sink() if you want to retrieve the existing sink, or choose a different name.'')), m1)))"

definition create_or_get_sink ::
  "(nat \<Rightarrow> bool) \<Rightarrow> (nat \<Rightarrow> bool) \<Rightarrow> bool \<Rightarrow> quill_error + nat \<Rightarrow> string \<Rightarrow> quill_error + string \<Rightarrow> sink_manager
    \<Rightarrow> ((quill_error + nat) \<times> sink_manager) option" where
  "create_or_get_sink live compatible inserts constructed sink_name normalized m =
     (case normalized of
        Inl e \<Rightarrow> Some (Inl e, m)
      | Inr sink_id \<Rightarrow>
          (case reserve_sink_id live sink_id True m of
             (TryAgain, _) \<Rightarrow> None
           | (Existing s, m1) \<Rightarrow>
               Some (if compatible s then Inr s
                     else Inl (QuillError (''A sink named \"'' @ sink_name @ ''\" already exists with an incompatible type'')), m1)
           | (_, m1) \<Rightarrow> Some (create_reserved_sink live inserts constructed sink_id m1)))"

definition cleanup_unused_sinks :: "(nat \<Rightarrow> bool) \<Rightarrow> sink_manager \<Rightarrow> nat \<times> sink_manager" where
  "cleanup_unused_sinks live m =
     (length (filter (\<lambda>(_, s). \<not> live s) (sn_sinks m)), m\<lparr>sn_sinks := filter (\<lambda>(_, s). live s) (sn_sinks m)\<rparr>)"

subsection \<open>Threads that create sinks\<close>

text \<open>
  A run: the registry, the sinks that have an owner, how many sinks there were, the ids the threads
  are constructing sinks for, and every sink that was published with its id.
\<close>

record sink_run =
  sr_manager :: sink_manager
  sr_live :: "nat set"
  sr_created :: nat
  sr_creating :: "nat \<rightharpoonup> string"
  sr_published :: "(string \<times> nat) set"

definition sink_start :: sink_run where
  "sink_start = \<lparr>sr_manager = sn_new, sr_live = {}, sr_created = 0, sr_creating = (\<lambda>_. None), sr_published = {}\<rparr>"

abbreviation alive :: "sink_run \<Rightarrow> nat \<Rightarrow> bool" where
  "alive r \<equiv> \<lambda>s. s \<in> sr_live r"

text \<open>
  A thread reserves an id, or finds the sink or the id taken; it constructs the sink, which may
  throw, and publishes it, which may fail; owners disappear; the backend cleans up.
\<close>

inductive sink_step :: "sink_run \<Rightarrow> sink_run \<Rightarrow> bool" where
  reserve: "sr_creating r t = None \<Longrightarrow> reserve_sink_id (alive r) name existing (sr_manager r) = (res, m) \<Longrightarrow>
    sink_step r (r\<lparr>sr_manager := m, sr_creating := (if res = Reserved then (sr_creating r)(t \<mapsto> name) else sr_creating r)\<rparr>)"
| construction_fails: "sr_creating r t = Some name \<Longrightarrow>
    sink_step r (r\<lparr>sr_manager := remove_pending_sink name (sr_manager r), sr_creating := (sr_creating r)(t := None)\<rparr>)"
| publish: "sr_creating r t = Some name \<Longrightarrow>
    publish_created_sink (alive r) True name (sr_created r) (sr_manager r) = (res, m) \<Longrightarrow>
    sink_step r (r\<lparr>sr_manager := m, sr_live := insert (sr_created r) (sr_live r), sr_created := Suc (sr_created r),
                  sr_creating := (sr_creating r)(t := None), sr_published := insert (name, sr_created r) (sr_published r)\<rparr>)"
| publish_fails: "sr_creating r t = Some name \<Longrightarrow>
    publish_created_sink (alive r) False name (sr_created r) (sr_manager r) = (res, m) \<Longrightarrow>
    sink_step r (r\<lparr>sr_manager := m, sr_created := Suc (sr_created r), sr_creating := (sr_creating r)(t := None)\<rparr>)"
| abandon: "sink_step r (r\<lparr>sr_live := sr_live r - {s}\<rparr>)"
| cleanup: "cleanup_unused_sinks (alive r) (sr_manager r) = (count, m) \<Longrightarrow> sink_step r (r\<lparr>sr_manager := m\<rparr>)"

definition sink_run_ok :: "sink_run \<Rightarrow> bool" where
  "sink_run_ok r \<longleftrightarrow> ascending fst (sn_sinks (sr_manager r)) \<and> ascending (\<lambda>s. s) (sn_pending_sink_ids (sr_manager r))
     \<and> (\<forall>t u name. sr_creating r t = Some name \<and> sr_creating r u = Some name \<longrightarrow> t = u)
     \<and> set (sn_pending_sink_ids (sr_manager r)) = ran (sr_creating r)
     \<and> (\<forall>name \<in> ran (sr_creating r). \<forall>s. (name, s) \<in> set (sn_sinks (sr_manager r)) \<longrightarrow> s \<notin> sr_live r)
     \<and> set (sn_sinks (sr_manager r)) \<subseteq> sr_published r \<and> (\<forall>x \<in> sr_published r. snd x < sr_created r)
     \<and> (\<forall>x \<in> sr_published r. snd x \<in> sr_live r \<longrightarrow> x \<in> set (sn_sinks (sr_manager r)))
     \<and> (\<forall>s \<in> sr_live r. s < sr_created r)"

lemma find_sink_iff: "ascending fst sinks \<Longrightarrow> find_sink live name sinks = Some s \<longleftrightarrow> (name, s) \<in> set sinks \<and> live s"
proof (cases "search fst name sinks")
  case None
  assume asc: "ascending fst sinks"
  then have "name \<notin> fst ` set sinks" using None search_None by blast
  with None show ?thesis by (force simp: find_sink_def)
next
  case (Some x)
  assume asc: "ascending fst sinks"
  obtain b where x: "x = (name, b)" "(name, b) \<in> set sinks" using Some search_iff [OF asc] by (cases x) auto
  have "(name, s) \<in> set sinks \<longleftrightarrow> s = b" using ascending_unique [OF asc x(2), of "(name, s)"] x(2) by auto
  with Some x show ?thesis by (auto simp: find_sink_def)
qed

lemma found_at: "search key t xs = Some x \<Longrightarrow> lower_bound key t xs < length xs \<and> xs ! lower_bound key t xs = x \<and> key x = t"
  by (auto simp: search_def Let_def split: if_splits)

lemma insert_sink_set:
  assumes "ascending fst sinks" "\<forall>s. (name, s) \<in> set sinks \<longrightarrow> \<not> live s"
  shows "ascending fst (insert_sink live name s sinks) \<and> set (insert_sink live name s sinks) = insert (name, s) {x \<in> set sinks. fst x \<noteq> name}"
proof (cases "search fst name sinks")
  case None
  then have new: "name \<notin> fst ` set sinks" using search_None [OF assms(1)] by blast
  have "insert_sink live name s sinks = insert_at (lower_bound fst name sinks) (name, s) sinks"
    using None by (auto simp: insert_sink_def search_def Let_def split: if_splits)
  with new insert_at_ascending [OF assms(1), of "(name, s)"] show ?thesis by (auto simp: insert_at_set)
next
  case (Some x)
  let ?i = "lower_bound fst name sinks"
  note at = found_at [OF Some]
  have x: "x \<in> set sinks" using search_iff [OF assms(1)] Some by blast
  with at assms(2) have "\<not> live (snd x)" by (metis prod.collapse)
  with at have run: "insert_sink live name s sinks = sinks[?i := (name, s)]"
    by (simp add: insert_sink_def Let_def)
  have keys: "map fst (sinks[?i := (name, s)]) = map fst sinks"
    using at by (simp add: map_update) (metis list_update_id nth_map)
  have asc: "ascending fst (sinks[?i := (name, s)])" using assms(1) keys by (simp add: ascending_def)
  have "y \<in> set (sinks[?i := (name, s)]) \<longleftrightarrow> y = (name, s) \<or> y \<in> set sinks \<and> fst y \<noteq> name" for y
  proof
    assume y: "y \<in> set (sinks[?i := (name, s)])"
    then have "y = (name, s) \<or> y \<in> set sinks" using set_update_subset_insert [of sinks ?i "(name, s)"] by blast
    moreover have "fst y \<noteq> name" if "y \<noteq> (name, s)"
    proof
      assume "fst y = name"
      moreover have "(name, s) \<in> set (sinks[?i := (name, s)])" using at by (meson set_update_memI)
      ultimately show False using ascending_unique [OF asc y] that by auto
    qed
    ultimately show "y = (name, s) \<or> y \<in> set sinks \<and> fst y \<noteq> name" by blast
  next
    assume "y = (name, s) \<or> y \<in> set sinks \<and> fst y \<noteq> name"
    moreover have "y \<in> set (sinks[?i := (name, s)])" if "y \<in> set sinks" "fst y \<noteq> name"
    proof -
      obtain j where j: "j < length sinks" "sinks ! j = y" using \<open>y \<in> set sinks\<close> by (auto simp: in_set_conv_nth)
      with at that(2) have "j \<noteq> ?i" by auto
      with j show ?thesis by (auto simp: in_set_conv_nth)
    qed
    ultimately show "y \<in> set (sinks[?i := (name, s)])" using at by (auto intro: set_update_memI)
  qed
  with asc run show ?thesis by auto
qed

lemma try_mark_sink_pending_result:
  assumes "ascending (\<lambda>s. s) pending"
  shows "case try_mark_sink_pending name pending of
      None \<Rightarrow> name \<in> set pending
    | Some p \<Rightarrow> name \<notin> set pending \<and> ascending (\<lambda>s. s) p \<and> set p = insert name (set pending)"
proof (cases "search (\<lambda>s. s) name pending")
  case None
  then have new: "name \<notin> set pending" using search_None [OF assms] by simp
  have "try_mark_sink_pending name pending = Some (insert_at (lower_bound (\<lambda>s. s) name pending) name pending)"
    using None by (auto simp: try_mark_sink_pending_def search_def Let_def split: if_splits)
  with new insert_at_ascending [OF assms, of name] show ?thesis by (simp add: insert_at_set)
next
  case (Some x)
  from found_at [OF Some] Some search_iff [OF assms] show ?thesis
    by (auto simp: try_mark_sink_pending_def Let_def in_set_conv_nth)
qed

lemma erase_pending_sink_result:
  assumes "ascending (\<lambda>s. s) pending"
  shows "ascending (\<lambda>s. s) (erase_pending_sink name pending) \<and> set (erase_pending_sink name pending) = set pending - {name}"
proof (cases "search (\<lambda>s. s) name pending")
  case None
  then have "name \<notin> set pending" using search_None [OF assms] by simp
  moreover have "erase_pending_sink name pending = pending"
    using None by (auto simp: erase_pending_sink_def search_def Let_def split: if_splits)
  ultimately show ?thesis using assms by simp
next
  case (Some x)
  from found_at [OF Some] have "erase_pending_sink name pending = remove_at (lower_bound (\<lambda>s. s) name pending) pending"
    by (simp add: erase_pending_sink_def Let_def)
  with remove_found [OF assms, of name] Some show ?thesis by auto
qed

text \<open>A created sink is found under its id, and a second one cannot take the id while it lives.\<close>

lemma create_sink_found:
  assumes "ascending fst (sn_sinks m)" "ascending (\<lambda>s. s) (sn_pending_sink_ids m)"
    and "create_sink live True (Inr s) sink_name (Inr sink_id) m = Some (Inr s1, m1)" "live1 s" "\<And>t. t \<noteq> s \<Longrightarrow> live1 t = live t"
  shows "s1 = s \<and> find_sink live1 sink_id (sn_sinks m1) = Some s
    \<and> create_or_get_sink live1 (\<lambda>_. True) inserts constructed other (Inr sink_id) m1 = Some (Inr s, m1)"
proof -
  have none: "find_sink live sink_id (sn_sinks m) = None" and s1: "s1 = s"
    and m1: "sn_sinks m1 = insert_sink live sink_id s (sn_sinks m)"
    using assms(3) by (auto simp: create_sink_def reserve_sink_id_def create_reserved_sink_def publish_created_sink_def
        remove_pending_sink_def split: option.splits)
  have dead: "\<forall>t. (sink_id, t) \<in> set (sn_sinks m) \<longrightarrow> \<not> live t"
    using none find_sink_iff [OF assms(1), of live sink_id] by auto
  have "find_sink live1 sink_id (sn_sinks m1) = Some s"
    using insert_sink_set [OF assms(1) dead, of s] m1 assms(4) find_sink_iff [of "sn_sinks m1" live1 sink_id s] by simp
  with s1 show ?thesis by (simp add: create_or_get_sink_def reserve_sink_id_def)
qed

lemma ran_update_None: "sr t = Some name \<Longrightarrow> \<forall>t u name. sr t = Some name \<and> sr u = Some name \<longrightarrow> t = u
  \<Longrightarrow> ran (sr(t := None)) = ran sr - {name}"
  by (auto simp: ran_def) (metis option.inject)

text \<open>The end of a construction, successful or not.\<close>

lemma end_construction:
  assumes ok: "sink_run_ok r" and t: "sr_creating r t = Some name"
  shows "ascending (\<lambda>s. s) (erase_pending_sink name (sn_pending_sink_ids (sr_manager r)))"
    "set (erase_pending_sink name (sn_pending_sink_ids (sr_manager r))) = ran ((sr_creating r)(t := None))"
    "\<forall>t' u n. ((sr_creating r)(t := None)) t' = Some n \<and> ((sr_creating r)(t := None)) u = Some n \<longrightarrow> t' = u"
    "ran ((sr_creating r)(t := None)) = ran (sr_creating r) - {name}"
proof -
  have one: "\<forall>t u name. sr_creating r t = Some name \<and> sr_creating r u = Some name \<longrightarrow> t = u"
    and pend: "ascending (\<lambda>s. s) (sn_pending_sink_ids (sr_manager r))" "set (sn_pending_sink_ids (sr_manager r)) = ran (sr_creating r)"
    using ok unfolding sink_run_ok_def by blast+
  show r: "ran ((sr_creating r)(t := None)) = ran (sr_creating r) - {name}" by (rule ran_update_None [OF t one])
  show "ascending (\<lambda>s. s) (erase_pending_sink name (sn_pending_sink_ids (sr_manager r)))"
    "set (erase_pending_sink name (sn_pending_sink_ids (sr_manager r))) = ran ((sr_creating r)(t := None))"
    using erase_pending_sink_result [OF pend(1), of name] pend(2) r by simp_all
  show "\<forall>t' u n. ((sr_creating r)(t := None)) t' = Some n \<and> ((sr_creating r)(t := None)) u = Some n \<longrightarrow> t' = u"
    using one by (auto split: if_splits)
qed

lemma sink_step_ok:
  assumes "sink_step r r1" "sink_run_ok r"
  shows "sink_run_ok r1"
  using assms
proof (induction rule: sink_step.induct)
  case (reserve r t name existing res m)
  let ?m = "sr_manager r"
  have asc: "ascending fst (sn_sinks ?m)" "ascending (\<lambda>s. s) (sn_pending_sink_ids ?m)"
    using reserve(3) by (auto simp: sink_run_ok_def)
  show ?case
  proof (cases "res = Reserved")
    case True
    then obtain p where p: "find_sink (alive r) name (sn_sinks ?m) = None" "try_mark_sink_pending name (sn_pending_sink_ids ?m) = Some p"
      "m = ?m\<lparr>sn_pending_sink_ids := p\<rparr>"
      using reserve(2) by (auto simp: reserve_sink_id_def split: option.splits if_splits)
    have new: "name \<notin> set (sn_pending_sink_ids ?m)" "ascending (\<lambda>s. s) p" "set p = insert name (set (sn_pending_sink_ids ?m))"
      using try_mark_sink_pending_result [OF asc(2), of name] p(2) by auto
    have dead: "\<forall>s. (name, s) \<in> set (sn_sinks ?m) \<longrightarrow> s \<notin> sr_live r"
      using p(1) find_sink_iff [OF asc(1), of "alive r" name] by auto
    have ran: "ran ((sr_creating r)(t \<mapsto> name)) = insert name (ran (sr_creating r))" using reserve(1) by simp
    have "name \<notin> ran (sr_creating r)" using new(1) reserve(3) by (simp add: sink_run_ok_def)
    then have "\<forall>u. sr_creating r u \<noteq> Some name" by (auto simp: ran_def)
    with reserve(3) True p(3) new dead ran show ?thesis by (simp add: sink_run_ok_def)
  next
    case False
    then have "m = ?m" using reserve(2) by (auto simp: reserve_sink_id_def split: option.splits if_splits)
    with False reserve(3) show ?thesis by simp
  qed
next
  case (construction_fails r t name)
  from end_construction [OF construction_fails(2,1)] construction_fails(2) show ?case
    by (auto simp: sink_run_ok_def remove_pending_sink_def)
next
  case (publish r t name res m)
  let ?sinks = "sn_sinks (sr_manager r)"
  note ends = end_construction [OF publish(3,1)]
  have asc: "ascending fst ?sinks" using publish(3) by (simp add: sink_run_ok_def)
  have name: "name \<in> ran (sr_creating r)" using publish(1) by (auto simp: ran_def)
  then have dead: "\<forall>s. (name, s) \<in> set ?sinks \<longrightarrow> s \<notin> sr_live r" using publish(3) unfolding sink_run_ok_def by blast
  note ins = insert_sink_set [OF asc dead, of "sr_created r"]
  have m: "sn_sinks m = insert_sink (alive r) name (sr_created r) ?sinks"
    "sn_pending_sink_ids m = erase_pending_sink name (sn_pending_sink_ids (sr_manager r))"
    using publish(2) by (auto simp: publish_created_sink_def remove_pending_sink_def)
  have fresh: "sr_created r \<notin> sr_live r" "\<forall>n. (n, sr_created r) \<notin> sr_published r" using publish(3) by (auto simp: sink_run_ok_def)
  have sinks: "set (sn_sinks m) = insert (name, sr_created r) {x \<in> set ?sinks. fst x \<noteq> name}" using m(1) ins by simp
  have free: "\<forall>n \<in> ran ((sr_creating r)(t := None)). \<forall>s. (n, s) \<in> set (sn_sinks m) \<longrightarrow> s \<notin> insert (sr_created r) (sr_live r)"
  proof (intro ballI allI impI)
    fix n s assume n: "n \<in> ran ((sr_creating r)(t := None))" and s: "(n, s) \<in> set (sn_sinks m)"
    from n ends(4) have n': "n \<in> ran (sr_creating r)" "n \<noteq> name" by auto
    with s sinks have old: "(n, s) \<in> set ?sinks" by auto
    with n'(1) publish(3) have "s \<notin> sr_live r" unfolding sink_run_ok_def by blast
    moreover have "s \<noteq> sr_created r" using old fresh(2) publish(3) unfolding sink_run_ok_def by blast
    ultimately show "s \<notin> insert (sr_created r) (sr_live r)" by simp
  qed
  have kept: "\<forall>x \<in> insert (name, sr_created r) (sr_published r). snd x \<in> insert (sr_created r) (sr_live r) \<longrightarrow> x \<in> set (sn_sinks m)"
  proof (intro ballI impI)
    fix x assume x: "x \<in> insert (name, sr_created r) (sr_published r)" "snd x \<in> insert (sr_created r) (sr_live r)"
    show "x \<in> set (sn_sinks m)"
    proof (cases "x = (name, sr_created r)")
      case False
      with x(1) have p: "x \<in> sr_published r" by simp
      with fresh(2) have "snd x \<noteq> sr_created r" by (metis prod.collapse)
      with x(2) p publish(3) have old: "x \<in> set ?sinks" "snd x \<in> sr_live r" unfolding sink_run_ok_def by auto
      with dead have "fst x \<noteq> name" by (metis prod.collapse)
      with old(1) sinks show ?thesis by simp
    qed (simp add: sinks)
  qed
  have bounds: "\<forall>x \<in> insert (name, sr_created r) (sr_published r). snd x < Suc (sr_created r)"
    "\<forall>s \<in> insert (sr_created r) (sr_live r). s < Suc (sr_created r)"
    "set (sn_sinks m) \<subseteq> insert (name, sr_created r) (sr_published r)"
    using publish(3) sinks by (auto simp: sink_run_ok_def intro: less_SucI)
  show ?case
    unfolding sink_run_ok_def using ins ends(1-3) m free kept bounds by simp
next
  case (publish_fails r t name res m)
  have "m = remove_pending_sink name (sr_manager r)" using publish_fails(2) by (simp add: publish_created_sink_def)
  with end_construction [OF publish_fails(3,1)] publish_fails(3) show ?case
    by (auto simp: sink_run_ok_def remove_pending_sink_def intro: less_SucI)
next
  case (abandon r s)
  then show ?case unfolding sink_run_ok_def by auto
next
  case (cleanup r count m)
  then have "m = (sr_manager r)\<lparr>sn_sinks := filter (\<lambda>(_, s). s \<in> sr_live r) (sn_sinks (sr_manager r))\<rparr>"
    by (simp add: cleanup_unused_sinks_def)
  with cleanup(2) show ?case by (auto simp: sink_run_ok_def intro: ascending_filter)
qed

lemma sink_start_ok: "sink_run_ok sink_start"
  by (simp add: sink_run_ok_def sink_start_def sn_new_def)

interpretation sinks_run: step_invariant sink_step "\<lambda>r. r = sink_start" sink_run_ok
  by unfold_locales (auto intro: sink_start_ok sink_step_ok)

text \<open>
  C25. However the threads that create sinks, the owners that drop them and the backend that cleans
  up interleave: no two sinks with an owner are published under the same id; a published sink with
  an owner is always found under its id; at most one thread constructs a sink for an id, and while
  it does no sink with an owner is registered under it; and the search returns only published sinks
  that have an owner.
\<close>

theorem sink_ids_are_unique:
  assumes "sink_step\<^sup>*\<^sup>* sink_start r"
  shows "(\<forall>name s s'. (name, s) \<in> sr_published r \<and> s \<in> sr_live r \<and> (name, s') \<in> sr_published r \<and> s' \<in> sr_live r \<longrightarrow> s = s')
    \<and> (\<forall>name s. find_sink (alive r) name (sn_sinks (sr_manager r)) = Some s \<longleftrightarrow> (name, s) \<in> sr_published r \<and> s \<in> sr_live r)
    \<and> (\<forall>t u name. sr_creating r t = Some name \<and> sr_creating r u = Some name \<longrightarrow> t = u)
    \<and> (\<forall>t name. sr_creating r t = Some name \<longrightarrow> find_sink (alive r) name (sn_sinks (sr_manager r)) = None
         \<and> name \<in> set (sn_pending_sink_ids (sr_manager r)))"
proof -
  have ok: "sink_run_ok r" by (rule sinks_run.reachable [OF assms refl])
  then have asc: "ascending fst (sn_sinks (sr_manager r))" by (simp add: sink_run_ok_def)
  have found: "find_sink (alive r) name (sn_sinks (sr_manager r)) = Some s \<longleftrightarrow> (name, s) \<in> sr_published r \<and> s \<in> sr_live r" for name s
  proof -
    have "set (sn_sinks (sr_manager r)) \<subseteq> sr_published r"
      and "\<forall>x \<in> sr_published r. snd x \<in> sr_live r \<longrightarrow> x \<in> set (sn_sinks (sr_manager r))"
      using ok unfolding sink_run_ok_def by blast+
    then have "(name, s) \<in> set (sn_sinks (sr_manager r)) \<and> s \<in> sr_live r \<longleftrightarrow> (name, s) \<in> sr_published r \<and> s \<in> sr_live r" by auto
    then show ?thesis by (simp add: find_sink_iff [OF asc])
  qed
  have none: "find_sink (alive r) name (sn_sinks (sr_manager r)) = None" if "sr_creating r t = Some name" for t name
  proof (rule ccontr)
    assume "find_sink (alive r) name (sn_sinks (sr_manager r)) \<noteq> None"
    then obtain s where "find_sink (alive r) name (sn_sinks (sr_manager r)) = Some s" by (meson not_Some_eq)
    then have "(name, s) \<in> set (sn_sinks (sr_manager r)) \<and> s \<in> sr_live r" using find_sink_iff [OF asc, of "alive r"] by simp
    moreover have "name \<in> ran (sr_creating r)" using that by (auto simp: ran_def)
    ultimately show False using ok unfolding sink_run_ok_def by blast
  qed
  have one: "\<forall>t u name. sr_creating r t = Some name \<and> sr_creating r u = Some name \<longrightarrow> t = u"
    and pend: "set (sn_pending_sink_ids (sr_manager r)) = ran (sr_creating r)"
    using ok unfolding sink_run_ok_def by blast+
  have unique: "s = s'" if "(name, s) \<in> sr_published r" "s \<in> sr_live r" "(name, s') \<in> sr_published r" "s' \<in> sr_live r" for name s s'
    using found [of name s] found [of name s'] that by simp
  show ?thesis using found none one pend unique by (auto simp: ran_def)
qed

theorem sink_ids_are_unique_witness:
  "\<exists>r. sink_step\<^sup>*\<^sup>* sink_start r \<and> find_sink (alive r) ''a'' (sn_sinks (sr_manager r)) = Some 0"
proof -
  define r1 where "r1 = sink_start\<lparr>sr_manager := \<lparr>sn_sinks = [], sn_pending_sink_ids = [''a'']\<rparr>, sr_creating := [4 \<mapsto> ''a'']\<rparr>"
  define r2 where "r2 = r1\<lparr>sr_manager := \<lparr>sn_sinks = [(''a'', 0)], sn_pending_sink_ids = []\<rparr>, sr_live := {0}, sr_created := 1,
    sr_creating := (sr_creating r1)(4 := None), sr_published := {(''a'', 0)}\<rparr>"
  have "sink_step sink_start r1"
    using sink_step.reserve [of sink_start 4 "''a''" False Reserved "\<lparr>sn_sinks = [], sn_pending_sink_ids = [''a'']\<rparr>"]
    by (simp add: r1_def sink_start_def sn_new_def reserve_sink_id_def find_sink_def search_def try_mark_sink_pending_def
        lower_bound_def insert_at_def)
  moreover have "sink_step r1 r2"
    using sink_step.publish [of r1 4 "''a''" "Inr ()" "\<lparr>sn_sinks = [(''a'', 0)], sn_pending_sink_ids = []\<rparr>"]
    by (simp add: r2_def r1_def sink_start_def publish_created_sink_def remove_pending_sink_def erase_pending_sink_def
        insert_sink_def lower_bound_def insert_at_def remove_at_def)
  ultimately have run: "sink_step\<^sup>*\<^sup>* sink_start r2" by (meson converse_rtranclp_into_rtranclp r_into_rtranclp)
  have "(''a'', 0) \<in> sr_published r2" "0 \<in> sr_live r2" by (simp_all add: r2_def)
  with sink_ids_are_unique [OF run] run show ?thesis by blast
qed

end
