(* ===== verification/Backend_Dispatch.thy ===== *)
theory Backend_Dispatch
  imports Logger_Manager Sink_Manager Sink_Base Backend_Decode
begin

text \<open>
  How the backend hands a decoded event to the sinks, from \<^verbatim>\<open>quill/backend/BackendWorker.h\<close>: the
  pattern formatter of a logger, the loop over its sinks with their levels, override formatters
  and filters, metrics, backtraces, the flush of the active sinks and the choice of the event with
  the lowest timestamp. Loggers, sinks and thread contexts are objects at addresses; a formatter
  shared by loggers is a position in a list. A result \<open>None\<close> stands for an access to an object that
  does not exist, or for a call of \<^verbatim>\<open>strftime\<close> that never fits its buffer: the code does not return a
  value there. User code acts on the outside world only.
\<close>

subsection \<open>State\<close>

text \<open>
  Parameters beside the decoder's: which sinks the user holds a pointer to, whether the rdtsc clock
  could be synchronised, whether shrinking a buffer finds memory, the poll hooks, and what a thread
  that waited for a flush does to the outside world as soon as its flag is set (with the registry of
  contexts as it finds it).
\<close>

record ('spec, 'x) dispatch_env =
  de_backend :: backend_env
  de_sinks :: "'x sink_env"
  de_calendar :: calendar
  de_specs :: "'spec fmt_specs"
  de_user_owns :: "nat \<Rightarrow> bool"
  de_resync :: bool
  de_shrink_allocates :: bool
  de_poll_begin :: "'x user_call option"
  de_poll_end :: "'x user_call option"
  de_released :: "nat \<Rightarrow> thread_context_manager \<Rightarrow> 'x \<Rightarrow> 'x"

text \<open>
  The number of a sink in the registry of sinks is its address here. The flags that were set release the threads that wait for a flush or a removal.
\<close>

record ('spec, 'x) backend_state =
  bs_worker :: backend_worker
  bs_contexts :: thread_context_manager
  bs_loggers :: logger_manager
  bs_formatters :: "'spec pattern_formatter list"
  bs_sinks :: "nat \<rightharpoonup> 'spec sink"
  bs_sink_manager :: sink_manager
  bs_flush_flags :: "nat list"
  bs_removal_flags :: "u64 list"
  bs_world :: 'x

definition bs_report :: "('spec, 'x) dispatch_env \<Rightarrow> string \<Rightarrow> ('spec, 'x) backend_state \<Rightarrow> ('spec, 'x) backend_state" where
  "bs_report env msg st = st\<lparr>bs_worker := bw_notify_error (de_backend env) msg (bs_worker st)\<rparr>"

text \<open>A call of user code whose exception the caller catches and reports.\<close>

definition caught_call ::
  "('spec, 'x) dispatch_env \<Rightarrow> 'x user_call \<Rightarrow> ('spec, 'x) backend_state \<Rightarrow> ('spec, 'x) backend_state" where
  "caught_call env call st =
     (case call (bs_world st) of
        (None, x1) \<Rightarrow> st\<lparr>bs_world := x1\<rparr>
      | (Some e, x1) \<Rightarrow> bs_report env (what e) (st\<lparr>bs_world := x1\<rparr>))"

definition bs_logger :: "('spec, 'x) backend_state \<Rightarrow> nat \<Rightarrow> logger option" where
  "bs_logger st addr = map_of (lm_loggers (bs_loggers st)) addr"

definition bs_update_logger ::
  "nat \<Rightarrow> (logger \<Rightarrow> logger) \<Rightarrow> ('spec, 'x) backend_state \<Rightarrow> ('spec, 'x) backend_state" where
  "bs_update_logger addr f st =
     st\<lparr>bs_loggers := (bs_loggers st)\<lparr>lm_loggers := update_logger addr f (lm_loggers (bs_loggers st))\<rparr>\<rparr>"

subsection \<open>One statement to one sink\<close>

definition pattern_arguments_of ::
  "transit_event \<Rightarrow> macro_metadata \<Rightarrow> log_record \<Rightarrow> pattern_arguments" where
  "pattern_arguments_of e m rec =
     \<lparr>pa_timestamp = la_log_timestamp rec, pa_thread_id = la_thread_id rec, pa_thread_name = la_thread_name rec,
      pa_process_id = la_process_id rec, pa_logger = la_logger_name rec,
      pa_log_level_description = la_log_level_description rec, pa_log_level_short_code = la_log_level_short_code rec,
      pa_log_statement_metadata = m, pa_named_args = la_named_args rec, pa_mdc = te_mdc e\<rparr>"

text \<open>The logger's formatter and the sink's own one, which is created on its first use.\<close>

definition format_default ::
  "('spec, 'x) dispatch_env \<Rightarrow> nat \<Rightarrow> pattern_arguments \<Rightarrow> string \<Rightarrow> ('spec, 'x) backend_state
    \<Rightarrow> ((quill_error + string) \<times> ('spec, 'x) backend_state) option" where
  "format_default env fi args msg st =
     (if fi < length (bs_formatters st) then
        (case pf_format (de_calendar env) (de_specs env) args msg (bs_formatters st ! fi) of
           None \<Rightarrow> None
         | Some (r, pf1) \<Rightarrow> Some (r, st\<lparr>bs_formatters := (bs_formatters st)[fi := pf1]\<rparr>))
      else None)"

definition format_override ::
  "('spec, 'x) dispatch_env \<Rightarrow> pattern_formatter_options \<Rightarrow> pattern_arguments \<Rightarrow> string \<Rightarrow> 'spec sink
    \<Rightarrow> ((quill_error + string) \<times> 'spec sink) option" where
  "format_override env options args msg sk =
     (case (case sk_override_pattern_formatter sk of Some pf \<Rightarrow> Inr pf | None \<Rightarrow> pf_new (de_specs env) options) of
        Inl e \<Rightarrow> Some (Inl e, sk)
      | Inr pf \<Rightarrow>
          (case pf_format (de_calendar env) (de_specs env) args msg pf of
             None \<Rightarrow> None
           | Some (r, pf1) \<Rightarrow> Some (r, sk\<lparr>sk_override_pattern_formatter := Some pf1\<rparr>)))"

text \<open>The user's filters, then the sink; both may throw.\<close>

definition filter_and_write ::
  "('spec, 'x) dispatch_env \<Rightarrow> log_record \<Rightarrow> nat \<Rightarrow> 'spec sink \<Rightarrow> ('spec, 'x) backend_state \<Rightarrow> ('spec, 'x) backend_state" where
  "filter_and_write env rec a sk st =
     (case apply_all_user_filters (de_sinks env) (filter_arguments.truncate rec) sk (bs_world st) of
        (r, sk1, x1) \<Rightarrow>
          let st1 = st\<lparr>bs_sinks := (bs_sinks st)(a \<mapsto> sk1), bs_world := x1\<rparr>
          in case r of
               Inl e \<Rightarrow> bs_report env (what e) st1
             | Inr passed \<Rightarrow> if passed then caught_call env (sx_write_log (de_sinks env) a rec) st1 else st1)"

text \<open>
  One turn of the loop in \<^verbatim>\<open>_write_log_statement\<close>; the first result is \<^verbatim>\<open>default_log_statement\<close>,
  which a sink without own options formats only while it is empty.
\<close>

definition write_to_sink ::
  "('spec, 'x) dispatch_env \<Rightarrow> nat \<Rightarrow> pattern_arguments \<Rightarrow> log_record \<Rightarrow> nat \<Rightarrow> string \<Rightarrow> ('spec, 'x) backend_state
    \<Rightarrow> (string \<times> ('spec, 'x) backend_state) option" where
  "write_to_sink env fi args rec a default_log_statement st =
     (case bs_sinks st a of
        None \<Rightarrow> None
      | Some sk \<Rightarrow>
          if la_log_level rec < sk_log_level sk then Some (default_log_statement, st)
          else case sk_override_pattern_formatter_options sk of
            None \<Rightarrow>
              (case (if default_log_statement = [] then format_default env fi args (la_log_message rec) st
                     else Some (Inr default_log_statement, st)) of
                 None \<Rightarrow> None
               | Some (Inl e, st1) \<Rightarrow> Some (default_log_statement, bs_report env (error_text e) st1)
               | Some (Inr log_to_write, st1) \<Rightarrow>
                   Some (log_to_write, filter_and_write env (rec\<lparr>la_log_statement := log_to_write\<rparr>) a sk st1))
          | Some options \<Rightarrow>
              (case format_override env options args (la_log_message rec) sk of
                 None \<Rightarrow> None
               | Some (Inl e, sk1) \<Rightarrow>
                   Some (default_log_statement, bs_report env (error_text e) (st\<lparr>bs_sinks := (bs_sinks st)(a \<mapsto> sk1)\<rparr>))
               | Some (Inr log_to_write, sk1) \<Rightarrow>
                   Some (default_log_statement, filter_and_write env (rec\<lparr>la_log_statement := log_to_write\<rparr>) a sk1 st)))"

fun write_to_sinks ::
  "('spec, 'x) dispatch_env \<Rightarrow> nat \<Rightarrow> pattern_arguments \<Rightarrow> log_record \<Rightarrow> nat list \<Rightarrow> string \<Rightarrow> ('spec, 'x) backend_state
    \<Rightarrow> ('spec, 'x) backend_state option" where
  "write_to_sinks env fi args rec [] default_log_statement st = Some st"
| "write_to_sinks env fi args rec (a # sinks) default_log_statement st =
     (case write_to_sink env fi args rec a default_log_statement st of
        None \<Rightarrow> None
      | Some (default_log_statement1, st1) \<Rightarrow> write_to_sinks env fi args rec sinks default_log_statement1 st1)"

definition log_record_of ::
  "transit_event \<Rightarrow> macro_metadata \<Rightarrow> logger \<Rightarrow> string \<Rightarrow> string \<Rightarrow> string \<Rightarrow> string \<Rightarrow> string \<Rightarrow> string \<Rightarrow> log_record" where
  "log_record_of e m lg process_id thread_id thread_name description short_code msg =
     \<lparr>la_log_metadata = m, la_log_timestamp = te_timestamp e, la_thread_id = thread_id, la_thread_name = thread_name,
      la_logger_name = lb_logger_name lg, la_log_level = mm_log_level m, la_log_message = msg, la_log_statement = [],
      la_process_id = process_id, la_log_level_description = description, la_log_level_short_code = short_code,
      la_named_args = te_get_named_args e\<rparr>"

definition write_log_statement ::
  "('spec, 'x) dispatch_env \<Rightarrow> nat \<Rightarrow> transit_event \<Rightarrow> macro_metadata \<Rightarrow> logger \<Rightarrow> string \<Rightarrow> string \<Rightarrow> string \<Rightarrow> string \<Rightarrow> string
    \<Rightarrow> ('spec, 'x) backend_state \<Rightarrow> ('spec, 'x) backend_state option" where
  "write_log_statement env fi e m lg thread_id thread_name description short_code msg st =
     (let rec = log_record_of e m lg (bw_process_id (bs_worker st)) thread_id thread_name description short_code msg
      in write_to_sinks env fi (pattern_arguments_of e m rec) rec (lb_sinks lg) [] st)"

subsection \<open>The formatter of a logger\<close>

definition shared_formatter :: "'spec pattern_formatter list \<Rightarrow> pattern_formatter_options \<Rightarrow> (nat \<times> logger) list \<Rightarrow> nat option" where
  "shared_formatter formatters options loggers =
     for_each_logger (\<lambda>_ lg found.
        case lg_pattern_formatter lg of
          Some i \<Rightarrow> if pf_options (formatters ! i) = options then (True, Some i) else (False, found)
        | None \<Rightarrow> (False, found)) loggers None"

definition ensure_pattern_formatter ::
  "('spec, 'x) dispatch_env \<Rightarrow> nat \<Rightarrow> logger \<Rightarrow> ('spec, 'x) backend_state \<Rightarrow> (quill_error + nat) \<times> ('spec, 'x) backend_state" where
  "ensure_pattern_formatter env addr lg st =
     (case lg_pattern_formatter lg of
        Some i \<Rightarrow> (Inr i, st)
      | None \<Rightarrow>
          (case shared_formatter (bs_formatters st) (lg_pattern_formatter_options lg) (lm_loggers (bs_loggers st)) of
             Some i \<Rightarrow> (Inr i, bs_update_logger addr (\<lambda>lg. lg\<lparr>lg_pattern_formatter := Some i\<rparr>) st)
           | None \<Rightarrow>
               (case pf_new (de_specs env) (lg_pattern_formatter_options lg) of
                  Inl e \<Rightarrow> (Inl e, st)
                | Inr pf \<Rightarrow>
                    let i = length (bs_formatters st)
                    in (Inr i, bs_update_logger addr (\<lambda>lg. lg\<lparr>lg_pattern_formatter := Some i\<rparr>)
                                 (st\<lparr>bs_formatters := bs_formatters st @ [pf]\<rparr>)))))"

text \<open>The exception that leaves \<^verbatim>\<open>_dispatch_transit_event_to_sinks\<close>, if any.\<close>

definition dispatch_transit_event_to_sinks ::
  "('spec, 'x) dispatch_env \<Rightarrow> transit_event \<Rightarrow> string \<Rightarrow> string \<Rightarrow> ('spec, 'x) backend_state
    \<Rightarrow> (quill_error option \<times> ('spec, 'x) backend_state) option" where
  "dispatch_transit_event_to_sinks env e thread_id thread_name st =
     (case (case te_logger_base e of None \<Rightarrow> None | Some addr \<Rightarrow> map_option (Pair addr) (bs_logger st addr)) of
        None \<Rightarrow> None
      | Some (addr, lg) \<Rightarrow>
          (case ensure_pattern_formatter env addr lg st of
             (Inl err, st1) \<Rightarrow> Some (Some err, st1)
           | (Inr fi, st1) \<Rightarrow>
               (case te_metadata e of
                  None \<Rightarrow> None
                | Some m \<Rightarrow>
                    (case log_level_to_string (mm_log_level m) (bo_log_level_descriptions (bw_options (bs_worker st1))) of
                       Inl err \<Rightarrow> Some (Some err, st1)
                     | Inr description \<Rightarrow>
                         (case log_level_to_string (mm_log_level m) (bo_log_level_short_codes (bw_options (bs_worker st1))) of
                            Inl err \<Rightarrow> Some (Some err, st1)
                          | Inr short_code \<Rightarrow>
                              (case te_formatted_msg e of
                                 None \<Rightarrow> None
                               | Some msg \<Rightarrow>
                                   map_option (Pair None)
                                     (write_log_statement env fi e m lg thread_id thread_name description short_code msg st1)))))))"

subsection \<open>Metrics\<close>

fun write_metric_to_sinks ::
  "('spec, 'x) dispatch_env \<Rightarrow> metric_record \<Rightarrow> nat list \<Rightarrow> ('spec, 'x) backend_state \<Rightarrow> ('spec, 'x) backend_state" where
  "write_metric_to_sinks env rec [] st = st"
| "write_metric_to_sinks env rec (a # sinks) st =
     write_metric_to_sinks env rec sinks (caught_call env (sx_write_metric (de_sinks env) a rec) st)"

definition te_metric_value :: "transit_event \<Rightarrow> quill_error + u64" where
  "te_metric_value e = (case te_event_payload e of MetricValue v \<Rightarrow> Inr v | _ \<Rightarrow> Inl (StdException ''bad_variant_access''))"

definition write_metric_sample ::
  "('spec, 'x) dispatch_env \<Rightarrow> transit_event \<Rightarrow> macro_metadata \<Rightarrow> string \<Rightarrow> string \<Rightarrow> ('spec, 'x) backend_state
    \<Rightarrow> (quill_error option \<times> ('spec, 'x) backend_state) option" where
  "write_metric_sample env e m thread_id thread_name st =
     (case te_metric_value e of
        Inl err \<Rightarrow> Some (Some err, st)
      | Inr metric_value \<Rightarrow>
          (case (case te_logger_base e of None \<Rightarrow> None | Some addr \<Rightarrow> bs_logger st addr) of
             None \<Rightarrow> None
           | Some lg \<Rightarrow>
               Some (None, write_metric_to_sinks env
                 \<lparr>ma_metric_metadata = m, ma_log_timestamp = te_timestamp e, ma_thread_id = thread_id, ma_thread_name = thread_name,
                  ma_process_id = bw_process_id (bs_worker st), ma_logger_name = lb_logger_name lg, ma_value = metric_value\<rparr>
                 (lb_sinks lg) st)))"

subsection \<open>Order of the timestamps\<close>

definition monotonic_timestamp :: "u64 \<Rightarrow> u64 \<Rightarrow> u64" where
  "monotonic_timestamp last_output ts = (if ts < last_output then (if last_output = - 1 then last_output else last_output + 1) else ts)"

definition ensure_monotonic_output_timestamp :: "transit_event \<Rightarrow> backend_worker \<Rightarrow> transit_event \<times> backend_worker" where
  "ensure_monotonic_output_timestamp e w =
     (if \<not> bo_ensure_monotonic_output_timestamps (bw_options w) then (e, w)
      else let ts = monotonic_timestamp (bw_last_output_timestamp w) (te_timestamp e)
           in (e\<lparr>te_timestamp := ts\<rparr>, w\<lparr>bw_last_output_timestamp := ts\<rparr>))"

subsection \<open>Flushing\<close>

text \<open>The sinks of the valid loggers, each once, in the order they are met.\<close>

definition active_sinks :: "logger_manager \<Rightarrow> nat list" where
  "active_sinks m = for_each_logger (\<lambda>_ lg cache.
     (False, if lb_valid lg then fold (\<lambda>a cache. if a \<in> set cache then cache else cache @ [a]) (lb_sinks lg) cache else cache))
     (lm_loggers m) []"

fun flush_and_run ::
  "('spec, 'x) dispatch_env \<Rightarrow> bool \<Rightarrow> bool \<Rightarrow> sink_flush_reason \<Rightarrow> nat list \<Rightarrow> ('spec, 'x) backend_state \<Rightarrow> ('spec, 'x) backend_state" where
  "flush_and_run env should_flush_sinks run_periodic_tasks flush_reason [] st = st"
| "flush_and_run env should_flush_sinks run_periodic_tasks flush_reason (a # sinks) st =
     (let st1 = (if should_flush_sinks then caught_call env (sx_flush_sink (de_sinks env) a flush_reason) st else st);
          st2 = (if run_periodic_tasks then caught_call env (sx_run_periodic_tasks (de_sinks env) a) st1 else st1)
      in flush_and_run env should_flush_sinks run_periodic_tasks flush_reason sinks st2)"

text \<open>The interval is in milliseconds, the clock in nanoseconds; 0 means to flush always.\<close>

definition flush_and_run_active_sinks ::
  "('spec, 'x) dispatch_env \<Rightarrow> bool \<Rightarrow> int \<Rightarrow> sink_flush_reason \<Rightarrow> ('spec, 'x) backend_state \<Rightarrow> ('spec, 'x) backend_state" where
  "flush_and_run_active_sinks env run_periodic_tasks sink_min_flush_interval flush_reason st =
     (let sinks = active_sinks (bs_loggers st);
          now = be_steady_now (de_backend env);
          should_flush_sinks = (sink_min_flush_interval = 0
            \<or> now - bw_last_sink_flush_time (bs_worker st) > sink_min_flush_interval * 1000000);
          st1 = flush_and_run env should_flush_sinks run_periodic_tasks flush_reason sinks st
      in if should_flush_sinks \<and> sink_min_flush_interval \<noteq> 0 \<and> sinks \<noteq> []
         then st1\<lparr>bs_worker := (bs_worker st1)\<lparr>bw_last_sink_flush_time := now\<rparr>\<rparr> else st1)"

subsection \<open>One event\<close>

text \<open>\<^verbatim>\<open>std::stoul\<close>: spaces, a sign, then digits in base ten; a minus sign negates in 64 bits.\<close>

definition stoul :: "string \<Rightarrow> quill_error + u64" where
  "stoul s =
     (let s1 = dropWhile (\<lambda>c. c \<in> {CHR '' '', CHR 0x09, CHR 0x0A, CHR 0x0B, CHR 0x0C, CHR 0x0D}) s;
          negative = (s1 \<noteq> [] \<and> hd s1 = CHR ''-'');
          s2 = (if s1 \<noteq> [] \<and> hd s1 \<in> {CHR ''-'', CHR ''+''} then tl s1 else s1);
          digits = takeWhile is_digit s2
      in if digits = [] then Inl (StdException ''stoul'')
         else if decimal_value 0 digits \<ge> 2 ^ 64 then Inl (StdException ''stoul'')
         else Inr (if negative then - of_nat (decimal_value 0 digits) else of_nat (decimal_value 0 digits)))"

definition lg_map_backtrace ::
  "(transit_event backtrace_storage \<Rightarrow> transit_event backtrace_storage) \<Rightarrow> logger \<Rightarrow> logger" where
  "lg_map_backtrace f lg = lg\<lparr>lb_backtrace_storage := map_option f (lb_backtrace_storage lg)\<rparr>"

text \<open>
  The callback of \<^verbatim>\<open>BacktraceStorage::process\<close>. The state under it may be \<open>None\<close>; then nothing
  more happens. The storage is cleared at the end, also when an exception ends it.
\<close>

definition dispatch_stored ::
  "('spec, 'x) dispatch_env \<Rightarrow> transit_event stored_event \<Rightarrow> ('spec, 'x) backend_state option
    \<Rightarrow> quill_error option \<times> ('spec, 'x) backend_state option" where
  "dispatch_stored env se so =
     (case so of
        None \<Rightarrow> (None, None)
      | Some st \<Rightarrow>
          (case dispatch_transit_event_to_sinks env (se_transit_event se) (se_thread_id se) (se_thread_name se) st of
             None \<Rightarrow> (None, None)
           | Some (err, st1) \<Rightarrow> (err, Some st1)))"

definition process_backtrace ::
  "('spec, 'x) dispatch_env \<Rightarrow> nat \<Rightarrow> ('spec, 'x) backend_state \<Rightarrow> (quill_error option \<times> ('spec, 'x) backend_state) option" where
  "process_backtrace env addr st =
     (case bs_logger st addr of
        None \<Rightarrow> None
      | Some lg \<Rightarrow>
          (case lb_backtrace_storage lg of
             None \<Rightarrow> Some (None, st)
           | Some bt \<Rightarrow>
               (case bt_process (dispatch_stored env) bt (Some st) of
                  (err, so, bt1) \<Rightarrow>
                    map_option (\<lambda>st1. (err, bs_update_logger addr (lg_map_backtrace (\<lambda>_. bt1)) st1)) so)))"

text \<open>The event may be changed; a flush gives the flag of the thread that waits.\<close>

definition process_log_event ::
  "('spec, 'x) dispatch_env \<Rightarrow> string \<Rightarrow> string \<Rightarrow> nat \<Rightarrow> macro_metadata \<Rightarrow> transit_event \<Rightarrow> ('spec, 'x) backend_state
    \<Rightarrow> (quill_error option \<times> transit_event \<times> ('spec, 'x) backend_state) option" where
  "process_log_event env thread_id thread_name addr m e st =
     (case ensure_monotonic_output_timestamp e (bs_worker st) of
        (e1, w1) \<Rightarrow>
          (case dispatch_transit_event_to_sinks env e1 thread_id thread_name (st\<lparr>bs_worker := w1\<rparr>) of
             None \<Rightarrow> None
           | Some (Some err, st1) \<Rightarrow> Some (Some err, e1, st1)
           | Some (None, st1) \<Rightarrow>
               (case bs_logger st1 addr of
                  None \<Rightarrow> None
                | Some lg \<Rightarrow>
                    if lb_backtrace_flush_level lg \<le> mm_log_level m
                    then map_option (\<lambda>(err, st2). (err, e1, st2)) (process_backtrace env addr st1)
                    else Some (None, e1, st1))))"

definition store_backtrace_event ::
  "('spec, 'x) dispatch_env \<Rightarrow> string \<Rightarrow> string \<Rightarrow> nat \<Rightarrow> logger \<Rightarrow> transit_event \<Rightarrow> ('spec, 'x) backend_state
    \<Rightarrow> quill_error option \<times> ('spec, 'x) backend_state" where
  "store_backtrace_event env thread_id thread_name addr lg e st =
     (case lb_backtrace_storage lg of
        None \<Rightarrow> (Some (QuillError ''logger->init_backtrace(...) needs to be called first before using LOG_BACKTRACE(...).''), st)
      | Some _ \<Rightarrow>
          let copy = te_copy_to (be_extra_address (de_backend env) (bw_decode_attempts (bs_worker st))) e te_default
          in (None, bs_update_logger addr (lg_map_backtrace (bt_store copy thread_id thread_name)) st))"

definition init_backtrace_event ::
  "nat \<Rightarrow> string \<Rightarrow> ('spec, 'x) backend_state \<Rightarrow> quill_error option \<times> ('spec, 'x) backend_state" where
  "init_backtrace_event addr msg st =
     (let st1 = bs_update_logger addr (\<lambda>lg. lg\<lparr>lb_backtrace_storage :=
            Some (case lb_backtrace_storage lg of None \<Rightarrow> bt_empty | Some bt \<Rightarrow> bt)\<rparr>) st
      in case stoul msg of
           Inl err \<Rightarrow> (Some err, st1)
         | Inr n \<Rightarrow> (None, bs_update_logger addr (lg_map_backtrace (bt_set_capacity (ucast n))) st1))"

definition process_transit_event ::
  "('spec, 'x) dispatch_env \<Rightarrow> string \<Rightarrow> string \<Rightarrow> transit_event \<Rightarrow> ('spec, 'x) backend_state
    \<Rightarrow> (quill_error option \<times> nat option \<times> transit_event \<times> ('spec, 'x) backend_state) option" where
  "process_transit_event env thread_id thread_name e st =
     (case te_metadata e of
        None \<Rightarrow> None
      | Some m \<Rightarrow>
          if mm_event m = Log \<or> mm_event m = InitBacktrace \<or> mm_event m = FlushBacktrace then
            (case (case te_logger_base e of None \<Rightarrow> None | Some addr \<Rightarrow> map_option (Pair addr) (bs_logger st addr)) of
               None \<Rightarrow> None
             | Some (addr, lg) \<Rightarrow>
                 if mm_event m = Log then
                   if mm_log_level m \<noteq> Backtrace
                   then map_option (\<lambda>(err, e1, st1). (err, None, e1, st1)) (process_log_event env thread_id thread_name addr m e st)
                   else (case store_backtrace_event env thread_id thread_name addr lg e st of (err, st1) \<Rightarrow> Some (err, None, e, st1))
                 else if mm_event m = InitBacktrace then
                   (case te_formatted_msg e of
                      None \<Rightarrow> None
                    | Some msg \<Rightarrow> (case init_backtrace_event addr msg st of (err, st1) \<Rightarrow> Some (err, None, e, st1)))
                 else map_option (\<lambda>(err, st1). (err, None, e, st1)) (process_backtrace env addr st))
          else if mm_event m = Flush then
            Some (None, te_flush_flag e, te_reset_payload e, flush_and_run_active_sinks env False 0 Explicit st)
          else if mm_event m = Metric then
            (case ensure_monotonic_output_timestamp e (bs_worker st) of
               (e1, w1) \<Rightarrow>
                 (case write_metric_sample env e1 m thread_id thread_name (st\<lparr>bs_worker := w1\<rparr>) of
                    None \<Rightarrow> None
                  | Some (Some err, st1) \<Rightarrow> Some (Some err, None, e1, st1)
                  | Some (None, st1) \<Rightarrow> Some (None, None, te_reset_payload e1, st1)))
          else Some (None, None, e, st))"

subsection \<open>Removing the contexts of finished threads\<close>

definition queue_and_buffer_empty :: "thread_context \<Rightarrow> bool \<times> thread_context" where
  "queue_and_buffer_empty tc =
     (case sq_empty (tc_spsc_queue tc) of
        (emp, q) \<Rightarrow> (emp \<and> (case tc_transit_event_buffer tc of None \<Rightarrow> True | Some b \<Rightarrow> tb_empty b), tc\<lparr>tc_spsc_queue := q\<rparr>))"

fun find_invalid_and_empty :: "nat list \<Rightarrow> thread_context_manager \<Rightarrow> nat option \<times> thread_context_manager" where
  "find_invalid_and_empty [] m = (None, m)"
| "find_invalid_and_empty (a # cache) m =
     (case tcm_context m a of
        None \<Rightarrow> find_invalid_and_empty cache m
      | Some tc \<Rightarrow>
          if tc_valid tc then find_invalid_and_empty cache m
          else case queue_and_buffer_empty tc of
                 (emp, tc1) \<Rightarrow>
                   let m1 = tcm_update a (\<lambda>_. tc1) m
                   in if emp then (Some a, m1) else find_invalid_and_empty cache m1)"

lemma find_invalid_and_empty_mem: "find_invalid_and_empty cache m = (Some a, m1) \<Longrightarrow> a \<in> set cache"
  by (induction cache arbitrary: m) (auto simp: Let_def split: option.splits prod.splits if_splits)

lemma find_invalid_and_empty_shorter:
  assumes "find_invalid_and_empty cache m = (Some a, m1)"
  shows "length (remove1 a cache) < length cache"
  using find_invalid_and_empty_mem [OF assms] length_pos_if_in_set [of a cache] by (simp add: length_remove1)

function remove_invalid_and_empty ::
  "nat list \<Rightarrow> thread_context_manager \<Rightarrow> nat list \<times> thread_context_manager" where
  "remove_invalid_and_empty cache m =
     (case find_invalid_and_empty cache m of
        (None, m1) \<Rightarrow> (cache, m1)
      | (Some a, m1) \<Rightarrow> remove_invalid_and_empty (remove1 a cache) (remove_shared_invalidated_thread_context a m1))"
  by pat_completeness auto
termination
  by (relation "measure (\<lambda>(cache, _). length cache)")
     (auto dest: find_invalid_and_empty_shorter [OF sym])

declare remove_invalid_and_empty.simps [simp del]

definition cleanup_invalidated_thread_contexts :: "('spec, 'x) backend_state \<Rightarrow> ('spec, 'x) backend_state" where
  "cleanup_invalidated_thread_contexts st =
     (if \<not> has_invalid_thread_context (bs_contexts st) then st
      else case remove_invalid_and_empty (bw_active_thread_contexts_cache (bs_worker st)) (bs_contexts st) of
             (cache, m) \<Rightarrow> st\<lparr>bs_worker := (bs_worker st)\<lparr>bw_active_thread_contexts_cache := cache\<rparr>, bs_contexts := m\<rparr>)"

subsection \<open>The event with the lowest timestamp\<close>

definition context_front :: "thread_context_manager \<Rightarrow> nat \<Rightarrow> transit_event option" where
  "context_front m a =
     (case tcm_context m a of
        None \<Rightarrow> None
      | Some tc \<Rightarrow> (case tc_transit_event_buffer tc of None \<Rightarrow> None | Some b \<Rightarrow> tb_front b))"

fun lowest_context :: "thread_context_manager \<Rightarrow> nat list \<Rightarrow> u64 \<Rightarrow> nat option \<Rightarrow> nat option" where
  "lowest_context m [] min_ts found = found"
| "lowest_context m (a # cache) min_ts found =
     (case context_front m a of
        None \<Rightarrow> lowest_context m cache min_ts found
      | Some te \<Rightarrow> if min_ts > te_timestamp te then lowest_context m cache (te_timestamp te) (Some a)
                   else lowest_context m cache min_ts found)"

definition selected_context :: "thread_context_manager \<Rightarrow> nat list \<Rightarrow> nat option" where
  "selected_context m cache =
     (case cache of [a] \<Rightarrow> Some a | _ \<Rightarrow> lowest_context m cache (- 1) None)"

text \<open>What stays in the slot keeps its capacity only.\<close>

definition te_clean :: "transit_event \<Rightarrow> transit_event" where
  "te_clean e = te_map_extra (\<lambda>x. x\<lparr>ed_named_args := map (\<lambda>_. ([], [])) (ed_named_args x), ed_mdc := [],
     ed_runtime_metadata := (ed_runtime_metadata x)\<lparr>rm_has_runtime_metadata := False\<rparr>\<rparr>) e"

definition pop_event :: "transit_event \<Rightarrow> thread_context \<Rightarrow> thread_context" where
  "pop_event e tc = tc\<lparr>tc_transit_event_buffer := map_option (\<lambda>b.
     tb_pop_front (b\<lparr>tb_storage := (tb_storage b)[tb_slot b (tb_reader_pos b) := e]\<rparr>)) (tc_transit_event_buffer tc)\<rparr>"

text \<open>Setting the flag of a flush lets the waiting thread go on at once, in the state it finds.\<close>

definition store_flush_flag :: "('spec, 'x) dispatch_env \<Rightarrow> nat \<Rightarrow> ('spec, 'x) backend_state \<Rightarrow> ('spec, 'x) backend_state" where
  "store_flush_flag env f st = st\<lparr>bs_flush_flags := bs_flush_flags st @ [f],
     bs_world := de_released env f (bs_contexts st) (bs_world st)\<rparr>"

definition process_lowest_timestamp_transit_event ::
  "('spec, 'x) dispatch_env \<Rightarrow> ('spec, 'x) backend_state \<Rightarrow> (bool \<times> ('spec, 'x) backend_state) option" where
  "process_lowest_timestamp_transit_event env st =
     (case selected_context (bs_contexts st) (bw_active_thread_contexts_cache (bs_worker st)) of
        None \<Rightarrow> Some (False, st)
      | Some a \<Rightarrow>
          (case (tcm_context (bs_contexts st) a, context_front (bs_contexts st) a) of
             (Some tc, Some e) \<Rightarrow>
               (case process_transit_event env (tc_thread_id tc) (tc_thread_name tc) e st of
                  None \<Rightarrow> None
                | Some (err, flush_flag, e1, st1) \<Rightarrow>
                    let st2 = (case err of None \<Rightarrow> st1 | Some x \<Rightarrow> bs_report env (error_text x) st1);
                        st3 = st2\<lparr>bs_contexts := tcm_update a (pop_event (te_clean e1)) (bs_contexts st2)\<rparr>
                    in Some (True, case flush_flag of
                         None \<Rightarrow> st3
                       | Some f \<Rightarrow>
                           let st4 = cleanup_invalidated_thread_contexts st3
                           in store_flush_flag env f st4))
           | _ \<Rightarrow> Some (False, st)))"

end
