(* ===== verification/Dispatch_Text.thy ===== *)
theory Dispatch_Text
  imports Backend_Dispatch
begin

text \<open>
  What the sinks of a logger receive: each the text of its own pattern, whatever the others do.
  \<open>T options\<close> is the text formatter constructed from \<open>options\<close> writes.
\<close>

subsection \<open>Formatters and their texts\<close>

text \<open>Options a formatter can be made from, and a formatter in use; an empty pattern writes nothing.\<close>

definition options_text ::
  "('spec, 'x) dispatch_env \<Rightarrow> pattern_formatter_options \<Rightarrow> (pattern_arguments \<times> string \<Rightarrow> string) \<Rightarrow> bool" where
  "options_text env options t \<longleftrightarrow>
     (if po_format_pattern options = [] then t = (\<lambda>_. []) \<and> (\<exists>pf. pf_new (de_specs env) options = Inr pf \<and> pf_options pf = options)
      else \<exists>tf segs trailing. suffixed_pattern options = pattern_source segs trailing \<and> pattern_wf (de_specs env) segs trailing
        \<and> tf_init (po_timestamp_pattern options) (po_timestamp_timezone options) = Inr tf
        \<and> calendar_ok (de_calendar env) (po_timestamp_timezone options) \<and> tf_parts_ok (de_calendar env) tf
        \<and> t = statement_text (de_calendar env) (de_specs env) options tf segs trailing)"

definition formatter_writes ::
  "('spec, 'x) dispatch_env \<Rightarrow> pattern_formatter_options \<Rightarrow> (pattern_arguments \<times> string \<Rightarrow> string) \<Rightarrow> 'spec pattern_formatter \<Rightarrow> bool" where
  "formatter_writes env options t pf \<longleftrightarrow>
     (if po_format_pattern options = [] then t = (\<lambda>_. []) \<and> pf_options pf = options
      else \<exists>tf segs trailing. calendar_ok (de_calendar env) (tf_timestamp_timezone tf) \<and> tf_parts_ok (de_calendar env) tf
        \<and> pf_ok (de_calendar env) (de_specs env) options tf segs trailing pf
        \<and> t = statement_text (de_calendar env) (de_specs env) options tf segs trailing)"

lemma formatter_writes_options: "formatter_writes env options t pf \<Longrightarrow> pf_options pf = options"
  by (auto simp: formatter_writes_def pf_ok_def split: if_splits)

lemma formatter_writesI:
  "po_format_pattern options \<noteq> [] \<Longrightarrow> calendar_ok (de_calendar env) (tf_timestamp_timezone tf) \<Longrightarrow> tf_parts_ok (de_calendar env) tf
   \<Longrightarrow> pf_ok (de_calendar env) (de_specs env) options tf segs trailing pf
   \<Longrightarrow> formatter_writes env options (statement_text (de_calendar env) (de_specs env) options tf segs trailing) pf"
  unfolding formatter_writes_def by auto

lemma pf_new_writes_text:
  assumes "options_text env options t"
  shows "\<exists>pf. pf_new (de_specs env) options = Inr pf \<and> formatter_writes env options t pf"
proof (cases "po_format_pattern options = []")
  case True
  with assms show ?thesis by (simp add: options_text_def formatter_writes_def)
next
  case False
  with assms obtain tf segs trailing where o: "suffixed_pattern options = pattern_source segs trailing"
    "pattern_wf (de_specs env) segs trailing" "tf_init (po_timestamp_pattern options) (po_timestamp_timezone options) = Inr tf"
    "calendar_ok (de_calendar env) (po_timestamp_timezone options)" "tf_parts_ok (de_calendar env) tf"
    "t = statement_text (de_calendar env) (de_specs env) options tf segs trailing"
    unfolding options_text_def by auto
  obtain pf where pf: "pf_new (de_specs env) options = Inr pf" "pf_writes (de_specs env) segs trailing pf" "pf_options pf = options"
    "pf_timestamp_formatter pf = tf"
    using pf_new_writes [OF o(2,1,3)] by blast
  have tf: "tf_inv (de_calendar env) tf" "tf_timestamp_timezone tf = po_timestamp_timezone options"
    using tf_init_inv [OF o(3)] by auto
  have "pf_ok (de_calendar env) (de_specs env) options tf segs trailing pf" using pf tf by (simp add: pf_ok_def tf_same_def)
  with formatter_writesI [OF False _ o(5)] o(4,6) tf pf(1) show ?thesis by auto
qed

lemma formatter_writes_text:
  assumes "formatter_writes env options t pf" "0 \<le> sint (pa_timestamp args)"
  shows "\<exists>pf1. pf_format (de_calendar env) (de_specs env) args msg pf = Some (Inr (t (args, msg)), pf1) \<and> formatter_writes env options t pf1"
proof (cases "po_format_pattern options = []")
  case True
  with assms show ?thesis by (auto simp: formatter_writes_def pf_format_def)
next
  case False
  with assms(1) obtain tf segs trailing where w: "calendar_ok (de_calendar env) (tf_timestamp_timezone tf)" "tf_parts_ok (de_calendar env) tf"
    "pf_ok (de_calendar env) (de_specs env) options tf segs trailing pf"
    "t = statement_text (de_calendar env) (de_specs env) options tf segs trailing"
    unfolding formatter_writes_def by auto
  from pf_format_text [OF w(1-3) assms(2) False, of msg] formatter_writesI [OF False w(1,2)] w(4) show ?thesis by auto
qed

subsection \<open>Well-formed states\<close>

definition sink_ok ::
  "('spec, 'x) dispatch_env \<Rightarrow> (pattern_formatter_options \<Rightarrow> pattern_arguments \<times> string \<Rightarrow> string) \<Rightarrow> 'spec sink \<Rightarrow> bool" where
  "sink_ok env T sk \<longleftrightarrow> sk_inv sk \<and> (\<forall>options. sk_override_pattern_formatter_options sk = Some options \<longrightarrow>
     options_text env options (T options)
     \<and> (\<forall>pf. sk_override_pattern_formatter sk = Some pf \<longrightarrow> formatter_writes env options (T options) pf))"

definition formatters_ok ::
  "('spec, 'x) dispatch_env \<Rightarrow> (pattern_formatter_options \<Rightarrow> pattern_arguments \<times> string \<Rightarrow> string) \<Rightarrow> 'spec pattern_formatter list \<Rightarrow> bool" where
  "formatters_ok env T fs \<longleftrightarrow> (\<forall>pf \<in> set fs. formatter_writes env (pf_options pf) (T (pf_options pf)) pf)"

definition logger_ok :: "'spec pattern_formatter list \<Rightarrow> logger \<Rightarrow> bool" where
  "logger_ok fs lg \<longleftrightarrow> (\<forall>i. lg_pattern_formatter lg = Some i \<longrightarrow> i < length fs \<and> pf_options (fs ! i) = lg_pattern_formatter_options lg)"

definition dispatch_ok ::
  "('spec, 'x) dispatch_env \<Rightarrow> (pattern_formatter_options \<Rightarrow> pattern_arguments \<times> string \<Rightarrow> string) \<Rightarrow> ('spec, 'x) backend_state \<Rightarrow> bool" where
  "dispatch_ok env T st \<longleftrightarrow> formatters_ok env T (bs_formatters st) \<and> (\<forall>a sk. bs_sinks st a = Some sk \<longrightarrow> sink_ok env T sk)
     \<and> (\<forall>x \<in> set (lm_loggers (bs_loggers st)). logger_ok (bs_formatters st) (snd x))
     \<and> distinct (map fst (lm_loggers (bs_loggers st)))"

text \<open>What a write never changes of a sink.\<close>

definition same_sink :: "'spec sink \<Rightarrow> 'spec sink \<Rightarrow> bool" where
  "same_sink sk sk1 \<longleftrightarrow> sk_log_level sk1 = sk_log_level sk \<and> sk_global_filters sk1 = sk_global_filters sk
     \<and> sk_override_pattern_formatter_options sk1 = sk_override_pattern_formatter_options sk"

definition same_sinks :: "(nat \<rightharpoonup> 'spec sink) \<Rightarrow> (nat \<rightharpoonup> 'spec sink) \<Rightarrow> bool" where
  "same_sinks m m1 \<longleftrightarrow> (\<forall>a. rel_option same_sink (m a) (m1 a))"

lemma same_sinks_refl [simp]: "same_sinks m m"
  by (auto simp: same_sinks_def same_sink_def intro!: option.rel_refl)

lemma same_sinks_trans: "same_sinks m m1 \<Longrightarrow> same_sinks m1 m2 \<Longrightarrow> same_sinks m m2"
  unfolding same_sinks_def same_sink_def by (smt (verit) option.rel_cases option.rel_inject(2) option.rel_sel)

lemma same_sinks_upd: "m a = Some sk \<Longrightarrow> same_sink sk sk1 \<Longrightarrow> same_sinks m (m(a \<mapsto> sk1))"
  by (auto simp: same_sinks_def same_sink_def intro!: option.rel_refl)

lemma refresh_same_sink: "same_sink sk (refresh_local_filters sk)"
  by (simp add: same_sink_def refresh_local_filters_def)

lemma refresh_sink_ok: "sink_ok env T sk \<Longrightarrow> sink_ok env T (refresh_local_filters sk)"
  using refresh_local_filters_inv [of sk] by (auto simp: sink_ok_def refresh_local_filters_def)

subsection \<open>Sinks that record\<close>

text \<open>
  Sinks that keep what they are given, in the order of the writes, and may fail after that; filters
  that only look at the record.
\<close>

definition recording_sinks ::
  "(nat \<times> log_record) list sink_env \<Rightarrow> (nat \<Rightarrow> log_record \<Rightarrow> user_exception option) \<Rightarrow> (nat \<Rightarrow> filter_arguments \<Rightarrow> bool) \<Rightarrow> bool" where
  "recording_sinks sx fails accepts \<longleftrightarrow> pure_filters sx accepts \<and> (\<forall>a r x. sx_write_log sx a r x = (fails a r, x @ [(a, r)]))"

text \<open>What a sink gets of a statement: nothing, or the statement in the text of its pattern.\<close>

definition sink_record ::
  "(pattern_formatter_options \<Rightarrow> pattern_arguments \<times> string \<Rightarrow> string) \<Rightarrow> pattern_formatter_options \<Rightarrow> pattern_arguments
    \<Rightarrow> log_record \<Rightarrow> 'spec sink \<Rightarrow> log_record" where
  "sink_record T options args rec sk = rec\<lparr>la_log_statement :=
     T (case sk_override_pattern_formatter_options sk of None \<Rightarrow> options | Some own \<Rightarrow> own) (args, la_log_message rec)\<rparr>"

definition sink_takes :: "(nat \<Rightarrow> filter_arguments \<Rightarrow> bool) \<Rightarrow> log_record \<Rightarrow> 'spec sink \<Rightarrow> bool" where
  "sink_takes accepts rec sk \<longleftrightarrow> sk_log_level sk \<le> la_log_level rec \<and> accepted accepts sk (filter_arguments.truncate rec)"

definition written_to ::
  "(pattern_formatter_options \<Rightarrow> pattern_arguments \<times> string \<Rightarrow> string) \<Rightarrow> (nat \<Rightarrow> filter_arguments \<Rightarrow> bool) \<Rightarrow> pattern_formatter_options
    \<Rightarrow> pattern_arguments \<Rightarrow> log_record \<Rightarrow> (nat \<rightharpoonup> 'spec sink) \<Rightarrow> nat \<Rightarrow> (nat \<times> log_record) list" where
  "written_to T accepts options args rec sinks a =
     (case sinks a of
        None \<Rightarrow> []
      | Some sk \<Rightarrow> if sink_takes accepts (sink_record T options args rec sk) sk then [(a, sink_record T options args rec sk)] else [])"

definition failures :: "(nat \<Rightarrow> log_record \<Rightarrow> user_exception option) \<Rightarrow> (nat \<times> log_record) list \<Rightarrow> string list" where
  "failures fails ws = concat (map (\<lambda>(a, r). case fails a r of None \<Rightarrow> [] | Some e \<Rightarrow> [what e]) ws)"

lemma written_to_same: "same_sinks m m1 \<Longrightarrow> written_to T accepts options args rec m1 a = written_to T accepts options args rec m a"
proof -
  assume "same_sinks m m1"
  then have "rel_option same_sink (m a) (m1 a)" by (simp add: same_sinks_def)
  then show ?thesis
    by (cases rule: option.rel_cases) (auto simp: written_to_def same_sink_def sink_record_def sink_takes_def accepted_def)
qed

text \<open>The state after \<open>ws\<close> were written.\<close>

definition after_writes ::
  "((nat \<times> log_record) list \<times> string list) \<Rightarrow> ('spec, (nat \<times> log_record) list) dispatch_env
    \<Rightarrow> ('spec, (nat \<times> log_record) list) backend_state \<Rightarrow> ('spec, (nat \<times> log_record) list) backend_state \<Rightarrow> bool" where
  "after_writes w env st st1 \<longleftrightarrow> bs_world st1 = bs_world st @ fst w
     \<and> bs_worker st1 = (bs_worker st)\<lparr>bw_notifications := fold (notify_error (be_steady_clock (de_backend env))) (snd w) (bw_notifications (bs_worker st))\<rparr>
     \<and> same_sinks (bs_sinks st) (bs_sinks st1) \<and> bs_contexts st1 = bs_contexts st \<and> bs_loggers st1 = bs_loggers st
     \<and> map pf_options (bs_formatters st1) = map pf_options (bs_formatters st)
     \<and> bs_sink_manager st1 = bs_sink_manager st \<and> bs_flush_flags st1 = bs_flush_flags st \<and> bs_removal_flags st1 = bs_removal_flags st"

lemma after_writes_refl [simp]: "after_writes ([], []) env st st"
  by (simp add: after_writes_def)

lemma after_writes_trans:
  "after_writes (w1, f1) env st st1 \<Longrightarrow> after_writes (w2, f2) env st1 st2 \<Longrightarrow> after_writes (w1 @ w2, f1 @ f2) env st st2"
  by (auto simp: after_writes_def intro: same_sinks_trans)

lemma caught_write:
  assumes "recording_sinks (de_sinks env) fails accepts"
  shows "after_writes ([(a, rec)], failures fails [(a, rec)]) env st (caught_call env (sx_write_log (de_sinks env) a rec) st)
    \<and> bs_sinks (caught_call env (sx_write_log (de_sinks env) a rec) st) = bs_sinks st
    \<and> bs_formatters (caught_call env (sx_write_log (de_sinks env) a rec) st) = bs_formatters st"
  using assms by (auto simp: recording_sinks_def caught_call_def after_writes_def failures_def bs_report_def bw_notify_error_def split: option.splits)

lemma filter_and_write_result:
  assumes rec: "recording_sinks (de_sinks env) fails accepts" and sk: "bs_sinks st a = Some sk0" "same_sink sk0 sk" "sink_ok env T sk"
    and level: "sk_log_level sk \<le> la_log_level rec"
  shows "after_writes (if sink_takes accepts rec sk then ([(a, rec)], failures fails [(a, rec)]) else ([], [])) env st (filter_and_write env rec a sk st)
    \<and> bs_sinks (filter_and_write env rec a sk st) = (bs_sinks st)(a \<mapsto> refresh_local_filters sk)
    \<and> bs_formatters (filter_and_write env rec a sk st) = bs_formatters st"
proof -
  let ?st = "st\<lparr>bs_sinks := (bs_sinks st)(a \<mapsto> refresh_local_filters sk), bs_world := bs_world st\<rparr>"
  have inv: "sk_inv sk" using sk(3) by (simp add: sink_ok_def)
  have pure: "pure_filters (de_sinks env) accepts" using rec by (simp add: recording_sinks_def)
  have run: "filter_and_write env rec a sk st = (if accepted accepts sk (filter_arguments.truncate rec)
      then caught_call env (sx_write_log (de_sinks env) a rec) ?st else ?st)"
    by (simp add: filter_and_write_def apply_all_user_filters_pure [OF pure inv] Let_def)
  have "same_sink sk0 (refresh_local_filters sk)"
    using sk(2) refresh_same_sink [of sk] by (simp add: same_sink_def)
  then have "same_sinks (bs_sinks st) (bs_sinks ?st)" using same_sinks_upd [of "bs_sinks st" a sk0] sk(1) by simp
  then have one: "after_writes ([], []) env st ?st" by (simp add: after_writes_def)
  from after_writes_trans [OF one conjunct1 [OF caught_write [OF rec, where a = a and rec = rec]]]
  have "after_writes ([(a, rec)], failures fails [(a, rec)]) env st (caught_call env (sx_write_log (de_sinks env) a rec) ?st)"
    by simp
  with one run caught_write [OF rec, of a rec ?st] level show ?thesis
    by (auto simp: sink_takes_def)
qed

lemma formatters_ok_upd:
  assumes "formatters_ok env T fs" "i < length fs" "formatter_writes env (pf_options (fs ! i)) (T (pf_options (fs ! i))) pf"
  shows "formatters_ok env T (fs[i := pf]) \<and> map pf_options (fs[i := pf]) = map pf_options fs"
proof -
  have "pf_options pf = pf_options (fs ! i)" using formatter_writes_options [OF assms(3)] .
  moreover from this assms(3) have "formatter_writes env (pf_options pf) (T (pf_options pf)) pf" by simp
  moreover have "map pf_options (fs[i := pf]) = map pf_options fs"
    using \<open>pf_options pf = pf_options (fs ! i)\<close> using assms(2) by (simp add: map_update) (metis list_update_id length_map nth_map)
  ultimately show ?thesis
    using assms(1) set_update_subset_insert [of fs i pf] by (auto simp: formatters_ok_def)
qed

lemma logger_ok_cong: "map pf_options fs1 = map pf_options fs \<Longrightarrow> logger_ok fs1 lg = logger_ok fs lg"
  unfolding logger_ok_def by (metis length_map nth_map)

lemma after_writes_ok:
  assumes "after_writes w env st st1" "dispatch_ok env T st" "formatters_ok env T (bs_formatters st1)"
    and "\<And>a sk. bs_sinks st1 a = Some sk \<Longrightarrow> sink_ok env T sk"
  shows "dispatch_ok env T st1"
  using assms logger_ok_cong [of "bs_formatters st1" "bs_formatters st"] by (auto simp: dispatch_ok_def after_writes_def)

lemma format_default_result:
  assumes ok: "dispatch_ok env T st" and fi: "fi < length (bs_formatters st)" "pf_options (bs_formatters st ! fi) = options"
    and t: "0 \<le> sint (pa_timestamp args)"
  shows "\<exists>st1. format_default env fi args msg st = Some (Inr (T options (args, msg)), st1) \<and> after_writes ([], []) env st st1
    \<and> dispatch_ok env T st1 \<and> bs_sinks st1 = bs_sinks st"
proof -
  have w: "formatter_writes env options (T options) (bs_formatters st ! fi)"
    using ok fi by (auto simp: dispatch_ok_def formatters_ok_def)
  obtain pf1 where pf1: "pf_format (de_calendar env) (de_specs env) args msg (bs_formatters st ! fi) = Some (Inr (T options (args, msg)), pf1)"
    "formatter_writes env options (T options) pf1" using formatter_writes_text [OF w t, of msg] by blast
  let ?st = "st\<lparr>bs_formatters := (bs_formatters st)[fi := pf1]\<rparr>"
  have upd: "formatters_ok env T (bs_formatters ?st)" "map pf_options (bs_formatters ?st) = map pf_options (bs_formatters st)"
    using formatters_ok_upd [of env T "bs_formatters st" fi pf1] ok fi pf1(2) by (auto simp: dispatch_ok_def)
  then have a: "after_writes ([], []) env st ?st" by (simp add: after_writes_def)
  moreover have "dispatch_ok env T ?st"
    by (rule after_writes_ok [OF a ok upd(1)]) (use ok in \<open>auto simp: dispatch_ok_def\<close>)
  ultimately show ?thesis using fi pf1(1) by (simp add: format_default_def)
qed

lemma format_override_result:
  assumes ok: "sink_ok env T sk" and own: "sk_override_pattern_formatter_options sk = Some own" and t: "0 \<le> sint (pa_timestamp args)"
  shows "\<exists>sk1. format_override env own args msg sk = Some (Inr (T own (args, msg)), sk1) \<and> sink_ok env T sk1 \<and> same_sink sk sk1"
proof -
  obtain pf where pf: "(case sk_override_pattern_formatter sk of Some pf \<Rightarrow> Inr pf | None \<Rightarrow> pf_new (de_specs env) own) = Inr pf"
    "formatter_writes env own (T own) pf"
    using ok own pf_new_writes_text [of env own "T own"] by (cases "sk_override_pattern_formatter sk") (auto simp: sink_ok_def)
  obtain pf1 where "pf_format (de_calendar env) (de_specs env) args msg pf = Some (Inr (T own (args, msg)), pf1)"
    "formatter_writes env own (T own) pf1" using formatter_writes_text [OF pf(2) t] by blast
  with pf(1) ok own show ?thesis
    by (auto simp: format_override_def sink_ok_def same_sink_def sk_inv_def)
qed

lemma write_to_sink_result:
  fixes d :: string
  assumes rec: "recording_sinks (de_sinks env) fails accepts" and ok: "dispatch_ok env T st"
    and fi: "fi < length (bs_formatters st)" "pf_options (bs_formatters st ! fi) = options"
    and t: "0 \<le> sint (pa_timestamp args)" and d: "d = [] \<or> d = T options (args, la_log_message rec)" and a: "bs_sinks st a \<noteq> None"
    and ws: "ws = written_to T accepts options args rec (bs_sinks st) a"
  shows "\<exists>d1 st1. write_to_sink env fi args rec a d st = Some (d1, st1) \<and> (d1 = [] \<or> d1 = T options (args, la_log_message rec))
    \<and> dispatch_ok env T st1 \<and> after_writes (ws, failures fails ws) env st st1"
proof -
  obtain sk where sk: "bs_sinks st a = Some sk" using a by blast
  have sok: "sink_ok env T sk" using ok sk by (auto simp: dispatch_ok_def)
  have same: "same_sink sk sk" by (simp add: same_sink_def)
  have none: "failures fails [] = []" by (simp add: failures_def)
  have ok_after: "dispatch_ok env T (filter_and_write env r a sk1 st1) \<and> after_writes (ws, failures fails ws) env st (filter_and_write env r a sk1 st1)"
    if r: "r = sink_record T options args rec sk" and sk1: "same_sink sk sk1" "sink_ok env T sk1" "sk_log_level sk \<le> la_log_level rec"
      and st1: "after_writes ([], []) env st st1" "dispatch_ok env T st1" "bs_sinks st1 = bs_sinks st" for r sk1 st1
  proof -
    have lvl: "sk_log_level sk1 \<le> la_log_level r" using sk1 r by (simp add: same_sink_def sink_record_def)
    have takes: "sink_takes accepts r sk1 = sink_takes accepts r sk" using sk1(1) by (simp add: sink_takes_def same_sink_def accepted_def)
    note step = filter_and_write_result [OF rec _ sk1(1,2) lvl, of st1 a]
    have w: "(if sink_takes accepts r sk1 then ([(a, r)], failures fails [(a, r)]) else ([], [])) = (ws, failures fails ws)"
      using takes by (simp add: ws written_to_def sk r none)
    have aw: "after_writes (ws, failures fails ws) env st1 (filter_and_write env r a sk1 st1)"
      using step st1(3) sk unfolding w by simp
    moreover have "dispatch_ok env T (filter_and_write env r a sk1 st1)"
      by (rule after_writes_ok [OF aw st1(2)])
         (use step st1 sk sk1(2) refresh_sink_ok in \<open>auto simp: dispatch_ok_def split: if_splits\<close>)
    ultimately show ?thesis using after_writes_trans [OF st1(1) aw] by simp
  qed
  show ?thesis
  proof (cases "la_log_level rec < sk_log_level sk")
    case True
    then have "ws = []" by (simp add: ws written_to_def sk sink_takes_def sink_record_def linorder_not_le [symmetric])
    with True sk ok d none show ?thesis by (simp add: write_to_sink_def)
  next
    case lvl: False
    show ?thesis
    proof (cases "sk_override_pattern_formatter_options sk")
      case None
      let ?t = "T options (args, la_log_message rec)"
      obtain st1 where st1: "(if d = [] then format_default env fi args (la_log_message rec) st else Some (Inr d, st)) = Some (Inr ?t, st1)"
        "after_writes ([], []) env st st1" "dispatch_ok env T st1" "bs_sinks st1 = bs_sinks st"
        using format_default_result [OF ok fi t, of "la_log_message rec"] d ok by (cases "d = []") auto
      have "rec\<lparr>la_log_statement := ?t\<rparr> = sink_record T options args rec sk" by (simp add: sink_record_def None)
      from ok_after [OF this same sok _ st1(2-4)] lvl sk None st1(1) show ?thesis
        by (simp add: write_to_sink_def)
    next
      case (Some own)
      obtain sk1 where sk1: "format_override env own args (la_log_message rec) sk = Some (Inr (T own (args, la_log_message rec)), sk1)"
        "sink_ok env T sk1" "same_sink sk sk1" using format_override_result [OF sok Some t] by blast
      have "rec\<lparr>la_log_statement := T own (args, la_log_message rec)\<rparr> = sink_record T options args rec sk"
        by (simp add: sink_record_def Some)
      from ok_after [OF this sk1(3,2) _ after_writes_refl ok] lvl sk Some sk1(1) d show ?thesis
        by (auto simp: write_to_sink_def)
    qed
  qed
qed

lemma failures_append: "failures fails (ws1 @ ws2) = failures fails ws1 @ failures fails ws2"
  by (simp add: failures_def)

lemma formatter_kept:
  assumes "map pf_options fs1 = map pf_options fs" "fi < length fs" "pf_options (fs ! fi) = options"
  shows "fi < length fs1 \<and> pf_options (fs1 ! fi) = options"
  using assms by (metis length_map nth_map)

lemma write_to_sinks_result:
  fixes d :: string
  assumes rec: "recording_sinks (de_sinks env) fails accepts" and t: "0 \<le> sint (pa_timestamp args)"
  shows "dispatch_ok env T st \<Longrightarrow> fi < length (bs_formatters st) \<Longrightarrow> pf_options (bs_formatters st ! fi) = options
    \<Longrightarrow> d = [] \<or> d = T options (args, la_log_message rec) \<Longrightarrow> \<forall>a \<in> set sinks. bs_sinks st a \<noteq> None
    \<Longrightarrow> ws = concat (map (written_to T accepts options args rec (bs_sinks st)) sinks)
    \<Longrightarrow> \<exists>st1. write_to_sinks env fi args rec sinks d st = Some st1 \<and> dispatch_ok env T st1 \<and> after_writes (ws, failures fails ws) env st st1"
proof (induction sinks arbitrary: d st ws)
  case Nil
  then show ?case by (simp add: failures_def)
next
  case (Cons a sinks)
  let ?w1 = "written_to T accepts options args rec (bs_sinks st) a"
  obtain d1 st1 where one: "write_to_sink env fi args rec a d st = Some (d1, st1)" "d1 = [] \<or> d1 = T options (args, la_log_message rec)"
    "dispatch_ok env T st1" "after_writes (?w1, failures fails ?w1) env st st1"
    using write_to_sink_result [OF rec Cons.prems(1,2,3) t Cons.prems(4) _ refl, of a] Cons.prems(5) by auto
  have fi: "fi < length (bs_formatters st1)" "pf_options (bs_formatters st1 ! fi) = options"
    using formatter_kept [OF _ Cons.prems(2,3), of "bs_formatters st1"] one(4) by (auto simp: after_writes_def)
  have same: "same_sinks (bs_sinks st) (bs_sinks st1)" using one(4) by (simp add: after_writes_def)
  have "\<forall>a \<in> set sinks. bs_sinks st1 a \<noteq> None"
  proof
    fix b assume "b \<in> set sinks"
    with Cons.prems(5) have "bs_sinks st b \<noteq> None" by simp
    with same show "bs_sinks st1 b \<noteq> None" unfolding same_sinks_def by (metis option.rel_distinct(2) option.exhaust)
  qed
  moreover have "written_to T accepts options args rec (bs_sinks st1) = written_to T accepts options args rec (bs_sinks st)"
    by (rule ext) (rule written_to_same [OF same])
  ultimately obtain st2 where two: "write_to_sinks env fi args rec sinks d1 st1 = Some st2" "dispatch_ok env T st2"
    "after_writes (concat (map (written_to T accepts options args rec (bs_sinks st)) sinks),
       failures fails (concat (map (written_to T accepts options args rec (bs_sinks st)) sinks))) env st1 st2"
    using Cons.IH [OF one(3) fi one(2) _ refl] by auto
  from after_writes_trans [OF one(4) two(3)] one(1) two(1,2) Cons.prems(6) show ?case by (simp add: failures_append)
qed

subsection \<open>The formatter of a logger\<close>

lemma shared_formatter_result:
  "shared_formatter fs options ls = Some i \<Longrightarrow> pf_options (fs ! i) = options \<and> (\<exists>x \<in> set ls. lg_pattern_formatter (snd x) = Some i)"
  unfolding shared_formatter_def by (induction ls) (auto split: option.splits if_splits)

text \<open>The other members of a logger, and a registry that differs in the formatters only.\<close>

definition same_logger :: "logger \<Rightarrow> logger \<Rightarrow> bool" where
  "same_logger lg lg1 \<longleftrightarrow> logger_base.truncate lg1 = logger_base.truncate lg
     \<and> lg_pattern_formatter_options lg1 = lg_pattern_formatter_options lg \<and> lg_user_clock lg1 = lg_user_clock lg"

definition same_loggers :: "logger_manager \<Rightarrow> logger_manager \<Rightarrow> bool" where
  "same_loggers m m1 \<longleftrightarrow> lm_env_log_level m1 = lm_env_log_level m \<and> lm_has_invalidated_loggers m1 = lm_has_invalidated_loggers m
     \<and> list_all2 (\<lambda>x y. fst y = fst x \<and> same_logger (snd x) (snd y)) (lm_loggers m) (lm_loggers m1)"

lemma same_logger_refl [simp]: "same_logger lg lg"
  by (simp add: same_logger_def)

lemma same_loggers_refl [simp]: "same_loggers m m"
  by (simp add: same_loggers_def list_all2_same)

lemma same_loggers_update:
  assumes "\<And>lg. same_logger lg (f lg)"
  shows "same_loggers m (m\<lparr>lm_loggers := update_logger addr f (lm_loggers m)\<rparr>)"
  using assms by (auto simp: same_loggers_def update_logger_def list_all2_map2 intro!: list_all2_refl)

lemma set_formatter_ok:
  assumes ok: "dispatch_ok env T st" and lg: "bs_logger st addr = Some lg"
    and fs: "formatters_ok env T (bs_formatters st @ new)" "i < length (bs_formatters st @ new)"
      "pf_options ((bs_formatters st @ new) ! i) = lg_pattern_formatter_options lg"
  shows "dispatch_ok env T (bs_update_logger addr (\<lambda>lg. lg\<lparr>lg_pattern_formatter := Some i\<rparr>) (st\<lparr>bs_formatters := bs_formatters st @ new\<rparr>))"
proof -
  let ?ls = "lm_loggers (bs_loggers st)" and ?f = "\<lambda>lg. lg\<lparr>lg_pattern_formatter := Some i\<rparr>"
  have "(addr, lg) \<in> set ?ls" using lg by (auto simp: bs_logger_def dest: map_of_SomeD)
  moreover have d: "distinct (map fst ?ls)" using ok by (simp add: dispatch_ok_def)
  ultimately have only: "l = lg" if "(addr, l) \<in> set ?ls" for l using that by (meson eq_key_imp_eq_value)
  have "logger_ok (bs_formatters st @ new) (snd x)" if x: "x \<in> set (update_logger addr ?f ?ls)" for x
  proof -
    obtain b l where bl: "(b, l) \<in> set ?ls" "snd x = (if b = addr then ?f l else l)"
      using x by (auto simp: update_logger_def)
    have "logger_ok (bs_formatters st) l" using ok bl(1) by (auto simp: dispatch_ok_def)
    with bl fs only [of l] show ?thesis by (auto simp: logger_ok_def nth_append)
  qed
  moreover have "map fst (update_logger addr ?f ?ls) = map fst ?ls" by (rule update_logger_names) simp
  ultimately show ?thesis using ok fs(1) d by (auto simp: dispatch_ok_def bs_update_logger_def)
qed

lemma ensure_pattern_formatter_result:
  assumes ok: "dispatch_ok env T st" and lg: "bs_logger st addr = Some lg"
    and options: "options_text env (lg_pattern_formatter_options lg) (T (lg_pattern_formatter_options lg))"
  shows "\<exists>fi fs m. ensure_pattern_formatter env addr lg st = (Inr fi, st\<lparr>bs_formatters := fs, bs_loggers := m\<rparr>)
    \<and> dispatch_ok env T (st\<lparr>bs_formatters := fs, bs_loggers := m\<rparr>) \<and> same_loggers (bs_loggers st) m
    \<and> fi < length fs \<and> pf_options (fs ! fi) = lg_pattern_formatter_options lg"
proof -
  have in_ls: "(addr, lg) \<in> set (lm_loggers (bs_loggers st))" using lg by (auto simp: bs_logger_def dest: map_of_SomeD)
  have lok: "\<forall>x \<in> set (lm_loggers (bs_loggers st)). logger_ok (bs_formatters st) (snd x)" and fok: "formatters_ok env T (bs_formatters st)"
    using ok by (auto simp: dispatch_ok_def)
  have same: "same_loggers (bs_loggers st) ((bs_loggers st)\<lparr>lm_loggers := update_logger addr (\<lambda>lg. lg\<lparr>lg_pattern_formatter := Some i\<rparr>) (lm_loggers (bs_loggers st))\<rparr>)" for i
    by (rule same_loggers_update) (simp add: same_logger_def logger_base.truncate_def)
  have stored: "bs_update_logger addr (\<lambda>lg. lg\<lparr>lg_pattern_formatter := Some i\<rparr>) (st\<lparr>bs_formatters := fs\<rparr>)
      = st\<lparr>bs_formatters := fs, bs_loggers := (bs_loggers st)\<lparr>lm_loggers := update_logger addr (\<lambda>lg. lg\<lparr>lg_pattern_formatter := Some i\<rparr>) (lm_loggers (bs_loggers st))\<rparr>\<rparr>"
    for i fs by (simp add: bs_update_logger_def)
  consider (has) i where "lg_pattern_formatter lg = Some i"
    | (shared) i where "lg_pattern_formatter lg = None"
        "shared_formatter (bs_formatters st) (lg_pattern_formatter_options lg) (lm_loggers (bs_loggers st)) = Some i"
    | (fresh) pf where "lg_pattern_formatter lg = None"
        "shared_formatter (bs_formatters st) (lg_pattern_formatter_options lg) (lm_loggers (bs_loggers st)) = None"
        "pf_new (de_specs env) (lg_pattern_formatter_options lg) = Inr pf"
        "formatter_writes env (lg_pattern_formatter_options lg) (T (lg_pattern_formatter_options lg)) pf"
    using pf_new_writes_text [OF options] by (metis option.exhaust)
  then show ?thesis
  proof cases
    case has
    with lok in_ls have "i < length (bs_formatters st) \<and> pf_options (bs_formatters st ! i) = lg_pattern_formatter_options lg"
      by (auto simp: logger_ok_def)
    with has ok show ?thesis
      by (intro exI [of _ i] exI [of _ "bs_formatters st"] exI [of _ "bs_loggers st"]) (simp add: ensure_pattern_formatter_def)
  next
    case shared
    have i: "i < length (bs_formatters st)" "pf_options (bs_formatters st ! i) = lg_pattern_formatter_options lg"
      using shared_formatter_result [OF shared(2)] lok by (auto simp: logger_ok_def)
    have "dispatch_ok env T (bs_update_logger addr (\<lambda>lg. lg\<lparr>lg_pattern_formatter := Some i\<rparr>) (st\<lparr>bs_formatters := bs_formatters st\<rparr>))"
      using set_formatter_ok [OF ok lg, of "[]" i] fok i by simp
    with shared i same [of i] stored [of i "bs_formatters st"] show ?thesis
      by (intro exI [of _ i] exI [of _ "bs_formatters st"]) (auto simp: ensure_pattern_formatter_def)
  next
    case fresh
    let ?i = "length (bs_formatters st)"
    have o: "pf_options pf = lg_pattern_formatter_options lg" using formatter_writes_options [OF fresh(4)] .
    have "formatters_ok env T (bs_formatters st @ [pf])" using fok fresh(4) o by (auto simp: formatters_ok_def)
    with set_formatter_ok [OF ok lg this, of ?i] o
    have "dispatch_ok env T (bs_update_logger addr (\<lambda>lg. lg\<lparr>lg_pattern_formatter := Some ?i\<rparr>) (st\<lparr>bs_formatters := bs_formatters st @ [pf]\<rparr>))"
      by simp
    with fresh o same [of ?i] stored [of ?i "bs_formatters st @ [pf]"] show ?thesis
      by (intro exI [of _ ?i] exI [of _ "bs_formatters st @ [pf]"]) (auto simp: ensure_pattern_formatter_def Let_def)
  qed
qed

subsection \<open>A statement and its sinks\<close>

text \<open>What a logger's sinks get of an event; \<open>T\<close> gives the text of options.\<close>

definition statement_record :: "transit_event \<Rightarrow> string \<Rightarrow> string \<Rightarrow> backend_worker \<Rightarrow> logger \<Rightarrow> log_record option" where
  "statement_record e thread_id thread_name w lg =
     (case (te_metadata e, te_formatted_msg e) of
        (Some m, Some msg) \<Rightarrow>
          (case (log_level_to_string (mm_log_level m) (bo_log_level_descriptions (bw_options w)),
                 log_level_to_string (mm_log_level m) (bo_log_level_short_codes (bw_options w))) of
             (Inr description, Inr short_code) \<Rightarrow>
               Some (log_record_of e m lg (bw_process_id w) thread_id thread_name description short_code msg)
           | _ \<Rightarrow> None)
      | _ \<Rightarrow> None)"

definition statement_writes ::
  "(pattern_formatter_options \<Rightarrow> pattern_arguments \<times> string \<Rightarrow> string) \<Rightarrow> (nat \<Rightarrow> filter_arguments \<Rightarrow> bool)
    \<Rightarrow> transit_event \<Rightarrow> log_record \<Rightarrow> logger \<Rightarrow> (nat \<rightharpoonup> 'spec sink) \<Rightarrow> (nat \<times> log_record) list" where
  "statement_writes T accepts e rec lg sinks =
     concat (map (written_to T accepts (lg_pattern_formatter_options lg) (pattern_arguments_of e (la_log_metadata rec) rec) rec sinks) (lb_sinks lg))"

definition after_statement ::
  "(nat \<Rightarrow> log_record \<Rightarrow> user_exception option) \<Rightarrow> (nat \<times> log_record) list \<Rightarrow> ('spec, (nat \<times> log_record) list) dispatch_env
    \<Rightarrow> ('spec, (nat \<times> log_record) list) backend_state \<Rightarrow> ('spec, (nat \<times> log_record) list) backend_state \<Rightarrow> bool" where
  "after_statement fails ws env st st1 \<longleftrightarrow> bs_world st1 = bs_world st @ ws
     \<and> bs_worker st1 = (bs_worker st)\<lparr>bw_notifications :=
          fold (notify_error (be_steady_clock (de_backend env))) (failures fails ws) (bw_notifications (bs_worker st))\<rparr>
     \<and> same_sinks (bs_sinks st) (bs_sinks st1) \<and> same_loggers (bs_loggers st) (bs_loggers st1) \<and> bs_contexts st1 = bs_contexts st
     \<and> bs_sink_manager st1 = bs_sink_manager st \<and> bs_flush_flags st1 = bs_flush_flags st \<and> bs_removal_flags st1 = bs_removal_flags st"

lemma dispatch_result:
  assumes rec: "recording_sinks (de_sinks env) fails accepts" and ok: "dispatch_ok env T st"
    and lg: "te_logger_base e = Some addr" "bs_logger st addr = Some lg"
    and options: "options_text env (lg_pattern_formatter_options lg) (T (lg_pattern_formatter_options lg))"
    and r: "statement_record e thread_id thread_name (bs_worker st) lg = Some r" and t: "0 \<le> sint (te_timestamp e)"
    and sinks: "\<forall>a \<in> set (lb_sinks lg). bs_sinks st a \<noteq> None"
  shows "\<exists>st1. dispatch_transit_event_to_sinks env e thread_id thread_name st = Some (None, st1) \<and> dispatch_ok env T st1
    \<and> after_statement fails (statement_writes T accepts e r lg (bs_sinks st)) env st st1"
proof -
  obtain fi fs m where fi: "ensure_pattern_formatter env addr lg st = (Inr fi, st\<lparr>bs_formatters := fs, bs_loggers := m\<rparr>)"
    "dispatch_ok env T (st\<lparr>bs_formatters := fs, bs_loggers := m\<rparr>)" "same_loggers (bs_loggers st) m"
    "fi < length fs" "pf_options (fs ! fi) = lg_pattern_formatter_options lg"
    using ensure_pattern_formatter_result [OF ok lg(2) options] by blast
  let ?st = "st\<lparr>bs_formatters := fs, bs_loggers := m\<rparr>"
  obtain meta msg d c where r': "te_metadata e = Some meta" "te_formatted_msg e = Some msg"
    "log_level_to_string (mm_log_level meta) (bo_log_level_descriptions (bw_options (bs_worker st))) = Inr d"
    "log_level_to_string (mm_log_level meta) (bo_log_level_short_codes (bw_options (bs_worker st))) = Inr c"
    "r = log_record_of e meta lg (bw_process_id (bs_worker st)) thread_id thread_name d c msg"
    using r by (auto simp: statement_record_def split: option.splits sum.splits)
  let ?args = "pattern_arguments_of e meta r"
  have t': "0 \<le> sint (pa_timestamp ?args)" using t by (simp add: r'(5) pattern_arguments_of_def log_record_of_def)
  obtain st1 where st1: "write_to_sinks env fi ?args r (lb_sinks lg) [] ?st = Some st1" "dispatch_ok env T st1"
    "after_writes (statement_writes T accepts e r lg (bs_sinks st), failures fails (statement_writes T accepts e r lg (bs_sinks st))) env ?st st1"
    using write_to_sinks_result [OF rec t' fi(2), where rec = r and fi = fi and options = "lg_pattern_formatter_options lg"
        and d = "[]" and sinks = "lb_sinks lg"] fi(4,5) sinks
    by (auto simp: statement_writes_def r'(5) log_record_of_def)
  have "dispatch_transit_event_to_sinks env e thread_id thread_name st = Some (None, st1)"
    using lg fi(1) r' st1(1) by (simp add: dispatch_transit_event_to_sinks_def write_log_statement_def Let_def)
  moreover have "after_statement fails (statement_writes T accepts e r lg (bs_sinks st)) env st st1"
    using st1(3) fi(3) by (simp add: after_statement_def after_writes_def)
  ultimately show ?thesis using st1(2) by blast
qed

text \<open>
  C26. A statement of a logger reaches every sink of the logger whose level and filters let it
  through exactly once, in the order of the sinks, whatever exceptions the other sinks throw; each
  gets the text of its own pattern where it has one, and of the logger's otherwise; every exception
  is reported. The formatters stay usable for the next statement.
\<close>

theorem statement_reaches_its_sinks:
  assumes "recording_sinks (de_sinks env) fails accepts" "dispatch_ok env T st"
    and "te_logger_base e = Some addr" "bs_logger st addr = Some lg"
    and "options_text env (lg_pattern_formatter_options lg) (T (lg_pattern_formatter_options lg))"
    and "statement_record e thread_id thread_name (bs_worker st) lg = Some r" "0 \<le> sint (te_timestamp e)"
    and "\<forall>a \<in> set (lb_sinks lg). bs_sinks st a \<noteq> None"
  shows "\<exists>st1. dispatch_transit_event_to_sinks env e thread_id thread_name st = Some (None, st1) \<and> dispatch_ok env T st1
    \<and> after_statement fails (statement_writes T accepts e r lg (bs_sinks st)) env st st1"
  by (rule dispatch_result [OF assms])

subsection \<open>Example\<close>

text \<open>Three sinks: the first one throws, the second takes errors only.\<close>

definition example_recorder :: "(nat \<times> log_record) list sink_env" where
  "example_recorder = \<lparr>sx_write_log = \<lambda>a r x. (if a = 1 then Some (UserException ''disk full'') else None, x @ [(a, r)]),
     sx_write_metric = \<lambda>_ _ x. (None, x), sx_flush_sink = \<lambda>_ _ x. (None, x), sx_run_periodic_tasks = \<lambda>_ x. (None, x),
     sx_filter = \<lambda>_ _ x. (Inr True, x)\<rparr>"

definition example_dispatch_env :: "(string, (nat \<times> log_record) list) dispatch_env" where
  "example_dispatch_env = \<lparr>de_backend = example_backend, de_sinks = example_recorder, de_calendar = gmt_calendar, de_specs = example_specs,
     de_user_owns = \<lambda>_. False, de_resync = True, de_shrink_allocates = True, de_poll_begin = None, de_poll_end = None,
     de_released = \<lambda>_ _ x. x\<rparr>"

definition example_logger :: logger where
  "example_logger = \<lparr>lb_logger_name = ''root'', lb_sinks = [1, 2, 3], lb_clock_source = System, lb_message_flush_threshold = 0,
     lb_messages_since_last_flush = 0, lb_log_level = Info, lb_backtrace_flush_level = NoneLevel, lb_valid = True,
     lb_backtrace_storage = None, lg_user_clock = 0, lg_pattern_formatter_options = example_options, lg_pattern_formatter = None\<rparr>"

definition example_event :: "u64 \<Rightarrow> transit_event" where
  "example_event ts = te_default\<lparr>te_timestamp := ts, te_logger_base := Some 7, te_formatted_msg := Some ''hi'',
     te_macro_metadata := StaticMetadata (mm_new ''a.cpp:1'' ''f'' ''hi'' None Info Log False)\<rparr>"

definition example_state :: "(string, (nat \<times> log_record) list) backend_state" where
  "example_state = \<lparr>bs_worker = example_worker, bs_contexts = tcm_new,
     bs_loggers = lm_new\<lparr>lm_loggers := [(7, example_logger)]\<rparr>, bs_formatters = [],
     bs_sinks = [1 \<mapsto> sk_construct None, 2 \<mapsto> set_log_level_filter Error (sk_construct None), 3 \<mapsto> sk_construct None], bs_sink_manager = sn_new,
     bs_flush_flags = [], bs_removal_flags = [], bs_world = []\<rparr>"

definition example_text :: "pattern_formatter_options \<Rightarrow> pattern_arguments \<times> string \<Rightarrow> string" where
  "example_text options = statement_text gmt_calendar example_specs example_options (projr (tf_init ''%H:%M'' GmtTime)) example_segments
     (CHR ''}'' # [CHR 0x0A])"

lemma example_options_text: "options_text example_dispatch_env example_options (example_text options)"
proof -
  let ?tf = "projr (tf_init ''%H:%M'' GmtTime)"
  have tf: "tf_init ''%H:%M'' GmtTime = Inr \<lparr>tf_time_format = ''%H:%M'',
     tf_strftime_part_1 = sft_default\<lparr>sft_timestamp_format := ''%H:%M'', sft_initial_parts := [''%H'', '':'', ''%M'']\<rparr>,
     tf_strftime_part_2 = sft_default, tf_timestamp_timezone = GmtTime, tf_additional_format_specifier = Specifier_None,
     tf_has_format_part_2 = False\<rparr>" by code_simp
  have "suffixed_pattern example_options = pattern_source example_segments (CHR ''}'' # [CHR 0x0A])" by code_simp
  moreover have "tf_parts_ok gmt_calendar ?tf" by (auto simp: tf tf_parts_ok_def gmt_part_ok sft_default_def)
  moreover have "po_format_pattern example_options \<noteq> []" "po_timestamp_pattern example_options = ''%H:%M''"
    "po_timestamp_timezone example_options = GmtTime"
    by (simp_all add: example_options_def)
  moreover have "tf_init ''%H:%M'' GmtTime = Inr ?tf" by (simp add: tf)
  moreover have "example_text options = statement_text gmt_calendar example_specs example_options ?tf example_segments
      (CHR ''}'' # [CHR 0x0A])" by (simp add: example_text_def)
  ultimately show ?thesis
    unfolding options_text_def using example_specs_wf gmt_calendar_ok by (auto simp: example_dispatch_env_def)
qed

lemma example_dispatch_ok: "dispatch_ok example_dispatch_env example_text example_state"
  by (auto simp: dispatch_ok_def formatters_ok_def example_state_def lm_new_def logger_ok_def example_logger_def sink_ok_def
      sk_inv_def sk_construct_def set_log_level_filter_def split: if_splits)

lemma example_recording: "recording_sinks (de_sinks example_dispatch_env) (\<lambda>a r. if a = 1 then Some (UserException ''disk full'') else None) (\<lambda>_ _. True)"
  by (simp add: recording_sinks_def pure_filters_def example_dispatch_env_def example_recorder_def)

theorem statement_reaches_its_sinks_witness:
  "\<exists>st1. dispatch_transit_event_to_sinks example_dispatch_env (example_event 7) ''1'' ''main'' example_state = Some (None, st1)
    \<and> map fst (bs_world st1) = [1, 3] \<and> map snd (en_notified (bw_notifications (bs_worker st1))) = [''disk full'']"
proof -
  let ?m = "mm_new ''a.cpp:1'' ''f'' ''hi'' None Info Log False"
  let ?r = "log_record_of (example_event 7) ?m example_logger ''1'' ''1'' ''main'' ''INFO'' ''I'' ''hi''"
  have lg: "bs_logger example_state 7 = Some example_logger" by (simp add: bs_logger_def example_state_def)
  have r: "statement_record (example_event 7) ''1'' ''main'' (bs_worker example_state) example_logger = Some ?r"
    by (simp add: statement_record_def example_event_def te_metadata_def example_state_def example_worker_def mm_new_def
        default_backend_options_def default_log_level_descriptions_def default_log_level_short_codes_def log_level_to_string_def)
  have sinks: "\<forall>a \<in> set (lb_sinks example_logger). bs_sinks example_state a \<noteq> None" by (simp add: example_logger_def example_state_def)
  have options: "lg_pattern_formatter_options example_logger = example_options" by (simp add: example_logger_def)
  obtain st1 where st1: "dispatch_transit_event_to_sinks example_dispatch_env (example_event 7) ''1'' ''main'' example_state = Some (None, st1)"
    "after_statement (\<lambda>a r. if a = 1 then Some (UserException ''disk full'') else None)
       (statement_writes example_text (\<lambda>_ _. True) (example_event 7) ?r example_logger (bs_sinks example_state)) example_dispatch_env example_state st1"
    using statement_reaches_its_sinks [OF example_recording example_dispatch_ok _ lg _ r _ sinks] example_options_text options
    by (auto simp: example_event_def)
  have "map fst (statement_writes example_text (\<lambda>_ _. True) (example_event 7) ?r example_logger (bs_sinks example_state)) = [1, 3]"
    "failures (\<lambda>a r. if a = 1 then Some (UserException ''disk full'') else None)
       (statement_writes example_text (\<lambda>_ _. True) (example_event 7) ?r example_logger (bs_sinks example_state)) = [''disk full'']"
    by (simp_all add: statement_writes_def written_to_def example_logger_def example_state_def sink_takes_def sink_record_def
        set_log_level_filter_def sk_construct_def accepted_def log_record_of_def mm_new_def less_eq_log_level_def failures_def)
  with st1 show ?thesis
    by (auto simp: after_statement_def example_state_def example_worker_def en_new_def notify_error_def example_dispatch_env_def
        example_backend_def Let_def suppression_interval_def)
qed

end
