(* ===== verification/Backend_Worker.thy ===== *)
theory Backend_Worker
  imports Dispatch_Text
begin

text \<open>
  The main loop of the backend, from \<^verbatim>\<open>quill/backend/BackendWorker.h\<close>: the cache of the active
  thread contexts, reading the frontend queues, the batches of events, the work of an idle turn, the
  removal of loggers, the start and the end of the worker. What other threads do to the queues and
  the registries happens between these operations.
\<close>

subsection \<open>The active thread contexts\<close>

text \<open>A capacity of 32 bits is never more than a buffer may have (\<open>buffer_created\<close>).\<close>

definition new_transit_event_buffer :: "backend_options \<Rightarrow> transit_event transit_buffer" where
  "new_transit_event_buffer options = projr (tb_new te_default (ucast (bo_transit_event_buffer_initial_capacity options)))"

lemma buffer_created: "tb_new te_default (ucast (bo_transit_event_buffer_initial_capacity options)) = Inr (new_transit_event_buffer options)"
proof -
  let ?n = "ucast (bo_transit_event_buffer_initial_capacity options) :: size_t"
  have small: "unat (bo_transit_event_buffer_initial_capacity options) < 2 ^ 32"
    by (rule order_less_le_trans [OF unsigned_less]) simp
  have "unat ?n < 2 ^ 32"
    using small by (simp add: unsigned_ucast_eq le_less_trans [OF take_bit_nat_less_eq_self])
  then have le: "?n \<le> 2 ^ 32" by (simp add: word_le_nat_alt)
  have "is_power_of_two (2 ^ 32 :: size_t)" by (simp add: is_power_of_two_def)
  moreover have "(2 ^ 32 :: size_t) \<le> max_power_of_2" by (simp add: word_le_nat_alt unat_max_power_of_2)
  then have "?n \<le> max_power_of_2" by (rule order_trans [OF le])
  note next_power_of_two_least [OF this]
  ultimately have "next_power_of_two ?n \<le> 2 ^ 32" using le by blast
  then have "\<not> next_power_of_two ?n > max_elements" by (simp add: max_elements_def word_le_nat_alt word_less_nat_alt)
  then show ?thesis by (simp add: new_transit_event_buffer_def tb_new_def Let_def)
qed

definition ensure_transit_event_buffer :: "backend_options \<Rightarrow> thread_context \<Rightarrow> thread_context" where
  "ensure_transit_event_buffer options tc =
     (case tc_transit_event_buffer tc of
        None \<Rightarrow> tc\<lparr>tc_transit_event_buffer := Some (new_transit_event_buffer options)\<rparr>
      | Some _ \<Rightarrow> tc)"

definition update_active_thread_contexts_cache ::
  "bool \<Rightarrow> ('spec, 'x) backend_state \<Rightarrow> ('spec, 'x) backend_state" where
  "update_active_thread_contexts_cache force st =
     (case (if force then (True, bs_contexts st) else new_thread_context_flag (bs_contexts st)) of
        (changed, m) \<Rightarrow>
          if changed then
            (case for_each_thread_context (\<lambda>addr tc cache. (ensure_transit_event_buffer (bw_options (bs_worker st)) tc, cache @ [addr])) m [] of
               (m1, cache) \<Rightarrow> st\<lparr>bs_contexts := m1, bs_worker := (bs_worker st)\<lparr>bw_active_thread_contexts_cache := cache\<rparr>\<rparr>)
          else st\<lparr>bs_contexts := m\<rparr>)"

subsection \<open>Reading the frontend queues\<close>

definition timestamp_limit :: "backend_env \<Rightarrow> backend_options \<Rightarrow> u64" where
  "timestamp_limit env options =
     (if bo_log_timestamp_ordering_grace_period_us options = 0 then - 1
      else let grace_period_ns = word_of_int (bo_log_timestamp_ordering_grace_period_us options * 1000)
           in if be_system_time_ns env > grace_period_ns then be_system_time_ns env - grace_period_ns else 0)"

text \<open>An exception ends the loop over the contexts.\<close>

fun populate_from_contexts ::
  "('spec, 'x) dispatch_env \<Rightarrow> u64 \<Rightarrow> nat list \<Rightarrow> size_t \<Rightarrow> ('spec, 'x) backend_state
    \<Rightarrow> ((quill_error + size_t) \<times> ('spec, 'x) backend_state) option" where
  "populate_from_contexts env ts_now [] total_count st = Some (Inr total_count, st)"
| "populate_from_contexts env ts_now (a # cache) total_count st =
     (case tcm_context (bs_contexts st) a of
        None \<Rightarrow> None
      | Some tc \<Rightarrow>
          (case read_and_decode_frontend_queue (de_backend env) ts_now tc (bs_worker st) of
             None \<Rightarrow> None
           | Some (r, tc1, w1) \<Rightarrow>
               let st1 = st\<lparr>bs_contexts := tcm_update a (\<lambda>_. tc1) (bs_contexts st), bs_worker := w1\<rparr>
               in case r of
                    Inl e \<Rightarrow> Some (Inl e, st1)
                  | Inr n \<Rightarrow> populate_from_contexts env ts_now cache (total_count + n) st1))"

definition populate_transit_events_from_frontend_queues ::
  "('spec, 'x) dispatch_env \<Rightarrow> ('spec, 'x) backend_state \<Rightarrow> ((quill_error + size_t) \<times> ('spec, 'x) backend_state) option" where
  "populate_transit_events_from_frontend_queues env st =
     populate_from_contexts env (timestamp_limit (de_backend env) (bw_options (bs_worker st)))
       (bw_active_thread_contexts_cache (bs_worker st)) 0 st"

subsection \<open>Batches\<close>

definition buffer_is_empty :: "thread_context \<Rightarrow> bool" where
  "buffer_is_empty tc \<longleftrightarrow> (case tc_transit_event_buffer tc of None \<Rightarrow> True | Some b \<Rightarrow> tb_empty b)"

definition context_queue_empty :: "nat \<Rightarrow> thread_context \<Rightarrow> thread_context_manager \<Rightarrow> bool \<times> thread_context_manager" where
  "context_queue_empty a tc m =
     (case sq_empty (tc_spsc_queue tc) of (emp, q) \<Rightarrow> (emp, tcm_update a (\<lambda>tc. tc\<lparr>tc_spsc_queue := q\<rparr>) m))"

fun pending_queue_with_empty_buffer :: "nat list \<Rightarrow> thread_context_manager \<Rightarrow> bool \<times> thread_context_manager" where
  "pending_queue_with_empty_buffer [] m = (False, m)"
| "pending_queue_with_empty_buffer (a # cache) m =
     (case tcm_context m a of
        None \<Rightarrow> pending_queue_with_empty_buffer cache m
      | Some tc \<Rightarrow>
          if buffer_is_empty tc then
            (case context_queue_empty a tc m of
               (emp, m1) \<Rightarrow> if emp then pending_queue_with_empty_buffer cache m1 else (True, m1))
          else pending_queue_with_empty_buffer cache m)"

definition has_pending_events_for_caching_when_transit_event_buffer_empty ::
  "('spec, 'x) backend_state \<Rightarrow> bool \<times> ('spec, 'x) backend_state" where
  "has_pending_events_for_caching_when_transit_event_buffer_empty st =
     (let st1 = update_active_thread_contexts_cache False st
      in case pending_queue_with_empty_buffer (bw_active_thread_contexts_cache (bs_worker st1)) (bs_contexts st1) of
           (pending, m) \<Rightarrow> (pending, st1\<lparr>bs_contexts := m\<rparr>))"

text \<open>The loop both \<^verbatim>\<open>_poll\<close> and \<^verbatim>\<open>_exit\<close> run.\<close>

partial_function (option) process_batch ::
  "('spec, 'x) dispatch_env \<Rightarrow> ('spec, 'x) backend_state \<Rightarrow> ('spec, 'x) backend_state option" where
  "process_batch env st =
     (case has_pending_events_for_caching_when_transit_event_buffer_empty st of
        (pending, st1) \<Rightarrow>
          if pending then Some st1
          else (case process_lowest_timestamp_transit_event env st1 of
                  None \<Rightarrow> None
                | Some (processed, st2) \<Rightarrow> if processed then process_batch env st2 else Some st2))"

subsection \<open>An idle turn\<close>

fun all_queues_and_buffers_empty :: "nat list \<Rightarrow> bool \<Rightarrow> thread_context_manager \<Rightarrow> bool \<times> thread_context_manager" where
  "all_queues_and_buffers_empty [] all_empty m = (all_empty, m)"
| "all_queues_and_buffers_empty (a # cache) all_empty m =
     (case tcm_context m a of
        None \<Rightarrow> all_queues_and_buffers_empty cache all_empty m
      | Some tc \<Rightarrow>
          (case context_queue_empty a tc m of
             (emp, m1) \<Rightarrow> all_queues_and_buffers_empty cache (all_empty \<and> emp \<and> buffer_is_empty tc) m1))"

definition check_frontend_queues_and_cached_transit_events_empty ::
  "('spec, 'x) backend_state \<Rightarrow> bool \<times> ('spec, 'x) backend_state" where
  "check_frontend_queues_and_cached_transit_events_empty st =
     (let st1 = update_active_thread_contexts_cache False st
      in case all_queues_and_buffers_empty (bw_active_thread_contexts_cache (bs_worker st1)) True (bs_contexts st1) of
           (emp, m) \<Rightarrow> (emp, st1\<lparr>bs_contexts := m\<rparr>))"

definition resync_rdtsc_clock :: "('spec, 'x) dispatch_env \<Rightarrow> backend_worker \<Rightarrow> backend_worker" where
  "resync_rdtsc_clock env w =
     (if bw_rdtsc_clock w
         \<and> be_steady_now (de_backend env) - bw_last_rdtsc_resync_time w > bo_rdtsc_resync_interval_ms (bw_options w) * 1000000
         \<and> de_resync env
      then w\<lparr>bw_last_rdtsc_resync_time := be_steady_now (de_backend env)\<rparr> else w)"

definition failure_message :: "backend_env \<Rightarrow> thread_context \<Rightarrow> size_t \<Rightarrow> string option" where
  "failure_message env tc failed_events_cnt =
     (let start = be_local_time env @ '' Quill INFO: ''; n = to_string (unat failed_events_cnt); full = ''Reached the maximum configured unbounded queue capacity and '' in
      if has_dropping_queue tc then
        Some (start @ (if has_unbounded_queue_type tc then full @ ''dropped '' else ''Dropped '') @ n @ '' events from thread '' @ tc_thread_id tc)
      else if has_blocking_queue tc then
        Some (start @ (if has_unbounded_queue_type tc then full @ ''experienced '' else ''Experienced '') @ n
              @ '' blocking occurrences on thread '' @ tc_thread_id tc)
      else None)"

fun check_failure_counters ::
  "('spec, 'x) dispatch_env \<Rightarrow> nat list \<Rightarrow> ('spec, 'x) backend_state \<Rightarrow> ('spec, 'x) backend_state" where
  "check_failure_counters env [] st = st"
| "check_failure_counters env (a # cache) st =
     (case tcm_context (bs_contexts st) a of
        None \<Rightarrow> check_failure_counters env cache st
      | Some tc \<Rightarrow>
          (case get_and_reset_failure_counter tc of
             (failed_events_cnt, tc1) \<Rightarrow>
               let st1 = st\<lparr>bs_contexts := tcm_update a (\<lambda>_. tc1) (bs_contexts st)\<rparr>;
                   st2 = (if failed_events_cnt > 0 then
                            (case failure_message (de_backend env) tc failed_events_cnt of
                               None \<Rightarrow> st1 | Some msg \<Rightarrow> bs_report env msg st1)
                          else st1)
               in check_failure_counters env cache st2))"

definition check_failure_counter ::
  "('spec, 'x) dispatch_env \<Rightarrow> ('spec, 'x) backend_state \<Rightarrow> ('spec, 'x) backend_state" where
  "check_failure_counter env st =
     (if \<not> en_error_notifier (bw_notifications (bs_worker st)) then st
      else check_failure_counters env (bw_active_thread_contexts_cache (bs_worker st)) st)"

text \<open>A sink has an owner while a registered logger or the user holds it.\<close>

definition sink_owned :: "('spec, 'x) dispatch_env \<Rightarrow> logger_manager \<Rightarrow> nat \<Rightarrow> bool" where
  "sink_owned env m a \<longleftrightarrow> de_user_owns env a \<or> list_ex (\<lambda>(_, lg). a \<in> set (lb_sinks lg)) (lm_loggers m)"

text \<open>The threads that wait for the removal of one of these loggers are released.\<close>

definition notify_removal :: "string \<Rightarrow> ('spec, 'x) backend_state \<Rightarrow> ('spec, 'x) backend_state" where
  "notify_removal name st =
     (case bw_logger_removal_flags (bs_worker st) name of
        None \<Rightarrow> st
      | Some flag \<Rightarrow> st\<lparr>bs_removal_flags := bs_removal_flags st @ [flag],
          bs_worker := (bs_worker st)\<lparr>bw_logger_removal_flags := (bw_logger_removal_flags (bs_worker st))(name := None)\<rparr>\<rparr>)"

definition cleanup_loggers :: "('spec, 'x) dispatch_env \<Rightarrow> ('spec, 'x) backend_state \<Rightarrow> ('spec, 'x) backend_state" where
  "cleanup_loggers env st =
     (case cleanup_invalidated_loggers check_frontend_queues_and_cached_transit_events_empty (bs_loggers st)
             (bw_removed_loggers (bs_worker st)) st of
        (m, removed, st1) \<Rightarrow>
          let st2 = st1\<lparr>bs_loggers := m, bs_worker := (bs_worker st1)\<lparr>bw_removed_loggers := removed\<rparr>\<rparr>
          in if removed = [] then st2
             else let st3 = fold notify_removal removed
                        (st2\<lparr>bs_sink_manager := snd (cleanup_unused_sinks (sink_owned env m) (bs_sink_manager st2))\<rparr>)
                  in st3\<lparr>bs_worker := (bs_worker st3)\<lparr>bw_removed_loggers := []\<rparr>\<rparr>)"

fun try_shrink_buffers ::
  "bool \<Rightarrow> nat list \<Rightarrow> thread_context_manager \<Rightarrow> quill_error option \<times> thread_context_manager" where
  "try_shrink_buffers allocates [] m = (None, m)"
| "try_shrink_buffers allocates (a # cache) m =
     (case (case tcm_context m a of None \<Rightarrow> None | Some tc \<Rightarrow> tc_transit_event_buffer tc) of
        None \<Rightarrow> try_shrink_buffers allocates cache m
      | Some b \<Rightarrow>
          (case tb_try_shrink allocates te_default b of
             (r, b1) \<Rightarrow>
               let m1 = tcm_update a (\<lambda>tc. tc\<lparr>tc_transit_event_buffer := Some b1\<rparr>) m
               in case r of Inl e \<Rightarrow> (Some e, m1) | Inr _ \<Rightarrow> try_shrink_buffers allocates cache m1))"

definition try_shrink_empty_transit_event_buffers ::
  "('spec, 'x) dispatch_env \<Rightarrow> ('spec, 'x) backend_state \<Rightarrow> quill_error option \<times> ('spec, 'x) backend_state" where
  "try_shrink_empty_transit_event_buffers env st =
     (case try_shrink_buffers (de_shrink_allocates env) (bw_active_thread_contexts_cache (bs_worker st)) (bs_contexts st) of
        (err, m) \<Rightarrow> (err, st\<lparr>bs_contexts := m\<rparr>))"

definition invoke_poll_hook ::
  "('spec, 'x) dispatch_env \<Rightarrow> 'x user_call option \<Rightarrow> ('spec, 'x) backend_state \<Rightarrow> ('spec, 'x) backend_state" where
  "invoke_poll_hook env hook st = (case hook of None \<Rightarrow> st | Some call \<Rightarrow> caught_call env call st)"

subsection \<open>One turn of the main loop\<close>

text \<open>What is left to do is nothing: the thread sleeps until a time-out or a notification.\<close>

definition idle_wait :: "('spec, 'x) dispatch_env \<Rightarrow> backend_worker \<Rightarrow> backend_worker" where
  "idle_wait env w =
     (if bo_sleep_duration_ns (bw_options w) \<noteq> 0 then resync_rdtsc_clock env (w\<lparr>bw_wake_up_flag := False\<rparr>) else w)"

text \<open>The turn without cached events; \<open>True\<close> when the end hook was called already.\<close>

definition poll_idle ::
  "('spec, 'x) dispatch_env \<Rightarrow> ('spec, 'x) backend_state \<Rightarrow> (quill_error + bool) \<times> ('spec, 'x) backend_state" where
  "poll_idle env st =
     (let st1 = flush_and_run_active_sinks env True (bo_sink_min_flush_interval_ms (bw_options (bs_worker st))) Periodic st;
          st2 = check_failure_counter env st1;
          st3 = st2\<lparr>bs_worker := resync_rdtsc_clock env (bs_worker st2)\<rparr>
      in case check_frontend_queues_and_cached_transit_events_empty st3 of
           (queues_and_events_empty, st4) \<Rightarrow>
             if \<not> queues_and_events_empty then (Inr False, st4)
             else (case try_shrink_empty_transit_event_buffers env (cleanup_loggers env (cleanup_invalidated_thread_contexts st4)) of
                     (Some e, st5) \<Rightarrow> (Inl e, st5)
                   | (None, st5) \<Rightarrow>
                       let st6 = invoke_poll_hook env (de_poll_end env) st5
                       in (Inr True, st6\<lparr>bs_worker := idle_wait env (bs_worker st6)\<rparr>)))"

text \<open>The exception that leaves \<^verbatim>\<open>_poll\<close> is caught and reported by the main loop.\<close>

definition poll ::
  "('spec, 'x) dispatch_env \<Rightarrow> ('spec, 'x) backend_state \<Rightarrow> (quill_error option \<times> ('spec, 'x) backend_state) option" where
  "poll env st =
     (case populate_transit_events_from_frontend_queues env
             (update_active_thread_contexts_cache False (invoke_poll_hook env (de_poll_begin env) st)) of
        None \<Rightarrow> None
      | Some (Inl e, st1) \<Rightarrow> Some (Some e, st1)
      | Some (Inr cached_transit_events_count, st1) \<Rightarrow>
          if cached_transit_events_count \<noteq> 0 then
            map_option (\<lambda>st2. (None, invoke_poll_hook env (de_poll_end env) st2))
              (if cached_transit_events_count < bo_transit_events_soft_limit (bw_options (bs_worker st1))
               then map_option snd (process_lowest_timestamp_transit_event env st1)
               else process_batch env st1)
          else (case poll_idle env st1 of
                  (Inl e, st2) \<Rightarrow> Some (Some e, st2)
                | (Inr poll_end_called, st2) \<Rightarrow>
                    Some (None, if poll_end_called then st2 else invoke_poll_hook env (de_poll_end env) st2)))"

definition main_loop_turn ::
  "('spec, 'x) dispatch_env \<Rightarrow> ('spec, 'x) backend_state \<Rightarrow> ('spec, 'x) backend_state option" where
  "main_loop_turn env st =
     (case poll env st of
        None \<Rightarrow> None
      | Some (None, st1) \<Rightarrow> Some st1
      | Some (Some e, st1) \<Rightarrow> Some (bs_report env (error_text e) st1))"

subsection \<open>Start and end\<close>

definition init_worker ::
  "('spec, 'x) dispatch_env \<Rightarrow> backend_options \<Rightarrow> ('spec, 'x) backend_state \<Rightarrow> quill_error option \<times> ('spec, 'x) backend_state" where
  "init_worker env options st =
     (let w = bs_worker st;
          w1 = w\<lparr>bw_options := options, bw_notifications := reset_notifications (be_steady_clock (de_backend env)) (bw_notifications w),
                 bw_is_rdtsc_clock_config_valid := (bo_sleep_duration_ns options \<le> bo_rdtsc_resync_interval_ms options * 1000000)\<rparr>
      in case validate_options options of
           Inl e \<Rightarrow> (Some e, st\<lparr>bs_worker := w1\<rparr>)
         | Inr _ \<Rightarrow>
             let options1 = options\<lparr>bo_transit_events_hard_limit := effective_limit (bo_transit_events_hard_limit options),
                                    bo_transit_events_soft_limit := effective_limit (bo_transit_events_soft_limit options)\<rparr>;
                 w2 = w1\<lparr>bw_options := options1, bw_last_output_timestamp := 0\<rparr>
             in (None, update_active_thread_contexts_cache True (st\<lparr>bs_worker := w2\<rparr>)))"

text \<open>
  The loop of \<^verbatim>\<open>_exit\<close>; \<open>env n\<close> is the environment of its \<open>n\<close>-th turn. An exception of the queues
  leaves \<^verbatim>\<open>_exit\<close>.
\<close>

partial_function (option) exit_loop ::
  "(nat \<Rightarrow> ('spec, 'x) dispatch_env) \<Rightarrow> nat \<Rightarrow> ('spec, 'x) backend_state
    \<Rightarrow> (quill_error option \<times> nat \<times> ('spec, 'x) backend_state) option" where
  "exit_loop env n st =
     (case (if bo_wait_for_queues_to_empty_before_exit (bw_options (bs_worker st))
            then check_frontend_queues_and_cached_transit_events_empty st else (True, st)) of
        (queues_and_events_empty, st1) \<Rightarrow>
          if queues_and_events_empty
          then Some (None, n, flush_and_run_active_sinks (env n) False 0 Final (check_failure_counter (env n) st1))
          else (case populate_transit_events_from_frontend_queues (env n) st1 of
                  None \<Rightarrow> None
                | Some (r, st2) \<Rightarrow>
                    (case r of
                       Inl e \<Rightarrow> Some (Some e, n, st2)
                     | Inr cached_transit_events_count \<Rightarrow>
                         if cached_transit_events_count > 0
                         then (case process_batch (env n) st2 of None \<Rightarrow> None | Some st3 \<Rightarrow> exit_loop env (Suc n) st3)
                         else exit_loop env (Suc n) st2)))"

definition exit_worker ::
  "(nat \<Rightarrow> ('spec, 'x) dispatch_env) \<Rightarrow> ('spec, 'x) backend_state \<Rightarrow> (quill_error option \<times> ('spec, 'x) backend_state) option" where
  "exit_worker env st =
     (case exit_loop env 0 st of
        None \<Rightarrow> None
      | Some (Some e, n, st1) \<Rightarrow> Some (Some e, st1)
      | Some (None, n, st1) \<Rightarrow>
          Some (None, cleanup_loggers (env n)
            (cleanup_invalidated_thread_contexts (st1\<lparr>bs_worker := (bs_worker st1)\<lparr>bw_rdtsc_clock := False\<rparr>\<rparr>))))"

definition notify_worker :: "backend_worker \<Rightarrow> backend_worker" where
  "notify_worker w = w\<lparr>bw_wake_up_flag := True\<rparr>"

text \<open>
  \<^verbatim>\<open>stop\<close>: the worker's own scratch state is dropped. \<open>exited\<close> says whether the thread came to the end of
  its own exit sequence; if not, the caller runs it.
\<close>

definition stop_worker ::
  "(nat \<Rightarrow> ('spec, 'x) dispatch_env) \<Rightarrow> bool \<Rightarrow> ('spec, 'x) backend_state \<Rightarrow> ('spec, 'x) backend_state option" where
  "stop_worker env exited st =
     (if \<not> bw_is_worker_running (bs_worker st) then Some st
      else let st1 = st\<lparr>bs_worker := notify_worker ((bs_worker st)\<lparr>bw_is_worker_running := False\<rparr>)\<rparr>
           in case (if exited then Some (None, st1) else exit_worker env st1) of
                None \<Rightarrow> None
              | Some (err, st2) \<Rightarrow>
                  let st3 = (case err of None \<Rightarrow> st2 | Some e \<Rightarrow> bs_report (env 0) (error_text e) st2)
                  in Some (st3\<lparr>bs_worker := (bs_worker st3)\<lparr>bw_named_args_templates := (\<lambda>_. None), bw_logger_removal_flags := (\<lambda>_. None),
                       bw_removed_loggers := [], bw_active_thread_contexts_cache := [], bw_format_args_store := []\<rparr>\<rparr>))"

definition worker_time_since_epoch :: "backend_env \<Rightarrow> u64 \<Rightarrow> backend_worker \<Rightarrow> quill_error + u64" where
  "worker_time_since_epoch env rdtsc_value w =
     (if \<not> bw_is_rdtsc_clock_config_valid w
      then Inl (QuillError ''Invalid config, When TSC clock is used backend_thread_sleep_duration should not be higher than rdtsc_resync_interval'')
      else Inr (if bw_rdtsc_clock w then be_time_since_epoch env rdtsc_value else 0))"

end
