(* ===== verification/Worker_Order.thy ===== *)
theory Worker_Order
  imports Backend_Worker
begin

text \<open>
  The order in which the backend works: the event with the lowest timestamp first, so that a batch
  is the merge of the threads' events by timestamp, each reaching its sinks once.
\<close>

subsection \<open>The buffered events of the contexts\<close>

definition context_events :: "thread_context_manager \<Rightarrow> nat \<Rightarrow> transit_event list" where
  "context_events m a =
     (case tcm_context m a of
        None \<Rightarrow> []
      | Some tc \<Rightarrow> (case tc_transit_event_buffer tc of None \<Rightarrow> [] | Some b \<Rightarrow> tb_events b))"

definition cached_ok :: "thread_context_manager \<Rightarrow> nat \<Rightarrow> bool" where
  "cached_ok m a \<longleftrightarrow> (\<exists>tc b. tcm_context m a = Some tc \<and> tc_transit_event_buffer tc = Some b \<and> tb_inv b)"

lemma map_of_update_context: "map_of (update_context a f cs) b = (if b = a then map_option f (map_of cs a) else map_of cs b)"
  by (induction cs) auto

lemma tcm_context_update: "tcm_context (tcm_update a f m) b = (if b = a then map_option f (tcm_context m a) else tcm_context m b)"
  by (simp add: tcm_context_def tcm_update_def map_of_update_context)

lemma front_events:
  assumes "tb_inv b"
  shows "tb_front b = (case tb_events b of [] \<Rightarrow> None | e # _ \<Rightarrow> Some e)"
proof (cases "tb_empty b")
  case True
  then show ?thesis using empty_events [of b] by (simp add: tb_front_def tb_empty_def)
next
  case False
  from pop_rel [OF assms False] show ?thesis by auto
qed

lemma context_front_events:
  "cached_ok m a \<Longrightarrow> context_front m a = (case context_events m a of [] \<Rightarrow> None | e # _ \<Rightarrow> Some e)"
  by (auto simp: cached_ok_def context_front_def context_events_def front_events)

lemma pop_slot:
  assumes inv: "tb_inv b" and ev: "tb_events b = e # es"
  shows "tb_rel (tb_pop_front (b\<lparr>tb_storage := (tb_storage b)[tb_slot b (tb_reader_pos b) := x]\<rparr>)) es"
proof -
  let ?b = "b\<lparr>tb_storage := (tb_storage b)[tb_slot b (tb_reader_pos b) := x]\<rparr>"
  have size: "tb_size ?b = tb_size b" "tb_slots ?b = tb_slots b" by (simp_all add: tb_size_def tb_slots_def tb_slot_def)
  have inv': "tb_inv ?b" using inv size by (simp add: tb_inv_def)
  have ne: "\<not> tb_empty ?b" using ev empty_events [of b] by (simp add: tb_empty_def)
  obtain e' es' where pop: "tb_events ?b = e' # es'" "tb_rel (tb_pop_front ?b) es'" using pop_rel [OF inv' ne] by blast
  obtain n where n: "unat (tb_size b) = Suc n" using ev length_events [of b] by (cases "unat (tb_size b)") auto
  obtain rest where slots: "tb_slots b = tb_slot b (tb_reader_pos b) # rest"
    unfolding tb_slots_def n by (simp add: upt_conv_Cons del: upt_Suc)
  have "tb_slot b (tb_reader_pos b) \<noteq> s" if "s \<in> set rest" for s
    using slots_distinct(1) [OF inv] that unfolding slots by auto
  then have "map ((!) (tb_storage ?b)) rest = map ((!) (tb_storage b)) rest"
    by (intro map_cong refl) simp
  moreover have "es' = map ((!) (tb_storage ?b)) rest"
    using pop(1) unfolding tb_events_def size(2) slots by simp
  moreover have "es = map ((!) (tb_storage b)) rest"
    using ev unfolding tb_events_def slots by simp
  ultimately have "es' = es" by metis
  with pop(2) show ?thesis by blast
qed

lemma pop_event_events:
  assumes "cached_ok m a" "context_events m a = e # es"
  shows "context_events (tcm_update a (pop_event x) m) b = (if b = a then es else context_events m b)"
    and "cached_ok m b \<Longrightarrow> cached_ok (tcm_update a (pop_event x) m) b"
proof -
  obtain tc q where tc: "tcm_context m a = Some tc" "tc_transit_event_buffer tc = Some q" "tb_inv q" "tb_events q = e # es"
    using assms by (auto simp: cached_ok_def context_events_def)
  note pop = pop_slot [OF tc(3,4), of x]
  show "context_events (tcm_update a (pop_event x) m) b = (if b = a then es else context_events m b)"
    using tc pop by (auto simp: context_events_def tcm_context_update pop_event_def tb_rel_def)
  show "cached_ok m b \<Longrightarrow> cached_ok (tcm_update a (pop_event x) m) b"
    using tc pop by (auto simp: cached_ok_def tcm_context_update pop_event_def tb_rel_def)
qed

subsection \<open>Which event is next\<close>

lemma lowest_context_result:
  "lowest_context m cache min_ts found = r \<Longrightarrow>
     (r = found \<and> (\<forall>b \<in> set cache. \<forall>te. context_front m b = Some te \<longrightarrow> min_ts \<le> te_timestamp te))
   \<or> (\<exists>a te ys zs. r = Some a \<and> cache = ys @ a # zs \<and> context_front m a = Some te \<and> te_timestamp te < min_ts
       \<and> (\<forall>b \<in> set ys. \<forall>te'. context_front m b = Some te' \<longrightarrow> te_timestamp te < te_timestamp te')
       \<and> (\<forall>b \<in> set zs. \<forall>te'. context_front m b = Some te' \<longrightarrow> te_timestamp te \<le> te_timestamp te'))"
proof (induction cache arbitrary: min_ts found)
  case (Cons c cache)
  show ?case
  proof (cases "\<exists>te. context_front m c = Some te \<and> te_timestamp te < min_ts")
    case True
    then obtain te where te: "context_front m c = Some te" "te_timestamp te < min_ts" by blast
    with Cons.prems have "lowest_context m cache (te_timestamp te) (Some c) = r" by simp
    from Cons.IH [OF this] show ?thesis
    proof (elim disjE exE conjE)
      assume "r = Some c" "\<forall>b \<in> set cache. \<forall>te'. context_front m b = Some te' \<longrightarrow> te_timestamp te \<le> te_timestamp te'"
      with te show ?thesis by (intro disjI2 exI [of _ c] exI [of _ te] exI [of _ "[]"] exI [of _ cache]) simp
    next
      fix a te' ys zs
      assume "r = Some a" "cache = ys @ a # zs" "context_front m a = Some te'" "te_timestamp te' < te_timestamp te"
        "\<forall>b \<in> set ys. \<forall>e. context_front m b = Some e \<longrightarrow> te_timestamp te' < te_timestamp e"
        "\<forall>b \<in> set zs. \<forall>e. context_front m b = Some e \<longrightarrow> te_timestamp te' \<le> te_timestamp e"
      with te show ?thesis by (intro disjI2 exI [of _ a] exI [of _ te'] exI [of _ "c # ys"] exI [of _ zs]) auto
    qed
  next
    case False
    then have keep: "lowest_context m cache min_ts found = r"
      and c: "\<forall>te. context_front m c = Some te \<longrightarrow> min_ts \<le> te_timestamp te"
      using Cons.prems by (auto split: option.splits if_splits)
    from Cons.IH [OF keep] show ?thesis
    proof (elim disjE exE conjE)
      fix a te' ys zs
      assume "r = Some a" "cache = ys @ a # zs" "context_front m a = Some te'" "te_timestamp te' < min_ts"
        "\<forall>b \<in> set ys. \<forall>e. context_front m b = Some e \<longrightarrow> te_timestamp te' < te_timestamp e"
        "\<forall>b \<in> set zs. \<forall>e. context_front m b = Some e \<longrightarrow> te_timestamp te' \<le> te_timestamp e"
      with c show ?thesis
        by (intro disjI2 exI [of _ a] exI [of _ te'] exI [of _ "c # ys"] exI [of _ zs]) (auto dest: less_le_trans)
    qed (use c in auto)
  qed
qed simp

lemma selected_context_result:
  assumes "selected_context m cache = Some a" "context_front m a = Some te"
  shows "\<exists>ys zs. cache = ys @ a # zs
    \<and> (\<forall>b \<in> set ys. \<forall>te'. context_front m b = Some te' \<longrightarrow> te_timestamp te < te_timestamp te')
    \<and> (\<forall>b \<in> set zs. \<forall>te'. context_front m b = Some te' \<longrightarrow> te_timestamp te \<le> te_timestamp te')"
proof (cases "\<exists>c. cache = [c]")
  case True
  with assms(1) have "cache = [a]" by (auto simp: selected_context_def)
  then show ?thesis by (intro exI [of _ "[]"]) simp
next
  case False
  then have "lowest_context m cache (- 1) None = Some a"
    using assms(1) by (auto simp: selected_context_def split: list.splits)
  from lowest_context_result [OF this] assms(2) show ?thesis by auto
qed

lemma nothing_selected:
  assumes "case selected_context m cache of None \<Rightarrow> True | Some a \<Rightarrow> context_front m a = None"
    and "a \<in> set cache" "context_front m a = Some te"
  shows "te_timestamp te = - 1 \<and> length cache \<noteq> 1"
proof (cases "\<exists>c. cache = [c]")
  case True
  with assms show ?thesis by (auto simp: selected_context_def)
next
  case False
  then have run: "lowest_context m cache (- 1) None = selected_context m cache"
    by (auto simp: selected_context_def split: list.splits)
  have "selected_context m cache = None" using lowest_context_result [OF run] assms(1) by auto
  with lowest_context_result [OF run] assms(2,3) have "- 1 \<le> te_timestamp te" by auto
  then have "te_timestamp te = - 1" by (metis word_order.extremum_unique)
  with False show ?thesis by (auto simp: length_Suc_conv)
qed

text \<open>
  C27. The event processed next is the oldest one: of the events at the fronts of the threads' buffers
  it has the lowest timestamp, and of several with that timestamp it is the one of the thread that
  comes first. None is processed only when all buffers are empty, or when there are several threads
  and all their front events carry the highest timestamp there is.
\<close>

theorem oldest_event_is_next:
  "case selected_context m cache of
     None \<Rightarrow> list_all (\<lambda>a. case context_front m a of None \<Rightarrow> True | Some te \<Rightarrow> te_timestamp te = - 1) cache \<and> length cache \<noteq> 1
   | Some a \<Rightarrow> a \<in> set cache \<and> (case context_front m a of
         None \<Rightarrow> cache = [a]
       | Some te \<Rightarrow> \<exists>ys zs. cache = ys @ a # zs
           \<and> list_all (\<lambda>b. case context_front m b of None \<Rightarrow> True | Some te' \<Rightarrow> te_timestamp te < te_timestamp te') ys
           \<and> list_all (\<lambda>b. case context_front m b of None \<Rightarrow> True | Some te' \<Rightarrow> te_timestamp te \<le> te_timestamp te') zs)"
proof (cases "selected_context m cache")
  case None
  then have "length cache \<noteq> 1" by (auto simp: selected_context_def length_Suc_conv)
  with nothing_selected [of m cache] None show ?thesis by (auto simp: list_all_iff split: option.splits)
next
  case (Some a)
  show ?thesis
  proof (cases "context_front m a")
    case None
    have "cache = [a]"
    proof (cases "\<exists>c. cache = [c]")
      case True
      with Some show ?thesis by (auto simp: selected_context_def)
    next
      case False
      then have "lowest_context m cache (- 1) None = Some a"
        using Some by (auto simp: selected_context_def split: list.splits)
      from lowest_context_result [OF this] None show ?thesis by auto
    qed
    with Some None show ?thesis by simp
  next
    case te: (Some te)
    from selected_context_result [OF Some te] Some te show ?thesis by (auto simp: list_all_iff split: option.splits)
  qed
qed

subsection \<open>What stays the same while statements are written\<close>

definition same_setup :: "('spec, 'x) backend_state \<Rightarrow> ('spec, 'x) backend_state \<Rightarrow> bool" where
  "same_setup st st1 \<longleftrightarrow> same_sinks (bs_sinks st) (bs_sinks st1) \<and> same_loggers (bs_loggers st) (bs_loggers st1)
     \<and> bw_options (bs_worker st1) = bw_options (bs_worker st) \<and> bw_process_id (bs_worker st1) = bw_process_id (bs_worker st)"

lemma same_logger_fields:
  assumes "same_logger lg lg1"
  shows "lb_sinks lg1 = lb_sinks lg" "lb_logger_name lg1 = lb_logger_name lg" "lb_backtrace_storage lg1 = lb_backtrace_storage lg"
    "lb_backtrace_flush_level lg1 = lb_backtrace_flush_level lg" "lb_valid lg1 = lb_valid lg"
    "lg_pattern_formatter_options lg1 = lg_pattern_formatter_options lg"
  using assms by (auto simp: same_logger_def logger_base.truncate_def)

lemma same_logger_trans: "same_logger a b \<Longrightarrow> same_logger b c \<Longrightarrow> same_logger a c"
  by (simp add: same_logger_def)

lemma same_loggers_trans:
  assumes "same_loggers a b" "same_loggers b c"
  shows "same_loggers a c"
proof -
  have "list_all2 (\<lambda>x y. fst y = fst x \<and> same_logger (snd x) (snd y)) (lm_loggers a) (lm_loggers c)"
    by (rule list_all2_trans [OF _ assms [unfolded same_loggers_def, THEN conjunct2, THEN conjunct2]])
       (auto intro: same_logger_trans)
  with assms show ?thesis by (simp add: same_loggers_def)
qed

lemma same_setup_refl [simp]: "same_setup st st"
  by (simp add: same_setup_def)

lemma same_setup_trans: "same_setup a b \<Longrightarrow> same_setup b c \<Longrightarrow> same_setup a c"
  by (auto simp: same_setup_def intro: same_sinks_trans same_loggers_trans)

lemma same_loggers_lookup: "same_loggers (bs_loggers st) (bs_loggers st1) \<Longrightarrow> rel_option same_logger (bs_logger st addr) (bs_logger st1 addr)"
proof -
  have "list_all2 (\<lambda>x y. fst y = fst x \<and> same_logger (snd x) (snd y)) xs ys \<Longrightarrow> rel_option same_logger (map_of xs addr) (map_of ys addr)" for xs ys
    by (induction rule: list_all2_induct) auto
  then show "same_loggers (bs_loggers st) (bs_loggers st1) \<Longrightarrow> ?thesis" by (simp add: same_loggers_def bs_logger_def)
qed

lemma after_statement_setup: "after_statement fails ws env st st1 \<Longrightarrow> same_setup st st1"
  by (simp add: after_statement_def same_setup_def)

text \<open>What an event's sinks get, and an event that is an ordinary statement of a registered logger.\<close>

definition event_writes ::
  "(pattern_formatter_options \<Rightarrow> pattern_arguments \<times> string \<Rightarrow> string) \<Rightarrow> (nat \<Rightarrow> filter_arguments \<Rightarrow> bool)
    \<Rightarrow> ('spec, 'x) backend_state \<Rightarrow> string \<Rightarrow> string \<Rightarrow> transit_event \<Rightarrow> (nat \<times> log_record) list" where
  "event_writes T accepts st thread_id thread_name e =
     (case (case te_logger_base e of None \<Rightarrow> None | Some addr \<Rightarrow> bs_logger st addr) of
        None \<Rightarrow> []
      | Some lg \<Rightarrow>
          (case statement_record e thread_id thread_name (bs_worker st) lg of
             None \<Rightarrow> []
           | Some r \<Rightarrow> statement_writes T accepts e r lg (bs_sinks st)))"

definition ordinary_event ::
  "('spec, 'x) dispatch_env \<Rightarrow> (pattern_formatter_options \<Rightarrow> pattern_arguments \<times> string \<Rightarrow> string) \<Rightarrow> ('spec, 'x) backend_state
    \<Rightarrow> transit_event \<Rightarrow> bool" where
  "ordinary_event env T st e \<longleftrightarrow> (\<exists>m addr lg. te_metadata e = Some m \<and> mm_event m = Log \<and> mm_log_level m \<noteq> Backtrace
     \<and> te_logger_base e = Some addr \<and> bs_logger st addr = Some lg \<and> lb_backtrace_storage lg = None
     \<and> options_text env (lg_pattern_formatter_options lg) (T (lg_pattern_formatter_options lg))
     \<and> (\<forall>thread_id thread_name. statement_record e thread_id thread_name (bs_worker st) lg \<noteq> None)
     \<and> 0 \<le> sint (te_timestamp e) \<and> (\<forall>a \<in> set (lb_sinks lg). bs_sinks st a \<noteq> None))"

lemma statement_record_same:
  assumes "same_setup st st1" "same_logger lg lg1"
  shows "statement_record e thread_id thread_name (bs_worker st1) lg1 = statement_record e thread_id thread_name (bs_worker st) lg"
  using assms by (simp add: statement_record_def same_setup_def log_record_of_def same_logger_fields cong: option.case_cong sum.case_cong)

lemma event_writes_same:
  assumes "same_setup st st1"
  shows "event_writes T accepts st1 thread_id thread_name e = event_writes T accepts st thread_id thread_name e"
proof (cases "te_logger_base e")
  case (Some addr)
  have "rel_option same_logger (bs_logger st addr) (bs_logger st1 addr)"
    using assms by (intro same_loggers_lookup) (simp add: same_setup_def)
  then show ?thesis
  proof (cases rule: option.rel_cases)
    case (Some lg lg1)
    have w: "written_to T accepts options args rec (bs_sinks st1) = written_to T accepts options args rec (bs_sinks st)" for options args rec
      using assms by (intro ext written_to_same) (simp add: same_setup_def)
    show ?thesis
      using Some \<open>te_logger_base e = Some addr\<close> statement_record_same [OF assms Some(3)]
      by (simp add: event_writes_def statement_writes_def w same_logger_fields [OF Some(3)] cong: option.case_cong)
  qed (simp add: event_writes_def Some)
qed (simp add: event_writes_def)

lemma same_sinks_registered: "same_sinks m m1 \<Longrightarrow> m1 a = None \<longleftrightarrow> m a = None"
  unfolding same_sinks_def by (metis option.rel_distinct(1) option.rel_distinct(2) option.exhaust)

lemma ordinary_event_same:
  assumes "same_setup st st1" "ordinary_event env T st e"
  shows "ordinary_event env T st1 e"
proof -
  obtain m addr lg where e: "te_metadata e = Some m" "mm_event m = Log" "mm_log_level m \<noteq> Backtrace" "te_logger_base e = Some addr"
    "bs_logger st addr = Some lg" "lb_backtrace_storage lg = None"
    "options_text env (lg_pattern_formatter_options lg) (T (lg_pattern_formatter_options lg))"
    "\<forall>thread_id thread_name. statement_record e thread_id thread_name (bs_worker st) lg \<noteq> None" "0 \<le> sint (te_timestamp e)"
    "\<forall>a \<in> set (lb_sinks lg). bs_sinks st a \<noteq> None"
    using assms(2) unfolding ordinary_event_def by blast
  obtain lg1 where lg1: "bs_logger st1 addr = Some lg1" "same_logger lg lg1"
    using assms(1) same_loggers_lookup [of st st1 addr] e(5) by (auto simp: same_setup_def elim: option.rel_cases)
  have "bs_sinks st1 a = None \<longleftrightarrow> bs_sinks st a = None" for a
    using assms(1) by (intro same_sinks_registered) (simp add: same_setup_def)
  with e lg1 statement_record_same [OF assms(1) lg1(2)] same_logger_fields [OF lg1(2)] show ?thesis
    unfolding ordinary_event_def by (intro exI [of _ m] exI [of _ addr] exI [of _ lg1]) auto
qed

lemma process_ordinary_event:
  assumes rec: "recording_sinks (de_sinks env) fails accepts" and ok: "dispatch_ok env T st"
    and off: "\<not> bo_ensure_monotonic_output_timestamps (bw_options (bs_worker st))" and e: "ordinary_event env T st e"
  shows "\<exists>st1. process_transit_event env thread_id thread_name e st = Some (None, None, e, st1) \<and> dispatch_ok env T st1
    \<and> after_statement fails (event_writes T accepts st thread_id thread_name e) env st st1"
proof -
  obtain m addr lg where e: "te_metadata e = Some m" "mm_event m = Log" "mm_log_level m \<noteq> Backtrace" "te_logger_base e = Some addr"
    "bs_logger st addr = Some lg" "lb_backtrace_storage lg = None"
    "options_text env (lg_pattern_formatter_options lg) (T (lg_pattern_formatter_options lg))"
    "\<forall>thread_id thread_name. statement_record e thread_id thread_name (bs_worker st) lg \<noteq> None" "0 \<le> sint (te_timestamp e)"
    "\<forall>a \<in> set (lb_sinks lg). bs_sinks st a \<noteq> None"
    using e unfolding ordinary_event_def by blast
  obtain r where r: "statement_record e thread_id thread_name (bs_worker st) lg = Some r" using e(8) by auto
  obtain st1 where st1: "dispatch_transit_event_to_sinks env e thread_id thread_name st = Some (None, st1)" "dispatch_ok env T st1"
    "after_statement fails (statement_writes T accepts e r lg (bs_sinks st)) env st st1"
    using dispatch_result [OF rec ok e(4,5,7) r e(9,10)] by blast
  obtain lg1 where lg1: "bs_logger st1 addr = Some lg1" "same_logger lg lg1"
    using same_loggers_lookup [of st st1 addr] st1(3) e(5) by (auto simp: after_statement_def elim: option.rel_cases)
  have "process_backtrace env addr st1 = Some (None, st1)"
    using lg1 same_logger_fields(3) [OF lg1(2)] e(6) by (simp add: process_backtrace_def)
  then have "process_log_event env thread_id thread_name addr m e st = Some (None, e, st1)"
    using off st1(1) lg1(1) by (simp add: process_log_event_def ensure_monotonic_output_timestamp_def)
  moreover have "statement_writes T accepts e r lg (bs_sinks st) = event_writes T accepts st thread_id thread_name e"
    using e(4,5) r by (simp add: event_writes_def)
  ultimately show ?thesis using e(1-5) st1 by (simp add: process_transit_event_def)
qed

subsection \<open>A batch is a merge\<close>

definition context_name :: "thread_context_manager \<Rightarrow> nat \<Rightarrow> string \<times> string" where
  "context_name m a = (case tcm_context m a of None \<Rightarrow> ([], []) | Some tc \<Rightarrow> (tc_thread_id tc, tc_thread_name tc))"

definition same_buffers :: "thread_context_manager \<Rightarrow> thread_context_manager \<Rightarrow> bool" where
  "same_buffers m m1 \<longleftrightarrow> (\<forall>a. context_events m1 a = context_events m a \<and> context_name m1 a = context_name m a
     \<and> (cached_ok m a \<longrightarrow> cached_ok m1 a)) \<and> tcm_new_thread_context_flag m1 = tcm_new_thread_context_flag m"

lemma same_buffers_refl [simp]: "same_buffers m m"
  by (simp add: same_buffers_def)

lemma same_buffers_trans: "same_buffers a b \<Longrightarrow> same_buffers b c \<Longrightarrow> same_buffers a c"
  by (simp add: same_buffers_def)

lemma tcm_update_flag [simp]: "tcm_new_thread_context_flag (tcm_update a f m) = tcm_new_thread_context_flag m"
  by (simp add: tcm_update_def)

lemma tcm_update_same:
  assumes "\<And>tc. tc_transit_event_buffer (f tc) = tc_transit_event_buffer tc \<and> tc_thread_id (f tc) = tc_thread_id tc
    \<and> tc_thread_name (f tc) = tc_thread_name tc"
  shows "same_buffers m (tcm_update a f m)"
  using assms by (auto simp: same_buffers_def context_events_def context_name_def cached_ok_def tcm_context_update split: option.splits)

lemma context_queue_empty_same: "context_queue_empty a tc m = (emp, m1) \<Longrightarrow> same_buffers m m1"
  by (auto simp: context_queue_empty_def intro: tcm_update_same split: prod.splits)

lemma pending_same: "pending_queue_with_empty_buffer cache m = (p, m1) \<Longrightarrow> same_buffers m m1"
proof (induction cache arbitrary: m)
  case (Cons a cache)
  show ?case
  proof (cases "\<exists>tc. tcm_context m a = Some tc \<and> buffer_is_empty tc")
    case True
    then obtain tc emp m2 where tc: "tcm_context m a = Some tc" "buffer_is_empty tc" "context_queue_empty a tc m = (emp, m2)"
      by (metis surj_pair)
    with Cons.prems have "if emp then pending_queue_with_empty_buffer cache m2 = (p, m1) else m1 = m2"
      by (auto split: if_splits)
    with Cons.IH [of m2] context_queue_empty_same [OF tc(3)] show ?thesis by (auto split: if_splits intro: same_buffers_trans)
  next
    case False
    with Cons show ?thesis by (auto split: option.splits if_splits)
  qed
qed simp

lemma process_lowest_step:
  assumes rec: "recording_sinks (de_sinks env) fails accepts" and ok: "dispatch_ok env T st"
    and off: "\<not> bo_ensure_monotonic_output_timestamps (bw_options (bs_worker st))"
    and sel: "selected_context (bs_contexts st) (bw_active_thread_contexts_cache (bs_worker st)) = Some a"
    and a: "cached_ok (bs_contexts st) a" "context_events (bs_contexts st) a = e # es" and e: "ordinary_event env T st e"
  shows "\<exists>st1. process_lowest_timestamp_transit_event env st = Some (True, st1) \<and> dispatch_ok env T st1 \<and> same_setup st st1
    \<and> bw_active_thread_contexts_cache (bs_worker st1) = bw_active_thread_contexts_cache (bs_worker st)
    \<and> bs_contexts st1 = tcm_update a (pop_event (te_clean e)) (bs_contexts st)
    \<and> bs_world st1 = bs_world st @ event_writes T accepts st (fst (context_name (bs_contexts st) a)) (snd (context_name (bs_contexts st) a)) e"
proof -
  obtain tc where tc: "tcm_context (bs_contexts st) a = Some tc" using a(1) by (auto simp: cached_ok_def)
  have front: "context_front (bs_contexts st) a = Some e" using context_front_events [OF a(1)] a(2) by simp
  obtain st1 where st1: "process_transit_event env (tc_thread_id tc) (tc_thread_name tc) e st = Some (None, None, e, st1)"
    "dispatch_ok env T st1" "after_statement fails (event_writes T accepts st (tc_thread_id tc) (tc_thread_name tc) e) env st st1"
    using process_ordinary_event [OF rec ok off e] by blast
  let ?st2 = "st1\<lparr>bs_contexts := tcm_update a (pop_event (te_clean e)) (bs_contexts st1)\<rparr>"
  have "process_lowest_timestamp_transit_event env st = Some (True, ?st2)"
    using sel tc front st1(1) by (simp add: process_lowest_timestamp_transit_event_def Let_def)
  moreover have "dispatch_ok env T ?st2" using st1(2) by (simp add: dispatch_ok_def)
  moreover have "same_setup st ?st2" using after_statement_setup [OF st1(3)] by (simp add: same_setup_def)
  ultimately show ?thesis using st1(3) tc by (auto simp: after_statement_def context_name_def)
qed

text \<open>
  A backend ready for a batch: its contexts are known, no other has registered, and the buffered
  events are statements of registered loggers.
\<close>

definition batch_ready ::
  "('spec, (nat \<times> log_record) list) dispatch_env \<Rightarrow> (pattern_formatter_options \<Rightarrow> pattern_arguments \<times> string \<Rightarrow> string)
    \<Rightarrow> ('spec, (nat \<times> log_record) list) backend_state \<Rightarrow> bool" where
  "batch_ready env T st \<longleftrightarrow> dispatch_ok env T st \<and> \<not> bo_ensure_monotonic_output_timestamps (bw_options (bs_worker st))
     \<and> \<not> tcm_new_thread_context_flag (bs_contexts st)
     \<and> (\<forall>a \<in> set (bw_active_thread_contexts_cache (bs_worker st)). cached_ok (bs_contexts st) a
          \<and> (\<forall>e \<in> set (context_events (bs_contexts st) a). ordinary_event env T st e))"

text \<open>What was processed is, thread by thread, the front part of what was buffered.\<close>

definition batch_output ::
  "(pattern_formatter_options \<Rightarrow> pattern_arguments \<times> string \<Rightarrow> string) \<Rightarrow> (nat \<Rightarrow> filter_arguments \<Rightarrow> bool)
    \<Rightarrow> ('spec, (nat \<times> log_record) list) backend_state \<Rightarrow> (nat \<times> transit_event) list
    \<Rightarrow> ('spec, (nat \<times> log_record) list) backend_state \<Rightarrow> bool" where
  "batch_output T accepts st out st1 \<longleftrightarrow>
     bs_world st1 = bs_world st @ concat (map (\<lambda>(a, e). event_writes T accepts st (fst (context_name (bs_contexts st) a))
       (snd (context_name (bs_contexts st) a)) e) out)
     \<and> (\<forall>a \<in> set (bw_active_thread_contexts_cache (bs_worker st)).
          context_events (bs_contexts st) a = map snd (filter (\<lambda>x. fst x = a) out) @ context_events (bs_contexts st1) a)
     \<and> fst ` set out \<subseteq> set (bw_active_thread_contexts_cache (bs_worker st))"

definition by_timestamp :: "transit_event list \<Rightarrow> bool" where
  "by_timestamp es \<longleftrightarrow> sorted (map te_timestamp es)"

definition oldest_first ::
  "nat list \<Rightarrow> thread_context_manager \<Rightarrow> (nat \<times> transit_event) list \<Rightarrow> thread_context_manager \<Rightarrow> bool" where
  "oldest_first cache m out m1 \<longleftrightarrow> (list_all (\<lambda>a. by_timestamp (context_events m a)) cache \<longrightarrow>
     by_timestamp (map snd out)
     \<and> (\<forall>x \<in> set out. \<forall>b \<in> set cache. \<forall>e \<in> set (context_events m1 b). te_timestamp (snd x) \<le> te_timestamp e))"

definition nothing_left :: "thread_context_manager \<Rightarrow> nat list \<Rightarrow> bool" where
  "nothing_left m cache \<longleftrightarrow>
     list_all (\<lambda>a. case context_front m a of None \<Rightarrow> True | Some te \<Rightarrow> te_timestamp te = - 1) cache"

lemma context_name_pop: "context_name (tcm_update a (pop_event x) m) b = context_name m b"
  by (auto simp: context_name_def tcm_context_update pop_event_def split: option.splits)

lemma has_pending_run:
  assumes "\<not> tcm_new_thread_context_flag (bs_contexts st)"
    and "pending_queue_with_empty_buffer (bw_active_thread_contexts_cache (bs_worker st)) (bs_contexts st) = (p, m)"
  shows "has_pending_events_for_caching_when_transit_event_buffer_empty st = (p, st\<lparr>bs_contexts := m\<rparr>)"
  using assms
  by (simp add: has_pending_events_for_caching_when_transit_event_buffer_empty_def update_active_thread_contexts_cache_def
      new_thread_context_flag_def Let_def)

lemma batch_ready_buffers:
  assumes "batch_ready env T st" "same_buffers (bs_contexts st) m"
  shows "batch_ready env T (st\<lparr>bs_contexts := m\<rparr>)"
proof -
  have "ordinary_event env T (st\<lparr>bs_contexts := m\<rparr>) e" if "ordinary_event env T st e" for e
    by (rule ordinary_event_same [OF _ that]) (simp add: same_setup_def)
  with assms show ?thesis by (auto simp: batch_ready_def same_buffers_def dispatch_ok_def)
qed

text \<open>Putting the event chosen first in front of the rest of a batch.\<close>

lemma batch_output_Cons:
  assumes first: "bs_world st2 = bs_world st @ event_writes T accepts st (fst (context_name (bs_contexts st) a)) (snd (context_name (bs_contexts st) a)) e"
    "bs_contexts st2 = tcm_update a (pop_event x) (bs_contexts st)" "same_setup st st2"
    "bw_active_thread_contexts_cache (bs_worker st2) = bw_active_thread_contexts_cache (bs_worker st)"
    and a: "cached_ok (bs_contexts st) a" "context_events (bs_contexts st) a = e # es" "a \<in> set (bw_active_thread_contexts_cache (bs_worker st))"
    and rest: "batch_output T accepts st2 out st1"
  shows "batch_output T accepts st ((a, e) # out) st1"
proof -
  have pop: "context_events (bs_contexts st2) b = (if b = a then es else context_events (bs_contexts st) b)" for b
    using pop_event_events(1) [OF a(1,2)] first(2) by simp
  have names: "context_name (bs_contexts st2) b = context_name (bs_contexts st) b" for b
    using first(2) context_name_pop by simp
  have writes: "event_writes T accepts st2 i n e' = event_writes T accepts st i n e'" for i n e'
    by (rule event_writes_same [OF first(3)])
  have "bs_world st1 = bs_world st @ concat (map (\<lambda>(a, e). event_writes T accepts st (fst (context_name (bs_contexts st) a))
       (snd (context_name (bs_contexts st) a)) e) ((a, e) # out))"
    using rest first(1) unfolding batch_output_def names writes by simp
  moreover have "\<forall>b \<in> set (bw_active_thread_contexts_cache (bs_worker st)).
      context_events (bs_contexts st) b = map snd (filter (\<lambda>x. fst x = b) ((a, e) # out)) @ context_events (bs_contexts st1) b"
    using rest a(2) pop first(4) unfolding batch_output_def by (auto split: if_splits)
  ultimately show ?thesis using rest a(3) first(4) by (auto simp: batch_output_def)
qed

lemma oldest_first_Cons:
  assumes sel: "selected_context m cache = Some a" and ok: "\<forall>b \<in> set cache. cached_ok m b"
    and a: "context_events m a = e # es" "a \<in> set cache" and m2: "m2 = tcm_update a (pop_event x) m"
    and rest: "oldest_first cache m2 out m1"
    and parts: "\<forall>b \<in> set cache. context_events m2 b = map snd (filter (\<lambda>x. fst x = b) out) @ context_events m1 b" "fst ` set out \<subseteq> set cache"
  shows "oldest_first cache m ((a, e) # out) m1"
  unfolding oldest_first_def
proof
  assume sorted: "list_all (\<lambda>a. by_timestamp (context_events m a)) cache"
  have aok: "cached_ok m a" using ok a(2) by blast
  have pop: "context_events m2 b = (if b = a then es else context_events m b)" for b
    using pop_event_events(1) [OF aok a(1)] m2 by simp
  have front: "context_front m a = Some e" using context_front_events [OF aok] a(1) by simp
  have least: "te_timestamp e \<le> te_timestamp e'" if b: "b \<in> set cache" "e' \<in> set (context_events m b)" for b e'
  proof -
    obtain f fs where f: "context_events m b = f # fs" using b(2) by (cases "context_events m b") auto
    have "te_timestamp e \<le> te_timestamp f"
    proof -
      have "context_front m b = Some f" using context_front_events [of m b] ok b(1) f by simp
      with selected_context_result [OF sel front] b(1) front show ?thesis by (fastforce intro: less_imp_le)
    qed
    also have "te_timestamp f \<le> te_timestamp e'"
      using sorted b f by (auto simp: list_all_iff by_timestamp_def)
    finally show ?thesis .
  qed
  have "by_timestamp (context_events m2 b)" if "b \<in> set cache" for b
    using sorted that pop [of b] a by (auto simp: list_all_iff by_timestamp_def)
  then have IH: "by_timestamp (map snd out)"
    "\<forall>x \<in> set out. \<forall>b \<in> set cache. \<forall>e \<in> set (context_events m1 b). te_timestamp (snd x) \<le> te_timestamp e"
    using rest by (auto simp: oldest_first_def list_all_iff)
  have sub: "set (context_events m2 b) \<subseteq> set (context_events m b)" for b using pop [of b] a(1) by auto
  have out: "te_timestamp e \<le> te_timestamp (snd y)" if y: "y \<in> set out" for y
  proof -
    have "snd y \<in> set (context_events m2 (fst y))" "fst y \<in> set cache" using y parts by force+
    with sub least show ?thesis by blast
  qed
  have left: "te_timestamp e \<le> te_timestamp e'" if "b \<in> set cache" "e' \<in> set (context_events m1 b)" for b e'
  proof -
    have "e' \<in> set (context_events m2 b)" using that parts(1) by simp
    with sub least that(1) show ?thesis by blast
  qed
  show "by_timestamp (map snd ((a, e) # out))
     \<and> (\<forall>x \<in> set ((a, e) # out). \<forall>b \<in> set cache. \<forall>e \<in> set (context_events m1 b). te_timestamp (snd x) \<le> te_timestamp e)"
    using IH out left by (auto simp: by_timestamp_def)
qed

lemma process_batch_result:
  assumes rec: "recording_sinks (de_sinks env) fails accepts" and ready: "batch_ready env T st"
    and cache: "cache = bw_active_thread_contexts_cache (bs_worker st)"
  shows "\<exists>st1 out. process_batch env st = Some st1 \<and> batch_output T accepts st out st1
    \<and> oldest_first cache (bs_contexts st) out (bs_contexts st1)
    \<and> ((\<exists>st0. has_pending_events_for_caching_when_transit_event_buffer_empty st0 = (True, st1)) \<or> nothing_left (bs_contexts st1) cache)"
  using ready cache
proof (induction "\<Sum>a \<in> set cache. length (context_events (bs_contexts st) a)" arbitrary: st rule: less_induct)
  case less
  note cache = less.prems(2) and ready = less.prems(1)
  obtain p m where pend: "pending_queue_with_empty_buffer cache (bs_contexts st) = (p, m)" by fastforce
  let ?st = "st\<lparr>bs_contexts := m\<rparr>"
  have same: "same_buffers (bs_contexts st) m" by (rule pending_same [OF pend])
  have run: "has_pending_events_for_caching_when_transit_event_buffer_empty st = (p, ?st)"
    by (rule has_pending_run) (use ready pend cache in \<open>auto simp: batch_ready_def\<close>)
  have ready': "batch_ready env T ?st" by (rule batch_ready_buffers [OF ready same])
  have events: "context_events m a = context_events (bs_contexts st) a" "context_name m a = context_name (bs_contexts st) a" for a
    using same by (simp_all add: same_buffers_def)
  have st_setup: "same_setup st ?st" by (simp add: same_setup_def)
  have none: "batch_output T accepts st [] ?st \<and> oldest_first cache (bs_contexts st) [] m"
    using events by (simp add: batch_output_def oldest_first_def by_timestamp_def)
  show ?case
  proof (cases p)
    case True
    with run none show ?thesis by (subst process_batch.simps) auto
  next
    case False
    show ?thesis
    proof (cases "\<exists>a e. selected_context m cache = Some a \<and> context_front m a = Some e")
      case False
      then have "process_lowest_timestamp_transit_event env ?st = Some (False, ?st)"
        using cache by (auto simp: process_lowest_timestamp_transit_event_def split: option.splits)
      moreover have "nothing_left m cache"
        using nothing_selected [of m cache] False by (auto simp: nothing_left_def list_all_iff split: option.splits)
      ultimately show ?thesis using run none \<open>\<not> p\<close> by (subst process_batch.simps) auto
    next
      case True
      then obtain a e where sel: "selected_context m cache = Some a" "context_front m a = Some e" by blast
      have a: "a \<in> set cache" using selected_context_result [OF sel] by auto
      have ok: "\<forall>b \<in> set cache. cached_ok m b" using ready' cache by (simp add: batch_ready_def)
      then obtain es where es: "context_events m a = e # es"
        using a sel(2) context_front_events [of m a] by (auto split: list.splits)
      have ordinary: "ordinary_event env T ?st e" using ready' a es cache by (simp add: batch_ready_def)
      obtain st2 where st2: "process_lowest_timestamp_transit_event env ?st = Some (True, st2)" "dispatch_ok env T st2" "same_setup ?st st2"
        "bw_active_thread_contexts_cache (bs_worker st2) = cache" "bs_contexts st2 = tcm_update a (pop_event (te_clean e)) m"
        "bs_world st2 = bs_world st @ event_writes T accepts ?st (fst (context_name m a)) (snd (context_name m a)) e"
        using process_lowest_step [OF rec, of T ?st a e es] ready' sel(1) es ordinary ok a cache by (auto simp: batch_ready_def)
      note pop = pop_event_events [OF ok [rule_format, OF a] es, where x = "te_clean e"]
      have ready2: "batch_ready env T st2"
        unfolding batch_ready_def
      proof (intro conjI ballI)
        show "dispatch_ok env T st2" by (rule st2(2))
        show "\<not> bo_ensure_monotonic_output_timestamps (bw_options (bs_worker st2))"
          using st2(3) ready' by (simp add: same_setup_def batch_ready_def)
        show "\<not> tcm_new_thread_context_flag (bs_contexts st2)" using st2(5) ready' by (simp add: batch_ready_def)
        fix b assume b: "b \<in> set (bw_active_thread_contexts_cache (bs_worker st2))"
        with st2(4) have b: "b \<in> set cache" by simp
        with pop(2) ok st2(5) show "cached_ok (bs_contexts st2) b" by simp
        fix e' assume "e' \<in> set (context_events (bs_contexts st2) b)"
        then have "e' \<in> set (context_events m b)" using pop(1) [of b] st2(5) es by (auto split: if_splits)
        with ready' b cache have "ordinary_event env T ?st e'" by (simp add: batch_ready_def)
        then show "ordinary_event env T st2 e'" by (rule ordinary_event_same [OF st2(3)])
      qed
      have "(\<Sum>b \<in> set cache. length (context_events (bs_contexts st2) b)) < (\<Sum>b \<in> set cache. length (context_events (bs_contexts st) b))"
        using pop(1) st2(5) events(1) es a
        by (intro sum_strict_mono_ex1) (auto intro!: bexI [of _ a])
      from less.hyps [OF this ready2 st2(4) [symmetric]] obtain st1 out where rest: "process_batch env st2 = Some st1"
        "batch_output T accepts st2 out st1" "oldest_first cache (bs_contexts st2) out (bs_contexts st1)"
        "(\<exists>st0. has_pending_events_for_caching_when_transit_event_buffer_empty st0 = (True, st1)) \<or> nothing_left (bs_contexts st1) cache"
        by blast
      have "process_batch env st = Some st1"
        using run \<open>\<not> p\<close> st2(1) rest(1) by (subst process_batch.simps) simp
      moreover have out: "batch_output T accepts ?st ((a, e) # out) st1"
        by (rule batch_output_Cons [OF _ _ st2(3), where x = "te_clean e" and es = es]) (use st2 ok a es rest(2) cache in auto)
      then have "batch_output T accepts st ((a, e) # out) st1"
        using event_writes_same [OF st_setup] events by (simp add: batch_output_def)
      moreover have "oldest_first cache m ((a, e) # out) (bs_contexts st1)"
        using rest(2,3) st2(4,5) by (intro oldest_first_Cons [OF sel(1) ok es a]) (auto simp: batch_output_def)
      then have "oldest_first cache (bs_contexts st) ((a, e) # out) (bs_contexts st1)"
        using events by (simp add: oldest_first_def)
      ultimately show ?thesis using rest(4) by blast
    qed
  qed
qed

text \<open>
  C28. A batch of ordinary statements always ends. What it wrote is a sequence of the buffered
  events: of each thread the front part of its buffer, in order, each event once to every sink that
  takes it. If the threads' buffers are ordered by timestamp, so is the whole sequence, and nothing
  left behind is older than what was written. The batch stops only because a thread with an empty
  buffer has messages in its queue, or because no event is left (save at the highest timestamp
  there is).
\<close>

theorem batch_is_a_merge:
  assumes "recording_sinks (de_sinks env) fails accepts" "batch_ready env T st"
  shows "\<exists>st1 out. process_batch env st = Some st1 \<and> batch_output T accepts st out st1
    \<and> oldest_first (bw_active_thread_contexts_cache (bs_worker st)) (bs_contexts st) out (bs_contexts st1)
    \<and> ((\<exists>st0. has_pending_events_for_caching_when_transit_event_buffer_empty st0 = (True, st1))
       \<or> nothing_left (bs_contexts st1) (bw_active_thread_contexts_cache (bs_worker st)))"
  by (rule process_batch_result [OF assms refl])

subsection \<open>Example\<close>

definition example_filled :: "transit_event \<Rightarrow> thread_context" where
  "example_filled e = (example_context BoundedDropping)\<lparr>tc_transit_event_buffer :=
     Some (snd (tb_put AllocationOk te_default id e (projr (tb_new te_default 4))))\<rparr>"

definition example_buffered :: "u64 \<Rightarrow> thread_context" where
  "example_buffered ts = example_filled (example_event ts)"

definition example_batch :: "(string, (nat \<times> log_record) list) backend_state" where
  "example_batch = example_state\<lparr>bs_worker := example_worker\<lparr>bw_active_thread_contexts_cache := [11, 12]\<rparr>,
     bs_contexts := tcm_new\<lparr>tcm_thread_contexts := [(11, example_buffered 9), (12, example_buffered 7)]\<rparr>\<rparr>"

lemma example_filled_events:
  "\<exists>b. tc_transit_event_buffer (example_filled e) = Some b \<and> tb_inv b \<and> tb_events b = [e]"
proof -
  have "\<not> isl (tb_new te_default 4)" by code_simp
  then obtain b0 where b0: "tb_new te_default 4 = Inr b0" by (cases "tb_new te_default 4") auto
  obtain r b where put: "tb_put AllocationOk te_default id e b0 = (r, b)" by fastforce
  have room: "tb_capacity b0 \<noteq> tb_size b0"
  proof -
    have "tb_capacity (projr (tb_new te_default 4)) \<noteq> tb_size (projr (tb_new te_default 4))" by code_simp
    with b0 show ?thesis by simp
  qed
  then have "r" using put by (auto simp: tb_put_def tb_back_def)
  with tbf.put_law [OF tb_new_rel [OF b0] TrueI, where outcome = AllocationOk and fresh = te_default and moved = id
      and m = e] put b0 show ?thesis
    by (auto simp: example_filled_def tb_rel_def)
qed

lemma example_buffered_events:
  "\<exists>b. tc_transit_event_buffer (example_buffered ts) = Some b \<and> tb_inv b \<and> tb_events b = [example_event ts]"
  using example_filled_events by (simp add: example_buffered_def)

lemma example_ordinary:
  assumes "0 \<le> sint ts"
  shows "ordinary_event example_dispatch_env example_text example_batch (example_event ts)"
  unfolding ordinary_event_def
  using assms example_options_text
  by (intro exI [of _ "mm_new ''a.cpp:1'' ''f'' ''hi'' None Info Log False"] exI [of _ 7] exI [of _ example_logger])
     (auto simp: example_event_def te_metadata_def mm_new_def bs_logger_def example_batch_def example_state_def example_logger_def
       statement_record_def example_worker_def default_backend_options_def default_log_level_descriptions_def
       default_log_level_short_codes_def log_level_to_string_def)

theorem batch_is_a_merge_witness:
  "\<exists>st1 out. process_batch example_dispatch_env example_batch = Some st1
    \<and> batch_output example_text (\<lambda>_ _. True) example_batch out st1 \<and> by_timestamp (map snd out)"
proof -
  have cache: "bw_active_thread_contexts_cache (bs_worker example_batch) = [11, 12]" by (simp add: example_batch_def)
  have ctx: "tcm_context (bs_contexts example_batch) 11 = Some (example_buffered 9)"
    "tcm_context (bs_contexts example_batch) 12 = Some (example_buffered 7)"
    by (simp_all add: example_batch_def tcm_context_def)
  have ev: "context_events (bs_contexts example_batch) 11 = [example_event 9]" "context_events (bs_contexts example_batch) 12 = [example_event 7]"
    "cached_ok (bs_contexts example_batch) 11" "cached_ok (bs_contexts example_batch) 12"
    using example_buffered_events [of 9] example_buffered_events [of 7] ctx by (auto simp: context_events_def cached_ok_def)
  have "dispatch_ok example_dispatch_env example_text example_batch"
    using example_dispatch_ok by (simp add: example_batch_def dispatch_ok_def)
  then have "batch_ready example_dispatch_env example_text example_batch"
    using ev example_ordinary [of 9] example_ordinary [of 7]
    by (simp add: batch_ready_def cache) (simp add: example_batch_def example_worker_def default_backend_options_def tcm_new_def)
  from batch_is_a_merge [OF example_recording this] ev show ?thesis
    by (auto simp: cache oldest_first_def list_all_iff by_timestamp_def)
qed

end
