(* ===== verification/Worker_Cleanup.thy ===== *)
theory Worker_Cleanup
  imports Worker_Order
begin

text \<open>
  Timestamps that never go back, flushes that release their caller last, and the removal of what is
  no longer needed: thread contexts and loggers leave only when nothing of them is left to write.
\<close>

subsection \<open>Output timestamps\<close>

text \<open>The timestamps the sinks see for a sequence of events.\<close>

fun output_timestamps :: "backend_worker \<Rightarrow> transit_event list \<Rightarrow> u64 list" where
  "output_timestamps w [] = []"
| "output_timestamps w (e # es) =
     (case ensure_monotonic_output_timestamp e w of (e1, w1) \<Rightarrow> te_timestamp e1 # output_timestamps w1 es)"

lemma monotonic_timestamp_bounds:
  "last_output \<le> monotonic_timestamp last_output ts" "ts \<le> monotonic_timestamp last_output ts"
  "last_output \<le> ts \<Longrightarrow> monotonic_timestamp last_output ts = ts"
proof -
  have up: "last_output \<le> last_output + 1" if "last_output \<noteq> - 1"
  proof -
    have "1 + last_output \<noteq> 0" using that by (metis add_eq_0_iff)
    from unatSuc [OF this] show ?thesis by (simp add: word_le_nat_alt add.commute)
  qed
  show lo: "last_output \<le> monotonic_timestamp last_output ts"
    using up by (simp add: monotonic_timestamp_def not_less)
  show "last_output \<le> ts \<Longrightarrow> monotonic_timestamp last_output ts = ts"
    by (simp add: monotonic_timestamp_def leD)
  show "ts \<le> monotonic_timestamp last_output ts"
  proof (cases "ts < last_output")
    case True
    with lo show ?thesis by (meson less_imp_le order_trans)
  next
    case False
    then show ?thesis by (simp add: monotonic_timestamp_def)
  qed
qed

lemma output_timestamps_Cons:
  assumes "bo_ensure_monotonic_output_timestamps (bw_options w)"
  shows "output_timestamps w (e # es) = monotonic_timestamp (bw_last_output_timestamp w) (te_timestamp e)
    # output_timestamps (w\<lparr>bw_last_output_timestamp := monotonic_timestamp (bw_last_output_timestamp w) (te_timestamp e)\<rparr>) es"
  using assms by (simp add: ensure_monotonic_output_timestamp_def Let_def)

lemma output_timestamps_sorted:
  assumes "bo_ensure_monotonic_output_timestamps (bw_options w)"
  shows "sorted (bw_last_output_timestamp w # output_timestamps w es)
    \<and> list_all2 (\<lambda>e t. te_timestamp e \<le> t) es (output_timestamps w es)
    \<and> (sorted (bw_last_output_timestamp w # map te_timestamp es) \<longrightarrow> output_timestamps w es = map te_timestamp es)"
  using assms
proof (induction es arbitrary: w)
  case (Cons e es)
  let ?t = "monotonic_timestamp (bw_last_output_timestamp w) (te_timestamp e)"
  let ?w = "w\<lparr>bw_last_output_timestamp := ?t\<rparr>"
  note bounds = monotonic_timestamp_bounds [where last_output = "bw_last_output_timestamp w" and ts = "te_timestamp e"]
  have IH: "sorted (?t # output_timestamps ?w es)" "list_all2 (\<lambda>e t. te_timestamp e \<le> t) es (output_timestamps ?w es)"
    "sorted (?t # map te_timestamp es) \<Longrightarrow> output_timestamps ?w es = map te_timestamp es"
    using Cons.IH [of ?w] Cons.prems by simp_all
  note Cons_eq = output_timestamps_Cons [OF Cons.prems, of e es]
  have lower: "sorted (bw_last_output_timestamp w # ?t # output_timestamps ?w es)"
    using IH(1) bounds(1) by (simp only: sorted2)
  have same: "?t # output_timestamps ?w es = te_timestamp e # map te_timestamp es"
    if order: "sorted (bw_last_output_timestamp w # te_timestamp e # map te_timestamp es)"
  proof -
    from order have "bw_last_output_timestamp w \<le> te_timestamp e" "sorted (te_timestamp e # map te_timestamp es)"
      by (simp_all only: sorted2)
    with bounds(3) have "?t = te_timestamp e" "sorted (?t # map te_timestamp es)"
      by (simp_all only:)
    with IH(3) show ?thesis by (simp only:)
  qed
  have above: "list_all2 (\<lambda>e t. te_timestamp e \<le> t) (e # es) (?t # output_timestamps ?w es)"
    using IH(2) bounds(2) by (simp only: list_all2_Cons simp_thms)
  show ?case
    unfolding Cons_eq list.map by (intro conjI impI) (fact lower, fact above, fact same)
qed simp



subsection \<open>Removing thread contexts\<close>

text \<open>A queue's unread messages; a context nothing is left of; a context that only had its queue read.\<close>

definition queue_holds :: "spsc_queue \<Rightarrow> bytes list \<Rightarrow> bool" where
  "queue_holds q ms \<longleftrightarrow> sq_rel q ms \<and> [] \<notin> set ms"

definition drained_context :: "thread_context \<Rightarrow> bool" where
  "drained_context tc \<longleftrightarrow> \<not> tc_valid tc \<and> buffer_is_empty tc \<and> (\<forall>ms. queue_holds (tc_spsc_queue tc) ms \<longrightarrow> ms = [])"

definition kept_context :: "thread_context \<Rightarrow> thread_context \<Rightarrow> bool" where
  "kept_context tc tc1 \<longleftrightarrow> (\<exists>q. tc1 = tc\<lparr>tc_spsc_queue := q\<rparr>
     \<and> (\<forall>ms. queue_holds (tc_spsc_queue tc) ms \<longrightarrow> queue_holds q ms))"

definition cleaned :: "thread_context_manager \<Rightarrow> thread_context_manager \<Rightarrow> bool" where
  "cleaned m m1 \<longleftrightarrow> (\<forall>a. case tcm_context m a of
       None \<Rightarrow> tcm_context m1 a = None
     | Some tc \<Rightarrow> (case tcm_context m1 a of None \<Rightarrow> drained_context tc | Some tc1 \<Rightarrow> kept_context tc tc1))"

lemma kept_contextI:
  assumes "\<And>ms. queue_holds (tc_spsc_queue tc) ms \<Longrightarrow> queue_holds q ms"
  shows "kept_context tc (tc\<lparr>tc_spsc_queue := q\<rparr>)"
  using assms unfolding kept_context_def by blast

lemma kept_contextE:
  assumes "kept_context tc tc1"
  obtains q where "tc1 = tc\<lparr>tc_spsc_queue := q\<rparr>"
    "\<And>ms. queue_holds (tc_spsc_queue tc) ms \<Longrightarrow> queue_holds q ms"
  using assms unfolding kept_context_def by blast

lemma kept_context_refl [simp]: "kept_context tc tc"
  using kept_contextI [of tc "tc_spsc_queue tc"] by simp

lemma kept_context_trans:
  assumes "kept_context a b" "kept_context b c"
  shows "kept_context a c"
proof -
  obtain q where q: "b = a\<lparr>tc_spsc_queue := q\<rparr>" "\<And>ms. queue_holds (tc_spsc_queue a) ms \<Longrightarrow> queue_holds q ms"
    using kept_contextE [OF assms(1)] by blast
  obtain r where r: "c = b\<lparr>tc_spsc_queue := r\<rparr>" "\<And>ms. queue_holds (tc_spsc_queue b) ms \<Longrightarrow> queue_holds r ms"
    using kept_contextE [OF assms(2)] by blast
  have "c = a\<lparr>tc_spsc_queue := r\<rparr>" using q(1) r(1) by simp
  moreover have "kept_context a (a\<lparr>tc_spsc_queue := r\<rparr>)"
    by (rule kept_contextI, rule r(2)) (simp add: q)
  ultimately show ?thesis by simp
qed

lemma kept_drained:
  assumes "kept_context a b" "drained_context b"
  shows "drained_context a"
proof -
  obtain q where q: "b = a\<lparr>tc_spsc_queue := q\<rparr>" "\<And>ms. queue_holds (tc_spsc_queue a) ms \<Longrightarrow> queue_holds q ms"
    using kept_contextE [OF assms(1)] by blast
  with assms(2) show ?thesis by (auto simp: drained_context_def buffer_is_empty_def)
qed

lemma cleaned_refl [simp]: "cleaned m m"
  by (auto simp: cleaned_def split: option.splits)

lemma cleaned_trans:
  assumes "cleaned a b" "cleaned b c"
  shows "cleaned a c"
  unfolding cleaned_def
proof
  fix x
  show "case tcm_context a x of None \<Rightarrow> tcm_context c x = None
    | Some tc \<Rightarrow> (case tcm_context c x of None \<Rightarrow> drained_context tc | Some tc1 \<Rightarrow> kept_context tc tc1)"
    using assms [unfolded cleaned_def, THEN spec [of _ x]]
    by (auto split: option.splits intro: kept_context_trans kept_drained)
qed

lemma fst_update_context [simp]: "map fst (update_context a f cs) = map fst cs"
  by (induction cs) (auto split: if_splits)

lemma remove_context_eq: "distinct (map fst cs) \<Longrightarrow> remove_context a cs = filter (\<lambda>c. fst c \<noteq> a) cs"
proof (induction cs)
  case (Cons c cs)
  have "filter (\<lambda>c. fst c \<noteq> a) cs = cs" if "fst c = a"
    using Cons.prems that by (intro filter_True ballI) (metis distinct.simps(2) image_eqI list.simps(9) list.set_map)
  with Cons show ?case by (cases c) auto
qed simp

definition contexts_distinct :: "thread_context_manager \<Rightarrow> bool" where
  "contexts_distinct m \<longleftrightarrow> distinct (map fst (tcm_thread_contexts m))"

lemma contexts_distinct_update [simp]: "contexts_distinct (tcm_update a f m) = contexts_distinct m"
  by (simp add: contexts_distinct_def tcm_update_def)

lemma contexts_distinct_remove [simp]:
  "contexts_distinct m \<Longrightarrow> contexts_distinct (remove_shared_invalidated_thread_context a m)"
  by (simp add: contexts_distinct_def remove_shared_invalidated_thread_context_def remove_context_eq distinct_map_filter)

lemma map_of_filter_key: "map_of (filter (\<lambda>c. fst c \<noteq> a) cs) b = (if b = a then None else map_of cs b)"
  by (induction cs) auto

lemma tcm_context_remove:
  "contexts_distinct m \<Longrightarrow>
    tcm_context (remove_shared_invalidated_thread_context a m) b = (if b = a then None else tcm_context m b)"
  by (simp add: tcm_context_def remove_shared_invalidated_thread_context_def remove_context_eq contexts_distinct_def map_of_filter_key)

text \<open>Asking a context whether it is empty changes nothing of it but the queue's cached positions.\<close>

lemma queue_and_buffer_empty_kept:
  assumes "queue_and_buffer_empty tc = (emp, tc1)"
  shows "kept_context tc tc1 \<and> (emp \<and> \<not> tc_valid tc \<longrightarrow> drained_context tc)"
proof -
  obtain e q where q: "sq_empty (tc_spsc_queue tc) = (e, q)" by force
  with assms have r: "tc1 = tc\<lparr>tc_spsc_queue := q\<rparr>" "emp \<longleftrightarrow> e \<and> buffer_is_empty tc"
    by (auto simp: queue_and_buffer_empty_def buffer_is_empty_def)
  have "queue_holds q ms" if "queue_holds (tc_spsc_queue tc) ms" for ms
    using that sq_empty_rel [of "tc_spsc_queue tc" ms] q by (simp add: queue_holds_def)
  with r have kept: "kept_context tc tc1" using kept_contextI [of tc q] by simp
  have "ms = []" if "queue_holds (tc_spsc_queue tc) ms" e for ms
    using sq_empty_exact [of "tc_spsc_queue tc" ms] that q by (auto simp: queue_holds_def)
  with r kept show ?thesis by (auto simp: drained_context_def)
qed

lemma cleaned_update:
  assumes "tcm_context m a = Some tc" "kept_context tc tc1"
  shows "cleaned m (tcm_update a (\<lambda>_. tc1) m)"
  using assms by (auto simp: cleaned_def tcm_context_update split: option.splits)

lemma cleaned_remove:
  assumes "cleaned m m1" "contexts_distinct m1" "tcm_context m a = Some tc" "drained_context tc"
  shows "cleaned m (remove_shared_invalidated_thread_context a m1)"
  unfolding cleaned_def
proof
  fix b
  show "case tcm_context m b of None \<Rightarrow> tcm_context (remove_shared_invalidated_thread_context a m1) b = None
    | Some tc \<Rightarrow> (case tcm_context (remove_shared_invalidated_thread_context a m1) b of
        None \<Rightarrow> drained_context tc | Some tc1 \<Rightarrow> kept_context tc tc1)"
    using assms(1) [unfolded cleaned_def, THEN spec [of _ b]] assms(2-4)
    by (cases "b = a") (simp_all add: tcm_context_remove split: option.splits)
qed

lemma find_invalid_and_empty_spec:
  assumes "find_invalid_and_empty cache m = (r, m1)"
  shows "cleaned m m1 \<and> (\<forall>b. tcm_context m b = None \<longleftrightarrow> tcm_context m1 b = None) \<and> contexts_distinct m1 = contexts_distinct m
    \<and> (\<forall>a. r = Some a \<longrightarrow> (\<exists>tc. tcm_context m a = Some tc \<and> drained_context tc))"
  using assms
proof (induction cache arbitrary: m)
  case (Cons a cache)
  show ?case
  proof (cases "tcm_context m a")
    case None
    with Cons.prems have "find_invalid_and_empty cache m = (r, m1)" by simp
    from Cons.IH [OF this] show ?thesis .
  next
    case (Some tc)
    obtain emp tc1 where q: "queue_and_buffer_empty tc = (emp, tc1)" by force
    let ?m = "tcm_update a (\<lambda>_. tc1) m"
    note kept = queue_and_buffer_empty_kept [OF q]
    have step: "cleaned m ?m" "\<forall>b. tcm_context m b = None \<longleftrightarrow> tcm_context ?m b = None"
      using cleaned_update [OF Some, of tc1] kept Some by (auto simp: tcm_context_update)
    consider (valid) "tc_valid tc" | (emp) "\<not> tc_valid tc" emp | (full) "\<not> tc_valid tc" "\<not> emp" by blast
    then show ?thesis
    proof cases
      case valid
      with Cons.prems Some have "find_invalid_and_empty cache m = (r, m1)" by simp
      from Cons.IH [OF this] show ?thesis .
    next
      case emp
      with Cons.prems Some q have r: "r = Some a" "m1 = ?m" by (auto simp: Let_def)
      with step Some kept emp show ?thesis by simp
    next
      case full
      with Cons.prems Some q have "find_invalid_and_empty cache ?m = (r, m1)" by (auto simp: Let_def)
      note rest = Cons.IH [OF this]
      have "cleaned m m1" using step(1) rest cleaned_trans by blast
      moreover have "\<exists>tc. tcm_context m b = Some tc \<and> drained_context tc" if b: "r = Some b" for b
      proof (cases "b = a")
        case True
        with rest b Some have "drained_context tc1" by (auto simp: tcm_context_update)
        with kept_drained kept Some True show ?thesis by blast
      next
        case False
        with rest b show ?thesis by (auto simp: tcm_context_update)
      qed
      ultimately show ?thesis using rest step(2) by simp
    qed
  qed
qed simp

lemma remove_invalid_and_empty_spec:
  assumes "remove_invalid_and_empty cache m = (cache1, m1)" "contexts_distinct m" "distinct cache"
  shows "cleaned m m1 \<and> contexts_distinct m1
    \<and> cache1 = filter (\<lambda>b. tcm_context m b = None \<or> tcm_context m1 b \<noteq> None) cache
    \<and> (\<forall>b. tcm_context m b \<noteq> None \<and> tcm_context m1 b = None \<longrightarrow> b \<in> set cache)"
  using assms
proof (induction "length cache" arbitrary: cache m rule: less_induct)
  case less
  obtain r m2 where find: "find_invalid_and_empty cache m = (r, m2)" by force
  note spec = find_invalid_and_empty_spec [OF find]
  show ?case
  proof (cases r)
    case None
    with less.prems(1) find have "cache1 = cache" "m1 = m2"
      by (simp_all add: remove_invalid_and_empty.simps [of cache])
    moreover have "filter (\<lambda>b. tcm_context m b = None \<or> tcm_context m2 b \<noteq> None) cache = cache"
      using spec by (intro filter_True) auto
    ultimately show ?thesis using spec less.prems(2) by (metis (no_types))
  next
    case (Some a)
    let ?m = "remove_shared_invalidated_thread_context a m2"
    have mem: "a \<in> set cache" using find_invalid_and_empty_mem find Some by simp
    from less.prems(1) find Some have step: "remove_invalid_and_empty (remove1 a cache) ?m = (cache1, m1)"
      by (simp add: remove_invalid_and_empty.simps [of cache])
    have dist: "contexts_distinct m2" using spec less.prems(2) by simp
    obtain tc where tc: "tcm_context m a = Some tc" "drained_context tc" using spec Some by auto
    have gone: "tcm_context ?m b = None \<longleftrightarrow> b = a \<or> tcm_context m b = None" for b
      using spec dist by (simp add: tcm_context_remove)
    have IH: "cleaned ?m m1 \<and> contexts_distinct m1
        \<and> cache1 = filter (\<lambda>b. tcm_context ?m b = None \<or> tcm_context m1 b \<noteq> None) (remove1 a cache)
        \<and> (\<forall>b. tcm_context ?m b \<noteq> None \<and> tcm_context m1 b = None \<longrightarrow> b \<in> set (remove1 a cache))"
      by (rule less.hyps [OF _ step]) (use find_invalid_and_empty_shorter find Some dist less.prems(3) in simp_all)
    have "cleaned m ?m" by (rule cleaned_remove [OF _ dist tc]) (use spec in simp)
    then have "cleaned m m1" using IH cleaned_trans by blast
    moreover have none: "tcm_context m1 a = None"
      using IH gone [of a] unfolding cleaned_def by (auto dest: HOL.spec [of _ a])
    moreover have "cache1 = filter (\<lambda>b. tcm_context m b = None \<or> tcm_context m1 b \<noteq> None) cache"
      using IH gone tc(1) none less.prems(3)
      by (auto simp: distinct_remove1_removeAll removeAll_filter_not_eq intro!: filter_cong)
    moreover have "b \<in> set cache" if "tcm_context m b \<noteq> None" "tcm_context m1 b = None" for b
      using IH gone [of b] mem that by (cases "b = a") (auto dest: notin_set_remove1)
    ultimately show ?thesis using IH by simp
  qed
qed

text \<open>
  C30. Clearing away the contexts of finished threads loses nothing: the contexts removed are of
  threads that ended, with an empty buffer and no message in their queue; every other context keeps
  its buffer and its messages; and the backend's cache loses exactly the contexts removed.
\<close>

theorem contexts_removed_are_drained:
  assumes "distinct (map fst (tcm_thread_contexts (bs_contexts st)))"
    and "distinct (bw_active_thread_contexts_cache (bs_worker st))"
  shows "let st1 = cleanup_invalidated_thread_contexts st
    in cleaned (bs_contexts st) (bs_contexts st1)
      \<and> bw_active_thread_contexts_cache (bs_worker st1) =
          filter (\<lambda>b. tcm_context (bs_contexts st) b = None \<or> tcm_context (bs_contexts st1) b \<noteq> None)
            (bw_active_thread_contexts_cache (bs_worker st))"
proof -
  have same: "filter (\<lambda>b. tcm_context m b = None \<or> (\<exists>y. tcm_context m b = Some y)) xs = xs" for m xs
    by (rule filter_True) auto
  show ?thesis
    using remove_invalid_and_empty_spec [of "bw_active_thread_contexts_cache (bs_worker st)" "bs_contexts st"] assms
    by (auto simp: cleanup_invalidated_thread_contexts_def contexts_distinct_def same Let_def split: prod.splits)
qed

subsection \<open>Removing loggers\<close>

text \<open>A thread's messages the backend has not written: unread in its queue, or in its buffer.\<close>

definition unwritten :: "thread_context \<Rightarrow> bool" where
  "unwritten tc \<longleftrightarrow> \<not> buffer_is_empty tc \<or> (\<exists>ms. queue_holds (tc_spsc_queue tc) ms \<and> ms \<noteq> [])"

lemma unwritten_kept: "kept_context tc tc1 \<Longrightarrow> unwritten tc \<Longrightarrow> unwritten tc1"
  by (elim kept_contextE) (auto simp: unwritten_def buffer_is_empty_def)

text \<open>The backend knows of the context, or learns of it when it next updates its cache.\<close>

definition waits :: "nat \<Rightarrow> ('spec, 'x) backend_state \<Rightarrow> bool" where
  "waits a st \<longleftrightarrow> (\<exists>tc. tcm_context (bs_contexts st) a = Some tc \<and> unwritten tc)
     \<and> (tcm_new_thread_context_flag (bs_contexts st) \<or> a \<in> set (bw_active_thread_contexts_cache (bs_worker st)))"

lemma for_each_pure:
  "for_each_thread_context (\<lambda>addr tc cache. (f tc, cache @ [addr])) m xs =
    (m\<lparr>tcm_thread_contexts := map (\<lambda>(addr, tc). (addr, f tc)) (tcm_thread_contexts m)\<rparr>, xs @ map fst (tcm_thread_contexts m))"
proof -
  have "fold (\<lambda>(addr, tc) (dn, s). case (f tc, s @ [addr]) of (tc', s') \<Rightarrow> (dn @ [(addr, tc')], s')) cs (ys, xs) =
      (ys @ map (\<lambda>(addr, tc). (addr, f tc)) cs, xs @ map fst cs)" for cs ys
    by (induction cs arbitrary: ys xs) auto
  from this [of "tcm_thread_contexts m" "[]"] show ?thesis
    by (simp add: for_each_thread_context_def)
qed

lemma map_of_map_second: "map_of (map (\<lambda>(a, c). (a, f c)) cs) b = map_option f (map_of cs b)"
  by (induction cs) auto

lemma unwritten_ensure: "unwritten tc \<Longrightarrow> unwritten (ensure_transit_event_buffer options tc)"
  by (auto simp: unwritten_def buffer_is_empty_def ensure_transit_event_buffer_def split: option.splits)

lemma update_cache_waits:
  assumes "waits a st"
  shows "let st1 = update_active_thread_contexts_cache False st
    in waits a st1 \<and> a \<in> set (bw_active_thread_contexts_cache (bs_worker st1))"
proof (cases "tcm_new_thread_context_flag (bs_contexts st)")
  case True
  obtain tc where tc: "tcm_context (bs_contexts st) a = Some tc" "unwritten tc"
    using assms by (auto simp: waits_def)
  then have "a \<in> fst ` set (tcm_thread_contexts (bs_contexts st))"
    by (auto simp: tcm_context_def dest: map_of_SomeD intro: rev_image_eqI)
  with True tc unwritten_ensure [OF tc(2)] show ?thesis
    by (simp add: update_active_thread_contexts_cache_def new_thread_context_flag_def for_each_pure waits_def
        tcm_context_def map_of_map_second)
next
  case False
  with assms show ?thesis
    by (simp add: update_active_thread_contexts_cache_def new_thread_context_flag_def waits_def)
qed

lemma context_queue_empty_spec:
  assumes "context_queue_empty a tc m = (emp, m1)" "tcm_context m a = Some tc"
  shows "(\<exists>tc1. m1 = tcm_update a (\<lambda>_. tc1) m \<and> kept_context tc tc1) \<and> (unwritten tc \<longrightarrow> \<not> (emp \<and> buffer_is_empty tc))"
proof -
  obtain e q where q: "sq_empty (tc_spsc_queue tc) = (e, q)" by force
  have up: "update_context a f cs = update_context a (\<lambda>_. f tc) cs" if "map_of cs a = Some tc" for f :: "thread_context \<Rightarrow> _" and cs
    using that by (induction cs) (auto split: if_splits)
  have "m1 = tcm_update a (\<lambda>_. tc\<lparr>tc_spsc_queue := q\<rparr>) m" "emp = e"
    using assms q up [of "tcm_thread_contexts m"] by (auto simp: context_queue_empty_def tcm_update_def tcm_context_def)
  moreover have "queue_and_buffer_empty tc = (e \<and> buffer_is_empty tc, tc\<lparr>tc_spsc_queue := q\<rparr>)"
    using q by (simp add: queue_and_buffer_empty_def buffer_is_empty_def)
  note kept = queue_and_buffer_empty_kept [OF this]
  moreover have "\<not> (e \<and> buffer_is_empty tc)" if left: "unwritten tc"
  proof
    assume e: "e \<and> buffer_is_empty tc"
    then obtain ms where "queue_holds (tc_spsc_queue tc) ms" "ms \<noteq> []" using left by (auto simp: unwritten_def)
    with e q sq_empty_exact [of "tc_spsc_queue tc" ms] show False by (auto simp: queue_holds_def)
  qed
  ultimately show ?thesis by blast
qed

lemma all_empty_false:
  assumes "all_queues_and_buffers_empty cache all_empty m = (emp, m1)" "tcm_context m a = Some tc" "unwritten tc"
  shows "(a \<in> set cache \<or> \<not> all_empty \<longrightarrow> \<not> emp) \<and> (\<exists>tc1. tcm_context m1 a = Some tc1 \<and> unwritten tc1)
    \<and> tcm_new_thread_context_flag m1 = tcm_new_thread_context_flag m"
  using assms
proof (induction cache arbitrary: all_empty m tc)
  case (Cons b cache)
  show ?case
  proof (cases "tcm_context m b")
    case None
    with Cons.prems Cons.IH show ?thesis by (auto dest: sym)
  next
    case (Some tcb)
    obtain e m2 where step: "context_queue_empty b tcb m = (e, m2)" by force
    obtain tc1 where m2: "m2 = tcm_update b (\<lambda>_. tc1) m" "kept_context tcb tc1" "unwritten tcb \<longrightarrow> \<not> (e \<and> buffer_is_empty tcb)"
      using context_queue_empty_spec [OF step Some] by blast
    obtain tc2 where tc2: "tcm_context m2 a = Some tc2" "unwritten tc2"
      using m2 Cons.prems(2,3) Some unwritten_kept by (cases "a = b") (auto simp: tcm_context_update)
    have run: "all_queues_and_buffers_empty cache (all_empty \<and> e \<and> buffer_is_empty tcb) m2 = (emp, m1)"
      using Cons.prems(1) Some step by simp
    from Cons.IH [OF run tc2] m2 Cons.prems(2,3) Some show ?thesis by auto
  qed
qed auto

lemma check_empty_frame:
  assumes "check_frontend_queues_and_cached_transit_events_empty st = (emp, st1)"
  shows "bs_loggers st1 = bs_loggers st \<and> bs_removal_flags st1 = bs_removal_flags st
    \<and> bw_logger_removal_flags (bs_worker st1) = bw_logger_removal_flags (bs_worker st)"
  using assms
  by (auto simp: check_frontend_queues_and_cached_transit_events_empty_def update_active_thread_contexts_cache_def
      Let_def split: prod.splits if_splits)

lemma check_empty_false:
  assumes "check_frontend_queues_and_cached_transit_events_empty st = (emp, st1)" "waits a st"
  shows "\<not> emp \<and> waits a st1"
proof -
  let ?st = "update_active_thread_contexts_cache False st"
  have up: "waits a ?st" "a \<in> set (bw_active_thread_contexts_cache (bs_worker ?st))"
    using update_cache_waits [OF assms(2)] by (simp_all add: Let_def)
  then obtain tc where tc: "tcm_context (bs_contexts ?st) a = Some tc" "unwritten tc" by (auto simp: waits_def)
  obtain m where run: "all_queues_and_buffers_empty (bw_active_thread_contexts_cache (bs_worker ?st)) True (bs_contexts ?st) = (emp, m)"
    "st1 = ?st\<lparr>bs_contexts := m\<rparr>"
    using assms(1) by (auto simp: check_frontend_queues_and_cached_transit_events_empty_def Let_def split: prod.splits)
  from all_empty_false [OF run(1) tc] up run(2) show ?thesis by (auto simp: waits_def)
qed

lemma cleanup_loop_waits:
  assumes "cleanup_loop check_frontend_queues_and_cached_transit_events_empty ls st = (kept, removed, again, st1)" "waits a st"
  shows "kept = ls \<and> removed = [] \<and> waits a st1"
  using assms
proof (induction ls arbitrary: st kept removed again st1)
  case (Cons x ls)
  obtain b lg where x: "x = (b, lg)" by (cases x) auto
  obtain emp s where c: "check_frontend_queues_and_cached_transit_events_empty st = (emp, s)" by force
  note cf = check_empty_false [OF c Cons.prems(2)]
  let ?s = "if lb_valid lg then st else s"
  obtain k r ag s1 where rest: "cleanup_loop check_frontend_queues_and_cached_transit_events_empty ls ?s = (k, r, ag, s1)"
    by (metis prod_cases4)
  have "waits a ?s" using cf Cons.prems(2) by simp
  from Cons.IH [OF rest this] Cons.prems(1) x c cf rest show ?case by (auto split: if_splits)
qed simp

lemma cleanup_loop_frame:
  assumes "cleanup_loop check_frontend_queues_and_cached_transit_events_empty ls st = (kept, removed, again, st1)"
  shows "bs_removal_flags st1 = bs_removal_flags st
    \<and> bw_logger_removal_flags (bs_worker st1) = bw_logger_removal_flags (bs_worker st)"
  using assms
proof (induction ls arbitrary: st kept removed again st1)
  case (Cons x ls)
  obtain b lg where x: "x = (b, lg)" by (cases x) auto
  obtain emp s where c: "check_frontend_queues_and_cached_transit_events_empty st = (emp, s)" by force
  let ?s = "if lb_valid lg then st else s"
  obtain k r ag s1 where rest: "cleanup_loop check_frontend_queues_and_cached_transit_events_empty ls ?s = (k, r, ag, s1)"
    by (metis prod_cases4)
  have "s1 = st1" using Cons.prems x c rest by (auto split: if_splits bool.splits)
  with Cons.IH [OF rest] check_empty_frame [OF c] show ?case by (auto split: if_splits)
qed simp

lemma map_filter_agree: "(\<And>x. x \<in> set xs \<Longrightarrow> f x = g x) \<Longrightarrow> List.map_filter f xs = List.map_filter g xs"
  by (induction xs) (simp_all add: map_filter_simps split: option.splits)

lemma notify_removals:
  assumes "distinct names"
  shows "bs_removal_flags (fold notify_removal names st) =
      bs_removal_flags st @ List.map_filter (bw_logger_removal_flags (bs_worker st)) names
    \<and> bs_loggers (fold notify_removal names st) = bs_loggers st"
  using assms
proof (induction names arbitrary: st)
  case (Cons nm names)
  let ?st = "notify_removal nm st"
  have step: "bs_removal_flags ?st = bs_removal_flags st @ List.map_filter (bw_logger_removal_flags (bs_worker st)) [nm]"
    "bs_loggers ?st = bs_loggers st"
    "n \<noteq> nm \<Longrightarrow> bw_logger_removal_flags (bs_worker ?st) n = bw_logger_removal_flags (bs_worker st) n" for n
    by (auto simp: notify_removal_def map_filter_simps split: option.splits)
  have "List.map_filter (bw_logger_removal_flags (bs_worker ?st)) names
      = List.map_filter (bw_logger_removal_flags (bs_worker st)) names"
    by (rule map_filter_agree, rule step(3)) (use Cons.prems in auto)
  with Cons step show ?case by (simp add: map_filter_simps split: option.splits)
qed (simp add: map_filter_simps)

lemma cleanup_loop_names:
  assumes "cleanup_loop check ls s = (kept, removed, again, s1)"
  shows "set removed \<subseteq> logger_key ` set ls \<and> (distinct (logger_names ls) \<longrightarrow> distinct removed)"
  using assms
proof (induction ls arbitrary: s kept removed again s1)
  case (Cons x ls)
  obtain a lg where x: "x = (a, lg)" by (cases x) auto
  obtain s2 k r ag where rest: "cleanup_loop check ls s2 = (k, r, ag, s1)"
    and pick: "removed = r \<or> removed = lb_logger_name lg # r"
    using Cons.prems x by (auto split: if_splits prod.splits bool.splits)
  from Cons.IH [OF rest] pick x show ?case by auto
qed simp

lemma notify_removal_loggers: "bs_loggers (fold notify_removal names st) = bs_loggers st"
  by (rule fold_invariant [where Q = "\<lambda>_. True" and P = "\<lambda>s. bs_loggers s = bs_loggers st"])
    (simp_all add: notify_removal_def split: option.splits)

lemma notify_removal_agree:
  assumes "bs_removal_flags t = bs_removal_flags u" "bw_logger_removal_flags (bs_worker t) = bw_logger_removal_flags (bs_worker u)"
  shows "bs_removal_flags (fold notify_removal names t) = bs_removal_flags (fold notify_removal names u)"
  using assms
proof (induction names arbitrary: t u)
  case (Cons nm names)
  have "bs_removal_flags (notify_removal nm t) = bs_removal_flags (notify_removal nm u)"
    "bw_logger_removal_flags (bs_worker (notify_removal nm t)) = bw_logger_removal_flags (bs_worker (notify_removal nm u))"
    using Cons.prems by (cases "bw_logger_removal_flags (bs_worker u) nm"; simp add: notify_removal_def)+
  from Cons.IH [OF this] show ?case by simp
qed simp

lemma cleanup_loggers_cases:
  assumes "bw_removed_loggers (bs_worker st) = []"
  shows "cleanup_loggers env st = st
    \<or> (\<exists>kept removed again st1. cleanup_loop check_frontend_queues_and_cached_transit_events_empty (lm_loggers (bs_loggers st)) st
          = (kept, removed, again, st1)
        \<and> lm_loggers (bs_loggers (cleanup_loggers env st)) = kept
        \<and> bs_removal_flags (cleanup_loggers env st) = bs_removal_flags (fold notify_removal removed st1))"
proof (cases "lm_has_invalidated_loggers (bs_loggers st)")
  case False
  with assms have "cleanup_loggers env st = st"
    by (simp add: cleanup_loggers_def cleanup_invalidated_loggers_def)
  then show ?thesis ..
next
  case True
  obtain kept removed again st1 where run: "cleanup_loop check_frontend_queues_and_cached_transit_events_empty
      (lm_loggers (bs_loggers st)) st = (kept, removed, again, st1)" by (metis prod_cases4)
  show ?thesis
  proof (intro disjI2 exI conjI)
    show "lm_loggers (bs_loggers (cleanup_loggers env st)) = kept"
      using True run assms by (simp add: cleanup_loggers_def cleanup_invalidated_loggers_def cleanup_marked_loggers_def Let_def notify_removal_loggers)
    show "bs_removal_flags (cleanup_loggers env st) = bs_removal_flags (fold notify_removal removed st1)"
      using True run assms
      by (simp add: cleanup_loggers_def cleanup_invalidated_loggers_def cleanup_marked_loggers_def Let_def) (intro impI notify_removal_agree; simp)
  qed (fact run)
qed

text \<open>
  C31. A logger marked for removal goes only when nothing is left to write: while a message waits in
  any thread's queue or buffer, no logger is removed and no thread that waits for a removal is
  released. Otherwise only invalid loggers go, every valid logger stays, and exactly the threads that
  wait for one of the removed loggers are released, each once.
\<close>

theorem loggers_are_removed_when_drained:
  assumes "lm_wf (bs_loggers st)" "bw_removed_loggers (bs_worker st) = []"
  shows "let st1 = cleanup_loggers env st; before = lm_loggers (bs_loggers st); after = lm_loggers (bs_loggers st1)
    in set after \<subseteq> set before \<and> (\<forall>x \<in> set before. lb_valid (snd x) \<longrightarrow> x \<in> set after)
      \<and> ((\<exists>a. waits a st) \<longrightarrow> after = before \<and> bs_removal_flags st1 = bs_removal_flags st)
      \<and> (\<exists>names. distinct names \<and> set names = lb_logger_name ` snd ` (set before - set after)
          \<and> bs_removal_flags st1 = bs_removal_flags st @ List.map_filter (bw_logger_removal_flags (bs_worker st)) names)"
  using cleanup_loggers_cases [OF assms(2), of env]
proof (elim disjE exE conjE)
  assume "cleanup_loggers env st = st"
  then show ?thesis by (simp add: Let_def map_filter_simps)
next
  fix kept removed again st1
  assume run: "cleanup_loop check_frontend_queues_and_cached_transit_events_empty (lm_loggers (bs_loggers st)) st
      = (kept, removed, again, st1)"
    and kept: "lm_loggers (bs_loggers (cleanup_loggers env st)) = kept"
    and flags: "bs_removal_flags (cleanup_loggers env st) = bs_removal_flags (fold notify_removal removed st1)"
  have wf: "ascending logger_key (lm_loggers (bs_loggers st))" "distinct (map fst (lm_loggers (bs_loggers st)))"
    using assms(1) by (simp_all add: lm_wf_def)
  note result = cleanup_loop_result [OF run wf]
  have dist: "distinct removed" using cleanup_loop_names [OF run] wf(1) by (simp add: ascending_def strict_sorted_iff)
  have released: "bs_removal_flags (cleanup_loggers env st)
      = bs_removal_flags st @ List.map_filter (bw_logger_removal_flags (bs_worker st)) removed"
    using flags notify_removals [OF dist, of st1] cleanup_loop_frame [OF run] by simp
  have "kept = lm_loggers (bs_loggers st) \<and> removed = []" if "waits a st" for a
    using cleanup_loop_waits [OF run that] by simp
  with result kept released dist show ?thesis
    unfolding Let_def by (intro conjI exI [of _ removed]) (auto simp: map_filter_simps)
qed

subsection \<open>Flushing\<close>

text \<open>The outside world after the sinks were flushed in order, and whether a sink threw.\<close>

fun flush_all :: "'x sink_env \<Rightarrow> sink_flush_reason \<Rightarrow> nat list \<Rightarrow> 'x \<Rightarrow> 'x" where
  "flush_all env reason [] x = x"
| "flush_all env reason (a # sinks) x = flush_all env reason sinks (snd (sx_flush_sink env a reason x))"

lemma caught_call_frame:
  "bs_world (caught_call env call st) = snd (call (bs_world st)) \<and> bs_flush_flags (caught_call env call st) = bs_flush_flags st
    \<and> bs_contexts (caught_call env call st) = bs_contexts st \<and> bs_loggers (caught_call env call st) = bs_loggers st"
  by (auto simp: caught_call_def bs_report_def split: prod.splits option.splits)

lemma caught_call_cache:
  "bw_active_thread_contexts_cache (bs_worker (caught_call env call st)) = bw_active_thread_contexts_cache (bs_worker st)"
  by (simp add: caught_call_def bs_report_def bw_notify_error_def split: prod.splits option.splits)

lemma flush_and_run_flushes:
  "bs_world (flush_and_run env True False reason sinks st) = flush_all (de_sinks env) reason sinks (bs_world st)
    \<and> bs_flush_flags (flush_and_run env True False reason sinks st) = bs_flush_flags st
    \<and> bs_contexts (flush_and_run env True False reason sinks st) = bs_contexts st
    \<and> bw_active_thread_contexts_cache (bs_worker (flush_and_run env True False reason sinks st)) = bw_active_thread_contexts_cache (bs_worker st)"
  by (induction sinks arbitrary: st) (simp_all add: Let_def caught_call_frame caught_call_cache)

lemma add_sinks:
  "distinct cache \<Longrightarrow> distinct (fold (\<lambda>a cache. if a \<in> set cache then cache else cache @ [a]) sinks cache)
    \<and> set (fold (\<lambda>a cache. if a \<in> set cache then cache else cache @ [a]) sinks cache) = set cache \<union> set sinks"
  by (induction sinks arbitrary: cache) auto

lemma active_sinks_spec:
  "distinct (active_sinks m) \<and> set (active_sinks m) = (\<Union>x \<in> {x \<in> set (lm_loggers m). lb_valid (snd x)}. set (lb_sinks (snd x)))"
proof -
  define cb where "cb = (\<lambda>(_::nat) (lg::logger) cache. (False,
    if lb_valid lg then fold (\<lambda>a cache. if a \<in> set cache then cache else cache @ [a]) (lb_sinks lg) cache else cache))"
  have "distinct (for_each_logger cb ls cache) \<and> set (for_each_logger cb ls cache)
      = set cache \<union> (\<Union>x \<in> {x \<in> set ls. lb_valid (snd x)}. set (lb_sinks (snd x)))" if "distinct cache" for ls cache
    using that
  proof (induction ls arbitrary: cache)
    case (Cons x ls)
    obtain a lg where x: "x = (a, lg)" by (cases x) auto
    obtain cache1 where c: "cb a lg cache = (False, cache1)" "distinct cache1"
      "set cache1 = set cache \<union> (if lb_valid lg then set (lb_sinks lg) else {})"
      using add_sinks [OF Cons.prems, of "lb_sinks lg"] Cons.prems by (simp add: cb_def)
    from Cons.IH [OF c(2)] c x show ?case by auto
  qed simp
  from this [of "[]" "lm_loggers m"] show ?thesis by (simp add: active_sinks_def cb_def)
qed

lemma cleanup_contexts_frame:
  "bs_world (cleanup_invalidated_thread_contexts st) = bs_world st
    \<and> bs_flush_flags (cleanup_invalidated_thread_contexts st) = bs_flush_flags st"
  by (simp add: cleanup_invalidated_thread_contexts_def split: prod.splits)

text \<open>The contexts a clean-up leaves depend on the contexts and the worker's cache of them only.\<close>

lemma cleanup_contexts_cong:
  assumes "bs_contexts st = bs_contexts st'"
    and "bw_active_thread_contexts_cache (bs_worker st) = bw_active_thread_contexts_cache (bs_worker st')"
  shows "bs_contexts (cleanup_invalidated_thread_contexts st) = bs_contexts (cleanup_invalidated_thread_contexts st')"
  using assms by (simp add: cleanup_invalidated_thread_contexts_def split: prod.splits)


subsection \<open>Examples\<close>

definition example_cleanup :: "(string, (nat \<times> log_record) list) backend_state" where
  "example_cleanup = example_state\<lparr>bs_worker := example_worker\<lparr>bw_active_thread_contexts_cache := [11, 12]\<rparr>,
     bs_contexts := scoped_thread_context_destroy 11
       (tcm_new\<lparr>tcm_thread_contexts := [(11, example_context BoundedDropping), (12, example_buffered 7)]\<rparr>),
     bs_loggers := lm_new\<lparr>lm_loggers := [(7, lg_mark_invalid example_logger)], lm_has_invalidated_loggers := True\<rparr>\<rparr>"

theorem contexts_removed_are_drained_witness:
  "cleaned (bs_contexts example_cleanup) (bs_contexts (cleanup_invalidated_thread_contexts example_cleanup))"
  using contexts_removed_are_drained [of example_cleanup]
  by (simp add: example_cleanup_def scoped_thread_context_destroy_def add_invalid_thread_context_def tcm_update_def tcm_new_def Let_def)

theorem loggers_are_removed_when_drained_witness:
  "lm_loggers (bs_loggers (cleanup_loggers example_dispatch_env example_cleanup)) = [(7, lg_mark_invalid example_logger)]"
proof -
  obtain b where b: "tc_transit_event_buffer (example_buffered 7) = Some b" "tb_inv b" "tb_events b = [example_event 7]"
    using example_buffered_events by blast
  then have "tb_front b = Some (example_event 7)" using front_events [of b] by simp
  then have "\<not> tb_empty b" by (auto simp: tb_front_def tb_empty_def split: if_splits)
  then have "waits 12 example_cleanup"
    using b by (auto simp: waits_def example_cleanup_def tcm_context_def scoped_thread_context_destroy_def tcm_update_def
        add_invalid_thread_context_def tcm_new_def unwritten_def buffer_is_empty_def)
  moreover have "lm_wf (bs_loggers example_cleanup)" "bw_removed_loggers (bs_worker example_cleanup) = []"
    by (simp_all add: example_cleanup_def lm_wf_def lm_new_def ascending_def example_worker_def)
  note loggers_are_removed_when_drained [OF this, of example_dispatch_env]
  ultimately show ?thesis by (auto simp: Let_def) (simp add: example_cleanup_def)
qed

definition example_flush_event :: transit_event where
  "example_flush_event = te_default\<lparr>te_timestamp := 8, te_logger_base := Some 7, te_event_payload := FlushFlag (Some 3),
     te_macro_metadata := StaticMetadata (mm_new [] [] [] None Critical Flush False)\<rparr>"

definition example_flush :: "(string, (nat \<times> log_record) list) backend_state" where
  "example_flush = example_state\<lparr>bs_worker := example_worker\<lparr>bw_active_thread_contexts_cache := [11]\<rparr>,
     bs_contexts := tcm_new\<lparr>tcm_thread_contexts := [(11, example_filled example_flush_event)]\<rparr>\<rparr>"


end
