(* ===== verification/Rotation_Name.thy ===== *)
theory Rotation_Name
  imports Std_String
begin

text \<open>
  The names of rotated log files, from \<^verbatim>\<open>quill/sinks/RotatingSink.h\<close> and
  \<^verbatim>\<open>quill/sinks/FileSink.h\<close>, with the parts of \<^verbatim>\<open>std::filesystem::path\<close> they use, on POSIX paths. A
  rotated file has an index, a date, or both, between its stem and its extension; on start the names
  found in the directory are parsed back.
\<close>

subsection \<open>Paths\<close>

definition path_filename :: "string \<Rightarrow> string" where
  "path_filename p = rev (takeWhile (\<lambda>c. c \<noteq> CHR ''/'') (rev p))"

definition path_directory :: "string \<Rightarrow> string" where
  "path_directory p = take (length p - length (path_filename p)) p"

text \<open>\<^verbatim>\<open>parent_path\<close> drops the separators at the end, unless nothing else is left.\<close>

definition parent_path :: "string \<Rightarrow> string" where
  "parent_path p =
     (let d = path_directory p; t = rev (dropWhile (\<lambda>c. c = CHR ''/'') (rev d))
      in if d = [] then [] else if t = [] then ''/'' else t)"

definition path_join :: "string \<Rightarrow> string \<Rightarrow> string" where
  "path_join q s = (if q = [] then s else if last q = CHR ''/'' then q @ s else q @ ''/'' @ s)"

text \<open>The last dot starts the extension, unless it is the first character; \<open>.\<close> and \<open>..\<close> have none.\<close>

definition stem_extension :: "string \<Rightarrow> string \<times> string" where
  "stem_extension s =
     (if s = ''.'' \<or> s = ''..'' then (s, [])
      else case rfind_char CHR ''.'' s of
        None \<Rightarrow> (s, [])
      | Some i \<Rightarrow> if i = 0 then (s, []) else (take i s, drop i s))"

definition extract_stem_and_extension :: "string \<Rightarrow> string \<times> string" where
  "extract_stem_and_extension p =
     (case stem_extension (path_filename p) of (stem, ext) \<Rightarrow> (path_join (parent_path p) stem, ext))"

subsection \<open>Names of rotated files\<close>

definition append_index_to_filename :: "string \<Rightarrow> u32 \<Rightarrow> string" where
  "append_index_to_filename p index =
     (if index = 0 then p
      else case extract_stem_and_extension p of (stem, ext) \<Rightarrow> stem @ ''.'' @ to_string (unat index) @ ext)"

definition append_string_to_filename :: "string \<Rightarrow> string \<Rightarrow> string" where
  "append_string_to_filename p t =
     (if t = [] then p
      else case extract_stem_and_extension p of (stem, ext) \<Rightarrow> stem @ ''.'' @ t @ ext)"

definition get_filename :: "string \<Rightarrow> u32 \<Rightarrow> string \<Rightarrow> string" where
  "get_filename p index date_time =
     (let p1 = (if date_time \<noteq> [] then append_string_to_filename p date_time else p)
      in if index > 0 then append_index_to_filename p1 index else p1)"

subsection \<open>Parsing them\<close>

datatype rotation_naming_scheme = Index | Date | DateAndTime

fun parse_uint32_loop :: "nat \<Rightarrow> string \<Rightarrow> u32 option" where
  "parse_uint32_loop parsed [] = Some (of_nat parsed)"
| "parse_uint32_loop parsed (c # s) =
     (if \<not> is_digit c then None
      else let p = parsed * 10 + digit_value c in if p \<ge> 2 ^ 32 then None else parse_uint32_loop p s)"

definition parse_uint32 :: "string \<Rightarrow> u32 option" where
  "parse_uint32 s = (if s = [] then None else parse_uint32_loop 0 s)"

definition is_date :: "string \<Rightarrow> bool" where
  "is_date s \<longleftrightarrow> length s = 8 \<and> parse_uint32 s \<noteq> None"

definition is_date_time :: "string \<Rightarrow> bool" where
  "is_date_time s \<longleftrightarrow> length s = 15 \<and> s ! 8 = CHR ''_'' \<and> parse_uint32 (take 8 s) \<noteq> None \<and> parse_uint32 (drop 9 s) \<noteq> None"

text \<open>What is in front of the first dot, and behind it.\<close>

definition split_dot :: "string \<Rightarrow> string \<times> string option" where
  "split_dot s =
     (takeWhile (\<lambda>c. c \<noteq> CHR ''.'') s, case dropWhile (\<lambda>c. c \<noteq> CHR ''.'') s of [] \<Rightarrow> None | _ # rest \<Rightarrow> Some rest)"

text \<open>
  A suffix with a date. Without an extension the date was taken for one when the index was
  appended, so the index comes first.
\<close>

definition parse_dated_suffix :: "(string \<Rightarrow> bool) \<Rightarrow> bool \<Rightarrow> string \<Rightarrow> (u32 \<times> string) option" where
  "parse_dated_suffix date_ok no_extension s =
     (case split_dot s of
        (date_part, rest) \<Rightarrow>
          if \<not> date_ok date_part then
            (case rest of
               Some date_part1 \<Rightarrow>
                 if no_extension \<and> CHR ''.'' \<notin> set date_part1
                 then (case parse_uint32 date_part of
                         Some index \<Rightarrow> if date_ok date_part1 then Some (index, date_part1) else None
                       | None \<Rightarrow> None)
                 else None
             | None \<Rightarrow> None)
          else
            (case rest of
               None \<Rightarrow> Some (0, date_part)
             | Some index_part \<Rightarrow>
                 if CHR ''.'' \<in> set index_part then None
                 else map_option (\<lambda>index. (index, date_part)) (parse_uint32 index_part)))"

definition try_parse_rotated_file :: "rotation_naming_scheme \<Rightarrow> string \<Rightarrow> string \<Rightarrow> (u32 \<times> string) option" where
  "try_parse_rotated_file scheme base_filename candidate_filename =
     (case stem_extension (path_filename base_filename) of
        (base_stem, base_extension) \<Rightarrow>
          let candidate_name = path_filename candidate_filename;
              n = length candidate_name - length base_extension
          in if base_extension \<noteq> [] \<and> (length candidate_name \<le> length base_extension \<or> drop n candidate_name \<noteq> base_extension)
             then None
             else let candidate_stem = (if base_extension \<noteq> [] then take n candidate_name else candidate_name)
               in if length candidate_stem \<le> length base_stem + 1 \<or> take (length base_stem) candidate_stem \<noteq> base_stem
                     \<or> candidate_stem ! length base_stem \<noteq> CHR ''.''
                  then None
                  else let sfx = drop (length base_stem + 1) candidate_stem
                    in case scheme of
                         Index \<Rightarrow> map_option (\<lambda>index. (index, [])) (parse_uint32 sfx)
                       | Date \<Rightarrow> parse_dated_suffix is_date (base_extension = []) sfx
                       | DateAndTime \<Rightarrow> parse_dated_suffix is_date_time (base_extension = []) sfx)"

subsection \<open>Paths taken apart\<close>

text \<open>A directory as it stands in a normalised path.\<close>

definition directory_ok :: "string \<Rightarrow> bool" where
  "directory_ok d \<longleftrightarrow> d = [] \<or> d = ''/'' \<or> (\<exists>q c. d = q @ [c, CHR ''/''] \<and> c \<noteq> CHR ''/'')"

definition name_ok :: "string \<Rightarrow> bool" where
  "name_ok s \<longleftrightarrow> s \<noteq> [] \<and> s \<noteq> ''.'' \<and> s \<noteq> ''..'' \<and> CHR ''/'' \<notin> set s"

definition path_ok :: "string \<Rightarrow> bool" where
  "path_ok p \<longleftrightarrow> directory_ok (path_directory p) \<and> name_ok (path_filename p)"

lemma path_split: "p = path_directory p @ path_filename p"
proof -
  let ?P = "\<lambda>c. c \<noteq> CHR ''/''"
  have "rev (rev p) = rev (dropWhile ?P (rev p)) @ rev (takeWhile ?P (rev p))"
    by (simp only: rev_append [symmetric] takeWhile_dropWhile_id)
  then have split: "p = rev (dropWhile ?P (rev p)) @ path_filename p" by (simp only: path_filename_def rev_rev_ident)
  then have "length (rev (dropWhile ?P (rev p))) = length p - length (path_filename p)"
    by (metis add_diff_cancel_right' length_append)
  with split show ?thesis unfolding path_directory_def by (metis append_eq_conv_conj)
qed

lemma directory_cases:
  assumes "directory_ok d"
  obtains "d = []" | "d = ''/''" | q c where "d = q @ [c, CHR ''/'']" "c \<noteq> CHR ''/''"
  using assms unfolding directory_ok_def by blast

lemma last_of_directory: "directory_ok d \<Longrightarrow> d \<noteq> [] \<Longrightarrow> \<exists>q. d = q @ ''/''"
  by (erule directory_cases) auto

lemma path_parts:
  assumes "directory_ok d" "CHR ''/'' \<notin> set s"
  shows "path_filename (d @ s) = s" "path_directory (d @ s) = d"
proof -
  have "takeWhile (\<lambda>c. c \<noteq> CHR ''/'') (rev s @ t) = rev s @ takeWhile (\<lambda>c. c \<noteq> CHR ''/'') t" for t
    using assms(2) by (intro takeWhile_append2) auto
  moreover have "takeWhile (\<lambda>c. c \<noteq> CHR ''/'') (rev d) = []"
  proof (cases "d = []")
    case False
    then obtain q where "d = q @ ''/''" using last_of_directory [OF assms(1)] by blast
    then show ?thesis by simp
  qed simp
  ultimately show name: "path_filename (d @ s) = s" by (simp only: path_filename_def rev_append rev_rev_ident append_Nil2)
  show "path_directory (d @ s) = d" by (simp add: path_directory_def name)
qed

lemma join_parent:
  assumes "directory_ok d" "CHR ''/'' \<notin> set s"
  shows "path_join (parent_path (d @ s)) t = d @ t"
  using assms(1)
proof (cases rule: directory_cases)
  case (3 q c)
  have "rev (dropWhile (\<lambda>c. c = CHR ''/'') (rev d)) = q @ [c]" using 3 by simp
  then have "parent_path (d @ s) = q @ [c]"
    unfolding parent_path_def path_parts(2) [OF assms] Let_def using 3(1) by simp
  with 3 show ?thesis by (simp add: path_join_def)
next
  case 1
  then have "parent_path (d @ s) = []" unfolding parent_path_def path_parts(2) [OF assms] by simp
  with 1 show ?thesis by (simp add: path_join_def)
next
  case 2
  then have "parent_path (d @ s) = ''/''" unfolding parent_path_def path_parts(2) [OF assms] by simp
  with 2 show ?thesis by (simp add: path_join_def)
qed

lemma extract_parts:
  assumes "directory_ok d" "CHR ''/'' \<notin> set s"
  shows "extract_stem_and_extension (d @ s) = (case stem_extension s of (stem, ext) \<Rightarrow> (d @ stem, ext))"
  using assms by (simp add: extract_stem_and_extension_def path_parts join_parent split: prod.splits)

lemma rfind_char_append: "c \<notin> set e \<Longrightarrow> rfind_char c (s @ c # e) = Some (length s)"
proof -
  assume c: "c \<notin> set e"
  have "str_find [c] (r @ c # t) = Some (length r)" if "c \<notin> set r" for r t
    using that by (induction r) auto
  from this [of "rev e" "rev s"] c show ?thesis by (simp add: rfind_char_def)
qed

lemma rfind_char_None: "rfind_char c s = None \<longleftrightarrow> c \<notin> set s"
proof -
  have "str_find [c] r = None \<longleftrightarrow> c \<notin> set r" for r
    by (induction r) auto
  from this [of "rev s"] show ?thesis by (simp add: rfind_char_def)
qed

lemma last_occurrence: "c \<in> set s \<Longrightarrow> \<exists>u e. s = u @ c # e \<and> c \<notin> set e"
  by (metis split_list_last)

lemma stem_extension_append:
  assumes "CHR ''.'' \<notin> set e" "s \<noteq> []" "s \<noteq> ''.'' \<or> e \<noteq> []"
  shows "stem_extension (s @ CHR ''.'' # e) = (s, CHR ''.'' # e)"
proof -
  have "s @ CHR ''.'' # e \<noteq> ''.''" "s @ CHR ''.'' # e \<noteq> ''..''"
    using assms by (auto simp: append_eq_Cons_conv Cons_eq_append_conv)
  with assms(2) rfind_char_append [OF assms(1), of s] show ?thesis by (simp add: stem_extension_def)
qed

text \<open>Every name has one of two shapes: with an extension, or without a dot behind its first character.\<close>

lemma stem_extension_cases:
  assumes "name_ok n"
  obtains (extension) stem e where "n = stem @ CHR ''.'' # e" "stem \<noteq> []" "CHR ''.'' \<notin> set e" "stem_extension n = (stem, CHR ''.'' # e)"
    "stem \<noteq> ''.'' \<or> e \<noteq> []"
  | (none) "stem_extension n = (n, [])"
proof (cases "rfind_char CHR ''.'' n")
  case None
  with none show thesis using assms by (simp add: stem_extension_def name_ok_def)
next
  case (Some i)
  then have "CHR ''.'' \<in> set n" using rfind_char_None [of "CHR ''.''" n] by auto
  then obtain u e where u: "n = u @ CHR ''.'' # e" "CHR ''.'' \<notin> set e" using last_occurrence by metis
  with Some have i: "i = length u" using rfind_char_append [of "CHR ''.''" e u] by simp
  show thesis
  proof (cases "u = []")
    case True
    with i Some assms show thesis by (intro none) (simp add: stem_extension_def name_ok_def)
  next
    case False
    have "u \<noteq> ''.'' \<or> e \<noteq> []" using assms u(1) by (auto simp: name_ok_def)
    with extension u False stem_extension_append [OF u(2) False] show thesis by metis
  qed
qed

text \<open>The name of a rotated file.\<close>

definition rotated_name :: "string \<Rightarrow> string \<Rightarrow> u32 \<Rightarrow> string \<Rightarrow> string" where
  "rotated_name stem ext i d =
     (let date = (if d = [] then [] else ''.'' @ d); index = (if i = 0 then [] else ''.'' @ to_string (unat i))
      in if ext = [] then stem @ index @ date else stem @ date @ index @ ext)"

lemma digits_plain: "CHR ''.'' \<notin> set (to_string n)" "CHR ''/'' \<notin> set (to_string n)"
  using to_string_digits by (fastforce simp: is_digit_def)+

lemma get_filename_rotated:
  assumes "directory_ok dir" "name_ok n" "CHR ''.'' \<notin> set d" "CHR ''/'' \<notin> set d"
  shows "get_filename (dir @ n) i d = dir @ (case stem_extension n of (stem, ext) \<Rightarrow> rotated_name stem ext i d)"
proof -
  have slash: "CHR ''/'' \<notin> set n" using assms(2) by (simp add: name_ok_def)
  note ex = extract_parts [OF assms(1)]
  from assms(2) show ?thesis
  proof (cases rule: stem_extension_cases)
    case (extension stem e)
    have plain: "CHR ''/'' \<notin> set (stem @ ''.'' @ d @ CHR ''.'' # e)" using slash extension(1) assms(4) by auto
    have "stem @ ''.'' @ d \<noteq> ''.''" using extension(2) by (cases stem) auto
    then have two: "stem_extension ((stem @ ''.'' @ d) @ CHR ''.'' # e) = (stem @ ''.'' @ d, CHR ''.'' # e)"
      by (intro stem_extension_append) (use extension in auto)
    show ?thesis
      using ex [OF slash] ex [OF plain] two extension(1,4)
      by (auto simp: get_filename_def append_string_to_filename_def append_index_to_filename_def rotated_name_def
          Let_def word_neq_0_conv)
  next
    case none
    have plain: "CHR ''/'' \<notin> set (n @ CHR ''.'' # d)" using slash assms(4) by auto
    have two: "stem_extension (n @ CHR ''.'' # d) = (n, CHR ''.'' # d)" if "d \<noteq> []"
      by (rule stem_extension_append) (use assms that in \<open>auto simp: name_ok_def\<close>)
    show ?thesis
      using ex [OF slash] ex [OF plain] two none
      by (auto simp: get_filename_def append_string_to_filename_def append_index_to_filename_def rotated_name_def
          Let_def word_neq_0_conv)
  qed
qed

subsection \<open>Reading the names back\<close>

lemma parse_uint32_loop_value:
  assumes "\<forall>c \<in> set s. is_digit c" "decimal_value acc s < 2 ^ 32"
  shows "parse_uint32_loop acc s = Some (of_nat (decimal_value acc s))"
  using assms
proof (induction s arbitrary: acc)
  case (Cons c s)
  have grow: "a \<le> decimal_value a t" for a t
  proof (induction t arbitrary: a)
    case (Cons c t)
    have "a \<le> a * 10 + digit_value c" by simp
    also have "\<dots> \<le> decimal_value a (c # t)" using Cons.IH by simp
    finally show ?case .
  qed simp
  have "acc * 10 + digit_value c < 2 ^ 32" using Cons.prems(2) grow [of "acc * 10 + digit_value c" s] by simp
  with Cons show ?case by simp
qed simp

lemma parse_to_string: "parse_uint32 (to_string (unat i)) = Some i"
proof -
  have "unat i < 2 ^ 32" by (rule order_less_le_trans [OF unsigned_less]) simp
  with parse_uint32_loop_value [of "to_string (unat i)" 0] to_string_digits show ?thesis
    by (auto simp: parse_uint32_def)
qed

lemma parse_digits: "parse_uint32 s = Some i \<Longrightarrow> \<forall>c \<in> set s. is_digit c"
proof -
  have "parse_uint32_loop acc s = Some i \<Longrightarrow> \<forall>c \<in> set s. is_digit c" for acc
    by (induction s arbitrary: acc) (auto simp: Let_def split: if_splits)
  then show "parse_uint32 s = Some i \<Longrightarrow> \<forall>c \<in> set s. is_digit c"
    by (simp add: parse_uint32_def split: if_splits)
qed

lemma digits_no_dot: "\<forall>c \<in> set s. is_digit c \<Longrightarrow> CHR ''.'' \<notin> set s \<and> CHR ''/'' \<notin> set s"
  by (auto simp: is_digit_def)

text \<open>The dates a scheme puts into a name.\<close>

fun suffix_ok :: "rotation_naming_scheme \<Rightarrow> string \<Rightarrow> bool" where
  "suffix_ok Index d \<longleftrightarrow> d = []"
| "suffix_ok Date d \<longleftrightarrow> is_date d"
| "suffix_ok DateAndTime d \<longleftrightarrow> is_date_time d"

lemma date_plain: "is_date d \<Longrightarrow> CHR ''.'' \<notin> set d \<and> CHR ''/'' \<notin> set d"
  using parse_digits digits_no_dot by (auto simp: is_date_def)

lemma date_time_plain: "is_date_time d \<Longrightarrow> CHR ''.'' \<notin> set d \<and> CHR ''/'' \<notin> set d"
proof -
  assume d: "is_date_time d"
  then have parts: "CHR ''.'' \<notin> set (take 8 d) \<and> CHR ''/'' \<notin> set (take 8 d)" "CHR ''.'' \<notin> set (drop 9 d) \<and> CHR ''/'' \<notin> set (drop 9 d)"
    using parse_digits digits_no_dot by (auto simp: is_date_time_def)
  have "d = take 8 d @ d ! 8 # drop 9 d"
    using d id_take_nth_drop [of 8 d] by (simp add: is_date_time_def)
  then have "set d = insert (d ! 8) (set (take 8 d) \<union> set (drop 9 d))" by (metis Un_insert_right list.set(2) set_append)
  with parts d show ?thesis by (auto simp: is_date_time_def)
qed

lemma suffix_plain: "suffix_ok scheme d \<Longrightarrow> CHR ''.'' \<notin> set d \<and> CHR ''/'' \<notin> set d"
  using date_plain date_time_plain by (cases scheme) auto

lemma split_dot_none: "CHR ''.'' \<notin> set s \<Longrightarrow> split_dot s = (s, None)"
proof -
  assume "CHR ''.'' \<notin> set s"
  then have "\<forall>c \<in> set s. c \<noteq> CHR ''.''" by auto
  then have "takeWhile (\<lambda>c. c \<noteq> CHR ''.'') s = s" "dropWhile (\<lambda>c. c \<noteq> CHR ''.'') s = []"
    by (auto simp: takeWhile_eq_all_conv dropWhile_eq_Nil_conv)
  then show ?thesis by (simp only: split_dot_def list.case)
qed

lemma split_dot_some: "CHR ''.'' \<notin> set s \<Longrightarrow> split_dot (s @ CHR ''.'' # t) = (s, Some t)"
proof -
  assume "CHR ''.'' \<notin> set s"
  then have "\<And>c. c \<in> set s \<Longrightarrow> c \<noteq> CHR ''.''" by auto
  then show ?thesis by (simp add: split_dot_def takeWhile_append2 dropWhile_append2)
qed

lemma parse_dated_suffix_extension:
  assumes "date_ok d" "CHR ''.'' \<notin> set d"
  shows "parse_dated_suffix date_ok none (d @ (if i = 0 then [] else ''.'' @ to_string (unat i))) = Some (i, d)"
  using assms digits_plain by (simp add: parse_dated_suffix_def split_dot_none split_dot_some parse_to_string)

lemma parse_dated_suffix_plain:
  assumes "date_ok d" "CHR ''.'' \<notin> set d" "i \<noteq> 0 \<Longrightarrow> \<not> date_ok (to_string (unat i))"
  shows "parse_dated_suffix date_ok True ((if i = 0 then [] else to_string (unat i) @ ''.'') @ d) = Some (i, d)"
  using assms digits_plain by (simp add: parse_dated_suffix_def split_dot_none split_dot_some parse_to_string)

lemma length_to_string: "n < 10 ^ Suc k \<Longrightarrow> length (to_string n) \<le> Suc k"
proof (induction k arbitrary: n)
  case 0
  then show ?case by (subst to_string.simps) simp
next
  case (Suc k)
  have "n div 10 < 10 ^ Suc k" using Suc.prems by (simp add: less_mult_imp_div_less mult.commute)
  from Suc.IH [OF this] show ?case by (subst to_string.simps) simp
qed

lemma small_index_no_date:
  assumes "unat i < 10 ^ 7"
  shows "\<not> is_date (to_string (unat i))" "\<not> is_date_time (to_string (unat i))"
  using length_to_string [of "unat i" 6] assms by (auto simp: is_date_def is_date_time_def)

text \<open>What the parser does with a name that has the base's stem and extension.\<close>

lemma try_parse_suffix:
  assumes "directory_ok dir" "stem_extension n = (stem, ext)" "name_ok n" "sfx \<noteq> []"
    "CHR ''/'' \<notin> set (stem @ ''.'' @ sfx @ ext)"
  shows "try_parse_rotated_file scheme (dir @ n) (dir @ stem @ ''.'' @ sfx @ ext) =
    (case scheme of
       Index \<Rightarrow> map_option (\<lambda>index. (index, [])) (parse_uint32 sfx)
     | Date \<Rightarrow> parse_dated_suffix is_date (ext = []) sfx
     | DateAndTime \<Rightarrow> parse_dated_suffix is_date_time (ext = []) sfx)"
proof -
  have slash: "CHR ''/'' \<notin> set n" using assms(3) by (simp add: name_ok_def)
  have names: "path_filename (dir @ n) = n" "path_filename (dir @ stem @ ''.'' @ sfx @ ext) = stem @ ''.'' @ sfx @ ext"
    using path_parts(1) [OF assms(1) slash] path_parts(1) [OF assms(1) assms(5)] by simp_all
  show ?thesis
    unfolding try_parse_rotated_file_def names assms(2)
    using assms(4) by (simp add: Let_def nth_append split: rotation_naming_scheme.split)
qed

lemma rotated_names:
  assumes "path_ok base" "suffix_ok scheme d" "i \<noteq> 0 \<or> d \<noteq> []"
  obtains dir n stem ext sfx where "base = dir @ n" "directory_ok dir" "name_ok n" "stem_extension n = (stem, ext)"
    "get_filename base i d = dir @ stem @ ''.'' @ sfx @ ext" "sfx \<noteq> []" "CHR ''/'' \<notin> set (stem @ ''.'' @ sfx @ ext)"
    "ext \<noteq> [] \<and> sfx = (if d = [] then to_string (unat i) else d @ (if i = 0 then [] else ''.'' @ to_string (unat i)))
     \<or> ext = [] \<and> sfx = (if d = [] then to_string (unat i) else (if i = 0 then [] else to_string (unat i) @ ''.'') @ d)"
proof -
  let ?dir = "path_directory base" and ?n = "path_filename base"
  have dir: "directory_ok ?dir" and n: "name_ok ?n" using assms(1) by (simp_all add: path_ok_def)
  obtain stem ext where se: "stem_extension ?n = (stem, ext)" by force
  define sfx where "sfx = (if d = [] then to_string (unat i)
    else if ext = [] then (if i = 0 then [] else to_string (unat i) @ ''.'') @ d
    else d @ (if i = 0 then [] else ''.'' @ to_string (unat i)))"
  note plain = suffix_plain [OF assms(2)]
  have "get_filename base i d = ?dir @ rotated_name stem ext i d"
    using get_filename_rotated [OF dir n, of d i] plain se by (simp add: path_split [symmetric])
  moreover have "rotated_name stem ext i d = stem @ ''.'' @ sfx @ ext"
    using assms(3) by (auto simp: rotated_name_def sfx_def Let_def)
  ultimately have name: "get_filename base i d = ?dir @ stem @ ''.'' @ sfx @ ext" by simp
  have "stem @ ext = ?n" using n
  proof (cases rule: stem_extension_cases)
    case (extension stem' e)
    with se show ?thesis by simp
  qed (use se in simp)
  then have "CHR ''/'' \<notin> set stem \<and> CHR ''/'' \<notin> set ext" using n unfolding name_ok_def by (metis Un_iff set_append)
  moreover have "CHR ''/'' \<notin> set sfx" using plain digits_plain(2) by (auto simp: sfx_def)
  ultimately have slash: "CHR ''/'' \<notin> set (stem @ ''.'' @ sfx @ ext)" by auto
  have "sfx \<noteq> []" using assms(3) by (auto simp: sfx_def)
  from that [OF path_split dir n se name this slash] show thesis by (auto simp: sfx_def)
qed

text \<open>
  C33. What rotation writes recovery reads: the name given to a rotated file, with its index, its date
  or both, is parsed back to exactly that index and date, for every base file with or without an
  extension and under every naming scheme; only a date behind the index of a base file without
  extension needs an index of at most seven digits. The name lies in the directory that is searched.
\<close>

theorem rotated_name_roundtrip:
  assumes "path_ok base" "suffix_ok scheme d" "i \<noteq> 0 \<or> d \<noteq> []"
    and "scheme = Index \<or> snd (stem_extension (path_filename base)) \<noteq> [] \<or> unat i < 10 ^ 7"
  shows "try_parse_rotated_file scheme base (get_filename base i d) = Some (i, d)
    \<and> path_directory (get_filename base i d) = path_directory base"
proof -
  obtain dir n stem ext sfx where n: "base = dir @ n" "directory_ok dir" "name_ok n" "stem_extension n = (stem, ext)"
    "get_filename base i d = dir @ stem @ ''.'' @ sfx @ ext" "sfx \<noteq> []" "CHR ''/'' \<notin> set (stem @ ''.'' @ sfx @ ext)"
    and sfx: "ext \<noteq> [] \<and> sfx = (if d = [] then to_string (unat i) else d @ (if i = 0 then [] else ''.'' @ to_string (unat i)))
     \<or> ext = [] \<and> sfx = (if d = [] then to_string (unat i) else (if i = 0 then [] else to_string (unat i) @ ''.'') @ d)"
    using rotated_names [OF assms(1-3)] .
  have "CHR ''/'' \<notin> set n" using n(3) by (simp add: name_ok_def)
  then have dirs: "path_directory base = dir" "path_directory (get_filename base i d) = dir" "path_filename base = n"
    using path_parts [OF n(2)] n(1,5,7) by auto
  have small: "scheme \<noteq> Index \<Longrightarrow> ext = [] \<Longrightarrow> \<not> is_date (to_string (unat i)) \<and> \<not> is_date_time (to_string (unat i))"
    using small_index_no_date assms(4) dirs(3) n(4) by auto
  have "(case scheme of Index \<Rightarrow> map_option (\<lambda>index. (index, [])) (parse_uint32 sfx)
     | Date \<Rightarrow> parse_dated_suffix is_date (ext = []) sfx
     | DateAndTime \<Rightarrow> parse_dated_suffix is_date_time (ext = []) sfx) = Some (i, d)"
  proof (cases scheme)
    case Index
    with sfx assms(2) show ?thesis by (auto simp: parse_to_string)
  next
    case Date
    then have d: "is_date d" "d \<noteq> []" using assms(2) by (auto simp: is_date_def)
    from Date sfx d small parse_dated_suffix_extension [of is_date d False i] parse_dated_suffix_plain [of is_date d i] date_plain [OF d(1)]
    show ?thesis by auto
  next
    case DateAndTime
    then have d: "is_date_time d" "d \<noteq> []" using assms(2) by (auto simp: is_date_time_def)
    from DateAndTime sfx d small parse_dated_suffix_extension [of is_date_time d False i]
      parse_dated_suffix_plain [of is_date_time d i] date_time_plain [OF d(1)]
    show ?thesis by auto
  qed
  then have "try_parse_rotated_file scheme base (get_filename base i d) = Some (i, d)"
    using try_parse_suffix [OF n(2,4,3,6,7), of scheme] n(1,5) by simp
  with dirs show ?thesis by simp
qed

theorem rotated_name_roundtrip_witness:
  "try_parse_rotated_file DateAndTime ''/l/a.log'' (get_filename ''/l/a.log'' 3 ''20240131_235959'') = Some (3, ''20240131_235959'')"
proof -
  have "path_directory ''/l/a.log'' = ''/l/''" "path_filename ''/l/a.log'' = ''a.log''" by code_simp+
  then have base: "path_ok ''/l/a.log''" by (simp add: path_ok_def directory_ok_def name_ok_def)
  have suffix: "suffix_ok DateAndTime ''20240131_235959''"
    by (simp add: is_date_time_def parse_uint32_def is_digit_def digit_value_def)
  have small: "unat (3 :: u32) < 10 ^ 7" by simp
  show ?thesis
    by (rule rotated_name_roundtrip [THEN conjunct1]) (use base suffix small in simp_all)
qed

text \<open>No two rotated files share a name, and none has the name of the base file.\<close>

lemma no_dot_append:
  assumes "CHR ''.'' \<notin> set s" "CHR ''.'' \<notin> set s'" "s @ CHR ''.'' # t = s' @ CHR ''.'' # t'"
  shows "s = s' \<and> t = t'"
proof -
  have "(s, Some t) = (s', Some t')"
    using split_dot_some [OF assms(1), of t] split_dot_some [OF assms(2), of t'] by (simp only: assms(3))
  then show ?thesis by simp
qed

lemma no_dot_append_ne:
  assumes "CHR ''.'' \<notin> set s"
  shows "u @ CHR ''.'' # t \<noteq> s" "s \<noteq> u @ CHR ''.'' # t"
  using assms by auto

lemma get_filename_inj:
  assumes "path_ok base" "suffix_ok scheme d" "suffix_ok scheme d'" "i \<noteq> 0 \<or> d \<noteq> []" "i' \<noteq> 0 \<or> d' \<noteq> []"
    and "get_filename base i d = get_filename base i' d'"
  shows "i = i' \<and> d = d'"
proof -
  let ?dir = "path_directory base" and ?n = "path_filename base"
  have dir: "directory_ok ?dir" and n: "name_ok ?n" using assms(1) by (simp_all add: path_ok_def)
  obtain stem ext where se: "stem_extension ?n = (stem, ext)" by force
  note plain = suffix_plain [OF assms(2)] suffix_plain [OF assms(3)]
  have "?dir @ rotated_name stem ext i d = ?dir @ rotated_name stem ext i' d'"
    using assms(6) get_filename_rotated [OF dir n, of d i] get_filename_rotated [OF dir n, of d' i'] plain se
    by (simp add: path_split [symmetric])
  then have eq: "rotated_name stem ext i d = rotated_name stem ext i' d'" by simp
  have same: "d = [] \<longleftrightarrow> d' = []" using assms(2,3) by (cases scheme) (auto simp: is_date_def is_date_time_def)
  note digits = digits_plain(1) [of "unat i"] digits_plain(1) [of "unat i'"]
  have index: "to_string (unat i) = to_string (unat i') \<Longrightarrow> i = i'" by (simp add: word_unat_eq_iff)
  show ?thesis
  proof (cases "d = []")
    case True
    with eq same assms(4,5) index show ?thesis by (cases "ext = []") (simp_all add: rotated_name_def Let_def)
  next
    case False
    then have d: "d \<noteq> []" "d' \<noteq> []" using same by simp_all
    consider "i = 0" "i' = 0" | "i = 0" "i' \<noteq> 0" | "i \<noteq> 0" "i' = 0" | "i \<noteq> 0" "i' \<noteq> 0" by blast
    then show ?thesis
    proof cases
      case 1
      with eq d show ?thesis by (cases "ext = []") (simp_all add: rotated_name_def Let_def)
    next
      case 2
      with eq d have "d = to_string (unat i') @ CHR ''.'' # d' \<or> d = d' @ CHR ''.'' # to_string (unat i')"
        by (cases "ext = []") (simp_all add: rotated_name_def Let_def)
      with no_dot_append_ne(2) plain(1) show ?thesis by metis
    next
      case 3
      with eq d have "to_string (unat i) @ CHR ''.'' # d = d' \<or> d @ CHR ''.'' # to_string (unat i) = d'"
        by (cases "ext = []") (simp_all add: rotated_name_def Let_def)
      with no_dot_append_ne(1) plain(2) show ?thesis by metis
    next
      case 4
      with eq d have "to_string (unat i) @ CHR ''.'' # d = to_string (unat i') @ CHR ''.'' # d'
          \<or> d @ CHR ''.'' # to_string (unat i) = d' @ CHR ''.'' # to_string (unat i')"
        by (cases "ext = []") (simp_all add: rotated_name_def Let_def)
      with no_dot_append plain digits index show ?thesis by metis
    qed
  qed
qed

lemma get_filename_not_base:
  assumes "path_ok base" "suffix_ok scheme d" "i \<noteq> 0 \<or> d \<noteq> []"
  shows "get_filename base i d \<noteq> base"
proof -
  obtain dir n stem ext sfx where n: "base = dir @ n" "directory_ok dir" "name_ok n" "stem_extension n = (stem, ext)"
    "get_filename base i d = dir @ stem @ ''.'' @ sfx @ ext" "sfx \<noteq> []" "CHR ''/'' \<notin> set (stem @ ''.'' @ sfx @ ext)"
    using rotated_names [OF assms] by metis
  from n(3) have "stem @ ext = n"
  proof (cases rule: stem_extension_cases)
    case (extension stem' e)
    with n(4) show ?thesis by simp
  qed (use n(4) in simp)
  then have "length n = length stem + length ext" by auto
  then have "length (get_filename base i d) > length base" using n(1,5) by simp
  then show ?thesis by auto
qed

text \<open>
  Two names the parser takes for rotated files although rotation does not write them: an index of
  zero stands for the base file itself, and a leading zero makes two files the same one.
\<close>

lemma example_names:
  "path_filename ''/l/a.log'' = ''a.log''" "stem_extension ''a.log'' = (''a'', ''.log'')"
  "path_filename ''/l/a.0.log'' = ''a.0.log''" "path_filename ''/l/a.01.log'' = ''a.01.log''"
  "path_filename ''/l/a'' = ''a''" "stem_extension ''a'' = (''a'', [])"
  by code_simp+

lemma foreign_names_collide:
  "try_parse_rotated_file Index ''/l/a.log'' ''/l/a.0.log'' = Some (0, []) \<and> get_filename ''/l/a.log'' 0 [] = ''/l/a.log''"
  "try_parse_rotated_file Index ''/l/a.log'' ''/l/a.01.log'' = Some (1, [])"
  by (simp_all add: try_parse_rotated_file_def example_names get_filename_def parse_uint32_def is_digit_def digit_value_def Let_def)

text \<open>Without an extension an index of eight digits is taken for the date.\<close>

lemma long_index_is_misread:
  "try_parse_rotated_file Date ''/l/a'' ''/l/a.10000000.20240131'' = Some (20240131, ''10000000'')"
proof -
  have "path_filename ''/l/a.10000000.20240131'' = ''a.10000000.20240131''" by code_simp
  then show ?thesis
    by (simp add: try_parse_rotated_file_def example_names parse_dated_suffix_def split_dot_def is_date_def
        parse_uint32_def is_digit_def digit_value_def Let_def)
qed

end
