(* ===== verification/File_Sink.thy ===== *)
theory File_Sink
  imports Rotation_Name Sink_Base Named_Args
begin

text \<open>
  \<^verbatim>\<open>quill/sinks/StreamSink.h\<close> and \<^verbatim>\<open>quill/sinks/FileSink.h\<close> (the POSIX branch): a sink that writes to a
  file through a buffered C stream, reopens a file that was deleted, and tells the user of it. The
  operating system may refuse every call: \<open>io_ok\<close> says which calls succeed, by their number. A call
  repeated after a signal counts once. Paths name files, and an open stream keeps its file when the
  name goes. The sink is the only writer of its files. The texts of \<^verbatim>\<open>errno\<close> are left out.
\<close>

subsection \<open>Configuration\<close>

datatype filename_append_option = AppendNone | StartDate | StartDateTime | StartCustomTimestampFormat

record file_sink_config =
  fk_open_mode :: string
  fk_append_filename_format_pattern :: string
  fk_write_buffer_size :: size_t
  fk_minimum_fsync_interval :: int
  fk_override_pattern_formatter_options :: "pattern_formatter_options option"
  fk_time_zone :: timezone
  fk_filename_append_option :: filename_append_option
  fk_fsync_enabled :: bool

definition file_sink_config_new :: file_sink_config where
  "file_sink_config_new = \<lparr>fk_open_mode = ''a'', fk_append_filename_format_pattern = [], fk_write_buffer_size = 64 * 1024,
     fk_minimum_fsync_interval = 0, fk_override_pattern_formatter_options = None, fk_time_zone = LocalTime,
     fk_filename_append_option = AppendNone, fk_fsync_enabled = False\<rparr>"

definition set_filename_append_option ::
  "filename_append_option \<Rightarrow> string \<Rightarrow> 'c file_sink_config_scheme \<Rightarrow> quill_error option \<times> 'c file_sink_config_scheme" where
  "set_filename_append_option option pattern c =
     (let c1 = c\<lparr>fk_filename_append_option := option\<rparr>
      in case option of
           StartCustomTimestampFormat \<Rightarrow>
             if pattern = []
             then (Some (QuillError ''The 'StartCustomTimestampFormat' option was specified, but no format pattern was provided. Please set a valid strftime format pattern''), c1)
             else (None, c1\<lparr>fk_append_filename_format_pattern := pattern\<rparr>)
         | StartDateTime \<Rightarrow> (None, c1\<lparr>fk_append_filename_format_pattern := ''_%Y%m%d_%H%M%S''\<rparr>)
         | StartDate \<Rightarrow> (None, c1\<lparr>fk_append_filename_format_pattern := ''_%Y%m%d''\<rparr>)
         | AppendNone \<Rightarrow> (None, c1))"

definition set_write_buffer_size :: "size_t \<Rightarrow> 'c file_sink_config_scheme \<Rightarrow> 'c file_sink_config_scheme" where
  "set_write_buffer_size v c = c\<lparr>fk_write_buffer_size := (if v = 0 then 0 else if v < 4096 then 4096 else v)\<rparr>"

definition set_minimum_fsync_interval :: "int \<Rightarrow> 'c file_sink_config_scheme \<Rightarrow> quill_error + 'c file_sink_config_scheme" where
  "set_minimum_fsync_interval v c =
     (if v < 0 then Inl (QuillError ''minimum_fsync_interval must not be negative'')
      else Inr (c\<lparr>fk_minimum_fsync_interval := v\<rparr>))"

subsection \<open>The name of the file\<close>

text \<open>The buffer for \<^verbatim>\<open>strftime\<close> is doubled from 128 bytes up to 64 KiB.\<close>

function format_datetime_loop :: "string \<Rightarrow> nat \<Rightarrow> quill_error + string" where
  "format_datetime_loop expansion buffer_size =
     (if expansion \<noteq> [] \<and> length expansion < buffer_size then Inr expansion
      else if buffer_size \<ge> 64 * 1024 \<or> buffer_size = 0
      then Inl (QuillError ''strftime failed to format filename timestamp. The filename timestamp pattern may contain an unsupported format specifier.'')
      else format_datetime_loop expansion (buffer_size * 2))"
  by pat_completeness auto
termination by (relation "measure (\<lambda>(_, n). 64 * 1024 - n)") auto

declare format_datetime_loop.simps [simp del]

definition format_datetime_string :: "calendar \<Rightarrow> u64 \<Rightarrow> timezone \<Rightarrow> string \<Rightarrow> quill_error + string" where
  "format_datetime_string cal timestamp_ns time_zone pattern =
     format_datetime_loop (cal_strftime cal time_zone pattern (int (unat timestamp_ns div 1000000000))) 128"

definition append_datetime_to_filename :: "calendar \<Rightarrow> string \<Rightarrow> string \<Rightarrow> timezone \<Rightarrow> u64 \<Rightarrow> quill_error + string" where
  "append_datetime_to_filename cal p pattern time_zone timestamp =
     (case extract_stem_and_extension p of
        (stem, ext) \<Rightarrow>
          (case format_datetime_string cal timestamp time_zone pattern of
             Inl e \<Rightarrow> Inl e
           | Inr t \<Rightarrow> Inr (stem @ t @ ext)))"

definition get_updated_filename_with_appended_datetime ::
  "calendar \<Rightarrow> string \<Rightarrow> 'c file_sink_config_scheme \<Rightarrow> u64 \<Rightarrow> quill_error + string" where
  "get_updated_filename_with_appended_datetime cal p c timestamp =
     (if fk_filename_append_option c = AppendNone \<or> p = ''/dev/null'' then Inr p
      else append_datetime_to_filename cal p (fk_append_filename_format_pattern c) (fk_time_zone c) timestamp)"

subsection \<open>Files\<close>

text \<open>A file has a number; its name may be taken away while a stream still writes to it.\<close>

record file_system =
  fs_names :: "(string \<times> nat) list"
  fs_data :: "nat \<Rightarrow> string"
  fs_next :: nat
  fs_calls :: nat

record stream =
  fo_file :: nat
  fo_pending :: string

text \<open>
  What the operating system and the C library answer to the call of a number: whether it succeeds,
  how many bytes \<^verbatim>\<open>fwrite\<close> takes, how many bytes of a stream's buffer reach the file in it, and the time.
\<close>

record io_env =
  io_ok :: "nat \<Rightarrow> bool"
  io_accepts :: "nat \<Rightarrow> nat"
  io_drains :: "nat \<Rightarrow> nat"
  io_now :: "nat \<Rightarrow> int"

definition fs_find :: "string \<Rightarrow> file_system \<Rightarrow> nat option" where
  "fs_find p fs = map_of (fs_names fs) p"

definition fs_append :: "nat \<Rightarrow> string \<Rightarrow> file_system \<Rightarrow> file_system" where
  "fs_append i t fs = fs\<lparr>fs_data := (fs_data fs)(i := fs_data fs i @ t)\<rparr>"

text \<open>\<^verbatim>\<open>open\<close> with \<^verbatim>\<open>O_CREAT\<close>, and \<^verbatim>\<open>O_TRUNC\<close> or \<^verbatim>\<open>O_APPEND\<close>.\<close>

definition fs_open :: "bool \<Rightarrow> string \<Rightarrow> file_system \<Rightarrow> nat \<times> file_system" where
  "fs_open truncates p fs =
     (case fs_find p fs of
        Some i \<Rightarrow> (i, if truncates then fs\<lparr>fs_data := (fs_data fs)(i := [])\<rparr> else fs)
      | None \<Rightarrow> (fs_next fs, fs\<lparr>fs_names := fs_names fs @ [(p, fs_next fs)], fs_data := (fs_data fs)(fs_next fs := []),
                               fs_next := Suc (fs_next fs)\<rparr>))"

definition fs_unlink :: "string \<Rightarrow> file_system \<Rightarrow> file_system" where
  "fs_unlink p fs = fs\<lparr>fs_names := filter (\<lambda>(q, _). q \<noteq> p) (fs_names fs)\<rparr>"

text \<open>\<^verbatim>\<open>rename\<close> replaces a file that has the new name.\<close>

definition fs_rename :: "string \<Rightarrow> string \<Rightarrow> file_system \<Rightarrow> (bool \<times> file_system)" where
  "fs_rename old new fs =
     (case fs_find old fs of
        None \<Rightarrow> (False, fs)
      | Some i \<Rightarrow> (True, if old = new then fs
                        else fs\<lparr>fs_names := map (\<lambda>(q, j). if q = old then (new, j) else (q, j)) (filter (\<lambda>(q, _). q \<noteq> new) (fs_names fs))\<rparr>))"

subsection \<open>The sink\<close>

record 'x file_event_notifier =
  ev_before_open :: "(string \<Rightarrow> 'x user_call) option"
  ev_after_open :: "(string \<Rightarrow> 'x user_call) option"
  ev_before_close :: "(string \<Rightarrow> 'x user_call) option"
  ev_after_close :: "(string \<Rightarrow> 'x user_call) option"
  ev_before_write :: "(string \<Rightarrow> 'x \<Rightarrow> (user_exception + string) \<times> 'x) option"

record 'x file_sink =
  ss_filename :: string
  ss_file :: "stream option"
  ss_file_size :: size_t
  ss_notifier :: "'x file_event_notifier"
  ss_is_null :: bool
  ss_write_occurred :: bool
  ss_config :: file_sink_config
  ss_last_fsync_timestamp :: int
  ss_fs :: file_system
  ss_world :: 'x

text \<open>An operation returns the exception it throws, if any.\<close>

type_synonym ('x, 'm) file_sink_op = "('x, 'm) file_sink_scheme \<Rightarrow> user_exception option \<times> ('x, 'm) file_sink_scheme"

fun run_ops :: "('s \<Rightarrow> user_exception option \<times> 's) list \<Rightarrow> 's \<Rightarrow> user_exception option \<times> 's" where
  "run_ops [] s = (None, s)"
| "run_ops (f # fs) s = (case f s of (None, s1) \<Rightarrow> run_ops fs s1 | (Some e, s1) \<Rightarrow> (Some e, s1))"

definition os_call :: "io_env \<Rightarrow> ('x, 'm) file_sink_scheme \<Rightarrow> bool \<times> ('x, 'm) file_sink_scheme" where
  "os_call env s = (io_ok env (fs_calls (ss_fs s)), s\<lparr>ss_fs := (ss_fs s)\<lparr>fs_calls := Suc (fs_calls (ss_fs s))\<rparr>\<rparr>)"

definition notify_user :: "(string \<Rightarrow> 'x user_call) option \<Rightarrow> string \<Rightarrow> ('x, 'm) file_sink_op" where
  "notify_user callback p s =
     (case callback of
        None \<Rightarrow> (None, s)
      | Some call \<Rightarrow> (case call p (ss_world s) of (r, x) \<Rightarrow> (r, s\<lparr>ss_world := x\<rparr>)))"

text \<open>The first \<open>n\<close> bytes of the buffer, with \<open>t\<close> behind it, reach the file.\<close>

definition drain :: "nat \<Rightarrow> string \<Rightarrow> stream \<Rightarrow> ('x, 'm) file_sink_scheme \<Rightarrow> ('x, 'm) file_sink_scheme" where
  "drain n t f s =
     s\<lparr>ss_fs := fs_append (fo_file f) (take n (fo_pending f @ t)) (ss_fs s),
       ss_file := Some (f\<lparr>fo_pending := drop n (fo_pending f @ t)\<rparr>)\<rparr>"

subsection \<open>Writing\<close>

text \<open>\<^verbatim>\<open>fwrite\<close> is repeated for what it did not take, until it reports an error or takes nothing.\<close>

function safe_fwrite :: "io_env \<Rightarrow> string \<Rightarrow> stream \<Rightarrow> ('x, 'm) file_sink_op" where
  "safe_fwrite env t f s =
     (if t = [] then (None, s)
      else let k = fs_calls (ss_fs s); n = min (io_accepts env k) (length t); s1 = drain (io_drains env k) (take n t) f (snd (os_call env s));
               f1 = f\<lparr>fo_pending := drop (io_drains env k) (fo_pending f @ take n t)\<rparr>
           in if n < length t \<and> \<not> io_ok env k then (Some (UserException ''fwrite failed''), s1)
              else if n = 0 then (Some (UserException ''fwrite returned 0 bytes written without error - stream may be at EOF or in invalid state''), s1)
              else safe_fwrite env (drop n t) f1 s1)"
  by pat_completeness auto
termination by (relation "measure (\<lambda>(_, t, _, _). length t)") auto

declare safe_fwrite.simps [simp del]

definition stream_write_statement :: "io_env \<Rightarrow> string \<Rightarrow> stream \<Rightarrow> ('x, 'm) file_sink_op" where
  "stream_write_statement env statement f s =
     (case safe_fwrite env statement f s of
        (Some e, s1) \<Rightarrow> (Some e, s1)
      | (None, s1) \<Rightarrow> (None, s1\<lparr>ss_file_size := ss_file_size s1 + of_nat (length statement), ss_write_occurred := True\<rparr>))"

definition stream_write_log :: "io_env \<Rightarrow> string \<Rightarrow> ('x, 'm) file_sink_op" where
  "stream_write_log env log_statement s =
     (case ss_file s of
        None \<Rightarrow> (None, s)
      | Some f \<Rightarrow>
          (case ev_before_write (ss_notifier s) of
             None \<Rightarrow> stream_write_statement env log_statement f s
           | Some call \<Rightarrow>
               (case call log_statement (ss_world s) of
                  (Inl e, x) \<Rightarrow> (Some e, s\<lparr>ss_world := x\<rparr>)
                | (Inr user_log_statement, x) \<Rightarrow> stream_write_statement env user_log_statement f (s\<lparr>ss_world := x\<rparr>))))"

definition stream_flush :: "io_env \<Rightarrow> ('x, 'm) file_sink_op" where
  "stream_flush env s =
     (case ss_file s of
        None \<Rightarrow> (None, s)
      | Some f \<Rightarrow>
          let k = fs_calls (ss_fs s)
          in (case os_call env s of
                (True, s1) \<Rightarrow> (None, (drain (length (fo_pending f)) [] f s1)\<lparr>ss_write_occurred := False\<rparr>)
              | (False, s1) \<Rightarrow> (Some (UserException ''fflush failed''), drain (io_drains env k) [] f s1)))"

definition stream_flush_sink :: "io_env \<Rightarrow> ('x, 'm) file_sink_op" where
  "stream_flush_sink env s = (if \<not> ss_write_occurred s \<or> ss_file s = None then (None, s) else stream_flush env s)"

definition estimate_write_size :: "string \<Rightarrow> size_t" where
  "estimate_write_size log_statement = of_nat (length log_statement)"

subsection \<open>Opening and closing\<close>

text \<open>Each attempt is \<^verbatim>\<open>open\<close> and \<^verbatim>\<open>fdopen\<close>.\<close>

fun open_attempts :: "io_env \<Rightarrow> string \<Rightarrow> bool \<Rightarrow> nat \<Rightarrow> ('x, 'm) file_sink_scheme \<Rightarrow> nat option \<times> ('x, 'm) file_sink_scheme" where
  "open_attempts env p truncates 0 s = (None, s)"
| "open_attempts env p truncates (Suc n) s =
     (case os_call env s of
        (False, s1) \<Rightarrow> open_attempts env p truncates n s1
      | (True, s1) \<Rightarrow>
          (case fs_open truncates p (ss_fs s1) of
             (i, fs) \<Rightarrow>
               (case os_call env (s1\<lparr>ss_fs := fs\<rparr>) of
                  (True, s2) \<Rightarrow> (Some i, s2)
                | (False, s2) \<Rightarrow> open_attempts env p truncates n s2)))"

definition truncates_mode :: "string \<Rightarrow> bool" where
  "truncates_mode mode \<longleftrightarrow> mode \<noteq> [] \<and> hd mode = CHR ''w''"

definition open_file :: "io_env \<Rightarrow> string \<Rightarrow> string \<Rightarrow> ('x, 'm) file_sink_op" where
  "open_file env p mode s =
     (case notify_user (ev_before_open (ss_notifier s)) p s of
        (Some e, s1) \<Rightarrow> (Some e, s1)
      | (None, s1) \<Rightarrow>
          (case open_attempts env p (truncates_mode mode) 3 s1 of
             (None, s2) \<Rightarrow> (Some (UserException (''fopen failed after 3 attempts, path: '' @ p @ '' mode: '' @ mode)), s2)
           | (Some i, s2) \<Rightarrow>
               (case (if fk_write_buffer_size (ss_config s2) \<noteq> 0 then os_call env s2 else (True, s2)) of
                  (False, s3) \<Rightarrow> (Some (UserException ''setvbuf failed''), s3)
                | (True, s3) \<Rightarrow>
                    (case notify_user (ev_after_open (ss_notifier s3)) p s3 of
                       (Some e, s4) \<Rightarrow> (Some e, s4)
                     | (None, s4) \<Rightarrow> (None, s4\<lparr>ss_file := Some \<lparr>fo_file = i, fo_pending = []\<rparr>\<rparr>)))))"

text \<open>\<^verbatim>\<open>fclose\<close> writes the rest of the buffer; the stream is gone even when that fails.\<close>

definition close_stream :: "io_env \<Rightarrow> stream \<Rightarrow> ('x, 'm) file_sink_scheme \<Rightarrow> bool \<times> ('x, 'm) file_sink_scheme" where
  "close_stream env f s =
     (let k = fs_calls (ss_fs s)
      in case os_call env s of
           (ok, s1) \<Rightarrow> (ok, (drain (if ok then length (fo_pending f) else io_drains env k) [] f s1)\<lparr>ss_file := None\<rparr>))"

definition close_file :: "io_env \<Rightarrow> ('x, 'm) file_sink_op" where
  "close_file env s =
     (case ss_file s of
        None \<Rightarrow> (None, s)
      | Some f \<Rightarrow>
          (case notify_user (ev_before_close (ss_notifier s)) (ss_filename s) s of
             (Some e, s1) \<Rightarrow> (Some e, snd (close_stream env f s1))
           | (None, s1) \<Rightarrow>
               (case close_stream env f s1 of
                  (False, s2) \<Rightarrow> (Some (UserException ''fclose failed''), s2)
                | (True, s2) \<Rightarrow> notify_user (ev_after_close (ss_notifier s2)) (ss_filename s2) s2)))"

definition fsync_file :: "io_env \<Rightarrow> bool \<Rightarrow> ('x, 'm) file_sink_op" where
  "fsync_file env force_fsync s =
     (if ss_file s = None then (None, s)
      else let now = io_now env (fs_calls (ss_fs s))
           in if \<not> force_fsync \<and> now - ss_last_fsync_timestamp s < fk_minimum_fsync_interval (ss_config s) * 1000000 then (None, s)
              else (case os_call env s of
                      (False, s1) \<Rightarrow> (Some (UserException ''fsync failed''), s1\<lparr>ss_write_occurred := True\<rparr>)
                    | (True, s1) \<Rightarrow> (None, if force_fsync then s1 else s1\<lparr>ss_last_fsync_timestamp := now\<rparr>)))"

text \<open>\<^verbatim>\<open>fs::exists\<close> and \<^verbatim>\<open>fs::file_size\<close> with an error code; no answer, or 0, when the call fails.\<close>

definition file_exists :: "io_env \<Rightarrow> string \<Rightarrow> ('x, 'm) file_sink_scheme \<Rightarrow> bool option \<times> ('x, 'm) file_sink_scheme" where
  "file_exists env p s =
     (case os_call env s of (ok, s1) \<Rightarrow> (if ok then Some (fs_find p (ss_fs s1) \<noteq> None) else None, s1))"

definition get_file_size :: "io_env \<Rightarrow> string \<Rightarrow> ('x, 'm) file_sink_scheme \<Rightarrow> size_t \<times> ('x, 'm) file_sink_scheme" where
  "get_file_size env p s =
     (case os_call env s of
        (ok, s1) \<Rightarrow> (case fs_find p (ss_fs s1) of
                       Some i \<Rightarrow> (if ok then of_nat (length (fs_data (ss_fs s1) i)) else 0, s1)
                     | None \<Rightarrow> (0, s1)))"

definition resync_file_size :: "io_env \<Rightarrow> ('x, 'm) file_sink_op" where
  "resync_file_size env s = (case get_file_size env (ss_filename s) s of (n, s1) \<Rightarrow> (None, s1\<lparr>ss_file_size := n\<rparr>))"

text \<open>A file that was deleted is opened anew.\<close>

definition reopen_deleted_file :: "io_env \<Rightarrow> ('x, 'm) file_sink_op" where
  "reopen_deleted_file env s =
     (case file_exists env (ss_filename s) s of
        (found, s1) \<Rightarrow>
          if found = Some False
          then run_ops [close_file env, \<lambda>s. open_file env (ss_filename s) (fk_open_mode (ss_config s)) s, resync_file_size env] s1
          else (None, s1))"

definition flush_sink :: "io_env \<Rightarrow> ('x, 'm) file_sink_op" where
  "flush_sink env s =
     (if \<not> ss_write_occurred s \<or> ss_file s = None then (None, s)
      else run_ops [stream_flush_sink env,
                    \<lambda>s. if fk_fsync_enabled (ss_config s) then fsync_file env False s else (None, s),
                    reopen_deleted_file env] s)"

subsection \<open>Construction\<close>

text \<open>
  \<open>norm_path\<close> is \<^verbatim>\<open>normalize_file_sink_path\<close>, which asks the file system; \<open>console\<close> numbers the
  standard streams. A sink that comes with an exception was not constructed.
\<close>

definition stream_sink_new ::
  "(string \<Rightarrow> quill_error + string) \<Rightarrow> (string \<Rightarrow> nat) \<Rightarrow> string \<Rightarrow> stream option \<Rightarrow> 'x file_event_notifier \<Rightarrow> file_sink_config
    \<Rightarrow> file_system \<Rightarrow> 'x \<Rightarrow> user_exception option \<times> 'x file_sink" where
  "stream_sink_new norm_path console p f ntf c fs x =
     (let s = \<lparr>ss_filename = p, ss_file = f, ss_file_size = 0, ss_notifier = ntf, ss_is_null = False, ss_write_occurred = False,
                ss_config = c, ss_last_fsync_timestamp = 0, ss_fs = fs, ss_world = x\<rparr>
      in if p = ''stdout'' \<or> p = ''stderr'' then (None, s\<lparr>ss_file := Some \<lparr>fo_file = console p, fo_pending = []\<rparr>\<rparr>)
         else if p = ''/dev/null'' then (None, s\<lparr>ss_is_null := True\<rparr>)
         else case norm_path p of
                Inl e \<Rightarrow> (Some (UserException (error_text e)), s)
              | Inr q \<Rightarrow> (None, s\<lparr>ss_filename := q\<rparr>))"

definition file_sink_new ::
  "io_env \<Rightarrow> calendar \<Rightarrow> (string \<Rightarrow> quill_error + string) \<Rightarrow> (string \<Rightarrow> nat) \<Rightarrow> string \<Rightarrow> file_sink_config \<Rightarrow> 'x file_event_notifier
    \<Rightarrow> bool \<Rightarrow> u64 \<Rightarrow> file_system \<Rightarrow> 'x \<Rightarrow> user_exception option \<times> 'x file_sink" where
  "file_sink_new env cal norm_path console p c ntf do_fopen start_time fs x =
     (case get_updated_filename_with_appended_datetime cal p c start_time of
        Inl e \<Rightarrow> (Some (UserException (error_text e)), snd (stream_sink_new norm_path console ''/dev/null'' None ntf c fs x))
      | Inr q \<Rightarrow>
          (case stream_sink_new norm_path console q None ntf c fs x of
             (Some e, s) \<Rightarrow> (Some e, s)
           | (None, s) \<Rightarrow>
               if \<not> fk_fsync_enabled c \<and> fk_minimum_fsync_interval c \<noteq> 0
               then (Some (UserException ''Cannot set a non-zero minimum fsync interval when fsync is disabled.''), s)
               else if do_fopen then open_file env (ss_filename s) (fk_open_mode c) s else (None, s)))"

subsection \<open>What was written\<close>

text \<open>The text of the open file, with what is still in the buffer.\<close>

definition stream_text :: "('x, 'm) file_sink_scheme \<Rightarrow> string" where
  "stream_text s = (case ss_file s of None \<Rightarrow> [] | Some f \<Rightarrow> fs_data (ss_fs s) (fo_file f) @ fo_pending f)"

lemma stream_text_updates [simp]:
  "stream_text (s\<lparr>ss_write_occurred := w\<rparr>) = stream_text s" "stream_text (s\<lparr>ss_last_fsync_timestamp := t\<rparr>) = stream_text s"
  "stream_text (s\<lparr>ss_file_size := n\<rparr>) = stream_text s" "stream_text (s\<lparr>ss_world := x\<rparr>) = stream_text s"
  by (simp_all add: stream_text_def split: option.split)

text \<open>Only the stream and its own file differ.\<close>

definition same_sink_but_stream :: "nat \<Rightarrow> ('x, 'm) file_sink_scheme \<Rightarrow> ('x, 'm) file_sink_scheme \<Rightarrow> bool" where
  "same_sink_but_stream i s s1 \<longleftrightarrow>
     (\<exists>fs f size w t x. s1 = s\<lparr>ss_fs := fs, ss_file := f, ss_file_size := size, ss_write_occurred := w, ss_last_fsync_timestamp := t, ss_world := x\<rparr>
       \<and> fs_names fs = fs_names (ss_fs s) \<and> fs_next fs = fs_next (ss_fs s) \<and> (\<forall>j. j \<noteq> i \<longrightarrow> fs_data fs j = fs_data (ss_fs s) j))"

lemma same_sink_refl [simp]: "same_sink_but_stream i s s"
  unfolding same_sink_but_stream_def
  by (intro exI [of _ "ss_fs s"] exI [of _ "ss_file s"] exI [of _ "ss_file_size s"] exI [of _ "ss_write_occurred s"]
      exI [of _ "ss_last_fsync_timestamp s"] exI [of _ "ss_world s"]) simp

lemma same_sink_trans:
  assumes "same_sink_but_stream i a b" "same_sink_but_stream i b c"
  shows "same_sink_but_stream i a c"
proof -
  obtain fs f size w t x where b: "b = a\<lparr>ss_fs := fs, ss_file := f, ss_file_size := size, ss_write_occurred := w, ss_last_fsync_timestamp := t, ss_world := x\<rparr>"
    "fs_names fs = fs_names (ss_fs a)" "fs_next fs = fs_next (ss_fs a)" "\<forall>j. j \<noteq> i \<longrightarrow> fs_data fs j = fs_data (ss_fs a) j"
    using assms(1) unfolding same_sink_but_stream_def by blast
  obtain fs' f' size' w' t' x' where c: "c = b\<lparr>ss_fs := fs', ss_file := f', ss_file_size := size', ss_write_occurred := w', ss_last_fsync_timestamp := t', ss_world := x'\<rparr>"
    "fs_names fs' = fs_names (ss_fs b)" "fs_next fs' = fs_next (ss_fs b)" "\<forall>j. j \<noteq> i \<longrightarrow> fs_data fs' j = fs_data (ss_fs b) j"
    using assms(2) unfolding same_sink_but_stream_def by blast
  show ?thesis
    unfolding same_sink_but_stream_def
    using b c by (intro exI [of _ fs'] exI [of _ f'] exI [of _ size'] exI [of _ w'] exI [of _ t'] exI [of _ x']) simp
qed

lemma same_sink_fields:
  assumes "same_sink_but_stream i s s1"
  shows "ss_filename s1 = ss_filename s" "ss_config s1 = ss_config s" "ss_notifier s1 = ss_notifier s" "ss_is_null s1 = ss_is_null s"
    "fs_names (ss_fs s1) = fs_names (ss_fs s)" "fs_next (ss_fs s1) = fs_next (ss_fs s)" "fs_find p (ss_fs s1) = fs_find p (ss_fs s)"
    "j \<noteq> i \<Longrightarrow> fs_data (ss_fs s1) j = fs_data (ss_fs s) j" "file_sink.more s1 = file_sink.more s"
  using assms unfolding same_sink_but_stream_def by (auto simp: fs_find_def)

lemma same_sink_I:
  assumes "fs_names fs = fs_names (ss_fs s)" "fs_next fs = fs_next (ss_fs s)" "\<And>j. j \<noteq> i \<Longrightarrow> fs_data fs j = fs_data (ss_fs s) j"
  shows "same_sink_but_stream i s (s\<lparr>ss_fs := fs, ss_file := f\<rparr>)"
    "same_sink_but_stream i s (s\<lparr>ss_fs := fs, ss_file := f, ss_write_occurred := w\<rparr>)"
    "same_sink_but_stream i s (s\<lparr>ss_fs := fs\<rparr>)"
    "same_sink_but_stream i s (s\<lparr>ss_fs := fs, ss_write_occurred := w\<rparr>)"
    "same_sink_but_stream i s (s\<lparr>ss_fs := fs, ss_last_fsync_timestamp := t\<rparr>)"
proof -
  note ex = exI [of _ fs] exI [of _ "ss_file s"] exI [of _ f] exI [of _ "ss_file_size s"] exI [of _ w] exI [of _ "ss_write_occurred s"]
    exI [of _ t] exI [of _ "ss_last_fsync_timestamp s"] exI [of _ "ss_world s"]
  show "same_sink_but_stream i s (s\<lparr>ss_fs := fs, ss_file := f\<rparr>)"
    unfolding same_sink_but_stream_def using assms
    by (intro exI [of _ fs] exI [of _ f] exI [of _ "ss_file_size s"] exI [of _ "ss_write_occurred s"] exI [of _ "ss_last_fsync_timestamp s"] exI [of _ "ss_world s"]) simp
  show "same_sink_but_stream i s (s\<lparr>ss_fs := fs, ss_file := f, ss_write_occurred := w\<rparr>)"
    unfolding same_sink_but_stream_def using assms
    by (intro exI [of _ fs] exI [of _ f] exI [of _ "ss_file_size s"] exI [of _ w] exI [of _ "ss_last_fsync_timestamp s"] exI [of _ "ss_world s"]) simp
  show "same_sink_but_stream i s (s\<lparr>ss_fs := fs\<rparr>)"
    unfolding same_sink_but_stream_def using assms
    by (intro exI [of _ fs] exI [of _ "ss_file s"] exI [of _ "ss_file_size s"] exI [of _ "ss_write_occurred s"] exI [of _ "ss_last_fsync_timestamp s"] exI [of _ "ss_world s"]) simp
  show "same_sink_but_stream i s (s\<lparr>ss_fs := fs, ss_write_occurred := w\<rparr>)"
    unfolding same_sink_but_stream_def using assms
    by (intro exI [of _ fs] exI [of _ "ss_file s"] exI [of _ "ss_file_size s"] exI [of _ w] exI [of _ "ss_last_fsync_timestamp s"] exI [of _ "ss_world s"]) simp
  show "same_sink_but_stream i s (s\<lparr>ss_fs := fs, ss_last_fsync_timestamp := t\<rparr>)"
    unfolding same_sink_but_stream_def using assms
    by (intro exI [of _ fs] exI [of _ "ss_file s"] exI [of _ "ss_file_size s"] exI [of _ "ss_write_occurred s"] exI [of _ t] exI [of _ "ss_world s"]) simp
qed

lemma drain_spec:
  "stream_text (drain n t f s) = fs_data (ss_fs s) (fo_file f) @ fo_pending f @ t"
  "ss_file (drain n t f s) = Some (f\<lparr>fo_pending := drop n (fo_pending f @ t)\<rparr>)"
  "same_sink_but_stream (fo_file f) s (drain n t f s)"
  "ss_file_size (drain n t f s) = ss_file_size s" "ss_write_occurred (drain n t f s) = ss_write_occurred s"
  by (simp_all add: drain_def stream_text_def fs_append_def same_sink_I(1) del: take_append drop_append)

lemma os_call_spec:
  assumes "os_call env s = (ok, s1)"
  shows "ss_file s1 = ss_file s" "fs_data (ss_fs s1) = fs_data (ss_fs s)" "same_sink_but_stream i s s1" "stream_text s1 = stream_text s"
    "ss_file_size s1 = ss_file_size s" "ss_write_occurred s1 = ss_write_occurred s"
  using assms by (auto simp: os_call_def stream_text_def intro: same_sink_I(3) split: option.split)

lemma safe_fwrite_spec:
  assumes "safe_fwrite env t f s = (r, s1)" "ss_file s = Some f"
  shows "\<exists>n f1. ss_file s1 = Some f1 \<and> fo_file f1 = fo_file f \<and> stream_text s1 = stream_text s @ take n t
    \<and> (r = None \<longrightarrow> length t \<le> n) \<and> same_sink_but_stream (fo_file f) s s1 \<and> ss_file_size s1 = ss_file_size s"
  using assms
proof (induction env t f s arbitrary: r s1 rule: safe_fwrite.induct)
  case (1 env t f s)
  show ?case
  proof (cases "t = []")
    case True
    with "1.prems" show ?thesis by (simp add: safe_fwrite.simps)
  next
    case False
    let ?k = "fs_calls (ss_fs s)"
    let ?n = "min (io_accepts env ?k) (length t)"
    let ?f1 = "f\<lparr>fo_pending := drop (io_drains env ?k) (fo_pending f @ take ?n t)\<rparr>"
    obtain ok s0 where call: "os_call env s = (ok, s0)" by force
    let ?s1 = "drain (io_drains env ?k) (take ?n t) f s0"
    note os = os_call_spec [OF call]
    have content: "stream_text ?s1 = stream_text s @ take ?n t"
      unfolding drain_spec(1) using "1.prems"(2) os(2) by (simp add: stream_text_def)
    have strm: "ss_file ?s1 = Some ?f1" by (simp add: drain_spec(2))
    have same: "same_sink_but_stream (fo_file f) s ?s1" by (rule same_sink_trans [OF os(3) drain_spec(3)])
    have size: "ss_file_size ?s1 = ss_file_size s" using os(5) by (simp add: drain_spec(4))
    consider (error) e where "r = Some e" "s1 = ?s1"
      | (more) "?n \<noteq> 0" "\<not> (?n < length t \<and> \<not> io_ok env ?k)" "safe_fwrite env (drop ?n t) ?f1 ?s1 = (r, s1)"
      using "1.prems"(1) False call by (subst (asm) safe_fwrite.simps) (auto simp: Let_def simp del: min_less_iff_disj split: if_splits)
    then show ?thesis
    proof cases
      case error
      with content strm same size show ?thesis by (intro exI [of _ ?n] exI [of _ ?f1]) simp
    next
      case more
      have "\<exists>n f2. ss_file s1 = Some f2 \<and> fo_file f2 = fo_file ?f1 \<and> stream_text s1 = stream_text ?s1 @ take n (drop ?n t)
          \<and> (r = None \<longrightarrow> length (drop ?n t) \<le> n) \<and> same_sink_but_stream (fo_file ?f1) ?s1 s1 \<and> ss_file_size s1 = ss_file_size ?s1"
        by (rule "1.IH" [OF False refl refl _ refl more(2,1) _ strm]) (use call more(3) in simp_all)
      then obtain n f2 where IH: "ss_file s1 = Some f2" "fo_file f2 = fo_file f" "stream_text s1 = stream_text ?s1 @ take n (drop ?n t)"
        "r = None \<longrightarrow> length (drop ?n t) \<le> n" "same_sink_but_stream (fo_file f) ?s1 s1" "ss_file_size s1 = ss_file_size ?s1"
        by auto
      have "take ?n t @ take n (drop ?n t) = take (?n + n) t" by (rule take_add [symmetric])
      with IH content same_sink_trans [OF same IH(5)] size show ?thesis
        by (intro exI [of _ "?n + n"] exI [of _ f2]) auto
    qed
  qed
qed

lemma stream_write_statement_spec:
  assumes "stream_write_statement env t f s = (r, s1)" "ss_file s = Some f"
  shows "\<exists>n f1. ss_file s1 = Some f1 \<and> fo_file f1 = fo_file f \<and> stream_text s1 = stream_text s @ take n t
    \<and> (r = None \<longrightarrow> length t \<le> n \<and> ss_write_occurred s1 \<and> ss_file_size s1 = ss_file_size s + of_nat (length t))
    \<and> (r \<noteq> None \<longrightarrow> ss_file_size s1 = ss_file_size s) \<and> same_sink_but_stream (fo_file f) s s1"
proof -
  obtain r0 s0 where w: "safe_fwrite env t f s = (r0, s0)" by force
  obtain n f1 where n: "ss_file s0 = Some f1" "fo_file f1 = fo_file f" "stream_text s0 = stream_text s @ take n t"
    "r0 = None \<longrightarrow> length t \<le> n" "same_sink_but_stream (fo_file f) s s0" "ss_file_size s0 = ss_file_size s"
    using safe_fwrite_spec [OF w assms(2)] by blast
  show ?thesis
  proof (cases r0)
    case (Some e)
    with assms(1) w n show ?thesis by (auto simp: stream_write_statement_def)
  next
    case None
    then have r: "r = None" "s1 = s0\<lparr>ss_file_size := ss_file_size s0 + of_nat (length t), ss_write_occurred := True\<rparr>"
      using assms(1) w by (simp_all add: stream_write_statement_def)
    have "same_sink_but_stream (fo_file f) s0 s1"
      unfolding same_sink_but_stream_def r(2)
      by (intro exI [of _ "ss_fs s0"] exI [of _ "ss_file s0"] exI [of _ "ss_file_size s0 + of_nat (length t)"] exI [of _ True]
          exI [of _ "ss_last_fsync_timestamp s0"] exI [of _ "ss_world s0"]) simp
    then have same: "same_sink_but_stream (fo_file f) s s1" by (rule same_sink_trans [OF n(5)])
    show ?thesis
      using n None r same by (intro exI [of _ n] exI [of _ f1]) (simp add: stream_text_def)
  qed
qed

lemma stream_flush_spec:
  assumes "stream_flush env s = (r, s1)" "ss_file s = Some f"
  shows "\<exists>f1. ss_file s1 = Some f1 \<and> fo_file f1 = fo_file f \<and> stream_text s1 = stream_text s
    \<and> (r = None \<longrightarrow> fo_pending f1 = []) \<and> same_sink_but_stream (fo_file f) s s1 \<and> ss_file_size s1 = ss_file_size s"
proof -
  let ?k = "fs_calls (ss_fs s)"
  obtain ok s0 where call: "os_call env s = (ok, s0)" by force
  note os = os_call_spec [OF call]
  define n where "n = (if ok then length (fo_pending f) else io_drains env ?k)"
  let ?d = "drain n [] f s0"
  have content: "stream_text ?d = stream_text s"
    unfolding drain_spec(1) using assms(2) os(2) by (simp add: stream_text_def)
  have same: "same_sink_but_stream (fo_file f) s ?d" by (rule same_sink_trans [OF os(3) drain_spec(3)])
  have s1: "s1 = (if ok then ?d\<lparr>ss_write_occurred := False\<rparr> else ?d)" "r = (if ok then None else Some (UserException ''fflush failed''))"
    using assms call by (auto simp: stream_flush_def n_def Let_def)
  have "same_sink_but_stream (fo_file f) ?d (?d\<lparr>ss_write_occurred := False\<rparr>)"
    using same_sink_I(4) [of "ss_fs ?d" ?d "fo_file f" False] by simp
  then have "same_sink_but_stream (fo_file f) s s1" using s1(1) same same_sink_trans [OF same] by simp
  with content s1 show ?thesis
    by (intro exI [of _ "f\<lparr>fo_pending := drop n (fo_pending f @ [])\<rparr>"])
       (use os(5) in \<open>auto simp: drain_spec stream_text_def n_def\<close>)
qed

lemma reopen_existing:
  assumes "fs_find (ss_filename s) (ss_fs s) \<noteq> None" "reopen_deleted_file env s = (r, s1)"
  shows "r = None \<and> (\<exists>ok. os_call env s = (ok, s1))"
proof -
  obtain ok s0 where call: "os_call env s = (ok, s0)" by force
  then have "fs_find (ss_filename s) (ss_fs s0) \<noteq> None" using assms(1) by (auto simp: os_call_def fs_find_def)
  with assms(2) call show ?thesis by (auto simp: reopen_deleted_file_def file_exists_def split: if_splits)
qed

lemma fsync_spec:
  assumes "fsync_file env force s = (r, s1)"
  shows "ss_file s1 = ss_file s \<and> stream_text s1 = stream_text s \<and> same_sink_but_stream i s s1 \<and> ss_file_size s1 = ss_file_size s"
proof -
  obtain ok s0 where call: "os_call env s = (ok, s0)" by force
  note os = os_call_spec [OF call]
  have keep: "same_sink_but_stream i s (s0\<lparr>ss_write_occurred := w\<rparr>)" "same_sink_but_stream i s (s0\<lparr>ss_last_fsync_timestamp := t\<rparr>)" for w t
    using same_sink_trans [OF os(3) same_sink_I(4) [of "ss_fs s0" s0 i w]] same_sink_trans [OF os(3) same_sink_I(5) [of "ss_fs s0" s0 i t]]
    by simp_all
  have "s1 = s \<or> s1 = s0 \<or> s1 = s0\<lparr>ss_write_occurred := True\<rparr> \<or> (\<exists>t. s1 = s0\<lparr>ss_last_fsync_timestamp := t\<rparr>)"
    using assms call by (auto simp: fsync_file_def Let_def split: if_splits bool.splits)
  with os keep show ?thesis by (elim disjE exE) simp_all
qed

lemma flush_sink_spec:
  assumes "flush_sink env s = (r, s1)" "ss_file s = Some f" "fs_find (ss_filename s) (ss_fs s) \<noteq> None"
  shows "\<exists>f1. ss_file s1 = Some f1 \<and> fo_file f1 = fo_file f \<and> stream_text s1 = stream_text s
    \<and> (r = None \<and> ss_write_occurred s \<longrightarrow> fo_pending f1 = []) \<and> same_sink_but_stream (fo_file f) s s1 \<and> ss_file_size s1 = ss_file_size s"
proof (cases "ss_write_occurred s")
  case False
  with assms(1,2) show ?thesis by (simp add: flush_sink_def)
next
  case True
  obtain r2 s2 where fl: "stream_flush env s = (r2, s2)" by force
  obtain f2 where f2: "ss_file s2 = Some f2" "fo_file f2 = fo_file f" "stream_text s2 = stream_text s"
    "r2 = None \<longrightarrow> fo_pending f2 = []" "same_sink_but_stream (fo_file f) s s2" "ss_file_size s2 = ss_file_size s"
    using stream_flush_spec [OF fl assms(2)] by blast
  obtain r3 s3 where sync: "(if fk_fsync_enabled (ss_config s2) then fsync_file env False s2 else (None, s2)) = (r3, s3)" by force
  have s3: "ss_file s3 = Some f2" "stream_text s3 = stream_text s2" "same_sink_but_stream (fo_file f) s2 s3" "ss_file_size s3 = ss_file_size s2"
    using sync fsync_spec [of env False s2 r3 s3 "fo_file f"] f2(1) by (auto split: if_splits)
  note same3 = same_sink_trans [OF f2(5) s3(3)]
  obtain r4 s4 where re: "reopen_deleted_file env s3 = (r4, s4)" by force
  have "fs_find (ss_filename s3) (ss_fs s3) \<noteq> None"
    using assms(3) same_sink_fields(1,7) [OF same3] by simp
  from reopen_existing [OF this re] obtain ok where r4: "r4 = None" and call: "os_call env s3 = (ok, s4)" by blast
  note os = os_call_spec [OF call]
  have run: "flush_sink env s = (case r2 of Some e \<Rightarrow> (Some e, s2) | None \<Rightarrow> (case r3 of Some e \<Rightarrow> (Some e, s3) | None \<Rightarrow> (r4, s4)))"
    using True assms(2) fl sync re by (auto simp: flush_sink_def stream_flush_sink_def split: option.splits)
  consider "r = r2" "s1 = s2" "r2 \<noteq> None" | "r2 = None" "r = r3" "s1 = s3" | "r2 = None" "r = r4" "s1 = s4"
    using assms(1) run by (auto split: option.splits)
  then show ?thesis
  proof cases
    case 3
    with f2 s3 os same_sink_trans [OF same3 os(3)] show ?thesis by simp
  qed (use f2 s3 same3 in auto)
qed

datatype file_sink_call = WriteLog string | FlushSink

fun file_sink_calls ::
  "io_env \<Rightarrow> file_sink_call list \<Rightarrow> ('x, 'm) file_sink_scheme \<Rightarrow> user_exception option list \<times> ('x, 'm) file_sink_scheme" where
  "file_sink_calls env [] s = ([], s)"
| "file_sink_calls env (c # cs) s =
     (case (case c of WriteLog t \<Rightarrow> stream_write_log env t s | FlushSink \<Rightarrow> flush_sink env s) of
        (r, s1) \<Rightarrow> (case file_sink_calls env cs s1 of (rs, s2) \<Rightarrow> (r # rs, s2)))"

text \<open>What a call adds to the file: a statement whole, or a part of it when the call threw.\<close>

fun adds :: "file_sink_call \<times> user_exception option \<Rightarrow> string \<Rightarrow> bool" where
  "adds (WriteLog t, r) p \<longleftrightarrow> (\<exists>n. p = take n t) \<and> (r = None \<longrightarrow> p = t)"
| "adds (FlushSink, r) p \<longleftrightarrow> p = []"

lemma file_sink_calls_spec:
  assumes "file_sink_calls env cs s = (rs, s1)" "ss_file s = Some f" "fs_find (ss_filename s) (ss_fs s) \<noteq> None"
    and "ev_before_write (ss_notifier s) = None"
  shows "\<exists>f1 ps. ss_file s1 = Some f1 \<and> fo_file f1 = fo_file f \<and> stream_text s1 = stream_text s @ concat ps
    \<and> length rs = length cs \<and> list_all2 adds (zip cs rs) ps \<and> same_sink_but_stream (fo_file f) s s1
    \<and> (\<forall>t. (\<exists>cs' rs'. cs = cs' @ [WriteLog t, FlushSink] \<and> rs = rs' @ [None, None]) \<longrightarrow> fo_pending f1 = [])"
  using assms
proof (induction cs arbitrary: s f rs)
  case (Cons c cs)
  obtain r s2 where step: "(case c of WriteLog t \<Rightarrow> stream_write_log env t s | FlushSink \<Rightarrow> flush_sink env s) = (r, s2)" by force
  obtain rs2 where rest: "file_sink_calls env cs s2 = (rs2, s1)" and rs: "rs = r # rs2"
    using Cons.prems(1) step by (auto split: prod.splits)
  have one: "\<exists>f2 p. ss_file s2 = Some f2 \<and> fo_file f2 = fo_file f \<and> stream_text s2 = stream_text s @ p \<and> adds (c, r) p
      \<and> same_sink_but_stream (fo_file f) s s2 \<and> (\<forall>t. c = WriteLog t \<and> r = None \<longrightarrow> ss_write_occurred s2)"
  proof (cases c)
    case (WriteLog t)
    then have "stream_write_statement env t f s = (r, s2)"
      using step Cons.prems(2,4) by (simp add: stream_write_log_def)
    from stream_write_statement_spec [OF this Cons.prems(2)] obtain n f1 where n: "ss_file s2 = Some f1" "fo_file f1 = fo_file f"
      "stream_text s2 = stream_text s @ take n t" "r = None \<longrightarrow> length t \<le> n \<and> ss_write_occurred s2" "same_sink_but_stream (fo_file f) s s2"
      by blast
    with WriteLog show ?thesis by (intro exI [of _ f1] exI [of _ "take n t"]) auto
  next
    case FlushSink
    then have "flush_sink env s = (r, s2)" using step by simp
    from flush_sink_spec [OF this Cons.prems(2,3)] FlushSink show ?thesis by auto
  qed
  then obtain f2 p where p: "ss_file s2 = Some f2" "fo_file f2 = fo_file f" "stream_text s2 = stream_text s @ p" "adds (c, r) p"
    "same_sink_but_stream (fo_file f) s s2" "\<forall>t. c = WriteLog t \<and> r = None \<longrightarrow> ss_write_occurred s2" by blast
  note fields = same_sink_fields [OF p(5)]
  have name: "fs_find (ss_filename s2) (ss_fs s2) \<noteq> None" "ev_before_write (ss_notifier s2) = None"
    using Cons.prems(3,4) fields(1,3,7) by simp_all
  obtain f1 ps where IH: "ss_file s1 = Some f1" "fo_file f1 = fo_file f2" "stream_text s1 = stream_text s2 @ concat ps"
    "length rs2 = length cs" "list_all2 adds (zip cs rs2) ps" "same_sink_but_stream (fo_file f2) s2 s1"
    "\<forall>t. (\<exists>cs' rs'. cs = cs' @ [WriteLog t, FlushSink] \<and> rs2 = rs' @ [None, None]) \<longrightarrow> fo_pending f1 = []"
    using Cons.IH [OF rest p(1) name] by blast
  have last: "fo_pending f1 = []" if two: "c # cs = cs' @ [WriteLog t, FlushSink]" "rs = rs' @ [None, None]" for cs' rs' t
  proof (cases cs')
    case Nil
    then have c: "c = WriteLog t" "cs = [FlushSink]" using two(1) by simp_all
    have "length rs = 2" using c(2) IH(4) rs by simp
    then have "r = None" "rs2 = [None]" using two(2) rs by auto
    with c rest p(6) have "flush_sink env s2 = (None, s1)" "ss_write_occurred s2" by (auto split: prod.splits)
    with flush_sink_spec [OF _ p(1) name(1)] IH(1) show ?thesis by fastforce
  next
    case (Cons a cs1)
    then have cs: "cs = cs1 @ [WriteLog t, FlushSink]" using two(1) by simp
    then obtain rs1 where "rs' = r # rs1" using two(2) rs IH(4) by (cases rs') auto
    with two(2) rs have "rs2 = rs1 @ [None, None]" by simp
    with IH(7) cs show ?thesis by blast
  qed
  have same: "same_sink_but_stream (fo_file f) s s1" using same_sink_trans [OF p(5)] IH(6) p(2) by simp
  have all: "\<forall>t. (\<exists>cs' rs'. c # cs = cs' @ [WriteLog t, FlushSink] \<and> rs = rs' @ [None, None]) \<longrightarrow> fo_pending f1 = []"
    using last by blast
  have parts: "stream_text s1 = stream_text s @ concat (p # ps)" "length rs = length (c # cs)" "list_all2 adds (zip (c # cs) rs) (p # ps)"
    "fo_file f1 = fo_file f"
    using IH p rs by simp_all
  from IH(1) parts same all show ?case by blast
qed auto


definition example_io :: io_env where
  "example_io = \<lparr>io_ok = \<lambda>k. k \<noteq> 1, io_accepts = \<lambda>_. 2, io_drains = \<lambda>_. 1, io_now = \<lambda>_. 0\<rparr>"

definition example_notifier :: "unit file_event_notifier" where
  "example_notifier = \<lparr>ev_before_open = None, ev_after_open = None, ev_before_close = None, ev_after_close = None, ev_before_write = None\<rparr>"

definition example_file_sink :: "unit file_sink" where
  "example_file_sink = \<lparr>ss_filename = ''/l/a.log'', ss_file = Some \<lparr>fo_file = 0, fo_pending = []\<rparr>, ss_file_size = 0, ss_notifier = example_notifier,
     ss_is_null = False, ss_write_occurred = False, ss_config = file_sink_config_new, ss_last_fsync_timestamp = 0,
     ss_fs = \<lparr>fs_names = [(''/l/a.log'', 0)], fs_data = \<lambda>_. [], fs_next = 1, fs_calls = 0\<rparr>, ss_world = ()\<rparr>"


end
