(* ===== verification/Rotation_Time.thy ===== *)
theory Rotation_Time
  imports File_Sink
begin

text \<open>
  The configuration of a rotating sink and the points in time at which it rotates, from
  \<^verbatim>\<open>quill/sinks/RotatingSink.h\<close>. What \<^verbatim>\<open>gmtime\<close>, \<^verbatim>\<open>localtime\<close>, \<^verbatim>\<open>timegm\<close> and \<^verbatim>\<open>mktime\<close> do is a parameter.
\<close>

subsection \<open>Configuration\<close>

datatype rotation_frequency = Disabled | Daily | Hourly | Minutely

record rotating_file_sink_config = file_sink_config +
  rc_daily_rotation_time :: "int \<times> int"
  rc_rotation_max_file_size :: size_t
  rc_max_backup_files :: u32
  rc_rotation_interval :: u32
  rc_rotation_frequency :: rotation_frequency
  rc_rotation_naming_scheme :: rotation_naming_scheme
  rc_overwrite_rolled_files :: bool
  rc_remove_old_files :: bool
  rc_rotation_on_creation :: bool

definition disabled_daily_rotation_time :: "int \<times> int" where
  "disabled_daily_rotation_time = (2 ^ 63 - 1, 2 ^ 63 - 1)"

definition rotating_file_sink_config_new :: rotating_file_sink_config where
  "rotating_file_sink_config_new = file_sink_config.extend file_sink_config_new
     \<lparr>rc_daily_rotation_time = disabled_daily_rotation_time, rc_rotation_max_file_size = 0, rc_max_backup_files = - 1,
      rc_rotation_interval = 0, rc_rotation_frequency = Disabled, rc_rotation_naming_scheme = Index,
      rc_overwrite_rolled_files = True, rc_remove_old_files = True, rc_rotation_on_creation = False\<rparr>"

definition set_rotation_max_file_size :: "size_t \<Rightarrow> rotating_file_sink_config \<Rightarrow> quill_error + rotating_file_sink_config" where
  "set_rotation_max_file_size v c =
     (if v < 512 then Inl (QuillError ''rotation_max_file_size must be greater than or equal to 512 bytes'')
      else Inr (c\<lparr>rc_rotation_max_file_size := v\<rparr>))"

definition set_rotation_frequency_and_interval ::
  "char \<Rightarrow> u32 \<Rightarrow> rotating_file_sink_config \<Rightarrow> quill_error + rotating_file_sink_config" where
  "set_rotation_frequency_and_interval frequency interval c =
     (case (if frequency = CHR ''M'' \<or> frequency = CHR ''m'' then Some (Minutely, 60 * 1000000000)
            else if frequency = CHR ''H'' \<or> frequency = CHR ''h'' then Some (Hourly, 60 * 60 * 1000000000)
            else None) of
        None \<Rightarrow> Inl (QuillError ''Invalid frequency. Valid values are 'M' or 'm' for minutes or 'H' or 'h' for hours'')
      | Some (rotation_frequency, interval_unit_ns) \<Rightarrow>
          if interval = 0 then Inl (QuillError ''interval must be set to a value greater than 0'')
          else if unat interval > (2 ^ 63 - 1) div interval_unit_ns
          then Inl (QuillError ''rotation interval is too large to represent in nanoseconds'')
          else Inr (c\<lparr>rc_rotation_frequency := rotation_frequency, rc_rotation_interval := interval,
                       rc_daily_rotation_time := disabled_daily_rotation_time\<rparr>))"

fun colon_tokens :: "string \<Rightarrow> string \<Rightarrow> string list" where
  "colon_tokens token [] = [token]"
| "colon_tokens token (c # s) = (if c = CHR '':'' then token # colon_tokens [] s else colon_tokens (token @ [c]) s)"

definition parse_two_digit_time_component :: "string \<Rightarrow> quill_error + nat" where
  "parse_two_digit_time_component token =
     (if length token \<noteq> 2 \<or> \<not> is_digit (token ! 0) \<or> \<not> is_digit (token ! 1)
      then Inl (QuillError ''Invalid daily_rotation_time_str value format. Each component of the time (HH and MM) should be two digits.'')
      else Inr (digit_value (token ! 0) * 10 + digit_value (token ! 1)))"

definition parse_daily_rotation_time :: "string \<Rightarrow> quill_error + (int \<times> int)" where
  "parse_daily_rotation_time s =
     (let tokens = colon_tokens [] s in
      if length tokens \<noteq> 2 then Inl (QuillError ''Invalid daily_rotation_time_str value format. The format should be `HH:MM`.'')
      else if \<exists>t \<in> set tokens. length t \<noteq> 2
      then Inl (QuillError ''Invalid daily_rotation_time_str value format. Each component of the time (HH and MM) should be two digits.'')
      else case parse_two_digit_time_component (tokens ! 0) of
             Inl e \<Rightarrow> Inl e
           | Inr hours \<Rightarrow>
               (case parse_two_digit_time_component (tokens ! 1) of
                  Inl e \<Rightarrow> Inl e
                | Inr minutes \<Rightarrow>
                    if hours > 23 \<or> minutes > 59
                    then Inl (QuillError ''Invalid rotation values. The hour value should be between 00 and 23, and the minute value should be between 00 and 59.'')
                    else Inr (int hours, int minutes)))"

text \<open>The frequency is set before the time is parsed, and stays set when that throws.\<close>

definition set_rotation_time_daily :: "string \<Rightarrow> rotating_file_sink_config \<Rightarrow> quill_error option \<times> rotating_file_sink_config" where
  "set_rotation_time_daily s c =
     (let c1 = c\<lparr>rc_rotation_frequency := Daily, rc_rotation_interval := 0\<rparr>
      in case parse_daily_rotation_time s of
           Inl e \<Rightarrow> (Some e, c1)
         | Inr t \<Rightarrow> (None, c1\<lparr>rc_daily_rotation_time := t\<rparr>))"

subsection \<open>Points in time\<close>

text \<open>
  Broken-down time; \<open>tm_month\<close> counts the months and is not touched. The casts to \<^verbatim>\<open>int\<close> keep 32 bits. \<^verbatim>\<open>mktime\<close> and \<^verbatim>\<open>timegm\<close> bring the
  fields they are given into their ranges.
\<close>

record tm =
  tm_sec :: int
  tm_min :: int
  tm_hour :: int
  tm_mday :: int
  tm_month :: int
  tm_isdst :: int

record rotation_calendar =
  rl_tm :: "timezone \<Rightarrow> int \<Rightarrow> tm"
  rl_time :: "timezone \<Rightarrow> tm \<Rightarrow> int \<times> tm"

definition to_int :: "int \<Rightarrow> int" where
  "to_int n = sint (word_of_int n :: 32 word)"

definition timestamp_ns_to_time_t :: "u64 \<Rightarrow> quill_error + int" where
  "timestamp_ns_to_time_t timestamp_ns =
     (let seconds_since_epoch = unat timestamp_ns div 1000000000
      in if seconds_since_epoch > 2 ^ 63 - 1 then Inl (QuillError ''timestamp is too large to represent as time_t'')
         else Inr (int seconds_since_epoch))"

definition seconds_to_nanoseconds_saturated :: "u64 \<Rightarrow> u64" where
  "seconds_to_nanoseconds_saturated seconds =
     (if seconds > (- 1) div 1000000000 then - 1 else seconds * 1000000000)"

text \<open>\<^verbatim>\<open>mktime\<close> is to find out about daylight saving time by itself.\<close>

definition to_timestamp :: "rotation_calendar \<Rightarrow> timezone \<Rightarrow> tm \<Rightarrow> int \<times> tm" where
  "to_timestamp cal tz date = rl_time cal tz (if tz = LocalTime then date\<lparr>tm_isdst := - 1\<rparr> else date)"

definition calculate_next_daily_rotation_tp :: "rotation_calendar \<Rightarrow> int \<Rightarrow> rotating_file_sink_config \<Rightarrow> u64" where
  "calculate_next_daily_rotation_tp cal reference_time c =
     (let tz = fk_time_zone c;
          date = (rl_tm cal tz reference_time)\<lparr>tm_hour := to_int (fst (rc_daily_rotation_time c)), tm_min := to_int (snd (rc_daily_rotation_time c)), tm_sec := 0\<rparr>;
          (rotation_time, date1) = to_timestamp cal tz date
      in seconds_to_nanoseconds_saturated (word_of_int
           (if rotation_time \<le> reference_time then fst (to_timestamp cal tz (date1\<lparr>tm_mday := tm_mday date1 + 1\<rparr>)) else rotation_time)))"

text \<open>The seconds of an interval; the frequency is \<open>Minutely\<close> or \<open>Hourly\<close>.\<close>

definition interval_seconds :: "rotating_file_sink_config \<Rightarrow> int" where
  "interval_seconds c = int (unat (rc_rotation_interval c)) * (if rc_rotation_frequency c = Minutely then 60 else 3600)"

definition calculate_initial_rotation_tp :: "rotation_calendar \<Rightarrow> u64 \<Rightarrow> rotating_file_sink_config \<Rightarrow> quill_error + u64" where
  "calculate_initial_rotation_tp cal start_time_ns c =
     (case timestamp_ns_to_time_t start_time_ns of
        Inl e \<Rightarrow> Inl e
      | Inr time_now \<Rightarrow>
          let tz = fk_time_zone c; date = rl_tm cal tz time_now; n = int (unat (rc_rotation_interval c));
              from_date = (\<lambda>date. let rotation_time = fst (rl_time cal tz date)
                in Inr (seconds_to_nanoseconds_saturated
                     (word_of_int (if rotation_time > time_now then rotation_time else rotation_time + interval_seconds c))))
          in case rc_rotation_frequency c of
               Minutely \<Rightarrow> from_date (date\<lparr>tm_min := tm_min date + n, tm_sec := 0\<rparr>)
             | Hourly \<Rightarrow> from_date (date\<lparr>tm_hour := tm_hour date + n, tm_min := 0, tm_sec := 0\<rparr>)
             | Daily \<Rightarrow> Inr (calculate_next_daily_rotation_tp cal time_now c)
             | Disabled \<Rightarrow> Inl (QuillError ''Invalid rotation frequency''))"

definition calculate_rotation_tp :: "rotation_calendar \<Rightarrow> u64 \<Rightarrow> u64 \<Rightarrow> rotating_file_sink_config \<Rightarrow> quill_error + u64" where
  "calculate_rotation_tp cal previous_rotation_tp record_timestamp_ns c =
     (if rc_rotation_frequency c = Minutely \<or> rc_rotation_frequency c = Hourly then
        let interval_ns = word_of_int (interval_seconds c * 1000000000) :: u64;
            intervals_elapsed = (record_timestamp_ns - previous_rotation_tp) div interval_ns;
            intervals_to_next_rotation = intervals_elapsed + 1;
            remaining_timestamp_range = (- 1) - previous_rotation_tp
        in if intervals_to_next_rotation > remaining_timestamp_range div interval_ns then Inr (- 1)
           else Inr (previous_rotation_tp + intervals_to_next_rotation * interval_ns)
      else if rc_rotation_frequency c = Daily then
        (case timestamp_ns_to_time_t record_timestamp_ns of
           Inl e \<Rightarrow> Inl e
         | Inr t \<Rightarrow> Inr (calculate_next_daily_rotation_tp cal t c))
      else Inl (QuillError ''Invalid rotation frequency''))"

subsection \<open>Properties\<close>

text \<open>What a setter accepts.\<close>

definition rotation_interval_ok :: "rotating_file_sink_config \<Rightarrow> bool" where
  "rotation_interval_ok c \<longleftrightarrow> 0 < rc_rotation_interval c \<and> interval_seconds c * 1000000000 < 2 ^ 63"

lemma set_rotation_frequency_accepts:
  assumes "set_rotation_frequency_and_interval f i c = Inr c1"
  shows "rotation_interval_ok c1 \<and> (rc_rotation_frequency c1 = Minutely \<or> rc_rotation_frequency c1 = Hourly)"
proof -
  have "int (unat i) * u * 1000000000 < 2 ^ 63" if "unat i \<le> (2 ^ 63 - 1) div (nat u * 1000000000)" "0 < u" for u :: int
  proof -
    have "unat i * (nat u * 1000000000) \<le> 2 ^ 63 - 1"
      using that(1) by (meson div_times_less_eq_dividend le_trans mult_le_mono1)
    then have "int (unat i * (nat u * 1000000000)) \<le> int (2 ^ 63 - 1)" by (simp only: of_nat_le_iff)
    moreover have "int (unat i * (nat u * 1000000000)) = int (unat i) * u * 1000000000" using that(2) by simp
    moreover have "int (2 ^ 63 - 1) < 2 ^ 63" by simp
    ultimately show ?thesis by linarith
  qed
  from this [of 60] this [of 3600] assms show ?thesis
    by (auto simp: set_rotation_frequency_and_interval_def rotation_interval_ok_def interval_seconds_def not_less
        word_neq_0_conv split: if_splits)
qed

lemma timestamp_never_too_large: "timestamp_ns_to_time_t t = Inr (int (unat t div 1000000000))"
proof -
  have "unat t < 2 ^ 64" by (rule order_less_le_trans [OF unsigned_less]) simp
  then have "unat t div 1000000000 \<le> 2 ^ 63 - 1" by (simp add: div_le_mono)
  then show ?thesis by (simp add: timestamp_ns_to_time_t_def Let_def)
qed

lemma saturated_later:
  assumes "t < unat seconds * 1000000000"
  shows "t < unat (seconds_to_nanoseconds_saturated seconds) \<or> seconds_to_nanoseconds_saturated seconds = - 1"
proof (cases "seconds > (- 1) div 1000000000")
  case False
  have "unat ((- 1 :: u64) div 1000000000) = (2 ^ 64 - 1) div 1000000000" by (simp add: unat_div unsigned_minus_1_eq_mask mask_eq_exp_minus_1)
  then have "unat seconds \<le> (2 ^ 64 - 1) div 1000000000" using False by (simp add: not_less word_le_nat_alt)
  then have "unat seconds * 1000000000 \<le> 2 ^ 64 - 1" by (meson div_times_less_eq_dividend le_trans mult_le_mono1)
  then have "unat (seconds * 1000000000) = unat seconds * 1000000000" by (simp add: unat_word_ariths)
  with assms False show ?thesis by (simp add: seconds_to_nanoseconds_saturated_def)
qed (simp add: seconds_to_nanoseconds_saturated_def)

lemma to_int_small: "0 \<le> n \<Longrightarrow> n < 2 ^ 31 \<Longrightarrow> to_int n = n"
  by (simp add: to_int_def signed_of_int signed_take_bit_int_eq_self)

text \<open>
  The documentation of the calendar functions, for a time of day: the same time one day on from a day
  that holds \<open>t\<close>, normalised, is later than \<open>t\<close>, and times are not beyond what 64 bits hold.
\<close>

definition calendar_laws :: "rotation_calendar \<Rightarrow> bool" where
  "calendar_laws cal \<longleftrightarrow> (\<forall>tz t h mi. 0 \<le> t \<and> t < 2 ^ 62 \<and> 0 \<le> h \<and> h \<le> 23 \<and> 0 \<le> mi \<and> mi \<le> 59 \<longrightarrow>
     (let (r, date1) = to_timestamp cal tz (((rl_tm cal tz t)\<lparr>tm_hour := h, tm_min := mi, tm_sec := 0\<rparr>));
          r1 = fst (to_timestamp cal tz ((date1\<lparr>tm_mday := tm_mday date1 + 1\<rparr>)))
      in r < 2 ^ 63 \<and> t < r1 \<and> r1 < 2 ^ 63))"

definition daily_time_ok :: "rotating_file_sink_config \<Rightarrow> bool" where
  "daily_time_ok c \<longleftrightarrow> (case rc_daily_rotation_time c of (h, mi) \<Rightarrow> 0 \<le> h \<and> h \<le> 23 \<and> 0 \<le> mi \<and> mi \<le> 59)"

lemma next_daily_later:
  assumes "calendar_laws cal" "daily_time_ok c" "0 \<le> t" "t < 2 ^ 62" "ns < (nat t + 1) * 1000000000"
  shows "ns < unat (calculate_next_daily_rotation_tp cal t c) \<or> calculate_next_daily_rotation_tp cal t c = - 1"
proof -
  let ?z = "fk_time_zone c"
  obtain h mi where hm: "rc_daily_rotation_time c = (h, mi)" by force
  with assms(2) have range: "0 \<le> h" "h \<le> 23" "0 \<le> mi" "mi \<le> 59" by (simp_all add: daily_time_ok_def)
  let ?date = "(rl_tm cal ?z t)\<lparr>tm_hour := h, tm_min := mi, tm_sec := 0\<rparr>"
  obtain r date1 where rd: "to_timestamp cal ?z (?date) = (r, date1)" by force
  define r1 where "r1 = fst (to_timestamp cal ?z ((date1\<lparr>tm_mday := tm_mday date1 + 1\<rparr>)))"
  let ?r = "if r \<le> t then r1 else r"
  have laws: "r < 2 ^ 63" "t < r1" "r1 < 2 ^ 63"
    using assms(1) [unfolded calendar_laws_def, rule_format, of t h mi ?z] assms(3,4) range rd by (simp_all add: Let_def r1_def)
  then have r: "t < ?r" "?r < 2 ^ 63" by auto
  then have "unat (word_of_int ?r :: u64) = nat ?r" using assms(3) by (simp add: unsigned_of_int take_bit_int_eq_self)
  moreover have "nat t + 1 \<le> nat ?r" using r(1) assms(3) by linarith
  ultimately have "nat t + 1 \<le> unat (word_of_int ?r :: u64)" by simp
  from mult_le_mono1 [OF this, of 1000000000] assms(5)
  have "ns < unat (word_of_int ?r :: u64) * 1000000000" by (rule order_less_le_trans [rotated])
  note saturated_later [OF this]
  moreover have "calculate_next_daily_rotation_tp cal t c = seconds_to_nanoseconds_saturated (word_of_int ?r)"
    using rd range hm by (simp add: calculate_next_daily_rotation_tp_def Let_def to_int_small r1_def)
  ultimately show ?thesis by simp
qed


lemma next_interval:
  fixes prev rec tp :: u64
  assumes "prev \<le> rec" "2 \<le> n" "n < 2 ^ 63"
    and "tp = (let i = of_nat n; k = (rec - prev) div i + 1 in if k > (- 1 - prev) div i then - 1 else prev + k * i)"
  shows "(\<exists>k. unat tp = unat prev + k * n \<and> rec < tp \<and> unat tp \<le> unat rec + n) \<or> tp = - 1 \<and> 2 ^ 64 \<le> unat rec + n"
proof -
  let ?i = "of_nat n :: u64"
  define q where "q = (unat rec - unat prev) div n"
  have bound: "unat rec < 2 ^ 64" "unat prev < 2 ^ 64" by (rule order_less_le_trans [OF unsigned_less], simp)+
  have le: "unat prev \<le> unat rec" using assms(1) by (simp add: word_le_nat_alt)
  have i: "unat ?i = n" using assms(3) by (simp add: unsigned_of_nat take_bit_nat_eq_self)
  have q: "unat ((rec - prev) div ?i) = q" using assms(1) by (simp add: unat_div i q_def unat_sub)
  have qn: "q * n \<le> unat rec - unat prev" "unat rec - unat prev < q * n + n"
    unfolding q_def using assms(2) dividend_less_div_times [of n "unat rec - unat prev"] by (simp_all add: div_times_less_eq_dividend)
  have "q * 2 \<le> q * n" using assms(2) by simp
  moreover have "(2 :: nat) \<le> 2 ^ 64" by simp
  ultimately have "q + 1 < 2 ^ 64" using qn(1) bound by linarith
  then have k: "unat ((rec - prev) div ?i + 1) = q + 1" unfolding unat_word_ariths(1) q by simp
  have rest: "unat (- 1 - prev) = 2 ^ 64 - 1 - unat prev"
  proof -
    have "prev \<le> - 1" by simp
    then show ?thesis by (simp add: unat_sub unsigned_minus_1_eq_mask mask_eq_exp_minus_1)
  qed
  have kn: "(q + 1) * n = q * n + n" by simp
  show ?thesis
  proof (cases "(rec - prev) div ?i + 1 > (- 1 - prev) div ?i")
    case True
    then have "(2 ^ 64 - 1 - unat prev) div n < q + 1" using k by (simp add: word_less_nat_alt unat_div rest i)
    then have "2 ^ 64 - 1 - unat prev < (q + 1) * n" using assms(2) by (simp add: div_less_iff_less_mult)
    then have "2 ^ 64 \<le> unat rec + n" using qn(1) le kn by linarith
    then show ?thesis using True assms(4) by (simp add: Let_def)
  next
    case False
    then have "q + 1 \<le> (2 ^ 64 - 1 - unat prev) div n" using k by (simp add: word_less_nat_alt unat_div rest i)
    then have fits: "(q + 1) * n \<le> 2 ^ 64 - 1 - unat prev" by (meson div_times_less_eq_dividend le_trans mult_le_mono1)
    then have small: "(q + 1) * n < 2 ^ 64" "unat prev + (q + 1) * n < 2 ^ 64" using bound(2) by linarith+
    have "unat (((rec - prev) div ?i + 1) * ?i) = (q + 1) * n" unfolding unat_word_ariths(2) k i using small(1) by simp
    then have tp: "unat (prev + ((rec - prev) div ?i + 1) * ?i) = unat prev + (q + 1) * n"
      using small(2) by (simp add: unat_word_ariths(1) [of prev])
    have "tp = prev + ((rec - prev) div ?i + 1) * ?i" using False assms(4) by (simp add: Let_def)
    then have "unat tp = unat prev + (q + 1) * n" using tp by simp
    moreover from this have "unat rec < unat tp" "unat tp \<le> unat rec + n" using qn le kn by linarith+
    ultimately show ?thesis unfolding word_less_nat_alt by blast
  qed
qed

text \<open>
  C35. A rotation by time is followed by the next one: with an interval the next point in time is a
  whole number of intervals behind the previous one, later than the record and at most one interval
  behind it, or no such time can be represented; a daily rotation is later than the record.
\<close>

theorem rotation_time_is_next:
  assumes "prev \<le> rec" "calculate_rotation_tp cal prev rec c = Inr tp"
  shows "(rc_rotation_frequency c \<in> {Minutely, Hourly} \<and> rotation_interval_ok c \<longrightarrow>
      (\<exists>k. int (unat tp) = int (unat prev) + int k * (interval_seconds c * 1000000000) \<and> rec < tp
         \<and> int (unat tp) \<le> int (unat rec) + interval_seconds c * 1000000000)
      \<or> tp = - 1 \<and> 2 ^ 64 \<le> int (unat rec) + interval_seconds c * 1000000000)
    \<and> (rc_rotation_frequency c = Daily \<and> calendar_laws cal \<and> daily_time_ok c \<longrightarrow> rec < tp \<or> tp = - 1)"
proof (intro conjI impI)
  assume daily: "rc_rotation_frequency c = Daily \<and> calendar_laws cal \<and> daily_time_ok c"
  let ?t = "int (unat rec div 1000000000)"
  have "tp = calculate_next_daily_rotation_tp cal ?t c"
    using assms(2) daily by (simp add: calculate_rotation_tp_def timestamp_never_too_large)
  moreover have "unat rec < 2 ^ 64" by (rule order_less_le_trans [OF unsigned_less]) simp
  then have "unat rec div 1000000000 < 2 ^ 62" by (simp add: div_less_iff_less_mult)
  then have "int (unat rec div 1000000000) < int (2 ^ 62)" by (simp only: of_nat_less_iff)
  then have "?t < 2 ^ 62" by simp
  moreover have "unat rec < (nat ?t + 1) * 1000000000" by simp
  ultimately show "rec < tp \<or> tp = - 1"
    using next_daily_later [of cal c ?t "unat rec"] daily by (auto simp: word_less_nat_alt)
next
  assume freq: "rc_rotation_frequency c \<in> {Minutely, Hourly} \<and> rotation_interval_ok c"
  define n where "n = nat (interval_seconds c * 1000000000)"
  have "0 < unat (rc_rotation_interval c)" using freq by (auto simp: rotation_interval_ok_def word_less_nat_alt)
  then have pos: "0 < interval_seconds c" unfolding interval_seconds_def by (simp only: of_nat_0_less_iff mult_pos_pos zero_less_numeral split: if_split) simp
  then have n: "2 \<le> n" "int n = interval_seconds c * 1000000000" "n < 2 ^ 63" using freq by (simp_all add: n_def rotation_interval_ok_def nat_less_iff)
  show "(\<exists>k. int (unat tp) = int (unat prev) + int k * (interval_seconds c * 1000000000) \<and> rec < tp
       \<and> int (unat tp) \<le> int (unat rec) + interval_seconds c * 1000000000)
     \<or> tp = - 1 \<and> 2 ^ 64 \<le> int (unat rec) + interval_seconds c * 1000000000"
  proof -
    have w: "(word_of_int (interval_seconds c * 1000000000) :: u64) = of_nat n" unfolding n(2) [symmetric] by simp
    have "tp = (let i = of_nat n; k = (rec - prev) div i + 1 in if k > (- 1 - prev) div i then - 1 else prev + k * i)"
      using assms(2) freq unfolding calculate_rotation_tp_def Let_def w
      by (cases "(rec - prev) div of_nat n + 1 > (- 1 - prev) div of_nat n") (simp_all only: insert_iff empty_iff simp_thms if_True if_False sum.inject)
    from next_interval [OF assms(1) n(1,3) this] show ?thesis
    proof (elim disjE exE conjE)
      fix k
      assume k: "unat tp = unat prev + k * n" "rec < tp" "unat tp \<le> unat rec + n"
      have "int (unat tp) = int (unat prev) + int k * int n" unfolding k(1) by (simp only: of_nat_add of_nat_mult)
      moreover have "int (unat tp) \<le> int (unat rec) + int n" using k(3) by linarith
      moreover note k(2)
      ultimately show ?thesis unfolding n(2) by blast
    next
      assume "tp = - 1" "2 ^ 64 \<le> unat rec + n"
      moreover from this(2) have "int (2 ^ 64) \<le> int (unat rec + n)" by (simp only: of_nat_le_iff)
      then have "2 ^ 64 \<le> int (unat rec) + int n" by (simp only: of_nat_add of_nat_power of_nat_numeral)
      ultimately show ?thesis unfolding n(2) by blast
    qed
  qed
qed

definition example_calendar :: rotation_calendar where
  "example_calendar = \<lparr>rl_tm = \<lambda>_ t. \<lparr>tm_sec = t mod 60, tm_min = t div 60 mod 60, tm_hour = t div 3600 mod 24, tm_mday = t div 86400, tm_month = 0, tm_isdst = 0\<rparr>,
     rl_time = \<lambda>_ d. (tm_mday d * 86400 + tm_hour d * 3600 + tm_min d * 60 + tm_sec d, d)\<rparr>"

definition example_rotating_config :: rotating_file_sink_config where
  "example_rotating_config = rotating_file_sink_config_new\<lparr>rc_rotation_frequency := Minutely, rc_rotation_interval := 2\<rparr>"

text \<open>The laws of the calendar hold of days of 24 hours.\<close>

lemma example_calendar_laws: "calendar_laws example_calendar"
proof -
  have "t < t div 86400 * 86400 + h * 3600 + mi * 60 + 86400" "t div 86400 * 86400 + h * 3600 + mi * 60 + 86400 < 2 ^ 63"
    if "0 \<le> t" "t < 2 ^ 62" "0 \<le> h" "h \<le> 23" "0 \<le> mi" "mi \<le> 59" for t h mi :: int
  proof -
    have "t = t div 86400 * 86400 + t mod 86400" "t mod 86400 < 86400" "0 \<le> t mod 86400" by simp_all
    moreover have "t < 4611686018427387904" using that(2) by simp
    ultimately have "t < t div 86400 * 86400 + h * 3600 + mi * 60 + 86400" "t div 86400 * 86400 + h * 3600 + mi * 60 + 86400 < 9223372036854775808"
      using that(3-6) by linarith+
    then show "t < t div 86400 * 86400 + h * 3600 + mi * 60 + 86400" "t div 86400 * 86400 + h * 3600 + mi * 60 + 86400 < 2 ^ 63" by simp_all
  qed
  note bounds = this
  show ?thesis
    unfolding calendar_laws_def
  proof (intro allI impI)
    fix tz :: timezone and t h mi :: int
    assume r: "0 \<le> t \<and> t < 2 ^ 62 \<and> 0 \<le> h \<and> h \<le> 23 \<and> 0 \<le> mi \<and> mi \<le> 59"
    have "t div 86400 * 86400 + h * 3600 + mi * 60 < 2 ^ 63" using bounds(2) [of t h mi] r by linarith
    with bounds [of t h mi] r
    show "let (r, date1) = to_timestamp example_calendar tz ((rl_tm example_calendar tz t)\<lparr>tm_hour := h, tm_min := mi, tm_sec := 0\<rparr>);
          r1 = fst (to_timestamp example_calendar tz (date1\<lparr>tm_mday := tm_mday date1 + 1\<rparr>))
      in r < 2 ^ 63 \<and> t < r1 \<and> r1 < 2 ^ 63"
      by (cases tz) (simp_all add: example_calendar_def to_timestamp_def algebra_simps)
  qed
qed

theorem rotation_time_is_next_witness:
  "\<exists>tp. calculate_rotation_tp example_calendar 120000000000 500000000000 example_rotating_config = Inr tp \<and> (500000000000 :: u64) < tp
    \<and> (\<exists>k. int (unat tp) = 120000000000 + int k * 120000000000 \<and> int (unat tp) \<le> 620000000000)"
proof -
  have c: "interval_seconds example_rotating_config = 120" "rc_rotation_frequency example_rotating_config = Minutely"
    by (simp_all add: example_rotating_config_def interval_seconds_def)
  then have ok: "rotation_interval_ok example_rotating_config"
    by (simp add: rotation_interval_ok_def) (simp add: example_rotating_config_def)
  have "\<exists>tp. calculate_rotation_tp example_calendar 120000000000 500000000000 example_rotating_config = Inr tp"
    by (simp add: calculate_rotation_tp_def c Let_def)
  then obtain tp where tp: "calculate_rotation_tp example_calendar 120000000000 500000000000 example_rotating_config = Inr tp" by blast
  have le: "(120000000000 :: u64) \<le> 500000000000" by simp
  have "int (unat (500000000000 :: u64)) = 500000000000" "int (unat (120000000000 :: u64)) = 120000000000" by simp_all
  with rotation_time_is_next [OF le tp, THEN conjunct1] c ok tp show ?thesis
    by (intro exI [of _ tp]) simp
qed

end
