(* ===== verification/Rotating_Sink.thy ===== *)
theory Rotating_Sink
  imports Rotation_Time
begin

text \<open>
  \<^verbatim>\<open>quill/sinks/RotatingSink.h\<close>: a file sink that renames its file when the time has come or the file is
  full, keeps a number of renamed files, and finds them again on start. \<open>TBase\<close> is \<^verbatim>\<open>FileSink\<close>; the base
  file lies in an absolute directory, and the files of that directory are regular. The delay before
  a second attempt is left out.
\<close>

subsection \<open>State\<close>

record file_info =
  fi_base_filename :: string
  fi_date_time :: string
  fi_index :: u32

record rename_record =
  rr_original :: string
  rr_renamed :: string
  rr_created_files_idx :: nat
  rr_new_index :: u32
  rr_new_date_time :: string

text \<open>The file in use first, the oldest last.\<close>

record 'x rotating_sink = "'x file_sink" +
  rs_created_files :: "file_info list"
  rs_next_rotation_time :: u64
  rs_open_file_timestamp :: u64
  rs_config :: rotating_file_sink_config

text \<open>What the sink is given from outside: the system's answers, the calendars, and which directories there are.\<close>

record rotation_env =
  re_io :: io_env
  re_calendar :: calendar
  re_rotation_calendar :: rotation_calendar
  re_directory_exists :: "string \<Rightarrow> bool"

definition fi_name :: "file_info \<Rightarrow> string" where
  "fi_name f = get_filename (fi_base_filename f) (fi_index f) (fi_date_time f)"

definition new_file_info :: "string \<Rightarrow> file_info" where
  "new_file_info p = \<lparr>fi_base_filename = p, fi_date_time = [], fi_index = 0\<rparr>"

subsection \<open>Files\<close>

definition reopen_mode_after_failed_rotation :: "string \<Rightarrow> string" where
  "reopen_mode_after_failed_rotation open_mode =
     (case open_mode of [] \<Rightarrow> [] | c # m \<Rightarrow> if c = CHR ''w'' then CHR ''a'' # m else open_mode)"

text \<open>\<^verbatim>\<open>fs::rename\<close>, once more when it failed.\<close>

definition try_rename :: "io_env \<Rightarrow> string \<Rightarrow> string \<Rightarrow> ('x, 'm) file_sink_scheme \<Rightarrow> bool \<times> ('x, 'm) file_sink_scheme" where
  "try_rename env previous_file new_file s =
     (case os_call env s of
        (False, s1) \<Rightarrow> (False, s1)
      | (True, s1) \<Rightarrow> (case fs_rename previous_file new_file (ss_fs s1) of (ok, fs) \<Rightarrow> (ok, s1\<lparr>ss_fs := fs\<rparr>)))"

definition rename_file :: "io_env \<Rightarrow> string \<Rightarrow> string \<Rightarrow> ('x, 'm) file_sink_scheme \<Rightarrow> bool \<times> ('x, 'm) file_sink_scheme" where
  "rename_file env previous_file new_file s =
     (case try_rename env previous_file new_file s of
        (True, s1) \<Rightarrow> (True, s1)
      | (False, s1) \<Rightarrow> try_rename env previous_file new_file s1)"

text \<open>\<^verbatim>\<open>fs::status\<close>, then \<^verbatim>\<open>fs::remove\<close>; a failure is not told.\<close>

definition remove_file :: "io_env \<Rightarrow> string \<Rightarrow> ('x, 'm) file_sink_scheme \<Rightarrow> ('x, 'm) file_sink_scheme" where
  "remove_file env p s =
     (case file_exists env p s of
        (Some True, s1) \<Rightarrow>
          (case os_call env s1 of (ok, s2) \<Rightarrow> if ok then s2\<lparr>ss_fs := fs_unlink p (ss_fs s2)\<rparr> else s2)
      | (_, s1) \<Rightarrow> s1)"

subsection \<open>Rotation\<close>

definition datetime_suffix_of :: "calendar \<Rightarrow> u64 \<Rightarrow> rotating_file_sink_config \<Rightarrow> quill_error + string" where
  "datetime_suffix_of cal open_file_timestamp c =
     (case rc_rotation_naming_scheme c of
        Index \<Rightarrow> Inr []
      | Date \<Rightarrow> format_datetime_string cal open_file_timestamp (fk_time_zone c) ''%Y%m%d''
      | DateAndTime \<Rightarrow> format_datetime_string cal open_file_timestamp (fk_time_zone c) ''%Y%m%d_%H%M%S'')"

text \<open>The new index of a file, if it is to be renamed.\<close>

definition new_index_of :: "rotation_naming_scheme \<Rightarrow> string \<Rightarrow> file_info \<Rightarrow> u32 option" where
  "new_index_of scheme datetime_suffix f =
     (if scheme = Index \<or> fi_date_time f = datetime_suffix then Some (fi_index f + 1)
      else if fi_date_time f = [] then Some (fi_index f)
      else None)"

text \<open>
  The files are renamed from the oldest on; \<open>n\<close> of them are left. The records of what was renamed,
  and whether all went well.
\<close>

fun rename_loop ::
  "io_env \<Rightarrow> rotation_naming_scheme \<Rightarrow> string \<Rightarrow> file_info list \<Rightarrow> rename_record list \<Rightarrow> nat \<Rightarrow> ('x, 'm) file_sink_scheme
    \<Rightarrow> bool \<times> rename_record list \<times> ('x, 'm) file_sink_scheme" where
  "rename_loop env scheme sfx created completed_renames 0 s = (True, completed_renames, s)"
| "rename_loop env scheme sfx created completed_renames (Suc n) s =
     (let it = created ! n in
      case new_index_of scheme sfx it of
        None \<Rightarrow> rename_loop env scheme sfx created completed_renames n s
      | Some new_index \<Rightarrow>
          let existing_file = fi_name it; renamed_file = get_filename (fi_base_filename it) new_index sfx
          in (case rename_file env existing_file renamed_file s of
                (False, s1) \<Rightarrow> (False, completed_renames, s1)
              | (True, s1) \<Rightarrow>
                  rename_loop env scheme sfx created
                    (completed_renames @ [\<lparr>rr_original = existing_file, rr_renamed = renamed_file, rr_created_files_idx = n,
                                           rr_new_index = new_index, rr_new_date_time = sfx\<rparr>]) n s1))"

text \<open>What a failed rotation renamed is renamed back, the last first. Whether that worked is not asked.\<close>

fun undo_renames :: "io_env \<Rightarrow> rename_record list \<Rightarrow> ('x, 'm) file_sink_scheme \<Rightarrow> bool \<times> ('x, 'm) file_sink_scheme" where
  "undo_renames env [] s = (True, s)"
| "undo_renames env (r # rs) s =
     (case rename_file env (rr_renamed r) (rr_original r) s of
        (ok, s1) \<Rightarrow> (case undo_renames env rs s1 of (ok1, s2) \<Rightarrow> (ok \<and> ok1, s2)))"

definition apply_renames :: "rename_record list \<Rightarrow> file_info list \<Rightarrow> file_info list" where
  "apply_renames completed_renames created =
     fold (\<lambda>r fs. fs[rr_created_files_idx r := (fs ! rr_created_files_idx r)\<lparr>fi_index := rr_new_index r, fi_date_time := rr_new_date_time r\<rparr>])
       completed_renames created"

definition drop_oldest :: "io_env \<Rightarrow> ('x, 'm) rotating_sink_scheme \<Rightarrow> ('x, 'm) rotating_sink_scheme" where
  "drop_oldest env s =
     (if length (rs_created_files s) > unat (rc_max_backup_files (rs_config s))
      then (remove_file env (fi_name (last (rs_created_files s))) s)\<lparr>rs_created_files := butlast (rs_created_files s)\<rparr>
      else s)"

definition open_after_rotation :: "io_env \<Rightarrow> u64 \<Rightarrow> ('x, 'm) rotating_sink_scheme \<Rightarrow> user_exception option \<times> ('x, 'm) rotating_sink_scheme" where
  "open_after_rotation env record_timestamp_ns s =
     run_ops [\<lambda>s. open_file env (ss_filename s) (fk_open_mode (rs_config s)) s,
              \<lambda>s. (None, s\<lparr>rs_open_file_timestamp := record_timestamp_ns, ss_file_size := 0\<rparr>)] s"

definition reopen_after_failure :: "io_env \<Rightarrow> ('x, 'm) rotating_sink_scheme \<Rightarrow> user_exception option \<times> ('x, 'm) rotating_sink_scheme" where
  "reopen_after_failure env s =
     run_ops [\<lambda>s. open_file env (ss_filename s) (reopen_mode_after_failed_rotation (fk_open_mode (rs_config s))) s, resync_file_size env] s"

definition rotate_closed_file :: "rotation_env \<Rightarrow> u64 \<Rightarrow> ('x, 'm) rotating_sink_scheme \<Rightarrow> user_exception option \<times> ('x, 'm) rotating_sink_scheme" where
  "rotate_closed_file env record_timestamp_ns s =
     (case datetime_suffix_of (re_calendar env) (rs_open_file_timestamp s) (rs_config s) of
        Inl e \<Rightarrow> (Some (UserException (error_text e)), s)
      | Inr sfx \<Rightarrow>
          (case rename_loop (re_io env) (rc_rotation_naming_scheme (rs_config s)) sfx (rs_created_files s) [] (length (rs_created_files s)) s of
             (False, completed_renames, s1) \<Rightarrow>
               reopen_after_failure (re_io env) (snd (undo_renames (re_io env) (rev completed_renames) s1))
           | (True, completed_renames, s1) \<Rightarrow>
               let s2 = drop_oldest (re_io env) (s1\<lparr>rs_created_files := apply_renames completed_renames (rs_created_files s1)\<rparr>)
               in open_after_rotation (re_io env) record_timestamp_ns
                    (s2\<lparr>rs_created_files := new_file_info (ss_filename s2) # rs_created_files s2\<rparr>)))"

text \<open>A sink that an earlier rotation left without an open file is opened first.\<close>

definition rotate_files :: "rotation_env \<Rightarrow> u64 \<Rightarrow> ('x, 'm) rotating_sink_scheme \<Rightarrow> user_exception option \<times> ('x, 'm) rotating_sink_scheme" where
  "rotate_files env record_timestamp_ns s =
     (if length (rs_created_files s) > unat (rc_max_backup_files (rs_config s)) \<and> \<not> rc_overwrite_rolled_files (rs_config s) then (None, s)
      else if ss_file s = None then
        run_ops [\<lambda>s. open_file (re_io env) (ss_filename s) (reopen_mode_after_failed_rotation (fk_open_mode (rs_config s))) s,
                 \<lambda>s. (None, s\<lparr>rs_open_file_timestamp := record_timestamp_ns\<rparr>), resync_file_size (re_io env)] s
      else
        run_ops [flush_sink (re_io env), fsync_file (re_io env) True,
                 \<lambda>s. (case get_file_size (re_io env) (ss_filename s) s of
                        (n, s1) \<Rightarrow> if n = 0 then (None, s1)
                                  else run_ops [close_file (re_io env), rotate_closed_file env record_timestamp_ns] s1)] s)"

definition size_rotation :: "rotation_env \<Rightarrow> size_t \<Rightarrow> u64 \<Rightarrow> ('x, 'm) rotating_sink_scheme \<Rightarrow> user_exception option \<times> ('x, 'm) rotating_sink_scheme" where
  "size_rotation env log_msg_size record_timestamp_ns s =
     (let max_file_size = rc_rotation_max_file_size (rs_config s)
      in if ss_file_size s > max_file_size \<or> log_msg_size > max_file_size - ss_file_size s
         then rotate_files env record_timestamp_ns s else (None, s))"

text \<open>Whether it was time to rotate, or the exception.\<close>

definition time_rotation :: "rotation_env \<Rightarrow> u64 \<Rightarrow> ('x, 'm) rotating_sink_scheme \<Rightarrow> (user_exception + bool) \<times> ('x, 'm) rotating_sink_scheme" where
  "time_rotation env record_timestamp_ns s =
     (if record_timestamp_ns \<ge> rs_next_rotation_time s then
        (case rotate_files env record_timestamp_ns s of
           (Some e, s1) \<Rightarrow> (Inl e, s1)
         | (None, s1) \<Rightarrow>
             (case calculate_rotation_tp (re_rotation_calendar env) (rs_next_rotation_time s1) record_timestamp_ns (rs_config s1) of
                Inl e \<Rightarrow> (Inl (UserException (error_text e)), s1)
              | Inr tp \<Rightarrow> (Inr True, s1\<lparr>rs_next_rotation_time := tp\<rparr>)))
      else (Inr False, s))"

definition rotation_enabled :: "('x, 'm) rotating_sink_scheme \<Rightarrow> bool" where
  "rotation_enabled s \<longleftrightarrow> rs_created_files s \<noteq> []"

definition rotating_write_log :: "rotation_env \<Rightarrow> u64 \<Rightarrow> string \<Rightarrow> ('x, 'm) rotating_sink_scheme \<Rightarrow> user_exception option \<times> ('x, 'm) rotating_sink_scheme" where
  "rotating_write_log env log_timestamp log_statement s =
     (if ss_is_null s \<or> \<not> rotation_enabled s then stream_write_log (re_io env) log_statement s
      else
        case (if rc_rotation_frequency (rs_config s) \<noteq> Disabled then time_rotation env log_timestamp s else (Inr False, s)) of
          (Inl e, s1) \<Rightarrow> (Some e, s1)
        | (Inr rotated, s1) \<Rightarrow>
            run_ops [\<lambda>s. if \<not> rotated \<and> rc_rotation_max_file_size (rs_config s) \<noteq> 0
                         then size_rotation env (estimate_write_size log_statement) log_timestamp s else (None, s),
                     stream_write_log (re_io env) log_statement] s1)"

subsection \<open>Start\<close>

text \<open>
  The entries of the directory of the base file, in the order in which the system lists them, with
  what their names say; a listing that fails gives nothing.
\<close>

definition rotated_files_of ::
  "io_env \<Rightarrow> rotation_naming_scheme \<Rightarrow> string \<Rightarrow> ('x, 'm) file_sink_scheme \<Rightarrow> (string \<times> u32 \<times> string) list option \<times> ('x, 'm) file_sink_scheme" where
  "rotated_files_of env scheme p s =
     (case os_call env s of
        (False, s1) \<Rightarrow> (None, s1)
      | (True, s1) \<Rightarrow>
          (Some (List.map_filter
                  (\<lambda>q. if path_directory q = path_directory p
                       then map_option (\<lambda>info. (q, info)) (try_parse_rotated_file scheme p q) else None)
                  (map fst (fs_names (ss_fs s1)))), s1))"

text \<open>The files of an earlier run that this run would overwrite.\<close>

definition files_to_remove ::
  "calendar \<Rightarrow> u64 \<Rightarrow> rotating_file_sink_config \<Rightarrow> (string \<times> u32 \<times> string) list \<Rightarrow> quill_error + string list" where
  "files_to_remove cal today_timestamp_ns c found =
     (if rc_rotation_naming_scheme c = Index then Inr (map fst found)
      else if found = [] then Inr []
      else case format_datetime_string cal today_timestamp_ns (fk_time_zone c) ''%Y%m%d'' of
             Inl e \<Rightarrow> Inl e
           | Inr today_date \<Rightarrow> Inr (map fst (filter (\<lambda>(_, _, date_time). date_time = today_date) found)))"

text \<open>The order of the recovered files: the newest first, and the greater index the older.\<close>

definition newer_file :: "file_info \<Rightarrow> file_info \<Rightarrow> bool" where
  "newer_file a b \<longleftrightarrow>
     (if fi_date_time a \<noteq> fi_date_time b then fi_date_time a > fi_date_time b else fi_index a < fi_index b)"

fun insert_file :: "file_info \<Rightarrow> file_info list \<Rightarrow> file_info list" where
  "insert_file f [] = [f]"
| "insert_file f (g # gs) = (if newer_file g f then g # insert_file f gs else f # g # gs)"

definition sort_files :: "file_info list \<Rightarrow> file_info list" where
  "sort_files fs = foldr insert_file fs []"

function prune_recovered :: "io_env \<Rightarrow> nat \<Rightarrow> file_info list \<Rightarrow> ('x, 'm) file_sink_scheme \<Rightarrow> file_info list \<times> ('x, 'm) file_sink_scheme" where
  "prune_recovered env max_backup_files recovered s =
     (if length recovered > max_backup_files
      then prune_recovered env max_backup_files (butlast recovered) (remove_file env (fi_name (last recovered)) s)
      else (recovered, s))"
  by pat_completeness auto
termination by (relation "measure (\<lambda>(_, _, fs, _). length fs)") auto

declare prune_recovered.simps [simp del]

text \<open>
  Whether it is known which rotated files there are; if not, the sink will not rotate. The file name
  is absolute, as its normalisation makes it.
\<close>

definition clean_and_recover_files ::
  "rotation_env \<Rightarrow> u64 \<Rightarrow> ('x, 'm) rotating_sink_scheme \<Rightarrow> (user_exception + bool) \<times> ('x, 'm) rotating_sink_scheme" where
  "clean_and_recover_files env today_timestamp_ns s =
     (let c = rs_config s; open_mode = fk_open_mode c; scheme = rc_rotation_naming_scheme c
      in case os_call (re_io env) s of
           (False, s1) \<Rightarrow> (Inr False, s1)
         | (True, s1) \<Rightarrow>
             if \<not> re_directory_exists env (parent_path (ss_filename s1)) then (Inr True, s1)
             else if rc_remove_old_files c \<and> CHR ''w'' \<in> set open_mode then
               (if scheme = DateAndTime then (Inr True, s1)
                else case rotated_files_of (re_io env) scheme (ss_filename s1) s1 of
                       (None, s2) \<Rightarrow> (Inr False, s2)
                     | (Some found, s2) \<Rightarrow>
                         (case files_to_remove (re_calendar env) today_timestamp_ns c found of
                            Inl e \<Rightarrow> (Inl (UserException (error_text e)), s2)
                          | Inr files \<Rightarrow> (Inr True, fold (remove_file (re_io env)) files s2)))
             else if CHR ''a'' \<in> set open_mode then
               (case rotated_files_of (re_io env) scheme (ss_filename s1) s1 of
                  (None, s2) \<Rightarrow> (Inr False, s2)
                | (Some found, s2) \<Rightarrow>
                    let recovered = sort_files (map (\<lambda>(_, index, date_time).
                              \<lparr>fi_base_filename = ss_filename s2, fi_date_time = date_time, fi_index = index\<rparr>) (rev found))
                    in (case (if rc_overwrite_rolled_files c
                              then prune_recovered (re_io env) (unat (rc_max_backup_files c)) recovered s2 else (recovered, s2)) of
                          (files, s3) \<Rightarrow> (Inr True, s3\<lparr>rs_created_files := files\<rparr>)))
             else (Inr True, s1))"

text \<open>The first opening, behind a rotation of the file that was there if that was asked for.\<close>

definition open_on_start :: "rotation_env \<Rightarrow> u64 \<Rightarrow> ('x, 'm) rotating_sink_scheme \<Rightarrow> user_exception option \<times> ('x, 'm) rotating_sink_scheme" where
  "open_on_start env start_time s =
     (let c = rs_config s;
          (requested, s1) = (if rc_rotation_on_creation c \<and> \<not> ss_is_null s
                             then (case get_file_size (re_io env) (ss_filename s) s of (n, s1) \<Rightarrow> (n > 0, s1)) else (False, s))
      in if rotation_enabled s1 \<and> requested
            \<and> (length (rs_created_files s1) \<le> unat (rc_max_backup_files c) \<or> rc_overwrite_rolled_files c)
         then rotate_closed_file env start_time s1
         else open_file (re_io env) (ss_filename s1)
                (if requested then reopen_mode_after_failed_rotation (fk_open_mode c) else fk_open_mode c) s1)"

definition rotating_sink_start :: "rotation_env \<Rightarrow> u64 \<Rightarrow> ('x, 'm) rotating_sink_scheme \<Rightarrow> user_exception option \<times> ('x, 'm) rotating_sink_scheme" where
  "rotating_sink_start env start_time s =
     (case clean_and_recover_files env start_time s of
        (Inl e, s1) \<Rightarrow> (Some e, s1)
      | (Inr recovery_succeeded, s1) \<Rightarrow>
          (case (if recovery_succeeded \<and> rc_rotation_frequency (rs_config s1) \<noteq> Disabled
                 then calculate_initial_rotation_tp (re_rotation_calendar env) start_time (rs_config s1)
                 else Inr (rs_next_rotation_time s1)) of
             Inl e \<Rightarrow> (Some (UserException (error_text e)), s1)
           | Inr tp \<Rightarrow>
               let s2 = s1\<lparr>rs_next_rotation_time := tp, rs_open_file_timestamp := start_time\<rparr>;
                   s3 = (if recovery_succeeded then s2\<lparr>rs_created_files := new_file_info (ss_filename s2) # rs_created_files s2\<rparr> else s2)
               in run_ops [open_on_start env start_time,
                           \<lambda>s. if ss_is_null s then (None, s) else resync_file_size (re_io env) s] s3))"

definition rotating_sink_new ::
  "rotation_env \<Rightarrow> (string \<Rightarrow> quill_error + string) \<Rightarrow> (string \<Rightarrow> nat) \<Rightarrow> string \<Rightarrow> rotating_file_sink_config \<Rightarrow> 'x file_event_notifier
    \<Rightarrow> u64 \<Rightarrow> file_system \<Rightarrow> 'x \<Rightarrow> user_exception option \<times> 'x rotating_sink" where
  "rotating_sink_new env norm_path console p c ntf start_time fs x =
     (case file_sink_new (re_io env) (re_calendar env) norm_path console p (file_sink_config.truncate c) ntf False start_time fs x of
        (r, s) \<Rightarrow>
          let s1 = file_sink.extend s \<lparr>rs_created_files = [], rs_next_rotation_time = 0, rs_open_file_timestamp = 0, rs_config = c\<rparr>
          in (case r of Some e \<Rightarrow> (Some e, s1) | None \<Rightarrow> rotating_sink_start env start_time s1))"

subsection \<open>Renaming\<close>

lemma map_of_renamed:
  assumes "old \<noteq> new"
  shows "map_of (map (\<lambda>(q, j). if q = old then (new, j) else (q, j)) (filter (\<lambda>(q, _). q \<noteq> new) xs)) r =
     (if r = new then map_of xs old else if r = old then None else map_of xs r)"
proof (induction xs)
  case (Cons x xs)
  obtain p j where x: "x = (p, j)" by force
  have "p = new \<or> p = old \<or> p \<noteq> new \<and> p \<noteq> old" by blast
  moreover have "r = new \<or> r = old \<or> r \<noteq> new \<and> r \<noteq> old" by blast
  ultimately show ?case using Cons assms by (elim disjE conjE) (simp_all add: x)
qed simp

lemma fs_rename_spec:
  assumes "fs_rename old new fs = (True, fs1)" "old \<noteq> new"
  shows "fs_find q fs1 = (if q = new then fs_find old fs else if q = old then None else fs_find q fs)"
    "fs_data fs1 = fs_data fs" "fs_next fs1 = fs_next fs"
proof -
  have fs1: "fs1 = fs\<lparr>fs_names := map (\<lambda>(q, j). if q = old then (new, j) else (q, j)) (filter (\<lambda>(q, _). q \<noteq> new) (fs_names fs))\<rparr>"
    using assms by (cases "fs_find old fs") (simp_all add: fs_rename_def)
  show "fs_find q fs1 = (if q = new then fs_find old fs else if q = old then None else fs_find q fs)"
    unfolding fs1 fs_find_def using map_of_renamed [OF assms(2), of "fs_names fs" q] by simp
  show "fs_data fs1 = fs_data fs" "fs_next fs1 = fs_next fs" unfolding fs1 by simp_all
qed

text \<open>No two names are names of the same file, and new numbers are new.\<close>

definition fs_ok :: "file_system \<Rightarrow> bool" where
  "fs_ok fs \<longleftrightarrow> distinct (map snd (fs_names fs)) \<and> (\<forall>i \<in> snd ` set (fs_names fs). i < fs_next fs)"

lemma fs_ok_distinct:
  assumes "fs_ok fs" "fs_find p fs = Some i" "fs_find q fs = Some i"
  shows "p = q"
proof -
  have "(p, i) \<in> set (fs_names fs)" "(q, i) \<in> set (fs_names fs)" using assms(2,3) by (auto simp: fs_find_def dest: map_of_SomeD)
  moreover have "inj_on snd (set (fs_names fs))" using assms(1) by (simp add: fs_ok_def distinct_map)
  ultimately show ?thesis unfolding inj_on_def by fastforce
qed

lemma fs_ok_next: "fs_ok fs \<Longrightarrow> fs_find p fs = Some i \<Longrightarrow> i < fs_next fs"
  unfolding fs_ok_def fs_find_def by (force dest: map_of_SomeD)

lemma fs_ok_calls [simp]: "fs_ok (fs\<lparr>fs_calls := k\<rparr>) = fs_ok fs"
  by (simp add: fs_ok_def)

lemma fs_ok_cong: "fs_names fs1 = fs_names fs \<Longrightarrow> fs_next fs1 = fs_next fs \<Longrightarrow> fs_ok fs1 = fs_ok fs"
  by (simp add: fs_ok_def)

lemma fs_ok_names:
  assumes "fs_ok fs" "fs_names fs1 = map h (filter P (fs_names fs))" "\<And>x. snd (h x) = snd x" "fs_next fs1 = fs_next fs"
  shows "fs_ok fs1"
proof -
  have "map snd (fs_names fs1) = map snd (filter P (fs_names fs))" using assms(2,3) by simp
  moreover from this have "snd ` set (fs_names fs1) \<subseteq> snd ` set (fs_names fs)"
    by (metis filter_is_subset image_mono list.set_map)
  ultimately show ?thesis using assms(1,4) unfolding fs_ok_def by (metis distinct_map_filter subset_iff)
qed

lemma fs_ok_unlink: "fs_ok fs \<Longrightarrow> fs_ok (fs_unlink p fs)"
  by (rule fs_ok_names [where h = id]) (simp_all add: fs_unlink_def)

lemma fs_ok_rename: "fs_ok fs \<Longrightarrow> fs_rename old new fs = (ok, fs1) \<Longrightarrow> fs_ok fs1"
proof (cases "\<exists>i. fs_find old fs = Some i \<and> old \<noteq> new")
  case True
  assume "fs_ok fs" "fs_rename old new fs = (ok, fs1)"
  with True show ?thesis
    by (intro fs_ok_names [of fs fs1 "\<lambda>(q, j). if q = old then (new, j) else (q, j)" "\<lambda>(q, _). q \<noteq> new"])
      (auto simp: fs_rename_def split: prod.splits)
next
  case False
  assume "fs_ok fs" "fs_rename old new fs = (ok, fs1)"
  with False show ?thesis by (cases "fs_find old fs") (simp_all add: fs_rename_def)
qed

text \<open>A call that fails leaves the file system as it was, but for the count of calls.\<close>

definition same_files :: "file_system \<Rightarrow> file_system \<Rightarrow> bool" where
  "same_files fs fs1 \<longleftrightarrow> fs_names fs1 = fs_names fs \<and> fs_data fs1 = fs_data fs \<and> fs_next fs1 = fs_next fs"

lemma same_files_find: "same_files fs fs1 \<Longrightarrow> fs_find q fs1 = fs_find q fs"
  by (simp add: same_files_def fs_find_def)

lemma try_rename_spec:
  assumes "try_rename env old new s = (ok, s1)"
  shows "\<exists>fs. s1 = s\<lparr>ss_fs := fs\<rparr> \<and> fs_data fs = fs_data (ss_fs s) \<and> fs_next fs = fs_next (ss_fs s) \<and> (fs_ok (ss_fs s) \<longrightarrow> fs_ok fs)
    \<and> (\<not> ok \<longrightarrow> same_files (ss_fs s) fs)
    \<and> (ok \<longrightarrow> fs_find old (ss_fs s) \<noteq> None)
    \<and> (ok \<and> old \<noteq> new \<longrightarrow> (\<forall>q. fs_find q fs = (if q = new then fs_find old (ss_fs s) else if q = old then None else fs_find q (ss_fs s))))"
proof (cases "io_ok env (fs_calls (ss_fs s))")
  case False
  then have "s1 = s\<lparr>ss_fs := (ss_fs s)\<lparr>fs_calls := Suc (fs_calls (ss_fs s))\<rparr>\<rparr>" "\<not> ok"
    using assms by (simp_all add: try_rename_def os_call_def)
  then show ?thesis by (intro exI [of _ "(ss_fs s)\<lparr>fs_calls := Suc (fs_calls (ss_fs s))\<rparr>"]) (simp add: same_files_def)
next
  case True
  let ?fs = "(ss_fs s)\<lparr>fs_calls := Suc (fs_calls (ss_fs s))\<rparr>"
  obtain fs where ren: "fs_rename old new ?fs = (ok, fs)" "s1 = s\<lparr>ss_fs := fs\<rparr>"
    using assms True by (auto simp: try_rename_def os_call_def split: prod.splits)
  have keep: "fs_data fs = fs_data ?fs \<and> fs_next fs = fs_next ?fs \<and> (\<not> ok \<longrightarrow> fs = ?fs)"
    using ren(1) by (auto simp: fs_rename_def split: option.splits if_splits)
  have "fs_ok (ss_fs s) \<longrightarrow> fs_ok fs" using fs_ok_rename [OF _ ren(1)] by simp
  moreover have "ok \<and> old \<noteq> new \<longrightarrow> (\<forall>q. fs_find q fs = (if q = new then fs_find old (ss_fs s) else if q = old then None else fs_find q (ss_fs s)))"
    using fs_rename_spec(1) [of old new ?fs fs] ren(1) by (auto simp: fs_find_def)
  moreover have "ok \<longrightarrow> fs_find old (ss_fs s) \<noteq> None" using ren(1) by (auto simp: fs_rename_def fs_find_def split: option.splits)
  ultimately show ?thesis using keep ren(2) by (intro exI [of _ fs]) (auto simp: same_files_def)
qed

text \<open>What a renaming that worked does; one that failed changes no name.\<close>

definition renames :: "string \<Rightarrow> string \<Rightarrow> file_system \<Rightarrow> file_system \<Rightarrow> bool" where
  "renames old new fs fs1 \<longleftrightarrow>
     fs_find old fs \<noteq> None \<and> fs_data fs1 = fs_data fs \<and> fs_next fs1 = fs_next fs \<and> (fs_ok fs \<longrightarrow> fs_ok fs1)
     \<and> (\<forall>q. fs_find q fs1 = (if q = new then fs_find old fs else if q = old then None else fs_find q fs))"

lemma rename_file_spec:
  assumes "rename_file env old new s = (ok, s1)" "old \<noteq> new"
  shows "\<exists>fs. s1 = s\<lparr>ss_fs := fs\<rparr> \<and> (if ok then renames old new (ss_fs s) fs else same_files (ss_fs s) fs)"
proof -
  obtain ok0 s0 where first: "try_rename env old new s = (ok0, s0)" by force
  obtain fs0 where fs0: "s0 = s\<lparr>ss_fs := fs0\<rparr>" "\<not> ok0 \<longrightarrow> same_files (ss_fs s) fs0" "ok0 \<longrightarrow> renames old new (ss_fs s) fs0"
    using try_rename_spec [OF first] assms(2) unfolding renames_def by blast
  show ?thesis
  proof (cases ok0)
    case True
    then have "ok" "s1 = s0" using assms(1) first by (simp_all add: rename_file_def)
    with True fs0 show ?thesis by auto
  next
    case False
    then have same: "same_files (ss_fs s) fs0" using fs0(2) by simp
    have second: "try_rename env old new s0 = (ok, s1)" using assms(1) first False by (simp add: rename_file_def)
    obtain fs1 where fs1: "s1 = s0\<lparr>ss_fs := fs1\<rparr>" "\<not> ok \<longrightarrow> same_files (ss_fs s0) fs1" "ok \<longrightarrow> renames old new (ss_fs s0) fs1"
      using try_rename_spec [OF second] assms(2) unfolding renames_def by blast
    have "ok \<longrightarrow> renames old new (ss_fs s) fs1" "\<not> ok \<longrightarrow> same_files (ss_fs s) fs1"
      using fs1(2,3) same fs_ok_cong [of fs0 "ss_fs s"] fs0(1)
      by (auto simp: renames_def same_files_def same_files_find [OF same])
    with fs0(1) fs1(1) show ?thesis by (intro exI [of _ fs1]) simp
  qed
qed

text \<open>The files behind a list of names.\<close>

definition file_nums :: "file_info list \<Rightarrow> file_system \<Rightarrow> nat option list" where
  "file_nums fl fs = map (\<lambda>f. fs_find (fi_name f) fs) fl"

lemma file_nums_same: "same_files fs fs1 \<Longrightarrow> file_nums fl fs1 = file_nums fl fs"
  by (simp add: file_nums_def same_files_find)

lemma rename_tracked:
  assumes "renames (fi_name (fl ! n)) (fi_name g) fs fs1" "distinct (map fi_name fl)" "n < length fl" "fi_name g \<notin> set (map fi_name fl)"
  shows "file_nums (fl[n := g]) fs1 = file_nums fl fs"
proof (rule nth_equalityI)
  fix k assume "k < length (file_nums (fl[n := g]) fs1)"
  then have k: "k < length fl" by (simp add: file_nums_def)
  show "file_nums (fl[n := g]) fs1 ! k = file_nums fl fs ! k"
  proof (cases "k = n")
    case True
    with assms(1,3) show ?thesis by (simp add: file_nums_def renames_def)
  next
    case False
    then have "fi_name (fl ! k) \<noteq> fi_name (fl ! n)"
      using nth_eq_iff_index_eq [OF assms(2), of k n] k assms(3) by simp
    moreover have "fi_name (fl ! k) \<in> set (map fi_name fl)" using k by simp
    then have "fi_name (fl ! k) \<noteq> fi_name g" using assms(4) by metis
    ultimately show ?thesis using assms(1,3) False k by (simp add: file_nums_def renames_def)
  qed
qed (simp add: file_nums_def)

text \<open>A file and its name after a rotation.\<close>

definition shifted :: "rotation_naming_scheme \<Rightarrow> string \<Rightarrow> file_info \<Rightarrow> file_info" where
  "shifted scheme sfx f =
     (case new_index_of scheme sfx f of None \<Rightarrow> f | Some i \<Rightarrow> f\<lparr>fi_index := i, fi_date_time := sfx\<rparr>)"

definition shifted_from :: "rotation_naming_scheme \<Rightarrow> string \<Rightarrow> file_info list \<Rightarrow> nat \<Rightarrow> file_info list" where
  "shifted_from scheme sfx created n = take n created @ map (shifted scheme sfx) (drop n created)"

lemma shifted_from_ends:
  "shifted_from scheme sfx created (length created) = created" "shifted_from scheme sfx created 0 = map (shifted scheme sfx) created"
  "length (shifted_from scheme sfx created n) = length created"
  by (simp_all add: shifted_from_def)

lemma shifted_from_nth:
  "k < length created \<Longrightarrow> shifted_from scheme sfx created n ! k = (if k < n then created ! k else shifted scheme sfx (created ! k))"
  by (auto simp: shifted_from_def nth_append min_def)

lemma shifted_from_step:
  assumes "n < length created"
  shows "shifted_from scheme sfx created n = (shifted_from scheme sfx created (Suc n))[n := shifted scheme sfx (created ! n)]"
    "shifted_from scheme sfx created (Suc n) = (shifted_from scheme sfx created n)[n := created ! n]"
  by (rule nth_equalityI; auto simp: shifted_from_nth shifted_from_ends nth_list_update assms)+

text \<open>The files can be renamed one after the other without any of them being in the way.\<close>

definition renamable :: "rotation_naming_scheme \<Rightarrow> string \<Rightarrow> file_info list \<Rightarrow> bool" where
  "renamable scheme sfx created \<longleftrightarrow>
     (\<forall>n \<le> length created. distinct (map fi_name (shifted_from scheme sfx created n)))
     \<and> (\<forall>n < length created. fi_name (shifted scheme sfx (created ! n)) \<noteq> fi_name (created ! n) \<or> new_index_of scheme sfx (created ! n) = None)"

lemma not_in_names: "(\<And>k. k < length xs \<Longrightarrow> f (xs ! k) \<noteq> y) \<Longrightarrow> y \<notin> set (map f xs)"
  by (metis in_set_conv_nth length_map nth_map)

lemma renamable_targets:
  assumes "renamable scheme sfx created" "n < length created" "new_index_of scheme sfx (created ! n) \<noteq> None"
  shows "fi_name (shifted scheme sfx (created ! n)) \<notin> set (map fi_name (shifted_from scheme sfx created (Suc n)))"
    "fi_name (created ! n) \<notin> set (map fi_name (shifted_from scheme sfx created n))"
proof -
  let ?fl = "shifted_from scheme sfx created"
  have d: "distinct (map fi_name (?fl n))" "distinct (map fi_name (?fl (Suc n)))"
    using assms(1,2) by (simp_all add: renamable_def)
  have other: "fi_name (?fl n ! k) \<noteq> fi_name (shifted scheme sfx (created ! n))" "fi_name (?fl (Suc n) ! k) \<noteq> fi_name (created ! n)"
    if "k < length created" "k \<noteq> n" for k
    using nth_eq_iff_index_eq [OF d(1), of k n] nth_eq_iff_index_eq [OF d(2), of k n] that assms(2)
    by (simp_all add: shifted_from_ends shifted_from_nth)
  have same: "?fl (Suc n) ! k = ?fl n ! k" if "k < length created" "k \<noteq> n" for k
    using that by (auto simp: shifted_from_nth)
  have ne: "fi_name (shifted scheme sfx (created ! n)) \<noteq> fi_name (created ! n)"
    using assms(1) [unfolded renamable_def, THEN conjunct2, rule_format, OF assms(2)] assms(3) by simp
  have ends: "?fl (Suc n) ! n = created ! n" "?fl n ! n = shifted scheme sfx (created ! n)"
    using assms(2) by (simp_all add: shifted_from_nth)
  have "fi_name (?fl (Suc n) ! k) \<noteq> fi_name (shifted scheme sfx (created ! n))" "fi_name (?fl n ! k) \<noteq> fi_name (created ! n)"
    if "k < length created" for k
    using other [OF that] same [OF that] ne ends by (cases "k = n"; simp only: not_False_eq_True)+
  then show "fi_name (shifted scheme sfx (created ! n)) \<notin> set (map fi_name (?fl (Suc n)))"
    "fi_name (created ! n) \<notin> set (map fi_name (?fl n))"
    using not_in_names [where f = fi_name] shifted_from_ends(3) by metis+
qed

text \<open>What was renamed when \<open>n\<close> files are left, the newest first.\<close>

definition record_of :: "rotation_naming_scheme \<Rightarrow> string \<Rightarrow> file_info list \<Rightarrow> nat \<Rightarrow> rename_record list" where
  "record_of scheme sfx created n =
     (case new_index_of scheme sfx (created ! n) of
        None \<Rightarrow> []
      | Some i \<Rightarrow> [\<lparr>rr_original = fi_name (created ! n), rr_renamed = get_filename (fi_base_filename (created ! n)) i sfx,
                   rr_created_files_idx = n, rr_new_index = i, rr_new_date_time = sfx\<rparr>])"

definition records_from :: "rotation_naming_scheme \<Rightarrow> string \<Rightarrow> file_info list \<Rightarrow> nat \<Rightarrow> rename_record list" where
  "records_from scheme sfx created n = concat (map (record_of scheme sfx created) [n ..< length created])"

lemma records_from_step:
  "n < length created \<Longrightarrow> records_from scheme sfx created n = record_of scheme sfx created n @ records_from scheme sfx created (Suc n)"
  by (simp add: records_from_def upt_conv_Cons)

lemma apply_records:
  assumes "n \<le> length created"
  shows "apply_renames (rev (records_from scheme sfx created n)) created = shifted_from scheme sfx created n"
  using assms
proof (induction "length created - n" arbitrary: n)
  case 0
  then have "n = length created" by simp
  then show ?case by (simp add: records_from_def apply_renames_def shifted_from_ends(1))
next
  case (Suc m)
  then have n: "n < length created" by simp
  have IH: "apply_renames (rev (records_from scheme sfx created (Suc n))) created = shifted_from scheme sfx created (Suc n)"
    using Suc by simp
  show ?case
  proof (cases "new_index_of scheme sfx (created ! n)")
    case None
    then have "shifted_from scheme sfx created n = shifted_from scheme sfx created (Suc n)"
      unfolding shifted_from_step(1) [OF n] using n
      by (simp add: shifted_def shifted_from_nth list_update_same_conv shifted_from_ends)
    with None IH show ?thesis by (simp add: records_from_step [OF n] record_of_def)
  next
    case (Some i)
    let ?r = "\<lparr>rr_original = fi_name (created ! n), rr_renamed = get_filename (fi_base_filename (created ! n)) i sfx,
                   rr_created_files_idx = n, rr_new_index = i, rr_new_date_time = sfx\<rparr>"
    have "rev (records_from scheme sfx created n) = rev (records_from scheme sfx created (Suc n)) @ [?r]"
      using Some by (simp add: records_from_step [OF n] record_of_def)
    then show ?thesis
      unfolding shifted_from_step(1) [OF n] using IH Some n
      by (simp add: apply_renames_def shifted_from_nth shifted_def)
  qed
qed

text \<open>
  One renaming of the loop, or of its undoing, leads from the files of one stage to those of the next.
\<close>

definition stage :: "rotation_naming_scheme \<Rightarrow> string \<Rightarrow> file_info list \<Rightarrow> nat \<Rightarrow> file_system \<Rightarrow> file_system \<Rightarrow> bool" where
  "stage scheme sfx created n fs0 fs \<longleftrightarrow>
     file_nums (shifted_from scheme sfx created n) fs = file_nums created fs0 \<and> fs_data fs = fs_data fs0 \<and> fs_next fs = fs_next fs0
     \<and> (fs_ok fs0 \<longrightarrow> fs_ok fs)"

lemma stage_same: "stage scheme sfx created n fs0 fs \<Longrightarrow> same_files fs fs1 \<Longrightarrow> stage scheme sfx created n fs0 fs1"
  using fs_ok_cong [of fs1 fs] file_nums_same [of fs fs1] unfolding stage_def same_files_def by simp

lemma fi_name_shifted:
  "new_index_of scheme sfx f = Some i \<Longrightarrow> fi_name (shifted scheme sfx f) = get_filename (fi_base_filename f) i sfx"
  by (simp add: fi_name_def shifted_def)

lemma stage_rename:
  assumes "renamable scheme sfx created" "n < length created" "new_index_of scheme sfx (created ! n) = Some i"
  shows "stage scheme sfx created (Suc n) fs0 fs \<Longrightarrow> renames (fi_name (created ! n)) (get_filename (fi_base_filename (created ! n)) i sfx) fs fs1
      \<Longrightarrow> stage scheme sfx created n fs0 fs1"
    "stage scheme sfx created n fs0 fs \<Longrightarrow> renames (get_filename (fi_base_filename (created ! n)) i sfx) (fi_name (created ! n)) fs fs1
      \<Longrightarrow> stage scheme sfx created (Suc n) fs0 fs1"
proof -
  let ?fl = "shifted_from scheme sfx created"
  have d: "distinct (map fi_name (?fl n))" "distinct (map fi_name (?fl (Suc n)))"
    using assms(1,2) by (simp_all add: renamable_def)
  have "new_index_of scheme sfx (created ! n) \<noteq> None" using assms(3) by simp
  note t = renamable_targets [OF assms(1,2) this]
  note name = fi_name_shifted [OF assms(3)]
  have nth: "?fl (Suc n) ! n = created ! n" "?fl n ! n = shifted scheme sfx (created ! n)"
    using assms(2) by (simp_all add: shifted_from_nth)
  note len = shifted_from_ends(3) [of scheme sfx created]
  show "stage scheme sfx created n fs0 fs1"
    if s: "stage scheme sfx created (Suc n) fs0 fs" "renames (fi_name (created ! n)) (get_filename (fi_base_filename (created ! n)) i sfx) fs fs1"
  proof -
    have "file_nums ((?fl (Suc n))[n := shifted scheme sfx (created ! n)]) fs1 = file_nums (?fl (Suc n)) fs"
      by (rule rename_tracked) (use s(2) d t nth name len assms(2) in simp_all)
    with s show ?thesis unfolding stage_def shifted_from_step(1) [OF assms(2)] by (simp add: renames_def)
  qed
  show "stage scheme sfx created (Suc n) fs0 fs1"
    if s: "stage scheme sfx created n fs0 fs" "renames (get_filename (fi_base_filename (created ! n)) i sfx) (fi_name (created ! n)) fs fs1"
  proof -
    have "file_nums ((?fl n)[n := created ! n]) fs1 = file_nums (?fl n) fs"
      by (rule rename_tracked) (use s(2) d t nth name len assms(2) in simp_all)
    with s show ?thesis unfolding stage_def shifted_from_step(2) [OF assms(2)] by (simp add: renames_def)
  qed
qed

text \<open>A call that fails works when it is repeated.\<close>

definition transient_failures :: "io_env \<Rightarrow> bool" where
  "transient_failures env \<longleftrightarrow> (\<forall>k. io_ok env k \<or> io_ok env (Suc k))"

lemma rename_file_transient:
  assumes "transient_failures env" "rename_file env old new s = (False, s1)"
  shows "fs_find old (ss_fs s) = None"
proof -
  let ?k = "fs_calls (ss_fs s)"
  have "io_ok env ?k \<or> io_ok env (Suc ?k)" using assms(1) by (simp add: transient_failures_def)
  with assms(2) show ?thesis
    by (auto simp: rename_file_def try_rename_def os_call_def fs_rename_def fs_find_def split: option.splits if_splits bool.splits)
qed

text \<open>The loop stops at a stage; when it got through, all files are renamed and the first name is free.\<close>

lemma rename_loop_spec:
  assumes "rename_loop env scheme sfx created (rev (records_from scheme sfx created n)) n s = (ok, recs, s1)" "n \<le> length created"
    and "renamable scheme sfx created" "stage scheme sfx created n fs0 (ss_fs s)"
  shows "\<exists>m fs. m \<le> n \<and> recs = rev (records_from scheme sfx created m) \<and> s1 = s\<lparr>ss_fs := fs\<rparr> \<and> stage scheme sfx created m fs0 fs
    \<and> (ok \<longrightarrow> m = 0 \<and> (0 < n \<and> new_index_of scheme sfx (created ! 0) \<noteq> None \<longrightarrow> fs_find (fi_name (created ! 0)) fs = None))
    \<and> (\<forall>k. m \<le> k \<and> k < n \<and> new_index_of scheme sfx (created ! k) \<noteq> None \<longrightarrow> fs_find (fi_name (created ! k)) fs0 \<noteq> None)
    \<and> (\<not> ok \<and> transient_failures env \<longrightarrow> 0 < m \<and> fs_find (fi_name (created ! (m - 1))) fs0 = None)"
  using assms
proof (induction n arbitrary: s)
  case 0
  then show ?case by (intro exI [of _ 0] exI [of _ "ss_fs s"]) auto
next
  case (Suc n)
  then have n: "n < length created" by simp
  show ?case
  proof (cases "new_index_of scheme sfx (created ! n)")
    case None
    have "shifted_from scheme sfx created n = shifted_from scheme sfx created (Suc n)"
      unfolding shifted_from_step(1) [OF n] using n None
      by (simp add: shifted_def shifted_from_nth list_update_same_conv shifted_from_ends)
    then have "stage scheme sfx created n fs0 (ss_fs s)" using Suc.prems(4) by (simp add: stage_def)
    moreover have "records_from scheme sfx created n = records_from scheme sfx created (Suc n)"
      using None by (simp add: records_from_step [OF n] record_of_def)
    moreover from this have "rename_loop env scheme sfx created (rev (records_from scheme sfx created n)) n s = (ok, recs, s1)"
      using Suc.prems(1) None by (simp add: Let_def)
    ultimately obtain m fs where m: "m \<le> n" "recs = rev (records_from scheme sfx created m)" "s1 = s\<lparr>ss_fs := fs\<rparr>" "stage scheme sfx created m fs0 fs"
      "ok \<longrightarrow> m = 0 \<and> (0 < n \<and> new_index_of scheme sfx (created ! 0) \<noteq> None \<longrightarrow> fs_find (fi_name (created ! 0)) fs = None)"
        "\<forall>k. m \<le> k \<and> k < n \<and> new_index_of scheme sfx (created ! k) \<noteq> None \<longrightarrow> fs_find (fi_name (created ! k)) fs0 \<noteq> None"
        "\<not> ok \<and> transient_failures env \<longrightarrow> 0 < m \<and> fs_find (fi_name (created ! (m - 1))) fs0 = None"
      using Suc.IH [of s] n Suc.prems(3) by auto
    have "ok \<longrightarrow> m = 0 \<and> (new_index_of scheme sfx (created ! 0) \<noteq> None \<longrightarrow> fs_find (fi_name (created ! 0)) fs = None)"
      using m(5) None by (cases n) auto
    moreover have "\<forall>k. m \<le> k \<and> k < Suc n \<and> new_index_of scheme sfx (created ! k) \<noteq> None \<longrightarrow> fs_find (fi_name (created ! k)) fs0 \<noteq> None"
      using m(6) None by (metis less_SucE)
    ultimately show ?thesis using m(1-4,7) by (intro exI [of _ m] exI [of _ fs]) simp
  next
    case (Some i)
    let ?old = "fi_name (created ! n)" and ?new = "get_filename (fi_base_filename (created ! n)) i sfx"
    let ?r = "\<lparr>rr_original = ?old, rr_renamed = ?new, rr_created_files_idx = n, rr_new_index = i, rr_new_date_time = sfx\<rparr>"
    have recs: "rev (records_from scheme sfx created n) = rev (records_from scheme sfx created (Suc n)) @ [?r]"
      using Some by (simp add: records_from_step [OF n] record_of_def)
    have ne: "?old \<noteq> ?new"
      using Suc.prems(3) [unfolded renamable_def, THEN conjunct2, rule_format, OF n] Some fi_name_shifted [OF Some] by simp
    obtain ok1 s2 where ren: "rename_file env ?old ?new s = (ok1, s2)" by force
    obtain fs2 where fs2: "s2 = s\<lparr>ss_fs := fs2\<rparr>" "if ok1 then renames ?old ?new (ss_fs s) fs2 else same_files (ss_fs s) fs2"
      using rename_file_spec [OF ren ne] by blast
    have "file_nums (shifted_from scheme sfx created (Suc n)) (ss_fs s) ! n = file_nums created fs0 ! n"
      using Suc.prems(4) by (simp add: stage_def)
    then have found: "fs_find ?old (ss_fs s) = fs_find ?old fs0"
      using n by (simp add: file_nums_def shifted_from_nth shifted_from_ends)
    show ?thesis
    proof (cases ok1)
      case False
      then have "recs = rev (records_from scheme sfx created (Suc n))" "s1 = s2" "\<not> ok"
        using Suc.prems(1) Some ren by (simp_all add: Let_def)
      moreover have "stage scheme sfx created (Suc n) fs0 fs2" using stage_same [OF Suc.prems(4)] fs2(2) False by simp
      moreover have "transient_failures env \<longrightarrow> fs_find ?old fs0 = None"
        using rename_file_transient [of env ?old ?new s s2] ren False found by auto
      ultimately show ?thesis using fs2(1) by (intro exI [of _ "Suc n"] exI [of _ fs2]) auto
    next
      case True
      then have st: "stage scheme sfx created n fs0 (ss_fs s2)"
        using stage_rename(1) [OF Suc.prems(3) n Some Suc.prems(4)] fs2 by simp
      have "rename_loop env scheme sfx created (rev (records_from scheme sfx created n)) n s2 = (ok, recs, s1)"
        using Suc.prems(1) Some ren True by (simp add: Let_def recs)
      then obtain m fs where m: "m \<le> n" "recs = rev (records_from scheme sfx created m)" "s1 = s2\<lparr>ss_fs := fs\<rparr>" "stage scheme sfx created m fs0 fs"
        "ok \<longrightarrow> m = 0 \<and> (0 < n \<and> new_index_of scheme sfx (created ! 0) \<noteq> None \<longrightarrow> fs_find (fi_name (created ! 0)) fs = None)"
        "\<forall>k. m \<le> k \<and> k < n \<and> new_index_of scheme sfx (created ! k) \<noteq> None \<longrightarrow> fs_find (fi_name (created ! k)) fs0 \<noteq> None"
        "\<not> ok \<and> transient_failures env \<longrightarrow> 0 < m \<and> fs_find (fi_name (created ! (m - 1))) fs0 = None"
        using Suc.IH [of s2] n Suc.prems(3) st by auto
      have "ok \<longrightarrow> m = 0 \<and> (new_index_of scheme sfx (created ! 0) \<noteq> None \<longrightarrow> fs_find (fi_name (created ! 0)) fs = None)"
      proof (cases n)
        case 0
        then have "s1 = s2" using Suc.prems(1) Some ren True by (simp add: Let_def)
        then have "ss_fs s1 = fs2" using fs2(1) by simp
        moreover have "ss_fs s1 = fs" using m(3) by simp
        ultimately have "fs = fs2" by simp
        with fs2(2) True ne 0 m(5) show ?thesis by (simp add: renames_def)
      qed (use m(5) in simp)
      moreover have "fs_find ?old fs0 \<noteq> None" using fs2(2) True found by (simp add: renames_def)
      then have "\<forall>k. m \<le> k \<and> k < Suc n \<and> new_index_of scheme sfx (created ! k) \<noteq> None \<longrightarrow> fs_find (fi_name (created ! k)) fs0 \<noteq> None"
        using m(6) by (metis less_SucE)
      ultimately show ?thesis using m(1-4,7) fs2(1) by (intro exI [of _ m] exI [of _ fs]) simp
    qed
  qed
qed

lemma rename_file_keeps: "rename_file env old new s = (ok, s1) \<Longrightarrow> \<exists>fs. s1 = s\<lparr>ss_fs := fs\<rparr>"
proof -
  assume run: "rename_file env old new s = (ok, s1)"
  obtain ok0 s0 where first: "try_rename env old new s = (ok0, s0)" by force
  obtain fs0 where fs0: "s0 = s\<lparr>ss_fs := fs0\<rparr>" using try_rename_spec [OF first] by blast
  show ?thesis
  proof (cases ok0)
    case True
    with run first fs0 show ?thesis by (intro exI [of _ fs0]) (simp add: rename_file_def)
  next
    case False
    then have second: "try_rename env old new s0 = (ok, s1)" using run first by (simp add: rename_file_def)
    obtain fs1 where "s1 = s0\<lparr>ss_fs := fs1\<rparr>" using try_rename_spec [OF second] by blast
    with fs0 show ?thesis by (intro exI [of _ fs1]) simp
  qed
qed

lemma undo_keeps_sink: "undo_renames env recs s = (ok, s1) \<Longrightarrow> \<exists>fs. s1 = s\<lparr>ss_fs := fs\<rparr>"
proof (induction recs arbitrary: s ok)
  case Nil
  then show ?case by (intro exI [of _ "ss_fs s"]) simp
next
  case (Cons r recs)
  obtain ok1 s2 where ren: "rename_file env (rr_renamed r) (rr_original r) s = (ok1, s2)" by force
  obtain ok2 where rest: "undo_renames env recs s2 = (ok2, s1)" using Cons.prems ren by (auto split: prod.splits)
  obtain fs2 where "s2 = s\<lparr>ss_fs := fs2\<rparr>" using rename_file_keeps [OF ren] by blast
  moreover obtain fs3 where "s1 = s2\<lparr>ss_fs := fs3\<rparr>" using Cons.IH [OF rest] by blast
  ultimately show ?case by (intro exI [of _ fs3]) simp
qed

text \<open>When every step back works, nothing was renamed.\<close>

lemma undo_renames_spec:
  assumes "undo_renames env (records_from scheme sfx created n) s = (ok, s1)" "n \<le> length created"
    and "renamable scheme sfx created" "stage scheme sfx created n fs0 (ss_fs s)"
  shows "\<exists>fs. s1 = s\<lparr>ss_fs := fs\<rparr> \<and> (ok \<longrightarrow> stage scheme sfx created (length created) fs0 fs)"
  using assms
proof (induction "length created - n" arbitrary: n s ok)
  case 0
  then have "n = length created" by simp
  with 0 show ?case by (intro exI [of _ "ss_fs s"]) (simp add: records_from_def)
next
  case (Suc d)
  then have n: "n < length created" by simp
  show ?case
  proof (cases "new_index_of scheme sfx (created ! n)")
    case None
    have "shifted_from scheme sfx created n = shifted_from scheme sfx created (Suc n)"
      unfolding shifted_from_step(1) [OF n] using n None
      by (simp add: shifted_def shifted_from_nth list_update_same_conv shifted_from_ends)
    then have "stage scheme sfx created (Suc n) fs0 (ss_fs s)" using Suc.prems(4) by (simp add: stage_def)
    moreover have "undo_renames env (records_from scheme sfx created (Suc n)) s = (ok, s1)"
      using Suc.prems(1) None by (simp add: records_from_step [OF n] record_of_def)
    ultimately show ?thesis using Suc.hyps(1) [of "Suc n" s ok] Suc.hyps(2) n Suc.prems(3) by simp
  next
    case (Some i)
    let ?old = "fi_name (created ! n)" and ?new = "get_filename (fi_base_filename (created ! n)) i sfx"
    have ne: "?new \<noteq> ?old"
      using Suc.prems(3) [unfolded renamable_def, THEN conjunct2, rule_format, OF n] Some fi_name_shifted [OF Some] by simp
    obtain ok1 s2 where ren: "rename_file env ?new ?old s = (ok1, s2)" by force
    obtain fs2 where fs2: "s2 = s\<lparr>ss_fs := fs2\<rparr>" "if ok1 then renames ?new ?old (ss_fs s) fs2 else same_files (ss_fs s) fs2"
      using rename_file_spec [OF ren ne] by blast
    obtain ok2 s3 where rest: "undo_renames env (records_from scheme sfx created (Suc n)) s2 = (ok2, s3)" by force
    have run: "s3 = s1" "ok = (ok1 \<and> ok2)"
      using Suc.prems(1) Some ren rest by (auto simp: records_from_step [OF n] record_of_def)
    show ?thesis
    proof (cases ok1)
      case True
      then have "stage scheme sfx created (Suc n) fs0 (ss_fs s2)"
        using stage_rename(2) [OF Suc.prems(3) n Some Suc.prems(4)] fs2 by simp
      with Suc.hyps(1) [of "Suc n" s2 ok2] Suc.hyps(2) n Suc.prems(3) rest run True fs2(1) show ?thesis by auto
    next
      case False
      have "\<exists>fs. s1 = s\<lparr>ss_fs := fs\<rparr>"
        using undo_keeps_sink [OF rest] fs2(1) run(1) by auto
      with False run(2) show ?thesis by auto
    qed
  qed
qed

subsection \<open>The files of a sink\<close>

definition file_info_ok :: "rotation_naming_scheme \<Rightarrow> string \<Rightarrow> file_info \<Rightarrow> bool" where
  "file_info_ok scheme p f \<longleftrightarrow> fi_base_filename f = p \<and> suffix_ok scheme (fi_date_time f) \<and> (fi_index f \<noteq> 0 \<or> fi_date_time f \<noteq> [])"

definition newer_index :: "file_info \<Rightarrow> file_info \<Rightarrow> bool" where
  "newer_index f g \<longleftrightarrow> (fi_date_time f = fi_date_time g \<longrightarrow> fi_index f < fi_index g)"

text \<open>The file in use, and the others, which are rotated files; of two with a date the newer has the lower index.\<close>

definition files_ok :: "rotation_naming_scheme \<Rightarrow> string \<Rightarrow> file_info list \<Rightarrow> bool" where
  "files_ok scheme p created \<longleftrightarrow>
     (\<exists>older. created = new_file_info p # older \<and> (\<forall>f \<in> set older. file_info_ok scheme p f)) \<and> sorted_wrt newer_index created"

text \<open>No index is the greatest there is.\<close>

definition indices_ok :: "file_info list \<Rightarrow> bool" where
  "indices_ok created \<longleftrightarrow> (\<forall>f \<in> set created. fi_index f \<noteq> - 1)"

lemma suffix_empty: "suffix_ok scheme d \<Longrightarrow> d = [] \<longleftrightarrow> scheme = Index"
  by (cases scheme) (auto simp: is_date_def is_date_time_def)

lemma next_index: "i \<noteq> - 1 \<Longrightarrow> unat ((i :: u32) + 1) = unat i + 1"
proof -
  assume "i \<noteq> - 1"
  then have "1 + i \<noteq> 0" by (simp add: add_eq_0_iff)
  then show ?thesis using unatSuc [of i] by (simp add: add.commute)
qed

definition any_info_ok :: "rotation_naming_scheme \<Rightarrow> string \<Rightarrow> file_info \<Rightarrow> bool" where
  "any_info_ok scheme p f \<longleftrightarrow> f = new_file_info p \<or> file_info_ok scheme p f"

lemma fi_name_inj:
  assumes "path_ok p" "any_info_ok scheme p f" "any_info_ok scheme p g" "fi_name f = fi_name g"
  shows "fi_index f = fi_index g \<and> fi_date_time f = fi_date_time g"
proof -
  have base: "fi_name (new_file_info p) = p" by (simp add: fi_name_def new_file_info_def get_filename_def)
  have other: "fi_name h \<noteq> p" if "file_info_ok scheme p h" for h
    using get_filename_not_base [OF assms(1), of scheme "fi_date_time h" "fi_index h"] that by (simp add: fi_name_def file_info_ok_def)
  consider "f = new_file_info p" "g = new_file_info p" | "file_info_ok scheme p f" "file_info_ok scheme p g"
    using assms(2-4) base other unfolding any_info_ok_def by metis
  then show ?thesis
  proof cases
    case 2
    with assms(4) get_filename_inj [OF assms(1), of scheme "fi_date_time f" "fi_date_time g" "fi_index f" "fi_index g"]
    show ?thesis by (simp add: fi_name_def file_info_ok_def)
  qed simp
qed

lemma any_info_shifted:
  assumes "any_info_ok scheme p f" "suffix_ok scheme sfx" "fi_index f \<noteq> - 1"
  shows "file_info_ok scheme p (shifted scheme sfx f)"
proof -
  have "fi_index f + 1 \<noteq> 0" using assms(3) by (metis add_diff_cancel_right' diff_0)
  with assms suffix_empty [OF assms(2)] show ?thesis
    by (auto simp: any_info_ok_def new_file_info_def file_info_ok_def shifted_def new_index_of_def suffix_empty)
qed

text \<open>A newer file differs from an older one, whichever of the two were already renamed.\<close>

lemma newer_differs:
  assumes "newer_index f g" "any_info_ok scheme p f" "file_info_ok scheme p g" "suffix_ok scheme sfx" "fi_index f \<noteq> - 1" "fi_index g \<noteq> - 1"
  shows "newer_index f (shifted scheme sfx g)" "newer_index (shifted scheme sfx f) (shifted scheme sfx g)"
proof -
  note idx = next_index [OF assms(5)] next_index [OF assms(6)]
  have g: "fi_date_time g = [] \<longleftrightarrow> scheme = Index" "sfx = [] \<longleftrightarrow> scheme = Index"
    using assms(3,4) suffix_empty by (auto simp: file_info_ok_def)
  have f: "fi_index f = 0 \<and> fi_date_time f = [] \<or> (fi_date_time f = [] \<longleftrightarrow> scheme = Index)"
    using assms(2) suffix_empty by (auto simp: any_info_ok_def new_file_info_def file_info_ok_def)
  show "newer_index f (shifted scheme sfx g)" "newer_index (shifted scheme sfx f) (shifted scheme sfx g)"
    using assms(1) f g idx
    by (auto simp: newer_index_def shifted_def new_index_of_def word_less_nat_alt)
qed

lemma files_ok_any: "files_ok scheme p created \<Longrightarrow> f \<in> set created \<Longrightarrow> any_info_ok scheme p f"
  by (auto simp: files_ok_def any_info_ok_def)

lemma files_ok_older: "files_ok scheme p created \<Longrightarrow> 0 < k \<Longrightarrow> k < length created \<Longrightarrow> file_info_ok scheme p (created ! k)"
  by (cases k) (auto simp: files_ok_def)

lemma files_ok_newer: "files_ok scheme p created \<Longrightarrow> j < k \<Longrightarrow> k < length created \<Longrightarrow> newer_index (created ! j) (created ! k)"
  by (auto simp: files_ok_def sorted_wrt_iff_nth_less)

lemma newer_index_names:
  assumes "path_ok p" "any_info_ok scheme p f" "any_info_ok scheme p g" "newer_index f g"
  shows "fi_name f \<noteq> fi_name g"
  using fi_name_inj [OF assms(1-3)] assms(4) by (auto simp: newer_index_def)

lemma renamable_files:
  assumes "path_ok p" "files_ok scheme p created" "suffix_ok scheme sfx" "indices_ok created"
  shows "renamable scheme sfx created"
  unfolding renamable_def
proof (intro conjI allI impI)
  fix n assume "n \<le> length created"
  let ?fl = "shifted_from scheme sfx created n"
  have idx: "fi_index (created ! k) \<noteq> - 1" if "k < length created" for k using assms(4) that by (simp add: indices_ok_def)
  have any: "any_info_ok scheme p (?fl ! k)" if "k < length created" for k
    using any_info_shifted [OF _ assms(3) idx [OF that]] files_ok_any [OF assms(2)] that
    by (auto simp: shifted_from_nth any_info_ok_def)
  have "newer_index (?fl ! j) (?fl ! k)" if "j < k" "k < length created" for j k
  proof -
    have j: "j < length created" "any_info_ok scheme p (created ! j)" using that files_ok_any [OF assms(2)] by simp_all
    have k: "file_info_ok scheme p (created ! k)" using files_ok_older [OF assms(2)] that by simp
    note newer = files_ok_newer [OF assms(2) that]
    show ?thesis
      using newer newer_differs [OF newer j(2) k assms(3) idx [OF j(1)] idx [OF that(2)]] that j(1)
      by (simp add: shifted_from_nth)
  qed
  then have "fi_name (?fl ! j) \<noteq> fi_name (?fl ! k)" if "j < k" "k < length created" for j k
    using newer_index_names [OF assms(1) any any] that by simp
  then show "distinct (map fi_name ?fl)"
    by (simp add: distinct_conv_nth shifted_from_ends) (metis nat_neq_iff)
next
  fix n assume n: "n < length created"
  then have f: "any_info_ok scheme p (created ! n)" "fi_index (created ! n) \<noteq> - 1"
    using files_ok_any [OF assms(2)] assms(4) by (simp_all add: indices_ok_def)
  show "fi_name (shifted scheme sfx (created ! n)) \<noteq> fi_name (created ! n) \<or> new_index_of scheme sfx (created ! n) = None"
  proof (rule disjCI)
    assume "new_index_of scheme sfx (created ! n) \<noteq> None"
    then have "fi_index (shifted scheme sfx (created ! n)) \<noteq> fi_index (created ! n) \<or> fi_date_time (shifted scheme sfx (created ! n)) \<noteq> fi_date_time (created ! n)"
      using suffix_empty [OF assms(3)] next_index [OF f(2)] by (auto simp: shifted_def new_index_of_def split: if_splits)
    then show "fi_name (shifted scheme sfx (created ! n)) \<noteq> fi_name (created ! n)"
      using fi_name_inj [OF assms(1) _ f(1)] any_info_shifted [OF f(1) assms(3) f(2)] unfolding any_info_ok_def by metis
  qed
qed

text \<open>The files after a rotation, with or without the oldest.\<close>

lemma rotated_files_ok:
  assumes "files_ok scheme p created" "suffix_ok scheme sfx" "indices_ok created"
  shows "files_ok scheme p (new_file_info p # map (shifted scheme sfx) created)"
    "files_ok scheme p (new_file_info p # butlast (map (shifted scheme sfx) created))"
proof -
  have idx: "fi_index f \<noteq> - 1" if "f \<in> set created" for f using assms(3) that by (simp add: indices_ok_def)
  have ok: "file_info_ok scheme p (shifted scheme sfx f)" if "f \<in> set created" for f
    using any_info_shifted [OF files_ok_any [OF assms(1) that] assms(2) idx [OF that]] .
  have head: "newer_index (new_file_info p) (shifted scheme sfx f)" if "f \<in> set created" for f
    using ok [OF that] by (auto simp: newer_index_def new_file_info_def file_info_ok_def word_gt_0)
  have "newer_index (shifted scheme sfx (created ! j)) (shifted scheme sfx (created ! k))" if "j < k" "k < length created" for j k
    using newer_differs(2) [OF files_ok_newer [OF assms(1) that] _ files_ok_older [OF assms(1) _ that(2)] assms(2)]
      files_ok_any [OF assms(1)] idx that by simp
  then have sorted: "sorted_wrt newer_index (map (shifted scheme sfx) created)" by (simp add: sorted_wrt_iff_nth_less)
  with ok head show "files_ok scheme p (new_file_info p # map (shifted scheme sfx) created)" by (auto simp: files_ok_def)
  have "sorted_wrt newer_index (butlast (map (shifted scheme sfx) created))"
    using sorted by (simp add: butlast_conv_take sorted_wrt_take)
  with ok head show "files_ok scheme p (new_file_info p # butlast (map (shifted scheme sfx) created))"
    by (auto simp: files_ok_def dest!: in_set_butlastD)
qed

end
