(* ===== verification/Rotation_Flow.thy ===== *)
theory Rotation_Flow
  imports Rotating_Sink
begin

text \<open>
  What a rotating sink keeps: opening, closing and rotating, and the text of all its files put
  together.
\<close>

subsection \<open>Opening and closing\<close>

text \<open>What opening a file does to the file system; \<open>tr\<close> says whether it truncates.\<close>

definition opens :: "string \<Rightarrow> bool \<Rightarrow> file_system \<Rightarrow> nat \<Rightarrow> file_system \<Rightarrow> bool" where
  "opens p tr fs i fs1 \<longleftrightarrow> fs_find p fs1 = Some i \<and>
     (case fs_find p fs of
        Some j \<Rightarrow> i = j \<and> fs_names fs1 = fs_names fs \<and> fs_next fs1 = fs_next fs \<and> fs_data fs1 = (if tr then (fs_data fs)(j := []) else fs_data fs)
      | None \<Rightarrow> i = fs_next fs \<and> fs_names fs1 = fs_names fs @ [(p, i)] \<and> fs_next fs1 = Suc (fs_next fs) \<and> fs_data fs1 = (fs_data fs)(i := []))"

lemma opens_trans:
  assumes "opens p tr fs i fs1" "opens p tr fs1 j fs2"
  shows "opens p tr fs j fs2"
  using assms by (cases "fs_find p fs") (auto simp: opens_def split: option.splits)

lemma opens_same: "same_files fs fs1 \<Longrightarrow> opens p tr fs1 i fs2 \<Longrightarrow> opens p tr fs i fs2"
  by (cases "map_of (fs_names fs) p") (simp_all add: opens_def same_files_def fs_find_def map_add_def)

lemma opens_same2: "opens p tr fs i fs1 \<Longrightarrow> same_files fs1 fs2 \<Longrightarrow> opens p tr fs i fs2"
  by (cases "map_of (fs_names fs) p") (simp_all add: opens_def same_files_def fs_find_def map_add_def)

lemma fs_open_opens: "fs_open tr p fs = (i, fs1) \<Longrightarrow> opens p tr fs i fs1"
  by (auto simp: fs_open_def opens_def fs_find_def map_add_def split: option.splits if_splits)

lemma same_files_calls [simp]: "same_files fs (fs\<lparr>fs_calls := k\<rparr>)" "same_files fs fs"
  by (simp_all add: same_files_def)

lemma os_call_files:
  assumes "os_call env s = (ok, s1)"
  shows "\<exists>fs. s1 = s\<lparr>ss_fs := fs\<rparr> \<and> same_files (ss_fs s) fs"
  using assms by (auto simp: os_call_def)

lemma open_attempts_spec:
  assumes "open_attempts env p tr n s = (Some i, s1)"
  shows "\<exists>fs. s1 = s\<lparr>ss_fs := fs\<rparr> \<and> opens p tr (ss_fs s) i fs"
  using assms
proof (induction n arbitrary: s)
  case (Suc n)
  obtain ok s2 where c1: "os_call env s = (ok, s2)" by force
  obtain fs2 where fs2: "s2 = s\<lparr>ss_fs := fs2\<rparr>" "same_files (ss_fs s) fs2" using os_call_files [OF c1] by blast
  show ?case
  proof (cases ok)
    case False
    then have "open_attempts env p tr n s2 = (Some i, s1)" using Suc.prems c1 by simp
    from Suc.IH [OF this] fs2 show ?thesis by (auto intro: opens_same)
  next
    case True
    obtain j fs3 where o: "fs_open tr p fs2 = (j, fs3)" by force
    have op: "opens p tr (ss_fs s) j fs3" by (rule opens_same [OF fs2(2) fs_open_opens [OF o]])
    obtain ok2 s4 where c2: "os_call env (s2\<lparr>ss_fs := fs3\<rparr>) = (ok2, s4)" by force
    obtain fs4 where fs4: "s4 = s2\<lparr>ss_fs := fs4\<rparr>" "same_files fs3 fs4" using os_call_files [OF c2] by auto
    have op4: "opens p tr (ss_fs s) j fs4" by (rule opens_same2 [OF op fs4(2)])
    show ?thesis
    proof (cases ok2)
      case True
      then have "s1 = s4" "i = j" using Suc.prems c1 \<open>ok\<close> fs2(1) o c2 by auto
      with op4 fs4(1) fs2(1) show ?thesis by (intro exI [of _ fs4]) simp
    next
      case False
      then have "open_attempts env p tr n s4 = (Some i, s1)" using Suc.prems c1 \<open>ok\<close> fs2(1) o c2 by auto
      from Suc.IH [OF this] fs4(1) fs2(1) op4 show ?thesis by (auto intro: opens_trans)
    qed
  qed
qed simp

lemma notify_user_spec: "notify_user c p s = (r, s1) \<Longrightarrow> \<exists>x. s1 = s\<lparr>ss_world := x\<rparr>"
proof (cases c)
  case None
  assume "notify_user c p s = (r, s1)"
  with None show ?thesis by (intro exI [of _ "ss_world s"]) (simp add: notify_user_def)
qed (auto simp: notify_user_def split: prod.splits)

lemma open_file_spec:
  assumes "open_file env p mode s = (None, s1)"
  shows "\<exists>i fs x. s1 = s\<lparr>ss_fs := fs, ss_world := x, ss_file := Some \<lparr>fo_file = i, fo_pending = []\<rparr>\<rparr> \<and> opens p (truncates_mode mode) (ss_fs s) i fs"
proof -
  obtain r0 s0 where n0: "notify_user (ev_before_open (ss_notifier s)) p s = (r0, s0)" by force
  obtain x0 where x0: "s0 = s\<lparr>ss_world := x0\<rparr>" using notify_user_spec [OF n0] by blast
  obtain i2 s2 where att: "open_attempts env p (truncates_mode mode) 3 s0 = (i2, s2)" by force
  obtain ok s3 where buf: "(if fk_write_buffer_size (ss_config s2) \<noteq> 0 then os_call env s2 else (True, s2)) = (ok, s3)" by force
  obtain r4 s4 where n4: "notify_user (ev_after_open (ss_notifier s3)) p s3 = (r4, s4)" by force
  have "r0 = None" using assms n0 by (auto simp: open_file_def split: option.splits)
  with assms n0 att obtain i where i: "i2 = Some i" by (auto simp: open_file_def split: option.splits)
  have ok: "ok" using assms n0 att buf \<open>r0 = None\<close> i by (auto simp: open_file_def split: bool.splits)
  have s1: "s1 = s4\<lparr>ss_file := Some \<lparr>fo_file = i, fo_pending = []\<rparr>\<rparr>"
    using assms n0 att buf n4 \<open>r0 = None\<close> i ok by (auto simp: open_file_def split: option.splits)
  obtain fs2 where fs2: "s2 = s0\<lparr>ss_fs := fs2\<rparr>" "opens p (truncates_mode mode) (ss_fs s0) i fs2"
    using open_attempts_spec [of env p "truncates_mode mode" 3 s0 i s2] att i by blast
  obtain fs3 where fs3: "s3 = s2\<lparr>ss_fs := fs3\<rparr>" "same_files fs2 fs3"
  proof (cases "fk_write_buffer_size (ss_config s2) = 0")
    case True
    then have "s3 = s2" using buf by simp
    with fs2(1) show ?thesis by (intro that [of fs2]) simp_all
  next
    case False
    then have "os_call env s2 = (ok, s3)" using buf by simp
    from os_call_files [OF this] fs2(1) show ?thesis by (auto intro: that)
  qed
  obtain x4 where "s4 = s3\<lparr>ss_world := x4\<rparr>" using notify_user_spec [OF n4] by blast
  with s1 fs3 fs2 x0 opens_same2 [OF fs2(2) fs3(2)] show ?thesis by (intro exI [of _ i] exI [of _ fs3] exI [of _ x4]) simp
qed

lemma close_file_spec:
  assumes "close_file env s = (None, s1)" "ss_file s = Some f"
  shows "\<exists>fs x. s1 = s\<lparr>ss_fs := fs, ss_world := x, ss_file := None\<rparr> \<and> fs_names fs = fs_names (ss_fs s) \<and> fs_next fs = fs_next (ss_fs s)
    \<and> fs_data fs = (fs_data (ss_fs s))(fo_file f := stream_text s)"
proof -
  obtain r0 s0 where n0: "notify_user (ev_before_close (ss_notifier s)) (ss_filename s) s = (r0, s0)" by force
  obtain x0 where x0: "s0 = s\<lparr>ss_world := x0\<rparr>" using notify_user_spec [OF n0] by blast
  obtain ok s2 where c: "close_stream env f s0 = (ok, s2)" by force
  obtain r3 s3 where n3: "notify_user (ev_after_close (ss_notifier s2)) (ss_filename s2) s2 = (r3, s3)" by force
  obtain x3 where x3: "s3 = s2\<lparr>ss_world := x3\<rparr>" using notify_user_spec [OF n3] by blast
  have "r0 = None" using assms n0 by (auto simp: close_file_def split: option.splits)
  then have ok: "ok" "s1 = s3" using assms n0 c n3 by (auto simp: close_file_def split: bool.splits)
  obtain s5 where call: "os_call env s0 = (True, s5)" "s2 = (drain (length (fo_pending f)) [] f s5)\<lparr>ss_file := None\<rparr>"
    using c ok(1) by (auto simp: close_stream_def Let_def split: prod.splits)
  obtain fs5 where fs5: "s5 = s0\<lparr>ss_fs := fs5\<rparr>" "same_files (ss_fs s0) fs5" using os_call_files [OF call(1)] by blast
  let ?fs = "fs_append (fo_file f) (fo_pending f) fs5"
  have "s1 = s\<lparr>ss_fs := ?fs, ss_world := x3, ss_file := None\<rparr>"
    unfolding ok(2) x3 call(2) fs5(1) x0 by (simp add: drain_def)
  with fs5(2) x0 assms(2) show ?thesis
    by (intro exI [of _ ?fs] exI [of _ x3]) (simp add: fs_append_def same_files_def stream_text_def)
qed

subsection \<open>The text of all files\<close>

definition file_text :: "file_system \<Rightarrow> file_info \<Rightarrow> string" where
  "file_text fs f = (case fs_find (fi_name f) fs of Some i \<Rightarrow> fs_data fs i | None \<Rightarrow> [])"

text \<open>The oldest file first.\<close>

definition files_text :: "file_info list \<Rightarrow> file_system \<Rightarrow> string" where
  "files_text fl fs = concat (map (file_text fs) (rev fl))"

lemma files_text_nums:
  "files_text fl fs = concat (map (\<lambda>n. case n of Some i \<Rightarrow> fs_data fs i | None \<Rightarrow> []) (rev (file_nums fl fs)))"
proof -
  have "map (\<lambda>n. case n of Some i \<Rightarrow> fs_data fs i | None \<Rightarrow> []) (rev (file_nums fl fs)) = map (file_text fs) (rev fl)"
    by (simp add: file_nums_def file_text_def rev_map)
  then show ?thesis by (simp only: files_text_def)
qed

lemma files_text_cong:
  assumes "file_nums fl fs = file_nums gl gs" "fs_data fs = fs_data gs"
  shows "files_text fl fs = files_text gl gs"
  unfolding files_text_nums assms ..

lemma files_text_Cons: "files_text (f # fl) fs = files_text fl fs @ file_text fs f"
  by (simp add: files_text_def)

lemma files_text_snoc: "files_text (fl @ [f]) fs = file_text fs f @ files_text fl fs"
  by (simp add: files_text_def)

lemma file_nums_butlast: "file_nums (butlast fl) fs = butlast (file_nums fl fs)"
  by (simp add: file_nums_def map_butlast)

text \<open>Files that are found as before and have the same data have the same text.\<close>

lemma files_text_unchanged:
  assumes "\<And>f. f \<in> set fl \<Longrightarrow> fs_find (fi_name f) fs1 = fs_find (fi_name f) fs"
    "\<And>f i. f \<in> set fl \<Longrightarrow> fs_find (fi_name f) fs = Some i \<Longrightarrow> fs_data fs1 i = fs_data fs i"
  shows "files_text fl fs1 = files_text fl fs"
proof -
  have "file_text fs1 f = file_text fs f" if "f \<in> set fl" for f
    using assms [OF that] by (auto simp: file_text_def split: option.split)
  then have "map (file_text fs1) (rev fl) = map (file_text fs) (rev fl)" by simp
  then show ?thesis by (simp only: files_text_def)
qed

subsection \<open>Rotation of a closed file\<close>

lemma remove_file_spec:
  "\<exists>fs. remove_file env p s = s\<lparr>ss_fs := fs\<rparr> \<and> fs_data fs = fs_data (ss_fs s) \<and> fs_next fs = fs_next (ss_fs s)
    \<and> (fs_ok (ss_fs s) \<longrightarrow> fs_ok fs) \<and> (\<forall>q. q \<noteq> p \<longrightarrow> fs_find q fs = fs_find q (ss_fs s)) \<and> (fs_find p (ss_fs s) = None \<longrightarrow> fs_find p fs = None)"
proof -
  have map_of_filter: "map_of (filter (\<lambda>(q, _). q \<noteq> p) xs) r = (if r = p then None else map_of xs r)" for xs :: "(string \<times> nat) list" and r
    by (induction xs) auto
  obtain found s1 where e: "file_exists env p s = (found, s1)" by force
  have s1: "\<exists>fs. s1 = s\<lparr>ss_fs := fs\<rparr> \<and> same_files (ss_fs s) fs" using e by (auto simp: file_exists_def os_call_def)
  then obtain fs1 where fs1: "s1 = s\<lparr>ss_fs := fs1\<rparr>" "same_files (ss_fs s) fs1" by blast
  obtain ok s2 where c: "os_call env s1 = (ok, s2)" by force
  obtain fs2 where fs2: "s2 = s1\<lparr>ss_fs := fs2\<rparr>" "same_files fs1 fs2" using os_call_files [OF c] fs1(1) by auto
  have same: "same_files (ss_fs s) fs2" using fs1(2) fs2(2) by (simp add: same_files_def)
  define fs where "fs = (if found = Some True then if ok then fs_unlink p fs2 else fs2 else fs1)"
  have run: "remove_file env p s = s\<lparr>ss_fs := fs\<rparr>"
    using e c fs1(1) fs2(1) by (auto simp: remove_file_def fs_def split: option.split bool.split)
  have "fs_find q fs = fs_find q (ss_fs s)" if "q \<noteq> p" for q
    using that same_files_find [OF same] same_files_find [OF fs1(2)] map_of_filter [of "fs_names fs2" q] by (simp add: fs_def fs_unlink_def fs_find_def)
  moreover have "fs_find p (ss_fs s) = None \<longrightarrow> fs_find p fs = None"
    using same_files_find [OF same, of p] same_files_find [OF fs1(2), of p] map_of_filter [of "fs_names fs2" p] by (simp add: fs_def fs_unlink_def fs_find_def)
  moreover have "fs_ok (ss_fs s) \<longrightarrow> fs_ok fs"
    using same fs1(2) fs_ok_cong [of fs1 "ss_fs s"] fs_ok_cong [of fs2 "ss_fs s"] fs_ok_unlink [of fs2 p] by (auto simp: fs_def same_files_def)
  moreover have "fs_data fs = fs_data (ss_fs s) \<and> fs_next fs = fs_next (ss_fs s)"
    using same fs1(2) by (simp add: fs_def same_files_def fs_unlink_def)
  ultimately show ?thesis using run by (intro exI [of _ fs]) simp
qed

lemma undo_renames_transient:
  assumes "transient_failures env" "renamable scheme sfx created" "n \<le> length created" "stage scheme sfx created n fs0 (ss_fs s)"
    and "\<And>k. k < length created \<Longrightarrow> n \<le> k \<Longrightarrow> new_index_of scheme sfx (created ! k) \<noteq> None \<Longrightarrow> fs_find (fi_name (created ! k)) fs0 \<noteq> None"
  shows "fst (undo_renames env (records_from scheme sfx created n) s)"
  using assms(3-5)
proof (induction "length created - n" arbitrary: n s)
  case 0
  then show ?case by (simp add: records_from_def)
next
  case (Suc d)
  then have n: "n < length created" by simp
  show ?case
  proof (cases "new_index_of scheme sfx (created ! n)")
    case None
    have "shifted_from scheme sfx created n = shifted_from scheme sfx created (Suc n)"
      unfolding shifted_from_step(1) [OF n] using n None
      by (simp add: shifted_def shifted_from_nth list_update_same_conv shifted_from_ends)
    then have "stage scheme sfx created (Suc n) fs0 (ss_fs s)" using Suc.prems(2) by (simp add: stage_def)
    with Suc.hyps(1) [of "Suc n" s] Suc.hyps(2) Suc.prems(3) n None show ?thesis
      by (simp add: records_from_step [OF n] record_of_def)
  next
    case (Some i)
    let ?old = "fi_name (created ! n)" and ?new = "get_filename (fi_base_filename (created ! n)) i sfx"
    have ne: "?new \<noteq> ?old"
      using assms(2) [unfolded renamable_def, THEN conjunct2, rule_format, OF n] Some fi_name_shifted [OF Some] by simp
    obtain ok1 s2 where ren: "rename_file env ?new ?old s = (ok1, s2)" by force
    obtain fs2 where fs2: "s2 = s\<lparr>ss_fs := fs2\<rparr>" "if ok1 then renames ?new ?old (ss_fs s) fs2 else same_files (ss_fs s) fs2"
      using rename_file_spec [OF ren ne] by blast
    have "file_nums (shifted_from scheme sfx created n) (ss_fs s) ! n = file_nums created fs0 ! n"
      using Suc.prems(2) by (simp add: stage_def)
    then have "fs_find ?new (ss_fs s) = fs_find ?old fs0"
      using n fi_name_shifted [OF Some] by (simp add: file_nums_def shifted_from_nth shifted_from_ends)
    then have "fs_find ?new (ss_fs s) \<noteq> None" using Suc.prems(3) [OF n] Some by simp
    then have ok1: "ok1" using rename_file_transient [OF assms(1), of ?new ?old s s2] ren by (cases ok1) auto
    then have "stage scheme sfx created (Suc n) fs0 (ss_fs s2)"
      using stage_rename(2) [OF assms(2) n Some Suc.prems(2)] fs2 by simp
    with Suc.hyps(1) [of "Suc n" s2] Suc.hyps(2) Suc.prems(3) n Some ren ok1 show ?thesis
      by (auto simp: records_from_step [OF n] record_of_def split: prod.splits)
  qed
qed

text \<open>
  What is needed of a rotating sink: its files are well formed, the file system is, and the suffix is
  a date where the scheme asks for one.
\<close>

definition rotation_ready :: "rotation_env \<Rightarrow> ('x, 'm) rotating_sink_scheme \<Rightarrow> bool" where
  "rotation_ready env s \<longleftrightarrow>
     path_ok (ss_filename s) \<and> files_ok (rc_rotation_naming_scheme (rs_config s)) (ss_filename s) (rs_created_files s)
     \<and> indices_ok (rs_created_files s) \<and> fs_ok (ss_fs s)
     \<and> (\<forall>sfx. datetime_suffix_of (re_calendar env) (rs_open_file_timestamp s) (rs_config s) = Inr sfx
            \<longrightarrow> suffix_ok (rc_rotation_naming_scheme (rs_config s)) sfx)"

text \<open>The outcome: the sink has its file open, and its files have the text of those that were kept.\<close>

definition rotated_to :: "file_info list \<Rightarrow> ('x, 'm) rotating_sink_scheme \<Rightarrow> ('x, 'm) rotating_sink_scheme \<Rightarrow> bool" where
  "rotated_to kept s s1 \<longleftrightarrow>
     files_text (rs_created_files s1) (ss_fs s1) = files_text kept (ss_fs s)
     \<and> files_ok (rc_rotation_naming_scheme (rs_config s)) (ss_filename s) (rs_created_files s1) \<and> fs_ok (ss_fs s1)
     \<and> (\<exists>i. ss_file s1 = Some \<lparr>fo_file = i, fo_pending = []\<rparr> \<and> fs_find (ss_filename s) (ss_fs s1) = Some i)
     \<and> ss_filename s1 = ss_filename s \<and> rs_config s1 = rs_config s \<and> ss_notifier s1 = ss_notifier s
     \<and> ss_is_null s1 = ss_is_null s \<and> ss_config s1 = ss_config s \<and> rs_next_rotation_time s1 = rs_next_rotation_time s"

lemma opens_ok: "opens p tr fs i fs1 \<Longrightarrow> fs_ok fs \<Longrightarrow> fs_ok fs1"
  by (cases "fs_find p fs") (fastforce simp: opens_def fs_ok_def)+

lemma opens_finds: "opens p tr fs i fs1 \<Longrightarrow> q \<noteq> p \<Longrightarrow> fs_find q fs1 = fs_find q fs"
  by (cases "fs_find p fs") (auto simp: opens_def fs_find_def map_add_def split: option.split)

lemma opens_data:
  assumes "opens p tr fs i fs1" "fs_ok fs" "fs_find q fs = Some j" "q \<noteq> p"
  shows "fs_data fs1 j = fs_data fs j"
proof (cases "fs_find p fs")
  case None
  with assms fs_ok_next [OF assms(2,3)] show ?thesis by (auto simp: opens_def)
next
  case (Some k)
  with assms(1,4) fs_ok_distinct [OF assms(2,3)] have "j \<noteq> k" by auto
  with Some assms(1) show ?thesis by (auto simp: opens_def split: if_splits)
qed

lemma base_name: "fi_name (new_file_info p) = p"
  by (simp add: fi_name_def new_file_info_def get_filename_def)

lemma older_name: "path_ok p \<Longrightarrow> file_info_ok scheme p f \<Longrightarrow> fi_name f \<noteq> p"
  using get_filename_not_base [of p scheme "fi_date_time f" "fi_index f"] by (simp add: fi_name_def file_info_ok_def)

lemma reopen_mode_keeps: "\<not> truncates_mode (reopen_mode_after_failed_rotation m)"
  by (cases m) (simp_all add: truncates_mode_def reopen_mode_after_failed_rotation_def)

text \<open>A file that is opened and not truncated keeps every text.\<close>

lemma reopened_text:
  assumes "opens p False fs i fs1" "fs_find p fs \<noteq> None"
  shows "files_text fl fs1 = files_text fl fs" "fs_data fs1 = fs_data fs" "fs_find p fs1 = fs_find p fs"
proof -
  obtain j where "fs_find p fs = Some j" using assms(2) by blast
  then have eq: "fs_names fs1 = fs_names fs" "fs_data fs1 = fs_data fs" using assms(1) by (simp_all add: opens_def)
  then have "fs_find q fs1 = fs_find q fs" for q by (simp add: fs_find_def)
  moreover from this eq(2) have "files_text fl fs1 = files_text fl fs" by (intro files_text_unchanged) simp_all
  ultimately show "files_text fl fs1 = files_text fl fs" "fs_data fs1 = fs_data fs" "fs_find p fs1 = fs_find p fs"
    using eq(2) by simp_all
qed

lemma fresh_file_text:
  assumes "opens p tr fs i fs1" "fs_ok fs" "fs_find p fs = None" "path_ok p" "\<forall>f \<in> set fl. file_info_ok scheme p f"
  shows "files_text (new_file_info p # fl) fs1 = files_text fl fs"
proof -
  have "file_text fs1 (new_file_info p) = []" using assms(1,3) by (simp add: file_text_def base_name opens_def)
  moreover have "files_text fl fs1 = files_text fl fs"
  proof (rule files_text_unchanged)
    fix f assume "f \<in> set fl"
    then have ne: "fi_name f \<noteq> p" using assms(4,5) older_name by blast
    show "fs_find (fi_name f) fs1 = fs_find (fi_name f) fs" by (rule opens_finds [OF assms(1) ne])
    show "fs_data fs1 j = fs_data fs j" if "fs_find (fi_name f) fs = Some j" for j
      by (rule opens_data [OF assms(1,2) that ne])
  qed
  ultimately show ?thesis by (simp add: files_text_Cons)
qed

lemma rename_all_spec:
  assumes "rename_loop env scheme sfx created [] (length created) s = (ok, recs, s1)" "renamable scheme sfx created" "fs_ok (ss_fs s)"
  shows "\<exists>m fs. m \<le> length created \<and> recs = rev (records_from scheme sfx created m) \<and> s1 = s\<lparr>ss_fs := fs\<rparr> \<and> stage scheme sfx created m (ss_fs s) fs
    \<and> (ok \<longrightarrow> m = 0 \<and> (created \<noteq> [] \<and> new_index_of scheme sfx (created ! 0) \<noteq> None \<longrightarrow> fs_find (fi_name (created ! 0)) fs = None))
    \<and> (\<forall>k. m \<le> k \<and> k < length created \<and> new_index_of scheme sfx (created ! k) \<noteq> None \<longrightarrow> fs_find (fi_name (created ! k)) (ss_fs s) \<noteq> None)
    \<and> (\<not> ok \<and> transient_failures env \<longrightarrow> 0 < m \<and> fs_find (fi_name (created ! (m - 1))) (ss_fs s) = None)"
proof -
  have "stage scheme sfx created (length created) (ss_fs s) (ss_fs s)" using assms(3) by (simp add: stage_def shifted_from_ends)
  moreover have "rename_loop env scheme sfx created (rev (records_from scheme sfx created (length created))) (length created) s = (ok, recs, s1)"
    using assms(1) by (simp add: records_from_def)
  ultimately show ?thesis using rename_loop_spec [OF _ le_refl assms(2)] by simp
qed

text \<open>A failed rotation is undone, and the file opened again as it was.\<close>

lemma failed_rotation_spec:
  assumes "reopen_after_failure env (snd (undo_renames env (records_from scheme sfx created m) s1)) = (None, s2)"
    and "s1 = s\<lparr>ss_fs := fs\<rparr>" "stage scheme sfx created m (ss_fs s) fs" "m \<le> length created" "renamable scheme sfx created" "transient_failures env"
    and "\<forall>k. m \<le> k \<and> k < length created \<and> new_index_of scheme sfx (created ! k) \<noteq> None \<longrightarrow> fs_find (fi_name (created ! k)) (ss_fs s) \<noteq> None"
    and "fs_ok (ss_fs s)" "created = rs_created_files s" "hd created = new_file_info (ss_filename s)" "created \<noteq> []"
    and "fs_find (ss_filename s) (ss_fs s) = Some i" "files_ok (rc_rotation_naming_scheme (rs_config s)) (ss_filename s) created"
  shows "rotated_to created s s2 \<and> rs_created_files s2 = created \<and> ss_file s2 = Some \<lparr>fo_file = i, fo_pending = []\<rparr>
    \<and> fs_data (ss_fs s2) i = fs_data (ss_fs s) i \<and> ((\<forall>k. io_ok env k) \<longrightarrow> ss_file_size s2 = of_nat (length (fs_data (ss_fs s) i)))"
proof -
  let ?p = "ss_filename s"
  obtain ok3 s3 where undo: "undo_renames env (records_from scheme sfx created m) s1 = (ok3, s3)" by force
  have "ok3" using undo_renames_transient [OF assms(6,5,4), of "ss_fs s" s1] assms(2,3,7) undo by simp
  then obtain fs3 where fs3: "s3 = s1\<lparr>ss_fs := fs3\<rparr>" "stage scheme sfx created (length created) (ss_fs s) fs3"
    using undo_renames_spec [OF undo assms(4,5), of "ss_fs s"] assms(2,3) by auto
  then have nums: "file_nums created fs3 = file_nums created (ss_fs s)" "fs_data fs3 = fs_data (ss_fs s)" "fs_ok fs3"
    using assms(8) by (simp_all add: stage_def shifted_from_ends)
  have "file_nums created fs3 ! 0 = file_nums created (ss_fs s) ! 0" using nums(1) by simp
  then have found: "fs_find ?p fs3 = Some i" using assms(10-12) by (simp add: file_nums_def hd_conv_nth base_name)
  have s3: "s3 = s\<lparr>ss_fs := fs3\<rparr>" using fs3(1) assms(2) by simp
  obtain r4 s4 where op: "open_file env ?p (reopen_mode_after_failed_rotation (fk_open_mode (rs_config s))) s3 = (r4, s4)" by force
  have "r4 = None" using assms(1) undo op s3 by (auto simp: reopen_after_failure_def split: option.splits)
  with op have op': "open_file env ?p (reopen_mode_after_failed_rotation (fk_open_mode (rs_config s))) s3 = (None, s4)" by simp
  have "ss_fs s3 = fs3" using s3 by simp
  then obtain j fs4 x where s4: "s4 = s3\<lparr>ss_fs := fs4, ss_world := x, ss_file := Some \<lparr>fo_file = j, fo_pending = []\<rparr>\<rparr>"
    "opens ?p (truncates_mode (reopen_mode_after_failed_rotation (fk_open_mode (rs_config s)))) fs3 j fs4"
    using open_file_spec [OF op'] by blast
  have opens: "opens ?p False fs3 j fs4" using s4(2) reopen_mode_keeps by simp
  note re = reopened_text [OF opens, unfolded found, OF option.distinct(2)]
  have j: "j = i" using opens found by (simp add: opens_def)
  obtain n s5 where size: "get_file_size env ?p s4 = (n, s5)" by force
  have s5: "\<exists>fs5. s5 = s4\<lparr>ss_fs := fs5\<rparr> \<and> same_files fs4 fs5 \<and> ((\<forall>k. io_ok env k) \<longrightarrow> n = of_nat (length (fs_data fs4 i)))"
    using size s4(1) re(3) by (auto simp: get_file_size_def os_call_def fs_find_def split: option.splits)
  then obtain fs5 where fs5: "s5 = s4\<lparr>ss_fs := fs5\<rparr>" "same_files fs4 fs5" "(\<forall>k. io_ok env k) \<longrightarrow> n = of_nat (length (fs_data fs4 i))" by blast
  have s2: "s2 = s5\<lparr>ss_file_size := n\<rparr>"
    using assms(1) undo op \<open>r4 = None\<close> size s3 s4(1) by (simp add: reopen_after_failure_def resync_file_size_def)
  have fsok: "fs_ok fs5" using fs_ok_cong [of fs5 fs4] opens_ok [OF opens nums(3)] fs5(2) by (simp add: same_files_def)
  have data5: "fs_data fs5 = fs_data (ss_fs s)" "files_text created fs5 = files_text created (ss_fs s)" "fs_find ?p fs5 = Some i"
    using fs5(2) re nums(2) files_text_cong [OF nums(1,2)] files_text_cong [OF file_nums_same [OF fs5(2)], of created]
      same_files_find [OF fs5(2)] by (simp_all add: same_files_def)
  show ?thesis
    using s2 fs5 s4(1) s3 data5 fsok assms(9,13) j re(2) nums(2) by (simp add: rotated_to_def)
qed

text \<open>A rotation that worked, behind the renaming.\<close>

lemma finished_rotation_spec:
  assumes "open_after_rotation env ts (s2\<lparr>rs_created_files := new_file_info (ss_filename s2) # rs_created_files s2\<rparr>) = (None, s3)"
    and "s2 = drop_oldest env (s1\<lparr>rs_created_files := map (shifted scheme sfx) created\<rparr>)"
    and "s1 = s\<lparr>ss_fs := fs\<rparr>" "stage scheme sfx created 0 (ss_fs s) fs" "renamable scheme sfx created" "fs_ok (ss_fs s)"
    and "fs_find (ss_filename s) fs = None" "path_ok (ss_filename s)" "scheme = rc_rotation_naming_scheme (rs_config s)"
    and "files_ok scheme (ss_filename s) created" "suffix_ok scheme sfx" "indices_ok created"
  shows "(rotated_to created s s3 \<or> rotated_to (butlast created) s s3 \<and> length created > unat (rc_max_backup_files (rs_config s)))
    \<and> stream_text s3 = [] \<and> ss_file_size s3 = 0"
proof -
  let ?p = "ss_filename s" and ?sh = "map (shifted scheme sfx) created"
  let ?drops = "length created > unat (rc_max_backup_files (rs_config s))"
  define kept where "kept = (if ?drops then butlast created else created)"
  define fl where "fl = (if ?drops then butlast ?sh else ?sh)"
  have ne: "created \<noteq> []" using assms(10) by (auto simp: files_ok_def)
  have nums: "file_nums ?sh fs = file_nums created (ss_fs s)" "fs_data fs = fs_data (ss_fs s)" "fs_ok fs"
    using assms(4,6) by (simp_all add: stage_def shifted_from_ends)
  have dist: "distinct (map fi_name ?sh)"
    using assms(5) unfolding renamable_def by (metis le0 shifted_from_ends(2))
  have sub: "set fl \<subseteq> set ?sh" by (auto simp: fl_def dest: in_set_butlastD)
  have ok: "\<forall>f \<in> set ?sh. file_info_ok scheme ?p f"
    using any_info_shifted [OF files_ok_any [OF assms(10)] assms(11)] assms(12) by (auto simp: indices_ok_def)
  have files: "files_ok scheme ?p (new_file_info ?p # fl)"
    using rotated_files_ok [OF assms(10-12)] by (simp add: fl_def)
  have text_fl: "files_text fl fs = files_text kept (ss_fs s)"
    using files_text_cong [OF nums(1,2)] files_text_cong [of "butlast ?sh" fs "butlast created" "ss_fs s"] nums
    by (simp add: fl_def kept_def file_nums_butlast)
  obtain fs2 where fs2: "s2 = s\<lparr>ss_fs := fs2, rs_created_files := fl\<rparr>" "fs_ok fs2" "files_text fl fs2 = files_text fl fs" "fs_find ?p fs2 = None"
  proof (cases ?drops)
    case False
    then have "s2 = s\<lparr>ss_fs := fs, rs_created_files := fl\<rparr>" using assms(2,3) by (simp add: drop_oldest_def fl_def)
    with assms(7) nums(3) show ?thesis by (intro that [of fs]) simp_all
  next
    case True
    let ?s1 = "s1\<lparr>rs_created_files := ?sh\<rparr>"
    obtain fs2 where rm: "remove_file env (fi_name (last ?sh)) ?s1 = ?s1\<lparr>ss_fs := fs2\<rparr>" "fs_data fs2 = fs_data fs" "fs_ok fs2"
      "\<forall>q. q \<noteq> fi_name (last ?sh) \<longrightarrow> fs_find q fs2 = fs_find q fs"
      using remove_file_spec [of env "fi_name (last ?sh)" ?s1] assms(3) nums(3) by auto
    have "fi_name f \<noteq> fi_name (last ?sh)" if "f \<in> set fl" for f
    proof -
      have "map fi_name ?sh = map fi_name (butlast ?sh) @ [fi_name (last ?sh)]"
        using ne by (metis append_butlast_last_id list.simps(8,9) map_append map_is_Nil_conv)
      then have "fi_name (last ?sh) \<notin> set (map fi_name (butlast ?sh))" using dist by (metis distinct_append disjoint_iff list.set_intros(1))
      moreover have "fi_name f \<in> set (map fi_name (butlast ?sh))" using that True by (simp add: fl_def)
      ultimately show ?thesis by metis
    qed
    then have "files_text fl fs2 = files_text fl fs" using rm(2,4) by (intro files_text_unchanged) simp_all
    moreover have "?p \<noteq> fi_name (last ?sh)" using ok ne older_name [OF assms(8)] by (metis last_in_set map_is_Nil_conv)
    then have "fs_find ?p fs2 = None" using rm(4) assms(7) by simp
    moreover have "s2 = s\<lparr>ss_fs := fs2, rs_created_files := fl\<rparr>" using assms(2,3) True rm(1) by (simp add: drop_oldest_def fl_def)
    ultimately show ?thesis using rm(3) by (intro that [of fs2]) simp_all
  qed
  let ?s2 = "s2\<lparr>rs_created_files := new_file_info (ss_filename s2) # rs_created_files s2\<rparr>"
  have s2: "?s2 = s\<lparr>ss_fs := fs2, rs_created_files := new_file_info ?p # fl\<rparr>" using fs2(1) by simp
  obtain r4 s4 where op: "open_file env ?p (fk_open_mode (rs_config s)) ?s2 = (r4, s4)" by force
  have r4: "r4 = None" "s3 = s4\<lparr>rs_open_file_timestamp := ts, ss_file_size := 0\<rparr>"
    using assms(1) op unfolding s2 by (auto simp: open_after_rotation_def split: option.splits)
  have "ss_fs ?s2 = fs2" unfolding s2 by simp
  then obtain i fs4 x where s4: "s4 = ?s2\<lparr>ss_fs := fs4, ss_world := x, ss_file := Some \<lparr>fo_file = i, fo_pending = []\<rparr>\<rparr>"
    "opens ?p (truncates_mode (fk_open_mode (rs_config s))) fs2 i fs4"
    using open_file_spec [of env ?p "fk_open_mode (rs_config s)" ?s2 s4] op r4(1) by blast
  have "files_text (new_file_info ?p # fl) fs4 = files_text kept (ss_fs s)"
  proof -
    have "\<forall>f \<in> set fl. file_info_ok scheme ?p f" using sub ok by blast
    from fresh_file_text [OF s4(2) fs2(2,4) assms(8) this] show ?thesis using fs2(3) text_fl by (simp only:)
  qed
  moreover have "fs_ok fs4" by (rule opens_ok [OF s4(2) fs2(2)])
  moreover have "fs_find ?p fs4 = Some i" "fs_data fs4 i = []" using s4(2) fs2(4) by (simp_all add: opens_def)
  ultimately have "rotated_to kept s s3 \<and> stream_text s3 = [] \<and> ss_file_size s3 = 0"
    using r4(2) s4(1) files assms(9) unfolding s2 by (simp add: rotated_to_def stream_text_def)
  then show ?thesis by (simp add: kept_def split: if_splits)
qed

lemma head_is_renamed:
  assumes "files_ok scheme p created" "suffix_ok scheme sfx"
  shows "new_index_of scheme sfx (created ! 0) \<noteq> None" "fi_name (created ! 0) = p" "created \<noteq> []" "hd created = new_file_info p"
proof -
  obtain older where "created = new_file_info p # older" using assms(1) by (auto simp: files_ok_def)
  then show "new_index_of scheme sfx (created ! 0) \<noteq> None" "fi_name (created ! 0) = p" "created \<noteq> []" "hd created = new_file_info p"
    using suffix_empty [OF assms(2)] by (auto simp: new_index_of_def new_file_info_def fi_name_def get_filename_def)
qed

text \<open>
  A rotation of the closed file either renames every file, of which the oldest may go when there are
  too many, and starts an empty one; or some file was missing, and all is as before.
\<close>

definition rotation_outcome :: "io_env \<Rightarrow> ('x, 'm) rotating_sink_scheme \<Rightarrow> ('x, 'm) rotating_sink_scheme \<Rightarrow> bool" where
  "rotation_outcome env s s1 \<longleftrightarrow>
     (let created = rs_created_files s in
      (rotated_to created s s1 \<or> rotated_to (butlast created) s s1 \<and> length created > unat (rc_max_backup_files (rs_config s)))
        \<and> stream_text s1 = [] \<and> ss_file_size s1 = 0
      \<or> rotated_to created s s1 \<and> rs_created_files s1 = created \<and> (\<exists>f \<in> set created. fs_find (fi_name f) (ss_fs s) = None)
        \<and> (\<forall>i. fs_find (ss_filename s) (ss_fs s) = Some i \<longrightarrow> stream_text s1 = fs_data (ss_fs s) i
             \<and> ((\<forall>k. io_ok env k) \<longrightarrow> ss_file_size s1 = of_nat (length (fs_data (ss_fs s) i)))))"

lemma rotate_closed_file_spec:
  assumes "rotate_closed_file env ts s = (None, s1)" "rotation_ready env s" "transient_failures (re_io env)"
    and "fs_find (ss_filename s) (ss_fs s) = Some i"
  shows "rotation_outcome (re_io env) s s1"
proof -
  let ?p = "ss_filename s" and ?c = "rs_config s" and ?created = "rs_created_files s"
  let ?scheme = "rc_rotation_naming_scheme ?c"
  have ready: "path_ok ?p" "files_ok ?scheme ?p ?created" "indices_ok ?created" "fs_ok (ss_fs s)"
    using assms(2) by (simp_all add: rotation_ready_def)
  obtain sfx where sfx: "datetime_suffix_of (re_calendar env) (rs_open_file_timestamp s) ?c = Inr sfx"
    using assms(1) by (cases "datetime_suffix_of (re_calendar env) (rs_open_file_timestamp s) ?c") (auto simp: rotate_closed_file_def)
  then have sfx_ok: "suffix_ok ?scheme sfx" using assms(2) by (simp add: rotation_ready_def)
  note head = head_is_renamed [OF ready(2) sfx_ok]
  have ren: "renamable ?scheme sfx ?created" by (rule renamable_files [OF ready(1,2) sfx_ok ready(3)])
  obtain ok recs s2 where loop: "rename_loop (re_io env) ?scheme sfx ?created [] (length ?created) s = (ok, recs, s2)"
    by (metis prod_cases3)
  obtain m fs where m: "m \<le> length ?created" "recs = rev (records_from ?scheme sfx ?created m)" "s2 = s\<lparr>ss_fs := fs\<rparr>"
    "stage ?scheme sfx ?created m (ss_fs s) fs"
    "ok \<longrightarrow> m = 0 \<and> (?created \<noteq> [] \<and> new_index_of ?scheme sfx (?created ! 0) \<noteq> None \<longrightarrow> fs_find (fi_name (?created ! 0)) fs = None)"
    "\<forall>k. m \<le> k \<and> k < length ?created \<and> new_index_of ?scheme sfx (?created ! k) \<noteq> None \<longrightarrow> fs_find (fi_name (?created ! k)) (ss_fs s) \<noteq> None"
    "\<not> ok \<and> transient_failures (re_io env) \<longrightarrow> 0 < m \<and> fs_find (fi_name (?created ! (m - 1))) (ss_fs s) = None"
    using rename_all_spec [OF loop ren ready(4)] by blast
  show ?thesis
  proof (cases ok)
    case False
    have undo: "reopen_after_failure (re_io env) (snd (undo_renames (re_io env) (records_from ?scheme sfx ?created m) s2)) = (None, s1)"
      using assms(1) sfx loop False m(2) by (simp add: rotate_closed_file_def)
    note res = failed_rotation_spec [OF undo m(3,4,1) ren assms(3) m(6) ready(4) refl head(4,3) assms(4) ready(2)]
    have "0 < m" "fs_find (fi_name (?created ! (m - 1))) (ss_fs s) = None" using m(7) False assms(3) by simp_all
    moreover from this m(1) have "?created ! (m - 1) \<in> set ?created" by simp
    ultimately have "\<exists>f \<in> set ?created. fs_find (fi_name f) (ss_fs s) = None" by blast
    with res assms(4) show ?thesis by (simp add: rotation_outcome_def stream_text_def)
  next
    case True
    then have m0: "m = 0" "fs_find ?p fs = None" using m(5) head by auto
    define s3 where "s3 = drop_oldest (re_io env) (s2\<lparr>rs_created_files := map (shifted ?scheme sfx) ?created\<rparr>)"
    have created: "apply_renames recs (rs_created_files s2) = map (shifted ?scheme sfx) ?created"
      using apply_records [of 0 ?created ?scheme sfx] m(2,3) m0(1) by (simp add: shifted_from_ends)
    have "open_after_rotation (re_io env) ts (s3\<lparr>rs_created_files := new_file_info (ss_filename s3) # rs_created_files s3\<rparr>) = (None, s1)"
      using assms(1) sfx loop True unfolding created [symmetric] s3_def by (simp add: rotate_closed_file_def Let_def)
    from finished_rotation_spec [OF this s3_def m(3) m(4) [unfolded m0(1)] ren ready(4) m0(2) ready(1) refl ready(2) sfx_ok ready(3)]
    show ?thesis unfolding rotation_outcome_def Let_def by (rule disjI1)
  qed
qed

subsection \<open>Writing\<close>

text \<open>Everything the sink has written and kept, the oldest first, with what is still in the buffer.\<close>

definition log_text :: "('x, 'm) rotating_sink_scheme \<Rightarrow> string" where
  "log_text s = files_text (tl (rs_created_files s)) (ss_fs s) @ stream_text s"

definition oldest_text :: "('x, 'm) rotating_sink_scheme \<Rightarrow> string" where
  "oldest_text s = (if tl (rs_created_files s) = [] then stream_text s else file_text (ss_fs s) (last (rs_created_files s)))"

definition sink_open :: "('x, 'm) rotating_sink_scheme \<Rightarrow> bool" where
  "sink_open s \<longleftrightarrow>
     path_ok (ss_filename s) \<and> files_ok (rc_rotation_naming_scheme (rs_config s)) (ss_filename s) (rs_created_files s) \<and> fs_ok (ss_fs s)
     \<and> ev_before_write (ss_notifier s) = None
     \<and> (\<exists>f. ss_file s = Some f \<and> fs_find (ss_filename s) (ss_fs s) = Some (fo_file f))"

definition suffix_known :: "rotation_env \<Rightarrow> ('x, 'm) rotating_sink_scheme \<Rightarrow> bool" where
  "suffix_known env s \<longleftrightarrow>
     (\<forall>sfx. datetime_suffix_of (re_calendar env) (rs_open_file_timestamp s) (rs_config s) = Inr sfx
         \<longrightarrow> suffix_ok (rc_rotation_naming_scheme (rs_config s)) sfx)"

lemma same_rotating:
  assumes "same_sink_but_stream i s s1"
  shows "rs_created_files s1 = rs_created_files s" "rs_config s1 = rs_config s" "rs_open_file_timestamp s1 = rs_open_file_timestamp s"
    "rs_next_rotation_time s1 = rs_next_rotation_time s"
  using assms unfolding same_sink_but_stream_def by auto

lemma older_texts_unchanged:
  assumes "files_ok scheme p created" "path_ok p" "fs_ok fs" "fs_find p fs = Some i"
    and "fs_names fs1 = fs_names fs" "\<And>j. j \<noteq> i \<Longrightarrow> fs_data fs1 j = fs_data fs j"
  shows "files_text (tl created) fs1 = files_text (tl created) fs"
    "tl created \<noteq> [] \<Longrightarrow> file_text fs1 (last created) = file_text fs (last created)"
proof -
  have same: "fs_find q fs1 = fs_find q fs" for q using assms(5) by (simp add: fs_find_def)
  have other: "fs_data fs1 j = fs_data fs j" if f: "f \<in> set (tl created)" and j: "fs_find (fi_name f) fs = Some j" for f j
  proof -
    have "file_info_ok scheme p f" using f assms(1) by (auto simp: files_ok_def)
    then have "fi_name f \<noteq> p" by (rule older_name [OF assms(2)])
    with fs_ok_distinct [OF assms(3) j] assms(4) have "j \<noteq> i" by blast
    then show ?thesis by (rule assms(6))
  qed
  show "files_text (tl created) fs1 = files_text (tl created) fs"
    by (rule files_text_unchanged [OF same other])
  show "file_text fs1 (last created) = file_text fs (last created)" if "tl created \<noteq> []"
  proof -
    have "last created \<in> set (tl created)" using that by (metis last_in_set last_tl)
    with other same show ?thesis by (auto simp: file_text_def split: option.split)
  qed
qed

lemma log_text_grows:
  assumes "sink_open s" "ss_file s = Some f" "same_sink_but_stream (fo_file f) s s1" "ss_file s1 = Some f1" "fo_file f1 = fo_file f"
    and "stream_text s1 = stream_text s @ t"
  shows "sink_open s1" "log_text s1 = log_text s @ t" "t = [] \<Longrightarrow> oldest_text s1 = oldest_text s"
proof -
  note r = same_rotating [OF assms(3)] same_sink_fields [OF assms(3)]
  have find: "fs_find (ss_filename s) (ss_fs s) = Some (fo_file f)" using assms(1,2) by (auto simp: sink_open_def)
  have fs: "fs_ok (ss_fs s1)" using assms(1) fs_ok_cong [of "ss_fs s1" "ss_fs s"] r(9,10) by (simp add: sink_open_def)
  then show "sink_open s1" using assms(1,2,4,5) r find by (auto simp: sink_open_def)
  have s: "path_ok (ss_filename s)" "files_ok (rc_rotation_naming_scheme (rs_config s)) (ss_filename s) (rs_created_files s)" "fs_ok (ss_fs s)"
    using assms(1) by (simp_all add: sink_open_def)
  note older = older_texts_unchanged [OF s(2,1,3) find r(9) r(12)]
  show "log_text s1 = log_text s @ t" using older(1) r(1) assms(6) by (simp add: log_text_def)
  show "oldest_text s1 = oldest_text s" if "t = []" using older(2) r(1) assms(6) that by (simp add: oldest_text_def)
qed

text \<open>What a rotation, or none, leaves.\<close>

definition keeps_log :: "('x, 'm) rotating_sink_scheme \<Rightarrow> ('x, 'm) rotating_sink_scheme \<Rightarrow> bool" where
  "keeps_log s s1 \<longleftrightarrow>
     sink_open s1 \<and> ss_filename s1 = ss_filename s \<and> rs_config s1 = rs_config s \<and> rs_next_rotation_time s1 = rs_next_rotation_time s
     \<and> (log_text s1 = log_text s
        \<or> log_text s = oldest_text s @ log_text s1 \<and> length (rs_created_files s) > unat (rc_max_backup_files (rs_config s)) \<and> rc_overwrite_rolled_files (rs_config s))"

lemma rotated_to_log:
  assumes "rotated_to kept s s1"
  shows "log_text s1 = files_text kept (ss_fs s)"
proof -
  obtain i where i: "ss_file s1 = Some \<lparr>fo_file = i, fo_pending = []\<rparr>" "fs_find (ss_filename s) (ss_fs s1) = Some i"
    using assms by (auto simp: rotated_to_def)
  obtain older where "rs_created_files s1 = new_file_info (ss_filename s) # older" using assms by (auto simp: rotated_to_def files_ok_def)
  with i assms show ?thesis
    by (simp add: log_text_def stream_text_def rotated_to_def files_text_Cons file_text_def base_name)
qed

lemma close_and_rotate_spec:
  assumes "run_ops [close_file (re_io env), rotate_closed_file env ts] s = (None, s1)" "sink_open s" "suffix_known env s" "indices_ok (rs_created_files s)"
    and "transient_failures (re_io env)" "length (rs_created_files s) > unat (rc_max_backup_files (rs_config s)) \<longrightarrow> rc_overwrite_rolled_files (rs_config s)"
  shows "keeps_log s s1
    \<and> (stream_text s1 = [] \<and> ss_file_size s1 = 0
       \<or> (\<exists>f \<in> set (rs_created_files s). fs_find (fi_name f) (ss_fs s) = None) \<and> stream_text s1 = stream_text s
         \<and> ((\<forall>k. io_ok (re_io env) k) \<longrightarrow> ss_file_size s1 = of_nat (length (stream_text s))))"
proof -
  let ?p = "ss_filename s" and ?created = "rs_created_files s"
  let ?scheme = "rc_rotation_naming_scheme (rs_config s)"
  have s: "path_ok ?p" "files_ok ?scheme ?p ?created" "fs_ok (ss_fs s)" "ev_before_write (ss_notifier s) = None"
    using assms(2) by (simp_all add: sink_open_def)
  obtain f where f: "ss_file s = Some f" "fs_find ?p (ss_fs s) = Some (fo_file f)" using assms(2) by (auto simp: sink_open_def)
  obtain s2 where close: "close_file (re_io env) s = (None, s2)" and rot: "rotate_closed_file env ts s2 = (None, s1)"
    using assms(1) by (auto split: option.splits prod.splits)
  obtain fs x where s2: "s2 = s\<lparr>ss_fs := fs, ss_world := x, ss_file := None\<rparr>" and fs: "fs_names fs = fs_names (ss_fs s)"
    "fs_next fs = fs_next (ss_fs s)" "fs_data fs = (fs_data (ss_fs s))(fo_file f := stream_text s)"
    using close_file_spec [OF close f(1)] by blast
  have find: "fs_find q fs = fs_find q (ss_fs s)" for q using fs(1) by (simp add: fs_find_def)
  have fsok: "fs_ok fs" using s(3) fs_ok_cong [OF fs(1,2)] by simp
  have ready: "rotation_ready env s2"
    using s assms(3,4) fsok s2 by (simp add: rotation_ready_def suffix_known_def)
  have found: "fs_find (ss_filename s2) (ss_fs s2) = Some (fo_file f)" using find f(2) s2 by simp
  have out: "rotation_outcome (re_io env) s2 s1" by (rule rotate_closed_file_spec [OF rot ready assms(5) found])
  have older: "files_text (tl ?created) fs = files_text (tl ?created) (ss_fs s)"
    "tl ?created \<noteq> [] \<Longrightarrow> file_text fs (last ?created) = file_text (ss_fs s) (last ?created)"
    using older_texts_unchanged [OF s(2,1,3) f(2) fs(1)] fs(3) by simp_all
  obtain old where created: "?created = new_file_info ?p # old" using s(2) by (auto simp: files_ok_def)
  have head: "file_text fs (new_file_info ?p) = stream_text s" using find f(2) fs(3) by (simp add: file_text_def base_name)
  have all: "files_text ?created fs = log_text s" using older(1) head by (simp add: created files_text_Cons log_text_def)
  have split: "log_text s = oldest_text s @ files_text (butlast ?created) fs"
  proof -
    have "?created = butlast ?created @ [last ?created]" using created by simp
    then have "files_text ?created fs = file_text fs (last ?created) @ files_text (butlast ?created) fs"
      using files_text_snoc [of "butlast ?created" "last ?created" fs] by simp
    moreover have "file_text fs (last ?created) = oldest_text s"
      using older(2) head created by (auto simp: oldest_text_def)
    ultimately show ?thesis using all by simp
  qed
  have keep: "keeps_log s s1" if "rotated_to kept s2 s1" "kept = ?created \<or> kept = butlast ?created \<and> length ?created > unat (rc_max_backup_files (rs_config s))" for kept
  proof -
    have "log_text s1 = files_text kept fs" using rotated_to_log [OF that(1)] s2 by simp
    with that all split s assms(6) s2 show ?thesis by (auto simp: keeps_log_def sink_open_def rotated_to_def)
  qed
  have fs_s2: "ss_fs s2 = fs" "rs_created_files s2 = ?created" "rs_config s2 = rs_config s" "ss_filename s2 = ?p" using s2 by simp_all
  have content: "fs_data fs (fo_file f) = stream_text s" using fs(3) by simp
  from out [unfolded rotation_outcome_def Let_def fs_s2]
  show ?thesis
  proof (elim disjE conjE)
    assume "rotated_to ?created s2 s1" "stream_text s1 = []" "ss_file_size s1 = 0"
    with keep show ?thesis by simp
  next
    assume "rotated_to (butlast ?created) s2 s1" "stream_text s1 = []" "ss_file_size s1 = 0" "unat (rc_max_backup_files (rs_config s)) < length ?created"
    with keep show ?thesis by simp
  next
    assume "rotated_to ?created s2 s1" "\<exists>f \<in> set ?created. fs_find (fi_name f) fs = None"
      "\<forall>i. fs_find ?p fs = Some i \<longrightarrow> stream_text s1 = fs_data fs i \<and> ((\<forall>k. io_ok (re_io env) k) \<longrightarrow> ss_file_size s1 = of_nat (length (fs_data fs i)))"
    with keep find f(2) content show ?thesis by simp
  qed
qed

lemma keeps_log_trans:
  assumes "keeps_log s1 s2" "log_text s1 = log_text s" "oldest_text s1 = oldest_text s" "ss_filename s1 = ss_filename s"
    and "rs_config s1 = rs_config s" "rs_next_rotation_time s1 = rs_next_rotation_time s" "rs_created_files s1 = rs_created_files s"
  shows "keeps_log s s2"
  using assms by (simp add: keeps_log_def)

text \<open>Text in the buffer is marked as written, so that a flush will not pass it over.\<close>

definition buffer_marked :: "('x, 'm) rotating_sink_scheme \<Rightarrow> bool" where
  "buffer_marked s \<longleftrightarrow> (\<forall>f. ss_file s = Some f \<longrightarrow> ss_write_occurred s \<or> fo_pending f = [])"

text \<open>What a full rotation leaves, of its size too; no call is refused in the second part.\<close>

lemma rotate_files_spec:
  assumes "rotate_files env ts s = (None, s1)" "sink_open s" "suffix_known env s" "indices_ok (rs_created_files s)"
    and "transient_failures (re_io env)"
  shows "keeps_log s s1"
    "(\<forall>k. io_ok (re_io env) k) \<and> buffer_marked s \<and> length (stream_text s) < 2 ^ 64 \<and> ss_file_size s = of_nat (length (stream_text s)) \<Longrightarrow>
      stream_text s1 = [] \<and> ss_file_size s1 = 0
      \<or> ss_file_size s1 = of_nat (length (stream_text s)) \<and> stream_text s1 = stream_text s
        \<and> (length (rs_created_files s) > unat (rc_max_backup_files (rs_config s)) \<and> \<not> rc_overwrite_rolled_files (rs_config s)
           \<or> (\<exists>f \<in> set (rs_created_files s). fs_find (fi_name f) (ss_fs s) = None))"
proof -
  let ?full = "length (rs_created_files s) > unat (rc_max_backup_files (rs_config s)) \<and> \<not> rc_overwrite_rolled_files (rs_config s)"
  let ?all = "(\<forall>k. io_ok (re_io env) k) \<and> buffer_marked s \<and> length (stream_text s) < 2 ^ 64 \<and> ss_file_size s = of_nat (length (stream_text s))"
  obtain f where f: "ss_file s = Some f" "fs_find (ss_filename s) (ss_fs s) = Some (fo_file f)" using assms(2) by (auto simp: sink_open_def)
  have "keeps_log s s1 \<and> (?all \<longrightarrow> stream_text s1 = [] \<and> ss_file_size s1 = 0 \<or> ss_file_size s1 = of_nat (length (stream_text s)) \<and> stream_text s1 = stream_text s
        \<and> (?full \<or> (\<exists>f \<in> set (rs_created_files s). fs_find (fi_name f) (ss_fs s) = None)))"
  proof (cases ?full)
    case True
    then have "s1 = s" using assms(1) by (simp add: rotate_files_def)
    with True assms(2) show ?thesis by (simp add: keeps_log_def)
  next
    case False
    define check where "check = (\<lambda>s :: ('a, 'b) rotating_sink_scheme. case get_file_size (re_io env) (ss_filename s) s of
        (n, s1) \<Rightarrow> if n = 0 then (None, s1) else run_ops [close_file (re_io env), rotate_closed_file env ts] s1)"
    have run: "run_ops [flush_sink (re_io env), fsync_file (re_io env) True, check] s = (None, s1)"
      using assms(1) False f(1) unfolding rotate_files_def check_def by auto
    obtain s2 where fl: "flush_sink (re_io env) s = (None, s2)" using run by (auto split: option.splits prod.splits)
    obtain s3 where sy: "fsync_file (re_io env) True s2 = (None, s3)" using run fl by (auto split: option.splits prod.splits)
    have last: "check s3 = (None, s1)" using run fl sy by (auto split: option.splits prod.splits)
    obtain f2 where f2: "ss_file s2 = Some f2" "fo_file f2 = fo_file f" "stream_text s2 = stream_text s"
      "ss_write_occurred s \<longrightarrow> fo_pending f2 = []" "same_sink_but_stream (fo_file f) s s2" "ss_file_size s2 = ss_file_size s"
      using flush_sink_spec [OF fl f(1)] f(2) by auto
    have pending: "buffer_marked s \<Longrightarrow> fo_pending f2 = []"
      using f2(1,4) fl f(1) by (cases "ss_write_occurred s") (auto simp: buffer_marked_def flush_sink_def)
    note s3 = fsync_spec [OF sy, of "fo_file f"]
    obtain n s4 where size: "get_file_size (re_io env) (ss_filename s3) s3 = (n, s4)" by force
    obtain ok where call: "os_call (re_io env) s3 = (ok, s4)" using size by (auto simp: get_file_size_def split: option.splits prod.splits)
    note os = os_call_spec [OF call]
    have same: "same_sink_but_stream (fo_file f) s s4" using same_sink_trans [OF f2(5)] same_sink_trans [OF _ os(3)] s3 by blast
    have f4: "ss_file s4 = Some f2" "stream_text s4 = stream_text s @ []" "ss_file_size s4 = ss_file_size s"
      using os s3 f2(1,3,6) by simp_all
    note r = same_rotating [OF same] same_sink_fields [OF same]
    note g = log_text_grows [OF assms(2) f(1) same f4(1) f2(2) f4(2)]
    have n: "n = of_nat (length (stream_text s))" if ?all
    proof -
      have "ok" using call that by (simp add: os_call_def)
      moreover have "fs_find (ss_filename s3) (ss_fs s4) = Some (fo_file f)"
        using f(2) r(5,11) same_sink_fields(1) [of "fo_file f" s3 s4] os(3) by simp
      moreover have "fs_data (ss_fs s4) (fo_file f) = stream_text s"
        using f4(1,2) f2(2) pending that by (simp add: stream_text_def)
      ultimately show ?thesis using size call by (auto simp: get_file_size_def)
    qed
    show ?thesis
    proof (cases "n = 0")
      case True
      have "s1 = s4" using last size True by (simp add: check_def)
      moreover have "stream_text s = []" if all: ?all
      proof (rule ccontr)
        assume "stream_text s \<noteq> []"
        moreover have "(of_nat (length (stream_text s)) :: u64) = 0" using n [OF all] True by simp
        ultimately show False using all by (simp add: word_of_nat_eq_0_iff nat_dvd_not_less)
      qed
      moreover have "keeps_log s s4" using g r by (simp add: keeps_log_def)
      ultimately show ?thesis using f4(2,3) by auto
    next
      case False
      have rot: "run_ops [close_file (re_io env), rotate_closed_file env ts] s4 = (None, s1)" using last size False by (simp add: check_def)
      have known: "suffix_known env s4" using assms(3) r by (simp add: suffix_known_def)
      note res = close_and_rotate_spec [OF rot g(1) known _ assms(5), unfolded r(1,2), OF assms(4)]
      have over: "length (rs_created_files s) > unat (rc_max_backup_files (rs_config s)) \<longrightarrow> rc_overwrite_rolled_files (rs_config s)"
        using \<open>\<not> ?full\<close> by blast
      have "keeps_log s s1" by (rule keeps_log_trans [OF res [OF over, THEN conjunct1]]) (use g r in simp_all)
      moreover have "fs_find q (ss_fs s4) = fs_find q (ss_fs s)" for q using r(9) by (simp add: fs_find_def)
      ultimately show ?thesis using res [OF over, THEN conjunct2] f4(2) by auto
    qed
  qed
  then show "keeps_log s s1"
    "?all \<Longrightarrow> stream_text s1 = [] \<and> ss_file_size s1 = 0 \<or> ss_file_size s1 = of_nat (length (stream_text s)) \<and> stream_text s1 = stream_text s
        \<and> (?full \<or> (\<exists>f \<in> set (rs_created_files s). fs_find (fi_name f) (ss_fs s) = None))" by blast+
qed

text \<open>What the two reasons to rotate leave before the statement is written.\<close>

lemma write_log_steps:
  assumes "rotating_write_log env ts t s = (None, s1)" "sink_open s"
  obtains u tp where "stream_write_log (re_io env) t (u\<lparr>rs_next_rotation_time := tp\<rparr>) = (None, s1)"
    and "u = s \<and> \<not> (rc_rotation_max_file_size (rs_config s) \<noteq> 0 \<and>
              (ss_file_size s > rc_rotation_max_file_size (rs_config s) \<or> of_nat (length t) > rc_rotation_max_file_size (rs_config s) - ss_file_size s))
          \<or> ss_is_null s \<and> u = s \<or> rotate_files env ts s = (None, u)"
proof (cases "ss_is_null s")
  case True
  have "s\<lparr>rs_next_rotation_time := rs_next_rotation_time s\<rparr> = s" by simp
  with True assms(1) show thesis by (intro that [where u = s and tp = "rs_next_rotation_time s"]) (simp_all add: rotating_write_log_def)
next
  case False
  have on: "rotation_enabled s" using assms(2) by (auto simp: sink_open_def files_ok_def rotation_enabled_def)
  let ?due = "rc_rotation_frequency (rs_config s) \<noteq> Disabled \<and> ts \<ge> rs_next_rotation_time s"
  show thesis
  proof (cases ?due)
    case True
    obtain r2 s2 where rot: "rotate_files env ts s = (r2, s2)" by force
    have r2: "r2 = None" using assms(1) False on True rot by (auto simp: rotating_write_log_def time_rotation_def split: option.splits)
    obtain tp where tp: "calculate_rotation_tp (re_rotation_calendar env) (rs_next_rotation_time s2) ts (rs_config s2) = Inr tp"
      using assms(1) False on True rot r2 by (auto simp: rotating_write_log_def time_rotation_def split: sum.splits)
    have "stream_write_log (re_io env) t (s2\<lparr>rs_next_rotation_time := tp\<rparr>) = (None, s1)"
      using assms(1) False on True rot r2 tp by (auto simp: rotating_write_log_def time_rotation_def split: option.splits prod.splits)
    with rot r2 show thesis by (intro that [where u = s2 and tp = tp]) simp_all
  next
    case no_time: False
    then have not_due: "(if rc_rotation_frequency (rs_config s) \<noteq> Disabled then time_rotation env ts s else (Inr False, s)) = (Inr False, s)"
      by (auto simp: time_rotation_def)
    have run: "run_ops [\<lambda>s. if rc_rotation_max_file_size (rs_config s) \<noteq> 0 then size_rotation env (estimate_write_size t) ts s else (None, s),
        stream_write_log (re_io env) t] s = (None, s1)"
      using assms(1) False on unfolding rotating_write_log_def not_due by simp
    then obtain s2 where sz: "(if rc_rotation_max_file_size (rs_config s) \<noteq> 0 then size_rotation env (estimate_write_size t) ts s else (None, s)) = (None, s2)"
      and wr: "stream_write_log (re_io env) t s2 = (None, s1)"
      by (auto split: option.splits prod.splits)
    have "s2\<lparr>rs_next_rotation_time := rs_next_rotation_time s2\<rparr> = s2" by simp
    with sz wr show thesis
      by (intro that [where u = s2 and tp = "rs_next_rotation_time s2"]) (auto simp: size_rotation_def estimate_write_size_def Let_def split: if_splits)
  qed
qed

lemma written_statement:
  assumes "stream_write_log env t s = (None, s1)" "sink_open s"
  shows "sink_open s1 \<and> log_text s1 = log_text s @ t \<and> stream_text s1 = stream_text s @ t \<and> ss_file_size s1 = ss_file_size s + of_nat (length t)"
proof -
  obtain f where f: "ss_file s = Some f" using assms(2) by (auto simp: sink_open_def)
  then have "stream_write_statement env t f s = (None, s1)" using assms by (simp add: stream_write_log_def sink_open_def)
  then obtain n f1 where n: "ss_file s1 = Some f1" "fo_file f1 = fo_file f" "stream_text s1 = stream_text s @ take n t" "length t \<le> n"
    "ss_file_size s1 = ss_file_size s + of_nat (length t)" "same_sink_but_stream (fo_file f) s s1"
    using stream_write_statement_spec [of env t f s None s1] f by auto
  then have "stream_text s1 = stream_text s @ t" by simp
  with log_text_grows [OF assms(2) f n(6,1,2) this] n(5) show ?thesis by simp
qed

lemma sink_open_time [simp]:
  "sink_open (s\<lparr>rs_next_rotation_time := tp\<rparr>) = sink_open s" "log_text (s\<lparr>rs_next_rotation_time := tp\<rparr>) = log_text s"
  "stream_text (s\<lparr>rs_next_rotation_time := tp\<rparr>) = stream_text s"
  by (simp_all add: sink_open_def log_text_def stream_text_def split: option.split)

text \<open>
  C36. A write that returns adds its statement to the log and loses nothing: all files of the sink put
  together, the oldest first, hold what they held before and the statement, whether the file was
  rotated, a rotation failed half-way and was undone, or none was due. Only the whole oldest file may
  be gone, when there were more than the allowed number and overwriting is on. The sink stays open on
  well-formed files. A refused call is assumed to work when it is repeated.
\<close>

theorem rotating_log_is_kept:
  assumes "rotating_write_log env ts t s = (None, s1)" "sink_open s" "suffix_known env s" "indices_ok (rs_created_files s)"
    and "transient_failures (re_io env)"
  shows "sink_open s1 \<and> (\<exists>removed. log_text s @ t = removed @ log_text s1
    \<and> (removed = [] \<or> removed = oldest_text s \<and> rc_overwrite_rolled_files (rs_config s)
         \<and> length (rs_created_files s) > unat (rc_max_backup_files (rs_config s))))"
proof -
  obtain s2 tp where wr: "stream_write_log (re_io env) t (s2\<lparr>rs_next_rotation_time := tp\<rparr>) = (None, s1)"
    and step: "s2 = s \<or> rotate_files env ts s = (None, s2)"
    using write_log_steps [OF assms(1,2)] by metis
  have keep: "keeps_log s s2"
    using step rotate_files_spec(1) [OF _ assms(2-5)] assms(2) by (auto simp: keeps_log_def)
  then have "sink_open s2" by (simp add: keeps_log_def)
  with written_statement [OF wr] have w: "sink_open s1" "log_text s1 = log_text s2 @ t" by simp_all
  from keep have "log_text s2 = log_text s
      \<or> log_text s = oldest_text s @ log_text s2 \<and> length (rs_created_files s) > unat (rc_max_backup_files (rs_config s)) \<and> rc_overwrite_rolled_files (rs_config s)"
    by (simp add: keeps_log_def)
  then show ?thesis
  proof
    assume "log_text s2 = log_text s"
    with w show ?thesis by (intro conjI exI [of _ "[]"]) simp_all
  next
    assume "log_text s = oldest_text s @ log_text s2 \<and> length (rs_created_files s) > unat (rc_max_backup_files (rs_config s)) \<and> rc_overwrite_rolled_files (rs_config s)"
    with w show ?thesis by (intro conjI exI [of _ "oldest_text s"]) simp_all
  qed
qed


definition example_rotation_env :: rotation_env where
  "example_rotation_env = \<lparr>re_io = \<lparr>io_ok = \<lambda>_. True, io_accepts = \<lambda>_. 1, io_drains = \<lambda>_. 0, io_now = \<lambda>_. 0\<rparr>,
     re_calendar = \<lparr>cal_tm = \<lambda>_ _. (0, 0, 0), cal_strftime = \<lambda>_ _ _. []\<rparr>,
     re_rotation_calendar = example_calendar, re_directory_exists = \<lambda>_. True\<rparr>"

definition example_rotating_sink :: "unit rotating_sink" where
  "example_rotating_sink = file_sink.extend
     (example_file_sink\<lparr>ss_file_size := 512, ss_config := file_sink_config_new\<lparr>fk_write_buffer_size := 0\<rparr>,
        ss_fs := \<lparr>fs_names = [(''/l/a.log'', 0)], fs_data = \<lambda>_. replicate 512 CHR ''x'', fs_next = 1, fs_calls = 0\<rparr>\<rparr>)
     \<lparr>rs_created_files = [new_file_info ''/l/a.log''], rs_next_rotation_time = 0, rs_open_file_timestamp = 0,
      rs_config = rotating_file_sink_config_new\<lparr>rc_rotation_max_file_size := 512\<rparr>\<rparr>"

lemma example_rotated_name: "get_filename ''/l/a.log'' 1 [] = ''/l/a.1.log''"
proof -
  have "extract_stem_and_extension ''/l/a.log'' = (''/l/a'', ''.log'')" "to_string (Suc 0) = ''1''" by code_simp+
  then show ?thesis by (simp add: get_filename_def append_index_to_filename_def)
qed

lemma example_rotation: "\<exists>s1. rotating_write_log example_rotation_env 5 ''y'' example_rotating_sink = (None, s1)"
proof -
  note base = rotating_write_log_def rotation_enabled_def size_rotation_def rotate_files_def estimate_write_size_def flush_sink_def fsync_file_def
    get_file_size_def close_file_def close_stream_def drain_def rotate_closed_file_def datetime_suffix_of_def new_index_of_def
    open_after_rotation_def open_file_def open_attempts.simps numeral_3_eq_3 drop_oldest_def apply_renames_def notify_user_def os_call_def stream_write_log_def
    stream_write_statement_def safe_fwrite.simps rename_file_def try_rename_def fs_rename_def fs_find_def fs_append_def fs_open_def
  note ex = example_rotation_env_def example_rotating_sink_def example_file_sink_def example_notifier_def rotating_file_sink_config_new_def
    file_sink_config_new_def file_sink.defs file_sink_config.defs new_file_info_def fi_name_def
  have zero: "get_filename ''/l/a.log'' 0 [] = ''/l/a.log''" "unat (- 1 :: u32) = 4294967295"
    by (simp_all add: get_filename_def unsigned_minus_1_eq_mask mask_eq_exp_minus_1)
  show ?thesis
    by (simp add: base ex zero example_rotated_name Let_def)
qed

lemma example_rotating_ready:
  "sink_open example_rotating_sink" "suffix_known example_rotation_env example_rotating_sink" "indices_ok (rs_created_files example_rotating_sink)"
  "transient_failures (re_io example_rotation_env)" "\<forall>k. io_ok (re_io example_rotation_env) k" "buffer_marked example_rotating_sink"
  "stream_text example_rotating_sink = replicate 512 CHR ''x''" "\<not> ss_is_null example_rotating_sink"
  "rc_rotation_max_file_size (rs_config example_rotating_sink) = 512" "ss_file_size example_rotating_sink = 512"
  "rc_overwrite_rolled_files (rs_config example_rotating_sink)"
  "\<forall>f \<in> set (rs_created_files example_rotating_sink). fs_find (fi_name f) (ss_fs example_rotating_sink) \<noteq> None"
  "length (rs_created_files example_rotating_sink) \<le> unat (rc_max_backup_files (rs_config example_rotating_sink))"
proof -
  note ex = example_rotation_env_def example_rotating_sink_def example_file_sink_def example_notifier_def rotating_file_sink_config_new_def
    file_sink_config_new_def file_sink.defs file_sink_config.defs new_file_info_def
  have "path_directory ''/l/a.log'' = ''/l/''" "path_filename ''/l/a.log'' = ''a.log''" by code_simp+
  then have path: "path_ok ''/l/a.log''" by (simp add: path_ok_def directory_ok_def name_ok_def)
  then show "sink_open example_rotating_sink"
    by (simp add: sink_open_def ex files_ok_def fs_ok_def fs_find_def)
  show "suffix_known example_rotation_env example_rotating_sink" by (simp add: suffix_known_def datetime_suffix_of_def ex)
  show "indices_ok (rs_created_files example_rotating_sink)" by (simp add: indices_ok_def ex)
  show "transient_failures (re_io example_rotation_env)" "\<forall>k. io_ok (re_io example_rotation_env) k" by (simp_all add: transient_failures_def ex)
  show "buffer_marked example_rotating_sink" "stream_text example_rotating_sink = replicate 512 CHR ''x''" "\<not> ss_is_null example_rotating_sink"
    "rc_rotation_max_file_size (rs_config example_rotating_sink) = 512" "ss_file_size example_rotating_sink = 512"
    "rc_overwrite_rolled_files (rs_config example_rotating_sink)"
    by (simp_all add: buffer_marked_def stream_text_def ex)
  show "\<forall>f \<in> set (rs_created_files example_rotating_sink). fs_find (fi_name f) (ss_fs example_rotating_sink) \<noteq> None"
    by (simp add: ex fi_name_def get_filename_def fs_find_def)
  show "length (rs_created_files example_rotating_sink) \<le> unat (rc_max_backup_files (rs_config example_rotating_sink))"
    by (simp add: ex unsigned_minus_1_eq_mask mask_eq_exp_minus_1)
qed

theorem rotating_log_is_kept_witness:
  "\<exists>s1. rotating_write_log example_rotation_env 5 ''y'' example_rotating_sink = (None, s1) \<and> sink_open s1
    \<and> log_text s1 = replicate 512 CHR ''x'' @ ''y''"
proof -
  obtain s1 where run: "rotating_write_log example_rotation_env 5 ''y'' example_rotating_sink = (None, s1)" using example_rotation by blast
  have "log_text example_rotating_sink = replicate 512 CHR ''x''"
    using example_rotating_ready(7) by (simp add: log_text_def files_text_def example_rotating_sink_def file_sink.defs)
  with rotating_log_is_kept [OF run example_rotating_ready(1-4)] example_rotating_ready(13) run
  show ?thesis by (intro exI [of _ s1]) auto
qed


subsection \<open>What can go wrong\<close>

text \<open>
  After a failed reopening the file is closed while its old size is still tracked: a statement that
  would have fitted is dropped without an error, and no reopening is tried.
\<close>

lemma closed_file_drops_statement:
  assumes "ss_file s = None" "rotation_enabled s" "rc_rotation_frequency (rs_config s) = Disabled"
    and "ss_file_size s \<le> rc_rotation_max_file_size (rs_config s)" "of_nat (length t) \<le> rc_rotation_max_file_size (rs_config s) - ss_file_size s"
  shows "rotating_write_log env ts t s = (None, s)"
  using assms by (simp add: rotating_write_log_def size_rotation_def estimate_write_size_def stream_write_log_def Let_def not_less [symmetric])

text \<open>
  When a step of undoing fails, the next one replaces the file that was to be renamed: here the file
  with the number 1 has lost its name.
\<close>

lemma failed_undo_loses_file:
  fixes r :: "string \<Rightarrow> string \<Rightarrow> rename_record"
  assumes "ss_fs s = \<lparr>fs_names = [(''a.2'', 1), (''a.3'', 2), (''a'', 0)], fs_data = d, fs_next = 3, fs_calls = 0\<rparr>"
    and "io_ok env = (\<lambda>k. k \<ge> 2)" "\<And>x y. rr_original (r x y) = x" "\<And>x y. rr_renamed (r x y) = y"
  shows "fs_names (ss_fs (snd (undo_renames env [r ''a.1'' ''a.2'', r ''a.2'' ''a.3''] s))) = [(''a.2'', 2), (''a'', 0)]"
  using assms by (simp add: rename_file_def try_rename_def os_call_def fs_rename_def fs_find_def)

end
