(* ===== verification/Json_Sink.thy ===== *)
theory Json_Sink
  imports Named_Args Sink_Base
begin

text \<open>
  \<^verbatim>\<open>quill/sinks/JsonSink.h\<close>: a statement as one line of JSON, with the format of its message and the named
  arguments as keys and values. The sink behind it (\<^verbatim>\<open>TBase\<close>) is a parameter. A reader of such lines
  says what a line stands for.
\<close>

subsection \<open>Escaping\<close>

definition escape_digit :: "nat \<Rightarrow> char" where
  "escape_digit n = (if n < 10 then char_of (48 + n) else char_of (55 + n))"

definition control_escape :: "char \<Rightarrow> string" where
  "control_escape c = CHR 0x5C # ''u00'' @ [escape_digit (of_char c div 16), escape_digit (of_char c mod 16)]"

text \<open>The two separators of Unicode are three bytes, the first of them \<^verbatim>\<open>0xE2\<close>.\<close>

definition unicode_separator :: "char \<Rightarrow> string \<Rightarrow> string option" where
  "unicode_separator c s =
     (case s of
        d # e # _ \<Rightarrow> if c = CHR 0xE2 \<and> d = CHR 0x80 \<and> e = CHR 0xA8 then Some (CHR 0x5C # ''u2028'')
                    else if c = CHR 0xE2 \<and> d = CHR 0x80 \<and> e = CHR 0xA9 then Some (CHR 0x5C # ''u2029'') else None
      | _ \<Rightarrow> None)"

function json_escape :: "string \<Rightarrow> string" where
  "json_escape [] = []"
| "json_escape (c # s) =
     (if c = CHR 0x22 then CHR 0x5C # CHR 0x22 # json_escape s
      else if c = CHR 0x5C then CHR 0x5C # CHR 0x5C # json_escape s
      else if c = CHR 0x08 then CHR 0x5C # CHR ''b'' # json_escape s
      else if c = CHR 0x0C then CHR 0x5C # CHR ''f'' # json_escape s
      else if c = CHR 0x0A then CHR 0x5C # CHR ''n'' # json_escape s
      else if c = CHR 0x0D then CHR 0x5C # CHR ''r'' # json_escape s
      else if c = CHR 0x09 then CHR 0x5C # CHR ''t'' # json_escape s
      else case unicode_separator c s of
             Some e \<Rightarrow> e @ json_escape (drop 2 s)
           | None \<Rightarrow> (if (of_char c :: nat) < 32 then control_escape c else [c]) @ json_escape s)"
  by pat_completeness auto
termination by (relation "measure length") (auto simp: unicode_separator_def split: list.splits)

declare json_escape.simps(2) [simp del]

subsection \<open>A statement\<close>

record json_record =
  jr_metadata :: macro_metadata
  jr_timestamp :: u64
  jr_thread_id :: string
  jr_logger_name :: string
  jr_level_description :: string
  jr_named_args :: "(string \<times> string) list option"
  jr_log_message :: string

definition is_reserved_json_key :: "string \<Rightarrow> bool" where
  "is_reserved_json_key key \<longleftrightarrow> key \<in> {''timestamp'', ''file_name'', ''line'', ''thread_id'', ''logger'', ''log_level'', ''message''}"

text \<open>A C string ends at its first null character.\<close>

definition c_str :: "string \<Rightarrow> string" where
  "c_str s = takeWhile (\<lambda>c. c \<noteq> CHR 0x00) s"

definition normalized_message_format :: "json_record \<Rightarrow> string \<Rightarrow> string \<times> string" where
  "normalized_message_format r format =
     (let m = jr_metadata r; message_format = mm_message_format m in
      if \<not> mm_is_rate_limited m \<and> CHR 0x0A \<notin> set message_format then (message_format, format)
      else let format1 =
             (if mm_is_rate_limited m then
                (if mm_has_named_args m
                 then message_format @ '' ({'' @ (case jr_named_args r of Some args \<Rightarrow> if args \<noteq> [] then fst (last args) else ''occurred'' | None \<Rightarrow> ''occurred'') @ ''}x)''
                 else jr_log_message r)
              else message_format);
            format2 = map (\<lambda>c. if c = CHR 0x0A then CHR '' '' else c) format1
        in (c_str format2, format2))"

text \<open>
  A key that would collide with one of the sink's own gets a number. The search has no bound in the
  code; of one more candidate than there are arguments one is free.
\<close>

definition json_key :: "(string \<times> string) list \<Rightarrow> string \<Rightarrow> string" where
  "json_key named_args key =
     (if is_reserved_json_key key
      then unique_key_from (Suc (length named_args)) named_args key (key @ ''_'' @ to_string 1) 2
      else key)"

definition json_args :: "(string \<times> string) list \<Rightarrow> string" where
  "json_args named_args =
     concat (map (\<lambda>(key, value). CHR '','' # CHR 0x22 # json_escape (json_key named_args key) @ [CHR 0x22, CHR '':'', CHR 0x22] @ json_escape value @ [CHR 0x22])
       named_args)"

text \<open>One of the fixed members; the timestamp is not escaped.\<close>

definition json_member :: "string \<Rightarrow> string \<Rightarrow> string" where
  "json_member key value = CHR 0x22 # key @ [CHR 0x22, CHR '':'', CHR 0x22] @ value @ [CHR 0x22]"

definition generate_json_message :: "json_record \<Rightarrow> string \<Rightarrow> string" where
  "generate_json_message r message_format =
     CHR ''{'' # json_member ''timestamp'' (to_string (unat (jr_timestamp r)))
     @ '','' @ json_member ''file_name'' (json_escape (mm_file_name (jr_metadata r)))
     @ '','' @ json_member ''line'' (json_escape (mm_line (jr_metadata r)))
     @ '','' @ json_member ''thread_id'' (json_escape (jr_thread_id r))
     @ '','' @ json_member ''logger'' (json_escape (jr_logger_name r))
     @ '','' @ json_member ''log_level'' (json_escape (jr_level_description r))
     @ '','' @ json_member ''message'' (json_escape message_format)
     @ (case jr_named_args r of None \<Rightarrow> [] | Some args \<Rightarrow> json_args args)"

subsection \<open>The sink\<close>

record 'b json_sink =
  js_message :: string
  js_format :: string
  js_ready :: bool
  js_base :: 'b

definition build_json_message :: "json_record \<Rightarrow> 'b json_sink \<Rightarrow> 'b json_sink" where
  "build_json_message r s =
     (case normalized_message_format r (js_format s) of
        (message_format, format) \<Rightarrow>
          s\<lparr>js_format := format, js_message := generate_json_message r message_format @ [CHR ''}'', CHR 0x0A]\<rparr>)"

definition json_estimate_write_size :: "json_record \<Rightarrow> 'b json_sink \<Rightarrow> size_t \<times> 'b json_sink" where
  "json_estimate_write_size r s =
     (let s1 = build_json_message r s in (of_nat (length (js_message s1)), s1\<lparr>js_ready := True\<rparr>))"

definition discard_write_estimate :: "'b json_sink \<Rightarrow> 'b json_sink" where
  "discard_write_estimate s = s\<lparr>js_ready := False\<rparr>"

text \<open>\<open>base_write\<close> is the \<^verbatim>\<open>write_log\<close> of \<^verbatim>\<open>TBase\<close>, given the statement.\<close>

definition json_write_log ::
  "(string \<Rightarrow> 'b \<Rightarrow> user_exception option \<times> 'b) \<Rightarrow> json_record \<Rightarrow> 'b json_sink \<Rightarrow> user_exception option \<times> 'b json_sink" where
  "json_write_log base_write r s =
     (let s1 = (if \<not> js_ready s then build_json_message r s else s); s2 = s1\<lparr>js_ready := False\<rparr>
      in case base_write (js_message s2) (js_base s2) of (e, b) \<Rightarrow> (e, s2\<lparr>js_base := b\<rparr>))"

subsection \<open>Reading a line\<close>

definition hex_value :: "char \<Rightarrow> nat option" where
  "hex_value c =
     (let n = of_char c in
      if 48 \<le> n \<and> n \<le> 57 then Some (n - 48) else if 65 \<le> n \<and> n \<le> 70 then Some (n - 55)
      else if 97 \<le> n \<and> n \<le> 102 then Some (n - 87) else None)"

text \<open>A code point as UTF-8.\<close>

definition utf8 :: "nat \<Rightarrow> string" where
  "utf8 n =
     (if n < 128 then [char_of n]
      else if n < 2048 then [char_of (192 + n div 64), char_of (128 + n mod 64)]
      else [char_of (224 + n div 4096), char_of (128 + n div 64 mod 64), char_of (128 + n mod 64)])"

definition json_simple_escape :: "char \<Rightarrow> char option" where
  "json_simple_escape c =
     map_of [(CHR 0x22, CHR 0x22), (CHR 0x5C, CHR 0x5C), (CHR ''/'', CHR ''/''), (CHR ''b'', CHR 0x08), (CHR ''f'', CHR 0x0C),
             (CHR ''n'', CHR 0x0A), (CHR ''r'', CHR 0x0D), (CHR ''t'', CHR 0x09)] c"

text \<open>The text of an escape behind the backslash, and how many characters it takes.\<close>

definition json_escape_value :: "string \<Rightarrow> (string \<times> nat) option" where
  "json_escape_value s =
     (case s of
        [] \<Rightarrow> None
      | c # r \<Rightarrow>
          if c = CHR ''u'' then
            (case map hex_value (take 4 r) of
               [Some a, Some b, Some c, Some d] \<Rightarrow> Some (utf8 (((a * 16 + b) * 16 + c) * 16 + d), 5)
             | _ \<Rightarrow> None)
          else map_option (\<lambda>x. ([x], 1)) (json_simple_escape c))"

text \<open>The rest of a string behind its opening quote.\<close>

function read_json_string :: "string \<Rightarrow> (string \<times> string) option" where
  "read_json_string [] = None"
| "read_json_string (c # s) =
     (if c = CHR 0x22 then Some ([], s)
      else if c = CHR 0x5C then
        (case json_escape_value s of
           None \<Rightarrow> None
         | Some (t, n) \<Rightarrow> map_option (\<lambda>(u, r). (t @ u, r)) (read_json_string (drop n s)))
      else if (of_char c :: nat) < 32 then None
      else map_option (\<lambda>(u, r). (c # u, r)) (read_json_string s))"
  by pat_completeness auto
termination by (relation "measure length") auto

declare read_json_string.simps(2) [simp del]

lemma read_json_string_shorter: "read_json_string s = Some (t, r) \<Longrightarrow> length r < length s"
proof (induction s arbitrary: t rule: read_json_string.induct)
  case (2 c s)
  show ?case
  proof (cases "json_escape_value s")
    case None
    with "2.prems" "2.IH"(2) show ?thesis by (subst (asm) read_json_string.simps) (fastforce split: if_splits)
  next
    case (Some p)
    obtain u n where p: "p = (u, n)" by force
    have "length r < length s - n" if "c = CHR 0x5C" "read_json_string (drop n s) = Some (v, r)" for v
      using "2.IH"(1) [OF _ that(1) Some p [symmetric] that(2)] that(1) by simp
    with "2.prems" "2.IH"(2) Some p show ?thesis by (subst (asm) read_json_string.simps) (fastforce split: if_splits)
  qed
qed simp

text \<open>Members, all of them strings, up to the closing brace.\<close>

function read_json_members :: "string \<Rightarrow> ((string \<times> string) list \<times> string) option" where
  "read_json_members s =
     (case s of
        q # s1 \<Rightarrow>
          if q = CHR 0x22 then
            (case read_json_string s1 of
               Some (key, c1 # q1 # s2) \<Rightarrow>
                 if c1 = CHR '':'' \<and> q1 = CHR 0x22 then
                   (case read_json_string s2 of
                      Some (value, c2 # s3) \<Rightarrow>
                        if c2 = CHR '','' then map_option (\<lambda>(ms, r). ((key, value) # ms, r)) (read_json_members s3)
                        else if c2 = CHR ''}'' then Some ([(key, value)], s3) else None
                    | _ \<Rightarrow> None)
                 else None
             | _ \<Rightarrow> None)
          else None
      | [] \<Rightarrow> None)"
  by pat_completeness auto
termination by (relation "measure length") (auto dest!: read_json_string_shorter)

declare read_json_members.simps [simp del]

definition read_json_line :: "string \<Rightarrow> (string \<times> string) list option" where
  "read_json_line s =
     (case s of
        c # r \<Rightarrow> if c = CHR ''{'' then (case read_json_members r of Some (ms, [CHR 0x0A]) \<Rightarrow> Some ms | _ \<Rightarrow> None) else None
      | [] \<Rightarrow> None)"

subsection \<open>Escaped text is read back\<close>

lemma hex_value_escape_digit: "n < 16 \<Longrightarrow> hex_value (escape_digit n) = Some n"
  by (auto simp: hex_value_def escape_digit_def Let_def)

lemma read_escape:
  assumes "json_escape_value (e @ r) = Some (t, length e)"
  shows "read_json_string (CHR 0x5C # e @ r) = map_option (\<lambda>(u, r). (t @ u, r)) (read_json_string r)"
  using assms by (simp add: read_json_string.simps)

lemma read_control_escape:
  assumes "(of_char c :: nat) < 32"
  shows "read_json_string (control_escape c @ r) = map_option (\<lambda>(u, r). (c # u, r)) (read_json_string r)"
proof -
  let ?e = "''u00'' @ [escape_digit (of_char c div 16), escape_digit (of_char c mod 16)]"
  have "of_char c div 16 < (16 :: nat)" "of_char c mod 16 < (16 :: nat)" using assms by auto
  then have "json_escape_value (?e @ r) = Some (utf8 (of_char c div 16 * 16 + of_char c mod 16), 5)"
    using hex_value_escape_digit [of "of_char c div 16"] hex_value_escape_digit [of "of_char c mod 16"] hex_value_escape_digit [of 0]
    by (simp add: json_escape_value_def escape_digit_def)
  also have "utf8 (of_char c div 16 * 16 + of_char c mod 16) = [c]" using assms by (simp add: utf8_def)
  finally have "json_escape_value (?e @ r) = Some ([c], length ?e)" by simp
  from read_escape [OF this] show ?thesis by (simp add: control_escape_def)
qed

lemma unicode_separator_cases:
  assumes "unicode_separator c s = Some e"
  obtains d r where "c = CHR 0xE2" "s = CHR 0x80 # d # r" "d = CHR 0xA8 \<and> e = CHR 0x5C # ''u2028'' \<or> d = CHR 0xA9 \<and> e = CHR 0x5C # ''u2029''"
  using assms by (auto simp: unicode_separator_def split: list.splits if_splits)

lemma separator_bytes:
  "char_of (226 :: nat) = CHR 0xE2" "char_of (128 :: nat) = CHR 0x80" "char_of (168 :: nat) = CHR 0xA8" "char_of (169 :: nat) = CHR 0xA9"
  by code_simp+

lemma read_json_escape: "read_json_string (json_escape s @ CHR 0x22 # r) = Some (s, r)"
proof (induction s rule: json_escape.induct)
  case 1
  show ?case by (simp add: read_json_string.simps)
next
  case (2 c s)
  let ?rest = "json_escape s @ CHR 0x22 # r"
  have simple: ?case if "json_escape (c # s) = CHR 0x5C # e # json_escape s" "json_simple_escape e = Some c" "e \<noteq> CHR ''u''" "read_json_string ?rest = Some (s, r)" for e
    using that read_escape [of "[e]" ?rest "[c]"] by (simp add: json_escape_value_def)
  show ?case
  proof (cases "c \<in> {CHR 0x22, CHR 0x5C, CHR 0x08, CHR 0x0C, CHR 0x0A, CHR 0x0D, CHR 0x09}")
    case True
    then consider "c = CHR 0x22" | "c = CHR 0x5C" | "c = CHR 0x08" | "c = CHR 0x0C" | "c = CHR 0x0A" | "c = CHR 0x0D" | "c = CHR 0x09" by blast
    then show ?thesis
    proof cases
      case 1
      with "2.IH"(1) show ?thesis by (intro simple [of "CHR 0x22"]) (simp_all add: json_escape.simps json_simple_escape_def)
    next
      case 2
      with "2.IH"(2) show ?thesis by (intro simple [of "CHR 0x5C"]) (simp_all add: json_escape.simps json_simple_escape_def)
    next
      case 3
      with "2.IH"(3) show ?thesis by (intro simple [of "CHR ''b''"]) (simp_all add: json_escape.simps json_simple_escape_def)
    next
      case 4
      with "2.IH"(4) show ?thesis by (intro simple [of "CHR ''f''"]) (simp_all add: json_escape.simps json_simple_escape_def)
    next
      case 5
      with "2.IH"(5) show ?thesis by (intro simple [of "CHR ''n''"]) (simp_all add: json_escape.simps json_simple_escape_def)
    next
      case 6
      with "2.IH"(6) show ?thesis by (intro simple [of "CHR ''r''"]) (simp_all add: json_escape.simps json_simple_escape_def)
    next
      case 7
      with "2.IH"(7) show ?thesis by (intro simple [of "CHR ''t''"]) (simp_all add: json_escape.simps json_simple_escape_def)
    qed
  next
    case False
    then have plain: "json_escape (c # s) = (case unicode_separator c s of
             Some e \<Rightarrow> e @ json_escape (drop 2 s)
           | None \<Rightarrow> (if (of_char c :: nat) < 32 then control_escape c else [c]) @ json_escape s)"
      by (simp add: json_escape.simps)
    show ?thesis
    proof (cases "unicode_separator c s")
      case (Some e)
      then obtain d t where d: "c = CHR 0xE2" "s = CHR 0x80 # d # t" "d = CHR 0xA8 \<and> e = CHR 0x5C # ''u2028'' \<or> d = CHR 0xA9 \<and> e = CHR 0x5C # ''u2029''"
        by (rule unicode_separator_cases)
      have IH: "read_json_string (json_escape t @ CHR 0x22 # r) = Some (t, r)"
        using "2.IH"(9) [OF _ _ _ _ _ _ _ Some] False d(2) by simp
      have "json_escape_value (''u2028'' @ json_escape t @ CHR 0x22 # r) = Some ([CHR 0xE2, CHR 0x80, CHR 0xA8], length ''u2028'')"
        "json_escape_value (''u2029'' @ json_escape t @ CHR 0x22 # r) = Some ([CHR 0xE2, CHR 0x80, CHR 0xA9], length ''u2029'')"
        using separator_bytes by (simp_all add: json_escape_value_def hex_value_def utf8_def)
      note read = this [THEN read_escape]
      from d(3) show ?thesis
        unfolding plain using Some d(1,2) IH read by auto
    next
      case None
      have IH: "read_json_string ?rest = Some (s, r)" using "2.IH"(8) [OF _ _ _ _ _ _ _ None] False by simp
      with None False show ?thesis unfolding plain
        by (simp add: read_control_escape read_json_string.simps)
    qed
  qed
qed

subsection \<open>A line is read back\<close>

lemma read_json_member:
  assumes "read_json_members r = Some (ms, z)"
  shows "read_json_members (json_member (json_escape key) (json_escape v) @ '','' @ r) = Some ((key, v) # ms, z)"
  using read_json_escape [of key "CHR '':'' # CHR 0x22 # json_escape v @ CHR 0x22 # CHR '','' # r"]
    read_json_escape [of v "CHR '','' # r"] assms
  by (subst read_json_members.simps) (simp add: json_member_def)

lemma read_last_member:
  "read_json_members (json_member (json_escape key) (json_escape v) @ CHR ''}'' # r) = Some ([(key, v)], r)"
  using read_json_escape [of key "CHR '':'' # CHR 0x22 # json_escape v @ CHR 0x22 # CHR ''}'' # r"]
    read_json_escape [of v "CHR ''}'' # r"]
  by (subst read_json_members.simps) (simp add: json_member_def)

text \<open>The members as a list, all joined by commas.\<close>

fun json_members :: "(string \<times> string) list \<Rightarrow> string" where
  "json_members [] = []"
| "json_members [(key, v)] = json_member (json_escape key) (json_escape v)"
| "json_members ((key, v) # m # ms) = json_member (json_escape key) (json_escape v) @ '','' @ json_members (m # ms)"

lemma read_json_members: "ms \<noteq> [] \<Longrightarrow> read_json_members (json_members ms @ CHR ''}'' # r) = Some (ms, r)"
  by (induction ms rule: json_members.induct) (simp_all add: read_last_member read_json_member del: append_Cons append_Nil)

lemma json_members_args:
  "json_members (m # map (\<lambda>(key, v). (json_key named_args key, v)) args) =
     json_members [m] @ concat (map (\<lambda>(key, value). CHR '','' # CHR 0x22 # json_escape (json_key named_args key) @ [CHR 0x22, CHR '':'', CHR 0x22] @ json_escape value @ [CHR 0x22]) args)"
proof (induction args arbitrary: m)
  case (Cons a args)
  then show ?case by (cases m; cases a) (simp add: json_member_def)
qed (cases m; simp)

definition record_members :: "json_record \<Rightarrow> string \<Rightarrow> (string \<times> string) list" where
  "record_members r message_format =
     [(''timestamp'', to_string (unat (jr_timestamp r))), (''file_name'', mm_file_name (jr_metadata r)), (''line'', mm_line (jr_metadata r)),
      (''thread_id'', jr_thread_id r), (''logger'', jr_logger_name r), (''log_level'', jr_level_description r), (''message'', message_format)]
     @ (case jr_named_args r of None \<Rightarrow> [] | Some args \<Rightarrow> map (\<lambda>(key, v). (json_key args key, v)) args)"

definition plain_char :: "char \<Rightarrow> bool" where
  "plain_char c \<longleftrightarrow> 32 \<le> (of_char c :: nat) \<and> (of_char c :: nat) < 128 \<and> c \<noteq> CHR 0x22 \<and> c \<noteq> CHR 0x5C"

lemma escape_plain_char:
  assumes "plain_char c"
  shows "json_escape (c # s) = c # json_escape s"
proof -
  have "c \<noteq> CHR 0x08" "c \<noteq> CHR 0x0C" "c \<noteq> CHR 0x0A" "c \<noteq> CHR 0x0D" "c \<noteq> CHR 0x09" "c \<noteq> CHR 0xE2"
    using assms by (auto simp: plain_char_def)
  moreover from this have "unicode_separator c s = None" by (simp add: unicode_separator_def split: list.split)
  ultimately show ?thesis using assms by (simp add: json_escape.simps plain_char_def)
qed

lemma json_escape_plain: "\<forall>c \<in> set s. plain_char c \<Longrightarrow> json_escape s = s"
  by (induction s) (simp_all add: escape_plain_char)

lemma escape_number: "json_escape (to_string n) = to_string n"
proof (rule json_escape_plain, intro ballI)
  fix c assume "c \<in> set (to_string n)"
  then have "is_digit c" by (rule to_string_digits)
  then show "plain_char c" by (auto simp: is_digit_def plain_char_def)
qed

lemma escape_keys:
  "json_escape ''timestamp'' = ''timestamp''" "json_escape ''file_name'' = ''file_name''" "json_escape ''line'' = ''line''"
  "json_escape ''thread_id'' = ''thread_id''" "json_escape ''logger'' = ''logger''" "json_escape ''log_level'' = ''log_level''"
  "json_escape ''message'' = ''message''"
  by (rule json_escape_plain; simp add: plain_char_def)+

text \<open>The seven members of every line, the last of them in front of the arguments.\<close>

lemma json_members_seven:
  "json_members ([(a, u), (b, v), (c, w), (d, x), (e, y), (f, z), m] @ ms) =
     json_member (json_escape a) (json_escape u) @ '','' @ json_member (json_escape b) (json_escape v) @ '','' @ json_member (json_escape c) (json_escape w)
     @ '','' @ json_member (json_escape d) (json_escape x) @ '','' @ json_member (json_escape e) (json_escape y)
     @ '','' @ json_member (json_escape f) (json_escape z) @ '','' @ json_members (m # ms)"
  by simp

lemma json_members_last:
  "json_members ((key, v) # map (\<lambda>(key, v). (json_key args key, v)) args) = json_member (json_escape key) (json_escape v) @ json_args args"
  unfolding json_members_args by (simp add: json_args_def)

lemma json_args_none: "json_members [(key, v)] = json_member (json_escape key) (json_escape v) @ []"
  by simp

lemma generate_members: "generate_json_message r f = CHR ''{'' # json_members (record_members r f)"
proof (cases "jr_named_args r")
  case None
  show ?thesis
    unfolding generate_json_message_def record_members_def None option.case json_members_seven json_args_none escape_keys escape_number by (rule refl)
next
  case (Some args)
  show ?thesis
    unfolding generate_json_message_def record_members_def Some option.case json_members_seven json_members_last escape_keys escape_number by (rule refl)
qed

subsection \<open>Keys\<close>

lemma unique_key_is_candidate:
  "\<exists>i \<ge> k. unique_key_from fuel ks n (key_candidate n k) (Suc k) = key_candidate n i"
proof (induction fuel arbitrary: k)
  case (Suc fuel)
  have c: "n @ ''_'' @ to_string (Suc k) = key_candidate n (Suc k)" by (simp add: key_candidate_def)
  obtain i where "i \<ge> Suc k" "unique_key_from fuel ks n (key_candidate n (Suc k)) (Suc (Suc k)) = key_candidate n i" using Suc.IH by blast
  then have "\<exists>i \<ge> k. unique_key_from fuel ks n (key_candidate n (Suc k)) (Suc (Suc k)) = key_candidate n i" by (meson Suc_leD)
  then show ?case using c by (cases "key_candidate n k \<in> set (map fst ks)") auto
qed auto

lemma reserved_key:
  assumes "is_reserved_json_key key"
  shows "json_key ks key \<notin> set (map fst ks)" "\<exists>i. json_key ks key = key @ ''_'' @ to_string i"
proof -
  have c: "json_key ks key = unique_key_from (Suc (length ks)) ks key (key_candidate key 1) (Suc 1)"
    using assms by (simp add: json_key_def key_candidate_def numeral_2_eq_2 del: unique_key_from.simps)
  show "json_key ks key \<notin> set (map fst ks)"
  proof
    let ?c = "\<lambda>i. key_candidate key (1 + i)"
    assume "json_key ks key \<in> set (map fst ks)"
    from unique_key_from_taken [OF this [unfolded c]] have "?c ` {..<Suc (length ks)} \<subseteq> set (map fst ks)" by auto
    then have "card (?c ` {..<Suc (length ks)}) \<le> length ks"
      by (metis card_length card_mono le_trans length_map List.finite_set)
    moreover have "card (?c ` {..<Suc (length ks)}) = Suc (length ks)"
      by (subst card_image) (auto simp: inj_on_def dest!: key_candidate_inj)
    ultimately show False by simp
  qed
  obtain i where "i \<ge> 1" "json_key ks key = key_candidate key i" using unique_key_is_candidate [of 1 "Suc (length ks)" ks key] c by auto
  then show "\<exists>i. json_key ks key = key @ ''_'' @ to_string i" by (auto simp: key_candidate_def)
qed

lemma numbered_key_inj:
  assumes "k @ ''_'' @ to_string i = k' @ ''_'' @ to_string j"
  shows "k = k'"
proof -
  have plain: "takeWhile (\<lambda>c. c \<noteq> CHR ''_'') (rev (to_string n) @ CHR ''_'' # t) = rev (to_string n)" for n t
  proof -
    have "CHR ''_'' \<notin> set (to_string n)" by (auto dest: to_string_digits simp: is_digit_def)
    then have "takeWhile (\<lambda>c. c \<noteq> CHR ''_'') (rev (to_string n) @ CHR ''_'' # t) = rev (to_string n) @ takeWhile (\<lambda>c. c \<noteq> CHR ''_'') (CHR ''_'' # t)"
      by (intro takeWhile_append2) auto
    then show ?thesis by simp
  qed
  have "rev (to_string i) @ CHR ''_'' # rev k = rev (to_string j) @ CHR ''_'' # rev k'"
    using arg_cong [OF assms, of rev] by simp
  moreover from arg_cong [OF this, of "takeWhile (\<lambda>c. c \<noteq> CHR ''_'')"] have "rev (to_string i) = rev (to_string j)" by (simp only: plain)
  ultimately have "rev k = rev k'" by simp
  then show ?thesis by simp
qed

lemma json_key_not_reserved: "\<not> is_reserved_json_key (json_key ks key)"
proof (cases "is_reserved_json_key key")
  case True
  then obtain i where i: "json_key ks key = key @ ''_'' @ to_string i" using reserved_key(2) by blast
  have "last (json_key ks key) \<in> set (to_string i)" unfolding i using to_string_ne [of i] by (simp add: last_append)
  then have "is_digit (last (json_key ks key))" by (rule to_string_digits)
  then show ?thesis by (auto simp: is_reserved_json_key_def is_digit_def)
qed (simp add: json_key_def)

lemma json_keys_distinct:
  assumes "distinct (map fst ks)"
  shows "distinct (map (\<lambda>(key, v). json_key ks key) ks)"
proof -
  have "inj_on (json_key ks) (set (map fst ks))"
  proof (rule inj_onI)
    fix a b assume ab: "a \<in> set (map fst ks)" "b \<in> set (map fst ks)" "json_key ks a = json_key ks b"
    consider "is_reserved_json_key a" "is_reserved_json_key b" | "is_reserved_json_key a" "\<not> is_reserved_json_key b"
      | "\<not> is_reserved_json_key a" "is_reserved_json_key b" | "\<not> is_reserved_json_key a" "\<not> is_reserved_json_key b" by blast
    then show "a = b"
    proof cases
      case 1
      with ab(3) reserved_key(2) numbered_key_inj show ?thesis by metis
    next
      case 2
      then have "json_key ks b = b" by (simp add: json_key_def)
      with ab reserved_key(1) [OF 2(1)] show ?thesis by metis
    next
      case 3
      then have "json_key ks a = a" by (simp add: json_key_def)
      with ab reserved_key(1) [OF 3(2)] show ?thesis by metis
    next
      case 4
      with ab(3) show ?thesis by (simp add: json_key_def)
    qed
  qed
  moreover have "map (\<lambda>(key, v). json_key ks key) ks = map (json_key ks) (map fst ks)" by auto
  ultimately show ?thesis using assms by (simp only: distinct_map)
qed

lemma record_keys_distinct:
  assumes "\<forall>args. jr_named_args r = Some args \<longrightarrow> distinct (map fst args)"
  shows "distinct (map fst (record_members r f))"
proof (cases "jr_named_args r")
  case None
  then show ?thesis by (simp add: record_members_def)
next
  case (Some args)
  let ?keys = "map (\<lambda>(key, v). json_key args key) args"
  have "map fst (record_members r f) = [''timestamp'', ''file_name'', ''line'', ''thread_id'', ''logger'', ''log_level'', ''message''] @ ?keys"
    using Some by (simp add: record_members_def comp_def case_prod_unfold)
  moreover have "\<forall>k \<in> set ?keys. \<not> is_reserved_json_key k" using json_key_not_reserved by auto
  then have "set [''timestamp'', ''file_name'', ''line'', ''thread_id'', ''logger'', ''log_level'', ''message''] \<inter> set ?keys = {}"
    by (auto simp: is_reserved_json_key_def)
  moreover have "distinct ?keys" by (rule json_keys_distinct) (use assms Some in simp)
  ultimately show ?thesis by simp
qed

subsection \<open>One line\<close>

lemma escape_digit_plain: "n < 16 \<Longrightarrow> escape_digit n \<noteq> CHR 0x0A"
  by (auto simp: escape_digit_def char_of_eq_iff take_bit_nat_eq_self)

lemma escape_no_newline: "CHR 0x0A \<notin> set (json_escape s)"
proof (induction s rule: json_escape.induct)
  case (2 c s)
  have control: "CHR 0x0A \<notin> set (control_escape c)" if "(of_char c :: nat) < 32"
  proof -
    have "of_char c div 16 < (16 :: nat)" "of_char c mod 16 < (16 :: nat)" using that by auto
    from this [THEN escape_digit_plain] show ?thesis by (auto simp: control_escape_def)
  qed
  show ?case
  proof (cases "c \<in> {CHR 0x22, CHR 0x5C, CHR 0x08, CHR 0x0C, CHR 0x0A, CHR 0x0D, CHR 0x09}")
    case True
    with "2.IH"(1-7) show ?thesis by (auto simp: json_escape.simps)
  next
    case False
    then have ne: "c \<noteq> CHR 0x0A" by simp
    show ?thesis
    proof (cases "unicode_separator c s")
      case None
      with "2.IH"(8) [OF _ _ _ _ _ _ _ None] False ne control show ?thesis by (auto simp: json_escape.simps)
    next
      case (Some e)
      then have "CHR 0x0A \<notin> set e" by (rule unicode_separator_cases) auto
      with "2.IH"(9) [OF _ _ _ _ _ _ _ Some] Some False show ?thesis by (auto simp: json_escape.simps)
    qed
  qed
qed simp

lemma members_no_newline: "CHR 0x0A \<notin> set (json_members ms)"
  by (induction ms rule: json_members.induct) (simp_all add: json_member_def escape_no_newline)

text \<open>
  C38. What the JSON sink hands on for a statement is one line: it ends in the only newline, a reader of
  JSON gets from it exactly the seven members of the sink and the named arguments with their values,
  whatever characters are in them, and no key occurs twice when the names of the arguments do not.
  It is the same line whether its size was asked for before or not, and that size is its length.
\<close>

theorem json_line_is_read_back:
  assumes "\<not> js_ready s" "\<forall>args. jr_named_args r = Some args \<longrightarrow> distinct (map fst args)"
  shows "\<exists>line f. read_json_line line = Some (record_members r f) \<and> distinct (map fst (record_members r f))
    \<and> f = fst (normalized_message_format r (js_format s))
    \<and> (\<exists>body. line = body @ [CHR 0x0A] \<and> CHR 0x0A \<notin> set body)
    \<and> (let (e, b) = base_write line (js_base s) in
         fst (json_write_log base_write r s) = e \<and> js_base (snd (json_write_log base_write r s)) = b \<and> \<not> js_ready (snd (json_write_log base_write r s))
         \<and> json_write_log base_write r (snd (json_estimate_write_size r s)) = json_write_log base_write r s)
    \<and> fst (json_estimate_write_size r s) = of_nat (length line)"
proof -
  let ?f = "fst (normalized_message_format r (js_format s))"
  let ?body = "generate_json_message r ?f @ ''}''"
  have ne: "record_members r ?f \<noteq> []" by (simp add: record_members_def)
  have body: "?body = CHR ''{'' # json_members (record_members r ?f) @ ''}''" by (simp add: generate_members)
  have "read_json_line (?body @ [CHR 0x0A]) = Some (record_members r ?f)"
    using read_json_members [OF ne, of "[CHR 0x0A]"] by (simp add: body read_json_line_def)
  moreover have "CHR 0x0A \<notin> set ?body" unfolding body using members_no_newline by simp
  moreover have "distinct (map fst (record_members r ?f))" by (rule record_keys_distinct [OF assms(2)])
  moreover have "let (e, b) = base_write (?body @ [CHR 0x0A]) (js_base s) in
         fst (json_write_log base_write r s) = e \<and> js_base (snd (json_write_log base_write r s)) = b \<and> \<not> js_ready (snd (json_write_log base_write r s))
         \<and> json_write_log base_write r (snd (json_estimate_write_size r s)) = json_write_log base_write r s"
    using assms(1) by (simp add: json_write_log_def json_estimate_write_size_def build_json_message_def Let_def split: prod.splits)
  moreover have "fst (json_estimate_write_size r s) = of_nat (length (?body @ [CHR 0x0A]))"
    by (simp add: json_estimate_write_size_def build_json_message_def Let_def split: prod.splits)
  ultimately show ?thesis by (intro exI [of _ "?body @ [CHR 0x0A]"] exI [of _ ?f] conjI refl exI [of _ ?body])
qed

definition example_json_record :: json_record where
  "example_json_record = \<lparr>jr_metadata = mm_default, jr_timestamp = 7, jr_thread_id = ''1'', jr_logger_name = ''root'', jr_level_description = ''INFO'',
     jr_named_args = Some [(''message'', [CHR 0x22, CHR 0x0A, CHR 0xE2])], jr_log_message = []\<rparr>"

definition example_json_sink :: "string list json_sink" where
  "example_json_sink = \<lparr>js_message = [], js_format = [], js_ready = False, js_base = []\<rparr>"

theorem json_line_is_read_back_witness:
  "\<exists>line f. read_json_line line = Some (record_members example_json_record f)
    \<and> js_base (snd (json_write_log (\<lambda>t b. (None, b @ [t])) example_json_record example_json_sink)) = [line]"
proof -
  have start: "\<not> js_ready example_json_sink" "js_base example_json_sink = []" by (simp_all add: example_json_sink_def)
  have keys: "\<forall>args. jr_named_args example_json_record = Some args \<longrightarrow> distinct (map fst args)" by (simp add: example_json_record_def)
  from json_line_is_read_back [OF start(1) keys, of "\<lambda>t b. (None, b @ [t])"] start(2) show ?thesis
    by (auto simp: Let_def)
qed

end
