(* ===== verification/Metric_Manager.thy ===== *)
theory Metric_Manager
  imports Common Macro_Metadata Sorted_Vector
begin

text \<open>
  \<^verbatim>\<open>quill/core/Metric.h\<close> and \<^verbatim>\<open>quill/core/MetricManager.h\<close>: metrics and their registry, a vector in
  ascending order of the keys. A metric is known by its address, which the allocator gives.
\<close>

subsection \<open>Metrics\<close>

record metric_label =
  label_key :: string
  label_value :: string

record metric_metadata = macro_metadata +
  mt_metric_key :: string
  mt_metric_name :: string
  mt_labels :: "metric_label list"

definition metric_metadata_new :: "string \<Rightarrow> string \<Rightarrow> metric_label list \<Rightarrow> metric_metadata" where
  "metric_metadata_new metric_key metric_name labels =
     macro_metadata.extend (mm_new [] [] [] None NoneLevel Metric False)
       (metric_metadata.fields metric_key metric_name labels)"

subsection \<open>The registry\<close>

record metric_manager =
  mg_metrics :: "(nat \<times> metric_metadata) list"

definition mg_new :: metric_manager where
  "mg_new = \<lparr>mg_metrics = []\<rparr>"

abbreviation entry_key :: "nat \<times> metric_metadata \<Rightarrow> string" where
  "entry_key e \<equiv> mt_metric_key (snd e)"

definition validate_key_and_name :: "string \<Rightarrow> string \<Rightarrow> quill_error option" where
  "validate_key_and_name metric_key metric_name =
     (if metric_name = [] then Some (QuillError ''Metric name must not be empty'')
      else if metric_key = [] then Some (QuillError ''Metric key must not be empty'')
      else None)"

definition mg_insert_metric :: "nat \<Rightarrow> string \<Rightarrow> string \<Rightarrow> metric_label list \<Rightarrow> metric_manager \<Rightarrow> nat \<times> metric_manager" where
  "mg_insert_metric addr metric_key metric_name labels m =
     (let insert_it = lower_bound entry_key metric_key (mg_metrics m)
      in (addr, m\<lparr>mg_metrics := insert_at insert_it (addr, metric_metadata_new metric_key metric_name labels) (mg_metrics m)\<rparr>))"

definition mg_find_metric :: "string \<Rightarrow> metric_manager \<Rightarrow> nat option" where
  "mg_find_metric metric_key m = map_option fst (search entry_key metric_key (mg_metrics m))"

definition create_metric ::
  "nat \<Rightarrow> string \<Rightarrow> string \<Rightarrow> metric_label list \<Rightarrow> metric_manager \<Rightarrow> (quill_error + nat) \<times> metric_manager" where
  "create_metric addr metric_key metric_name labels m =
     (case validate_key_and_name metric_key metric_name of
        Some e \<Rightarrow> (Inl e, m)
      | None \<Rightarrow>
          if mg_find_metric metric_key m \<noteq> None
          then (Inl (QuillError (''Metric with key '' @ [CHR 0x22] @ metric_key @ [CHR 0x22]
                 @ '' already exists. Use create_or_get_metric() if you want to retrieve the existing metric metadata pointer.'')), m)
          else (case mg_insert_metric addr metric_key metric_name labels m of (p, m1) \<Rightarrow> (Inr p, m1)))"

definition create_or_get_metric ::
  "nat \<Rightarrow> string \<Rightarrow> string \<Rightarrow> metric_label list \<Rightarrow> metric_manager \<Rightarrow> (quill_error + nat) \<times> metric_manager" where
  "create_or_get_metric addr metric_key metric_name labels m =
     (case validate_key_and_name metric_key metric_name of
        Some e \<Rightarrow> (Inl e, m)
      | None \<Rightarrow>
          (case mg_find_metric metric_key m of
             Some p \<Rightarrow> (Inr p, m)
           | None \<Rightarrow> (case mg_insert_metric addr metric_key metric_name labels m of (p, m1) \<Rightarrow> (Inr p, m1))))"

definition get_metric :: "string \<Rightarrow> metric_manager \<Rightarrow> quill_error + nat" where
  "get_metric metric_key m =
     (case mg_find_metric metric_key m of
        Some p \<Rightarrow> Inr p
      | None \<Rightarrow> Inl (QuillError (''Metric with key '' @ [CHR 0x22] @ metric_key @ [CHR 0x22] @ '' does not exist'')))"

text \<open>The calls of any threads, each under the lock of the manager.\<close>

datatype metric_call =
    CreateMetric nat string string "metric_label list"
  | CreateOrGetMetric nat string string "metric_label list"
  | GetMetric string

fun run_metric_call :: "metric_call \<Rightarrow> metric_manager \<Rightarrow> (quill_error + nat) \<times> metric_manager" where
  "run_metric_call (CreateMetric addr k n ls) m = create_metric addr k n ls m"
| "run_metric_call (CreateOrGetMetric addr k n ls) m = create_or_get_metric addr k n ls m"
| "run_metric_call (GetMetric k) m = (get_metric k m, m)"

fun metric_calls :: "metric_call list \<Rightarrow> metric_manager \<Rightarrow> (quill_error + nat) list \<times> metric_manager" where
  "metric_calls [] m = ([], m)"
| "metric_calls (c # cs) m = (case run_metric_call c m of (r, m1) \<Rightarrow> case metric_calls cs m1 of (rs, m2) \<Rightarrow> (r # rs, m2))"

subsection \<open>The registry is a map\<close>

definition metric_map :: "metric_manager \<Rightarrow> string \<Rightarrow> (nat \<times> metric_metadata) option" where
  "metric_map m key = search entry_key key (mg_metrics m)"

definition metrics_ok :: "metric_manager \<Rightarrow> bool" where
  "metrics_ok m \<longleftrightarrow> ascending entry_key (mg_metrics m)
     \<and> (\<forall>(_, md) \<in> set (mg_metrics m). mt_metric_key md \<noteq> [] \<and> mt_metric_name md \<noteq> [] \<and> mm_event md = Metric)"

text \<open>What the manager promises: a map from keys to metrics, to which a call adds at most its own.\<close>

fun spec_metric_call ::
  "metric_call \<Rightarrow> (string \<rightharpoonup> nat \<times> metric_metadata) \<Rightarrow> nat option \<times> (string \<rightharpoonup> nat \<times> metric_metadata)" where
  "spec_metric_call (CreateMetric addr k n ls) m =
     (if k = [] \<or> n = [] \<or> k \<in> dom m then (None, m) else (Some addr, m(k \<mapsto> (addr, metric_metadata_new k n ls))))"
| "spec_metric_call (CreateOrGetMetric addr k n ls) m =
     (if k = [] \<or> n = [] then (None, m)
      else case m k of Some (p, _) \<Rightarrow> (Some p, m) | None \<Rightarrow> (Some addr, m(k \<mapsto> (addr, metric_metadata_new k n ls))))"
| "spec_metric_call (GetMetric k) m = (map_option fst (m k), m)"

fun spec_metric_calls ::
  "metric_call list \<Rightarrow> (string \<rightharpoonup> nat \<times> metric_metadata) \<Rightarrow> nat option list \<times> (string \<rightharpoonup> nat \<times> metric_metadata)" where
  "spec_metric_calls [] m = ([], m)"
| "spec_metric_calls (c # cs) m = (case spec_metric_call c m of (r, m1) \<Rightarrow> case spec_metric_calls cs m1 of (rs, m2) \<Rightarrow> (r # rs, m2))"

definition call_result :: "quill_error + nat \<Rightarrow> nat option" where
  "call_result r = (case r of Inl _ \<Rightarrow> None | Inr p \<Rightarrow> Some p)"

lemma metric_metadata_new_fields [simp]:
  "mt_metric_key (metric_metadata_new k n ls) = k" "mt_metric_name (metric_metadata_new k n ls) = n"
  "mt_labels (metric_metadata_new k n ls) = ls" "mm_event (metric_metadata_new k n ls) = Metric"
  by (simp_all add: metric_metadata_new_def macro_metadata.defs metric_metadata.defs mm_new_def)

lemma metric_map_iff: "metrics_ok m \<Longrightarrow> metric_map m k = Some e \<longleftrightarrow> e \<in> set (mg_metrics m) \<and> entry_key e = k"
  by (simp add: metric_map_def metrics_ok_def search_iff)

lemma metric_map_None: "metrics_ok m \<Longrightarrow> metric_map m k = None \<longleftrightarrow> k \<notin> entry_key ` set (mg_metrics m)"
  by (simp add: metric_map_def metrics_ok_def search_None)

lemma find_metric_map: "mg_find_metric k m = map_option fst (metric_map m k)"
  by (simp add: mg_find_metric_def metric_map_def)

lemma insert_metric_map:
  assumes "metrics_ok m" "metric_map m k = None" "k \<noteq> []" "n \<noteq> []" "mg_insert_metric addr k n ls m = (p, m')"
  shows "p = addr" "metrics_ok m'" "metric_map m' = (metric_map m)(k \<mapsto> (addr, metric_metadata_new k n ls))"
proof -
  let ?e = "(addr, metric_metadata_new k n ls)"
  let ?xs = "insert_at (lower_bound entry_key (entry_key ?e) (mg_metrics m)) ?e (mg_metrics m)"
  from assms(5) show "p = addr" by (simp add: mg_insert_metric_def Let_def)
  from assms(5) have m': "m' = m\<lparr>mg_metrics := ?xs\<rparr>" by (auto simp: mg_insert_metric_def Let_def)
  have new: "entry_key ?e \<notin> entry_key ` set (mg_metrics m)" using assms(1,2) metric_map_None by simp
  have asc: "ascending entry_key ?xs"
    by (rule insert_at_ascending) (use assms(1) new in \<open>simp_all add: metrics_ok_def\<close>)
  then show ok: "metrics_ok m'" using assms(1,3,4) by (auto simp: m' metrics_ok_def insert_at_set)
  show "metric_map m' = (metric_map m)(k \<mapsto> ?e)"
  proof
    fix j
    show "metric_map m' j = ((metric_map m)(k \<mapsto> ?e)) j"
    proof (cases "j = k")
      case True
      have "metric_map m' k = Some ?e" using ok by (subst metric_map_iff) (simp_all add: m' insert_at_set)
      with True show ?thesis by simp
    next
      case False
      have "metric_map m' j = Some e \<longleftrightarrow> metric_map m j = Some e" for e
        using False metric_map_iff [OF ok, of j e] metric_map_iff [OF assms(1), of j e] by (auto simp: m' insert_at_set)
      then have "metric_map m' j = metric_map m j" by (metis not_Some_eq)
      with False show ?thesis by simp
    qed
  qed
qed

lemma metric_call_map:
  assumes "metrics_ok m" "run_metric_call c m = (r, m')"
  shows "metrics_ok m' \<and> spec_metric_call c (metric_map m) = (call_result r, metric_map m')"
proof (cases c)
  case (CreateMetric addr k n ls)
  obtain p m1 where ins: "mg_insert_metric addr k n ls m = (p, m1)" by force
  show ?thesis
  proof (cases "k = [] \<or> n = [] \<or> metric_map m k \<noteq> None")
    case True
    with assms CreateMetric show ?thesis
      by (auto simp: create_metric_def validate_key_and_name_def find_metric_map call_result_def split: if_splits)
  next
    case False
    then have free: "metric_map m k = None" "k \<noteq> []" "n \<noteq> []" by blast+
    from assms(2) free CreateMetric ins have "r = Inr p" "m' = m1"
      by (auto simp: create_metric_def validate_key_and_name_def find_metric_map)
    with insert_metric_map [OF assms(1) free ins] free show ?thesis by (auto simp: CreateMetric call_result_def)
  qed
next
  case (CreateOrGetMetric addr k n ls)
  obtain p m1 where ins: "mg_insert_metric addr k n ls m = (p, m1)" by force
  show ?thesis
  proof (cases "k = [] \<or> n = [] \<or> metric_map m k \<noteq> None")
    case True
    with assms CreateOrGetMetric show ?thesis
      by (auto simp: create_or_get_metric_def validate_key_and_name_def find_metric_map call_result_def split: if_splits)
  next
    case False
    then have free: "metric_map m k = None" "k \<noteq> []" "n \<noteq> []" by blast+
    from assms(2) free CreateOrGetMetric ins have "r = Inr p" "m' = m1"
      by (auto simp: create_or_get_metric_def validate_key_and_name_def find_metric_map)
    with insert_metric_map [OF assms(1) free ins] free show ?thesis by (auto simp: CreateOrGetMetric call_result_def)
  qed
next
  case (GetMetric k)
  with assms show ?thesis by (auto simp: get_metric_def find_metric_map call_result_def split: option.splits)
qed

lemma metric_calls_map:
  assumes "metrics_ok m" "metric_calls cs m = (rs, m')"
  shows "metrics_ok m' \<and> spec_metric_calls cs (metric_map m) = (map call_result rs, metric_map m')"
  using assms
proof (induction cs arbitrary: m rs)
  case (Cons c cs)
  obtain r m1 rs1 where c: "run_metric_call c m = (r, m1)" "metric_calls cs m1 = (rs1, m')" "rs = r # rs1"
    using Cons.prems(2) by (auto split: prod.splits)
  from metric_call_map [OF Cons.prems(1) c(1)] Cons.IH [OF _ c(2)] c(3) show ?case by auto
qed simp

lemma spec_metric_call_grows: "m \<subseteq>\<^sub>m snd (spec_metric_call c m)"
  by (cases c) (auto simp: map_le_def split: option.splits)

lemma spec_metric_calls_grow: "m \<subseteq>\<^sub>m snd (spec_metric_calls cs m)"
proof (induction cs arbitrary: m)
  case (Cons c cs)
  have "m \<subseteq>\<^sub>m snd (spec_metric_call c m)" by (rule spec_metric_call_grows)
  also have "\<dots> \<subseteq>\<^sub>m snd (spec_metric_calls cs (snd (spec_metric_call c m)))" by (rule Cons.IH)
  finally show ?case by (simp add: case_prod_unfold)
qed simp

lemma metric_calls_append:
  "metric_calls (cs @ ds) m = (fst (metric_calls cs m) @ fst (metric_calls ds (snd (metric_calls cs m))), snd (metric_calls ds (snd (metric_calls cs m))))"
  by (induction cs arbitrary: m) (simp_all split: prod.splits)

lemma mg_new_ok [simp]: "metrics_ok mg_new" "metric_map mg_new = Map.empty"
  by (simp_all add: metrics_ok_def mg_new_def metric_map_def search_def fun_eq_iff)

text \<open>
  C39. Whatever calls the threads make, the registry is a map from keys to metrics: every call answers
  as the map does (a metric is created exactly for a name and a key that are not empty and a key
  that is new, a key in use gives the metric it belongs to or, to \<^verbatim>\<open>create_metric\<close>, an error), the
  vector stays in ascending order, and a metric once handed out is found under its key forever.
\<close>

theorem metric_registry_is_a_map:
  "spec_metric_calls cs Map.empty = (map call_result (fst (metric_calls cs mg_new)), metric_map (snd (metric_calls cs mg_new)))
    \<and> metrics_ok (snd (metric_calls cs mg_new))
    \<and> metric_map (snd (metric_calls cs mg_new)) \<subseteq>\<^sub>m metric_map (snd (metric_calls (cs @ ds) mg_new))"
proof (intro conjI)
  let ?m = "snd (metric_calls cs mg_new)"
  from metric_calls_map [OF mg_new_ok(1) prod.collapse [symmetric, of "metric_calls cs mg_new"]]
  show run: "spec_metric_calls cs Map.empty = (map call_result (fst (metric_calls cs mg_new)), metric_map ?m)" and ok: "metrics_ok ?m" by simp_all
  from metric_calls_map [OF ok prod.collapse [symmetric, of "metric_calls ds ?m"]]
  have "metric_map (snd (metric_calls ds ?m)) = snd (spec_metric_calls ds (metric_map ?m))" by simp
  then show "metric_map ?m \<subseteq>\<^sub>m metric_map (snd (metric_calls (cs @ ds) mg_new))"
    using spec_metric_calls_grow by (simp add: metric_calls_append)
qed

end
