(* ===== verification/Prometheus_Sink.thy ===== *)
theory Prometheus_Sink
  imports Metric_Manager Std_String
begin

text \<open>
  \<^verbatim>\<open>quill/sinks/metrics/PrometheusSink.h\<close>: metrics are registered with the sink, grouped into families of
  the Prometheus library, and samples of registered metrics are handed to that library. The library
  is a parameter: its registry of type \<open>'r\<close>, and what its calls do to it. A metric is known by the
  address of its metadata, \<open>0\<close> being the null pointer. Of \<^verbatim>\<open>double\<close> the sink only passes values on.
  \<open>None\<close> as a result is an assertion that does not hold.
\<close>

subsection \<open>The library\<close>

datatype metric_type = CounterType | GaugeType | HistogramType | SummaryType

type_synonym labels = "(string \<times> string) list"

text \<open>What \<^verbatim>\<open>Family::Add\<close> is given besides the labels.\<close>

datatype gauge_update_mode = AddMode | SetMode | SubMode

datatype 'd adder =
    AddCounter
  | AddGauge gauge_update_mode
  | AddHistogram "'d list"
  | AddSummary "('d \<times> 'd) list" int int

datatype sample_call = Increment | Decrement | SetTo | Observe

record ('d, 'r) prometheus =
  pr_metadata :: "u64 \<Rightarrow> metric_metadata"
  pr_check_metric_name :: "string \<Rightarrow> bool"
  pr_check_label_name :: "string \<Rightarrow> metric_type \<Rightarrow> bool"
  pr_register :: "metric_type \<Rightarrow> string \<Rightarrow> string \<Rightarrow> labels \<Rightarrow> 'r \<Rightarrow> (quill_error + nat) \<times> 'r"
  pr_has :: "nat \<Rightarrow> labels \<Rightarrow> 'r \<Rightarrow> bool"
  pr_add :: "nat \<Rightarrow> labels \<Rightarrow> 'd adder \<Rightarrow> 'r \<Rightarrow> (quill_error + nat) \<times> 'r"
  pr_remove :: "nat \<Rightarrow> nat \<Rightarrow> 'r \<Rightarrow> 'r"
  pr_sample :: "sample_call \<Rightarrow> nat \<Rightarrow> 'd \<Rightarrow> 'r \<Rightarrow> 'r"

subsection \<open>The sink\<close>

record family_key =
  fk_type :: metric_type
  fk_metric_name :: string
  fk_constant_labels :: labels

datatype registered_metric =
    RegisteredCounter (rm_family_key: family_key) (rm_metric: nat)
  | RegisteredGauge (rm_family_key: family_key) (rm_metric: nat) gauge_update_mode
  | RegisteredHistogram (rm_family_key: family_key) (rm_metric: nat)
  | RegisteredSummary (rm_family_key: family_key) (rm_metric: nat)

text \<open>The alternative of the variant and the pointer in it.\<close>

record family_handle =
  fh_help :: string
  fh_metric_count :: size_t
  fh_family :: "metric_type \<times> nat"

record 'r prometheus_sink =
  ps_registry :: 'r
  ps_families :: "family_key \<rightharpoonup> family_handle"
  ps_metrics :: "u64 \<rightharpoonup> registered_metric"
  ps_metric_keys :: "string \<rightharpoonup> u64"

definition ps_new :: "'r \<Rightarrow> 'r prometheus_sink" where
  "ps_new registry = \<lparr>ps_registry = registry, ps_families = Map.empty, ps_metrics = Map.empty, ps_metric_keys = Map.empty\<rparr>"

fun adder_type :: "'d adder \<Rightarrow> metric_type" where
  "adder_type AddCounter = CounterType"
| "adder_type (AddGauge _) = GaugeType"
| "adder_type (AddHistogram _) = HistogramType"
| "adder_type (AddSummary _ _ _) = SummaryType"

fun registered_type :: "registered_metric \<Rightarrow> metric_type" where
  "registered_type (RegisteredCounter _ _) = CounterType"
| "registered_type (RegisteredGauge _ _ _) = GaugeType"
| "registered_type (RegisteredHistogram _ _) = HistogramType"
| "registered_type (RegisteredSummary _ _) = SummaryType"

definition get_family :: "metric_type \<Rightarrow> family_handle \<Rightarrow> quill_error + nat" where
  "get_family t h = (if fst (fh_family h) = t then Inr (snd (fh_family h)) else Inl (StdException ''bad_variant_access''))"

definition has_metric :: "string \<Rightarrow> 'r prometheus_sink \<Rightarrow> bool" where
  "has_metric metric_key s \<longleftrightarrow> ps_metric_keys s metric_key \<noteq> None"

subsection \<open>Registration\<close>

definition validate_metric_metadata :: "('d, 'r) prometheus \<Rightarrow> u64 \<Rightarrow> quill_error + metric_metadata" where
  "validate_metric_metadata lib p =
     (if p = 0 then Inl (QuillError ''PrometheusSink requires a valid MetricMetadata pointer'')
      else if mm_event (pr_metadata lib p) \<noteq> Metric
      then Inl (QuillError ''PrometheusSink requires MetricMetadata created for Event::Metric'')
      else Inr (pr_metadata lib p))"

definition quoted :: "string \<Rightarrow> string" where
  "quoted s = CHR 0x22 # s @ [CHR 0x22]"

fun make_metric_labels_loop :: "string \<Rightarrow> metric_label list \<Rightarrow> labels \<Rightarrow> quill_error + labels" where
  "make_metric_labels_loop key [] labels = Inr labels"
| "make_metric_labels_loop key (l # ls) labels =
     (if label_key l \<in> fst ` set labels
      then Inl (QuillError (''PrometheusSink metric '' @ quoted key @ '' contains duplicate label key '' @ quoted (label_key l)))
      else make_metric_labels_loop key ls (smap_insert (label_key l) (label_value l) labels))"

definition make_metric_labels :: "metric_metadata \<Rightarrow> quill_error + labels" where
  "make_metric_labels md = make_metric_labels_loop (mt_metric_key md) (mt_labels md) []"

fun check_constant_labels :: "('d, 'r) prometheus \<Rightarrow> metric_type \<Rightarrow> labels \<Rightarrow> quill_error option" where
  "check_constant_labels lib t [] = None"
| "check_constant_labels lib t ((k, _) # ls) =
     (if \<not> pr_check_label_name lib k t then Some (QuillError (''Invalid Prometheus constant label name '' @ quoted k))
      else check_constant_labels lib t ls)"

fun check_metric_labels :: "('d, 'r) prometheus \<Rightarrow> metric_type \<Rightarrow> labels \<Rightarrow> labels \<Rightarrow> quill_error option" where
  "check_metric_labels lib t constant_labels [] = None"
| "check_metric_labels lib t constant_labels ((k, _) # ls) =
     (if \<not> pr_check_label_name lib k t then Some (QuillError (''Invalid Prometheus metric label name '' @ quoted k))
      else if k \<in> fst ` set constant_labels
      then Some (QuillError (''Prometheus label '' @ quoted k @ '' is defined both as a constant label and as a metric label''))
      else check_metric_labels lib t constant_labels ls)"

definition validate_prometheus_metadata ::
  "('d, 'r) prometheus \<Rightarrow> metric_type \<Rightarrow> string \<Rightarrow> labels \<Rightarrow> labels \<Rightarrow> quill_error option" where
  "validate_prometheus_metadata lib t metric_name constant_labels metric_labels =
     (if \<not> pr_check_metric_name lib metric_name then Some (QuillError (''Invalid Prometheus metric name '' @ quoted metric_name))
      else case check_constant_labels lib t constant_labels of
             Some e \<Rightarrow> Some e
           | None \<Rightarrow> check_metric_labels lib t constant_labels metric_labels)"

definition get_or_create_family ::
  "('d, 'r) prometheus \<Rightarrow> family_key \<Rightarrow> string \<Rightarrow> 'r prometheus_sink \<Rightarrow> (quill_error + family_handle) \<times> 'r prometheus_sink" where
  "get_or_create_family lib fk help s =
     (case ps_families s fk of
        Some h \<Rightarrow>
          if fh_help h \<noteq> help
          then (Inl (QuillError (''Prometheus family '' @ quoted (fk_metric_name fk) @ '' is already registered with different help text'')), s)
          else (Inr h, s)
      | None \<Rightarrow>
          (case pr_register lib (fk_type fk) (fk_metric_name fk) help (fk_constant_labels fk) (ps_registry s) of
             (Inl e, r) \<Rightarrow> (Inl e, s\<lparr>ps_registry := r\<rparr>)
           | (Inr f, r) \<Rightarrow>
               let h = \<lparr>fh_help = help, fh_metric_count = 0, fh_family = (fk_type fk, f)\<rparr>
               in (Inr h, s\<lparr>ps_registry := r, ps_families := (ps_families s)(fk \<mapsto> h)\<rparr>)))"

text \<open>What the four functions given as \<^verbatim>\<open>adder\<close> return.\<close>

fun registered :: "'d adder \<Rightarrow> family_key \<Rightarrow> nat \<Rightarrow> registered_metric" where
  "registered AddCounter fk m = RegisteredCounter fk m"
| "registered (AddGauge mode) fk m = RegisteredGauge fk m mode"
| "registered (AddHistogram _) fk m = RegisteredHistogram fk m"
| "registered (AddSummary _ _ _) fk m = RegisteredSummary fk m"

definition emplace :: "'k \<Rightarrow> 'v \<Rightarrow> ('k \<rightharpoonup> 'v) \<Rightarrow> ('k \<rightharpoonup> 'v)" where
  "emplace k v m = (case m k of None \<Rightarrow> m(k \<mapsto> v) | Some _ \<Rightarrow> m)"

definition alias_check :: "('d, 'r) prometheus \<Rightarrow> metric_metadata \<Rightarrow> family_key \<Rightarrow> labels \<Rightarrow> 'r prometheus_sink \<Rightarrow> quill_error option" where
  "alias_check lib md fk metric_labels s =
     (case ps_families s fk of
        None \<Rightarrow> None
      | Some h \<Rightarrow>
          (case get_family (fk_type fk) h of
             Inl e \<Rightarrow> Some e
           | Inr f \<Rightarrow>
               if pr_has lib f metric_labels (ps_registry s)
               then Some (QuillError (''PrometheusSink metric '' @ quoted (mt_metric_key md) @ '' aliases an existing time series''))
               else None))"

definition register_metric ::
  "('d, 'r) prometheus \<Rightarrow> u64 \<Rightarrow> string \<Rightarrow> labels \<Rightarrow> 'd adder \<Rightarrow> 'r prometheus_sink \<Rightarrow> quill_error option \<times> 'r prometheus_sink" where
  "register_metric lib p help constant_labels adder s =
     (case validate_metric_metadata lib p of
        Inl e \<Rightarrow> (Some e, s)
      | Inr md \<Rightarrow>
     (case make_metric_labels md of
        Inl e \<Rightarrow> (Some e, s)
      | Inr metric_labels \<Rightarrow>
     (case validate_prometheus_metadata lib (adder_type adder) (mt_metric_name md) constant_labels metric_labels of
        Some e \<Rightarrow> (Some e, s)
      | None \<Rightarrow>
     if has_metric (mt_metric_key md) s
     then (Some (QuillError (''PrometheusSink metric '' @ quoted (mt_metric_key md) @ '' is already registered'')), s)
     else let fk = \<lparr>fk_type = adder_type adder, fk_metric_name = mt_metric_name md, fk_constant_labels = constant_labels\<rparr> in
     (case alias_check lib md fk metric_labels s of
        Some e \<Rightarrow> (Some e, s)
      | None \<Rightarrow>
     (case get_or_create_family lib fk help s of
        (Inl e, s1) \<Rightarrow> (Some e, s1)
      | (Inr h, s1) \<Rightarrow>
     (case get_family (adder_type adder) h of
        Inl e \<Rightarrow> (Some e, s1)
      | Inr f \<Rightarrow>
     (case pr_add lib f metric_labels adder (ps_registry s1) of
        (Inl e, r) \<Rightarrow> (Some e, s1\<lparr>ps_registry := r\<rparr>)
      | (Inr m, r) \<Rightarrow>
          (None, s1\<lparr>ps_registry := r, ps_metrics := emplace p (registered adder fk m) (ps_metrics s1),
                    ps_metric_keys := emplace (mt_metric_key md) p (ps_metric_keys s1),
                    ps_families := (ps_families s1)(fk \<mapsto> h\<lparr>fh_metric_count := fh_metric_count h + 1\<rparr>)\<rparr>))))))))"

text \<open>The public functions.\<close>

definition register_counter where
  "register_counter lib p help constant_labels = register_metric lib p help constant_labels AddCounter"

definition register_gauge where
  "register_gauge lib p help update_mode constant_labels = register_metric lib p help constant_labels (AddGauge update_mode)"

definition register_histogram where
  "register_histogram lib p help bucket_boundaries constant_labels =
     register_metric lib p help constant_labels (AddHistogram bucket_boundaries)"

definition register_summary where
  "register_summary lib p help quantiles max_age age_buckets constant_labels =
     register_metric lib p help constant_labels (AddSummary quantiles max_age age_buckets)"

subsection \<open>Removal\<close>

definition erase_metric ::
  "('d, 'r) prometheus \<Rightarrow> string \<Rightarrow> u64 \<Rightarrow> registered_metric \<Rightarrow> 'r prometheus_sink \<Rightarrow> (quill_error option \<times> 'r prometheus_sink) option" where
  "erase_metric lib key p rm s =
     (let fk = rm_family_key rm in
      case ps_families s fk of
        None \<Rightarrow> None
      | Some h \<Rightarrow>
          (case get_family (registered_type rm) h of
             Inl e \<Rightarrow> Some (Some e, s)
           | Inr f \<Rightarrow>
               let count = (if fh_metric_count h > 0 then fh_metric_count h - 1 else fh_metric_count h)
               in Some (None, s\<lparr>ps_registry := pr_remove lib f (rm_metric rm) (ps_registry s),
                    ps_families := (if count = 0 then (ps_families s)(fk := None) else (ps_families s)(fk \<mapsto> h\<lparr>fh_metric_count := count\<rparr>)),
                    ps_metric_keys := (ps_metric_keys s)(key := None), ps_metrics := (ps_metrics s)(p := None)\<rparr>)))"

definition erased :: "(quill_error option \<times> 's) option \<Rightarrow> ((quill_error + bool) \<times> 's) option" where
  "erased r = map_option (\<lambda>(e, s). (case e of None \<Rightarrow> Inr True | Some e \<Rightarrow> Inl e, s)) r"

definition unregister_registered ::
  "('d, 'r) prometheus \<Rightarrow> metric_metadata \<Rightarrow> u64 \<Rightarrow> 'r prometheus_sink \<Rightarrow> ((quill_error + bool) \<times> 'r prometheus_sink) option" where
  "unregister_registered lib md p s =
     (case ps_metrics s p of
        None \<Rightarrow> Some (Inr False, s)
      | Some rm \<Rightarrow>
          if ps_metric_keys s (mt_metric_key md) = None then None
          else erased (erase_metric lib (mt_metric_key md) p rm s))"

definition unregister_metric ::
  "('d, 'r) prometheus \<Rightarrow> u64 \<Rightarrow> 'r prometheus_sink \<Rightarrow> ((quill_error + bool) \<times> 'r prometheus_sink) option" where
  "unregister_metric lib p s =
     (case validate_metric_metadata lib p of
        Inl e \<Rightarrow> Some (Inl e, s)
      | Inr md \<Rightarrow> unregister_registered lib md p s)"

definition unregister_metric_key ::
  "('d, 'r) prometheus \<Rightarrow> string \<Rightarrow> 'r prometheus_sink \<Rightarrow> ((quill_error + bool) \<times> 'r prometheus_sink) option" where
  "unregister_metric_key lib key s =
     (case ps_metric_keys s key of
        None \<Rightarrow> Some (Inr False, s)
      | Some p \<Rightarrow>
          (case ps_metrics s p of
             None \<Rightarrow> None
           | Some rm \<Rightarrow> erased (erase_metric lib key p rm s)))"

subsection \<open>Samples\<close>

fun apply_sample :: "registered_metric \<Rightarrow> sample_call" where
  "apply_sample (RegisteredCounter _ _) = Increment"
| "apply_sample (RegisteredGauge _ _ AddMode) = Increment"
| "apply_sample (RegisteredGauge _ _ SubMode) = Decrement"
| "apply_sample (RegisteredGauge _ _ SetMode) = SetTo"
| "apply_sample (RegisteredHistogram _ _) = Observe"
| "apply_sample (RegisteredSummary _ _) = Observe"

definition ps_write_metric :: "('d, 'r) prometheus \<Rightarrow> u64 \<Rightarrow> 'd \<Rightarrow> 'r prometheus_sink \<Rightarrow> 'r prometheus_sink option" where
  "ps_write_metric lib p v s =
     (if p = 0 then None
      else case ps_metrics s p of
             None \<Rightarrow> Some s
           | Some rm \<Rightarrow> Some (s\<lparr>ps_registry := pr_sample lib (apply_sample rm) (rm_metric rm) v (ps_registry s)\<rparr>))"

subsection \<open>The address of the exposer\<close>

record exposer_configuration =
  ec_bind_address :: string
  ec_num_threads :: size_t
  ec_server_options :: "string list"
  ec_uri :: string
  ec_callbacks :: nat

text \<open>The library's web server, of type \<open>'x\<close>. Its constructors may throw.\<close>

record 'x exposer_library =
  xl_from_options :: "string list \<Rightarrow> nat \<Rightarrow> quill_error + 'x"
  xl_from_address :: "string \<Rightarrow> size_t \<Rightarrow> nat \<Rightarrow> quill_error + 'x"
  xl_listening_ports :: "'x \<Rightarrow> int list"
  xl_register_collectable :: "string \<Rightarrow> 'x \<Rightarrow> quill_error + 'x"

definition can_form_scrape_endpoint :: "string \<Rightarrow> bool" where
  "can_form_scrape_endpoint bind_address =
     (case rfind_char CHR '':'' bind_address of
        None \<Rightarrow> False
      | Some last_colon \<Rightarrow>
          if last_colon = 0 \<or> length bind_address \<le> last_colon + 1 then False
          else list_all is_digit (drop (last_colon + 1) bind_address))"

fun uses_ephemeral_port_loop :: "string \<Rightarrow> bool \<Rightarrow> bool" where
  "uses_ephemeral_port_loop [] has_digit = has_digit"
| "uses_ephemeral_port_loop (c # s) has_digit =
     (if \<not> is_digit c then False else if c \<noteq> CHR ''0'' then False else uses_ephemeral_port_loop s True)"

definition bind_address_uses_ephemeral_port :: "string \<Rightarrow> bool" where
  "bind_address_uses_ephemeral_port bind_address =
     (case rfind_char CHR '':'' bind_address of
        None \<Rightarrow> False
      | Some last_colon \<Rightarrow>
          if length bind_address \<le> last_colon + 1 then False
          else uses_ephemeral_port_loop (drop (last_colon + 1) bind_address) False)"

definition replace_bind_address_port :: "string \<Rightarrow> int \<Rightarrow> string option" where
  "replace_bind_address_port bind_address port =
     (if port \<le> 0 then None
      else case rfind_char CHR '':'' bind_address of
             None \<Rightarrow> None
           | Some last_colon \<Rightarrow> Some (take (last_colon + 1) bind_address @ to_string (nat port)))"

fun extract_listening_ports_option :: "string list \<Rightarrow> string option" where
  "extract_listening_ports_option (name # candidate # server_options) =
     (if name \<noteq> ''listening_ports'' then extract_listening_ports_option server_options
      else if candidate = [] \<or> CHR '','' \<in> set candidate \<or> \<not> can_form_scrape_endpoint candidate then None
      else Some candidate)"
| "extract_listening_ports_option _ = None"

definition resolve_scrape_bind_address :: "exposer_configuration \<Rightarrow> string option" where
  "resolve_scrape_bind_address cfg =
     (if ec_server_options cfg = [] then
        (if \<not> can_form_scrape_endpoint (ec_bind_address cfg) then None else Some (ec_bind_address cfg))
      else extract_listening_ports_option (ec_server_options cfg))"

text \<open>The constructor with an exposer: the exposer and the address to scrape, empty when it is not known.\<close>

definition make_exposer :: "'x exposer_library \<Rightarrow> exposer_configuration \<Rightarrow> quill_error + 'x" where
  "make_exposer lib cfg =
     (if ec_uri cfg = [] then Inl (QuillError ''Prometheus exposer uri must not be empty'')
      else if ec_server_options cfg \<noteq> [] then xl_from_options lib (ec_server_options cfg) (ec_callbacks cfg)
      else if ec_bind_address cfg = [] then Inl (QuillError ''Prometheus exposer bind_address must not be empty'')
      else xl_from_address lib (ec_bind_address cfg) (ec_num_threads cfg) (ec_callbacks cfg))"

definition scrape_endpoint :: "'x exposer_library \<Rightarrow> exposer_configuration \<Rightarrow> 'x \<Rightarrow> string option" where
  "scrape_endpoint lib cfg x =
     (case resolve_scrape_bind_address cfg of
        None \<Rightarrow> Some []
      | Some endpoint_bind_address \<Rightarrow>
          map_option (\<lambda>addr. ''http://'' @ addr @ ec_uri cfg)
            (if bind_address_uses_ephemeral_port endpoint_bind_address then
               (case xl_listening_ports lib x of
                  port # _ \<Rightarrow> if port > 0 then replace_bind_address_port endpoint_bind_address port else Some endpoint_bind_address
                | [] \<Rightarrow> Some endpoint_bind_address)
             else Some endpoint_bind_address))"

definition ps_new_exposed ::
  "'x exposer_library \<Rightarrow> exposer_configuration \<Rightarrow> 'r \<Rightarrow> (quill_error + 'r prometheus_sink \<times> 'x \<times> string) option" where
  "ps_new_exposed lib cfg registry =
     (case make_exposer lib cfg of
        Inl e \<Rightarrow> Some (Inl e)
      | Inr x \<Rightarrow>
          (case scrape_endpoint lib cfg x of
             None \<Rightarrow> None
           | Some endpoint \<Rightarrow> Some (map_sum id (\<lambda>y. (ps_new registry, y, endpoint)) (xl_register_collectable lib (ec_uri cfg) x))))"

text \<open>
  The address to scrape is the one the exposer was given, with the port it listens on when it was
  asked to choose one. No assertion fails.
\<close>

lemma rfind_char_split:
  assumes "rfind_char c s = Some i"
  shows "s = take i s @ c # drop (Suc i) s" "c \<notin> set (drop (Suc i) s)"
proof -
  obtain j where j: "str_find [c] (rev s) = Some j" "i = length s - 1 - j" using assms by (auto simp: rfind_char_def)
  have "j + 1 \<le> length s" using str_find_Some(1) [OF j(1)] by simp
  have split: "rev s = take j (rev s) @ c # drop (Suc j) (rev s)" using str_find_split [OF j(1)] by simp
  have skipped: "c \<notin> set (take j (rev s))" using j(1)
  proof (induction "rev s" arbitrary: s j)
    case (Cons d t)
    have t: "t = rev (rev t)" by simp
    from Cons.hyps(2) have s: "rev s = d # t" by simp
    show ?case
    proof (cases "d = c")
      case True
      with Cons.prems show ?thesis unfolding s by simp
    next
      case False
      with Cons.prems s obtain j' where "str_find [c] t = Some j'" "j = Suc j'" by (auto simp: eq_commute [of c])
      with Cons.hyps(1) [OF t, of j'] False show ?thesis unfolding s by simp
    qed
  qed simp
  have "s = rev (drop (Suc j) (rev s)) @ c # rev (take j (rev s))"
    using arg_cong [OF split, of rev] by simp
  moreover have "i = length (rev (drop (Suc j) (rev s)))" using j(2) \<open>j + 1 \<le> length s\<close> by simp
  ultimately have "take i s = rev (drop (Suc j) (rev s))" "drop (Suc i) s = rev (take j (rev s))"
    by (metis append_eq_conv_conj, metis append_eq_conv_conj drop_Suc list.sel(3) tl_drop)
  with \<open>s = _ @ c # _\<close> skipped show "s = take i s @ c # drop (Suc i) s" "c \<notin> set (drop (Suc i) s)" by simp_all
qed

lemma uses_ephemeral_port_loop: "uses_ephemeral_port_loop s b \<longleftrightarrow> (b \<or> s \<noteq> []) \<and> set s \<subseteq> {CHR ''0''}"
  by (induction s arbitrary: b) (auto simp: is_digit_def)

lemma can_form_split:
  assumes "can_form_scrape_endpoint addr"
  obtains host port where "addr = host @ CHR '':'' # port" "rfind_char CHR '':'' addr = Some (length host)" "host \<noteq> []" "port \<noteq> []" "list_all is_digit port"
proof -
  obtain i where i: "rfind_char CHR '':'' addr = Some i" "i \<noteq> 0" "i + 1 < length addr" "list_all is_digit (drop (i + 1) addr)"
    using assms by (auto simp: can_form_scrape_endpoint_def split: option.splits if_splits)
  show thesis
  proof (rule that [of "take i addr" "drop (Suc i) addr"])
    show "addr = take i addr @ CHR '':'' # drop (Suc i) addr" by (rule rfind_char_split [OF i(1)])
  qed (use i in \<open>auto simp: min_def\<close>)
qed

lemma listening_ports_option_forms: "extract_listening_ports_option opts = Some addr \<Longrightarrow> can_form_scrape_endpoint addr"
  by (induction opts rule: extract_listening_ports_option.induct) (auto split: if_splits)

lemma scrape_endpoint_of:
  assumes "resolve_scrape_bind_address cfg = Some addr"
  obtains host port where "addr = host @ CHR '':'' # port" "host \<noteq> []" "port \<noteq> []" "list_all is_digit port"
    "scrape_endpoint lib cfg x = Some (''http://'' @ host @ CHR '':''
       # (if set port = {CHR ''0''} then case xl_listening_ports lib x of q # _ \<Rightarrow> if q > 0 then to_string (nat q) else port | [] \<Rightarrow> port
          else port) @ ec_uri cfg)"
proof -
  have "can_form_scrape_endpoint addr"
    using assms listening_ports_option_forms by (auto simp: resolve_scrape_bind_address_def split: if_splits)
  then obtain host port where h: "addr = host @ CHR '':'' # port" "rfind_char CHR '':'' addr = Some (length host)" "host \<noteq> []" "port \<noteq> []" "list_all is_digit port"
    by (rule can_form_split)
  moreover from this(4) have "set port \<subseteq> {CHR ''0''} \<longleftrightarrow> set port = {CHR ''0''}" by (cases port) auto
  ultimately have "bind_address_uses_ephemeral_port addr \<longleftrightarrow> set port = {CHR ''0''}"
    by (simp add: bind_address_uses_ephemeral_port_def uses_ephemeral_port_loop)
  moreover have "replace_bind_address_port addr q = Some (host @ CHR '':'' # to_string (nat q))" if "q > 0" for q
    using that h(1,2) by (simp add: replace_bind_address_port_def)
  ultimately have "scrape_endpoint lib cfg x = Some (''http://'' @ host @ CHR '':''
       # (if set port = {CHR ''0''} then case xl_listening_ports lib x of q # _ \<Rightarrow> if q > 0 then to_string (nat q) else port | [] \<Rightarrow> port
          else port) @ ec_uri cfg)"
    using assms h(1) by (auto simp: scrape_endpoint_def split: list.split)
  with h that show thesis by blast
qed

subsection \<open>What the sink keeps true\<close>

text \<open>The metrics registered in a family.\<close>

definition family_members :: "(u64 \<rightharpoonup> registered_metric) \<Rightarrow> family_key \<Rightarrow> u64 set" where
  "family_members M fk = {p. \<exists>rm. M p = Some rm \<and> rm_family_key rm = fk}"

text \<open>
  The two maps name the same metrics, each under its key; the family of a metric exists, has the
  type of the metric, and counts its metrics.
\<close>

definition prometheus_ok :: "('d, 'r) prometheus \<Rightarrow> 'r prometheus_sink \<Rightarrow> bool" where
  "prometheus_ok lib s \<longleftrightarrow>
     (\<forall>k p. ps_metric_keys s k = Some p \<longleftrightarrow> p \<in> dom (ps_metrics s) \<and> mt_metric_key (pr_metadata lib p) = k)
     \<and> 0 \<notin> dom (ps_metrics s)
     \<and> (\<forall>p rm. ps_metrics s p = Some rm \<longrightarrow> rm_family_key rm \<in> dom (ps_families s)
          \<and> fk_type (rm_family_key rm) = registered_type rm \<and> fk_metric_name (rm_family_key rm) = mt_metric_name (pr_metadata lib p))
     \<and> (\<forall>fk h. ps_families s fk = Some h \<longrightarrow> fst (fh_family h) = fk_type fk
          \<and> unat (fh_metric_count h) = card (family_members (ps_metrics s) fk))"

text \<open>What threads may do: call the sink, or use its registry themselves.\<close>

inductive prometheus_reachable :: "('d, 'r) prometheus \<Rightarrow> 'r prometheus_sink \<Rightarrow> bool" for lib where
  start: "prometheus_reachable lib (ps_new r)"
| outside: "prometheus_reachable lib s \<Longrightarrow> prometheus_reachable lib (s\<lparr>ps_registry := r\<rparr>)"
| register: "prometheus_reachable lib s \<Longrightarrow> register_metric lib p help constant_labels adder s = (e, s') \<Longrightarrow> prometheus_reachable lib s'"
| unregister: "prometheus_reachable lib s \<Longrightarrow> unregister_metric lib p s = Some (res, s') \<Longrightarrow> prometheus_reachable lib s'"
| unregister_key: "prometheus_reachable lib s \<Longrightarrow> unregister_metric_key lib k s = Some (res, s') \<Longrightarrow> prometheus_reachable lib s'"
| sample: "prometheus_reachable lib s \<Longrightarrow> ps_write_metric lib p v s = Some s' \<Longrightarrow> prometheus_reachable lib s'"

lemma family_members_insert:
  "M p = None \<Longrightarrow> family_members (M(p \<mapsto> rm)) fk = (if rm_family_key rm = fk then insert p (family_members M fk) else family_members M fk)"
  by (auto simp: family_members_def)

lemma family_members_remove: "family_members (M(p := None)) fk = family_members M fk - {p}"
  by (auto simp: family_members_def)

lemma family_members_bound:
  assumes "0 \<notin> dom M"
  shows "card (family_members M fk) < 2 ^ 64"
proof -
  have "family_members M fk \<subset> UNIV" using assms by (auto simp: family_members_def)
  then have "card (family_members M fk) < card (UNIV :: u64 set)" by (intro psubset_card_mono) simp_all
  then show ?thesis by (simp add: card_word)
qed

lemma prometheus_ok_registry [simp]: "prometheus_ok lib (s\<lparr>ps_registry := r\<rparr>) \<longleftrightarrow> prometheus_ok lib s"
  by (simp add: prometheus_ok_def)

lemma prometheus_ok_family:
  assumes "prometheus_ok lib s" "ps_families s fk = None"
  shows "prometheus_ok lib (s\<lparr>ps_registry := r, ps_families := (ps_families s)(fk \<mapsto> \<lparr>fh_help = help, fh_metric_count = 0, fh_family = (fk_type fk, f)\<rparr>)\<rparr>)"
proof -
  have "family_members (ps_metrics s) fk = {}"
    using assms by (fastforce simp: prometheus_ok_def family_members_def)
  with assms show ?thesis by (auto simp: prometheus_ok_def)
qed

lemma get_or_create_family_ok:
  assumes "prometheus_ok lib s" "get_or_create_family lib fk help s = (res, s')"
  shows "prometheus_ok lib s'" "ps_metrics s' = ps_metrics s" "ps_metric_keys s' = ps_metric_keys s"
    "\<And>h. res = Inr h \<Longrightarrow> ps_families s' fk = Some h"
  using assms prometheus_ok_family [OF assms(1)]
  by (auto simp: get_or_create_family_def Let_def split: option.splits if_splits sum.splits prod.splits)

text \<open>A registration fails and registers nothing, or adds one metric to its family.\<close>

lemma validated: "validate_metric_metadata lib p = Inr md \<Longrightarrow> p \<noteq> 0 \<and> md = pr_metadata lib p"
  by (auto simp: validate_metric_metadata_def split: if_splits)

lemma registered_parts [simp]:
  "rm_family_key (registered adder fk m) = fk" "rm_metric (registered adder fk m) = m"
  "registered_type (registered adder fk m) = adder_type adder"
  by (cases adder; simp)+

lemma register_metric_cases:
  assumes "prometheus_ok lib s" "register_metric lib p help constant_labels adder s = (e, s')"
  obtains
    (failed) err where "e = Some err" "ps_metrics s' = ps_metrics s" "ps_metric_keys s' = ps_metric_keys s" "prometheus_ok lib s'"
  | (added) md s1 h fk m r where "e = None" "validate_metric_metadata lib p = Inr md" "\<not> has_metric (mt_metric_key md) s"
      "prometheus_ok lib s1" "ps_metrics s1 = ps_metrics s" "ps_metric_keys s1 = ps_metric_keys s" "ps_families s1 fk = Some h"
      "fk = \<lparr>fk_type = adder_type adder, fk_metric_name = mt_metric_name md, fk_constant_labels = constant_labels\<rparr>"
      "s' = s1\<lparr>ps_registry := r, ps_metrics := emplace p (registered adder fk m) (ps_metrics s1),
               ps_metric_keys := emplace (mt_metric_key md) p (ps_metric_keys s1),
               ps_families := (ps_families s1)(fk \<mapsto> h\<lparr>fh_metric_count := fh_metric_count h + 1\<rparr>)\<rparr>"
proof -
  consider (early) err where "e = Some err" "s' = s"
    | (go) md labels where "validate_metric_metadata lib p = Inr md" "make_metric_labels md = Inr labels"
        "validate_prometheus_metadata lib (adder_type adder) (mt_metric_name md) constant_labels labels = None" "\<not> has_metric (mt_metric_key md) s"
        "alias_check lib md \<lparr>fk_type = adder_type adder, fk_metric_name = mt_metric_name md, fk_constant_labels = constant_labels\<rparr> labels s = None"
    using assms(2) unfolding register_metric_def Let_def by (fastforce split: sum.splits option.splits if_splits)
  then show thesis
  proof cases
    case early
    with assms(1) failed show thesis by blast
  next
    case go
    let ?fk = "\<lparr>fk_type = adder_type adder, fk_metric_name = mt_metric_name md, fk_constant_labels = constant_labels\<rparr>"
    obtain res s1 where fam: "get_or_create_family lib ?fk help s = (res, s1)" by force
    note ok = get_or_create_family_ok [OF assms(1) fam]
    show thesis
    proof (cases res)
      case (Inl err)
      with assms(2) go fam have "e = Some err" "s' = s1" by (auto simp: register_metric_def Let_def)
      with ok failed show thesis by blast
    next
      case (Inr h)
      show thesis
      proof (cases "get_family (adder_type adder) h")
        case (Inl err)
        with assms(2) go fam Inr have "e = Some err" "s' = s1" by (auto simp: register_metric_def Let_def)
        with ok failed show thesis by blast
      next
        case (Inr f)
        obtain q r where add: "pr_add lib f labels adder (ps_registry s1) = (q, r)" by force
        show thesis
        proof (cases q)
          case (Inl err)
          with assms(2) go fam \<open>res = Inr h\<close> Inr add have "e = Some err" "s' = s1\<lparr>ps_registry := r\<rparr>" by (auto simp: register_metric_def Let_def)
          with ok failed show thesis by simp
        next
          case (Inr m)
          with assms(2) go fam \<open>res = Inr h\<close> \<open>get_family (adder_type adder) h = Inr f\<close> add
          have "e = None" "s' = s1\<lparr>ps_registry := r, ps_metrics := emplace p (registered adder ?fk m) (ps_metrics s1),
               ps_metric_keys := emplace (mt_metric_key md) p (ps_metric_keys s1),
               ps_families := (ps_families s1)(?fk \<mapsto> h\<lparr>fh_metric_count := fh_metric_count h + 1\<rparr>)\<rparr>"
            by (auto simp: register_metric_def Let_def)
          with added go(1,4) ok(1-3) ok(4) [OF \<open>res = Inr h\<close>] show thesis by blast
        qed
      qed
    qed
  qed
qed

lemma register_metric_ok:
  assumes "prometheus_ok lib s" "register_metric lib p help constant_labels adder s = (e, s')"
  shows "prometheus_ok lib s'
    \<and> (if e = None then \<not> has_metric (mt_metric_key (pr_metadata lib p)) s \<and> p \<notin> dom (ps_metrics s)
         \<and> ps_metric_keys s' = (ps_metric_keys s)(mt_metric_key (pr_metadata lib p) \<mapsto> p)
         \<and> (\<exists>rm. ps_metrics s' = (ps_metrics s)(p \<mapsto> rm) \<and> registered_type rm = adder_type adder)
       else ps_metric_keys s' = ps_metric_keys s \<and> ps_metrics s' = ps_metrics s)"
proof (rule register_metric_cases [OF assms])
  fix md s1 h fk m r
  assume e: "e = None" and md: "validate_metric_metadata lib p = Inr md" and new: "\<not> has_metric (mt_metric_key md) s"
    and s1: "prometheus_ok lib s1" "ps_metrics s1 = ps_metrics s" "ps_metric_keys s1 = ps_metric_keys s" "ps_families s1 fk = Some h"
    and fk: "fk = \<lparr>fk_type = adder_type adder, fk_metric_name = mt_metric_name md, fk_constant_labels = constant_labels\<rparr>"
    and s': "s' = s1\<lparr>ps_registry := r, ps_metrics := emplace p (registered adder fk m) (ps_metrics s1),
               ps_metric_keys := emplace (mt_metric_key md) p (ps_metric_keys s1),
               ps_families := (ps_families s1)(fk \<mapsto> h\<lparr>fh_metric_count := fh_metric_count h + 1\<rparr>)\<rparr>"
  from validated [OF md] have p: "p \<noteq> 0" "md = pr_metadata lib p" by auto
  have keyless: "ps_metric_keys s (mt_metric_key md) = None" using new by (simp add: has_metric_def)
  with assms(1) p(2) have free: "ps_metrics s p = None" unfolding prometheus_ok_def by (metis domIff option.distinct(1))
  let ?M = "(ps_metrics s)(p \<mapsto> registered adder fk m)"
  have maps: "ps_metrics s' = ?M" "ps_metric_keys s' = (ps_metric_keys s)(mt_metric_key md \<mapsto> p)"
    "ps_families s' = (ps_families s1)(fk \<mapsto> h\<lparr>fh_metric_count := fh_metric_count h + 1\<rparr>)"
    using s' s1(2,3) keyless free by (simp_all add: emplace_def)
  have members: "family_members ?M k = (if k = fk then insert p (family_members (ps_metrics s) k) else family_members (ps_metrics s) k)" for k
    using family_members_insert [of "ps_metrics s" p] free by auto
  have zero: "0 \<notin> dom ?M" using assms(1) p(1) by (auto simp: prometheus_ok_def)
  have h: "unat (fh_metric_count h) = card (family_members (ps_metrics s) fk)" "fst (fh_family h) = fk_type fk"
    using s1(1,2,4) by (auto simp: prometheus_ok_def)
  have "p \<notin> family_members (ps_metrics s) fk" using free by (simp add: family_members_def)
  then have grown: "card (family_members ?M fk) = Suc (unat (fh_metric_count h))" using members h by simp
  with family_members_bound [OF zero, of fk] have "unat (fh_metric_count h + 1) = card (family_members ?M fk)"
    by (simp add: unat_word_ariths)
  moreover have "\<forall>k q. ps_metric_keys s' k = Some q \<longleftrightarrow> q \<in> dom ?M \<and> mt_metric_key (pr_metadata lib q) = k"
  proof (intro allI)
    fix k q
    have iff: "ps_metric_keys s k = Some q \<longleftrightarrow> q \<in> dom (ps_metrics s) \<and> mt_metric_key (pr_metadata lib q) = k" for k
      using assms(1) by (simp add: prometheus_ok_def)
    from iff [of "mt_metric_key md"] iff [of k] keyless free p(2)
    show "ps_metric_keys s' k = Some q \<longleftrightarrow> q \<in> dom ?M \<and> mt_metric_key (pr_metadata lib q) = k"
      unfolding maps by auto
  qed
  moreover have "\<forall>q rm. ?M q = Some rm \<longrightarrow> rm_family_key rm \<in> dom (ps_families s') \<and> fk_type (rm_family_key rm) = registered_type rm
      \<and> fk_metric_name (rm_family_key rm) = mt_metric_name (pr_metadata lib q)"
    using s1(1,2) p(2) unfolding maps by (auto simp: prometheus_ok_def fk)
  moreover have "\<forall>k h'. ps_families s' k = Some h' \<longrightarrow> fst (fh_family h') = fk_type k \<and> (k \<noteq> fk \<longrightarrow> unat (fh_metric_count h') = card (family_members ?M k))"
    using s1(1,2) h(2) unfolding maps members by (auto simp: prometheus_ok_def)
  ultimately have "prometheus_ok lib s'"
    using zero unfolding prometheus_ok_def maps(1) by (auto simp: maps(3))
  with e new maps p(2) free show ?thesis by auto
qed simp

text \<open>Removal neither misses a family nor misreads its variant.\<close>

lemma erase_metric_ok:
  assumes "prometheus_ok lib s" "ps_metrics s p = Some rm" "key = mt_metric_key (pr_metadata lib p)"
  obtains s' where "erase_metric lib key p rm s = Some (None, s')" "prometheus_ok lib s'"
    "ps_metric_keys s' = (ps_metric_keys s)(key := None)" "ps_metrics s' = (ps_metrics s)(p := None)"
proof -
  let ?fk = "rm_family_key rm" and ?M = "(ps_metrics s)(p := None)"
  obtain h where h: "ps_families s ?fk = Some h" "fk_type ?fk = registered_type rm"
    using assms(1,2) by (fastforce simp: prometheus_ok_def)
  then have fam: "fst (fh_family h) = registered_type rm" "unat (fh_metric_count h) = card (family_members (ps_metrics s) ?fk)"
    using assms(1) by (fastforce simp: prometheus_ok_def)+
  have p: "p \<in> family_members (ps_metrics s) ?fk" using assms(2) by (simp add: family_members_def)
  then have pos: "0 < unat (fh_metric_count h)" unfolding fam(2) by (metis card_gt_0_iff empty_iff finite)
  then have count: "fh_metric_count h > 0" by (simp add: unat_gt_0 word_neq_0_conv)
  define s' where "s' = s\<lparr>ps_registry := pr_remove lib (snd (fh_family h)) (rm_metric rm) (ps_registry s),
      ps_families := (if fh_metric_count h - 1 = 0 then (ps_families s)(?fk := None) else (ps_families s)(?fk \<mapsto> h\<lparr>fh_metric_count := fh_metric_count h - 1\<rparr>)),
      ps_metric_keys := (ps_metric_keys s)(key := None), ps_metrics := ?M\<rparr>"
  have run: "erase_metric lib key p rm s = Some (None, s')"
    using h(1) fam(1) count by (simp add: erase_metric_def get_family_def s'_def Let_def)
  have less: "unat (fh_metric_count h - 1) = card (family_members ?M ?fk)"
    using p fam(2) count by (simp add: family_members_remove unat_minus_one word_neq_0_conv)
  have other: "family_members ?M k = family_members (ps_metrics s) k" if "k \<noteq> ?fk" for k
    using that assms(2) by (auto simp: family_members_def)
  have gone: "k \<noteq> ?fk" if "fh_metric_count h - 1 = 0" "?M q = Some rm'" "k = rm_family_key rm'" for q rm' k
  proof
    assume "k = ?fk"
    then have "q \<in> family_members ?M ?fk" using that(2,3) by (simp add: family_members_def)
    then have "card (family_members ?M ?fk) \<noteq> 0" by (metis card_0_eq empty_iff finite)
    with less that(1) show False by simp
  qed
  have "\<forall>k q. ps_metric_keys s' k = Some q \<longleftrightarrow> q \<in> dom ?M \<and> mt_metric_key (pr_metadata lib q) = k"
  proof (intro allI)
    fix k q
    have one: "q = p" if "q \<in> dom (ps_metrics s)" "mt_metric_key (pr_metadata lib q) = key"
      using assms that unfolding prometheus_ok_def by (metis domI option.inject)
    have "ps_metric_keys s k = Some q \<longleftrightarrow> q \<in> dom (ps_metrics s) \<and> mt_metric_key (pr_metadata lib q) = k"
      using assms(1) by (simp add: prometheus_ok_def)
    with one assms(3) show "ps_metric_keys s' k = Some q \<longleftrightarrow> q \<in> dom ?M \<and> mt_metric_key (pr_metadata lib q) = k"
      by (auto simp: s'_def)
  qed
  moreover have "0 \<notin> dom ?M" using assms(1) by (simp add: prometheus_ok_def)
  moreover have "\<forall>q rm'. ?M q = Some rm' \<longrightarrow> rm_family_key rm' \<in> dom (ps_families s') \<and> fk_type (rm_family_key rm') = registered_type rm'
      \<and> fk_metric_name (rm_family_key rm') = mt_metric_name (pr_metadata lib q)"
    using assms(1) gone by (auto simp: prometheus_ok_def s'_def)
  moreover have "\<forall>k h'. ps_families s' k = Some h' \<longrightarrow> fst (fh_family h') = fk_type k \<and> unat (fh_metric_count h') = card (family_members ?M k)"
    using assms(1) less other fam(1) h(2) by (auto simp: prometheus_ok_def s'_def split: if_splits)
  ultimately have "prometheus_ok lib s'" by (simp add: prometheus_ok_def s'_def)
  with run that show thesis by (simp add: s'_def)
qed

lemma prometheus_reachable_ok: "prometheus_reachable lib s \<Longrightarrow> prometheus_ok lib s"
proof (induction rule: prometheus_reachable.induct)
  case (start r)
  then show ?case by (simp add: prometheus_ok_def ps_new_def)
next
  case (outside s r)
  then show ?case by simp
next
  case (register s p d constant_labels adder e s')
  with register_metric_ok show ?case by blast
next
  case (unregister s p res s')
  show ?case
  proof (cases "validate_metric_metadata lib p")
    case (Inr md)
    show ?thesis
    proof (cases "ps_metrics s p")
      case (Some rm)
      from erase_metric_ok [OF unregister.IH Some refl] obtain s1 where
        "erase_metric lib (mt_metric_key (pr_metadata lib p)) p rm s = Some (None, s1)" "prometheus_ok lib s1" by blast
      with unregister.hyps Inr Some validated [OF Inr] show ?thesis by (auto simp: unregister_metric_def unregister_registered_def erased_def split: if_splits)
    qed (use unregister Inr in \<open>auto simp: unregister_metric_def unregister_registered_def\<close>)
  qed (use unregister in \<open>auto simp: unregister_metric_def unregister_registered_def\<close>)
next
  case (unregister_key s k res s')
  show ?case
  proof (cases "ps_metric_keys s k")
    case (Some p)
    with unregister_key.IH obtain rm where rm: "ps_metrics s p = Some rm" "k = mt_metric_key (pr_metadata lib p)"
      by (auto simp: prometheus_ok_def)
    from erase_metric_ok [OF unregister_key.IH rm] obtain s1 where
      "erase_metric lib k p rm s = Some (None, s1)" "prometheus_ok lib s1" by blast
    with unregister_key.hyps Some rm(1) show ?thesis by (auto simp: unregister_metric_key_def erased_def)
  qed (use unregister_key in \<open>auto simp: unregister_metric_key_def\<close>)
next
  case (sample s p v s')
  then show ?case by (auto simp: ps_write_metric_def split: if_splits option.splits)
qed

lemma unregister_key_outcome:
  assumes "prometheus_ok lib s"
  shows "\<exists>s'. unregister_metric_key lib k s = Some (Inr (has_metric k s), s') \<and> ps_metric_keys s' = (ps_metric_keys s)(k := None)"
proof (cases "ps_metric_keys s k")
  case (Some p)
  with assms obtain rm where rm: "ps_metrics s p = Some rm" "k = mt_metric_key (pr_metadata lib p)"
    by (auto simp: prometheus_ok_def)
  from erase_metric_ok [OF assms rm] obtain s1 where
    "erase_metric lib k p rm s = Some (None, s1)" "ps_metric_keys s1 = (ps_metric_keys s)(k := None)" by blast
  with Some rm(1) show ?thesis by (simp add: unregister_metric_key_def erased_def has_metric_def)
qed (auto simp: unregister_metric_key_def has_metric_def)

lemma unregister_outcome:
  assumes "prometheus_ok lib s" "validate_metric_metadata lib p = Inr md"
  shows "\<exists>s'. unregister_metric lib p s = Some (Inr (p \<in> dom (ps_metrics s)), s') \<and> ps_metrics s' = (ps_metrics s)(p := None)"
proof (cases "ps_metrics s p")
  case (Some rm)
  from validated [OF assms(2)] have md: "md = pr_metadata lib p" by simp
  have "ps_metric_keys s (mt_metric_key md) = Some p" using assms(1) Some md by (auto simp: prometheus_ok_def)
  moreover from erase_metric_ok [OF assms(1) Some refl] obtain s1 where
    "erase_metric lib (mt_metric_key md) p rm s = Some (None, s1)" "ps_metrics s1 = (ps_metrics s)(p := None)" unfolding md by blast
  ultimately show ?thesis using Some assms(2) by (simp add: unregister_metric_def unregister_registered_def erased_def domIff)
qed (use assms(2) in \<open>auto simp: unregister_metric_def unregister_registered_def domIff\<close>)

lemma write_metric_outcome:
  assumes "p \<noteq> 0"
  shows "ps_write_metric lib p v s = Some (case ps_metrics s p of None \<Rightarrow> s
    | Some rm \<Rightarrow> s\<lparr>ps_registry := pr_sample lib (apply_sample rm) (rm_metric rm) v (ps_registry s)\<rparr>)"
  using assms by (auto simp: ps_write_metric_def split: option.split)

text \<open>
  C40. However calls of the sink are interleaved, and whatever the library does, also when it throws
  or its registry is used behind the sink's back: the keys and the metrics name the same
  registrations, each family in use exists with its type, name and exact count; no assertion of a removal
  fails and no variant is misread; a key or a metric is removed exactly when it was registered, and
  a registration either adds one metric under a new key or leaves all others as they were.
\<close>

theorem prometheus_registrations_agree:
  assumes "prometheus_reachable lib s"
  shows "prometheus_ok lib s
    \<and> (\<exists>s'. unregister_metric_key lib k s = Some (Inr (has_metric k s), s') \<and> ps_metric_keys s' = (ps_metric_keys s)(k := None))
    \<and> (case validate_metric_metadata lib p of
         Inl e \<Rightarrow> unregister_metric lib p s = Some (Inl e, s)
       | Inr md \<Rightarrow> \<exists>s'. unregister_metric lib p s = Some (Inr (p \<in> dom (ps_metrics s)), s') \<and> ps_metrics s' = (ps_metrics s)(p := None))
    \<and> (case register_metric lib p help_text constant_labels adder s of
         (Some e, s') \<Rightarrow> ps_metric_keys s' = ps_metric_keys s \<and> ps_metrics s' = ps_metrics s
       | (None, s') \<Rightarrow> \<not> has_metric (mt_metric_key (pr_metadata lib p)) s \<and> p \<notin> dom (ps_metrics s)
           \<and> ps_metric_keys s' = (ps_metric_keys s)(mt_metric_key (pr_metadata lib p) \<mapsto> p)
           \<and> (\<exists>rm. ps_metrics s' = (ps_metrics s)(p \<mapsto> rm) \<and> registered_type rm = adder_type adder))"
proof (intro conjI)
  show ok: "prometheus_ok lib s" by (rule prometheus_reachable_ok [OF assms])
  show "\<exists>s'. unregister_metric_key lib k s = Some (Inr (has_metric k s), s') \<and> ps_metric_keys s' = (ps_metric_keys s)(k := None)"
    by (rule unregister_key_outcome [OF ok])
  show "case validate_metric_metadata lib p of
         Inl e \<Rightarrow> unregister_metric lib p s = Some (Inl e, s)
       | Inr md \<Rightarrow> \<exists>s'. unregister_metric lib p s = Some (Inr (p \<in> dom (ps_metrics s)), s') \<and> ps_metrics s' = (ps_metrics s)(p := None)"
    using unregister_outcome [OF ok] by (cases "validate_metric_metadata lib p") (auto simp: unregister_metric_def)
  obtain e s' where run: "register_metric lib p help_text constant_labels adder s = (e, s')" by force
  with register_metric_ok [OF ok run] show "case register_metric lib p help_text constant_labels adder s of
         (Some e, s') \<Rightarrow> ps_metric_keys s' = ps_metric_keys s \<and> ps_metrics s' = ps_metrics s
       | (None, s') \<Rightarrow> \<not> has_metric (mt_metric_key (pr_metadata lib p)) s \<and> p \<notin> dom (ps_metrics s)
           \<and> ps_metric_keys s' = (ps_metric_keys s)(mt_metric_key (pr_metadata lib p) \<mapsto> p)
           \<and> (\<exists>rm. ps_metrics s' = (ps_metrics s)(p \<mapsto> rm) \<and> registered_type rm = adder_type adder)"
    by (simp split: option.split)
qed

definition example_prometheus :: "(nat, nat) prometheus" where
  "example_prometheus = \<lparr>pr_metadata = (\<lambda>_. metric_metadata_new ''k'' ''n'' []), pr_check_metric_name = (\<lambda>_. True), pr_check_label_name = (\<lambda>_ _. True),
     pr_register = (\<lambda>_ _ _ _ r. (Inr 0, r)), pr_has = (\<lambda>_ _ r. 0 < r), pr_add = (\<lambda>_ _ _ r. (Inr r, r + 1)), pr_remove = (\<lambda>_ _ r. r - 1),
     pr_sample = (\<lambda>_ _ _ r. r)\<rparr>"

theorem prometheus_registrations_agree_witness:
  "\<exists>(s :: nat prometheus_sink) s' s2. prometheus_reachable example_prometheus s
    \<and> unregister_metric_key example_prometheus ''k'' s = Some (Inr True, s') \<and> \<not> has_metric ''k'' s'
    \<and> (\<exists>e. register_metric example_prometheus 8 [] [] AddCounter s = (Some e, s2) \<and> ps_metrics s2 = ps_metrics s)"
proof -
  let ?l = example_prometheus
  let ?s = "snd (register_metric ?l 8 [] [] AddCounter (ps_new 0))"
  have "prometheus_reachable ?l ?s" by (rule prometheus_reachable.register [OF prometheus_reachable.start prod.collapse [symmetric]])
  note facts = prometheus_registrations_agree [OF this, where k = "''k''" and p = 8 and help_text = "[]" and constant_labels = "[]" and adder = AddCounter]
  have key: "mt_metric_key (pr_metadata ?l 8) = ''k''" by (simp add: example_prometheus_def)
  have has: "has_metric ''k'' ?s"
    by (simp add: register_metric_def example_prometheus_def validate_metric_metadata_def make_metric_labels_def validate_prometheus_metadata_def
        has_metric_def ps_new_def alias_check_def get_or_create_family_def get_family_def emplace_def Let_def)
  obtain e s2 where r: "register_metric ?l 8 [] [] AddCounter ?s = (e, s2)" by force
  with facts has key obtain err where "e = Some err" "ps_metrics s2 = ps_metrics ?s" by (cases e) auto
  moreover from facts has obtain s' where "unregister_metric_key ?l ''k'' ?s = Some (Inr True, s')" "ps_metric_keys s' = (ps_metric_keys ?s)(''k'' := None)"
    by auto
  ultimately show ?thesis using \<open>prometheus_reachable ?l ?s\<close> r by (auto simp: has_metric_def)
qed

end
