(* ===== verification/Spec2Isabelle.thy ===== *)
theory Spec2Isabelle
  imports Prelude Std_String Common Math_Utilities Bounded_Queue Unbounded_Queue Log_Level Mdc_State Backend_Options
    Macro_Metadata Transit_Event Transit_Buffer Backtrace_Storage Inlined_Vector Codec Thread_Context Frontend_Logger Immediate_Flush Named_Args
    Error_Notifier Backend_Decode Slot_Reuse Message_Flow
    String_From_Time Strftime_Text Timestamp_Formatter Pattern_Formatter Pattern_Text Sink_Base Sorted_Vector Logger_Manager Sink_Manager Backend_Dispatch Dispatch_Text Backend_Worker Worker_Order Worker_Cleanup
    Rotation_Name File_Sink Rotation_Time Rotating_Sink Rotation_Flow Json_Sink
    Metric_Manager Prometheus_Sink
begin

text \<open>
  A verification library for Quill, the asynchronous logging library this repository benchmarks
  (\<^verbatim>\<open>src/quill/include/quill\<close>; paths below are relative to it).

  \<^bold>\<open>The program.\<close> A frontend thread writes a statement's arguments, without formatting them, into a
  single-producer single-consumer queue of its own. One backend thread reads all the queues, formats
  the messages into a buffer of events per frontend thread, and takes the event with the lowest
  timestamp out of these buffers. It applies the pattern of the statement's logger, and hands the
  text to the logger's sinks. The registries of thread contexts, loggers and sinks connect the two
  sides. A flush, the removal of a logger, backtraces, metrics and the mapped diagnostic context
  travel through the queues as events too.

  \<^bold>\<open>Theories, in the order in which the code uses them.\<close>

  \<^item> \<open>Prelude\<close>, \<open>Std_String\<close>, \<open>Common\<close>, \<open>Math_Utilities\<close>, \<open>Log_Level\<close>, \<open>Sorted_Vector\<close>: machine types,
    exceptions as the sum type over \<open>quill_error\<close>, the library functions the code calls,
    \<^verbatim>\<open>core/Common.h\<close>, \<^verbatim>\<open>core/MathUtilities.h\<close>, \<^verbatim>\<open>core/LogLevel.h\<close>, and vectors searched with
    \<^verbatim>\<open>lower_bound\<close>. \<open>next_power_of_two_least\<close> and \<open>log_level_roundtrip\<close> (in \<open>Backend_Options\<close>) are theirs.
  \<^item> \<open>Bounded_Queue\<close> (\<^verbatim>\<open>core/BoundedSPSCQueue.h\<close>) and \<open>Unbounded_Queue\<close> (\<^verbatim>\<open>core/UnboundedSPSCQueue.h\<close>): the
    byte ring with its cached positions, generic in the width of a position, and the chain of rings.
    The producer and the consumer are step relations over the same state; the refinement says that
    every interleaving delivers the messages in order, once, with their bytes. The locales
    \<open>fifo_queue\<close> and \<open>exact_fifo_queue\<close> of \<open>Common\<close> state what a queue promises and are interpreted on
    the ring, on the chain and on the buffer of events; \<open>step_invariant\<close> carries the invariants of
    the runs of several threads.
  \<^item> \<open>Inlined_Vector\<close> (\<^verbatim>\<open>core/InlinedVector.h\<close>), \<open>Codec\<close> (\<^verbatim>\<open>core/Codec.h\<close>), \<open>Macro_Metadata\<close>
    (\<^verbatim>\<open>core/MacroMetadata.h\<close>), \<open>Thread_Context\<close> (\<^verbatim>\<open>core/ThreadContextManager.h\<close>), \<open>Frontend_Logger\<close>
    (\<^verbatim>\<open>Logger.h\<close>, \<^verbatim>\<open>core/LoggerBase.h\<close>) and \<open>Immediate_Flush\<close>: the frontend. Its properties are the round
    trip of the codec, that a statement enters the queue whole or not at all, that exactly the dropped
    statements are counted, that a blocked writer is released, and the accounting of the message
    counter under every interleaving.
  \<^item> \<open>Mdc_State\<close>, \<open>Backend_Options\<close>, \<open>Transit_Event\<close>, \<open>Transit_Buffer\<close>, \<open>Backtrace_Storage\<close>
    (\<^verbatim>\<open>backend/BackendMdcState.h\<close>, \<^verbatim>\<open>BackendOptions.h\<close>, \<^verbatim>\<open>TransitEvent.h\<close>, \<^verbatim>\<open>TransitEventBuffer.h\<close>,
    \<^verbatim>\<open>BacktraceStorage.h\<close>): the backend's data, each refining a simple mathematical object: a map, a
    queue, the last messages.
  \<^item> \<open>Named_Args\<close>, \<open>Error_Notifier\<close>, \<open>Backend_Decode\<close>, \<open>Slot_Reuse\<close>, \<open>Message_Flow\<close>
    (\<^verbatim>\<open>backend/BackendWorker.h\<close>, from \<^verbatim>\<open>_read_and_decode_frontend_queue\<close> on): a message becomes an event.
    \<open>queue_delivered_in_order\<close> follows statements from the frontend's bytes to the buffered events,
    through slots that were used before; \<open>bounded_queue_is_drained\<close> says that one call empties a queue.
  \<^item> \<open>String_From_Time\<close>, \<open>Strftime_Text\<close>, \<open>Timestamp_Formatter\<close>, \<open>Pattern_Formatter\<close>, \<open>Pattern_Text\<close>
    (\<^verbatim>\<open>backend/StringFromTime.h\<close>, \<^verbatim>\<open>TimestampFormatter.h\<close>, \<^verbatim>\<open>PatternFormatter.h\<close>): the text of a
    statement. The cached time is the time \<^verbatim>\<open>strftime\<close> gives, and the text is the pattern with its
    attributes replaced, given what the documentation says of the calendar functions.
  \<^item> \<open>Sink_Base\<close>, \<open>Logger_Manager\<close>, \<open>Sink_Manager\<close> (\<^verbatim>\<open>sinks/Sink.h\<close>, \<^verbatim>\<open>core/LoggerManager.h\<close>,
    \<^verbatim>\<open>core/SinkManager.h\<close>): filters and the registries, with the runs of several threads over them.
  \<^item> \<open>Backend_Dispatch\<close>, \<open>Dispatch_Text\<close> (\<^verbatim>\<open>BackendWorker.h\<close>, from
    \<^verbatim>\<open>_process_lowest_timestamp_transit_event\<close> on): an event reaches the sinks. A statement is written to
    exactly the sinks that take it, and a sink that throws is reported and harms no other.
  \<^item> \<open>Backend_Worker\<close>, \<open>Worker_Order\<close>, \<open>Worker_Cleanup\<close> (\<^verbatim>\<open>BackendWorker.h\<close>, \<^verbatim>\<open>run\<close>, \<^verbatim>\<open>_poll\<close>, \<^verbatim>\<open>_exit\<close>, \<^verbatim>\<open>stop\<close>
    and what they call): the main loop. A batch ends and is the merge of the threads' events by
    timestamp; output timestamps never go back; contexts and loggers are removed only when nothing
    of them is left to write; a flush releases its caller after every sink was flushed.

  \<^item> \<open>File_Sink\<close>, \<open>Rotation_Name\<close>, \<open>Rotation_Time\<close>, \<open>Rotating_Sink\<close>, \<open>Rotation_Flow\<close>
    (\<^verbatim>\<open>sinks/StreamSink.h\<close>, \<^verbatim>\<open>sinks/FileSink.h\<close>, \<^verbatim>\<open>sinks/RotatingSink.h\<close>; their POSIX branches): the sinks that
    write files. Statements reach the file in order whatever calls the system refuses; the name of a
    rotated file is parsed back to what it was made from; the next rotation is the first on its grid
    behind the record; the files of a rotating sink put together lose nothing in a rotation, nor in
    one that fails half-way, and the file in use stays within its size.
  \<^item> \<open>Json_Sink\<close> (\<^verbatim>\<open>sinks/JsonSink.h\<close>, over any sink): a statement is one line of JSON, from which a reader
    of JSON gets its members and named arguments, whatever characters are in them.
  \<^item> \<open>Metric_Manager\<close>, \<open>Prometheus_Sink\<close> (\<^verbatim>\<open>core/Metric.h\<close>, \<^verbatim>\<open>core/MetricManager.h\<close>,
    \<^verbatim>\<open>sinks/metrics/PrometheusSink.h\<close>): the registry of metrics is a map whatever is called, and the
    registrations of the sink agree with its keys and families whatever the library does.

  \<^bold>\<open>State.\<close> An object is a record with the members of its class; an object behind a pointer is found in
  a list or a map under its address or number. Atomic operations and critical sections are the steps
  of a relation where several threads act; elsewhere an operation is a function from state to state,
  and what other threads do happens between the operations. Integers have the width the code gives
  them. An exception is \<open>Inl\<close>; \<open>None\<close> as the result of an operation stands for an access to an object
  that does not exist, or for a loop that does not end.

  \<^bold>\<open>Loops.\<close> The doubling loops of the ring sizes are \<open>while\<close> loops over words; loops over strings and
  registries are \<open>function\<close>s with a measure. Loops that wait for another thread, the reading loop of a
  queue, batches, the exit loop and the growth of \<^verbatim>\<open>strftime\<close>'s buffer are \<open>partial_function (option)\<close>;
  that they return is proved for a blocked writer (\<open>blocked_writer_released\<close>), the reading of a bounded
  queue (\<open>bounded_queue_is_drained\<close>), a batch (\<open>batch_is_a_merge\<close>) and the formatted time
  (\<open>timestamp_text_is_strftime\<close>). The only fuel is in \<open>unique_key_from\<close> and \<open>json_key\<close>:
  one more attempt than there are keys, which is enough because the candidates differ.

  \<^bold>\<open>Parameters.\<close> The Prometheus library, the formatting library (\<^verbatim>\<open>vformat\<close> and the parsing of format specifications, with the
  exceptions they raise), the calendar (\<^verbatim>\<open>strftime\<close>, \<^verbatim>\<open>gmtime\<close>, \<^verbatim>\<open>localtime\<close>, \<^verbatim>\<open>mktime\<close>), the clocks, user
  decoders, filters, sinks and hooks, which calls of the operating system succeed and how much they write, whether memory is found, environment variables, the
  normalisation of file names and the addresses of new objects.

  \<^bold>\<open>Not modelled.\<close> The sinks that write to the console or to the operating system; the
  backend takes what a sink does as a parameter. The bucket boundaries made for a histogram (floating point). The clock that calibrates
  the time stamp counter (floating point), the signal handler, thread names, affinity, sleeping and
  the lock file (system calls), the facades over the modelled classes, the log macros (preprocessor
  text), the codecs of further standard types, the bundled formatting library except for the fields of
  a format string, and the other loggers and the benchmark drivers of this repository. Memory
  ordering is sequentially consistent here; the addresses of huge pages and prefetching are left out.
\<close>

end
